(* ===== verification/Prelude.thy ===== *)
theory Prelude
  imports Main "HOL-Library.Word" "HOL-Library.Monad_Syntax" "HOL-Library.Product_Lexorder"
begin

text \<open>
  What every component of the firmware model shares.

  \<^item> The machine integers of the C code (\<open>UINT8\<close> to \<open>UINT64\<close>, \<open>UINTN\<close> and
    \<open>size_t\<close> being 64 bits wide on AArch64) as words, so that additions and products wrap
    where the C does.
  \<^item> Buffers as byte lists. A read outside a buffer, a dereference of a null pointer and a write
    past an allocation are undefined in C; the model makes them the value \<^const>\<open>None\<close>
    of an option (the \<open>do\<close> notation of the option monad sequences them), so that memory
    safety of an operation is the statement that it returns \<^const>\<open>Some\<close>.
  \<^item> The UEFI status codes as a datatype, and the C string functions the code calls.
\<close>

unbundle bit_operations_syntax

named_theorems mem_simps \<open>unfolding of the checked buffer accesses\<close>

subsection \<open>Integers and buffers\<close>

type_synonym u8 = "8 word"
type_synonym u16 = "16 word"
type_synonym u32 = "32 word"
type_synonym u64 = "64 word"
type_synonym bytes = "u8 list"

text \<open>Little-endian reads: AArch64 loads of a \<open>UINT16\<close>, \<open>UINT32\<close>, \<open>UINT64\<close>.\<close>

definition le16 :: "bytes \<Rightarrow> nat \<Rightarrow> u16" where
  "le16 b off = ucast (b ! off) OR push_bit 8 (ucast (b ! (off + 1)))"

definition le32 :: "bytes \<Rightarrow> nat \<Rightarrow> u32" where
  "le32 b off = ucast (b ! off) OR push_bit 8 (ucast (b ! (off + 1)))
     OR push_bit 16 (ucast (b ! (off + 2))) OR push_bit 24 (ucast (b ! (off + 3)))"

definition le64 :: "bytes \<Rightarrow> nat \<Rightarrow> u64" where
  "le64 b off = ucast (le32 b off) OR push_bit 32 (ucast (le32 b (off + 4)))"

text \<open>The same reads, checked against the end of the buffer.\<close>

definition rd8 :: "bytes \<Rightarrow> nat \<Rightarrow> u8 option" where
  "rd8 b off = (if off < length b then Some (b ! off) else None)"

definition rd16 :: "bytes \<Rightarrow> nat \<Rightarrow> u16 option" where
  "rd16 b off = (if off + 2 \<le> length b then Some (le16 b off) else None)"

definition rd32 :: "bytes \<Rightarrow> nat \<Rightarrow> u32 option" where
  "rd32 b off = (if off + 4 \<le> length b then Some (le32 b off) else None)"

definition rd64 :: "bytes \<Rightarrow> nat \<Rightarrow> u64 option" where
  "rd64 b off = (if off + 8 \<le> length b then Some (le64 b off) else None)"

text \<open>\<open>CopyMem\<close> and \<open>memcpy\<close> out of a buffer.\<close>

definition rdbytes :: "bytes \<Rightarrow> nat \<Rightarrow> nat \<Rightarrow> bytes option" where
  "rdbytes b off n = (if off + n \<le> length b then Some (take n (drop off b)) else None)"

lemma rd8_Some [simp]: "off < length b \<Longrightarrow> rd8 b off = Some (b ! off)"
  by (simp add: rd8_def)

lemma rd16_Some [simp]: "off + 2 \<le> length b \<Longrightarrow> rd16 b off = Some (le16 b off)"
  by (simp add: rd16_def)

lemma rd32_Some [simp]: "off + 4 \<le> length b \<Longrightarrow> rd32 b off = Some (le32 b off)"
  by (simp add: rd32_def)

lemma rd64_Some [simp]: "off + 8 \<le> length b \<Longrightarrow> rd64 b off = Some (le64 b off)"
  by (simp add: rd64_def)

lemma rdbytes_Some [simp]:
  "off + n \<le> length b \<Longrightarrow> rdbytes b off n = Some (take n (drop off b))"
  by (simp add: rdbytes_def)

lemmas rd_defs [mem_simps] = rd8_def rd16_def rd32_def rd64_def rdbytes_def

lemma rdbytes_length: "rdbytes b off n = Some xs \<Longrightarrow> length xs = n"
  by (auto simp: rdbytes_def split: if_splits)

lemma le16_append: "off + 2 \<le> length xs \<Longrightarrow> le16 (xs @ ys) off = le16 xs off"
  by (simp add: le16_def nth_append)

lemma le32_append: "off + 4 \<le> length xs \<Longrightarrow> le32 (xs @ ys) off = le32 xs off"
  by (simp add: le32_def nth_append)

lemma le16_drop: "n + off + 2 \<le> length xs \<Longrightarrow> le16 (drop n xs) off = le16 xs (n + off)"
  by (simp add: le16_def add.assoc)

lemma le32_drop: "n + off + 4 \<le> length xs \<Longrightarrow> le32 (drop n xs) off = le32 xs (n + off)"
  by (simp add: le32_def add.assoc)

subsection \<open>Additions that do not wrap around\<close>

lemma unat_add_of_nat:
  "unat (w :: 'a::len word) + n < 2 ^ LENGTH('a) \<Longrightarrow> unat (w + of_nat n) = unat w + n"
  by (simp add: unat_word_ariths unsigned_of_nat take_bit_nat_eq_self mod_add_right_eq take_bit_eq_mod)

lemma unat_of_nat_small: "n < 2 ^ LENGTH('a) \<Longrightarrow> unat (of_nat n :: 'a::len word) = n"
  by (simp add: unsigned_of_nat take_bit_nat_eq_self)

subsection \<open>Storing integers\<close>

text \<open>The byte image of an integer in little-endian order; the inverse of the reads.\<close>

definition bytes16 :: "u16 \<Rightarrow> bytes" where
  "bytes16 w = [ucast w, ucast (drop_bit 8 w)]"

definition bytes32 :: "u32 \<Rightarrow> bytes" where
  "bytes32 w = [ucast w, ucast (drop_bit 8 w), ucast (drop_bit 16 w), ucast (drop_bit 24 w)]"

lemma length_bytes16 [simp]: "length (bytes16 w) = 2"
  by (simp add: bytes16_def)

lemma length_bytes32 [simp]: "length (bytes32 w) = 4"
  by (simp add: bytes32_def)

lemma le16_bytes16 [simp]: "le16 (bytes16 w) 0 = w"
  by (rule bit_word_eqI)
    (auto simp: le16_def bytes16_def bit_simps)

lemma byte_index_cases:
  fixes n :: nat
  assumes "n < 32"
  obtains "n < 8" | k where "n = 8 + k" "k < 8" | k where "n = 16 + k" "k < 8"
    | k where "n = 24 + k" "k < 8"
proof (cases "n < 8")
  case True
  then show thesis by (rule that(1))
next
  case False
  then have n: "n = 8 + (n - 8)" "n = 16 + (n - 16) \<or> n < 16" "n = 24 + (n - 24) \<or> n < 24"
    by arith+
  show thesis
  proof (cases "n < 16")
    case True
    then show thesis using n(1) that(2) [of "n - 8"] by simp
  next
    case False
    then show thesis using n assms that(3) [of "n - 16"] that(4) [of "n - 24"]
      by (cases "n < 24") simp_all
  qed
qed

lemma le32_bytes32 [simp]: "le32 (bytes32 w) 0 = w"
proof (rule bit_word_eqI)
  fix n assume "n < LENGTH(32)"
  then have "n < 32" by simp
  then show "bit (le32 (bytes32 w) 0) n = bit w n"
    by (rule byte_index_cases) (auto simp: le32_def bytes32_def bit_simps)
qed

subsection \<open>UEFI status codes\<close>

datatype efi_status =
    EFI_SUCCESS | EFI_INVALID_PARAMETER | EFI_UNSUPPORTED | EFI_BAD_BUFFER_SIZE
  | EFI_BUFFER_TOO_SMALL | EFI_DEVICE_ERROR | EFI_WRITE_PROTECTED | EFI_OUT_OF_RESOURCES
  | EFI_VOLUME_CORRUPTED | EFI_MEDIA_CHANGED | EFI_NOT_FOUND | EFI_TIMEOUT
  | EFI_COMPROMISED_DATA | EFI_ABORTED | EFI_NO_RESPONSE | EFI_NO_MAPPING
  | EFI_ALREADY_STARTED | EFI_NOT_STARTED | EFI_NOT_READY | EFI_VOLUME_FULL
  | EFI_WARN_DELETE_FAILURE
  | EFI_OTHER_ERROR nat  \<comment> \<open>an error code of a service outside the repository\<close>

definition EFI_ERROR :: "efi_status \<Rightarrow> bool" where
  "EFI_ERROR st = (st \<noteq> EFI_SUCCESS \<and> st \<noteq> EFI_WARN_DELETE_FAILURE)"

lemma EFI_ERROR_simps [simp]:
  "\<not> EFI_ERROR EFI_SUCCESS" "\<not> EFI_ERROR EFI_WARN_DELETE_FAILURE"
  "EFI_ERROR EFI_INVALID_PARAMETER" "EFI_ERROR EFI_UNSUPPORTED" "EFI_ERROR EFI_BAD_BUFFER_SIZE"
  "EFI_ERROR EFI_BUFFER_TOO_SMALL" "EFI_ERROR EFI_DEVICE_ERROR" "EFI_ERROR EFI_WRITE_PROTECTED"
  "EFI_ERROR EFI_OUT_OF_RESOURCES" "EFI_ERROR EFI_VOLUME_CORRUPTED" "EFI_ERROR EFI_MEDIA_CHANGED"
  "EFI_ERROR EFI_NOT_FOUND" "EFI_ERROR EFI_TIMEOUT" "EFI_ERROR EFI_COMPROMISED_DATA"
  "EFI_ERROR EFI_ABORTED" "EFI_ERROR EFI_NO_RESPONSE" "EFI_ERROR EFI_NO_MAPPING"
  "EFI_ERROR EFI_ALREADY_STARTED" "EFI_ERROR EFI_NOT_STARTED" "EFI_ERROR EFI_NOT_READY"
  "EFI_ERROR EFI_VOLUME_FULL"
  "EFI_ERROR (EFI_OTHER_ERROR n)"
  by (simp_all add: EFI_ERROR_def)

text \<open>The pages of a size in bytes.\<close>

definition EFI_SIZE_TO_PAGES :: "u64 \<Rightarrow> u64" where
  "EFI_SIZE_TO_PAGES Size = drop_bit 12 Size + (if Size AND 0xFFF \<noteq> 0 then 1 else 0)"

subsection \<open>C strings\<close>

text \<open>The characters before the terminating NUL; \<open>AsciiStrLen\<close> is its length.\<close>

definition c_str :: "bytes \<Rightarrow> bytes" where
  "c_str s = takeWhile (\<lambda>c. c \<noteq> 0) s"

definition AsciiStrLen :: "bytes \<Rightarrow> nat option" where
  "AsciiStrLen s = (if 0 \<in> set s then Some (length (c_str s)) else None)"

text \<open>
  \<open>AsciiStrnCmp (a, b, n) == 0\<close>: equal up to the first \<open>n\<close> characters or a common NUL.
\<close>

fun ascii_strn_eq :: "bytes \<Rightarrow> bytes \<Rightarrow> nat \<Rightarrow> bool" where
  "ascii_strn_eq _ _ 0 = True"
| "ascii_strn_eq (a # as) (b # bs) (Suc n) = (a = b \<and> (a = 0 \<or> ascii_strn_eq as bs n))"
| "ascii_strn_eq _ _ (Suc n) = False"

lemma ascii_strn_eq_c_str:
  assumes "0 \<in> set s" and "0 \<notin> set p"
  shows "ascii_strn_eq s p (length p) \<and> s ! length p = 0 \<longleftrightarrow> c_str s = p"
  using assms
proof (induction p arbitrary: s)
  case Nil
  then show ?case by (cases s) (auto simp: c_str_def)
next
  case (Cons b bs)
  then show ?case by (cases s) (auto simp: c_str_def)
qed

lemma ascii_strn_eq_prefix: "ascii_strn_eq s p (length p) \<Longrightarrow> 0 \<notin> set p \<Longrightarrow> take (length p) s = p"
proof (induction p arbitrary: s)
  case (Cons b bs)
  then show ?case by (cases s) auto
qed simp

lemma takeWhile_append_all: "\<forall>x \<in> set xs. P x \<Longrightarrow> takeWhile P (xs @ ys) = xs @ takeWhile P ys"
  by (induction xs) simp_all

lemma c_str_nonzero: "0 \<notin> set (c_str s)"
  by (auto simp: c_str_def dest: set_takeWhileD)

lemma c_str_append: "0 \<notin> set xs \<Longrightarrow> c_str (xs @ ys) = xs @ c_str ys"
  unfolding c_str_def by (rule takeWhile_append_all) auto

lemma c_str_Cons: "c_str (c # cs) = (if c = 0 then [] else c # c_str cs)"
  by (simp add: c_str_def)

lemma length_c_str: "length (c_str s) \<le> length s"
  by (simp add: c_str_def length_takeWhile_le)

text \<open>Strings of 16-bit characters: \<open>StrCmp\<close> returns 0, and a literal.\<close>

definition wide_eq :: "u16 list \<Rightarrow> u16 list \<Rightarrow> bool" where
  "wide_eq xs ys = (takeWhile (\<lambda>c. c \<noteq> 0) xs = takeWhile (\<lambda>c. c \<noteq> 0) ys)"

definition wide :: "string \<Rightarrow> u16 list" where
  "wide s = map of_char s @ [0]"

subsection \<open>Registers\<close>

text \<open>Accesses to 32-bit registers, of a device in the state \<open>'u\<close>.\<close>

record 'u mmio_bus =
  mmio_read32 :: "u64 \<Rightarrow> 'u \<Rightarrow> 'u \<times> u32"
  mmio_write32 :: "u64 \<Rightarrow> u32 \<Rightarrow> 'u \<Rightarrow> 'u"

text \<open>The error numbers of the HAL.\<close>

definition EIO :: int where "EIO = 5"
definition EINVAL :: int where "EINVAL = 22"
definition ENOSPC :: int where "ENOSPC = 28"
definition ETIME :: int where "ETIME = 62"

subsection \<open>Ranges of a store\<close>

text \<open>The contents of a store, a function of the index, with a range replaced.\<close>

definition filled :: "nat \<Rightarrow> nat \<Rightarrow> (nat \<Rightarrow> 'a) \<Rightarrow> (nat \<Rightarrow> 'a) \<Rightarrow> nat \<Rightarrow> 'a" where
  "filled a b x m = (\<lambda>i. if a \<le> i \<and> i < b then x i else m i)"

lemma filled_empty [simp]: "b \<le> a \<Longrightarrow> filled a b x m = m"
  by (auto simp: filled_def fun_eq_iff)

lemma filled_join: "a \<le> b \<Longrightarrow> b \<le> c \<Longrightarrow> filled b c x (filled a b x m) = filled a c x m"
  by (auto simp: filled_def fun_eq_iff)

subsection \<open>The option monad as memory\<close>

lemma bind_cong_opt [fundef_cong]:
  "m = m' \<Longrightarrow> (\<And>x. m' = Some x \<Longrightarrow> f x = f' x) \<Longrightarrow> Option.bind m f = Option.bind m' f'"
  by (cases m') auto

end
