(* ===== verification/AlNandHal.thy ===== *)
theory AlNandHal
  imports Prelude
begin

text \<open>
  The part of the Alpine HAL that reads the NAND flash:
  \<open>src/Library/AlpineHalLib/drivers/pbs/al_hal_nand.c\<close>.

  The controller and the chip behind it are a parameter, the record \<open>nand_bus\<close> of the two
  register accesses \<open>al_reg_read32\<close> and \<open>al_reg_write32\<close> on a state \<open>'h\<close>. A register
  access always returns; a polling loop may not, and is a \<open>partial_function\<close>, whose value is
  then \<^const>\<open>None\<close>. A failed \<open>al_assert\<close> and a store past the caller's command buffer are
  \<^const>\<open>None\<close> as well. The HAL's error numbers are integers; lengths in bytes, which the C
  code keeps in nonnegative \<open>int\<close>s, are naturals.
\<close>

subsection \<open>The controller\<close>

datatype nand_reg =
    CODEWORD_SIZE_CNT_REG | WRAP_CODE_WORD_SIZE | BCH_CTRL_REG_0 | BCH_CTRL_REG_1
  | NFLASH_SPARE_OFFSET | NFC_INT_EN | NFC_INT_STAT | COMMAND_BUFFER_REG | CMD_BUFF | DATA_BUFF

record 'h nand_bus =
  al_reg_read32 :: "nand_reg \<Rightarrow> 'h \<Rightarrow> 'h \<times> u32"
  al_reg_write32 :: "nand_reg \<Rightarrow> u32 \<Rightarrow> 'h \<Rightarrow> 'h"

record nand_ctrl_obj =
  no_wrapper :: bool
  cw_size :: u32
  cw_size_remaining :: u32
  cw_count :: u32
  cw_count_remaining :: u32
  ecc_messageSize :: nat
  ecc_bch :: bool
  ecc_num_corr_bits :: nat
  ecc_spareAreaOffset :: nat
  sdrDataWidth :: nat
  num_col_cyc :: nat
  num_row_cyc :: nat

definition al_nand_cw_config ::
    "'h nand_bus \<Rightarrow> u32 \<Rightarrow> u32 \<Rightarrow> nand_ctrl_obj \<times> 'h \<Rightarrow> nand_ctrl_obj \<times> 'h" where
  "al_nand_cw_config bus sz cnt c = (case c of (obj, h) \<Rightarrow>
     let reg_val = (sz AND 0x0000FFFF) OR (push_bit 16 cnt AND 0xFFFF0000);
         h1 = al_reg_write32 bus CODEWORD_SIZE_CNT_REG reg_val h;
         h2 = al_reg_write32 bus WRAP_CODE_WORD_SIZE sz h1
     in (obj\<lparr>cw_size := sz, cw_count := cnt, cw_count_remaining := cnt,
             cw_size_remaining := 0\<rparr>, h2))"

definition al_nand_ecc_set_enabled :: "'h nand_bus \<Rightarrow> bool \<Rightarrow> 'h \<Rightarrow> 'h" where
  "al_nand_ecc_set_enabled bus enabled h =
     (case al_reg_read32 bus BCH_CTRL_REG_0 h of (h1, reg_val) \<Rightarrow>
       al_reg_write32 bus BCH_CTRL_REG_0 ((reg_val AND NOT 1) OR (if enabled then 1 else 0)) h1)"

definition al_nand_int_disable :: "'h nand_bus \<Rightarrow> u32 \<Rightarrow> 'h \<Rightarrow> 'h" where
  "al_nand_int_disable bus int_mask h =
     (case al_reg_read32 bus NFC_INT_EN h of (h1, v) \<Rightarrow>
       al_reg_write32 bus NFC_INT_EN (v AND NOT int_mask) h1)"

definition al_nand_cmd_buff_is_empty :: "'h nand_bus \<Rightarrow> 'h \<Rightarrow> 'h \<times> bool" where
  "al_nand_cmd_buff_is_empty bus h =
     (case al_reg_read32 bus NFC_INT_STAT (al_reg_write32 bus NFC_INT_STAT 1 h) of
        (h1, reg_val) \<Rightarrow> (h1, bit reg_val 0))"

text \<open>The two polling loops of the mode without the wrapper.\<close>

partial_function (option) cmd_buf_wait_for_vacancy :: "'h nand_bus \<Rightarrow> 'h \<Rightarrow> 'h option" where
  "cmd_buf_wait_for_vacancy bus h =
     (case al_reg_read32 bus NFC_INT_STAT (al_reg_write32 bus NFC_INT_STAT 2 h) of
        (h1, reg_val) \<Rightarrow> if bit reg_val 1 then cmd_buf_wait_for_vacancy bus h1 else Some h1)"

partial_function (option) data_buf_wait_for_cw_data :: "'h nand_bus \<Rightarrow> 'h \<Rightarrow> 'h option" where
  "data_buf_wait_for_cw_data bus h =
     (case al_reg_read32 bus NFC_INT_STAT (al_reg_write32 bus NFC_INT_STAT 0x80 h) of
        (h1, reg_val) \<Rightarrow> if bit reg_val 7 then Some h1 else data_buf_wait_for_cw_data bus h1)"

definition al_nand_cmd_single_execute ::
    "'h nand_bus \<Rightarrow> u32 \<Rightarrow> nand_ctrl_obj \<times> 'h \<Rightarrow> (nand_ctrl_obj \<times> 'h) option" where
  "al_nand_cmd_single_execute bus cmd c = (case c of (obj, h) \<Rightarrow>
     if \<not> no_wrapper obj then Some (obj, al_reg_write32 bus CMD_BUFF cmd h)
     else map_option (\<lambda>h1. (obj, al_reg_write32 bus COMMAND_BUFFER_REG cmd h1))
            (cmd_buf_wait_for_vacancy bus h))"

fun al_nand_cmd_seq_execute ::
    "'h nand_bus \<Rightarrow> u32 list \<Rightarrow> nand_ctrl_obj \<times> 'h \<Rightarrow> (nand_ctrl_obj \<times> 'h) option" where
  "al_nand_cmd_seq_execute bus [] c = Some c"
| "al_nand_cmd_seq_execute bus (cmd # cmds) c =
     al_nand_cmd_single_execute bus cmd c \<bind> al_nand_cmd_seq_execute bus cmds"

subsection \<open>Command sequences\<close>

datatype command_type = CMD_CMD | CMD_ADDRESS | CMD_WAIT_CYCLE_COUNT | CMD_WAIT_FOR_READY
  | CMD_DATA_READ_COUNT | CMD_SPARE_READ_COUNT

fun command_code :: "command_type \<Rightarrow> u32" where
  "command_code CMD_CMD = 2"
| "command_code CMD_ADDRESS = 3"
| "command_code CMD_WAIT_CYCLE_COUNT = 4"
| "command_code CMD_WAIT_FOR_READY = 5"
| "command_code CMD_DATA_READ_COUNT = 6"
| "command_code CMD_SPARE_READ_COUNT = 9"

definition CMD_SEQ_ENTRY :: "command_type \<Rightarrow> u32 \<Rightarrow> u32" where
  "CMD_SEQ_ENTRY type arg = push_bit 8 (command_code type) OR arg"

text \<open>\<open>_al_nand_cmd_seq_add_command_cyc\<close>: one entry per byte of the argument, lowest first.\<close>

fun command_cyc :: "command_type \<Rightarrow> nat \<Rightarrow> nat \<Rightarrow> u32 list" where
  "command_cyc type argument 0 = []"
| "command_cyc type argument (Suc num_cyc) =
     CMD_SEQ_ENTRY type (of_nat (argument mod 256)) # command_cyc type (argument div 256) num_cyc"

definition AL_ALIGN_UP4 :: "nat \<Rightarrow> nat" where
  "AL_ALIGN_UP4 n = (n + 3) div 4 * 4"

definition cw_spare_cnt :: "nand_ctrl_obj \<Rightarrow> nat" where
  "cw_spare_cnt obj = (if \<not> ecc_bch obj then 4
     else AL_ALIGN_UP4 ((15 * (4 * (1 + ecc_num_corr_bits obj)) + 7) div 8))"

text \<open>
  \<open>_al_nand_cmd_seq_size_page_read\<close>: the number of entries; \<^const>\<open>None\<close> when a code word has no
  bytes or the bytes are no multiple of it.
\<close>

definition cmd_seq_size_page_read :: "nand_ctrl_obj \<Rightarrow> nat \<Rightarrow> bool \<Rightarrow> nat option" where
  "cmd_seq_size_page_read obj num_bytes ecc_enabled =
     (let n = AL_ALIGN_UP4 num_bytes;
          w0 = 512 * 2 ^ ecc_messageSize obj;
          w1 = (if n < w0 then n else w0)
      in if w1 = 0 then None
         else let w2 = (if \<not> ecc_enabled \<and> n mod w1 \<noteq> 0 then n div 4 else w1)
         in if w2 = 0 \<or> n mod w2 \<noteq> 0 then None
         else let code_word_count = n div w2
         in Some (if ecc_enabled
           then 1 + num_col_cyc obj + num_row_cyc obj + 1 + 1 + 2 + 1 + num_col_cyc obj + 1 + 1 +
                2 * code_word_count
           else 1 + num_col_cyc obj + num_row_cyc obj + 1 + 1 + 2 * code_word_count))"

text \<open>The loop that requests the code words, while \<open>num_bytes\<close> is positive.\<close>

definition read_counts :: "nat \<Rightarrow> nat \<Rightarrow> u32 list" where
  "read_counts code_word_size code_word_count =
     concat (replicate code_word_count (command_cyc CMD_DATA_READ_COUNT code_word_size 2))"

definition page_read_seq :: "nand_ctrl_obj \<Rightarrow> nat \<Rightarrow> nat \<Rightarrow> bool \<Rightarrow> nat \<Rightarrow> nat \<Rightarrow> u32 list" where
  "page_read_seq obj column row ecc_enabled code_word_size code_word_count =
     (let width = sdrDataWidth obj + 1 in
      if ecc_enabled
      then [CMD_SEQ_ENTRY CMD_CMD 0x00] @
           command_cyc CMD_ADDRESS (ecc_spareAreaOffset obj div width) (num_col_cyc obj) @
           command_cyc CMD_ADDRESS row (num_row_cyc obj) @
           [CMD_SEQ_ENTRY CMD_CMD 0x30, CMD_SEQ_ENTRY CMD_WAIT_FOR_READY 0] @
           command_cyc CMD_SPARE_READ_COUNT (code_word_count * cw_spare_cnt obj) 2 @
           [CMD_SEQ_ENTRY CMD_CMD 0x05] @
           command_cyc CMD_ADDRESS (column div width) (num_col_cyc obj) @
           [CMD_SEQ_ENTRY CMD_CMD 0xE0, CMD_SEQ_ENTRY CMD_WAIT_CYCLE_COUNT 0] @
           read_counts code_word_size code_word_count
      else [CMD_SEQ_ENTRY CMD_CMD 0x00] @
           command_cyc CMD_ADDRESS (column div width) (num_col_cyc obj) @
           command_cyc CMD_ADDRESS row (num_row_cyc obj) @
           [CMD_SEQ_ENTRY CMD_CMD 0x30, CMD_SEQ_ENTRY CMD_WAIT_FOR_READY 0] @
           read_counts code_word_size code_word_count)"

text \<open>
  The error number, and the entries, code word size and code word count on success. \<open>capacity\<close> is
  the number of entries the caller's buffer holds.
\<close>

definition al_nand_cmd_seq_gen_page_read ::
    "nand_ctrl_obj \<Rightarrow> nat \<Rightarrow> nat \<Rightarrow> nat \<Rightarrow> bool \<Rightarrow> nat \<Rightarrow> (int \<times> u32 list \<times> u32 \<times> u32) option" where
  "al_nand_cmd_seq_gen_page_read obj column row num_bytes ecc_enabled capacity =
     (let n0 = AL_ALIGN_UP4 num_bytes;
          w0 = 512 * 2 ^ ecc_messageSize obj;
          w1 = (if n0 < w0 then n0 else w0)
      in if w1 = 0 then None
         else let adjust = (\<not> ecc_enabled \<and> n0 mod w1 \<noteq> 0);
                  code_word_size = (if adjust then AL_ALIGN_UP4 (n0 div 4) else w1);
                  n = (if adjust then code_word_size * 4 else n0)
         in if n mod code_word_size \<noteq> 0 then None
         else do {
           let code_word_count = n div code_word_size;
           num_required_entries \<leftarrow> cmd_seq_size_page_read obj n ecc_enabled;
           if capacity < num_required_entries
           then Some (- EIO, [], of_nat code_word_size, of_nat code_word_count)
           else do {
             let seq = page_read_seq obj column row ecc_enabled code_word_size code_word_count;
             if length seq \<le> capacity \<and> length seq = num_required_entries
             then Some (0, seq, of_nat code_word_size, of_nat code_word_count)
             else None
           }
         })"

subsection \<open>The data buffer\<close>

text \<open>
  The loop over the bytes of one word: bytes still wanted, bytes still to be skipped at the head,
  and the bytes stored.
\<close>

fun take_word_bytes :: "nat \<Rightarrow> u32 \<Rightarrow> nat \<Rightarrow> nat \<Rightarrow> nat \<Rightarrow> nat \<times> nat \<times> bytes" where
  "take_word_bytes 0 w num_bytes head tail = (num_bytes, head, [])"
| "take_word_bytes (Suc k) w 0 head tail = (0, head, [])"
| "take_word_bytes (Suc k) w (Suc n) head tail =
     (case take_word_bytes k (drop_bit 8 w) n (head - 1) tail of (n', head', out) \<Rightarrow>
       (n', head', (if head = 0 \<and> Suc n > tail then ucast w # out else out)))"

lemma take_word_bytes_count: "fst (take_word_bytes k w n head tail) = n - k"
  by (induction k w n head tail rule: take_word_bytes.induct) (auto split: prod.split)

function read_words ::
    "'h nand_bus \<Rightarrow> nat \<Rightarrow> nat \<Rightarrow> nat \<Rightarrow> nand_ctrl_obj \<times> 'h \<Rightarrow> (nand_ctrl_obj \<times> 'h \<times> bytes) option" where
  "read_words bus num_bytes head tail (obj, h) =
     (if num_bytes > 0 then do {
        (obj1, h1) \<leftarrow>
          (if cw_size_remaining obj = 0
           then do {
             h1 \<leftarrow> (if no_wrapper obj then data_buf_wait_for_cw_data bus h else Some h);
             Some (obj\<lparr>cw_size_remaining := cw_size obj,
                       cw_count_remaining := cw_count_remaining obj - 1\<rparr>, h1)
           }
           else Some (obj, h));
        let (h2, w) = al_reg_read32 bus DATA_BUFF h1;
        case take_word_bytes 4 w num_bytes head tail of (n', head', out) \<Rightarrow> do {
          (obj', h', rest) \<leftarrow> read_words bus n' head' tail
            (obj1\<lparr>cw_size_remaining := cw_size_remaining obj1 - 4\<rparr>, h2);
          Some (obj', h', out @ rest)
        }
      }
      else Some (obj, h, []))"
  by pat_completeness auto
termination
proof (relation "measure (\<lambda>(bus, n, head, tail, c). n)", goal_cases)
  case (2 bus num_bytes head tail obj h a x y z)
  then show ?case using take_word_bytes_count by (metis (no_types, lifting) diff_less fst_conv
      in_measure case_prod_conv zero_less_numeral)
qed simp

text \<open>\<open>al_nand_data_buff_read\<close>: the error number and the bytes stored in \<open>buff\<close>.\<close>

definition al_nand_data_buff_read ::
    "'h nand_bus \<Rightarrow> nat \<Rightarrow> nat \<Rightarrow> nat \<Rightarrow> nand_ctrl_obj \<times> 'h \<Rightarrow>
     ((nand_ctrl_obj \<times> 'h) \<times> int \<times> bytes) option" where
  "al_nand_data_buff_read bus num_bytes head tail c = (case c of (obj, h) \<Rightarrow>
     if cw_count_remaining obj * cw_size obj + cw_size_remaining obj < of_nat num_bytes
     then Some (c, - EIO, [])
     else map_option (\<lambda>(obj', h', out). ((obj', h'), 0, out)) (read_words bus num_bytes head tail c))"

subsection \<open>Contracts\<close>

text \<open>The bytes of the next \<open>k\<close> words the data buffer delivers.\<close>

fun fifo_bytes :: "'h nand_bus \<Rightarrow> nat \<Rightarrow> 'h \<Rightarrow> 'h \<times> bytes" where
  "fifo_bytes bus 0 h = (h, [])"
| "fifo_bytes bus (Suc k) h =
     (case al_reg_read32 bus DATA_BUFF h of (h1, w) \<Rightarrow>
        case fifo_bytes bus k h1 of (h2, bs) \<Rightarrow> (h2, bytes32 w @ bs))"

fun word_bytes :: "nat \<Rightarrow> u32 \<Rightarrow> bytes" where
  "word_bytes 0 w = []"
| "word_bytes (Suc k) w = ucast w # word_bytes k (drop_bit 8 w)"

lemma word_bytes_4: "word_bytes 4 w = bytes32 w"
  by (simp add: numeral_eq_Suc bytes32_def)

lemma length_fifo_bytes: "length (snd (fifo_bytes bus k h)) = 4 * k"
  by (induction k arbitrary: h) (auto split: prod.split simp: case_prod_unfold)

lemma take_word_bytes_eq:
  "take_word_bytes k w n skip tail =
     (n - k, skip - min k n, drop skip (take (n - tail) (word_bytes k w)))"
proof (induction k w n skip tail rule: take_word_bytes.induct)
  case (3 k w n skip tail)
  then show ?case by (cases skip; cases "tail \<le> n") (auto simp: Suc_diff_le)
qed simp_all

lemma read_words_wrapper:
  assumes "\<not> no_wrapper obj"
  shows "\<exists>a b. read_words bus n skip tail (obj, h) =
    Some (obj\<lparr>cw_size_remaining := a, cw_count_remaining := b\<rparr>, fst (fifo_bytes bus ((n + 3) div 4) h),
      drop skip (take (n - tail) (snd (fifo_bytes bus ((n + 3) div 4) h))))"
  using assms
proof (induction n arbitrary: skip obj h rule: less_induct)
  case (less n)
  show ?case
  proof (cases "n = 0")
    case True
    then have "read_words bus n skip tail (obj, h) = Some (obj\<lparr>cw_size_remaining := cw_size_remaining obj,
        cw_count_remaining := cw_count_remaining obj\<rparr>, fst (fifo_bytes bus ((n + 3) div 4) h),
        drop skip (take (n - tail) (snd (fifo_bytes bus ((n + 3) div 4) h))))"
      by simp
    then show ?thesis by blast
  next
    case False
    obtain h1 w where r: "al_reg_read32 bus DATA_BUFF h = (h1, w)" by fastforce
    define obj1 where "obj1 = (if cw_size_remaining obj = 0
      then obj\<lparr>cw_size_remaining := cw_size obj, cw_count_remaining := cw_count_remaining obj - 1\<rparr> else obj)"
    define obj2 where "obj2 = obj1\<lparr>cw_size_remaining := cw_size_remaining obj1 - 4\<rparr>"
    have keep: "obj2\<lparr>cw_size_remaining := a, cw_count_remaining := b\<rparr> =
        obj\<lparr>cw_size_remaining := a, cw_count_remaining := b\<rparr>" "\<not> no_wrapper obj2" for a b
      using less.prems by (simp_all add: obj2_def obj1_def)
    have k: "(n + 3) div 4 = Suc ((n - 4 + 3) div 4)" if "4 \<le> n"
      using that by (simp add: div_if)
    have k1: "(n + 3) div 4 = 1" if "n < 4" using that False by simp
    obtain a b where IH: "read_words bus (n - 4) (skip - min 4 n) tail (obj2, h1) =
        Some (obj\<lparr>cw_size_remaining := a, cw_count_remaining := b\<rparr>, fst (fifo_bytes bus ((n - 4 + 3) div 4) h1),
          drop (skip - min 4 n) (take (n - 4 - tail) (snd (fifo_bytes bus ((n - 4 + 3) div 4) h1))))"
      using less.IH [of "n - 4" obj2 "skip - min 4 n" h1] False keep by auto
    have kk: "(n + 3) div 4 = Suc ((n - 4 + 3) div 4)"
      using k k1 by (cases "4 \<le> n") simp_all
    have fst_eq: "fst (fifo_bytes bus ((n + 3) div 4) h) = fst (fifo_bytes bus ((n - 4 + 3) div 4) h1)"
      unfolding kk using r by (simp split: prod.split)
    have snd_eq: "snd (fifo_bytes bus ((n + 3) div 4) h) =
        bytes32 w @ snd (fifo_bytes bus ((n - 4 + 3) div 4) h1)"
      unfolding kk using r by (simp split: prod.split)
    have out: "drop skip (take (n - tail) (bytes32 w)) @
        drop (skip - min 4 n) (take (n - 4 - tail) xs) = drop skip (take (n - tail) (bytes32 w @ xs))" for xs
      by (cases "4 \<le> n - tail") (auto simp: add.commute)
    have "read_words bus n skip tail (obj, h) = map_option (\<lambda>(obj', h', rest).
        (obj', h', drop skip (take (n - tail) (bytes32 w)) @ rest))
        (read_words bus (n - 4) (skip - min 4 n) tail (obj2, h1))"
      using False less.prems r
      by (subst read_words.simps)
        (simp add: take_word_bytes_eq word_bytes_4 obj1_def obj2_def map_option_case del: read_words.simps
          split: option.split)
    then show ?thesis using IH out fst_eq snd_eq by (auto simp del: read_words.simps)
  qed
qed

text \<open>In the mode of the driver a read returns, with the bytes of the FIFO between both ends.\<close>

lemma data_buff_read_wrapper:
  assumes "\<not> no_wrapper obj" and "cw_size_remaining obj = 0"
    and "unat (cw_size obj) * unat (cw_count_remaining obj) < 2 ^ 32"
    and "n \<le> unat (cw_size obj) * unat (cw_count_remaining obj)"
  shows "\<exists>a b. al_nand_data_buff_read bus n skip tail (obj, h) =
    Some ((obj\<lparr>cw_size_remaining := a, cw_count_remaining := b\<rparr>, fst (fifo_bytes bus ((n + 3) div 4) h)), 0,
      drop skip (take (n - tail) (snd (fifo_bytes bus ((n + 3) div 4) h))))"
proof -
  have "unat (cw_count_remaining obj * cw_size obj) = unat (cw_size obj) * unat (cw_count_remaining obj)"
    using assms(3) by (simp add: unat_word_ariths mult.commute)
  moreover have "unat (of_nat n :: u32) = n"
    by (rule unat_of_nat_small) (use assms(3,4) in simp)
  ultimately have "\<not> cw_count_remaining obj * cw_size obj + cw_size_remaining obj < of_nat n"
    using assms(2,4) by (simp add: word_less_nat_alt)
  then show ?thesis
    using read_words_wrapper [OF assms(1), of bus n skip tail h]
    by (auto simp: al_nand_data_buff_read_def simp del: read_words.simps)
qed

lemma single_execute_wrapper:
  "\<not> no_wrapper obj \<Longrightarrow>
   al_nand_cmd_single_execute bus cmd (obj, h) = Some (obj, al_reg_write32 bus CMD_BUFF cmd h)"
  by (simp add: al_nand_cmd_single_execute_def)

lemma seq_execute_wrapper:
  "\<not> no_wrapper obj \<Longrightarrow> al_nand_cmd_seq_execute bus cmds (obj, h) =
   Some (obj, foldl (\<lambda>h cmd. al_reg_write32 bus CMD_BUFF cmd h) h cmds)"
  by (induction cmds arbitrary: h) (simp_all add: single_execute_wrapper)

lemma cw_config_eq:
  "\<exists>h'. al_nand_cw_config bus sz cnt (obj, h) =
     (obj\<lparr>cw_size := sz, cw_count := cnt, cw_count_remaining := cnt, cw_size_remaining := 0\<rparr>, h')"
  by (simp add: al_nand_cw_config_def Let_def)

text \<open>The sequence for whole code words, on a device with two column and two row cycles.\<close>

lemma length_command_cyc [simp]: "length (command_cyc t a n) = n"
  by (induction t a n rule: command_cyc.induct) simp_all

lemma length_read_counts [simp]: "length (read_counts w k) = 2 * k"
  by (induction k) (simp_all add: read_counts_def)

definition benand_obj :: "nand_ctrl_obj \<Rightarrow> bool" where
  "benand_obj obj = (\<not> no_wrapper obj \<and> ecc_messageSize obj = 0 \<and> sdrDataWidth obj = 0 \<and>
     num_col_cyc obj = 2 \<and> num_row_cyc obj = 2)"

lemma gen_page_read_eq:
  assumes "benand_obj obj" and "0 < n" and "n mod 4 = 0" and "n < 512 \<or> n mod 512 = 0"
    and "w = min n 512" and "7 + 2 * (n div w) \<le> capacity"
  shows "al_nand_cmd_seq_gen_page_read obj column row n False capacity =
    Some (0, page_read_seq obj column row False w (n div w), of_nat w, of_nat (n div w))"
proof -
  have up: "AL_ALIGN_UP4 n = n"
    using assms(3) by (simp add: AL_ALIGN_UP4_def) presburger
  have w: "(if n < 512 then n else 512) = w" "0 < w" "n mod w = 0"
    using assms(2,4,5) by (auto simp: min_def)
  have size: "cmd_seq_size_page_read obj n False = Some (7 + 2 * (n div w))"
    using assms(1) w up by (auto simp: cmd_seq_size_page_read_def benand_obj_def Let_def)
  have len: "length (page_read_seq obj column row False w (n div w)) = 7 + 2 * (n div w)"
    using assms(1) by (simp add: page_read_seq_def Let_def benand_obj_def)
  show ?thesis
    using assms(1,6) w up size len
    by (simp add: al_nand_cmd_seq_gen_page_read_def benand_obj_def Let_def)
qed

end
