(* ===== verification/NandFlash.thy ===== *)
theory NandFlash
  imports Prelude
begin

text \<open>
  The protocol between the NAND driver and the file systems on it:
  \<open>MIKROTIK_NAND_FLASH_PROTOCOL\<close> of \<open>src/Include/Protocol/MikroTikNandFlash.h\<close>. A protocol
  instance is a record of three constants and three functions; the functions pass the state
  \<open>'s\<close> of the device, and return the status and what the call leaves in the caller's buffer
  (to be read only when the status is not an error); \<^const>\<open>None\<close> is a call that faults or
  never returns.

  The locale \<open>nand_flash\<close> states the contract a consumer relies on. The consumer's lemmas
  are proved in it (theory \<open>Yaffs2Scan\<close>, \<open>Yaffs2Read\<close>); the driver \<open>AlNandDxe\<close>
  discharges it (theory \<open>AlNand\<close>).
\<close>

record 's nand_proto =
  nf_PageSize :: u32
  nf_PagesPerBlock :: u32
  nf_NumBlocks :: u32
  nf_ReadPage :: "'s \<Rightarrow> u32 \<Rightarrow> ('s \<times> efi_status \<times> bytes) option"
  nf_ReadTags :: "'s \<Rightarrow> u32 \<Rightarrow> ('s \<times> efi_status \<times> bytes) option"
  nf_ReadPageBody :: "'s \<Rightarrow> ('s \<times> efi_status \<times> bytes) option"

locale nand_flash =
  fixes nd :: "'s nand_proto"
    and dev_ok :: "'s \<Rightarrow> bool"
  assumes page_size: "2048 \<le> unat (nf_PageSize nd)"
    and pages_per_block: "0 < unat (nf_PagesPerBlock nd)" "unat (nf_PagesPerBlock nd) \<le> 64"
    and pages_fit: "unat (nf_PagesPerBlock nd) * unat (nf_NumBlocks nd) < 2 ^ 32"
    and read_page: "dev_ok s \<Longrightarrow> \<exists>s' st b. nf_ReadPage nd s p = Some (s', st, b) \<and>
      dev_ok s' \<and> (EFI_ERROR st \<or> length b = unat (nf_PageSize nd))"
    and read_tags: "dev_ok s \<Longrightarrow> \<exists>s' st b. nf_ReadTags nd s p = Some (s', st, b) \<and>
      dev_ok s' \<and> (EFI_ERROR st \<or> length b = 16)"
    and read_body: "dev_ok s \<Longrightarrow> \<exists>s' st b. nf_ReadPageBody nd s = Some (s', st, b) \<and>
      dev_ok s' \<and> (EFI_ERROR st \<or> length b = unat (nf_PageSize nd))"

end
