(* ===== verification/AlNand.thy ===== *)
theory AlNand
  imports AlNandHal NandFlash
begin

text \<open>
  The NAND driver \<open>src/Drivers/AlNandDxe/AlNandDxe.c\<close> over the HAL of theory \<open>AlNandHal\<close>: the
  device operations, the bitmap of bad blocks, the block I/O protocol and the flash protocol, with
  the proof that the latter keeps the contract \<open>nand_flash\<close> whatever the controller answers.
  The state is the driver's context together with the hardware behind the bus.
\<close>

subsection \<open>The context\<close>

definition BENAND_PAGE_SIZE :: u32 where "BENAND_PAGE_SIZE = 2048"
definition BENAND_PAGES_PER_BLOCK :: u32 where "BENAND_PAGES_PER_BLOCK = 64"
definition BENAND_NUM_BLOCKS :: u32 where "BENAND_NUM_BLOCKS = 1024"
definition BENAND_NUM_PAGES :: u32 where "BENAND_NUM_PAGES = BENAND_NUM_BLOCKS * BENAND_PAGES_PER_BLOCK"
definition AL_NAND_CW_SIZE :: u32 where "AL_NAND_CW_SIZE = 512"
definition AL_NAND_MAX_CMD_SEQ :: nat where "AL_NAND_MAX_CMD_SEQ = 32"
definition AL_NAND_POLL_TIMEOUT_US :: nat where "AL_NAND_POLL_TIMEOUT_US = 1000000"

lemmas benand_consts = BENAND_PAGE_SIZE_def BENAND_PAGES_PER_BLOCK_def BENAND_NUM_BLOCKS_def
  BENAND_NUM_PAGES_def AL_NAND_CW_SIZE_def AL_NAND_MAX_CMD_SEQ_def

record 'h al_nand_context =
  NandObj :: nand_ctrl_obj
  Hw :: 'h
  PageSize :: u32
  PagesPerBlock :: u32
  NumBlocks :: u32
  NumPages :: u32
  BadBlockMap :: bytes
  Media_MediaId :: u32

definition with_hal :: "'h al_nand_context \<Rightarrow> nand_ctrl_obj \<times> 'h \<Rightarrow> 'h al_nand_context" where
  "with_hal Ctx c = Ctx\<lparr>NandObj := fst c, Hw := snd c\<rparr>"

definition hal :: "'h al_nand_context \<Rightarrow> nand_ctrl_obj \<times> 'h" where
  "hal Ctx = (NandObj Ctx, Hw Ctx)"

subsection \<open>Device operations\<close>

text \<open>
  The two polling loops of \<open>AlNandWaitCmdEmpty\<close>: \<open>n\<close> polls, with a delay after each in the second.
\<close>

fun poll_cmd_empty :: "'h nand_bus \<Rightarrow> ('h \<Rightarrow> 'h) \<Rightarrow> nat \<Rightarrow> 'h \<Rightarrow> 'h \<times> bool" where
  "poll_cmd_empty bus delay 0 h = (h, False)"
| "poll_cmd_empty bus delay (Suc n) h =
     (case al_nand_cmd_buff_is_empty bus h of (h1, drained) \<Rightarrow>
       if drained then (h1, True) else poll_cmd_empty bus delay n (delay h1))"

definition AlNandWaitCmdEmpty :: "'h nand_bus \<Rightarrow> ('h \<Rightarrow> 'h) \<Rightarrow> 'h \<Rightarrow> 'h \<times> efi_status" where
  "AlNandWaitCmdEmpty bus usdelay h =
     (case poll_cmd_empty bus (\<lambda>h. h) 1000 h of (h1, ok) \<Rightarrow>
       if ok then (h1, EFI_SUCCESS)
       else case poll_cmd_empty bus usdelay AL_NAND_POLL_TIMEOUT_US h1 of (h2, ok2) \<Rightarrow>
         (h2, if ok2 then EFI_SUCCESS else EFI_TIMEOUT))"

definition AlNandDeviceReset ::
    "'h nand_bus \<Rightarrow> ('h \<Rightarrow> 'h) \<Rightarrow> 'h al_nand_context \<Rightarrow> ('h al_nand_context \<times> efi_status) option" where
  "AlNandDeviceReset bus usdelay Ctx = do {
     c1 \<leftarrow> al_nand_cmd_single_execute bus (CMD_SEQ_ENTRY CMD_CMD 0xFF) (hal Ctx);
     (obj, h) \<leftarrow> al_nand_cmd_single_execute bus (CMD_SEQ_ENTRY CMD_WAIT_FOR_READY 0) c1;
     let (h1, st) = AlNandWaitCmdEmpty bus usdelay h;
     Some (with_hal Ctx (obj, h1), st)
   }"

definition AlNandReadId ::
    "'h nand_bus \<Rightarrow> u32 \<Rightarrow> 'h al_nand_context \<Rightarrow> ('h al_nand_context \<times> efi_status \<times> bytes) option" where
  "AlNandReadId bus IdLen Ctx = do {
     let CwSize = (IdLen + 3) AND NOT 3;
     c1 \<leftarrow> al_nand_cmd_seq_execute bus
       [CMD_SEQ_ENTRY CMD_CMD 0x90, CMD_SEQ_ENTRY CMD_ADDRESS 0x00,
        CMD_SEQ_ENTRY CMD_DATA_READ_COUNT (CwSize AND 0xFF),
        CMD_SEQ_ENTRY CMD_DATA_READ_COUNT (drop_bit 8 CwSize AND 0xFF)]
       (al_nand_cw_config bus CwSize 1 (hal Ctx));
     (c2, Err, d) \<leftarrow> al_nand_data_buff_read bus (unat CwSize) 0 (unat (CwSize - IdLen)) c1;
     Some (with_hal Ctx c2, if Err \<noteq> 0 then EFI_DEVICE_ERROR else EFI_SUCCESS, d)
   }"

text \<open>The common sequence of the three page reads: \<open>n\<close> bytes at \<open>column\<close>, \<open>tail\<close> of them dropped.\<close>

definition nand_read ::
    "'h nand_bus \<Rightarrow> nat \<Rightarrow> u32 \<Rightarrow> nat \<Rightarrow> nat \<Rightarrow> 'h al_nand_context \<Rightarrow>
     ('h al_nand_context \<times> efi_status \<times> bytes) option" where
  "nand_read bus column Page n tail Ctx = do {
     (Err, SeqBuf, CwSize, CwCount) \<leftarrow> al_nand_cmd_seq_gen_page_read (NandObj Ctx) column (unat Page) n
       False AL_NAND_MAX_CMD_SEQ;
     if Err \<noteq> 0 then Some (Ctx, EFI_DEVICE_ERROR, [])
     else do {
       c1 \<leftarrow> al_nand_cmd_seq_execute bus SeqBuf (al_nand_cw_config bus CwSize CwCount (hal Ctx));
       (c2, Err2, d) \<leftarrow> al_nand_data_buff_read bus n 0 tail c1;
       Some (with_hal Ctx c2, if Err2 \<noteq> 0 then EFI_DEVICE_ERROR else EFI_SUCCESS, d)
     }
   }"

definition AlNandReadPage ::
    "'h nand_bus \<Rightarrow> u32 \<Rightarrow> 'h al_nand_context \<Rightarrow> ('h al_nand_context \<times> efi_status \<times> bytes) option" where
  "AlNandReadPage bus Page Ctx = nand_read bus 0 Page (unat (PageSize Ctx)) 0 Ctx"

definition AlNandReadOobByte ::
    "'h nand_bus \<Rightarrow> u32 \<Rightarrow> 'h al_nand_context \<Rightarrow> ('h al_nand_context \<times> efi_status \<times> bytes) option" where
  "AlNandReadOobByte bus Page Ctx = nand_read bus (unat (PageSize Ctx)) Page 4 3 Ctx"

subsection \<open>Bad blocks\<close>

definition bad_bit :: "u32 \<Rightarrow> u8" where
  "bad_bit Block = push_bit (unat (Block mod 8)) 1"

definition mark_bad :: "u32 \<Rightarrow> 'h al_nand_context \<Rightarrow> 'h al_nand_context option" where
  "mark_bad Block Ctx = (let i = unat (Block div 8) in
     if i < length (BadBlockMap Ctx)
     then Some (Ctx\<lparr>BadBlockMap := (BadBlockMap Ctx)[i := BadBlockMap Ctx ! i OR bad_bit Block]\<rparr>)
     else None)"

fun scan_bad_blocks ::
    "'h nand_bus \<Rightarrow> nat \<Rightarrow> u32 \<Rightarrow> 'h al_nand_context \<Rightarrow> 'h al_nand_context option" where
  "scan_bad_blocks bus 0 Block Ctx = Some Ctx"
| "scan_bad_blocks bus (Suc n) Block Ctx = do {
     (Ctx1, Status, d) \<leftarrow> AlNandReadOobByte bus (Block * PagesPerBlock Ctx) Ctx;
     bad \<leftarrow> (if EFI_ERROR Status then Some True else map_option (\<lambda>b. b \<noteq> 0xFF) (rd8 d 0));
     Ctx2 \<leftarrow> (if bad then mark_bad Block Ctx1 else Some Ctx1);
     scan_bad_blocks bus n (Block + 1) Ctx2
   }"

definition AlNandScanBadBlocks ::
    "'h nand_bus \<Rightarrow> 'h al_nand_context \<Rightarrow> 'h al_nand_context option" where
  "AlNandScanBadBlocks bus Ctx = scan_bad_blocks bus (unat (NumBlocks Ctx)) 0
     (Ctx\<lparr>BadBlockMap := replicate (length (BadBlockMap Ctx)) 0\<rparr>)"

definition AlNandIsBlockBad :: "'h al_nand_context \<Rightarrow> u32 \<Rightarrow> bool option" where
  "AlNandIsBlockBad Ctx Block =
     (if Block \<ge> NumBlocks Ctx then Some True
      else map_option (\<lambda>b. b AND bad_bit Block \<noteq> 0) (rd8 (BadBlockMap Ctx) (unat (Block div 8))))"

subsection \<open>The flash protocol\<close>

text \<open>The pointer arguments are not null; \<open>Ctx\<close> is what \<open>This\<close> belongs to.\<close>

definition AlNandFlashReadPage ::
    "'h nand_bus \<Rightarrow> 'h al_nand_context \<Rightarrow> u32 \<Rightarrow> ('h al_nand_context \<times> efi_status \<times> bytes) option" where
  "AlNandFlashReadPage bus Ctx PageIndex =
     (if PageIndex \<ge> NumPages Ctx then Some (Ctx, EFI_INVALID_PARAMETER, [])
      else do {
        bad \<leftarrow> AlNandIsBlockBad Ctx (PageIndex div PagesPerBlock Ctx);
        if bad then Some (Ctx, EFI_SUCCESS, replicate (unat (PageSize Ctx)) 0xFF)
        else AlNandReadPage bus PageIndex Ctx
      })"

definition AlNandFlashReadTags ::
    "'h nand_bus \<Rightarrow> 'h al_nand_context \<Rightarrow> u32 \<Rightarrow> ('h al_nand_context \<times> efi_status \<times> bytes) option" where
  "AlNandFlashReadTags bus Ctx PageIndex =
     (if PageIndex \<ge> NumPages Ctx then Some (Ctx, EFI_INVALID_PARAMETER, [])
      else do {
        bad \<leftarrow> AlNandIsBlockBad Ctx (PageIndex div PagesPerBlock Ctx);
        if bad then Some (Ctx, EFI_SUCCESS, replicate 16 0xFF)
        else nand_read bus (unat (PageSize Ctx - 16)) PageIndex 16 0 Ctx
      })"

definition change_column_seq :: "u32 \<Rightarrow> nat \<Rightarrow> u32 list" where
  "change_column_seq CwSize CwCount =
     [CMD_SEQ_ENTRY CMD_CMD 0x05, CMD_SEQ_ENTRY CMD_ADDRESS 0, CMD_SEQ_ENTRY CMD_ADDRESS 0,
      CMD_SEQ_ENTRY CMD_CMD 0xE0] @
     concat (replicate CwCount
       [CMD_SEQ_ENTRY CMD_DATA_READ_COUNT (CwSize AND 0xFF),
        CMD_SEQ_ENTRY CMD_DATA_READ_COUNT (drop_bit 8 CwSize AND 0xFF)])"

definition AlNandFlashReadPageBody ::
    "'h nand_bus \<Rightarrow> 'h al_nand_context \<Rightarrow> ('h al_nand_context \<times> efi_status \<times> bytes) option" where
  "AlNandFlashReadPageBody bus Ctx = do {
     let CwSize = AL_NAND_CW_SIZE;
     let CwCount = PageSize Ctx div CwSize;
     c1 \<leftarrow> al_nand_cmd_seq_execute bus (change_column_seq CwSize (unat CwCount))
            (al_nand_cw_config bus CwSize CwCount (hal Ctx));
     (c2, Err, d) \<leftarrow> al_nand_data_buff_read bus (unat (PageSize Ctx)) 0 0 c1;
     Some (with_hal Ctx c2, if Err \<noteq> 0 then EFI_DEVICE_ERROR else EFI_SUCCESS, d)
   }"

subsection \<open>The block I/O protocol\<close>

fun read_blocks_loop ::
    "'h nand_bus \<Rightarrow> nat \<Rightarrow> u32 \<Rightarrow> 'h al_nand_context \<Rightarrow> ('h al_nand_context \<times> efi_status \<times> bytes) option" where
  "read_blocks_loop bus 0 Page Ctx = Some (Ctx, EFI_SUCCESS, [])"
| "read_blocks_loop bus (Suc n) Page Ctx = do {
     bad \<leftarrow> AlNandIsBlockBad Ctx (Page div PagesPerBlock Ctx);
     (Ctx1, Status, d) \<leftarrow>
       (if bad then Some (Ctx, EFI_SUCCESS, replicate (unat (PageSize Ctx)) 0xFF)
        else AlNandReadPage bus Page Ctx);
     if EFI_ERROR Status then Some (Ctx1, EFI_DEVICE_ERROR, [])
     else map_option (\<lambda>(Ctx2, st, rest). (Ctx2, st, d @ rest)) (read_blocks_loop bus n (Page + 1) Ctx1)
   }"

definition AlNandBlockIoReadBlocks ::
    "'h nand_bus \<Rightarrow> 'h al_nand_context \<Rightarrow> u32 \<Rightarrow> u64 \<Rightarrow> u64 \<Rightarrow> bool \<Rightarrow>
     ('h al_nand_context \<times> efi_status \<times> bytes) option" where
  "AlNandBlockIoReadBlocks bus Ctx MediaId Lba BufferSize Buffer =
     (if \<not> Buffer then Some (Ctx, EFI_INVALID_PARAMETER, [])
      else if MediaId \<noteq> Media_MediaId Ctx then Some (Ctx, EFI_MEDIA_CHANGED, [])
      else if BufferSize = 0 then Some (Ctx, EFI_SUCCESS, [])
      else if BufferSize mod ucast (PageSize Ctx) \<noteq> 0 then Some (Ctx, EFI_BAD_BUFFER_SIZE, [])
      else
        let NPages = ucast (BufferSize div ucast (PageSize Ctx)) :: u32;
            Page = ucast Lba :: u32
        in if Page + NPages > NumPages Ctx then Some (Ctx, EFI_INVALID_PARAMETER, [])
           else read_blocks_loop bus (unat NPages) Page Ctx)"

definition AlNandBlockIoWriteBlocks :: "efi_status" where
  "AlNandBlockIoWriteBlocks = EFI_WRITE_PROTECTED"

definition AlNandBlockIoFlushBlocks :: "efi_status" where
  "AlNandBlockIoFlushBlocks = EFI_SUCCESS"

definition AlNandBlockIoReset ::
    "'h nand_bus \<Rightarrow> ('h \<Rightarrow> 'h) \<Rightarrow> 'h al_nand_context \<Rightarrow> ('h al_nand_context \<times> efi_status) option" where
  "AlNandBlockIoReset bus usdelay Ctx = AlNandDeviceReset bus usdelay Ctx"

subsection \<open>Start-up\<close>

text \<open>What \<open>al_nand_init\<close> and \<open>al_nand_dev_config\<close> with the driver's properties leave in the object.\<close>

definition configured_obj :: nand_ctrl_obj where
  "configured_obj = \<lparr>no_wrapper = False, cw_size = 0, cw_size_remaining = 0, cw_count = 0,
     cw_count_remaining = 0, ecc_messageSize = 0, ecc_bch = False, ecc_num_corr_bits = 0,
     ecc_spareAreaOffset = 0, sdrDataWidth = 0, num_col_cyc = 2, num_row_cyc = 2\<rparr>"

definition fresh_context :: "'h \<Rightarrow> 'h al_nand_context" where
  "fresh_context h = \<lparr>NandObj = configured_obj, Hw = h, PageSize = BENAND_PAGE_SIZE,
     PagesPerBlock = BENAND_PAGES_PER_BLOCK, NumBlocks = BENAND_NUM_BLOCKS, NumPages = BENAND_NUM_PAGES,
     BadBlockMap = replicate 128 0, Media_MediaId = 0\<rparr>"

text \<open>
  The driver's entry point from the configured controller on: the registers it clears, the reset, the
  identification and the scan for bad blocks. \<^const>\<open>Inl\<close> is the early return.
\<close>

definition AlNandDxeInitialize ::
    "'h nand_bus \<Rightarrow> ('h \<Rightarrow> 'h) \<Rightarrow> 'h \<Rightarrow> (efi_status + 'h al_nand_context) option" where
  "AlNandDxeInitialize bus usdelay h0 = do {
     let h1 = al_nand_ecc_set_enabled bus False h0;
     let h2 = al_reg_write32 bus BCH_CTRL_REG_0 0 h1;
     let h3 = al_reg_write32 bus BCH_CTRL_REG_1 0 h2;
     let h4 = al_reg_write32 bus NFLASH_SPARE_OFFSET 0 h3;
     let h5 = al_nand_int_disable bus 0xFFFFFFFF h4;
     let h6 = al_reg_write32 bus NFC_INT_STAT 0xFFFFFFFF h5;
     (Ctx1, Status) \<leftarrow> AlNandDeviceReset bus usdelay (fresh_context h6);
     if EFI_ERROR Status then Some (Inl Status)
     else do {
       (Ctx2, Status2, IdBuf) \<leftarrow> AlNandReadId bus 8 Ctx1;
       if EFI_ERROR Status2 then Some (Inl Status2)
       else map_option (\<lambda>Ctx3. Inr (Ctx3\<lparr>Media_MediaId := 0\<rparr>)) (AlNandScanBadBlocks bus Ctx2)
     }
   }"

text \<open>The protocol instance the entry point installs.\<close>

definition nand_flash_protocol :: "'h nand_bus \<Rightarrow> 'h al_nand_context nand_proto" where
  "nand_flash_protocol bus = \<lparr>nf_PageSize = BENAND_PAGE_SIZE, nf_PagesPerBlock = BENAND_PAGES_PER_BLOCK,
     nf_NumBlocks = BENAND_NUM_BLOCKS, nf_ReadPage = AlNandFlashReadPage bus,
     nf_ReadTags = AlNandFlashReadTags bus, nf_ReadPageBody = AlNandFlashReadPageBody bus\<rparr>"

subsection \<open>The contract of the flash protocol\<close>

definition ctx_ok :: "'h al_nand_context \<Rightarrow> bool" where
  "ctx_ok Ctx = (benand_obj (NandObj Ctx) \<and> PageSize Ctx = BENAND_PAGE_SIZE \<and>
     PagesPerBlock Ctx = BENAND_PAGES_PER_BLOCK \<and> NumBlocks Ctx = BENAND_NUM_BLOCKS \<and>
     NumPages Ctx = BENAND_NUM_PAGES \<and> length (BadBlockMap Ctx) = 128)"

lemma ctx_ok_with_hal:
  "ctx_ok Ctx \<Longrightarrow> benand_obj obj \<Longrightarrow> ctx_ok (with_hal Ctx (obj, h))"
  by (simp add: ctx_ok_def with_hal_def)

lemma ctx_ok_fresh: "ctx_ok (fresh_context h)"
  by (simp add: ctx_ok_def fresh_context_def benand_obj_def configured_obj_def)

text \<open>
  Configuring the code words, sending commands and draining the FIFO, in one step: \<open>sent\<close> is
  the hardware after the commands.
\<close>

definition sent :: "'h nand_bus \<Rightarrow> u32 list \<Rightarrow> u32 \<Rightarrow> u32 \<Rightarrow> nand_ctrl_obj \<times> 'h \<Rightarrow> 'h" where
  "sent bus cmds sz cnt c = foldl (\<lambda>h cmd. al_reg_write32 bus CMD_BUFF cmd h)
     (snd (al_nand_cw_config bus sz cnt c)) cmds"

lemma configured_read:
  assumes "benand_obj obj" and "unat sz * unat cnt < 2 ^ 32" and "n \<le> unat sz * unat cnt"
    and "h1 = sent bus cmds sz cnt (obj, h)"
  shows "\<exists>obj'. benand_obj obj' \<and>
    al_nand_cmd_seq_execute bus cmds (al_nand_cw_config bus sz cnt (obj, h)) \<bind>
      al_nand_data_buff_read bus n 0 tail =
    Some ((obj', fst (fifo_bytes bus ((n + 3) div 4) h1)), 0,
      take (n - tail) (snd (fifo_bytes bus ((n + 3) div 4) h1)))"
proof -
  let ?o = "obj\<lparr>cw_size := sz, cw_count := cnt, cw_count_remaining := cnt, cw_size_remaining := 0\<rparr>"
  obtain h0 where c: "al_nand_cw_config bus sz cnt (obj, h) = (?o, h0)" using cw_config_eq by metis
  have w: "\<not> no_wrapper ?o" using assms(1) by (simp add: benand_obj_def)
  have h1: "h1 = foldl (\<lambda>h cmd. al_reg_write32 bus CMD_BUFF cmd h) h0 cmds"
    using assms(4) c by (simp add: sent_def)
  obtain a b where "al_nand_data_buff_read bus n 0 tail (?o, h1) =
      Some ((?o\<lparr>cw_size_remaining := a, cw_count_remaining := b\<rparr>, fst (fifo_bytes bus ((n + 3) div 4) h1)), 0,
        drop 0 (take (n - tail) (snd (fifo_bytes bus ((n + 3) div 4) h1))))"
    using data_buff_read_wrapper [OF w, of n bus 0 tail h1] assms(2,3) by auto
  then have "al_nand_cmd_seq_execute bus cmds (al_nand_cw_config bus sz cnt (obj, h)) \<bind>
      al_nand_data_buff_read bus n 0 tail =
    Some ((?o\<lparr>cw_size_remaining := a, cw_count_remaining := b\<rparr>, fst (fifo_bytes bus ((n + 3) div 4) h1)), 0,
      take (n - tail) (snd (fifo_bytes bus ((n + 3) div 4) h1)))"
    using seq_execute_wrapper [OF w, of bus cmds h0] by (simp add: c h1)
  moreover have "benand_obj (?o\<lparr>cw_size_remaining := a, cw_count_remaining := b\<rparr>)"
    using assms(1) by (simp add: benand_obj_def)
  ultimately show ?thesis by blast
qed

text \<open>The hardware after a read of \<open>n\<close> bytes has been requested.\<close>

definition read_sent :: "'h nand_bus \<Rightarrow> nat \<Rightarrow> u32 \<Rightarrow> nat \<Rightarrow> 'h al_nand_context \<Rightarrow> 'h" where
  "read_sent bus column Page n Ctx = (let w = min n 512 in
     sent bus (page_read_seq (NandObj Ctx) column (unat Page) False w (n div w))
       (of_nat w) (of_nat (n div w)) (NandObj Ctx, Hw Ctx))"

lemma nand_read_run:
  assumes "ctx_ok Ctx" and "0 < n" and "n mod 4 = 0" and "n < 512 \<or> n mod 512 = 0" and "n \<le> 4096"
    and "h1 = read_sent bus column Page n Ctx"
  shows "\<exists>obj'. benand_obj obj' \<and> nand_read bus column Page n tail Ctx =
    Some (with_hal Ctx (obj', fst (fifo_bytes bus ((n + 3) div 4) h1)), EFI_SUCCESS,
      take (n - tail) (snd (fifo_bytes bus ((n + 3) div 4) h1)))"
proof -
  have obj: "benand_obj (NandObj Ctx)" using assms(1) by (simp add: ctx_ok_def)
  define w where "w = min n 512"
  have dvd: "n div w * w = n" using assms(2,4) by (auto simp: w_def min_def)
  have "n div w \<le> 8" using assms(2,5) div_le_mono [of n 4096 512] by (auto simp: w_def min_def)
  then have g: "al_nand_cmd_seq_gen_page_read (NandObj Ctx) column (unat Page) n False AL_NAND_MAX_CMD_SEQ =
      Some (0, page_read_seq (NandObj Ctx) column (unat Page) False w (n div w), of_nat w, of_nat (n div w))"
    using gen_page_read_eq [OF obj assms(2-4) w_def] by (simp add: AL_NAND_MAX_CMD_SEQ_def)
  have u: "unat (of_nat w :: u32) = w" "unat (of_nat (n div w) :: u32) = n div w"
    using \<open>n div w \<le> 8\<close> by (intro unat_of_nat_small, simp add: w_def min_def)+
  have "w * (n div w) = n" using dvd by (simp add: mult.commute)
  then have s: "unat (of_nat w :: u32) * unat (of_nat (n div w) :: u32) < 2 ^ 32"
      "n \<le> unat (of_nat w :: u32) * unat (of_nat (n div w) :: u32)"
    using assms(5) u by simp_all
  have h1: "h1 = sent bus (page_read_seq (NandObj Ctx) column (unat Page) False w (n div w))
       (of_nat w) (of_nat (n div w)) (NandObj Ctx, Hw Ctx)"
    using assms(6) by (simp add: read_sent_def w_def [symmetric] Let_def)
  obtain obj' where r: "benand_obj obj'"
      "al_nand_cmd_seq_execute bus (page_read_seq (NandObj Ctx) column (unat Page) False w (n div w))
        (al_nand_cw_config bus (of_nat w) (of_nat (n div w)) (NandObj Ctx, Hw Ctx)) \<bind>
        al_nand_data_buff_read bus n 0 tail =
      Some ((obj', fst (fifo_bytes bus ((n + 3) div 4) h1)), 0,
        take (n - tail) (snd (fifo_bytes bus ((n + 3) div 4) h1)))"
    using configured_read [OF obj s h1] by blast
  then have "nand_read bus column Page n tail Ctx =
      Some (with_hal Ctx (obj', fst (fifo_bytes bus ((n + 3) div 4) h1)), EFI_SUCCESS,
        take (n - tail) (snd (fifo_bytes bus ((n + 3) div 4) h1)))"
    using g by (auto simp: nand_read_def hal_def bind_eq_Some_conv)
  then show ?thesis using r(1) by blast
qed

lemma block_bad_run:
  assumes "ctx_ok Ctx"
  shows "\<exists>bad. AlNandIsBlockBad Ctx Block = Some bad"
proof (cases "Block \<ge> NumBlocks Ctx")
  case False
  then have "unat Block < 1024"
    using assms by (simp add: ctx_ok_def benand_consts word_le_nat_alt)
  then have "unat (Block div 8) < 128" by (simp add: unat_div)
  then show ?thesis using assms by (cases "BENAND_NUM_BLOCKS \<le> Block") (auto simp: AlNandIsBlockBad_def ctx_ok_def)
qed (auto simp: AlNandIsBlockBad_def)

text \<open>What every read of the protocol keeps: the geometry and the bad-block map.\<close>

definition same_map :: "'h al_nand_context \<Rightarrow> 'h al_nand_context \<Rightarrow> bool" where
  "same_map Ctx Ctx' = (BadBlockMap Ctx' = BadBlockMap Ctx \<and> Media_MediaId Ctx' = Media_MediaId Ctx)"

lemma nand_read_ok:
  assumes "ctx_ok Ctx" and "0 < n" and "n mod 4 = 0" and "n < 512 \<or> n mod 512 = 0" and "n \<le> 4096"
  shows "\<exists>Ctx' d. nand_read bus column Page n tail Ctx = Some (Ctx', EFI_SUCCESS, d) \<and> ctx_ok Ctx' \<and>
    same_map Ctx Ctx' \<and> length d = n - tail"
proof -
  obtain obj' h1 where r: "benand_obj obj'" "nand_read bus column Page n tail Ctx =
    Some (with_hal Ctx (obj', fst (fifo_bytes bus ((n + 3) div 4) h1)), EFI_SUCCESS,
      take (n - tail) (snd (fifo_bytes bus ((n + 3) div 4) h1)))"
    using nand_read_run [OF assms refl] by blast
  have "n - tail \<le> 4 * ((n + 3) div 4)" by simp
  then show ?thesis using r ctx_ok_with_hal [OF assms(1) r(1)]
    by (simp add: length_fifo_bytes same_map_def with_hal_def)
qed

lemma ReadPage_ok:
  assumes "ctx_ok Ctx"
  shows "\<exists>Ctx' d. AlNandReadPage bus Page Ctx = Some (Ctx', EFI_SUCCESS, d) \<and> ctx_ok Ctx' \<and>
    same_map Ctx Ctx' \<and> length d = 2048"
  using nand_read_ok [OF assms, of 2048 bus 0 Page 0] assms
  by (simp add: AlNandReadPage_def ctx_ok_def benand_consts)

lemma FlashReadPage_ok:
  assumes "ctx_ok Ctx"
  shows "\<exists>Ctx' st d. AlNandFlashReadPage bus Ctx Page = Some (Ctx', st, d) \<and> ctx_ok Ctx' \<and>
    same_map Ctx Ctx' \<and> (EFI_ERROR st \<or> length d = 2048) \<and> (Page < BENAND_NUM_PAGES \<longrightarrow> st = EFI_SUCCESS)"
proof -
  have pages: "NumPages Ctx = BENAND_NUM_PAGES" "PageSize Ctx = 2048"
    using assms by (simp_all add: ctx_ok_def BENAND_PAGE_SIZE_def)
  obtain bad where "AlNandIsBlockBad Ctx (Page div PagesPerBlock Ctx) = Some bad"
    using block_bad_run [OF assms] by blast
  then show ?thesis using ReadPage_ok [OF assms, of bus Page] assms pages
    by (cases bad; cases "Page \<ge> NumPages Ctx") (auto simp: AlNandFlashReadPage_def same_map_def not_le)
qed

lemma FlashReadTags_ok:
  assumes "ctx_ok Ctx"
  shows "\<exists>Ctx' st d. AlNandFlashReadTags bus Ctx Page = Some (Ctx', st, d) \<and> ctx_ok Ctx' \<and>
    same_map Ctx Ctx' \<and> (EFI_ERROR st \<or> length d = 16) \<and> (Page < BENAND_NUM_PAGES \<longrightarrow> st = EFI_SUCCESS)"
proof -
  have pages: "NumPages Ctx = BENAND_NUM_PAGES" using assms by (simp add: ctx_ok_def)
  obtain bad where "AlNandIsBlockBad Ctx (Page div PagesPerBlock Ctx) = Some bad"
    using block_bad_run [OF assms] by blast
  then show ?thesis
    using nand_read_ok [OF assms, of 16 bus "unat (PageSize Ctx - 16)" Page 0] assms pages
    by (cases bad; cases "Page \<ge> NumPages Ctx") (auto simp: AlNandFlashReadTags_def same_map_def not_le)
qed

text \<open>The hardware after a change of the read column.\<close>

definition body_sent :: "'h nand_bus \<Rightarrow> 'h al_nand_context \<Rightarrow> 'h" where
  "body_sent bus Ctx = sent bus (change_column_seq AL_NAND_CW_SIZE 4) AL_NAND_CW_SIZE 4 (NandObj Ctx, Hw Ctx)"

lemma FlashReadPageBody_run:
  assumes "ctx_ok Ctx" and "h1 = body_sent bus Ctx"
  shows "\<exists>obj'. benand_obj obj' \<and> AlNandFlashReadPageBody bus Ctx =
    Some (with_hal Ctx (obj', fst (fifo_bytes bus 512 h1)), EFI_SUCCESS,
        take 2048 (snd (fifo_bytes bus 512 h1)))"
proof -
  have obj: "benand_obj (NandObj Ctx)" "PageSize Ctx = 2048"
    using assms(1) by (simp_all add: ctx_ok_def BENAND_PAGE_SIZE_def)
  have cnt: "(2048 :: u32) div AL_NAND_CW_SIZE = 4" "unat AL_NAND_CW_SIZE = 512"
    by (simp_all add: AL_NAND_CW_SIZE_def unat_div word_unat_eq_iff)
  obtain obj' where r: "benand_obj obj'"
      "al_nand_cmd_seq_execute bus (change_column_seq AL_NAND_CW_SIZE 4)
         (al_nand_cw_config bus AL_NAND_CW_SIZE 4 (NandObj Ctx, Hw Ctx)) \<bind>
       al_nand_data_buff_read bus 2048 0 0 =
       Some ((obj', fst (fifo_bytes bus ((2048 + 3) div 4) h1)), 0,
         take (2048 - 0) (snd (fifo_bytes bus ((2048 + 3) div 4) h1)))"
    using configured_read [OF obj(1), of AL_NAND_CW_SIZE 4 2048 h1 bus "change_column_seq AL_NAND_CW_SIZE 4"
        "Hw Ctx" 0] cnt(2) assms(2) by (auto simp: body_sent_def)
  have "AlNandFlashReadPageBody bus Ctx =
      Some (with_hal Ctx (obj', fst (fifo_bytes bus 512 h1)), EFI_SUCCESS,
        take 2048 (snd (fifo_bytes bus 512 h1)))"
    using r(2) cnt(1) obj(2) by (auto simp: AlNandFlashReadPageBody_def hal_def bind_eq_Some_conv Let_def)
  then show ?thesis using r(1) by blast
qed

lemma FlashReadPageBody_ok:
  assumes "ctx_ok Ctx"
  shows "\<exists>Ctx' d. AlNandFlashReadPageBody bus Ctx = Some (Ctx', EFI_SUCCESS, d) \<and> ctx_ok Ctx' \<and>
    same_map Ctx Ctx' \<and> length d = 2048"
proof -
  obtain obj' where r: "benand_obj obj'" "AlNandFlashReadPageBody bus Ctx =
      Some (with_hal Ctx (obj', fst (fifo_bytes bus 512 (body_sent bus Ctx))), EFI_SUCCESS,
        take 2048 (snd (fifo_bytes bus 512 (body_sent bus Ctx))))"
    using FlashReadPageBody_run [OF assms refl] by blast
  then show ?thesis using ctx_ok_with_hal [OF assms r(1)]
    by (simp add: length_fifo_bytes same_map_def with_hal_def)
qed

text \<open>The driver provides the contract, for every controller behind the bus.\<close>

interpretation al_nand: nand_flash "nand_flash_protocol bus" ctx_ok
proof unfold_locales
  fix s :: "'a al_nand_context" and p
  assume ok: "ctx_ok s"
  show "\<exists>s' st b. nf_ReadPage (nand_flash_protocol bus) s p = Some (s', st, b) \<and> ctx_ok s' \<and>
      (EFI_ERROR st \<or> length b = unat (nf_PageSize (nand_flash_protocol bus)))"
    using FlashReadPage_ok [OF ok, of bus p] by (auto simp: nand_flash_protocol_def BENAND_PAGE_SIZE_def)
  show "\<exists>s' st b. nf_ReadTags (nand_flash_protocol bus) s p = Some (s', st, b) \<and> ctx_ok s' \<and>
      (EFI_ERROR st \<or> length b = 16)"
    using FlashReadTags_ok [OF ok, of bus p] by (auto simp: nand_flash_protocol_def)
  show "\<exists>s' st b. nf_ReadPageBody (nand_flash_protocol bus) s = Some (s', st, b) \<and> ctx_ok s' \<and>
      (EFI_ERROR st \<or> length b = unat (nf_PageSize (nand_flash_protocol bus)))"
    using FlashReadPageBody_ok [OF ok, of bus] by (auto simp: nand_flash_protocol_def BENAND_PAGE_SIZE_def)
qed (simp_all add: nand_flash_protocol_def benand_consts)

subsection \<open>The bitmap of bad blocks\<close>

definition map_bit :: "'h al_nand_context \<Rightarrow> nat \<Rightarrow> bool" where
  "map_bit Ctx b = bit (BadBlockMap Ctx ! (b div 8)) (b mod 8)"

text \<open>The bad-block markers the scan reads, in the order of the blocks.\<close>

fun oob_markers :: "'h nand_bus \<Rightarrow> nat \<Rightarrow> u32 \<Rightarrow> 'h al_nand_context \<Rightarrow> u8 list" where
  "oob_markers bus 0 Block Ctx = []"
| "oob_markers bus (Suc n) Block Ctx =
     (case AlNandReadOobByte bus (Block * PagesPerBlock Ctx) Ctx of
        None \<Rightarrow> []
      | Some (Ctx1, Status, d) \<Rightarrow> hd d # oob_markers bus n (Block + 1) Ctx1)"

lemma nand_read_map:
  "nand_read bus column Page n tail (Ctx\<lparr>BadBlockMap := m\<rparr>) =
   map_option (\<lambda>(C, st, d). (C\<lparr>BadBlockMap := m\<rparr>, st, d)) (nand_read bus column Page n tail Ctx)"
  by (auto simp: nand_read_def hal_def with_hal_def Let_def split: option.splits prod.splits bind_splits)

lemma oob_markers_map: "oob_markers bus n Block (Ctx\<lparr>BadBlockMap := m\<rparr>) = oob_markers bus n Block Ctx"
proof (induction n arbitrary: Block Ctx)
  case (Suc n)
  then show ?case
    by (auto simp: AlNandReadOobByte_def nand_read_map split: option.split prod.split)
qed simp

lemma ReadOobByte_ok:
  assumes "ctx_ok Ctx"
  shows "\<exists>Ctx' b. AlNandReadOobByte bus Page Ctx = Some (Ctx', EFI_SUCCESS, [b]) \<and> ctx_ok Ctx' \<and> same_map Ctx Ctx'"
proof -
  obtain Ctx' d where "AlNandReadOobByte bus Page Ctx = Some (Ctx', EFI_SUCCESS, d)" "ctx_ok Ctx'"
      "same_map Ctx Ctx'" "length d = 1"
    using nand_read_ok [OF assms, of 4 bus "unat (PageSize Ctx)" Page 3]
    by (auto simp: AlNandReadOobByte_def)
  then show ?thesis by (auto simp: length_Suc_conv)
qed

lemma IsBlockBad_bit:
  assumes "ctx_ok Ctx" and "unat Block < 1024"
  shows "AlNandIsBlockBad Ctx Block = Some (map_bit Ctx (unat Block))"
proof -
  have "\<not> BENAND_NUM_BLOCKS \<le> Block"
    using assms(2) by (simp add: BENAND_NUM_BLOCKS_def word_le_nat_alt)
  moreover have "unat Block div 8 < 128" using assms(2) by simp
  ultimately show ?thesis using assms(1)
    by (simp add: AlNandIsBlockBad_def ctx_ok_def map_bit_def bad_bit_def unat_div unat_mod
        bit_iff_and_push_bit_not_eq_0)
qed

lemma mark_bad_run:
  assumes "ctx_ok Ctx" and "unat Block < 1024"
  shows "\<exists>m. mark_bad Block Ctx = Some (Ctx\<lparr>BadBlockMap := m\<rparr>) \<and> ctx_ok (Ctx\<lparr>BadBlockMap := m\<rparr>) \<and>
    (\<forall>b < 1024. map_bit (Ctx\<lparr>BadBlockMap := m\<rparr>) b = (map_bit Ctx b \<or> b = unat Block))"
proof -
  let ?i = "unat Block div 8"
  let ?m = "(BadBlockMap Ctx)[?i := BadBlockMap Ctx ! ?i OR bad_bit Block]"
  have i: "?i < length (BadBlockMap Ctx)" using assms by (simp add: ctx_ok_def)
  have "map_bit (Ctx\<lparr>BadBlockMap := ?m\<rparr>) b = (map_bit Ctx b \<or> b = unat Block)" for b
  proof (cases "b div 8 = ?i")
    case True
    have "b mod 8 < 8" "unat Block mod 8 < 8" by simp_all
    moreover have "b mod 8 = unat Block mod 8 \<longleftrightarrow> b = unat Block"
      using True by (metis div_mult_mod_eq)
    ultimately show ?thesis using i True
      by (auto simp: map_bit_def bad_bit_def bit_simps unat_mod)
  next
    case False
    then show ?thesis using i by (auto simp: map_bit_def)
  qed
  then show ?thesis using i assms(1) by (auto simp: mark_bad_def unat_div ctx_ok_def Let_def)
qed

lemma scan_bad_blocks_run:
  assumes "ctx_ok Ctx" and "unat B + n \<le> 1024"
  shows "\<exists>Ctx'. scan_bad_blocks bus n B Ctx = Some Ctx' \<and> ctx_ok Ctx' \<and>
    length (oob_markers bus n B Ctx) = n \<and>
    (\<forall>b < 1024. map_bit Ctx' b = (map_bit Ctx b \<or>
       unat B \<le> b \<and> b < unat B + n \<and> oob_markers bus n B Ctx ! (b - unat B) \<noteq> 0xFF))"
  using assms
proof (induction n arbitrary: B Ctx)
  case (Suc n)
  obtain Ctx1 w where r: "AlNandReadOobByte bus (B * PagesPerBlock Ctx) Ctx = Some (Ctx1, EFI_SUCCESS, [w])"
      "ctx_ok Ctx1" "same_map Ctx Ctx1"
    using ReadOobByte_ok [OF Suc.prems(1)] by metis
  have B: "unat B < 1024" "unat (B + 1) = Suc (unat B)"
    using Suc.prems(2) unat_add_of_nat [of B 1] by simp_all
  have bits1: "map_bit Ctx1 b = map_bit Ctx b" for b using r(3) by (simp add: map_bit_def same_map_def)
  obtain m where m: "mark_bad B Ctx1 = Some (Ctx1\<lparr>BadBlockMap := m\<rparr>)" "ctx_ok (Ctx1\<lparr>BadBlockMap := m\<rparr>)"
      "\<forall>b < 1024. map_bit (Ctx1\<lparr>BadBlockMap := m\<rparr>) b = (map_bit Ctx1 b \<or> b = unat B)"
    using mark_bad_run [OF r(2) B(1)] by blast
  define Ctx2 where "Ctx2 = (if w \<noteq> 0xFF then Ctx1\<lparr>BadBlockMap := m\<rparr> else Ctx1)"
  have c2: "ctx_ok Ctx2" "\<forall>b < 1024. map_bit Ctx2 b = (map_bit Ctx b \<or> b = unat B \<and> w \<noteq> 0xFF)"
      "oob_markers bus n (B + 1) Ctx2 = oob_markers bus n (B + 1) Ctx1"
    using m r(2) bits1 by (simp_all add: Ctx2_def oob_markers_map)
  obtain Ctx' where IH: "scan_bad_blocks bus n (B + 1) Ctx2 = Some Ctx'" "ctx_ok Ctx'"
      "length (oob_markers bus n (B + 1) Ctx1) = n"
      "\<forall>b < 1024. map_bit Ctx' b = (map_bit Ctx2 b \<or>
       unat (B + 1) \<le> b \<and> b < unat (B + 1) + n \<and> oob_markers bus n (B + 1) Ctx1 ! (b - unat (B + 1)) \<noteq> 0xFF)"
    using Suc.IH [OF c2(1), of "B + 1"] Suc.prems(2) B(2) c2(3) by auto
  have step: "scan_bad_blocks bus (Suc n) B Ctx = scan_bad_blocks bus n (B + 1) Ctx2"
    using r(1) m(1) by (simp add: Ctx2_def)
  have marks: "oob_markers bus (Suc n) B Ctx = w # oob_markers bus n (B + 1) Ctx1"
    using r(1) by simp
  have "map_bit Ctx' b = (map_bit Ctx b \<or> unat B \<le> b \<and> b < unat B + Suc n \<and>
      (w # oob_markers bus n (B + 1) Ctx1) ! (b - unat B) \<noteq> 0xFF)" if "b < 1024" for b
  proof (cases "b = unat B")
    case True
    then show ?thesis using IH(4) c2(2) that B(2) by simp
  next
    case False
    then have "unat B \<le> b \<longleftrightarrow> Suc (unat B) \<le> b" "Suc (unat B) \<le> b \<Longrightarrow> b - unat B = Suc (b - Suc (unat B))"
      by linarith+
    then show ?thesis using IH(4) c2(2) that B(2) False by auto
  qed
  then show ?case using IH(1-3) unfolding step marks by auto
qed auto

lemma ScanBadBlocks_run:
  assumes "ctx_ok Ctx"
  shows "\<exists>Ctx'. AlNandScanBadBlocks bus Ctx = Some Ctx' \<and> ctx_ok Ctx' \<and>
    length (oob_markers bus 1024 0 Ctx) = 1024 \<and>
    (\<forall>b < 1024. map_bit Ctx' b = (oob_markers bus 1024 0 Ctx ! b \<noteq> 0xFF))"
proof -
  let ?C = "Ctx\<lparr>BadBlockMap := replicate (length (BadBlockMap Ctx)) 0\<rparr>"
  have "ctx_ok ?C" using assms by (simp add: ctx_ok_def)
  moreover have "\<not> map_bit ?C b" if "b < 1024" for b
    using that assms by (simp add: map_bit_def ctx_ok_def)
  moreover have "unat (NumBlocks Ctx) = 1024" using assms by (simp add: ctx_ok_def BENAND_NUM_BLOCKS_def)
  ultimately show ?thesis
    using scan_bad_blocks_run [of ?C 0 1024 bus] by (auto simp: AlNandScanBadBlocks_def oob_markers_map)
qed

subsection \<open>Reading blocks\<close>

text \<open>The pages a block read returns, one \<open>ReadPage\<close> after the other.\<close>

fun flash_pages ::
    "'h nand_bus \<Rightarrow> nat \<Rightarrow> u32 \<Rightarrow> 'h al_nand_context \<Rightarrow> ('h al_nand_context \<times> bytes) option" where
  "flash_pages bus 0 Page Ctx = Some (Ctx, [])"
| "flash_pages bus (Suc n) Page Ctx = do {
     (Ctx1, st, d) \<leftarrow> AlNandFlashReadPage bus Ctx Page;
     (Ctx2, rest) \<leftarrow> flash_pages bus n (Page + 1) Ctx1;
     Some (Ctx2, d @ rest)
   }"

lemma read_blocks_loop_run:
  assumes "ctx_ok Ctx" and "unat Page + n \<le> 65536"
  shows "\<exists>Ctx' d. read_blocks_loop bus n Page Ctx = Some (Ctx', EFI_SUCCESS, d) \<and>
    flash_pages bus n Page Ctx = Some (Ctx', d) \<and> ctx_ok Ctx' \<and> length d = n * 2048"
  using assms
proof (induction n arbitrary: Page Ctx)
  case (Suc n)
  have nx: "unat (Page + 1) = Suc (unat Page)" "\<not> Page \<ge> NumPages Ctx"
    using Suc.prems unat_add_of_nat [of Page 1]
    by (simp_all add: ctx_ok_def benand_consts word_le_nat_alt)
  obtain bad where bad: "AlNandIsBlockBad Ctx (Page div PagesPerBlock Ctx) = Some bad"
    using block_bad_run [OF Suc.prems(1)] by blast
  have ps: "unat (PageSize Ctx) = 2048" using Suc.prems(1) by (simp add: ctx_ok_def BENAND_PAGE_SIZE_def)
  obtain Ctx1 d where r: "AlNandFlashReadPage bus Ctx Page = Some (Ctx1, EFI_SUCCESS, d)" "ctx_ok Ctx1"
      "length d = 2048"
      "(if bad then Some (Ctx, EFI_SUCCESS, replicate 2048 0xFF) else AlNandReadPage bus Page Ctx) =
        Some (Ctx1, EFI_SUCCESS, d)"
    using ReadPage_ok [OF Suc.prems(1), of bus Page] bad nx(2) Suc.prems(1) ps
    by (cases bad) (auto simp: AlNandFlashReadPage_def)
  obtain Ctx2 e where "read_blocks_loop bus n (Page + 1) Ctx1 = Some (Ctx2, EFI_SUCCESS, e)"
      "flash_pages bus n (Page + 1) Ctx1 = Some (Ctx2, e)" "ctx_ok Ctx2" "length e = n * 2048"
    using Suc.IH [OF r(2), of "Page + 1"] Suc.prems(2) nx(1) by auto
  then show ?case using r bad ps by (cases bad) (simp_all add: ps)
qed simp

lemma ReadBlocks_run:
  assumes "ctx_ok Ctx" and "MediaId = Media_MediaId Ctx" and "BufferSize \<noteq> 0"
    and "unat BufferSize = n * 2048" and "unat Lba + n \<le> 65536"
  shows "\<exists>Ctx' d. AlNandBlockIoReadBlocks bus Ctx MediaId Lba BufferSize True = Some (Ctx', EFI_SUCCESS, d) \<and>
    flash_pages bus n (ucast Lba) Ctx = Some (Ctx', d) \<and> ctx_ok Ctx' \<and> length d = unat BufferSize"
proof -
  have ps: "PageSize Ctx = 2048" "NumPages Ctx = 65536"
    using assms(1) by (simp_all add: ctx_ok_def benand_consts)
  have al: "BufferSize mod 2048 = 0"
    using assms(4) by (intro word_unat_eq_iff [THEN iffD2]) (simp add: unat_mod)
  have "unat (BufferSize div 2048) = n" using assms(4) by (simp add: unat_div)
  then have np: "unat (ucast (BufferSize div 2048) :: u32) = n"
    using assms(5) by (simp add: unsigned_ucast_eq take_bit_nat_eq_self)
  have pg: "unat (ucast Lba :: u32) = unat Lba"
    using assms(5) by (simp add: unsigned_ucast_eq take_bit_nat_eq_self)
  have "unat (ucast Lba + ucast (BufferSize div 2048) :: u32) = unat Lba + n"
    using assms(5) by (simp add: unat_word_ariths np pg)
  then have "\<not> (ucast Lba + ucast (BufferSize div 2048) :: u32) > 65536"
    using assms(5) by (simp add: word_less_nat_alt)
  then have "AlNandBlockIoReadBlocks bus Ctx MediaId Lba BufferSize True =
      read_blocks_loop bus n (ucast Lba) Ctx"
    using assms(2,3) al np ps by (simp add: AlNandBlockIoReadBlocks_def Let_def)
  then show ?thesis using read_blocks_loop_run [OF assms(1), of "ucast Lba" n bus] assms(4,5) pg by auto
qed

end
