(* ===== verification/Yaffs2Scan.thy ===== *)
theory Yaffs2Scan
  imports NandFlash
begin

text \<open>
  The YAFFS2 volume of \<open>src/Drivers/MtYaffs2Dxe\<close>: its data structures (\<open>MtYaffs2Dxe.h\<close>)
  and the scan of the flash that builds them (\<open>Scan.c\<close>).

  \<open>Volume->Objects\<close> is an array of nullable pointers, the list \<open>v_Objects\<close> (empty while
  the pointer is null); an object is known by its index, which is its \<open>ObjId\<close>, so a pointer to an
  object is an index. \<open>ChildHead\<close> and \<open>SiblingLink\<close>, a circular doubly linked list, are
  the list of the children's indices in link order. \<open>Chunks\<close> is a list as well. The page buffer
  is only read after a successful page read has filled it, so a page is the value of that read.
  \<open>DEBUG\<close> output is left out, and \<open>FreePool\<close> has no effect a later step could observe.

  Whether a pool allocation succeeds is decided by a parameter \<open>al\<close>, which may answer
  differently for each kind of request of each page.
\<close>

subsection \<open>Constants\<close>

definition YAFFS2_DATA_PER_PAGE :: nat where "YAFFS2_DATA_PER_PAGE = 2032"
definition YAFFS2_SEQ_MIN :: u32 where "YAFFS2_SEQ_MIN = 0x00001000"
definition YAFFS2_SEQ_MAX :: u32 where "YAFFS2_SEQ_MAX = 0xEFFFFF00"
definition YAFFS2_TYPE_FILE :: u32 where "YAFFS2_TYPE_FILE = 1"
definition YAFFS2_TYPE_SYMLINK :: u32 where "YAFFS2_TYPE_SYMLINK = 2"
definition YAFFS2_TYPE_DIR :: u32 where "YAFFS2_TYPE_DIR = 3"
definition YAFFS2_TYPE_HARDLINK :: u32 where "YAFFS2_TYPE_HARDLINK = 4"
definition YAFFS2_TYPE_SPECIAL :: u32 where "YAFFS2_TYPE_SPECIAL = 5"
definition YAFFS2_OBJECTID_UNLINKED :: u32 where "YAFFS2_OBJECTID_UNLINKED = 3"
definition YAFFS2_OBJECTID_DELETED :: u32 where "YAFFS2_OBJECTID_DELETED = 4"
definition YAFFS2_CHUNK_UNSET :: u32 where "YAFFS2_CHUNK_UNSET = 0xFFFFFFFF"
definition YAFFS2_SUMMARY_OBJ_ID :: u32 where "YAFFS2_SUMMARY_OBJ_ID = 0x10"
definition YAFFS2_SUMMARY_HEADER_SZ :: nat where "YAFFS2_SUMMARY_HEADER_SZ = 16"
definition YAFFS2_SUMMARY_ENTRY_SZ :: nat where "YAFFS2_SUMMARY_ENTRY_SZ = 12"
definition YAFFS2_MAX_PAGES_PER_BLK :: nat where "YAFFS2_MAX_PAGES_PER_BLK = 64"

lemmas yaffs2_consts =
  YAFFS2_DATA_PER_PAGE_def YAFFS2_SEQ_MIN_def YAFFS2_SEQ_MAX_def YAFFS2_TYPE_FILE_def
  YAFFS2_TYPE_SYMLINK_def YAFFS2_TYPE_DIR_def YAFFS2_TYPE_HARDLINK_def YAFFS2_TYPE_SPECIAL_def
  YAFFS2_OBJECTID_UNLINKED_def YAFFS2_OBJECTID_DELETED_def YAFFS2_CHUNK_UNSET_def
  YAFFS2_SUMMARY_OBJ_ID_def YAFFS2_SUMMARY_HEADER_SZ_def YAFFS2_SUMMARY_ENTRY_SZ_def
  YAFFS2_MAX_PAGES_PER_BLK_def

subsection \<open>Data structures\<close>

record yaffs2_tags =
  t_SeqNumber :: u32
  t_ObjId :: u32
  t_ChunkId :: u32
  t_NBytes :: u32
  t_IsHeader :: bool

record yaffs2_chunk_loc =
  c_PageIndex :: u32
  c_NBytes :: u32
  c_SeqNumber :: u32

record yaffs2_object =
  o_ObjId :: u32
  o_ParentId :: u32
  o_Type :: u32
  o_Name :: bytes
  o_Mode :: u32
  o_MTime :: u32
  o_FileSize :: u64
  o_Alias :: bytes
  o_EquivId :: u32
  o_HeaderSeq :: u32
  o_HeaderPage :: u32
  o_Parent :: "nat option"
  o_Children :: "nat list"
  o_ChunkCount :: u32
  o_ChunkAlloc :: u32
  o_Chunks :: "yaffs2_chunk_loc list"

record yaffs2_volume =
  v_Objects :: "yaffs2_object option list"
  v_MaxObjId :: u32
  v_Root :: "nat option"

text \<open>What \<open>AllocateZeroPool\<close> and \<open>InitializeListHead\<close> leave in a new object.\<close>

definition zero_object :: "u32 \<Rightarrow> yaffs2_object" where
  "zero_object ObjId = \<lparr>o_ObjId = ObjId, o_ParentId = 0, o_Type = 0, o_Name = replicate 256 0,
     o_Mode = 0, o_MTime = 0, o_FileSize = 0, o_Alias = replicate 160 0, o_EquivId = 0,
     o_HeaderSeq = 0, o_HeaderPage = 0, o_Parent = None, o_Children = [],
     o_ChunkCount = 0, o_ChunkAlloc = 0, o_Chunks = []\<rparr>"

definition chunk_unset :: yaffs2_chunk_loc where
  "chunk_unset = \<lparr>c_PageIndex = 0xFFFFFFFF, c_NBytes = 0xFFFFFFFF, c_SeqNumber = 0xFFFFFFFF\<rparr>"

definition empty_volume :: yaffs2_volume where
  "empty_volume = \<lparr>v_Objects = [], v_MaxObjId = 0, v_Root = None\<rparr>"

datatype alloc_kind = AllocObjects | AllocObject | AllocChunks

subsection \<open>Tags\<close>

type_synonym raw_tags = "u32 \<times> u32 \<times> u32 \<times> u32"

text \<open>\<open>UINT32 RawTags[4]\<close>, filled by \<open>ReadTags\<close>.\<close>

definition raw_tags :: "bytes \<Rightarrow> raw_tags option" where
  "raw_tags b = do {
     w0 \<leftarrow> rd32 b 0;
     w1 \<leftarrow> rd32 b 4;
     w2 \<leftarrow> rd32 b 8;
     w3 \<leftarrow> rd32 b 12;
     Some (w0, w1, w2, w3)
   }"

fun AreTagsErased :: "raw_tags \<Rightarrow> bool" where
  "AreTagsErased (w0, w1, w2, w3) =
     (w0 = 0xFFFFFFFF \<and> w1 = 0xFFFFFFFF \<and> w2 = 0xFFFFFFFF \<and> w3 = 0xFFFFFFFF)"

fun ParseTagWords :: "raw_tags \<Rightarrow> yaffs2_tags" where
  "ParseTagWords (w0, w1, w2, w3) =
     (if w2 AND 0x80000000 \<noteq> 0
      then \<lparr>t_SeqNumber = w0, t_ObjId = w1 AND 0x0FFFFFFF, t_ChunkId = 0, t_NBytes = w3,
            t_IsHeader = True\<rparr>
      else \<lparr>t_SeqNumber = w0, t_ObjId = w1, t_ChunkId = w2, t_NBytes = w3,
            t_IsHeader = False\<rparr>)"

subsection \<open>The object array\<close>

text \<open>\<open>NewMax\<close>, computed in 32 bits.\<close>

definition new_max :: "u32 \<Rightarrow> u32 \<Rightarrow> u32" where
  "new_max MaxObjId ObjId =
     (let n0 = (MaxObjId + 1) * 2;
          n1 = (if n0 < 256 then 256 else n0)
      in if n1 \<le> ObjId then ObjId + 64 else n1)"

definition EnsureObjectsCapacity ::
    "(alloc_kind \<Rightarrow> bool) \<Rightarrow> yaffs2_volume \<Rightarrow> u32 \<Rightarrow> (efi_status \<times> yaffs2_volume) option" where
  "EnsureObjectsCapacity al v ObjId =
     (if ObjId \<le> v_MaxObjId v then Some (EFI_SUCCESS, v)
      else
        let NewMax = new_max (v_MaxObjId v) ObjId;
            NewLen = unat (NewMax + 1);
            OldLen = unat (v_MaxObjId v + 1)
        in if \<not> al AllocObjects then Some (EFI_OUT_OF_RESOURCES, v)
           else if v_Objects v = []
           then Some (EFI_SUCCESS, v\<lparr>v_Objects := replicate NewLen None, v_MaxObjId := NewMax\<rparr>)
           else if OldLen \<le> NewLen \<and> OldLen \<le> length (v_Objects v)
           then Some (EFI_SUCCESS,
                  v\<lparr>v_Objects := take OldLen (v_Objects v) @ replicate (NewLen - OldLen) None,
                    v_MaxObjId := NewMax\<rparr>)
           else None)"

definition obj_at :: "yaffs2_volume \<Rightarrow> nat \<Rightarrow> yaffs2_object option option" where
  "obj_at v i = (if i < length (v_Objects v) then Some (v_Objects v ! i) else None)"

definition put_obj :: "yaffs2_volume \<Rightarrow> nat \<Rightarrow> yaffs2_object option \<Rightarrow> yaffs2_volume" where
  "put_obj v i x = v\<lparr>v_Objects := (v_Objects v)[i := x]\<rparr>"

definition FindOrCreateObject ::
    "(alloc_kind \<Rightarrow> bool) \<Rightarrow> yaffs2_volume \<Rightarrow> u32 \<Rightarrow> (yaffs2_object option \<times> yaffs2_volume) option"
where
  "FindOrCreateObject al v ObjId = do {
     (Status, v1) \<leftarrow> EnsureObjectsCapacity al v ObjId;
     if EFI_ERROR Status then Some (None, v1)
     else do {
       slot \<leftarrow> obj_at v1 (unat ObjId);
       case slot of
         Some ob \<Rightarrow> Some (Some ob, v1)
       | None \<Rightarrow>
           if al AllocObject
           then Some (Some (zero_object ObjId), put_obj v1 (unat ObjId) (Some (zero_object ObjId)))
           else Some (None, v1)
     }
   }"

subsection \<open>Headers and data chunks\<close>

definition header_is_stale :: "yaffs2_object \<Rightarrow> yaffs2_tags \<Rightarrow> u32 \<Rightarrow> bool" where
  "header_is_stale ob Tags PageIdx =
     (o_HeaderSeq ob \<noteq> 0 \<and>
      (t_SeqNumber Tags < o_HeaderSeq ob \<or>
       t_SeqNumber Tags = o_HeaderSeq ob \<and> PageIdx \<le> o_HeaderPage ob))"

definition ff_to_zero :: "u32 \<Rightarrow> u32" where
  "ff_to_zero w = (if w = 0xFFFFFFFF then 0 else w)"

text \<open>The fields \<open>ProcessHeader\<close> takes from the data area of a header page.\<close>

definition parse_header ::
    "bytes \<Rightarrow> yaffs2_tags \<Rightarrow> u32 \<Rightarrow> yaffs2_object \<Rightarrow> yaffs2_object option" where
  "parse_header Data Tags PageIdx ob = do {
     ty \<leftarrow> rd32 Data 0x00;
     par \<leftarrow> rd32 Data 0x04;
     nm \<leftarrow> rdbytes Data 0x0A 255;
     mo \<leftarrow> rd32 Data 0x10C;
     mt \<leftarrow> rd32 Data 0x11C;
     lo \<leftarrow> rd32 Data 0x124;
     hi \<leftarrow> rd32 Data 0x128;
     eq \<leftarrow> rd32 Data 0x12C;
     ali \<leftarrow> (if ty = YAFFS2_TYPE_SYMLINK
            then map_option (\<lambda>a. a @ [0]) (rdbytes Data 0x130 159)
            else Some (o_Alias ob));
     Some (ob\<lparr>o_Type := ty, o_ParentId := par, o_Name := nm @ [0], o_Mode := mo,
              o_MTime := ff_to_zero mt,
              o_FileSize := ucast (ff_to_zero lo) OR push_bit 32 (ucast (ff_to_zero hi)),
              o_EquivId := ff_to_zero eq, o_Alias := ali,
              o_HeaderSeq := t_SeqNumber Tags, o_HeaderPage := PageIdx\<rparr>)
   }"

definition ProcessHeader ::
    "(alloc_kind \<Rightarrow> bool) \<Rightarrow> yaffs2_volume \<Rightarrow> bytes \<Rightarrow> yaffs2_tags \<Rightarrow> u32 \<Rightarrow> yaffs2_volume option"
where
  "ProcessHeader al v PageBuf Tags PageIdx = do {
     (found, v1) \<leftarrow> FindOrCreateObject al v (t_ObjId Tags);
     case found of
       None \<Rightarrow> Some v1
     | Some ob \<Rightarrow>
         if header_is_stale ob Tags PageIdx then Some v1
         else do {
           ob' \<leftarrow> parse_header PageBuf Tags PageIdx ob;
           Some (put_obj v1 (unat (t_ObjId Tags)) (Some ob'))
         }
   }"

text \<open>\<open>NewAlloc\<close>, computed in 32 bits.\<close>

definition new_alloc :: "u32 \<Rightarrow> u32 \<Rightarrow> u32" where
  "new_alloc ChunkAlloc ChunkId =
     (let a0 = ChunkAlloc * 2;
          a1 = (if a0 < 8 then 8 else a0)
      in if a1 < ChunkId then ChunkId + 8 else a1)"

text \<open>The growth of \<open>Chunks\<close>: \<^const>\<open>None\<close> inside when the allocation fails.\<close>

definition grow_chunks ::
    "(alloc_kind \<Rightarrow> bool) \<Rightarrow> yaffs2_object \<Rightarrow> u32 \<Rightarrow> yaffs2_object option option" where
  "grow_chunks al ob ChunkId =
     (if ChunkId > o_ChunkAlloc ob then
        let NewAlloc = new_alloc (o_ChunkAlloc ob) ChunkId
        in if \<not> al AllocChunks then Some None
           else if o_Chunks ob = []
           then Some (Some (ob\<lparr>o_Chunks := replicate (unat NewAlloc) chunk_unset,
                               o_ChunkAlloc := NewAlloc\<rparr>))
           else if o_ChunkAlloc ob \<le> NewAlloc \<and> unat (o_ChunkAlloc ob) \<le> length (o_Chunks ob)
           then Some (Some (ob\<lparr>o_Chunks := take (unat (o_ChunkAlloc ob)) (o_Chunks ob) @
                                 replicate (unat NewAlloc - unat (o_ChunkAlloc ob)) chunk_unset,
                               o_ChunkAlloc := NewAlloc\<rparr>))
           else None
      else Some (Some ob))"

definition chunk_newer :: "yaffs2_chunk_loc \<Rightarrow> yaffs2_tags \<Rightarrow> u32 \<Rightarrow> bool" where
  "chunk_newer Existing Tags PageIdx =
     (c_PageIndex Existing = YAFFS2_CHUNK_UNSET \<or>
      t_SeqNumber Tags > c_SeqNumber Existing \<or>
      (t_SeqNumber Tags = c_SeqNumber Existing \<and> PageIdx > c_PageIndex Existing))"

definition put_chunk :: "yaffs2_tags \<Rightarrow> u32 \<Rightarrow> yaffs2_chunk_loc \<Rightarrow> yaffs2_chunk_loc" where
  "put_chunk Tags PageIdx Existing =
     (if chunk_newer Existing Tags PageIdx
      then \<lparr>c_PageIndex = PageIdx, c_NBytes = t_NBytes Tags, c_SeqNumber = t_SeqNumber Tags\<rparr>
      else Existing)"

definition ProcessDataChunk ::
    "(alloc_kind \<Rightarrow> bool) \<Rightarrow> yaffs2_volume \<Rightarrow> yaffs2_tags \<Rightarrow> u32 \<Rightarrow> yaffs2_volume option" where
  "ProcessDataChunk al v Tags PageIdx =
     (if t_ChunkId Tags = 0 then Some v
      else do {
        (found, v1) \<leftarrow> FindOrCreateObject al v (t_ObjId Tags);
        case found of
          None \<Rightarrow> Some v1
        | Some ob \<Rightarrow> do {
            grown \<leftarrow> grow_chunks al ob (t_ChunkId Tags);
            case grown of
              None \<Rightarrow> Some v1
            | Some ob1 \<Rightarrow>
                let ChunkIdx = unat (t_ChunkId Tags - 1) in
                if ChunkIdx < length (o_Chunks ob1)
                then Some (put_obj v1 (unat (t_ObjId Tags)) (Some (ob1\<lparr>
                       o_Chunks := (o_Chunks ob1)[ChunkIdx :=
                         put_chunk Tags PageIdx (o_Chunks ob1 ! ChunkIdx)],
                       o_ChunkCount := (if t_ChunkId Tags > o_ChunkCount ob1
                         then t_ChunkId Tags else o_ChunkCount ob1)\<rparr>)))
                else None
          }
      })"

subsection \<open>The directory tree\<close>

text \<open>First pass of \<open>BuildTree\<close>: the objects it frees.\<close>

definition dropped_object :: "nat \<Rightarrow> yaffs2_object \<Rightarrow> bool" where
  "dropped_object i ob =
     (o_Type ob = 0 \<or>
      (i = unat YAFFS2_OBJECTID_UNLINKED \<or> i = unat YAFFS2_OBJECTID_DELETED) \<or>
      (o_ParentId ob = YAFFS2_OBJECTID_UNLINKED \<or> o_ParentId ob = YAFFS2_OBJECTID_DELETED))"

definition prune_slot :: "nat \<Rightarrow> yaffs2_volume \<Rightarrow> yaffs2_volume option" where
  "prune_slot i v = do {
     slot \<leftarrow> obj_at v i;
     case slot of
       None \<Rightarrow> Some v
     | Some ob \<Rightarrow> if dropped_object i ob then Some (put_obj v i None) else Some v
   }"

text \<open>\<open>InsertTailList (&Objects[p]->ChildHead, &Objects[i]->SiblingLink)\<close>.\<close>

definition insert_tail :: "nat \<Rightarrow> nat \<Rightarrow> yaffs2_volume \<Rightarrow> yaffs2_volume option" where
  "insert_tail p i v = do {
     slot \<leftarrow> obj_at v p;
     pob \<leftarrow> slot;
     Some (put_obj v p (Some (pob\<lparr>o_Children := o_Children pob @ [i]\<rparr>)))
   }"

definition set_parent :: "nat \<Rightarrow> nat option \<Rightarrow> yaffs2_volume \<Rightarrow> yaffs2_volume option" where
  "set_parent i par v = do {
     slot \<leftarrow> obj_at v i;
     ob \<leftarrow> slot;
     Some (put_obj v i (Some (ob\<lparr>o_Parent := par\<rparr>)))
   }"

definition link_slot :: "nat \<Rightarrow> yaffs2_volume \<Rightarrow> yaffs2_volume option" where
  "link_slot i v = do {
     slot \<leftarrow> obj_at v i;
     case slot of
       None \<Rightarrow> Some v
     | Some ob \<Rightarrow>
         if i = 1 then set_parent i None v
         else do {
           orphan \<leftarrow> (if o_ParentId ob = 0 \<or> o_ParentId ob > v_MaxObjId v then Some True
                      else map_option (\<lambda>ps. ps = None) (obj_at v (unat (o_ParentId ob))));
           if orphan
           then do {
             root \<leftarrow> obj_at v 1;
             if root \<noteq> None then set_parent i (Some 1) v \<bind> insert_tail 1 i else Some v
           }
           else set_parent i (Some (unat (o_ParentId ob))) v
                  \<bind> insert_tail (unat (o_ParentId ob)) i
         }
   }"

text \<open>A loop \<open>for (i = a; i < a + n; i++)\<close> whose body may fault.\<close>

fun for_loop :: "(nat \<Rightarrow> 'v \<Rightarrow> 'v option) \<Rightarrow> nat \<Rightarrow> nat \<Rightarrow> 'v \<Rightarrow> 'v option" where
  "for_loop body a 0 v = Some v"
| "for_loop body a (Suc n) v = body a v \<bind> for_loop body (Suc a) n"

definition BuildTree :: "yaffs2_volume \<Rightarrow> yaffs2_volume option" where
  "BuildTree v = do {
     v1 \<leftarrow> for_loop prune_slot 1 (unat (v_MaxObjId v)) v;
     v2 \<leftarrow> for_loop link_slot 1 (unat (v_MaxObjId v1)) v1;
     if v_MaxObjId v2 \<ge> 1
     then do {
       r \<leftarrow> obj_at v2 1;
       Some (v2\<lparr>v_Root := (if r = None then None else Some 1)\<rparr>)
     }
     else Some (v2\<lparr>v_Root := None\<rparr>)
   }"

subsection \<open>Detection\<close>

definition is_object_type :: "u32 \<Rightarrow> bool" where
  "is_object_type ty = (ty \<ge> YAFFS2_TYPE_FILE \<and> ty \<le> YAFFS2_TYPE_SPECIAL)"

definition seq_in_range :: "u32 \<Rightarrow> bool" where
  "seq_in_range sq = (\<not> (sq < YAFFS2_SEQ_MIN \<or> sq > YAFFS2_SEQ_MAX))"

text \<open>\<open>ReadPage\<close> and the test of the object type in the first word of the page.\<close>

definition probe_header :: "'s nand_proto \<Rightarrow> 's \<Rightarrow> u32 \<Rightarrow> ('s \<times> bool) option" where
  "probe_header nd s Page =
     do {
       (s1, Status, b) \<leftarrow> nf_ReadPage nd s Page;
       if EFI_ERROR Status then Some (s1, False)
       else map_option (\<lambda>ty. (s1, is_object_type ty)) (rd32 b 0)
     }"

text \<open>The inner loop over pages 1.. of a block: state, \<open>SeqOk\<close>, \<open>FoundHeader\<close>.\<close>

fun detect_pages ::
    "'s nand_proto \<Rightarrow> u32 \<Rightarrow> u32 \<Rightarrow> nat \<Rightarrow> u32 \<Rightarrow> 's \<Rightarrow> bool \<Rightarrow> ('s \<times> bool \<times> bool) option" where
  "detect_pages nd FirstSeq BasePage 0 PageInBlock s FoundHeader = Some (s, True, FoundHeader)"
| "detect_pages nd FirstSeq BasePage (Suc n) PageInBlock s FoundHeader =
     do {
      (s1, Status, b) \<leftarrow> nf_ReadTags nd s (BasePage + PageInBlock);
      if EFI_ERROR Status then Some (s1, True, FoundHeader)
      else do {
        raw \<leftarrow> raw_tags b;
        if AreTagsErased raw then Some (s1, True, FoundHeader)
        else
          let Tags = ParseTagWords raw in
          if t_SeqNumber Tags \<noteq> FirstSeq then Some (s1, False, FoundHeader)
          else if \<not> FoundHeader \<and> t_IsHeader Tags
          then do {
            (s2, ok) \<leftarrow> probe_header nd s1 (BasePage + PageInBlock);
            detect_pages nd FirstSeq BasePage n (PageInBlock + 1) s2 ok
          }
          else detect_pages nd FirstSeq BasePage n (PageInBlock + 1) s1 FoundHeader
      }
     }"

fun detect_blocks ::
    "'s nand_proto \<Rightarrow> nat \<Rightarrow> u32 \<Rightarrow> 's \<Rightarrow> ('s \<times> efi_status) option" where
  "detect_blocks nd 0 Block s = Some (s, EFI_UNSUPPORTED)"
| "detect_blocks nd (Suc n) Block s =
     (if \<not> (Block < 10 \<and> Block < nf_NumBlocks nd) then Some (s, EFI_UNSUPPORTED)
      else do {
        let BasePage = Block * nf_PagesPerBlock nd;
        (s1, Status, b) \<leftarrow> nf_ReadTags nd s BasePage;
        if EFI_ERROR Status then detect_blocks nd n (Block + 1) s1
        else do {
          raw \<leftarrow> raw_tags b;
          if AreTagsErased raw then detect_blocks nd n (Block + 1) s1
          else
            let Tags = ParseTagWords raw in
            if \<not> seq_in_range (t_SeqNumber Tags) then detect_blocks nd n (Block + 1) s1
            else do {
              (s2, hdr) \<leftarrow> (if t_IsHeader Tags then probe_header nd s1 BasePage
                           else Some (s1, False));
              (s3, SeqOk, FoundHeader) \<leftarrow>
                detect_pages nd (t_SeqNumber Tags) BasePage
                  (unat (nf_PagesPerBlock nd) - 1) 1 s2 hdr;
              if SeqOk \<and> FoundHeader then Some (s3, EFI_SUCCESS)
              else detect_blocks nd n (Block + 1) s3
            }
        }
      })"

definition Yaffs2DetectFilesystem :: "'s nand_proto \<Rightarrow> 's \<Rightarrow> ('s \<times> efi_status) option" where
  "Yaffs2DetectFilesystem nd s = detect_blocks nd 10 0 s"

subsection \<open>The scan\<close>

record 's yaffs2_scan =
  sc_vol :: yaffs2_volume
  sc_nand :: 's
  sc_PageCount :: u32
  sc_HeaderCount :: u32

definition SummaryChecksum :: "bytes \<Rightarrow> u32" where
  "SummaryChecksum EntryData = foldl (\<lambda>Sum d. Sum + ucast d) 0 EntryData"

definition pseudo_object :: "u32 \<Rightarrow> bool" where
  "pseudo_object ObjId =
     (ObjId = 0 \<or> ObjId = YAFFS2_OBJECTID_UNLINKED \<or> ObjId = YAFFS2_OBJECTID_DELETED \<or>
      ObjId = YAFFS2_SUMMARY_OBJ_ID)"

text \<open>
  The loop that copies the summary entries to the stack: \<open>n\<close> entries from index \<open>i\<close>, up to the
  first erased one. \<open>EntryStore\<close> has room for \<open>YAFFS2_MAX_PAGES_PER_BLK\<close> entries; a store
  past it is a fault.
\<close>

fun copy_entries :: "bytes \<Rightarrow> nat \<Rightarrow> nat \<Rightarrow> (u32 \<times> u32 \<times> u32) list option" where
  "copy_entries PageBuf 0 i = Some []"
| "copy_entries PageBuf (Suc n) i = do {
     let Ep = YAFFS2_SUMMARY_HEADER_SZ + i * YAFFS2_SUMMARY_ENTRY_SZ;
     EntryObjId \<leftarrow> rd32 PageBuf Ep;
     EntryChunkId \<leftarrow> rd32 PageBuf (Ep + 4);
     EntryNBytes \<leftarrow> rd32 PageBuf (Ep + 8);
     if EntryObjId = 0xFFFFFFFF \<and> EntryChunkId = 0xFFFFFFFF \<and> EntryNBytes = 0xFFFFFFFF
     then Some []
     else if i < YAFFS2_MAX_PAGES_PER_BLK
     then map_option (\<lambda>es. (EntryObjId, EntryChunkId, EntryNBytes) # es)
            (copy_entries PageBuf n (Suc i))
     else None
   }"

definition entry_tags :: "u32 \<Rightarrow> u32 \<times> u32 \<times> u32 \<Rightarrow> yaffs2_tags" where
  "entry_tags BlockSeq e = (case e of (EntryObjId, EntryChunkId, EntryNBytes) \<Rightarrow>
     if EntryChunkId AND 0x80000000 \<noteq> 0
     then \<lparr>t_SeqNumber = BlockSeq, t_ObjId = EntryObjId AND 0x0FFFFFFF, t_ChunkId = 0,
           t_NBytes = EntryNBytes, t_IsHeader = True\<rparr>
     else \<lparr>t_SeqNumber = BlockSeq, t_ObjId = EntryObjId, t_ChunkId = EntryChunkId,
           t_NBytes = EntryNBytes, t_IsHeader = False\<rparr>)"

type_synonym allocator = "u32 \<Rightarrow> alloc_kind \<Rightarrow> bool"

text \<open>The loop over the copied entries; \<open>Page\<close> is \<open>BasePage + i\<close>.\<close>

fun scan_entries ::
    "'s nand_proto \<Rightarrow> allocator \<Rightarrow> u32 \<Rightarrow> (u32 \<times> u32 \<times> u32) list \<Rightarrow> u32 \<Rightarrow>
     's yaffs2_scan \<Rightarrow> 's yaffs2_scan option" where
  "scan_entries nd al BlockSeq [] Page sc = Some sc"
| "scan_entries nd al BlockSeq (e # es) Page sc =
     (let Tags = entry_tags BlockSeq e in
      if pseudo_object (t_ObjId Tags) then scan_entries nd al BlockSeq es (Page + 1) sc
      else
        let sc1 = sc\<lparr>sc_PageCount := sc_PageCount sc + 1\<rparr> in
        if t_IsHeader Tags
        then do {
          (s2, Status, b) \<leftarrow> nf_ReadPage nd (sc_nand sc1) Page;
          let sc2 = sc1\<lparr>sc_nand := s2\<rparr>;
          if EFI_ERROR Status then scan_entries nd al BlockSeq es (Page + 1) sc2
             else do {
               v \<leftarrow> ProcessHeader (al Page) (sc_vol sc2) b Tags Page;
               scan_entries nd al BlockSeq es (Page + 1)
                 (sc2\<lparr>sc_vol := v, sc_HeaderCount := sc_HeaderCount sc2 + 1\<rparr>)
             }
        }
        else do {
          v \<leftarrow> ProcessDataChunk (al Page) (sc_vol sc1) Tags Page;
          scan_entries nd al BlockSeq es (Page + 1) (sc1\<lparr>sc_vol := v\<rparr>)
        })"

text \<open>
  The checks of the summary page: \<open>Some (Some (BlockSeq, entries))\<close> when the summary is valid.
\<close>

definition read_summary :: "u32 \<Rightarrow> bytes \<Rightarrow> (u32 \<times> (u32 \<times> u32 \<times> u32) list) option option" where
  "read_summary PagesPerBlock PageBuf = do {
     Version \<leftarrow> rd32 PageBuf 0;
     BlockSeq \<leftarrow> rd32 PageBuf 8;
     StoredSum \<leftarrow> rd32 PageBuf 12;
     let NumEntries = PagesPerBlock - 1;
     let SummaryBytes = NumEntries * of_nat YAFFS2_SUMMARY_ENTRY_SZ;
     if Version \<noteq> 1 \<or> \<not> seq_in_range BlockSeq \<or>
        of_nat YAFFS2_SUMMARY_HEADER_SZ + SummaryBytes > of_nat YAFFS2_DATA_PER_PAGE
     then Some None
     else do {
       dat \<leftarrow> rdbytes PageBuf YAFFS2_SUMMARY_HEADER_SZ (unat SummaryBytes);
       if SummaryChecksum dat \<noteq> StoredSum then Some None
       else do {
         e0 \<leftarrow> rd32 PageBuf YAFFS2_SUMMARY_HEADER_SZ;
         e1 \<leftarrow> rd32 PageBuf (YAFFS2_SUMMARY_HEADER_SZ + 4);
         e2 \<leftarrow> rd32 PageBuf (YAFFS2_SUMMARY_HEADER_SZ + 8);
         if e0 = 0 \<and> e1 = 0 \<and> e2 = 0 then Some None
         else map_option (\<lambda>es. Some (BlockSeq, es)) (copy_entries PageBuf (unat NumEntries) 0)
       }
     }
   }"

definition ScanBlockViaSummary ::
    "'s nand_proto \<Rightarrow> allocator \<Rightarrow> u32 \<Rightarrow> 's yaffs2_scan \<Rightarrow> (bool \<times> 's yaffs2_scan) option" where
  "ScanBlockViaSummary nd al Block sc =
     do {
      let BasePage = Block * nf_PagesPerBlock nd;
      let SummaryPage = BasePage + (nf_PagesPerBlock nd - 1);
      (s1, Status, b) \<leftarrow> nf_ReadTags nd (sc_nand sc) SummaryPage;
      let sc1 = sc\<lparr>sc_nand := s1\<rparr>;
      if EFI_ERROR Status then Some (False, sc1)
         else do {
           raw \<leftarrow> raw_tags b;
           case raw of (w0, w1, w2, w3) \<Rightarrow>
             if AreTagsErased raw \<or> w1 \<noteq> YAFFS2_SUMMARY_OBJ_ID \<or> w2 AND 0x80000000 \<noteq> 0 \<or> w2 \<noteq> 1
             then Some (False, sc1)
             else do {
               (s2, Status2, PageBuf) \<leftarrow> nf_ReadPageBody nd (sc_nand sc1);
               let sc2 = sc1\<lparr>sc_nand := s2\<rparr>;
               if EFI_ERROR Status2 then Some (False, sc2)
                  else do {
                    sm \<leftarrow> read_summary (nf_PagesPerBlock nd) PageBuf;
                    case sm of
                      None \<Rightarrow> Some (False, sc2)
                    | Some (BlockSeq, es) \<Rightarrow>
                        map_option (Pair True) (scan_entries nd al BlockSeq es BasePage sc2)
                  }
             }
         }
     }"

text \<open>\<open>n\<close> more pages of the block, starting at \<open>Page\<close>.\<close>

fun scan_pages ::
    "'s nand_proto \<Rightarrow> allocator \<Rightarrow> nat \<Rightarrow> u32 \<Rightarrow> 's yaffs2_scan \<Rightarrow> 's yaffs2_scan option" where
  "scan_pages nd al 0 Page sc = Some sc"
| "scan_pages nd al (Suc n) Page sc =
     do {
      (s1, Status, b) \<leftarrow> nf_ReadTags nd (sc_nand sc) Page;
      let sc1 = sc\<lparr>sc_nand := s1\<rparr>;
      if EFI_ERROR Status then Some sc1
         else do {
           raw \<leftarrow> raw_tags b;
           if AreTagsErased raw then Some sc1
           else
             let Tags = ParseTagWords raw in
             if \<not> seq_in_range (t_SeqNumber Tags) \<or> pseudo_object (t_ObjId Tags)
             then scan_pages nd al n (Page + 1) sc1
             else
               let sc2 = sc1\<lparr>sc_PageCount := sc_PageCount sc1 + 1\<rparr> in
               if t_IsHeader Tags
               then do {
                 (s3, Status3, body) \<leftarrow> nf_ReadPageBody nd (sc_nand sc2);
                 let sc3 = sc2\<lparr>sc_nand := s3\<rparr>;
                 if EFI_ERROR Status3 then scan_pages nd al n (Page + 1) sc3
                    else do {
                      v \<leftarrow> ProcessHeader (al Page) (sc_vol sc3) body Tags Page;
                      scan_pages nd al n (Page + 1)
                        (sc3\<lparr>sc_vol := v, sc_HeaderCount := sc_HeaderCount sc3 + 1\<rparr>)
                    }
               }
               else do {
                 v \<leftarrow> ProcessDataChunk (al Page) (sc_vol sc2) Tags Page;
                 scan_pages nd al n (Page + 1) (sc2\<lparr>sc_vol := v\<rparr>)
               }
         }
     }"

definition ScanBlockPageByPage ::
    "'s nand_proto \<Rightarrow> allocator \<Rightarrow> u32 \<Rightarrow> 's yaffs2_scan \<Rightarrow> 's yaffs2_scan option" where
  "ScanBlockPageByPage nd al Block sc =
     scan_pages nd al (unat (nf_PagesPerBlock nd)) (Block * nf_PagesPerBlock nd) sc"

definition scan_block ::
    "'s nand_proto \<Rightarrow> allocator \<Rightarrow> nat \<Rightarrow> 's yaffs2_scan \<Rightarrow> 's yaffs2_scan option" where
  "scan_block nd al i sc =
     do {
      let Block = of_nat i;
      (s1, Status, b) \<leftarrow> nf_ReadTags nd (sc_nand sc) (Block * nf_PagesPerBlock nd);
      let sc1 = sc\<lparr>sc_nand := s1\<rparr>;
      if EFI_ERROR Status then Some sc1
         else do {
           raw \<leftarrow> raw_tags b;
           if AreTagsErased raw then Some sc1
           else do {
             (ok, sc2) \<leftarrow> ScanBlockViaSummary nd al Block sc1;
             if ok then Some sc2 else ScanBlockPageByPage nd al Block sc2
           }
         }
     }"

definition Yaffs2ScanNand ::
    "'s nand_proto \<Rightarrow> allocator \<Rightarrow> yaffs2_volume \<Rightarrow> 's \<Rightarrow> ('s \<times> yaffs2_volume \<times> efi_status) option"
where
  "Yaffs2ScanNand nd al v s = do {
     sc \<leftarrow> for_loop (scan_block nd al) 0 (unat (nf_NumBlocks nd))
            \<lparr>sc_vol = v, sc_nand = s, sc_PageCount = 0, sc_HeaderCount = 0\<rparr>;
     v1 \<leftarrow> BuildTree (sc_vol sc);
     case v_Root v1 of
       None \<Rightarrow> Some (sc_nand sc, v1, EFI_VOLUME_CORRUPTED)
     | Some r \<Rightarrow> do {
         slot \<leftarrow> obj_at v1 r;
         rob \<leftarrow> slot;
         Some (sc_nand sc, v1,
           if o_Type rob \<noteq> YAFFS2_TYPE_DIR then EFI_VOLUME_CORRUPTED else EFI_SUCCESS)
       }
   }"

end
