(* ===== verification/Yaffs2Volume.thy ===== *)
theory Yaffs2Volume
  imports Yaffs2Scan
begin

text \<open>
  The invariant of the YAFFS2 volume while the flash is scanned, and what each operation of the
  scan does to the objects. \<open>obj_of\<close> is the abstract view of the object array: a map from
  object ids to objects, which growing the array does not change.
\<close>

definition obj_of :: "yaffs2_volume \<Rightarrow> nat \<Rightarrow> yaffs2_object option" where
  "obj_of v i = (if i < length (v_Objects v) then v_Objects v ! i else None)"

definition object_ok :: "nat \<Rightarrow> yaffs2_object \<Rightarrow> bool" where
  "object_ok i ob =
     (unat (o_ObjId ob) = i \<and>
      length (o_Name ob) = 256 \<and> o_Name ob ! 255 = 0 \<and>
      length (o_Alias ob) = 160 \<and> o_Alias ob ! 159 = 0 \<and>
      length (o_Chunks ob) = unat (o_ChunkAlloc ob) \<and>
      o_ChunkCount ob \<le> o_ChunkAlloc ob)"

definition volume_ok :: "yaffs2_volume \<Rightarrow> bool" where
  "volume_ok v =
     ((v_Objects v = [] \<and> v_MaxObjId v = 0 \<or>
       length (v_Objects v) = Suc (unat (v_MaxObjId v))) \<and>
      (\<forall>i ob. obj_of v i = Some ob \<longrightarrow> object_ok i ob))"

text \<open>Objects that no header or data page has linked yet: true during the scan.\<close>

definition volume_unlinked :: "yaffs2_volume \<Rightarrow> bool" where
  "volume_unlinked v =
     (v_Root v = None \<and>
      (\<forall>i ob. obj_of v i = Some ob \<longrightarrow> o_Parent ob = None \<and> o_Children ob = []))"

lemma volume_ok_empty [simp]: "volume_ok empty_volume"
  by (simp add: volume_ok_def empty_volume_def obj_of_def)

lemma volume_unlinked_empty [simp]: "volume_unlinked empty_volume"
  by (simp add: volume_unlinked_def empty_volume_def obj_of_def)

lemma object_ok_zero: "object_ok (unat i) (zero_object i)"
  by (simp add: object_ok_def zero_object_def nth_Cons' numeral_eq_Suc)

lemma obj_of_put [simp]:
  "i < length (v_Objects v) \<Longrightarrow> obj_of (put_obj v i x) = (obj_of v)(i := x)"
  by (auto simp: obj_of_def put_obj_def fun_eq_iff)

lemma put_obj_fields [simp]:
  "v_MaxObjId (put_obj v i x) = v_MaxObjId v"
  "v_Root (put_obj v i x) = v_Root v"
  "length (v_Objects (put_obj v i x)) = length (v_Objects v)"
  by (simp_all add: put_obj_def)

lemma put_obj_idle: "i < length (v_Objects v) \<Longrightarrow> obj_of v i = x \<Longrightarrow> put_obj v i x = v"
  by (auto simp: put_obj_def obj_of_def)

lemma obj_at_eq: "obj_at v i = (if i < length (v_Objects v) then Some (obj_of v i) else None)"
  by (simp add: obj_at_def obj_of_def)

lemma volume_ok_bounds:
  "volume_ok v \<Longrightarrow> v_Objects v \<noteq> [] \<Longrightarrow> length (v_Objects v) = Suc (unat (v_MaxObjId v))"
  by (auto simp: volume_ok_def)

lemma volume_ok_object: "volume_ok v \<Longrightarrow> obj_of v i = Some ob \<Longrightarrow> object_ok i ob"
  by (auto simp: volume_ok_def)

lemma volume_ok_put:
  "volume_ok v \<Longrightarrow> i < length (v_Objects v) \<Longrightarrow> (\<And>ob. x = Some ob \<Longrightarrow> object_ok i ob) \<Longrightarrow>
   volume_ok (put_obj v i x)"
  by (auto simp: volume_ok_def)

subsection \<open>Growing the object array\<close>

text \<open>
  The ids for which the new capacity does not wrap around in 32 bits. The tag of a data page
  carries an unmasked 32-bit id, so the code does not guarantee this bound by itself.
\<close>

definition id_safe :: "u32 \<Rightarrow> bool" where
  "id_safe i = (i < 0xFFFFFFBF)"

lemma unat_add_no_wrap:
  "unat (x::u32) + unat y < 2 ^ 32 \<Longrightarrow> unat (x + y) = unat x + unat y"
  using unat_add_lem [of x y] by simp

lemma unat32_less: "unat (w::u32) < 4294967296"
  using unsigned_less [of w] by simp

lemma unat_Suc_no_wrap: "(w::u32) \<noteq> 0xFFFFFFFF \<Longrightarrow> unat (w + 1) = Suc (unat w)"
  using unat_add_no_wrap [of w 1] unat32_less [of w]
    word_unat_eq_iff [of w "0xFFFFFFFF"]
  by simp

lemma new_max_bounds:
  assumes "i < 0xFFFFFFBF"
  shows "i < new_max m i" and "new_max m i \<noteq> 0xFFFFFFFF"
proof -
  define n0 where "n0 = (m + 1) * 2"
  have "unat i < 0xFFFFFFBF" using assms by (simp add: word_less_nat_alt)
  then have "unat (i + 64) = unat i + 64" using unat_add_no_wrap [of i 64] by simp
  then have i64: "i < i + 64" "i + 64 \<noteq> 0xFFFFFFFF"
    using \<open>unat i < 0xFFFFFFBF\<close> by (auto simp: word_less_nat_alt word_unat_eq_iff)
  then show "i < new_max m i" by (auto simp: new_max_def Let_def)
  have "even n0" by (simp add: n0_def)
  moreover have "odd (0xFFFFFFFF :: u32)" by simp
  ultimately have "n0 \<noteq> 0xFFFFFFFF" by metis
  moreover have "(256 :: u32) \<noteq> 0xFFFFFFFF" by simp
  ultimately show "new_max m i \<noteq> 0xFFFFFFFF"
    using i64(2) unfolding new_max_def Let_def n0_def by metis
qed

lemma EnsureObjectsCapacity_ok:
  assumes "volume_ok v" and "id_safe i" and "i \<noteq> 0"
  obtains st v' where "EnsureObjectsCapacity al v i = Some (st, v')"
    and "volume_ok v'" and "obj_of v' = obj_of v" and "v_Root v' = v_Root v"
    and "\<not> EFI_ERROR st \<Longrightarrow> unat i < length (v_Objects v')"
    and "al AllocObjects \<Longrightarrow> \<not> EFI_ERROR st"
proof (cases "i \<le> v_MaxObjId v")
  case True
  have "v_MaxObjId v \<noteq> 0" using True \<open>i \<noteq> 0\<close> by auto
  then have "v_Objects v \<noteq> []" using assms(1) by (auto simp: volume_ok_def)
  then have "unat i < length (v_Objects v)"
    using volume_ok_bounds [OF assms(1)] True by (simp add: word_le_nat_alt)
  then show thesis using True assms(1) that [of EFI_SUCCESS v]
    by (simp add: EnsureObjectsCapacity_def)
next
  case False
  define m where "m = v_MaxObjId v"
  define nm where "nm = new_max m i"
  have mi: "m < i" using False by (simp add: m_def)
  then have nm: "i < nm" "nm \<noteq> 0xFFFFFFFF"
    using new_max_bounds [of i m] assms(2) by (simp_all add: id_safe_def nm_def)
  have len: "unat (nm + 1) = Suc (unat nm)" "unat (m + 1) = Suc (unat m)"
    using nm(2) mi unat32_less [of i] unat_Suc_no_wrap [of nm] unat_add_no_wrap [of m 1]
    by (simp_all add: word_less_nat_alt)
  have le: "unat m < unat nm" "unat i < unat nm"
    using nm mi by (simp_all add: word_less_nat_alt)
  show thesis
  proof (cases "al AllocObjects")
    case False
    then show thesis using \<open>\<not> i \<le> v_MaxObjId v\<close> assms(1) that [of EFI_OUT_OF_RESOURCES v]
      by (simp add: EnsureObjectsCapacity_def)
  next
    case True
    define objs where "objs = (if v_Objects v = [] then replicate (unat (nm + 1)) None
      else take (unat (m + 1)) (v_Objects v) @ replicate (unat (nm + 1) - unat (m + 1)) None)"
    define v' where "v' = v\<lparr>v_Objects := objs, v_MaxObjId := nm\<rparr>"
    have old: "v_Objects v \<noteq> [] \<Longrightarrow> length (v_Objects v) = Suc (unat m)"
      using volume_ok_bounds [OF assms(1)] by (simp add: m_def)
    have lenv: "length objs = Suc (unat nm)"
      using old len le by (auto simp: objs_def)
    have same: "obj_of v' = obj_of v"
      using old len le by (auto simp: obj_of_def v'_def objs_def fun_eq_iff nth_append simp del: replicate_Suc)
    have "EnsureObjectsCapacity al v i = Some (EFI_SUCCESS, v')"
      using \<open>\<not> i \<le> v_MaxObjId v\<close> True old len le
      by (simp add: EnsureObjectsCapacity_def Let_def v'_def objs_def m_def [symmetric]
          nm_def [symmetric])
    moreover have "volume_ok v'"
      using assms(1) same lenv by (auto simp: volume_ok_def v'_def)
    ultimately show thesis
      using that [of EFI_SUCCESS v'] same lenv le by (simp add: v'_def)
  qed
qed

text \<open>Object \<open>i\<close> as the scan finds or creates it.\<close>

definition old_object :: "yaffs2_volume \<Rightarrow> u32 \<Rightarrow> yaffs2_object" where
  "old_object v i = (case obj_of v (unat i) of Some x \<Rightarrow> x | None \<Rightarrow> zero_object i)"

lemma FindOrCreateObject_ok:
  assumes "volume_ok v" and "id_safe i" and "i \<noteq> 0"
  obtains fo v' where "FindOrCreateObject al v i = Some (fo, v')"
    and "volume_ok v'" and "v_Root v' = v_Root v"
    and "\<And>ob. fo = Some ob \<Longrightarrow> unat i < length (v_Objects v') \<and>
          obj_of v' = (obj_of v)(unat i \<mapsto> ob) \<and> ob = old_object v i"
    and "fo = None \<Longrightarrow> obj_of v' = obj_of v"
    and "al AllocObjects \<Longrightarrow> al AllocObject \<Longrightarrow> fo \<noteq> None"
proof -
  obtain st v1 where e: "EnsureObjectsCapacity al v i = Some (st, v1)"
    and v1: "volume_ok v1" "obj_of v1 = obj_of v" "v_Root v1 = v_Root v"
    and in1: "\<not> EFI_ERROR st \<Longrightarrow> unat i < length (v_Objects v1)"
    and al: "al AllocObjects \<Longrightarrow> \<not> EFI_ERROR st"
    using EnsureObjectsCapacity_ok [OF assms] by metis
  show thesis
  proof (cases "EFI_ERROR st")
    case True
    then show thesis using that [of None v1] e v1 al by (auto simp: FindOrCreateObject_def)
  next
    case False
    note len = in1 [OF False]
    show thesis
    proof (cases "obj_of v (unat i)")
      case (Some ob)
      then show thesis using that [of "Some ob" v1] e v1 False len
        by (auto simp: FindOrCreateObject_def obj_at_eq map_upd_triv old_object_def)
    next
      case None
      show thesis
      proof (cases "al AllocObject")
        case True
        have "volume_ok (put_obj v1 (unat i) (Some (zero_object i)))"
          using v1 len by (auto intro!: volume_ok_put object_ok_zero)
        then show thesis
          using that [of "Some (zero_object i)" "put_obj v1 (unat i) (Some (zero_object i))"]
            e v1 False len None True
          by (auto simp: FindOrCreateObject_def obj_at_eq old_object_def)
      next
        case False
        then show thesis using that [of None v1] e v1 \<open>\<not> EFI_ERROR st\<close> len None
          by (auto simp: FindOrCreateObject_def obj_at_eq)
      qed
    qed
  qed
qed

subsection \<open>Headers\<close>

text \<open>A page buffer is long enough for every field of the object header.\<close>

lemma parse_header_Some:
  assumes "464 \<le> length Data"
  shows "\<exists>ob'. parse_header Data Tags PageIdx ob = Some ob'"
  using assms by (auto simp: parse_header_def)

lemma parse_header_fields:
  assumes "parse_header Data Tags PageIdx ob = Some ob'"
  shows "o_HeaderSeq ob' = t_SeqNumber Tags" and "o_HeaderPage ob' = PageIdx"
    and "o_Type ob' = le32 Data 0" and "o_ParentId ob' = le32 Data 4"
    and "o_ObjId ob' = o_ObjId ob" and "o_Chunks ob' = o_Chunks ob"
    and "o_ChunkCount ob' = o_ChunkCount ob" and "o_ChunkAlloc ob' = o_ChunkAlloc ob"
    and "o_Parent ob' = o_Parent ob" and "o_Children ob' = o_Children ob"
    and "o_Name ob' = take 255 (drop 10 Data) @ [0]" and "265 \<le> length Data"
  using assms by (auto simp: parse_header_def bind_eq_Some_conv mem_simps split: if_splits)

lemma parse_header_alias:
  assumes "parse_header Data Tags PageIdx ob = Some ob'" and "object_ok i ob"
  shows "length (o_Alias ob') = 160 \<and> o_Alias ob' ! 159 = 0"
  using assms
  by (auto simp: parse_header_def object_ok_def bind_eq_Some_conv mem_simps nth_append
      split: if_splits)

lemma object_ok_parse_header:
  assumes "parse_header Data Tags PageIdx ob = Some ob'" and "object_ok i ob"
  shows "object_ok i ob'"
  using parse_header_fields [OF assms(1)] parse_header_alias [OF assms] assms(2)
  by (simp add: object_ok_def nth_append)

text \<open>The update of one object by one header page.\<close>

definition put_header :: "bytes \<Rightarrow> yaffs2_tags \<Rightarrow> u32 \<Rightarrow> yaffs2_object \<Rightarrow> yaffs2_object" where
  "put_header Data Tags PageIdx ob =
     (if header_is_stale ob Tags PageIdx then ob
      else case parse_header Data Tags PageIdx ob of Some ob' \<Rightarrow> ob' | None \<Rightarrow> ob)"

lemma object_ok_put_header: "object_ok i ob \<Longrightarrow> object_ok i (put_header Data Tags PageIdx ob)"
  by (auto simp: put_header_def object_ok_parse_header split: option.splits)

lemma put_header_links [simp]:
  "o_Parent (put_header Data Tags PageIdx ob) = o_Parent ob"
  "o_Children (put_header Data Tags PageIdx ob) = o_Children ob"
  "o_Chunks (put_header Data Tags PageIdx ob) = o_Chunks ob"
  by (auto simp: put_header_def parse_header_fields split: option.splits)

lemma old_object_ok: "volume_ok v \<Longrightarrow> object_ok (unat i) (old_object v i)"
  by (auto simp: old_object_def object_ok_zero volume_ok_object split: option.splits)

lemma old_object_links:
  "volume_unlinked v \<Longrightarrow> o_Parent (old_object v i) = None \<and> o_Children (old_object v i) = []"
  by (auto simp: old_object_def volume_unlinked_def zero_object_def split: option.splits)

text \<open>
  What every step of the scan keeps, and what it does to the objects: nothing, or the creation
  of an empty object, or, when memory is available, the update \<open>upd\<close> of object \<open>i\<close>.
\<close>

definition step_result ::
    "(alloc_kind \<Rightarrow> bool) \<Rightarrow> yaffs2_volume \<Rightarrow> u32 \<Rightarrow> (yaffs2_object \<Rightarrow> yaffs2_object) \<Rightarrow>
     yaffs2_volume \<Rightarrow> bool" where
  "step_result al v i upd v' =
     (volume_ok v' \<and> (volume_unlinked v \<longrightarrow> volume_unlinked v') \<and>
      (obj_of v' = obj_of v \<or> obj_of v' = (obj_of v)(unat i \<mapsto> old_object v i) \<or>
       obj_of v' = (obj_of v)(unat i \<mapsto> upd (old_object v i))) \<and>
      ((\<forall>k. al k) \<longrightarrow> obj_of v' = (obj_of v)(unat i \<mapsto> upd (old_object v i))))"

lemma volume_unlinked_upd:
  "volume_unlinked v \<Longrightarrow> v_Root v' = v_Root v \<Longrightarrow> obj_of v' = (obj_of v)(i \<mapsto> ob) \<Longrightarrow>
   o_Parent ob = None \<Longrightarrow> o_Children ob = [] \<Longrightarrow> volume_unlinked v'"
  by (auto simp: volume_unlinked_def)

lemma volume_unlinked_same:
  "volume_unlinked v \<Longrightarrow> v_Root v' = v_Root v \<Longrightarrow> obj_of v' = obj_of v \<Longrightarrow> volume_unlinked v'"
  by (auto simp: volume_unlinked_def)

lemma ProcessHeader_ok:
  assumes "volume_ok v" and "id_safe (t_ObjId Tags)" and "t_ObjId Tags \<noteq> 0"
    and "464 \<le> length Data"
  obtains v' where "ProcessHeader al v Data Tags PageIdx = Some v'"
    and "step_result al v (t_ObjId Tags) (put_header Data Tags PageIdx) v'"
proof -
  let ?i = "t_ObjId Tags"
  obtain fo v1 where f: "FindOrCreateObject al v ?i = Some (fo, v1)"
    and v1: "volume_ok v1" "v_Root v1 = v_Root v"
    and some: "\<And>ob. fo = Some ob \<Longrightarrow> unat ?i < length (v_Objects v1) \<and>
          obj_of v1 = (obj_of v)(unat ?i \<mapsto> ob) \<and> ob = old_object v ?i"
    and none: "fo = None \<Longrightarrow> obj_of v1 = obj_of v"
    and al: "al AllocObjects \<Longrightarrow> al AllocObject \<Longrightarrow> fo \<noteq> None"
    by (rule FindOrCreateObject_ok [OF assms(1-3), of al]) (rule that; assumption)
  show thesis
  proof (cases fo)
    case None
    then show thesis using that [of v1] f v1 none al
      by (auto simp: ProcessHeader_def step_result_def intro: volume_unlinked_same)
  next
    case (Some ob)
    note ob = some [OF this]
    obtain ob' where p: "parse_header Data Tags PageIdx ob = Some ob'"
      using parse_header_Some [OF assms(4)] by blast
    define nob where "nob = put_header Data Tags PageIdx ob"
    define v' where "v' = put_obj v1 (unat ?i) (Some nob)"
    have okob: "object_ok (unat ?i) ob" using ob old_object_ok [OF assms(1)] by simp
    have same: "header_is_stale ob Tags PageIdx \<Longrightarrow> v' = v1"
      using ob by (simp add: v'_def nob_def put_header_def put_obj_idle)
    have "ProcessHeader al v Data Tags PageIdx = Some v'"
      using f Some p same by (auto simp: ProcessHeader_def v'_def nob_def put_header_def)
    moreover have "volume_ok v'"
      using v1 ob okob by (auto simp: v'_def nob_def intro!: volume_ok_put object_ok_put_header)
    moreover have "obj_of v' = (obj_of v)(unat ?i \<mapsto> nob)"
      using ob by (simp add: v'_def)
    moreover have "volume_unlinked v \<Longrightarrow> volume_unlinked v'"
      using volume_unlinked_upd [of v v' "unat ?i" nob] v1 ob old_object_links [of v ?i]
      by (simp add: v'_def nob_def)
    ultimately show thesis using that [of v'] ob by (simp add: step_result_def nob_def)
  qed
qed

subsection \<open>Data chunks\<close>

text \<open>Everything of an object but its chunk array.\<close>

definition header_part :: "yaffs2_object \<Rightarrow> yaffs2_object" where
  "header_part ob = ob\<lparr>o_Chunks := [], o_ChunkAlloc := 0, o_ChunkCount := 0\<rparr>"

text \<open>The chunk array after it has been grown to hold \<open>ChunkId\<close>.\<close>

lemma grow_chunks_ok:
  assumes ok: "object_ok i ob" and small: "ChunkId < 0x80000000" and pos: "ChunkId \<noteq> 0"
  obtains g where "grow_chunks al ob ChunkId = Some g"
    and "\<And>ob'. g = Some ob' \<Longrightarrow> object_ok i ob' \<and> unat ChunkId \<le> length (o_Chunks ob') \<and>
          o_Parent ob' = o_Parent ob \<and> o_Children ob' = o_Children ob \<and>
          header_part ob' = header_part ob \<and> o_ChunkCount ob' = o_ChunkCount ob \<and>
          (\<exists>n. o_Chunks ob' = o_Chunks ob @ replicate n chunk_unset)"
    and "al AllocChunks \<Longrightarrow> g \<noteq> None"
proof (cases "ChunkId > o_ChunkAlloc ob")
  case False
  then show thesis using that [of "Some ob"] ok
    by (auto simp: grow_chunks_def object_ok_def word_less_nat_alt intro: exI [of _ 0])
next
  case True
  define a where "a = o_ChunkAlloc ob"
  define na where "na = new_alloc a ChunkId"
  have nat: "unat a < unat ChunkId" "unat ChunkId < 0x80000000"
    using True small by (simp_all add: a_def word_less_nat_alt)
  have "unat (ChunkId + 8) = unat ChunkId + 8" "unat (a * 2) = unat a * 2"
    using nat unat_add_no_wrap [of ChunkId 8] by (simp_all add: unat_word_ariths)
  then have na: "unat ChunkId \<le> unat na" "unat a \<le> unat na"
    using nat by (auto simp: na_def new_alloc_def Let_def word_less_nat_alt not_less)
  show thesis
  proof (cases "al AllocChunks")
    case False
    then show thesis using True that [of None] by (simp add: grow_chunks_def Let_def)
  next
    case alloc: True
    define ob' where "ob' = ob\<lparr>o_Chunks := o_Chunks ob @ replicate (unat na - unat a) chunk_unset,
                  o_ChunkAlloc := na\<rparr>"
    have len: "length (o_Chunks ob) = unat a" using ok by (simp add: object_ok_def a_def)
    have empty: "o_Chunks ob = [] \<Longrightarrow> unat a = 0" using len by simp
    have "a \<le> na" using na by (simp add: word_le_nat_alt)
    then have g: "grow_chunks al ob ChunkId = Some (Some ob')"
      using True alloc len empty
      by (auto simp: grow_chunks_def ob'_def a_def [symmetric] na_def [symmetric])
    have "object_ok i ob'"
      using ok na \<open>a \<le> na\<close> len by (auto simp: object_ok_def ob'_def a_def)
    then show thesis using that [of "Some ob'"] g na len
      by (auto simp: ob'_def header_part_def)
  qed
qed

definition chunk_at :: "yaffs2_object \<Rightarrow> nat \<Rightarrow> yaffs2_chunk_loc" where
  "chunk_at ob k = (if k < length (o_Chunks ob) then o_Chunks ob ! k else chunk_unset)"

text \<open>
  The effect of one data page on its object, up to the capacity of the chunk array: slot
  \<open>ChunkId - 1\<close> is updated, every other slot and field stays.
\<close>

definition data_effect :: "yaffs2_tags \<Rightarrow> u32 \<Rightarrow> yaffs2_object \<Rightarrow> yaffs2_object \<Rightarrow> bool" where
  "data_effect Tags PageIdx ob ob' =
     (chunk_at ob' = (chunk_at ob)(unat (t_ChunkId Tags) - 1 :=
        put_chunk Tags PageIdx (chunk_at ob (unat (t_ChunkId Tags) - 1))) \<and>
      o_ChunkCount ob' = max (o_ChunkCount ob) (t_ChunkId Tags) \<and>
      header_part ob' = header_part ob)"

lemma unat_dec: "(w::u32) \<noteq> 0 \<Longrightarrow> unat (w - 1) = unat w - 1"
  by (metis unat_minus_one)

lemma ProcessDataChunk_ok:
  assumes ok: "volume_ok v" and safe: "id_safe (t_ObjId Tags)" "t_ObjId Tags \<noteq> 0"
    and chunk: "t_ChunkId Tags < 0x80000000"
  obtains v' where "ProcessDataChunk al v Tags PageIdx = Some v'"
    and "volume_ok v'" and "volume_unlinked v \<Longrightarrow> volume_unlinked v'"
    and "obj_of v' = obj_of v \<or> obj_of v' = (obj_of v)(unat (t_ObjId Tags) \<mapsto> old_object v (t_ObjId Tags)) \<or>
       (\<exists>ob'. obj_of v' = (obj_of v)(unat (t_ObjId Tags) \<mapsto> ob') \<and> t_ChunkId Tags \<noteq> 0 \<and>
         data_effect Tags PageIdx (old_object v (t_ObjId Tags)) ob')"
    and "\<forall>k. al k \<Longrightarrow> t_ChunkId Tags \<noteq> 0 \<Longrightarrow>
       \<exists>ob'. obj_of v' = (obj_of v)(unat (t_ObjId Tags) \<mapsto> ob') \<and>
         data_effect Tags PageIdx (old_object v (t_ObjId Tags)) ob'"
proof (cases "t_ChunkId Tags = 0")
  case True
  then show thesis using that [of v] ok by (simp add: ProcessDataChunk_def)
next
  case False
  let ?i = "t_ObjId Tags"
  obtain fo v1 where f: "FindOrCreateObject al v ?i = Some (fo, v1)"
    and v1: "volume_ok v1" "v_Root v1 = v_Root v"
    and some: "\<And>ob. fo = Some ob \<Longrightarrow> unat ?i < length (v_Objects v1) \<and>
          obj_of v1 = (obj_of v)(unat ?i \<mapsto> ob) \<and> ob = old_object v ?i"
    and none: "fo = None \<Longrightarrow> obj_of v1 = obj_of v"
    and al: "al AllocObjects \<Longrightarrow> al AllocObject \<Longrightarrow> fo \<noteq> None"
    by (rule FindOrCreateObject_ok [OF ok safe, of al]) (rule that; assumption)
  show thesis
  proof (cases fo)
    case None
    then show thesis using that [of v1] f v1 none al False
      by (auto simp: ProcessDataChunk_def intro: volume_unlinked_same)
  next
    case (Some ob)
    note ob = some [OF this]
    have okob: "object_ok (unat ?i) ob" using ob old_object_ok [OF ok] by simp
    obtain g where g: "grow_chunks al ob (t_ChunkId Tags) = Some g"
      and gs: "\<And>ob'. g = Some ob' \<Longrightarrow> object_ok (unat ?i) ob' \<and>
          unat (t_ChunkId Tags) \<le> length (o_Chunks ob') \<and>
          o_Parent ob' = o_Parent ob \<and> o_Children ob' = o_Children ob \<and>
          header_part ob' = header_part ob \<and> o_ChunkCount ob' = o_ChunkCount ob \<and>
          (\<exists>n. o_Chunks ob' = o_Chunks ob @ replicate n chunk_unset)"
      and ga: "al AllocChunks \<Longrightarrow> g \<noteq> None"
      using grow_chunks_ok [OF okob chunk False, of al] by metis
    have links: "volume_unlinked v \<Longrightarrow> o_Parent ob = None \<and> o_Children ob = []"
      using ob old_object_links [of v ?i] by simp
    show thesis
    proof (cases g)
      case None
      then show thesis
        using that [of v1] f v1 False Some g ga ob links
          volume_unlinked_upd [of v v1 "unat ?i" ob]
        by (auto simp: ProcessDataChunk_def)
    next
      case (Some ob1)
      note ob1 = gs [OF this]
      define k where "k = unat (t_ChunkId Tags) - 1"
      have k: "k < length (o_Chunks ob1)" "unat (t_ChunkId Tags - 1) = k"
        using ob1 False unat_dec [of "t_ChunkId Tags"] unat_gt_0 [of "t_ChunkId Tags"]
        by (auto simp: k_def)
      define ob2 where "ob2 = ob1\<lparr>
          o_Chunks := (o_Chunks ob1)[k := put_chunk Tags PageIdx (o_Chunks ob1 ! k)],
          o_ChunkCount := (if t_ChunkId Tags > o_ChunkCount ob1
             then t_ChunkId Tags else o_ChunkCount ob1)\<rparr>"
      define v' where "v' = put_obj v1 (unat ?i) (Some ob2)"
      have run: "ProcessDataChunk al v Tags PageIdx = Some v'"
        using f \<open>fo = Some ob\<close> g Some False k
        by (simp add: ProcessDataChunk_def v'_def ob2_def Let_def)
      have old: "chunk_at ob1 = chunk_at ob"
        using ob1 by (auto simp: chunk_at_def fun_eq_iff nth_append)
      have "chunk_at ob2 = (chunk_at ob)(k := put_chunk Tags PageIdx (chunk_at ob k))"
        using k(1) by (auto simp: old [symmetric] chunk_at_def ob2_def fun_eq_iff)
      moreover have "header_part ob2 = header_part ob"
        using ob1 by (simp add: ob2_def header_part_def)
      ultimately have eff: "data_effect Tags PageIdx ob ob2"
        using ob1 by (auto simp: data_effect_def k_def ob2_def max_def)
      have "t_ChunkId Tags \<le> o_ChunkAlloc ob1"
        using ob1 by (simp add: object_ok_def word_le_nat_alt)
      then have "object_ok (unat ?i) ob2"
        using ob1 by (auto simp: object_ok_def ob2_def)
      then have "volume_ok v'" using v1 ob by (auto simp: v'_def intro!: volume_ok_put)
      moreover have o: "obj_of v' = (obj_of v)(unat ?i \<mapsto> ob2)"
        using ob by (simp add: v'_def)
      moreover have "volume_unlinked v \<Longrightarrow> volume_unlinked v'"
        using volume_unlinked_upd [of v v' "unat ?i" ob2] v1 o links ob1
        by (simp add: v'_def ob2_def)
      ultimately show thesis using that [of v'] run eff ob False by auto
    qed
  qed
qed

end
