(* ===== verification/Yaffs2Events.thy ===== *)
theory Yaffs2Events
  imports Yaffs2Volume
begin

text \<open>
  The scan as a sequence of events: each header or data page of the flash that the scan takes
  into account is one event, applied to the volume in turn. An object header and a chunk slot
  are both kept by the same rule, the newest version wins: a version is the pair of the sequence
  number and the page index, compared lexicographically. The locale \<open>newest_wins\<close> states that
  rule once; the theorems at the end lift it to the whole volume.
\<close>

subsection \<open>The rule shared by headers and chunks\<close>

locale newest_wins =
  fixes stamp :: "'c \<Rightarrow> (u32 \<times> u32) option"
    and put :: "'e \<Rightarrow> 'c \<Rightarrow> 'c"
    and version :: "'e \<Rightarrow> u32 \<times> u32"
    and holds :: "'e \<Rightarrow> 'c \<Rightarrow> bool"
    and valid :: "'e \<Rightarrow> bool"
  assumes put_new: "valid e \<Longrightarrow> (\<forall>k. stamp c = Some k \<longrightarrow> k < version e) \<Longrightarrow>
      stamp (put e c) = Some (version e) \<and> holds e (put e c)"
    and put_old: "valid e \<Longrightarrow> stamp c = Some k \<Longrightarrow> \<not> k < version e \<Longrightarrow> put e c = c"
begin

text \<open>From an unset slot, a run of versions leaves the newest of them.\<close>

lemma newest_of_run:
  assumes "stamp c = None" and "es \<noteq> []" and "\<forall>e \<in> set es. valid e"
  shows "\<exists>e \<in> set es. stamp (foldl (\<lambda>c e. put e c) c es) = Some (version e) \<and>
    holds e (foldl (\<lambda>c e. put e c) c es) \<and> (\<forall>e' \<in> set es. version e' \<le> version e)"
  using assms(2,3)
proof (induction es rule: rev_nonempty_induct)
  case (single e)
  then show ?case using put_new [of e c] assms(1) by simp
next
  case (snoc e es)
  define d where "d = foldl (\<lambda>c e. put e c) c es"
  obtain m where m: "m \<in> set es" "stamp d = Some (version m)" "holds m d"
      "\<forall>e' \<in> set es. version e' \<le> version m"
    using snoc unfolding d_def by auto
  show ?case
  proof (cases "version m < version e")
    case True
    then have "stamp (put e d) = Some (version e)" "holds e (put e d)"
      using put_new [of e d] snoc.prems m(2) by simp_all
    moreover have "\<forall>e' \<in> set es. version e' \<le> version e" using m(4) True by force
    ultimately show ?thesis by (auto simp: d_def)
  next
    case False
    then have "put e d = d" using put_old [of e d] snoc.prems m(2) by simp
    then show ?thesis using m False by (auto simp: d_def intro!: bexI [of _ m])
  qed
qed

text \<open>Versions that are all distinct make the result independent of the order.\<close>

lemma newest_order_independent:
  assumes "stamp c = None" and "set es = set es'" and "\<forall>e \<in> set es. valid e"
    and "inj_on version (set es)"
  shows "es = [] \<or> (\<exists>e \<in> set es. holds e (foldl (\<lambda>c e. put e c) c es) \<and>
    holds e (foldl (\<lambda>c e. put e c) c es'))"
proof (cases "es = []")
  case False
  then have "es' \<noteq> []" using assms(2) by auto
  obtain m where m: "m \<in> set es" "holds m (foldl (\<lambda>c e. put e c) c es)"
      "\<forall>e' \<in> set es. version e' \<le> version m"
    using newest_of_run [OF assms(1) False assms(3)] by blast
  have "\<forall>e \<in> set es'. valid e" using assms(2,3) by simp
  then obtain m' where m': "m' \<in> set es'" "holds m' (foldl (\<lambda>c e. put e c) c es')"
      "\<forall>e' \<in> set es'. version e' \<le> version m'"
    using newest_of_run [OF assms(1) \<open>es' \<noteq> []\<close>] by blast
  have "version m = version m'" using m m' assms(2) by (auto intro: order_antisym)
  then have "m = m'" using assms(2,4) m(1) m'(1) by (auto dest: inj_onD)
  then show ?thesis using m m' by auto
qed simp

end

subsection \<open>Events\<close>

datatype yaffs2_event =
    HeaderPage bytes yaffs2_tags u32
  | DataPage yaffs2_tags u32

fun ev_tags :: "yaffs2_event \<Rightarrow> yaffs2_tags" where
  "ev_tags (HeaderPage d t p) = t"
| "ev_tags (DataPage t p) = t"

fun ev_page :: "yaffs2_event \<Rightarrow> u32" where
  "ev_page (HeaderPage d t p) = p"
| "ev_page (DataPage t p) = p"

definition ev_version :: "yaffs2_event \<Rightarrow> u32 \<times> u32" where
  "ev_version e = (t_SeqNumber (ev_tags e), ev_page e)"

fun apply_event :: "allocator \<Rightarrow> yaffs2_event \<Rightarrow> yaffs2_volume \<Rightarrow> yaffs2_volume option" where
  "apply_event al (HeaderPage d t p) v = ProcessHeader (al p) v d t p"
| "apply_event al (DataPage t p) v = ProcessDataChunk (al p) v t p"

fun apply_events :: "allocator \<Rightarrow> yaffs2_event list \<Rightarrow> yaffs2_volume \<Rightarrow> yaffs2_volume option" where
  "apply_events al [] v = Some v"
| "apply_events al (e # es) v = apply_event al e v \<bind> apply_events al es"

lemma apply_events_append:
  "apply_events al (es @ es') v = apply_events al es v \<bind> apply_events al es'"
  by (induction es arbitrary: v) (auto split: bind_splits)

text \<open>What a page of an uncorrupted flash satisfies, whatever the object it belongs to.\<close>

definition event_ok :: "yaffs2_event \<Rightarrow> bool" where
  "event_ok e =
     (id_safe (t_ObjId (ev_tags e)) \<and> t_ObjId (ev_tags e) \<noteq> 0 \<and>
      seq_in_range (t_SeqNumber (ev_tags e)) \<and> ev_page e \<noteq> 0xFFFFFFFF \<and>
      (case e of HeaderPage d t p \<Rightarrow> 464 \<le> length d
               | DataPage t p \<Rightarrow> t_ChunkId t < 0x80000000))"

text \<open>Every pool allocation succeeds.\<close>

definition mem_available :: "allocator \<Rightarrow> bool" where
  "mem_available al = (\<forall>p k. al p k)"

definition ev_object :: "yaffs2_event \<Rightarrow> nat" where
  "ev_object e = unat (t_ObjId (ev_tags e))"

lemma apply_event_ok:
  assumes "volume_ok v" and "event_ok e"
  obtains v' where "apply_event al e v = Some v'" and "volume_ok v'"
    and "volume_unlinked v \<Longrightarrow> volume_unlinked v'"
    and "\<And>i. i \<noteq> ev_object e \<Longrightarrow> obj_of v' i = obj_of v i"
proof (cases e)
  case (HeaderPage d t p)
  then obtain v' where v': "ProcessHeader (al p) v d t p = Some v'"
    and r: "step_result (al p) v (t_ObjId t) (put_header d t p) v'"
    using assms by (auto simp: event_ok_def elim: ProcessHeader_ok)
  moreover have "obj_of v' i = obj_of v i" if "i \<noteq> unat (t_ObjId t)" for i
    using r that unfolding step_result_def by (metis fun_upd_other)
  ultimately show thesis using that [of v'] HeaderPage
    by (auto simp: step_result_def ev_object_def)
next
  case (DataPage t p)
  then obtain v' where v': "ProcessDataChunk (al p) v t p = Some v'" "volume_ok v'"
      "volume_unlinked v \<Longrightarrow> volume_unlinked v'"
    and r: "obj_of v' = obj_of v \<or> obj_of v' = (obj_of v)(unat (t_ObjId t) \<mapsto> old_object v (t_ObjId t)) \<or>
       (\<exists>ob'. obj_of v' = (obj_of v)(unat (t_ObjId t) \<mapsto> ob') \<and> t_ChunkId t \<noteq> 0 \<and>
         data_effect t p (old_object v (t_ObjId t)) ob')"
    using assms by (auto simp: event_ok_def elim: ProcessDataChunk_ok [where al = "al p"])
  moreover have "obj_of v' i = obj_of v i" if "i \<noteq> unat (t_ObjId t)" for i
    using r that by (metis fun_upd_other)
  ultimately show thesis using that [of v'] DataPage by (auto simp: ev_object_def)
qed

text \<open>Any sequence of well-formed pages is processed without a memory fault.\<close>

lemma apply_events_ok:
  assumes "volume_ok v" and "\<forall>e \<in> set es. event_ok e"
  shows "\<exists>v'. apply_events al es v = Some v' \<and> volume_ok v' \<and>
    (volume_unlinked v \<longrightarrow> volume_unlinked v')"
  using assms
proof (induction es arbitrary: v)
  case (Cons e es)
  obtain v1 where "apply_event al e v = Some v1" "volume_ok v1"
      "volume_unlinked v \<Longrightarrow> volume_unlinked v1"
    by (rule apply_event_ok [of v e al]) (use Cons.prems that in auto)
  then show ?case using Cons.IH [of v1] Cons.prems(2) by auto
qed simp

subsection \<open>Chunk slots\<close>

definition chunk_slot :: "yaffs2_volume \<Rightarrow> nat \<Rightarrow> nat \<Rightarrow> yaffs2_chunk_loc" where
  "chunk_slot v i k = (case obj_of v i of None \<Rightarrow> chunk_unset | Some ob \<Rightarrow> chunk_at ob k)"

definition chunk_stamp :: "yaffs2_chunk_loc \<Rightarrow> (u32 \<times> u32) option" where
  "chunk_stamp c = (if c_PageIndex c = YAFFS2_CHUNK_UNSET then None
     else Some (c_SeqNumber c, c_PageIndex c))"

definition chunk_of_event :: "yaffs2_event \<Rightarrow> yaffs2_chunk_loc" where
  "chunk_of_event e = \<lparr>c_PageIndex = ev_page e, c_NBytes = t_NBytes (ev_tags e),
     c_SeqNumber = t_SeqNumber (ev_tags e)\<rparr>"

interpretation chunks: newest_wins chunk_stamp "\<lambda>e. put_chunk (ev_tags e) (ev_page e)" ev_version
  "\<lambda>e c. c = chunk_of_event e" "\<lambda>e. ev_page e \<noteq> YAFFS2_CHUNK_UNSET"
  by unfold_locales
    (auto simp: chunk_stamp_def put_chunk_def chunk_newer_def chunk_of_event_def ev_version_def
      less_prod_def split: if_splits)

fun is_data_of :: "nat \<Rightarrow> nat \<Rightarrow> yaffs2_event \<Rightarrow> bool" where
  "is_data_of i k (HeaderPage d t p) = False"
| "is_data_of i k (DataPage t p) = (unat (t_ObjId t) = i \<and> unat (t_ChunkId t) = Suc k)"

lemma chunk_at_zero [simp]: "chunk_at (zero_object i) k = chunk_unset"
  by (simp add: chunk_at_def zero_object_def)

lemma chunk_slot_old: "chunk_slot v (unat i) k = chunk_at (old_object v i) k"
  by (auto simp: chunk_slot_def old_object_def split: option.splits)

lemma chunk_at_put_header [simp]: "chunk_at (put_header d t p ob) k = chunk_at ob k"
  by (simp add: chunk_at_def)

lemma chunk_slot_upd:
  "obj_of v' = (obj_of v)(j \<mapsto> ob) \<Longrightarrow>
   chunk_slot v' i k = (if i = j then chunk_at ob k else chunk_slot v i k)"
  by (simp add: chunk_slot_def)

lemma chunk_slot_event:
  assumes "volume_ok v" and "event_ok e" and "mem_available al"
    and "apply_event al e v = Some v'"
  shows "chunk_slot v' i k = (if is_data_of i k e then put_chunk (ev_tags e) (ev_page e) (chunk_slot v i k)
    else chunk_slot v i k)"
proof (cases e)
  case (HeaderPage d t p)
  obtain w where "ProcessHeader (al p) v d t p = Some w"
    and r: "step_result (al p) v (t_ObjId t) (put_header d t p) w"
    by (rule ProcessHeader_ok [of v t d "al p" p]) (use assms HeaderPage that in \<open>auto simp: event_ok_def\<close>)
  then have "w = v'" using assms(4) HeaderPage by simp
  then have "obj_of v' = (obj_of v)(unat (t_ObjId t) \<mapsto> put_header d t p (old_object v (t_ObjId t)))"
    using r assms(3) by (simp add: step_result_def mem_available_def)
  then show ?thesis using HeaderPage by (simp add: chunk_slot_upd chunk_slot_old)
next
  case (DataPage t p)
  show ?thesis
  proof (cases "t_ChunkId t = 0")
    case True
    then show ?thesis using assms(4) DataPage by (simp add: ProcessDataChunk_def)
  next
    case False
    obtain w where "ProcessDataChunk (al p) v t p = Some w"
      and r: "\<exists>ob'. obj_of w = (obj_of v)(unat (t_ObjId t) \<mapsto> ob') \<and>
         data_effect t p (old_object v (t_ObjId t)) ob'"
      by (rule ProcessDataChunk_ok [of v t "al p" p])
        (use assms False DataPage that in \<open>auto simp: event_ok_def mem_available_def\<close>)
    then have "w = v'" using assms(4) DataPage by simp
    then obtain ob' where "obj_of v' = (obj_of v)(unat (t_ObjId t) \<mapsto> ob')"
        "data_effect t p (old_object v (t_ObjId t)) ob'"
      using r by auto
    then show ?thesis using False DataPage unat_gt_0 [of "t_ChunkId t"]
      by (auto simp: chunk_slot_upd chunk_slot_old data_effect_def)
  qed
qed

lemma chunk_slot_events:
  assumes "volume_ok v" and "\<forall>e \<in> set es. event_ok e" and "mem_available al"
    and "apply_events al es v = Some v'"
  shows "chunk_slot v' i k =
    foldl (\<lambda>c e. put_chunk (ev_tags e) (ev_page e) c) (chunk_slot v i k) (filter (is_data_of i k) es)"
  using assms
proof (induction es arbitrary: v)
  case (Cons e es)
  obtain v1 where v1: "apply_event al e v = Some v1" "volume_ok v1"
    by (rule apply_event_ok [of v e al]) (use Cons.prems that in auto)
  have "chunk_slot v1 i k = (if is_data_of i k e
      then put_chunk (ev_tags e) (ev_page e) (chunk_slot v i k) else chunk_slot v i k)"
    using chunk_slot_event [of v e al v1] Cons.prems v1 by simp
  then show ?case using Cons.IH [of v1] Cons.prems v1 by simp
qed simp

subsection \<open>Header slots\<close>

definition header_slot :: "yaffs2_volume \<Rightarrow> u32 \<Rightarrow> yaffs2_object" where
  "header_slot v i = header_part (old_object v i)"

definition header_stamp :: "yaffs2_object \<Rightarrow> (u32 \<times> u32) option" where
  "header_stamp ob = (if o_HeaderSeq ob = 0 then None else Some (o_HeaderSeq ob, o_HeaderPage ob))"

text \<open>The object carries the fields of this header page.\<close>

fun header_held :: "yaffs2_event \<Rightarrow> yaffs2_object \<Rightarrow> bool" where
  "header_held (HeaderPage d t p) ob =
     (o_Type ob = le32 d 0 \<and> o_ParentId ob = le32 d 4 \<and>
      o_Name ob = take 255 (drop 10 d) @ [0] \<and> o_Mode ob = le32 d 0x10C \<and>
      o_MTime ob = ff_to_zero (le32 d 0x11C) \<and>
      o_FileSize ob = ucast (ff_to_zero (le32 d 0x124)) OR
        push_bit 32 (ucast (ff_to_zero (le32 d 0x128))) \<and>
      o_EquivId ob = ff_to_zero (le32 d 0x12C) \<and>
      (o_Type ob = YAFFS2_TYPE_SYMLINK \<longrightarrow> o_Alias ob = take 159 (drop 0x130 d) @ [0]))"
| "header_held (DataPage t p) ob = False"

fun header_update :: "yaffs2_event \<Rightarrow> yaffs2_object \<Rightarrow> yaffs2_object" where
  "header_update (HeaderPage d t p) ob = put_header d t p ob"
| "header_update (DataPage t p) ob = ob"

fun is_header_page :: "yaffs2_event \<Rightarrow> bool" where
  "is_header_page (HeaderPage d t p) = (464 \<le> length d \<and> t_SeqNumber t \<noteq> 0)"
| "is_header_page (DataPage t p) = False"

lemma parse_header_held:
  "parse_header d t p ob = Some ob' \<Longrightarrow> header_held (HeaderPage d t p) ob'"
  by (auto simp: parse_header_def bind_eq_Some_conv mem_simps split: if_splits)

interpretation headers: newest_wins header_stamp header_update ev_version header_held is_header_page
proof unfold_locales
  fix e :: yaffs2_event and c
  assume v: "is_header_page e" and newer: "\<forall>k. header_stamp c = Some k \<longrightarrow> k < ev_version e"
  then obtain d t p where e: "e = HeaderPage d t p" "464 \<le> length d" "t_SeqNumber t \<noteq> 0"
    by (cases e) auto
  obtain ob' where p: "parse_header d t p c = Some ob'"
    using parse_header_Some [OF e(2)] by blast
  have "\<not> header_is_stale c t p"
    using newer e(1) by (auto simp: header_is_stale_def header_stamp_def ev_version_def less_prod_def
        split: if_splits)
  then have "header_update e c = ob'" using e(1) p by (simp add: put_header_def)
  then show "header_stamp (header_update e c) = Some (ev_version e) \<and> header_held e (header_update e c)"
    using parse_header_held [OF p] parse_header_fields(1,2) [OF p] e
    by (simp add: header_stamp_def ev_version_def)
next
  fix e :: yaffs2_event and c k
  assume "is_header_page e" "header_stamp c = Some k" "\<not> k < ev_version e"
  then show "header_update e c = c"
    by (cases e) (auto simp: header_stamp_def ev_version_def less_prod_def put_header_def
        header_is_stale_def split: if_splits)
qed

fun is_header_of :: "u32 \<Rightarrow> yaffs2_event \<Rightarrow> bool" where
  "is_header_of i (HeaderPage d t p) = (t_ObjId t = i)"
| "is_header_of i (DataPage t p) = False"

lemma parse_header_part:
  "parse_header d t p (header_part ob) = map_option header_part (parse_header d t p ob)"
  by (auto simp: parse_header_def header_part_def map_option_case split: bind_splits option.splits)

lemma header_is_stale_part [simp]: "header_is_stale (header_part ob) t p = header_is_stale ob t p"
  by (simp add: header_is_stale_def header_part_def)

lemma put_header_part: "put_header d t p (header_part ob) = header_part (put_header d t p ob)"
  by (simp add: put_header_def parse_header_part split: option.splits)

lemma header_slot_upd:
  "obj_of v' = (obj_of v)(unat j \<mapsto> ob) \<Longrightarrow>
   header_slot v' i = (if i = j then header_part ob else header_slot v i)"
  by (auto simp: header_slot_def old_object_def word_unat_eq_iff)

lemma header_slot_event:
  assumes "volume_ok v" and "event_ok e" and "mem_available al"
    and "apply_event al e v = Some v'"
  shows "header_slot v' i = (if is_header_of i e then header_update e (header_slot v i)
    else header_slot v i)"
proof (cases e)
  case (HeaderPage d t p)
  obtain w where "ProcessHeader (al p) v d t p = Some w"
    and r: "step_result (al p) v (t_ObjId t) (put_header d t p) w"
    by (rule ProcessHeader_ok [of v t d "al p" p]) (use assms HeaderPage that in \<open>auto simp: event_ok_def\<close>)
  then have "w = v'" using assms(4) HeaderPage by simp
  then have "obj_of v' = (obj_of v)(unat (t_ObjId t) \<mapsto> put_header d t p (old_object v (t_ObjId t)))"
    using r assms(3) by (simp add: step_result_def mem_available_def)
  then have "header_slot v' i = (if i = t_ObjId t
      then header_part (put_header d t p (old_object v (t_ObjId t))) else header_slot v i)"
    by (rule header_slot_upd)
  then show ?thesis using HeaderPage by (auto simp: put_header_part header_slot_def)
next
  case (DataPage t p)
  show ?thesis
  proof (cases "t_ChunkId t = 0")
    case True
    then show ?thesis using assms(4) DataPage by (simp add: ProcessDataChunk_def)
  next
    case False
    obtain w where "ProcessDataChunk (al p) v t p = Some w"
      and r: "\<exists>ob'. obj_of w = (obj_of v)(unat (t_ObjId t) \<mapsto> ob') \<and>
         data_effect t p (old_object v (t_ObjId t)) ob'"
      by (rule ProcessDataChunk_ok [of v t "al p" p])
        (use assms False DataPage that in \<open>auto simp: event_ok_def mem_available_def\<close>)
    then have "w = v'" using assms(4) DataPage by simp
    then obtain ob' where "obj_of v' = (obj_of v)(unat (t_ObjId t) \<mapsto> ob')"
        "header_part ob' = header_part (old_object v (t_ObjId t))"
      using r by (auto simp: data_effect_def)
    then have "header_slot v' i = header_slot v i"
      using header_slot_upd [of v' v "t_ObjId t" ob' i] by (auto simp: header_slot_def)
    then show ?thesis using DataPage by simp
  qed
qed

lemma header_slot_events:
  assumes "volume_ok v" and "\<forall>e \<in> set es. event_ok e" and "mem_available al"
    and "apply_events al es v = Some v'"
  shows "header_slot v' i =
    foldl (\<lambda>c e. header_update e c) (header_slot v i) (filter (is_header_of i) es)"
  using assms
proof (induction es arbitrary: v)
  case (Cons e es)
  obtain v1 where v1: "apply_event al e v = Some v1" "volume_ok v1"
    by (rule apply_event_ok [of v e al]) (use Cons.prems that in auto)
  have "header_slot v1 i = (if is_header_of i e
      then header_update e (header_slot v i) else header_slot v i)"
    using header_slot_event [of v e al v1] Cons.prems v1 by simp
  then show ?case using Cons.IH [of v1] Cons.prems v1 by simp
qed simp

end
