(* ===== verification/Yaffs2ScanRun.thy ===== *)
theory Yaffs2ScanRun
  imports Yaffs2Events
begin

text \<open>
  The scan of \<open>Scan.c\<close> over any flash that keeps the protocol's contract: it returns without a
  memory fault, and its effect on the volume is a sequence of events whose page indices ascend.
  The lemmas stand in the locale \<open>nand_flash\<close>, so they hold for every provider of the
  protocol.
\<close>

subsection \<open>Tags as events\<close>

lemma high_bit_clear_less:
  fixes w :: u32
  assumes "w AND 0x80000000 = 0"
  shows "w < 0x80000000"
proof -
  have "take_bit 31 w = w"
  proof (rule bit_word_eqI)
    fix n assume n: "n < LENGTH(32)"
    have "bit w n \<Longrightarrow> n \<noteq> 31"
    proof
      assume "bit w n" "n = 31"
      moreover have "(0x80000000 :: u32) = 2 ^ 31" by simp
      ultimately have "bit (w AND 0x80000000) 31" by (simp add: bit_simps del: bit_0_eq)
      then show False using assms by simp
    qed
    then show "bit (take_bit 31 w) n = bit w n" using n by (auto simp: bit_simps)
  qed
  then have "unat w < 2 ^ 31"
    by (metis take_bit_nat_less_exp unsigned_take_bit_eq)
  then show ?thesis by (simp add: word_less_nat_alt)
qed

lemma masked_id_safe: "id_safe (w AND 0x0FFFFFFF)"
proof -
  have "w AND 0x0FFFFFFF \<le> (0x0FFFFFFF :: u32)" by (rule word_and_le1)
  then show ?thesis by (simp add: id_safe_def word_le_nat_alt word_less_nat_alt)
qed

lemma ParseTagWords_data:
  "\<not> t_IsHeader (ParseTagWords raw) \<Longrightarrow> t_ChunkId (ParseTagWords raw) < 0x80000000"
  by (cases raw) (auto simp: high_bit_clear_less split: if_splits)

lemma entry_tags_data:
  "\<not> t_IsHeader (entry_tags sq e) \<Longrightarrow> t_ChunkId (entry_tags sq e) < 0x80000000"
  by (cases e) (auto simp: entry_tags_def high_bit_clear_less split: if_splits)

lemma entry_tags_seq [simp]: "t_SeqNumber (entry_tags sq e) = sq"
  by (cases e) (simp add: entry_tags_def)

lemma pseudo_object_nonzero: "\<not> pseudo_object i \<Longrightarrow> i \<noteq> 0"
  by (simp add: pseudo_object_def)

subsection \<open>Runs of the scan\<close>

definition pages_in :: "nat \<Rightarrow> nat \<Rightarrow> yaffs2_event list \<Rightarrow> bool" where
  "pages_in lo hi es =
     (sorted_wrt (<) (map (\<lambda>e. unat (ev_page e)) es) \<and>
      (\<forall>e \<in> set es. lo \<le> unat (ev_page e) \<and> unat (ev_page e) < hi))"

lemma pages_in_Nil [simp]: "pages_in lo hi []"
  by (simp add: pages_in_def)

lemma pages_in_append:
  "pages_in lo mi es \<Longrightarrow> pages_in mi hi es' \<Longrightarrow> lo \<le> mi \<Longrightarrow> mi \<le> hi \<Longrightarrow> pages_in lo hi (es @ es')"
  by (force simp: pages_in_def sorted_wrt_append)

lemma pages_in_single: "lo \<le> unat (ev_page e) \<Longrightarrow> unat (ev_page e) < hi \<Longrightarrow> pages_in lo hi [e]"
  by (simp add: pages_in_def)

lemma pages_in_mono: "pages_in lo hi es \<Longrightarrow> lo' \<le> lo \<Longrightarrow> hi \<le> hi' \<Longrightarrow> pages_in lo' hi' es"
  by (force simp: pages_in_def)

text \<open>From one scan state to another, by the events of some pages in \<open>[lo, hi)\<close>.\<close>

definition scanned ::
    "('s \<Rightarrow> bool) \<Rightarrow> allocator \<Rightarrow> nat \<Rightarrow> nat \<Rightarrow> 's yaffs2_scan \<Rightarrow> 's yaffs2_scan \<Rightarrow> bool" where
  "scanned dev_ok al lo hi sc sc' =
     (dev_ok (sc_nand sc') \<and>
      (\<exists>es. apply_events al es (sc_vol sc) = Some (sc_vol sc') \<and>
        (\<forall>e \<in> set es. event_ok e) \<and> pages_in lo hi es))"

lemma scanned_refl: "dev_ok (sc_nand sc') \<Longrightarrow> sc_vol sc' = sc_vol sc \<Longrightarrow> scanned dev_ok al lo hi sc sc'"
  by (auto simp: scanned_def intro: exI [of _ "[]"])

lemma scanned_trans:
  assumes "scanned dev_ok al lo mi sc sc'" and "scanned dev_ok al mi hi sc' sc''" and "lo \<le> mi" "mi \<le> hi"
  shows "scanned dev_ok al lo hi sc sc''"
proof -
  obtain es es' where
    "apply_events al es (sc_vol sc) = Some (sc_vol sc')" "\<forall>e \<in> set es. event_ok e" "pages_in lo mi es"
    "apply_events al es' (sc_vol sc') = Some (sc_vol sc'')" "\<forall>e \<in> set es'. event_ok e" "pages_in mi hi es'"
    using assms(1,2) by (auto simp: scanned_def)
  then show ?thesis using assms
    by (auto simp: scanned_def apply_events_append pages_in_append intro!: exI [of _ "es @ es'"])
qed

lemma scanned_single:
  assumes "dev_ok (sc_nand sc')" and "apply_event al e (sc_vol sc) = Some (sc_vol sc')"
    and "event_ok e" and "lo \<le> unat (ev_page e)" and "unat (ev_page e) < hi"
  shows "scanned dev_ok al lo hi sc sc'"
  using assms by (auto simp: scanned_def pages_in_single intro!: exI [of _ "[e]"])

lemma scanned_mono:
  "scanned dev_ok al lo hi sc sc' \<Longrightarrow> lo' \<le> lo \<Longrightarrow> hi \<le> hi' \<Longrightarrow> scanned dev_ok al lo' hi' sc sc'"
  by (auto simp: scanned_def intro: pages_in_mono)

lemma scanned_cong:
  "scanned dev_ok al lo hi sc1 sc' \<Longrightarrow> sc_vol sc1 = sc_vol sc \<Longrightarrow> scanned dev_ok al lo hi sc sc'"
  by (simp add: scanned_def)

lemma scanned_volume_ok:
  assumes "scanned dev_ok al lo hi sc sc'" and "volume_ok (sc_vol sc)"
  shows "volume_ok (sc_vol sc') \<and> (volume_unlinked (sc_vol sc) \<longrightarrow> volume_unlinked (sc_vol sc'))"
proof -
  obtain es where "apply_events al es (sc_vol sc) = Some (sc_vol sc')" "\<forall>e \<in> set es. event_ok e"
    using assms(1) by (auto simp: scanned_def)
  then show ?thesis using apply_events_ok [OF assms(2), of es al] by simp
qed

subsection \<open>The object ids on the flash\<close>

text \<open>
  The one assumption on the contents of the flash: the object ids in the tags that are not erased,
  and in the entries of the summaries that pass the checks, stay below the bound at which the
  capacity of the object array wraps around.
\<close>

definition flash_ids_safe :: "'s nand_proto \<Rightarrow> ('s \<Rightarrow> bool) \<Rightarrow> bool" where
  "flash_ids_safe nd dev_ok =
     ((\<forall>s p s' st b raw. dev_ok s \<and> nf_ReadTags nd s p = Some (s', st, b) \<and> \<not> EFI_ERROR st \<and>
         raw_tags b = Some raw \<and> \<not> AreTagsErased raw \<longrightarrow> id_safe (t_ObjId (ParseTagWords raw))) \<and>
      (\<forall>s s' st b sq es e. dev_ok s \<and> nf_ReadPageBody nd s = Some (s', st, b) \<and> \<not> EFI_ERROR st \<and>
         read_summary (nf_PagesPerBlock nd) b = Some (Some (sq, es)) \<and> e \<in> set es \<longrightarrow>
         id_safe (t_ObjId (entry_tags sq e))))"

lemma flash_ids_tags:
  "flash_ids_safe nd dev_ok \<Longrightarrow> dev_ok s \<Longrightarrow> nf_ReadTags nd s p = Some (s', st, b) \<Longrightarrow> \<not> EFI_ERROR st \<Longrightarrow>
   raw_tags b = Some raw \<Longrightarrow> \<not> AreTagsErased raw \<Longrightarrow> id_safe (t_ObjId (ParseTagWords raw))"
  unfolding flash_ids_safe_def by blast

lemma flash_ids_entries:
  "flash_ids_safe nd dev_ok \<Longrightarrow> dev_ok s \<Longrightarrow> nf_ReadPageBody nd s = Some (s', st, b) \<Longrightarrow> \<not> EFI_ERROR st \<Longrightarrow>
   read_summary (nf_PagesPerBlock nd) b = Some (Some (sq, es)) \<Longrightarrow> e \<in> set es \<Longrightarrow>
   id_safe (t_ObjId (entry_tags sq e))"
  unfolding flash_ids_safe_def by blast

lemma raw_tags_Some: "length b = 16 \<Longrightarrow> \<exists>raw. raw_tags b = Some raw"
  by (simp add: raw_tags_def)

text \<open>One page of the scan, header or data, as an event.\<close>

lemma data_page_scanned:
  assumes "dev_ok (sc_nand sc)" and "volume_ok (sc_vol sc)" and "id_safe (t_ObjId Tags)"
    and "\<not> pseudo_object (t_ObjId Tags)" and "seq_in_range (t_SeqNumber Tags)"
    and "t_ChunkId Tags < 0x80000000" and "Page \<noteq> 0xFFFFFFFF"
  shows "\<exists>v. ProcessDataChunk (al Page) (sc_vol sc) Tags Page = Some v \<and>
    scanned dev_ok al (unat Page) (Suc (unat Page)) sc (sc\<lparr>sc_vol := v\<rparr>)"
proof -
  have ev: "event_ok (DataPage Tags Page)"
    using assms by (simp add: event_ok_def pseudo_object_nonzero)
  obtain v where "apply_event al (DataPage Tags Page) (sc_vol sc) = Some v"
    using apply_event_ok [OF assms(2) ev] by metis
  then show ?thesis using assms(1) ev by (auto intro!: scanned_single)
qed

lemma header_page_scanned:
  assumes "dev_ok (sc_nand sc)" and "volume_ok (sc_vol sc)" and "id_safe (t_ObjId Tags)"
    and "\<not> pseudo_object (t_ObjId Tags)" and "seq_in_range (t_SeqNumber Tags)"
    and "464 \<le> length b" and "Page \<noteq> 0xFFFFFFFF"
  shows "\<exists>v. ProcessHeader (al Page) (sc_vol sc) b Tags Page = Some v \<and>
    scanned dev_ok al (unat Page) (Suc (unat Page)) sc (sc\<lparr>sc_vol := v, sc_HeaderCount := h\<rparr>)"
proof -
  have ev: "event_ok (HeaderPage b Tags Page)"
    using assms by (simp add: event_ok_def pseudo_object_nonzero)
  obtain v where "apply_event al (HeaderPage b Tags Page) (sc_vol sc) = Some v"
    using apply_event_ok [OF assms(2) ev] by metis
  then show ?thesis using assms(1) ev by (auto intro!: scanned_single)
qed

lemma copy_entries_Some:
  assumes "16 + (i + n) * 12 \<le> length b" and "i + n \<le> 64"
  shows "\<exists>es. copy_entries b n i = Some es \<and> length es \<le> n"
  using assms
proof (induction n arbitrary: i)
  case (Suc n)
  then have "16 + (Suc i + n) * 12 \<le> length b" "Suc i + n \<le> 64" by simp_all
  then obtain es where "copy_entries b n (Suc i) = Some es" "length es \<le> n"
    using Suc.IH by blast
  then show ?case using Suc.prems by (simp add: yaffs2_consts Let_def)
qed simp

lemma read_summary_Some:
  assumes "2048 \<le> length b" and "0 < unat ppb" and "unat ppb \<le> 64"
  shows "\<exists>r. read_summary ppb b = Some r \<and>
    (\<forall>sq es. r = Some (sq, es) \<longrightarrow> seq_in_range sq \<and> length es < unat ppb)"
proof -
  have "ppb \<noteq> 0" using assms(2) by auto
  then have n: "unat (ppb - 1) = unat ppb - 1" by (rule unat_dec)
  define q where "q = ppb - 1"
  have sb: "unat (q * 12) = (unat ppb - 1) * 12"
    using assms(3) n by (simp add: unat_word_ariths q_def [symmetric])
  have le64: "unat ppb - 1 \<le> 64" using assms(3) by linarith
  have len: "16 + (unat ppb - 1) * 12 \<le> length b" using assms by linarith
  then obtain es where es: "copy_entries b (unat (ppb - 1)) 0 = Some es" "length es \<le> unat ppb - 1"
    using copy_entries_Some [of 0 "unat (ppb - 1)" b] le64 n by auto
  then show ?thesis using assms es sb len
    by (auto simp: read_summary_def Let_def yaffs2_consts q_def [symmetric] simp del: left_diff_distrib)
qed

context nand_flash
begin

lemma read_tags_run:
  assumes "dev_ok s"
  obtains s' st b where "nf_ReadTags nd s p = Some (s', st, b)" and "dev_ok s'"
    and "\<not> EFI_ERROR st \<Longrightarrow> \<exists>raw. raw_tags b = Some raw"
  using read_tags [OF assms, of p] raw_tags_Some that by blast

lemma read_page_run:
  assumes "dev_ok s"
  obtains s' st b where "nf_ReadPage nd s p = Some (s', st, b)" and "dev_ok s'"
    and "\<not> EFI_ERROR st \<Longrightarrow> 2048 \<le> length b"
  using read_page [OF assms, of p] page_size that by fastforce

lemma read_body_run:
  assumes "dev_ok s"
  obtains s' st b where "nf_ReadPageBody nd s = Some (s', st, b)" and "dev_ok s'"
    and "\<not> EFI_ERROR st \<Longrightarrow> 2048 \<le> length b"
  using read_body [OF assms] page_size that by fastforce

text \<open>The loop over the pages of a block.\<close>

lemma scan_pages_run:
  assumes "flash_ids_safe nd dev_ok" and "dev_ok (sc_nand sc)" and "volume_ok (sc_vol sc)"
    and "unat Page + n < 2 ^ 32"
  shows "\<exists>sc'. scan_pages nd al n Page sc = Some sc' \<and>
    scanned dev_ok al (unat Page) (unat Page + n) sc sc'"
  using assms(2-4)
proof (induction n arbitrary: Page sc)
  case 0
  then show ?case by (simp add: scanned_refl)
next
  case (Suc n)
  have nx: "unat (Page + 1) = Suc (unat Page)" "Page \<noteq> 0xFFFFFFFF"
    using Suc.prems(3) unat_add_no_wrap [of Page 1] by auto
  have step: "\<exists>sc'. scan_pages nd al n (Page + 1) sc1 = Some sc' \<and>
      scanned dev_ok al (unat Page) (unat Page + Suc n) sc sc'"
    if "scanned dev_ok al (unat Page) (Suc (unat Page)) sc sc1" for sc1
  proof -
    have "dev_ok (sc_nand sc1)" "volume_ok (sc_vol sc1)"
      using that scanned_volume_ok [OF that Suc.prems(2)] by (simp_all add: scanned_def)
    then obtain sc' where "scan_pages nd al n (Page + 1) sc1 = Some sc'"
        "scanned dev_ok al (Suc (unat Page)) (Suc (unat Page) + n) sc1 sc'"
      using Suc.IH [of sc1 "Page + 1"] Suc.prems(3) nx by auto
    then show ?thesis using scanned_trans [OF that] by fastforce
  qed
  obtain s1 st b where r: "nf_ReadTags nd (sc_nand sc) Page = Some (s1, st, b)" "dev_ok s1"
    and tags: "\<not> EFI_ERROR st \<Longrightarrow> \<exists>raw. raw_tags b = Some raw"
    by (rule read_tags_run [OF Suc.prems(1)]) (rule that; assumption)
  define sc1 where "sc1 = sc\<lparr>sc_nand := s1\<rparr>"
  have sc1: "scanned dev_ok al lo hi sc sc1" for lo hi
    using r(2) by (simp add: scanned_refl sc1_def)
  show ?case
  proof (cases "EFI_ERROR st")
    case True
    then show ?thesis using r sc1 by (auto simp: sc1_def)
  next
    case False
    then obtain raw where raw: "raw_tags b = Some raw" using tags by blast
    define Tags where "Tags = ParseTagWords raw"
    consider "AreTagsErased raw" | "\<not> AreTagsErased raw"
        "\<not> seq_in_range (t_SeqNumber Tags) \<or> pseudo_object (t_ObjId Tags)"
      | "\<not> AreTagsErased raw" "seq_in_range (t_SeqNumber Tags)" "\<not> pseudo_object (t_ObjId Tags)"
      by blast
    then show ?thesis
    proof cases
      case 1
      then show ?thesis using r raw False sc1 by (auto simp: sc1_def)
    next
      case 2
      then show ?thesis using r raw False step [OF sc1]
        by (simp add: sc1_def Tags_def Let_def)
    next
      case 3
      have safe: "id_safe (t_ObjId Tags)"
        using flash_ids_tags [OF assms(1) Suc.prems(1) r(1) False raw 3(1)] by (simp add: Tags_def)
      define sc2 where "sc2 = sc1\<lparr>sc_PageCount := sc_PageCount sc1 + 1\<rparr>"
      have ok2: "dev_ok (sc_nand sc2)" "volume_ok (sc_vol sc2)" "sc_vol sc2 = sc_vol sc"
        using r Suc.prems by (simp_all add: sc2_def sc1_def)
      show ?thesis
      proof (cases "t_IsHeader Tags")
        case False
        then have "t_ChunkId Tags < 0x80000000" using ParseTagWords_data by (simp add: Tags_def)
        then obtain v where v: "ProcessDataChunk (al Page) (sc_vol sc2) Tags Page = Some v"
          "scanned dev_ok al (unat Page) (Suc (unat Page)) sc2 (sc2\<lparr>sc_vol := v\<rparr>)"
          using data_page_scanned [of dev_ok sc2 Tags Page al] ok2 safe 3 nx(2) by blast
        show ?thesis
          using r raw \<open>\<not> EFI_ERROR st\<close> 3 False v(1) step [OF scanned_cong [OF v(2) ok2(3)]]
          by (simp add: sc1_def sc2_def Tags_def Let_def)
      next
        case True
        obtain s3 st3 body where r3: "nf_ReadPageBody nd (sc_nand sc2) = Some (s3, st3, body)"
            "dev_ok s3" "\<not> EFI_ERROR st3 \<Longrightarrow> 2048 \<le> length body"
          by (rule read_body_run [OF ok2(1)]) (rule that; assumption)
        define sc3 where "sc3 = sc2\<lparr>sc_nand := s3\<rparr>"
        have ok3: "dev_ok (sc_nand sc3)" "volume_ok (sc_vol sc3)" "sc_vol sc3 = sc_vol sc"
          using r3 ok2 by (simp_all add: sc3_def)
        show ?thesis
        proof (cases "EFI_ERROR st3")
          case err: True
          have "scanned dev_ok al (unat Page) (Suc (unat Page)) sc sc3"
            using ok3 by (simp add: scanned_refl)
          from step [OF this] show ?thesis
            using r raw \<open>\<not> EFI_ERROR st\<close> 3 True r3(1) err
            by (simp add: sc1_def sc2_def sc3_def Tags_def Let_def)
        next
          case good: False
          obtain v where v: "ProcessHeader (al Page) (sc_vol sc3) body Tags Page = Some v"
            "scanned dev_ok al (unat Page) (Suc (unat Page)) sc3
               (sc3\<lparr>sc_vol := v, sc_HeaderCount := sc_HeaderCount sc3 + 1\<rparr>)"
            using header_page_scanned [of dev_ok sc3 Tags body Page al] ok3 safe 3 nx(2)
              r3(3) [OF good] by fastforce
          show ?thesis
            using r raw \<open>\<not> EFI_ERROR st\<close> 3 True r3(1) good v(1)
              step [OF scanned_cong [OF v(2) ok3(3)]]
            by (simp add: sc1_def sc2_def sc3_def Tags_def Let_def)
        qed
      qed
    qed
  qed
qed

text \<open>The loop over the entries of a summary.\<close>

lemma scan_entries_run:
  assumes "dev_ok (sc_nand sc)" and "volume_ok (sc_vol sc)" and "seq_in_range sq"
    and "\<forall>e \<in> set es. id_safe (t_ObjId (entry_tags sq e))" and "unat Page + length es < 2 ^ 32"
  shows "\<exists>sc'. scan_entries nd al sq es Page sc = Some sc' \<and>
    scanned dev_ok al (unat Page) (unat Page + length es) sc sc'"
  using assms
proof (induction es arbitrary: Page sc)
  case Nil
  then show ?case by (simp add: scanned_refl)
next
  case (Cons e es)
  have nx: "unat (Page + 1) = Suc (unat Page)" "Page \<noteq> 0xFFFFFFFF"
    using Cons.prems(5) unat_add_no_wrap [of Page 1] by auto
  have step: "\<exists>sc'. scan_entries nd al sq es (Page + 1) sc1 = Some sc' \<and>
      scanned dev_ok al (unat Page) (unat Page + length (e # es)) sc sc'"
    if "scanned dev_ok al (unat Page) (Suc (unat Page)) sc sc1" for sc1
  proof -
    have "dev_ok (sc_nand sc1)" "volume_ok (sc_vol sc1)"
      using that scanned_volume_ok [OF that Cons.prems(2)] by (simp_all add: scanned_def)
    then obtain sc' where "scan_entries nd al sq es (Page + 1) sc1 = Some sc'"
        "scanned dev_ok al (Suc (unat Page)) (Suc (unat Page) + length es) sc1 sc'"
      using Cons.IH [of sc1 "Page + 1"] Cons.prems nx by auto
    then show ?thesis using scanned_trans [OF that] by fastforce
  qed
  define Tags where "Tags = entry_tags sq e"
  have safe: "id_safe (t_ObjId Tags)" "t_SeqNumber Tags = sq"
    using Cons.prems(4) by (simp_all add: Tags_def)
  define sc1 where "sc1 = sc\<lparr>sc_PageCount := sc_PageCount sc + 1\<rparr>"
  have ok1: "dev_ok (sc_nand sc1)" "volume_ok (sc_vol sc1)" "sc_vol sc1 = sc_vol sc"
    using Cons.prems by (simp_all add: sc1_def)
  show ?case
  proof (cases "pseudo_object (t_ObjId Tags)")
    case True
    then show ?thesis using step [of sc] Cons.prems(1) by (simp add: Tags_def Let_def scanned_refl)
  next
    case np: False
    show ?thesis
    proof (cases "t_IsHeader Tags")
      case False
      then have "t_ChunkId Tags < 0x80000000" using entry_tags_data by (simp add: Tags_def)
      then obtain v where v: "ProcessDataChunk (al Page) (sc_vol sc1) Tags Page = Some v"
        "scanned dev_ok al (unat Page) (Suc (unat Page)) sc1 (sc1\<lparr>sc_vol := v\<rparr>)"
        using data_page_scanned [of dev_ok sc1 Tags Page al] ok1 safe np nx(2) Cons.prems(3) by auto
      show ?thesis
        using np False v(1) step [OF scanned_cong [OF v(2) ok1(3)]]
        by (simp add: sc1_def Tags_def Let_def)
    next
      case True
      obtain s2 st b where r: "nf_ReadPage nd (sc_nand sc1) Page = Some (s2, st, b)" "dev_ok s2"
          "\<not> EFI_ERROR st \<Longrightarrow> 2048 \<le> length b"
        by (rule read_page_run [OF ok1(1)]) (rule that; assumption)
      define sc2 where "sc2 = sc1\<lparr>sc_nand := s2\<rparr>"
      have ok2: "dev_ok (sc_nand sc2)" "volume_ok (sc_vol sc2)" "sc_vol sc2 = sc_vol sc"
        using r ok1 by (simp_all add: sc2_def)
      show ?thesis
      proof (cases "EFI_ERROR st")
        case err: True
        have "scanned dev_ok al (unat Page) (Suc (unat Page)) sc sc2"
          using ok2 by (simp add: scanned_refl)
        from step [OF this] show ?thesis
          using np True r(1) err by (simp add: sc1_def sc2_def Tags_def Let_def)
      next
        case good: False
        obtain v where v: "ProcessHeader (al Page) (sc_vol sc2) b Tags Page = Some v"
          "scanned dev_ok al (unat Page) (Suc (unat Page)) sc2
             (sc2\<lparr>sc_vol := v, sc_HeaderCount := sc_HeaderCount sc2 + 1\<rparr>)"
          using header_page_scanned [of dev_ok sc2 Tags b Page al] ok2 safe np nx(2)
            r(3) [OF good] Cons.prems(3) by fastforce
        show ?thesis
          using np True r(1) good v(1) step [OF scanned_cong [OF v(2) ok2(3)]]
          by (simp add: sc1_def sc2_def Tags_def Let_def)
      qed
    qed
  qed
qed

lemma ScanBlockViaSummary_run:
  assumes "flash_ids_safe nd dev_ok" and "dev_ok (sc_nand sc)" and "volume_ok (sc_vol sc)"
    and "Base = Block * nf_PagesPerBlock nd"
    and "unat Base + unat (nf_PagesPerBlock nd) < 2 ^ 32"
  shows "\<exists>ok sc'. ScanBlockViaSummary nd al Block sc = Some (ok, sc') \<and>
    scanned dev_ok al (unat Base) (unat Base + unat (nf_PagesPerBlock nd)) sc sc' \<and>
    (\<not> ok \<longrightarrow> sc_vol sc' = sc_vol sc)"
proof -
  let ?S = "Base + (nf_PagesPerBlock nd - 1)"
  obtain s1 st b where r: "nf_ReadTags nd (sc_nand sc) ?S = Some (s1, st, b)" "dev_ok s1"
    and tags: "\<not> EFI_ERROR st \<Longrightarrow> \<exists>raw. raw_tags b = Some raw"
    by (rule read_tags_run [OF assms(2)]) (rule that; assumption)
  define sc1 where "sc1 = sc\<lparr>sc_nand := s1\<rparr>"
  have sc1: "scanned dev_ok al lo hi sc sc1" "sc_vol sc1 = sc_vol sc" for lo hi
    using r(2) by (simp_all add: scanned_refl sc1_def)
  show ?thesis
  proof (cases "EFI_ERROR st")
    case True
    then show ?thesis using r sc1 assms(4)
      by (auto simp: ScanBlockViaSummary_def sc1_def intro!: exI [of _ False])
  next
    case good: False
    then obtain raw where raw: "raw_tags b = Some raw" using tags by blast
    obtain w0 w1 w2 w3 where w: "raw = (w0, w1, w2, w3)" by (cases raw)
    show ?thesis
    proof (cases "AreTagsErased raw \<or> w1 \<noteq> YAFFS2_SUMMARY_OBJ_ID \<or> w2 AND 0x80000000 \<noteq> 0 \<or> w2 \<noteq> 1")
      case True
      then show ?thesis using r raw w good sc1 assms(4)
        by (simp add: ScanBlockViaSummary_def sc1_def Let_def exI [of _ False] del: AreTagsErased.simps)
    next
      case mark: False
      then have m: "w1 = YAFFS2_SUMMARY_OBJ_ID" "w2 = 1"
          "\<not> AreTagsErased (w0, YAFFS2_SUMMARY_OBJ_ID, 1, w3)"
        using w by (auto simp del: AreTagsErased.simps)
      obtain s2 st2 body where r2: "nf_ReadPageBody nd (sc_nand sc1) = Some (s2, st2, body)"
          "dev_ok s2" "\<not> EFI_ERROR st2 \<Longrightarrow> 2048 \<le> length body"
        by (rule read_body_run [of "sc_nand sc1"]) (use r(2) sc1_def that in auto)
      define sc2 where "sc2 = sc1\<lparr>sc_nand := s2\<rparr>"
      have sc2: "scanned dev_ok al lo hi sc sc2" "sc_vol sc2 = sc_vol sc" for lo hi
        using r2(2) sc1(2) by (simp_all add: scanned_refl sc2_def)
      show ?thesis
      proof (cases "EFI_ERROR st2")
        case True
        then show ?thesis using r raw w good m r2(1) sc2 assms(4)
          by (simp add: ScanBlockViaSummary_def sc1_def sc2_def Let_def exI [of _ False]
              del: AreTagsErased.simps)
      next
        case good2: False
        then obtain sm where sm: "read_summary (nf_PagesPerBlock nd) body = Some sm"
          "\<forall>sq es. sm = Some (sq, es) \<longrightarrow> seq_in_range sq \<and> length es < unat (nf_PagesPerBlock nd)"
          using read_summary_Some [OF r2(3) pages_per_block] by blast
        show ?thesis
        proof (cases sm)
          case None
          then show ?thesis using r raw w good m r2(1) good2 sm(1) sc2 assms(4)
            by (simp add: ScanBlockViaSummary_def sc1_def sc2_def Let_def exI [of _ False]
                del: AreTagsErased.simps)
        next
          case (Some p)
          then obtain sq es where p: "sm = Some (sq, es)" by (cases p) auto
          have "dev_ok (sc_nand sc1)" using r(2) by (simp add: sc1_def)
          then have "\<forall>e \<in> set es. id_safe (t_ObjId (entry_tags sq e))"
            using flash_ids_entries [OF assms(1) _ r2(1) good2] sm(1) p by blast
          moreover have "dev_ok (sc_nand sc2)" "volume_ok (sc_vol sc2)"
            using r2(2) sc2 assms(3) by (simp_all add: sc2_def)
          ultimately obtain sc' where run: "scan_entries nd al sq es Base sc2 = Some sc'"
            "scanned dev_ok al (unat Base) (unat Base + length es) sc2 sc'"
            using scan_entries_run [of sc2 sq es Base al] sm(2) p assms(5) by fastforce
          have "scanned dev_ok al (unat Base) (unat Base + unat (nf_PagesPerBlock nd)) sc sc'"
            using scanned_mono [OF scanned_cong [OF run(2) sc2(2)], of "unat Base"] sm(2) p by simp
          then show ?thesis using r raw w good m r2(1) good2 sm(1) p run(1) assms(4)
            by (simp add: ScanBlockViaSummary_def sc1_def sc2_def Let_def exI [of _ True]
                del: AreTagsErased.simps)
        qed
      qed
    qed
  qed
qed

lemma block_base:
  assumes "i < unat (nf_NumBlocks nd)"
  shows "unat (of_nat i * nf_PagesPerBlock nd) = i * unat (nf_PagesPerBlock nd)"
    and "i * unat (nf_PagesPerBlock nd) + unat (nf_PagesPerBlock nd) < 2 ^ 32"
proof -
  have "Suc i * unat (nf_PagesPerBlock nd) \<le> unat (nf_NumBlocks nd) * unat (nf_PagesPerBlock nd)"
    using assms by (intro mult_le_mono1) simp
  then show less: "i * unat (nf_PagesPerBlock nd) + unat (nf_PagesPerBlock nd) < 2 ^ 32"
    using pages_fit by (simp add: mult.commute)
  have "i < 2 ^ 32" using assms unat32_less [of "nf_NumBlocks nd"] by simp
  then have "unat (of_nat i :: u32) = i" by (simp add: unsigned_of_nat take_bit_nat_eq_self)
  then show "unat (of_nat i * nf_PagesPerBlock nd) = i * unat (nf_PagesPerBlock nd)"
    using less by (simp add: unat_word_ariths)
qed

lemma scan_block_run:
  assumes "flash_ids_safe nd dev_ok" and "dev_ok (sc_nand sc)" and "volume_ok (sc_vol sc)"
    and "i < unat (nf_NumBlocks nd)"
  shows "\<exists>sc'. scan_block nd al i sc = Some sc' \<and>
    scanned dev_ok al (i * unat (nf_PagesPerBlock nd)) (Suc i * unat (nf_PagesPerBlock nd)) sc sc'"
proof -
  define Base where "Base = of_nat i * nf_PagesPerBlock nd"
  have base: "unat Base = i * unat (nf_PagesPerBlock nd)"
      "unat Base + unat (nf_PagesPerBlock nd) < 2 ^ 32"
    using block_base [OF assms(4)] by (simp_all add: Base_def)
  obtain s1 st b where r: "nf_ReadTags nd (sc_nand sc) Base = Some (s1, st, b)" "dev_ok s1"
    and tags: "\<not> EFI_ERROR st \<Longrightarrow> \<exists>raw. raw_tags b = Some raw"
    by (rule read_tags_run [OF assms(2)]) (rule that; assumption)
  define sc1 where "sc1 = sc\<lparr>sc_nand := s1\<rparr>"
  have sc1: "scanned dev_ok al lo hi sc sc1" "sc_vol sc1 = sc_vol sc" "dev_ok (sc_nand sc1)" for lo hi
    using r(2) by (simp_all add: scanned_refl sc1_def)
  show ?thesis
  proof (cases "EFI_ERROR st")
    case True
    then show ?thesis using r sc1 by (simp add: scan_block_def sc1_def Base_def [symmetric] Let_def)
  next
    case good: False
    then obtain raw where raw: "raw_tags b = Some raw" using tags by blast
    show ?thesis
    proof (cases "AreTagsErased raw")
      case True
      then show ?thesis using r raw good sc1
        by (simp add: scan_block_def sc1_def Base_def [symmetric] Let_def)
    next
      case used: False
      obtain ok sc2 where s2: "ScanBlockViaSummary nd al (of_nat i) sc1 = Some (ok, sc2)"
          "scanned dev_ok al (unat Base) (unat Base + unat (nf_PagesPerBlock nd)) sc1 sc2"
          "\<not> ok \<longrightarrow> sc_vol sc2 = sc_vol sc1"
        using ScanBlockViaSummary_run [OF assms(1) sc1(3), of Base "of_nat i" al] assms(3) sc1(2) base(2)
        by (auto simp: Base_def)
      show ?thesis
      proof (cases ok)
        case True
        then show ?thesis using r raw good used s2 scanned_cong [OF s2(2) sc1(2)] base(1)
          by (simp add: scan_block_def sc1_def Base_def [symmetric] Let_def add.commute)
      next
        case False
        have v2: "sc_vol sc2 = sc_vol sc" "dev_ok (sc_nand sc2)" "volume_ok (sc_vol sc2)"
          using s2 False sc1(2) assms(3) by (simp_all add: scanned_def)
        obtain sc3 where s3: "ScanBlockPageByPage nd al (of_nat i) sc2 = Some sc3"
            "scanned dev_ok al (unat Base) (unat Base + unat (nf_PagesPerBlock nd)) sc2 sc3"
          using scan_pages_run [OF assms(1) v2(2,3) base(2), of al]
          by (auto simp: ScanBlockPageByPage_def Base_def)
        show ?thesis using r raw good used s2(1) False s3(1) scanned_cong [OF s3(2) v2(1)] base(1)
          by (simp add: scan_block_def sc1_def Base_def [symmetric] Let_def add.commute)
      qed
    qed
  qed
qed

lemma scan_blocks_run:
  assumes "flash_ids_safe nd dev_ok" and "dev_ok (sc_nand sc)" and "volume_ok (sc_vol sc)"
    and "i + n \<le> unat (nf_NumBlocks nd)"
  shows "\<exists>sc'. for_loop (scan_block nd al) i n sc = Some sc' \<and>
    scanned dev_ok al (i * unat (nf_PagesPerBlock nd)) ((i + n) * unat (nf_PagesPerBlock nd)) sc sc'"
  using assms(2-4)
proof (induction n arbitrary: i sc)
  case 0
  then show ?case by (simp add: scanned_refl)
next
  case (Suc n)
  obtain sc1 where s1: "scan_block nd al i sc = Some sc1"
      "scanned dev_ok al (i * unat (nf_PagesPerBlock nd)) (Suc i * unat (nf_PagesPerBlock nd)) sc sc1"
    using scan_block_run [OF assms(1) Suc.prems(1,2), of i al] Suc.prems(3) by auto
  have "dev_ok (sc_nand sc1)" "volume_ok (sc_vol sc1)"
    using s1(2) scanned_volume_ok [OF s1(2) Suc.prems(2)] by (simp_all add: scanned_def)
  then obtain sc' where "for_loop (scan_block nd al) (Suc i) n sc1 = Some sc'"
      "scanned dev_ok al (Suc i * unat (nf_PagesPerBlock nd))
         ((Suc i + n) * unat (nf_PagesPerBlock nd)) sc1 sc'"
    using Suc.IH [of sc1 "Suc i"] Suc.prems(3) by auto
  then show ?case using s1(1) scanned_trans [OF s1(2)] by fastforce
qed

text \<open>Detection: at most ten blocks are probed, and every probe returns.\<close>

lemma probe_header_run:
  assumes "dev_ok s"
  shows "\<exists>s' ok. probe_header nd s p = Some (s', ok) \<and> dev_ok s'"
proof -
  obtain s' st b where r: "nf_ReadPage nd s p = Some (s', st, b)" "dev_ok s'"
      "\<not> EFI_ERROR st \<Longrightarrow> 2048 \<le> length b"
    by (rule read_page_run [OF assms]) (rule that; assumption)
  then show ?thesis by (cases "EFI_ERROR st") (auto simp: probe_header_def)
qed

lemma detect_pages_run:
  assumes "dev_ok s"
  shows "\<exists>s' q h. detect_pages nd sq base n k s found = Some (s', q, h) \<and> dev_ok s'"
  using assms
proof (induction n arbitrary: k s found)
  case (Suc n)
  obtain s1 st b where r: "nf_ReadTags nd s (base + k) = Some (s1, st, b)" "dev_ok s1"
    and tags: "\<not> EFI_ERROR st \<Longrightarrow> \<exists>raw. raw_tags b = Some raw"
    by (rule read_tags_run [OF Suc.prems]) (rule that; assumption)
  show ?case
  proof (cases "EFI_ERROR st")
    case False
    then obtain raw where raw: "raw_tags b = Some raw" using tags by blast
    obtain s2 ok where p: "probe_header nd s1 (base + k) = Some (s2, ok)" "dev_ok s2"
      using probe_header_run [OF r(2)] by blast
    show ?thesis using r False raw p Suc.IH [OF r(2)] Suc.IH [OF p(2)] by (auto simp: Let_def)
  qed (use r in auto)
qed auto

lemma detect_blocks_run:
  assumes "dev_ok s"
  shows "\<exists>s' st. detect_blocks nd n k s = Some (s', st) \<and> dev_ok s' \<and> st \<in> {EFI_SUCCESS, EFI_UNSUPPORTED}"
  using assms
proof (induction n arbitrary: k s)
  case (Suc n)
  obtain s1 st b where r: "nf_ReadTags nd s (k * nf_PagesPerBlock nd) = Some (s1, st, b)" "dev_ok s1"
    and tags: "\<not> EFI_ERROR st \<Longrightarrow> \<exists>raw. raw_tags b = Some raw"
    by (rule read_tags_run [OF Suc.prems]) (rule that; assumption)
  show ?case
  proof (cases "EFI_ERROR st")
    case True
    then show ?thesis using r Suc.IH [OF r(2), of "k + 1"] Suc.prems by (auto simp: Let_def)
  next
    case False
    then obtain raw where raw: "raw_tags b = Some raw" using tags by blast
    obtain s2 hdr where p: "(if t_IsHeader (ParseTagWords raw)
        then probe_header nd s1 (k * nf_PagesPerBlock nd) else Some (s1, False)) = Some (s2, hdr)" "dev_ok s2"
      using probe_header_run [OF r(2), of "k * nf_PagesPerBlock nd"] r(2) by (cases "t_IsHeader (ParseTagWords raw)") auto
    obtain s3 q h where d: "detect_pages nd (t_SeqNumber (ParseTagWords raw)) (k * nf_PagesPerBlock nd)
        (unat (nf_PagesPerBlock nd) - 1) 1 s2 hdr = Some (s3, q, h)" "dev_ok s3"
      using detect_pages_run [OF p(2)] by blast
    show ?thesis using r False raw p(1) d Suc.IH [OF r(2), of "k + 1"] Suc.IH [OF d(2), of "k + 1"] Suc.prems
      by (simp add: Let_def)
  qed
qed simp

end

end
