(* ===== verification/Yaffs2Tree.thy ===== *)
theory Yaffs2Tree
  imports Yaffs2ScanRun
begin

text \<open>
  The directory tree that \<open>BuildTree\<close> of \<open>Scan.c\<close> leaves: a closed form of both passes, and
  the well-formedness of the volume the rest of the driver works on (\<open>tree_ok\<close>).
\<close>

subsection \<open>The first pass\<close>

lemma volume_eqI:
  assumes "length (v_Objects v) = length (v_Objects w)" and "obj_of v = obj_of w"
    and "v_MaxObjId v = v_MaxObjId w" and "v_Root v = v_Root w"
  shows "v = w"
proof -
  have "v_Objects v = v_Objects w"
  proof (rule nth_equalityI)
    show "v_Objects v ! i = v_Objects w ! i" if "i < length (v_Objects v)" for i
      using that assms(1) fun_cong [OF assms(2), of i] by (simp add: obj_of_def)
  qed (rule assms(1))
  then show ?thesis using assms(3,4) by simp
qed

text \<open>The volume without the objects of indices \<open>1..<k\<close> that the first pass frees.\<close>

definition pruned :: "yaffs2_volume \<Rightarrow> nat \<Rightarrow> yaffs2_volume" where
  "pruned v k = v\<lparr>v_Objects := map (\<lambda>i. case obj_of v i of None \<Rightarrow> None
     | Some ob \<Rightarrow> if 1 \<le> i \<and> i < k \<and> dropped_object i ob then None else Some ob)
       [0..<length (v_Objects v)]\<rparr>"

lemma pruned_fields [simp]:
  "length (v_Objects (pruned v k)) = length (v_Objects v)"
  "v_MaxObjId (pruned v k) = v_MaxObjId v" "v_Root (pruned v k) = v_Root v"
  by (simp_all add: pruned_def)

lemma obj_of_pruned:
  "obj_of (pruned v k) i = (case obj_of v i of None \<Rightarrow> None
     | Some ob \<Rightarrow> if 1 \<le> i \<and> i < k \<and> dropped_object i ob then None else Some ob)"
  by (simp add: obj_of_def [of "pruned v k"]) (simp add: pruned_def obj_of_def split: option.splits)

lemma pruned_Suc_0 [simp]: "pruned v (Suc 0) = v"
  by (rule volume_eqI) (simp_all add: fun_eq_iff obj_of_pruned split: option.splits)

lemma prune_slot_step:
  assumes "1 \<le> k" and "k < length (v_Objects v)"
  shows "prune_slot k (pruned v k) = Some (pruned v (Suc k))"
proof -
  have eq: "pruned v (Suc k) = (case obj_of v k of None \<Rightarrow> pruned v k
      | Some ob \<Rightarrow> if dropped_object k ob then put_obj (pruned v k) k None else pruned v k)"
    by (rule volume_eqI)
      (use assms in \<open>auto simp: fun_eq_iff obj_of_pruned less_Suc_eq split: option.splits\<close>)
  show ?thesis using assms
    by (simp add: prune_slot_def obj_at_eq obj_of_pruned eq split: option.splits)
qed

lemma prune_loop:
  assumes "1 \<le> k" and "k + n \<le> length (v_Objects v)"
  shows "for_loop prune_slot k n (pruned v k) = Some (pruned v (k + n))"
  using assms
proof (induction n arbitrary: k)
  case (Suc n)
  then show ?case using Suc.IH [of "Suc k"] by (simp add: prune_slot_step)
qed simp

subsection \<open>The second pass\<close>

text \<open>The directory an object is linked into: orphans go to the root.\<close>

definition eff_parent :: "yaffs2_volume \<Rightarrow> nat \<Rightarrow> nat option" where
  "eff_parent v i = (case obj_of v i of None \<Rightarrow> None | Some ob \<Rightarrow>
     if i = 1 then None
     else if o_ParentId ob = 0 \<or> o_ParentId ob > v_MaxObjId v \<or>
       obj_of v (unat (o_ParentId ob)) = None
     then (if obj_of v 1 = None then None else Some 1)
     else Some (unat (o_ParentId ob)))"

definition children_below :: "yaffs2_volume \<Rightarrow> nat \<Rightarrow> nat \<Rightarrow> nat list" where
  "children_below v k p = filter (\<lambda>i. eff_parent v i = Some p) [1..<k]"

definition linked_object :: "yaffs2_volume \<Rightarrow> nat \<Rightarrow> nat \<Rightarrow> yaffs2_object \<Rightarrow> yaffs2_object" where
  "linked_object v k i ob = ob\<lparr>o_Parent := (if 1 \<le> i \<and> i < k then eff_parent v i else None),
     o_Children := children_below v k i\<rparr>"

definition linked :: "yaffs2_volume \<Rightarrow> nat \<Rightarrow> yaffs2_volume" where
  "linked v k = v\<lparr>v_Objects := map (\<lambda>i. map_option (linked_object v k i) (obj_of v i))
     [0..<length (v_Objects v)]\<rparr>"

lemma linked_fields [simp]:
  "length (v_Objects (linked v k)) = length (v_Objects v)"
  "v_MaxObjId (linked v k) = v_MaxObjId v" "v_Root (linked v k) = v_Root v"
  by (simp_all add: linked_def)

lemma obj_of_linked: "obj_of (linked v k) i = map_option (linked_object v k i) (obj_of v i)"
  by (simp add: obj_of_def [of "linked v k"]) (simp add: linked_def obj_of_def)

lemma linked_Suc_0: "volume_unlinked v \<Longrightarrow> linked v (Suc 0) = v"
proof (rule volume_eqI)
  assume "volume_unlinked v"
  then have "map_option (linked_object v (Suc 0) i) (obj_of v i) = obj_of v i" for i
    by (cases "obj_of v i") (auto simp: volume_unlinked_def linked_object_def children_below_def)
  then show "obj_of (linked v (Suc 0)) = obj_of v" by (simp add: fun_eq_iff obj_of_linked)
qed simp_all

lemma children_below_Suc:
  "1 \<le> k \<Longrightarrow> children_below v (Suc k) p =
     children_below v k p @ (if eff_parent v k = Some p then [k] else [])"
  by (simp add: children_below_def)

lemma linked_object_Suc:
  "1 \<le> k \<Longrightarrow> linked_object v (Suc k) i ob =
    (let ob1 = linked_object v k i ob;
         ob2 = (if i = k then ob1\<lparr>o_Parent := eff_parent v k\<rparr> else ob1)
     in if eff_parent v k = Some i then ob2\<lparr>o_Children := o_Children ob2 @ [k]\<rparr> else ob2)"
  by (auto simp: linked_object_def children_below_Suc Let_def less_Suc_eq)

lemma eff_parent_live: "eff_parent v i = Some p \<Longrightarrow> obj_of v p \<noteq> None \<and> p \<noteq> 0"
  by (auto simp: eff_parent_def unat_gt_0 split: option.splits if_splits)

lemma obj_of_live_less: "obj_of v i \<noteq> None \<Longrightarrow> i < length (v_Objects v)"
  by (simp add: obj_of_def split: if_splits)

text \<open>Setting the parent and inserting at the tail, as one update of the objects.\<close>

lemma set_parent_eq:
  "obj_of v i = Some ob \<Longrightarrow> set_parent i p v = Some (put_obj v i (Some (ob\<lparr>o_Parent := p\<rparr>)))"
  using obj_of_live_less [of v i] by (simp add: set_parent_def obj_at_eq)

lemma insert_tail_eq:
  "obj_of v p = Some ob \<Longrightarrow>
   insert_tail p i v = Some (put_obj v p (Some (ob\<lparr>o_Children := o_Children ob @ [i]\<rparr>)))"
  using obj_of_live_less [of v p] by (simp add: insert_tail_def obj_at_eq)

lemma link_slot_cases:
  assumes "volume_ok v" and "obj_of v i = Some ob" and "1 \<le> i"
  shows "link_slot i v = (case eff_parent v i of
      None \<Rightarrow> if i = 1 then set_parent i None v else Some v
    | Some p \<Rightarrow> set_parent i (Some p) v \<bind> insert_tail p i)"
proof -
  have i: "i < length (v_Objects v)" using assms(2) obj_of_live_less by fastforce
  have len: "length (v_Objects v) = Suc (unat (v_MaxObjId v))"
    using assms(1) i volume_ok_bounds [of v] by fastforce
  show ?thesis
  proof (cases "i = 1")
    case True
    then show ?thesis using assms(2) i by (simp add: link_slot_def obj_at_eq eff_parent_def)
  next
    case i1: False
    let ?par = "o_ParentId ob"
    consider "?par = 0 \<or> ?par > v_MaxObjId v" | "?par \<noteq> 0" "\<not> ?par > v_MaxObjId v"
      "unat ?par < length (v_Objects v)"
      using len by (fastforce simp: word_less_nat_alt)
    then show ?thesis
    proof cases
      case 1
      have "1 < length (v_Objects v)" using i i1 assms(3) by linarith
      then show ?thesis using 1 assms(2) i i1
        by (auto simp: link_slot_def obj_at_eq eff_parent_def)
    next
      case 2
      have "1 < length (v_Objects v)" using i i1 assms(3) by linarith
      then show ?thesis using 2 assms(2) i i1
        by (auto simp: link_slot_def obj_at_eq eff_parent_def)
    qed
  qed
qed

lemma link_slot_idle: "i < length (v_Objects v) \<Longrightarrow> obj_of v i = None \<Longrightarrow> link_slot i v = Some v"
  by (simp add: link_slot_def obj_at_eq)

lemma obj_of_linked_None [simp]: "obj_of (linked v k) i = None \<longleftrightarrow> obj_of v i = None"
  by (simp add: obj_of_linked)

lemma eff_parent_linked [simp]: "eff_parent (linked v k) i = eff_parent v i"
  by (simp add: eff_parent_def obj_of_linked linked_object_def split: option.splits)

lemma volume_ok_linked: "volume_ok v \<Longrightarrow> volume_ok (linked v k)"
  by (auto simp: volume_ok_def linked_fields obj_of_linked linked_object_def object_ok_def
      simp del: length_0_conv) (auto simp: linked_def)

lemma eff_parent_None_live:
  "obj_of v i = Some ob \<Longrightarrow> eff_parent v i = None \<Longrightarrow> i \<noteq> 1 \<Longrightarrow> obj_of v 1 = None"
  by (auto simp: eff_parent_def split: if_splits)

lemma linked_Suc_idle: "1 \<le> k \<Longrightarrow> eff_parent v k = None \<Longrightarrow> linked v (Suc k) = linked v k"
proof (rule volume_eqI)
  assume k: "1 \<le> k" "eff_parent v k = None"
  have "linked_object v (Suc k) i = linked_object v k i" for i
    using k by (auto simp: fun_eq_iff linked_object_def children_below_Suc less_Suc_eq)
  note same = this
  show "obj_of (linked v (Suc k)) = obj_of (linked v k)"
    by (rule ext) (simp add: obj_of_linked same)
qed simp_all

lemma link_slot_step:
  assumes "volume_ok v" and "1 \<le> k" and "k < length (v_Objects v)"
  shows "link_slot k (linked v k) = Some (linked v (Suc k))"
proof (cases "obj_of v k")
  case None
  then have "eff_parent v k = None" by (simp add: eff_parent_def)
  then have "linked v (Suc k) = linked v k"
    using assms(2) by (simp add: linked_Suc_idle)
  then show ?thesis using None assms(3) by (simp add: link_slot_idle)
next
  case (Some ob)
  have obk: "obj_of (linked v k) k = Some (linked_object v k k ob)"
    using Some by (simp add: obj_of_linked)
  have par: "o_Parent (linked_object v k k ob) = None" by (simp add: linked_object_def)
  show ?thesis
  proof (cases "eff_parent v k")
    case None
    then have "linked v (Suc k) = linked v k"
      using assms(2) by (simp add: linked_Suc_idle)
    moreover have "put_obj (linked v k) k (Some ((linked_object v k k ob)\<lparr>o_Parent := None\<rparr>)) = linked v k"
      using par obk assms(3) by (intro put_obj_idle) simp_all
    moreover have "set_parent k None (linked v k) =
        Some (put_obj (linked v k) k (Some ((linked_object v k k ob)\<lparr>o_Parent := None\<rparr>)))"
      by (rule set_parent_eq [OF obk])
    moreover have "link_slot k (linked v k) = (if k = 1 then set_parent k None (linked v k)
        else Some (linked v k))"
      using None assms by (subst link_slot_cases [OF volume_ok_linked obk]) simp_all
    ultimately show ?thesis by (auto split: if_splits)
  next
    case (Some p)
    let ?v1 = "put_obj (linked v k) k (Some ((linked_object v k k ob)\<lparr>o_Parent := Some p\<rparr>))"
    obtain pob where pob: "obj_of v p = Some pob" using eff_parent_live [OF Some] by blast
    have p: "p < length (v_Objects v)" using pob obj_of_live_less by fastforce
    define pob1 where "pob1 = (if p = k then (linked_object v k k ob)\<lparr>o_Parent := Some p\<rparr>
      else linked_object v k p pob)"
    have v1: "obj_of ?v1 p = Some pob1" using pob assms(3) by (simp add: obj_of_linked pob1_def)
    have "obj_of (put_obj ?v1 p (Some (pob1\<lparr>o_Children := o_Children pob1 @ [k]\<rparr>))) i =
        obj_of (linked v (Suc k)) i" for i
    proof (cases "i = p")
      case True
      have "linked_object v (Suc k) p pob = pob1\<lparr>o_Children := o_Children pob1 @ [k]\<rparr>"
        using assms(2) \<open>eff_parent v k = Some p\<close> \<open>obj_of v k = Some ob\<close> pob
        by (auto simp: pob1_def linked_object_Suc Let_def)
      then show ?thesis using True p pob by (simp add: obj_of_linked)
    next
      case ip: False
      show ?thesis
      proof (cases "i = k")
        case True
        then show ?thesis using ip assms(2,3) p \<open>eff_parent v k = Some p\<close> \<open>obj_of v k = Some ob\<close>
          by (simp add: obj_of_linked linked_object_Suc Let_def)
      next
        case False
        have "linked_object v (Suc k) i x = linked_object v k i x" for x
          using False ip assms(2) \<open>eff_parent v k = Some p\<close> by (simp add: linked_object_Suc Let_def)
        then have "linked_object v (Suc k) i = linked_object v k i" by (rule ext)
        then show ?thesis using False ip assms(3) p by (simp add: obj_of_linked)
      qed
    qed
    then have "put_obj ?v1 p (Some (pob1\<lparr>o_Children := o_Children pob1 @ [k]\<rparr>)) = linked v (Suc k)"
      by (intro volume_eqI) (simp_all add: fun_eq_iff)
    then show ?thesis using Some obk assms v1
      by (simp add: link_slot_cases [OF volume_ok_linked obk] set_parent_eq insert_tail_eq)
  qed
qed

lemma link_loop:
  assumes "volume_ok v" and "1 \<le> k" and "k + n \<le> length (v_Objects v)"
  shows "for_loop link_slot k n (linked v k) = Some (linked v (k + n))"
  using assms(2-)
proof (induction n arbitrary: k)
  case (Suc n)
  then show ?case using Suc.IH [of "Suc k"] by (simp add: link_slot_step [OF assms(1)])
qed simp

subsection \<open>The tree\<close>

text \<open>The object \<open>BuildTree\<close> keeps at index \<open>i\<close>, and all of the tree in closed form.\<close>

definition kept :: "yaffs2_volume \<Rightarrow> nat \<Rightarrow> yaffs2_object option" where
  "kept v i = obj_of (pruned v (length (v_Objects v))) i"

definition tree_of :: "yaffs2_volume \<Rightarrow> yaffs2_volume" where
  "tree_of v = (let w = pruned v (length (v_Objects v)) in
     (linked w (length (v_Objects v)))\<lparr>v_Root := (if obj_of w 1 = None then None else Some 1)\<rparr>)"

lemma volume_ok_pruned: "volume_ok v \<Longrightarrow> volume_ok (pruned v k)"
  unfolding volume_ok_def
  by (auto simp: obj_of_pruned simp flip: length_0_conv split: option.splits if_splits)

lemma volume_unlinked_pruned: "volume_unlinked v \<Longrightarrow> volume_unlinked (pruned v k)"
  by (auto simp: volume_unlinked_def obj_of_pruned split: option.splits if_splits)

lemma obj_of_root_upd [simp]: "obj_of (v\<lparr>v_Root := r\<rparr>) = obj_of v"
  by (simp add: fun_eq_iff obj_of_def)

lemma volume_ok_root_upd [simp]: "volume_ok (v\<lparr>v_Root := r\<rparr>) = volume_ok v"
  by (simp add: volume_ok_def)

lemma BuildTree_eq:
  assumes "volume_ok v" and "volume_unlinked v"
  shows "BuildTree v = Some (tree_of v)"
proof (cases "v_Objects v = []")
  case True
  then have m: "v_MaxObjId v = 0" using assms(1) by (simp add: volume_ok_def)
  have "obj_of v = (\<lambda>_. None)" using True by (simp add: obj_of_def fun_eq_iff)
  then have "linked (pruned v 0) 0 = v"
    by (intro volume_eqI) (simp_all add: fun_eq_iff obj_of_linked obj_of_pruned)
  moreover have "obj_of (pruned v 0) 1 = None" using True by (simp add: obj_of_def)
  ultimately show ?thesis using True m by (simp add: BuildTree_def tree_of_def Let_def)
next
  case False
  then have len: "length (v_Objects v) = Suc (unat (v_MaxObjId v))"
    using assms(1) by (simp add: volume_ok_bounds)
  define w where "w = pruned v (length (v_Objects v))"
  have w: "volume_ok w" "volume_unlinked w" "length (v_Objects w) = length (v_Objects v)"
      "v_MaxObjId w = v_MaxObjId v"
    using assms by (simp_all add: w_def volume_ok_pruned volume_unlinked_pruned)
  have p: "for_loop prune_slot 1 (unat (v_MaxObjId v)) v = Some w"
    using prune_loop [of 1 "unat (v_MaxObjId v)" v] len by (simp add: w_def)
  have l: "for_loop link_slot 1 (unat (v_MaxObjId w)) w = Some (linked w (length (v_Objects v)))"
    using link_loop [OF w(1), of 1 "unat (v_MaxObjId w)"] len w(3,4) linked_Suc_0 [OF w(2)] by simp
  have "1 \<le> v_MaxObjId v \<longleftrightarrow> 1 < length (v_Objects v)"
    using len by (simp add: word_le_nat_alt) linarith
  moreover have "\<not> 1 < length (v_Objects v) \<Longrightarrow> obj_of w 1 = None"
    using w(3) by (simp add: obj_of_def)
  ultimately show ?thesis using p l w(3,4)
    by (auto simp: BuildTree_def tree_of_def w_def [symmetric] Let_def obj_at_eq)
qed

text \<open>What the rest of the driver relies on.\<close>

definition tree_ok :: "yaffs2_volume \<Rightarrow> bool" where
  "tree_ok v =
     (volume_ok v \<and>
      (\<forall>r. v_Root v = Some r \<longrightarrow> obj_of v r \<noteq> None) \<and>
      (\<forall>i ob. obj_of v i = Some ob \<longrightarrow>
        (\<forall>p. o_Parent ob = Some p \<longrightarrow> (\<exists>pob. obj_of v p = Some pob \<and> i \<in> set (o_Children pob))) \<and>
        (\<forall>c \<in> set (o_Children ob). \<exists>cob. obj_of v c = Some cob \<and> o_Parent cob = Some i) \<and>
        distinct (o_Children ob)))"

lemma tree_ok_volume: "tree_ok v \<Longrightarrow> volume_ok v"
  by (simp add: tree_ok_def)

lemma tree_ok_child:
  "tree_ok v \<Longrightarrow> obj_of v i = Some ob \<Longrightarrow> c \<in> set (o_Children ob) \<Longrightarrow>
   \<exists>cob. obj_of v c = Some cob \<and> o_Parent cob = Some i"
  unfolding tree_ok_def by blast

lemma tree_ok_parent:
  "tree_ok v \<Longrightarrow> obj_of v i = Some ob \<Longrightarrow> o_Parent ob = Some p \<Longrightarrow>
   \<exists>pob. obj_of v p = Some pob \<and> i \<in> set (o_Children pob)"
  unfolding tree_ok_def by blast

lemma tree_ok_root: "tree_ok v \<Longrightarrow> v_Root v = Some r \<Longrightarrow> \<exists>ob. obj_of v r = Some ob"
  unfolding tree_ok_def by blast

lemma tree_ok_children: "tree_ok v \<Longrightarrow> obj_of v i = Some ob \<Longrightarrow> distinct (o_Children ob)"
  unfolding tree_ok_def by blast

lemma obj_of_tree_of:
  "obj_of (tree_of v) i = map_option (linked_object (pruned v (length (v_Objects v)))
     (length (v_Objects v)) i) (kept v i)"
  by (simp add: tree_of_def Let_def obj_of_linked kept_def)

lemma v_Root_tree_of: "v_Root (tree_of v) = (if kept v 1 = None then None else Some 1)"
  by (simp add: tree_of_def Let_def kept_def)

lemma tree_of_ok:
  assumes "volume_ok v" and "obj_of v 0 = None"
  shows "tree_ok (tree_of v)"
proof -
  let ?n = "length (v_Objects v)"
  let ?w = "pruned v ?n"
  have live: "i < ?n \<and> 1 \<le> i" if "kept v i = Some ob" for i ob
  proof -
    have "obj_of v i \<noteq> None" using that by (auto simp: kept_def obj_of_pruned split: option.splits)
    then show ?thesis using assms(2) obj_of_live_less [of v i] by (cases i) auto
  qed
  have ep: "\<exists>ob. kept v i = Some ob" if "eff_parent ?w i = Some p" for i p
    using that by (auto simp: eff_parent_def kept_def split: option.splits)
  have "volume_ok (tree_of v)"
    using assms(1) by (simp add: tree_of_def Let_def volume_ok_linked volume_ok_pruned)
  moreover have "\<exists>pob. obj_of (tree_of v) p = Some pob \<and> i \<in> set (o_Children pob)"
    if ob: "obj_of (tree_of v) i = Some ob" "o_Parent ob = Some p" for i ob p
  proof -
    obtain k where k: "kept v i = Some k" "ob = linked_object ?w ?n i k"
      using ob(1) by (auto simp: obj_of_tree_of)
    have e: "eff_parent ?w i = Some p" using ob(2) k live [OF k(1)] by (simp add: linked_object_def)
    then obtain pk where "kept v p = Some pk" using eff_parent_live [OF e] by (auto simp: kept_def)
    then show ?thesis using e live [OF k(1)]
      by (simp add: obj_of_tree_of linked_object_def children_below_def)
  qed
  moreover have "\<exists>cob. obj_of (tree_of v) c = Some cob \<and> o_Parent cob = Some i"
    if "obj_of (tree_of v) i = Some ob" "c \<in> set (o_Children ob)" for i ob c
  proof -
    have c: "eff_parent ?w c = Some i" "1 \<le> c" "c < ?n"
      using that by (auto simp: obj_of_tree_of linked_object_def children_below_def)
    then show ?thesis using ep [OF c(1)] by (auto simp: obj_of_tree_of linked_object_def)
  qed
  moreover have "distinct (o_Children ob)" if "obj_of (tree_of v) i = Some ob" for i ob
    using that by (auto simp: obj_of_tree_of linked_object_def children_below_def)
  moreover have "obj_of (tree_of v) r \<noteq> None" if "v_Root (tree_of v) = Some r" for r
    using that by (auto simp: v_Root_tree_of obj_of_tree_of split: if_splits)
  ultimately show ?thesis unfolding tree_ok_def by blast
qed

subsection \<open>The whole scan\<close>

lemma apply_events_zero:
  assumes "volume_ok v" and "\<forall>e \<in> set es. event_ok e" and "apply_events al es v = Some v'"
  shows "obj_of v' 0 = obj_of v 0"
  using assms
proof (induction es arbitrary: v)
  case (Cons e es)
  have "0 \<noteq> ev_object e"
    using Cons.prems(2) by (auto simp: event_ok_def ev_object_def unat_eq_0)
  moreover obtain v1 where "apply_event al e v = Some v1" "volume_ok v1"
      "\<And>i. i \<noteq> ev_object e \<Longrightarrow> obj_of v1 i = obj_of v i"
    using apply_event_ok [OF Cons.prems(1)] Cons.prems(2) by (metis list.set_intros(1))
  ultimately show ?case using Cons.IH [of v1] Cons.prems(2,3) by simp
qed simp

text \<open>An empty volume that has taken in a list of events, before the tree is built.\<close>

definition scan_events :: "allocator \<Rightarrow> yaffs2_event list \<Rightarrow> yaffs2_volume \<Rightarrow> bool" where
  "scan_events al es v = (apply_events al es empty_volume = Some v \<and> (\<forall>e \<in> set es. event_ok e))"

lemma scan_events_ok:
  assumes "scan_events al es v"
  shows "volume_ok v" and "volume_unlinked v" and "obj_of v 0 = None"
    and "BuildTree v = Some (tree_of v)" and "tree_ok (tree_of v)"
proof -
  show ok: "volume_ok v" "volume_unlinked v"
    using assms apply_events_ok [of empty_volume es al] by (simp_all add: scan_events_def)
  have "obj_of empty_volume 0 = None" by (simp add: obj_of_def empty_volume_def)
  then show z: "obj_of v 0 = None"
    using assms apply_events_zero [of empty_volume es al v] by (simp add: scan_events_def)
  show "BuildTree v = Some (tree_of v)" using ok by (rule BuildTree_eq)
  show "tree_ok (tree_of v)" using ok(1) z by (rule tree_of_ok)
qed

text \<open>The status of the scan.\<close>

definition root_status :: "yaffs2_volume \<Rightarrow> efi_status" where
  "root_status v = (case v_Root v of None \<Rightarrow> EFI_VOLUME_CORRUPTED
     | Some r \<Rightarrow> (case obj_of v r of None \<Rightarrow> EFI_VOLUME_CORRUPTED
        | Some ob \<Rightarrow> if o_Type ob = YAFFS2_TYPE_DIR then EFI_SUCCESS else EFI_VOLUME_CORRUPTED))"

text \<open>What follows the loop over the blocks.\<close>

lemma scan_after_loop:
  assumes "for_loop (scan_block nd al) 0 (unat (nf_NumBlocks nd))
      \<lparr>sc_vol = empty_volume, sc_nand = s, sc_PageCount = 0, sc_HeaderCount = 0\<rparr> = Some sc"
    and "scan_events al es v" and "sc_vol sc = v"
  shows "Yaffs2ScanNand nd al empty_volume s = Some (sc_nand sc, tree_of v, root_status (tree_of v))"
proof -
  note ok = scan_events_ok [OF assms(2)]
  show ?thesis
  proof (cases "v_Root (tree_of v)")
    case None
    then show ?thesis using assms(1,3) ok(4) by (simp add: Yaffs2ScanNand_def root_status_def)
  next
    case (Some r)
    then obtain ob where "obj_of (tree_of v) r = Some ob" using tree_ok_root [OF ok(5)] by blast
    then show ?thesis using assms(1,3) ok(4) Some obj_of_live_less [of "tree_of v" r]
      by (simp add: Yaffs2ScanNand_def root_status_def obj_at_eq)
  qed
qed

context nand_flash
begin

lemma scan_run:
  assumes "flash_ids_safe nd dev_ok" and "dev_ok s"
  shows "\<exists>s' es v. Yaffs2ScanNand nd al empty_volume s = Some (s', tree_of v, root_status (tree_of v)) \<and>
    dev_ok s' \<and> scan_events al es v \<and>
    pages_in 0 (unat (nf_NumBlocks nd) * unat (nf_PagesPerBlock nd)) es"
proof -
  let ?sc = "\<lparr>sc_vol = empty_volume, sc_nand = s, sc_PageCount = 0, sc_HeaderCount = 0\<rparr>"
  obtain sc where sc: "for_loop (scan_block nd al) 0 (unat (nf_NumBlocks nd)) ?sc = Some sc"
      "scanned dev_ok al 0 (unat (nf_NumBlocks nd) * unat (nf_PagesPerBlock nd)) ?sc sc"
    using scan_blocks_run [OF assms(1), of ?sc 0 "unat (nf_NumBlocks nd)" al] assms(2) by auto
  then obtain es where es: "scan_events al es (sc_vol sc)" "dev_ok (sc_nand sc)"
      "pages_in 0 (unat (nf_NumBlocks nd) * unat (nf_PagesPerBlock nd)) es"
    by (auto simp: scanned_def scan_events_def)
  then show ?thesis using scan_after_loop [OF sc(1) es(1) refl] by blast
qed

end

end
