(* ===== verification/Yaffs2Content.thy ===== *)
theory Yaffs2Content
  imports Yaffs2Tree
begin

text \<open>
  The scan as a function of what the flash holds. \<open>tg\<close> and \<open>pg\<close> give the tags and the data of
  each page, or \<^const>\<open>None\<close> where reading them fails; \<open>flash_events\<close> computes from them the
  headers and data pages the scan has to take in. The theorem is that the code takes in these, in this
  order, and nothing else; in particular every header is parsed from the data of the page whose
  tags announced it.
\<close>

type_synonym pages = "u32 \<Rightarrow> bytes option"

definition read_gives :: "('s \<Rightarrow> bool) \<Rightarrow> ('s \<times> efi_status \<times> bytes) option \<Rightarrow> bytes option \<Rightarrow> bool" where
  "read_gives dev_ok r c = (\<exists>s' st b. r = Some (s', st, b) \<and> dev_ok s' \<and>
     (case c of None \<Rightarrow> EFI_ERROR st | Some d \<Rightarrow> \<not> EFI_ERROR st \<and> b = d))"

definition page_tags :: "pages \<Rightarrow> u32 \<Rightarrow> raw_tags option" where
  "page_tags tg p = (case tg p of None \<Rightarrow> None | Some t \<Rightarrow> raw_tags t)"

definition tags_written :: "pages \<Rightarrow> u32 \<Rightarrow> bool" where
  "tags_written tg p = (case page_tags tg p of None \<Rightarrow> False | Some raw \<Rightarrow> \<not> AreTagsErased raw)"

text \<open>
  The documented behaviour of the protocol: \<open>ReadPage\<close> and \<open>ReadTags\<close> read the page they are
  given, \<open>ReadPageBody\<close> the page whose tags have just been read and found written.
\<close>

definition flash_content :: "'s nand_proto \<Rightarrow> ('s \<Rightarrow> bool) \<Rightarrow> pages \<Rightarrow> pages \<Rightarrow> bool" where
  "flash_content nd dev_ok tg pg = (\<forall>s p. dev_ok s \<longrightarrow>
     read_gives dev_ok (nf_ReadPage nd s p) (pg p) \<and>
     read_gives (\<lambda>s'. dev_ok s' \<and> (tags_written tg p \<longrightarrow> read_gives dev_ok (nf_ReadPageBody nd s') (pg p)))
       (nf_ReadTags nd s p) (tg p))"

subsection \<open>The events of the flash\<close>

definition header_event :: "pages \<Rightarrow> yaffs2_tags \<Rightarrow> u32 \<Rightarrow> yaffs2_event list" where
  "header_event pg t p = (case pg p of None \<Rightarrow> [] | Some d \<Rightarrow> [HeaderPage d t p])"

fun page_events :: "pages \<Rightarrow> pages \<Rightarrow> nat \<Rightarrow> u32 \<Rightarrow> yaffs2_event list" where
  "page_events tg pg 0 p = []"
| "page_events tg pg (Suc n) p = (case page_tags tg p of
     None \<Rightarrow> []
   | Some raw \<Rightarrow>
       if AreTagsErased raw then []
       else let t = ParseTagWords raw in
         (if \<not> seq_in_range (t_SeqNumber t) \<or> pseudo_object (t_ObjId t) then []
          else if t_IsHeader t then header_event pg t p else [DataPage t p]) @
         page_events tg pg n (p + 1))"

fun entry_events :: "pages \<Rightarrow> u32 \<Rightarrow> (u32 \<times> u32 \<times> u32) list \<Rightarrow> u32 \<Rightarrow> yaffs2_event list" where
  "entry_events pg sq [] p = []"
| "entry_events pg sq (e # es) p = (let t = entry_tags sq e in
     (if pseudo_object (t_ObjId t) then []
      else if t_IsHeader t then header_event pg t p else [DataPage t p]) @
     entry_events pg sq es (p + 1))"

definition summary_of :: "u32 \<Rightarrow> pages \<Rightarrow> pages \<Rightarrow> u32 \<Rightarrow> (u32 \<times> (u32 \<times> u32 \<times> u32) list) option" where
  "summary_of ppb tg pg p = (case page_tags tg p of
     None \<Rightarrow> None
   | Some (w0, w1, w2, w3) \<Rightarrow>
       if AreTagsErased (w0, w1, w2, w3) \<or> w1 \<noteq> YAFFS2_SUMMARY_OBJ_ID \<or> w2 \<noteq> 1 then None
       else (case pg p of None \<Rightarrow> None
         | Some d \<Rightarrow> (case read_summary ppb d of None \<Rightarrow> None | Some r \<Rightarrow> r)))"

definition block_events :: "u32 \<Rightarrow> pages \<Rightarrow> pages \<Rightarrow> nat \<Rightarrow> yaffs2_event list" where
  "block_events ppb tg pg i = (let base = of_nat i * ppb in case page_tags tg base of
     None \<Rightarrow> []
   | Some raw \<Rightarrow>
       if AreTagsErased raw then []
       else (case summary_of ppb tg pg (base + (ppb - 1)) of
         Some (sq, es) \<Rightarrow> entry_events pg sq es base
       | None \<Rightarrow> page_events tg pg (unat ppb) base))"

definition flash_events :: "'s nand_proto \<Rightarrow> pages \<Rightarrow> pages \<Rightarrow> yaffs2_event list" where
  "flash_events nd tg pg =
     concat (map (block_events (nf_PagesPerBlock nd) tg pg) [0..<unat (nf_NumBlocks nd)])"

subsection \<open>Runs that apply given events\<close>

definition runs ::
    "('s \<Rightarrow> bool) \<Rightarrow> allocator \<Rightarrow> yaffs2_event list \<Rightarrow> yaffs2_volume \<Rightarrow> 's yaffs2_scan option \<Rightarrow> bool" where
  "runs dev_ok al es v r = (case apply_events al es v of
     None \<Rightarrow> r = None
   | Some v' \<Rightarrow> (\<exists>sc'. r = Some sc' \<and> sc_vol sc' = v' \<and> dev_ok (sc_nand sc')))"

lemma runs_Nil: "dev_ok (sc_nand sc) \<Longrightarrow> sc_vol sc = v \<Longrightarrow> runs dev_ok al [] v (Some sc)"
  by (auto simp: runs_def)

lemma runs_append:
  assumes "runs dev_ok al es v r"
    and "\<And>sc'. dev_ok (sc_nand sc') \<Longrightarrow> runs dev_ok al es' (sc_vol sc') (k sc')"
  shows "runs dev_ok al (es @ es') v (r \<bind> k)"
proof (cases "apply_events al es v")
  case None
  then show ?thesis using assms(1) by (simp add: runs_def apply_events_append)
next
  case (Some v')
  then obtain sc' where sc': "r = Some sc'" "sc_vol sc' = v'" "dev_ok (sc_nand sc')"
    using assms(1) by (auto simp: runs_def)
  then show ?thesis using assms(2) [of sc'] Some by (simp add: runs_def apply_events_append)
qed

lemma runs_event:
  assumes "\<And>v'. runs dev_ok al es v' (k v')"
  shows "runs dev_ok al (e # es) v (apply_event al e v \<bind> k)"
  using assms by (cases "apply_event al e v") (simp_all add: runs_def)

lemma read_givesE:
  assumes "read_gives dev_ok r c"
  obtains s' st b where "r = Some (s', st, b)" and "dev_ok s'"
    and "c = None \<Longrightarrow> EFI_ERROR st" and "\<And>d. c = Some d \<Longrightarrow> \<not> EFI_ERROR st \<and> b = d"
  using assms unfolding read_gives_def by (auto split: option.splits)

lemma content_tags:
  assumes "flash_content nd dev_ok tg pg" and "dev_ok s"
  obtains s' st b where "nf_ReadTags nd s p = Some (s', st, b)" and "dev_ok s'"
    and "tg p = None \<Longrightarrow> EFI_ERROR st"
    and "\<And>t. tg p = Some t \<Longrightarrow> \<not> EFI_ERROR st \<and> b = t"
    and "tags_written tg p \<Longrightarrow> read_gives dev_ok (nf_ReadPageBody nd s') (pg p)"
proof -
  have "read_gives (\<lambda>s'. dev_ok s' \<and> (tags_written tg p \<longrightarrow> read_gives dev_ok (nf_ReadPageBody nd s') (pg p)))
       (nf_ReadTags nd s p) (tg p)"
    using assms by (simp add: flash_content_def)
  then show thesis by (rule read_givesE) (use that in auto)
qed

lemma content_page:
  "flash_content nd dev_ok tg pg \<Longrightarrow> dev_ok s \<Longrightarrow> read_gives dev_ok (nf_ReadPage nd s p) (pg p)"
  by (simp add: flash_content_def)

context nand_flash
begin

lemma tags_words:
  assumes "flash_content nd dev_ok tg pg" and "dev_ok s"
  obtains s' st b where "page_tags tg p = None" "nf_ReadTags nd s p = Some (s', st, b)" "dev_ok s'"
      "EFI_ERROR st"
  | raw s' st b where "page_tags tg p = Some raw" "nf_ReadTags nd s p = Some (s', st, b)" "dev_ok s'"
      "\<not> EFI_ERROR st" "raw_tags b = Some raw"
      "\<not> AreTagsErased raw \<Longrightarrow> read_gives dev_ok (nf_ReadPageBody nd s') (pg p)"
proof -
  obtain s' st b where r: "nf_ReadTags nd s p = Some (s', st, b)" "dev_ok s'"
      "tg p = None \<Longrightarrow> EFI_ERROR st"
      "\<And>t. tg p = Some t \<Longrightarrow> \<not> EFI_ERROR st \<and> b = t"
      "tags_written tg p \<Longrightarrow> read_gives dev_ok (nf_ReadPageBody nd s') (pg p)"
    by (rule content_tags [OF assms, of p]) (rule that; assumption)
  show thesis
  proof (cases "tg p")
    case None
    then show thesis using that(1) r by (simp add: page_tags_def)
  next
    case (Some t)
    then have "\<not> EFI_ERROR st" "b = t" using r(4) by auto
    then have "length t = 16" using read_tags [OF assms(2), of p] r(1) by auto
    then obtain raw where "raw_tags t = Some raw" using raw_tags_Some by blast
    then show thesis using that(2) r Some by (auto simp: page_tags_def tags_written_def)
  qed
qed

lemma scan_pages_content:
  assumes "flash_content nd dev_ok tg pg" and "dev_ok (sc_nand sc)"
  shows "runs dev_ok al (page_events tg pg n p) (sc_vol sc) (scan_pages nd al n p sc)"
  using assms(2)
proof (induction n arbitrary: p sc)
  case 0
  then show ?case by (simp add: runs_Nil)
next
  case (Suc n)
  have IH: "runs dev_ok al (page_events tg pg n (p + 1)) v
      (scan_pages nd al n (p + 1) sc')" if "dev_ok (sc_nand sc')" "sc_vol sc' = v" for v sc'
    using Suc.IH [OF that(1)] that(2) by simp
  show ?case
  proof (rule tags_words [OF assms(1) Suc.prems, of p])
    fix s1 st b
    assume "page_tags tg p = None" "nf_ReadTags nd (sc_nand sc) p = Some (s1, st, b)" "dev_ok s1" "EFI_ERROR st"
    then show ?case by (simp add: runs_Nil)
  next
    fix raw s1 st b
    assume r: "page_tags tg p = Some raw" "nf_ReadTags nd (sc_nand sc) p = Some (s1, st, b)" "dev_ok s1"
      "\<not> EFI_ERROR st" "raw_tags b = Some raw"
      "\<not> AreTagsErased raw \<Longrightarrow> read_gives dev_ok (nf_ReadPageBody nd s1) (pg p)"
    define t where "t = ParseTagWords raw"
    consider "AreTagsErased raw"
      | "\<not> AreTagsErased raw" "\<not> seq_in_range (t_SeqNumber t) \<or> pseudo_object (t_ObjId t)"
      | "\<not> AreTagsErased raw" "seq_in_range (t_SeqNumber t)" "\<not> pseudo_object (t_ObjId t)" "\<not> t_IsHeader t"
      | "\<not> AreTagsErased raw" "seq_in_range (t_SeqNumber t)" "\<not> pseudo_object (t_ObjId t)" "t_IsHeader t"
      by blast
    then show ?case
    proof cases
      case 1
      then show ?thesis using r by (simp add: runs_Nil)
    next
      case 2
      then show ?thesis using r IH by (simp add: t_def Let_def)
    next
      case 3
      then show ?thesis
        using r runs_event [of dev_ok al "page_events tg pg n (p + 1)" _ "DataPage t p" "sc_vol sc"] IH
        by (simp add: t_def Let_def)
    next
      case 4
      obtain s3 st3 d where b: "nf_ReadPageBody nd s1 = Some (s3, st3, d)" "dev_ok s3"
          "pg p = None \<Longrightarrow> EFI_ERROR st3" "\<And>x. pg p = Some x \<Longrightarrow> \<not> EFI_ERROR st3 \<and> d = x"
        by (rule read_givesE [OF r(6) [OF 4(1)]]) (rule that; assumption)
      show ?thesis
      proof (cases "pg p")
        case None
        then show ?thesis using 4 r b IH by (simp add: t_def Let_def header_event_def)
      next
        case (Some x)
        then show ?thesis
          using 4 r b IH runs_event [of dev_ok al "page_events tg pg n (p + 1)" _ "HeaderPage d t p" "sc_vol sc"]
          by (simp add: t_def Let_def header_event_def)
      qed
    qed
  qed
qed

lemma scan_entries_content:
  assumes "flash_content nd dev_ok tg pg" and "dev_ok (sc_nand sc)"
  shows "runs dev_ok al (entry_events pg sq es p) (sc_vol sc) (scan_entries nd al sq es p sc)"
  using assms(2)
proof (induction es arbitrary: p sc)
  case Nil
  then show ?case by (simp add: runs_Nil)
next
  case (Cons e es)
  have IH: "runs dev_ok al (entry_events pg sq es (p + 1)) v
      (scan_entries nd al sq es (p + 1) sc')" if "dev_ok (sc_nand sc')" "sc_vol sc' = v" for v sc'
    using Cons.IH [OF that(1)] that(2) by simp
  define t where "t = entry_tags sq e"
  consider "pseudo_object (t_ObjId t)" | "\<not> pseudo_object (t_ObjId t)" "\<not> t_IsHeader t"
    | "\<not> pseudo_object (t_ObjId t)" "t_IsHeader t" by blast
  then show ?case
  proof cases
    case 1
    then show ?thesis using IH Cons.prems by (simp add: t_def Let_def)
  next
    case 2
    then show ?thesis
      using runs_event [of dev_ok al "entry_events pg sq es (p + 1)" _ "DataPage t p" "sc_vol sc"] IH Cons.prems
      by (simp add: t_def Let_def)
  next
    case 3
    obtain s1 st d where b: "nf_ReadPage nd (sc_nand sc) p = Some (s1, st, d)" "dev_ok s1"
        "pg p = None \<Longrightarrow> EFI_ERROR st" "\<And>x. pg p = Some x \<Longrightarrow> \<not> EFI_ERROR st \<and> d = x"
      by (rule read_givesE [OF content_page [OF assms(1) Cons.prems, of p]]) (rule that; assumption)
    show ?thesis
    proof (cases "pg p")
      case None
      then show ?thesis using 3 b IH by (simp add: t_def Let_def header_event_def)
    next
      case (Some x)
      then show ?thesis
        using 3 b IH runs_event [of dev_ok al "entry_events pg sq es (p + 1)" _ "HeaderPage d t p" "sc_vol sc"]
        by (simp add: t_def Let_def header_event_def)
    qed
  qed
qed


lemma summary_content:
  assumes "flash_content nd dev_ok tg pg" and "dev_ok (sc_nand sc)"
  shows "case summary_of (nf_PagesPerBlock nd) tg pg
           (Block * nf_PagesPerBlock nd + (nf_PagesPerBlock nd - 1)) of
      None \<Rightarrow> \<exists>sc'. ScanBlockViaSummary nd al Block sc = Some (False, sc') \<and>
        sc_vol sc' = sc_vol sc \<and> dev_ok (sc_nand sc')
    | Some (sq, es) \<Rightarrow> \<exists>sc'. ScanBlockViaSummary nd al Block sc =
        map_option (Pair True) (scan_entries nd al sq es (Block * nf_PagesPerBlock nd) sc') \<and>
        sc_vol sc' = sc_vol sc \<and> dev_ok (sc_nand sc')"
    (is "case ?summary of None \<Rightarrow> ?none | Some (sq, es) \<Rightarrow> ?some sq es")
proof -
  let ?S = "Block * nf_PagesPerBlock nd + (nf_PagesPerBlock nd - 1)"
  show ?thesis
  proof (rule tags_words [OF assms, of ?S])
    fix s1 st b
    assume "page_tags tg ?S = None" "nf_ReadTags nd (sc_nand sc) ?S = Some (s1, st, b)" "dev_ok s1" "EFI_ERROR st"
    then show ?thesis by (simp add: summary_of_def ScanBlockViaSummary_def Let_def)
  next
    fix raw s1 st b
    assume r: "page_tags tg ?S = Some raw" "nf_ReadTags nd (sc_nand sc) ?S = Some (s1, st, b)" "dev_ok s1"
      "\<not> EFI_ERROR st" "raw_tags b = Some raw"
      "\<not> AreTagsErased raw \<Longrightarrow> read_gives dev_ok (nf_ReadPageBody nd s1) (pg ?S)"
    obtain w0 w1 w2 w3 where w: "raw = (w0, w1, w2, w3)" by (cases raw)
    show ?thesis
    proof (cases "AreTagsErased raw \<or> w1 \<noteq> YAFFS2_SUMMARY_OBJ_ID \<or> w2 \<noteq> 1")
      case True
      then have "?summary = None" using r(1) w by (simp add: summary_of_def del: AreTagsErased.simps)
      moreover have "ScanBlockViaSummary nd al Block sc = Some (False, sc\<lparr>sc_nand := s1\<rparr>)"
        using True r w by (auto simp: ScanBlockViaSummary_def Let_def simp del: AreTagsErased.simps)
      ultimately show ?thesis using r(3) by simp
    next
      case False
      then have m: "w1 = YAFFS2_SUMMARY_OBJ_ID" "w2 = 1" "\<not> AreTagsErased raw" by simp_all
      obtain s2 st2 d where b: "nf_ReadPageBody nd s1 = Some (s2, st2, d)" "dev_ok s2"
          "pg ?S = None \<Longrightarrow> EFI_ERROR st2" "\<And>x. pg ?S = Some x \<Longrightarrow> \<not> EFI_ERROR st2 \<and> d = x"
        by (rule read_givesE [OF r(6) [OF m(3)]]) (rule that; assumption)
      show ?thesis
      proof (cases "pg ?S")
        case None
        then have "ScanBlockViaSummary nd al Block sc = Some (False, sc\<lparr>sc_nand := s2\<rparr>)"
          using r w m b by (simp add: ScanBlockViaSummary_def Let_def del: AreTagsErased.simps)
        moreover have "?summary = None"
          using None r(1) w m by (simp add: summary_of_def del: AreTagsErased.simps)
        ultimately show ?thesis using b(2) by simp
      next
        case (Some x)
        then have x: "d = x" "\<not> EFI_ERROR st2" using b(4) by auto
        then have "2048 \<le> length x"
          using read_body [OF r(3)] b(1) page_size by auto
        then obtain sm where sm: "read_summary (nf_PagesPerBlock nd) x = Some sm"
          using read_summary_Some [OF _ pages_per_block] by blast
        have run: "ScanBlockViaSummary nd al Block sc = (case sm of None \<Rightarrow> Some (False, sc\<lparr>sc_nand := s2\<rparr>)
            | Some (sq, es) \<Rightarrow> map_option (Pair True)
                (scan_entries nd al sq es (Block * nf_PagesPerBlock nd) (sc\<lparr>sc_nand := s2\<rparr>)))"
          using r w m b(1) x sm
          by (simp add: ScanBlockViaSummary_def Let_def del: AreTagsErased.simps split: option.split)
        have "?summary = sm"
          using Some r(1) w m sm by (simp add: summary_of_def del: AreTagsErased.simps)
        then show ?thesis using run b(2) by (auto split: option.split intro!: exI [of _ "sc\<lparr>sc_nand := s2\<rparr>"])
      qed
    qed
  qed
qed

lemma scan_block_content:
  assumes "flash_content nd dev_ok tg pg" and "dev_ok (sc_nand sc)"
  shows "runs dev_ok al (block_events (nf_PagesPerBlock nd) tg pg i) (sc_vol sc) (scan_block nd al i sc)"
proof -
  define Block :: u32 where "Block = of_nat i"
  define Base where "Base = Block * nf_PagesPerBlock nd"
  show ?thesis
  proof (rule tags_words [OF assms, of Base])
    fix s1 st b
    assume "page_tags tg Base = None" "nf_ReadTags nd (sc_nand sc) Base = Some (s1, st, b)" "dev_ok s1"
      "EFI_ERROR st"
    then show ?thesis
      by (simp add: block_events_def scan_block_def Block_def [symmetric] Base_def [symmetric] Let_def runs_Nil)
  next
    fix raw s1 st b
    assume r: "page_tags tg Base = Some raw" "nf_ReadTags nd (sc_nand sc) Base = Some (s1, st, b)" "dev_ok s1"
      "\<not> EFI_ERROR st" "raw_tags b = Some raw"
    define sc1 where "sc1 = sc\<lparr>sc_nand := s1\<rparr>"
    have sc1: "dev_ok (sc_nand sc1)" "sc_vol sc1 = sc_vol sc" using r(3) by (simp_all add: sc1_def)
    show ?thesis
    proof (cases "AreTagsErased raw")
      case True
      then show ?thesis using r sc1
        by (simp add: block_events_def scan_block_def Block_def [symmetric] Base_def [symmetric] Let_def
            runs_Nil sc1_def)
    next
      case used: False
      have code: "scan_block nd al i sc = do {
          (ok, sc2) \<leftarrow> ScanBlockViaSummary nd al Block sc1;
          if ok then Some sc2 else ScanBlockPageByPage nd al Block sc2 }"
        using r used by (simp add: scan_block_def Block_def [symmetric] Base_def [symmetric] Let_def sc1_def)
      note sm = summary_content [OF assms(1) sc1(1), where Block = Block and al = al, folded Base_def]
      show ?thesis
      proof (cases "summary_of (nf_PagesPerBlock nd) tg pg (Base + (nf_PagesPerBlock nd - 1))")
        case None
        then obtain sc2 where s2: "ScanBlockViaSummary nd al Block sc1 = Some (False, sc2)"
            "sc_vol sc2 = sc_vol sc" "dev_ok (sc_nand sc2)"
          using sm sc1(2) by auto
        have "block_events (nf_PagesPerBlock nd) tg pg i = page_events tg pg (unat (nf_PagesPerBlock nd)) Base"
          using None r(1) used
          by (simp add: block_events_def Block_def [symmetric] Base_def [symmetric] Let_def)
        then show ?thesis
          using scan_pages_content [OF assms(1) s2(3), of al "unat (nf_PagesPerBlock nd)" Base] s2 code
          by (simp add: ScanBlockPageByPage_def Base_def [symmetric])
      next
        case (Some p)
        then obtain sq es where p: "p = (sq, es)" by (cases p)
        then obtain sc2 where s2: "ScanBlockViaSummary nd al Block sc1 =
            map_option (Pair True) (scan_entries nd al sq es Base sc2)"
            "sc_vol sc2 = sc_vol sc" "dev_ok (sc_nand sc2)"
          using sm Some sc1(2) by auto
        have "scan_block nd al i sc = scan_entries nd al sq es Base sc2"
          using code s2(1) by (cases "scan_entries nd al sq es Base sc2") simp_all
        moreover have "block_events (nf_PagesPerBlock nd) tg pg i = entry_events pg sq es Base"
          using Some p r(1) used
          by (simp add: block_events_def Block_def [symmetric] Base_def [symmetric] Let_def)
        ultimately show ?thesis
          using scan_entries_content [OF assms(1) s2(3), of al sq es Base] s2(2) by simp
      qed
    qed
  qed
qed

lemma scan_blocks_content:
  assumes "flash_content nd dev_ok tg pg" and "dev_ok (sc_nand sc)"
  shows "runs dev_ok al (concat (map (block_events (nf_PagesPerBlock nd) tg pg) [i..<i + n])) (sc_vol sc)
    (for_loop (scan_block nd al) i n sc)"
  using assms(2)
proof (induction n arbitrary: i sc)
  case 0
  then show ?case by (simp add: runs_Nil)
next
  case (Suc n)
  have "[i..<i + Suc n] = i # [Suc i..<Suc i + n]" by (simp add: upt_rec)
  then show ?case
    using runs_append [OF scan_block_content [OF assms(1) Suc.prems, of al i],
        of _ "for_loop (scan_block nd al) (Suc i) n"] Suc.IH [of _ "Suc i"]
    by simp
qed

text \<open>The scan of a flash with these contents, from an empty volume.\<close>

lemma scan_content:
  assumes "flash_content nd dev_ok tg pg" and "dev_ok s"
    and "\<forall>e \<in> set (flash_events nd tg pg). event_ok e"
  shows "\<exists>s' v. scan_events al (flash_events nd tg pg) v \<and> dev_ok s' \<and>
    Yaffs2ScanNand nd al empty_volume s = Some (s', tree_of v, root_status (tree_of v))"
proof -
  let ?sc = "\<lparr>sc_vol = empty_volume, sc_nand = s, sc_PageCount = 0, sc_HeaderCount = 0\<rparr>"
  obtain v where v: "apply_events al (flash_events nd tg pg) empty_volume = Some v"
    using apply_events_ok [of empty_volume "flash_events nd tg pg" al] assms(3) by auto
  then have ev: "scan_events al (flash_events nd tg pg) v" using assms(3) by (simp add: scan_events_def)
  have "runs dev_ok al (flash_events nd tg pg) empty_volume
      (for_loop (scan_block nd al) 0 (unat (nf_NumBlocks nd)) ?sc)"
    using scan_blocks_content [OF assms(1), of ?sc al 0 "unat (nf_NumBlocks nd)"] assms(2)
    by (simp add: flash_events_def)
  then obtain sc where sc: "for_loop (scan_block nd al) 0 (unat (nf_NumBlocks nd)) ?sc = Some sc"
      "sc_vol sc = v" "dev_ok (sc_nand sc)"
    using v by (auto simp: runs_def)
  have "Yaffs2ScanNand nd al empty_volume s = Some (sc_nand sc, tree_of v, root_status (tree_of v))"
    using sc by (intro scan_after_loop [OF _ ev]) simp_all
  then show ?thesis using ev sc(3) by blast
qed

text \<open>
  The events are well formed, as soon as their object ids do not reach the bound at which the
  capacity of the object array wraps around.
\<close>

lemma content_page_long:
  assumes "flash_content nd dev_ok tg pg" and "dev_ok s" and "pg p = Some d"
  shows "464 \<le> length d"
  using content_page [OF assms(1,2), of p] read_page [OF assms(2), of p] page_size assms(3)
  by (auto simp: read_gives_def)

lemma header_event_ok:
  assumes "flash_content nd dev_ok tg pg" and "dev_ok s" and "e \<in> set (header_event pg t p)"
    and "seq_in_range (t_SeqNumber t)" and "\<not> pseudo_object (t_ObjId t)" and "p \<noteq> 0xFFFFFFFF"
    and "id_safe (t_ObjId (ev_tags e))"
  shows "event_ok e"
  using assms content_page_long [OF assms(1,2), of p]
  by (auto simp: header_event_def event_ok_def pseudo_object_nonzero split: option.splits)

lemma data_event_ok:
  assumes "seq_in_range (t_SeqNumber t)" and "\<not> pseudo_object (t_ObjId t)" and "p \<noteq> 0xFFFFFFFF"
    and "id_safe (t_ObjId t)" and "t_ChunkId t < 0x80000000"
  shows "event_ok (DataPage t p)"
  using assms by (simp add: event_ok_def pseudo_object_nonzero)

lemma page_events_ok:
  assumes "flash_content nd dev_ok tg pg" and "dev_ok s" and "unat p + n < 2 ^ 32"
    and "e \<in> set (page_events tg pg n p)" and "id_safe (t_ObjId (ev_tags e))"
  shows "event_ok e"
  using assms(3,4)
proof (induction n arbitrary: p)
  case (Suc n)
  have nx: "unat (p + 1) = Suc (unat p)" "p \<noteq> 0xFFFFFFFF"
    using Suc.prems(1) unat_add_no_wrap [of p 1] by auto
  have IH: "e \<in> set (page_events tg pg n (p + 1)) \<Longrightarrow> event_ok e"
    using Suc.IH [of "p + 1"] Suc.prems(1) nx(1) by simp
  show ?case
  proof (cases "page_tags tg p")
    case None
    then show ?thesis using Suc.prems(2) by simp
  next
    case (Some raw)
    show ?thesis
      using Suc.prems(2) Some IH assms(5) nx(2) ParseTagWords_data [of raw]
        header_event_ok [OF assms(1,2), of e "ParseTagWords raw" p]
        data_event_ok [of "ParseTagWords raw" p]
      by (auto simp: Let_def split: if_splits)
  qed
qed simp

lemma entry_events_ok:
  assumes "flash_content nd dev_ok tg pg" and "dev_ok s" and "unat p + length es < 2 ^ 32"
    and "seq_in_range sq" and "e \<in> set (entry_events pg sq es p)" and "id_safe (t_ObjId (ev_tags e))"
  shows "event_ok e"
  using assms(3,5)
proof (induction es arbitrary: p)
  case (Cons x es)
  have nx: "unat (p + 1) = Suc (unat p)" "p \<noteq> 0xFFFFFFFF"
    using Cons.prems(1) unat_add_no_wrap [of p 1] by auto
  have "e \<in> set (entry_events pg sq es (p + 1)) \<Longrightarrow> event_ok e"
    using Cons.IH [of "p + 1"] Cons.prems(1) nx(1) by simp
  then show ?case
    using Cons.prems(2) assms(4,6) nx(2) entry_tags_data [of sq x]
      header_event_ok [OF assms(1,2), of e "entry_tags sq x" p]
      data_event_ok [of "entry_tags sq x" p]
    by (auto simp: Let_def split: if_splits)
qed simp

lemma summary_of_ok:
  assumes "flash_content nd dev_ok tg pg" and "dev_ok s"
    and "summary_of (nf_PagesPerBlock nd) tg pg p = Some (sq, es)"
  shows "seq_in_range sq \<and> length es < unat (nf_PagesPerBlock nd)"
proof -
  obtain d where d: "pg p = Some d" "read_summary (nf_PagesPerBlock nd) d = Some (Some (sq, es))"
    using assms(3) by (auto simp: summary_of_def split: option.splits if_splits)
  have "2048 \<le> length d"
    using content_page [OF assms(1,2), of p] read_page [OF assms(2), of p] page_size d(1)
    by (auto simp: read_gives_def)
  then show ?thesis using read_summary_Some [OF _ pages_per_block, of d] d(2) by auto
qed

lemma flash_events_ok:
  assumes "flash_content nd dev_ok tg pg" and "dev_ok s"
    and "\<forall>e \<in> set (flash_events nd tg pg). id_safe (t_ObjId (ev_tags e))"
  shows "\<forall>e \<in> set (flash_events nd tg pg). event_ok e"
proof
  fix e assume e: "e \<in> set (flash_events nd tg pg)"
  then obtain i where i: "i < unat (nf_NumBlocks nd)" "e \<in> set (block_events (nf_PagesPerBlock nd) tg pg i)"
    by (auto simp: flash_events_def)
  have safe: "id_safe (t_ObjId (ev_tags e))" using assms(3) e by blast
  define base where "base = of_nat i * nf_PagesPerBlock nd"
  have fits: "unat base + unat (nf_PagesPerBlock nd) < 2 ^ 32"
    using block_base [OF i(1)] by (simp add: base_def)
  show "event_ok e"
  proof (cases "summary_of (nf_PagesPerBlock nd) tg pg (base + (nf_PagesPerBlock nd - 1))")
    case None
    then show ?thesis using i(2) page_events_ok [OF assms(1,2) fits _ safe]
      by (auto simp: block_events_def base_def [symmetric] Let_def split: option.splits if_splits)
  next
    case (Some x)
    then obtain sq es where x: "x = (sq, es)" by (cases x)
    then have s: "seq_in_range sq" "unat base + length es < 2 ^ 32"
      using summary_of_ok [OF assms(1,2)] Some fits by fastforce+
    show ?thesis using i(2) Some x entry_events_ok [OF assms(1,2) s(2,1) _ safe]
      by (auto simp: block_events_def base_def [symmetric] Let_def split: option.splits if_splits)
  qed
qed

end

subsection \<open>The summary is a copy of the tags\<close>

text \<open>Entry \<open>e\<close> of a summary describes a page: its tags, with the sequence number of the block.\<close>

definition describes :: "pages \<Rightarrow> u32 \<Rightarrow> u32 \<Rightarrow> u32 \<times> u32 \<times> u32 \<Rightarrow> bool" where
  "describes tg sq p e = (case e of (obj, chunk, n) \<Rightarrow>
     page_tags tg p = Some (sq, obj, chunk, n) \<and> \<not> AreTagsErased (sq, obj, chunk, n))"

lemma entry_tags_parse: "entry_tags sq (obj, chunk, n) = ParseTagWords (sq, obj, chunk, n)"
  by (simp add: entry_tags_def)

lemma entry_page_events:
  assumes "seq_in_range sq"
    and "\<forall>i < length es. describes tg sq (p + of_nat i) (es ! i)"
  shows "page_events tg pg (length es + m) p = entry_events pg sq es p @ page_events tg pg m (p + of_nat (length es))"
  using assms(2)
proof (induction es arbitrary: p)
  case (Cons e es)
  obtain obj chunk n where e: "e = (obj, chunk, n)" by (cases e)
  have "describes tg sq (p + 1 + of_nat i) (es ! i)" if "i < length es" for i
    using Cons.prems that by (auto simp: add.assoc dest: spec [of _ "Suc i"])
  then have IH: "page_events tg pg (length es + m) (p + 1) =
      entry_events pg sq es (p + 1) @ page_events tg pg m (p + 1 + of_nat (length es))"
    using Cons.IH [of "p + 1"] by blast
  have d: "page_tags tg p = Some (sq, obj, chunk, n)" "\<not> AreTagsErased (sq, obj, chunk, n)"
    using Cons.prems e by (auto simp: describes_def dest: spec [of _ 0] simp del: AreTagsErased.simps)
  have sq: "t_SeqNumber (ParseTagWords (sq, obj, chunk, n)) = sq" by simp
  show ?case using d IH assms(1) sq
    by (simp add: e entry_tags_parse Let_def add.assoc del: ParseTagWords.simps AreTagsErased.simps)
qed simp

lemma read_summary_seq: "read_summary ppb d = Some (Some (sq, es)) \<Longrightarrow> seq_in_range sq"
  by (auto simp: read_summary_def Let_def bind_eq_Some_conv split: if_splits)

text \<open>
  A block whose summary describes every page that is written, up to the first erased one or to the
  summary itself, yields the same events from the summary as from its pages.
\<close>

lemma summary_same_events:
  assumes "summary_of ppb tg pg (base + (ppb - 1)) = Some (sq, es)"
    and "\<forall>i < length es. describes tg sq (base + of_nat i) (es ! i)" and "length es < unat ppb"
    and "length es = unat ppb - 1 \<or> \<not> tags_written tg (base + of_nat (length es))"
  shows "entry_events pg sq es base = page_events tg pg (unat ppb) base"
proof -
  have sq: "seq_in_range sq"
    using assms(1) read_summary_seq by (auto simp: summary_of_def split: option.splits if_splits)
  obtain m where m: "unat ppb = length es + Suc m" using assms(3) less_imp_Suc_add by auto
  have split_run: "page_events tg pg (unat ppb) base =
      entry_events pg sq es base @ page_events tg pg (Suc m) (base + of_nat (length es))"
    unfolding m by (rule entry_page_events [OF sq assms(2)])
  have "page_events tg pg (Suc m) (base + of_nat (length es)) = []"
  proof (cases "tags_written tg (base + of_nat (length es))")
    case False
    then show ?thesis by (auto simp: tags_written_def split: option.splits)
  next
    case True
    then have l: "length es = unat ppb - 1" "m = 0" using assms(4) m by auto
    have "ppb \<noteq> 0" using assms(3) by auto
    then have "of_nat (unat ppb - 1) = (of_nat (unat (ppb - 1)) :: u32)"
      by (metis unat_dec)
    then have last: "(of_nat (length es) :: u32) = ppb - 1"
      unfolding l(1) by simp
    obtain w0 w2 w3 where "page_tags tg (base + (ppb - 1)) = Some (w0, YAFFS2_SUMMARY_OBJ_ID, 1, w3)"
      using assms(1) by (auto simp: summary_of_def split: option.splits if_splits)
    then show ?thesis unfolding l(2) last by (simp add: pseudo_object_def Let_def)
  qed
  then show ?thesis using split_run by simp
qed

end
