(* ===== verification/NandChip.thy ===== *)
theory NandChip
  imports AlNand Yaffs2Content
begin

text \<open>
  The driver against a flash chip. The chip is a model of the documented commands of a NAND device
  with two column and two row address cycles, behind the command and data registers of the
  controller: \<open>00 .. 30\<close> loads a page and sets the column, \<open>05 .. E0\<close> moves the column within the
  loaded page, and the data register streams the page from there. The theorem is that the flash
  protocol of \<open>AlNandDxe.c\<close> then serves the contents of the chip, with the pages of the blocks
  marked bad read as erased.
\<close>

type_synonym flash_mem = "nat \<Rightarrow> nat \<Rightarrow> u8"  \<comment> \<open>page, column\<close>

record nand_chip =
  ch_addr :: "u8 list"
  ch_page :: nat
  ch_col :: nat

fun addr_value :: "u8 list \<Rightarrow> nat" where
  "addr_value [] = 0"
| "addr_value (b # bs) = unat b + 256 * addr_value bs"

text \<open>One entry of the command buffer: the code in bits 8 and up, its argument below.\<close>

definition chip_command :: "u32 \<Rightarrow> nand_chip \<Rightarrow> nand_chip" where
  "chip_command w ch =
     (let code = drop_bit 8 w; arg = ucast w :: u8 in
      if code = 2 then
        (if arg = 0x00 \<or> arg = 0x05 then ch\<lparr>ch_addr := []\<rparr>
         else if arg = 0x30
         then ch\<lparr>ch_col := addr_value (take 2 (ch_addr ch)), ch_page := addr_value (drop 2 (ch_addr ch))\<rparr>
         else if arg = 0xE0 then ch\<lparr>ch_col := addr_value (ch_addr ch)\<rparr>
         else ch)
      else if code = 3 then ch\<lparr>ch_addr := ch_addr ch @ [arg]\<rparr>
      else ch)"

definition chip_word :: "flash_mem \<Rightarrow> nand_chip \<Rightarrow> u32" where
  "chip_word mem ch = le32 (map (mem (ch_page ch)) [ch_col ch..<ch_col ch + 4]) 0"

definition chip_bus :: "flash_mem \<Rightarrow> nand_chip nand_bus" where
  "chip_bus mem = \<lparr>
     al_reg_read32 = (\<lambda>r ch. if r = DATA_BUFF then (ch\<lparr>ch_col := ch_col ch + 4\<rparr>, chip_word mem ch) else (ch, 0)),
     al_reg_write32 = (\<lambda>r w ch. if r = CMD_BUFF then chip_command w ch else ch)\<rparr>"

subsection \<open>Commands\<close>

lemma bytes32_le32: "length b = 4 \<Longrightarrow> bytes32 (le32 b 0) = b"
proof -
  assume "length b = 4"
  then obtain b0 b1 b2 b3 where b: "b = [b0, b1, b2, b3]" by (auto simp: length_Suc_conv numeral_eq_Suc)
  show ?thesis unfolding b bytes32_def le32_def
    by (auto simp: bit_eq_iff bit_simps dest: bit_imp_le_length)
qed

lemma entry_code: "a < 256 \<Longrightarrow> drop_bit 8 (CMD_SEQ_ENTRY t a) = command_code t"
proof -
  assume "a < 256"
  then have "drop_bit 8 a = 0"
    by (simp add: drop_bit_eq_div word_unat_eq_iff unat_div word_less_nat_alt)
  moreover have "drop_bit 8 (push_bit 8 (command_code t)) = command_code t"
    by (cases t) simp_all
  ultimately show ?thesis by (simp add: CMD_SEQ_ENTRY_def drop_bit_or)
qed

lemma entry_arg: "ucast (CMD_SEQ_ENTRY t a) = (ucast a :: u8)"
proof (rule bit_word_eqI)
  fix n assume "n < LENGTH(8)"
  then show "bit (ucast (CMD_SEQ_ENTRY t a) :: u8) n = bit (ucast a :: u8) n"
    by (auto simp: CMD_SEQ_ENTRY_def bit_simps)
qed

abbreviation commands :: "u32 list \<Rightarrow> nand_chip \<Rightarrow> nand_chip" where
  "commands cmds ch \<equiv> foldl (\<lambda>ch w. chip_command w ch) ch cmds"

lemma chip_address: "a < 256 \<Longrightarrow>
  chip_command (CMD_SEQ_ENTRY CMD_ADDRESS a) ch = ch\<lparr>ch_addr := ch_addr ch @ [ucast a]\<rparr>"
  by (simp add: chip_command_def entry_code entry_arg)

lemma chip_ignored: "a < 256 \<Longrightarrow> command_code t \<noteq> 2 \<Longrightarrow> command_code t \<noteq> 3 \<Longrightarrow>
  chip_command (CMD_SEQ_ENTRY t a) ch = ch"
  by (simp add: chip_command_def entry_code)

lemma byte_small: "(of_nat (a mod 256) :: u32) < 256"
  by (simp add: word_less_nat_alt unat_of_nat_small)

lemma ucast_of_nat_byte: "ucast (of_nat n :: u32) = (of_nat n :: u8)"
  by (simp add: word_unat_eq_iff unsigned_ucast_eq unsigned_of_nat)

lemma command_cyc_2: "command_cyc t a 2 =
  [CMD_SEQ_ENTRY t (of_nat (a mod 256)), CMD_SEQ_ENTRY t (of_nat (a div 256 mod 256))]"
  by (simp add: numeral_2_eq_2)

lemma commands_address2: "commands (command_cyc CMD_ADDRESS a 2) ch =
  ch\<lparr>ch_addr := ch_addr ch @ [of_nat (a mod 256), of_nat (a div 256 mod 256)]\<rparr>"
  by (simp add: command_cyc_2 chip_address byte_small ucast_of_nat_byte)

lemma commands_read_counts: "commands (read_counts w k) ch = ch"
proof (induction k)
  case (Suc k)
  have "commands (command_cyc CMD_DATA_READ_COUNT w 2) ch = ch"
    by (simp add: command_cyc_2 chip_ignored byte_small)
  then show ?case using Suc by (simp add: read_counts_def)
qed (simp add: read_counts_def)

lemma unat_byte: "unat (of_nat (a mod 256) :: u8) = a mod 256"
  by (simp add: unat_of_nat_small)

lemma commands_page_read:
  assumes "benand_obj obj" and "column < 65536" and "row < 65536"
  shows "ch_page (commands (page_read_seq obj column row False w n) ch) = row \<and>
    ch_col (commands (page_read_seq obj column row False w n) ch) = column"
proof -
  let ?addr = "\<lambda>a. [of_nat (a mod 256), of_nat (a div 256 mod 256)] :: u8 list"
  have c0: "chip_command (CMD_SEQ_ENTRY CMD_CMD 0x00) ch = ch\<lparr>ch_addr := []\<rparr>"
    by (simp add: chip_command_def entry_code entry_arg)
  have c30: "chip_command (CMD_SEQ_ENTRY CMD_CMD 0x30) c = c\<lparr>ch_col := addr_value (take 2 (ch_addr c)),
      ch_page := addr_value (drop 2 (ch_addr c))\<rparr>" for c
    by (simp add: chip_command_def entry_code entry_arg)
  have wt: "chip_command (CMD_SEQ_ENTRY CMD_WAIT_FOR_READY 0) c = c" for c
    by (simp add: chip_ignored)
  have v: "addr_value (?addr a) = a" if "a < 65536" for a
    using that unat_of_nat_small [of "a div 256", where 'a = 8] by (simp add: unat_byte)
  have "commands (page_read_seq obj column row False w n) ch =
      ch\<lparr>ch_addr := ?addr column @ ?addr row, ch_col := addr_value (?addr column),
         ch_page := addr_value (?addr row)\<rparr>"
    using assms(1)
    by (simp add: page_read_seq_def benand_obj_def Let_def c0 c30 wt commands_address2 commands_read_counts
        del: addr_value.simps)
  then show ?thesis using v assms(2,3) by (simp del: addr_value.simps)
qed

lemma commands_change_column:
  "ch_page (commands (change_column_seq AL_NAND_CW_SIZE 4) ch) = ch_page ch \<and>
   ch_col (commands (change_column_seq AL_NAND_CW_SIZE 4) ch) = 0"
proof -
  have c5: "chip_command (CMD_SEQ_ENTRY CMD_CMD 0x05) ch = ch\<lparr>ch_addr := []\<rparr>"
    by (simp add: chip_command_def entry_code entry_arg)
  have ce: "chip_command (CMD_SEQ_ENTRY CMD_CMD 0xE0) c = c\<lparr>ch_col := addr_value (ch_addr c)\<rparr>" for c
    by (simp add: chip_command_def entry_code entry_arg)
  have c3: "chip_command (CMD_SEQ_ENTRY CMD_ADDRESS 0) c = c\<lparr>ch_addr := ch_addr c @ [0]\<rparr>" for c
    by (simp add: chip_address)
  have rd: "chip_command (CMD_SEQ_ENTRY CMD_DATA_READ_COUNT (512 AND 0xFF)) c = c"
      "chip_command (CMD_SEQ_ENTRY CMD_DATA_READ_COUNT (drop_bit 8 512 AND 0xFF)) c = c" for c
    by (rule chip_ignored, simp_all)+
  have "replicate 4 (x :: u32 list) = [x, x, x, x]" for x by (simp add: numeral_eq_Suc)
  then have seq: "change_column_seq AL_NAND_CW_SIZE 4 =
      [CMD_SEQ_ENTRY CMD_CMD 0x05, CMD_SEQ_ENTRY CMD_ADDRESS 0, CMD_SEQ_ENTRY CMD_ADDRESS 0,
       CMD_SEQ_ENTRY CMD_CMD 0xE0] @ concat [r, r, r, r]"
    if "r = [CMD_SEQ_ENTRY CMD_DATA_READ_COUNT (512 AND 0xFF),
        CMD_SEQ_ENTRY CMD_DATA_READ_COUNT (drop_bit 8 512 AND 0xFF)]" for r
    unfolding change_column_seq_def AL_NAND_CW_SIZE_def that by (simp only:)
  show ?thesis unfolding seq [OF refl]
    by (simp only: concat.simps append.simps foldl.simps c5 c3 ce rd) simp
qed

subsection \<open>The data register\<close>

lemma chip_fifo:
  "fifo_bytes (chip_bus mem) k ch =
     (ch\<lparr>ch_col := ch_col ch + 4 * k\<rparr>, map (mem (ch_page ch)) [ch_col ch..<ch_col ch + 4 * k])"
proof (induction k arbitrary: ch)
  case (Suc k)
  have "bytes32 (chip_word mem ch) = map (mem (ch_page ch)) [ch_col ch..<ch_col ch + 4]"
    by (simp add: chip_word_def bytes32_le32)
  moreover have "[ch_col ch..<ch_col ch + 4 * Suc k] =
      [ch_col ch..<ch_col ch + 4] @ [ch_col ch + 4..<ch_col ch + 4 * Suc k]"
    using upt_add_eq_append [of "ch_col ch" "ch_col ch + 4" "4 * k"] by (simp add: algebra_simps)
  ultimately show ?case
    using Suc [of "ch\<lparr>ch_col := ch_col ch + 4\<rparr>"] by (simp add: chip_bus_def add.assoc)
qed simp

lemma chip_sent: "sent (chip_bus mem) cmds sz cnt (obj, ch) = commands cmds ch"
  by (simp add: sent_def al_nand_cw_config_def chip_bus_def Let_def)

subsection \<open>The contents the protocol serves\<close>

definition block_bad :: "bytes \<Rightarrow> u32 \<Rightarrow> bool" where
  "block_bad bb p = bit (bb ! (unat p div 64 div 8)) (unat p div 64 mod 8)"

definition chip_pages :: "bytes \<Rightarrow> flash_mem \<Rightarrow> pages" where
  "chip_pages bb mem p = (if unat p \<ge> 65536 then None
     else if block_bad bb p then Some (replicate 2048 0xFF)
     else Some (map (mem (unat p)) [0..<2048]))"

definition chip_tags :: "bytes \<Rightarrow> flash_mem \<Rightarrow> pages" where
  "chip_tags bb mem p = (if unat p \<ge> 65536 then None
     else if block_bad bb p then Some (replicate 16 0xFF)
     else Some (map (mem (unat p)) [2032..<2048]))"

definition chip_ok :: "bytes \<Rightarrow> nand_chip al_nand_context \<Rightarrow> bool" where
  "chip_ok bb Ctx = (ctx_ok Ctx \<and> BadBlockMap Ctx = bb)"

lemma chip_read:
  assumes "ctx_ok Ctx" and "0 < n" and "n mod 4 = 0" and "n < 512 \<or> n mod 512 = 0" and "n \<le> 4096"
    and "column < 65536" and "unat p < 65536"
  shows "\<exists>obj' ch. benand_obj obj' \<and> ch_page ch = unat p \<and>
    nand_read (chip_bus mem) column p n 0 Ctx = Some (with_hal Ctx (obj', ch), EFI_SUCCESS,
      map (mem (unat p)) [column..<column + n])"
proof -
  define h1 where "h1 = read_sent (chip_bus mem) column p n Ctx"
  obtain obj' where r: "benand_obj obj'" "nand_read (chip_bus mem) column p n 0 Ctx =
    Some (with_hal Ctx (obj', fst (fifo_bytes (chip_bus mem) ((n + 3) div 4) h1)), EFI_SUCCESS,
      take (n - 0) (snd (fifo_bytes (chip_bus mem) ((n + 3) div 4) h1)))"
    using nand_read_run [OF assms(1-5) h1_def] by blast
  have "benand_obj (NandObj Ctx)" using assms(1) by (simp add: ctx_ok_def)
  then have h: "ch_page h1 = unat p" "ch_col h1 = column"
    using commands_page_read [OF _ assms(6,7)] by (simp_all add: h1_def read_sent_def chip_sent Let_def)
  have n: "4 * ((n + 3) div 4) = n" using assms(3) by presburger
  have "nand_read (chip_bus mem) column p n 0 Ctx = Some (with_hal Ctx (obj', h1\<lparr>ch_col := column + n\<rparr>),
      EFI_SUCCESS, map (mem (unat p)) [column..<column + n])"
    using r(2) h by (simp add: chip_fifo n)
  moreover have "ch_page (h1\<lparr>ch_col := column + n\<rparr>) = unat p" using h(1) by simp
  ultimately show ?thesis using r(1) by blast
qed

lemma page_block:
  assumes "chip_ok bb Ctx" and "unat p < 65536"
  shows "AlNandIsBlockBad Ctx (p div PagesPerBlock Ctx) = Some (block_bad bb p)"
proof -
  have ppb: "PagesPerBlock Ctx = 64" "BadBlockMap Ctx = bb" "ctx_ok Ctx"
    using assms(1) by (auto simp: chip_ok_def ctx_ok_def BENAND_PAGES_PER_BLOCK_def)
  have "unat (p div 64) = unat p div 64" by (simp add: unat_div)
  then show ?thesis using IsBlockBad_bit [OF ppb(3), of "p div 64"] assms(2) ppb
    by (simp add: map_bit_def block_bad_def)
qed

lemma chip_ReadPage:
  assumes "chip_ok bb Ctx"
  shows "read_gives (chip_ok bb) (nf_ReadPage (nand_flash_protocol (chip_bus mem)) Ctx p) (chip_pages bb mem p)"
proof -
  have ok: "ctx_ok Ctx" "NumPages Ctx = 65536" "PageSize Ctx = 2048" "BadBlockMap Ctx = bb"
    using assms by (auto simp: chip_ok_def ctx_ok_def benand_consts)
  show ?thesis
  proof (cases "unat p < 65536")
    case False
    then have "p \<ge> NumPages Ctx" using ok by (simp add: word_le_nat_alt)
    then show ?thesis using False assms
      by (simp add: read_gives_def nand_flash_protocol_def AlNandFlashReadPage_def chip_pages_def)
  next
    case True
    then have lt: "\<not> p \<ge> NumPages Ctx" using ok by (simp add: word_le_nat_alt)
    obtain obj' ch where "benand_obj obj'" "nand_read (chip_bus mem) 0 p 2048 0 Ctx =
        Some (with_hal Ctx (obj', ch), EFI_SUCCESS, map (mem (unat p)) [0..<2048])"
      using chip_read [OF ok(1), of 2048 0 p mem] True by auto
    then show ?thesis using True lt ok assms page_block [OF assms True] ctx_ok_with_hal [OF ok(1)]
      by (auto simp: read_gives_def nand_flash_protocol_def AlNandFlashReadPage_def AlNandReadPage_def
          chip_pages_def chip_ok_def with_hal_def)
  qed
qed

lemma chip_ReadPageBody:
  assumes "chip_ok bb Ctx" and "ch_page (Hw Ctx) = unat p" and "unat p < 65536" and "\<not> block_bad bb p"
  shows "read_gives (chip_ok bb) (nf_ReadPageBody (nand_flash_protocol (chip_bus mem)) Ctx) (chip_pages bb mem p)"
proof -
  have ok: "ctx_ok Ctx" "BadBlockMap Ctx = bb" using assms(1) by (simp_all add: chip_ok_def)
  define h1 where "h1 = body_sent (chip_bus mem) Ctx"
  obtain obj' where r: "benand_obj obj'" "AlNandFlashReadPageBody (chip_bus mem) Ctx =
      Some (with_hal Ctx (obj', fst (fifo_bytes (chip_bus mem) 512 h1)), EFI_SUCCESS,
        take 2048 (snd (fifo_bytes (chip_bus mem) 512 h1)))"
    using FlashReadPageBody_run [OF ok(1) h1_def] by blast
  have "ch_page h1 = unat p" "ch_col h1 = 0"
    using commands_change_column assms(2) by (simp_all add: h1_def body_sent_def chip_sent)
  then show ?thesis using r assms(3,4) ok ctx_ok_with_hal [OF ok(1) r(1)]
    by (simp add: chip_fifo read_gives_def nand_flash_protocol_def chip_pages_def chip_ok_def with_hal_def)
qed

lemma chip_ReadTags:
  assumes "chip_ok bb Ctx"
  shows "read_gives (\<lambda>s'. chip_ok bb s' \<and> (tags_written (chip_tags bb mem) p \<longrightarrow>
      read_gives (chip_ok bb) (nf_ReadPageBody (nand_flash_protocol (chip_bus mem)) s') (chip_pages bb mem p)))
    (nf_ReadTags (nand_flash_protocol (chip_bus mem)) Ctx p) (chip_tags bb mem p)"
proof -
  have ok: "ctx_ok Ctx" "NumPages Ctx = 65536" "PageSize Ctx = 2048" "BadBlockMap Ctx = bb"
    using assms by (auto simp: chip_ok_def ctx_ok_def benand_consts)
  consider "\<not> unat p < 65536" | "unat p < 65536" "block_bad bb p" | "unat p < 65536" "\<not> block_bad bb p"
    by blast
  then show ?thesis
  proof cases
    case 1
    then have "p \<ge> NumPages Ctx" using ok by (simp add: word_le_nat_alt)
    then show ?thesis using 1 assms
      by (simp add: read_gives_def nand_flash_protocol_def AlNandFlashReadTags_def chip_tags_def
          tags_written_def page_tags_def)
  next
    case 2
    then have lt: "\<not> p \<ge> NumPages Ctx" using ok by (simp add: word_le_nat_alt)
    have "\<not> tags_written (chip_tags bb mem) p"
      using 2 by (simp add: tags_written_def page_tags_def chip_tags_def raw_tags_def le32_def)
    then show ?thesis using 2 lt page_block [OF assms 2(1)] assms
      by (simp add: read_gives_def nand_flash_protocol_def AlNandFlashReadTags_def chip_tags_def)
  next
    case 3
    then have lt: "\<not> p \<ge> NumPages Ctx" using ok by (simp add: word_le_nat_alt)
    obtain obj' ch where r: "benand_obj obj'" "ch_page ch = unat p"
        "nand_read (chip_bus mem) 2032 p 16 0 Ctx =
        Some (with_hal Ctx (obj', ch), EFI_SUCCESS, map (mem (unat p)) [2032..<2048])"
      using chip_read [OF ok(1), of 16 2032 p mem] 3 by auto
    have c: "chip_ok bb (with_hal Ctx (obj', ch))"
      using ctx_ok_with_hal [OF ok(1) r(1)] ok(4) by (simp add: chip_ok_def with_hal_def)
    have "ch_page (Hw (with_hal Ctx (obj', ch))) = unat p" using r(2) by (simp add: with_hal_def)
    then have "read_gives (chip_ok bb) (nf_ReadPageBody (nand_flash_protocol (chip_bus mem))
        (with_hal Ctx (obj', ch))) (chip_pages bb mem p)"
      using chip_ReadPageBody [OF c _ 3] by blast
    then show ?thesis using 3 lt ok r(3) page_block [OF assms 3(1)] c
      by (simp add: read_gives_def nand_flash_protocol_def AlNandFlashReadTags_def chip_tags_def)
  qed
qed

lemma chip_content:
  "flash_content (nand_flash_protocol (chip_bus mem)) (chip_ok bb) (chip_tags bb mem) (chip_pages bb mem)"
  by (simp add: flash_content_def chip_ReadPage chip_ReadTags)


interpretation chip: nand_flash "nand_flash_protocol (chip_bus mem)" "chip_ok bb"
proof unfold_locales
  fix s p
  assume ok: "chip_ok bb s"
  then have c: "ctx_ok s" "BadBlockMap s = bb" by (simp_all add: chip_ok_def)
  let ?nd = "nand_flash_protocol (chip_bus mem)"
  show "\<exists>s' st b. nf_ReadPage ?nd s p = Some (s', st, b) \<and> chip_ok bb s' \<and>
      (EFI_ERROR st \<or> length b = unat (nf_PageSize ?nd))"
    using FlashReadPage_ok [OF c(1), of "chip_bus mem" p] c(2)
    by (auto simp: nand_flash_protocol_def BENAND_PAGE_SIZE_def chip_ok_def same_map_def)
  show "\<exists>s' st b. nf_ReadTags ?nd s p = Some (s', st, b) \<and> chip_ok bb s' \<and> (EFI_ERROR st \<or> length b = 16)"
    using FlashReadTags_ok [OF c(1), of "chip_bus mem" p] c(2)
    by (auto simp: nand_flash_protocol_def chip_ok_def same_map_def)
  show "\<exists>s' st b. nf_ReadPageBody ?nd s = Some (s', st, b) \<and> chip_ok bb s' \<and>
      (EFI_ERROR st \<or> length b = unat (nf_PageSize ?nd))"
    using FlashReadPageBody_ok [OF c(1), of "chip_bus mem"] c(2)
    by (auto simp: nand_flash_protocol_def BENAND_PAGE_SIZE_def chip_ok_def same_map_def)
qed (simp_all add: nand_flash_protocol_def benand_consts)

end
