(* ===== verification/Yaffs2Open.thy ===== *)
theory Yaffs2Open
  imports Yaffs2Tree
begin

text \<open>
  Open file handles of the YAFFS2 driver: \<open>Open.c\<close> (open with path resolution, close, delete)
  and \<open>OpenVolume\<close> of \<open>Volume.c\<close>. A handle is a record; a pointer to an object is its
  index, a pointer into a list of children a cursor. A null pointer argument is
  \<^const>\<open>None\<close>. The outer option of each operation is a memory fault.
\<close>

subsection \<open>Handles\<close>

text \<open>
  \<open>LIST_ENTRY *DirCursor\<close>: null, the \<open>ChildHead\<close> of an object, or the \<open>SiblingLink\<close> of one.
\<close>

datatype dir_cursor = CurNull | CurHead nat | CurEntry nat

record yaffs2_ifile =
  if_Position :: u64
  if_OFile :: nat
  if_DirCursor :: dir_cursor

definition EFI_FILE_MODE_READ :: u64 where "EFI_FILE_MODE_READ = 1"
definition EFI_FILE_MODE_WRITE :: u64 where "EFI_FILE_MODE_WRITE = 2"
definition EFI_FILE_MODE_CREATE :: u64 where "EFI_FILE_MODE_CREATE = 0x8000000000000000"

text \<open>\<open>ChildHead.ForwardLink\<close> of object \<open>i\<close>.\<close>

definition first_entry :: "nat \<Rightarrow> yaffs2_object \<Rightarrow> dir_cursor" where
  "first_entry i ob = (case o_Children ob of [] \<Rightarrow> CurHead i | c # _ \<Rightarrow> CurEntry c)"

text \<open>The initialisation of a handle that \<open>AllocateZeroPool\<close> could provide.\<close>

definition Yaffs2AllocateIFile ::
    "bool \<Rightarrow> yaffs2_volume \<Rightarrow> nat \<Rightarrow> yaffs2_ifile option option" where
  "Yaffs2AllocateIFile alloc v OFile =
     (if \<not> alloc then Some None
      else do {
        ob \<leftarrow> obj_of v OFile;
        Some (Some \<lparr>if_Position = 0, if_OFile = OFile,
          if_DirCursor = (if o_Type ob = YAFFS2_TYPE_DIR then first_entry OFile ob else CurNull)\<rparr>)
      })"

definition Yaffs2OpenVolume ::
    "bool \<Rightarrow> yaffs2_volume \<Rightarrow> (efi_status \<times> yaffs2_ifile option) option" where
  "Yaffs2OpenVolume alloc v = (case v_Root v of
     None \<Rightarrow> Some (EFI_VOLUME_CORRUPTED, None)
   | Some r \<Rightarrow> do {
       h \<leftarrow> Yaffs2AllocateIFile alloc v r;
       Some (if h = None then EFI_OUT_OF_RESOURCES else EFI_SUCCESS, h)
     })"

subsection \<open>Path resolution\<close>

text \<open>\<open>Depth\<close> iterations of the loop are left.\<close>

fun ResolveHardlinks :: "yaffs2_volume \<Rightarrow> nat \<Rightarrow> nat \<Rightarrow> nat option option" where
  "ResolveHardlinks v 0 i = Some None"
| "ResolveHardlinks v (Suc Depth) i = do {
     ob \<leftarrow> obj_of v i;
     if o_Type ob \<noteq> YAFFS2_TYPE_HARDLINK then Some (Some i)
     else if o_EquivId ob = 0 \<or> o_EquivId ob > v_MaxObjId v then Some None
     else do {
       slot \<leftarrow> obj_at v (unat (o_EquivId ob));
       if slot = None then Some None else ResolveHardlinks v Depth (unat (o_EquivId ob))
     }
   }"

text \<open>\<open>StrLen\<close> of a \<open>CHAR16\<close> string; reading on past the buffer is a fault.\<close>

definition StrLen :: "u16 list \<Rightarrow> nat option" where
  "StrLen s = (if 0 \<in> set s then Some (length (takeWhile (\<lambda>c. c \<noteq> 0) s)) else None)"

text \<open>What the conversion loop stores into \<open>Path8\<close>.\<close>

definition path8 :: "u16 list \<Rightarrow> bytes option" where
  "path8 FileName = do {
     n \<leftarrow> StrLen FileName;
     let Len = (if n \<ge> 512 then 511 else n);
     Some (map ucast (take (Suc Len) FileName))
   }"

fun find_child :: "yaffs2_volume \<Rightarrow> nat list \<Rightarrow> bytes \<Rightarrow> nat option option" where
  "find_child v [] cname = Some None"
| "find_child v (c # cs) cname = do {
     Child \<leftarrow> obj_of v c;
     if ascii_strn_eq (o_Name Child) cname (length cname)
     then do {
       ch \<leftarrow> rd8 (o_Name Child) (length cname);
       if ch = 0 then Some (Some c) else find_child v cs cname
     }
     else find_child v cs cname
   }"

text \<open>One path component: \<open>Some None\<close> is the early return of \<open>EFI_NOT_FOUND\<close>.\<close>

definition walk_component :: "yaffs2_volume \<Rightarrow> nat \<Rightarrow> bytes \<Rightarrow> nat option option" where
  "walk_component v Current cname = do {
     ob \<leftarrow> obj_of v Current;
     if cname = [0x2E] then Some (Some Current)
     else if cname = [0x2E, 0x2E]
     then Some (Some (case o_Parent ob of None \<Rightarrow> Current | Some p \<Rightarrow> p))
     else if o_Type ob \<noteq> YAFFS2_TYPE_DIR then Some None
     else do {
       found \<leftarrow> find_child v (o_Children ob) cname;
       case found of None \<Rightarrow> Some None | Some c \<Rightarrow> ResolveHardlinks v 16 c
     }
   }"

definition is_delim :: "u8 \<Rightarrow> bool" where
  "is_delim c = (c = 0 \<or> c = 0x5C)"

text \<open>The loop over the components; the argument is what \<open>p\<close> points to.\<close>

function walk_path :: "yaffs2_volume \<Rightarrow> nat \<Rightarrow> bytes \<Rightarrow> nat option option" where
  "walk_path v Current [] = None"
| "walk_path v Current (c # p) =
     (if c = 0 then Some (Some Current)
      else let cname = takeWhile (\<lambda>c. \<not> is_delim c) (c # p);
               End = dropWhile (\<lambda>c. \<not> is_delim c) (c # p)
           in (case End of
             [] \<Rightarrow> None
           | e # rest \<Rightarrow>
               if cname = [] then walk_path v Current rest
               else do {
                 next_ob \<leftarrow> walk_component v Current cname;
                 case next_ob of
                   None \<Rightarrow> Some None
                 | Some Current' \<Rightarrow> walk_path v Current' (if e = 0x5C then rest else End)
               }))"
  by pat_completeness auto

lemma dropWhile_shorter: "length (dropWhile P xs) \<le> length xs"
  by (induction xs) auto

termination walk_path
proof (relation "measure (\<lambda>(v, c, p). length p)")
  fix v :: yaffs2_volume and Current c p x xa e rest
  assume x: "x = takeWhile (\<lambda>c. \<not> is_delim c) (c # p)" "xa = dropWhile (\<lambda>c. \<not> is_delim c) (c # p)"
    "xa = e # rest"
  have "length xa + length x = length (c # p)"
    using x(1,2) by (metis add.commute length_append takeWhile_dropWhile_id)
  then show "((v, Current, rest), (v, Current, c # p)) \<in> measure (\<lambda>(v, c, p). length p)"
    using x(3) by simp
  assume "x \<noteq> []"
  then show "((v, n, if e = 92 then rest else xa), (v, Current, c # p)) \<in> measure (\<lambda>(v, c, p). length p)" for n
    using \<open>length xa + length x = length (c # p)\<close> x(3) by (cases x) auto
qed simp

definition Yaffs2Open ::
    "bool \<Rightarrow> yaffs2_volume \<Rightarrow> yaffs2_ifile option \<Rightarrow> bool \<Rightarrow> u16 list option \<Rightarrow> u64 \<Rightarrow>
     (efi_status \<times> yaffs2_ifile option) option" where
  "Yaffs2Open alloc v This NewHandle FileName OpenMode =
     (case (This, NewHandle, FileName) of
       (Some IFile, True, Some name) \<Rightarrow>
         if OpenMode AND EFI_FILE_MODE_WRITE \<noteq> 0 then Some (EFI_WRITE_PROTECTED, None)
         else if OpenMode AND EFI_FILE_MODE_CREATE \<noteq> 0 then Some (EFI_WRITE_PROTECTED, None)
         else do {
           ob \<leftarrow> obj_of v (if_OFile IFile);
           let Start = (if o_Type ob \<noteq> YAFFS2_TYPE_DIR
             then (case o_Parent ob of None \<Rightarrow> v_Root v | Some p \<Rightarrow> Some p)
             else Some (if_OFile IFile));
           p \<leftarrow> path8 name;
           ch \<leftarrow> rd8 p 0;
           Current \<leftarrow> (if ch = 0x5C then v_Root v else Start);
           found \<leftarrow> walk_path v Current (if ch = 0x5C then tl p else p);
           case found of
             None \<Rightarrow> Some (EFI_NOT_FOUND, None)
           | Some i \<Rightarrow> do {
               h \<leftarrow> Yaffs2AllocateIFile alloc v i;
               Some (if h = None then EFI_OUT_OF_RESOURCES else EFI_SUCCESS, h)
             }
         }
     | _ \<Rightarrow> Some (EFI_INVALID_PARAMETER, None))"

text \<open>The handle that is left after \<open>Close\<close>: freed.\<close>

definition Yaffs2Close :: "yaffs2_ifile option \<Rightarrow> efi_status \<times> yaffs2_ifile option" where
  "Yaffs2Close This = (case This of None \<Rightarrow> (EFI_INVALID_PARAMETER, None)
     | Some IFile \<Rightarrow> (EFI_SUCCESS, None))"

definition Yaffs2Delete :: "yaffs2_ifile option \<Rightarrow> efi_status \<times> yaffs2_ifile option" where
  "Yaffs2Delete This = (EFI_WARN_DELETE_FAILURE, snd (Yaffs2Close This))"

subsection \<open>The contract of path resolution\<close>

text \<open>
  The specification: a path is a list of names, each of them is looked up in turn. There is no
  memory in it, no buffer and no terminator.
\<close>

fun split_path :: "bytes \<Rightarrow> bytes \<Rightarrow> bytes list" where
  "split_path acc [] = (if acc = [] then [] else [acc])"
| "split_path acc (c # cs) =
     (if c = 0x5C then (if acc = [] then split_path [] cs else acc # split_path [] cs)
      else split_path (acc @ [c]) cs)"

definition child_named :: "yaffs2_volume \<Rightarrow> nat list \<Rightarrow> bytes \<Rightarrow> nat option" where
  "child_named v cs name = List.find (\<lambda>c. map_option (\<lambda>ob. c_str (o_Name ob)) (obj_of v c) = Some name) cs"

fun link_target :: "yaffs2_volume \<Rightarrow> nat \<Rightarrow> nat \<Rightarrow> nat option" where
  "link_target v 0 i = None"
| "link_target v (Suc n) i = (case obj_of v i of None \<Rightarrow> None | Some ob \<Rightarrow>
     if o_Type ob \<noteq> YAFFS2_TYPE_HARDLINK then Some i
     else if o_EquivId ob = 0 then None else link_target v n (unat (o_EquivId ob)))"

definition lookup_name :: "yaffs2_volume \<Rightarrow> nat \<Rightarrow> bytes \<Rightarrow> nat option" where
  "lookup_name v i name = (case obj_of v i of None \<Rightarrow> None | Some ob \<Rightarrow>
     if name = [0x2E] then Some i
     else if name = [0x2E, 0x2E] then (case o_Parent ob of None \<Rightarrow> Some i | Some p \<Rightarrow> Some p)
     else if o_Type ob \<noteq> YAFFS2_TYPE_DIR then None
     else child_named v (o_Children ob) name \<bind> link_target v 16)"

fun lookup_path :: "yaffs2_volume \<Rightarrow> nat \<Rightarrow> bytes list \<Rightarrow> nat option" where
  "lookup_path v i [] = Some i"
| "lookup_path v i (n # ns) = lookup_name v i n \<bind> (\<lambda>j. lookup_path v j ns)"

subsection \<open>The code meets the contract\<close>

lemma tree_ok_array:
  "tree_ok v \<Longrightarrow> obj_of v i = Some ob \<Longrightarrow> length (v_Objects v) = Suc (unat (v_MaxObjId v))"
  using volume_ok_bounds [OF tree_ok_volume] obj_of_live_less [of v i] by fastforce

lemma tree_ok_name:
  assumes "tree_ok v" and "obj_of v i = Some ob"
  shows "length (o_Name ob) = 256" and "0 \<in> set (o_Name ob)"
proof -
  show "length (o_Name ob) = 256"
    using volume_ok_object [OF tree_ok_volume [OF assms(1)] assms(2)] by (simp add: object_ok_def)
  then show "0 \<in> set (o_Name ob)"
    using volume_ok_object [OF tree_ok_volume [OF assms(1)] assms(2)] nth_mem [of 255 "o_Name ob"]
    by (simp add: object_ok_def)
qed

lemma link_target_live: "link_target v n i = Some j \<Longrightarrow> \<exists>ob. obj_of v j = Some ob"
  by (induction v n i rule: link_target.induct) (auto split: option.splits if_splits)

lemma ResolveHardlinks_spec:
  assumes "tree_ok v" and "obj_of v i = Some ob"
  shows "ResolveHardlinks v n i = Some (link_target v n i)"
  using assms(2)
proof (induction n arbitrary: i ob)
  case (Suc n)
  have len: "length (v_Objects v) = Suc (unat (v_MaxObjId v))"
    using assms(1) Suc.prems by (rule tree_ok_array)
  have high: "o_EquivId ob > v_MaxObjId v \<Longrightarrow> obj_of v (unat (o_EquivId ob)) = None"
    using len by (simp add: obj_of_def word_less_nat_alt)
  have low: "\<not> o_EquivId ob > v_MaxObjId v \<Longrightarrow> unat (o_EquivId ob) < length (v_Objects v)"
    using len by (simp add: word_less_nat_alt not_less)
  have dead: "obj_of v j = None \<Longrightarrow> link_target v n j = None" for j
    by (cases n) simp_all
  show ?case
  proof (cases "obj_of v (unat (o_EquivId ob))")
    case None
    then show ?thesis using Suc.prems low dead by (auto simp: obj_at_eq)
  next
    case (Some t)
    then show ?thesis using Suc.prems Suc.IH low high by (auto simp: obj_at_eq)
  qed
qed simp

lemma find_child_spec:
  assumes "tree_ok v" and "\<forall>c \<in> set cs. obj_of v c \<noteq> None" and "0 \<notin> set name"
  shows "find_child v cs name = Some (child_named v cs name)"
  using assms(2)
proof (induction cs)
  case (Cons c cs)
  then obtain ob where ob: "obj_of v c = Some ob" by auto
  have iff: "ascii_strn_eq (o_Name ob) name (length name) \<and> o_Name ob ! length name = 0 \<longleftrightarrow>
      c_str (o_Name ob) = name"
    using tree_ok_name [OF assms(1) ob] assms(3) by (simp add: ascii_strn_eq_c_str)
  have "length name < 256" if "ascii_strn_eq (o_Name ob) name (length name)"
  proof (rule ccontr)
    assume long: "\<not> length name < 256"
    have "0 \<notin> set (o_Name ob)"
      using ascii_strn_eq_prefix [OF that assms(3)] assms(3) long tree_ok_name(1) [OF assms(1) ob]
      by (metis in_set_takeD not_less take_all_iff)
    then show False using tree_ok_name(2) [OF assms(1) ob] by simp
  qed
  then show ?case using Cons ob iff tree_ok_name(1) [OF assms(1) ob]
    by (auto simp: child_named_def)
qed (simp add: child_named_def)

lemma child_named_member: "child_named v cs name = Some c \<Longrightarrow> c \<in> set cs"
  by (auto simp: child_named_def find_Some_iff)

lemma walk_component_spec:
  assumes "tree_ok v" and "obj_of v i = Some ob" and "0 \<notin> set name"
  shows "walk_component v i name = Some (lookup_name v i name)"
proof -
  have live: "\<forall>c \<in> set (o_Children ob). obj_of v c \<noteq> None"
    using tree_ok_child [OF assms(1,2)] by blast
  show ?thesis
  proof (cases "child_named v (o_Children ob) name")
    case None
    then show ?thesis using assms find_child_spec [OF assms(1) live assms(3)]
      by (simp add: walk_component_def lookup_name_def split: option.splits)
  next
    case (Some c)
    then obtain cob where "obj_of v c = Some cob" using live child_named_member by blast
    then show ?thesis
      using Some assms find_child_spec [OF assms(1) live assms(3)] ResolveHardlinks_spec [OF assms(1)]
      by (simp add: walk_component_def lookup_name_def split: option.splits)
  qed
qed

lemma lookup_name_live:
  assumes "tree_ok v" and "lookup_name v i name = Some j"
  shows "\<exists>ob. obj_of v j = Some ob"
  using assms tree_ok_parent [OF assms(1)] link_target_live
  by (fastforce simp: lookup_name_def bind_eq_Some_conv split: option.splits if_splits)

lemma split_path_span:
  assumes "0x5C \<notin> set xs"
  shows "split_path acc (xs @ 0x5C # ys) =
    (if acc @ xs = [] then split_path [] ys else (acc @ xs) # split_path [] ys)"
  using assms by (induction xs arbitrary: acc) auto

lemma split_path_last: "0x5C \<notin> set xs \<Longrightarrow> split_path acc xs = (if acc @ xs = [] then [] else [acc @ xs])"
  by (induction xs arbitrary: acc) auto

lemma span_delim:
  assumes "0 \<in> set p"
  obtains xs e rest where "takeWhile (\<lambda>c. \<not> is_delim c) p = xs" and
    "dropWhile (\<lambda>c. \<not> is_delim c) p = e # rest" and "is_delim e" and
    "0 \<notin> set xs" and "0x5C \<notin> set xs" and "p = xs @ e # rest"
proof (cases "dropWhile (\<lambda>c. \<not> is_delim c) p")
  case Nil
  then show thesis using assms by (auto simp: dropWhile_eq_Nil_conv is_delim_def)
next
  case (Cons e rest)
  then have "is_delim e" using hd_dropWhile [of "\<lambda>c. \<not> is_delim c" p] by auto
  moreover have "0 \<notin> set (takeWhile (\<lambda>c. \<not> is_delim c) p)"
      "0x5C \<notin> set (takeWhile (\<lambda>c. \<not> is_delim c) p)"
    by (auto simp: is_delim_def dest: set_takeWhileD)
  ultimately show thesis
    using that Cons takeWhile_dropWhile_id [of "\<lambda>c. \<not> is_delim c" p] by metis
qed

lemma walk_path_spec:
  assumes "tree_ok v" and "obj_of v i \<noteq> None" and "0 \<in> set p"
  shows "walk_path v i p = Some (lookup_path v i (split_path [] (c_str p)))"
  using assms(2,3)
proof (induction p arbitrary: i rule: length_induct)
  case (1 p)
  obtain xs e rest where sp: "takeWhile (\<lambda>c. \<not> is_delim c) p = xs"
      "dropWhile (\<lambda>c. \<not> is_delim c) p = e # rest" "is_delim e"
      "0 \<notin> set xs" "0x5C \<notin> set xs" "p = xs @ e # rest"
    using span_delim [OF 1(3)] by blast
  obtain c q where p: "p = c # q" using 1(3) by (cases p) auto
  show ?case
  proof (cases "c = 0")
    case True
    then show ?thesis using p by (simp add: c_str_def)
  next
    case c0: False
    consider "e = 0x5C" | "e = 0" "xs \<noteq> []"
      using sp(3,6) c0 p by (cases xs) (auto simp: is_delim_def)
    then show ?thesis
    proof cases
      case e: 1
      have "0 \<in> set rest" "length rest < length p" using 1(3) sp(4,6) e by auto
      then have IH: "walk_path v j rest = Some (lookup_path v j (split_path [] (c_str rest)))"
          if "obj_of v j \<noteq> None" for j
        using 1(1) that by blast
      have cs: "c_str p = xs @ 0x5C # c_str rest"
        using sp(4,6) e by (simp add: c_str_append c_str_Cons)
      show ?thesis
      proof (cases "xs = []")
        case True
        then show ?thesis using p c0 sp IH [OF 1(2)] cs by (auto simp: Let_def)
      next
        case False
        obtain ob where "obj_of v i = Some ob" using 1(2) by blast
        then have w: "walk_component v i xs = Some (lookup_name v i xs)"
          using walk_component_spec [OF assms(1) _ sp(4)] by blast
        have sp': "split_path [] (c_str p) = xs # split_path [] (c_str rest)"
          using False cs split_path_span [OF sp(5), of "[]"] by simp
        have "walk_path v i p = (case lookup_name v i xs of None \<Rightarrow> Some None
            | Some j \<Rightarrow> walk_path v j rest)"
          using p c0 sp(1,2) False w e by (simp add: Let_def split: option.split)
        then show ?thesis using IH lookup_name_live [OF assms(1), of i xs] sp'
          by (cases "lookup_name v i xs") auto
      qed
    next
      case e: 2
      have cs: "c_str p = xs"
        using sp(4,6) e by (simp add: c_str_append c_str_Cons)
      obtain ob where "obj_of v i = Some ob" using 1(2) by blast
      then have w: "walk_component v i xs = Some (lookup_name v i xs)"
        using walk_component_spec [OF assms(1) _ sp(4)] by blast
      have "walk_path v i p = (case lookup_name v i xs of None \<Rightarrow> Some None
          | Some j \<Rightarrow> walk_path v j (e # rest))"
        using p c0 sp(1,2) e w by (simp add: Let_def split: option.split)
      then show ?thesis using cs e split_path_last [OF sp(5), of "[]"]
        by (cases "lookup_name v i xs") auto
    qed
  qed
qed

subsection \<open>Handles in a well-formed volume\<close>

definition handle_ok :: "yaffs2_volume \<Rightarrow> yaffs2_ifile \<Rightarrow> bool" where
  "handle_ok v h = (case obj_of v (if_OFile h) of None \<Rightarrow> False | Some ob \<Rightarrow>
     o_Type ob = YAFFS2_TYPE_DIR \<longrightarrow>
       (case if_DirCursor h of CurNull \<Rightarrow> False
        | CurHead i \<Rightarrow> i = if_OFile h
        | CurEntry c \<Rightarrow> c \<in> set (o_Children ob)))"

definition new_handle :: "yaffs2_volume \<Rightarrow> nat \<Rightarrow> yaffs2_ifile" where
  "new_handle v i = \<lparr>if_Position = 0, if_OFile = i, if_DirCursor = (case obj_of v i of
     None \<Rightarrow> CurNull
   | Some ob \<Rightarrow> if o_Type ob = YAFFS2_TYPE_DIR then first_entry i ob else CurNull)\<rparr>"

lemma handle_ok_object: "handle_ok v h \<Longrightarrow> \<exists>ob. obj_of v (if_OFile h) = Some ob"
  by (auto simp: handle_ok_def split: option.splits)

lemma handle_ok_new: "obj_of v i = Some ob \<Longrightarrow> handle_ok v (new_handle v i)"
  by (auto simp: handle_ok_def new_handle_def first_entry_def split: list.splits)

lemma AllocateIFile_eq:
  "obj_of v i = Some ob \<Longrightarrow>
   Yaffs2AllocateIFile alloc v i = Some (if alloc then Some (new_handle v i) else None)"
  by (simp add: Yaffs2AllocateIFile_def new_handle_def)

lemma lookup_path_live:
  "tree_ok v \<Longrightarrow> obj_of v i \<noteq> None \<Longrightarrow> lookup_path v i ns = Some j \<Longrightarrow> obj_of v j \<noteq> None"
proof (induction ns arbitrary: i)
  case (Cons n ns)
  then show ?case using lookup_name_live [of v i n] by (fastforce simp: bind_eq_Some_conv)
qed simp

text \<open>The directory a relative path starts from.\<close>

definition start_dir :: "yaffs2_volume \<Rightarrow> nat \<Rightarrow> nat option" where
  "start_dir v i = (case obj_of v i of None \<Rightarrow> None | Some ob \<Rightarrow>
     if o_Type ob = YAFFS2_TYPE_DIR then Some i
     else (case o_Parent ob of None \<Rightarrow> v_Root v | Some p \<Rightarrow> Some p))"

definition read_only_mode :: "u64 \<Rightarrow> bool" where
  "read_only_mode m = (m AND EFI_FILE_MODE_WRITE = 0 \<and> m AND EFI_FILE_MODE_CREATE = 0)"

text \<open>The name as single bytes, without its terminator.\<close>

definition ascii_name :: "u16 list \<Rightarrow> bytes" where
  "ascii_name name = c_str (map ucast (takeWhile (\<lambda>c. c \<noteq> 0) name) @ [0])"

definition open_spec :: "yaffs2_volume \<Rightarrow> nat \<Rightarrow> bytes \<Rightarrow> nat option" where
  "open_spec v i name =
     (case (if name \<noteq> [] \<and> hd name = 0x5C then v_Root v else start_dir v i) of
        None \<Rightarrow> None | Some d \<Rightarrow> lookup_path v d (split_path [] name))"

lemma path8_short:
  assumes "0 \<in> set name" and "length (takeWhile (\<lambda>c. c \<noteq> 0) name) < 512"
  shows "path8 name = Some (map ucast (takeWhile (\<lambda>c. c \<noteq> 0) name) @ [0])"
proof -
  let ?n = "length (takeWhile (\<lambda>c. c \<noteq> 0) name)"
  have less: "?n < length name"
    using assms(1) by (metis (mono_tags, lifting) length_takeWhile_le nat_less_le takeWhile_eq_all_conv
        takeWhile_eq_take take_all_iff order_refl)
  have "name ! ?n = 0" using nth_length_takeWhile [OF less] by simp
  moreover have "take ?n name = takeWhile (\<lambda>c. c \<noteq> 0) name" by (simp flip: takeWhile_eq_take)
  ultimately have "take (Suc ?n) name = takeWhile (\<lambda>c. c \<noteq> 0) name @ [0]"
    using less by (simp add: take_Suc_conv_app_nth)
  then show ?thesis using assms by (simp add: path8_def StrLen_def)
qed

text \<open>What happens to a longer name: the copy in \<open>Path8\<close> has no terminator.\<close>

lemma path8_long:
  assumes "0 \<in> set name" and "512 \<le> length (takeWhile (\<lambda>c. c \<noteq> 0) name)"
  shows "path8 name = Some (map ucast (take 512 name)) \<and> 0 \<notin> set (take 512 name)"
proof -
  have "take 512 name = take 512 (takeWhile (\<lambda>c. c \<noteq> 0) name)"
    using assms(2) by (metis append_take_drop_id take_append takeWhile_dropWhile_id
        diff_is_0_eq' take_0 append_Nil2)
  then have "0 \<notin> set (take 512 name)" by (auto dest!: in_set_takeD set_takeWhileD)
  then show ?thesis using assms by (simp add: path8_def StrLen_def)
qed

lemma start_dir_live:
  assumes "tree_ok v" and "start_dir v i = Some d"
  shows "obj_of v d \<noteq> None"
  using assms tree_ok_root [OF assms(1)] tree_ok_parent [OF assms(1)]
  by (fastforce simp: start_dir_def split: option.splits if_splits)

lemma c_str_tl: "c_str p \<noteq> [] \<Longrightarrow> c_str (tl p) = tl (c_str p)"
  by (cases p) (auto simp: c_str_Cons c_str_def)

lemma rd8_hd: "0 \<in> set p \<Longrightarrow> rd8 p 0 = Some (hd p)"
  by (cases p) simp_all

lemma c_str_hd: "0 \<in> set p \<Longrightarrow> c \<noteq> 0 \<Longrightarrow> hd p = c \<longleftrightarrow> c_str p \<noteq> [] \<and> hd (c_str p) = c"
  by (cases p) (auto simp: c_str_Cons c_str_def)

lemma Open_eq:
  assumes "tree_ok v" and "handle_ok v h" and "v_Root v \<noteq> None" and "read_only_mode mode"
    and "0 \<in> set name" and "length (takeWhile (\<lambda>c. c \<noteq> 0) name) < 512"
  shows "Yaffs2Open alloc v (Some h) True (Some name) mode =
    (case open_spec v (if_OFile h) (ascii_name name) of
       None \<Rightarrow> Some (EFI_NOT_FOUND, None)
     | Some i \<Rightarrow> if alloc then Some (EFI_SUCCESS, Some (new_handle v i))
                 else Some (EFI_OUT_OF_RESOURCES, None))"
proof -
  obtain ob where ob: "obj_of v (if_OFile h) = Some ob" using handle_ok_object [OF assms(2)] by blast
  obtain r where r: "v_Root v = Some r" using assms(3) by blast
  let ?p = "map ucast (takeWhile (\<lambda>c. c \<noteq> 0) name) @ [0] :: bytes"
  define p where "p = ?p"
  have z: "0 \<in> set p" by (simp add: p_def)
  have p8: "path8 name = Some p" using path8_short [OF assms(5,6)] by (simp add: p_def)
  have an: "ascii_name name = c_str p" by (simp add: ascii_name_def p_def)
  obtain d where d: "start_dir v (if_OFile h) = Some d"
    using ob r by (cases "o_Parent ob"; cases "o_Type ob = YAFFS2_TYPE_DIR") (auto simp: start_dir_def)
  define st where "st = (if hd p = 0x5C then r else d)"
  define q where "q = (if hd p = 0x5C then tl p else p)"
  have slash: "hd p = 0x5C \<longleftrightarrow> ascii_name name \<noteq> [] \<and> hd (ascii_name name) = 0x5C"
    using c_str_hd [OF z, of "0x5C"] an by simp
  have zq: "0 \<in> set q" using z by (cases p) (auto simp: q_def)
  have sp: "split_path [] (c_str q) = split_path [] (ascii_name name)"
  proof (cases "hd p = 0x5C")
    case True
    then obtain x xs where "ascii_name name = x # xs" "x = 0x5C" using slash by (cases "ascii_name name") auto
    then show ?thesis using True an c_str_tl [of p] by (simp add: q_def)
  qed (simp add: q_def an)
  have live: "obj_of v st \<noteq> None"
    using start_dir_live [OF assms(1) d] tree_ok_root [OF assms(1) r] by (simp add: st_def)
  have w: "walk_path v st q = Some (lookup_path v st (split_path [] (ascii_name name)))"
    using walk_path_spec [OF assms(1) live zq] sp by simp
  have spec: "open_spec v (if_OFile h) (ascii_name name) =
      lookup_path v st (split_path [] (ascii_name name))"
    using slash r d by (simp add: open_spec_def st_def)
  have start: "(if o_Type ob \<noteq> YAFFS2_TYPE_DIR then (case o_Parent ob of None \<Rightarrow> v_Root v | Some p \<Rightarrow> Some p)
      else Some (if_OFile h)) = Some d"
    using d ob by (simp add: start_dir_def split: if_splits)
  have cur: "(if hd p = 0x5C then v_Root v else Some d) = Some st" by (simp add: st_def r)
  have "Yaffs2Open alloc v (Some h) True (Some name) mode =
      (case lookup_path v st (split_path [] (ascii_name name)) of None \<Rightarrow> Some (EFI_NOT_FOUND, None)
       | Some i \<Rightarrow> Yaffs2AllocateIFile alloc v i \<bind>
           (\<lambda>h. Some (if h = None then EFI_OUT_OF_RESOURCES else EFI_SUCCESS, h)))"
    using assms(4) ob p8 rd8_hd [OF z] w cur
    by (simp add: Yaffs2Open_def read_only_mode_def start q_def [symmetric] Let_def
        del: if_split cong: if_cong)
  then show ?thesis
    using lookup_path_live [OF assms(1) live] AllocateIFile_eq
    by (fastforce simp: spec split: option.splits)
qed

text \<open>A name without terminator in \<open>Path8\<close> is read past its end.\<close>

lemma walk_path_no_delim:
  assumes "\<forall>c \<in> set p. \<not> is_delim c"
  shows "walk_path v i p = None"
proof (cases p)
  case (Cons c q)
  then have "\<forall>x \<in> set q. \<not> is_delim x" "\<not> is_delim c" using assms by simp_all
  then have "dropWhile (\<lambda>c. \<not> is_delim c) (c # q) = []" "c \<noteq> 0"
    by (simp_all add: dropWhile_eq_Nil_conv) (auto simp: is_delim_def)
  then show ?thesis unfolding Cons by (simp only: walk_path.simps Let_def if_False list.case)
qed simp


subsection \<open>Absolute paths\<close>

text \<open>A name that path resolution takes literally.\<close>

definition plain_name :: "bytes \<Rightarrow> bool" where
  "plain_name n = (n \<noteq> [] \<and> 0 \<notin> set n \<and> 0x5C \<notin> set n \<and> n \<noteq> [0x2E] \<and> n \<noteq> [0x2E, 0x2E])"

text \<open>A descent from directory \<open>i\<close>, one child after the other, with their names.\<close>

fun descends :: "yaffs2_volume \<Rightarrow> nat \<Rightarrow> (bytes \<times> nat) list \<Rightarrow> bool" where
  "descends v i [] = True"
| "descends v i ((n, c) # ps) = (case obj_of v i of None \<Rightarrow> False | Some ob \<Rightarrow>
     o_Type ob = YAFFS2_TYPE_DIR \<and> plain_name n \<and> c \<in> set (o_Children ob) \<and>
     (\<forall>d \<in> set (o_Children ob).
        map_option (\<lambda>ob. c_str (o_Name ob)) (obj_of v d) = Some n \<longleftrightarrow> d = c) \<and>
     (case obj_of v c of None \<Rightarrow> False | Some cob \<Rightarrow> o_Type cob \<noteq> YAFFS2_TYPE_HARDLINK) \<and>
     descends v c ps)"

fun end_of :: "nat \<Rightarrow> (bytes \<times> nat) list \<Rightarrow> nat" where
  "end_of i [] = i"
| "end_of i ((n, c) # ps) = end_of c ps"

definition join_path :: "bytes list \<Rightarrow> bytes" where
  "join_path ns = concat (map (\<lambda>n. 0x5C # n) ns)"

lemma split_join: "\<forall>n \<in> set ns. plain_name n \<Longrightarrow> split_path [] (join_path ns) = ns"
proof -
  have "\<forall>n \<in> set ns. plain_name n \<Longrightarrow> acc \<noteq> [] \<Longrightarrow> split_path acc (join_path ns) = acc # ns" for acc
  proof (induction ns arbitrary: acc)
    case (Cons n ns)
    have span: "split_path [] (n @ join_path ns) = n # ns"
    proof (cases ns)
      case Nil
      then show ?thesis using Cons.prems split_path_last [of n "[]"]
        by (auto simp: plain_name_def join_path_def)
    next
      case (Cons m ms)
      have n: "0x5C \<notin> set n" "n \<noteq> []" using \<open>\<forall>n \<in> set (n # ns). plain_name n\<close>
        by (auto simp: plain_name_def)
      have "split_path (n :: bytes) (join_path ns) = n # ns"
        using Cons.IH [of n] \<open>\<forall>n \<in> set (n # ns). plain_name n\<close> n by simp
      then have "split_path [] (m @ concat (map (\<lambda>n. 0x5C # n) ms)) = ns"
        using Cons n(2) by (simp add: join_path_def)
      then show ?thesis using split_path_span [OF n(1), of "[]"] n(2) Cons
        by (simp add: join_path_def)
    qed
    then show ?case using Cons.prems(2) by (simp add: join_path_def)
  qed (simp add: join_path_def)
  note acc = this
  show "\<forall>n \<in> set ns. plain_name n \<Longrightarrow> split_path [] (join_path ns) = ns"
  proof -
    assume ns: "\<forall>n \<in> set ns. plain_name n"
    have "split_path [0] (join_path ns) = [0] # ns" using acc [OF ns] by blast
    then show ?thesis by (cases ns) (simp_all add: join_path_def)
  qed
qed

lemma child_named_unique:
  assumes "c \<in> set cs"
    and "\<forall>d \<in> set cs. map_option (\<lambda>ob. c_str (o_Name ob)) (obj_of v d) = Some n \<longleftrightarrow> d = c"
  shows "child_named v cs n = Some c"
  using assms by (induction cs) (auto simp: child_named_def)

lemma lookup_descends: "descends v i ps \<Longrightarrow> lookup_path v i (map fst ps) = Some (end_of i ps)"
proof (induction v i ps rule: descends.induct)
  case (2 v i n c ps)
  then obtain ob cob where ob: "obj_of v i = Some ob" "o_Type ob = YAFFS2_TYPE_DIR" "plain_name n"
      "c \<in> set (o_Children ob)" "descends v c ps" "obj_of v c = Some cob"
      "o_Type cob \<noteq> YAFFS2_TYPE_HARDLINK"
      "\<forall>d \<in> set (o_Children ob).
         map_option (\<lambda>ob. c_str (o_Name ob)) (obj_of v d) = Some n \<longleftrightarrow> d = c"
    by (auto split: option.splits)
  have "child_named v (o_Children ob) n = Some c" using ob(4,8) by (rule child_named_unique)
  moreover have "link_target v 16 c = Some c"
    using ob(6,7) by (simp add: numeral_eq_Suc)
  ultimately have "lookup_name v i n = Some c"
    using ob(1,2,3) by (simp add: lookup_name_def plain_name_def)
  then show ?case using 2 ob by simp
qed simp

lemma descends_plain: "descends v i ps \<Longrightarrow> \<forall>n \<in> set (map fst ps). plain_name n"
  by (induction v i ps rule: descends.induct) (auto split: option.splits)

end
