(* ===== verification/Yaffs2Read.thy ===== *)
theory Yaffs2Read
  imports Yaffs2Open
begin

text \<open>
  The operations on an open handle: \<open>ReadDir.c\<close> (read of a file, enumeration of a directory,
  position, and the rejected writes) and \<open>Info.c\<close> (file and volume metadata).

  The caller's buffer holds the \<open>*BufferSize\<close> bytes its UEFI contract promises; a store past
  them, or through a null \<open>Buffer\<close>, is a fault. What a call puts there is returned as a value:
  the bytes of a file, or the fields of an \<open>EFI_FILE_INFO\<close>. \<open>EpochToEfiTime\<close> of
  \<open>TimeBaseLib\<close> is the parameter \<open>epoch\<close>; a time field that is left zero is
  \<^const>\<open>None\<close>.
\<close>

subsection \<open>Metadata\<close>

definition SIZE_OF_EFI_FILE_INFO :: nat where "SIZE_OF_EFI_FILE_INFO = 80"
definition EFI_FILE_READ_ONLY :: u64 where "EFI_FILE_READ_ONLY = 0x01"
definition EFI_FILE_DIRECTORY :: u64 where "EFI_FILE_DIRECTORY = 0x10"

record 't efi_file_info =
  fi_Size :: u64
  fi_FileSize :: u64
  fi_PhysicalSize :: u64
  fi_CreateTime :: "'t option"
  fi_LastAccessTime :: "'t option"
  fi_ModificationTime :: "'t option"
  fi_Attribute :: u64
  fi_FileName :: "u16 list"

text \<open>The fields for the name of \<open>NameLen\<close> characters, as both writers of the structure set them.\<close>

definition fill_file_info ::
    "(u64 \<Rightarrow> 't) \<Rightarrow> yaffs2_object \<Rightarrow> nat \<Rightarrow> u64 \<Rightarrow> 't efi_file_info" where
  "fill_file_info epoch Obj NameLen InfoSize =
     (let t = (if o_MTime Obj \<noteq> 0 then Some (epoch (ucast (o_MTime Obj))) else None) in
      \<lparr>fi_Size = InfoSize, fi_FileSize = o_FileSize Obj, fi_PhysicalSize = o_FileSize Obj,
       fi_CreateTime = t, fi_LastAccessTime = t, fi_ModificationTime = t,
       fi_Attribute = (if o_Type Obj = YAFFS2_TYPE_DIR
         then EFI_FILE_READ_ONLY OR EFI_FILE_DIRECTORY else EFI_FILE_READ_ONLY),
       fi_FileName = map ucast (take NameLen (o_Name Obj)) @ [0]\<rparr>)"

text \<open>Status, \<open>*BufSize\<close> and the structure in the buffer.\<close>

definition BuildFileInfo ::
    "(u64 \<Rightarrow> 't) \<Rightarrow> yaffs2_object \<Rightarrow> bool \<Rightarrow> u64 \<Rightarrow>
     (efi_status \<times> u64 \<times> 't efi_file_info option) option" where
  "BuildFileInfo epoch Obj Buffer BufSize = do {
     NameLen \<leftarrow> AsciiStrLen (o_Name Obj);
     let InfoSize = of_nat (SIZE_OF_EFI_FILE_INFO + (NameLen + 1) * 2);
     if BufSize < InfoSize then Some (EFI_BUFFER_TOO_SMALL, InfoSize, None)
     else if \<not> Buffer then None
     else Some (EFI_SUCCESS, InfoSize, Some (fill_file_info epoch Obj NameLen InfoSize))
   }"

subsection \<open>Reading\<close>

datatype 't read_data = NoData | InfoData "'t efi_file_info" | FileData bytes

text \<open>\<open>ForwardLink\<close> of the \<open>SiblingLink\<close> of \<open>c\<close>, in the list of the children of \<open>p\<close>.\<close>

fun next_of :: "nat list \<Rightarrow> nat \<Rightarrow> nat \<Rightarrow> dir_cursor" where
  "next_of [] p c = CurNull"
| "next_of (x # xs) p c =
     (if x = c then (case xs of [] \<Rightarrow> CurHead p | y # _ \<Rightarrow> CurEntry y) else next_of xs p c)"

definition ForwardLink :: "yaffs2_volume \<Rightarrow> nat \<Rightarrow> dir_cursor option" where
  "ForwardLink v c = do {
     cob \<leftarrow> obj_of v c;
     p \<leftarrow> o_Parent cob;
     pob \<leftarrow> obj_of v p;
     Some (next_of (o_Children pob) p c)
   }"

text \<open>The object whose attributes an entry is listed with: \<open>TempObj\<close> for a hardlink.\<close>

definition display_object :: "yaffs2_volume \<Rightarrow> yaffs2_object \<Rightarrow> yaffs2_object option" where
  "display_object v Child =
     (if o_Type Child = YAFFS2_TYPE_HARDLINK \<and> o_EquivId Child > 0 \<and> o_EquivId Child \<le> v_MaxObjId v
      then do {
        slot \<leftarrow> obj_at v (unat (o_EquivId Child));
        case slot of None \<Rightarrow> Some Child | Some Target \<Rightarrow> Some (Target\<lparr>o_Name := o_Name Child\<rparr>)
      }
      else Some Child)"

definition read_dir ::
    "(u64 \<Rightarrow> 't) \<Rightarrow> yaffs2_volume \<Rightarrow> yaffs2_ifile \<Rightarrow> bool \<Rightarrow> u64 \<Rightarrow>
     (yaffs2_ifile \<times> efi_status \<times> u64 \<times> 't read_data) option" where
  "read_dir epoch v IFile Buffer BufferSize = (case if_DirCursor IFile of
     CurNull \<Rightarrow> None
   | CurHead i \<Rightarrow> if i = if_OFile IFile then Some (IFile, EFI_SUCCESS, 0, NoData) else None
   | CurEntry c \<Rightarrow> do {
       Child \<leftarrow> obj_of v c;
       Shown \<leftarrow> display_object v Child;
       (Status, Size, info) \<leftarrow> BuildFileInfo epoch Shown Buffer BufferSize;
       if EFI_ERROR Status then Some (IFile, Status, Size, NoData)
       else do {
         cur \<leftarrow> ForwardLink v c;
         Some (IFile\<lparr>if_DirCursor := cur, if_Position := if_Position IFile + 1\<rparr>, Status, Size,
           case info of None \<Rightarrow> NoData | Some fi \<Rightarrow> InfoData fi)
       }
     })"

text \<open>
  One pass of the read loop: \<open>CopyLen\<close> bytes at \<open>Offset\<close> of a chunk. The Boolean tells a failed
  page read.
\<close>

definition read_chunk ::
    "'s nand_proto \<Rightarrow> yaffs2_object \<Rightarrow> 's \<Rightarrow> u32 \<Rightarrow> nat \<Rightarrow> nat \<Rightarrow> ('s \<times> bool \<times> bytes) option" where
  "read_chunk nd OFile s ChunkIdx Offset CopyLen = do {
     ck \<leftarrow> (if ChunkIdx < o_ChunkCount OFile
           then if unat ChunkIdx < length (o_Chunks OFile)
                then Some (o_Chunks OFile ! unat ChunkIdx) else None
           else Some chunk_unset);
     if ChunkIdx < o_ChunkCount OFile \<and> c_PageIndex ck \<noteq> YAFFS2_CHUNK_UNSET
     then do {
       (s1, Status, Page) \<leftarrow> nf_ReadPage nd s (c_PageIndex ck);
       if EFI_ERROR Status then Some (s1, True, [])
       else
         let ValidBytes = min (unat (c_NBytes ck)) YAFFS2_DATA_PER_PAGE in
         if Offset < ValidBytes
         then do {
           let ActualCopy = min (ValidBytes - Offset) CopyLen;
           d \<leftarrow> rdbytes Page Offset ActualCopy;
           Some (s1, False, d @ replicate (CopyLen - ActualCopy) 0)
         }
         else Some (s1, False, replicate CopyLen 0)
     }
     else Some (s, False, replicate CopyLen 0)
   }"

definition piece_len :: "nat \<Rightarrow> nat \<Rightarrow> nat" where
  "piece_len Offset Rem = (if YAFFS2_DATA_PER_PAGE - Offset > Rem then Rem
     else YAFFS2_DATA_PER_PAGE - Offset)"

function read_loop ::
    "'s nand_proto \<Rightarrow> yaffs2_object \<Rightarrow> u64 \<Rightarrow> nat \<Rightarrow> nat \<Rightarrow> 's \<Rightarrow> nat \<Rightarrow> bytes \<Rightarrow>
     ('s \<times> efi_status \<times> bytes) option" where
  "read_loop nd OFile Position Cap ReadLen s BytesCopied Buf =
     (if BytesCopied < ReadLen then
        let At = Position + of_nat BytesCopied;
            ChunkIdx = ucast (At div of_nat YAFFS2_DATA_PER_PAGE);
            Offset = unat (At mod of_nat YAFFS2_DATA_PER_PAGE);
            CopyLen = piece_len Offset (ReadLen - BytesCopied)
        in do {
          (s1, err, d) \<leftarrow> read_chunk nd OFile s ChunkIdx Offset CopyLen;
          if err
          then Some (s1, if BytesCopied > 0 then EFI_SUCCESS else EFI_DEVICE_ERROR, Buf)
          else if BytesCopied + CopyLen \<le> Cap
          then read_loop nd OFile Position Cap ReadLen s1 (BytesCopied + CopyLen) (Buf @ d)
          else None
        }
      else Some (s, EFI_SUCCESS, Buf))"
  by pat_completeness auto

lemma page_offset_less: "unat ((w::u64) mod of_nat YAFFS2_DATA_PER_PAGE) < YAFFS2_DATA_PER_PAGE"
  by (simp add: unat_mod YAFFS2_DATA_PER_PAGE_def)

lemma piece_len_pos: "Offset < YAFFS2_DATA_PER_PAGE \<Longrightarrow> 0 < Rem \<Longrightarrow> 0 < piece_len Offset Rem"
  by (simp add: piece_len_def)

lemma piece_len_le: "piece_len Offset Rem \<le> Rem"
  by (simp add: piece_len_def)

termination read_loop
proof (relation "measure (\<lambda>(nd, ob, p, cap, n, s, k, b). n - k)")
  fix nd :: "'s nand_proto" and Position :: u64 and OFile Cap ReadLen s BytesCopied Buf x xa xb xc z d d1 d2 y
  assume a: "BytesCopied < ReadLen" "x = Position + of_nat BytesCopied"
    "xb = unat (x mod of_nat YAFFS2_DATA_PER_PAGE)" "xc = piece_len xb (ReadLen - BytesCopied)"
  have "0 < xc" unfolding a(3,4)
    by (rule piece_len_pos [OF page_offset_less]) (use a(1) in simp)
  then show "((nd, OFile, Position, Cap, ReadLen, d, BytesCopied + xc, Buf @ d2),
      (nd, OFile, Position, Cap, ReadLen, s, BytesCopied, Buf))
    \<in> measure (\<lambda>(nd, ob, p, cap, n, s, k, b). n - k)"
    using a(1) by simp
qed simp

definition Yaffs2Read ::
    "'s nand_proto \<Rightarrow> (u64 \<Rightarrow> 't) \<Rightarrow> yaffs2_volume \<Rightarrow> 's \<Rightarrow> yaffs2_ifile option \<Rightarrow> u64 option \<Rightarrow> bool \<Rightarrow>
     ('s \<times> yaffs2_ifile option \<times> efi_status \<times> u64 option \<times> 't read_data) option" where
  "Yaffs2Read nd epoch v s This BufferSizeP Buffer =
     (case (This, BufferSizeP) of
       (Some IFile, Some BufferSize) \<Rightarrow> do {
         OFile \<leftarrow> obj_of v (if_OFile IFile);
         if o_Type OFile = YAFFS2_TYPE_DIR
         then do {
           (h, st, n, d) \<leftarrow> read_dir epoch v IFile Buffer BufferSize;
           Some (s, Some h, st, Some n, d)
         }
         else if \<not> Buffer \<and> BufferSize > 0
         then Some (s, This, EFI_INVALID_PARAMETER, BufferSizeP, NoData)
         else if if_Position IFile \<ge> o_FileSize OFile
         then Some (s, This, EFI_SUCCESS, Some 0, NoData)
         else do {
           let ReadLen = (if if_Position IFile + BufferSize > o_FileSize OFile
             then o_FileSize OFile - if_Position IFile else BufferSize);
           (s1, st, d) \<leftarrow> read_loop nd OFile (if_Position IFile) (unat BufferSize) (unat ReadLen) s 0 [];
           if EFI_ERROR st then Some (s1, This, st, BufferSizeP, NoData)
           else Some (s1, Some (IFile\<lparr>if_Position := if_Position IFile + of_nat (length d)\<rparr>),
                  EFI_SUCCESS, Some (of_nat (length d)), FileData d)
         }
       }
     | _ \<Rightarrow> Some (s, This, EFI_INVALID_PARAMETER, BufferSizeP, NoData))"

subsection \<open>Position, flush, and the write operations\<close>

definition Yaffs2Write :: "efi_status" where "Yaffs2Write = EFI_WRITE_PROTECTED"

definition Yaffs2Flush :: "efi_status" where "Yaffs2Flush = EFI_SUCCESS"

definition Yaffs2SetInfo :: "efi_status" where "Yaffs2SetInfo = EFI_WRITE_PROTECTED"

definition Yaffs2GetPosition ::
    "yaffs2_volume \<Rightarrow> yaffs2_ifile option \<Rightarrow> bool \<Rightarrow> (efi_status \<times> u64 option) option" where
  "Yaffs2GetPosition v This Position = (case This of
     None \<Rightarrow> Some (EFI_INVALID_PARAMETER, None)
   | Some IFile \<Rightarrow>
       if \<not> Position then Some (EFI_INVALID_PARAMETER, None)
       else do {
         OFile \<leftarrow> obj_of v (if_OFile IFile);
         if o_Type OFile = YAFFS2_TYPE_DIR then Some (EFI_UNSUPPORTED, None)
         else Some (EFI_SUCCESS, Some (if_Position IFile))
       })"

definition Yaffs2SetPosition ::
    "yaffs2_volume \<Rightarrow> yaffs2_ifile option \<Rightarrow> u64 \<Rightarrow> (efi_status \<times> yaffs2_ifile option) option" where
  "Yaffs2SetPosition v This Position = (case This of
     None \<Rightarrow> Some (EFI_INVALID_PARAMETER, None)
   | Some IFile \<Rightarrow> do {
       OFile \<leftarrow> obj_of v (if_OFile IFile);
       if o_Type OFile = YAFFS2_TYPE_DIR
       then if Position \<noteq> 0 then Some (EFI_UNSUPPORTED, This)
            else Some (EFI_SUCCESS, Some (IFile\<lparr>if_DirCursor := first_entry (if_OFile IFile) OFile,
                                                if_Position := 0\<rparr>))
       else Some (EFI_SUCCESS, Some (IFile\<lparr>if_Position :=
              (if Position = 0xFFFFFFFFFFFFFFFF then o_FileSize OFile else Position)\<rparr>))
     })"


subsection \<open>Reading a file\<close>

text \<open>
  The content of a file as a function of the byte index: the byte in the newest chunk of its page,
  and zero in a hole or past the bytes a chunk holds. \<open>page\<close> is the data of a flash page.
\<close>

definition file_byte :: "(u32 \<Rightarrow> bytes) \<Rightarrow> yaffs2_object \<Rightarrow> nat \<Rightarrow> u8" where
  "file_byte page ob n =
     (let k = n div YAFFS2_DATA_PER_PAGE; off = n mod YAFFS2_DATA_PER_PAGE; ck = chunk_at ob k in
      if k < unat (o_ChunkCount ob) \<and> c_PageIndex ck \<noteq> YAFFS2_CHUNK_UNSET \<and> off < unat (c_NBytes ck)
      then page (c_PageIndex ck) ! off else 0)"

text \<open>The device returns the same data for a page each time it reads it without an error.\<close>

definition stable_pages :: "'s nand_proto \<Rightarrow> ('s \<Rightarrow> bool) \<Rightarrow> (u32 \<Rightarrow> bytes) \<Rightarrow> bool" where
  "stable_pages nd dev_ok page = (\<forall>s p s' st b. dev_ok s \<and> nf_ReadPage nd s p = Some (s', st, b) \<and>
     \<not> EFI_ERROR st \<longrightarrow> b = page p)"

text \<open>No read of a page of the file fails.\<close>

definition reads_succeed :: "'s nand_proto \<Rightarrow> ('s \<Rightarrow> bool) \<Rightarrow> yaffs2_object \<Rightarrow> bool" where
  "reads_succeed nd dev_ok ob = (\<forall>ck \<in> set (o_Chunks ob). c_PageIndex ck \<noteq> YAFFS2_CHUNK_UNSET \<longrightarrow>
     (\<forall>s s' st b. dev_ok s \<and> nf_ReadPage nd s (c_PageIndex ck) = Some (s', st, b) \<longrightarrow> \<not> EFI_ERROR st))"

lemma map_take_drop_nth:
  "off + n \<le> length xs \<Longrightarrow> take n (drop off xs) = map (\<lambda>j. xs ! (off + j)) [0..<n]"
  by (auto intro: nth_equalityI)

text \<open>One piece of one chunk.\<close>

definition chunk_bytes :: "(u32 \<Rightarrow> bytes) \<Rightarrow> yaffs2_object \<Rightarrow> nat \<Rightarrow> nat \<Rightarrow> nat \<Rightarrow> bytes" where
  "chunk_bytes page ob k off n =
     map (\<lambda>j. file_byte page ob (k * YAFFS2_DATA_PER_PAGE + (off + j))) [0..<n]"

lemma file_byte_in_chunk:
  "x < YAFFS2_DATA_PER_PAGE \<Longrightarrow> file_byte page ob (k * YAFFS2_DATA_PER_PAGE + x) =
    (if k < unat (o_ChunkCount ob) \<and> c_PageIndex (chunk_at ob k) \<noteq> YAFFS2_CHUNK_UNSET \<and>
        x < unat (c_NBytes (chunk_at ob k))
     then page (c_PageIndex (chunk_at ob k)) ! x else 0)"
  by (simp add: file_byte_def Let_def YAFFS2_DATA_PER_PAGE_def)

context nand_flash
begin

lemma read_chunk_run:
  assumes "dev_ok s" and "object_ok i ob" and "Offset + CopyLen \<le> YAFFS2_DATA_PER_PAGE"
  shows "\<exists>s' err d. read_chunk nd ob s k Offset CopyLen = Some (s', err, d) \<and> dev_ok s' \<and>
    (err \<longrightarrow> \<not> reads_succeed nd dev_ok ob) \<and> (\<not> err \<longrightarrow> length d = CopyLen \<and>
      (\<forall>page. stable_pages nd dev_ok page \<longrightarrow> d = chunk_bytes page ob (unat k) Offset CopyLen))"
proof (cases "k < o_ChunkCount ob")
  case False
  have "chunk_bytes page ob (unat k) Offset CopyLen = replicate CopyLen 0" for page
    using False assms(3) by (auto simp: chunk_bytes_def file_byte_in_chunk word_less_nat_alt
        intro!: nth_equalityI)
  then show ?thesis using False assms(1) by (simp add: read_chunk_def exI [of _ False])
next
  case True
  have lt: "unat k < length (o_Chunks ob)" "unat k < unat (o_ChunkCount ob)"
    using True assms(2) unfolding object_ok_def word_less_nat_alt word_le_nat_alt by linarith+
  define ck where "ck = o_Chunks ob ! unat k"
  have ck: "chunk_at ob (unat k) = ck" using lt by (simp add: chunk_at_def ck_def)
  show ?thesis
  proof (cases "c_PageIndex ck = YAFFS2_CHUNK_UNSET")
    case unset: True
    have "chunk_bytes page ob (unat k) Offset CopyLen = replicate CopyLen 0" for page
      using unset assms(3) ck by (auto simp: chunk_bytes_def file_byte_in_chunk intro!: nth_equalityI)
    then show ?thesis using True lt unset assms(1) by (simp add: read_chunk_def ck_def exI [of _ False])
  next
    case set: False
    obtain s1 st b where r: "nf_ReadPage nd s (c_PageIndex ck) = Some (s1, st, b)" "dev_ok s1"
        "\<not> EFI_ERROR st \<Longrightarrow> 2048 \<le> length b"
      by (rule read_page_run [OF assms(1)]) (rule that; assumption)
    show ?thesis
    proof (cases "EFI_ERROR st")
      case err: True
      then have "\<not> reads_succeed nd dev_ok ob" using r(1) assms(1) set err nth_mem [OF lt(1)] unfolding reads_succeed_def ck_def by blast
      then show ?thesis using True lt set r err by (simp add: read_chunk_def ck_def exI [of _ True])
    next
      case good: False
      define V where "V = min (unat (c_NBytes ck)) YAFFS2_DATA_PER_PAGE"
      have fb: "chunk_bytes page ob (unat k) Offset CopyLen =
          map (\<lambda>j. if Offset + j < V then page (c_PageIndex ck) ! (Offset + j) else 0) [0..<CopyLen]"
        for page
        using lt set ck assms(3) by (auto simp: chunk_bytes_def file_byte_in_chunk V_def)
      have pg: "b = page (c_PageIndex ck)" if "stable_pages nd dev_ok page" for page
        using r(1) assms(1) good that by (auto simp: stable_pages_def)
      show ?thesis
      proof (cases "Offset < V")
        case True
        define A where "A = min (V - Offset) CopyLen"
        have A: "A \<le> CopyLen" "Offset + A \<le> length b"
          using r(3) [OF good] assms(3) by (auto simp: A_def YAFFS2_DATA_PER_PAGE_def)
        have "take A (drop Offset b) @ replicate (CopyLen - A) 0 =
            map (\<lambda>j. if Offset + j < V then b ! (Offset + j) else 0) [0..<CopyLen]"
          using A by (auto simp: map_take_drop_nth A_def nth_append intro!: nth_equalityI)
        then have "read_chunk nd ob s k Offset CopyLen = Some (s1, False,
            map (\<lambda>j. if Offset + j < V then b ! (Offset + j) else 0) [0..<CopyLen])"
          using \<open>k < o_ChunkCount ob\<close> lt set r(1) good True A(2)
          by (simp add: read_chunk_def ck_def [symmetric] V_def [symmetric] A_def [symmetric] Let_def)
        then show ?thesis using r(2) fb pg by auto
      next
        case False
        then have "map (\<lambda>j. if Offset + j < V then b ! (Offset + j) else 0) [0..<CopyLen] =
            replicate CopyLen 0"
          by (auto intro!: nth_equalityI)
        then have "read_chunk nd ob s k Offset CopyLen = Some (s1, False,
            map (\<lambda>j. if Offset + j < V then b ! (Offset + j) else 0) [0..<CopyLen])"
          using \<open>k < o_ChunkCount ob\<close> lt set r(1) good False
          by (simp add: read_chunk_def ck_def [symmetric] V_def [symmetric] Let_def)
        then show ?thesis using r(2) fb pg by auto
      qed
    qed
  qed
qed


lemma read_loop_run:
  assumes "dev_ok s" and "object_ok i ob" and "BytesCopied \<le> ReadLen" and "ReadLen \<le> Cap"
    and "length Buf = BytesCopied" and "unat Pos + ReadLen < 2 ^ 64"
    and "unat Pos + ReadLen \<le> YAFFS2_DATA_PER_PAGE * 2 ^ 32"
  shows "\<exists>s' st d. read_loop nd ob Pos Cap ReadLen s BytesCopied Buf = Some (s', st, d) \<and> dev_ok s' \<and>
    st \<in> {EFI_SUCCESS, EFI_DEVICE_ERROR} \<and>
    BytesCopied \<le> length d \<and> length d \<le> ReadLen \<and>
    (reads_succeed nd dev_ok ob \<longrightarrow> st = EFI_SUCCESS \<and> length d = ReadLen) \<and>
    (\<forall>page. stable_pages nd dev_ok page \<longrightarrow>
       d = Buf @ map (\<lambda>j. file_byte page ob (unat Pos + j)) [BytesCopied..<length d])"
  using assms(1,3,5)
proof (induction "ReadLen - BytesCopied" arbitrary: BytesCopied s Buf rule: less_induct)
  case less
  show ?case
  proof (cases "BytesCopied < ReadLen")
    case False
    then show ?thesis using less.prems by simp
  next
    case True
    define At where "At = Pos + of_nat BytesCopied"
    have at: "unat At = unat Pos + BytesCopied"
      unfolding At_def by (rule unat_add_of_nat) (use assms(6) less.prems(2) in simp)
    define k :: u32 where "k = ucast (At div of_nat YAFFS2_DATA_PER_PAGE)"
    define off where "off = unat (At mod of_nat YAFFS2_DATA_PER_PAGE)"
    have off: "off = (unat Pos + BytesCopied) mod YAFFS2_DATA_PER_PAGE" "off < YAFFS2_DATA_PER_PAGE"
      using at page_offset_less by (simp_all add: off_def unat_mod YAFFS2_DATA_PER_PAGE_def)
    have "(unat Pos + BytesCopied) div YAFFS2_DATA_PER_PAGE < 2 ^ 32"
      using assms(7) True by (simp add: YAFFS2_DATA_PER_PAGE_def)
    then have k: "unat k = (unat Pos + BytesCopied) div YAFFS2_DATA_PER_PAGE"
      using at by (simp add: k_def unsigned_ucast_eq take_bit_nat_eq_self unat_div YAFFS2_DATA_PER_PAGE_def)
    define n where "n = piece_len off (ReadLen - BytesCopied)"
    have n: "0 < n" "n \<le> ReadLen - BytesCopied" "off + n \<le> YAFFS2_DATA_PER_PAGE"
      using True off(2) unfolding n_def piece_len_def by (simp_all split: if_split) linarith+
    have cap: "BytesCopied + n \<le> Cap" using n(2) True assms(4) by linarith
    have step: "read_loop nd ob Pos Cap ReadLen s BytesCopied Buf = do {
        (s1, err, d) \<leftarrow> read_chunk nd ob s k off n;
        if err then Some (s1, if BytesCopied > 0 then EFI_SUCCESS else EFI_DEVICE_ERROR, Buf)
        else read_loop nd ob Pos Cap ReadLen s1 (BytesCopied + n) (Buf @ d) }"
      using True cap by (subst read_loop.simps)
        (simp add: At_def [symmetric] k_def [symmetric] off_def [symmetric] n_def [symmetric] Let_def
          del: read_loop.simps cong: if_cong)
    obtain s1 err d where c: "read_chunk nd ob s k off n = Some (s1, err, d)" "dev_ok s1"
        "err \<longrightarrow> \<not> reads_succeed nd dev_ok ob"
        "\<not> err \<Longrightarrow> length d = n"
        "\<And>page. \<not> err \<Longrightarrow> stable_pages nd dev_ok page \<Longrightarrow> d = chunk_bytes page ob (unat k) off n"
      using read_chunk_run [OF less.prems(1) assms(2) n(3), of k] by metis
    show ?thesis
    proof (cases err)
      case True
      then show ?thesis using c less.prems step by (auto simp del: read_loop.simps)
    next
      case False
      have "length (Buf @ d) = BytesCopied + n" using less.prems(3) c(4) [OF False] by simp
      moreover have "BytesCopied + n \<le> ReadLen" "ReadLen - (BytesCopied + n) < ReadLen - BytesCopied"
        using n(1,2) by linarith+
      ultimately obtain s' st e where r:
          "read_loop nd ob Pos Cap ReadLen s1 (BytesCopied + n) (Buf @ d) = Some (s', st, e)" "dev_ok s'"
          "st \<in> {EFI_SUCCESS, EFI_DEVICE_ERROR}"
          "BytesCopied + n \<le> length e" "length e \<le> ReadLen"
          "reads_succeed nd dev_ok ob \<longrightarrow> st = EFI_SUCCESS \<and> length e = ReadLen"
          "\<forall>page. stable_pages nd dev_ok page \<longrightarrow>
             e = (Buf @ d) @ map (\<lambda>j. file_byte page ob (unat Pos + j)) [BytesCopied + n..<length e]"
        using less.hyps [of "BytesCopied + n" s1 "Buf @ d"] c(2) by metis
      have idx: "unat k * YAFFS2_DATA_PER_PAGE + (off + j) = unat Pos + (BytesCopied + j)" for j
        using div_mult_mod_eq [of "unat Pos + BytesCopied" YAFFS2_DATA_PER_PAGE]
        unfolding k off(1) by linarith
      have d: "d = map (\<lambda>j. file_byte page ob (unat Pos + j)) [BytesCopied..<BytesCopied + n]"
        if "stable_pages nd dev_ok page" for page
        using c(5) [OF False that] by (auto simp: chunk_bytes_def idx intro!: nth_equalityI)
      have up: "[BytesCopied..<length e] = [BytesCopied..<BytesCopied + n] @ [BytesCopied + n..<length e]"
        using r(4) by (metis le_add1 le_Suc_ex upt_add_eq_append)
      have "e = Buf @ map (\<lambda>j. file_byte page ob (unat Pos + j)) [BytesCopied..<length e]"
        if "stable_pages nd dev_ok page" for page
        using r(7) d [OF that] that up by simp
      then show ?thesis using False c(1) r step by (simp del: read_loop.simps)
    qed
  qed
qed


text \<open>
  The contract of a read from a file: \<open>want\<close> bytes are left in the file and fit in the buffer.
\<close>

lemma file_read_run:
  assumes "dev_ok s" and "tree_ok v" and "obj_of v (if_OFile h) = Some ob"
    and "o_Type ob \<noteq> YAFFS2_TYPE_DIR" and "if_Position h < o_FileSize ob"
    and "unat (if_Position h) + unat n < 2 ^ 64"
    and "unat (o_FileSize ob) \<le> YAFFS2_DATA_PER_PAGE * 2 ^ 32"
    and "want = min (unat n) (unat (o_FileSize ob) - unat (if_Position h))"
  shows "\<exists>s' st d. dev_ok s' \<and> length d \<le> want \<and>
    (reads_succeed nd dev_ok ob \<longrightarrow> st = EFI_SUCCESS \<and> length d = want) \<and>
    (\<forall>page. stable_pages nd dev_ok page \<longrightarrow>
       d = map (\<lambda>j. file_byte page ob (unat (if_Position h) + j)) [0..<length d]) \<and>
    Yaffs2Read nd epoch v s (Some h) (Some n) True =
      (if st = EFI_SUCCESS
       then Some (s', Some (h\<lparr>if_Position := if_Position h + of_nat (length d)\<rparr>), EFI_SUCCESS,
              Some (of_nat (length d)), FileData d)
       else Some (s', Some h, EFI_DEVICE_ERROR, Some n, NoData))"
proof -
  let ?pos = "if_Position h"
  have le: "unat ?pos \<le> unat (o_FileSize ob)" using assms(5) by (simp add: word_less_nat_alt)
  define R where "R = (if ?pos + n > o_FileSize ob then o_FileSize ob - ?pos else n)"
  have sum: "unat (?pos + n) = unat ?pos + unat n"
    using assms(6) unat_add_of_nat [of ?pos "unat n"] by simp
  have fold: "(if o_FileSize ob < ?pos + n then o_FileSize ob - ?pos else n) = R"
    by (simp add: R_def)
  have R: "unat R = want"
    using le sum assms(8) by (auto simp: R_def word_less_nat_alt unat_sub word_le_nat_alt)
  obtain i where "object_ok i ob"
    using volume_ok_object [OF tree_ok_volume [OF assms(2)] assms(3)] by blast
  moreover have "want \<le> unat n" "unat ?pos + want < 2 ^ 64"
      "unat ?pos + want \<le> YAFFS2_DATA_PER_PAGE * 2 ^ 32"
    using assms(6-8) le by linarith+
  ultimately obtain s' st d where r: "read_loop nd ob ?pos (unat n) want s 0 [] = Some (s', st, d)"
      "dev_ok s'" "st \<in> {EFI_SUCCESS, EFI_DEVICE_ERROR}" "length d \<le> want"
      "reads_succeed nd dev_ok ob \<longrightarrow> st = EFI_SUCCESS \<and> length d = want"
      "\<forall>page. stable_pages nd dev_ok page \<longrightarrow>
         d = map (\<lambda>j. file_byte page ob (unat ?pos + j)) [0..<length d]"
    using read_loop_run [of s i ob 0 want "unat n" "[]" ?pos] assms(1) by auto
  have "Yaffs2Read nd epoch v s (Some h) (Some n) True =
      (if st = EFI_SUCCESS
       then Some (s', Some (h\<lparr>if_Position := ?pos + of_nat (length d)\<rparr>), EFI_SUCCESS,
              Some (of_nat (length d)), FileData d)
       else Some (s', Some h, EFI_DEVICE_ERROR, Some n, NoData))"
    using assms(3-5) r(1,3) R
    by (auto simp: Yaffs2Read_def fold Let_def simp del: read_loop.simps)
  then show ?thesis using r(2,4,5,6) by blast
qed

end

subsection \<open>Enumerating a directory\<close>

definition display_spec :: "yaffs2_volume \<Rightarrow> nat \<Rightarrow> yaffs2_object" where
  "display_spec v c = (case obj_of v c of None \<Rightarrow> zero_object 0 | Some cob \<Rightarrow>
     if o_Type cob = YAFFS2_TYPE_HARDLINK \<and> o_EquivId cob \<noteq> 0
     then (case obj_of v (unat (o_EquivId cob)) of None \<Rightarrow> cob
           | Some t \<Rightarrow> t\<lparr>o_Name := o_Name cob\<rparr>)
     else cob)"

definition entry_info :: "(u64 \<Rightarrow> 't) \<Rightarrow> yaffs2_volume \<Rightarrow> nat \<Rightarrow> 't efi_file_info" where
  "entry_info epoch v c = (let Obj = display_spec v c; n = length (c_str (o_Name Obj)) in
     fill_file_info epoch Obj n (of_nat (SIZE_OF_EFI_FILE_INFO + (n + 1) * 2)))"

text \<open>\<open>n\<close> calls of \<open>Read\<close> on one handle, and what each leaves in the buffer.\<close>

fun read_times ::
    "'s nand_proto \<Rightarrow> (u64 \<Rightarrow> 't) \<Rightarrow> yaffs2_volume \<Rightarrow> u64 \<Rightarrow> nat \<Rightarrow> 's \<Rightarrow> yaffs2_ifile option \<Rightarrow>
     (efi_status \<times> 't read_data) list option" where
  "read_times nd epoch v B 0 s h = Some []"
| "read_times nd epoch v B (Suc n) s h = do {
     (s1, h1, st, sz, d) \<leftarrow> Yaffs2Read nd epoch v s h (Some B) True;
     map_option (Cons (st, d)) (read_times nd epoch v B n s1 h1)
   }"

lemma c_str_short: "0 \<in> set s \<Longrightarrow> length (c_str s) < length s"
  by (induction s) (auto simp: c_str_Cons)

lemma display_object_eq:
  assumes "tree_ok v" and "obj_of v c = Some cob"
  shows "display_object v cob = Some (display_spec v c)"
    and "o_Name (display_spec v c) = o_Name cob"
proof -
  have len: "length (v_Objects v) = Suc (unat (v_MaxObjId v))" using assms by (rule tree_ok_array)
  have "o_EquivId cob \<le> v_MaxObjId v \<longleftrightarrow> unat (o_EquivId cob) < length (v_Objects v)"
    by (simp add: len word_le_nat_alt less_Suc_eq_le)
  then show "display_object v cob = Some (display_spec v c)"
    using assms(2) by (auto simp: display_object_def display_spec_def obj_at_eq word_gt_0
        obj_of_def split: option.splits)
  show "o_Name (display_spec v c) = o_Name cob"
    using assms(2) by (auto simp: display_spec_def split: option.split)
qed

text \<open>An entry takes at most 592 bytes: the name of an object has at most 255 characters.\<close>

lemma entry_size:
  assumes "tree_ok v" and "obj_of v c = Some cob"
  shows "fi_Size (entry_info epoch v c) \<le> 592"
proof -
  have "0 \<in> set (o_Name cob)" "length (o_Name cob) = 256"
    using tree_ok_name [OF assms] by simp_all
  then have n: "length (c_str (o_Name cob)) < 256" using c_str_short [of "o_Name cob"] by simp
  then have "unat (of_nat (SIZE_OF_EFI_FILE_INFO + (length (c_str (o_Name cob)) + 1) * 2) :: u64) =
      SIZE_OF_EFI_FILE_INFO + (length (c_str (o_Name cob)) + 1) * 2"
    by (intro unat_of_nat_small) (simp add: SIZE_OF_EFI_FILE_INFO_def)
  moreover have "SIZE_OF_EFI_FILE_INFO + (length (c_str (o_Name cob)) + 1) * 2 \<le> 592"
    using n by (simp add: SIZE_OF_EFI_FILE_INFO_def)
  ultimately show ?thesis using display_object_eq(2) [OF assms]
    by (simp add: entry_info_def fill_file_info_def Let_def word_le_nat_alt del: of_nat_add of_nat_Suc of_nat_mult)
qed

lemma read_entry:
  assumes "tree_ok v" and "obj_of v i = Some ob" and "o_Type ob = YAFFS2_TYPE_DIR"
    and "o_Children ob = cs @ c # ds" and "if_OFile h = i" and "if_DirCursor h = CurEntry c"
    and "fi_Size (entry_info epoch v c) \<le> B"
  shows "Yaffs2Read nd epoch v s (Some h) (Some B) True = Some (s,
      Some (h\<lparr>if_DirCursor := (case ds of [] \<Rightarrow> CurHead i | d # _ \<Rightarrow> CurEntry d),
              if_Position := if_Position h + 1\<rparr>),
      EFI_SUCCESS, Some (fi_Size (entry_info epoch v c)), InfoData (entry_info epoch v c))"
proof -
  have "c \<in> set (o_Children ob)" using assms(4) by simp
  then obtain cob where cob: "obj_of v c = Some cob" "o_Parent cob = Some i"
    using tree_ok_child [OF assms(1,2)] by blast
  note disp = display_object_eq [OF assms(1) cob(1)]
  have nm: "0 \<in> set (o_Name cob)" "length (o_Name cob) = 256"
    using tree_ok_name [OF assms(1) cob(1)] by simp_all
  define n where "n = length (c_str (o_Name cob))"
  have n: "AsciiStrLen (o_Name (display_spec v c)) = Some n" "n < 256"
    using nm c_str_short [of "o_Name cob"] disp(2) by (simp_all add: AsciiStrLen_def n_def)
  have info: "fill_file_info epoch (display_spec v c) n (of_nat (SIZE_OF_EFI_FILE_INFO + (n + 1) * 2)) =
      entry_info epoch v c"
    using disp(2) by (simp add: entry_info_def Let_def n_def)
  have size: "fi_Size (entry_info epoch v c) = of_nat (SIZE_OF_EFI_FILE_INFO + (n + 1) * 2)"
    using info by (simp add: fill_file_info_def Let_def flip: info)
  have big: "\<not> B < of_nat (SIZE_OF_EFI_FILE_INFO + (n + 1) * 2)" using assms(7) size by simp
  have b: "BuildFileInfo epoch (display_spec v c) True B =
      Some (EFI_SUCCESS, fi_Size (entry_info epoch v c), Some (entry_info epoch v c))"
    using big info size n(1) by (simp add: BuildFileInfo_def Let_def del: of_nat_add)
  have "distinct (o_Children ob)" using tree_ok_children [OF assms(1,2)] .
  then have "next_of (cs @ c # ds) i c = (case ds of [] \<Rightarrow> CurHead i | d # _ \<Rightarrow> CurEntry d)"
    unfolding assms(4) by (induction cs) auto
  then have "ForwardLink v c = Some (case ds of [] \<Rightarrow> CurHead i | d # _ \<Rightarrow> CurEntry d)"
    using cob assms(2,4) by (simp add: ForwardLink_def)
  then show ?thesis
    using assms(2,3,5,6) cob(1) disp(1) b by (simp add: Yaffs2Read_def read_dir_def)
qed

lemma read_entries:
  assumes "tree_ok v" and "obj_of v i = Some ob" and "o_Type ob = YAFFS2_TYPE_DIR"
    and "o_Children ob = cs @ ds" and "if_OFile h = i"
    and "if_DirCursor h = (case ds of [] \<Rightarrow> CurHead i | d # _ \<Rightarrow> CurEntry d)" and "592 \<le> B"
  shows "read_times nd epoch v B (Suc (length ds)) s (Some h) =
    Some (map (\<lambda>c. (EFI_SUCCESS, InfoData (entry_info epoch v c))) ds @ [(EFI_SUCCESS, NoData)])"
  using assms(4-6)
proof (induction ds arbitrary: cs h)
  case Nil
  then show ?case using assms(2,3) by (simp add: Yaffs2Read_def read_dir_def)
next
  case (Cons c ds)
  let ?h = "h\<lparr>if_DirCursor := (case ds of [] \<Rightarrow> CurHead i | d # _ \<Rightarrow> CurEntry d),
              if_Position := if_Position h + 1\<rparr>"
  have "read_times nd epoch v B (Suc (length ds)) s (Some ?h) =
      Some (map (\<lambda>c. (EFI_SUCCESS, InfoData (entry_info epoch v c))) ds @ [(EFI_SUCCESS, NoData)])"
    using Cons.IH [of "cs @ [c]" ?h] Cons.prems by simp
  moreover have "c \<in> set (o_Children ob)" using Cons.prems(1) by simp
  then obtain cob where "obj_of v c = Some cob" using tree_ok_child [OF assms(1,2)] by blast
  then have "fi_Size (entry_info epoch v c) \<le> B"
    using entry_size [OF assms(1)] assms(7) order_trans by blast
  ultimately show ?case
    using read_entry [OF assms(1-3) Cons.prems(1,2), of epoch B nd s] Cons.prems(3) by simp
qed

lemma read_short_entry:
  assumes "tree_ok v" and "obj_of v i = Some ob" and "o_Type ob = YAFFS2_TYPE_DIR"
    and "c \<in> set (o_Children ob)" and "if_OFile h = i" and "if_DirCursor h = CurEntry c"
    and "B < fi_Size (entry_info epoch v c)"
  shows "Yaffs2Read nd epoch v s (Some h) (Some B) buf =
    Some (s, Some h, EFI_BUFFER_TOO_SMALL, Some (fi_Size (entry_info epoch v c)), NoData)"
proof -
  obtain cob where cob: "obj_of v c = Some cob" using tree_ok_child [OF assms(1,2,4)] by blast
  note disp = display_object_eq [OF assms(1) cob]
  have n: "AsciiStrLen (o_Name (display_spec v c)) = Some (length (c_str (o_Name cob)))"
    using tree_ok_name [OF assms(1) cob] disp(2) by (simp add: AsciiStrLen_def)
  have size: "fi_Size (entry_info epoch v c) =
      of_nat (SIZE_OF_EFI_FILE_INFO + (length (c_str (o_Name cob)) + 1) * 2)"
    using disp(2) by (simp add: entry_info_def fill_file_info_def Let_def)
  have "BuildFileInfo epoch (display_spec v c) buf B =
      Some (EFI_BUFFER_TOO_SMALL, fi_Size (entry_info epoch v c), None)"
    using assms(7) n by (simp add: BuildFileInfo_def Let_def size del: of_nat_add)
  then show ?thesis
    using assms(2,3,5,6) cob disp(1) by (simp add: Yaffs2Read_def read_dir_def)
qed

text \<open>Every operation leaves a handle in the state the next one relies on.\<close>

lemma next_of_member: "c \<in> set xs \<Longrightarrow> next_of xs p c = CurHead p \<or> (\<exists>d \<in> set xs. next_of xs p c = CurEntry d)"
proof (induction xs)
  case (Cons x xs)
  then show ?case by (cases xs) auto
qed simp

lemma read_dir_handle_ok:
  assumes "tree_ok v" and "handle_ok v h" and "obj_of v (if_OFile h) = Some ob"
    and "o_Type ob = YAFFS2_TYPE_DIR" and "read_dir epoch v h buf B = Some (h', st, n, d)"
  shows "handle_ok v h' \<and> if_OFile h' = if_OFile h"
proof (cases "if_DirCursor h")
  case (CurEntry c)
  have c: "c \<in> set (o_Children ob)" using assms(2-4) CurEntry by (simp add: handle_ok_def)
  then obtain cob where cob: "obj_of v c = Some cob" "o_Parent cob = Some (if_OFile h)"
    using tree_ok_child [OF assms(1,3)] by blast
  have "ForwardLink v c = Some (next_of (o_Children ob) (if_OFile h) c)"
    using cob assms(3) by (simp add: ForwardLink_def)
  then show ?thesis using assms(2-5) CurEntry cob next_of_member [OF c, of "if_OFile h"]
    by (auto simp: read_dir_def handle_ok_def bind_eq_Some_conv split: if_splits option.splits)
qed (use assms in \<open>auto simp: read_dir_def split: if_splits\<close>)

lemma handle_ok_position [simp]: "handle_ok v (h\<lparr>if_Position := p\<rparr>) = handle_ok v h"
  by (cases "obj_of v (if_OFile h)"; cases "if_DirCursor h") (simp_all add: handle_ok_def)

lemma SetPosition_handle_ok:
  assumes "handle_ok v h"
  shows "\<exists>st h'. Yaffs2SetPosition v (Some h) pos = Some (st, Some h') \<and> handle_ok v h'"
proof -
  obtain ob where ob: "obj_of v (if_OFile h) = Some ob" using handle_ok_object [OF assms] by blast
  have "handle_ok v (h\<lparr>if_DirCursor := first_entry (if_OFile h) ob, if_Position := 0\<rparr>)"
    using ob by (simp add: handle_ok_def first_entry_def split: list.split)
  then show ?thesis using ob assms by (simp add: Yaffs2SetPosition_def)
qed

end
