(* ===== verification/Yaffs2Info.thy ===== *)
theory Yaffs2Info
  imports Yaffs2Read
begin

text \<open>
  Metadata of files and of the volume (\<open>Info.c\<close>), and the life cycle of the volume
  (\<open>Volume.c\<close>): what it allocates, what each exit frees.
\<close>

subsection \<open>\<open>GetInfo\<close>\<close>

datatype efi_info_type = FileInfoGuid | FileSystemInfoGuid | VolumeLabelGuid | OtherGuid

record efi_fs_info =
  fs_Size :: u64
  fs_ReadOnly :: bool
  fs_VolumeSize :: u64
  fs_FreeSpace :: u64
  fs_BlockSize :: u32
  fs_VolumeLabel :: "u16 list"

datatype 't info_data = NoInfo | FileInfo "'t efi_file_info" | FsInfo efi_fs_info | VolumeLabel "u16 list"

definition SIZE_OF_EFI_FILE_SYSTEM_INFO :: nat where "SIZE_OF_EFI_FILE_SYSTEM_INFO = 36"
definition SIZEOF_EFI_FILE_SYSTEM_VOLUME_LABEL :: nat where "SIZEOF_EFI_FILE_SYSTEM_VOLUME_LABEL = 2"

text \<open>\<open>L"MikroTik NAND"\<close>, without the terminator.\<close>

definition YAFFS2_VOLUME_LABEL :: "u16 list" where
  "YAFFS2_VOLUME_LABEL = [0x4D, 0x69, 0x6B, 0x72, 0x6F, 0x54, 0x69, 0x6B, 0x20, 0x4E, 0x41, 0x4E, 0x44]"

text \<open>The status, \<open>*BufferSize\<close>, and what the buffer holds afterwards.\<close>

definition Yaffs2GetInfo ::
    "'s nand_proto \<Rightarrow> (u64 \<Rightarrow> 't) \<Rightarrow> yaffs2_volume \<Rightarrow> yaffs2_ifile option \<Rightarrow> efi_info_type option \<Rightarrow>
     u64 option \<Rightarrow> bool \<Rightarrow> (efi_status \<times> u64 option \<times> 't info_data) option" where
  "Yaffs2GetInfo nd epoch v This InformationType BufferSizeP Buffer =
     (case (This, InformationType, BufferSizeP) of
       (Some IFile, Some Type, Some BufferSize) \<Rightarrow> do {
         let LabelLen = length YAFFS2_VOLUME_LABEL;
         let answer = (\<lambda>Needed out. if BufferSize < Needed
           then Some (EFI_BUFFER_TOO_SMALL, Some Needed, NoInfo)
           else if \<not> Buffer then None
           else Some (EFI_SUCCESS, Some Needed, out));
         case Type of
           FileInfoGuid \<Rightarrow> do {
             OFile \<leftarrow> obj_of v (if_OFile IFile);
             NameLen \<leftarrow> (if v_Root v = Some (if_OFile IFile) then Some 0 else AsciiStrLen (o_Name OFile));
             let Needed = of_nat (SIZE_OF_EFI_FILE_INFO + (NameLen + 1) * 2);
             answer Needed (FileInfo (fill_file_info epoch OFile NameLen Needed))
           }
         | FileSystemInfoGuid \<Rightarrow>
             let Needed = of_nat (SIZE_OF_EFI_FILE_SYSTEM_INFO + (LabelLen + 1) * 2)
             in answer Needed (FsInfo \<lparr>fs_Size = Needed, fs_ReadOnly = True,
                  fs_VolumeSize = ucast (nf_NumBlocks nd) * ucast (nf_PagesPerBlock nd) *
                    of_nat YAFFS2_DATA_PER_PAGE,
                  fs_FreeSpace = 0, fs_BlockSize = of_nat YAFFS2_DATA_PER_PAGE,
                  fs_VolumeLabel = YAFFS2_VOLUME_LABEL @ [0]\<rparr>)
         | VolumeLabelGuid \<Rightarrow>
             let Needed = of_nat (SIZEOF_EFI_FILE_SYSTEM_VOLUME_LABEL + (LabelLen + 1) * 2)
             in answer Needed (VolumeLabel (YAFFS2_VOLUME_LABEL @ [0]))
         | OtherGuid \<Rightarrow> Some (EFI_UNSUPPORTED, BufferSizeP, NoInfo)
       }
     | _ \<Rightarrow> Some (EFI_INVALID_PARAMETER, BufferSizeP, NoInfo))"

lemma info_size_unat:
  "n < 256 \<Longrightarrow> unat (of_nat (SIZE_OF_EFI_FILE_INFO + (n + 1) * 2) :: u64) = SIZE_OF_EFI_FILE_INFO + (n + 1) * 2"
  by (intro unat_of_nat_small) (simp add: SIZE_OF_EFI_FILE_INFO_def)

text \<open>
  The name in the answer: empty for the root. A first call with an empty buffer returns the size with
  which the second call succeeds.
\<close>

definition shown_name :: "yaffs2_volume \<Rightarrow> nat \<Rightarrow> yaffs2_object \<Rightarrow> bytes" where
  "shown_name v i ob = (if v_Root v = Some i then [] else c_str (o_Name ob))"

lemma take_c_str: "take (length (c_str s)) s = c_str s"
  by (induction s) (auto simp: c_str_Cons c_str_def)

lemma GetInfo_file:
  assumes "tree_ok v" and "obj_of v (if_OFile h) = Some ob"
    and "need = of_nat (SIZE_OF_EFI_FILE_INFO + (length (shown_name v (if_OFile h) ob) + 1) * 2)"
  shows "Yaffs2GetInfo nd epoch v (Some h) (Some FileInfoGuid) (Some B) buf =
    (if B < need then Some (EFI_BUFFER_TOO_SMALL, Some need, NoInfo)
     else if \<not> buf then None
     else Some (EFI_SUCCESS, Some need, FileInfo (fill_file_info epoch ob
       (length (shown_name v (if_OFile h) ob)) need)))"
proof -
  have "AsciiStrLen (o_Name ob) = Some (length (c_str (o_Name ob)))"
    using tree_ok_name [OF assms(1,2)] by (simp add: AsciiStrLen_def)
  then show ?thesis using assms
    by (simp add: Yaffs2GetInfo_def shown_name_def Let_def c_str_def del: of_nat_add of_nat_Suc of_nat_mult)
qed

lemma file_info_name:
  assumes "tree_ok v" and "obj_of v i = Some ob"
  shows "fi_FileName (fill_file_info epoch ob (length (shown_name v i ob)) sz) =
    map ucast (shown_name v i ob) @ [0]"
  by (simp add: fill_file_info_def Let_def shown_name_def take_c_str)

subsection \<open>The volume and its memory\<close>

text \<open>The pool blocks the driver allocates for a volume.\<close>

datatype pool_block = VolumeBlock | PageBufferBlock | ObjectsBlock | ObjectBlock nat | ChunksBlock nat

text \<open>The blocks that are allocated once a volume has been scanned.\<close>

definition volume_blocks :: "yaffs2_volume \<Rightarrow> pool_block set" where
  "volume_blocks v = {VolumeBlock, PageBufferBlock} \<union> (if v_Objects v = [] then {} else {ObjectsBlock}) \<union>
     {ObjectBlock i | i. obj_of v i \<noteq> None} \<union>
     {ChunksBlock i | i. \<exists>ob. obj_of v i = Some ob \<and> o_Chunks ob \<noteq> []}"

definition free_slot :: "yaffs2_volume \<Rightarrow> nat \<Rightarrow> pool_block list option" where
  "free_slot v i = map_option (\<lambda>slot. case slot of None \<Rightarrow> []
     | Some ob \<Rightarrow> (if o_Chunks ob \<noteq> [] then [ChunksBlock i] else []) @ [ObjectBlock i]) (obj_at v i)"

fun free_slots :: "yaffs2_volume \<Rightarrow> nat \<Rightarrow> nat \<Rightarrow> pool_block list option" where
  "free_slots v i 0 = Some []"
| "free_slots v i (Suc n) = do {
     bs \<leftarrow> free_slot v i;
     rest \<leftarrow> free_slots v (Suc i) n;
     Some (bs @ rest)
   }"

text \<open>The calls of \<open>FreePool\<close>, in order.\<close>

definition Yaffs2FreeVolume :: "yaffs2_volume \<Rightarrow> pool_block list option" where
  "Yaffs2FreeVolume v = do {
     bs \<leftarrow> (if v_Objects v \<noteq> []
           then map_option (\<lambda>bs. bs @ [ObjectsBlock]) (free_slots v 0 (Suc (unat (v_MaxObjId v))))
           else Some []);
     Some (bs @ [PageBufferBlock, VolumeBlock])
   }"

text \<open>
  \<open>Yaffs2AllocateVolume\<close>: the device, the status, the volume, and the blocks freed on the way out.
  \<open>alVolume\<close>, \<open>alBuffer\<close> tell whether the first two allocations succeed, \<open>install\<close> is the status of
  the installation of the protocol.
\<close>

definition Yaffs2AllocateVolume ::
    "'s nand_proto \<Rightarrow> bool \<Rightarrow> bool \<Rightarrow> allocator \<Rightarrow> efi_status \<Rightarrow> 's \<Rightarrow>
     ('s \<times> efi_status \<times> yaffs2_volume option \<times> pool_block list) option" where
  "Yaffs2AllocateVolume nd alVolume alBuffer al install s =
     (if \<not> alVolume then Some (s, EFI_OUT_OF_RESOURCES, None, [])
      else if \<not> alBuffer then Some (s, EFI_OUT_OF_RESOURCES, None, [VolumeBlock])
      else do {
        (s1, v, Status) \<leftarrow> Yaffs2ScanNand nd al empty_volume s;
        if EFI_ERROR Status
        then Some (s1, Status, None,
               (if v_Objects v \<noteq> [] then [ObjectsBlock] else []) @ [PageBufferBlock, VolumeBlock])
        else if EFI_ERROR install
        then map_option (\<lambda>bs. (s1, install, None, bs)) (Yaffs2FreeVolume v)
        else Some (s1, EFI_SUCCESS, Some v, [])
      })"

lemma free_slots_eq:
  assumes "i + n \<le> length (v_Objects v)"
  shows "\<exists>bs. free_slots v i n = Some bs \<and> distinct bs \<and>
    set bs = {ObjectBlock j | j. i \<le> j \<and> j < i + n \<and> obj_of v j \<noteq> None} \<union>
      {ChunksBlock j | j. i \<le> j \<and> j < i + n \<and> (\<exists>ob. obj_of v j = Some ob \<and> o_Chunks ob \<noteq> [])}"
  using assms
proof (induction n arbitrary: i)
  case (Suc n)
  obtain bs where bs: "free_slots v (Suc i) n = Some bs" "distinct bs"
    "set bs = {ObjectBlock j | j. Suc i \<le> j \<and> j < Suc i + n \<and> obj_of v j \<noteq> None} \<union>
      {ChunksBlock j | j. Suc i \<le> j \<and> j < Suc i + n \<and> (\<exists>ob. obj_of v j = Some ob \<and> o_Chunks ob \<noteq> [])}"
    using Suc.IH [of "Suc i"] Suc.prems by auto
  have "obj_at v i = Some (obj_of v i)" using Suc.prems by (simp add: obj_at_eq)
  then show ?case using bs
    by (cases "obj_of v i") (auto simp: free_slot_def Suc_le_eq order_le_less)
qed simp

lemma FreeVolume_eq:
  assumes "volume_ok v"
  shows "\<exists>bs. Yaffs2FreeVolume v = Some bs \<and> distinct bs \<and> set bs = volume_blocks v"
proof (cases "v_Objects v = []")
  case True
  then show ?thesis by (auto simp: Yaffs2FreeVolume_def volume_blocks_def obj_of_def)
next
  case False
  then have len: "length (v_Objects v) = Suc (unat (v_MaxObjId v))" using assms by (simp add: volume_ok_bounds)
  obtain bs where bs: "free_slots v 0 (Suc (unat (v_MaxObjId v))) = Some bs" "distinct bs"
    "set bs = {ObjectBlock j | j. 0 \<le> j \<and> j < 0 + Suc (unat (v_MaxObjId v)) \<and> obj_of v j \<noteq> None} \<union>
      {ChunksBlock j | j. 0 \<le> j \<and> j < 0 + Suc (unat (v_MaxObjId v)) \<and>
         (\<exists>ob. obj_of v j = Some ob \<and> o_Chunks ob \<noteq> [])}"
    using free_slots_eq [of 0 "Suc (unat (v_MaxObjId v))" v] len by auto
  have "obj_of v j \<noteq> None \<Longrightarrow> j < Suc (unat (v_MaxObjId v))" for j
    using obj_of_live_less [of v j] len by simp
  then show ?thesis using bs False
    by (fastforce simp: Yaffs2FreeVolume_def volume_blocks_def)
qed

end
