(* ===== verification/Yaffs2Example.thy ===== *)
theory Yaffs2Example
  imports NandChip Yaffs2Info
begin

text \<open>
  Small concrete inputs, at which the theorems of the file system are applied: a chip with a root
  directory and a file of one chunk, the events of such a chip, and the volume they lead to.
\<close>

definition ex_header :: "u32 \<Rightarrow> u32 \<Rightarrow> bytes \<Rightarrow> u32 \<Rightarrow> bytes" where
  "ex_header ty par name len = bytes32 ty @ bytes32 par @ [0, 0] @ name @
     replicate (282 - length name) 0 @ bytes32 len @ replicate 1736 0"

lemma length_ex_header: "length name \<le> 282 \<Longrightarrow> length (ex_header ty par name len) = 2032"
  by (simp add: ex_header_def)

definition ex_tags :: "u32 \<Rightarrow> u32 \<Rightarrow> u32 \<Rightarrow> u32 \<Rightarrow> bytes" where
  "ex_tags sq obj chunk n = bytes32 sq @ bytes32 obj @ bytes32 chunk @ bytes32 n"

lemma raw_tags_ex_tags: "raw_tags (ex_tags sq obj chunk n) = Some (sq, obj, chunk, n)"
proof -
  have "le32 (bytes32 a @ xs) 0 = a" "le32 (bytes32 a @ bytes32 b @ xs) 4 = b"
    "le32 (bytes32 a @ bytes32 b @ bytes32 c @ xs) 8 = c"
    "le32 (bytes32 a @ bytes32 b @ bytes32 c @ bytes32 d) 12 = d" for a b c d xs
    using le32_bytes32 [of a] le32_bytes32 [of b] le32_bytes32 [of c] le32_bytes32 [of d]
    by (simp_all add: le32_def bytes32_def)
  then show ?thesis by (simp add: raw_tags_def ex_tags_def)
qed

text \<open>Page 0 is the header of the root, page 1 of the file \<open>a\<close>, page 2 its data; all else is erased.\<close>

definition ex_page :: "nat \<Rightarrow> bytes" where
  "ex_page p = (if p = 0 then ex_header 3 1 [] 0 @ ex_tags 0x1000 1 0x80000000 0
     else if p = 1 then ex_header 1 1 [0x61] 5 @ ex_tags 0x1000 2 0x80000000 0
     else if p = 2 then [0x78, 0x79, 0x7A] @ replicate 2029 0xFF @ ex_tags 0x1000 2 1 3
     else replicate 2048 0xFF)"

definition ex_mem :: flash_mem where
  "ex_mem p c = ex_page p ! c"

definition ex_map :: bytes where "ex_map = replicate 128 0"

lemma length_ex_page: "length (ex_page p) = 2048"
  by (simp add: ex_page_def length_ex_header ex_tags_def)

lemma ex_not_bad: "unat p < 65536 \<Longrightarrow> \<not> block_bad ex_map p"
proof -
  assume "unat p < 65536"
  then have "unat p div 64 div 8 < 128" by simp
  then show ?thesis by (simp add: block_bad_def ex_map_def)
qed

lemma ex_chip_pages: "unat p < 65536 \<Longrightarrow> chip_pages ex_map ex_mem p = Some (ex_page (unat p))"
  by (simp add: chip_pages_def ex_not_bad ex_mem_def length_ex_page list_eq_iff_nth_eq)

lemma ex_chip_tags: "unat p < 65536 \<Longrightarrow> chip_tags ex_map ex_mem p = Some (drop 2032 (ex_page (unat p)))"
  by (simp add: chip_tags_def ex_not_bad ex_mem_def length_ex_page list_eq_iff_nth_eq del: upt_rec_numeral)

lemma ex_page_tags:
  assumes "unat p < 65536"
  shows "page_tags (chip_tags ex_map ex_mem) p =
    (if unat p = 0 then Some (0x1000, 1, 0x80000000, 0)
     else if unat p = 1 then Some (0x1000, 2, 0x80000000, 0)
     else if unat p = 2 then Some (0x1000, 2, 1, 3)
     else Some (0xFFFFFFFF, 0xFFFFFFFF, 0xFFFFFFFF, 0xFFFFFFFF))"
proof -
  have "raw_tags (replicate 16 0xFF) = Some (0xFFFFFFFF, 0xFFFFFFFF, 0xFFFFFFFF, 0xFFFFFFFF)"
    by (simp add: raw_tags_def le32_def)
  moreover have "drop 2032 (ex_page 0) = ex_tags 0x1000 1 0x80000000 0"
    "drop 2032 (ex_page 1) = ex_tags 0x1000 2 0x80000000 0" "drop 2032 (ex_page 2) = ex_tags 0x1000 2 1 3"
    by (simp_all add: ex_page_def length_ex_header)
  moreover have "drop 2032 (ex_page n) = replicate 16 0xFF" if "n \<noteq> 0" "n \<noteq> 1" "n \<noteq> 2" for n
    using that by (simp add: ex_page_def)
  ultimately show ?thesis by (simp add: page_tags_def ex_chip_tags [OF assms] raw_tags_ex_tags)
qed

definition ex_tags_of :: "u32 \<Rightarrow> yaffs2_tags" where
  "ex_tags_of obj = \<lparr>t_SeqNumber = 0x1000, t_ObjId = obj, t_ChunkId = 0, t_NBytes = 0, t_IsHeader = True\<rparr>"

definition ex_data_tags :: "u32 \<Rightarrow> yaffs2_tags" where
  "ex_data_tags sq = \<lparr>t_SeqNumber = sq, t_ObjId = 2, t_ChunkId = 1, t_NBytes = 3, t_IsHeader = False\<rparr>"

definition ex_events :: "yaffs2_event list" where
  "ex_events = [HeaderPage (ex_page 0) (ex_tags_of 1) 0, HeaderPage (ex_page 1) (ex_tags_of 2) 1,
     DataPage (ex_data_tags 0x1000) 2]"

text \<open>The events of the chip are those of the three pages.\<close>

lemma ex_block_0: "block_events 64 (chip_tags ex_map ex_mem) (chip_pages ex_map ex_mem) 0 = ex_events"
proof -
  let ?tg = "chip_tags ex_map ex_mem" and ?pg = "chip_pages ex_map ex_mem"
  have s: "summary_of 64 ?tg ?pg 63 = None" by (simp add: summary_of_def ex_page_tags)
  note ev = ex_page_tags ex_chip_pages header_event_def Let_def seq_in_range_def pseudo_object_def
    yaffs2_consts ex_tags_of_def ex_data_tags_def
  have "page_events ?tg ?pg (Suc n) 0 = HeaderPage (ex_page 0) (ex_tags_of 1) 0 # page_events ?tg ?pg n 1"
    "page_events ?tg ?pg (Suc n) 1 = HeaderPage (ex_page 1) (ex_tags_of 2) 1 # page_events ?tg ?pg n 2"
    "page_events ?tg ?pg (Suc n) 2 = DataPage (ex_data_tags 0x1000) 2 # page_events ?tg ?pg n 3"
    "page_events ?tg ?pg (Suc n) 3 = []" for n
    by (simp_all add: ev)
  then have "page_events ?tg ?pg (Suc (Suc (Suc (Suc 60)))) 0 = ex_events"
    by (simp only: ex_events_def)
  then have "page_events ?tg ?pg 64 0 = ex_events" by simp
  then show ?thesis using s by (simp add: block_events_def ex_page_tags Let_def)
qed

lemma ex_flash_events:
  "flash_events (nand_flash_protocol (chip_bus ex_mem)) (chip_tags ex_map ex_mem) (chip_pages ex_map ex_mem) =
   ex_events"
proof -
  let ?ev = "block_events 64 (chip_tags ex_map ex_mem) (chip_pages ex_map ex_mem)"
  have "?ev i = []" if "1 \<le> i" "i < 1024" for i
  proof -
    have u: "unat (of_nat i * 64 :: u32) = i * 64"
      using that by (simp add: unat_word_ariths unat_of_nat_small)
    then have "page_tags (chip_tags ex_map ex_mem) (of_nat i * 64) =
        Some (0xFFFFFFFF, 0xFFFFFFFF, 0xFFFFFFFF, 0xFFFFFFFF)"
      using that by (subst ex_page_tags) auto
    then show ?thesis by (simp add: block_events_def Let_def)
  qed
  then have "concat (map ?ev [1..<1024]) = []" by simp
  moreover have "[0..<1024] = 0 # [1..<1024]" by (simp add: upt_rec [of 0])
  ultimately have "concat (map ?ev [0..<1024]) = ex_events" using ex_block_0 by simp
  then show ?thesis by (simp add: flash_events_def nand_flash_protocol_def benand_consts)
qed

lemma ex_events_safe: "\<forall>e \<in> set ex_events. id_safe (t_ObjId (ev_tags e))"
  by (simp add: ex_events_def ex_tags_of_def ex_data_tags_def id_safe_def)

lemma ex_chip_ok: "chip_ok ex_map (fresh_context ch)"
  using ctx_ok_fresh [of ch] by (simp add: chip_ok_def fresh_context_def ex_map_def)

text \<open>Two versions of one chunk, the older one behind the newer.\<close>

definition ex_versions :: "yaffs2_event list" where
  "ex_versions = ex_events @ [DataPage (ex_data_tags 0x1001) 5, DataPage (ex_data_tags 0x1000) 9]"

lemma ex_versions_ok: "\<forall>e \<in> set ex_versions. event_ok e"
  by (simp add: ex_versions_def ex_events_def ex_tags_of_def ex_data_tags_def event_ok_def id_safe_def
      seq_in_range_def yaffs2_consts length_ex_page)

lemma ex_versions_run:
  assumes "set es \<subseteq> set ex_versions"
  shows "\<exists>v. scan_events al es v"
  using apply_events_ok [of empty_volume es al] ex_versions_ok assms by (auto simp: scan_events_def)

subsection \<open>A scanned volume\<close>

definition ex_root :: yaffs2_object where
  "ex_root = (zero_object 1)\<lparr>o_ParentId := 1, o_Type := 3, o_HeaderSeq := 0x1000, o_Children := [2]\<rparr>"

definition ex_file :: yaffs2_object where
  "ex_file = (zero_object 2)\<lparr>o_ParentId := 1, o_Type := 1, o_Name := 0x61 # replicate 255 0,
     o_FileSize := 5, o_HeaderSeq := 0x1000, o_HeaderPage := 1, o_Parent := Some 1,
     o_ChunkCount := 1, o_ChunkAlloc := 8,
     o_Chunks := \<lparr>c_PageIndex = 2, c_NBytes = 3, c_SeqNumber = 0x1000\<rparr> # replicate 7 chunk_unset\<rparr>"

definition ex_volume :: yaffs2_volume where
  "ex_volume = \<lparr>v_Objects = [None, Some ex_root, Some ex_file], v_MaxObjId = 2, v_Root = Some 1\<rparr>"

lemma ex_obj: "obj_of ex_volume i = (if i = 1 then Some ex_root else if i = 2 then Some ex_file else None)"
  by (auto simp: obj_of_def ex_volume_def nth_Cons' numeral_2_eq_2 less_Suc_eq)

lemma ex_volume_ok: "volume_ok ex_volume"
proof -
  have "object_ok 1 ex_root" "object_ok 2 ex_file"
    by (simp_all add: object_ok_def ex_root_def ex_file_def zero_object_def)
  then show ?thesis
    by (auto simp: volume_ok_def ex_obj split: if_splits) (simp_all add: ex_volume_def)
qed

lemma ex_tree_ok: "tree_ok ex_volume"
  using ex_volume_ok
  by (auto simp: tree_ok_def ex_obj ex_root_def ex_file_def zero_object_def split: if_splits)
    (simp_all add: ex_volume_def)

lemma ex_handle: "handle_ok ex_volume (new_handle ex_volume 1)"
  by (rule handle_ok_new) (simp add: ex_obj)

end
