(* ===== verification/FileSystem.thy ===== *)
theory FileSystem
  imports Yaffs2Example
begin

text \<open>
  What the NAND driver and the file system on it achieve together: the properties of the scan, of
  the tree it builds, of opening and of reading files. The bus of the driver is arbitrary where the
  property is about safety, and the reference chip of theory \<open>NandChip\<close> where it is about contents.
\<close>

subsection \<open>The driver\<close>

text \<open>The data buffer is read byte for byte: of \<open>n\<close> bytes requested, those from \<open>skip\<close> on and
  up to \<open>tail\<close> before the end are stored, in the order and byte order of the words the FIFO delivers,
  and exactly the words that hold the \<open>n\<close> bytes are taken from it.\<close>

theorem buffer_read_bytes:
  assumes "\<not> no_wrapper obj" and "cw_size_remaining obj = 0"
    and "unat (cw_size obj) * unat (cw_count_remaining obj) < 2 ^ 32"
    and "n \<le> unat (cw_size obj) * unat (cw_count_remaining obj)"
  shows "\<exists>a b. al_nand_data_buff_read bus n skip tail (obj, h) =
    Some ((obj\<lparr>cw_size_remaining := a, cw_count_remaining := b\<rparr>, fst (fifo_bytes bus ((n + 3) div 4) h)), 0,
      drop skip (take (n - tail) (snd (fifo_bytes bus ((n + 3) div 4) h))))"
  using data_buff_read_wrapper [OF assms] .

theorem buffer_read_bytes_witness:
  "\<exists>c'. al_nand_data_buff_read \<lparr>al_reg_read32 = (\<lambda>r h. (h + 1, 0x44332211)), al_reg_write32 = (\<lambda>r w h. h)\<rparr>
     6 1 1 (configured_obj\<lparr>cw_size := 8, cw_count_remaining := 1, cw_size_remaining := 0\<rparr>, 0 :: nat) =
     Some (c', 0, [0x22, 0x33, 0x44, 0x11])"
proof -
  let ?bus = "\<lparr>al_reg_read32 = (\<lambda>r h. (h + 1, 0x44332211)), al_reg_write32 = (\<lambda>r w h. h)\<rparr> :: nat nand_bus"
  have "snd (fifo_bytes ?bus (Suc (Suc 0)) 0) = [0x11, 0x22, 0x33, 0x44, 0x11, 0x22, 0x33, 0x44]"
    by (simp add: bytes32_def)
  then have "drop 1 (take (6 - 1) (snd (fifo_bytes ?bus ((6 + 3) div 4) 0))) = [0x22, 0x33, 0x44, 0x11]"
    by (simp add: numeral_2_eq_2)
  moreover have "\<not> no_wrapper (configured_obj\<lparr>cw_size := 8, cw_count_remaining := 1, cw_size_remaining := 0\<rparr>)"
    by (simp add: configured_obj_def)
  ultimately show ?thesis
    using buffer_read_bytes [of "configured_obj\<lparr>cw_size := 8, cw_count_remaining := 1, cw_size_remaining := 0\<rparr>"
        6 ?bus 1 1 0] by fastforce
qed

text \<open>The generator of the read sequence never succeeds for a length of 1532 bytes without error
  correction: it lays out four code words of 384 bytes while the size it checks is that of three code
  words of 512.\<close>

theorem page_read_1532:
  assumes "benand_obj obj"
  shows "al_nand_cmd_seq_gen_page_read obj column row 1532 False capacity \<in>
    {Some (- EIO, [], 384, 4), None}"
proof -
  have "length (page_read_seq obj column row False 384 4) = 15"
    using assms by (simp add: page_read_seq_def Let_def benand_obj_def)
  then show ?thesis
    using assms by (simp add: al_nand_cmd_seq_gen_page_read_def cmd_seq_size_page_read_def benand_obj_def
        AL_ALIGN_UP4_def Let_def)
qed

theorem page_read_1532_witness:
  "al_nand_cmd_seq_gen_page_read configured_obj 0 0 1532 False 64 \<in> {Some (- EIO, [], 384, 4), None}"
  by (rule page_read_1532) (simp add: benand_obj_def configured_obj_def)

text \<open>C8: The flash protocol of the NAND driver serves the contents of the chip: the read of a page
  returns its data, the read of its tags bytes 2032 to 2047, and the read of the page body that
  follows returns the data of the same page; a page of a bad block reads as erased, and a page past the
  end is an error.\<close>

theorem driver_serves_chip:
  "flash_content (nand_flash_protocol (chip_bus mem)) (chip_ok bb) (chip_tags bb mem) (chip_pages bb mem)"
  by (rule chip_content)

text \<open>Whatever the controller answers, every read of the flash protocol returns, fills the
  caller's buffer exactly when it succeeds, succeeds on every page of the device, and leaves the
  geometry and the bad-block map alone.\<close>

theorem driver_reads_total:
  assumes "ctx_ok Ctx"
  shows "(\<exists>Ctx' st d. AlNandFlashReadPage bus Ctx Page = Some (Ctx', st, d) \<and> ctx_ok Ctx' \<and>
      same_map Ctx Ctx' \<and> (EFI_ERROR st \<or> length d = 2048) \<and> (Page < BENAND_NUM_PAGES \<longrightarrow> st = EFI_SUCCESS)) \<and>
    (\<exists>Ctx' st d. AlNandFlashReadTags bus Ctx Page = Some (Ctx', st, d) \<and> ctx_ok Ctx' \<and>
      same_map Ctx Ctx' \<and> (EFI_ERROR st \<or> length d = 16) \<and> (Page < BENAND_NUM_PAGES \<longrightarrow> st = EFI_SUCCESS)) \<and>
    (\<exists>Ctx' d. AlNandFlashReadPageBody bus Ctx = Some (Ctx', EFI_SUCCESS, d) \<and> ctx_ok Ctx' \<and>
      same_map Ctx Ctx' \<and> length d = 2048)"
  by (intro conjI FlashReadPage_ok [OF assms] FlashReadTags_ok [OF assms] FlashReadPageBody_ok [OF assms])

theorem driver_reads_total_witness:
  "\<exists>Ctx' d. AlNandFlashReadPageBody (chip_bus ex_mem) (fresh_context \<lparr>ch_addr = [], ch_page = 0, ch_col = 0\<rparr>) =
     Some (Ctx', EFI_SUCCESS, d) \<and> length d = 2048"
  using driver_reads_total [OF ctx_ok_fresh [of "\<lparr>ch_addr = [], ch_page = 0, ch_col = 0\<rparr>"],
      of "chip_bus ex_mem"]
  by blast

text \<open>The scan for bad blocks returns, and afterwards a block of the device is bad exactly when the
  first spare byte of its first page was read different from \<open>0xFF\<close>; a block past the end is bad.\<close>

theorem bad_blocks:
  assumes "ctx_ok Ctx"
  shows "\<exists>Ctx'. AlNandScanBadBlocks bus Ctx = Some Ctx' \<and> ctx_ok Ctx' \<and>
    length (oob_markers bus 1024 0 Ctx) = 1024 \<and>
    (\<forall>Block. AlNandIsBlockBad Ctx' Block =
       Some (unat Block \<ge> 1024 \<or> oob_markers bus 1024 0 Ctx ! unat Block \<noteq> 0xFF))"
proof -
  obtain Ctx' where r: "AlNandScanBadBlocks bus Ctx = Some Ctx'" "ctx_ok Ctx'"
      "length (oob_markers bus 1024 0 Ctx) = 1024"
      "\<forall>b < 1024. map_bit Ctx' b = (oob_markers bus 1024 0 Ctx ! b \<noteq> 0xFF)"
    using ScanBadBlocks_run [OF assms] by blast
  have "AlNandIsBlockBad Ctx' Block =
      Some (unat Block \<ge> 1024 \<or> oob_markers bus 1024 0 Ctx ! unat Block \<noteq> 0xFF)" for Block
  proof (cases "unat Block < 1024")
    case True
    then show ?thesis using IsBlockBad_bit [OF r(2) True] r(4) by simp
  next
    case False
    then have "Block \<ge> NumBlocks Ctx'"
      using r(2) by (simp add: ctx_ok_def BENAND_NUM_BLOCKS_def word_le_nat_alt)
    then show ?thesis using False by (simp add: AlNandIsBlockBad_def)
  qed
  then show ?thesis using r by blast
qed

theorem bad_blocks_witness:
  "\<exists>Ctx'. AlNandScanBadBlocks (chip_bus ex_mem) (fresh_context \<lparr>ch_addr = [], ch_page = 0, ch_col = 0\<rparr>) = Some Ctx' \<and>
     AlNandIsBlockBad Ctx' 1024 = Some True"
  using bad_blocks [OF ctx_ok_fresh [of "\<lparr>ch_addr = [], ch_page = 0, ch_col = 0\<rparr>"], of "chip_bus ex_mem"]
  by fastforce

text \<open>A read of whole pages through the block I/O protocol, inside the device, returns the pages
  the flash protocol returns one by one.\<close>

theorem block_read_pages:
  assumes "ctx_ok Ctx" and "MediaId = Media_MediaId Ctx" and "BufferSize \<noteq> 0"
    and "unat BufferSize = n * 2048" and "unat Lba + n \<le> 65536"
  shows "\<exists>Ctx' d. AlNandBlockIoReadBlocks bus Ctx MediaId Lba BufferSize True = Some (Ctx', EFI_SUCCESS, d) \<and>
    flash_pages bus n (ucast Lba) Ctx = Some (Ctx', d) \<and> ctx_ok Ctx' \<and> length d = unat BufferSize"
  using ReadBlocks_run [OF assms] .

theorem block_read_pages_witness:
  "\<exists>Ctx' d. AlNandBlockIoReadBlocks (chip_bus ex_mem) (fresh_context \<lparr>ch_addr = [], ch_page = 0, ch_col = 0\<rparr>)
     0 2 4096 True = Some (Ctx', EFI_SUCCESS, d) \<and> length d = 4096"
  using block_read_pages [OF ctx_ok_fresh [of "\<lparr>ch_addr = [], ch_page = 0, ch_col = 0\<rparr>"], of 0 4096 2 2
      "chip_bus ex_mem"]
  by (auto simp: fresh_context_def)

text \<open>The range check of a block read is done in 32 bits: a logical block address whose low 32
  bits are small is served from the wrong place instead of being rejected.\<close>

theorem block_read_lba_truncated:
  assumes "ctx_ok Ctx"
  shows "\<exists>Ctx' d. AlNandBlockIoReadBlocks bus Ctx (Media_MediaId Ctx) 0x100000000 2048 True =
      Some (Ctx', EFI_SUCCESS, d) \<and>
    AlNandBlockIoReadBlocks bus Ctx (Media_MediaId Ctx) 0 2048 True = Some (Ctx', EFI_SUCCESS, d)"
proof -
  have ps: "PageSize Ctx = 2048" "NumPages Ctx = 65536"
    using assms by (simp_all add: ctx_ok_def benand_consts)
  have zero: "(0x100000000 :: u32) = 0" by (simp add: word_unat_eq_iff)
  have "AlNandBlockIoReadBlocks bus Ctx (Media_MediaId Ctx) 0x100000000 2048 True =
      AlNandBlockIoReadBlocks bus Ctx (Media_MediaId Ctx) 0 2048 True"
    by (simp add: AlNandBlockIoReadBlocks_def ps zero)
  moreover have "\<exists>Ctx' d. AlNandBlockIoReadBlocks bus Ctx (Media_MediaId Ctx) 0 2048 True =
      Some (Ctx', EFI_SUCCESS, d)"
    using ReadBlocks_run [OF assms refl, of 2048 1 0 bus] by auto
  ultimately show ?thesis by auto
qed

theorem block_read_lba_truncated_witness:
  "\<exists>Ctx' d. AlNandBlockIoReadBlocks (chip_bus ex_mem) (fresh_context \<lparr>ch_addr = [], ch_page = 0, ch_col = 0\<rparr>)
     0 0x100000000 2048 True = Some (Ctx', EFI_SUCCESS, d)"
  using block_read_lba_truncated [OF ctx_ok_fresh [of "\<lparr>ch_addr = [], ch_page = 0, ch_col = 0\<rparr>"],
      of "chip_bus ex_mem"]
  by (auto simp: fresh_context_def)

subsection \<open>The scan\<close>

text \<open>A set of states of the driver that its reads do not leave gives the contract of the scan again.\<close>

definition reads_keep :: "'h nand_bus \<Rightarrow> ('h al_nand_context \<Rightarrow> bool) \<Rightarrow> bool" where
  "reads_keep bus stays = (\<forall>s p s' st b. ctx_ok s \<and> stays s \<and> (AlNandFlashReadPage bus s p = Some (s', st, b) \<or>
     AlNandFlashReadTags bus s p = Some (s', st, b) \<or> AlNandFlashReadPageBody bus s = Some (s', st, b)) \<longrightarrow> stays s')"

lemma driver_contract:
  assumes "reads_keep bus stays"
  shows "nand_flash (nand_flash_protocol bus) (\<lambda>s. ctx_ok s \<and> stays s)"
proof unfold_locales
  fix s p
  assume s: "ctx_ok s \<and> stays s"
  let ?nd = "nand_flash_protocol bus"
  have k: "stays s'" if "nf_ReadPage ?nd s p = Some (s', st, b) \<or> nf_ReadTags ?nd s p = Some (s', st, b) \<or>
      nf_ReadPageBody ?nd s = Some (s', st, b)" for s' st b
    using assms s that unfolding reads_keep_def nand_flash_protocol_def nand_proto.simps by blast
  show "\<exists>s' st b. nf_ReadPage ?nd s p = Some (s', st, b) \<and> (ctx_ok s' \<and> stays s') \<and>
      (EFI_ERROR st \<or> length b = unat (nf_PageSize ?nd))"
    using al_nand.read_page [of s bus p] s k by blast
  show "\<exists>s' st b. nf_ReadTags ?nd s p = Some (s', st, b) \<and> (ctx_ok s' \<and> stays s') \<and> (EFI_ERROR st \<or> length b = 16)"
    using al_nand.read_tags [of s bus p] s k by blast
  show "\<exists>s' st b. nf_ReadPageBody ?nd s = Some (s', st, b) \<and> (ctx_ok s' \<and> stays s') \<and>
      (EFI_ERROR st \<or> length b = unat (nf_PageSize ?nd))"
    using al_nand.read_body [of s bus] s k by blast
qed (rule al_nand.page_size al_nand.pages_per_block al_nand.pages_fit)+

text \<open>C7: The scan of the flash through the driver returns without a memory fault and leaves a well-formed
  volume (object arrays, names and chunk arrays of the sizes their fields claim, parent and child links
  that agree and only point to live objects) for every controller and any flash contents whose object
  ids are below \<open>0xFFFFFFBF\<close>; the status is success exactly when object 1 is a directory. An id from
  there on makes \<open>EnsureObjectsCapacity\<close> wrap around, so this is a condition on the flash: on what the
  tags and the checked summaries announce in the states \<open>stays\<close> that the driver's reads do not leave.\<close>

theorem scan_safe:
  assumes "ctx_ok Ctx" and "stays Ctx" and "reads_keep bus stays"
    and "flash_ids_safe (nand_flash_protocol bus) (\<lambda>s. ctx_ok s \<and> stays s)"
  shows "\<exists>Ctx' v. Yaffs2ScanNand (nand_flash_protocol bus) al empty_volume Ctx = Some (Ctx', v, root_status v) \<and>
    ctx_ok Ctx' \<and> stays Ctx' \<and> tree_ok v"
  using nand_flash.scan_run [OF driver_contract [OF assms(3)] assms(4), of Ctx al] assms(1,2) scan_events_ok(5)
  by blast

lemma chip_ids_safe:
  assumes "\<And>p raw. page_tags (chip_tags bb mem) p = Some raw \<Longrightarrow> \<not> AreTagsErased raw \<Longrightarrow>
      id_safe (t_ObjId (ParseTagWords raw))"
    and "\<And>n sq es e. read_summary 64 (map (mem n) [0..<2048]) = Some (Some (sq, es)) \<Longrightarrow> e \<in> set es \<Longrightarrow>
      id_safe (t_ObjId (entry_tags sq e))"
  shows "flash_ids_safe (nand_flash_protocol (chip_bus mem)) (chip_ok bb)"
  unfolding flash_ids_safe_def
proof (intro conjI allI impI)
  fix s p s' st b raw
  assume a: "chip_ok bb s \<and> nf_ReadTags (nand_flash_protocol (chip_bus mem)) s p = Some (s', st, b) \<and>
    \<not> EFI_ERROR st \<and> raw_tags b = Some raw \<and> \<not> AreTagsErased raw"
  then have "page_tags (chip_tags bb mem) p = Some raw"
    using chip_ReadTags [of bb s mem p] by (auto simp: read_gives_def page_tags_def split: option.splits)
  then show "id_safe (t_ObjId (ParseTagWords raw))" using assms(1) a by blast
next
  fix s s' st b sq es e
  assume a: "chip_ok bb s \<and> nf_ReadPageBody (nand_flash_protocol (chip_bus mem)) s = Some (s', st, b) \<and>
    \<not> EFI_ERROR st \<and> read_summary (nf_PagesPerBlock (nand_flash_protocol (chip_bus mem))) b = Some (Some (sq, es)) \<and>
    e \<in> set es"
  define h1 where "h1 = body_sent (chip_bus mem) s"
  have "ctx_ok s" using a by (simp add: chip_ok_def)
  then obtain obj' where "AlNandFlashReadPageBody (chip_bus mem) s =
      Some (with_hal s (obj', fst (fifo_bytes (chip_bus mem) 512 h1)), EFI_SUCCESS,
        take 2048 (snd (fifo_bytes (chip_bus mem) 512 h1)))"
    using FlashReadPageBody_run [OF _ h1_def] by blast
  moreover have "ch_col h1 = 0" using commands_change_column by (simp add: h1_def body_sent_def chip_sent)
  ultimately have "b = map (mem (ch_page h1)) [0..<2048]"
    using a by (simp add: chip_fifo nand_flash_protocol_def)
  then show "id_safe (t_ObjId (entry_tags sq e))"
    using assms(2) a unfolding nand_flash_protocol_def by (simp add: benand_consts) blast
qed

lemma ex_no_summary: "read_summary 64 (map (ex_mem n) [0..<2048]) = Some None"
proof -
  have p: "map (ex_mem n) [0..<2048] = ex_page n"
    using length_ex_page [of n] by (auto simp: ex_mem_def intro: nth_equalityI)
  have v: "le32 (ex_page 0) 0 = 3" "le32 (ex_page 2) 0 \<noteq> 1" "n \<noteq> 0 \<Longrightarrow> n \<noteq> 1 \<Longrightarrow> n \<noteq> 2 \<Longrightarrow> le32 (ex_page n) 0 \<noteq> 1"
    by (simp_all add: ex_page_def ex_header_def le32_def bytes32_def nth_append)
  show ?thesis
  proof (cases "n = 1")
    case True
    have h: "ex_page 1 = ex_header 1 1 [0x61] 5 @ ex_tags 0x1000 2 0x80000000 0" by (simp add: ex_page_def)
    have "take 756 (drop 16 (ex_page 1)) = replicate 276 0 @ bytes32 5 @ replicate 476 0"
      unfolding h by (simp add: ex_header_def bytes32_def ex_tags_def)
    moreover have "foldl (\<lambda>Sum d. Sum + ucast d) x (replicate k (0 :: u8)) = (x :: u32)" for x k
      by (induction k) simp_all
    ultimately have "SummaryChecksum (take 756 (drop 16 (ex_page 1))) = 5"
      by (simp add: SummaryChecksum_def bytes32_def)
    moreover have "le32 (ex_page 1) 12 = 0" unfolding h by (simp add: ex_header_def le32_def bytes32_def nth_append)
    ultimately show ?thesis using True length_ex_page [of 1] unfolding p
      by (simp add: read_summary_def Let_def yaffs2_consts)
  next
    case False
    then have "le32 (ex_page n) 0 \<noteq> 1" using v by (cases "n = 0"; cases "n = 2") auto
    then show ?thesis using length_ex_page [of n] by (simp add: p read_summary_def Let_def)
  qed
qed

theorem scan_safe_witness:
  "\<exists>Ctx' v. Yaffs2ScanNand (nand_flash_protocol (chip_bus ex_mem)) (\<lambda>p k. True) empty_volume
     (fresh_context \<lparr>ch_addr = [], ch_page = 0, ch_col = 0\<rparr>) = Some (Ctx', v, root_status v) \<and>
     chip_ok ex_map Ctx' \<and> tree_ok v"
proof -
  have "id_safe (t_ObjId (ParseTagWords raw))"
    if "page_tags (chip_tags ex_map ex_mem) p = Some raw" "\<not> AreTagsErased raw" for p raw
    using that ex_page_tags [of p]
    by (cases "unat p < 65536")
      (auto simp: page_tags_def chip_tags_def ParseTagWords.simps AreTagsErased.simps id_safe_def Let_def split: if_splits)
  then have "flash_ids_safe (nand_flash_protocol (chip_bus ex_mem)) (chip_ok ex_map)"
    by (rule chip_ids_safe) (auto simp: ex_no_summary)
  moreover have "chip_ok ex_map = (\<lambda>s. ctx_ok s \<and> chip_ok ex_map s)" by (auto simp: chip_ok_def)
  moreover have "reads_keep (chip_bus ex_mem) (chip_ok ex_map)"
    unfolding reads_keep_def
  proof (intro allI impI, elim conjE disjE)
    fix s s' st b p
    assume ok: "chip_ok ex_map s"
    let ?nd = "nand_flash_protocol (chip_bus ex_mem)"
    have sel: "nf_ReadPage ?nd = AlNandFlashReadPage (chip_bus ex_mem)"
      "nf_ReadTags ?nd = AlNandFlashReadTags (chip_bus ex_mem)"
      "nf_ReadPageBody ?nd = AlNandFlashReadPageBody (chip_bus ex_mem)"
      by (simp_all add: nand_flash_protocol_def)
    show "chip_ok ex_map s'" if "AlNandFlashReadPage (chip_bus ex_mem) s p = Some (s', st, b)"
      using chip.read_page [OF ok, of ex_mem p] that unfolding sel by auto
    show "chip_ok ex_map s'" if "AlNandFlashReadTags (chip_bus ex_mem) s p = Some (s', st, b)"
      using chip.read_tags [OF ok, of ex_mem p] that unfolding sel by auto
    show "chip_ok ex_map s'" if "AlNandFlashReadPageBody (chip_bus ex_mem) s = Some (s', st, b)"
      using chip.read_body [OF ok, of ex_mem] that unfolding sel by auto
  qed
  ultimately show ?thesis
    using scan_safe [of "fresh_context \<lparr>ch_addr = [], ch_page = 0, ch_col = 0\<rparr>" "chip_ok ex_map" "chip_bus ex_mem"
        "\<lambda>p k. True"] ctx_ok_fresh ex_chip_ok by fastforce
qed

text \<open>C1: The scan is a function of the contents of the flash: over the reference chip, the volume is the
  tree of the events that the chip's tags, summaries and page data announce, in the order of the blocks
  and pages. The only assumption is that the object ids stay below the bound at which the object
  array's capacity wraps around.\<close>

theorem scan_of_chip:
  assumes "chip_ok bb Ctx"
    and "\<forall>e \<in> set (flash_events (nand_flash_protocol (chip_bus mem)) (chip_tags bb mem) (chip_pages bb mem)).
      id_safe (t_ObjId (ev_tags e))"
  shows "\<exists>Ctx' v. scan_events al
      (flash_events (nand_flash_protocol (chip_bus mem)) (chip_tags bb mem) (chip_pages bb mem)) v \<and>
    chip_ok bb Ctx' \<and>
    Yaffs2ScanNand (nand_flash_protocol (chip_bus mem)) al empty_volume Ctx =
      Some (Ctx', tree_of v, root_status (tree_of v))"
  using chip.scan_content [OF chip_content assms(1) chip.flash_events_ok [OF chip_content assms]] .

theorem scan_of_chip_witness:
  "\<exists>Ctx' v. scan_events (\<lambda>p k. True) ex_events v \<and>
    Yaffs2ScanNand (nand_flash_protocol (chip_bus ex_mem)) (\<lambda>p k. True) empty_volume
      (fresh_context \<lparr>ch_addr = [], ch_page = 0, ch_col = 0\<rparr>) = Some (Ctx', tree_of v, root_status (tree_of v))"
  using scan_of_chip [OF ex_chip_ok, of ex_mem "\<lambda>p k. True" "\<lparr>ch_addr = [], ch_page = 0, ch_col = 0\<rparr>"]
    ex_events_safe
  unfolding ex_flash_events by blast

text \<open>C33: A block whose summary agrees with the tags of its pages yields the same events from the
  summary as from a page-by-page scan.\<close>

theorem summary_equals_pages:
  assumes "summary_of ppb tg pg (base + (ppb - 1)) = Some (sq, es)"
    and "\<forall>i < length es. describes tg sq (base + of_nat i) (es ! i)" and "length es < unat ppb"
    and "length es = unat ppb - 1 \<or> \<not> tags_written tg (base + of_nat (length es))"
  shows "entry_events pg sq es base = page_events tg pg (unat ppb) base"
  using summary_same_events [OF assms] .

definition ex_summary :: bytes where
  "ex_summary = bytes32 1 @ bytes32 0 @ bytes32 0x1000 @ bytes32 0xC @ bytes32 5 @ bytes32 7 @ bytes32 0 @
     replicate 2020 0xFF"

theorem summary_equals_pages_witness:
  "\<exists>tg pg sq es. summary_of 2 tg pg 1 = Some (sq, es) \<and> es \<noteq> [] \<and>
     entry_events pg sq es 0 = page_events tg pg 2 0"
proof -
  define tg :: pages where "tg p = Some (if p = 0 then ex_tags 0x1000 5 7 0 else ex_tags 0x1000 0x10 1 0)" for p
  define pg :: pages where "pg p = Some ex_summary" for p
  have sum: "read_summary 2 ex_summary = Some (Some (0x1000, [(5, 7, 0)]))"
    by (simp add: read_summary_def ex_summary_def bytes32_def le32_def Let_def yaffs2_consts seq_in_range_def
        SummaryChecksum_def)
  have "summary_of 2 tg pg (0 + (2 - 1)) = Some (0x1000, [(5, 7, 0)])"
    by (simp add: summary_of_def page_tags_def tg_def pg_def raw_tags_ex_tags sum YAFFS2_SUMMARY_OBJ_ID_def)
  moreover have "describes tg 0x1000 0 (5, 7, 0)"
    by (simp add: describes_def page_tags_def tg_def raw_tags_ex_tags)
  ultimately show ?thesis using summary_equals_pages [of 2 tg pg 0 "0x1000" "[(5, 7, 0)]"] by fastforce
qed

lemma header_held_parent:
  "header_held (HeaderPage d t p) ob \<Longrightarrow> o_Type ob = le32 d 0 \<and> o_ParentId ob = le32 d 4"
  by simp

lemma ex_kept:
  assumes v: "scan_events (\<lambda>p k. True) ex_versions v"
  shows "kept v 2 \<noteq> None"
proof -
  have mem: "mem_available (\<lambda>p k. True)" by (simp add: mem_available_def)
  have ok: "\<forall>e \<in> set ex_versions. event_ok e" "apply_events (\<lambda>p k. True) ex_versions empty_volume = Some v"
    using v by (simp_all add: scan_events_def)
  have pg1: "le32 (ex_page 1) 0 = 1" "le32 (ex_page 1) 4 = 1"
    by (simp_all add: ex_page_def ex_header_def bytes32_def le32_def)
  have "header_slot v 2 = header_update (HeaderPage (ex_page 1) (ex_tags_of 2) 1) (header_slot empty_volume 2)"
    using header_slot_events [OF volume_ok_empty ok(1) mem ok(2), of 2]
    by (simp add: ex_versions_def ex_events_def ex_tags_of_def ex_data_tags_def)
  moreover have "header_held (HeaderPage (ex_page 1) (ex_tags_of 2) 1)
      (header_update (HeaderPage (ex_page 1) (ex_tags_of 2) 1) (header_slot empty_volume 2))"
    using headers.put_new [of "HeaderPage (ex_page 1) (ex_tags_of 2) 1" "header_slot empty_volume 2"]
    by (simp add: header_stamp_def header_slot_def header_part_def old_object_def obj_of_def empty_volume_def
        zero_object_def length_ex_page ex_tags_of_def)
  ultimately have "o_Type (header_slot v 2) = le32 (ex_page 1) 0 \<and> o_ParentId (header_slot v 2) = le32 (ex_page 1) 4"
    using header_held_parent by metis
  then have "o_Type (old_object v 2) = 1" "o_ParentId (old_object v 2) = 1"
    unfolding pg1 by (simp_all add: header_slot_def header_part_def)
  then show ?thesis
    by (auto simp: kept_def obj_of_pruned old_object_def dropped_object_def yaffs2_consts zero_object_def
        split: option.splits)
qed

text \<open>C3: For every chunk of every object the scan keeps the newest version on the flash: the one with the
  greatest pair of sequence number and page index, wherever it was met; a chunk of which there is no
  version is unset. The tree keeps this for the objects it keeps.\<close>

theorem newest_chunk_kept:
  assumes "scan_events al es v" and "mem_available al" and "kept v i \<noteq> None"
  shows "(filter (is_data_of i k) es = [] \<and> chunk_slot (tree_of v) i k = chunk_unset) \<or>
    (\<exists>e \<in> set es. is_data_of i k e \<and> chunk_slot (tree_of v) i k = chunk_of_event e \<and>
       (\<forall>e' \<in> set es. is_data_of i k e' \<longrightarrow> ev_version e' \<le> ev_version e))"
proof -
  let ?es = "filter (is_data_of i k) es"
  have ok: "\<forall>e \<in> set es. event_ok e" "apply_events al es empty_volume = Some v"
    using assms(1) by (simp_all add: scan_events_def)
  have un: "chunk_slot empty_volume i k = chunk_unset"
    by (simp add: chunk_slot_def obj_of_def empty_volume_def)
  have tree: "chunk_slot (tree_of v) i k = chunk_slot v i k"
    using assms(3) by (auto simp: chunk_slot_def obj_of_tree_of kept_def obj_of_pruned linked_object_def
        chunk_at_def split: option.splits if_splits)
  have slot: "chunk_slot v i k = foldl (\<lambda>c e. put_chunk (ev_tags e) (ev_page e) c) chunk_unset ?es"
    using chunk_slot_events [OF volume_ok_empty ok(1) assms(2) ok(2), of i k] un by simp
  have "chunk_stamp chunk_unset = None" by (simp add: chunk_stamp_def chunk_unset_def yaffs2_consts)
  moreover have "\<forall>e \<in> set ?es. ev_page e \<noteq> YAFFS2_CHUNK_UNSET"
    using ok(1) by (simp add: event_ok_def yaffs2_consts)
  ultimately show ?thesis
    using chunks.newest_of_run [of chunk_unset ?es] slot tree by (cases "?es = []") fastforce+
qed

theorem newest_chunk_kept_witness:
  "\<exists>v. scan_events (\<lambda>p k. True) ex_versions v \<and> kept v 2 \<noteq> None \<and>
     chunk_slot (tree_of v) 2 0 \<noteq> chunk_unset"
proof -
  obtain v where v: "scan_events (\<lambda>p k. True) ex_versions v" using ex_versions_run by blast
  have mem: "mem_available (\<lambda>p k. True)" by (simp add: mem_available_def)
  have k: "kept v 2 \<noteq> None" using v by (rule ex_kept)
  have "filter (is_data_of 2 0) ex_versions \<noteq> []"
    by (simp add: ex_versions_def ex_events_def ex_data_tags_def)
  then show ?thesis using newest_chunk_kept [OF v mem k, of 0] v k
    by (fastforce simp: chunk_of_event_def chunk_unset_def ex_versions_def ex_events_def ex_data_tags_def)
qed

text \<open>C10: Every object of the tree carries the fields of the newest header of its id on the flash.\<close>

theorem newest_header_kept:
  assumes "scan_events al es v" and "mem_available al" and "obj_of (tree_of v) (unat i) = Some ob"
  shows "\<exists>e \<in> set es. is_header_of i e \<and> header_held e ob \<and>
    (\<forall>e' \<in> set es. is_header_of i e' \<longrightarrow> ev_version e' \<le> ev_version e)"
proof -
  let ?es = "filter (is_header_of i) es"
  have ok: "\<forall>e \<in> set es. event_ok e" "apply_events al es empty_volume = Some v"
    using assms(1) by (simp_all add: scan_events_def)
  obtain k where k: "kept v (unat i) = Some k" "ob = linked_object (pruned v (length (v_Objects v)))
      (length (v_Objects v)) (unat i) k"
    using assms(3) by (auto simp: obj_of_tree_of)
  have live: "obj_of v (unat i) = Some k" "unat i = 0 \<or> o_Type k \<noteq> 0"
    using k(1) obj_of_live_less [of v "unat i"]
    by (auto simp: kept_def obj_of_pruned dropped_object_def split: option.splits if_splits)
  have "unat i \<noteq> 0" using live(1) scan_events_ok(3) [OF assms(1)] by (metis option.distinct(1))
  then have ty: "o_Type k \<noteq> 0" using live(2) by simp
  have slot: "header_part k = foldl (\<lambda>c e. header_update e c) (header_slot empty_volume i) ?es"
    using header_slot_events [OF volume_ok_empty ok(1) assms(2) ok(2), of i] live(1)
    by (simp add: header_slot_def old_object_def)
  have zero: "header_slot empty_volume i = header_part (zero_object i)"
    by (simp add: header_slot_def old_object_def obj_of_def empty_volume_def)
  have "?es \<noteq> []"
  proof
    assume "?es = []"
    then have "header_part k = header_part (zero_object i)" using slot zero by simp
    then have "o_Type (header_part k) = o_Type (header_part (zero_object i))" by (rule arg_cong)
    then show False using ty by (simp add: header_part_def zero_object_def)
  qed
  moreover have "header_stamp (header_slot empty_volume i) = None"
    by (simp add: zero header_stamp_def header_part_def zero_object_def)
  moreover have "\<forall>e \<in> set ?es. is_header_page e"
  proof
    fix e assume e: "e \<in> set ?es"
    have "seq_in_range 0 = False" by (simp add: seq_in_range_def yaffs2_consts)
    moreover have "event_ok e" using e ok(1) by simp
    ultimately show "is_header_page e" using e by (cases e) (auto simp: event_ok_def)
  qed
  ultimately obtain e where e: "e \<in> set ?es" "header_held e (header_part k)"
      "\<forall>e' \<in> set ?es. ev_version e' \<le> ev_version e"
    using headers.newest_of_run [of "header_slot empty_volume i" ?es] slot by auto
  have "header_held e ob" using e(2) k(2) by (cases e) (simp_all add: header_part_def linked_object_def)
  then show ?thesis using e by auto
qed

theorem newest_header_kept_witness:
  "\<exists>v ob. scan_events (\<lambda>p k. True) ex_versions v \<and> obj_of (tree_of v) 2 = Some ob \<and>
     header_held (HeaderPage (ex_page 1) (ex_tags_of 2) 1) ob"
proof -
  obtain v where v: "scan_events (\<lambda>p k. True) ex_versions v" using ex_versions_run by blast
  obtain ob where ob: "obj_of (tree_of v) 2 = Some ob" using ex_kept [OF v] by (auto simp: obj_of_tree_of)
  have "mem_available (\<lambda>p k. True)" by (simp add: mem_available_def)
  moreover have "obj_of (tree_of v) (unat (2 :: u32)) = Some ob" using ob by simp
  ultimately obtain e where "e \<in> set ex_versions" "is_header_of 2 e" "header_held e ob"
    using newest_header_kept [OF v] by blast
  then have "header_held (HeaderPage (ex_page 1) (ex_tags_of 2) 1) ob"
    by (auto simp: ex_versions_def ex_events_def ex_tags_of_def ex_data_tags_def)
  then show ?thesis using v ob by blast
qed

lemma chunk_order_independent:
  assumes "scan_events al es v" and "scan_events al es' v'" and "mem_available al"
    and "set es = set es'" and "inj_on ev_version (set es)"
  shows "chunk_slot v i k = chunk_slot v' i k"
proof -
  have ok: "\<forall>e \<in> set es. event_ok e" "apply_events al es empty_volume = Some v"
      "\<forall>e \<in> set es'. event_ok e" "apply_events al es' empty_volume = Some v'"
    using assms(1,2) by (simp_all add: scan_events_def)
  let ?d = "filter (is_data_of i k)"
  have same: "set (?d es) = set (?d es')" using assms(4) by auto
  have inj: "inj_on ev_version (set (?d es))" using assms(5) by (rule inj_on_subset) auto
  have "chunk_stamp chunk_unset = None" by (simp add: chunk_stamp_def chunk_unset_def yaffs2_consts)
  moreover have "\<forall>e \<in> set (?d es). ev_page e \<noteq> YAFFS2_CHUNK_UNSET"
    using ok(1) by (simp add: event_ok_def yaffs2_consts)
  ultimately have "?d es = [] \<or> (\<exists>e \<in> set (?d es).
      foldl (\<lambda>c e. put_chunk (ev_tags e) (ev_page e) c) chunk_unset (?d es) = chunk_of_event e \<and>
      foldl (\<lambda>c e. put_chunk (ev_tags e) (ev_page e) c) chunk_unset (?d es') = chunk_of_event e)"
    using chunks.newest_order_independent [of chunk_unset "?d es" "?d es'"] same inj by auto
  moreover have "?d es = [] \<Longrightarrow> ?d es' = []" using same by auto
  ultimately show ?thesis
    using chunk_slot_events [OF volume_ok_empty ok(1) assms(3) ok(2), of i k]
      chunk_slot_events [OF volume_ok_empty ok(3) assms(3) ok(4), of i k]
    by (auto simp: chunk_slot_def obj_of_def empty_volume_def)
qed

lemma header_order_independent:
  assumes "scan_events al es v" and "scan_events al es' v'" and "mem_available al"
    and "set es = set es'" and "inj_on ev_version (set es)" and "filter (is_header_of j) es \<noteq> []"
  shows "\<exists>e \<in> set es. header_held e (header_slot v j) \<and> header_held e (header_slot v' j)"
proof -
  have ok: "\<forall>e \<in> set es. event_ok e" "apply_events al es empty_volume = Some v"
      "\<forall>e \<in> set es'. event_ok e" "apply_events al es' empty_volume = Some v'"
    using assms(1,2) by (simp_all add: scan_events_def)
  let ?h = "filter (is_header_of j)"
  have same: "set (?h es) = set (?h es')" using assms(4) by auto
  have inj: "inj_on ev_version (set (?h es))" using assms(5) by (rule inj_on_subset) auto
  have "header_stamp (header_slot empty_volume j) = None"
    by (simp add: header_slot_def old_object_def obj_of_def empty_volume_def header_stamp_def
        header_part_def zero_object_def)
  moreover have "\<forall>e \<in> set (?h es). is_header_page e"
  proof
    fix e assume e: "e \<in> set (?h es)"
    have "seq_in_range 0 = False" by (simp add: seq_in_range_def yaffs2_consts)
    moreover have "event_ok e" using e ok(1) by simp
    ultimately show "is_header_page e" using e by (cases e) (auto simp: event_ok_def)
  qed
  ultimately obtain e where "e \<in> set (?h es)"
      "header_held e (foldl (\<lambda>c e. header_update e c) (header_slot empty_volume j) (?h es))"
      "header_held e (foldl (\<lambda>c e. header_update e c) (header_slot empty_volume j) (?h es'))"
    using headers.newest_order_independent [of "header_slot empty_volume j" "?h es" "?h es'"] same inj assms(6)
    by auto
  then show ?thesis
    using header_slot_events [OF volume_ok_empty ok(1) assms(3) ok(2), of j]
      header_slot_events [OF volume_ok_empty ok(3) assms(3) ok(4), of j]
    by auto
qed

text \<open>C34: The order in which the pages are met does not matter: two scans that take in the same
  pages agree on every chunk of every object, and on the header each object comes from.\<close>

theorem scan_order_independent:
  assumes "scan_events al es v" and "scan_events al es' v'" and "mem_available al"
    and "set es = set es'" and "inj_on ev_version (set es)"
  shows "(\<forall>i k. chunk_slot v i k = chunk_slot v' i k) \<and>
    (\<forall>j. filter (is_header_of j) es \<noteq> [] \<longrightarrow>
      (\<exists>e \<in> set es. header_held e (header_slot v j) \<and> header_held e (header_slot v' j)))"
  using chunk_order_independent [OF assms] header_order_independent [OF assms] by blast

theorem scan_order_independent_witness:
  "\<exists>v v'. scan_events (\<lambda>p k. True) ex_versions v \<and> scan_events (\<lambda>p k. True) (rev ex_versions) v' \<and>
     chunk_slot v 2 0 = chunk_slot v' 2 0"
proof -
  obtain v where v: "scan_events (\<lambda>p k. True) ex_versions v" using ex_versions_run by blast
  obtain v' where v': "scan_events (\<lambda>p k. True) (rev ex_versions) v'"
    using ex_versions_run [of "rev ex_versions"] by auto
  have "mem_available (\<lambda>p k. True)" by (simp add: mem_available_def)
  moreover have "inj_on ev_version (set ex_versions)"
    by (auto simp: inj_on_def ex_versions_def ex_events_def ev_version_def ex_data_tags_def ex_tags_of_def)
  ultimately show ?thesis using scan_order_independent [OF v v'] v v' by auto
qed

subsection \<open>The tree\<close>

text \<open>
  The specification of the tree: the directory an object belongs to, orphans belonging to the root.
\<close>

definition tree_parent :: "yaffs2_volume \<Rightarrow> nat \<Rightarrow> nat option" where
  "tree_parent v i = (case kept v i of None \<Rightarrow> None | Some ob \<Rightarrow>
     if i = 1 then None
     else if o_ParentId ob \<noteq> 0 \<and> kept v (unat (o_ParentId ob)) \<noteq> None then Some (unat (o_ParentId ob))
     else if kept v 1 \<noteq> None then Some 1 else None)"

lemma tree_parent_eq:
  assumes "volume_ok v"
  shows "eff_parent (pruned v (length (v_Objects v))) i = tree_parent v i"
proof -
  let ?w = "pruned v (length (v_Objects v))"
  have "obj_of ?w (unat p) = None" if "p > v_MaxObjId v" for p
  proof (rule ccontr)
    assume "obj_of ?w (unat p) \<noteq> None"
    then have "unat p < length (v_Objects v)" "v_Objects v \<noteq> []"
      using obj_of_live_less [of ?w "unat p"] by auto
    then show False using that volume_ok_bounds [OF assms] by (simp add: word_less_nat_alt)
  qed
  then show ?thesis by (auto simp: eff_parent_def tree_parent_def kept_def split: option.split)
qed

text \<open>C11: Building the tree removes exactly the objects without a header and the unlinked and deleted
  ones, links every other object to its directory, and lists the children of each directory
  once each in ascending order of their ids.\<close>

theorem tree_built:
  assumes "volume_ok v" and "volume_unlinked v" and "obj_of v 0 = None"
  shows "\<exists>t. BuildTree v = Some t \<and> v_Root t = (if kept v 1 = None then None else Some 1) \<and>
    (\<forall>i. obj_of t i = map_option (\<lambda>ob. ob\<lparr>o_Parent := tree_parent v i,
       o_Children := filter (\<lambda>c. tree_parent v c = Some i) [1..<length (v_Objects v)]\<rparr>) (kept v i))"
proof -
  have "obj_of (tree_of v) i = map_option (\<lambda>ob. ob\<lparr>o_Parent := tree_parent v i,
       o_Children := filter (\<lambda>c. tree_parent v c = Some i) [1..<length (v_Objects v)]\<rparr>) (kept v i)" for i
  proof (cases "kept v i")
    case (Some ob)
    then have "obj_of v i \<noteq> None" by (auto simp: kept_def obj_of_pruned split: option.splits)
    then have "1 \<le> i" "i < length (v_Objects v)"
      using assms(3) obj_of_live_less [of v i] by (cases i, auto)+
    then show ?thesis using Some
      by (simp add: obj_of_tree_of linked_object_def children_below_def tree_parent_eq [OF assms(1)])
  qed (simp add: obj_of_tree_of)
  then show ?thesis using BuildTree_eq [OF assms(1,2)] v_Root_tree_of [of v] by blast
qed

theorem tree_built_witness:
  "\<exists>v t. scan_events (\<lambda>p k. True) ex_versions v \<and> BuildTree v = Some t \<and>
     v_Root t = (if kept v 1 = None then None else Some 1)"
proof -
  obtain v where v: "scan_events (\<lambda>p k. True) ex_versions v" using ex_versions_run by blast
  then show ?thesis using tree_built [OF scan_events_ok(1-3) [OF v]] by blast
qed

end
