(* ===== verification/EfiFile.thy ===== *)
theory EfiFile
  imports Prelude
begin

text \<open>
  The interface of a UEFI file system as the loader uses it: \<open>EFI_FILE_PROTOCOL\<close> with the state
  \<open>'s\<close> of the device and handles \<open>'h\<close>, which a call passes back when it changes them. \<^const>\<open>None\<close> is a
  call that faults or never returns.

  The locale \<open>efi_files\<close> is the contract of a volume, with the contents of the files reachable from
  the root handle; the YAFFS2 driver discharges it (theory \<open>RouterOSLoader\<close>).
\<close>

record ('s, 'h) efi_file_proto =
  ef_Open :: "'s \<Rightarrow> 'h \<Rightarrow> u16 list \<Rightarrow> u64 \<Rightarrow> ('s \<times> efi_status \<times> 'h option) option"
  ef_GetInfo :: "'s \<Rightarrow> 'h \<Rightarrow> u64 \<Rightarrow> bool \<Rightarrow> ('s \<times> efi_status \<times> u64 \<times> u64) option"
    \<comment> \<open>of type \<open>gEfiFileInfoGuid\<close>: the status, \<open>*BufferSize\<close> and the field \<open>FileSize\<close>\<close>
  ef_Read :: "'s \<Rightarrow> 'h \<Rightarrow> u64 \<Rightarrow> ('s \<times> 'h \<times> efi_status \<times> u64 \<times> bytes) option"

locale efi_files =
  fixes fp :: "('s, 'h) efi_file_proto"
    and vol_ok :: "'s \<Rightarrow> bool"
    and root :: 'h
    and file_data :: "u16 list \<Rightarrow> bytes option"
    and opened :: "'h \<Rightarrow> bytes \<Rightarrow> bool"
  assumes open_file: "vol_ok s \<Longrightarrow> file_data p = Some d \<Longrightarrow>
      \<exists>s' h. ef_Open fp s root p 1 = Some (s', EFI_SUCCESS, Some h) \<and> vol_ok s' \<and> opened h d"
    and info_size: "vol_ok s \<Longrightarrow> opened h d \<Longrightarrow>
      \<exists>s' need x. ef_GetInfo fp s h 0 False = Some (s', EFI_BUFFER_TOO_SMALL, need, x) \<and> vol_ok s' \<and>
        (\<exists>s''. ef_GetInfo fp s' h need True = Some (s'', EFI_SUCCESS, need, of_nat (length d)) \<and> vol_ok s'')"
    and read_all: "vol_ok s \<Longrightarrow> opened h d \<Longrightarrow>
      \<exists>s' h'. ef_Read fp s h (of_nat (length d)) =
        Some (s', h', EFI_SUCCESS, of_nat (length d), d) \<and> vol_ok s'"
    and file_length: "opened h d \<Longrightarrow> length d < 2 ^ 64"

end
