(* ===== verification/Yaffs2Files.thy ===== *)
theory Yaffs2Files
  imports NandChip Yaffs2Info EfiFile
begin

text \<open>
  The YAFFS2 driver on the reference chip as a provider of the file interface: the contents of its
  files, the protocol record, and the proof that it keeps the contract \<open>efi_files\<close>.
\<close>

subsection \<open>Contents\<close>

text \<open>What the chip holds: the driver serves the pages of a bad block as erased.\<close>

definition chip_data :: "bytes \<Rightarrow> flash_mem \<Rightarrow> u32 \<Rightarrow> bytes" where
  "chip_data bb mem p = (if block_bad bb p then replicate 2048 0xFF else map (mem (unat p)) [0..<2048])"

text \<open>The pages of a file are on the chip.\<close>

definition pages_on_chip :: "yaffs2_object \<Rightarrow> bool" where
  "pages_on_chip ob = (\<forall>ck \<in> set (o_Chunks ob). c_PageIndex ck \<noteq> YAFFS2_CHUNK_UNSET \<longrightarrow>
     unat (c_PageIndex ck) < 65536)"

lemma chip_stable_pages:
  "stable_pages (nand_flash_protocol (chip_bus mem)) (chip_ok bb) (chip_data bb mem)"
proof (unfold stable_pages_def, intro allI impI, elim conjE)
  fix s p s' st b
  assume "chip_ok bb s" "nf_ReadPage (nand_flash_protocol (chip_bus mem)) s p = Some (s', st, b)"
    "\<not> EFI_ERROR st"
  then show "b = chip_data bb mem p"
    using chip_ReadPage [of bb s mem p]
    by (auto simp: read_gives_def chip_pages_def chip_data_def split: if_splits)
qed

lemma chip_reads_succeed:
  assumes "pages_on_chip ob"
  shows "reads_succeed (nand_flash_protocol (chip_bus mem)) (chip_ok bb) ob"
  unfolding reads_succeed_def
proof (intro ballI impI allI, elim conjE)
  fix ck s s' st b
  assume "ck \<in> set (o_Chunks ob)" "c_PageIndex ck \<noteq> YAFFS2_CHUNK_UNSET" "chip_ok bb s"
    "nf_ReadPage (nand_flash_protocol (chip_bus mem)) s (c_PageIndex ck) = Some (s', st, b)"
  then show "\<not> EFI_ERROR st"
    using chip_ReadPage [of bb s mem "c_PageIndex ck"] assms
    by (auto simp: read_gives_def chip_pages_def pages_on_chip_def split: if_splits)
qed

definition yaffs2_content :: "bytes \<Rightarrow> flash_mem \<Rightarrow> yaffs2_object \<Rightarrow> bytes" where
  "yaffs2_content bb mem ob = map (file_byte (chip_data bb mem) ob) [0..<unat (o_FileSize ob)]"

text \<open>Regular files (and links) whose pages are on the chip and whose chunk indices fit in 32 bits.\<close>

definition readable_file :: "yaffs2_object \<Rightarrow> bool" where
  "readable_file ob = (o_Type ob \<noteq> YAFFS2_TYPE_DIR \<and> pages_on_chip ob \<and>
     unat (o_FileSize ob) \<le> YAFFS2_DATA_PER_PAGE * 2 ^ 32)"

definition yaffs2_file_data ::
    "bytes \<Rightarrow> flash_mem \<Rightarrow> yaffs2_volume \<Rightarrow> yaffs2_ifile \<Rightarrow> u16 list \<Rightarrow> bytes option" where
  "yaffs2_file_data bb mem v root p =
     (if 0 \<in> set p \<and> length (takeWhile (\<lambda>c. c \<noteq> 0) p) < 512
      then do {
        i \<leftarrow> open_spec v (if_OFile root) (ascii_name p);
        ob \<leftarrow> obj_of v i;
        if readable_file ob then Some (yaffs2_content bb mem ob) else None
      }
      else None)"

definition opened_file :: "bytes \<Rightarrow> flash_mem \<Rightarrow> yaffs2_volume \<Rightarrow> yaffs2_ifile \<Rightarrow> bytes \<Rightarrow> bool" where
  "opened_file bb mem v h d = (\<exists>ob. h = new_handle v (if_OFile h) \<and> obj_of v (if_OFile h) = Some ob \<and>
     readable_file ob \<and> d = yaffs2_content bb mem ob)"

subsection \<open>The protocol\<close>

definition yaffs2_file_protocol ::
    "'s nand_proto \<Rightarrow> (u64 \<Rightarrow> 't) \<Rightarrow> yaffs2_volume \<Rightarrow> ('s, yaffs2_ifile) efi_file_proto" where
  "yaffs2_file_protocol nd epoch v = \<lparr>
     ef_Open = (\<lambda>s h name mode.
       map_option (\<lambda>(st, h'). (s, st, h')) (Yaffs2Open True v (Some h) True (Some name) mode)),
     ef_GetInfo = (\<lambda>s h sz buf. do {
       (st, n, info) \<leftarrow> Yaffs2GetInfo nd epoch v (Some h) (Some FileInfoGuid) (Some sz) buf;
       need \<leftarrow> n;
       Some (s, st, need, case info of FileInfo fi \<Rightarrow> fi_FileSize fi | _ \<Rightarrow> 0)
     }),
     ef_Read = (\<lambda>s h n. do {
       (s', h', st, m, d) \<leftarrow> Yaffs2Read nd epoch v s (Some h) (Some n) True;
       h1 \<leftarrow> h';
       m1 \<leftarrow> m;
       Some (s', h1, st, m1, case d of FileData b \<Rightarrow> b | _ \<Rightarrow> [])
     })\<rparr>"

definition mounted :: "bytes \<Rightarrow> yaffs2_volume \<Rightarrow> yaffs2_ifile \<Rightarrow> nand_chip al_nand_context \<Rightarrow> bool" where
  "mounted bb v root s = (chip_ok bb s \<and> tree_ok v \<and> v_Root v \<noteq> None \<and> handle_ok v root)"

lemma yaffs2_open_file:
  assumes "mounted bb v root s" and "yaffs2_file_data bb mem v root p = Some d"
  shows "\<exists>h. ef_Open (yaffs2_file_protocol nd epoch v) s root p 1 = Some (s, EFI_SUCCESS, Some h) \<and>
    opened_file bb mem v h d"
proof -
  have p: "0 \<in> set p" "length (takeWhile (\<lambda>c. c \<noteq> 0) p) < 512"
    using assms(2) by (auto simp: yaffs2_file_data_def split: if_splits)
  obtain i ob where i: "open_spec v (if_OFile root) (ascii_name p) = Some i" "obj_of v i = Some ob"
      "readable_file ob" "d = yaffs2_content bb mem ob"
    using assms(2) by (auto simp: yaffs2_file_data_def bind_eq_Some_conv split: if_splits)
  have "read_only_mode 1"
    by (simp add: read_only_mode_def EFI_FILE_MODE_WRITE_def EFI_FILE_MODE_CREATE_def)
  then have "Yaffs2Open True v (Some root) True (Some p) 1 = Some (EFI_SUCCESS, Some (new_handle v i))"
    using Open_eq [of v root 1 p True] assms(1) p i(1) by (simp add: mounted_def)
  moreover have "opened_file bb mem v (new_handle v i) d"
    using i(2-4) by (simp add: opened_file_def new_handle_def)
  ultimately show ?thesis by (simp add: yaffs2_file_protocol_def)
qed

lemma yaffs2_info_size:
  assumes "tree_ok v" and "opened_file bb mem v h d"
  shows "\<exists>need x. ef_GetInfo (yaffs2_file_protocol nd epoch v) s h 0 False =
      Some (s, EFI_BUFFER_TOO_SMALL, need, x) \<and>
    ef_GetInfo (yaffs2_file_protocol nd epoch v) s' h need True = Some (s', EFI_SUCCESS, need, of_nat (length d))"
proof -
  obtain ob where ob: "obj_of v (if_OFile h) = Some ob" "d = yaffs2_content bb mem ob"
    using assms(2) by (auto simp: opened_file_def)
  define n where "n = length (shown_name v (if_OFile h) ob)"
  define need :: u64 where "need = of_nat (SIZE_OF_EFI_FILE_INFO + (n + 1) * 2)"
  have "n < 256" using tree_ok_name [OF assms(1) ob(1)] c_str_short [of "o_Name ob"]
    by (auto simp: n_def shown_name_def)
  then have "unat need = SIZE_OF_EFI_FILE_INFO + (n + 1) * 2" unfolding need_def by (rule info_size_unat)
  then have "0 < need" by (simp add: word_less_nat_alt SIZE_OF_EFI_FILE_INFO_def)
  moreover have "fi_FileSize (fill_file_info epoch ob n need) = of_nat (length d)"
    by (simp add: fill_file_info_def Let_def ob(2) yaffs2_content_def)
  moreover note GetInfo_file [OF assms(1) ob(1) need_def [unfolded n_def], of nd epoch]
  ultimately show ?thesis by (simp add: yaffs2_file_protocol_def n_def [symmetric])
qed

lemma yaffs2_read_all:
  assumes "chip_ok bb s" and "tree_ok v" and "opened_file bb mem v h d"
  shows "\<exists>s' h'. chip_ok bb s' \<and>
    ef_Read (yaffs2_file_protocol (nand_flash_protocol (chip_bus mem)) epoch v) s h (of_nat (length d)) =
      Some (s', h', EFI_SUCCESS, of_nat (length d), d)"
proof -
  obtain ob where ob: "h = new_handle v (if_OFile h)" "obj_of v (if_OFile h) = Some ob" "readable_file ob"
      "d = yaffs2_content bb mem ob"
    using assms(3) by (auto simp: opened_file_def)
  have pos: "if_Position h = 0" by (subst ob(1)) (simp add: new_handle_def)
  have size: "length d = unat (o_FileSize ob)" "(of_nat (length d) :: u64) = o_FileSize ob"
    by (simp_all add: ob(4) yaffs2_content_def)
  have type: "o_Type ob \<noteq> YAFFS2_TYPE_DIR" using ob(3) by (simp add: readable_file_def)
  show ?thesis
  proof (cases "0 < o_FileSize ob")
    case False
    then have "o_FileSize ob = 0" by (simp add: word_gt_0)
    then show ?thesis using ob(2) type pos size assms(1)
      by (simp add: yaffs2_file_protocol_def Yaffs2Read_def)
  next
    case True
    have lt: "unat (o_FileSize ob) < 2 ^ LENGTH(64)" by (rule unsigned_less)
    obtain s' st e where r: "chip_ok bb s'" "st = EFI_SUCCESS" "length e = unat (o_FileSize ob)"
        "e = map (\<lambda>j. file_byte (chip_data bb mem) ob (unat (if_Position h) + j)) [0..<length e]"
        "Yaffs2Read (nand_flash_protocol (chip_bus mem)) epoch v s (Some h) (Some (o_FileSize ob)) True =
        (if st = EFI_SUCCESS
         then Some (s', Some (h\<lparr>if_Position := if_Position h + of_nat (length e)\<rparr>), EFI_SUCCESS,
                Some (of_nat (length e)), FileData e)
         else Some (s', Some h, EFI_DEVICE_ERROR, Some (o_FileSize ob), NoData))"
      using nand_flash.file_read_run [OF chip.nand_flash_axioms assms(1,2) ob(2) type, of "o_FileSize ob"
          "unat (o_FileSize ob)" mem epoch] True pos lt ob(3) chip_reads_succeed [of ob mem bb] chip_stable_pages
      unfolding readable_file_def by auto
    have "e = d" using r(3,4) pos by (simp add: ob(4) yaffs2_content_def)
    then show ?thesis using r(1,2,5) size by (auto simp: yaffs2_file_protocol_def)
  qed
qed

interpretation yaffs2_files: efi_files
  "yaffs2_file_protocol (nand_flash_protocol (chip_bus mem)) epoch v" "mounted bb v root" root
  "yaffs2_file_data bb mem v root" "opened_file bb mem v"
proof unfold_locales
  fix s p d
  assume "mounted bb v root s" "yaffs2_file_data bb mem v root p = Some d"
  then show "\<exists>s' h. ef_Open (yaffs2_file_protocol (nand_flash_protocol (chip_bus mem)) epoch v) s root p 1 =
      Some (s', EFI_SUCCESS, Some h) \<and> mounted bb v root s' \<and> opened_file bb mem v h d"
    using yaffs2_open_file by blast
next
  fix s h d
  assume m: "mounted bb v root s" and o: "opened_file bb mem v h d"
  let ?fp = "yaffs2_file_protocol (nand_flash_protocol (chip_bus mem)) epoch v"
  obtain need x where "ef_GetInfo ?fp s h 0 False = Some (s, EFI_BUFFER_TOO_SMALL, need, x)"
      "ef_GetInfo ?fp s h need True = Some (s, EFI_SUCCESS, need, of_nat (length d))"
    using yaffs2_info_size [OF _ o, of "nand_flash_protocol (chip_bus mem)" epoch s s] m
    unfolding mounted_def by blast
  then show "\<exists>s' need x. ef_GetInfo ?fp s h 0 False = Some (s', EFI_BUFFER_TOO_SMALL, need, x) \<and>
      mounted bb v root s' \<and>
      (\<exists>s''. ef_GetInfo ?fp s' h need True = Some (s'', EFI_SUCCESS, need, of_nat (length d)) \<and>
        mounted bb v root s'')"
    using m by blast
  show "\<exists>s' h'. ef_Read ?fp s h (of_nat (length d)) = Some (s', h', EFI_SUCCESS, of_nat (length d), d) \<and>
      mounted bb v root s'"
    using yaffs2_read_all [OF _ _ o, of s epoch] m by (auto simp: mounted_def)
next
  fix h d
  assume "opened_file bb mem v h d"
  then obtain ob where "d = yaffs2_content bb mem ob" unfolding opened_file_def by blast
  then have "length d = unat (o_FileSize ob)" by (simp add: yaffs2_content_def)
  moreover have "unat (o_FileSize ob) < 2 ^ LENGTH(64)" by (rule unsigned_less)
  ultimately show "length d < 2 ^ 64" by simp
qed

end
