(* ===== verification/FileAccess.thy ===== *)
theory FileAccess
  imports Yaffs2Example Yaffs2Files
begin

text \<open>
  The properties of the file protocol of the YAFFS2 driver: opening by path, reading files through the
  NAND driver, enumerating directories, metadata, and the memory of the volume.
\<close>

definition idle_chip :: nand_chip where
  "idle_chip = \<lparr>ch_addr = [], ch_page = 0, ch_col = 0\<rparr>"

subsection \<open>Opening\<close>

lemma down_up: "(ucast (ucast c :: u16) :: u8) = c"
  by (simp add: ucast_down_ucast_id is_down)

text \<open>C6: Opening a file returns, without a memory fault, exactly what the lookup of the path's names
  one by one specifies: a handle on the object found, at position 0, or \<open>EFI_NOT_FOUND\<close>. Names are
  separated by backslashes, empty names are skipped, an absolute path starts at the root and a relative
  one at the directory of the handle. This holds for names of up to 511 characters.\<close>

theorem open_refines_lookup:
  assumes "tree_ok v" and "handle_ok v h" and "v_Root v \<noteq> None" and "read_only_mode mode"
    and "0 \<in> set name" and "length (takeWhile (\<lambda>c. c \<noteq> 0) name) < 512"
  shows "Yaffs2Open alloc v (Some h) True (Some name) mode =
    (case open_spec v (if_OFile h) (ascii_name name) of
       None \<Rightarrow> Some (EFI_NOT_FOUND, None)
     | Some i \<Rightarrow> if alloc then Some (EFI_SUCCESS, Some (new_handle v i))
                 else Some (EFI_OUT_OF_RESOURCES, None))"
  using Open_eq [OF assms] .

theorem open_refines_lookup_witness:
  "Yaffs2Open True ex_volume (Some (new_handle ex_volume 1)) True (Some [0x61, 0]) EFI_FILE_MODE_READ =
     Some (EFI_SUCCESS, Some (new_handle ex_volume 2))"
proof -
  have "read_only_mode EFI_FILE_MODE_READ"
    by (simp add: read_only_mode_def EFI_FILE_MODE_READ_def EFI_FILE_MODE_WRITE_def EFI_FILE_MODE_CREATE_def)
  moreover have "open_spec ex_volume 1 [0x61] = Some 2"
  proof -
    have "link_target ex_volume (Suc 15) 2 = Some 2"
      unfolding link_target.simps by (simp add: ex_obj ex_file_def zero_object_def YAFFS2_TYPE_HARDLINK_def)
    moreover have "Suc 15 = 16" by simp
    ultimately have "link_target ex_volume 16 2 = Some 2" by (simp only:)
    then show ?thesis
      by (simp add: open_spec_def start_dir_def ex_obj ex_root_def YAFFS2_TYPE_DIR_def lookup_name_def
          child_named_def ex_file_def zero_object_def c_str_def)
  qed
  moreover have "ascii_name [0x61, 0] = [0x61]" by (simp add: ascii_name_def c_str_def)
  moreover have "v_Root ex_volume = Some 1" "if_OFile (new_handle ex_volume 1) = 1"
    by (simp_all add: ex_volume_def new_handle_def)
  ultimately show ?thesis
    using open_refines_lookup [OF ex_tree_ok ex_handle, of EFI_FILE_MODE_READ "[0x61, 0]" True] by simp
qed

text \<open>An object is opened by its absolute path: the names on a descent from the root, each unique
  among its siblings, plain and not a hardlink, joined with backslashes, lead to the object.\<close>

theorem open_by_absolute_path:
  assumes "tree_ok v" and "handle_ok v h" and "v_Root v = Some r" and "read_only_mode mode"
    and "descends v r ps" and "ps \<noteq> []"
    and "name = map ucast (join_path (map fst ps)) @ [0]" and "length name \<le> 512"
  shows "Yaffs2Open True v (Some h) True (Some name) mode =
    Some (EFI_SUCCESS, Some (new_handle v (end_of r ps)))"
proof -
  let ?path = "join_path (map fst ps)"
  have plain: "\<forall>n \<in> set (map fst ps). plain_name n" using assms(5) by (rule descends_plain)
  then have nz: "0 \<notin> set ?path" by (auto simp: join_path_def plain_name_def)
  have uc: "(ucast c :: u16) \<noteq> 0" if "c \<noteq> 0" for c :: u8
    using that down_up [of c] by auto
  have "\<forall>c \<in> set (map ucast ?path :: u16 list). c \<noteq> 0"
  proof
    fix x assume "x \<in> set (map ucast ?path :: u16 list)"
    then obtain c where "c \<in> set ?path" "x = ucast c" by auto
    then show "x \<noteq> 0" using nz uc [of c] by metis
  qed
  then have tw: "takeWhile (\<lambda>c. c \<noteq> 0) name = map ucast ?path"
    unfolding assms(7) by (simp add: takeWhile_append_all)
  have an: "ascii_name name = ?path"
    unfolding ascii_name_def tw using nz by (simp add: down_up o_def c_str_append c_str_Cons)
  have head: "?path \<noteq> [] \<and> hd ?path = 0x5C" using assms(6) by (cases ps) (auto simp: join_path_def)
  have "open_spec v (if_OFile h) ?path = Some (end_of r ps)"
    using head assms(3) lookup_descends [OF assms(5)] split_join [OF plain] by (simp add: open_spec_def)
  moreover have "0 \<in> set name" "length (takeWhile (\<lambda>c. c \<noteq> 0) name) < 512"
    using assms(8) tw unfolding assms(7) by simp_all
  ultimately show ?thesis using Open_eq [OF assms(1,2) _ assms(4), of name True] assms(3) an by simp
qed

theorem open_by_absolute_path_witness:
  "Yaffs2Open True ex_volume (Some (new_handle ex_volume 1)) True (Some [0x5C, 0x61, 0]) EFI_FILE_MODE_READ =
     Some (EFI_SUCCESS, Some (new_handle ex_volume 2))"
proof -
  have "read_only_mode EFI_FILE_MODE_READ"
    by (simp add: read_only_mode_def EFI_FILE_MODE_READ_def EFI_FILE_MODE_WRITE_def EFI_FILE_MODE_CREATE_def)
  moreover have "descends ex_volume 1 [([0x61], 2)]"
    by (simp add: ex_obj ex_root_def ex_file_def zero_object_def YAFFS2_TYPE_DIR_def plain_name_def
        c_str_def YAFFS2_TYPE_HARDLINK_def)
  moreover have "v_Root ex_volume = Some 1" by (simp add: ex_volume_def)
  ultimately show ?thesis
    using open_by_absolute_path [OF ex_tree_ok ex_handle, of 1 EFI_FILE_MODE_READ "[([0x61], 2)]"
        "[0x5C, 0x61, 0]"] by (simp add: join_path_def)
qed

text \<open>A handle can never be opened for writing or creation, and the other operations that would
  change the volume report so.\<close>

theorem read_only_file_system:
  assumes "mode AND EFI_FILE_MODE_WRITE \<noteq> 0 \<or> mode AND EFI_FILE_MODE_CREATE \<noteq> 0"
  shows "Yaffs2Open alloc v (Some h) True (Some name) mode = Some (EFI_WRITE_PROTECTED, None) \<and>
    Yaffs2Write = EFI_WRITE_PROTECTED \<and> Yaffs2SetInfo = EFI_WRITE_PROTECTED \<and>
    Yaffs2Delete (Some h) = (EFI_WARN_DELETE_FAILURE, None)"
  using assms
  by (auto simp: Yaffs2Open_def Yaffs2Write_def Yaffs2SetInfo_def Yaffs2Delete_def Yaffs2Close_def)

theorem read_only_file_system_witness:
  "Yaffs2Open True ex_volume (Some (new_handle ex_volume 1)) True (Some [0x61, 0]) 3 =
     Some (EFI_WRITE_PROTECTED, None)"
  using read_only_file_system [of 3 True ex_volume "new_handle ex_volume 1" "[0x61, 0]"]
  by (simp add: EFI_FILE_MODE_WRITE_def)

text \<open>A name of 512 characters or more is not terminated in the conversion buffer: without a backslash
  or a character with a zero low byte among the first 512, path resolution reads past its end.\<close>

theorem open_long_name_faults:
  assumes "handle_ok v h" and "v_Root v \<noteq> None" and "read_only_mode mode"
    and "0 \<in> set name" and "512 \<le> length (takeWhile (\<lambda>c. c \<noteq> 0) name)"
    and "\<forall>c \<in> set (take 512 name). \<not> is_delim (ucast c)"
  shows "Yaffs2Open alloc v (Some h) True (Some name) mode = None"
proof -
  obtain ob where ob: "obj_of v (if_OFile h) = Some ob" using handle_ok_object [OF assms(1)] by blast
  let ?p = "map ucast (take 512 name) :: bytes"
  have p: "path8 name = Some ?p" using path8_long [OF assms(4,5)] by blast
  have nd: "\<forall>c \<in> set ?p. \<not> is_delim c" using assms(6) by simp
  have "512 \<le> length name" using assms(5) length_takeWhile_le [of "\<lambda>c. c \<noteq> 0" name] by linarith
  then have ne: "0 < length ?p" by simp
  then have "?p ! 0 \<in> set ?p" by (rule nth_mem)
  then have hd: "?p ! 0 \<noteq> 0x5C" using nd by (auto simp: is_delim_def)
  have "rd8 ?p 0 = Some (?p ! 0)" using ne by (rule rd8_Some)
  then show ?thesis using ob p hd assms(3) walk_path_no_delim [OF nd, of v]
    by (simp add: Yaffs2Open_def read_only_mode_def Let_def split: option.split bind_splits
        del: nth_map rd8_Some)
qed

theorem open_long_name_faults_witness:
  "Yaffs2Open True ex_volume (Some (new_handle ex_volume 1)) True
     (Some (replicate 512 0x61 @ [0])) EFI_FILE_MODE_READ = None"
proof -
  have "read_only_mode EFI_FILE_MODE_READ"
    by (simp add: read_only_mode_def EFI_FILE_MODE_READ_def EFI_FILE_MODE_WRITE_def EFI_FILE_MODE_CREATE_def)
  moreover have "takeWhile (\<lambda>c. c \<noteq> 0) (replicate 512 0x61 @ [0 :: u16]) = replicate 512 0x61"
    by (simp add: takeWhile_append_all)
  ultimately show ?thesis
    using open_long_name_faults [OF ex_handle, of EFI_FILE_MODE_READ "replicate 512 0x61 @ [0]" True]
    by (simp add: ex_volume_def is_delim_def)
qed

subsection \<open>Reading files through the NAND driver\<close>

text \<open>C4: Reading a file returns exactly its bytes: those from the position on, as many as the buffer
  takes and the file has left, each from the page of its chunk on the flash and zero in a hole; the
  position advances by the bytes read.\<close>

theorem read_returns_content:
  assumes "chip_ok bb s" and "tree_ok v" and "obj_of v (if_OFile h) = Some ob"
    and "o_Type ob \<noteq> YAFFS2_TYPE_DIR" and "if_Position h < o_FileSize ob"
    and "unat (if_Position h) + unat n < 2 ^ 64"
    and "unat (o_FileSize ob) \<le> YAFFS2_DATA_PER_PAGE * 2 ^ 32"
    and "pages_on_chip ob"
    and "want = min (unat n) (unat (o_FileSize ob) - unat (if_Position h))"
  shows "\<exists>s'. chip_ok bb s' \<and>
    Yaffs2Read (nand_flash_protocol (chip_bus mem)) epoch v s (Some h) (Some n) True =
      Some (s', Some (h\<lparr>if_Position := if_Position h + of_nat want\<rparr>), EFI_SUCCESS, Some (of_nat want),
        FileData (map (\<lambda>j. file_byte (chip_data bb mem) ob (unat (if_Position h) + j)) [0..<want]))"
proof -
  obtain s' st d where r: "chip_ok bb s'" "st = EFI_SUCCESS" "length d = want"
      "d = map (\<lambda>j. file_byte (chip_data bb mem) ob (unat (if_Position h) + j)) [0..<length d]"
      "Yaffs2Read (nand_flash_protocol (chip_bus mem)) epoch v s (Some h) (Some n) True =
      (if st = EFI_SUCCESS
       then Some (s', Some (h\<lparr>if_Position := if_Position h + of_nat (length d)\<rparr>), EFI_SUCCESS,
              Some (of_nat (length d)), FileData d)
       else Some (s', Some h, EFI_DEVICE_ERROR, Some n, NoData))"
    using nand_flash.file_read_run [OF chip.nand_flash_axioms assms(1-7,9), of mem epoch] chip_reads_succeed [OF assms(8)]
      chip_stable_pages by blast
  then show ?thesis by auto
qed

lemma ex_file_bytes: "map (file_byte (chip_data ex_map ex_mem) ex_file) [1..<5] = [0x79, 0x7A, 0, 0]"
proof -
  have "[1..<5] = [1, 2, 3, 4 :: nat]" by (simp add: upt_rec)
  then show ?thesis
    by (simp add: file_byte_def chunk_at_def ex_file_def zero_object_def chip_data_def ex_mem_def ex_not_bad
        ex_page_def YAFFS2_DATA_PER_PAGE_def YAFFS2_CHUNK_UNSET_def)
qed

text \<open>The file of the example has five bytes, of which the flash holds three.\<close>

theorem read_returns_content_witness:
  "\<exists>s'. Yaffs2Read (nand_flash_protocol (chip_bus ex_mem)) id ex_volume (fresh_context idle_chip)
     (Some ((new_handle ex_volume 2)\<lparr>if_Position := 1\<rparr>)) (Some 10) True =
     Some (s', Some ((new_handle ex_volume 2)\<lparr>if_Position := 5\<rparr>), EFI_SUCCESS, Some 4,
       FileData [0x79, 0x7A, 0, 0])"
proof -
  let ?h = "(new_handle ex_volume 2)\<lparr>if_Position := 1\<rparr>"
  have f: "if_Position ?h = 1" "o_FileSize ex_file = 5" by (simp_all add: ex_file_def)
  have "obj_of ex_volume (if_OFile ?h) = Some ex_file" by (simp add: new_handle_def ex_obj)
  moreover have "o_Type ex_file \<noteq> YAFFS2_TYPE_DIR" by (simp add: ex_file_def YAFFS2_TYPE_DIR_def)
  moreover have "if_Position ?h < o_FileSize ex_file" "unat (if_Position ?h) + unat (10 :: u64) < 2 ^ 64"
    "unat (o_FileSize ex_file) \<le> YAFFS2_DATA_PER_PAGE * 2 ^ 32"
    "4 = min (unat (10 :: u64)) (unat (o_FileSize ex_file) - unat (if_Position ?h))"
    by (simp_all add: f YAFFS2_DATA_PER_PAGE_def)
  moreover have "pages_on_chip ex_file"
    by (auto simp: pages_on_chip_def ex_file_def chunk_unset_def YAFFS2_CHUNK_UNSET_def)
  ultimately obtain s' where s': "Yaffs2Read (nand_flash_protocol (chip_bus ex_mem)) id ex_volume
      (fresh_context idle_chip) (Some ?h) (Some 10) True =
      Some (s', Some (?h\<lparr>if_Position := if_Position ?h + of_nat 4\<rparr>), EFI_SUCCESS, Some (of_nat 4),
        FileData (map (\<lambda>j. file_byte (chip_data ex_map ex_mem) ex_file (unat (if_Position ?h) + j)) [0..<4]))"
    using read_returns_content [OF ex_chip_ok ex_tree_ok] by blast
  have "map (\<lambda>j. file_byte (chip_data ex_map ex_mem) ex_file (unat (if_Position ?h) + j)) [0..<4] =
      map (file_byte (chip_data ex_map ex_mem) ex_file) [1..<5]"
    by (simp add: f upt_rec)
  moreover have "?h\<lparr>if_Position := if_Position ?h + of_nat 4\<rparr> = (new_handle ex_volume 2)\<lparr>if_Position := 5\<rparr>"
    by simp
  moreover have "(of_nat 4 :: u64) = 4" by simp
  ultimately show ?thesis using s' ex_file_bytes by (intro exI [of _ s']) (simp only:)
qed

subsection \<open>Directories\<close>

text \<open>C32: Reading a directory repeatedly through a fresh handle yields each of its children once, in their
  order, a hardlink shown as its target under its own name, and then the end, an empty read.\<close>

theorem directory_enumerated:
  assumes "tree_ok v" and "obj_of v i = Some ob" and "o_Type ob = YAFFS2_TYPE_DIR" and "592 \<le> B"
  shows "read_times nd epoch v B (Suc (length (o_Children ob))) s (Some (new_handle v i)) =
    Some (map (\<lambda>c. (EFI_SUCCESS, InfoData (entry_info epoch v c))) (o_Children ob) @ [(EFI_SUCCESS, NoData)])
    \<and> distinct (o_Children ob)"
proof (rule conjI)
  have "if_DirCursor (new_handle v i) = (case o_Children ob of [] \<Rightarrow> CurHead i | d # _ \<Rightarrow> CurEntry d)"
    using assms(2,3) by (simp add: new_handle_def first_entry_def)
  then show "read_times nd epoch v B (Suc (length (o_Children ob))) s (Some (new_handle v i)) =
    Some (map (\<lambda>c. (EFI_SUCCESS, InfoData (entry_info epoch v c))) (o_Children ob) @ [(EFI_SUCCESS, NoData)])"
    using assms by (intro read_entries [where cs = "[]"]) (simp_all add: new_handle_def)
qed (use tree_ok_children [OF assms(1,2)] in simp)

theorem directory_enumerated_witness:
  "read_times (nand_flash_protocol (chip_bus ex_mem)) id ex_volume 600 2 (fresh_context idle_chip)
     (Some (new_handle ex_volume 1)) =
   Some [(EFI_SUCCESS, InfoData (entry_info id ex_volume 2)), (EFI_SUCCESS, NoData)]"
proof -
  have "o_Type ex_root = YAFFS2_TYPE_DIR" "o_Children ex_root = [2]"
    by (simp_all add: ex_root_def YAFFS2_TYPE_DIR_def)
  moreover have "Suc (length [2 :: nat]) = 2" "obj_of ex_volume 1 = Some ex_root" "(592 :: u64) \<le> 600"
    by (simp_all add: ex_obj)
  moreover note directory_enumerated [OF ex_tree_ok, of 1 ex_root 600 "nand_flash_protocol (chip_bus ex_mem)" id
        "fresh_context idle_chip"]
  ultimately show ?thesis by (simp only: list.map append.simps HOL.simp_thms)
qed

text \<open>A read of a directory with a buffer that is too small changes neither the handle nor the device
  and reports the size with which the next call returns the entry.\<close>

theorem short_read_retries:
  assumes "tree_ok v" and "obj_of v (if_OFile h) = Some ob" and "o_Type ob = YAFFS2_TYPE_DIR"
    and "c \<in> set (o_Children ob)" and "if_DirCursor h = CurEntry c"
    and "B < fi_Size (entry_info epoch v c)"
  shows "Yaffs2Read nd epoch v s (Some h) (Some B) buf =
      Some (s, Some h, EFI_BUFFER_TOO_SMALL, Some (fi_Size (entry_info epoch v c)), NoData) \<and>
    (\<exists>h'. Yaffs2Read nd epoch v s (Some h) (Some (fi_Size (entry_info epoch v c))) True =
      Some (s, Some h', EFI_SUCCESS, Some (fi_Size (entry_info epoch v c)), InfoData (entry_info epoch v c)))"
proof -
  obtain cs ds where "o_Children ob = cs @ c # ds" using split_list [OF assms(4)] by blast
  from read_entry [where nd = nd and s = s and epoch = epoch, OF assms(1-3) this refl assms(5) order_refl]
  show ?thesis using read_short_entry [where nd = nd and s = s and buf = buf, OF assms(1-4) refl assms(5,6)]
    by (intro conjI exI)
qed

theorem short_read_retries_witness:
  "Yaffs2Read (nand_flash_protocol (chip_bus ex_mem)) id ex_volume (fresh_context idle_chip)
     (Some (new_handle ex_volume 1)) (Some 0) False =
   Some (fresh_context idle_chip, Some (new_handle ex_volume 1), EFI_BUFFER_TOO_SMALL,
     Some (fi_Size (entry_info id ex_volume 2)), NoData)"
proof -
  have "fi_Size (entry_info id ex_volume 2) = 84"
    by (simp add: entry_info_def display_spec_def ex_obj ex_file_def zero_object_def c_str_def
        YAFFS2_TYPE_HARDLINK_def fill_file_info_def SIZE_OF_EFI_FILE_INFO_def)
  then have "0 < fi_Size (entry_info id ex_volume 2)" by simp
  moreover have f: "obj_of ex_volume (if_OFile (new_handle ex_volume 1)) = Some ex_root"
    "o_Type ex_root = YAFFS2_TYPE_DIR" "2 \<in> set (o_Children ex_root)"
    "if_DirCursor (new_handle ex_volume 1) = CurEntry 2"
    by (simp_all add: new_handle_def ex_obj ex_root_def YAFFS2_TYPE_DIR_def first_entry_def zero_object_def)
  ultimately show ?thesis by (intro conjunct1 [OF short_read_retries [OF ex_tree_ok f]])
qed

subsection \<open>Metadata and positions\<close>

text \<open>A query of the information of a file with an empty buffer reports the size it needs, and a second
  query with a buffer of that size succeeds: the answer carries the size, the name as a terminated
  UCS-2 string (empty for the root), and the read-only attribute.\<close>

theorem info_two_calls:
  assumes "tree_ok v" and "handle_ok v h"
  shows "\<exists>need info ob. Yaffs2GetInfo nd epoch v (Some h) (Some FileInfoGuid) (Some 0) False =
      Some (EFI_BUFFER_TOO_SMALL, Some need, NoInfo) \<and>
    Yaffs2GetInfo nd epoch v (Some h) (Some FileInfoGuid) (Some need) True =
      Some (EFI_SUCCESS, Some need, FileInfo info) \<and>
    obj_of v (if_OFile h) = Some ob \<and> fi_Size info = need \<and>
    fi_FileName info = map ucast (shown_name v (if_OFile h) ob) @ [0] \<and>
    fi_Attribute info AND EFI_FILE_READ_ONLY \<noteq> 0"
proof -
  obtain ob where ob: "obj_of v (if_OFile h) = Some ob" using handle_ok_object [OF assms(2)] by blast
  define n where "n = length (shown_name v (if_OFile h) ob)"
  define need :: u64 where "need = of_nat (SIZE_OF_EFI_FILE_INFO + (n + 1) * 2)"
  have "n < 256" using tree_ok_name [OF assms(1) ob] c_str_short [of "o_Name ob"]
    by (auto simp: n_def shown_name_def)
  then have "unat need = SIZE_OF_EFI_FILE_INFO + (n + 1) * 2"
    unfolding need_def by (rule info_size_unat)
  then have "0 < need" by (simp add: word_less_nat_alt SIZE_OF_EFI_FILE_INFO_def)
  moreover note GetInfo_file [OF assms(1) ob need_def [unfolded n_def], of nd epoch]
  moreover have "fi_Attribute (fill_file_info epoch ob n need) AND EFI_FILE_READ_ONLY \<noteq> 0"
    by (simp add: fill_file_info_def Let_def EFI_FILE_READ_ONLY_def EFI_FILE_DIRECTORY_def)
  moreover have "fi_Size (fill_file_info epoch ob n need) = need" by (simp add: fill_file_info_def Let_def)
  ultimately show ?thesis using ob file_info_name [OF assms(1) ob, of epoch need]
    by (auto simp: n_def [symmetric])
qed

theorem info_two_calls_witness:
  "\<exists>need. Yaffs2GetInfo (nand_flash_protocol (chip_bus ex_mem)) id ex_volume
     (Some (new_handle ex_volume 1)) (Some FileInfoGuid) (Some 0) False =
     Some (EFI_BUFFER_TOO_SMALL, Some need, NoInfo)"
  using info_two_calls [OF ex_tree_ok ex_handle] by blast

text \<open>Setting the position and asking for it agree: the position set is the position reported, all ones
  means the end of the file, and a directory reports no position and accepts only the restart of its
  enumeration.\<close>

theorem position_set_get:
  assumes "handle_ok v h" and "obj_of v (if_OFile h) = Some ob"
  shows "if o_Type ob = YAFFS2_TYPE_DIR
    then Yaffs2SetPosition v (Some h) p = (if p = 0 then Some (EFI_SUCCESS, Some (new_handle v (if_OFile h)))
        else Some (EFI_UNSUPPORTED, Some h)) \<and>
      Yaffs2GetPosition v (Some h) True = Some (EFI_UNSUPPORTED, None)
    else \<exists>h'. Yaffs2SetPosition v (Some h) p = Some (EFI_SUCCESS, Some h') \<and> handle_ok v h' \<and>
        Yaffs2GetPosition v (Some h') True =
          Some (EFI_SUCCESS, Some (if p = 0xFFFFFFFFFFFFFFFF then o_FileSize ob else p))"
  using assms by (simp add: Yaffs2SetPosition_def Yaffs2GetPosition_def new_handle_def)

theorem position_set_get_witness:
  "\<exists>h'. Yaffs2SetPosition ex_volume (Some (new_handle ex_volume 2)) 0xFFFFFFFFFFFFFFFF =
      Some (EFI_SUCCESS, Some h') \<and>
    Yaffs2GetPosition ex_volume (Some h') True = Some (EFI_SUCCESS, Some 5)"
proof -
  have "obj_of ex_volume (if_OFile (new_handle ex_volume 2)) = Some ex_file"
    by (simp add: ex_obj new_handle_def)
  moreover have "handle_ok ex_volume (new_handle ex_volume 2)"
    by (rule handle_ok_new) (simp add: ex_obj)
  ultimately show ?thesis
    using position_set_get [of ex_volume "new_handle ex_volume 2" ex_file "0xFFFFFFFFFFFFFFFF"]
    by (auto simp: ex_file_def zero_object_def YAFFS2_TYPE_DIR_def)
qed

subsection \<open>The volume\<close>

text \<open>Mounting a chip yields the volume the scan specifies when it has a root directory. When it has
  none, no volume is left, and of the blocks the scan allocated only the object array is freed, not the
  objects nor their chunk arrays.\<close>

theorem mount_chip:
  assumes "chip_ok bb Ctx"
    and "es = flash_events (nand_flash_protocol (chip_bus mem)) (chip_tags bb mem) (chip_pages bb mem)"
    and "\<forall>e \<in> set es. id_safe (t_ObjId (ev_tags e))"
  shows "\<exists>Ctx' v. scan_events al es v \<and> chip_ok bb Ctx' \<and> tree_ok (tree_of v) \<and>
    Yaffs2AllocateVolume (nand_flash_protocol (chip_bus mem)) True True al EFI_SUCCESS Ctx =
      Some (if root_status (tree_of v) = EFI_SUCCESS
        then (Ctx', EFI_SUCCESS, Some (tree_of v), [])
        else (Ctx', EFI_VOLUME_CORRUPTED, None,
          (if v_Objects (tree_of v) \<noteq> [] then [ObjectsBlock] else []) @ [PageBufferBlock, VolumeBlock]))"
proof -
  obtain Ctx' v where v: "scan_events al es v" "chip_ok bb Ctx'"
    "Yaffs2ScanNand (nand_flash_protocol (chip_bus mem)) al empty_volume Ctx =
      Some (Ctx', tree_of v, root_status (tree_of v))"
    using chip.scan_content [OF chip_content assms(1)
        chip.flash_events_ok [OF chip_content assms(1) assms(3) [unfolded assms(2)]]] assms(2) by blast
  have "root_status (tree_of v) = EFI_SUCCESS \<or> root_status (tree_of v) = EFI_VOLUME_CORRUPTED"
    by (auto simp: root_status_def split: option.split)
  then show ?thesis using v scan_events_ok(5) [OF v(1)]
    by (intro exI [of _ Ctx'] exI [of _ v]) (auto simp: Yaffs2AllocateVolume_def)
qed

theorem mount_chip_witness:
  "\<exists>Ctx' v. scan_events (\<lambda>p k. True) ex_events v \<and> chip_ok ex_map Ctx' \<and> tree_ok (tree_of v) \<and>
    Yaffs2AllocateVolume (nand_flash_protocol (chip_bus ex_mem)) True True (\<lambda>p k. True) EFI_SUCCESS
      (fresh_context idle_chip) =
      Some (if root_status (tree_of v) = EFI_SUCCESS
        then (Ctx', EFI_SUCCESS, Some (tree_of v), [])
        else (Ctx', EFI_VOLUME_CORRUPTED, None,
          (if v_Objects (tree_of v) \<noteq> [] then [ObjectsBlock] else []) @ [PageBufferBlock, VolumeBlock]))"
  by (rule mount_chip [OF ex_chip_ok ex_flash_events [symmetric] ex_events_safe])

text \<open>C35: Freeing a volume frees every block allocated for it, each exactly once.\<close>

theorem volume_freed_once:
  assumes "volume_ok v"
  shows "\<exists>bs. Yaffs2FreeVolume v = Some bs \<and> distinct bs \<and> set bs = volume_blocks v"
  using FreeVolume_eq [OF assms] .

theorem volume_freed_once_witness:
  "\<exists>bs. Yaffs2FreeVolume ex_volume = Some bs \<and> distinct bs \<and> set bs = volume_blocks ex_volume"
  by (rule volume_freed_once [OF ex_volume_ok])

text \<open>Detection always answers: it terminates without a memory fault on every device that keeps the
  flash contract, with success or \<open>EFI_UNSUPPORTED\<close>.\<close>

theorem detection_answers:
  assumes "ctx_ok Ctx"
  shows "\<exists>Ctx' st. Yaffs2DetectFilesystem (nand_flash_protocol bus) Ctx = Some (Ctx', st) \<and> ctx_ok Ctx' \<and>
    st \<in> {EFI_SUCCESS, EFI_UNSUPPORTED}"
  unfolding Yaffs2DetectFilesystem_def
  by (rule nand_flash.detect_blocks_run [OF al_nand.nand_flash_axioms assms])

theorem detection_answers_witness:
  "\<exists>Ctx' st. Yaffs2DetectFilesystem (nand_flash_protocol (chip_bus ex_mem)) (fresh_context idle_chip) =
     Some (Ctx', st)"
  using detection_answers [OF ctx_ok_fresh, of "chip_bus ex_mem" idle_chip] by blast

end
