(* ===== verification/NpkParser.thy ===== *)
theory NpkParser
  imports Prelude
begin

text \<open>
  The parser of RouterOS packages: \<open>src/Application/RouterOSLoader/npk_parser.c\<close>.

  \<^item> zlib is a parameter, the record \<open>zlib\<close> of \<open>inflateInit\<close> on the compressed input and
    \<open>inflate\<close> on the space left in the output buffer; the allocator is a predicate on the
    allocations of the parser. What a property relies on of them is a hypothesis of the property.
  \<^item> \<open>content_buffer\<close> and \<open>entries\<close> are options, \<^const>\<open>None\<close> the null pointer; the data pointer of
    an entry is an offset in the content buffer.
  \<^item> A \<open>size_t\<close> that is a sum of fields of at most 32 bits cannot wrap and is a natural; the
    capacity of the output buffer, which doubles, is a 64-bit word, and \<open>avail_out\<close> has 32 bits
    as in zlib.
  \<^item> An access outside a buffer and an endless loop are \<^const>\<open>None\<close>.
  \<^item> Every operation that allocates or frees returns the log of what it did, in order: the blocks of
    the package, the buffer of the content, and the state \<open>inflateInit\<close> allocates and \<open>inflateEnd\<close>
    frees. A \<open>realloc\<close> of a live block keeps it and is not in the log.
\<close>

subsection \<open>Types\<close>

datatype npk_status = NPK_STATUS_OK | NPK_STATUS_INVALID_ARGUMENT | NPK_STATUS_NO_MEMORY
  | NPK_STATUS_TRUNCATED | NPK_STATUS_BAD_MAGIC | NPK_STATUS_BAD_FORMAT | NPK_STATUS_ZLIB_ERROR
  | NPK_STATUS_NO_CONTENT_CONTAINER | NPK_STATUS_NOT_FOUND | NPK_STATUS_NOT_A_FILE

datatype npk_entry_type = NPK_ENTRY_TYPE_OTHER | NPK_ENTRY_TYPE_FILE | NPK_ENTRY_TYPE_DIR

record npk_entry =
  e_name :: bytes
  e_mode :: u16
  e_size :: u32
  e_type :: npk_entry_type
  e_data :: nat

record npk_package =
  p_content_buffer :: "bytes option"
  p_content_size :: nat
  p_entries :: "npk_entry list option"

definition entry_list :: "npk_package \<Rightarrow> npk_entry list" where
  "entry_list p = (case p_entries p of None \<Rightarrow> [] | Some es \<Rightarrow> es)"

definition empty_package :: npk_package where
  "empty_package = \<lparr>p_content_buffer = None, p_content_size = 0, p_entries = None\<rparr>"

datatype z_ret = Z_OK | Z_STREAM_END | Z_ERROR int

record 'z zlib =
  inflateInit :: "bytes \<Rightarrow> 'z option"
  inflate :: "'z \<Rightarrow> u32 \<Rightarrow> 'z \<times> bytes \<times> z_ret"

text \<open>The allocations; the growth of the output buffer by its new capacity.\<close>

datatype npk_alloc = AllocPackage | AllocOutput | GrowOutput u64 | GrowEntries nat | AllocName nat | AllocCopy

type_synonym npk_mem = "npk_alloc \<Rightarrow> bool"

text \<open>The blocks the parser asks the allocator for, and its log.\<close>

datatype npk_block = NameBlock nat | EntriesBlock | StreamBlock | ContentBlock | PackageBlock

datatype npk_event = Alloc npk_block | Free npk_block

definition NPK_MAGIC_BYTES :: u32 where "NPK_MAGIC_BYTES = 0xBAD0F11E"
definition NPK_ZLIB_COMPRESSED_DATA :: u16 where "NPK_ZLIB_COMPRESSED_DATA = 4"
definition NPK_HEADER_SIZE :: nat where "NPK_HEADER_SIZE = 8"
definition NPK_CONTAINER_HEADER_SIZE :: nat where "NPK_CONTAINER_HEADER_SIZE = 6"
definition NPK_ZLIB_OBJECT_HEADER_SIZE :: nat where "NPK_ZLIB_OBJECT_HEADER_SIZE = 30"

lemmas npk_sizes = NPK_HEADER_SIZE_def NPK_CONTAINER_HEADER_SIZE_def NPK_ZLIB_OBJECT_HEADER_SIZE_def

fun npk_status_string :: "npk_status \<Rightarrow> string" where
  "npk_status_string NPK_STATUS_OK = ''ok''"
| "npk_status_string NPK_STATUS_INVALID_ARGUMENT = ''invalid argument''"
| "npk_status_string NPK_STATUS_NO_MEMORY = ''out of memory''"
| "npk_status_string NPK_STATUS_TRUNCATED = ''truncated input''"
| "npk_status_string NPK_STATUS_BAD_MAGIC = ''bad magic''"
| "npk_status_string NPK_STATUS_BAD_FORMAT = ''bad format''"
| "npk_status_string NPK_STATUS_ZLIB_ERROR = ''zlib error''"
| "npk_status_string NPK_STATUS_NO_CONTENT_CONTAINER = ''no content container''"
| "npk_status_string NPK_STATUS_NOT_FOUND = ''not found''"
| "npk_status_string NPK_STATUS_NOT_A_FILE = ''not a regular file''"

definition npk_entry_type_from_mode :: "u16 \<Rightarrow> npk_entry_type" where
  "npk_entry_type_from_mode mode = (let fmt = mode AND 0xF000 in
     if fmt = 0x4000 then NPK_ENTRY_TYPE_DIR
     else if fmt = 0x8000 then NPK_ENTRY_TYPE_FILE else NPK_ENTRY_TYPE_OTHER)"

subsection \<open>Inflating the content\<close>

text \<open>The growth of a full buffer at the head of the loop: \<^const>\<open>None\<close> when it fails.\<close>

definition grow_output :: "npk_mem \<Rightarrow> u64 \<Rightarrow> bytes \<Rightarrow> u64 option" where
  "grow_output mem capacity out =
     (if of_nat (length out) = capacity
      then if mem (GrowOutput (capacity * 2)) then Some (capacity * 2) else None
      else Some capacity)"

partial_function (option) inflate_loop ::
    "'z zlib \<Rightarrow> npk_mem \<Rightarrow> 'z \<Rightarrow> u64 \<Rightarrow> bytes \<Rightarrow> (npk_status \<times> bytes \<times> npk_event list) option" where
  "inflate_loop Z mem stream capacity out =
     (case grow_output mem capacity out of
        None \<Rightarrow> Some (NPK_STATUS_NO_MEMORY, [], [Free StreamBlock, Free ContentBlock])
      | Some cap \<Rightarrow>
          (case inflate Z stream (ucast (cap - of_nat (length out))) of (stream', o', ret) \<Rightarrow>
             if length out + length o' > unat cap then None
             else (case ret of
                Z_STREAM_END \<Rightarrow> Some (NPK_STATUS_OK, out @ o', [])
              | Z_OK \<Rightarrow> inflate_loop Z mem stream' cap (out @ o')
              | Z_ERROR e \<Rightarrow> Some (NPK_STATUS_ZLIB_ERROR, [], [Free StreamBlock, Free ContentBlock]))))"

text \<open>The status, and \<open>*output\<close> (a null pointer for no bytes) with \<open>*output_len\<close> on success.\<close>

definition npk_inflate_payload ::
    "'z zlib \<Rightarrow> npk_mem \<Rightarrow> bytes \<Rightarrow> (npk_status \<times> bytes option \<times> nat \<times> npk_event list) option" where
  "npk_inflate_payload Z mem input =
     (let c0 = of_nat (length input) * 4;
          capacity = (if c0 < 4096 then 4096 else c0)
      in if \<not> mem AllocOutput then Some (NPK_STATUS_NO_MEMORY, None, 0, [])
         else (case inflateInit Z input of
           None \<Rightarrow> Some (NPK_STATUS_ZLIB_ERROR, None, 0, [Alloc ContentBlock, Free ContentBlock])
         | Some stream \<Rightarrow> do {
             (status, out, log) \<leftarrow> inflate_loop Z mem stream capacity [];
             let log' = [Alloc ContentBlock, Alloc StreamBlock] @ log;
             if status \<noteq> NPK_STATUS_OK then Some (status, None, 0, log')
             else if out = [] then Some (NPK_STATUS_OK, None, 0, log' @ [Free StreamBlock, Free ContentBlock])
             else Some (NPK_STATUS_OK, Some out, length out, log' @ [Free StreamBlock])
           }))"

subsection \<open>Entries\<close>

definition npk_append_entry ::
    "npk_mem \<Rightarrow> npk_package \<Rightarrow> nat \<Rightarrow> u16 \<Rightarrow> u16 \<Rightarrow> nat \<Rightarrow> u32 \<Rightarrow>
     (npk_status \<times> npk_package \<times> npk_event list) option" where
  "npk_append_entry mem package name_ptr name_len mode payload_ptr payload_len =
     (let k = length (entry_list package);
          package1 = package\<lparr>p_entries := Some (entry_list package)\<rparr>;
          log = (if p_entries package = None then [Alloc EntriesBlock] else [])
      in if \<not> mem (GrowEntries k) then Some (NPK_STATUS_NO_MEMORY, package, [])
         else if \<not> mem (AllocName k) then Some (NPK_STATUS_NO_MEMORY, package1, log)
         else do {
           buffer \<leftarrow> p_content_buffer package;
           name \<leftarrow> rdbytes buffer name_ptr (unat name_len);
           Some (NPK_STATUS_OK, package\<lparr>p_entries := Some (entry_list package @
             [\<lparr>e_name = name @ [0], e_mode = mode, e_size = payload_len,
               e_type = npk_entry_type_from_mode mode, e_data = payload_ptr\<rparr>])\<rparr>,
             log @ [Alloc (NameBlock k)])
         })"

lemma append_entry_content:
  "npk_append_entry mem package a b c d e = Some (status, package', log) \<Longrightarrow>
   p_content_size package' = p_content_size package \<and>
   p_content_buffer package' = p_content_buffer package"
  by (auto simp: npk_append_entry_def Let_def bind_eq_Some_conv split: if_splits)

function npk_parse_entries ::
    "npk_mem \<Rightarrow> npk_package \<Rightarrow> nat \<Rightarrow> (npk_status \<times> npk_package \<times> npk_event list) option" where
  "npk_parse_entries mem package offset =
     (let buffer_len = p_content_size package in
      if offset < buffer_len then
        if buffer_len - offset < NPK_ZLIB_OBJECT_HEADER_SIZE then Some (NPK_STATUS_TRUNCATED, package, [])
        else do {
          buffer \<leftarrow> p_content_buffer package;
          mode \<leftarrow> rd16 buffer offset;
          payload_len \<leftarrow> rd32 buffer (offset + 24);
          name_len \<leftarrow> rd16 buffer (offset + 28);
          let required = NPK_ZLIB_OBJECT_HEADER_SIZE + unat name_len + unat payload_len;
          if required > buffer_len - offset then Some (NPK_STATUS_TRUNCATED, package, [])
          else do {
            let name_ptr = offset + NPK_ZLIB_OBJECT_HEADER_SIZE;
            let payload_ptr = name_ptr + unat name_len;
            (status, package', log) \<leftarrow>
              npk_append_entry mem package name_ptr name_len mode payload_ptr payload_len;
            if status \<noteq> NPK_STATUS_OK then Some (status, package', log)
            else do {
              (status', package'', log') \<leftarrow> npk_parse_entries mem package' (offset + required);
              Some (status', package'', log @ log')
            }
          }
        }
      else Some (NPK_STATUS_OK, package, []))"
  by pat_completeness auto
termination
  by (relation "measure (\<lambda>(mem, package, offset). p_content_size package - offset)")
    (auto simp: NPK_ZLIB_OBJECT_HEADER_SIZE_def dest!: append_entry_content)

declare npk_parse_entries.simps [simp del]

subsection \<open>The package\<close>

function find_content ::
    "'z zlib \<Rightarrow> npk_mem \<Rightarrow> bytes \<Rightarrow> nat \<Rightarrow> npk_package \<Rightarrow> nat \<Rightarrow>
     (npk_status \<times> npk_package \<times> npk_event list) option" where
  "find_content Z mem buffer payload_end package offset =
     (if offset < payload_end then
        if payload_end - offset < NPK_CONTAINER_HEADER_SIZE then Some (NPK_STATUS_TRUNCATED, package, [])
        else do {
          container_id \<leftarrow> rd16 buffer offset;
          container_payload_len \<leftarrow> rd32 buffer (offset + 2);
          let container_size = NPK_CONTAINER_HEADER_SIZE + unat container_payload_len;
          if container_size > payload_end - offset then Some (NPK_STATUS_TRUNCATED, package, [])
          else if container_id = NPK_ZLIB_COMPRESSED_DATA
          then do {
            input \<leftarrow> rdbytes buffer (offset + NPK_CONTAINER_HEADER_SIZE) (unat container_payload_len);
            (status, content, size, log) \<leftarrow> npk_inflate_payload Z mem input;
            if status \<noteq> NPK_STATUS_OK then Some (status, package, log)
            else do {
              (status', package', log') \<leftarrow> npk_parse_entries mem
                (package\<lparr>p_content_buffer := content, p_content_size := size\<rparr>) 0;
              Some (status', package', log @ log')
            }
          }
          else find_content Z mem buffer payload_end package (offset + container_size)
        }
      else Some (NPK_STATUS_NO_CONTENT_CONTAINER, package, []))"
  by pat_completeness auto
termination
  by (relation "measure (\<lambda>(Z, mem, buffer, payload_end, package, offset). payload_end - offset)")
    (auto simp: NPK_CONTAINER_HEADER_SIZE_def)

declare find_content.simps [simp del]

definition npk_find_and_inflate_content ::
    "'z zlib \<Rightarrow> npk_mem \<Rightarrow> bytes \<Rightarrow> npk_package \<Rightarrow> (npk_status \<times> npk_package \<times> npk_event list) option" where
  "npk_find_and_inflate_content Z mem buffer package = do {
     payload_len \<leftarrow> rd32 buffer 4;
     if unat payload_len > length buffer - NPK_HEADER_SIZE then Some (NPK_STATUS_TRUNCATED, package, [])
     else find_content Z mem buffer (NPK_HEADER_SIZE + unat payload_len) package NPK_HEADER_SIZE
   }"

text \<open>The blocks \<open>npk_package_free\<close> returns to the allocator, in order.\<close>

definition npk_free_entries :: "npk_entry list option \<Rightarrow> npk_block list" where
  "npk_free_entries entries = (case entries of None \<Rightarrow> []
     | Some es \<Rightarrow> map NameBlock [0..<length es] @ [EntriesBlock])"

definition npk_package_free :: "npk_package option \<Rightarrow> npk_block list" where
  "npk_package_free package = (case package of None \<Rightarrow> []
     | Some p \<Rightarrow> npk_free_entries (p_entries p) @
         (if p_content_buffer p = None then [] else [ContentBlock]) @ [PackageBlock])"

text \<open>The status, \<open>*out_package\<close>, and the log of the allocator.\<close>

definition npk_parse_buffer ::
    "'z zlib \<Rightarrow> npk_mem \<Rightarrow> bytes option \<Rightarrow> bool \<Rightarrow> (npk_status \<times> npk_package option \<times> npk_event list) option" where
  "npk_parse_buffer Z mem buf out_package = (case buf of
     None \<Rightarrow> Some (NPK_STATUS_INVALID_ARGUMENT, None, [])
   | Some buffer \<Rightarrow>
       if \<not> out_package \<or> length buffer < NPK_HEADER_SIZE
       then Some (NPK_STATUS_INVALID_ARGUMENT, None, [])
       else do {
         magic \<leftarrow> rd32 buffer 0;
         if magic \<noteq> NPK_MAGIC_BYTES then Some (NPK_STATUS_BAD_MAGIC, None, [])
         else if \<not> mem AllocPackage then Some (NPK_STATUS_NO_MEMORY, None, [])
         else do {
           (status, package, log) \<leftarrow> npk_find_and_inflate_content Z mem buffer empty_package;
           if status \<noteq> NPK_STATUS_OK
           then Some (status, None, Alloc PackageBlock # log @ map Free (npk_package_free (Some package)))
           else Some (NPK_STATUS_OK, Some package, Alloc PackageBlock # log)
         }
       })"

text \<open>\<open>strcmp (a, b) == 0\<close> on terminated strings.\<close>

definition strcmp_eq :: "bytes \<Rightarrow> bytes \<Rightarrow> bool option" where
  "strcmp_eq a b = (if 0 \<in> set a \<and> 0 \<in> set b then Some (c_str a = c_str b) else None)"

fun find_entry :: "npk_entry list \<Rightarrow> bytes \<Rightarrow> npk_entry option option" where
  "find_entry [] filename = Some None"
| "find_entry (entry # es) filename = do {
     eq \<leftarrow> strcmp_eq (e_name entry) filename;
     if eq then Some (Some entry) else find_entry es filename
   }"

text \<open>The status and \<open>*out_data\<close>, \<open>*out_size\<close>; the loop returns at the first entry of the name.\<close>

definition npk_extract_file ::
    "npk_mem \<Rightarrow> npk_package option \<Rightarrow> bytes option \<Rightarrow> bool \<Rightarrow> (npk_status \<times> bytes option \<times> u64) option" where
  "npk_extract_file mem package filename outs = (case (package, filename) of
     (Some p, Some name) \<Rightarrow>
       if \<not> outs then Some (NPK_STATUS_INVALID_ARGUMENT, None, 0)
       else do {
         found \<leftarrow> find_entry (entry_list p) name;
         case found of
           None \<Rightarrow> Some (NPK_STATUS_NOT_FOUND, None, 0)
         | Some entry \<Rightarrow>
             if e_type entry \<noteq> NPK_ENTRY_TYPE_FILE then Some (NPK_STATUS_NOT_A_FILE, None, 0)
             else if e_size entry = 0 then Some (NPK_STATUS_OK, None, 0)
             else if \<not> mem AllocCopy then Some (NPK_STATUS_NO_MEMORY, None, 0)
             else do {
               buffer \<leftarrow> p_content_buffer p;
               copy \<leftarrow> rdbytes buffer (e_data entry) (unat (e_size entry));
               Some (NPK_STATUS_OK, Some copy, ucast (e_size entry))
             }
       }
   | _ \<Rightarrow> Some (NPK_STATUS_INVALID_ARGUMENT, None, 0))"

subsection \<open>Safety on every input\<close>

text \<open>
  The blocks that are live after a log: none when a live block is allocated again, or a block freed
  that is not live.
\<close>

fun heap_after :: "npk_block set \<Rightarrow> npk_event list \<Rightarrow> npk_block set option" where
  "heap_after H [] = Some H"
| "heap_after H (Alloc b # es) = (if b \<in> H then None else heap_after (insert b H) es)"
| "heap_after H (Free b # es) = (if b \<in> H then heap_after (H - {b}) es else None)"

lemma heap_after_append: "heap_after H (xs @ ys) = heap_after H xs \<bind> (\<lambda>H'. heap_after H' ys)"
  by (induction H xs rule: heap_after.induct) simp_all

lemma heap_after_frees: "distinct bs \<Longrightarrow> set bs \<subseteq> H \<Longrightarrow> heap_after H (map Free bs) = Some (H - set bs)"
proof (induction bs arbitrary: H)
  case (Cons b bs)
  then have "set bs \<subseteq> H - {b}" by auto
  then show ?case using Cons by (simp add: Diff_insert2 [symmetric])
qed simp

text \<open>The blocks of a package.\<close>

definition held :: "npk_package \<Rightarrow> npk_block set" where
  "held p = (case p_entries p of None \<Rightarrow> {} | Some es \<Rightarrow> insert EntriesBlock (NameBlock ` {..<length es})) \<union>
     (if p_content_buffer p = None then {} else {ContentBlock}) \<union> {PackageBlock}"

lemma package_free_held: "set (npk_package_free (Some p)) = held p" "distinct (npk_package_free (Some p))"
  by (auto simp: npk_package_free_def npk_free_entries_def held_def distinct_map inj_on_def split: option.split)

lemma heap_after_package_free:
  "heap_after (held p) (map Free (npk_package_free (Some p))) = Some {}"
  using heap_after_frees [OF package_free_held(2), of p "held p"] by (simp add: package_free_held(1))

text \<open>
  What is relied on of \<open>inflate\<close>: it writes no more than \<open>avail_out\<close> bytes, and it returns \<open>Z_OK\<close>
  only after some progress in a stream that is finite. The allocator grants no buffer larger than the
  address space.
\<close>

definition zlib_terminates :: "'z zlib \<Rightarrow> ('z \<Rightarrow> nat) \<Rightarrow> bool" where
  "zlib_terminates Z left = (\<forall>s n s' out ret. inflate Z s n = (s', out, ret) \<longrightarrow>
     length out \<le> unat n \<and> (ret = Z_OK \<longrightarrow> left s' < left s))"

definition mem_bounded :: "npk_mem \<Rightarrow> bool" where
  "mem_bounded mem = (\<forall>c. mem (GrowOutput c) \<longrightarrow> unat c \<le> 2 ^ 48)"

lemma grow_output_ok:
  assumes "mem_bounded mem" and "length out \<le> unat capacity" and "unat capacity \<le> 2 ^ 48"
    and "grow_output mem capacity out = Some cap"
  shows "length out \<le> unat cap" and "unat cap \<le> 2 ^ 48"
    and "unat (cap - of_nat (length out)) = unat cap - length out"
proof -
  have double: "unat (capacity * 2) = unat capacity * 2"
    using assms(3) by (simp add: unat_word_ariths)
  show le: "length out \<le> unat cap" and "unat cap \<le> 2 ^ 48"
    using assms double by (auto simp: grow_output_def mem_bounded_def split: if_splits)
  have "unat (of_nat (length out) :: u64) = length out"
    by (rule unat_of_nat_small) (use assms(2,3) in simp)
  then show "unat (cap - of_nat (length out)) = unat cap - length out"
    using le by (subst unat_sub) (simp_all add: word_le_nat_alt)
qed

lemma unat_avail: "unat (ucast (w :: u64) :: u32) \<le> unat w"
  by (simp add: unsigned_ucast_eq take_bit_nat_less_eq_self)

lemma inflate_loop_total:
  assumes "zlib_terminates Z left" and "mem_bounded mem"
    and "length out \<le> unat capacity" and "unat capacity \<le> 2 ^ 48"
  shows "\<exists>st d log. inflate_loop Z mem s capacity out = Some (st, d, log) \<and>
    log = (if st = NPK_STATUS_OK then [] else [Free StreamBlock, Free ContentBlock])"
  using assms(3,4)
proof (induction "left s" arbitrary: s capacity out rule: less_induct)
  case less
  show ?case
  proof (cases "grow_output mem capacity out")
    case None
    then show ?thesis by (simp add: inflate_loop.simps)
  next
    case (Some cap)
    note cap = grow_output_ok [OF assms(2) less.prems Some]
    obtain s' o' ret where r: "inflate Z s (ucast (cap - of_nat (length out))) = (s', o', ret)"
      by (rule prod_cases3)
    have o': "length out + length o' \<le> unat cap" "ret = Z_OK \<longrightarrow> left s' < left s"
      using assms(1) r unat_avail [of "cap - of_nat (length out)"] cap(1,3)
      unfolding zlib_terminates_def by fastforce+
    show ?thesis
    proof (cases ret)
      case Z_OK
      then show ?thesis using Some r o' cap(2) less.hyps [of s' "out @ o'" cap]
        by (subst inflate_loop.simps) simp
    qed (use Some r o'(1) in \<open>simp_all add: inflate_loop.simps [of Z mem s]\<close>)
  qed
qed

lemma inflate_payload_total:
  assumes "zlib_terminates Z left" and "mem_bounded mem" and "length input < 2 ^ 32"
  shows "\<exists>st c n log. npk_inflate_payload Z mem input = Some (st, c, n, log) \<and>
    heap_after {PackageBlock} log =
      Some (if st = NPK_STATUS_OK \<and> c \<noteq> None then {ContentBlock, PackageBlock} else {PackageBlock}) \<and>
    (st = NPK_STATUS_OK \<longrightarrow> (case c of None \<Rightarrow> n = 0 | Some b \<Rightarrow> n = length b))"
proof -
  define c0 :: u64 where "c0 = of_nat (length input) * 4"
  have "unat (of_nat (length input) :: u64) = length input"
    by (rule unat_of_nat_small) (use assms(3) in simp)
  then have "unat c0 = length input * 4" using assms(3) by (simp add: c0_def unat_word_ariths)
  then have "unat (if c0 < 4096 then 4096 else c0) \<le> 2 ^ 48" using assms(3) by simp
  then have loop: "\<exists>st d log. inflate_loop Z mem s (if c0 < 4096 then 4096 else c0) [] = Some (st, d, log) \<and>
      log = (if st = NPK_STATUS_OK then [] else [Free StreamBlock, Free ContentBlock])" for s
    by (intro inflate_loop_total [OF assms(1,2)]) simp_all
  show ?thesis
  proof (cases "inflateInit Z input")
    case None
    then show ?thesis by (simp add: npk_inflate_payload_def Let_def)
  next
    case (Some s)
    obtain st d log where "inflate_loop Z mem s (if c0 < 4096 then 4096 else c0) [] = Some (st, d, log)"
        "log = (if st = NPK_STATUS_OK then [] else [Free StreamBlock, Free ContentBlock])"
      using loop by blast
    then show ?thesis using Some
      by (simp add: npk_inflate_payload_def c0_def [symmetric] Let_def del: of_nat_mult)
  qed
qed

definition content_ok :: "npk_package \<Rightarrow> bool" where
  "content_ok p = (case p_content_buffer p of None \<Rightarrow> p_content_size p = 0 | Some b \<Rightarrow> p_content_size p = length b)"

definition package_ok :: "npk_package \<Rightarrow> bool" where
  "package_ok p = (content_ok p \<and> (\<forall>e \<in> set (entry_list p). 0 \<in> set (e_name e) \<and>
     p_content_buffer p \<noteq> None \<and> e_data e + unat (e_size e) \<le> p_content_size p))"

lemma append_entry_run:
  assumes "package_ok p" and "p_content_buffer p \<noteq> None"
    and "a + unat n \<le> p_content_size p" and "d + unat sz \<le> p_content_size p"
  shows "\<exists>st p' log. npk_append_entry mem p a n mode d sz = Some (st, p', log) \<and> package_ok p' \<and>
    heap_after (held p) log = Some (held p')"
proof -
  obtain b where b: "p_content_buffer p = Some b" "p_content_size p = length b"
    using assms(1,2) by (auto simp: package_ok_def content_ok_def)
  then show ?thesis using assms
    by (auto simp: npk_append_entry_def Let_def package_ok_def content_ok_def entry_list_def held_def
        lessThan_Suc split: option.splits)
qed

lemma parse_entries_run:
  assumes "package_ok p"
  shows "\<exists>st p' log. npk_parse_entries mem p offset = Some (st, p', log) \<and> package_ok p' \<and>
    heap_after (held p) log = Some (held p')"
  using assms
proof (induction "p_content_size p - offset" arbitrary: p offset rule: less_induct)
  case less
  let ?n = "p_content_size p"
  show ?case
  proof (cases "offset < ?n \<and> 30 \<le> ?n - offset")
    case False
    then have "npk_parse_entries mem p offset =
        (if offset < ?n then Some (NPK_STATUS_TRUNCATED, p, []) else Some (NPK_STATUS_OK, p, []))"
      by (subst npk_parse_entries.simps) (auto simp: npk_sizes)
    then show ?thesis using less.prems by simp
  next
    case True
    then obtain b where b: "p_content_buffer p = Some b" "?n = length b"
      using less.prems by (auto simp: package_ok_def content_ok_def split: option.splits)
    define k :: u16 where "k = le16 b (offset + 28)"
    define m :: u32 where "m = le32 b (offset + 24)"
    have unfold: "npk_parse_entries mem p offset =
        (if 30 + unat k + unat m > ?n - offset then Some (NPK_STATUS_TRUNCATED, p, [])
         else do {
           (st, p', log) \<leftarrow> npk_append_entry mem p (offset + 30) k (le16 b offset) (offset + 30 + unat k) m;
           if st \<noteq> NPK_STATUS_OK then Some (st, p', log)
           else do {
             (st', p'', log') \<leftarrow> npk_parse_entries mem p' (offset + (30 + unat k + unat m));
             Some (st', p'', log @ log') } })"
    proof -
      have "offset + 30 \<le> length b" using True b(2) by linarith
      then have "rd16 b offset = Some (le16 b offset)" "rd32 b (offset + 24) = Some m"
          "rd16 b (offset + 28) = Some k"
        by (simp_all add: k_def m_def)
      moreover have "offset < ?n" "\<not> ?n - offset < 30" using True by simp_all
      ultimately show ?thesis using b(1)
        by (subst npk_parse_entries.simps) (simp only: npk_sizes Let_def if_True if_False Option.bind.bind_lunit)
    qed
    show ?thesis
    proof (cases "30 + unat k + unat m > ?n - offset")
      case False
      then have "offset + 30 + unat k + unat m \<le> ?n" using True by linarith
      then obtain st p' log where p': "npk_append_entry mem p (offset + 30) k (le16 b offset)
          (offset + 30 + unat k) m = Some (st, p', log)" "package_ok p'" "heap_after (held p) log = Some (held p')"
        using append_entry_run [OF less.prems, of "offset + 30" k "offset + 30 + unat k" m mem "le16 b offset"] b
        by auto
      then have "p_content_size p' = ?n" using append_entry_content by blast
      then obtain st' p'' log' where "npk_parse_entries mem p' (offset + (30 + unat k + unat m)) = Some (st', p'', log')"
          "package_ok p''" "heap_after (held p') log' = Some (held p'')"
        using less.hyps [of p' "offset + (30 + unat k + unat m)"] p'(2) True by fastforce
      then show ?thesis using False p' by (simp add: unfold heap_after_append)
    qed (use unfold less.prems in simp)
  qed
qed

lemma find_content_run:
  assumes "zlib_terminates Z left" and "mem_bounded mem" and "payload_end \<le> length buffer"
    and "p = empty_package"
  shows "\<exists>st p' log. find_content Z mem buffer payload_end p offset = Some (st, p', log) \<and> package_ok p' \<and>
    heap_after {PackageBlock} log = Some (held p')"
proof -
  have pok: "package_ok p" "held p = {PackageBlock}"
    by (simp_all add: assms(4) empty_package_def package_ok_def content_ok_def entry_list_def held_def)
  show ?thesis
  proof (induction "payload_end - offset" arbitrary: offset rule: less_induct)
  case less
  show ?case
  proof (cases "offset < payload_end \<and> 6 \<le> payload_end - offset")
    case False
    then have "find_content Z mem buffer payload_end p offset =
        (if offset < payload_end then Some (NPK_STATUS_TRUNCATED, p, [])
         else Some (NPK_STATUS_NO_CONTENT_CONTAINER, p, []))"
      by (subst find_content.simps) (auto simp: npk_sizes)
    then show ?thesis using pok by simp
  next
    case True
    define i :: u16 where "i = le16 buffer offset"
    define m :: u32 where "m = le32 buffer (offset + 2)"
    have rds: "rd16 buffer offset = Some i" "rd32 buffer (offset + 2) = Some m"
      using True assms(3) by (auto simp: i_def m_def)
    note unfold = find_content.simps [of Z mem buffer payload_end p offset]
    consider "6 + unat m > payload_end - offset"
      | "6 + unat m \<le> payload_end - offset" "i = NPK_ZLIB_COMPRESSED_DATA"
      | "6 + unat m \<le> payload_end - offset" "i \<noteq> NPK_ZLIB_COMPRESSED_DATA" by linarith
    then show ?thesis
    proof cases
      case 1
      then show ?thesis using True pok rds by (simp add: unfold npk_sizes Let_def)
    next
      case 2
      then have "offset + 6 + unat m \<le> length buffer" using True assms(3) by linarith
      then have inp: "rdbytes buffer (offset + 6) (unat m) = Some (take (unat m) (drop (offset + 6) buffer))"
        by (intro rdbytes_Some)
      have "unat m < 2 ^ LENGTH(32)" by (rule unsigned_less)
      then have "length (take (unat m) (drop (offset + 6) buffer)) < 2 ^ 32" by (simp add: min_def)
      then obtain st c n log where r: "npk_inflate_payload Z mem (take (unat m) (drop (offset + 6) buffer)) =
          Some (st, c, n, log)" "heap_after {PackageBlock} log =
          Some (if st = NPK_STATUS_OK \<and> c \<noteq> None then {ContentBlock, PackageBlock} else {PackageBlock})" "st = NPK_STATUS_OK \<longrightarrow> (case c of None \<Rightarrow> n = 0 | Some b \<Rightarrow> n = length b)"
        using inflate_payload_total [OF assms(1,2)] by blast
      show ?thesis
      proof (cases "st = NPK_STATUS_OK")
        case True
        let ?p = "p\<lparr>p_content_buffer := c, p_content_size := n\<rparr>"
        have "package_ok ?p" using True r(3)
          by (cases c) (simp_all add: assms(4) empty_package_def package_ok_def content_ok_def entry_list_def)
        then obtain st' p' log' where e: "npk_parse_entries mem ?p 0 = Some (st', p', log')" "package_ok p'"
            "heap_after (held ?p) log' = Some (held p')"
          using parse_entries_run by blast
        have "heap_after {PackageBlock} log = Some (held ?p)" using True r(2)
          by (auto simp: assms(4) empty_package_def held_def)
        then show ?thesis using 2 \<open>offset < payload_end \<and> _\<close> rds inp r(1) True e
          by (simp add: unfold npk_sizes Let_def heap_after_append)
      qed (use 2 \<open>offset < payload_end \<and> _\<close> rds inp r pok in \<open>simp add: unfold npk_sizes Let_def\<close>)
    next
      case 3
      then show ?thesis using True rds less.hyps [of "offset + (6 + unat m)"] by (simp add: unfold npk_sizes Let_def)
    qed
  qed
qed
qed

text \<open>On every input the parser returns without a memory fault; what it returns can be extracted from.\<close>

lemma parse_buffer_run:
  assumes "zlib_terminates Z left" and "mem_bounded mem"
  shows "\<exists>st p log. npk_parse_buffer Z mem (Some buffer) True = Some (st, p, log) \<and>
    (if st = NPK_STATUS_OK
     then \<exists>pk. p = Some pk \<and> package_ok pk \<and> heap_after {} log = Some (held pk)
     else p = None \<and> heap_after {} log = Some {})"
proof -
  have run: "\<exists>st pk log. npk_find_and_inflate_content Z mem buffer empty_package = Some (st, pk, log) \<and>
      package_ok pk \<and> heap_after {PackageBlock} log = Some (held pk)" if "8 \<le> length buffer"
  proof (cases "unat (le32 buffer 4) > length buffer - 8")
    case True
    then show ?thesis using that
      by (simp add: npk_find_and_inflate_content_def npk_sizes empty_package_def package_ok_def content_ok_def
          entry_list_def held_def)
  next
    case False
    then have "8 + unat (le32 buffer 4) \<le> length buffer" using that by linarith
    then obtain st pk log where "find_content Z mem buffer (8 + unat (le32 buffer 4)) empty_package 8 = Some (st, pk, log)"
        "package_ok pk" "heap_after {PackageBlock} log = Some (held pk)"
      using find_content_run [OF assms _ refl] by blast
    then show ?thesis using False that by (simp add: npk_find_and_inflate_content_def npk_sizes)
  qed
  show ?thesis
  proof (cases "8 \<le> length buffer \<and> le32 buffer 0 = NPK_MAGIC_BYTES \<and> mem AllocPackage")
    case True
    then obtain st pk log where "npk_find_and_inflate_content Z mem buffer empty_package = Some (st, pk, log)"
        "package_ok pk" "heap_after {PackageBlock} log = Some (held pk)"
      using run by blast
    then show ?thesis using True
      by (simp add: npk_parse_buffer_def npk_sizes heap_after_append heap_after_package_free)
  qed (auto simp: npk_parse_buffer_def npk_sizes)
qed

lemma find_entry_run:
  assumes "\<forall>e \<in> set es. 0 \<in> set (e_name e)" and "0 \<in> set name"
  shows "find_entry es name = Some (List.find (\<lambda>e. c_str (e_name e) = c_str name) es)"
  using assms by (induction es) (auto simp: strcmp_eq_def)

lemma find_in_set: "List.find P es = Some e \<Longrightarrow> e \<in> set es \<and> P e"
  by (induction es) (auto split: if_splits)

lemma extract_file_run:
  assumes "package_ok p" and "0 \<in> set name"
  shows "\<exists>r. npk_extract_file mem (Some p) (Some name) outs = Some r"
proof -
  have "\<forall>e \<in> set (entry_list p). 0 \<in> set (e_name e)" using assms(1) by (simp add: package_ok_def)
  note f = find_entry_run [OF this assms(2)]
  show ?thesis
  proof (cases "List.find (\<lambda>e. c_str (e_name e) = c_str name) (entry_list p)")
    case None
    then show ?thesis by (simp add: npk_extract_file_def f)
  next
    case (Some e)
    then have "e \<in> set (entry_list p)" by (rule conjunct1 [OF find_in_set])
    then obtain b where "p_content_buffer p = Some b" "e_data e + unat (e_size e) \<le> p_content_size p"
      using assms(1) by (auto simp: package_ok_def)
    moreover from this have "p_content_size p = length b" using assms(1) by (simp add: package_ok_def content_ok_def)
    ultimately have "rdbytes b (e_data e) (unat (e_size e)) =
        Some (take (unat (e_size e)) (drop (e_data e) b))" "p_content_buffer p = Some b"
      by simp_all
    then show ?thesis using Some by (simp add: npk_extract_file_def f)
  qed
qed

subsection \<open>Round trip\<close>

text \<open>Packages as their writer lays them out: files, containers, and the zlib container among them.\<close>

record npk_file =
  f_mode :: u16
  f_pad :: bytes
  f_name :: bytes
  f_data :: bytes

definition file_wf :: "npk_file \<Rightarrow> bool" where
  "file_wf f = (length (f_pad f) = 22 \<and> length (f_name f) < 2 ^ 16 \<and> length (f_data f) < 2 ^ 32)"

definition npk_object :: "npk_file \<Rightarrow> bytes" where
  "npk_object f = bytes16 (f_mode f) @ f_pad f @ bytes32 (of_nat (length (f_data f))) @
     bytes16 (of_nat (length (f_name f))) @ f_name f @ f_data f"

definition npk_container :: "u16 \<Rightarrow> bytes \<Rightarrow> bytes" where
  "npk_container i payload = bytes16 i @ bytes32 (of_nat (length payload)) @ payload"

definition npk_image :: "(u16 \<times> bytes) list \<Rightarrow> bytes \<Rightarrow> bytes \<Rightarrow> bytes" where
  "npk_image others zdata rest =
     (let body = concat (map (\<lambda>(i, d). npk_container i d) others) @
        npk_container NPK_ZLIB_COMPRESSED_DATA zdata @ rest
      in bytes32 NPK_MAGIC_BYTES @ bytes32 (of_nat (length body)) @ body)"

fun entries_at :: "nat \<Rightarrow> npk_file list \<Rightarrow> npk_entry list" where
  "entries_at off [] = []"
| "entries_at off (f # fs) =
     \<lparr>e_name = f_name f @ [0], e_mode = f_mode f, e_size = of_nat (length (f_data f)),
      e_type = npk_entry_type_from_mode (f_mode f), e_data = off + 30 + length (f_name f)\<rparr> #
     entries_at (off + 30 + length (f_name f) + length (f_data f)) fs"

lemma le16_shift: "le16 (xs @ ys) (length xs + k) = le16 ys k"
  by (simp add: le16_def nth_append)

lemma le32_shift: "le32 (xs @ ys) (length xs + k) = le32 ys k"
  by (simp add: le32_def nth_append)

lemma le16_head: "le16 (bytes16 w @ ys) 0 = w"
  using le16_append [of 0 "bytes16 w" ys] by simp

lemma le32_head: "le32 (bytes32 w @ ys) 0 = w"
  using le32_append [of 0 "bytes32 w" ys] by simp

lemma le16_at: "length xs = n \<Longrightarrow> le16 (xs @ bytes16 w @ ys) n = w"
  using le16_shift [of xs "bytes16 w @ ys" 0] le16_head by simp

lemma le32_at: "length xs = n \<Longrightarrow> le32 (xs @ bytes32 w @ ys) n = w"
  using le32_shift [of xs "bytes32 w @ ys" 0] le32_head by simp

lemma length_object: "file_wf f \<Longrightarrow> length (npk_object f) = 30 + length (f_name f) + length (f_data f)"
  by (simp add: npk_object_def file_wf_def)

lemma object_fields:
  assumes "file_wf f"
  shows "le16 (pre @ npk_object f @ rest) (length pre) = f_mode f"
    and "le32 (pre @ npk_object f @ rest) (length pre + 24) = of_nat (length (f_data f))"
    and "le16 (pre @ npk_object f @ rest) (length pre + 28) = of_nat (length (f_name f))"
    and "take (length (f_name f)) (drop (length pre + 30) (pre @ npk_object f @ rest)) = f_name f"
proof -
  have p: "length (f_pad f) = 22" using assms by (simp add: file_wf_def)
  show "le16 (pre @ npk_object f @ rest) (length pre) = f_mode f"
    using le16_at [of pre "length pre"] by (simp add: npk_object_def)
  show "le32 (pre @ npk_object f @ rest) (length pre + 24) = of_nat (length (f_data f))"
    using le32_at [of "pre @ bytes16 (f_mode f) @ f_pad f" "length pre + 24"] p by (simp add: npk_object_def)
  show "le16 (pre @ npk_object f @ rest) (length pre + 28) = of_nat (length (f_name f))"
    using le16_at [of "pre @ bytes16 (f_mode f) @ f_pad f @ bytes32 (of_nat (length (f_data f)))"
        "length pre + 28"] p by (simp add: npk_object_def)
  show "take (length (f_name f)) (drop (length pre + 30) (pre @ npk_object f @ rest)) = f_name f"
    using p by (simp add: npk_object_def)
qed

definition mem_grants :: "npk_mem \<Rightarrow> bool" where
  "mem_grants mem = (\<forall>a. (\<forall>c. a = GrowOutput c \<longrightarrow> unat c < 2 ^ 32) \<longrightarrow> mem a)"

lemma parse_objects:
  assumes "mem_grants mem" and "\<forall>f \<in> set fs. file_wf f"
    and "p_content_buffer p = Some (pre @ concat (map npk_object fs))"
    and "p_content_size p = length pre + length (concat (map npk_object fs))"
  shows "\<exists>p' log. npk_parse_entries mem p (length pre) = Some (NPK_STATUS_OK, p', log) \<and>
    p_content_buffer p' = p_content_buffer p \<and> entry_list p' = entry_list p @ entries_at (length pre) fs"
  using assms(2-)
proof (induction fs arbitrary: p pre)
  case Nil
  then show ?case by (subst npk_parse_entries.simps) simp
next
  case (Cons f fs)
  let ?rest = "concat (map npk_object fs)"
  let ?b = "pre @ npk_object f @ ?rest"
  have wf: "file_wf f" using Cons.prems(1) by simp
  note fields = object_fields [OF wf, of pre ?rest] and len = length_object [OF wf]
  have n: "unat (of_nat (length (f_name f)) :: u16) = length (f_name f)"
    "unat (of_nat (length (f_data f)) :: u32) = length (f_data f)"
    using wf by (simp_all add: file_wf_def unat_of_nat_small)
  define p1 where "p1 = p\<lparr>p_entries := Some (entry_list p @
    [\<lparr>e_name = f_name f @ [0], e_mode = f_mode f, e_size = of_nat (length (f_data f)),
      e_type = npk_entry_type_from_mode (f_mode f), e_data = length pre + 30 + length (f_name f)\<rparr>])\<rparr>"
  define log1 where "log1 = (if p_entries p = None then [Alloc EntriesBlock] else []) @
    [Alloc (NameBlock (length (entry_list p)))]"
  have b: "p_content_buffer p = Some ?b" and size: "p_content_size p = length ?b"
    using Cons.prems(2,3) by simp_all
  have ap: "npk_append_entry mem p (length pre + 30) (of_nat (length (f_name f))) (f_mode f)
      (length pre + 30 + length (f_name f)) (of_nat (length (f_data f))) = Some (NPK_STATUS_OK, p1, log1)"
  proof -
    have "length pre + 30 + length (f_name f) \<le> length ?b" using len by simp
    then have "rdbytes ?b (length pre + 30) (length (f_name f)) = Some (f_name f)"
      using fields(4) by (simp only: rdbytes_def if_True)
    then show ?thesis using b n assms(1)
      by (simp add: npk_append_entry_def p1_def log1_def mem_grants_def Let_def)
  qed
  have rds: "rd16 ?b (length pre) = Some (f_mode f)"
    "rd32 ?b (length pre + 24) = Some (of_nat (length (f_data f)))"
    "rd16 ?b (length pre + 28) = Some (of_nat (length (f_name f)))"
    using fields(1-3) len by (simp_all add: rd16_def rd32_def)
  have step: "npk_parse_entries mem p (length pre) =
      npk_parse_entries mem p1 (length pre + (30 + length (f_name f) + length (f_data f))) \<bind>
        (\<lambda>(st, p', log). Some (st, p', log1 @ log))"
    using b size len rds n ap by (subst npk_parse_entries.simps) (simp add: npk_sizes Let_def)
  have "length (pre @ npk_object f) = length pre + (30 + length (f_name f) + length (f_data f))"
    using len by simp
  moreover have "\<exists>p' log. npk_parse_entries mem p1 (length (pre @ npk_object f)) = Some (NPK_STATUS_OK, p', log) \<and>
      p_content_buffer p' = p_content_buffer p1 \<and>
      entry_list p' = entry_list p1 @ entries_at (length (pre @ npk_object f)) fs"
    using Cons.prems by (intro Cons.IH) (simp_all add: p1_def)
  ultimately show ?case using step by (auto simp: p1_def entry_list_def add.assoc)
qed

text \<open>
  What is relied on of \<open>inflate\<close> for a stream whose rest decodes to \<open>rest s\<close>: it delivers as much as
  there is room for, ends the stream only after the last byte, and at the latest when it is asked for
  more than there is.
\<close>

definition zlib_decodes :: "'z zlib \<Rightarrow> ('z \<Rightarrow> bytes option) \<Rightarrow> bool" where
  "zlib_decodes Z rest = (\<forall>s bs n s' out ret. rest s = Some bs \<and> n \<noteq> 0 \<and> inflate Z s n = (s', out, ret) \<longrightarrow>
     out = take (unat n) bs \<and>
     (ret = Z_STREAM_END \<and> length bs \<le> unat n \<or>
      ret = Z_OK \<and> unat n \<le> length bs \<and> rest s' = Some (drop (unat n) bs)))"

lemma avail_exact: "unat (w :: u64) < 2 ^ 32 \<Longrightarrow> unat (ucast w :: u32) = unat w"
  by (simp add: unsigned_ucast_eq take_bit_nat_eq_self)

lemma grow_output_grants:
  assumes "mem_grants mem" and "length out \<le> unat capacity" and "0 < unat capacity"
    and "unat capacity < 2 ^ 32" and "length out < 2 ^ 31"
  obtains cap where "grow_output mem capacity out = Some cap" and "length out < unat cap"
    and "unat cap < 2 ^ 32" and "unat (cap - of_nat (length out)) = unat cap - length out"
proof -
  have out: "unat (of_nat (length out) :: u64) = length out"
    by (rule unat_of_nat_small) (use assms(5) in simp)
  have diff: "unat (cap - of_nat (length out)) = unat cap - length out" if "length out < unat cap" for cap :: u64
    using that out by (subst unat_sub) (simp_all add: word_le_nat_alt)
  show thesis
  proof (cases "of_nat (length out) = capacity")
    case False
    then have "length out \<noteq> unat capacity" by auto
    then show thesis using that [of capacity] False assms diff by (simp add: grow_output_def)
  next
    case True
    then have eq: "unat capacity = length out" using out by simp
    then have d: "unat (capacity * 2) = 2 * length out" using assms(5) by (simp add: unat_word_ariths)
    then have "mem (GrowOutput (capacity * 2))" using assms(1,5) by (simp add: mem_grants_def)
    then show thesis using that [of "capacity * 2"] True d eq assms diff [of "capacity * 2"]
      by (simp add: grow_output_def)
  qed
qed

lemma inflate_loop_decodes:
  assumes "zlib_decodes Z rest" and "mem_grants mem"
    and "rest s = Some bs" and "length out \<le> unat capacity" and "0 < unat capacity"
    and "unat capacity < 2 ^ 32" and "length out + length bs < 2 ^ 31"
  shows "inflate_loop Z mem s capacity out = Some (NPK_STATUS_OK, out @ bs, [])"
  using assms(3-)
proof (induction "length bs" arbitrary: s bs capacity out rule: less_induct)
  case less
  have lt: "length out < 2 ^ 31" using less.prems(5) by linarith
  obtain cap where cap: "grow_output mem capacity out = Some cap" "length out < unat cap"
      "unat cap < 2 ^ 32" "unat (cap - of_nat (length out)) = unat cap - length out"
    by (rule grow_output_grants [OF assms(2) less.prems(2,3,4) lt])
  define n :: u32 where "n = ucast (cap - of_nat (length out))"
  have n: "unat n = unat cap - length out"
    unfolding n_def by (subst avail_exact) (use cap in simp_all)
  then have n0: "n \<noteq> 0" using cap(2) by auto
  obtain s' o' ret where r: "inflate Z s n = (s', o', ret)" by (rule prod_cases3)
  then have c: "o' = take (unat n) bs" "ret = Z_STREAM_END \<and> length bs \<le> unat n \<or>
      ret = Z_OK \<and> unat n \<le> length bs \<and> rest s' = Some (drop (unat n) bs)"
    using assms(1) less.prems(1) n0 unfolding zlib_decodes_def by blast+
  have fits: "\<not> length out + length o' > unat cap" using c(1) n cap(2) by simp
  show ?case
  proof (cases "ret = Z_STREAM_END")
    case True
    then have "o' = bs" using c by auto
    then show ?thesis using True cap(1) r fits
      by (subst inflate_loop.simps) (simp add: n_def [symmetric])
  next
    case False
    then have ok: "ret = Z_OK" "unat n \<le> length bs" "rest s' = Some (drop (unat n) bs)" using c(2) by auto
    have "inflate_loop Z mem s' cap (out @ o') = Some (NPK_STATUS_OK, (out @ o') @ drop (unat n) bs, [])"
      using ok c(1) n cap(2,3) less.prems(5) by (intro less.hyps) auto
    then show ?thesis using ok(1) cap(1) r fits c(1)
      by (subst inflate_loop.simps) (simp add: n_def [symmetric])
  qed
qed

lemma inflate_payload_decodes:
  assumes "zlib_decodes Z rest" and "mem_grants mem" and "inflateInit Z input = Some s"
    and "rest s = Some bs" and "length input < 2 ^ 30" and "length bs < 2 ^ 31" and "bs \<noteq> []"
  shows "npk_inflate_payload Z mem input = Some (NPK_STATUS_OK, Some bs, length bs,
    [Alloc ContentBlock, Alloc StreamBlock, Free StreamBlock])"
proof -
  define c0 :: u64 where "c0 = of_nat (length input) * 4"
  have "unat (of_nat (length input) :: u64) = length input"
    by (rule unat_of_nat_small) (use assms(5) in simp)
  then have c0: "unat c0 = length input * 4" using assms(5) by (simp add: c0_def unat_word_ariths)
  let ?c = "if c0 < 4096 then 4096 else c0"
  have "inflate_loop Z mem s ?c [] = Some (NPK_STATUS_OK, [] @ bs, [])"
    using assms(5,6) c0 by (intro inflate_loop_decodes [OF assms(1,2,4)]) (auto simp: word_less_nat_alt)
  moreover have "mem AllocOutput" using assms(2) by (simp add: mem_grants_def)
  ultimately show ?thesis using assms(3,7)
    by (simp add: npk_inflate_payload_def c0_def [symmetric] Let_def)
qed

lemma length_container: "length (npk_container i d) = 6 + length d"
  by (simp add: npk_container_def)

lemma container_reads:
  assumes "length d < 2 ^ 32"
  shows "rd16 (pre @ npk_container i d @ post) (length pre) = Some i"
    and "rd32 (pre @ npk_container i d @ post) (length pre + 2) = Some (of_nat (length d))"
    and "rdbytes (pre @ npk_container i d @ post) (length pre + 6) (length d) = Some d"
  using le16_at [of pre "length pre" i "bytes32 (of_nat (length d)) @ d @ post"]
    le32_at [of "pre @ bytes16 i" "length pre + 2" "of_nat (length d)" "d @ post"] assms
  by (simp_all add: npk_container_def rd16_def rd32_def rdbytes_def unat_of_nat_small)

lemma find_content_image:
  assumes "npk_inflate_payload Z mem zdata = Some (NPK_STATUS_OK, c, n, log)" and "length zdata < 2 ^ 32"
    and "\<forall>(i, d) \<in> set others. i \<noteq> NPK_ZLIB_COMPRESSED_DATA \<and> length d < 2 ^ 32"
    and "buffer = pre @ concat (map (\<lambda>(i, d). npk_container i d) others) @
      npk_container NPK_ZLIB_COMPRESSED_DATA zdata @ post"
  shows "find_content Z mem buffer (length buffer) p (length pre) =
    npk_parse_entries mem (p\<lparr>p_content_buffer := c, p_content_size := n\<rparr>) 0 \<bind>
      (\<lambda>(st, p', log'). Some (st, p', log @ log'))"
  using assms(3,4)
proof (induction others arbitrary: pre)
  case Nil
  note rds = container_reads [OF assms(2), of pre NPK_ZLIB_COMPRESSED_DATA post]
    unat_of_nat_small [of "length zdata", where 'a = 32]
  then show ?case using Nil.prems(2) assms(1,2)
    by (subst find_content.simps) (simp add: npk_sizes length_container)
next
  case (Cons o' others)
  obtain i d where o': "o' = (i, d)" by fastforce
  then have d: "i \<noteq> NPK_ZLIB_COMPRESSED_DATA" "length d < 2 ^ 32" using Cons.prems(1) by auto
  let ?post = "concat (map (\<lambda>(i, d). npk_container i d) others) @
      npk_container NPK_ZLIB_COMPRESSED_DATA zdata @ post"
  have buf: "buffer = pre @ npk_container i d @ ?post" using Cons.prems(2) o' by simp
  note rds = container_reads [OF d(2), of pre i ?post] unat_of_nat_small [of "length d", where 'a = 32]
  have "length buffer = length pre + (6 + length d) + length ?post"
    by (simp add: buf length_container)
  then have "find_content Z mem buffer (length buffer) p (length pre) =
      find_content Z mem buffer (length buffer) p (length pre + (6 + length d))"
    using rds d by (subst find_content.simps) (simp add: npk_sizes buf [symmetric])
  also have "length pre + (6 + length d) = length (pre @ npk_container i d)"
    by (simp add: length_container)
  also have "find_content Z mem buffer (length buffer) p (length (pre @ npk_container i d)) =
      npk_parse_entries mem (p\<lparr>p_content_buffer := c, p_content_size := n\<rparr>) 0 \<bind>
        (\<lambda>(st, p', log'). Some (st, p', log @ log'))"
    using Cons.prems(1) buf by (intro Cons.IH) simp_all
  finally show ?case .
qed

lemma parse_image:
  assumes "zlib_decodes Z left" and "mem_grants mem" and "inflateInit Z zdata = Some s"
    and "left s = Some (concat (map npk_object files))" and "length zdata < 2 ^ 30"
    and "length (concat (map npk_object files)) < 2 ^ 31" and "files \<noteq> []"
    and "\<forall>f \<in> set files. file_wf f"
    and "\<forall>(i, d) \<in> set others. i \<noteq> NPK_ZLIB_COMPRESSED_DATA \<and> length d < 2 ^ 32"
    and "length (npk_image others zdata post) < 2 ^ 32"
  shows "\<exists>p log. npk_parse_buffer Z mem (Some (npk_image others zdata post)) True = Some (NPK_STATUS_OK, Some p, log) \<and>
    p_content_buffer p = Some (concat (map npk_object files)) \<and> entry_list p = entries_at 0 files"
proof -
  let ?c = "concat (map npk_object files)"
  define body where "body = concat (map (\<lambda>(i, d). npk_container i d) others) @
    npk_container NPK_ZLIB_COMPRESSED_DATA zdata @ post"
  have img: "npk_image others zdata post = bytes32 NPK_MAGIC_BYTES @ bytes32 (of_nat (length body)) @ body"
    by (simp add: npk_image_def body_def Let_def)
  have "\<exists>f fs. files = f # fs" using assms(7) by (cases files) simp_all
  then have "?c \<noteq> []" using assms(8) length_object by fastforce
  then have inf: "npk_inflate_payload Z mem zdata = Some (NPK_STATUS_OK, Some ?c, length ?c,
      [Alloc ContentBlock, Alloc StreamBlock, Free StreamBlock])"
    by (rule inflate_payload_decodes [OF assms(1-6)])
  have n: "unat (of_nat (length body) :: u32) = length body"
    by (rule unat_of_nat_small) (use assms(10) img in simp)
  have lens: "rd32 (npk_image others zdata post) 0 = Some NPK_MAGIC_BYTES"
    "rd32 (npk_image others zdata post) 4 = Some (of_nat (length body))"
    using le32_at [of "[]" 0] le32_at [of "bytes32 NPK_MAGIC_BYTES" 4] by (simp_all add: img rd32_def)
  have "zdata \<in> set [zdata]" "length zdata < 2 ^ 32" using assms(5) by simp_all
  then have "find_content Z mem (npk_image others zdata post) (length (npk_image others zdata post)) empty_package
      (length (bytes32 NPK_MAGIC_BYTES @ bytes32 (of_nat (length body)))) =
      npk_parse_entries mem (empty_package\<lparr>p_content_buffer := Some ?c, p_content_size := length ?c\<rparr>) 0 \<bind>
        (\<lambda>(st, p', log'). Some (st, p', [Alloc ContentBlock, Alloc StreamBlock, Free StreamBlock] @ log'))"
    by (intro find_content_image [OF inf _ assms(9), where post = post]) (simp_all add: img body_def)
  moreover have "\<exists>p' log. npk_parse_entries mem (empty_package\<lparr>p_content_buffer := Some ?c, p_content_size := length ?c\<rparr>)
      (length []) = Some (NPK_STATUS_OK, p', log) \<and> p_content_buffer p' = Some ?c \<and>
      entry_list p' = entries_at (length []) files"
    using parse_objects [OF assms(2,8), of "empty_package\<lparr>p_content_buffer := Some ?c, p_content_size := length ?c\<rparr>" "[]"]
    by (simp add: empty_package_def entry_list_def)
  moreover have "mem AllocPackage" using assms(2) by (simp add: mem_grants_def)
  ultimately show ?thesis using lens n
    by (auto simp: npk_parse_buffer_def npk_find_and_inflate_content_def npk_sizes img)
qed

subsection \<open>Extraction\<close>

lemma entries_at_append:
  "\<forall>f \<in> set fs. file_wf f \<Longrightarrow>
   entries_at off (fs @ gs) = entries_at off fs @ entries_at (off + length (concat (map npk_object fs))) gs"
  by (induction fs arbitrary: off) (simp_all add: length_object add.assoc)

lemma entries_other:
  "\<forall>f \<in> set fs. c_str (f_name f) \<noteq> nm \<Longrightarrow>
   List.find (\<lambda>e. c_str (e_name e) = nm) (entries_at off fs) = None"
  by (induction fs arbitrary: off) (auto simp: c_str_def takeWhile_tail)

lemma entries_terminated: "\<forall>e \<in> set (entries_at off fs). 0 \<in> set (e_name e)"
  by (induction fs arbitrary: off) auto

lemma find_append: "List.find P (xs @ ys) = (case List.find P xs of None \<Rightarrow> List.find P ys | Some x \<Rightarrow> Some x)"
  by (induction xs) auto

lemma c_str_snoc: "c_str (xs @ [0]) = c_str xs"
  by (simp add: c_str_def takeWhile_tail)

lemma extract_image:
  assumes "entry_list p = entries_at 0 (fs @ f # gs)"
    and "p_content_buffer p = Some (concat (map npk_object (fs @ f # gs)))"
    and "\<forall>x \<in> set (fs @ f # gs). file_wf x" and "\<forall>x \<in> set fs. c_str (f_name x) \<noteq> c_str (f_name f)"
    and "f_mode f AND 0xF000 = 0x8000" and "f_data f \<noteq> []" and "mem AllocCopy"
  shows "npk_extract_file mem (Some p) (Some (f_name f @ [0])) True =
    Some (NPK_STATUS_OK, Some (f_data f), of_nat (length (f_data f)))"
proof -
  let ?off = "length (concat (map npk_object fs))"
  define e where "e = \<lparr>e_name = f_name f @ [0], e_mode = f_mode f, e_size = of_nat (length (f_data f)),
    e_type = npk_entry_type_from_mode (f_mode f), e_data = ?off + 30 + length (f_name f)\<rparr>"
  have wf: "\<forall>x \<in> set fs. file_wf x" "file_wf f" using assms(3) by simp_all
  have "List.find (\<lambda>x. c_str (e_name x) = c_str (f_name f @ [0])) (entry_list p) = Some e"
    using entries_other [OF assms(4), of 0]
    by (simp add: assms(1) entries_at_append [OF wf(1)] find_append e_def c_str_snoc)
  then have found: "find_entry (entry_list p) (f_name f @ [0]) = Some (Some e)"
    using find_entry_run [of "entry_list p" "f_name f @ [0]"] entries_terminated by (simp add: assms(1))
  have n: "unat (of_nat (length (f_data f)) :: u32) = length (f_data f)"
    using wf(2) by (simp add: file_wf_def unat_of_nat_small)
  have "f_pad f = f_pad f \<and> length (f_pad f) = 22" using wf(2) by (simp add: file_wf_def)
  then have "rdbytes (concat (map npk_object (fs @ f # gs))) (?off + 30 + length (f_name f))
      (length (f_data f)) = Some (f_data f)"
    by (simp add: rdbytes_def npk_object_def)
  moreover have "(of_nat (length (f_data f)) :: u32) \<noteq> 0"
    using n assms(6) by (metis length_0_conv unat_0)
  moreover have "e_type e = NPK_ENTRY_TYPE_FILE"
    using assms(5) by (simp add: e_def npk_entry_type_from_mode_def Let_def)
  moreover have "(ucast (of_nat (length (f_data f)) :: u32) :: u64) = of_nat (length (f_data f))"
    by (metis n of_nat_unat)
  ultimately show ?thesis using found n assms(2,7) by (simp add: npk_extract_file_def e_def)
qed

end
