(* ===== verification/KernelExtract.thy ===== *)
theory KernelExtract
  imports Prelude
begin

text \<open>
  The extraction of the kernel and the initial RAM disk from \<open>boot/kernel\<close>:
  \<open>src/Application/RouterOSLoader/KernelExtract.c\<close>.

  A pointer into the file is the offset in it, kept as the 64-bit word the C code computes, so that
  the sums of the bounds checks wrap around as they do there. An access outside the file, a signed
  overflow, and a call of the decompressor with an input range that is not in the file are
  \<^const>\<open>None\<close>. The XZ decoder is a parameter, the record \<open>xz\<close>; \<open>alloc k\<close> tells whether the
  output buffer of stream \<open>k\<close> can be allocated.
\<close>

subsection \<open>ELF sections\<close>

definition ELF_MAGIC :: u32 where "ELF_MAGIC = 0x464C457F"
definition ELF_MACHINE_AARCH64 :: u16 where "ELF_MACHINE_AARCH64 = 183"
definition ELF_PT_LOAD :: u32 where "ELF_PT_LOAD = 1"

text \<open>The header fields the code uses, at their offsets in \<open>ELF64_EHDR\<close>.\<close>

record elf_ehdr =
  e_machine :: u16
  e_shoff :: u64
  e_shentsize :: u16
  e_shnum :: u16
  e_shstrndx :: u16

definition read_ehdr :: "bytes \<Rightarrow> elf_ehdr option" where
  "read_ehdr Data = do {
     machine \<leftarrow> rd16 Data 18; shoff \<leftarrow> rd64 Data 40; shentsize \<leftarrow> rd16 Data 58;
     shnum \<leftarrow> rd16 Data 60; shstrndx \<leftarrow> rd16 Data 62;
     Some \<lparr>e_machine = machine, e_shoff = shoff, e_shentsize = shentsize, e_shnum = shnum,
       e_shstrndx = shstrndx\<rparr>
   }"

record elf_shdr =
  sh_name :: u32
  sh_offset :: u64
  sh_size :: u64

definition read_shdr :: "bytes \<Rightarrow> u64 \<Rightarrow> elf_shdr option" where
  "read_shdr Data off = do {
     name \<leftarrow> rd32 Data (unat off); offset \<leftarrow> rd64 Data (unat off + 24); size \<leftarrow> rd64 Data (unat off + 32);
     Some \<lparr>sh_name = name, sh_offset = offset, sh_size = size\<rparr>
   }"

text \<open>\<open>AsciiStrCmp (Data + off, name) == 0\<close> for a name without NUL: stops at the first difference.\<close>

fun ascii_eq_at :: "bytes \<Rightarrow> u64 \<Rightarrow> bytes \<Rightarrow> bool option" where
  "ascii_eq_at Data off [] = map_option (\<lambda>c. c = 0) (rd8 Data (unat off))"
| "ascii_eq_at Data off (n # ns) = do {
     c \<leftarrow> rd8 Data (unat off);
     if c = n \<and> c \<noteq> 0 then ascii_eq_at Data (off + 1) ns else Some False
   }"

text \<open>The loop over the sections: \<open>n\<close> of them from index \<open>i\<close>.\<close>

fun find_section ::
    "bytes \<Rightarrow> elf_ehdr \<Rightarrow> elf_shdr \<Rightarrow> bytes \<Rightarrow> nat \<Rightarrow> u64 \<Rightarrow> (efi_status \<times> u64 \<times> u64) option" where
  "find_section Data Ehdr StrTab Name 0 i = Some (EFI_NOT_FOUND, 0, 0)"
| "find_section Data Ehdr StrTab Name (Suc n) i =
     (let ShOff = e_shoff Ehdr + i * ucast (e_shentsize Ehdr) in
      if ShOff + 64 > of_nat (length Data) then Some (EFI_NOT_FOUND, 0, 0)
      else do {
        Shdr \<leftarrow> read_shdr Data ShOff;
        if ucast (sh_name Shdr) \<ge> sh_size StrTab then find_section Data Ehdr StrTab Name n (i + 1)
        else do {
          eq \<leftarrow> ascii_eq_at Data (sh_offset StrTab + ucast (sh_name Shdr)) Name;
          if eq
          then if sh_offset Shdr + sh_size Shdr > of_nat (length Data) then Some (EFI_NOT_FOUND, 0, 0)
               else Some (EFI_SUCCESS, sh_offset Shdr, sh_size Shdr)
          else find_section Data Ehdr StrTab Name n (i + 1)
        }
      })"

definition FindElfSection :: "bytes \<Rightarrow> bytes \<Rightarrow> (efi_status \<times> u64 \<times> u64) option" where
  "FindElfSection Data Name =
     (if length Data < 64 then Some (EFI_INVALID_PARAMETER, 0, 0)
      else do {
        Ehdr \<leftarrow> read_ehdr Data;
        magic \<leftarrow> rd32 Data 0;
        class \<leftarrow> rd8 Data 4;
        enc \<leftarrow> rd8 Data 5;
        if magic \<noteq> ELF_MAGIC \<or> class \<noteq> 2 \<or> enc \<noteq> 1 \<or> e_machine Ehdr \<noteq> ELF_MACHINE_AARCH64
        then Some (EFI_INVALID_PARAMETER, 0, 0)
        else if e_shnum Ehdr = 0 \<or> e_shoff Ehdr = 0 \<or> e_shstrndx Ehdr \<ge> e_shnum Ehdr
        then Some (EFI_NOT_FOUND, 0, 0)
        else if unat (e_shstrndx Ehdr) * unat (e_shentsize Ehdr) \<ge> 2 ^ 31 then None
        else do {
          let StrTabOff = e_shoff Ehdr + ucast (e_shstrndx Ehdr) * ucast (e_shentsize Ehdr);
          if StrTabOff + 64 > of_nat (length Data) then Some (EFI_NOT_FOUND, 0, 0)
          else do {
            StrTab \<leftarrow> read_shdr Data StrTabOff;
            if sh_offset StrTab + sh_size StrTab > of_nat (length Data) then Some (EFI_NOT_FOUND, 0, 0)
            else find_section Data Ehdr StrTab Name (unat (e_shnum Ehdr)) 0
          }
        }
      })"

subsection \<open>Decompression\<close>

record xz =
  xz_dec_init :: bool
  xz_dec_run :: "bytes \<Rightarrow> bool \<times> nat \<times> bytes"  \<comment> \<open>\<open>XZ_STREAM_END\<close>, \<open>in_pos\<close>, the output up to \<open>out_pos\<close>\<close>

definition TryXzDecompress :: "xz \<Rightarrow> bool \<Rightarrow> bytes \<Rightarrow> nat \<Rightarrow> u64 \<Rightarrow> (efi_status \<times> bytes \<times> nat) option" where
  "TryXzDecompress X alloc Data off MaxSize =
     (if \<not> alloc then Some (EFI_OUT_OF_RESOURCES, [], 0)
      else if \<not> xz_dec_init X then Some (EFI_OUT_OF_RESOURCES, [], 0)
      else do {
        input \<leftarrow> rdbytes Data off (unat MaxSize);
        case xz_dec_run X input of (stream_end, in_pos, out) \<Rightarrow>
          if stream_end \<or> out \<noteq> [] then Some (EFI_SUCCESS, out, in_pos)
          else Some (EFI_COMPROMISED_DATA, [], in_pos)
      })"

subsection \<open>The PE image\<close>

fun pe_max_end :: "bytes \<Rightarrow> u64 \<Rightarrow> nat \<Rightarrow> u64 \<Rightarrow> u64 \<Rightarrow> u64 option" where
  "pe_max_end Data SecStart 0 i MaxEnd = Some MaxEnd"
| "pe_max_end Data SecStart (Suc n) i MaxEnd = do {
     let So = unat (SecStart + i * 40);
     RawSize \<leftarrow> rd32 Data (So + 16);
     RawPtr \<leftarrow> rd32 Data (So + 20);
     let End = ucast RawPtr + ucast RawSize;
     pe_max_end Data SecStart n (i + 1) (if End > MaxEnd then End else MaxEnd)
   }"

text \<open>\<^const>\<open>None\<close> inside for \<open>FALSE\<close>.\<close>

definition GetPeFileSize :: "bytes \<Rightarrow> u64 option option" where
  "GetPeFileSize Data =
     (if length Data < 0x40 \<or> Data ! 0 \<noteq> 0x4D \<or> Data ! 1 \<noteq> 0x5A then Some None
      else do {
        PeOffset \<leftarrow> rd32 Data 0x3C;
        if ucast (PeOffset + 24) > (of_nat (length Data) :: u64) then Some None
        else do {
          c0 \<leftarrow> rd8 Data (unat PeOffset);
          sig \<leftarrow> (if c0 \<noteq> 0x50 then Some False
            else do {
              c1 \<leftarrow> rd8 Data (unat (PeOffset + 1));
              if c1 \<noteq> 0x45 then Some False
              else do {
                c2 \<leftarrow> rd8 Data (unat (PeOffset + 2));
                if c2 \<noteq> 0 then Some False
                else map_option (\<lambda>c3. c3 = 0) (rd8 Data (unat (PeOffset + 3)))
              }
            });
          if \<not> sig then Some None
          else do {
            NumSections \<leftarrow> rd16 Data (unat (PeOffset + 6));
            OptHdrSize \<leftarrow> rd16 Data (unat (PeOffset + 20));
            let SecStart = (ucast (PeOffset + 24 + ucast OptHdrSize) :: u64);
            if SecStart + ucast NumSections * 40 > of_nat (length Data) then Some None
            else map_option Some (pe_max_end Data SecStart (unat NumSections) 0 0)
          }
        }
      })"

subsection \<open>Streams\<close>

definition gXzMagic :: bytes where "gXzMagic = [0xFD, 0x37, 0x7A, 0x58, 0x5A, 0x00]"
definition CPIO_MAGIC :: bytes where "CPIO_MAGIC = [0x30, 0x37, 0x30, 0x37, 0x30, 0x31]"

text \<open>
  \<open>FindXzStream\<close>: the offset of the first magic from \<open>i\<close> on. The sum of the loop condition is a
  64-bit one; the index itself stays inside the file.
\<close>

function FindXzStream :: "bytes \<Rightarrow> u64 \<Rightarrow> nat \<Rightarrow> nat option option" where
  "FindXzStream Data DataSize i =
     (if of_nat i + 6 \<le> DataSize
      then do {
        m \<leftarrow> rdbytes Data i 6;
        if m = gXzMagic then Some (Some i) else FindXzStream Data DataSize (Suc i)
      }
      else Some None)"
  by pat_completeness auto
termination
  by (relation "measure (\<lambda>(Data, DataSize, i). length Data - i)") (auto simp: rdbytes_def split: if_splits)

declare FindXzStream.simps [simp del]

function skip_zeros :: "bytes \<Rightarrow> u64 \<Rightarrow> nat \<Rightarrow> nat option" where
  "skip_zeros Data SearchEnd i =
     (if of_nat i < SearchEnd
      then do { c \<leftarrow> rd8 Data i; if c = 0 then skip_zeros Data SearchEnd (Suc i) else Some i }
      else Some i)"
  by pat_completeness auto
termination
  by (relation "measure (\<lambda>(Data, SearchEnd, i). length Data - i)") (auto simp: rd8_def split: if_splits)

declare skip_zeros.simps [simp del]

text \<open>The end of the loaded segments, where the search starts without an initrd section.\<close>

fun pt_load_end :: "bytes \<Rightarrow> u64 \<Rightarrow> u16 \<Rightarrow> nat \<Rightarrow> u64 \<Rightarrow> u64 \<Rightarrow> u64 option" where
  "pt_load_end Data phoff phentsize 0 i PtLoadEnd = Some PtLoadEnd"
| "pt_load_end Data phoff phentsize (Suc n) i PtLoadEnd =
     (let PhOff = phoff + i * ucast phentsize in
      if PhOff + 56 > of_nat (length Data) then Some PtLoadEnd
      else do {
        p_type \<leftarrow> rd32 Data (unat PhOff);
        if p_type = ELF_PT_LOAD
        then do {
          p_offset \<leftarrow> rd64 Data (unat PhOff + 8);
          p_filesz \<leftarrow> rd64 Data (unat PhOff + 32);
          let SegEnd = p_offset + p_filesz;
          pt_load_end Data phoff phentsize n (i + 1) (if SegEnd > PtLoadEnd then SegEnd else PtLoadEnd)
        }
        else pt_load_end Data phoff phentsize n (i + 1) PtLoadEnd
      })"

definition INITRD_NAME :: bytes where "INITRD_NAME = [0x69, 0x6E, 0x69, 0x74, 0x72, 0x64]"

definition search_range :: "bytes \<Rightarrow> (u64 \<times> u64) option" where
  "search_range KernelElf = do {
     (Status, off, size) \<leftarrow> FindElfSection KernelElf INITRD_NAME;
     if \<not> EFI_ERROR Status then Some (off, off + size)
     else do {
       phnum \<leftarrow> rd16 KernelElf 56;
       phoff \<leftarrow> rd64 KernelElf 32;
       phentsize \<leftarrow> rd16 KernelElf 54;
       PtLoadEnd \<leftarrow> pt_load_end KernelElf phoff phentsize (unat phnum) 0 0;
       Some (PtLoadEnd, of_nat (length KernelElf))
     }
   }"

text \<open>The second stream: the initial RAM disk, or nothing.\<close>

definition extract_initrd :: "xz \<Rightarrow> bool \<Rightarrow> bytes \<Rightarrow> u64 \<Rightarrow> u64 \<Rightarrow> bytes option option" where
  "extract_initrd X alloc KernelElf SearchEnd Stream2Start = do {
     start \<leftarrow> skip_zeros KernelElf SearchEnd (unat Stream2Start);
     found \<leftarrow> FindXzStream KernelElf SearchEnd start;
     case found of
       None \<Rightarrow> Some None
     | Some off \<Rightarrow> do {
         (Status, out, consumed) \<leftarrow>
           TryXzDecompress X alloc KernelElf off (SearchEnd - of_nat off);
         if \<not> EFI_ERROR Status \<and> length out > 0 \<and> length out \<ge> 6 \<and> take 6 out = CPIO_MAGIC
         then Some (Some out) else Some None
       }
   }"

text \<open>The status, the stub buffer with \<open>*StubSize\<close>, and the RAM disk.\<close>

definition ExtractKernelAndInitrd ::
    "xz \<Rightarrow> (nat \<Rightarrow> bool) \<Rightarrow> bytes \<Rightarrow> (efi_status \<times> (bytes \<times> u64) option \<times> bytes option) option" where
  "ExtractKernelAndInitrd X alloc KernelElf = do {
     (SearchStart, SearchEnd) \<leftarrow> search_range KernelElf;
     found \<leftarrow> FindXzStream KernelElf SearchEnd (unat SearchStart);
     case found of
       None \<Rightarrow> Some (EFI_NOT_FOUND, None, None)
     | Some XzOffset \<Rightarrow> do {
         (Status, KernelBuf, Stream1Consumed) \<leftarrow>
           TryXzDecompress X (alloc 1) KernelElf XzOffset (SearchEnd - of_nat XzOffset);
         if EFI_ERROR Status then Some (Status, None, None)
         else if length KernelBuf < 2 \<or> KernelBuf ! 0 \<noteq> 0x4D \<or> KernelBuf ! 1 \<noteq> 0x5A
         then Some (EFI_NOT_FOUND, None, None)
         else do {
           size \<leftarrow> GetPeFileSize KernelBuf;
           let KernelFileSize = (case size of None \<Rightarrow> of_nat (length KernelBuf) | Some n \<Rightarrow> n);
           initrd \<leftarrow> extract_initrd X (alloc 2) KernelElf SearchEnd
             (of_nat XzOffset + of_nat Stream1Consumed);
           Some (EFI_SUCCESS, Some (KernelBuf, KernelFileSize), initrd)
         }
       }
   }"

subsection \<open>The search for a stream\<close>

definition magic_at :: "bytes \<Rightarrow> nat \<Rightarrow> bool" where
  "magic_at Data i = (take 6 (drop i Data) = gXzMagic)"

lemma FindXzStream_eq:
  assumes "unat DataSize \<le> length Data" and "length Data < 2 ^ 63" and "i \<le> length Data"
  shows "FindXzStream Data DataSize i = Some (List.find (magic_at Data) [i..<unat DataSize - 5])"
  using assms(3)
proof (induction "length Data - i" arbitrary: i rule: less_induct)
  case less
  have u: "unat (of_nat i :: u64) = i" by (rule unat_of_nat_small) (use less.prems assms(2) in simp)
  have "unat (of_nat i + 6 :: u64) = i + 6"
    using unat_add_of_nat [of "of_nat i :: u64" 6] u less.prems assms(2) by simp
  then have c: "of_nat i + 6 \<le> DataSize \<longleftrightarrow> i + 6 \<le> unat DataSize" by (simp add: word_le_nat_alt)
  show ?case
  proof (cases "i + 6 \<le> unat DataSize")
    case False
    then have "[i..<unat DataSize - 5] = []" by simp
    then show ?thesis using False c by (subst FindXzStream.simps) simp
  next
    case True
    then have "[i..<unat DataSize - 5] = i # [Suc i..<unat DataSize - 5]" by (simp add: upt_rec)
    moreover have "rdbytes Data i 6 = Some (take 6 (drop i Data))" using True assms(1) by simp
    moreover have "FindXzStream Data DataSize (Suc i) =
        Some (List.find (magic_at Data) [Suc i..<unat DataSize - 5])"
      using True assms(1) less.hyps by simp
    ultimately show ?thesis using True c by (subst FindXzStream.simps) (simp add: magic_at_def)
  qed
qed

lemma find_first:
  "P k \<Longrightarrow> i \<le> k \<Longrightarrow> k < n \<Longrightarrow> (\<forall>j. i \<le> j \<and> j < k \<longrightarrow> \<not> P j) \<Longrightarrow> List.find P [i..<n] = Some k"
  by (auto simp: find_Some_iff intro!: exI [of _ "k - i"])

lemma skip_zeros_run:
  assumes "\<forall>j. i \<le> j \<and> j < i + k \<longrightarrow> Data ! j = 0" and "i + k < unat SearchEnd"
    and "Data ! (i + k) \<noteq> 0" and "unat SearchEnd \<le> length Data" and "length Data < 2 ^ 63"
  shows "skip_zeros Data SearchEnd i = Some (i + k)"
  using assms
proof (induction k arbitrary: i)
  case 0
  have "unat (of_nat i :: u64) = i" by (rule unat_of_nat_small) (use 0 in simp)
  then show ?case using 0 by (subst skip_zeros.simps) (simp add: word_less_nat_alt)
next
  case (Suc k)
  have "unat (of_nat i :: u64) = i" by (rule unat_of_nat_small) (use Suc.prems in simp)
  moreover have "Data ! i = 0" using Suc.prems(1) by simp
  moreover have "skip_zeros Data SearchEnd (Suc i) = Some (Suc i + k)"
    using Suc.prems by (intro Suc.IH) auto
  ultimately show ?case using Suc.prems by (subst skip_zeros.simps) (simp add: word_less_nat_alt)
qed

subsection \<open>A section of two streams\<close>

text \<open>
  What is relied on of the decoder: it decodes a stream at the start of its input and reports its
  length, whatever follows.
\<close>

definition xz_stream :: "xz \<Rightarrow> bytes \<Rightarrow> bytes \<Rightarrow> bool" where
  "xz_stream X zs d = (take 6 zs = gXzMagic \<and> (\<forall>rest. xz_dec_run X (zs @ rest) = (True, length zs, d)))"

lemma xz_stream_length: "xz_stream X zs d \<Longrightarrow> 6 \<le> length zs"
  by (auto simp: xz_stream_def gXzMagic_def dest: arg_cong [of _ _ length])

lemma stream_found:
  assumes "xz_stream X zs d" and "Data = pre @ zs @ post" and "length pre + length zs \<le> unat SearchEnd"
    and "unat SearchEnd \<le> length Data" and "length Data < 2 ^ 63" and "xz_dec_init X"
    and "a \<le> length pre" and "\<forall>i. a \<le> i \<and> i < length pre \<longrightarrow> \<not> magic_at Data i"
  shows "FindXzStream Data SearchEnd a = Some (Some (length pre))"
    and "TryXzDecompress X True Data (length pre) (SearchEnd - of_nat (length pre)) =
      Some (EFI_SUCCESS, d, length zs)"
proof -
  note len = xz_stream_length [OF assms(1)]
  have "take 6 (zs @ post) = gXzMagic" using assms(1) len by (simp add: xz_stream_def)
  then have "magic_at Data (length pre)" by (simp add: magic_at_def assms(2))
  moreover have "length pre < unat SearchEnd - 5" using len assms(3) by simp
  moreover have "a \<le> length Data" using assms(2,7) by simp
  ultimately show "FindXzStream Data SearchEnd a = Some (Some (length pre))"
    using FindXzStream_eq [OF assms(4,5), of a] assms(7,8) find_first [of "magic_at Data" "length pre" a] by simp
  have u: "unat (of_nat (length pre) :: u64) = length pre"
    by (rule unat_of_nat_small) (use assms(2,5) in simp)
  then have m: "unat (SearchEnd - of_nat (length pre)) = unat SearchEnd - length pre"
    using assms(3) by (subst unat_sub) (simp_all add: word_le_nat_alt)
  have "rdbytes Data (length pre) (unat SearchEnd - length pre) =
      Some (take (unat SearchEnd - length pre) (zs @ post))"
    using assms(2-4) by (subst rdbytes_Some) simp_all
  moreover have "take (unat SearchEnd - length pre) (zs @ post) =
      zs @ take (unat SearchEnd - length pre - length zs) post"
    using assms(3) by simp
  ultimately show "TryXzDecompress X True Data (length pre) (SearchEnd - of_nat (length pre)) =
      Some (EFI_SUCCESS, d, length zs)"
    using assms(1,6) m by (simp add: TryXzDecompress_def xz_stream_def)
qed

lemma extract_two_streams:
  assumes "search_range Data = Some (of_nat a, SearchEnd)"
    and "Data = pre @ zs1 @ replicate k 0 @ zs2 @ post"
    and "xz_stream X zs1 stub" and "xz_stream X zs2 initrd" and "xz_dec_init X"
    and "length pre + length zs1 + k + length zs2 \<le> unat SearchEnd" and "unat SearchEnd \<le> length Data"
    and "length Data < 2 ^ 63" and "take 2 stub = [0x4D, 0x5A]" and "GetPeFileSize stub = Some pe"
    and "take 6 initrd = CPIO_MAGIC"
    and "a \<le> length pre" and "\<forall>i. a \<le> i \<and> i < length pre \<longrightarrow> \<not> magic_at Data i"
  shows "ExtractKernelAndInitrd X (\<lambda>k. True) Data =
    Some (EFI_SUCCESS, Some (stub, case pe of None \<Rightarrow> of_nat (length stub) | Some n \<Rightarrow> n), Some initrd)"
proof -
  let ?i = "length pre + length zs1"
  have u: "unat (of_nat a :: u64) = a"
    by (rule unat_of_nat_small) (use assms(2,8,12) in simp)
  have fits1: "length pre + length zs1 \<le> unat SearchEnd" using assms(6) by linarith
  note s1 = stream_found [OF assms(3) assms(2) fits1 assms(7,8,5,12,13)]
  let ?pre2 = "pre @ zs1 @ replicate k 0"
  have d2: "Data = ?pre2 @ zs2 @ post" using assms(2) by simp
  have fits2: "length ?pre2 + length zs2 \<le> unat SearchEnd" using assms(6) by simp
  have none: "\<forall>i. length ?pre2 \<le> i \<and> i < length ?pre2 \<longrightarrow> \<not> magic_at Data i" by auto
  note s2 = stream_found [OF assms(4) d2 fits2 assms(7,8,5) order_refl none]
  note len2 = xz_stream_length [OF assms(4)]
  have "zs2 ! 0 = 0xFD" using assms(4) len2 unfolding xz_stream_def gXzMagic_def
    by (metis nth_Cons_0 nth_take zero_less_numeral)
  moreover have "zs2 \<noteq> []" using len2 by auto
  ultimately have "Data ! (?i + k) = 0xFD" by (simp add: assms(2) nth_append)
  moreover have "\<forall>j. ?i \<le> j \<and> j < ?i + k \<longrightarrow> Data ! j = 0"
    by (auto simp: assms(2) nth_append)
  ultimately have skip: "skip_zeros Data SearchEnd ?i = Some (?i + k)"
    using assms(6-8) len2 by (intro skip_zeros_run) auto
  have start: "unat (of_nat (length pre) + of_nat (length zs1) :: u64) = ?i"
    using unat_of_nat_small [of ?i, where 'a = 64] assms(2,8) by simp
  have "length initrd \<ge> 6" using assms(11) by (auto simp: CPIO_MAGIC_def dest: arg_cong [of _ _ length])
  then have "extract_initrd X True Data SearchEnd (of_nat (length pre) + of_nat (length zs1)) = Some (Some initrd)"
    using skip start s2 assms(11) by (auto simp: extract_initrd_def add.assoc)
  moreover have "2 \<le> length stub" "stub ! 0 = 0x4D" "stub ! 1 = 0x5A"
  proof -
    show "2 \<le> length stub" using arg_cong [OF assms(9), of length] by simp
    then obtain a b r where "stub = a # b # r" by (metis Suc_le_length_iff numeral_2_eq_2)
    then show "stub ! 0 = 0x4D" "stub ! 1 = 0x5A" using assms(9) by simp_all
  qed
  ultimately show ?thesis
    using assms(1,2,10) s1 u by (simp add: ExtractKernelAndInitrd_def Let_def)
qed

subsection \<open>Crafted files\<close>

text \<open>The PE offset is checked in 32 bits: an offset that wraps around passes and is then used.\<close>

lemma pe_offset_faults:
  assumes "0x40 \<le> length Data" and "length Data < 2 ^ 32 - 24" and "Data ! 0 = 0x4D" and "Data ! 1 = 0x5A"
    and "2 ^ 32 - 24 \<le> unat (le32 Data 0x3C)"
    and "unat (le32 Data 0x3C) + 24 - 2 ^ 32 \<le> length Data"
  shows "GetPeFileSize Data = None"
proof -
  define p where "p = le32 Data 0x3C"
  have "unat p < 2 ^ LENGTH(32)" by (rule unsigned_less)
  then have "unat (p + 24) = unat p + 24 - 2 ^ 32"
    using assms(5) by (simp add: p_def unat_word_ariths mod_if)
  moreover have "unat (p + 24) < 2 ^ LENGTH(32)" by (rule unsigned_less)
  ultimately have "unat (ucast (p + 24) :: u64) = unat p + 24 - 2 ^ 32"
    by (subst unsigned_ucast_eq) (simp add: take_bit_nat_eq_self)
  moreover have "unat (of_nat (length Data) :: u64) = length Data"
    by (rule unat_of_nat_small) (use assms(2) in simp)
  ultimately have "\<not> ucast (p + 24) > (of_nat (length Data) :: u64)"
    using assms(6) by (simp add: word_less_nat_alt p_def)
  moreover have "rd8 Data (unat p) = None" using assms(2,5) by (simp add: rd8_def p_def)
  moreover have "rd32 Data 0x3C = Some p" using assms(1) by (simp add: p_def)
  ultimately show ?thesis using assms(1,3,4) by (simp add: GetPeFileSize_def)
qed

text \<open>Without an ELF header in the file, the fallback reads past its end.\<close>

lemma short_file_faults:
  assumes "length Data < 58"
  shows "ExtractKernelAndInitrd X alloc Data = None"
  using assms by (simp add: ExtractKernelAndInitrd_def search_range_def FindElfSection_def rd16_def)

text \<open>A section header: name, offset and size of the one section of \<open>FindElfSection\<close>'s answer.\<close>

lemma find_section_sound:
  assumes "find_section Data Ehdr StrTab Name n i = Some (EFI_SUCCESS, off, sz)"
  shows "\<exists>j Shdr. j < n \<and>
    read_shdr Data (e_shoff Ehdr + (i + of_nat j) * ucast (e_shentsize Ehdr)) = Some Shdr \<and>
    ascii_eq_at Data (sh_offset StrTab + ucast (sh_name Shdr)) Name = Some True \<and>
    off = sh_offset Shdr \<and> sz = sh_size Shdr \<and> off + sz \<le> of_nat (length Data)"
  using assms
proof (induction n arbitrary: i)
  case (Suc n)
  let ?at = "\<lambda>i. e_shoff Ehdr + i * ucast (e_shentsize Ehdr)"
  obtain Shdr where sh: "read_shdr Data (?at i) = Some Shdr"
    using Suc.prems by (auto simp: Let_def bind_eq_Some_conv split: if_splits)
  show ?case
  proof (cases "find_section Data Ehdr StrTab Name n (i + 1) = Some (EFI_SUCCESS, off, sz)")
    case True
    then obtain j where "j < n" "\<exists>Shdr. read_shdr Data (?at (i + 1 + of_nat j)) = Some Shdr \<and>
      ascii_eq_at Data (sh_offset StrTab + ucast (sh_name Shdr)) Name = Some True \<and>
      off = sh_offset Shdr \<and> sz = sh_size Shdr \<and> off + sz \<le> of_nat (length Data)"
      using Suc.IH by blast
    then show ?thesis by (intro exI [of _ "Suc j"]) (auto simp: add.assoc)
  next
    case False
    then have "ascii_eq_at Data (sh_offset StrTab + ucast (sh_name Shdr)) Name = Some True"
        "off = sh_offset Shdr" "sz = sh_size Shdr" "off + sz \<le> of_nat (length Data)"
      using Suc.prems sh by (auto simp: Let_def bind_eq_Some_conv not_less split: if_splits)
    then show ?thesis using sh by (intro exI [of _ 0]) auto
  qed
qed simp

end
