(* ===== verification/KernelImage.thy ===== *)
theory KernelImage
  imports KernelExtract
begin

text \<open>
  What the files that the extraction reads look like, stated on the fields of the PE and ELF formats
  in natural numbers, and that the code's functions find what the formats say: the extent of a PE
  image, a section by its name, and the end of the loaded segments.
\<close>

subsection \<open>PE images\<close>

text \<open>
  The header of a PE image at \<open>po\<close>, where the DOS header points, its section table behind the
  optional header, and for each section the place and the size of its data in the file.
\<close>

definition pe_section :: "bytes \<Rightarrow> nat \<Rightarrow> nat \<times> nat" where
  "pe_section Data off = (unat (le32 Data (off + 20)), unat (le32 Data (off + 16)))"

definition pe_image :: "bytes \<Rightarrow> (nat \<times> nat) list \<Rightarrow> bool" where
  "pe_image Data secs = (let po = unat (le32 Data 0x3C); start = po + 24 + unat (le16 Data (po + 20)) in
     0x40 \<le> length Data \<and> take 2 Data = [0x4D, 0x5A] \<and> start + 40 * length secs \<le> length Data \<and>
     length Data < 2 ^ 32 \<and> take 4 (drop po Data) = [0x50, 0x45, 0, 0] \<and>
     secs = map (\<lambda>i. pe_section Data (start + 40 * i)) [0..<unat (le16 Data (po + 6))])"

text \<open>Without a PE header: too short, or no signature where the DOS header points.\<close>

definition no_pe :: "bytes \<Rightarrow> bool" where
  "no_pe Data = (length Data < 0x40 \<or> length Data < 2 ^ 63 \<and> (let po = unat (le32 Data 0x3C) in po + 24 < 2 ^ 32 \<and>
     (length Data < po + 24 \<or> take 4 (drop po Data) \<noteq> [0x50, 0x45, 0, 0])))"

definition pe_end :: "(nat \<times> nat) list \<Rightarrow> nat" where
  "pe_end secs = Max (insert 0 ((\<lambda>(ptr, size). ptr + size) ` set secs))"

text \<open>How much of a stub there is: up to the end of the last section, or all of it.\<close>

definition stub_extent :: "bytes \<Rightarrow> nat \<Rightarrow> bool" where
  "stub_extent Data n = ((\<exists>secs. pe_image Data secs \<and> n = pe_end secs) \<or> no_pe Data \<and> n = length Data)"

lemma Max_insert_max: "finite S \<Longrightarrow> Max (insert (max a b) S) = Max (insert a (insert (b :: nat) S))"
  by (cases "S = {}") (simp_all add: max.assoc)

lemma pe_max_end_run:
  assumes "SecStart + (k + n) * 40 \<le> length Data" and "length Data < 2 ^ 32" and "k + n < 2 ^ 16" and "M < 2 ^ 33"
  shows "pe_max_end Data (of_nat SecStart) n (of_nat k) (of_nat M) =
    Some (of_nat (Max (insert M ((\<lambda>(ptr, size). ptr + size) ` pe_section Data ` (\<lambda>i. SecStart + 40 * i) ` {k..<k + n}))))"
  using assms
proof (induction n arbitrary: k M)
  case (Suc n)
  have "of_nat SecStart + of_nat k * 40 = (of_nat (SecStart + 40 * k) :: u64)" by (simp add: mult.commute)
  moreover have "unat (of_nat (SecStart + 40 * k) :: u64) = SecStart + 40 * k"
    by (rule unat_of_nat_small) (use Suc.prems in simp)
  ultimately have So: "unat (of_nat SecStart + of_nat k * 40 :: u64) = SecStart + 40 * k" by (simp only:)
  define ptr size where "ptr = le32 Data (SecStart + 40 * k + 20)" and "size = le32 Data (SecStart + 40 * k + 16)"
  have rd: "rd32 Data (SecStart + 40 * k + 16) = Some size" "rd32 Data (SecStart + 40 * k + 20) = Some ptr"
    using Suc.prems(1) by (simp_all add: ptr_def size_def)
  have lt: "unat ptr < 2 ^ 32" "unat size < 2 ^ 32" using unsigned_less [of ptr] unsigned_less [of size] by simp_all
  have e: "ucast ptr + ucast size = (of_nat (unat ptr + unat size) :: u64)"
    by (simp add: word_unat_eq_iff unat_word_ariths unsigned_ucast_eq)
  have u: "unat (of_nat (unat ptr + unat size) :: u64) = unat ptr + unat size" "unat (of_nat M :: u64) = M"
    by (rule unat_of_nat_small; use lt Suc.prems(4) in simp)+
  have m: "(if (of_nat (unat ptr + unat size) :: u64) > of_nat M then of_nat (unat ptr + unat size) else of_nat M) =
      (of_nat (max (unat ptr + unat size) M) :: u64)"
    unfolding word_less_nat_alt u by (simp add: max_def)
  have step: "pe_max_end Data (of_nat SecStart) (Suc n) (of_nat k) (of_nat M) =
      pe_max_end Data (of_nat SecStart) n (of_nat (Suc k)) (of_nat (max (unat ptr + unat size) M))"
    using rd by (simp add: So e m del: of_nat_add of_nat_Suc) (simp add: add.commute)
  have "max (unat ptr + unat size) M < 2 ^ 33" using lt Suc.prems(4) by simp
  then have "pe_max_end Data (of_nat SecStart) n (of_nat (Suc k)) (of_nat (max (unat ptr + unat size) M)) =
      Some (of_nat (Max (insert (max (unat ptr + unat size) M) ((\<lambda>(ptr, size). ptr + size) ` pe_section Data `
        (\<lambda>i. SecStart + 40 * i) ` {Suc k..<Suc k + n}))))"
    using Suc.prems by (intro Suc.IH) auto
  moreover have "{k..<k + Suc n} = insert k {Suc k..<Suc k + n}" by auto
  moreover have "pe_section Data (SecStart + 40 * k) = (unat ptr, unat size)" by (simp add: pe_section_def ptr_def size_def)
  ultimately show ?case unfolding step by (simp add: Max_insert_max max.commute)
qed simp

lemma take_two: "take 2 Data = [a, b] \<Longrightarrow> Data ! 0 = a \<and> Data ! 1 = b"
  by (metis One_nat_def Suc_1 lessI nth_Cons_0 nth_Cons_Suc nth_take zero_less_Suc)

lemma GetPeFileSize_pe:
  assumes "pe_image Data secs"
  shows "GetPeFileSize Data = Some (Some (of_nat (pe_end secs)))"
proof -
  define po where "po = unat (le32 Data 0x3C)"
  define n opt start where "n = unat (le16 Data (po + 6))" and "opt = unat (le16 Data (po + 20))"
    and "start = po + 24 + opt"
  have a: "0x40 \<le> length Data" "take 2 Data = [0x4D, 0x5A]" "start + 40 * n \<le> length Data" "length Data < 2 ^ 32"
      "take 4 (drop po Data) = [0x50, 0x45, 0, 0]"
      "secs = map (\<lambda>i. pe_section Data (start + 40 * i)) [0..<n]"
    using assms by (auto simp: pe_image_def Let_def po_def n_def opt_def start_def)
  have mz: "Data ! 0 = 0x4D" "Data ! 1 = 0x5A" 
    using take_two [OF a(2)] by simp_all
  have sig: "Data ! po = 0x50" "Data ! (po + 1) = 0x45" "Data ! (po + 2) = 0" "Data ! (po + 3) = 0"
    using arg_cong [OF a(5), of "\<lambda>x. x ! 0"] arg_cong [OF a(5), of "\<lambda>x. x ! 1"]
      arg_cong [OF a(5), of "\<lambda>x. x ! 2"] arg_cong [OF a(5), of "\<lambda>x. x ! 3"] a(3)
    by (simp_all add: start_def)
  have le: "po + 24 \<le> length Data" using a(3) by (simp add: start_def)
  have p: "le32 Data 0x3C = of_nat po" by (simp add: po_def)
  have off: "unat (of_nat po + of_nat k :: u32) = po + k" if "k \<le> 24" for k
    using unat_of_nat_small [of "po + k", where 'a = 32] le a(4) that by simp
  note offs = off [of 1] off [of 2] off [of 3] off [of 6] off [of 20] off [of 24]
  have u0: "unat (of_nat po :: u32) = po" using off [of 0] by simp
  have so: "ucast (of_nat po + 24 + ucast (le16 Data (po + 20)) :: u32) = (of_nat start :: u64)"
  proof -
    have "of_nat po + 24 + ucast (le16 Data (po + 20)) = (of_nat start :: u32)"
      by (simp add: start_def opt_def)
    moreover have "unat (of_nat start :: u32) = start" by (rule unat_of_nat_small) (use a(3,4) in simp)
    moreover have "ucast (of_nat start :: u32) = (of_nat (unat (of_nat start :: u32)) :: u64)"
      by (rule of_nat_unat [symmetric])
    ultimately show ?thesis by (simp only:)
  qed
  have o24: "unat (of_nat po + 24 :: u32) = po + 24" using offs(6) by simp
  have "ucast (of_nat po + 24 :: u32) = (of_nat (unat (of_nat po + 24 :: u32)) :: u64)"
    by (rule of_nat_unat [symmetric])
  then have chk: "ucast (of_nat po + 24 :: u32) = (of_nat (po + 24) :: u64)" unfolding o24 .
  have big: "unat (of_nat m :: u64) = m" if "m \<le> length Data" for m
    by (rule unat_of_nat_small) (use that a(4) in simp)
  have c1: "\<not> ucast (of_nat po + 24 :: u32) > (of_nat (length Data) :: u64)"
    unfolding chk word_less_nat_alt using big [of "po + 24"] big [of "length Data"] le by simp
  have ns: "of_nat start + ucast (le16 Data (po + 6)) * 40 = (of_nat (start + 40 * n) :: u64)"
    by (simp add: n_def mult.commute)
  have c2: "\<not> of_nat start + ucast (le16 Data (po + 6)) * 40 > (of_nat (length Data) :: u64)"
    unfolding ns word_less_nat_alt using big [of "start + 40 * n"] big [of "length Data"] a(3) by simp
  have "n < 2 ^ 16" using unsigned_less [of "le16 Data (po + 6)"] by (simp add: n_def)
  then have "pe_max_end Data (of_nat start) n (of_nat 0) (of_nat 0) = Some (of_nat (pe_end secs))"
    using pe_max_end_run [of start 0 n Data 0] a(3,4,6) by (simp add: pe_end_def image_image atLeast0LessThan)
  then show ?thesis using a(1) mz sig le p offs u0 so c1 c2
    by (simp add: GetPeFileSize_def n_def)
qed

lemma take_four: "i + 4 \<le> length D \<Longrightarrow> take 4 (drop i D) = [D ! i, D ! (i + 1), D ! (i + 2), D ! (i + 3)]"
  by (simp add: numeral_eq_Suc take_Suc_conv_app_nth)

lemma GetPeFileSize_no_pe:
  assumes "no_pe Data" and "take 2 Data = [0x4D, 0x5A]"
  shows "GetPeFileSize Data = Some None"
proof (cases "length Data < 0x40")
  case False
  define po where "po = unat (le32 Data 0x3C)"
  have len: "0x40 \<le> length Data" "length Data < 2 ^ 63" and po: "po + 24 < 2 ^ 32"
    and sig: "length Data < po + 24 \<or> take 4 (drop po Data) \<noteq> [0x50, 0x45, 0, 0]"
    using assms(1) False by (auto simp: no_pe_def Let_def po_def)
  have mz: "Data ! 0 = 0x4D" "Data ! 1 = 0x5A" using take_two [OF assms(2)] by simp_all
  have p: "le32 Data 0x3C = of_nat po" by (simp add: po_def)
  have off: "unat (of_nat po + of_nat k :: u32) = po + k" if "k \<le> 24" for k
    using unat_of_nat_small [of "po + k", where 'a = 32] po that by simp
  note offs = off [of 1] off [of 2] off [of 3]
  have u0: "unat (of_nat po :: u32) = po" and o24: "unat (of_nat po + 24 :: u32) = po + 24"
    using off [of 0] off [of 24] by simp_all
  have "ucast (of_nat po + 24 :: u32) = (of_nat (unat (of_nat po + 24 :: u32)) :: u64)"
    by (rule of_nat_unat [symmetric])
  then have chk: "ucast (of_nat po + 24 :: u32) = (of_nat (po + 24) :: u64)" unfolding o24 .
  have "unat (of_nat (po + 24) :: u64) = po + 24" "unat (of_nat (length Data) :: u64) = length Data"
    by (rule unat_of_nat_small; use po len in simp)+
  then have c: "ucast (of_nat po + 24 :: u32) > (of_nat (length Data) :: u64) \<longleftrightarrow> length Data < po + 24"
    unfolding chk word_less_nat_alt by simp
  show ?thesis
  proof (cases "length Data < po + 24")
    case True
    then show ?thesis using len mz p c by (simp add: GetPeFileSize_def)
  next
    case in_file: False
    then have "take 4 (drop po Data) = [Data ! po, Data ! (po + 1), Data ! (po + 2), Data ! (po + 3)]"
      by (intro take_four) simp
    then have s: "\<not> (Data ! po = 0x50 \<and> Data ! (po + 1) = 0x45 \<and> Data ! (po + 2) = 0 \<and> Data ! (po + 3) = 0)"
      using sig in_file by auto
    then show ?thesis using len mz p c in_file offs u0
      by (cases "Data ! po = 0x50"; cases "Data ! (po + 1) = 0x45"; cases "Data ! (po + 2) = 0")
        (simp_all add: GetPeFileSize_def)
  qed
qed (simp add: GetPeFileSize_def)

lemma GetPeFileSize_extent:
  assumes "stub_extent Data n" and "take 2 Data = [0x4D, 0x5A]"
  shows "\<exists>pe. GetPeFileSize Data = Some pe \<and> (case pe of None \<Rightarrow> of_nat (length Data) | Some m \<Rightarrow> m) = of_nat n"
  using assms GetPeFileSize_pe GetPeFileSize_no_pe unfolding stub_extent_def by fastforce

subsection \<open>ELF files\<close>

text \<open>The fields of the ELF header and of the headers of the sections and segments.\<close>

definition elf_shoff :: "bytes \<Rightarrow> nat" where "elf_shoff D = unat (le64 D 40)"
definition elf_shnum :: "bytes \<Rightarrow> nat" where "elf_shnum D = unat (le16 D 60)"
definition elf_shstrndx :: "bytes \<Rightarrow> nat" where "elf_shstrndx D = unat (le16 D 62)"
definition sec_at :: "bytes \<Rightarrow> nat \<Rightarrow> nat" where "sec_at D i = elf_shoff D + i * unat (le16 D 58)"
definition sec_offset :: "bytes \<Rightarrow> nat \<Rightarrow> nat" where "sec_offset D i = unat (le64 D (sec_at D i + 24))"
definition sec_bytes :: "bytes \<Rightarrow> nat \<Rightarrow> nat" where "sec_bytes D i = unat (le64 D (sec_at D i + 32))"
definition name_index :: "bytes \<Rightarrow> nat \<Rightarrow> nat" where "name_index D i = unat (le32 D (sec_at D i))"
definition seg_at :: "bytes \<Rightarrow> nat \<Rightarrow> nat" where "seg_at D i = unat (le64 D 32) + i * unat (le16 D 54)"
definition seg_end :: "bytes \<Rightarrow> nat \<Rightarrow> nat" where
  "seg_end D i = unat (le64 D (seg_at D i + 8)) + unat (le64 D (seg_at D i + 32))"

text \<open>A section's name is a string of the string table, the section the ELF header names.\<close>

definition sec_name :: "bytes \<Rightarrow> nat \<Rightarrow> bytes" where
  "sec_name D i = c_str (drop (sec_offset D (elf_shstrndx D) + name_index D i) D)"

definition elf64_aarch64 :: "bytes \<Rightarrow> bool" where
  "elf64_aarch64 D = (take 6 D = [0x7F, 0x45, 0x4C, 0x46, 2, 1] \<and> le16 D 18 = 183)"

text \<open>The headers and the names are in the file.\<close>

definition section_table :: "bytes \<Rightarrow> bool" where
  "section_table D = (elf_shoff D \<noteq> 0 \<and> elf_shstrndx D < elf_shnum D \<and>
     elf_shstrndx D * unat (le16 D 58) < 2 ^ 31 \<and>
     sec_offset D (elf_shstrndx D) + sec_bytes D (elf_shstrndx D) \<le> length D \<and>
     (\<forall>i < elf_shnum D. sec_at D i + 64 \<le> length D \<and> name_index D i < sec_bytes D (elf_shstrndx D) \<and>
       0 \<in> set (drop (sec_offset D (elf_shstrndx D) + name_index D i) D)))"

definition elf_section :: "bytes \<Rightarrow> bytes \<Rightarrow> nat \<Rightarrow> nat \<Rightarrow> bool" where
  "elf_section D nm off sz = (elf64_aarch64 D \<and> section_table D \<and>
     (\<exists>i < elf_shnum D. sec_name D i = nm \<and> (\<forall>j < i. sec_name D j \<noteq> nm) \<and>
       off = sec_offset D i \<and> sz = sec_bytes D i \<and> off + sz \<le> length D))"

definition no_section :: "bytes \<Rightarrow> bytes \<Rightarrow> bool" where
  "no_section D nm = (\<not> elf64_aarch64 D \<or> elf_shnum D = 0 \<or> elf_shoff D = 0 \<or>
     section_table D \<and> (\<forall>i < elf_shnum D. sec_name D i \<noteq> nm))"

text \<open>The end of the segments that are loaded.\<close>

definition load_end :: "bytes \<Rightarrow> nat \<Rightarrow> bool" where
  "load_end D e = ((\<forall>i < unat (le16 D 56). seg_at D i + 56 \<le> length D \<and> seg_end D i \<le> length D) \<and>
     e = Max (insert 0 (seg_end D ` {i. i < unat (le16 D 56) \<and> le32 D (seg_at D i) = 1})))"

text \<open>Where the two streams are: the section \<open>initrd\<close>, or what follows the segments.\<close>

definition stream_range :: "bytes \<Rightarrow> nat \<Rightarrow> nat \<Rightarrow> bool" where
  "stream_range D a b = (64 \<le> length D \<and> length D < 2 ^ 63 \<and>
     ((\<exists>sz. elf_section D INITRD_NAME a sz \<and> b = a + sz) \<or>
      no_section D INITRD_NAME \<and> load_end D a \<and> b = length D))"

lemma ascii_eq_at_c_str:
  assumes "0 \<in> set (drop o1 D)" and "0 \<notin> set nm" and "length D < 2 ^ 63"
  shows "ascii_eq_at D (of_nat o1) nm = Some (c_str (drop o1 D) = nm)"
  using assms
proof (induction nm arbitrary: o1)
  have u: "o1 < length D" "unat (of_nat o1 :: u64) = o1" "drop o1 D = D ! o1 # drop (Suc o1) D"
    if "0 \<in> set (drop o1 D)" for o1
  proof -
    show l: "o1 < length D" using that by (metis drop_eq_Nil empty_iff list.set(1) not_less)
    show "unat (of_nat o1 :: u64) = o1" by (rule unat_of_nat_small) (use l assms(3) in simp)
    show "drop o1 D = D ! o1 # drop (Suc o1) D" using l by (simp add: Cons_nth_drop_Suc)
  qed
  {
    case Nil
    note v = u [OF Nil.prems(1)]
    show ?case using v by (simp add: c_str_Cons)
  next
    case (Cons n ns)
    note v = u [OF Cons.prems(1)]
    show ?case
    proof (cases "D ! o1 = n \<and> D ! o1 \<noteq> 0")
      case True
      then have "0 \<in> set (drop (Suc o1) D)" using Cons.prems(1) v(3) by auto
      then have "ascii_eq_at D (of_nat (Suc o1)) ns = Some (c_str (drop (Suc o1) D) = ns)"
        using Cons.prems by (intro Cons.IH) simp_all
      then show ?thesis using True v by (simp add: c_str_Cons add.commute)
    next
      case False
      then show ?thesis using v Cons.prems(2) by (auto simp: c_str_Cons)
    qed
  }
qed

lemma take_six: "6 \<le> length D \<Longrightarrow> take 6 D = [D ! 0, D ! 1, D ! 2, D ! 3, D ! 4, D ! 5]"
  by (auto simp: numeral_eq_Suc Suc_le_length_iff)

lemma bytes_of_le32: "bytes32 (le32 D i) = [D ! i, D ! (i + 1), D ! (i + 2), D ! (i + 3)]"
  unfolding bytes32_def le32_def by (auto simp: bit_eq_iff bit_simps dest: bit_imp_le_length)

text \<open>The loop over the sections, on a table in the file.\<close>

definition elf_ehdr_of :: "bytes \<Rightarrow> elf_ehdr" where
  "elf_ehdr_of D = \<lparr>e_machine = le16 D 18, e_shoff = le64 D 40, e_shentsize = le16 D 58, e_shnum = le16 D 60,
     e_shstrndx = le16 D 62\<rparr>"

definition elf_shdr_of :: "bytes \<Rightarrow> nat \<Rightarrow> elf_shdr" where
  "elf_shdr_of D i = \<lparr>sh_name = le32 D (sec_at D i), sh_offset = le64 D (sec_at D i + 24), sh_size = le64 D (sec_at D i + 32)\<rparr>"

lemma sec_at_word: "le64 D 40 + of_nat i * ucast (le16 D 58) = (of_nat (sec_at D i) :: u64)"
  by (simp add: sec_at_def elf_shoff_def)

lemma unat_in_file: "k \<le> length D \<Longrightarrow> length D < 2 ^ 63 \<Longrightarrow> unat (of_nat k :: u64) = k"
  by (rule unat_of_nat_small) simp

lemma in_file_check:
  "k \<le> length D \<Longrightarrow> length D < 2 ^ 63 \<Longrightarrow> \<not> of_nat k > (of_nat (length D) :: u64)"
  unfolding word_less_nat_alt using unat_in_file [of k D] unat_in_file [of "length D" D] by simp

lemma read_shdr_at:
  assumes "sec_at D i + 64 \<le> length D" and "length D < 2 ^ 63"
  shows "read_shdr D (of_nat (sec_at D i)) = Some (elf_shdr_of D i)"
  using assms unat_in_file [of "sec_at D i" D] by (simp add: read_shdr_def elf_shdr_of_def)

lemma find_section_step:
  assumes "section_table D" and "length D < 2 ^ 63" and "i < elf_shnum D" and "0 \<notin> set nm"
  shows "find_section D (elf_ehdr_of D) (elf_shdr_of D (elf_shstrndx D)) nm (Suc n) (of_nat i) =
    (if sec_name D i = nm
     then if le64 D (sec_at D i + 24) + le64 D (sec_at D i + 32) > of_nat (length D) then Some (EFI_NOT_FOUND, 0, 0)
       else Some (EFI_SUCCESS, le64 D (sec_at D i + 24), le64 D (sec_at D i + 32))
     else find_section D (elf_ehdr_of D) (elf_shdr_of D (elf_shstrndx D)) nm n (of_nat (Suc i)))"
proof -
  let ?s = "elf_shstrndx D"
  have t: "sec_at D i + 64 \<le> length D" "name_index D i < sec_bytes D ?s"
      "0 \<in> set (drop (sec_offset D ?s + name_index D i) D)"
    using assms(1,3) by (auto simp: section_table_def)
  have eq: "ascii_eq_at D (of_nat (sec_offset D ?s + name_index D i)) nm = Some (sec_name D i = nm)"
    using ascii_eq_at_c_str [OF t(3) assms(4,2)] by (simp add: sec_name_def)
  have off: "le64 D (sec_at D ?s + 24) + ucast (le32 D (sec_at D i)) = (of_nat (sec_offset D ?s + name_index D i) :: u64)"
    by (simp add: sec_offset_def name_index_def)
  have "unat (le32 D (sec_at D i)) < 2 ^ 32" using unsigned_less [of "le32 D (sec_at D i)"] by simp
  then have "unat (ucast (le32 D (sec_at D i)) :: u64) = name_index D i"
    by (simp add: unsigned_ucast_eq take_bit_nat_eq_self name_index_def)
  then have idx: "\<not> ucast (le32 D (sec_at D i)) \<ge> le64 D (sec_at D ?s + 32)"
    using t(2) by (simp add: word_le_nat_alt sec_bytes_def)
  have "of_nat (sec_at D i) + 64 = (of_nat (sec_at D i + 64) :: u64)" by simp
  then have c: "\<not> of_nat (sec_at D i) + 64 > (of_nat (length D) :: u64)"
    using in_file_check [OF t(1) assms(2)] by simp
  have at: "e_shoff (elf_ehdr_of D) + of_nat i * ucast (e_shentsize (elf_ehdr_of D)) = (of_nat (sec_at D i) :: u64)"
    using sec_at_word by (simp add: elf_ehdr_of_def)
  have sh: "sh_name (elf_shdr_of D i) = le32 D (sec_at D i)" "sh_size (elf_shdr_of D ?s) = le64 D (sec_at D ?s + 32)"
      "sh_offset (elf_shdr_of D ?s) = le64 D (sec_at D ?s + 24)" "sh_offset (elf_shdr_of D i) = le64 D (sec_at D i + 24)"
      "sh_size (elf_shdr_of D i) = le64 D (sec_at D i + 32)"
    by (simp_all add: elf_shdr_of_def)
  have "of_nat i + 1 = (of_nat (Suc i) :: u64)" by simp
  then show ?thesis
    by (simp only: find_section.simps Let_def at c if_False read_shdr_at [OF t(1) assms(2)] bind.bind_lunit sh idx off eq)
qed

lemma find_section_none:
  "section_table D \<Longrightarrow> length D < 2 ^ 63 \<Longrightarrow> 0 \<notin> set nm \<Longrightarrow> i + n = elf_shnum D \<Longrightarrow>
   (\<forall>j. i \<le> j \<and> j < elf_shnum D \<longrightarrow> sec_name D j \<noteq> nm) \<Longrightarrow>
   find_section D (elf_ehdr_of D) (elf_shdr_of D (elf_shstrndx D)) nm n (of_nat i) = Some (EFI_NOT_FOUND, 0, 0)"
proof (induction n arbitrary: i)
  case (Suc n)
  then have "sec_name D i \<noteq> nm" "i < elf_shnum D" by simp_all
  moreover have "find_section D (elf_ehdr_of D) (elf_shdr_of D (elf_shstrndx D)) nm n (of_nat (Suc i)) = Some (EFI_NOT_FOUND, 0, 0)"
    using Suc.prems by (intro Suc.IH) auto
  ultimately show ?case using find_section_step [OF Suc.prems(1,2) _ Suc.prems(3), of i n]
    by (simp del: find_section.simps)
qed simp

lemma find_section_first:
  "section_table D \<Longrightarrow> length D < 2 ^ 63 \<Longrightarrow> 0 \<notin> set nm \<Longrightarrow> i + n = elf_shnum D \<Longrightarrow> i \<le> k \<Longrightarrow> k < elf_shnum D \<Longrightarrow>
   sec_name D k = nm \<Longrightarrow> (\<forall>j. i \<le> j \<and> j < k \<longrightarrow> sec_name D j \<noteq> nm) \<Longrightarrow> sec_offset D k + sec_bytes D k \<le> length D \<Longrightarrow>
   find_section D (elf_ehdr_of D) (elf_shdr_of D (elf_shstrndx D)) nm n (of_nat i) =
     Some (EFI_SUCCESS, of_nat (sec_offset D k), of_nat (sec_bytes D k))"
proof (induction n arbitrary: i)
  case (Suc n)
  have i: "i < elf_shnum D" using Suc.prems by simp
  show ?case
  proof (cases "i = k")
    case True
    have "\<not> le64 D (sec_at D k + 24) + le64 D (sec_at D k + 32) > of_nat (length D)"
      using in_file_check [OF Suc.prems(9,2)] by (simp add: sec_offset_def sec_bytes_def)
    then show ?thesis using find_section_step [OF Suc.prems(1,2) i Suc.prems(3), of n] Suc.prems(7) True
      by (simp add: sec_offset_def sec_bytes_def del: find_section.simps)
  next
    case False
    then have "sec_name D i \<noteq> nm" using Suc.prems(5,8) by simp
    moreover have "find_section D (elf_ehdr_of D) (elf_shdr_of D (elf_shstrndx D)) nm n (of_nat (Suc i)) =
        Some (EFI_SUCCESS, of_nat (sec_offset D k), of_nat (sec_bytes D k))"
      using Suc.prems False by (intro Suc.IH) auto
    ultimately show ?thesis using find_section_step [OF Suc.prems(1,2) i Suc.prems(3), of n]
      by (simp del: find_section.simps)
  qed
qed simp

lemma FindElfSection_run:
  assumes "64 \<le> length D" and "length D < 2 ^ 63"
  shows "\<not> elf64_aarch64 D \<Longrightarrow> FindElfSection D nm = Some (EFI_INVALID_PARAMETER, 0, 0)"
    and "elf64_aarch64 D \<Longrightarrow> elf_shnum D = 0 \<or> elf_shoff D = 0 \<Longrightarrow> FindElfSection D nm = Some (EFI_NOT_FOUND, 0, 0)"
    and "elf64_aarch64 D \<Longrightarrow> section_table D \<Longrightarrow> FindElfSection D nm =
      find_section D (elf_ehdr_of D) (elf_shdr_of D (elf_shstrndx D)) nm (elf_shnum D) (of_nat 0)"
proof -
  have rd: "read_ehdr D = Some (elf_ehdr_of D)" "rd32 D 0 = Some (le32 D 0)" "rd8 D 4 = Some (D ! 4)" "rd8 D 5 = Some (D ! 5)"
    using assms(1) by (simp_all add: read_ehdr_def elf_ehdr_of_def)
  have "take 6 D = [D ! 0, D ! 1, D ! 2, D ! 3, D ! 4, D ! 5]"
    by (rule take_six) (use assms(1) in simp)
  moreover have "le32 D 0 = ELF_MAGIC \<longleftrightarrow> bytes32 (le32 D 0) = bytes32 ELF_MAGIC"
    by (metis le32_bytes32)
  moreover have "bytes32 ELF_MAGIC = [0x7F, 0x45, 0x4C, 0x46]" by code_simp
  ultimately have "take 6 D = [D ! 0, D ! 1, D ! 2, D ! 3, D ! 4, D ! 5]"
    "le32 D 0 = ELF_MAGIC \<longleftrightarrow> D ! 0 = 0x7F \<and> D ! 1 = 0x45 \<and> D ! 2 = 0x4C \<and> D ! 3 = 0x46"
    by (simp_all add: bytes_of_le32 numeral_2_eq_2)
  then have id: "elf64_aarch64 D \<longleftrightarrow>
      le32 D 0 = ELF_MAGIC \<and> D ! 4 = 2 \<and> D ! 5 = 1 \<and> e_machine (elf_ehdr_of D) = ELF_MACHINE_AARCH64"
    by (auto simp: elf64_aarch64_def ELF_MACHINE_AARCH64_def elf_ehdr_of_def)
  show "\<not> elf64_aarch64 D \<Longrightarrow> FindElfSection D nm = Some (EFI_INVALID_PARAMETER, 0, 0)"
    using assms(1) rd by (simp add: FindElfSection_def id)
  show "elf64_aarch64 D \<Longrightarrow> elf_shnum D = 0 \<or> elf_shoff D = 0 \<Longrightarrow> FindElfSection D nm = Some (EFI_NOT_FOUND, 0, 0)"
    using assms(1) rd
    by (auto simp: FindElfSection_def id elf_shnum_def elf_shoff_def elf_ehdr_of_def unat_eq_0)
  {
    assume e: "elf64_aarch64 D" and t: "section_table D"
    let ?s = "elf_shstrndx D"
    have s: "sec_at D ?s + 64 \<le> length D" "sec_offset D ?s + sec_bytes D ?s \<le> length D" "?s < elf_shnum D"
      using t by (auto simp: section_table_def)
    have at: "e_shoff (elf_ehdr_of D) + ucast (e_shstrndx (elf_ehdr_of D)) * ucast (e_shentsize (elf_ehdr_of D)) =
        (of_nat (sec_at D ?s) :: u64)"
      using sec_at_word [of D ?s] by (simp add: elf_ehdr_of_def elf_shstrndx_def)
    have "\<not> (e_shnum (elf_ehdr_of D) = 0 \<or> e_shoff (elf_ehdr_of D) = 0 \<or> e_shstrndx (elf_ehdr_of D) \<ge> e_shnum (elf_ehdr_of D))"
      using t by (auto simp: section_table_def elf_ehdr_of_def elf_shnum_def elf_shoff_def elf_shstrndx_def word_le_nat_alt)
    moreover have "\<not> unat (e_shstrndx (elf_ehdr_of D)) * unat (e_shentsize (elf_ehdr_of D)) \<ge> 2 ^ 31"
      using t by (simp add: section_table_def elf_ehdr_of_def elf_shstrndx_def)
    moreover have "\<not> of_nat (sec_at D ?s) + 64 > (of_nat (length D) :: u64)"
      using in_file_check [OF s(1) assms(2)] by simp
    moreover have "\<not> sh_offset (elf_shdr_of D ?s) + sh_size (elf_shdr_of D ?s) > of_nat (length D)"
      using in_file_check [OF s(2) assms(2)] by (simp add: elf_shdr_of_def sec_offset_def sec_bytes_def)
    moreover have "unat (e_shnum (elf_ehdr_of D)) = elf_shnum D" by (simp add: elf_ehdr_of_def elf_shnum_def)
    ultimately show "FindElfSection D nm =
        find_section D (elf_ehdr_of D) (elf_shdr_of D ?s) nm (elf_shnum D) (of_nat 0)"
      using assms(1) rd e unfolding FindElfSection_def id
      by (simp add: at read_shdr_at [OF s(1) assms(2)] Let_def)
  }
qed

text \<open>The loop over the program headers.\<close>

lemma pt_load_end_run:
  assumes "\<forall>i < k + n. seg_at D i + 56 \<le> length D \<and> seg_end D i \<le> length D" and "length D < 2 ^ 63" and "M \<le> length D"
  shows "pt_load_end D (le64 D 32) (le16 D 54) n (of_nat k) (of_nat M) =
    Some (of_nat (Max (insert M (seg_end D ` {i. k \<le> i \<and> i < k + n \<and> le32 D (seg_at D i) = 1}))))"
  using assms
proof (induction n arbitrary: k M)
  case (Suc n)
  have s: "seg_at D k + 56 \<le> length D" "seg_end D k \<le> length D" using Suc.prems(1) by auto
  have at: "le64 D 32 + of_nat k * ucast (le16 D 54) = (of_nat (seg_at D k) :: u64)" by (simp add: seg_at_def)
  have "of_nat (seg_at D k) + 56 = (of_nat (seg_at D k + 56) :: u64)" by simp
  then have c: "\<not> of_nat (seg_at D k) + 56 > (of_nat (length D) :: u64)"
    using in_file_check [OF s(1) Suc.prems(2)] by simp
  have u: "unat (of_nat (seg_at D k) :: u64) = seg_at D k" using s(1) Suc.prems(2) by (intro unat_in_file) simp_all
  have e: "le64 D (seg_at D k + 8) + le64 D (seg_at D k + 32) = (of_nat (seg_end D k) :: u64)" by (simp add: seg_end_def)
  have m: "(if of_nat (seg_end D k) > (of_nat M :: u64) then of_nat (seg_end D k) else of_nat M) =
      (of_nat (max (seg_end D k) M) :: u64)"
    unfolding word_less_nat_alt unat_in_file [OF s(2) Suc.prems(2)] unat_in_file [OF Suc.prems(3,2)]
    by (simp add: max_def)
  define M' where "M' = (if le32 D (seg_at D k) = 1 then max (seg_end D k) M else M)"
  have step: "pt_load_end D (le64 D 32) (le16 D 54) (Suc n) (of_nat k) (of_nat M) =
      pt_load_end D (le64 D 32) (le16 D 54) n (of_nat (Suc k)) (of_nat M')"
    using s(1) by (cases "le32 D (seg_at D k) = 1")
      (simp_all add: at c u e m M'_def ELF_PT_LOAD_def Let_def add.commute split del: if_split del: of_nat_add cong: if_cong)
  have "M' \<le> length D" using s(2) Suc.prems(3) by (simp add: M'_def)
  then have IH: "pt_load_end D (le64 D 32) (le16 D 54) n (of_nat (Suc k)) (of_nat M') =
      Some (of_nat (Max (insert M' (seg_end D ` {i. Suc k \<le> i \<and> i < Suc k + n \<and> le32 D (seg_at D i) = 1}))))"
    using Suc.prems by (intro Suc.IH) auto
  have "{i. k \<le> i \<and> i < k + Suc n \<and> le32 D (seg_at D i) = 1} =
      (if le32 D (seg_at D k) = 1 then {k} else {}) \<union> {i. Suc k \<le> i \<and> i < Suc k + n \<and> le32 D (seg_at D i) = 1}"
    by (auto simp: Suc_le_eq le_less)
  moreover have "finite {i. Suc k \<le> i \<and> i < Suc k + n \<and> le32 D (seg_at D i) = 1}" by simp
  ultimately have "Max (insert M (seg_end D ` {i. k \<le> i \<and> i < k + Suc n \<and> le32 D (seg_at D i) = 1})) =
      Max (insert M' (seg_end D ` {i. Suc k \<le> i \<and> i < Suc k + n \<and> le32 D (seg_at D i) = 1}))"
    by (simp only: M'_def) (auto simp: Max_insert_max insert_commute)
  then show ?case unfolding step IH by simp
next
  case (0 k M)
  have "{i. k \<le> i \<and> i < k + 0 \<and> le32 D (seg_at D i) = 1} = {}" by auto
  then show ?case by (simp only: pt_load_end.simps image_empty Max_singleton)
qed

text \<open>The range the code searches is the one of the format.\<close>

lemma search_range_run:
  assumes "stream_range D a b"
  shows "search_range D = Some (of_nat a, of_nat b)" and "a \<le> length D" and "b \<le> length D"
proof -
  have len: "64 \<le> length D" "length D < 2 ^ 63" using assms by (simp_all add: stream_range_def)
  have nm: "0 \<notin> set INITRD_NAME" by (simp add: INITRD_NAME_def)
  have "search_range D = Some (of_nat a, of_nat b) \<and> a \<le> length D \<and> b \<le> length D"
  proof (cases "\<exists>sz. elf_section D INITRD_NAME a sz \<and> b = a + sz")
    case True
    then obtain sz k where e: "elf64_aarch64 D" "section_table D" "b = a + sz" "k < elf_shnum D"
        "sec_name D k = INITRD_NAME" "\<forall>j < k. sec_name D j \<noteq> INITRD_NAME"
        "a = sec_offset D k" "sz = sec_bytes D k" "a + sz \<le> length D"
      unfolding elf_section_def by blast
    have "FindElfSection D INITRD_NAME = Some (EFI_SUCCESS, of_nat (sec_offset D k), of_nat (sec_bytes D k))"
      using find_section_first [OF e(2) len(2) nm, of 0 "elf_shnum D" k] e FindElfSection_run(3) [OF len e(1,2)] by simp
    then show ?thesis using e by (simp add: search_range_def)
  next
    case False
    then have n: "no_section D INITRD_NAME" "load_end D a" "b = length D"
      using assms unfolding stream_range_def by blast+
    have l: "\<forall>i < 0 + unat (le16 D 56). seg_at D i + 56 \<le> length D \<and> seg_end D i \<le> length D"
      using n(2) by (simp add: load_end_def)
    have a: "a = Max (insert 0 (seg_end D ` {i. 0 \<le> i \<and> i < 0 + unat (le16 D 56) \<and> le32 D (seg_at D i) = 1}))"
      using n(2) by (simp add: load_end_def)
    have "a \<in> insert 0 (seg_end D ` {i. 0 \<le> i \<and> i < 0 + unat (le16 D 56) \<and> le32 D (seg_at D i) = 1})"
      unfolding a by (rule Max_in) simp_all
    then have al: "a \<le> length D" using l by auto
    have p: "pt_load_end D (le64 D 32) (le16 D 54) (unat (le16 D 56)) 0 0 = Some (of_nat a)"
      using pt_load_end_run [OF l len(2), of 0] unfolding a by simp
    have "\<exists>st. FindElfSection D INITRD_NAME = Some (st, 0, 0) \<and> EFI_ERROR st"
    proof (cases "elf64_aarch64 D \<and> elf_shnum D \<noteq> 0 \<and> elf_shoff D \<noteq> 0")
      case True
      then have t: "section_table D" "\<forall>i < elf_shnum D. sec_name D i \<noteq> INITRD_NAME"
        using n(1) by (auto simp: no_section_def)
      have "find_section D (elf_ehdr_of D) (elf_shdr_of D (elf_shstrndx D)) INITRD_NAME (elf_shnum D) (of_nat 0) =
          Some (EFI_NOT_FOUND, 0, 0)"
        using t by (intro find_section_none len nm) auto
      then show ?thesis using FindElfSection_run(3) [OF len conjunct1 [OF True] t(1)] by (auto simp del: of_nat_0)
    next
      case False
      then show ?thesis using FindElfSection_run(1,2) [OF len, of INITRD_NAME] by (cases "elf64_aarch64 D") auto
    qed
    then show ?thesis using p n(3) len al by (auto simp: search_range_def)
  qed
  then show "search_range D = Some (of_nat a, of_nat b)" "a \<le> length D" "b \<le> length D" by simp_all
qed

end
