(* ===== verification/RouterOSLoader.thy ===== *)
theory RouterOSLoader
  imports Yaffs2Files NpkParser KernelImage
begin

text \<open>
  The RouterOS loader: \<open>src/Application/RouterOSLoader/RouterOSLoader.c\<close> and \<open>KernelBoot.c\<close>.

  Firmware services are parameters: the file systems (theory \<open>EfiFile\<close>), the boot services and
  the device tree library. Pool memory that is freed on every path is not modelled here; the memory
  that outlives a step is: the pages of the RAM disk, the installed device tree, the load options.
\<close>

subsection \<open>Reading the package\<close>

text \<open>\<open>ReadFileToBuffer\<close>: \<open>al\<close> tells whether the info and the data buffer can be allocated.\<close>

definition ReadFileToBuffer ::
    "('s, 'h) efi_file_proto \<Rightarrow> (u64 \<Rightarrow> bool) \<Rightarrow> 's \<Rightarrow> 'h \<Rightarrow> u16 list \<Rightarrow> ('s \<times> efi_status \<times> bytes) option" where
  "ReadFileToBuffer fp al s Root Path = do {
     (s1, Status, File) \<leftarrow> ef_Open fp s Root Path 1;
     if EFI_ERROR Status then Some (s1, Status, [])
     else do {
       h \<leftarrow> File;
       (s2, Status, InfoSize, _) \<leftarrow> ef_GetInfo fp s1 h 0 False;
       if Status \<noteq> EFI_BUFFER_TOO_SMALL then Some (s2, EFI_DEVICE_ERROR, [])
       else if \<not> al InfoSize then Some (s2, EFI_OUT_OF_RESOURCES, [])
       else do {
         (s3, Status, _, ReadSize) \<leftarrow> ef_GetInfo fp s2 h InfoSize True;
         if EFI_ERROR Status then Some (s3, Status, [])
         else if \<not> al ReadSize then Some (s3, EFI_OUT_OF_RESOURCES, [])
         else do {
           (s4, _, Status, n, d) \<leftarrow> ef_Read fp s3 h ReadSize;
           if EFI_ERROR Status then Some (s4, Status, [])
           else if length d = unat n then Some (s4, EFI_SUCCESS, d) else None
         }
       }
     }
   }"

record ('s, 'h) efi_fs =
  fs_HandleProtocol :: efi_status
  fs_OpenVolume :: "'s \<Rightarrow> ('s \<times> efi_status \<times> 'h option) option"
  fs_files :: "('s, 'h) efi_file_proto"

definition mImagePath :: "u16 list" where
  "mImagePath = map of_char ([CHR 0x5C] @ ''var'' @ [CHR 0x5C] @ ''pdb'' @ [CHR 0x5C] @ ''system'' @
     [CHR 0x5C] @ ''image'') @ [0]"

fun scan_file_systems ::
    "(u64 \<Rightarrow> bool) \<Rightarrow> ('s, 'h) efi_fs list \<Rightarrow> 's \<Rightarrow> ('s \<times> efi_status \<times> bytes) option" where
  "scan_file_systems al [] s = Some (s, EFI_NOT_FOUND, [])"
| "scan_file_systems al (fs # fss) s =
     (if EFI_ERROR (fs_HandleProtocol fs) then scan_file_systems al fss s
      else do {
        (s1, Status, Root) \<leftarrow> fs_OpenVolume fs s;
        if EFI_ERROR Status then scan_file_systems al fss s1
        else do {
          root \<leftarrow> Root;
          (s2, Status, d) \<leftarrow> ReadFileToBuffer (fs_files fs) al s1 root mImagePath;
          if EFI_ERROR Status then scan_file_systems al fss s2
          else Some (s2, EFI_SUCCESS, d)
        }
      })"

text \<open>\<open>LocateHandleBuffer\<close> fails, or returns the handles.\<close>

definition FindAndReadNpk ::
    "(u64 \<Rightarrow> bool) \<Rightarrow> efi_status + ('s, 'h) efi_fs list \<Rightarrow> 's \<Rightarrow> ('s \<times> efi_status \<times> bytes) option" where
  "FindAndReadNpk al Handles s = (case Handles of
     Inl Status \<Rightarrow> Some (s, Status, [])
   | Inr fss \<Rightarrow> scan_file_systems al fss s)"

subsection \<open>Booting\<close>

record 'f fdt_lib =
  FdtCheckHeader :: "'f \<Rightarrow> int"
  FdtTotalSize :: "'f \<Rightarrow> u32"
  FdtOpenInto :: "'f \<Rightarrow> u32 \<Rightarrow> int \<times> 'f"
  FdtPathOffset :: "'f \<Rightarrow> string \<Rightarrow> int"
  FdtAddSubnode :: "'f \<Rightarrow> int \<Rightarrow> string \<Rightarrow> int \<times> 'f"
  FdtSetPropU64 :: "'f \<Rightarrow> int \<Rightarrow> string \<Rightarrow> u64 \<Rightarrow> int \<times> 'f"
  FdtPack :: "'f \<Rightarrow> 'f"

record 'f boot_services =
  bs_AllocatePool :: bool
  bs_AllocatePages :: "u64 \<Rightarrow> efi_status \<times> u64"
  bs_InstallTable :: "'f \<Rightarrow> efi_status"
  bs_LoadImage :: "bytes \<Rightarrow> efi_status"
  bs_LoadedImage :: efi_status
  bs_StartImage :: efi_status

text \<open>The configuration table: for each entry, whether its GUID is that of the device tree.\<close>

fun FindInstalledDtb :: "(bool \<times> 'f) list \<Rightarrow> 'f option" where
  "FindInstalledDtb [] = None"
| "FindInstalledDtb ((is_fdt, t) # ts) = (if is_fdt then Some t else FindInstalledDtb ts)"

text \<open>The status and the device tree that is installed.\<close>

definition PatchDtbInitrd ::
    "'f fdt_lib \<Rightarrow> 'f boot_services \<Rightarrow> (bool \<times> 'f) list \<Rightarrow> u64 \<Rightarrow> u64 \<Rightarrow> efi_status \<times> 'f option" where
  "PatchDtbInitrd F bs table InitrdStart InitrdEnd = (case FindInstalledDtb table of
     None \<Rightarrow> (EFI_NOT_FOUND, None)
   | Some OrigDtb \<Rightarrow>
       if FdtCheckHeader F OrigDtb \<noteq> 0 then (EFI_COMPROMISED_DATA, None)
       else if \<not> bs_AllocatePool bs then (EFI_OUT_OF_RESOURCES, None)
       else (case FdtOpenInto F OrigDtb (ucast (ucast (FdtTotalSize F OrigDtb) + 256 :: u64)) of (Err, NewDtb) \<Rightarrow>
         if Err \<noteq> 0 then (EFI_DEVICE_ERROR, None)
         else let Chosen0 = FdtPathOffset F NewDtb ''/chosen'' in
         (case (if Chosen0 < 0 then FdtAddSubnode F NewDtb 0 ''chosen'' else (Chosen0, NewDtb)) of
           (Chosen, Dtb1) \<Rightarrow>
             if Chosen < 0 then (EFI_DEVICE_ERROR, None)
             else (case FdtSetPropU64 F Dtb1 Chosen ''linux,initrd-start'' InitrdStart of (Err, Dtb2) \<Rightarrow>
               if Err \<noteq> 0 then (EFI_DEVICE_ERROR, None)
               else (case FdtSetPropU64 F Dtb2 Chosen ''linux,initrd-end'' InitrdEnd of (Err, Dtb3) \<Rightarrow>
                 if Err \<noteq> 0 then (EFI_DEVICE_ERROR, None)
                 else let Packed = FdtPack F Dtb3; Status = bs_InstallTable bs Packed in
                 if EFI_ERROR Status then (Status, None) else (EFI_SUCCESS, Some Packed))))))"

definition mCmdLine :: "u16 list" where
  "mCmdLine = map of_char (''console=ttyS0,115200 benand_no_swecc=2 bootimage=1 yaffs.inband_tags=1 '' @
     ''parts=1 arm64=Y board=UEFI_CCR2004-1G-2XS-PCIe ver=2026.325.2012 '' @
     ''bver=2026.325.2012 hw_opt=00100001 boot=1 mlc=12 loglevel=7 '' @
     ''earlycon=uart8250,mmio32,0xfd883000,115200n8 earlyprintk verbose'') @ [0]"

text \<open>
  What a boot attempt leaves behind: the copy of the RAM disk with its address, the installed device
  tree, the image that was started with its load options.
\<close>

record 'f boot_effect =
  be_initrd :: "(u64 \<times> bytes) option"
  be_dtb :: "'f option"
  be_started :: "(bytes \<times> u16 list) option"

definition no_effect :: "'f boot_effect" where
  "no_effect = \<lparr>be_initrd = None, be_dtb = None, be_started = None\<rparr>"

definition start_kernel ::
    "'f boot_services \<Rightarrow> bytes \<Rightarrow> u64 \<Rightarrow> 'f boot_effect \<Rightarrow> (efi_status \<times> 'f boot_effect) option" where
  "start_kernel bs KernelBuffer KernelSize e = do {
     source \<leftarrow> rdbytes KernelBuffer 0 (unat KernelSize);
     let Status = bs_LoadImage bs source;
     if EFI_ERROR Status then Some (Status, e)
     else if EFI_ERROR (bs_LoadedImage bs) then Some (bs_LoadedImage bs, e)
     else Some (bs_StartImage bs, e\<lparr>be_started := Some (source, mCmdLine)\<rparr>)
   }"

definition BootLinuxKernel ::
    "'f fdt_lib \<Rightarrow> 'f boot_services \<Rightarrow> (bool \<times> 'f) list \<Rightarrow> bytes \<Rightarrow> u64 \<Rightarrow> bytes option \<Rightarrow>
     (efi_status \<times> 'f boot_effect) option" where
  "BootLinuxKernel F bs table KernelBuffer KernelSize Initrd = (case Initrd of
     Some d \<Rightarrow>
       if length d > 0
       then (case bs_AllocatePages bs (EFI_SIZE_TO_PAGES (of_nat (length d))) of (Status, InitrdPages) \<Rightarrow>
         if EFI_ERROR Status then Some (Status, no_effect)
         else (case PatchDtbInitrd F bs table InitrdPages (InitrdPages + of_nat (length d)) of (_, dtb) \<Rightarrow>
           start_kernel bs KernelBuffer KernelSize
             (no_effect\<lparr>be_initrd := Some (InitrdPages, d), be_dtb := dtb\<rparr>)))
       else start_kernel bs KernelBuffer KernelSize no_effect
   | None \<Rightarrow> start_kernel bs KernelBuffer KernelSize no_effect)"

subsection \<open>The application\<close>

text \<open>\<open>WarmReset a w\<close>: the word \<open>w\<close> was written to the address \<open>a\<close> and the system reset.\<close>

datatype 'f outcome = WarmReset u64 u32 | Returned efi_status "'f boot_effect"

definition ROUTER_BOOT_ARG :: "u16 list" where "ROUTER_BOOT_ARG = map of_char ''-RouterBoot''"

definition BOOT_KERNEL :: bytes where "BOOT_KERNEL = map of_char ''boot/kernel'' @ [0]"

text \<open>
  \<open>Argv\<close> are the shell arguments, when there is a shell, without their terminators. The reset does
  not return.
\<close>

definition RouterOSLoaderEntry ::
    "'z zlib \<Rightarrow> npk_mem \<Rightarrow> xz \<Rightarrow> (nat \<Rightarrow> bool) \<Rightarrow> 'f fdt_lib \<Rightarrow> 'f boot_services \<Rightarrow> (bool \<times> 'f) list \<Rightarrow>
     (u64 \<Rightarrow> bool) \<Rightarrow> u16 list list option \<Rightarrow> efi_status + ('s, 'h) efi_fs list \<Rightarrow> 's \<Rightarrow>
     ('s \<times> 'f outcome) option" where
  "RouterOSLoaderEntry Z mem X alloc F bs table al Argv Handles s =
     (if (case Argv of None \<Rightarrow> False | Some args \<Rightarrow> ROUTER_BOOT_ARG \<in> set (tl args))
      then Some (s, WarmReset 0x20102000 0xFDFFB001)
      else do {
        (s1, Status, NpkData) \<leftarrow> FindAndReadNpk al Handles s;
        if EFI_ERROR Status then Some (s1, Returned Status no_effect)
        else do {
          (NpkStatus, Package, _) \<leftarrow> npk_parse_buffer Z mem (Some NpkData) True;
          if NpkStatus \<noteq> NPK_STATUS_OK then Some (s1, Returned EFI_COMPROMISED_DATA no_effect)
          else do {
            (NpkStatus, KernelElf, _) \<leftarrow> npk_extract_file mem Package (Some BOOT_KERNEL) True;
            if NpkStatus \<noteq> NPK_STATUS_OK then Some (s1, Returned EFI_NOT_FOUND no_effect)
            else do {
              elf \<leftarrow> (case KernelElf of None \<Rightarrow> Some [] | Some b \<Rightarrow> Some b);
              (Status, Stub, Initrd) \<leftarrow> ExtractKernelAndInitrd X alloc elf;
              if EFI_ERROR Status then Some (s1, Returned Status no_effect)
              else do {
                (StubBuffer, StubSize) \<leftarrow> Stub;
                (Status, e) \<leftarrow> BootLinuxKernel F bs table StubBuffer StubSize Initrd;
                Some (s1, Returned Status e)
              }
            }
          }
        }
      })"

subsection \<open>Reading from a volume that keeps the contract\<close>

context efi_files
begin

lemma read_file_run:
  assumes "vol_ok s" and "file_data p = Some d" and "\<forall>n. al n"
  shows "\<exists>s'. ReadFileToBuffer fp al s root p = Some (s', EFI_SUCCESS, d) \<and> vol_ok s'"
proof -
  obtain s1 h where o: "ef_Open fp s root p 1 = Some (s1, EFI_SUCCESS, Some h)" "vol_ok s1" "opened h d"
    using open_file [OF assms(1,2)] by blast
  obtain s2 need x s3 where i: "ef_GetInfo fp s1 h 0 False = Some (s2, EFI_BUFFER_TOO_SMALL, need, x)"
      "ef_GetInfo fp s2 h need True = Some (s3, EFI_SUCCESS, need, of_nat (length d))" "vol_ok s3"
    using info_size [OF o(2,3)] by blast
  obtain s4 h' where r: "ef_Read fp s3 h (of_nat (length d)) = Some (s4, h', EFI_SUCCESS, of_nat (length d), d)"
      "vol_ok s4"
    using read_all [OF i(3) o(3)] by blast
  have "unat (of_nat (length d) :: u64) = length d"
    by (rule unat_of_nat_small) (use file_length [OF o(3)] in simp)
  then show ?thesis using o i r assms(3) by (simp add: ReadFileToBuffer_def)
qed

end

subsection \<open>The YAFFS2 volume as a file system of the loader\<close>

definition yaffs2_fs :: "flash_mem \<Rightarrow> (u64 \<Rightarrow> 't) \<Rightarrow> yaffs2_volume \<Rightarrow>
    (nand_chip al_nand_context, yaffs2_ifile) efi_fs" where
  "yaffs2_fs mem epoch v = \<lparr>fs_HandleProtocol = EFI_SUCCESS,
     fs_OpenVolume = (\<lambda>s. map_option (\<lambda>(st, h). (s, st, h)) (Yaffs2OpenVolume True v)),
     fs_files = yaffs2_file_protocol (nand_flash_protocol (chip_bus mem)) epoch v\<rparr>"

end
