(* ===== verification/Loader.thy ===== *)
theory Loader
  imports RouterOSLoader Yaffs2Example
begin

text \<open>
  The properties of the RouterOS loader: the package parser on every input and on well-formed
  packages, the extraction of the kernel, and the whole way from the flash to the started kernel.
\<close>

subsection \<open>Packages\<close>

text \<open>A decoder of stored data, at which the theorems on packages are applied.\<close>

definition stored_zlib :: "bytes zlib" where
  "stored_zlib = \<lparr>inflateInit = Some, inflate = (\<lambda>s n.
     if n = 0 then (s, [], Z_ERROR (-5))
     else (drop (unat n) s, take (unat n) s, if length s \<le> unat n then Z_STREAM_END else Z_OK))\<rparr>"

lemma stored_zlib_terminates: "zlib_terminates stored_zlib length"
proof -
  have "length (drop (unat n) s) < length s" if "n \<noteq> 0" "\<not> length s \<le> unat n" for n :: u32 and s :: bytes
  proof -
    have "0 < unat n" using that(1) by (simp add: unat_gt_0)
    moreover have "0 < length s" using that(2) by linarith
    ultimately show ?thesis by simp
  qed
  then show ?thesis by (auto simp: zlib_terminates_def stored_zlib_def split: if_splits)
qed

lemma stored_zlib_decodes: "zlib_decodes stored_zlib Some"
  by (auto simp: zlib_decodes_def stored_zlib_def split: if_splits)

definition ample :: npk_mem where
  "ample a = (case a of GrowOutput c \<Rightarrow> unat c \<le> 2 ^ 48 | _ \<Rightarrow> True)"

lemma ample_bounded: "mem_bounded ample" and ample_grants: "mem_grants ample"
  by (simp_all add: mem_bounded_def mem_grants_def ample_def split: npk_alloc.split)

text \<open>C5: The package parser returns on every input, without a memory fault and without an endless loop,
  whatever the decoder produces, and never frees a block twice or one it did not allocate. When it
  fails, every block it allocated has been freed and no package is left. On success the blocks that
  are live are those of the package, freeing the package frees them all, and the package is well
  formed, so that a file of any name can be extracted without a fault. Relied on: the decoder writes
  at most the space it is given and \<open>Z_OK\<close> means progress.\<close>

theorem npk_parser_safe:
  assumes "zlib_terminates Z left" and "mem_bounded mem" and "0 \<in> set name"
  shows "\<exists>st p log. npk_parse_buffer Z mem (Some buffer) True = Some (st, p, log) \<and>
    (if st = NPK_STATUS_OK
     then \<exists>pk r. p = Some pk \<and> package_ok pk \<and> npk_extract_file mem (Some pk) (Some name) True = Some r \<and>
       heap_after {} log = Some (held pk) \<and>
       heap_after {} (log @ map Free (npk_package_free (Some pk))) = Some {}
     else p = None \<and> heap_after {} log = Some {})"
  using parse_buffer_run [OF assms(1,2), of buffer] extract_file_run [OF _ assms(3), of _ mem True]
  by (fastforce simp: heap_after_append heap_after_package_free)

text \<open>What a writer of packages produces, and a decoder that decodes its content.\<close>

definition valid_npk ::
    "'z zlib \<Rightarrow> ('z \<Rightarrow> bytes option) \<Rightarrow> npk_file list \<Rightarrow> (u16 \<times> bytes) list \<Rightarrow> bytes \<Rightarrow> bytes \<Rightarrow> bool" where
  "valid_npk Z left files others zdata post = (zlib_decodes Z left \<and>
     (\<exists>s. inflateInit Z zdata = Some s \<and> left s = Some (concat (map npk_object files))) \<and>
     length zdata < 2 ^ 30 \<and> length (concat (map npk_object files)) < 2 ^ 31 \<and>
     (\<forall>f \<in> set files. file_wf f) \<and>
     (\<forall>(i, d) \<in> set others. i \<noteq> NPK_ZLIB_COMPRESSED_DATA \<and> length d < 2 ^ 32) \<and>
     length (npk_image others zdata post) < 2 ^ 32)"

lemma parse_valid:
  assumes "valid_npk Z left files others zdata post" and "mem_grants mem" and "files \<noteq> []"
  shows "\<exists>p log. npk_parse_buffer Z mem (Some (npk_image others zdata post)) True = Some (NPK_STATUS_OK, Some p, log) \<and>
    p_content_buffer p = Some (concat (map npk_object files)) \<and> entry_list p = entries_at 0 files"
proof -
  obtain s where "inflateInit Z zdata = Some s" "left s = Some (concat (map npk_object files))"
    using assms(1) by (auto simp: valid_npk_def)
  then show ?thesis using assms by (intro parse_image [of Z left]) (auto simp: valid_npk_def)
qed

lemma parse_and_extract:
  assumes "valid_npk Z left (fs @ f # gs) others zdata post" and "mem_grants mem"
    and "\<forall>x \<in> set fs. c_str (f_name x) \<noteq> c_str (f_name f)"
    and "f_mode f AND 0xF000 = 0x8000" and "f_data f \<noteq> []"
  shows "\<exists>p log. npk_parse_buffer Z mem (Some (npk_image others zdata post)) True = Some (NPK_STATUS_OK, Some p, log) \<and>
    npk_extract_file mem (Some p) (Some (f_name f @ [0])) True =
      Some (NPK_STATUS_OK, Some (f_data f), of_nat (length (f_data f)))"
proof -
  obtain p log where p: "npk_parse_buffer Z mem (Some (npk_image others zdata post)) True = Some (NPK_STATUS_OK, Some p, log)"
      "p_content_buffer p = Some (concat (map npk_object (fs @ f # gs)))"
      "entry_list p = entries_at 0 (fs @ f # gs)"
    using parse_valid [OF assms(1,2)] by blast
  have "\<forall>x \<in> set (fs @ f # gs). file_wf x" using assms(1) unfolding valid_npk_def by blast
  moreover have "mem AllocCopy" using assms(2) by (simp add: mem_grants_def)
  ultimately show ?thesis using extract_image [OF p(3,2) _ assms(3-5)] p(1) by blast
qed

text \<open>C9: Round trip: from the image of a package, made of any containers before the compressed one and of
  anything after it, parsing and extracting a file by its name returns exactly the data that was put
  in, when it is a regular file and the first of its name.\<close>

theorem npk_roundtrip:
  assumes "valid_npk Z left (fs @ f # gs) others zdata post" and "mem_grants mem"
    and "\<forall>x \<in> set fs. c_str (f_name x) \<noteq> c_str (f_name f)"
    and "f_mode f AND 0xF000 = 0x8000" and "f_data f \<noteq> []"
  shows "\<exists>p log. npk_parse_buffer Z mem (Some (npk_image others zdata post)) True = Some (NPK_STATUS_OK, Some p, log) \<and>
    npk_extract_file mem (Some p) (Some (f_name f @ [0])) True =
      Some (NPK_STATUS_OK, Some (f_data f), of_nat (length (f_data f)))"
  by (rule parse_and_extract [OF assms])

text \<open>The package of the examples: one directory entry, then the kernel.\<close>

definition ex_dir :: npk_file where
  "ex_dir = \<lparr>f_mode = 0x41ED, f_pad = replicate 22 0, f_name = map of_char ''boot'', f_data = []\<rparr>"

text \<open>The kernel is an ELF file of two sections: \<open>initrd\<close>, which holds the two streams, and the names,
  behind which there is one more magic, outside of \<open>initrd\<close>.\<close>

definition ex_elf :: bytes where
  "ex_elf = [0x7F, 0x45, 0x4C, 0x46, 2, 1] @ replicate 12 0 @ [183] @ replicate 21 0 @ [64] @
     replicate 17 0 @ [64, 0, 2, 0, 1, 0] @ replicate 24 0 @ [205] @ replicate 7 0 @ [16] @ replicate 31 0 @
     replicate 24 0 @ [192] @ replicate 7 0 @ [7] @ replicate 31 0 @ INITRD_NAME @ 0 # gXzMagic @
     (gXzMagic @ [1]) @ replicate 2 0 @ (gXzMagic @ [2])"

definition ex_kernel :: npk_file where
  "ex_kernel = \<lparr>f_mode = 0x81ED, f_pad = replicate 22 0, f_name = map of_char ''boot/kernel'', f_data = ex_elf\<rparr>"

definition ex_content :: bytes where "ex_content = concat (map npk_object [ex_dir, ex_kernel])"

definition ex_image :: bytes where "ex_image = npk_image [(1, [7, 7])] ex_content []"

lemma ex_lengths: "length ex_elf = 221" "length ex_content = 296" "length ex_image = 318"
proof -
  show "length ex_elf = 221" by (simp add: ex_elf_def gXzMagic_def INITRD_NAME_def)
  then show "length ex_content = 296" by (simp add: ex_content_def npk_object_def ex_dir_def ex_kernel_def)
  then show "length ex_image = 318" by (simp add: ex_image_def npk_image_def npk_container_def Let_def)
qed

lemma ex_valid: "valid_npk stored_zlib Some ([ex_dir] @ ex_kernel # []) [(1, [7, 7])] ex_content []"
proof -
  have "file_wf ex_dir" "file_wf ex_kernel"
    using ex_lengths(1) by (simp_all add: file_wf_def ex_dir_def ex_kernel_def)
  moreover have "inflateInit stored_zlib ex_content = Some ex_content" by (simp add: stored_zlib_def)
  ultimately show ?thesis using ex_lengths stored_zlib_decodes
    by (simp add: valid_npk_def ex_image_def [symmetric] NPK_ZLIB_COMPRESSED_DATA_def)
      (simp add: ex_content_def)
qed

lemma ex_names: "c_str (f_name ex_dir) \<noteq> c_str (f_name ex_kernel)" "f_mode ex_kernel AND 0xF000 = 0x8000"
  "f_data ex_kernel \<noteq> []"
  by (simp_all add: ex_dir_def ex_kernel_def c_str_def ex_elf_def)

theorem npk_roundtrip_witness:
  "\<exists>p log. npk_parse_buffer stored_zlib ample (Some ex_image) True = Some (NPK_STATUS_OK, Some p, log) \<and>
     npk_extract_file ample (Some p) (Some (f_name ex_kernel @ [0])) True =
       Some (NPK_STATUS_OK, Some ex_elf, of_nat (length ex_elf))"
  using npk_roundtrip [OF ex_valid ample_grants] ex_names by (simp add: ex_image_def ex_kernel_def)

text \<open>A package whose content breaks off after its first entry: what the parser allocates and frees.\<close>

definition ex_cut :: bytes where "ex_cut = npk_image [] (npk_object ex_dir @ [1, 2, 3]) []"

lemma ex_cut_log: "npk_parse_buffer stored_zlib ample (Some ex_cut) True = Some (NPK_STATUS_TRUNCATED, None,
  [Alloc PackageBlock, Alloc ContentBlock, Alloc StreamBlock, Free StreamBlock, Alloc EntriesBlock,
   Alloc (NameBlock 0), Free (NameBlock 0), Free EntriesBlock, Free ContentBlock, Free PackageBlock])"
proof -
  define c where "c = npk_object ex_dir @ [1, 2, 3]"
  note ev = npk_object_def ex_dir_def le16_def le32_def bytes16_def bytes32_def nth_append
  have len: "length c = 37" by (simp add: c_def npk_object_def ex_dir_def)
  then have "c \<noteq> []" by auto
  then have inf: "npk_inflate_payload stored_zlib ample c = Some (NPK_STATUS_OK, Some c, length c,
      [Alloc ContentBlock, Alloc StreamBlock, Free StreamBlock])"
    using len by (intro inflate_payload_decodes [OF stored_zlib_decodes ample_grants]) (simp_all add: stored_zlib_def)
  have rds: "rd16 c 0 = Some 0x41ED" "rd32 c 24 = Some 0" "rd16 c 28 = Some 4"
    using len by (simp_all add: rd16_def rd32_def) (simp_all add: c_def ev)
  define p where "p = empty_package\<lparr>p_content_buffer := Some c, p_content_size := length c\<rparr>"
  have "\<exists>p1. npk_append_entry ample p 30 4 0x41ED 34 0 =
      Some (NPK_STATUS_OK, p1, [Alloc EntriesBlock, Alloc (NameBlock 0)]) \<and>
      p_content_size p1 = 37 \<and> (\<exists>e. p_entries p1 = Some [e]) \<and> p_content_buffer p1 = Some c"
    using len by (simp add: npk_append_entry_def p_def empty_package_def ample_def entry_list_def rdbytes_def)
  then obtain p1 where p1: "npk_append_entry ample p 30 4 0x41ED 34 0 =
      Some (NPK_STATUS_OK, p1, [Alloc EntriesBlock, Alloc (NameBlock 0)])" "p_content_size p1 = 37"
      "\<exists>e. p_entries p1 = Some [e]" "p_content_buffer p1 = Some c" by blast
  have "npk_parse_entries ample p1 34 = Some (NPK_STATUS_TRUNCATED, p1, [])"
    using p1(2) by (subst npk_parse_entries.simps) (simp add: npk_sizes)
  then have pe: "npk_parse_entries ample p 0 = Some (NPK_STATUS_TRUNCATED, p1, [Alloc EntriesBlock, Alloc (NameBlock 0)])"
    using rds p1(1) len by (subst npk_parse_entries.simps) (simp add: npk_sizes p_def)
  have img: "ex_cut = bytes32 NPK_MAGIC_BYTES @ bytes32 43 @ npk_container NPK_ZLIB_COMPRESSED_DATA c"
    using len by (simp add: ex_cut_def npk_image_def length_container c_def)
  then have l: "length ex_cut = 51" unfolding img using len by (simp add: length_container)
  have "find_content stored_zlib ample ex_cut (length ex_cut) empty_package 8 =
      Some (NPK_STATUS_TRUNCATED, p1, [Alloc ContentBlock, Alloc StreamBlock, Free StreamBlock] @
        [Alloc EntriesBlock, Alloc (NameBlock 0)])"
    using find_content_image [OF inf, of "[]" ex_cut "bytes32 NPK_MAGIC_BYTES @ bytes32 43" "[]" empty_package] len pe
    by (simp add: img p_def)
  then have fc: "find_content stored_zlib ample ex_cut 51 empty_package 8 =
      Some (NPK_STATUS_TRUNCATED, p1, [Alloc ContentBlock, Alloc StreamBlock, Free StreamBlock,
        Alloc EntriesBlock, Alloc (NameBlock 0)])" by (simp add: l)
  have "rd32 ex_cut 0 = Some NPK_MAGIC_BYTES" "rd32 ex_cut 4 = Some 43" using l
    le32_at [of "[]" 0] le32_at [of "bytes32 NPK_MAGIC_BYTES" 4] by (simp_all add: rd32_def) (simp_all add: img)
  then show ?thesis using fc l p1(3,4)
    by (auto simp: npk_parse_buffer_def npk_find_and_inflate_content_def npk_sizes ample_def npk_package_free_def
        npk_free_entries_def)
qed

theorem npk_parser_safe_witness:
  "\<exists>log. npk_parse_buffer stored_zlib ample (Some ex_cut) True = Some (NPK_STATUS_TRUNCATED, None, log) \<and>
     heap_after {} log = Some {} \<and> {Alloc ContentBlock, Alloc EntriesBlock, Alloc (NameBlock 0)} \<subseteq> set log"
  using npk_parser_safe [OF stored_zlib_terminates ample_bounded, of "[0]" ex_cut] by (simp add: ex_cut_log)

subsection \<open>The kernel and the RAM disk\<close>

text \<open>The search for a compressed stream returns, without reading outside the file, the first offset of the
  range at which the six bytes of the XZ magic stand, or reports that there is none.\<close>

theorem first_stream_found:
  assumes "unat DataSize \<le> length Data" and "length Data < 2 ^ 63" and "i \<le> length Data"
  shows "\<exists>found. FindXzStream Data DataSize i = Some found \<and> (case found of
     Some k \<Rightarrow> i \<le> k \<and> k + 6 \<le> unat DataSize \<and> magic_at Data k \<and> (\<forall>j. i \<le> j \<and> j < k \<longrightarrow> \<not> magic_at Data j)
   | None \<Rightarrow> \<forall>j. i \<le> j \<and> j + 6 \<le> unat DataSize \<longrightarrow> \<not> magic_at Data j)"
proof (cases "List.find (magic_at Data) [i..<unat DataSize - 5]")
  case None
  then have "\<not> magic_at Data j" if "i \<le> j" "j + 6 \<le> unat DataSize" for j
    using that by (simp add: find_None_iff)
  then show ?thesis using FindXzStream_eq [OF assms] None by simp
next
  case (Some k)
  then obtain m where m: "m < unat DataSize - 5 - i" "k = i + m" "magic_at Data (i + m)"
      "\<forall>j < m. \<not> magic_at Data (i + j)"
    by (auto simp: find_Some_iff)
  have "\<not> magic_at Data j" if "i \<le> j" "j < k" for j
    using m(4) [rule_format, of "j - i"] m(2) that by simp
  then show ?thesis using FindXzStream_eq [OF assms] Some m by auto
qed

theorem first_stream_found_witness:
  "\<exists>found. FindXzStream ex_elf 221 1 = Some found \<and> (case found of
     Some k \<Rightarrow> 1 \<le> k \<and> k + 6 \<le> unat (221 :: u64) \<and> magic_at ex_elf k \<and>
       (\<forall>j. 1 \<le> j \<and> j < k \<longrightarrow> \<not> magic_at ex_elf j)
   | None \<Rightarrow> \<forall>j. 1 \<le> j \<and> j + 6 \<le> unat (221 :: u64) \<longrightarrow> \<not> magic_at ex_elf j)"
  by (rule first_stream_found) (simp_all add: ex_lengths)

text \<open>
  A file whose \<open>initrd\<close> section (or, without one, the part behind the loaded segments) holds two
  compressed streams, zeros between them, the first of them the first magic of that range.
\<close>

definition two_streams :: "xz \<Rightarrow> bytes \<Rightarrow> bytes \<Rightarrow> bytes \<Rightarrow> bool" where
  "two_streams X Data stub initrd = (xz_dec_init X \<and> take 2 stub = [0x4D, 0x5A] \<and> take 6 initrd = CPIO_MAGIC \<and>
     (\<exists>a b pre zs1 k zs2 post. stream_range Data a b \<and>
       Data = pre @ zs1 @ replicate k 0 @ zs2 @ post \<and> xz_stream X zs1 stub \<and> xz_stream X zs2 initrd \<and>
       a \<le> length pre \<and> (\<forall>i. a \<le> i \<and> i < length pre \<longrightarrow> \<not> magic_at Data i) \<and>
       length pre + length zs1 + k + length zs2 \<le> b))"

lemma two_streams_extracted:
  assumes "two_streams X Data stub initrd" and "stub_extent stub n"
  shows "ExtractKernelAndInitrd X (\<lambda>k. True) Data = Some (EFI_SUCCESS, Some (stub, of_nat n), Some initrd)"
proof -
  obtain a b pre zs1 k zs2 post where d: "stream_range Data a b"
      "Data = pre @ zs1 @ replicate k 0 @ zs2 @ post" "xz_stream X zs1 stub" "xz_stream X zs2 initrd"
      "a \<le> length pre" "\<forall>i. a \<le> i \<and> i < length pre \<longrightarrow> \<not> magic_at Data i"
      "length pre + length zs1 + k + length zs2 \<le> b"
    using assms(1) unfolding two_streams_def by blast
  have t: "xz_dec_init X" "take 2 stub = [0x4D, 0x5A]" "take 6 initrd = CPIO_MAGIC"
    using assms(1) unfolding two_streams_def by blast+
  note range = search_range_run [OF d(1)]
  have len: "length Data < 2 ^ 63" using d(1) by (simp add: stream_range_def)
  then have b: "unat (of_nat b :: u64) = b" by (intro unat_of_nat_small) (use range(3) in simp)
  obtain pe where pe: "GetPeFileSize stub = Some pe"
      "(case pe of None \<Rightarrow> of_nat (length stub) | Some m \<Rightarrow> m) = (of_nat n :: u64)"
    using GetPeFileSize_extent [OF assms(2) t(2)] by blast
  have "length pre + length zs1 + k + length zs2 \<le> unat (of_nat b :: u64)" "unat (of_nat b :: u64) \<le> length Data"
    unfolding b using d(7) range(3) by simp_all
  then show ?thesis
    using extract_two_streams [OF range(1) d(2-4) t(1) _ _ len t(2) pe(1) t(3) d(5,6)] pe(2) by simp
qed

text \<open>C12: From an ELF file whose \<open>initrd\<close> section, found by its name in the string table (or, without
  such a section, the part behind the last loaded segment), holds two compressed streams with zero
  padding between them, the extraction returns the data of the first, an EFI stub, with the end of its
  last PE section as its size (all of it, when it has no PE header), and the data of the second, a
  CPIO archive. Range and extent are stated on the fields of the ELF and PE formats. Relied on: the XZ
  decoder decodes a stream and reports its length, whatever follows it.\<close>

theorem kernel_extracted:
  assumes "two_streams X Data stub initrd" and "stub_extent stub n"
  shows "ExtractKernelAndInitrd X (\<lambda>k. True) Data = Some (EFI_SUCCESS, Some (stub, of_nat n), Some initrd)"
  by (rule two_streams_extracted [OF assms])

text \<open>The stub of the example has one section, at 128, of 8 bytes, and 4 more bytes behind it.\<close>

definition ex_stub :: bytes where
  "ex_stub = [0x4D, 0x5A] @ replicate 58 0 @ [0x40, 0, 0, 0, 0x50, 0x45, 0, 0, 0x64, 0xAA, 1, 0] @ replicate 16 0 @
     replicate 16 0 @ [8, 0, 0, 0, 0x80, 0, 0, 0] @ replicate 16 0 @ [1, 2, 3, 4, 5, 6, 7, 8] @ [9, 9, 9, 9]"

definition ex_xz :: xz where
  "ex_xz = \<lparr>xz_dec_init = True, xz_dec_run = (\<lambda>b.
     if take 7 b = gXzMagic @ [1] then (True, 7, ex_stub)
     else if take 7 b = gXzMagic @ [2] then (True, 7, CPIO_MAGIC) else (False, 0, []))\<rparr>"

lemma ex_stub_extent: "stub_extent ex_stub 136"
proof -
  note ev = ex_stub_def le16_def le32_def nth_append
  have "length ex_stub = 140" "le32 ex_stub 60 = 64" "le16 ex_stub 70 = 1" "le16 ex_stub 84 = 0"
      "le32 ex_stub 104 = 8" "le32 ex_stub 108 = 128" "take 2 ex_stub = [0x4D, 0x5A]"
      "take 4 (drop 64 ex_stub) = [0x50, 0x45, 0, 0]"
    by (simp_all add: ev)
  then have "pe_image ex_stub [(128, 8)]" by (simp add: pe_image_def pe_section_def)
  moreover have "pe_end [(128, 8)] = 136" by (simp add: pe_end_def)
  ultimately show ?thesis unfolding stub_extent_def by metis
qed

lemma ex_range: "stream_range ex_elf 205 221"
proof -
  note ev = ex_elf_def INITRD_NAME_def gXzMagic_def le16_def le32_def le64_def nth_append
  have f: "elf_shoff ex_elf = 64" "elf_shnum ex_elf = 2" "elf_shstrndx ex_elf = 1" "le16 ex_elf 58 = 64"
    by (simp_all add: elf_shoff_def elf_shnum_def elf_shstrndx_def ev)
  then have at: "sec_at ex_elf 0 = 64" "sec_at ex_elf 1 = 128" by (simp_all add: sec_at_def)
  have "le64 ex_elf 88 = 205" "le64 ex_elf 96 = 16" "le64 ex_elf 152 = 192" "le64 ex_elf 160 = 7"
      "le32 ex_elf 64 = 0" "le32 ex_elf 128 = 0"
    by (simp_all add: ev)
  then have g: "sec_offset ex_elf 0 = 205" "sec_bytes ex_elf 0 = 16" "sec_offset ex_elf 1 = 192" "sec_bytes ex_elf 1 = 7"
      "name_index ex_elf 0 = 0" "name_index ex_elf 1 = 0"
    unfolding sec_offset_def sec_bytes_def name_index_def at by simp_all
  have d: "drop 192 ex_elf = INITRD_NAME @ 0 # gXzMagic @ (gXzMagic @ [1]) @ replicate 2 0 @ (gXzMagic @ [2])"
    by (simp add: ex_elf_def)
  have nm: "sec_name ex_elf 0 = INITRD_NAME"
    unfolding sec_name_def f g by (simp add: d c_str_def INITRD_NAME_def)
  have id: "elf64_aarch64 ex_elf" by (simp add: elf64_aarch64_def) (simp add: ev)
  have z: "0 \<in> set (drop 192 ex_elf)" by (simp add: d)
  have "sec_at ex_elf i + 64 \<le> length ex_elf \<and> name_index ex_elf i < 7 \<and>
      0 \<in> set (drop (192 + name_index ex_elf i) ex_elf)" if "i < 2" for i
    using less_2_cases [OF that] z ex_lengths(1) g(5,6) at by auto
  then have tab: "section_table ex_elf" using ex_lengths(1) unfolding section_table_def f g by simp
  have "elf_section ex_elf INITRD_NAME 205 16" using ex_lengths(1) id tab nm f g unfolding elf_section_def
    by (intro conjI exI [of _ 0]) simp_all
  moreover have "(221 :: nat) = 205 + 16" by simp
  ultimately show ?thesis using ex_lengths(1) unfolding stream_range_def by auto
qed

lemma ex_streams: "two_streams ex_xz ex_elf ex_stub CPIO_MAGIC"
proof -
  have x: "xz_stream ex_xz (gXzMagic @ [1]) ex_stub" "xz_stream ex_xz (gXzMagic @ [2]) CPIO_MAGIC"
    by (simp_all add: xz_stream_def ex_xz_def gXzMagic_def)
  have l: "length (take 205 ex_elf) = 205" by (simp add: ex_lengths)
  have "drop 205 ex_elf = (gXzMagic @ [1]) @ replicate 2 0 @ (gXzMagic @ [2]) @ []"
    by (simp add: ex_elf_def gXzMagic_def INITRD_NAME_def)
  then have d: "ex_elf = take 205 ex_elf @ (gXzMagic @ [1]) @ replicate 2 0 @ (gXzMagic @ [2]) @ []"
    by (metis append_take_drop_id)
  have a: "205 \<le> length (take 205 ex_elf)" "\<forall>i. 205 \<le> i \<and> i < length (take 205 ex_elf) \<longrightarrow> \<not> magic_at ex_elf i"
    unfolding l by auto
  have n: "length (take 205 ex_elf) + length (gXzMagic @ [1 :: u8]) + 2 + length (gXzMagic @ [2 :: u8]) \<le> 221"
    unfolding l by (simp add: gXzMagic_def)
  have "take 2 ex_stub = [0x4D, 0x5A]" "take 6 CPIO_MAGIC = CPIO_MAGIC" "xz_dec_init ex_xz"
    by (simp_all add: CPIO_MAGIC_def ex_stub_def ex_xz_def)
  then show ?thesis using ex_range d x a n unfolding two_streams_def by blast
qed

theorem kernel_extracted_witness:
  "ExtractKernelAndInitrd ex_xz (\<lambda>k. True) ex_elf = Some (EFI_SUCCESS, Some (ex_stub, 136), Some CPIO_MAGIC)"
  using kernel_extracted [OF ex_streams ex_stub_extent] by simp

text \<open>The PE offset of the decompressed image is checked in 32 bits: an image whose offset field is
  between \<open>2^32 - 24\<close> and \<open>2^32 - 1\<close> passes the check and is read far outside its buffer.\<close>

theorem pe_offset_unchecked:
  assumes "0x40 \<le> length Data" and "length Data < 2 ^ 32 - 24" and "Data ! 0 = 0x4D" and "Data ! 1 = 0x5A"
    and "2 ^ 32 - 24 \<le> unat (le32 Data 0x3C)"
  shows "GetPeFileSize Data = None"
proof -
  have "unat (le32 Data 0x3C) < 2 ^ LENGTH(32)" by (rule unsigned_less)
  then show ?thesis using assms by (intro pe_offset_faults) simp_all
qed

theorem pe_offset_unchecked_witness:
  "GetPeFileSize ([0x4D, 0x5A] @ replicate 58 0 @ [0xF0, 0xFF, 0xFF, 0xFF]) = None"
  by (rule pe_offset_unchecked) (simp_all add: le32_def nth_append)

text \<open>A file shorter than an ELF header makes the extraction read past its end, for the program header
  count of the search without sections.\<close>

theorem short_elf_faults:
  assumes "length Data < 58"
  shows "ExtractKernelAndInitrd X alloc Data = None"
  using short_file_faults [OF assms] .

theorem short_elf_faults_witness: "ExtractKernelAndInitrd ex_xz (\<lambda>k. True) gXzMagic = None"
  by (rule short_elf_faults) (simp add: gXzMagic_def)

text \<open>A section the lookup reports is the data of a section header of the table whose name is the one
  asked for, and its bounds check, in 64-bit arithmetic, has passed.\<close>

theorem section_lookup_sound:
  assumes "FindElfSection Data Name = Some (EFI_SUCCESS, off, sz)"
  shows "\<exists>Ehdr StrTab i Shdr. read_ehdr Data = Some Ehdr \<and> e_machine Ehdr = ELF_MACHINE_AARCH64 \<and>
    read_shdr Data (e_shoff Ehdr + ucast (e_shstrndx Ehdr) * ucast (e_shentsize Ehdr)) = Some StrTab \<and>
    i < unat (e_shnum Ehdr) \<and> read_shdr Data (e_shoff Ehdr + of_nat i * ucast (e_shentsize Ehdr)) = Some Shdr \<and>
    ascii_eq_at Data (sh_offset StrTab + ucast (sh_name Shdr)) Name = Some True \<and>
    off = sh_offset Shdr \<and> sz = sh_size Shdr \<and> off + sz \<le> of_nat (length Data)"
proof -
  obtain Ehdr StrTab where e: "read_ehdr Data = Some Ehdr" "e_machine Ehdr = ELF_MACHINE_AARCH64"
      "read_shdr Data (e_shoff Ehdr + ucast (e_shstrndx Ehdr) * ucast (e_shentsize Ehdr)) = Some StrTab"
      "find_section Data Ehdr StrTab Name (unat (e_shnum Ehdr)) 0 = Some (EFI_SUCCESS, off, sz)"
    using assms by (auto simp: FindElfSection_def Let_def bind_eq_Some_conv split: if_splits)
  then show ?thesis using find_section_sound [OF e(4)] by auto
qed

text \<open>A file of two sections: \<open>initrd\<close>, the first four bytes of the file, and the names.\<close>

definition ex_sections :: bytes where
  "ex_sections = [0x7F, 0x45, 0x4C, 0x46, 2, 1] @ replicate 12 0 @ [183] @ replicate 21 0 @ [64] @
     replicate 17 0 @ [64, 0, 2, 0, 1, 0] @ replicate 32 0 @ [4] @ replicate 31 0 @
     replicate 24 0 @ [192] @ replicate 7 0 @ [7] @ replicate 31 0 @ INITRD_NAME @ [0]"

lemma ex_two: "find_section Data Ehdr StrTab Name 2 i = find_section Data Ehdr StrTab Name (Suc (Suc 0)) i"
  by (simp add: numeral_2_eq_2)

lemma ex_section: "FindElfSection ex_sections INITRD_NAME = Some (EFI_SUCCESS, 0, 4)"
proof -
  note ev = ex_sections_def le16_def le32_def le64_def nth_append rd_defs INITRD_NAME_def
  have "length ex_sections = 199" by (simp add: ex_sections_def INITRD_NAME_def)
  moreover have "read_ehdr ex_sections =
      Some \<lparr>e_machine = 183, e_shoff = 64, e_shentsize = 64, e_shnum = 2, e_shstrndx = 1\<rparr>"
    by (simp add: read_ehdr_def ev)
  moreover have "rd32 ex_sections 0 = Some ELF_MAGIC" "rd8 ex_sections 4 = Some 2" "rd8 ex_sections 5 = Some 1"
    by (simp_all add: ev ELF_MAGIC_def)
  moreover have "read_shdr ex_sections 64 = Some \<lparr>sh_name = 0, sh_offset = 0, sh_size = 4\<rparr>"
    "read_shdr ex_sections 128 = Some \<lparr>sh_name = 0, sh_offset = 192, sh_size = 7\<rparr>"
    by (simp_all add: read_shdr_def ev)
  moreover have "ascii_eq_at ex_sections 192 INITRD_NAME = Some True"
    by (simp add: ev)
  moreover have "\<not> (2 :: u16) \<le> 1" by (simp add: word_le_nat_alt)
  ultimately show ?thesis
    by (simp add: FindElfSection_def ELF_MACHINE_AARCH64_def ex_two Let_def)
qed

theorem section_lookup_sound_witness:
  "\<exists>Ehdr StrTab i Shdr. read_ehdr ex_sections = Some Ehdr \<and> e_machine Ehdr = ELF_MACHINE_AARCH64 \<and>
    read_shdr ex_sections (e_shoff Ehdr + ucast (e_shstrndx Ehdr) * ucast (e_shentsize Ehdr)) = Some StrTab \<and>
    i < unat (e_shnum Ehdr) \<and>
    read_shdr ex_sections (e_shoff Ehdr + of_nat i * ucast (e_shentsize Ehdr)) = Some Shdr \<and>
    ascii_eq_at ex_sections (sh_offset StrTab + ucast (sh_name Shdr)) INITRD_NAME = Some True \<and>
    0 = sh_offset Shdr \<and> 4 = sh_size Shdr \<and> 0 + 4 \<le> (of_nat (length ex_sections) :: u64)"
  using section_lookup_sound [OF ex_section] by simp

end
