(* ===== verification/LoaderBoot.thy ===== *)
theory LoaderBoot
  imports Loader
begin

text \<open>
  The way from the flash to the kernel: the loader on a mounted YAFFS2 volume that holds a package
  with a kernel, and the example of such a volume.
\<close>

subsection \<open>Finding the package\<close>

text \<open>Handles before the volume that are not usable file systems.\<close>

definition unusable :: "('s, 'h) efi_fs list \<Rightarrow> bool" where
  "unusable fss = (\<forall>fs \<in> set fss. EFI_ERROR (fs_HandleProtocol fs))"

lemma skip_unusable: "unusable pre \<Longrightarrow> scan_file_systems al (pre @ fss) s = scan_file_systems al fss s"
  by (induction pre) (auto simp: unusable_def)

lemma volume_read:
  assumes "mounted bb v root s" and "Yaffs2OpenVolume True v = Some (EFI_SUCCESS, Some root)"
    and "yaffs2_file_data bb mem v root mImagePath = Some d" and "unusable pre" and "\<forall>n. al n"
  shows "\<exists>s'. FindAndReadNpk al (Inr (pre @ yaffs2_fs mem epoch v # fss)) s = Some (s', EFI_SUCCESS, d) \<and>
    mounted bb v root s'"
proof -
  obtain s' where "ReadFileToBuffer (yaffs2_file_protocol (nand_flash_protocol (chip_bus mem)) epoch v) al s root
      mImagePath = Some (s', EFI_SUCCESS, d)" "mounted bb v root s'"
    using efi_files.read_file_run [OF yaffs2_files.efi_files_axioms assms(1,3,5)] by blast
  then show ?thesis using assms(2) skip_unusable [OF assms(4)] by (simp add: FindAndReadNpk_def yaffs2_fs_def)
qed

text \<open>C0: On a mounted YAFFS2 volume on the chip the loader reads the whole package file, byte for byte as
  its pages hold it, from the first usable file system, and leaves the volume mounted.\<close>

theorem package_read:
  assumes "mounted bb v root s" and "Yaffs2OpenVolume True v = Some (EFI_SUCCESS, Some root)"
    and "yaffs2_file_data bb mem v root mImagePath = Some d" and "unusable pre" and "\<forall>n. al n"
  shows "\<exists>s'. FindAndReadNpk al (Inr (pre @ yaffs2_fs mem epoch v # fss)) s = Some (s', EFI_SUCCESS, d) \<and>
    mounted bb v root s'"
  by (rule volume_read [OF assms])

subsection \<open>The example volume\<close>

definition dir_object :: "u32 \<Rightarrow> bytes \<Rightarrow> nat option \<Rightarrow> nat list \<Rightarrow> yaffs2_object" where
  "dir_object i name par cs = (zero_object i)\<lparr>o_ParentId := 1, o_Type := 3, o_Name := name @ replicate (256 - length name) 0,
     o_HeaderSeq := 0x1000, o_Parent := par, o_Children := cs\<rparr>"

definition image_object :: yaffs2_object where
  "image_object = (dir_object 8 (map of_char ''image'') (Some 7) [])\<lparr>o_Type := 1, o_FileSize := 318,
     o_ChunkCount := 1, o_ChunkAlloc := 8,
     o_Chunks := \<lparr>c_PageIndex = 4, c_NBytes = 318, c_SeqNumber = 0x1000\<rparr> # replicate 7 chunk_unset\<rparr>"

definition boot_volume :: yaffs2_volume where
  "boot_volume = \<lparr>v_Objects = [None, Some (dir_object 1 [] None [5]), None, None, None,
     Some (dir_object 5 (map of_char ''var'') (Some 1) [6]), Some (dir_object 6 (map of_char ''pdb'') (Some 5) [7]),
     Some (dir_object 7 (map of_char ''system'') (Some 6) [8]), Some image_object],
     v_MaxObjId = 8, v_Root = Some 1\<rparr>"

definition boot_mem :: flash_mem where
  "boot_mem p c = (if p = 4 \<and> c < 318 then ex_image ! c else 0xFF)"

lemma less9: "i < 9 \<longleftrightarrow> i = 0 \<or> i = 1 \<or> i = 2 \<or> i = 3 \<or> i = 4 \<or> i = 5 \<or> i = 6 \<or> i = 7 \<or> i = (8 :: nat)"
  by linarith

lemma boot_obj: "obj_of boot_volume i =
  (if i = 1 then Some (dir_object 1 [] None [5])
   else if i = 5 then Some (dir_object 5 (map of_char ''var'') (Some 1) [6])
   else if i = 6 then Some (dir_object 6 (map of_char ''pdb'') (Some 5) [7])
   else if i = 7 then Some (dir_object 7 (map of_char ''system'') (Some 6) [8])
   else if i = 8 then Some image_object else None)"
proof (cases "i < 9")
  case True
  then show ?thesis unfolding less9 by (elim disjE) (simp_all add: obj_of_def boot_volume_def)
next
  case False
  then show ?thesis by (simp add: obj_of_def boot_volume_def)
qed

lemma boot_object_ok:
  "length name < 256 \<Longrightarrow> i < 2 ^ 32 \<Longrightarrow> object_ok i (dir_object (of_nat i) name p cs)"
  using unat_of_nat_small [of i, where 'a = 32]
  by (simp add: object_ok_def dir_object_def zero_object_def nth_append)

lemma boot_tree_ok: "tree_ok boot_volume"
proof -
  have "object_ok 8 image_object"
    by (simp add: object_ok_def image_object_def dir_object_def zero_object_def nth_append)
  moreover have "object_ok 1 (dir_object 1 [] None [5])" 
     "object_ok 5 (dir_object 5 (map of_char ''var'') (Some 1) [6])"
     "object_ok 6 (dir_object 6 (map of_char ''pdb'') (Some 5) [7])"
     "object_ok 7 (dir_object 7 (map of_char ''system'') (Some 6) [8])"
    using boot_object_ok [of "[]" 1] boot_object_ok [of "map of_char ''var''" 5]
      boot_object_ok [of "map of_char ''pdb''" 6] boot_object_ok [of "map of_char ''system''" 7] by simp_all
  ultimately have "volume_ok boot_volume"
    by (auto simp: volume_ok_def boot_obj split: if_splits) (simp_all add: boot_volume_def)
  then show ?thesis
    by (auto simp: tree_ok_def boot_obj dir_object_def image_object_def zero_object_def split: if_splits)
     (simp_all add: boot_volume_def)
qed

lemma boot_mounted: "mounted ex_map boot_volume (new_handle boot_volume 1) (fresh_context ch)"
  using ex_chip_ok [of ch] boot_tree_ok handle_ok_new [of boot_volume 1]
  by (simp add: mounted_def boot_obj) (simp add: boot_volume_def)

lemma boot_file_bytes: "yaffs2_content ex_map boot_mem image_object = ex_image"
proof -
  have "file_byte (chip_data ex_map boot_mem) image_object n = ex_image ! n" if "n < 318" for n
    using that ex_not_bad [of 4]
    by (simp add: file_byte_def Let_def YAFFS2_DATA_PER_PAGE_def chunk_at_def image_object_def
        YAFFS2_CHUNK_UNSET_def chip_data_def boot_mem_def)
  then show ?thesis using ex_lengths(3)
    by (auto simp: yaffs2_content_def image_object_def intro!: nth_equalityI)
qed

lemma link_here: "obj_of v i = Some ob \<Longrightarrow> o_Type ob \<noteq> YAFFS2_TYPE_HARDLINK \<Longrightarrow> link_target v 16 i = Some i"
  using link_target.simps(2) [of v 15 i] by simp

lemma boot_lookup: "open_spec boot_volume 1 (ascii_name mImagePath) = Some 8"
proof -
  have "ascii_name mImagePath = map of_char ([CHR 0x5C] @ ''var'' @ [CHR 0x5C] @ ''pdb'' @ [CHR 0x5C] @
      ''system'' @ [CHR 0x5C] @ ''image'')"
    by (simp add: ascii_name_def mImagePath_def c_str_def)
  moreover have "split_path [] \<dots> = [map of_char ''var'', map of_char ''pdb'', map of_char ''system'', map of_char ''image'']"
    by simp
  moreover have "lookup_name boot_volume 1 (map of_char ''var'') = Some 5"
    "lookup_name boot_volume 5 (map of_char ''pdb'') = Some 6"
    "lookup_name boot_volume 6 (map of_char ''system'') = Some 7"
    "lookup_name boot_volume 7 (map of_char ''image'') = Some 8"
    by (simp_all add: lookup_name_def boot_obj child_named_def link_here dir_object_def image_object_def
        zero_object_def YAFFS2_TYPE_DIR_def YAFFS2_TYPE_HARDLINK_def c_str_def)
  ultimately show ?thesis
    by (simp add: open_spec_def) (simp add: boot_volume_def)
qed

lemma boot_file: "yaffs2_file_data ex_map boot_mem boot_volume (new_handle boot_volume 1) mImagePath = Some ex_image"
proof -
  have "readable_file image_object"
    by (auto simp: readable_file_def image_object_def dir_object_def zero_object_def YAFFS2_TYPE_DIR_def
        pages_on_chip_def YAFFS2_CHUNK_UNSET_def chunk_unset_def YAFFS2_DATA_PER_PAGE_def)
  moreover have "0 \<in> set mImagePath" "length (takeWhile (\<lambda>c. c \<noteq> 0) mImagePath) < 512"
    by (simp_all add: mImagePath_def)
  ultimately show ?thesis
    using boot_lookup boot_file_bytes by (simp add: yaffs2_file_data_def boot_obj new_handle_def)
qed

lemma boot_open: "Yaffs2OpenVolume True boot_volume = Some (EFI_SUCCESS, Some (new_handle boot_volume 1))"
proof -
  have "v_Root boot_volume = Some 1" by (simp add: boot_volume_def)
  moreover have "Yaffs2AllocateIFile True boot_volume 1 = Some (Some (new_handle boot_volume 1))"
    by (subst AllocateIFile_eq) (simp_all add: boot_obj)
  ultimately show ?thesis by (simp add: Yaffs2OpenVolume_def)
qed

theorem package_read_witness:
  "\<exists>s'. FindAndReadNpk (\<lambda>n. True) (Inr ([] @ yaffs2_fs boot_mem id boot_volume # []))
     (fresh_context \<lparr>ch_addr = [], ch_page = 0, ch_col = 0\<rparr>) = Some (s', EFI_SUCCESS, ex_image) \<and>
   mounted ex_map boot_volume (new_handle boot_volume 1) s'"
  by (rule package_read [OF boot_mounted boot_open boot_file]) (simp_all add: unusable_def)

subsection \<open>Booting\<close>

text \<open>The firmware accepts the image: pages at \<open>a\<close> for the RAM disk, and an image that starts.\<close>

definition boots :: "'f boot_services \<Rightarrow> u64 \<Rightarrow> bytes \<Rightarrow> bytes \<Rightarrow> bool" where
  "boots bs a initrd img = (bs_AllocatePages bs (EFI_SIZE_TO_PAGES (of_nat (length initrd))) = (EFI_SUCCESS, a) \<and>
     bs_LoadImage bs img = EFI_SUCCESS \<and> bs_LoadedImage bs = EFI_SUCCESS)"

text \<open>
  What is relied on of the device tree library, with \<open>prop\<close> the 64-bit properties of a tree by path and
  name and \<open>room\<close> its free space: \<open>fdt_open_into\<close> makes room, \<open>fdt_add_subnode\<close> and \<open>fdt_setprop_u64\<close>
  need room for the node (two tags and its name) and for the property (its header, the value and its
  name), and each of them changes nothing else.
\<close>

definition fdt_laws :: "'f fdt_lib \<Rightarrow> ('f \<Rightarrow> string \<times> string \<Rightarrow> u64 option) \<Rightarrow> ('f \<Rightarrow> nat) \<Rightarrow> bool" where
  "fdt_laws F prop room =
     ((\<forall>t m. FdtCheckHeader F t = 0 \<and> FdtTotalSize F t \<le> m \<longrightarrow> (\<exists>t'. FdtOpenInto F t m = (0, t') \<and>
        prop t' = prop t \<and> unat m \<le> unat (FdtTotalSize F t) + room t')) \<and>
      (\<forall>t nm. FdtPathOffset F t (CHR ''/'' # nm) < 0 \<and> 12 + length nm \<le> room t \<longrightarrow>
        (\<exists>k t'. FdtAddSubnode F t 0 nm = (k, t') \<and> 0 \<le> k \<and> FdtPathOffset F t' (CHR ''/'' # nm) = k \<and>
        prop t' = prop t \<and> room t \<le> room t' + 12 + length nm)) \<and>
      (\<forall>t q x. 0 \<le> FdtPathOffset F t ''/chosen'' \<and> 21 + length q \<le> room t \<longrightarrow>
        (\<exists>t'. FdtSetPropU64 F t (FdtPathOffset F t ''/chosen'') q x = (0, t') \<and>
        FdtPathOffset F t' ''/chosen'' = FdtPathOffset F t ''/chosen'' \<and>
        prop t' = (prop t)((''/chosen'', q) \<mapsto> x) \<and> room t \<le> room t' + 21 + length q)) \<and>
      (\<forall>t. prop (FdtPack F t) = prop t))"

text \<open>The first device tree of the configuration table is sound, and there is memory for its copy.\<close>

definition device_tree :: "'f fdt_lib \<Rightarrow> 'f boot_services \<Rightarrow> (bool \<times> 'f) list \<Rightarrow> 'f \<Rightarrow> bool" where
  "device_tree F bs table dt = ((\<exists>tpre tpost. table = tpre @ (True, dt) # tpost \<and> (\<forall>(g, t) \<in> set tpre. \<not> g)) \<and>
     FdtCheckHeader F dt = 0 \<and> unat (FdtTotalSize F dt) + 256 < 2 ^ 32 \<and>
     bs_AllocatePool bs \<and> (\<forall>t. bs_InstallTable bs t = EFI_SUCCESS))"

lemma first_tree: "\<forall>(g, t) \<in> set tpre. \<not> g \<Longrightarrow> FindInstalledDtb (tpre @ (True, dt) # tpost) = Some dt"
  by (induction tpre) auto

lemma device_tree_patched:
  assumes "fdt_laws F prop room" and "device_tree F bs table dt"
  shows "\<exists>T. PatchDtbInitrd F bs table a e = (EFI_SUCCESS, Some T) \<and>
    prop T = (prop dt)((''/chosen'', ''linux,initrd-start'') \<mapsto> a, (''/chosen'', ''linux,initrd-end'') \<mapsto> e)"
proof -
  have laws: "\<And>t m. FdtCheckHeader F t = 0 \<Longrightarrow> FdtTotalSize F t \<le> m \<Longrightarrow> \<exists>t'. FdtOpenInto F t m = (0, t') \<and>
        prop t' = prop t \<and> unat m \<le> unat (FdtTotalSize F t) + room t'"
    "\<And>t nm. FdtPathOffset F t (CHR ''/'' # nm) < 0 \<Longrightarrow> 12 + length nm \<le> room t \<Longrightarrow>
        \<exists>k t'. FdtAddSubnode F t 0 nm = (k, t') \<and> 0 \<le> k \<and> FdtPathOffset F t' (CHR ''/'' # nm) = k \<and>
        prop t' = prop t \<and> room t \<le> room t' + 12 + length nm"
    "\<And>t q x. 0 \<le> FdtPathOffset F t ''/chosen'' \<Longrightarrow> 21 + length q \<le> room t \<Longrightarrow>
        \<exists>t'. FdtSetPropU64 F t (FdtPathOffset F t ''/chosen'') q x = (0, t') \<and>
        FdtPathOffset F t' ''/chosen'' = FdtPathOffset F t ''/chosen'' \<and>
        prop t' = (prop t)((''/chosen'', q) \<mapsto> x) \<and> room t \<le> room t' + 21 + length q"
    "\<And>t. prop (FdtPack F t) = prop t"
    using assms(1) unfolding fdt_laws_def by blast+
  obtain tpre tpost where table: "table = tpre @ (True, dt) # tpost" "\<forall>(g, t) \<in> set tpre. \<not> g"
    using assms(2) unfolding device_tree_def by (elim exE conjE) (rule that)
  have found: "FindInstalledDtb table = Some dt" unfolding table(1) by (rule first_tree [OF table(2)])
  have dt: "FdtCheckHeader F dt = 0" "unat (FdtTotalSize F dt) + 256 < 2 ^ 32"
      "bs_AllocatePool bs" "\<And>t. bs_InstallTable bs t = EFI_SUCCESS"
    using assms(2) unfolding device_tree_def by blast+
  define m :: u32 where "m = ucast (ucast (FdtTotalSize F dt) + 256 :: u64)"
  have "unat (ucast (FdtTotalSize F dt) + 256 :: u64) = unat (FdtTotalSize F dt) + 256"
    using dt(2) by (simp add: unat_word_ariths unsigned_ucast_eq take_bit_nat_eq_self)
  then have m: "unat m = unat (FdtTotalSize F dt) + 256" using dt(2) unfolding m_def by (subst avail_exact) simp_all
  obtain t1 where t1: "FdtOpenInto F dt m = (0, t1)" "prop t1 = prop dt" "256 \<le> room t1"
    using laws(1) [OF dt(1), of m] m by (auto simp: word_le_nat_alt)
  obtain k t2 where t2: "(if FdtPathOffset F t1 ''/chosen'' < 0 then FdtAddSubnode F t1 0 ''chosen''
        else (FdtPathOffset F t1 ''/chosen'', t1)) = (k, t2)"
      "0 \<le> k" "FdtPathOffset F t2 ''/chosen'' = k" "prop t2 = prop dt" "100 \<le> room t2"
    using laws(2) [of t1 "''chosen''"] t1(2,3) by (cases "FdtPathOffset F t1 ''/chosen'' < 0") auto
  obtain t3 where t3: "FdtSetPropU64 F t2 k ''linux,initrd-start'' a = (0, t3)" "FdtPathOffset F t3 ''/chosen'' = k"
      "prop t3 = (prop dt)((''/chosen'', ''linux,initrd-start'') \<mapsto> a)" "50 \<le> room t3"
    using laws(3) [of t2 "''linux,initrd-start''" a] t2(2-5) by auto
  obtain t4 where t4: "FdtSetPropU64 F t3 k ''linux,initrd-end'' e = (0, t4)"
      "prop t4 = (prop t3)((''/chosen'', ''linux,initrd-end'') \<mapsto> e)"
    using laws(3) [of t3 "''linux,initrd-end''" e] t3(2,4) t2(2) by auto
  show ?thesis using found dt t1(1) t2(1,2) t3 t4 laws(4)
    by (simp add: PatchDtbInitrd_def m_def [symmetric] Let_def)
qed

lemma kernel_booted:
  assumes "boots bs a initrd (take n stub)" and "n \<le> length stub" and "length stub < 2 ^ 63" and "initrd \<noteq> []"
    and "PatchDtbInitrd F bs table a (a + of_nat (length initrd)) = (st, dtb)"
  shows "BootLinuxKernel F bs table stub (of_nat n) (Some initrd) = Some (bs_StartImage bs,
    \<lparr>be_initrd = Some (a, initrd), be_dtb = dtb, be_started = Some (take n stub, mCmdLine)\<rparr>)"
proof -
  have "unat (of_nat n :: u64) = n" by (rule unat_of_nat_small) (use assms(2,3) in simp)
  then show ?thesis using assms
    by (simp add: boots_def BootLinuxKernel_def start_kernel_def no_effect_def)
qed

lemma two_streams_nonempty:
  assumes "two_streams X Data stub initrd"
  shows "Data \<noteq> []" and "initrd \<noteq> []"
proof -
  obtain pre zs1 rest where "Data = pre @ zs1 @ rest" "xz_stream X zs1 stub"
    using assms unfolding two_streams_def by blast
  then show "Data \<noteq> []" using xz_stream_length [of X zs1 stub] by auto
  have "take 6 initrd = CPIO_MAGIC" using assms unfolding two_streams_def by blast
  then show "initrd \<noteq> []" by (auto simp: CPIO_MAGIC_def)
qed

text \<open>C2: The whole way: with a volume mounted from the chip whose \<open>\var\pdb\system\image\<close> is a valid
  package, its \<open>boot/kernel\<close> a file of two streams, the loader starts exactly the EFI stub of the first
  stream, up to the end of its last PE section, with the hardcoded command line, the archive of the
  second copied to loader memory, and a device tree installed that is the firmware's with the start and
  the end of that copy as the \<open>linux,initrd-start\<close> and \<open>linux,initrd-end\<close> of \<open>/chosen\<close> and every other
  property kept; it returns what the kernel returns. Relied on: zlib and the XZ decoder decode their
  streams, the device tree library does what it documents, the firmware grants memory and accepts the
  image.\<close>

theorem loader_boots:
  assumes "mounted bb v root s" and "Yaffs2OpenVolume True v = Some (EFI_SUCCESS, Some root)"
    and "yaffs2_file_data bb mem v root mImagePath = Some (npk_image others zdata post)"
    and "valid_npk Z left (fs @ f # gs) others zdata post" and "mem_grants nmem" and "unusable pre"
    and "\<forall>x \<in> set fs. c_str (f_name x) \<noteq> map of_char ''boot/kernel''"
    and "f_name f = map of_char ''boot/kernel''" and "f_mode f AND 0xF000 = 0x8000"
    and "two_streams X (f_data f) stub initrd" and "stub_extent stub n" and "n \<le> length stub"
    and "boots bs a initrd (take n stub)" and "fdt_laws F prop room" and "device_tree F bs table dt"
  shows "\<exists>s' T. RouterOSLoaderEntry Z nmem X (\<lambda>k. True) F bs table (\<lambda>n. True) None
      (Inr (pre @ yaffs2_fs mem epoch v # fss)) s = Some (s', Returned (bs_StartImage bs)
        \<lparr>be_initrd = Some (a, initrd), be_dtb = Some T, be_started = Some (take n stub, mCmdLine)\<rparr>) \<and>
      prop T = (prop dt)((''/chosen'', ''linux,initrd-start'') \<mapsto> a,
        (''/chosen'', ''linux,initrd-end'') \<mapsto> a + of_nat (length initrd))"
proof -
  obtain s' where s': "FindAndReadNpk (\<lambda>n. True) (Inr (pre @ yaffs2_fs mem epoch v # fss)) s =
      Some (s', EFI_SUCCESS, npk_image others zdata post)"
    using volume_read [OF assms(1-3,6), where al = "\<lambda>n. True" and epoch = epoch and fss = fss] by auto
  note nonempty = two_streams_nonempty [OF assms(10)]
  have "c_str (f_name f) = f_name f" by (simp add: assms(8) c_str_def)
  then obtain p log where p: "npk_parse_buffer Z nmem (Some (npk_image others zdata post)) True =
        Some (NPK_STATUS_OK, Some p, log)"
      "npk_extract_file nmem (Some p) (Some BOOT_KERNEL) True =
        Some (NPK_STATUS_OK, Some (f_data f), of_nat (length (f_data f)))"
    using parse_and_extract [OF assms(4,5) _ assms(9) nonempty(1)] assms(7,8) unfolding BOOT_KERNEL_def by metis
  obtain T where T: "PatchDtbInitrd F bs table a (a + of_nat (length initrd)) = (EFI_SUCCESS, Some T)"
      "prop T = (prop dt)((''/chosen'', ''linux,initrd-start'') \<mapsto> a,
        (''/chosen'', ''linux,initrd-end'') \<mapsto> a + of_nat (length initrd))"
    using device_tree_patched [OF assms(14,15)] by blast
  have "length stub < 2 ^ 63" using assms(11) by (auto simp: stub_extent_def pe_image_def no_pe_def Let_def)
  note kernel_booted [OF assms(13,12) this nonempty(2) T(1)]
  then show ?thesis using s' p T(2) two_streams_extracted [OF assms(10,11)] by (simp add: RouterOSLoaderEntry_def)
qed

text \<open>A device tree library on trees that are their free space, whether there is a \<open>/chosen\<close>, and the
  properties; the firmware's tree has no \<open>/chosen\<close>.\<close>

type_synonym ex_tree = "nat \<times> bool \<times> (string \<times> string \<Rightarrow> u64 option)"

definition ex_fdt :: "ex_tree fdt_lib" where
  "ex_fdt = \<lparr>FdtCheckHeader = (\<lambda>t. 0), FdtTotalSize = (\<lambda>t. 64),
     FdtOpenInto = (\<lambda>(r, c, p) n. if n < 64 then (-3, (r, c, p)) else (0, (unat n - 64, c, p))),
     FdtPathOffset = (\<lambda>(r, c, p) q. if c \<or> q \<noteq> ''/chosen'' then 8 else -1),
     FdtAddSubnode = (\<lambda>(r, c, p) k nm. if r < 12 + length nm then (-3, (r, c, p)) else (8, (r - (12 + length nm), True, p))),
     FdtSetPropU64 = (\<lambda>(r, c, p) k q x. if r < 21 + length q then (-3, (r, c, p))
       else (0, (r - (21 + length q), c, p((''/chosen'', q) \<mapsto> x)))),
     FdtPack = (\<lambda>(r, c, p). (0, c, p))\<rparr>"

definition ex_dt :: ex_tree where "ex_dt = (0, False, [(''/memory'', ''reg'') \<mapsto> 5])"

definition ex_boot :: "ex_tree boot_services" where
  "ex_boot = \<lparr>bs_AllocatePool = True, bs_AllocatePages = (\<lambda>n. (EFI_SUCCESS, 0x100000)),
     bs_InstallTable = (\<lambda>f. EFI_SUCCESS), bs_LoadImage = (\<lambda>b. EFI_SUCCESS),
     bs_LoadedImage = EFI_SUCCESS, bs_StartImage = EFI_NOT_FOUND\<rparr>"

lemma ex_fdt_laws: "fdt_laws ex_fdt (snd \<circ> snd) fst"
  by (auto simp: fdt_laws_def ex_fdt_def not_less word_le_nat_alt word_less_nat_alt split: if_splits)

lemma ex_device_tree: "device_tree ex_fdt ex_boot [(True, ex_dt)] ex_dt"
  unfolding device_tree_def by (intro conjI exI [of _ "[]"]) (simp_all add: ex_fdt_def ex_boot_def)

theorem loader_boots_witness:
  "\<exists>s' T. RouterOSLoaderEntry stored_zlib ample ex_xz (\<lambda>k. True) ex_fdt ex_boot [(True, ex_dt)] (\<lambda>n. True) None
     (Inr ([] @ yaffs2_fs boot_mem id boot_volume # [])) (fresh_context \<lparr>ch_addr = [], ch_page = 0, ch_col = 0\<rparr>) =
   Some (s', Returned EFI_NOT_FOUND \<lparr>be_initrd = Some (0x100000, CPIO_MAGIC), be_dtb = Some T,
     be_started = Some (take 136 ex_stub, mCmdLine)\<rparr>) \<and>
   snd (snd T) = [(''/memory'', ''reg'') \<mapsto> 5, (''/chosen'', ''linux,initrd-start'') \<mapsto> 0x100000,
     (''/chosen'', ''linux,initrd-end'') \<mapsto> 0x100006]"
proof -
  have n: "136 \<le> length ex_stub" by (simp add: ex_stub_def)
  have b: "boots ex_boot 0x100000 CPIO_MAGIC (take 136 ex_stub)"
    by (simp add: boots_def ex_boot_def)
  have f: "\<forall>x \<in> set [ex_dir]. c_str (f_name x) \<noteq> map of_char ''boot/kernel''"
    "f_name ex_kernel = map of_char ''boot/kernel''" "f_mode ex_kernel AND 0xF000 = 0x8000"
    using ex_names by (simp_all add: ex_dir_def ex_kernel_def c_str_def)
  have d: "two_streams ex_xz (f_data ex_kernel) ex_stub CPIO_MAGIC"
    using ex_streams by (simp add: ex_kernel_def)
  have u: "unusable []" by (simp add: unusable_def)
  have st: "bs_StartImage ex_boot = EFI_NOT_FOUND" by (simp add: ex_boot_def)
  have dt: "snd (snd ex_dt) = [(''/memory'', ''reg'') \<mapsto> 5]" by (simp add: ex_dt_def)
  have l: "(0x100000 :: u64) + of_nat (length CPIO_MAGIC) = 0x100006" by (simp add: CPIO_MAGIC_def)
  show ?thesis
    using loader_boots [OF boot_mounted boot_open boot_file [unfolded ex_image_def] ex_valid ample_grants u f d
        ex_stub_extent n b ex_fdt_laws ex_device_tree, where epoch = id and fss = "[]"]
    unfolding st l comp_apply dt .
qed

text \<open>The argument \<open>-RouterBoot\<close> in any place but the first makes the application write the magic for
  the boot loader and reset the system, before it touches any device.\<close>

theorem router_boot_resets:
  assumes "ROUTER_BOOT_ARG \<in> set args"
  shows "RouterOSLoaderEntry Z mem X alloc F bs table al (Some (prog # args)) Handles s =
    Some (s, WarmReset 0x20102000 0xFDFFB001)"
  using assms by (simp add: RouterOSLoaderEntry_def)

theorem router_boot_resets_witness:
  "RouterOSLoaderEntry stored_zlib ample ex_xz (\<lambda>k. True) ex_fdt ex_boot [] (\<lambda>n. True)
     (Some ([] # [ROUTER_BOOT_ARG])) (Inl EFI_NOT_FOUND :: efi_status + (nat, nat) efi_fs list) 0 =
   Some (0, WarmReset 0x20102000 0xFDFFB001)"
  by (rule router_boot_resets) simp

end
