(* ===== verification/SpiHal.thy ===== *)
theory SpiHal
  imports Prelude
begin

text \<open>
  The HAL of the SPI controller: \<open>al_hal_spi.c\<close> (the copies under \<open>src/SpiLoader/hal\<close> and
  \<open>src/Library/AlpineHalLib/drivers/pbs\<close> are the same).

  The registers are a parameter, the record \<open>spi_bus\<close> of the 16-bit accesses and of \<open>al_udelay\<close> on a
  state \<open>'h\<close>. A transfer is given the command and the data as lists, and returns the bytes stored
  at \<open>din\<close>; a store past the end of \<open>din\<close>, which needs a controller that receives more bytes
  than were sent, is \<^const>\<open>None\<close>. The code also puts each answer to the command at \<open>din[0]\<close>, before
  the first byte of data overwrites it; when a transfer fails before that byte, the list is empty and
  \<open>din[0]\<close> indeterminate. The counter of dummy bytes is an \<open>int\<close>: lengths of
  \<open>2^31\<close> and more, whose conversion is not portable, are \<^const>\<open>None\<close> too.
\<close>

subsection \<open>The registers\<close>

datatype spi_reg = CTRLR0 | SSIENR | SER | BAUDR | TXFLR | RXFLR | SR | IMR | ISR | RISR
  | TXOICR | RXOICR | RXUICR | MSTICR | DMACR | DR | SSI_OVR

record 'h spi_bus =
  al_reg_read16 :: "spi_reg \<Rightarrow> 'h \<Rightarrow> 'h \<times> u16"
  al_reg_write16 :: "spi_reg \<Rightarrow> u16 \<Rightarrow> 'h \<Rightarrow> 'h"
  al_udelay :: "'h \<Rightarrow> 'h"

text \<open>\<open>struct al_spi_interface\<close> without the pointer to the registers.\<close>

record al_spi_interface =
  input_clk_freq :: u32
  curr_bus_owner :: u16

definition TX_FIFO_DEPTH :: nat where "TX_FIFO_DEPTH = 32"
definition RX_FIFO_DEPTH :: nat where "RX_FIFO_DEPTH = 32"
definition RX_TX_FLR_TIMEOUT_US :: nat where "RX_TX_FLR_TIMEOUT_US = 1000"
definition RX_TX_FLR_TIMEOUT_DELAY_FACTOR :: nat where "RX_TX_FLR_TIMEOUT_DELAY_FACTOR = 100"

lemmas spi_consts = TX_FIFO_DEPTH_def RX_FIFO_DEPTH_def RX_TX_FLR_TIMEOUT_US_def
  RX_TX_FLR_TIMEOUT_DELAY_FACTOR_def

definition AL_SPI_CS_NONE :: u16 where "AL_SPI_CS_NONE = 0"

definition SPI_CS_INDEX_TO_VAL :: "u32 \<Rightarrow> u32" where "SPI_CS_INDEX_TO_VAL v = push_bit (unat v) 1"

datatype spi_tmod = TRANS_RECV | TRANS | RECV | EEPROM

definition tmod_val :: "spi_tmod \<Rightarrow> u16" where
  "tmod_val t = (case t of TRANS_RECV \<Rightarrow> 0 | TRANS \<Rightarrow> 0x100 | RECV \<Rightarrow> 0x200 | EEPROM \<Rightarrow> 0x300)"

definition al_spi_is_enabled :: "'h spi_bus \<Rightarrow> 'h \<Rightarrow> 'h \<times> bool" where
  "al_spi_is_enabled bus h = (case al_reg_read16 bus SSIENR h of (h1, v) \<Rightarrow> (h1, v \<noteq> 0))"

definition al_spi_enable :: "'h spi_bus \<Rightarrow> 'h \<Rightarrow> 'h" where
  "al_spi_enable bus h = al_reg_write16 bus SSIENR 1 h"

definition al_spi_disable :: "'h spi_bus \<Rightarrow> 'h \<Rightarrow> 'h" where
  "al_spi_disable bus h = al_reg_write16 bus SSIENR 0 h"

text \<open>\<open>n\<close> is the number of delays that are left, \<open>timeout - watchdog\<close>.\<close>

fun wait_on_sr :: "'h spi_bus \<Rightarrow> u16 \<Rightarrow> u16 \<Rightarrow> nat \<Rightarrow> 'h \<Rightarrow> 'h \<times> int" where
  "wait_on_sr bus msk val n h = (case al_reg_read16 bus SR h of (h1, v) \<Rightarrow>
     if v AND 0x10 \<noteq> 0 then (h1, - ETIME)
     else if val = v AND msk then (h1, 0)
     else (case n of 0 \<Rightarrow> (h1, - ETIME) | Suc m \<Rightarrow> wait_on_sr bus msk val m (al_udelay bus h1)))"

declare wait_on_sr.simps [simp del]

definition al_spi_wait_on_sr :: "'h spi_bus \<Rightarrow> u16 \<Rightarrow> u16 \<Rightarrow> u32 \<Rightarrow> 'h \<Rightarrow> 'h \<times> int" where
  "al_spi_wait_on_sr bus msk val timeout h = wait_on_sr bus msk val (unat timeout - 1) h"

definition al_spi_wait_for_rx_fifo_not_empty :: "'h spi_bus \<Rightarrow> u32 \<Rightarrow> 'h \<Rightarrow> 'h \<times> int" where
  "al_spi_wait_for_rx_fifo_not_empty bus timeout h = al_spi_wait_on_sr bus 8 8 timeout h"

definition al_spi_wait_for_tx_fifo_not_full :: "'h spi_bus \<Rightarrow> u32 \<Rightarrow> 'h \<Rightarrow> 'h \<times> int" where
  "al_spi_wait_for_tx_fifo_not_full bus timeout h = al_spi_wait_on_sr bus 2 2 timeout h"

definition al_spi_wait_for_tx_fifo_empty :: "'h spi_bus \<Rightarrow> u32 \<Rightarrow> 'h \<Rightarrow> 'h \<times> int" where
  "al_spi_wait_for_tx_fifo_empty bus timeout h = al_spi_wait_on_sr bus 4 4 timeout h"

definition al_spi_wait_for_sr_idle :: "'h spi_bus \<Rightarrow> u32 \<Rightarrow> 'h \<Rightarrow> 'h \<times> int" where
  "al_spi_wait_for_sr_idle bus timeout h = al_spi_wait_on_sr bus 1 0 timeout h"

definition al_spi_tmod_set_aux :: "'h spi_bus \<Rightarrow> u16 \<Rightarrow> 'h \<Rightarrow> 'h" where
  "al_spi_tmod_set_aux bus tmod h = (case al_reg_read16 bus CTRLR0 h of (h1, v) \<Rightarrow>
     al_reg_write16 bus CTRLR0 ((v AND NOT 0x300) OR (tmod AND 0x300)) h1)"

definition al_spi_tmod_set :: "'h spi_bus \<Rightarrow> spi_tmod \<Rightarrow> 'h \<Rightarrow> 'h" where
  "al_spi_tmod_set bus tmod h = al_spi_tmod_set_aux bus (tmod_val tmod) h"

subsection \<open>Set-up\<close>

text \<open>The divider; the register takes its low 16 bits.\<close>

definition clk_divider :: "u32 \<Rightarrow> u32 \<Rightarrow> u32" where
  "clk_divider input_clk spi_freq =
     (let d = (if input_clk mod spi_freq = 0 then input_clk div spi_freq else input_clk div spi_freq + 1)
      in if d AND 1 \<noteq> 0 then d + 1 else d)"

definition al_spi_set_baudr :: "'h spi_bus \<Rightarrow> al_spi_interface \<Rightarrow> u32 \<Rightarrow> 'h \<Rightarrow> 'h option" where
  "al_spi_set_baudr bus spi_if spi_freq h =
     (if spi_freq = 0 then None
      else Some (al_reg_write16 bus BAUDR (ucast (clk_divider (input_clk_freq spi_if) spi_freq)) h))"

definition al_spi_init :: "'h spi_bus \<Rightarrow> u32 \<Rightarrow> 'h \<Rightarrow> al_spi_interface \<times> 'h" where
  "al_spi_init bus input_clk h =
     (\<lparr>input_clk_freq = input_clk, curr_bus_owner = AL_SPI_CS_NONE\<rparr>,
      al_reg_write16 bus CTRLR0 (tmod_val EEPROM OR 0x7) (al_spi_disable bus h))"

text \<open>\<open>phase\<close> and \<open>polarity\<close> as the numbers of their enumerations.\<close>

definition set_mode :: "'h spi_bus \<Rightarrow> u16 \<Rightarrow> u16 \<Rightarrow> 'h \<Rightarrow> 'h" where
  "set_mode bus phase polarity h = (case al_reg_read16 bus CTRLR0 h of (h1, v) \<Rightarrow>
     al_reg_write16 bus CTRLR0 (((v AND NOT 0x80 OR push_bit 7 polarity) AND NOT 0x40) OR push_bit 6 phase) h1)"

definition al_spi_claim_bus ::
    "'h spi_bus \<Rightarrow> u32 \<Rightarrow> u16 \<Rightarrow> u16 \<Rightarrow> u32 \<Rightarrow> al_spi_interface \<times> 'h \<Rightarrow>
     ((al_spi_interface \<times> 'h) \<times> int) option" where
  "al_spi_claim_bus bus freq phase polarity cs c = (case c of (spi_if, h) \<Rightarrow>
     if curr_bus_owner spi_if \<noteq> AL_SPI_CS_NONE then Some (c, - EINVAL)
     else map_option (\<lambda>h1. ((spi_if\<lparr>curr_bus_owner := ucast (SPI_CS_INDEX_TO_VAL cs)\<rparr>, h1), 0))
            (al_spi_set_baudr bus spi_if freq (set_mode bus phase polarity (al_spi_disable bus h))))"

definition al_spi_release_bus :: "'h spi_bus \<Rightarrow> u32 \<Rightarrow> al_spi_interface \<times> 'h \<Rightarrow> al_spi_interface \<times> 'h" where
  "al_spi_release_bus bus cs_index c = (case c of (spi_if, h) \<Rightarrow>
     if ucast (curr_bus_owner spi_if) \<noteq> SPI_CS_INDEX_TO_VAL cs_index then c
     else (spi_if\<lparr>curr_bus_owner := AL_SPI_CS_NONE\<rparr>, al_spi_disable bus h))"

text \<open>A division by a divider of zero is \<^const>\<open>None\<close>.\<close>

definition al_spi_get_baudr :: "'h spi_bus \<Rightarrow> al_spi_interface \<Rightarrow> 'h \<Rightarrow> ('h \<times> u32) option" where
  "al_spi_get_baudr bus spi_if h = (case al_reg_read16 bus BAUDR h of (h1, v) \<Rightarrow>
     let d = (ucast v :: u32); d1 = (if d AND 1 \<noteq> 0 then d + 1 else d)
     in if d1 = 0 then None else Some (h1, input_clk_freq spi_if div d1))"

definition al_spi_slave_cfg :: "'h spi_bus \<Rightarrow> u16 \<Rightarrow> u16 \<Rightarrow> bool \<Rightarrow> 'h \<Rightarrow> 'h \<times> int" where
  "al_spi_slave_cfg bus phase polarity enable_back h = (case al_spi_is_enabled bus h of (h1, en) \<Rightarrow>
     let h2 = set_mode bus phase polarity (if en then al_spi_disable bus h1 else h1)
     in (if enable_back then al_spi_enable bus h2 else h2, 0))"

definition al_spi_cs_override_set :: "'h spi_bus \<Rightarrow> 'h \<Rightarrow> 'h" where
  "al_spi_cs_override_set bus h = al_reg_write16 bus SSI_OVR 0xF h"

definition al_spi_cs_override_clear :: "'h spi_bus \<Rightarrow> 'h \<Rightarrow> 'h" where
  "al_spi_cs_override_clear bus h = al_reg_write16 bus SSI_OVR 0 h"

definition al_spi_cs_set :: "'h spi_bus \<Rightarrow> u32 \<Rightarrow> 'h \<Rightarrow> 'h" where
  "al_spi_cs_set bus cs h = al_reg_write16 bus SER (ucast (SPI_CS_INDEX_TO_VAL cs)) h"

definition al_spi_master_glue_enable :: "'h spi_bus \<Rightarrow> u32 \<Rightarrow> 'h \<Rightarrow> 'h" where
  "al_spi_master_glue_enable bus cs h =
     al_reg_write16 bus SER (ucast (SPI_CS_INDEX_TO_VAL cs))
       (al_spi_tmod_set_aux bus (tmod_val EEPROM)
         (al_reg_write16 bus DMACR 3 (al_reg_write16 bus DMACR 0 (al_reg_write16 bus SSIENR 0 h))))"

subsection \<open>Interrupts\<close>

definition al_spi_raw_intr_get :: "'h spi_bus \<Rightarrow> 'h \<Rightarrow> 'h \<times> u16" where
  "al_spi_raw_intr_get bus h = al_reg_read16 bus RISR h"

definition al_spi_masked_intr_get :: "'h spi_bus \<Rightarrow> 'h \<Rightarrow> 'h \<times> u16" where
  "al_spi_masked_intr_get bus h = al_reg_read16 bus ISR h"

definition al_spi_intr_enable :: "'h spi_bus \<Rightarrow> u32 \<Rightarrow> 'h \<Rightarrow> 'h" where
  "al_spi_intr_enable bus enable_val h = (case al_reg_read16 bus IMR h of (h1, v) \<Rightarrow>
     al_reg_write16 bus IMR (ucast (ucast v OR enable_val)) h1)"

definition al_spi_intr_disable :: "'h spi_bus \<Rightarrow> u32 \<Rightarrow> 'h \<Rightarrow> 'h" where
  "al_spi_intr_disable bus disable_val h = (case al_reg_read16 bus IMR h of (h1, v) \<Rightarrow>
     al_reg_write16 bus IMR (ucast (ucast v AND NOT disable_val)) h1)"

text \<open>The failed assertions are \<^const>\<open>None\<close>.\<close>

definition al_spi_intr_clear :: "'h spi_bus \<Rightarrow> u32 \<Rightarrow> 'h \<Rightarrow> 'h option" where
  "al_spi_intr_clear bus clear_val h =
     (if clear_val AND 1 \<noteq> 0 \<or> clear_val AND 16 \<noteq> 0 then None
      else let rd = (\<lambda>m r h. if clear_val AND m \<noteq> 0 then fst (al_reg_read16 bus r h) else h)
           in Some (rd 32 MSTICR (rd 8 RXOICR (rd 4 RXUICR (rd 2 TXOICR h)))))"

subsection \<open>Transfers\<close>

text \<open>The bytes of the command: on an error of the wait the rest is not sent.\<close>

fun send_cmd :: "'h spi_bus \<Rightarrow> u32 \<Rightarrow> bytes \<Rightarrow> 'h \<Rightarrow> 'h \<times> int" where
  "send_cmd bus timeout [] h = (h, 0)"
| "send_cmd bus timeout (c # cmd) h =
     (case al_spi_wait_for_tx_fifo_not_full bus timeout h of (h1, ret) \<Rightarrow>
       if ret \<noteq> 0 then (h1, ret)
       else send_cmd bus timeout cmd (al_reg_write16 bus DR (ucast c) h1))"

text \<open>The common start of both transfers.\<close>

definition command_phase :: "'h spi_bus \<Rightarrow> spi_tmod \<Rightarrow> bytes \<Rightarrow> u32 \<Rightarrow> 'h \<Rightarrow> 'h \<times> int" where
  "command_phase bus tmod cmd timeout h =
     send_cmd bus timeout cmd (al_spi_enable bus (al_reg_write16 bus SER AL_SPI_CS_NONE
       (al_spi_tmod_set_aux bus (tmod_val tmod) (al_spi_disable bus h))))"

text \<open>Dummy bytes until the FIFO is full; returns how many are left.\<close>

fun prefill :: "'h spi_bus \<Rightarrow> nat \<Rightarrow> 'h \<Rightarrow> 'h \<times> nat" where
  "prefill bus 0 h = (h, 0)"
| "prefill bus (Suc dummy_tx) h = (case al_reg_read16 bus SR h of (h1, v) \<Rightarrow>
     if v AND 2 = 0 then (h1, Suc dummy_tx)
     else prefill bus dummy_tx (al_reg_write16 bus DR 0 h1))"

fun fill_dummy :: "'h spi_bus \<Rightarrow> nat \<Rightarrow> nat \<Rightarrow> nat \<Rightarrow> 'h \<Rightarrow> 'h \<times> nat" where
  "fill_dummy bus 0 tx_used rx_used h = (h, 0)"
| "fill_dummy bus (Suc dummy_tx) tx_used rx_used h =
     (if tx_used < TX_FIFO_DEPTH \<and> rx_used < RX_FIFO_DEPTH
      then fill_dummy bus dummy_tx (Suc tx_used) (Suc rx_used) (al_reg_write16 bus DR 0xFF h)
      else (h, Suc dummy_tx))"

text \<open>
  Takes \<open>rx_avail\<close> bytes: the first \<open>cmd_len\<close> are answers to the command and are dropped, the
  others are stored while \<open>bytelen\<close> of them are expected.
\<close>

fun drain_rx :: "'h spi_bus \<Rightarrow> nat \<Rightarrow> nat \<Rightarrow> nat \<Rightarrow> 'h \<Rightarrow> ('h \<times> nat \<times> bytes) option" where
  "drain_rx bus 0 cmd_len bytelen h = Some (h, cmd_len, [])"
| "drain_rx bus (Suc rx_avail) cmd_len bytelen h =
     (if bytelen = 0 then None
      else (case al_reg_read16 bus DR h of (h1, v) \<Rightarrow>
        if cmd_len = 0
        then map_option (\<lambda>(h2, n, ds). (h2, n, ucast v # ds)) (drain_rx bus rx_avail 0 (bytelen - 1) h1)
        else drain_rx bus rx_avail (cmd_len - 1) bytelen h1))"

lemma drain_rx_count:
  "drain_rx bus n cmd_len bytelen h = Some (h', cmd_len', ds) \<Longrightarrow>
   cmd_len' = cmd_len - n \<and> length ds = n - cmd_len \<and> length ds \<le> bytelen"
proof (induction n arbitrary: cmd_len bytelen h h' cmd_len' ds)
  case (Suc n)
  obtain h1 v where r: "al_reg_read16 bus DR h = (h1, v)" by fastforce
  have b: "bytelen \<noteq> 0" using Suc.prems by (simp split: if_splits)
  show ?case
  proof (cases "cmd_len = 0")
    case True
    obtain ds' where d: "drain_rx bus n 0 (bytelen - 1) h1 = Some (h', cmd_len', ds')" "ds = ucast v # ds'"
      using Suc.prems b r True by auto
    show ?thesis using Suc.IH [OF d(1)] d(2) b True by auto
  next
    case False
    then have "drain_rx bus n (cmd_len - 1) bytelen h1 = Some (h', cmd_len', ds)"
      using Suc.prems b r by simp
    then show ?thesis using Suc.IH [of "cmd_len - 1" bytelen h1 h' cmd_len' ds] False by simp
  qed
qed simp

lemma drain_rx_total:
  "n \<le> cmd_len + bytelen \<Longrightarrow> (bytelen = 0 \<longrightarrow> n = 0) \<Longrightarrow> \<exists>r. drain_rx bus n cmd_len bytelen h = Some r"
proof (induction bus n cmd_len bytelen h rule: drain_rx.induct)
  case (2 bus rx_avail cmd_len bytelen h)
  obtain h1 v where r: "al_reg_read16 bus DR h = (h1, v)" by fastforce
  show ?case
  proof (cases "cmd_len = 0")
    case True
    then have "\<exists>r. drain_rx bus rx_avail 0 (bytelen - 1) h1 = Some r" using 2 r by (intro "2.IH"(1)) auto
    then show ?thesis using True 2 r by auto
  next
    case False
    then show ?thesis using 2 r by simp
  qed
qed simp

lemma drain_rx_progress:
  assumes "drain_rx bus (unat rx) cmd_len bytelen h = Some (h', cmd_len', ds)" and "0 < bytelen"
  shows "cmd_len' + (bytelen - length ds) < cmd_len + bytelen \<or>
    rx = 0 \<and> cmd_len' + (bytelen - length ds) = cmd_len + bytelen"
proof (cases "rx = 0")
  case True
  then show ?thesis using assms(1) by simp
next
  case False
  then have "0 < unat rx" by (simp add: unat_gt_0)
  then show ?thesis using drain_rx_count [OF assms(1)] assms(2) by linarith
qed

text \<open>
  The loop of \<open>al_spi_read\<close>. The watchdog counts rounds without a byte and reaches its limit in
  steps of one, so that the comparison may as well be an inequality.
\<close>

function spi_read_loop ::
    "'h spi_bus \<Rightarrow> nat \<Rightarrow> nat \<Rightarrow> nat \<Rightarrow> nat \<Rightarrow> 'h \<Rightarrow> ('h \<times> int \<times> bytes) option" where
  "spi_read_loop bus cmd_len bytelen dummy_tx watchdog h =
     (if bytelen = 0 then Some (h, 0, [])
      else (case al_reg_read16 bus TXFLR h of (h1, tx) \<Rightarrow>
        (case al_reg_read16 bus RXFLR h1 of (h2, rx) \<Rightarrow>
          let watchdog' = (if rx \<noteq> 0 then 0 else Suc watchdog);
              h3 = (if rx = 0 \<and> watchdog' mod RX_TX_FLR_TIMEOUT_DELAY_FACTOR = 0 then al_udelay bus h2 else h2)
          in if watchdog' \<ge> RX_TX_FLR_TIMEOUT_US * RX_TX_FLR_TIMEOUT_DELAY_FACTOR
             then Some (h3, - ETIME, [])
             else (case fill_dummy bus dummy_tx (unat tx) (unat rx) h3 of (h4, dummy_tx') \<Rightarrow> do {
               (h5, cmd_len', ds) \<leftarrow> drain_rx bus (unat rx) cmd_len bytelen h4;
               (h6, ret, ds') \<leftarrow>
                 spi_read_loop bus cmd_len' (bytelen - length ds) dummy_tx' watchdog' h5;
               Some (h6, ret, ds @ ds')
             }))))"
  by pat_completeness auto
termination
proof (relation "measures [\<lambda>(bus, cmd_len, bytelen, dummy_tx, watchdog, h). cmd_len + bytelen,
    \<lambda>(bus, cmd_len, bytelen, dummy_tx, watchdog, h). 100000 - watchdog]", simp, goal_cases)
  case (1 bus cmd_len bytelen dummy_tx watchdog h)
  then show ?case by (auto simp: spi_consts dest!: drain_rx_progress)
qed

declare spi_read_loop.simps [simp del]

definition al_spi_read ::
    "'h spi_bus \<Rightarrow> bytes \<Rightarrow> u32 \<Rightarrow> u32 \<Rightarrow> u32 \<Rightarrow> 'h \<Rightarrow> ('h \<times> int \<times> bytes) option" where
  "al_spi_read bus cmd bytelen cs timeout h =
     (if unat bytelen \<ge> 2 ^ 31 \<or> length cmd \<ge> 256 then None
      else (case command_phase bus TRANS_RECV cmd timeout h of (h1, ret) \<Rightarrow>
        if ret \<noteq> 0 then Some (al_spi_disable bus h1, ret, [])
        else (case prefill bus (unat bytelen) h1 of (h2, dummy_tx) \<Rightarrow> do {
          (h3, ret, ds) \<leftarrow> spi_read_loop bus (length cmd) (unat bytelen) dummy_tx 0
            (al_reg_write16 bus SER (ucast (SPI_CS_INDEX_TO_VAL cs)) h2);
          let (h4, ret4) = (if ret = 0 then al_spi_wait_for_sr_idle bus timeout h3 else (h3, ret));
          Some (al_spi_disable bus (al_reg_write16 bus SER AL_SPI_CS_NONE h4), ret4, ds)
        })))"

fun fill_data :: "'h spi_bus \<Rightarrow> bytes \<Rightarrow> nat \<Rightarrow> 'h \<Rightarrow> 'h \<times> bytes" where
  "fill_data bus [] tx_used h = (h, [])"
| "fill_data bus (d # dout) tx_used h =
     (if tx_used < TX_FIFO_DEPTH
      then fill_data bus dout (Suc tx_used) (al_reg_write16 bus DR (ucast d) h)
      else (h, d # dout))"

lemma fill_data_shorter: "fill_data bus dout tx_used h = (h', dout') \<Longrightarrow> length dout' \<le> length dout"
  by (induction bus dout tx_used h rule: fill_data.induct) (auto split: if_splits)

text \<open>The loop of \<open>al_spi_write\<close>; the flag is \<open>ser_set\<close>.\<close>

function spi_write_loop ::
    "'h spi_bus \<Rightarrow> u16 \<Rightarrow> bytes \<Rightarrow> bool \<Rightarrow> nat \<Rightarrow> 'h \<Rightarrow> 'h \<times> int \<times> bool" where
  "spi_write_loop bus ser [] ser_set watchdog h = (h, 0, ser_set)"
| "spi_write_loop bus ser (d # dout) ser_set watchdog h =
     (case al_reg_read16 bus TXFLR h of (h1, tx) \<Rightarrow>
       let watchdog' = (if unat tx < TX_FIFO_DEPTH then 0 else Suc watchdog);
           h2 = (if \<not> unat tx < TX_FIFO_DEPTH \<and> watchdog' mod RX_TX_FLR_TIMEOUT_DELAY_FACTOR = 0
                 then al_udelay bus h1 else h1)
       in if watchdog' \<ge> RX_TX_FLR_TIMEOUT_US * RX_TX_FLR_TIMEOUT_DELAY_FACTOR
          then (h2, - ETIME, ser_set)
          else (case fill_data bus (d # dout) (unat tx) h2 of (h3, dout') \<Rightarrow>
            spi_write_loop bus ser dout' True watchdog'
              (if ser_set then h3 else al_reg_write16 bus SER ser h3)))"
  by pat_completeness auto
termination
proof (relation "measures [\<lambda>(bus, ser, dout, ser_set, watchdog, h). length dout,
      \<lambda>(bus, ser, dout, ser_set, watchdog, h). 100000 - watchdog]", simp, goal_cases)
  case (1 bus ser d dout ser_set watchdog h p h1 tx)
  then show ?case by (auto simp: spi_consts less_Suc_eq_le dest!: fill_data_shorter [OF sym])
qed

definition al_spi_write ::
    "'h spi_bus \<Rightarrow> bytes \<Rightarrow> bytes \<Rightarrow> u32 \<Rightarrow> u32 \<Rightarrow> 'h \<Rightarrow> 'h \<times> int" where
  "al_spi_write bus cmd dout cs timeout h =
     (case command_phase bus TRANS cmd timeout h of (h1, ret) \<Rightarrow>
       if ret \<noteq> 0 then (al_spi_disable bus h1, ret)
       else (case spi_write_loop bus (ucast (SPI_CS_INDEX_TO_VAL cs)) dout False 0 h1 of (h2, ret, ser_set) \<Rightarrow>
         let h3 = (if ser_set then h2 else al_reg_write16 bus SER (ucast (SPI_CS_INDEX_TO_VAL cs)) h2)
         in if ret \<noteq> 0 then (al_spi_disable bus (al_reg_write16 bus SER AL_SPI_CS_NONE h3), ret)
            else (case al_spi_wait_for_tx_fifo_empty bus timeout h3 of (h4, ret4) \<Rightarrow>
              if ret4 \<noteq> 0 then (h4, ret4)
              else (case al_spi_wait_for_sr_idle bus timeout h4 of (h5, ret5) \<Rightarrow>
                if ret5 \<noteq> 0 then (h5, ret5)
                else (al_spi_disable bus (al_reg_write16 bus SER AL_SPI_CS_NONE h5), 0)))))"

end
