(* ===== verification/SpiController.thy ===== *)
theory SpiController
  imports SpiHal
begin

text \<open>
  What the drivers rely on of a transfer, the locale \<open>spi_device\<close>, and the proof that the HAL keeps
  it on a model of the controller.

  A slave answers each byte it is sent with a byte, which depends on its state and on the bytes it was
  sent since it was selected; when it is deselected it carries out what it was sent. The controller
  model has the two FIFOs of 32 bytes and shifts any number of bytes at each read of a status
  register, as the schedule \<open>pace\<close> says, as long as the transmit FIFO has some. As
  \<open>al_hal_spi_regs.h\<close> says of \<open>ssi_ovr\<close>, the chip select is released when the transmit FIFO
  runs empty, so that the transaction ends there and later bytes start a new one, unless the override
  is set, which leaves the chip select to the select register. A byte that arrives while the receive
  FIFO is full is lost.

  The HAL has to keep the transmit FIFO from running empty during a transfer, and it polls the FIFO
  levels to do so: this works as long as no more than 8 bytes are shifted between two polls
  (\<open>keeps_up\<close>). The contract is proved for these schedules.
\<close>

record 'f spi_slave =
  sl_out :: "'f \<Rightarrow> bytes \<Rightarrow> u8"
  sl_end :: "'f \<Rightarrow> bytes \<Rightarrow> 'f"

text \<open>
  The contract: a transfer returns; if it reports success, the slave was sent the command and the
  data (for a read, as many bytes of any value as were read); otherwise it was sent some bytes.
\<close>

locale spi_device =
  fixes sl :: "'f spi_slave"
    and rd :: "'s \<Rightarrow> bytes \<Rightarrow> u32 \<Rightarrow> ('s \<times> int \<times> bytes) option"
    and wr :: "'s \<Rightarrow> bytes \<Rightarrow> bytes \<Rightarrow> 's \<times> int"
    and holds :: "'s \<Rightarrow> 'f \<Rightarrow> bool"
  assumes read_transfer: "holds s f \<Longrightarrow> cmd \<noteq> [] \<Longrightarrow> length cmd \<le> 8 \<Longrightarrow> 0 < unat n \<Longrightarrow> unat n < 2 ^ 16 \<Longrightarrow>
      \<exists>s' err d ds. rd s cmd n = Some (s', err, d) \<and>
        (if err = 0 then length ds = unat n \<and> d = map (\<lambda>i. sl_out sl f (cmd @ take i ds)) [0..<unat n] \<and>
           holds s' (sl_end sl f (cmd @ ds))
         else \<exists>xs. holds s' (if xs = [] then f else sl_end sl f xs))"
    and write_transfer: "holds s f \<Longrightarrow> cmd \<noteq> [] \<Longrightarrow> length cmd \<le> 8 \<Longrightarrow> wr s cmd data = (s', err) \<Longrightarrow>
      if err = 0 then holds s' (sl_end sl f (cmd @ data))
      else \<exists>xs. holds s' (if xs = [] then f else sl_end sl f xs)"

text \<open>A device on which no transfer fails.\<close>

locale live_spi_device = spi_device +
  assumes read_succeeds: "holds s f \<Longrightarrow> cmd \<noteq> [] \<Longrightarrow> length cmd \<le> 8 \<Longrightarrow> 0 < unat n \<Longrightarrow> unat n < 2 ^ 16 \<Longrightarrow>
      rd s cmd n = Some (s', err, d) \<Longrightarrow> err = 0"
    and write_succeeds: "holds s f \<Longrightarrow> cmd \<noteq> [] \<Longrightarrow> length cmd \<le> 8 \<Longrightarrow> wr s cmd data = (s', err) \<Longrightarrow> err = 0"

subsection \<open>The controller\<close>

record 'f spi_ctl =
  sc_en :: bool
  sc_ser :: u16
  sc_ovr :: u16
  sc_ctrl :: u16
  sc_baud :: u16
  sc_tx :: bytes
  sc_rx :: bytes
  sc_in :: bytes
  sc_dev :: 'f
  sc_time :: nat

text \<open>In the mode \<open>TRANS\<close> what the slave answers is not kept.\<close>

definition keeps_rx :: "'f spi_ctl \<Rightarrow> bool" where
  "keeps_rx c = (sc_ctrl c AND 0x300 \<noteq> 0x100)"

text \<open>The override of the chip select is set for a slave that is selected.\<close>

definition cs_held :: "'f spi_ctl \<Rightarrow> bool" where
  "cs_held c = ((sc_ovr c AND 0xF) AND sc_ser c \<noteq> 0)"

text \<open>The end of a transaction, if there was one.\<close>

definition deselect :: "'f spi_slave \<Rightarrow> 'f spi_ctl \<Rightarrow> 'f spi_ctl" where
  "deselect sl c = c\<lparr>sc_in := [],
     sc_dev := (if sc_in c = [] then sc_dev c else sl_end sl (sc_dev c) (sc_in c))\<rparr>"

text \<open>With nothing left to send the core releases the chip select.\<close>

definition release_cs :: "'f spi_slave \<Rightarrow> 'f spi_ctl \<Rightarrow> 'f spi_ctl" where
  "release_cs sl c = (if sc_tx c = [] \<and> \<not> cs_held c then deselect sl c else c)"

definition shift_byte :: "'f spi_slave \<Rightarrow> 'f spi_ctl \<Rightarrow> 'f spi_ctl" where
  "shift_byte sl c = (case sc_tx c of
     [] \<Rightarrow> c
   | b # tx \<Rightarrow>
       if sc_en c \<and> sc_ser c \<noteq> 0
       then release_cs sl (c\<lparr>sc_tx := tx, sc_in := sc_in c @ [b],
         sc_rx := (if keeps_rx c \<and> length (sc_rx c) < 32
           then sc_rx c @ [sl_out sl (sc_dev c) (sc_in c)] else sc_rx c)\<rparr>)
       else c)"

definition tick :: "'f spi_slave \<Rightarrow> (nat \<Rightarrow> nat) \<Rightarrow> 'f spi_ctl \<Rightarrow> 'f spi_ctl" where
  "tick sl pace c = (shift_byte sl ^^ pace (sc_time c)) (c\<lparr>sc_time := Suc (sc_time c)\<rparr>)"

definition status_reg :: "'f spi_ctl \<Rightarrow> u16" where
  "status_reg c = (if sc_tx c = [] then 0 else 1) OR (if length (sc_tx c) < 32 then 2 else 0) OR
     (if sc_tx c = [] then 4 else 0) OR (if sc_rx c = [] then 0 else 8) OR
     (if length (sc_rx c) < 32 then 0 else 16)"

definition ctl_read :: "'f spi_slave \<Rightarrow> (nat \<Rightarrow> nat) \<Rightarrow> spi_reg \<Rightarrow> 'f spi_ctl \<Rightarrow> 'f spi_ctl \<times> u16" where
  "ctl_read sl pace r c = (case r of
     SR \<Rightarrow> (let c1 = tick sl pace c in (c1, status_reg c1))
   | TXFLR \<Rightarrow> (let c1 = tick sl pace c in (c1, of_nat (length (sc_tx c1))))
   | RXFLR \<Rightarrow> (let c1 = tick sl pace c in (c1, of_nat (length (sc_rx c1))))
   | DR \<Rightarrow> (case sc_rx c of [] \<Rightarrow> (c, 0) | b # rx \<Rightarrow> (c\<lparr>sc_rx := rx\<rparr>, ucast b))
   | CTRLR0 \<Rightarrow> (c, sc_ctrl c)
   | BAUDR \<Rightarrow> (c, sc_baud c)
   | SER \<Rightarrow> (c, sc_ser c)
   | SSI_OVR \<Rightarrow> (c, sc_ovr c)
   | SSIENR \<Rightarrow> (c, if sc_en c then 1 else 0)
   | _ \<Rightarrow> (c, 0))"

definition ctl_write :: "'f spi_slave \<Rightarrow> spi_reg \<Rightarrow> u16 \<Rightarrow> 'f spi_ctl \<Rightarrow> 'f spi_ctl" where
  "ctl_write sl r v c = (case r of
     SSIENR \<Rightarrow> if v AND 1 = 0 then (deselect sl c)\<lparr>sc_en := False, sc_tx := [], sc_rx := []\<rparr>
       else c\<lparr>sc_en := True\<rparr>
   | SER \<Rightarrow> (if v \<noteq> sc_ser c then deselect sl c else c)\<lparr>sc_ser := v\<rparr>
   | SSI_OVR \<Rightarrow> release_cs sl (c\<lparr>sc_ovr := v\<rparr>)
   | DR \<Rightarrow> if sc_en c \<and> length (sc_tx c) < 32 then c\<lparr>sc_tx := sc_tx c @ [ucast v]\<rparr> else c
   | CTRLR0 \<Rightarrow> c\<lparr>sc_ctrl := v\<rparr>
   | BAUDR \<Rightarrow> c\<lparr>sc_baud := v\<rparr>
   | _ \<Rightarrow> c)"

definition ctl_bus :: "'f spi_slave \<Rightarrow> (nat \<Rightarrow> nat) \<Rightarrow> 'f spi_ctl spi_bus" where
  "ctl_bus sl pace = \<lparr>al_reg_read16 = ctl_read sl pace, al_reg_write16 = ctl_write sl, al_udelay = id\<rparr>"

lemma ctl_bus_simps [simp]:
  "al_reg_read16 (ctl_bus sl pace) = ctl_read sl pace" "al_reg_write16 (ctl_bus sl pace) = ctl_write sl"
  "al_udelay (ctl_bus sl pace) = id"
  by (simp_all add: ctl_bus_def)

text \<open>Schedules: no poll finds more than 8 bytes gone; every poll finds some gone.\<close>

definition keeps_up :: "(nat \<Rightarrow> nat) \<Rightarrow> bool" where
  "keeps_up pace = (\<forall>t. pace t \<le> 8)"

definition never_stalls :: "(nat \<Rightarrow> nat) \<Rightarrow> bool" where
  "never_stalls pace = (\<forall>t. 0 < pace t)"

text \<open>Any schedule with the excess cut off.\<close>

definition capped :: "(nat \<Rightarrow> nat) \<Rightarrow> nat \<Rightarrow> nat" where
  "capped pace t = min 8 (pace t)"

lemma keeps_up_capped: "keeps_up (capped pace)"
  by (simp add: keeps_up_def capped_def)

lemma capped_id: "keeps_up pace \<Longrightarrow> capped pace = pace"
  by (simp add: keeps_up_def capped_def fun_eq_iff min_absorb2)

text \<open>The slave's state, with a transaction that is still open taken as ended.\<close>

definition ctl_holds :: "'f spi_slave \<Rightarrow> 'f spi_ctl \<Rightarrow> 'f \<Rightarrow> bool" where
  "ctl_holds sl c f = (sc_dev (deselect sl c) = f)"

subsection \<open>A transfer in progress\<close>

text \<open>
  \<open>Q\<close> was put into the transmit FIFO, its first \<open>j\<close> bytes are sent, and the answers from the \<open>a\<close>-th
  on wait in the receive FIFO (when they are kept). When all of it is sent the transaction is over,
  unless the chip select is held.
\<close>

definition in_transit :: "'f spi_slave \<Rightarrow> bool \<Rightarrow> 'f \<Rightarrow> bytes \<Rightarrow> nat \<Rightarrow> bytes \<times> 'f" where
  "in_transit sl held f Q j = (if 0 < j \<and> j = length Q \<and> \<not> held then ([], sl_end sl f Q) else (take j Q, f))"

lemma in_transit_open [simp]: "j < length Q \<or> j = 0 \<Longrightarrow> in_transit sl held f Q j = (take j Q, f)"
  by (auto simp: in_transit_def)

definition xfer :: "'f spi_slave \<Rightarrow> 'f spi_ctl \<Rightarrow> bool \<Rightarrow> 'f \<Rightarrow> bytes \<Rightarrow> nat \<Rightarrow> nat \<Rightarrow> bool" where
  "xfer sl c kp f Q a j = (sc_en c \<and> keeps_rx c = kp \<and> (kp \<longrightarrow> a \<le> j \<and> j \<le> a + 32) \<and> j \<le> length Q \<and>
     length Q \<le> j + 32 \<and> (sc_in c, sc_dev c) = in_transit sl (cs_held c) f Q j \<and> sc_tx c = drop j Q \<and>
     sc_rx c = (if kp then map (\<lambda>i. sl_out sl f (take i Q)) [a..<j] else []))"

lemma xfer_byte:
  assumes "xfer sl c kp f Q a j" and "sc_ser c \<noteq> 0" and "kp \<longrightarrow> length Q \<le> a + 32" and "j < length Q"
  shows "xfer sl (shift_byte sl c) kp f Q a (Suc j)" and "sc_ser (shift_byte sl c) = sc_ser c"
proof -
  have d: "drop j Q = Q ! j # drop (Suc j) Q" using assms(4) by (simp add: Cons_nth_drop_Suc)
  have t: "take (Suc j) Q = take j Q @ [Q ! j]" using assms(4) by (simp add: take_Suc_conv_app_nth)
  define c1 where "c1 = c\<lparr>sc_tx := drop (Suc j) Q, sc_in := take (Suc j) Q,
    sc_rx := (if kp then sc_rx c @ [sl_out sl f (take j Q)] else sc_rx c)\<rparr>"
  have "length (sc_rx c) < 32 \<or> \<not> kp" using assms(1,3,4) by (auto simp: xfer_def)
  then have s: "shift_byte sl c = release_cs sl c1"
    using assms d t by (auto simp: shift_byte_def xfer_def c1_def)
  have "kp \<Longrightarrow> sc_rx c1 = map (\<lambda>i. sl_out sl f (take i Q)) [a..<Suc j]" "cs_held c1 = cs_held c" "sc_dev c1 = f"
    using assms(1,4) by (auto simp: c1_def xfer_def cs_held_def)
  then show "xfer sl (shift_byte sl c) kp f Q a (Suc j)"
    using assms t unfolding s
    by (auto simp: xfer_def release_cs_def deselect_def c1_def keeps_rx_def in_transit_def cs_held_def)
  show "sc_ser (shift_byte sl c) = sc_ser c"
    unfolding s by (simp add: release_cs_def deselect_def c1_def)
qed

lemma xfer_shift:
  assumes "xfer sl c kp f Q a j" and "sc_ser c \<noteq> 0" and "kp \<longrightarrow> length Q \<le> a + 32"
  shows "xfer sl ((shift_byte sl ^^ n) c) kp f Q a (min (length Q) (j + n)) \<and>
    sc_ser ((shift_byte sl ^^ n) c) = sc_ser c"
proof (induction n)
  case 0
  have "min (length Q) (j + 0) = j" using assms(1) by (simp add: xfer_def)
  then show ?case using assms(1) by simp
next
  case (Suc n)
  let ?c = "(shift_byte sl ^^ n) c"
  show ?case
  proof (cases "j + n < length Q")
    case True
    then have "min (length Q) (j + n) = j + n" "min (length Q) (j + Suc n) = Suc (j + n)" by simp_all
    then show ?thesis using xfer_byte [of sl ?c kp f Q a "j + n"] True Suc assms(2,3) by simp
  next
    case False
    then have "sc_tx ?c = []" using Suc by (simp add: xfer_def)
    then have "shift_byte sl ?c = ?c" by (simp add: shift_byte_def)
    then show ?thesis using Suc False by simp
  qed
qed

lemma xfer_time: "xfer sl (c\<lparr>sc_time := t\<rparr>) kp f Q a j = xfer sl c kp f Q a j"
  by (simp add: xfer_def keeps_rx_def cs_held_def)

text \<open>With no slave selected nothing is shifted.\<close>

lemma not_selected:
  assumes "sc_ser c = 0"
  shows "tick sl pace c = c\<lparr>sc_time := Suc (sc_time c)\<rparr>"
proof -
  have "(shift_byte sl ^^ n) c = c" if "sc_ser c = 0" for n and c :: "'a spi_ctl"
  proof (induction n)
    case (Suc n)
    then show ?case using that by (simp add: shift_byte_def split: list.split)
  qed simp
  then show ?thesis using assms by (simp add: tick_def)
qed

text \<open>Reads of the three status registers.\<close>

lemma xfer_tick:
  assumes "xfer sl c kp f Q a j" and "kp \<longrightarrow> length Q \<le> a + 32"
  obtains j' where "j' = (if sc_ser c = 0 then j else min (length Q) (j + pace (sc_time c)))"
    and "xfer sl (tick sl pace c) kp f Q a j'" and "sc_ser (tick sl pace c) = sc_ser c"
proof (cases "sc_ser c = 0")
  case True
  then show ?thesis using that assms(1) by (simp add: not_selected xfer_time)
next
  case False
  then have "xfer sl (c\<lparr>sc_time := Suc (sc_time c)\<rparr>) kp f Q a j" "sc_ser (c\<lparr>sc_time := Suc (sc_time c)\<rparr>) \<noteq> 0"
    using assms(1) by (simp_all add: xfer_time)
  from xfer_shift [OF this assms(2), of "pace (sc_time c)"] show ?thesis
    using that False by (simp add: tick_def)
qed

lemma xfer_lengths:
  "xfer sl c kp f Q a j \<Longrightarrow> length (sc_tx c) = length Q - j \<and> length (sc_rx c) = (if kp then j - a else 0) \<and>
   length Q - j \<le> 32 \<and> (kp \<longrightarrow> j - a \<le> 32 \<and> a \<le> j) \<and> j \<le> length Q"
  by (auto simp: xfer_def)

text \<open>A byte is added while the transaction is open: nothing was sent yet, or not all of it.\<close>

lemma xfer_push:
  assumes "xfer sl c kp f Q a j" and "length Q < j + 32" and "j < length Q \<or> j = 0"
  shows "xfer sl (ctl_write sl DR v c) kp f (Q @ [ucast v]) a j"
    and "sc_ser (ctl_write sl DR v c) = sc_ser c"
proof -
  have "map (\<lambda>i. sl_out sl f (take i (Q @ [ucast v]))) [a..<j] = map (\<lambda>i. sl_out sl f (take i Q)) [a..<j]"
    using assms(1) by (simp add: xfer_def)
  then show "xfer sl (ctl_write sl DR v c) kp f (Q @ [ucast v]) a j"
    "sc_ser (ctl_write sl DR v c) = sc_ser c"
    using assms by (auto simp: xfer_def ctl_write_def keeps_rx_def cs_held_def)
qed

lemma xfer_pop:
  assumes "xfer sl c True f Q a j" and "a < j"
  shows "\<exists>c'. ctl_read sl pace DR c = (c', ucast (sl_out sl f (take a Q))) \<and> xfer sl c' True f Q (Suc a) j \<and>
    sc_ser c' = sc_ser c"
proof -
  have "sc_rx c = sl_out sl f (take a Q) # map (\<lambda>i. sl_out sl f (take i Q)) [Suc a..<j]"
    using assms by (simp add: xfer_def upt_conv_Cons)
  moreover have "xfer sl (c\<lparr>sc_rx := map (\<lambda>i. sl_out sl f (take i Q)) [Suc a..<j]\<rparr>) True f Q (Suc a) j"
    using assms by (auto simp: xfer_def keeps_rx_def cs_held_def)
  ultimately show ?thesis by (simp add: ctl_read_def)
qed

subsection \<open>The phases of a transfer\<close>

text \<open>Waiting, until a condition on the status holds.\<close>

lemma wait_on_sr_ctl:
  "wait_on_sr (ctl_bus sl pace) msk val n c = (let t = tick sl pace c in
     if status_reg t AND 16 \<noteq> 0 then (t, - ETIME)
     else if val = status_reg t AND msk then (t, 0)
     else (case n of 0 \<Rightarrow> (t, - ETIME) | Suc m \<Rightarrow> wait_on_sr (ctl_bus sl pace) msk val m t))"
  by (subst wait_on_sr.simps) (simp add: ctl_read_def Let_def split: nat.split)

lemma wait_on_sr_run:
  assumes "xfer sl c False f Q a j"
  shows "\<exists>c' ret j'. wait_on_sr (ctl_bus sl pace) msk val n c = (c', ret) \<and>
    xfer sl c' False f Q a j' \<and> (ret = 0 \<longrightarrow> val = status_reg c' AND msk)"
  using assms
proof (induction n arbitrary: c j)
  case (0 c j)
  obtain j' where "xfer sl (tick sl pace c) False f Q a j'" using xfer_tick [OF 0] by blast
  then show ?case by (subst wait_on_sr_ctl) (auto simp: ETIME_def Let_def)
next
  case (Suc n c j)
  obtain j1 where j1: "xfer sl (tick sl pace c) False f Q a j1" using xfer_tick [OF Suc.prems] by blast
  let ?s = "status_reg (tick sl pace c)"
  show ?case
  proof (cases "?s AND 16 = 0 \<and> val \<noteq> ?s AND msk")
    case True
    then have "wait_on_sr (ctl_bus sl pace) msk val (Suc n) c = wait_on_sr (ctl_bus sl pace) msk val n (tick sl pace c)"
      by (subst wait_on_sr_ctl) simp
    then show ?thesis using Suc.IH [OF j1] by simp
  next
    case False
    then show ?thesis using j1 by (subst wait_on_sr_ctl) (auto simp: ETIME_def Let_def)
  qed
qed

lemma status_tx_empty: "status_reg c AND 4 = 4 \<longleftrightarrow> sc_tx c = []"
  by (auto simp: status_reg_def)

lemma status_not_full: "status_reg c AND 2 = 2 \<longleftrightarrow> length (sc_tx c) < 32"
  by (auto simp: status_reg_def)

lemma byte_through_16 [simp]: "(ucast (ucast b :: u16) :: u8) = b"
  by (simp add: ucast_down_ucast_id is_down)

text \<open>The command: the FIFO has space for it.\<close>

lemma send_cmd_run:
  assumes "xfer sl c kp f Q 0 0" and "sc_ser c = 0" and "length Q + length cmd < 32"
  shows "\<exists>c'. send_cmd (ctl_bus sl pace) timeout cmd c = (c', 0) \<and> xfer sl c' kp f (Q @ cmd) 0 0 \<and> sc_ser c' = 0"
  using assms
proof (induction cmd arbitrary: c Q)
  case (Cons b cmd)
  let ?c1 = "c\<lparr>sc_time := Suc (sc_time c)\<rparr>"
  have x: "xfer sl ?c1 kp f Q 0 0" using Cons.prems(1) by (simp add: xfer_time)
  then have "length (sc_tx ?c1) < 32" "sc_rx ?c1 = []" using Cons.prems(3) by (auto simp: xfer_def)
  then have "status_reg ?c1 AND 16 = 0" "status_reg ?c1 AND 2 = 2" by (auto simp: status_reg_def)
  then have "al_spi_wait_for_tx_fifo_not_full (ctl_bus sl pace) timeout c = (?c1, 0)"
    unfolding al_spi_wait_for_tx_fifo_not_full_def al_spi_wait_on_sr_def
    by (subst wait_on_sr_ctl) (simp add: not_selected [OF Cons.prems(2)])
  moreover have "xfer sl (ctl_write sl DR (ucast b) ?c1) kp f (Q @ [b]) 0 0"
    "sc_ser (ctl_write sl DR (ucast b) ?c1) = 0"
    using xfer_push [OF x, of "ucast b"] Cons.prems by simp_all
  moreover have "length (Q @ [b]) + length cmd < 32" using Cons.prems(3) by simp
  ultimately show ?case using Cons.IH [of "ctl_write sl DR (ucast b) ?c1" "Q @ [b]"] by simp
qed simp

text \<open>The start of a transfer, from any state of the controller.\<close>

lemma command_phase_run:
  assumes "ctl_holds sl c f" and "length cmd < 32" and "tmod = TRANS_RECV \<or> tmod = TRANS"
  shows "\<exists>c'. command_phase (ctl_bus sl pace) tmod cmd timeout c = (c', 0) \<and>
    xfer sl c' (tmod = TRANS_RECV) f cmd 0 0 \<and> sc_ser c' = 0"
proof -
  define c0 where "c0 = al_spi_enable (ctl_bus sl pace) (al_reg_write16 (ctl_bus sl pace) SER AL_SPI_CS_NONE
    (al_spi_tmod_set_aux (ctl_bus sl pace) (tmod_val tmod) (al_spi_disable (ctl_bus sl pace) c)))"
  have m: "((v AND NOT 0x300) OR (tmod_val tmod AND 0x300)) AND 0x300 = tmod_val tmod AND 0x300" for v :: u16
    by (simp add: bit_eq_iff bit_simps) auto
  have "xfer sl c0 (tmod = TRANS_RECV) f [] 0 0" "sc_ser c0 = 0"
    using assms(1,3) m
    by (auto simp: c0_def al_spi_enable_def al_spi_disable_def al_spi_tmod_set_aux_def ctl_read_def
        ctl_write_def AL_SPI_CS_NONE_def xfer_def keeps_rx_def deselect_def ctl_holds_def tmod_val_def split: if_splits)
  from send_cmd_run [OF this] show ?thesis using assms(2)
    by (simp add: command_phase_def c0_def)
qed

text \<open>The FIFO is filled, or holds all there is to send, before the slave is selected.\<close>

lemma prefill_run:
  assumes "xfer sl c True f Q 0 0" and "sc_ser c = 0"
  shows "\<exists>c' n' ds. prefill (ctl_bus sl pace) n c = (c', n') \<and> n' + length ds = n \<and>
    xfer sl c' True f (Q @ ds) 0 0 \<and> sc_ser c' = 0 \<and> (n' = 0 \<or> length (Q @ ds) = 32)"
  using assms
proof (induction n arbitrary: c Q)
  case 0
  then show ?case by (intro exI [of _ c] exI [of _ 0] exI [of _ "[]"]) simp
next
  case (Suc n)
  let ?c1 = "c\<lparr>sc_time := Suc (sc_time c)\<rparr>"
  have x: "xfer sl ?c1 True f Q 0 0" using Suc.prems(1) by (simp add: xfer_time)
  have r: "ctl_read sl pace SR c = (?c1, status_reg ?c1)"
    by (simp add: ctl_read_def not_selected [OF Suc.prems(2)] Let_def)
  have len: "length (sc_tx ?c1) = length Q" "length Q \<le> 32" using x by (simp_all add: xfer_def)
  show ?case
  proof (cases "length Q < 32")
    case False
    then have "status_reg ?c1 AND 2 = 0" "length Q = 32" using len by (auto simp: status_reg_def)
    then show ?thesis using r Suc.prems
      by (intro exI [of _ ?c1] exI [of _ "Suc n"] exI [of _ "[]"]) (simp add: xfer_time)
  next
    case True
    then have "status_reg ?c1 AND 2 \<noteq> 0" using len by (auto simp: status_reg_def)
    moreover have "xfer sl (ctl_write sl DR 0 ?c1) True f (Q @ [0]) 0 0" "sc_ser (ctl_write sl DR 0 ?c1) = 0"
      using xfer_push [OF x, of 0] True Suc.prems(2) by simp_all
    then obtain c' n' ds where "prefill (ctl_bus sl pace) n (ctl_write sl DR 0 ?c1) = (c', n')"
        "n' + length ds = n" "xfer sl c' True f ((Q @ [0]) @ ds) 0 0" "sc_ser c' = 0"
        "n' = 0 \<or> length ((Q @ [0]) @ ds) = 32"
      using Suc.IH by blast
    ultimately show ?thesis using r by (intro exI [of _ c'] exI [of _ n'] exI [of _ "0 # ds"]) simp
  qed
qed

text \<open>Refilling, from the levels read before: the transaction is still open.\<close>

lemma fill_dummy_run:
  assumes "xfer sl c True f Q a j" and "length Q \<le> j + tx" and "n = 0 \<or> j < length Q"
  shows "\<exists>c' n' ds. fill_dummy (ctl_bus sl pace) n tx rx c = (c', n') \<and> n' + length ds = n \<and>
    xfer sl c' True f (Q @ ds) a j \<and> sc_ser c' = sc_ser c \<and> (n' = 0 \<or> 32 \<le> tx + length ds \<or> 32 \<le> rx + length ds)"
  using assms
proof (induction n arbitrary: c Q tx rx)
  case 0
  then show ?case by (intro exI [of _ c] exI [of _ 0] exI [of _ "[]"]) simp
next
  case (Suc n)
  show ?case
  proof (cases "tx < TX_FIFO_DEPTH \<and> rx < RX_FIFO_DEPTH")
    case False
    then have "fill_dummy (ctl_bus sl pace) (Suc n) tx rx c = (c, Suc n)" by auto
    then show ?thesis using Suc.prems False
      by (intro exI [of _ c] exI [of _ "Suc n"] exI [of _ "[]"]) (auto simp: spi_consts)
  next
    case True
    then have "length Q < j + 32" using Suc.prems(2) by (simp add: spi_consts)
    then have "xfer sl (ctl_write sl DR 0xFF c) True f (Q @ [0xFF]) a j"
      "sc_ser (ctl_write sl DR 0xFF c) = sc_ser c"
      using xfer_push [of sl c True f Q a j, where v = "0xFF"] Suc.prems(1,3) by simp_all
    moreover have "length (Q @ [0xFF]) \<le> j + Suc tx" "n = 0 \<or> j < length (Q @ [0xFF])"
      using Suc.prems(2,3) by auto
    ultimately obtain c' n' ds where
        "fill_dummy (ctl_bus sl pace) n (Suc tx) (Suc rx) (ctl_write sl DR 0xFF c) = (c', n')"
        "n' + length ds = n" "xfer sl c' True f ((Q @ [0xFF]) @ ds) a j" "sc_ser c' = sc_ser c"
        "n' = 0 \<or> 32 \<le> Suc tx + length ds \<or> 32 \<le> Suc rx + length ds"
      using Suc.IH by metis
    then show ?thesis using True by (intro exI [of _ c'] exI [of _ n'] exI [of _ "0xFF # ds"]) simp
  qed
qed

text \<open>Taking everything the receive FIFO holds; \<open>K\<close> is the length of the command.\<close>

lemma drain_rx_run:
  assumes "xfer sl c True f Q a j" and "j \<le> K + N" and "0 < N" and "a < K + N"
  shows "\<exists>c'. drain_rx (ctl_bus sl pace) (j - a) (K - a) (N - (a - K)) c =
      Some (c', K - j, map (\<lambda>i. sl_out sl f (take i Q)) [max a K..<j]) \<and>
    xfer sl c' True f Q j j \<and> sc_ser c' = sc_ser c"
  using assms
proof (induction "j - a" arbitrary: c a)
  case 0
  then have "a = j" by (simp add: xfer_def)
  then show ?case using 0 by simp
next
  case (Suc n)
  then have aj: "a < j" by simp
  obtain c1 where c1: "ctl_read sl pace DR c = (c1, ucast (sl_out sl f (take a Q)))"
      "xfer sl c1 True f Q (Suc a) j" "sc_ser c1 = sc_ser c"
    using xfer_pop [OF Suc.prems(1) aj] by blast
  have b: "N - (a - K) \<noteq> 0" using Suc.prems(3,4) by linarith
  have step: "\<exists>c'. drain_rx (ctl_bus sl pace) (j - Suc a) (K - Suc a) (N - (Suc a - K)) c1 =
      Some (c', K - j, map (\<lambda>i. sl_out sl f (take i Q)) [max (Suc a) K..<j]) \<and>
    xfer sl c' True f Q j j \<and> sc_ser c' = sc_ser c1"
  proof (cases "Suc a < K + N")
    case True
    then show ?thesis using Suc.hyps c1(2) Suc.prems(2,3) by (intro Suc.hyps(1)) simp_all
  next
    case False
    then have "j = Suc a" using aj Suc.prems(2) by simp
    then show ?thesis using c1(2) by simp
  qed
  have ja: "j - a = Suc (j - Suc a)" using aj by simp
  show ?case
  proof (cases "K - a = 0")
    case True
    then have "N - (a - K) - 1 = N - (Suc a - K)" "K - Suc a = 0" "max a K = a" "max (Suc a) K = Suc a" by auto
    then show ?thesis using step c1 b ja True aj by (auto simp: upt_conv_Cons)
  next
    case False
    then have "N - (a - K) = N - (Suc a - K)" "K - a - 1 = K - Suc a" "max a K = max (Suc a) K" by auto
    then show ?thesis using step c1 b ja False
      by (auto simp del: diff_diff_left)
  qed
qed

text \<open>The reading loop.\<close>

lemma status_read:
  assumes "xfer sl c True f Q a j" and "length Q \<le> a + 32" and "r = TXFLR \<or> r = RXFLR" and "sc_ser c \<noteq> 0"
  obtains c' v j' where "ctl_read sl pace r c = (c', v)" and "j' = min (length Q) (j + pace (sc_time c))"
    and "xfer sl c' True f Q a j'" and "sc_ser c' = sc_ser c"
    and "unat v = (if r = TXFLR then length Q - j' else j' - a)"
proof -
  obtain j' where j': "j' = min (length Q) (j + pace (sc_time c))" "xfer sl (tick sl pace c) True f Q a j'"
      "sc_ser (tick sl pace c) = sc_ser c"
    using xfer_tick [OF assms(1), of pace] assms(2,4) by auto
  note len = xfer_lengths [OF j'(2)]
  have "unat (of_nat (length Q - j') :: u16) = length Q - j'" "unat (of_nat (j' - a) :: u16) = j' - a"
    by (rule unat_of_nat_small; use len in simp)+
  then have v: "unat (of_nat (if r = TXFLR then length Q - j' else j' - a) :: u16) =
      (if r = TXFLR then length Q - j' else j' - a)" by simp
  have "ctl_read sl pace r c = (tick sl pace c, of_nat (if r = TXFLR then length Q - j' else j' - a))"
    using assms(3) len by (elim disjE) (simp_all add: ctl_read_def Let_def)
  from that [OF this j' v] show ?thesis .
qed

text \<open>
  At each round the FIFO holds at least 24 bytes, or all that was left to send; the two polls of a
  round take 16 at most, so that it does not run empty before the refill. With a controller that
  never stalls each round takes a byte.
\<close>

lemma refill_level:
  assumes "n' = 0 \<or> 32 \<le> (L - j1) + k \<or> 32 \<le> (j2 - j) + k" and "j + 24 \<le> L"
    and "j \<le> j1" and "j1 \<le> j + 8" and "j1 \<le> j2" and "j2 \<le> j1 + (8 :: nat)"
  shows "n' = 0 \<or> j2 + 24 \<le> L + k"
  using assms by auto

lemma spi_read_loop_run:
  assumes "xfer sl c True f Q j j" and "length Q + dummy = K + N" and "0 < N" and "sc_ser c \<noteq> 0"
    and "dummy = 0 \<or> j + 24 \<le> length Q" and "keeps_up pace"
  shows "\<exists>c' ret d qs a j'. spi_read_loop (ctl_bus sl pace) (K - j) (N - (j - K)) dummy w c = Some (c', ret, d) \<and>
    xfer sl c' True f (Q @ qs) a j' \<and>
    (ret = 0 \<longrightarrow> length qs = dummy \<and> a = K + N \<and> d = map (\<lambda>i. sl_out sl f (take i (Q @ qs))) [max j K..<K + N]) \<and>
    (never_stalls pace \<longrightarrow> ret = 0)"
  using assms(1,2,4,5)
proof (induction "(K + N - j) * 100001 + (100000 - w)" arbitrary: c Q j dummy w rule: less_induct)
  case less
  have j: "j \<le> length Q" "length Q \<le> j + 32" "j \<le> K + N" using less.prems by (simp_all add: xfer_def)
  show ?case
  proof (cases "N - (j - K) = 0")
    case True
    then have "j = K + N" using j assms(3) by linarith
    then show ?thesis using less.prems True
      by (subst spi_read_loop.simps) (force simp: xfer_def)
  next
    case False
    have jK: "j < K + N" using False assms(3) by linarith
    then have open1: "j < length Q" using less.prems(2,4) by auto
    obtain c1 v1 j1 where t: "ctl_read sl pace TXFLR c = (c1, v1)" "j1 = min (length Q) (j + pace (sc_time c))"
        "xfer sl c1 True f Q j j1" "sc_ser c1 = sc_ser c" "unat v1 = length Q - j1"
      using status_read [OF less.prems(1) j(2) _ less.prems(3), of TXFLR pace] by auto
    obtain c2 v2 j2 where r: "ctl_read sl pace RXFLR c1 = (c2, v2)" "j2 = min (length Q) (j1 + pace (sc_time c1))"
        "xfer sl c2 True f Q j j2" "sc_ser c2 = sc_ser c1" "unat v2 = j2 - j"
      using status_read [OF t(3) j(2), of RXFLR pace] t(4) less.prems(3) by auto
    have pace: "pace (sc_time c) \<le> 8" "pace (sc_time c1) \<le> 8" using assms(6) by (simp_all add: keeps_up_def)
    have le: "j \<le> j1" "j1 \<le> j + 8" "j1 \<le> j2" "j2 \<le> j1 + 8" "j2 \<le> K + N" and
      open2: "dummy = 0 \<or> j2 < length Q"
      using t(2) r(2) pace j(1) less.prems(2,4) by auto
    define w' where "w' = (if v2 \<noteq> 0 then 0 else Suc w)"
    have live: "w' = 0" if "never_stalls pace"
    proof -
      have "0 < pace (sc_time c)" using that by (simp add: never_stalls_def)
      then have "j < j1" using t(2) open1 by simp
      then show ?thesis using le(3) r(5) by (auto simp: w'_def)
    qed
    have head: "spi_read_loop (ctl_bus sl pace) (K - j) (N - (j - K)) dummy w c =
        (if w' \<ge> 100000 then Some (c2, - ETIME, [])
         else (case fill_dummy (ctl_bus sl pace) dummy (unat v1) (unat v2) c2 of (h4, dummy') \<Rightarrow> do {
           (h5, cmd_len', ds) \<leftarrow> drain_rx (ctl_bus sl pace) (unat v2) (K - j) (N - (j - K)) h4;
           (h6, ret, ds') \<leftarrow>
             spi_read_loop (ctl_bus sl pace) cmd_len' (N - (j - K) - length ds) dummy' w' h5;
           Some (h6, ret, ds @ ds')
         }))"
      using False t(1) r(1) by (subst spi_read_loop.simps) (simp add: w'_def spi_consts Let_def)
    show ?thesis
    proof (cases "w' \<ge> 100000")
      case True
      then have "spi_read_loop (ctl_bus sl pace) (K - j) (N - (j - K)) dummy w c = Some (c2, - ETIME, [])"
        using head by simp
      then show ?thesis using r(3) live True
        by (intro exI [of _ c2] exI [of _ "- ETIME"] exI [of _ "[]"] exI [of _ j] exI [of _ j2])
          (auto simp: ETIME_def)
    next
      case w': False
      have "length Q \<le> j2 + unat v1" using t(5) le(3) by simp
      then obtain c4 n' qs where f: "fill_dummy (ctl_bus sl pace) dummy (unat v1) (unat v2) c2 = (c4, n')"
          "n' + length qs = dummy" "xfer sl c4 True f (Q @ qs) j j2" "sc_ser c4 = sc_ser c2"
          "n' = 0 \<or> 32 \<le> unat v1 + length qs \<or> 32 \<le> unat v2 + length qs"
        using fill_dummy_run [OF r(3) _ open2] by blast
      have level: "n' = 0 \<or> j2 + 24 \<le> length (Q @ qs)"
      proof (cases "dummy = 0")
        case False
        then have "j + 24 \<le> length Q" using less.prems(4) by simp
        from refill_level [OF f(5) [unfolded t(5) r(5)] this le(1-4)] show ?thesis by simp
      qed (use f(2) in simp)
      obtain c5 where d: "drain_rx (ctl_bus sl pace) (j2 - j) (K - j) (N - (j - K)) c4 =
            Some (c5, K - j2, map (\<lambda>i. sl_out sl f (take i (Q @ qs))) [max j K..<j2])"
          "xfer sl c5 True f (Q @ qs) j2 j2" "sc_ser c5 = sc_ser c4"
        using drain_rx_run [OF f(3) le(5) assms(3) jK] by blast
      have rest: "N - (j - K) - (j2 - max j K) = N - (j2 - K)" using le(1,3) by (simp add: max_def)
      have m1: "(K + N - j2) * 100001 + (100000 - w') < (K + N - j) * 100001 + (100000 - w)"
      proof (cases "j2 = j")
        case True
        then have "w' = Suc w" using r(5) by (simp add: w'_def unat_eq_0)
        then show ?thesis using w' True by simp
      next
        case False
        then have "(K + N - j2) * 100001 + 100001 \<le> (K + N - j) * 100001" using le by simp
        then show ?thesis by linarith
      qed
      have m2: "length (Q @ qs) + n' = K + N" using f(2) less.prems(2) by simp
      have ser: "sc_ser c5 \<noteq> 0" using d(3) f(4) r(4) t(4) less.prems(3) by simp
      obtain c' ret ds qs' a j' where i:
          "spi_read_loop (ctl_bus sl pace) (K - j2) (N - (j2 - K)) n' w' c5 = Some (c', ret, ds)"
          "xfer sl c' True f ((Q @ qs) @ qs') a j'"
          "ret = 0 \<longrightarrow> length qs' = n' \<and> a = K + N \<and>
            ds = map (\<lambda>i. sl_out sl f (take i ((Q @ qs) @ qs'))) [max j2 K..<K + N]"
          "never_stalls pace \<longrightarrow> ret = 0"
        using less.hyps [OF m1 d(2) m2 ser level] by blast
      have "j2 \<le> length (Q @ qs)" using d(2) by (simp add: xfer_def)
      then have old: "map (\<lambda>i. sl_out sl f (take i (Q @ qs))) [max j K..<j2] =
          map (\<lambda>i. sl_out sl f (take i (Q @ (qs @ qs')))) [max j K..<j2]"
        by (intro map_cong refl arg_cong [of _ _ "sl_out sl f"]) auto
      have split: "[max j K..<j2] @ [max j2 K..<K + N] = [max j K..<K + N]"
        using le by (cases "K \<le> j2") (auto simp: max_def upt_add_eq_append [symmetric] dest: le_Suc_ex)
      have "ret = 0 \<longrightarrow> ds = map (\<lambda>i. sl_out sl f (take i (Q @ (qs @ qs')))) [max j2 K..<K + N]"
        using i(3) by simp
      then have "ret = 0 \<longrightarrow> map (\<lambda>i. sl_out sl f (take i (Q @ qs))) [max j K..<j2] @ ds =
          map (\<lambda>i. sl_out sl f (take i (Q @ (qs @ qs')))) [max j K..<K + N]"
        unfolding split [symmetric] map_append old by simp
      then have res: "ret = 0 \<longrightarrow> length (qs @ qs') = dummy \<and> a = K + N \<and>
          map (\<lambda>i. sl_out sl f (take i (Q @ qs))) [max j K..<j2] @ ds =
          map (\<lambda>i. sl_out sl f (take i (Q @ (qs @ qs')))) [max j K..<K + N]"
        using i(3) f(2) by auto
      have "spi_read_loop (ctl_bus sl pace) (K - j) (N - (j - K)) dummy w c =
          Some (c', ret, map (\<lambda>i. sl_out sl f (take i (Q @ qs))) [max j K..<j2] @ ds)"
        using head w' f(1) d(1) i(1) r(5) rest by simp
      moreover have "xfer sl c' True f (Q @ (qs @ qs')) a j'" using i(2) by simp
      ultimately show ?thesis by (intro exI conjI) (assumption | rule res i(4))+
    qed
  qed
qed

subsection \<open>Whole transfers\<close>

definition after_bytes :: "'f spi_slave \<Rightarrow> 'f \<Rightarrow> bytes \<Rightarrow> 'f" where
  "after_bytes sl f xs = (if xs = [] then f else sl_end sl f xs)"

lemma xfer_holds: "xfer sl c kp f Q a j \<Longrightarrow> ctl_holds sl c (after_bytes sl f (take j Q))"
  by (auto simp: ctl_holds_def deselect_def after_bytes_def xfer_def in_transit_def split: if_splits)

lemma ctl_holds_finish:
  "ctl_holds sl (al_spi_disable (ctl_bus sl pace) (ctl_write sl SER 0 c)) f = ctl_holds sl c f"
  by (simp add: ctl_holds_def deselect_def al_spi_disable_def ctl_write_def)

lemma xfer_finished:
  "xfer sl c kp f Q a j \<Longrightarrow>
   ctl_holds sl (al_spi_disable (ctl_bus sl pace) (ctl_write sl SER 0 c)) (after_bytes sl f (take j Q))"
  by (simp add: ctl_holds_finish xfer_holds)

lemma xfer_select:
  "xfer sl c kp f Q 0 0 \<Longrightarrow> xfer sl (ctl_write sl SER v c) kp f Q 0 0"
  by (simp add: ctl_write_def xfer_def keeps_rx_def deselect_def)

lemma upt_shift: "[K..<K + N] = map (\<lambda>i. K + i) [0..<N]"
  by (rule nth_equalityI) simp_all

text \<open>A controller whose FIFOs are empty is idle.\<close>

lemma idle_wait:
  assumes "xfer sl c kp f Q (if kp then length Q else a) (length Q)"
  shows "al_spi_wait_for_sr_idle (ctl_bus sl pace) timeout c = (tick sl pace c, 0)"
    and "xfer sl (tick sl pace c) kp f Q (if kp then length Q else a) (length Q)"
proof -
  have "kp \<longrightarrow> length Q \<le> (if kp then length Q else a) + 32" by simp
  then obtain j where "j = (if sc_ser c = 0 then length Q else min (length Q) (length Q + pace (sc_time c)))"
      "xfer sl (tick sl pace c) kp f Q (if kp then length Q else a) j"
    using xfer_tick [OF assms] by blast
  moreover have "(if sc_ser c = 0 then length Q else min (length Q) (length Q + pace (sc_time c))) = length Q" by simp
  ultimately show x: "xfer sl (tick sl pace c) kp f Q (if kp then length Q else a) (length Q)" by metis
  then have "sc_tx (tick sl pace c) = []" "sc_rx (tick sl pace c) = []" by (auto simp: xfer_def)
  then have "status_reg (tick sl pace c) AND 16 = 0" "0 = status_reg (tick sl pace c) AND 1"
    by (simp_all add: status_reg_def)
  then show "al_spi_wait_for_sr_idle (ctl_bus sl pace) timeout c = (tick sl pace c, 0)"
    unfolding al_spi_wait_for_sr_idle_def al_spi_wait_on_sr_def by (subst wait_on_sr_ctl) simp
qed

lemma ctl_read_transfer:
  assumes "ctl_holds sl c f" and "cmd \<noteq> []" and "length cmd \<le> 8" and "0 < unat n" and "unat n < 2 ^ 16"
    and "keeps_up pace"
  shows "\<exists>c' err d ds. al_spi_read (ctl_bus sl pace) cmd n 0 timeout c = Some (c', err, d) \<and>
    (if err = 0 then length ds = unat n \<and> d = map (\<lambda>i. sl_out sl f (cmd @ take i ds)) [0..<unat n] \<and>
       ctl_holds sl c' (sl_end sl f (cmd @ ds))
     else \<exists>xs. ctl_holds sl c' (after_bytes sl f xs)) \<and> (never_stalls pace \<longrightarrow> err = 0)"
proof -
  let ?b = "ctl_bus sl pace" and ?K = "length cmd" and ?N = "unat n"
  obtain c1 where c1: "command_phase ?b TRANS_RECV cmd timeout c = (c1, 0)" "xfer sl c1 True f cmd 0 0" "sc_ser c1 = 0"
    using command_phase_run [OF assms(1), of cmd TRANS_RECV] assms(3) by fastforce
  obtain c2 n' ds0 where c2: "prefill ?b ?N c1 = (c2, n')" "n' + length ds0 = ?N" "xfer sl c2 True f (cmd @ ds0) 0 0"
      "n' = 0 \<or> length (cmd @ ds0) = 32"
    using prefill_run [OF c1(2,3)] by blast
  define c2' where "c2' = ctl_write sl SER 1 c2"
  have x2: "xfer sl c2' True f (cmd @ ds0) 0 0" using c2(3) by (simp add: c2'_def xfer_select)
  have ser2: "sc_ser c2' \<noteq> 0" by (simp add: c2'_def ctl_write_def)
  have len2: "length (cmd @ ds0) + n' = ?K + ?N" using c2(2) by simp
  have lvl2: "n' = 0 \<or> 0 + 24 \<le> length (cmd @ ds0)" using c2(4) by auto
  obtain c3 ret d qs a j where l: "spi_read_loop ?b ?K ?N n' 0 c2' = Some (c3, ret, d)"
      "xfer sl c3 True f ((cmd @ ds0) @ qs) a j"
      "ret = 0 \<longrightarrow> length qs = n' \<and> a = ?K + ?N \<and>
        d = map (\<lambda>i. sl_out sl f (take i ((cmd @ ds0) @ qs))) [max 0 ?K..<?K + ?N]"
      "never_stalls pace \<longrightarrow> ret = 0"
    using spi_read_loop_run [OF x2 len2 assms(4) ser2 lvl2 assms(6), where w = 0]
    unfolding diff_zero diff_0_eq_0 by blast
  define ds where "ds = ds0 @ qs"
  have x3: "xfer sl c3 True f (cmd @ ds) a j" using l(2) by (simp add: ds_def)
  have ser: "(ucast (SPI_CS_INDEX_TO_VAL 0) :: u16) = 1" by (simp add: SPI_CS_INDEX_TO_VAL_def)
  show ?thesis
  proof (cases "ret = 0")
    case False
    then have "al_spi_read ?b cmd n 0 timeout c = Some (al_spi_disable ?b (ctl_write sl SER 0 c3), ret, d)"
      using assms(3,5) c1(1) c2(1) l(1) ser
      by (simp add: al_spi_read_def c2'_def AL_SPI_CS_NONE_def split: prod.splits)
    then show ?thesis using xfer_finished [OF x3, of pace] False l(4) by auto
  next
    case True
    have len: "length ds = ?N" and a: "a = length (cmd @ ds)" using l(3) True c2(2) by (simp_all add: ds_def)
    then have "j = length (cmd @ ds)" using x3 by (auto simp: xfer_def)
    then have x: "xfer sl c3 True f (cmd @ ds) (if True then length (cmd @ ds) else 0) (length (cmd @ ds))"
      using x3 a by simp
    have run: "al_spi_read ?b cmd n 0 timeout c =
        Some (al_spi_disable ?b (ctl_write sl SER 0 (tick sl pace c3)), 0, d)"
      using assms(3,5) c1(1) c2(1) l(1) ser True idle_wait(1) [OF x]
      by (simp add: al_spi_read_def c2'_def AL_SPI_CS_NONE_def split: prod.splits)
    have "ctl_holds sl (al_spi_disable ?b (ctl_write sl SER 0 (tick sl pace c3))) (sl_end sl f (cmd @ ds))"
      using xfer_finished [OF idle_wait(2) [OF x], of pace pace] assms(2) by (simp add: after_bytes_def)
    moreover have "d = map (\<lambda>i. sl_out sl f (cmd @ take i ds)) [0..<?N]"
      using l(3) True by (simp add: upt_shift ds_def)
    ultimately show ?thesis using run len
      by (intro exI [of _ "al_spi_disable ?b (ctl_write sl SER 0 (tick sl pace c3))"] exI [of _ 0]
          exI [of _ d] exI [of _ ds]) simp
  qed
qed

subsection \<open>Writing\<close>

lemma fill_data_run:
  assumes "xfer sl c False f Q 0 j" and "length Q = j + tx" and "dout = [] \<or> j < length Q \<or> j = 0" and "tx \<le> 32"
  shows "\<exists>c' rest qs. fill_data (ctl_bus sl pace) dout tx c = (c', rest) \<and> dout = qs @ rest \<and>
    xfer sl c' False f (Q @ qs) 0 j \<and> sc_ser c' = sc_ser c \<and> (rest = [] \<or> length (Q @ qs) = j + 32)"
  using assms
proof (induction dout arbitrary: c Q tx)
  case Nil
  then show ?case by (intro exI [of _ c] exI [of _ "[]"] exI [of _ "[]"]) simp
next
  case (Cons d dout)
  show ?case
  proof (cases "tx < TX_FIFO_DEPTH")
    case False
    then show ?thesis using Cons.prems
      by (intro exI [of _ c] exI [of _ "d # dout"] exI [of _ "[]"]) (auto simp: spi_consts)
  next
    case True
    then have "length Q < j + 32" using Cons.prems(2) by (simp add: spi_consts)
    then have "xfer sl (ctl_write sl DR (ucast d) c) False f (Q @ [d]) 0 j" and
      ser: "sc_ser (ctl_write sl DR (ucast d) c) = sc_ser c"
      using xfer_push [of sl c False f Q 0 j, where v = "ucast d"] Cons.prems(1,3) by simp_all
    moreover have "length (Q @ [d]) = j + Suc tx" "dout = [] \<or> j < length (Q @ [d]) \<or> j = 0" "Suc tx \<le> 32"
      using Cons.prems(2) True by (simp_all add: spi_consts)
    ultimately obtain c' rest qs where "fill_data (ctl_bus sl pace) dout (Suc tx) (ctl_write sl DR (ucast d) c) = (c', rest)"
        "dout = qs @ rest" "xfer sl c' False f ((Q @ [d]) @ qs) 0 j" "sc_ser c' = sc_ser (ctl_write sl DR (ucast d) c)"
        "rest = [] \<or> length ((Q @ [d]) @ qs) = j + 32"
      using Cons.IH by blast
    then show ?thesis using True ser by (intro exI [of _ c'] exI [of _ rest] exI [of _ "d # qs"]) simp
  qed
qed

text \<open>
  The slave is selected once the FIFO is full or all the data is in it, and a poll finds at most 8
  bytes of the full FIFO gone.
\<close>

lemma spi_write_loop_run:
  assumes "xfer sl c False f Q 0 j" and ser: "ser \<noteq> 0" and "keeps_up pace"
    and "if ss then sc_ser c \<noteq> 0 \<and> (dout = [] \<or> length Q = j + 32) else sc_ser c = 0 \<and> j = 0 \<and> length Q < 32"
  shows "\<exists>c' ret ser_set qs j'. spi_write_loop (ctl_bus sl pace) ser dout ss w c = (c', ret, ser_set) \<and>
    xfer sl c' False f (Q @ qs) 0 j' \<and> (ret = 0 \<longrightarrow> qs = dout) \<and>
    (if ser_set then sc_ser c' \<noteq> 0 else sc_ser c' = 0 \<and> j' = 0) \<and> (never_stalls pace \<longrightarrow> ret = 0)"
  using assms(1,4)
proof (induction "length dout * 100001 + (100000 - w)" arbitrary: c Q j dout ss w rule: less_induct)
  case less
  show ?case
  proof (cases dout)
    case Nil
    then show ?thesis using less.prems
      by (intro exI [of _ c] exI [of _ 0] exI [of _ ss] exI [of _ "[]"] exI [of _ j]) (auto split: if_splits)
  next
    case (Cons d dout0)
    let ?c1 = "tick sl pace c"
    obtain j1 where j1: "j1 = (if sc_ser c = 0 then j else min (length Q) (j + pace (sc_time c)))"
        "xfer sl ?c1 False f Q 0 j1" "sc_ser ?c1 = sc_ser c"
      using xfer_tick [OF less.prems(1)] by blast
    have pace: "pace (sc_time c) \<le> 8" using assms(3) by (simp add: keeps_up_def)
    have open1: "j1 < length Q \<or> j1 = 0" and sel: "if ss then sc_ser c \<noteq> 0 else sc_ser c = 0 \<and> j1 = 0 \<and> length Q < 32"
      using j1(1) less.prems(2) Cons pace by (auto split: if_splits)
    define tx :: u16 where "tx = of_nat (length (sc_tx ?c1))"
    have len: "length (sc_tx ?c1) = length Q - j1" "length Q - j1 \<le> 32" "j1 \<le> length Q"
      using j1(2) by (auto simp: xfer_def)
    then have tx: "unat tx = length Q - j1" "unat tx \<le> 32"
      using unat_of_nat_small [of "length Q - j1", where 'a = 16] by (simp_all add: tx_def)
    define w' where "w' = (if unat tx < 32 then 0 else Suc w)"
    have "length Q = j1 + unat tx" using tx(1) len(3) by simp
    then obtain c3 rest qs where f: "fill_data (ctl_bus sl pace) dout (unat tx) ?c1 = (c3, rest)" "dout = qs @ rest"
        "xfer sl c3 False f (Q @ qs) 0 j1" "sc_ser c3 = sc_ser c" "rest = [] \<or> length (Q @ qs) = j1 + 32"
      using fill_data_run [OF j1(2), where tx = "unat tx" and dout = dout and pace = pace] tx(2) open1 j1(3) by auto
    have zero: "w' = 0" if "never_stalls pace"
    proof -
      have "0 < pace (sc_time c)" using that by (simp add: never_stalls_def)
      moreover have "length Q \<le> j + 32" using less.prems(1) by (simp add: xfer_def)
      ultimately have "length Q - j1 < 32" using j1(1) less.prems(2) Cons pace by (auto split: if_splits)
      then show ?thesis using tx(1) by (simp add: w'_def)
    qed
    have rd: "ctl_read sl pace TXFLR c = (?c1, tx)" by (simp add: ctl_read_def tx_def Let_def)
    have head: "spi_write_loop (ctl_bus sl pace) ser dout ss w c = (if w' \<ge> 100000 then (?c1, - ETIME, ss)
        else spi_write_loop (ctl_bus sl pace) ser rest True w' (if ss then c3 else ctl_write sl SER ser c3))"
      using f(1) rd Cons by (simp add: Let_def w'_def spi_consts del: fill_data.simps)
    show ?thesis
    proof (cases "w' \<ge> 100000")
      case True
      then have "\<not> never_stalls pace" using zero by (metis not_numeral_le_zero)
      moreover have "spi_write_loop (ctl_bus sl pace) ser dout ss w c = (?c1, - ETIME, ss)" using head True by simp
      moreover have "if ss then sc_ser ?c1 \<noteq> 0 else sc_ser ?c1 = 0 \<and> j1 = 0" using sel j1(3) by (auto split: if_splits)
      moreover have "xfer sl ?c1 False f (Q @ []) 0 j1" using j1(2) by simp
      ultimately show ?thesis by (intro exI conjI) (assumption | simp add: ETIME_def)+
    next
      case False
      have m: "length rest * 100001 + (100000 - w') < length dout * 100001 + (100000 - w)"
      proof (cases "unat tx < 32")
        case True
        then have "length rest < length dout"
          using f(1) Cons fill_data_shorter [of "ctl_bus sl pace" dout0] by (auto simp: spi_consts less_Suc_eq_le)
        then have "length rest * 100001 + 100001 \<le> length dout * 100001" by simp
        then show ?thesis by linarith
      next
        case big: False
        then show ?thesis using False f(2) by (simp add: w'_def)
      qed
      define c4 where "c4 = (if ss then c3 else ctl_write sl SER ser c3)"
      have x4: "xfer sl c4 False f (Q @ qs) 0 j1"
        using f(3) sel xfer_select by (auto simp: c4_def)
      have "sc_ser c4 \<noteq> 0" using f(4) sel ser by (simp add: c4_def ctl_write_def)
      then have p4: "if True then sc_ser c4 \<noteq> 0 \<and> (rest = [] \<or> length (Q @ qs) = j1 + 32)
          else sc_ser c4 = 0 \<and> j1 = 0 \<and> length (Q @ qs) < 32"
        using f(5) by simp
      obtain c' ret ser_set qs' j' where r:
          "spi_write_loop (ctl_bus sl pace) ser rest True w' c4 = (c', ret, ser_set)"
          "xfer sl c' False f ((Q @ qs) @ qs') 0 j'" "ret = 0 \<longrightarrow> qs' = rest"
          "if ser_set then sc_ser c' \<noteq> 0 else sc_ser c' = 0 \<and> j' = 0" "never_stalls pace \<longrightarrow> ret = 0"
        using less.hyps [OF m x4 p4] by blast
      have "spi_write_loop (ctl_bus sl pace) ser dout ss w c = (c', ret, ser_set)"
        using head False r(1) by (simp add: c4_def)
      moreover have "xfer sl c' False f (Q @ (qs @ qs')) 0 j'" using r(2) by simp
      moreover have "ret = 0 \<longrightarrow> qs @ qs' = dout" using r(3) f(2) by simp
      ultimately show ?thesis using r(4,5) by (intro exI conjI) assumption+
    qed
  qed
qed

lemma wait_tx_empty_live:
  assumes "xfer sl c False f Q 0 j" and "sc_ser c \<noteq> 0" and "never_stalls pace" and "length Q - j \<le> Suc n"
  shows "\<exists>c'. wait_on_sr (ctl_bus sl pace) 4 4 n c = (c', 0)"
  using assms(1,2,4)
proof (induction n arbitrary: c j)
  case (0 c j)
  obtain j' where j': "j' = min (length Q) (j + pace (sc_time c))" "xfer sl (tick sl pace c) False f Q 0 j'"
    using xfer_tick [OF 0(1), of pace] 0(2) by auto
  have "0 < pace (sc_time c)" using assms(3) by (simp add: never_stalls_def)
  then have "sc_tx (tick sl pace c) = []" "sc_rx (tick sl pace c) = []" using j' 0(3) by (auto simp: xfer_def)
  then show ?case by (subst wait_on_sr_ctl) (auto simp: status_reg_def Let_def)
next
  case (Suc n c j)
  obtain j' where j': "j' = min (length Q) (j + pace (sc_time c))" "xfer sl (tick sl pace c) False f Q 0 j'"
      "sc_ser (tick sl pace c) = sc_ser c"
    using xfer_tick [OF Suc.prems(1), of pace] Suc.prems(2) by auto
  have rx: "status_reg (tick sl pace c) AND 16 = 0" using j'(2) by (simp add: xfer_def status_reg_def)
  have "0 < pace (sc_time c)" using assms(3) by (simp add: never_stalls_def)
  then have "length Q - j' \<le> Suc n" using j'(1) Suc.prems(3) by linarith
  then obtain c' where "wait_on_sr (ctl_bus sl pace) 4 4 n (tick sl pace c) = (c', 0)"
    using Suc.IH [OF j'(2)] j'(3) Suc.prems(2) by auto
  then show ?case using rx by (subst wait_on_sr_ctl) (simp add: Let_def)
qed

text \<open>
  A write that succeeds sent the command and the data in one transaction, and waited until it was
  over.
\<close>

lemma ctl_write_transfer:
  assumes "ctl_holds sl c f" and "cmd \<noteq> []" and "length cmd \<le> 8" and "keeps_up pace"
    and "al_spi_write (ctl_bus sl pace) cmd data 0 timeout c = (c', err)"
  shows "(if err = 0 then ctl_holds sl c' (sl_end sl f (cmd @ data))
    else \<exists>xs. ctl_holds sl c' (after_bytes sl f xs)) \<and> (never_stalls pace \<and> 32 \<le> unat timeout \<longrightarrow> err = 0)"
proof -
  let ?b = "ctl_bus sl pace"
  have ser: "(ucast (SPI_CS_INDEX_TO_VAL 0) :: u16) = 1" by (simp add: SPI_CS_INDEX_TO_VAL_def)
  obtain c1 where c1: "command_phase ?b TRANS cmd timeout c = (c1, 0)" "xfer sl c1 False f cmd 0 0" "sc_ser c1 = 0"
    using command_phase_run [OF assms(1), of cmd TRANS] assms(3) by fastforce
  have p1: "if False then sc_ser c1 \<noteq> 0 \<and> (data = [] \<or> length cmd = 0 + 32)
      else sc_ser c1 = 0 \<and> (0::nat) = 0 \<and> length cmd < 32"
    using c1(3) assms(3) by simp
  have "(1 :: u16) \<noteq> 0" by simp
  from spi_write_loop_run [OF c1(2) this assms(4) p1, where w = 0]
  obtain c2 ret ss qs j where l: "spi_write_loop ?b 1 data False 0 c1 = (c2, ret, ss)"
      "xfer sl c2 False f (cmd @ qs) 0 j" "ret = 0 \<longrightarrow> qs = data"
      "if ss then sc_ser c2 \<noteq> 0 else sc_ser c2 = 0 \<and> j = 0" "never_stalls pace \<longrightarrow> ret = 0"
    by blast
  define c3 where "c3 = (if ss then c2 else ctl_write sl SER 1 c2)"
  have x3: "xfer sl c3 False f (cmd @ qs) 0 j" and ser3: "sc_ser c3 \<noteq> 0"
    using l(2,4) xfer_select [of sl c2 False f "cmd @ qs" 1] by (auto simp: c3_def ctl_write_def split: if_splits)
  show ?thesis
  proof (cases "ret = 0")
    case False
    then have "c' = al_spi_disable ?b (ctl_write sl SER 0 c3)" "err = ret"
      using assms(5) c1(1) l(1) ser by (auto simp: al_spi_write_def c3_def AL_SPI_CS_NONE_def)
    then show ?thesis using False xfer_finished [OF x3] l(5) by auto
  next
    case True
    then have Q: "cmd @ qs = cmd @ data" using l(3) by simp
    obtain c4 ret4 j4 where w4: "al_spi_wait_for_tx_fifo_empty ?b timeout c3 = (c4, ret4)"
        "xfer sl c4 False f (cmd @ data) 0 j4" "ret4 = 0 \<longrightarrow> 4 = status_reg c4 AND 4"
      using wait_on_sr_run [OF x3 [unfolded Q], of pace 4 4 "unat timeout - 1"]
      by (auto simp: al_spi_wait_for_tx_fifo_empty_def al_spi_wait_on_sr_def)
    have live4: "ret4 = 0" if "never_stalls pace" "32 \<le> unat timeout"
    proof -
      have "length (cmd @ qs) - j \<le> 32" using x3 by (auto simp: xfer_def)
      then have "length (cmd @ qs) - j \<le> Suc (unat timeout - 1)" using that(2) by linarith
      then show ?thesis using wait_tx_empty_live [OF x3 ser3 that(1), of "unat timeout - 1"] that(2) w4(1)
        by (auto simp: al_spi_wait_for_tx_fifo_empty_def al_spi_wait_on_sr_def)
    qed
    show ?thesis
    proof (cases "ret4 = 0")
      case False
      then have "c' = c4" "err = ret4"
        using assms(5) True c1(1) l(1) w4(1) ser
        by (cases ss; auto simp: al_spi_write_def c3_def)+
      then show ?thesis using False xfer_holds [OF w4(2)] live4 by auto
    next
      case ok: True
      have "j4 = length (cmd @ data)" using w4(2,3) ok status_tx_empty [of c4] by (auto simp: xfer_def)
      then have x4: "xfer sl c4 False f (cmd @ data) (if False then length (cmd @ data) else 0) (length (cmd @ data))"
        using w4(2) by simp
      have "c' = al_spi_disable ?b (ctl_write sl SER 0 (tick sl pace c4))" "err = 0"
        using assms(5) True c1(1) l(1) w4(1) ok ser idle_wait(1) [OF x4]
        by (cases ss; auto simp: al_spi_write_def c3_def AL_SPI_CS_NONE_def)+
      then show ?thesis using xfer_finished [OF idle_wait(2) [OF x4], of pace pace] assms(2)
        by (simp add: after_bytes_def)
    qed
  qed
qed

text \<open>The HAL on this controller keeps the contract, with every schedule that leaves it time to refill.\<close>

interpretation hal_device: spi_device sl
  "\<lambda>c cmd n. al_spi_read (ctl_bus sl (capped pace)) cmd n 0 timeout c"
  "\<lambda>c cmd data. al_spi_write (ctl_bus sl (capped pace)) cmd data 0 timeout c" "ctl_holds sl"
proof unfold_locales
  fix c :: "'a spi_ctl" and f :: 'a and cmd :: bytes and n :: u32
  assume "ctl_holds sl c f" "cmd \<noteq> []" "length cmd \<le> 8" "0 < unat n" "unat n < 2 ^ 16"
  then show "\<exists>s' err d ds. al_spi_read (ctl_bus sl (capped pace)) cmd n 0 timeout c = Some (s', err, d) \<and>
      (if err = 0 then length ds = unat n \<and> d = map (\<lambda>i. sl_out sl f (cmd @ take i ds)) [0..<unat n] \<and>
         ctl_holds sl s' (sl_end sl f (cmd @ ds))
       else \<exists>xs. ctl_holds sl s' (if xs = [] then f else sl_end sl f xs))"
    using ctl_read_transfer [of sl c f cmd n "capped pace" timeout] keeps_up_capped unfolding after_bytes_def by blast
next
  fix c c' :: "'a spi_ctl" and f :: 'a and cmd data :: bytes and err :: int
  assume "ctl_holds sl c f" "cmd \<noteq> []" "length cmd \<le> 8"
    "al_spi_write (ctl_bus sl (capped pace)) cmd data 0 timeout c = (c', err)"
  then show "if err = 0 then ctl_holds sl c' (sl_end sl f (cmd @ data))
      else \<exists>xs. ctl_holds sl c' (if xs = [] then f else sl_end sl f xs)"
    using ctl_write_transfer [of sl c f cmd "capped pace" data timeout c' err] keeps_up_capped
    unfolding after_bytes_def by blast
qed

text \<open>A controller that moreover shifts at least one byte at each poll fails no transfer.\<close>

lemma never_stalls_capped: "never_stalls (capped pace) = never_stalls pace"
  by (simp add: never_stalls_def capped_def)

interpretation live_hal: live_spi_device sl
  "\<lambda>c cmd n. al_spi_read (ctl_bus sl (capped (\<lambda>t. Suc (pace t)))) cmd n 0 1000000 c"
  "\<lambda>c cmd data. al_spi_write (ctl_bus sl (capped (\<lambda>t. Suc (pace t)))) cmd data 0 1000000 c" "ctl_holds sl"
proof unfold_locales
  let ?p = "capped (\<lambda>t. Suc (pace t))"
  have p: "never_stalls ?p" by (simp add: never_stalls_def capped_def)
  fix c c' :: "'a spi_ctl" and f :: 'a and cmd :: bytes and err :: int
  { fix n :: u32 and d :: bytes
    assume "ctl_holds sl c f" "cmd \<noteq> []" "length cmd \<le> 8" "0 < unat n" "unat n < 2 ^ 16"
      "al_spi_read (ctl_bus sl ?p) cmd n 0 1000000 c = Some (c', err, d)"
    then show "err = 0" using ctl_read_transfer [of sl c f cmd n ?p 1000000] p keeps_up_capped by auto }
  { fix data :: bytes
    assume "ctl_holds sl c f" "cmd \<noteq> []" "length cmd \<le> 8"
      "al_spi_write (ctl_bus sl ?p) cmd data 0 1000000 c = (c', err)"
    then show "err = 0" using ctl_write_transfer [of sl c f cmd ?p data 1000000 c' err] p keeps_up_capped by simp }
qed

subsection \<open>Reads return with every schedule\<close>

text \<open>
  A schedule that drains the FIFO too fast breaks the transaction up, so that the data need not be
  what the slave holds; but the controller still receives no more bytes than it was sent, and a
  read returns, with as many bytes as were asked for when it reports success.
\<close>

definition loaded :: "'f spi_ctl \<Rightarrow> nat" where
  "loaded c = length (sc_tx c) + length (sc_rx c)"

lemma loaded_tick: "loaded (tick sl pace c) \<le> loaded c"
proof -
  have "loaded (shift_byte sl c) \<le> loaded c" for c :: "'a spi_ctl"
    by (cases "sc_tx c") (auto simp: shift_byte_def release_cs_def deselect_def loaded_def)
  then have "loaded ((shift_byte sl ^^ n) c) \<le> loaded c" for n and c :: "'a spi_ctl"
    by (induction n) (auto intro: le_trans)
  from this [of "pace (sc_time c)" "c\<lparr>sc_time := Suc (sc_time c)\<rparr>"] show ?thesis
    by (simp add: tick_def) (simp add: loaded_def)
qed

lemma loaded_put: "loaded (ctl_write sl DR v c) \<le> Suc (loaded c)"
  by (simp add: ctl_write_def loaded_def)

lemma loaded_wait: "wait_on_sr (ctl_bus sl pace) msk val n c = (c', ret) \<Longrightarrow> loaded c' \<le> loaded c"
proof (induction n arbitrary: c)
  case 0
  then show ?case using loaded_tick [of sl pace c]
    by (subst (asm) wait_on_sr_ctl) (auto simp: Let_def split: if_splits)
next
  case (Suc n)
  show ?case using Suc.prems Suc.IH [of "tick sl pace c"] loaded_tick [of sl pace c]
    by (subst (asm) wait_on_sr_ctl) (auto simp: Let_def split: if_splits)
qed

lemma loaded_send_cmd: "send_cmd (ctl_bus sl pace) timeout cmd c = (c', ret) \<Longrightarrow> loaded c' \<le> loaded c + length cmd"
proof (induction cmd arbitrary: c)
  case (Cons b cmd)
  obtain c1 r1 where w: "al_spi_wait_for_tx_fifo_not_full (ctl_bus sl pace) timeout c = (c1, r1)" by fastforce
  then have "loaded c1 \<le> loaded c"
    by (simp add: al_spi_wait_for_tx_fifo_not_full_def al_spi_wait_on_sr_def loaded_wait)
  then show ?case using Cons.prems w Cons.IH [of "ctl_write sl DR (ucast b) c1"] loaded_put [of sl "ucast b" c1]
    by (auto split: if_splits)
qed simp

lemma loaded_command_phase:
  assumes "command_phase (ctl_bus sl pace) tmod cmd timeout c = (c', ret)"
  shows "loaded c' \<le> length cmd"
proof -
  have "loaded (al_spi_enable (ctl_bus sl pace) (al_reg_write16 (ctl_bus sl pace) SER AL_SPI_CS_NONE
      (al_spi_tmod_set_aux (ctl_bus sl pace) (tmod_val tmod) (al_spi_disable (ctl_bus sl pace) c)))) = 0"
    by (simp add: loaded_def al_spi_enable_def al_spi_disable_def al_spi_tmod_set_aux_def ctl_read_def
        ctl_write_def deselect_def)
  then show ?thesis using loaded_send_cmd [OF assms [unfolded command_phase_def]] by simp
qed

lemma loaded_prefill: "prefill (ctl_bus sl pace) n c = (c', n') \<Longrightarrow> loaded c' + n' \<le> loaded c + n"
proof (induction n arbitrary: c)
  case (Suc n)
  have "ctl_read sl pace SR c = (tick sl pace c, status_reg (tick sl pace c))" by (simp add: ctl_read_def Let_def)
  then show ?case using Suc.prems Suc.IH [of "ctl_write sl DR 0 (tick sl pace c)"]
      loaded_put [of sl 0 "tick sl pace c"] loaded_tick [of sl pace c]
    by (auto split: if_splits)
qed simp

lemma fill_dummy_loaded:
  "fill_dummy (ctl_bus sl pace) n tx rx c = (c', n') \<Longrightarrow> loaded c' + n' \<le> loaded c + n \<and> sc_rx c' = sc_rx c"
proof (induction n arbitrary: tx rx c)
  case (Suc n)
  have "sc_rx (ctl_write sl DR 0xFF c) = sc_rx c" by (simp add: ctl_write_def)
  then show ?case using Suc.prems Suc.IH [of "Suc tx" "Suc rx" "ctl_write sl DR 0xFF c"] loaded_put [of sl "0xFF" c]
    by (auto split: if_splits)
qed simp

lemma drain_rx_loaded:
  "drain_rx (ctl_bus sl pace) n cmd_len bytelen c = Some (c', k, ds) \<Longrightarrow> n \<le> length (sc_rx c) \<Longrightarrow>
   loaded c' + n = loaded c"
proof (induction n arbitrary: cmd_len bytelen c ds)
  case (Suc n)
  obtain b rx where rx: "sc_rx c = b # rx" using Suc.prems(2) by (cases "sc_rx c") auto
  then have r: "ctl_read sl pace DR c = (c\<lparr>sc_rx := rx\<rparr>, ucast b)" by (simp add: ctl_read_def)
  have "loaded (c\<lparr>sc_rx := rx\<rparr>) + 1 = loaded c" by (simp add: loaded_def rx)
  then show ?case using Suc.prems r rx Suc.IH [of _ _ "c\<lparr>sc_rx := rx\<rparr>"]
    by (cases "bytelen = 0"; cases "cmd_len = 0") fastforce+
qed simp

lemma spi_read_loop_returns:
  "loaded c + dummy \<le> cmd_len + bytelen \<Longrightarrow>
   \<exists>c' ret d. spi_read_loop (ctl_bus sl pace) cmd_len bytelen dummy w c = Some (c', ret, d) \<and>
     (ret = 0 \<longrightarrow> length d = bytelen)"
proof (induction "(cmd_len + bytelen) * 100001 + (100000 - w)" arbitrary: c cmd_len bytelen dummy w rule: less_induct)
  case less
  let ?b = "ctl_bus sl pace" and ?c1 = "tick sl pace c" and ?c2 = "tick sl pace (tick sl pace c)"
  define v1 v2 :: u16 where "v1 = of_nat (length (sc_tx ?c1))" and "v2 = of_nat (length (sc_rx ?c2))"
  show ?case
  proof (cases "bytelen = 0")
    case True
    then show ?thesis by (subst spi_read_loop.simps) simp
  next
    case False
    define w' where "w' = (if v2 \<noteq> 0 then 0 else Suc w)"
    have reads: "ctl_read sl pace TXFLR c = (?c1, v1)" "ctl_read sl pace RXFLR ?c1 = (?c2, v2)"
      by (simp_all add: ctl_read_def Let_def v1_def v2_def)
    have head: "spi_read_loop ?b cmd_len bytelen dummy w c =
        (if w' \<ge> 100000 then Some (?c2, - ETIME, [])
         else (case fill_dummy ?b dummy (unat v1) (unat v2) ?c2 of (h4, dummy') \<Rightarrow> do {
           (h5, cmd_len', ds) \<leftarrow> drain_rx ?b (unat v2) cmd_len bytelen h4;
           (h6, ret, ds') \<leftarrow> spi_read_loop ?b cmd_len' (bytelen - length ds) dummy' w' h5;
           Some (h6, ret, ds @ ds')
         }))"
      using False reads by (subst spi_read_loop.simps) (simp add: w'_def spi_consts Let_def)
    show ?thesis
    proof (cases "w' \<ge> 100000")
      case True
      then show ?thesis using head by (simp add: ETIME_def)
    next
      case w': False
      obtain c4 n' where f: "fill_dummy ?b dummy (unat v1) (unat v2) ?c2 = (c4, n')" by fastforce
      have l4: "loaded c4 + n' \<le> cmd_len + bytelen" "sc_rx c4 = sc_rx ?c2"
        using fill_dummy_loaded [OF f] less.prems loaded_tick [of sl pace c] loaded_tick [of sl pace ?c1] by auto
      have v2: "unat v2 \<le> length (sc_rx c4)" unfolding l4(2) v2_def by (simp add: unat_of_nat)
      then have "unat v2 \<le> cmd_len + bytelen" using l4(1) by (simp add: loaded_def)
      then obtain c5 k ds where d: "drain_rx ?b (unat v2) cmd_len bytelen c4 = Some (c5, k, ds)"
        using drain_rx_total [of "unat v2" cmd_len bytelen ?b c4] False by auto
      have "loaded c5 + n' \<le> k + (bytelen - length ds)"
        using drain_rx_loaded [OF d v2] drain_rx_count [OF d] l4(1) by linarith
      moreover have "k + (bytelen - length ds) < cmd_len + bytelen \<or>
          v2 = 0 \<and> k + (bytelen - length ds) = cmd_len + bytelen"
        using drain_rx_progress [OF d] False by simp
      then have "(k + (bytelen - length ds)) * 100001 + (100000 - w') < (cmd_len + bytelen) * 100001 + (100000 - w)"
        using w' by (auto simp: w'_def)
      ultimately obtain c' ret d' where
        i: "spi_read_loop ?b k (bytelen - length ds) n' w' c5 = Some (c', ret, d')"
          "ret = 0 \<longrightarrow> length d' = bytelen - length ds"
        using less.hyps by blast
      have "length ds \<le> bytelen" using drain_rx_count [OF d] by simp
      then show ?thesis using head w' f d i by simp
    qed
  qed
qed

lemma ctl_read_returns:
  assumes "length cmd < 256" and "unat n < 2 ^ 31"
  shows "\<exists>c' err d. al_spi_read (ctl_bus sl pace) cmd n cs timeout c = Some (c', err, d) \<and> (err = 0 \<longrightarrow> length d = unat n)"
proof -
  let ?b = "ctl_bus sl pace"
  obtain c1 r1 where c1: "command_phase ?b TRANS_RECV cmd timeout c = (c1, r1)" by fastforce
  show ?thesis
  proof (cases "r1 = 0")
    case False
    then show ?thesis using assms c1 by (simp add: al_spi_read_def)
  next
    case True
    obtain c2 n' where c2: "prefill ?b (unat n) c1 = (c2, n')" by fastforce
    let ?c2 = "ctl_write sl SER (ucast (SPI_CS_INDEX_TO_VAL cs)) c2"
    have "loaded ?c2 = loaded c2" by (simp add: loaded_def ctl_write_def deselect_def)
    then have "loaded ?c2 + n' \<le> length cmd + unat n"
      using loaded_prefill [OF c2] loaded_command_phase [OF c1] by simp
    from spi_read_loop_returns [OF this, of sl pace 0] obtain c3 ret d where
      "spi_read_loop ?b (length cmd) (unat n) n' 0 ?c2 = Some (c3, ret, d)" "ret = 0 \<longrightarrow> length d = unat n"
      by blast
    then show ?thesis using assms c1 c2 True by (auto simp: al_spi_read_def split: prod.splits if_splits)
  qed
qed

end
