(* ===== verification/SpiNorFlash.thy ===== *)
theory SpiNorFlash
  imports SpiHal
begin

text \<open>
  The SPI NOR flash driver, \<open>Drivers/SpiNorFlashDxe/SpiNorFlashDxe.c\<close>, on the two transfers of the
  HAL. The state \<open>'s\<close> is that of the controller and the chip behind it. A result is the state, the
  status and, for a read, what the call stored in the caller's buffer; \<^const>\<open>None\<close> is an access
  outside a buffer or a read of an uninitialised variable. Delays have no effect on the state.
\<close>

record 's spi_hal =
  hal_read :: "'s \<Rightarrow> bytes \<Rightarrow> u32 \<Rightarrow> ('s \<times> int \<times> bytes) option"
  hal_write :: "'s \<Rightarrow> bytes \<Rightarrow> bytes \<Rightarrow> 's \<times> int"

definition FLASH_SIZE :: u32 where "FLASH_SIZE = 16777216"
definition FLASH_PAGE_SIZE :: u32 where "FLASH_PAGE_SIZE = 256"
definition FLASH_SECTOR_SIZE :: u32 where "FLASH_SECTOR_SIZE = 4096"
definition WIP_POLL_MAX :: nat where "WIP_POLL_MAX = 10000"

definition CMD_READ_ID :: u8 where "CMD_READ_ID = 0x9F"
definition CMD_READ_DATA :: u8 where "CMD_READ_DATA = 0x03"
definition CMD_WRITE_ENABLE :: u8 where "CMD_WRITE_ENABLE = 0x06"
definition CMD_PAGE_PROGRAM :: u8 where "CMD_PAGE_PROGRAM = 0x02"
definition CMD_SECTOR_ERASE :: u8 where "CMD_SECTOR_ERASE = 0x20"
definition CMD_READ_STATUS :: u8 where "CMD_READ_STATUS = 0x05"
definition CMD_READ_STATUS2 :: u8 where "CMD_READ_STATUS2 = 0x35"
definition CMD_READ_STATUS3 :: u8 where "CMD_READ_STATUS3 = 0x15"
definition CMD_WRITE_STATUS :: u8 where "CMD_WRITE_STATUS = 0x01"
definition CMD_WRITE_STATUS2 :: u8 where "CMD_WRITE_STATUS2 = 0x31"
definition CMD_WRITE_STATUS3 :: u8 where "CMD_WRITE_STATUS3 = 0x11"

lemmas nor_consts = FLASH_SIZE_def FLASH_PAGE_SIZE_def FLASH_SECTOR_SIZE_def WIP_POLL_MAX_def

lemmas nor_cmds = CMD_READ_ID_def CMD_READ_DATA_def CMD_WRITE_ENABLE_def CMD_PAGE_PROGRAM_def
  CMD_SECTOR_ERASE_def CMD_READ_STATUS_def CMD_READ_STATUS2_def CMD_READ_STATUS3_def
  CMD_WRITE_STATUS_def CMD_WRITE_STATUS2_def CMD_WRITE_STATUS3_def

subsection \<open>HAL helpers\<close>

definition HalRead :: "'s spi_hal \<Rightarrow> bytes \<Rightarrow> u32 \<Rightarrow> 's \<Rightarrow> ('s \<times> efi_status \<times> bytes) option" where
  "HalRead hal Cmd BufLen s = map_option
     (\<lambda>(s', Err, d). (s', if Err = 0 then EFI_SUCCESS else EFI_DEVICE_ERROR, d)) (hal_read hal s Cmd BufLen)"

definition HalWrite :: "'s spi_hal \<Rightarrow> bytes \<Rightarrow> bytes \<Rightarrow> 's \<Rightarrow> ('s \<times> efi_status) option" where
  "HalWrite hal Cmd Data s = (case hal_write hal s Cmd Data of
     (s', Err) \<Rightarrow> Some (s', if Err = 0 then EFI_SUCCESS else EFI_DEVICE_ERROR))"

definition HalCmdOnly :: "'s spi_hal \<Rightarrow> bytes \<Rightarrow> 's \<Rightarrow> ('s \<times> efi_status) option" where
  "HalCmdOnly hal Cmd s = HalWrite hal Cmd [] s"

subsection \<open>Flash operations\<close>

definition FlashReadStatus :: "'s spi_hal \<Rightarrow> u8 \<Rightarrow> 's \<Rightarrow> ('s \<times> efi_status \<times> bytes) option" where
  "FlashReadStatus hal StatusCmd s = HalRead hal [StatusCmd] 1 s"

text \<open>The polling loops; the argument counts the rounds left.\<close>

fun wel_poll :: "'s spi_hal \<Rightarrow> nat \<Rightarrow> 's \<Rightarrow> ('s \<times> efi_status) option" where
  "wel_poll hal 0 s = Some (s, EFI_DEVICE_ERROR)"
| "wel_poll hal (Suc n) s = do {
     (s1, Status, Sr) \<leftarrow> FlashReadStatus hal CMD_READ_STATUS s;
     if EFI_ERROR Status then Some (s1, Status)
     else do {
       v \<leftarrow> rd8 Sr 0;
       if v AND 2 \<noteq> 0 then Some (s1, EFI_SUCCESS) else wel_poll hal n s1
     }
   }"

definition FlashWriteEnable :: "'s spi_hal \<Rightarrow> 's \<Rightarrow> ('s \<times> efi_status) option" where
  "FlashWriteEnable hal s = do {
     (s1, Status) \<leftarrow> HalCmdOnly hal [CMD_WRITE_ENABLE] s;
     if EFI_ERROR Status then Some (s1, Status) else wel_poll hal 100 s1
   }"

fun wip_poll :: "'s spi_hal \<Rightarrow> nat \<Rightarrow> 's \<Rightarrow> ('s \<times> efi_status) option" where
  "wip_poll hal 0 s = Some (s, EFI_TIMEOUT)"
| "wip_poll hal (Suc n) s = do {
     (s1, Status, Sr) \<leftarrow> FlashReadStatus hal CMD_READ_STATUS s;
     if EFI_ERROR Status then Some (s1, EFI_DEVICE_ERROR)
     else do {
       v \<leftarrow> rd8 Sr 0;
       if v AND 1 = 0 then Some (s1, EFI_SUCCESS) else wip_poll hal n s1
     }
   }"

definition FlashWaitReady :: "'s spi_hal \<Rightarrow> 's \<Rightarrow> ('s \<times> efi_status) option" where
  "FlashWaitReady hal s = wip_poll hal WIP_POLL_MAX s"

subsection \<open>The protocol\<close>

definition SpiNorGetFlashId :: "'s spi_hal \<Rightarrow> 's \<Rightarrow> ('s \<times> efi_status \<times> bytes) option" where
  "SpiNorGetFlashId hal s = HalRead hal [CMD_READ_ID] 3 s"

text \<open>A command byte and the three bytes of an address.\<close>

definition addr_cmd :: "u8 \<Rightarrow> u32 \<Rightarrow> bytes" where
  "addr_cmd Cmd Addr = [Cmd, ucast (drop_bit 16 Addr), ucast (drop_bit 8 Addr), ucast Addr]"

lemma chunk_less:
  fixes Offset LengthInBytes m :: u32
  assumes "Offset < LengthInBytes" and "0 < m"
  shows "unat (Offset + min m (LengthInBytes - Offset)) = unat Offset + min (unat m) (unat LengthInBytes - unat Offset)"
    and "unat LengthInBytes - unat (Offset + min m (LengthInBytes - Offset)) < unat LengthInBytes - unat Offset"
proof -
  have m: "unat (min m (LengthInBytes - Offset)) = min (unat m) (unat LengthInBytes - unat Offset)"
    using assms by (simp add: min_def word_le_nat_alt unat_sub_if' word_less_nat_alt)
  have "unat Offset + min (unat m) (unat LengthInBytes - unat Offset) \<le> unat LengthInBytes"
    using assms by (auto simp: word_less_nat_alt)
  moreover have "unat LengthInBytes < 2 ^ 32" using unsigned_less [of LengthInBytes] by simp
  ultimately show e: "unat (Offset + min m (LengthInBytes - Offset)) = unat Offset + min (unat m) (unat LengthInBytes - unat Offset)"
    using m by (subst unat_word_ariths) simp
  have "0 < unat m" "unat Offset < unat LengthInBytes"
    using assms by (simp_all add: word_less_nat_alt unat_gt_0)
  then show "unat LengthInBytes - unat (Offset + min m (LengthInBytes - Offset)) < unat LengthInBytes - unat Offset"
    unfolding e by auto
qed

function read_chunks ::
    "'s spi_hal \<Rightarrow> u32 \<Rightarrow> u32 \<Rightarrow> u32 \<Rightarrow> 's \<Rightarrow> ('s \<times> efi_status \<times> bytes) option" where
  "read_chunks hal FlashAddress LengthInBytes Offset s =
     (if Offset < LengthInBytes
      then (let Chunk = min FLASH_SECTOR_SIZE (LengthInBytes - Offset) in do {
        (s1, Status, d) \<leftarrow> HalRead hal (addr_cmd CMD_READ_DATA (FlashAddress + Offset)) Chunk s;
        if EFI_ERROR Status then Some (s1, EFI_DEVICE_ERROR, d)
        else do {
          (s2, st, ds) \<leftarrow> read_chunks hal FlashAddress LengthInBytes (Offset + Chunk) s1;
          Some (s2, st, d @ ds)
        }
      })
      else Some (s, EFI_SUCCESS, []))"
  by pat_completeness auto
termination
  by (relation "measure (\<lambda>(hal, FlashAddress, LengthInBytes, Offset, s). unat LengthInBytes - unat Offset)")
    (simp_all add: chunk_less(2) nor_consts)

declare read_chunks.simps [simp del]

definition SpiNorReadData ::
    "'s spi_hal \<Rightarrow> u32 \<Rightarrow> u32 \<Rightarrow> 's \<Rightarrow> ('s \<times> efi_status \<times> bytes) option" where
  "SpiNorReadData hal FlashAddress LengthInBytes s =
     (if FlashAddress + LengthInBytes > FLASH_SIZE then Some (s, EFI_INVALID_PARAMETER, [])
      else read_chunks hal FlashAddress LengthInBytes 0 s)"

definition SpiNorLfReadData ::
    "'s spi_hal \<Rightarrow> u32 \<Rightarrow> u32 \<Rightarrow> 's \<Rightarrow> ('s \<times> efi_status \<times> bytes) option" where
  "SpiNorLfReadData hal FlashAddress LengthInBytes s = SpiNorReadData hal FlashAddress LengthInBytes s"

definition SpiNorReadStatus :: "'s spi_hal \<Rightarrow> u32 \<Rightarrow> 's \<Rightarrow> ('s \<times> efi_status \<times> bytes) option" where
  "SpiNorReadStatus hal LengthInBytes s =
     (if LengthInBytes < 1 then Some (s, EFI_INVALID_PARAMETER, [])
      else FlashReadStatus hal CMD_READ_STATUS s)"

definition SpiNorWriteStatus :: "'s spi_hal \<Rightarrow> u32 \<Rightarrow> bytes \<Rightarrow> 's \<Rightarrow> ('s \<times> efi_status) option" where
  "SpiNorWriteStatus hal LengthInBytes FlashStatus s =
     (if LengthInBytes < 1 then Some (s, EFI_INVALID_PARAMETER)
      else do {
        (s1, Status) \<leftarrow> FlashWriteEnable hal s;
        if EFI_ERROR Status then Some (s1, Status)
        else do {
          v \<leftarrow> rdbytes FlashStatus 0 1;
          (s2, Status) \<leftarrow> HalWrite hal [CMD_WRITE_STATUS] v s1;
          if EFI_ERROR Status then Some (s2, Status) else FlashWaitReady hal s2
        }
      })"

definition page_chunk :: "u32 \<Rightarrow> u32 \<Rightarrow> u32" where
  "page_chunk FlashAddress LengthInBytes =
     (let PageOffset = FlashAddress AND (FLASH_PAGE_SIZE - 1); ChunkSize = FLASH_PAGE_SIZE - PageOffset
      in if ChunkSize > LengthInBytes then LengthInBytes else ChunkSize)"

lemma unat_low_bits: "unat ((a :: u32) AND mask n) = unat a mod 2 ^ n"
  by (simp only: take_bit_eq_mask [symmetric] unsigned_take_bit_eq take_bit_eq_mod [of n "unat a"])

lemma unat_and_255: "unat ((a :: u32) AND 255) = unat a mod 256"
  using unat_low_bits [of a 8] by (simp add: mask_eq_exp_minus_1)

lemma unat_and_4095: "unat ((a :: u32) AND 4095) = unat a mod 4096"
  using unat_low_bits [of a 12] by (simp add: mask_eq_exp_minus_1)

lemma unat_page_chunk: "unat (page_chunk a n) = min (unat n) (256 - unat a mod 256)"
proof -
  have "unat (a AND 255) = unat a mod 256" by (rule unat_and_255)
  moreover have "unat a mod 256 < 256" by simp
  ultimately have "unat (256 - (a AND 255)) = 256 - unat a mod 256"
    by (subst unat_sub_if') auto
  then show ?thesis by (simp add: page_chunk_def nor_consts Let_def word_less_nat_alt min_def)
qed

lemma page_chunk_pos: "n \<noteq> 0 \<Longrightarrow> 0 < unat (page_chunk a n) \<and> unat (page_chunk a n) \<le> unat n"
  by (simp add: unat_page_chunk unat_gt_0)

lemma unat_minus_page_chunk: "unat (n - page_chunk a n) = unat n - unat (page_chunk a n)"
  by (subst unat_sub_if') (simp add: unat_page_chunk)

function write_pages :: "'s spi_hal \<Rightarrow> u32 \<Rightarrow> u32 \<Rightarrow> bytes \<Rightarrow> 's \<Rightarrow> ('s \<times> efi_status) option" where
  "write_pages hal FlashAddress LengthInBytes Buffer s =
     (if LengthInBytes = 0 then Some (s, EFI_SUCCESS)
      else (let ChunkSize = page_chunk FlashAddress LengthInBytes in do {
        (s1, Status) \<leftarrow> FlashWriteEnable hal s;
        if EFI_ERROR Status then Some (s1, Status)
        else do {
          d \<leftarrow> rdbytes Buffer 0 (unat ChunkSize);
          (s2, Status) \<leftarrow> HalWrite hal (addr_cmd CMD_PAGE_PROGRAM FlashAddress) d s1;
          if EFI_ERROR Status then Some (s2, Status)
          else do {
            (s3, Status) \<leftarrow> FlashWaitReady hal s2;
            if EFI_ERROR Status then Some (s3, Status)
            else write_pages hal (FlashAddress + ChunkSize) (LengthInBytes - ChunkSize)
              (drop (unat ChunkSize) Buffer) s3
          }
        }
      }))"
  by pat_completeness auto
termination
proof (relation "measure (\<lambda>(hal, FlashAddress, LengthInBytes, Buffer, s). unat LengthInBytes)", simp, goal_cases)
  case (1 hal FlashAddress LengthInBytes Buffer s)
  then show ?case using page_chunk_pos [of LengthInBytes FlashAddress] by (simp add: unat_minus_page_chunk)
qed

declare write_pages.simps [simp del]

definition SpiNorWriteData :: "'s spi_hal \<Rightarrow> u32 \<Rightarrow> u32 \<Rightarrow> bytes \<Rightarrow> 's \<Rightarrow> ('s \<times> efi_status) option" where
  "SpiNorWriteData hal FlashAddress LengthInBytes Buffer s =
     (if FlashAddress + LengthInBytes > FLASH_SIZE then Some (s, EFI_INVALID_PARAMETER)
      else write_pages hal FlashAddress LengthInBytes Buffer s)"

lemma idx_less:
  fixes Idx BlockCount :: u32
  assumes "Idx < BlockCount"
  shows "unat (Idx + 1) = Suc (unat Idx)" and "unat BlockCount - unat (Idx + 1) < unat BlockCount - unat Idx"
proof -
  have "unat Idx < unat BlockCount" using assms by (simp add: word_less_nat_alt)
  moreover have "unat BlockCount < 2 ^ 32" using unsigned_less [of BlockCount] by simp
  ultimately show e: "unat (Idx + 1) = Suc (unat Idx)"
    using unat_add_of_nat [of Idx 1] by simp
  then show "unat BlockCount - unat (Idx + 1) < unat BlockCount - unat Idx"
    using assms by (simp add: word_less_nat_alt)
qed

function erase_sectors :: "'s spi_hal \<Rightarrow> u32 \<Rightarrow> u32 \<Rightarrow> u32 \<Rightarrow> 's \<Rightarrow> ('s \<times> efi_status) option" where
  "erase_sectors hal FlashAddress BlockCount Idx s =
     (if Idx < BlockCount
      then do {
        (s1, Status) \<leftarrow> FlashWriteEnable hal s;
        if EFI_ERROR Status then Some (s1, Status)
        else do {
          (s2, Status) \<leftarrow> HalCmdOnly hal (addr_cmd CMD_SECTOR_ERASE (FlashAddress + Idx * FLASH_SECTOR_SIZE)) s1;
          if EFI_ERROR Status then Some (s2, Status)
          else do {
            (s3, Status) \<leftarrow> FlashWaitReady hal s2;
            if EFI_ERROR Status then Some (s3, Status)
            else erase_sectors hal FlashAddress BlockCount (Idx + 1) s3
          }
        }
      }
      else Some (s, EFI_SUCCESS))"
  by pat_completeness auto
termination
  by (relation "measure (\<lambda>(hal, FlashAddress, BlockCount, Idx, s). unat BlockCount - unat Idx)")
    (simp_all add: idx_less(2))

declare erase_sectors.simps [simp del]

definition SpiNorErase :: "'s spi_hal \<Rightarrow> u32 \<Rightarrow> u32 \<Rightarrow> 's \<Rightarrow> ('s \<times> efi_status) option" where
  "SpiNorErase hal FlashAddress BlockCount s =
     (if FlashAddress AND (FLASH_SECTOR_SIZE - 1) \<noteq> 0 then Some (s, EFI_INVALID_PARAMETER)
      else if FlashAddress + BlockCount * FLASH_SECTOR_SIZE > FLASH_SIZE then Some (s, EFI_INVALID_PARAMETER)
      else erase_sectors hal FlashAddress BlockCount 0 s)"

subsection \<open>The entry point\<close>

text \<open>The HAL's transfers with chip select 0 and a timeout of a second.\<close>

definition nor_hal :: "'h spi_bus \<Rightarrow> 'h spi_hal" where
  "nor_hal bus = \<lparr>hal_read = (\<lambda>h Cmd BufLen. al_spi_read bus Cmd BufLen 0 1000000 h),
     hal_write = (\<lambda>h Cmd Data. al_spi_write bus Cmd Data 0 1000000 h)\<rparr>"

text \<open>
  A status register whose read failed before a byte was stored is read uninitialised. Clearing
  the protection bits \<open>msk\<close> ignores the statuses of the three calls.
\<close>

definition clear_bits :: "'s spi_hal \<Rightarrow> u8 \<Rightarrow> u8 \<Rightarrow> u8 \<Rightarrow> 's \<Rightarrow> 's option" where
  "clear_bits hal Cmd msk Sr s =
     (if Sr AND msk \<noteq> 0 then do {
        (s1, _) \<leftarrow> FlashWriteEnable hal s;
        (s2, _) \<leftarrow> HalWrite hal [Cmd] [Sr AND NOT msk] s1;
        (s3, _) \<leftarrow> FlashWaitReady hal s2;
        Some s3
      }
      else Some s)"

definition clear_protection :: "'s spi_hal \<Rightarrow> 's \<Rightarrow> 's option" where
  "clear_protection hal s = do {
     (s1, _, d1) \<leftarrow> FlashReadStatus hal CMD_READ_STATUS s;
     (s2, _, d2) \<leftarrow> FlashReadStatus hal CMD_READ_STATUS2 s1;
     (s3, _, d3) \<leftarrow> FlashReadStatus hal CMD_READ_STATUS3 s2;
     Sr1 \<leftarrow> rd8 d1 0;
     Sr2 \<leftarrow> rd8 d2 0;
     Sr3 \<leftarrow> rd8 d3 0;
     s4 \<leftarrow> clear_bits hal CMD_WRITE_STATUS 0x7C Sr1 s3;
     s5 \<leftarrow> clear_bits hal CMD_WRITE_STATUS2 0x40 Sr2 s4;
     clear_bits hal CMD_WRITE_STATUS3 0x04 Sr3 s5
   }"

text \<open>
  The result has the device id of the instance, when it was published. The results of the
  allocation and of the installation of the protocol are parameters.
\<close>

definition SpiNorFlashDxeEntry ::
    "'h spi_bus \<Rightarrow> bool \<Rightarrow> efi_status \<Rightarrow> 'h \<Rightarrow> ('h \<times> efi_status \<times> bytes option) option" where
  "SpiNorFlashDxeEntry bus alloc_ok install h =
     (if \<not> alloc_ok then Some (h, EFI_OUT_OF_RESOURCES, None)
      else do {
        ((spi_if, h1), _) \<leftarrow> al_spi_claim_bus bus 30000000 0 0 0 (al_spi_init bus 500000000 h);
        (h2, Status, JedecId) \<leftarrow> SpiNorGetFlashId (nor_hal bus) h1;
        if EFI_ERROR Status then Some (h2, Status, None)
        else do {
          vendor \<leftarrow> rd8 JedecId 0;
          h3 \<leftarrow> (if vendor = 0xEF then clear_protection (nor_hal bus) h2 else Some h2);
          if EFI_ERROR install then Some (h3, install, None)
          else Some (h3, EFI_SUCCESS, Some JedecId)
        }
      })"

end
