(* ===== verification/NorChip.thy ===== *)
theory NorChip
  imports SpiController SpiNorFlash
begin

text \<open>
  The driver on a flash chip. The chip is a model of the documented instructions of a SPI NOR flash
  with 256-byte pages, 4 KB sectors and 24-bit addresses, as a slave of theory \<open>SpiController\<close>: reading
  wraps at the end of the array, programming can only clear bits and wraps within the page, a program
  or erase needs the write-enable latch and resets it, and leaves the chip busy for a number of
  transactions, in which it answers nothing but the status. The lemmas are proved in the locale
  \<open>nor_flash\<close> from the contract of the transfers; the controller's HAL interprets it.
\<close>

subsection \<open>The chip\<close>

record nor_chip =
  nor_mem :: "nat \<Rightarrow> u8"
  nor_wel :: bool
  nor_busy :: nat  \<comment> \<open>transactions until it is ready\<close>
  nor_sr1 :: u8
  nor_sr2 :: u8
  nor_sr3 :: u8
  nor_id :: bytes
  nor_lat :: nat   \<comment> \<open>how long an operation takes\<close>

definition nor_status :: "nor_chip \<Rightarrow> u8" where
  "nor_status f = (nor_sr1 f AND 0xFC) OR (if nor_busy f = 0 then 0 else 1) OR (if nor_wel f then 2 else 0)"

fun addr24 :: "bytes \<Rightarrow> nat" where
  "addr24 (a # b # c # _) = unat a * 65536 + unat b * 256 + unat c"
| "addr24 _ = 0"

definition nor_answer :: "nor_chip \<Rightarrow> bytes \<Rightarrow> u8" where
  "nor_answer f xs = (case xs of
     [] \<Rightarrow> 0xFF
   | c # r \<Rightarrow>
       if c = 0x05 then nor_status f
       else if nor_busy f \<noteq> 0 then 0xFF
       else if c = 0x35 then nor_sr2 f
       else if c = 0x15 then nor_sr3 f
       else if c = 0x9F \<and> length r < length (nor_id f) then nor_id f ! length r
       else if c = 0x03 \<and> 3 \<le> length r then nor_mem f ((addr24 r + (length r - 3)) mod 2 ^ 24)
       else 0xFF)"

text \<open>The page buffer.\<close>

fun latch :: "nat \<Rightarrow> bytes \<Rightarrow> (nat \<Rightarrow> u8) \<Rightarrow> nat \<Rightarrow> u8" where
  "latch off [] L = L"
| "latch off (d # ds) L = latch (Suc off mod 256) ds (L(off := d))"

definition program_page :: "nat \<Rightarrow> bytes \<Rightarrow> (nat \<Rightarrow> u8) \<Rightarrow> nat \<Rightarrow> u8" where
  "program_page addr ds m = (let L = latch (addr mod 256) ds (\<lambda>_. 0xFF) in
     (\<lambda>a. if a div 256 = addr div 256 then m a AND L (a mod 256) else m a))"

definition erase_sector :: "nat \<Rightarrow> (nat \<Rightarrow> u8) \<Rightarrow> nat \<Rightarrow> u8" where
  "erase_sector addr m = (\<lambda>a. if a div 4096 = addr div 4096 then 0xFF else m a)"

definition nor_unlocked :: "nor_chip \<Rightarrow> bool" where
  "nor_unlocked f = (nor_sr1 f AND 0x7C = 0)"

definition nor_started :: "nor_chip \<Rightarrow> nor_chip" where
  "nor_started f = f\<lparr>nor_wel := False, nor_busy := nor_lat f\<rparr>"

definition nor_execute :: "nor_chip \<Rightarrow> bytes \<Rightarrow> nor_chip" where
  "nor_execute f xs = (case xs of
     [] \<Rightarrow> f
   | c # r \<Rightarrow>
       if nor_busy f \<noteq> 0 then f\<lparr>nor_busy := nor_busy f - 1\<rparr>
       else if c = 0x06 \<and> r = [] then f\<lparr>nor_wel := True\<rparr>
       else if \<not> nor_wel f then f
       else if c = 0x02 \<and> 3 < length r \<and> nor_unlocked f
       then nor_started (f\<lparr>nor_mem := program_page (addr24 r) (drop 3 r) (nor_mem f)\<rparr>)
       else if c = 0x20 \<and> length r = 3 \<and> nor_unlocked f
       then nor_started (f\<lparr>nor_mem := erase_sector (addr24 r) (nor_mem f)\<rparr>)
       else if c = 0x01 \<and> length r = 1 then nor_started (f\<lparr>nor_sr1 := hd r AND 0xFC\<rparr>)
       else if c = 0x31 \<and> length r = 1 then nor_started (f\<lparr>nor_sr2 := hd r\<rparr>)
       else if c = 0x11 \<and> length r = 1 then nor_started (f\<lparr>nor_sr3 := hd r\<rparr>)
       else f)"

definition nor_slave :: "nor_chip spi_slave" where
  "nor_slave = \<lparr>sl_out = nor_answer, sl_end = nor_execute\<rparr>"

text \<open>What is written within a page arrives there.\<close>

lemma latch_within:
  "off + length ds \<le> 256 \<Longrightarrow>
   latch off ds L = (\<lambda>k. if off \<le> k \<and> k < off + length ds then ds ! (k - off) else L k)"
proof (induction ds arbitrary: off L)
  case (Cons d ds)
  show ?case
  proof (cases "ds = []")
    case True
    then show ?thesis by (auto simp: fun_eq_iff)
  next
    case False
    then have "Suc off < 256" using Cons.prems by (cases ds) auto
    then show ?thesis using Cons by (auto simp: fun_eq_iff nth_Cons' Suc_le_eq)
  qed
qed (auto simp: fun_eq_iff)

text \<open>Programming bytes from an address on.\<close>

definition programmed :: "nat \<Rightarrow> bytes \<Rightarrow> (nat \<Rightarrow> u8) \<Rightarrow> nat \<Rightarrow> u8" where
  "programmed addr ds m = (\<lambda>a. if addr \<le> a \<and> a < addr + length ds then m a AND ds ! (a - addr) else m a)"

lemma program_page_within:
  assumes "addr mod 256 + length ds \<le> 256"
  shows "program_page addr ds m = programmed addr ds m"
proof
  fix a :: nat
  have a: "a = 256 * (a div 256) + a mod 256" and b: "addr = 256 * (addr div 256) + addr mod 256" by simp_all
  show "program_page addr ds m a = programmed addr ds m a"
  proof (cases "a div 256 = addr div 256")
    case True
    then have *: "addr mod 256 \<le> a mod 256 \<longleftrightarrow> addr \<le> a" "a mod 256 < addr mod 256 + length ds \<longleftrightarrow> a < addr + length ds"
        "a mod 256 - addr mod 256 = a - addr"
      using a b by linarith+
    have "(0xFF :: u8) = - 1" by simp
    then have "m a AND 0xFF = m a" by (simp only: and.right_neutral)
    then show ?thesis using True * assms
      by (simp add: program_page_def programmed_def latch_within Let_def)
  next
    case False
    have "a < addr \<or> addr + length ds \<le> a"
    proof (cases "a div 256 < addr div 256")
      case True
      then show ?thesis using a b div_le_mono [of addr a 256] by (auto simp: not_le [symmetric])
    next
      case False': False
      then have "addr div 256 < a div 256" using False by simp
      then have "256 * (addr div 256) + 256 \<le> a" using a by linarith
      then show ?thesis using assms b by linarith
    qed
    then show ?thesis using False by (auto simp: program_page_def programmed_def Let_def)
  qed
qed

lemma programmed_append: "programmed (addr + length xs) ys (programmed addr xs m) = programmed addr (xs @ ys) m"
  by (auto simp: programmed_def fun_eq_iff nth_append)

lemma programmed_Nil [simp]: "programmed addr [] m = m"
  by (auto simp: programmed_def fun_eq_iff)

lemma addr24_cmd: "addr24 (tl (addr_cmd c A) @ xs) = unat A mod 2 ^ 24"
proof -
  have "unat (ucast (drop_bit 16 A) :: u8) = unat A div 65536 mod 256"
    "unat (ucast (drop_bit 8 A) :: u8) = unat A div 256 mod 256" "unat (ucast A :: u8) = unat A mod 256"
    by (simp_all add: unsigned_ucast_eq unsigned_drop_bit_eq take_bit_eq_mod drop_bit_eq_div unat_div)
  moreover have "n mod 2 ^ 24 = n div 65536 mod 256 * 65536 + n div 256 mod 256 * 256 + n mod 256" for n :: nat
  proof -
    have "n mod (256 * 65536) = 256 * (n div 256 mod 65536) + n mod 256"
      "n div 256 mod (256 * 256) = 256 * (n div 256 div 256 mod 256) + n div 256 mod 256"
      by (simp_all only: mod_mult2_eq)
    then show ?thesis by (simp add: div_mult2_eq [symmetric])
  qed
  ultimately show ?thesis by (simp add: addr_cmd_def)
qed

text \<open>Erasing the sectors with the numbers \<open>is\<close>, counted from an address.\<close>

definition wiped :: "nat \<Rightarrow> nat list \<Rightarrow> (nat \<Rightarrow> u8) \<Rightarrow> nat \<Rightarrow> u8" where
  "wiped addr is m = (\<lambda>a. if \<exists>i \<in> set is. a div 4096 = (addr + 4096 * i) mod 2 ^ 24 div 4096 then 0xFF else m a)"

lemma wiped_Cons: "wiped addr is (erase_sector ((addr + 4096 * i) mod 2 ^ 24) m) = wiped addr (i # is) m"
  by (auto simp: wiped_def erase_sector_def fun_eq_iff)

lemma wiped_range:
  assumes "addr mod 4096 = 0" and "addr + 4096 * n \<le> 2 ^ 24"
  shows "wiped addr [0..<n] m = (\<lambda>a. if addr \<le> a \<and> a < addr + 4096 * n then 0xFF else m a)"
proof -
  have q: "addr = 4096 * (addr div 4096)" using assms(1) by auto
  have "(\<exists>i \<in> set [0..<n]. a div 4096 = (addr + 4096 * i) mod 2 ^ 24 div 4096) \<longleftrightarrow>
      addr \<le> a \<and> a < addr + 4096 * n" for a
  proof -
    have "(addr + 4096 * i) mod 2 ^ 24 div 4096 = addr div 4096 + i" if "i < n" for i
      using assms(2) that by simp
    then have "(\<exists>i \<in> set [0..<n]. a div 4096 = (addr + 4096 * i) mod 2 ^ 24 div 4096) \<longleftrightarrow>
        (\<exists>i < n. a div 4096 = addr div 4096 + i)" by auto
    also have "\<dots> \<longleftrightarrow> addr div 4096 \<le> a div 4096 \<and> a div 4096 < addr div 4096 + n"
      by (auto intro!: exI [of _ "a div 4096 - addr div 4096"])
    also have "\<dots> \<longleftrightarrow> addr \<le> a \<and> a < addr + 4096 * n" using q by linarith
    finally show ?thesis .
  qed
  then show ?thesis unfolding wiped_def by simp
qed

subsection \<open>Outcomes of an operation\<close>

text \<open>
  The operation returns; if it reports success the chip is in state \<open>f\<close> (and the buffer has \<open>r\<close>); on
  a \<open>live\<close> device it succeeds.
\<close>

definition runs :: "bool \<Rightarrow> ('s \<Rightarrow> 'f \<Rightarrow> bool) \<Rightarrow> ('s \<times> efi_status) option \<Rightarrow> 'f \<Rightarrow> bool" where
  "runs live holds res f = (\<exists>s' st. res = Some (s', st) \<and> (\<exists>g. holds s' g) \<and>
     (if st = EFI_SUCCESS then holds s' f else EFI_ERROR st \<and> \<not> live))"

definition gives ::
    "bool \<Rightarrow> ('s \<Rightarrow> 'f \<Rightarrow> bool) \<Rightarrow> ('s \<times> efi_status \<times> bytes) option \<Rightarrow> 'f \<Rightarrow> bytes \<Rightarrow> bool" where
  "gives live holds res f r = (\<exists>s' st d. res = Some (s', st, d) \<and> (\<exists>g. holds s' g) \<and>
     (if st = EFI_SUCCESS then holds s' f \<and> d = r else EFI_ERROR st \<and> \<not> live))"

lemma runs_bind:
  assumes "runs live holds m f" and "\<And>s1. holds s1 f \<Longrightarrow> runs live holds (k s1) f'"
  shows "runs live holds (do { (s1, st) \<leftarrow> m; if EFI_ERROR st then Some (s1, st) else k s1 }) f'"
proof -
  obtain s1 st g where m: "m = Some (s1, st)" "holds s1 g"
      "if st = EFI_SUCCESS then holds s1 f else EFI_ERROR st \<and> \<not> live"
    using assms(1) by (auto simp: runs_def)
  then show ?thesis using assms(2) [of s1] by (cases "st = EFI_SUCCESS") (auto simp: runs_def)
qed

lemma gives_bind:
  assumes "gives live holds m f r" and "\<And>s1. holds s1 f \<Longrightarrow> gives live holds (k s1) f' r'"
  shows "gives live holds (do { (s1, st, d) \<leftarrow> m; if EFI_ERROR st then Some (s1, EFI_DEVICE_ERROR, d)
    else do { (s2, st, ds) \<leftarrow> k s1; Some (s2, st, d @ ds) } }) f' (r @ r')"
proof -
  obtain s1 st d g where m: "m = Some (s1, st, d)" "holds s1 g"
      "if st = EFI_SUCCESS then holds s1 f \<and> d = r else EFI_ERROR st \<and> \<not> live"
    using assms(1) by (auto simp: gives_def)
  show ?thesis
  proof (cases "st = EFI_SUCCESS")
    case True
    then obtain s2 st2 ds g2 where "k s1 = Some (s2, st2, ds)" "holds s2 g2"
        "if st2 = EFI_SUCCESS then holds s2 f' \<and> ds = r' else EFI_ERROR st2 \<and> \<not> live"
      using assms(2) [of s1] m(3) by (auto simp: gives_def)
    then show ?thesis using m True by (auto simp: gives_def split: if_splits)
  next
    case False
    then show ?thesis using m by (auto simp: gives_def)
  qed
qed

lemma gives_runs:
  assumes "gives live holds m f r" and "\<And>s1. holds s1 f \<Longrightarrow> runs live holds (k s1 r) f'"
    and "\<And>s1 st d. EFI_ERROR st \<Longrightarrow> EFI_ERROR (e st)"
  shows "runs live holds (do { (s1, st, d) \<leftarrow> m; if EFI_ERROR st then Some (s1, e st) else k s1 d }) f'"
proof -
  obtain s1 st d g where m: "m = Some (s1, st, d)" "holds s1 g"
      "if st = EFI_SUCCESS then holds s1 f \<and> d = r else EFI_ERROR st \<and> \<not> live"
    using assms(1) by (auto simp: gives_def)
  show ?thesis
  proof (cases "st = EFI_SUCCESS")
    case True
    then show ?thesis using assms(2) [of s1] m by simp
  next
    case False
    then have "EFI_ERROR (e st)" using m(3) assms(3) by simp
    then have "e st \<noteq> EFI_SUCCESS" by (auto simp: EFI_ERROR_def)
    then show ?thesis using m False \<open>EFI_ERROR (e st)\<close> by (auto simp: runs_def)
  qed
qed

subsection \<open>The driver, from the contract of the transfers\<close>

locale nor_flash = spi_device nor_slave "hal_read hal" "hal_write hal" holds
  for hal :: "'s spi_hal" and holds :: "'s \<Rightarrow> nor_chip \<Rightarrow> bool" +
  fixes reliable :: bool
  assumes no_failure: "reliable \<Longrightarrow> live_spi_device nor_slave (hal_read hal) (hal_write hal) holds"

context nor_flash begin

lemma HalRead_gives:
  assumes "holds s f" and "cmd \<noteq> []" "length cmd \<le> 8" and "0 < unat n" "unat n < 2 ^ 16"
    and "\<And>ds. length ds = unat n \<Longrightarrow> nor_execute f (cmd @ ds) = f'"
    and "\<And>ds. length ds < unat n \<Longrightarrow> nor_answer f (cmd @ ds) = out (length ds)"
  shows "gives reliable holds (HalRead hal cmd n s) f' (map out [0..<unat n])"
proof -
  obtain s' err d ds where r: "hal_read hal s cmd n = Some (s', err, d)"
      "if err = 0 then length ds = unat n \<and> d = map (\<lambda>i. sl_out nor_slave f (cmd @ take i ds)) [0..<unat n] \<and>
         holds s' (sl_end nor_slave f (cmd @ ds))
       else \<exists>xs. holds s' (if xs = [] then f else sl_end nor_slave f xs)"
    using read_transfer [OF assms(1-5)] by blast
  have live: "err = 0" if reliable
    using live_spi_device.read_succeeds [OF no_failure [OF that] assms(1-5) r(1)] .
  show ?thesis
  proof (cases "err = 0")
    case True
    then have "d = map out [0..<unat n]" "holds s' f'"
      using r(2) assms(6,7) by (auto simp: nor_slave_def intro!: map_cong)
    then show ?thesis using True r(1) by (auto simp: gives_def HalRead_def)
  next
    case False
    then show ?thesis using r live by (auto simp: gives_def HalRead_def)
  qed
qed

lemma HalWrite_runs:
  assumes "holds s f" and "cmd \<noteq> []" "length cmd \<le> 8"
  shows "runs reliable holds (HalWrite hal cmd data s) (nor_execute f (cmd @ data))"
proof -
  obtain s' err where w: "hal_write hal s cmd data = (s', err)" by fastforce
  have "if err = 0 then holds s' (sl_end nor_slave f (cmd @ data))
      else \<exists>xs. holds s' (if xs = [] then f else sl_end nor_slave f xs)"
    using write_transfer [OF assms w] .
  moreover have "err = 0" if reliable
    using live_spi_device.write_succeeds [OF no_failure [OF that] assms w] .
  ultimately show ?thesis using w by (auto simp: runs_def HalWrite_def nor_slave_def)
qed

lemma not_busy: "nor_busy f = 0 \<Longrightarrow> f\<lparr>nor_busy := 0\<rparr> = f"
  by (cases f) simp

lemma status_gives:
  assumes "holds s f"
  shows "gives reliable holds (FlashReadStatus hal CMD_READ_STATUS s) (f\<lparr>nor_busy := nor_busy f - 1\<rparr>) [nor_status f]"
proof -
  have "nor_execute f ([0x05] @ ds) = f\<lparr>nor_busy := nor_busy f - 1\<rparr>" for ds
    by (cases "nor_busy f = 0") (auto simp: nor_execute_def)
  moreover have "nor_answer f ([0x05] @ ds) = nor_status f" for ds by (simp add: nor_answer_def)
  ultimately have "gives reliable holds (HalRead hal [0x05] 1 s) (f\<lparr>nor_busy := nor_busy f - 1\<rparr>)
      (map (\<lambda>_. nor_status f) [0..<unat (1 :: u32)])"
    using assms by (intro HalRead_gives) simp_all
  then show ?thesis by (simp add: FlashReadStatus_def CMD_READ_STATUS_def)
qed

lemma status_bits: "(nor_status f AND 2 \<noteq> 0) = nor_wel f" "(nor_status f AND 1 = 0) = (nor_busy f = 0)"
proof -
  have "(x AND 0xFC OR y OR z) AND 2 = (y OR z) AND 2" "(x AND 0xFC OR y OR z) AND 1 = (y OR z) AND 1"
    for x y z :: u8 by (simp_all add: bit.conj_disj_distrib2 and.assoc)
  then show "(nor_status f AND 2 \<noteq> 0) = nor_wel f" "(nor_status f AND 1 = 0) = (nor_busy f = 0)"
    by (auto simp: nor_status_def)
qed

lemma wel_poll_runs:
  assumes "holds s f" and "nor_wel f" and "nor_busy f = 0"
  shows "runs reliable holds (wel_poll hal (Suc n) s) f"
  unfolding wel_poll.simps
proof (rule gives_runs [where e = "\<lambda>st. st"])
  show "gives reliable holds (FlashReadStatus hal CMD_READ_STATUS s) f [nor_status f]"
    using status_gives [OF assms(1)] assms(3) by (simp add: not_busy)
  fix s1 assume "holds s1 f"
  then show "runs reliable holds (do { v \<leftarrow> rd8 [nor_status f] 0;
      if v AND 2 \<noteq> 0 then Some (s1, EFI_SUCCESS) else wel_poll hal n s1 }) f"
    using status_bits(1) [of f] assms(2) by (auto simp: runs_def)
qed

lemma FlashWriteEnable_runs:
  assumes "holds s f" and "nor_busy f = 0"
  shows "runs reliable holds (FlashWriteEnable hal s) (f\<lparr>nor_wel := True\<rparr>)"
  unfolding FlashWriteEnable_def HalCmdOnly_def
proof (rule runs_bind)
  show "runs reliable holds (HalWrite hal [CMD_WRITE_ENABLE] [] s) (f\<lparr>nor_wel := True\<rparr>)"
    using HalWrite_runs [OF assms(1), of "[6]" "[]"] assms(2) by (simp add: nor_execute_def nor_cmds)
  fix s1 assume "holds s1 (f\<lparr>nor_wel := True\<rparr>)"
  then show "runs reliable holds (wel_poll hal 100 s1) (f\<lparr>nor_wel := True\<rparr>)"
    using wel_poll_runs [of s1 _ 99] assms(2) by (simp add: numeral_eq_Suc)
qed

lemma wip_poll_runs:
  "holds s f \<Longrightarrow> nor_busy f < n \<Longrightarrow> runs reliable holds (wip_poll hal n s) (f\<lparr>nor_busy := 0\<rparr>)"
proof (induction n arbitrary: s f)
  case (Suc n)
  show ?case unfolding wip_poll.simps
  proof (rule gives_runs [where e = "\<lambda>_. EFI_DEVICE_ERROR", OF status_gives [OF Suc.prems(1)]])
    fix s1 assume s1: "holds s1 (f\<lparr>nor_busy := nor_busy f - 1\<rparr>)"
    show "runs reliable holds (do { v \<leftarrow> rd8 [nor_status f] 0;
        if v AND 1 = 0 then Some (s1, EFI_SUCCESS) else wip_poll hal n s1 }) (f\<lparr>nor_busy := 0\<rparr>)"
    proof (cases "nor_busy f = 0")
      case True
      then show ?thesis using s1 status_bits(2) [of f] by (auto simp: runs_def)
    next
      case False
      then show ?thesis using Suc.IH [OF s1] Suc.prems(2) status_bits(2) [of f] by simp
    qed
  qed simp
qed simp

lemma FlashWaitReady_runs:
  assumes "holds s (nor_started f)" and "nor_lat f < 10000"
  shows "runs reliable holds (FlashWaitReady hal s) (f\<lparr>nor_wel := False, nor_busy := 0\<rparr>)"
  using wip_poll_runs [OF assms(1), of WIP_POLL_MAX] assms(2)
  by (simp add: FlashWaitReady_def nor_started_def nor_consts)

text \<open>Write-enable, one command and the wait: what all operations that change the chip do.\<close>

lemma modify_runs:
  assumes "holds s f" and "nor_busy f = 0" and "nor_lat f < 10000" and "cmd \<noteq> []" "length cmd \<le> 8"
    and "nor_execute (f\<lparr>nor_wel := True\<rparr>) (cmd @ data) = nor_started f'" "nor_lat f' = nor_lat f"
    and "\<And>s3. holds s3 (f'\<lparr>nor_wel := False, nor_busy := 0\<rparr>) \<Longrightarrow> runs reliable holds (k s3) g"
  shows "runs reliable holds (do {
      (s1, st) \<leftarrow> FlashWriteEnable hal s;
      if EFI_ERROR st then Some (s1, st)
      else do {
        (s2, st) \<leftarrow> HalWrite hal cmd data s1;
        if EFI_ERROR st then Some (s2, st)
        else do {
          (s3, st) \<leftarrow> FlashWaitReady hal s2;
          if EFI_ERROR st then Some (s3, st) else k s3
        }
      }
    }) g"
proof (rule runs_bind [OF FlashWriteEnable_runs [OF assms(1,2)]])
  fix s1 assume s1: "holds s1 (f\<lparr>nor_wel := True\<rparr>)"
  show "runs reliable holds (do { (s2, st) \<leftarrow> HalWrite hal cmd data s1; if EFI_ERROR st then Some (s2, st)
      else do { (s3, st) \<leftarrow> FlashWaitReady hal s2; if EFI_ERROR st then Some (s3, st) else k s3 } }) g"
  proof (rule runs_bind)
    show "runs reliable holds (HalWrite hal cmd data s1) (nor_started f')"
      using HalWrite_runs [OF s1 assms(4,5), of data] assms(6) by simp
    fix s2 assume "holds s2 (nor_started f')"
    then show "runs reliable holds (do { (s3, st) \<leftarrow> FlashWaitReady hal s2;
        if EFI_ERROR st then Some (s3, st) else k s3 }) g"
      using assms(3,7,8) by (intro runs_bind [OF FlashWaitReady_runs [where f = f']]) simp_all
  qed
qed

text \<open>Reading.\<close>

lemma addr_mod: "unat (A + Offset :: u32) mod 2 ^ 24 = (unat A + unat Offset) mod 2 ^ 24"
proof -
  have "(unat A + unat Offset) mod 2 ^ 32 mod 2 ^ 24 = (unat A + unat Offset) mod 2 ^ 24"
    by (rule mod_mod_cancel) simp
  then show ?thesis by (simp add: unat_word_ariths)
qed

lemma addr_mod_add: "((unat (A + Offset :: u32) mod 2 ^ 24) + k) mod 2 ^ 24 = (unat A + unat Offset + k) mod 2 ^ 24"
  unfolding addr_mod by (rule mod_add_left_eq)

lemma read_chunk_gives:
  assumes "holds s f" and "nor_busy f = 0" and "0 < unat n" "unat n < 2 ^ 16"
  shows "gives reliable holds (HalRead hal (addr_cmd CMD_READ_DATA A) n s) f
    (map (\<lambda>i. nor_mem f ((unat A mod 2 ^ 24 + i) mod 2 ^ 24)) [0..<unat n])"
proof (rule HalRead_gives)
  fix ds :: bytes
  let ?r = "tl (addr_cmd CMD_READ_DATA A) @ ds"
  have "addr24 ?r = unat A mod 2 ^ 24" "length ?r = 3 + length ds"
    by (rule addr24_cmd) (simp add: addr_cmd_def)
  then have "nor_answer f (0x03 # ?r) = nor_mem f ((unat A mod 2 ^ 24 + length ds) mod 2 ^ 24)"
    using assms(2) unfolding nor_answer_def by simp
  then show "nor_answer f (addr_cmd CMD_READ_DATA A @ ds) = nor_mem f ((unat A mod 2 ^ 24 + length ds) mod 2 ^ 24)"
    by (simp add: addr_cmd_def nor_cmds)
qed (use assms in \<open>simp_all add: addr_cmd_def nor_execute_def nor_cmds\<close>)

lemma read_chunks_gives:
  assumes "holds s f" and "nor_busy f = 0"
  shows "gives reliable holds (read_chunks hal A n Offset s) f
    (map (\<lambda>i. nor_mem f ((unat A + i) mod 2 ^ 24)) [unat Offset..<unat n])"
  using assms(1)
proof (induction "unat n - unat Offset" arbitrary: Offset s rule: less_induct)
  case less
  show ?case
  proof (cases "Offset < n")
    case False
    then have "read_chunks hal A n Offset s = Some (s, EFI_SUCCESS, [])" "unat n \<le> unat Offset"
      by (simp_all add: read_chunks.simps word_less_nat_alt)
    then show ?thesis using less.prems by (auto simp: gives_def)
  next
    case True
    define c where "c = min FLASH_SECTOR_SIZE (n - Offset)"
    have o: "unat Offset < unat n" using True by (simp add: word_less_nat_alt)
    have c: "unat (Offset + c) = unat Offset + min 4096 (unat n - unat Offset)"
      "unat n - unat (Offset + c) < unat n - unat Offset"
      using chunk_less [OF True, of FLASH_SECTOR_SIZE] by (simp_all add: c_def nor_consts)
    have "unat c = min 4096 (unat n - unat Offset)"
      using True by (simp add: c_def nor_consts min_def word_le_nat_alt unat_sub_if' word_less_nat_alt)
    then have uc: "unat (Offset + c) = unat Offset + unat c" "0 < unat c" "unat c < 2 ^ 16" "unat (Offset + c) \<le> unat n"
      using c(1) o unfolding min_def by (auto split: if_splits)
    have "read_chunks hal A n Offset s = do {
        (s1, st, d) \<leftarrow> HalRead hal (addr_cmd CMD_READ_DATA (A + Offset)) c s;
        if EFI_ERROR st then Some (s1, EFI_DEVICE_ERROR, d)
        else do { (s2, st, ds) \<leftarrow> read_chunks hal A n (Offset + c) s1; Some (s2, st, d @ ds) } }"
      using True by (subst read_chunks.simps) (simp add: c_def [symmetric] Let_def)
    moreover have "gives reliable holds (HalRead hal (addr_cmd CMD_READ_DATA (A + Offset)) c s) f
        (map (\<lambda>i. nor_mem f ((unat A + i) mod 2 ^ 24)) [unat Offset..<unat (Offset + c)])"
    proof -
      have "map (\<lambda>i. nor_mem f ((unat (A + Offset) mod 2 ^ 24 + i) mod 2 ^ 24)) [0..<unat c] =
          map (\<lambda>i. nor_mem f ((unat A + i) mod 2 ^ 24)) [unat Offset..<unat (Offset + c)]"
        unfolding addr_mod_add uc(1) by (rule nth_equalityI) (simp_all add: add.assoc)
      then show ?thesis using read_chunk_gives [OF less.prems assms(2) uc(2,3), of "A + Offset"] by simp
    qed
    moreover have "map (\<lambda>i. nor_mem f ((unat A + i) mod 2 ^ 24)) [unat Offset..<unat n] =
        map (\<lambda>i. nor_mem f ((unat A + i) mod 2 ^ 24)) [unat Offset..<unat (Offset + c)] @
        map (\<lambda>i. nor_mem f ((unat A + i) mod 2 ^ 24)) [unat (Offset + c)..<unat n]"
      using uc upt_add_eq_append [of "unat Offset" "unat (Offset + c)" "unat n - unat (Offset + c)"]
      by (simp flip: map_append)
    ultimately show ?thesis using less.hyps [OF c(2)] by (simp only: gives_bind)
  qed
qed

lemma execute_program:
  assumes "nor_busy f = 0" and "nor_unlocked f" and "3 < length r"
  shows "nor_execute (f\<lparr>nor_wel := True\<rparr>) (0x02 # r) =
    nor_started (f\<lparr>nor_mem := program_page (addr24 r) (drop 3 r) (nor_mem f)\<rparr>)"
  using assms by (simp add: nor_execute_def nor_started_def nor_unlocked_def)

lemma execute_erase:
  assumes "nor_busy f = 0" and "nor_unlocked f" and "length r = 3"
  shows "nor_execute (f\<lparr>nor_wel := True\<rparr>) (0x20 # r) =
    nor_started (f\<lparr>nor_mem := erase_sector (addr24 r) (nor_mem f)\<rparr>)"
  using assms by (simp add: nor_execute_def nor_started_def nor_unlocked_def)

text \<open>Programming: the pages of the range one after the other.\<close>

lemma write_pages_runs:
  assumes "holds s f" and "nor_busy f = 0" "\<not> nor_wel f" "nor_lat f < 10000" "nor_unlocked f"
    and "unat A + unat n \<le> 2 ^ 24" and "unat n \<le> length buf"
  shows "runs reliable holds (write_pages hal A n buf s)
    (f\<lparr>nor_mem := programmed (unat A) (take (unat n) buf) (nor_mem f)\<rparr>)"
  using assms
proof (induction "unat n" arbitrary: A n buf s f rule: less_induct)
  case less
  show ?case
  proof (cases "n = 0")
    case True
    then show ?thesis using less.prems(1) by (subst write_pages.simps) (auto simp: runs_def)
  next
    case False
    define c where "c = page_chunk A n"
    define f' where "f' = f\<lparr>nor_mem := programmed (unat A) (take (unat c) buf) (nor_mem f)\<rparr>"
    have c: "0 < unat c" "unat c \<le> unat n" "unat A mod 256 + unat c \<le> 256" "unat (n - c) = unat n - unat c"
      using page_chunk_pos [OF False, of A] unat_minus_page_chunk [of n A]
      by (simp_all add: c_def unat_page_chunk)
    have a: "unat (A + c) = unat A + unat c"
      using less.prems(6) c(2) by (subst unat_word_ariths) simp
    have ds: "unat A mod 256 + length (take (unat c) buf) \<le> 256" "take (unat c) buf \<noteq> []"
      using c less.prems(7) by auto
    have ex: "nor_execute (f\<lparr>nor_wel := True\<rparr>) (addr_cmd CMD_PAGE_PROGRAM A @ take (unat c) buf) = nor_started f'"
    proof -
      let ?r = "tl (addr_cmd CMD_PAGE_PROGRAM A) @ take (unat c) buf"
      have e: "addr_cmd CMD_PAGE_PROGRAM A @ take (unat c) buf = 0x02 # ?r" by (simp add: addr_cmd_def nor_cmds)
      have "addr24 ?r = unat A" using addr24_cmd [of _ A] less.prems(6) c(1,2) by simp
      moreover have "drop 3 ?r = take (unat c) buf" "3 < length ?r"
        using ds(2) by (simp_all add: addr_cmd_def)
      ultimately show ?thesis using program_page_within [OF ds(1)] execute_program [OF less.prems(2,5), of ?r]
        by (subst e) (simp only: f'_def)
    qed
    have k: "runs reliable holds (write_pages hal (A + c) (n - c) (drop (unat c) buf) s3)
        (f\<lparr>nor_mem := programmed (unat A) (take (unat n) buf) (nor_mem f)\<rparr>)"
      if "holds s3 (f'\<lparr>nor_wel := False, nor_busy := 0\<rparr>)" for s3
    proof -
      have f': "f'\<lparr>nor_wel := False, nor_busy := 0\<rparr> = f'" using less.prems(2,3) by (cases f) (simp add: f'_def)
      have "programmed (unat A + unat c) (take (unat n - unat c) (drop (unat c) buf)) (programmed (unat A) (take (unat c) buf) (nor_mem f))
          = programmed (unat A) (take (unat n) buf) (nor_mem f)"
        using programmed_append [of "unat A" "take (unat c) buf" "take (unat n - unat c) (drop (unat c) buf)" "nor_mem f"]
          less.prems(7) c(2) take_add [of "unat c" "unat n - unat c" buf] by simp
      then show ?thesis
        using less.hyps [of "n - c" s3 f' "A + c" "drop (unat c) buf"] that [unfolded f'] c a less.prems
        by (simp add: f'_def nor_unlocked_def)
    qed
    have step: "write_pages hal A n buf s = do {
        (s1, st) \<leftarrow> FlashWriteEnable hal s;
        if EFI_ERROR st then Some (s1, st)
        else do {
          (s2, st) \<leftarrow> HalWrite hal (addr_cmd CMD_PAGE_PROGRAM A) (take (unat c) buf) s1;
          if EFI_ERROR st then Some (s2, st)
          else do {
            (s3, st) \<leftarrow> FlashWaitReady hal s2;
            if EFI_ERROR st then Some (s3, st)
            else write_pages hal (A + c) (n - c) (drop (unat c) buf) s3
          }
        }
      }"
      using False c(2) less.prems(7)
      by (subst write_pages.simps) (simp add: c_def [symmetric] Let_def cong: if_cong)
    show ?thesis unfolding step
      by (rule modify_runs [OF less.prems(1,2,4) _ _ ex _ k]) (simp_all add: addr_cmd_def f'_def)
  qed
qed

text \<open>Erasing: the sectors of the range, with addresses cut to 24 bits.\<close>

lemma erase_sectors_runs:
  assumes "holds s f" and "nor_busy f = 0" "\<not> nor_wel f" "nor_lat f < 10000" "nor_unlocked f"
    and "i \<le> n"
  shows "runs reliable holds (erase_sectors hal A n i s)
    (f\<lparr>nor_mem := wiped (unat A) [unat i..<unat n] (nor_mem f)\<rparr>)"
  using assms
proof (induction "unat n - unat i" arbitrary: i s f rule: less_induct)
  case less
  show ?case
  proof (cases "i < n")
    case False
    then have "i = n" using less.prems(6) by simp
    then have "erase_sectors hal A n i s = Some (s, EFI_SUCCESS)" by (simp add: erase_sectors.simps)
    then show ?thesis using less.prems(1) \<open>i = n\<close> by (auto simp: runs_def wiped_def)
  next
    case True
    define B where "B = A + i * FLASH_SECTOR_SIZE"
    define f' where "f' = f\<lparr>nor_mem := erase_sector (unat B mod 2 ^ 24) (nor_mem f)\<rparr>"
    have i: "unat (i + 1) = Suc (unat i)" "unat n - unat (i + 1) < unat n - unat i" "i + 1 \<le> n"
      using idx_less [OF True] True by (simp_all add: word_le_nat_alt word_less_nat_alt)
    have ex: "nor_execute (f\<lparr>nor_wel := True\<rparr>) (addr_cmd CMD_SECTOR_ERASE B @ []) = nor_started f'"
    proof -
      let ?r = "tl (addr_cmd CMD_SECTOR_ERASE B) @ []"
      have e: "addr_cmd CMD_SECTOR_ERASE B @ [] = 0x20 # ?r" by (simp add: addr_cmd_def nor_cmds)
      show ?thesis using execute_erase [OF less.prems(2,5), of ?r] addr24_cmd [of CMD_SECTOR_ERASE B "[]"]
        by (subst e) (simp add: f'_def addr_cmd_def)
    qed
    have B: "unat B mod 2 ^ 24 = (unat A + 4096 * unat i) mod 2 ^ 24"
    proof -
      have "unat (i * 4096) mod 2 ^ 24 = (unat i * 4096) mod 2 ^ 32 mod 2 ^ 24" by (simp add: unat_word_ariths)
      also have "\<dots> = (unat i * 4096) mod 2 ^ 24" by (rule mod_mod_cancel) simp
      finally have "(unat A + unat (i * 4096)) mod 2 ^ 24 = (unat A + unat i * 4096) mod 2 ^ 24"
        by (rule mod_add_cong [OF refl])
      then show ?thesis unfolding B_def addr_mod by (simp add: nor_consts mult.commute)
    qed
    have k: "runs reliable holds (erase_sectors hal A n (i + 1) s3)
        (f\<lparr>nor_mem := wiped (unat A) [unat i..<unat n] (nor_mem f)\<rparr>)"
      if "holds s3 (f'\<lparr>nor_wel := False, nor_busy := 0\<rparr>)" for s3
    proof -
      have f': "f'\<lparr>nor_wel := False, nor_busy := 0\<rparr> = f'" using less.prems(2,3) by (cases f) (simp add: f'_def)
      have "wiped (unat A) [unat (i + 1)..<unat n] (nor_mem f') = wiped (unat A) [unat i..<unat n] (nor_mem f)"
        using True B wiped_Cons [of "unat A" _ "unat i" "nor_mem f"]
        by (simp add: f'_def i(1) upt_conv_Cons word_less_nat_alt)
      then show ?thesis using less.hyps [OF i(2), of s3 f'] that [unfolded f'] less.prems i(3)
        by (simp add: f'_def nor_unlocked_def)
    qed
    have step: "erase_sectors hal A n i s = do {
        (s1, st) \<leftarrow> FlashWriteEnable hal s;
        if EFI_ERROR st then Some (s1, st)
        else do {
          (s2, st) \<leftarrow> HalWrite hal (addr_cmd CMD_SECTOR_ERASE B) [] s1;
          if EFI_ERROR st then Some (s2, st)
          else do {
            (s3, st) \<leftarrow> FlashWaitReady hal s2;
            if EFI_ERROR st then Some (s3, st) else erase_sectors hal A n (i + 1) s3
          }
        }
      }"
      using True by (subst erase_sectors.simps) (simp add: B_def HalCmdOnly_def cong: if_cong)
    show ?thesis unfolding step
      by (rule modify_runs [OF less.prems(1,2,4) _ _ ex _ k]) (simp_all add: addr_cmd_def f'_def)
  qed
qed

text \<open>The protocol functions.\<close>

lemma read_data_gives:
  assumes "holds s f" and "nor_busy f = 0" and "A + n \<le> FLASH_SIZE"
  shows "gives reliable holds (SpiNorReadData hal A n s) f
    (map (\<lambda>i. nor_mem f ((unat A + i) mod 2 ^ 24)) [0..<unat n])"
  using read_chunks_gives [OF assms(1,2), of A n 0] assms(3) by (simp add: SpiNorReadData_def leD)

lemma in_range: "unat A + unat n \<le> 2 ^ 24 \<Longrightarrow> A + n \<le> FLASH_SIZE"
  by (simp add: nor_consts word_le_nat_alt unat_word_ariths)

lemma write_data_runs:
  assumes "holds s f" and "nor_busy f = 0" "\<not> nor_wel f" "nor_lat f < 10000" "nor_unlocked f"
    and "unat A + unat n \<le> 2 ^ 24" and "unat n \<le> length buf"
  shows "runs reliable holds (SpiNorWriteData hal A n buf s)
    (f\<lparr>nor_mem := programmed (unat A) (take (unat n) buf) (nor_mem f)\<rparr>)"
  using write_pages_runs [OF assms] in_range [OF assms(6)] by (simp add: SpiNorWriteData_def leD)

lemma erase_runs:
  assumes "holds s f" and "nor_busy f = 0" "\<not> nor_wel f" "nor_lat f < 10000" "nor_unlocked f"
    and "unat A mod 4096 = 0" and "A + n * FLASH_SECTOR_SIZE \<le> FLASH_SIZE"
  shows "runs reliable holds (SpiNorErase hal A n s) (f\<lparr>nor_mem := wiped (unat A) [0..<unat n] (nor_mem f)\<rparr>)"
proof -
  have "A AND (FLASH_SECTOR_SIZE - 1) = 0"
    using assms(6) unat_and_4095 [of A] by (simp add: nor_consts flip: unat_eq_zero)
  then show ?thesis using erase_sectors_runs [OF assms(1-5), of 0 n A] assms(7)
    by (simp add: SpiNorErase_def leD)
qed

lemma write_status_runs:
  assumes "holds s f" and "nor_busy f = 0" "\<not> nor_wel f" "nor_lat f < 10000" and "1 \<le> n"
  shows "runs reliable holds (SpiNorWriteStatus hal n (v # vs) s) (f\<lparr>nor_sr1 := v AND 0xFC\<rparr>)"
proof -
  let ?f' = "f\<lparr>nor_sr1 := v AND 0xFC\<rparr>"
  have step: "SpiNorWriteStatus hal n (v # vs) s = do {
      (s1, st) \<leftarrow> FlashWriteEnable hal s;
      if EFI_ERROR st then Some (s1, st)
      else do {
        (s2, st) \<leftarrow> HalWrite hal [CMD_WRITE_STATUS] [v] s1;
        if EFI_ERROR st then Some (s2, st) else FlashWaitReady hal s2
      }
    }"
    using assms(5) by (cases "n = 0") (simp_all add: SpiNorWriteStatus_def cong: if_cong)
  have "nor_execute (f\<lparr>nor_wel := True\<rparr>) ([CMD_WRITE_STATUS] @ [v]) = nor_started ?f'"
    using assms(2) by (simp add: nor_execute_def nor_cmds nor_started_def)
  moreover have "?f'\<lparr>nor_wel := False, nor_busy := 0\<rparr> = ?f'" using assms(2,3) by (cases f) simp
  ultimately show ?thesis unfolding step
    using HalWrite_runs [of _ "f\<lparr>nor_wel := True\<rparr>" "[CMD_WRITE_STATUS]" "[v]"] FlashWaitReady_runs [of _ ?f'] assms(4)
    by (auto intro!: runs_bind FlashWriteEnable_runs [OF assms(1,2)])
qed

text \<open>Start-up, on a device on which no transfer fails.\<close>

lemma runs_live: "runs True holds m f \<Longrightarrow> \<exists>s'. m = Some (s', EFI_SUCCESS) \<and> holds s' f"
  by (auto simp: runs_def split: if_splits)

lemma gives_live: "gives True holds m f r \<Longrightarrow> \<exists>s'. m = Some (s', EFI_SUCCESS, r) \<and> holds s' f"
  by (auto simp: gives_def split: if_splits)

lemma clear_bits_run:
  assumes reliable and "holds s f" and "nor_busy f = 0" "nor_lat f < 10000"
    and "nor_execute (f\<lparr>nor_wel := True\<rparr>) [Cmd, Sr AND NOT msk] = nor_started f'" "nor_lat f' = nor_lat f"
  shows "\<exists>s'. clear_bits hal Cmd msk Sr s = Some s' \<and>
    holds s' (if Sr AND msk \<noteq> 0 then f'\<lparr>nor_wel := False, nor_busy := 0\<rparr> else f)"
proof (cases "Sr AND msk \<noteq> 0")
  case True
  have live: "reliable = True" using assms(1) by simp
  obtain s1 where s1: "FlashWriteEnable hal s = Some (s1, EFI_SUCCESS)" "holds s1 (f\<lparr>nor_wel := True\<rparr>)"
    using runs_live [OF FlashWriteEnable_runs [OF assms(2,3), unfolded live]] by blast
  obtain s2 where s2: "HalWrite hal [Cmd] [Sr AND NOT msk] s1 = Some (s2, EFI_SUCCESS)" "holds s2 (nor_started f')"
    using runs_live [OF HalWrite_runs [OF s1(2), of "[Cmd]" "[Sr AND NOT msk]", unfolded live]] assms(5) by auto
  obtain s3 where "FlashWaitReady hal s2 = Some (s3, EFI_SUCCESS)" "holds s3 (f'\<lparr>nor_wel := False, nor_busy := 0\<rparr>)"
    using runs_live [OF FlashWaitReady_runs [OF s2(2), unfolded live]] assms(4,6) by auto
  then show ?thesis using s1(1) s2(1) True by (simp add: clear_bits_def)
qed (use assms(2) in \<open>simp add: clear_bits_def\<close>)

lemma sr_gives:
  assumes "holds s f" and "nor_busy f = 0" and "Cmd = 0x35 \<and> v = nor_sr2 f \<or> Cmd = 0x15 \<and> v = nor_sr3 f"
  shows "gives reliable holds (FlashReadStatus hal Cmd s) f [v]"
proof -
  have "nor_execute f ([Cmd] @ ds) = f" "nor_answer f ([Cmd] @ ds) = v" for ds
    using assms(2,3) by (auto simp: nor_execute_def nor_answer_def)
  then have "gives reliable holds (HalRead hal [Cmd] 1 s) f (map (\<lambda>_. v) [0..<unat (1 :: u32)])"
    using assms(1) by (intro HalRead_gives) simp_all
  then show ?thesis by (simp add: FlashReadStatus_def)
qed

lemma id_gives:
  assumes "holds s f" and "nor_busy f = 0" and "length (nor_id f) = 3"
  shows "gives reliable holds (SpiNorGetFlashId hal s) f (nor_id f)"
proof -
  have "gives reliable holds (HalRead hal [0x9F] 3 s) f (map (\<lambda>i. nor_id f ! i) [0..<unat (3 :: u32)])"
    using assms by (intro HalRead_gives) (auto simp: nor_execute_def nor_answer_def)
  moreover have "map (\<lambda>i. nor_id f ! i) [0..<3] = nor_id f"
    using map_nth [of "nor_id f"] assms(3) by simp
  ultimately show ?thesis by (simp add: SpiNorGetFlashId_def CMD_READ_ID_def)
qed

lemma clear_protection_run:
  assumes reliable and "holds s f" and "nor_busy f = 0" "\<not> nor_wel f" "nor_lat f < 10000"
  shows "\<exists>s' f'. clear_protection hal s = Some s' \<and> holds s' f' \<and> nor_mem f' = nor_mem f \<and> nor_busy f' = 0 \<and>
    \<not> nor_wel f' \<and> nor_lat f' = nor_lat f \<and> nor_id f' = nor_id f \<and> nor_unlocked f' \<and>
    nor_sr2 f' AND 0x40 = 0 \<and> nor_sr3 f' AND 0x04 = 0"
proof -
  have live: "reliable = True" using assms(1) by simp
  have off: "(x AND NOT m) AND m = 0" for x m :: u8 by (simp add: and.assoc)
  obtain s1 where s1: "FlashReadStatus hal CMD_READ_STATUS s = Some (s1, EFI_SUCCESS, [nor_status f])" "holds s1 f"
    using gives_live [OF status_gives [OF assms(2), unfolded live]] assms(3) by (auto simp: not_busy)
  obtain s2 where s2: "FlashReadStatus hal CMD_READ_STATUS2 s1 = Some (s2, EFI_SUCCESS, [nor_sr2 f])" "holds s2 f"
    using gives_live [OF sr_gives [OF s1(2) assms(3), unfolded live]] by (auto simp: nor_cmds)
  obtain s3 where s3: "FlashReadStatus hal CMD_READ_STATUS3 s2 = Some (s3, EFI_SUCCESS, [nor_sr3 f])" "holds s3 f"
    using gives_live [OF sr_gives [OF s2(2) assms(3), unfolded live]] by (auto simp: nor_cmds)
  let ?v = "nor_status f AND NOT 0x7C"
  define f1 where "f1 = (if nor_status f AND 0x7C \<noteq> 0
    then f\<lparr>nor_sr1 := ?v AND 0xFC, nor_wel := False, nor_busy := 0\<rparr> else f)"
  obtain s4 where s4: "clear_bits hal CMD_WRITE_STATUS 0x7C (nor_status f) s3 = Some s4" "holds s4 f1"
    using clear_bits_run [OF assms(1) s3(2) assms(3,5), of CMD_WRITE_STATUS "nor_status f" "0x7C" "f\<lparr>nor_sr1 := ?v AND 0xFC\<rparr>"]
    using assms(3) by (auto simp: nor_execute_def nor_cmds nor_started_def f1_def)
  have "(?v AND 0xFC) AND 0x7C = (nor_status f AND NOT 0x7C) AND 0x7C" by (simp add: and.assoc)
  moreover have "nor_status f AND 0x7C = nor_sr1 f AND 0x7C"
    by (simp add: nor_status_def bit.conj_disj_distrib2 and.assoc)
  ultimately have f1: "nor_unlocked f1" "nor_mem f1 = nor_mem f" "nor_busy f1 = 0" "\<not> nor_wel f1" "nor_lat f1 = nor_lat f"
      "nor_id f1 = nor_id f" "nor_sr2 f1 = nor_sr2 f" "nor_sr3 f1 = nor_sr3 f"
    using assms(3,4) off [of "nor_status f" "0x7C"] by (simp_all add: f1_def nor_unlocked_def)
  define f2 where "f2 = (if nor_sr2 f AND 0x40 \<noteq> 0
    then f1\<lparr>nor_sr2 := nor_sr2 f AND NOT 0x40, nor_wel := False, nor_busy := 0\<rparr> else f1)"
  obtain s5 where s5: "clear_bits hal CMD_WRITE_STATUS2 0x40 (nor_sr2 f) s4 = Some s5" "holds s5 f2"
    using clear_bits_run [OF assms(1) s4(2) f1(3), of CMD_WRITE_STATUS2 "nor_sr2 f" "0x40" "f1\<lparr>nor_sr2 := nor_sr2 f AND NOT 0x40\<rparr>"]
    using assms(5) f1 by (auto simp: nor_execute_def nor_cmds nor_started_def f2_def)
  have f2: "nor_busy f2 = 0" "nor_lat f2 < 10000" using assms(5) f1 by (simp_all add: f2_def)
  define f3 where "f3 = (if nor_sr3 f AND 0x04 \<noteq> 0
    then f2\<lparr>nor_sr3 := nor_sr3 f AND NOT 0x04, nor_wel := False, nor_busy := 0\<rparr> else f2)"
  obtain s6 where s6: "clear_bits hal CMD_WRITE_STATUS3 0x04 (nor_sr3 f) s5 = Some s6" "holds s6 f3"
    using clear_bits_run [OF assms(1) s5(2) f2, of CMD_WRITE_STATUS3 "nor_sr3 f" "0x04" "f2\<lparr>nor_sr3 := nor_sr3 f AND NOT 0x04\<rparr>"]
    using f2 by (auto simp: nor_execute_def nor_cmds nor_started_def f3_def)
  have "clear_protection hal s = Some s6" using s1(1) s2(1) s3(1) s4(1) s5(1) s6(1)
    by (simp add: clear_protection_def)
  moreover have "nor_sr2 f3 AND 0x40 = 0" "nor_sr3 f3 AND 0x04 = 0"
    using off [of "nor_sr2 f" "0x40"] off [of "nor_sr3 f" "0x04"] f1(7,8) by (simp_all add: f2_def f3_def)
  ultimately show ?thesis using s6(2) f1
    by (intro exI [of _ s6] exI [of _ f3]) (simp add: f2_def f3_def nor_unlocked_def)
qed

end

subsection \<open>The driver on the controller\<close>

text \<open>Any schedule that leaves the HAL time to refill; one that never stalls makes the device reliable.\<close>

interpretation nor_ctl: nor_flash "nor_hal (ctl_bus nor_slave (capped pace))" "ctl_holds nor_slave" "never_stalls pace"
proof -
  have "spi_device nor_slave (hal_read (nor_hal (ctl_bus nor_slave (capped p))))
      (hal_write (nor_hal (ctl_bus nor_slave (capped p)))) (ctl_holds nor_slave)" for p
    using hal_device.spi_device_axioms [of nor_slave p 1000000] by (simp add: nor_hal_def)
  moreover have "live_spi_device nor_slave (hal_read (nor_hal (ctl_bus nor_slave (capped pace))))
      (hal_write (nor_hal (ctl_bus nor_slave (capped pace)))) (ctl_holds nor_slave)" if "never_stalls pace"
  proof -
    have "(\<lambda>t. Suc (pace t - 1)) = pace" using that by (auto simp: never_stalls_def fun_eq_iff)
    then show ?thesis using live_hal.live_spi_device_axioms [of nor_slave "\<lambda>t. pace t - 1"]
      by (simp add: nor_hal_def)
  qed
  ultimately show "nor_flash (nor_hal (ctl_bus nor_slave (capped pace))) (ctl_holds nor_slave) (never_stalls pace)"
    by (intro nor_flash.intro nor_flash_axioms.intro)
qed

end
