(* ===== verification/SpiNor.thy ===== *)
theory SpiNor
  imports NorChip
begin

text \<open>
  The properties of the SPI stack: the transfers of the HAL on the model of the controller, and the
  flash driver on the controller with the flash chip behind it.
\<close>

abbreviation nor_dev :: "(nat \<Rightarrow> nat) \<Rightarrow> nor_chip spi_ctl spi_hal" where
  "nor_dev pace \<equiv> nor_hal (ctl_bus nor_slave pace)"

text \<open>The driver's contract with a schedule that leaves the HAL time to refill.\<close>

lemma nor_kept: "keeps_up pace \<Longrightarrow> nor_flash (nor_dev pace) (ctl_holds nor_slave) (never_stalls pace)"
  using nor_ctl.nor_flash_axioms [of pace] by (simp add: capped_id)

text \<open>No operation is in progress, and programming is possible.\<close>

definition nor_idle :: "nor_chip \<Rightarrow> bool" where
  "nor_idle f = (nor_busy f = 0 \<and> \<not> nor_wel f \<and> nor_lat f < 10000 \<and> nor_unlocked f)"

lemma nor_idleD:
  assumes "nor_idle f"
  shows "nor_busy f = 0" and "\<not> nor_wel f" and "nor_lat f < 10000" and "nor_unlocked f"
  using assms by (simp_all add: nor_idle_def)

text \<open>The concrete device of the witnesses: a locked, erased chip of Winbond, and an idle controller.\<close>

definition demo_chip :: "u8 \<Rightarrow> nor_chip" where
  "demo_chip sr1 = \<lparr>nor_mem = (\<lambda>_. 0x5A), nor_wel = False, nor_busy = 0, nor_sr1 = sr1, nor_sr2 = 0x40, nor_sr3 = 0x60,
     nor_id = [0xEF, 0x60, 0x18], nor_lat = 700\<rparr>"

definition demo_ctl :: "u8 \<Rightarrow> nor_chip spi_ctl" where
  "demo_ctl sr1 = \<lparr>sc_en = False, sc_ser = 0, sc_ovr = 0, sc_ctrl = 0, sc_baud = 0, sc_tx = [], sc_rx = [], sc_in = [],
     sc_dev = demo_chip sr1, sc_time = 0\<rparr>"

lemma demo_holds: "ctl_holds nor_slave (demo_ctl sr1) (demo_chip sr1)"
  by (simp add: ctl_holds_def deselect_def demo_ctl_def)

lemma demo_idle: "nor_idle (demo_chip 0)"
  by (simp add: nor_idle_def demo_chip_def nor_unlocked_def)

text \<open>Start-up leaves the chip's state alone.\<close>

lemma setup_holds:
  assumes "ctl_holds sl c f"
  shows "\<exists>spi_if c' ret. al_spi_claim_bus (ctl_bus sl pace) 30000000 0 0 0
    (al_spi_init (ctl_bus sl pace) 500000000 c) = Some ((spi_if, c'), ret) \<and> ctl_holds sl c' f"
  using assms
  by (simp add: al_spi_init_def al_spi_claim_bus_def al_spi_disable_def AL_SPI_CS_NONE_def al_spi_set_baudr_def
      set_mode_def ctl_read_def ctl_write_def ctl_holds_def deselect_def)

lemma runs_outcome: "runs live holds m f \<Longrightarrow>
  \<exists>s' st. m = Some (s', st) \<and> (if st = EFI_SUCCESS then holds s' f else EFI_ERROR st \<and> \<not> live)"
  unfolding runs_def by blast

lemma runs_done: "runs live holds m f \<Longrightarrow> live \<Longrightarrow> \<exists>s'. m = Some (s', EFI_SUCCESS) \<and> holds s' f"
  by (auto simp: runs_def split: if_splits)

lemma gives_done: "gives live holds m f r \<Longrightarrow> live \<Longrightarrow> \<exists>s'. m = Some (s', EFI_SUCCESS, r) \<and> holds s' f"
  by (auto simp: gives_def split: if_splits)

subsection \<open>Transfers\<close>

text \<open>C25: With a schedule that leaves time to refill the FIFO, a read of the SPI HAL returns; when it reports success it stored exactly the bytes the slave answers, and the slave was sent the command and as many bytes as were read in one transaction; it fails only if the controller stalls.\<close>

lemma spi_read_exact:
  assumes "ctl_holds sl c f" and "cmd \<noteq> []" and "length cmd \<le> 8" and "0 < unat n" and "unat n < 2 ^ 16"
    and "keeps_up pace"
  shows "\<exists>c' err d. al_spi_read (ctl_bus sl pace) cmd n 0 1000000 c = Some (c', err, d) \<and>
    (if err = 0 then \<exists>ds. length ds = unat n \<and> d = map (\<lambda>i. sl_out sl f (cmd @ take i ds)) [0..<unat n] \<and>
       ctl_holds sl c' (sl_end sl f (cmd @ ds))
     else \<not> never_stalls pace)"
  using ctl_read_transfer [OF assms, of 1000000] by (metis (no_types, lifting))

lemma spi_read_exact_witness:
  "\<exists>c'. al_spi_read (ctl_bus nor_slave (\<lambda>t. 1 + t mod 3)) [0x9F] 3 0 1000000 (demo_ctl 0) = Some (c', 0, [0xEF, 0x60, 0x18])"
proof -
  have id: "map (\<lambda>i. sl_out nor_slave (demo_chip 0) ([0x9F] @ take i ds)) [0..<3] = [0xEF, 0x60, 0x18]"
    if "length ds = 3" for ds
  proof -
    have "[0..<3 :: nat] = [0, 1, 2]" by (simp add: upt_rec)
    then show ?thesis using that by (simp add: nor_slave_def nor_answer_def demo_chip_def)
  qed
  have p: "keeps_up (\<lambda>t. 1 + t mod 3)" "never_stalls (\<lambda>t. 1 + t mod 3)"
    by (simp_all add: keeps_up_def never_stalls_def) (meson le_trans mod_less_divisor less_imp_le zero_less_numeral numeral_le_iff semiring_norm)
  have n: "0 < unat (3 :: u32)" "unat (3 :: u32) < 2 ^ 16" by simp_all
  from spi_read_exact [OF demo_holds [of 0] _ _ n p(1), of "[0x9F]"] p(2) obtain c' ds where "length ds = unat (3 :: u32)"
      "al_spi_read (ctl_bus nor_slave (\<lambda>t. 1 + t mod 3)) [0x9F] 3 0 1000000 (demo_ctl 0) =
       Some (c', 0, map (\<lambda>i. sl_out nor_slave (demo_chip 0) ([0x9F] @ take i ds)) [0..<unat (3 :: u32)])"
    by (auto split: if_splits)
  then show ?thesis using id [of ds] by simp
qed

text \<open>A write: when it reports success, the slave was sent the command and the data in one transaction, which is over.\<close>

lemma spi_write_exact:
  assumes "ctl_holds sl c f" and "cmd \<noteq> []" and "length cmd \<le> 8" and "keeps_up pace"
    and "al_spi_write (ctl_bus sl pace) cmd data 0 1000000 c = (c', err)"
  shows "if err = 0 then ctl_holds sl c' (sl_end sl f (cmd @ data)) else \<not> never_stalls pace"
  using ctl_write_transfer [OF assms] by (auto split: if_splits)

text \<open>The clock divider is even, the smallest such that the clock does not exceed the requested frequency (up to the truncation of the register to 16 bits).\<close>

lemma spi_clock_bound:
  assumes "0 < unat freq" and "unat clk < 2 ^ 32 - 1"
  shows "unat clk \<le> unat (clk_divider clk freq) * unat freq \<and> even (unat (clk_divider clk freq)) \<and>
    (2 < unat (clk_divider clk freq) \<longrightarrow> (unat (clk_divider clk freq) - 2) * unat freq < unat clk)"
proof -
  define q r F where "q = unat clk div unat freq" and "r = unat clk mod unat freq" and "F = unat freq"
  define d where "d = (if clk mod freq = 0 then clk div freq else clk div freq + 1)"
  have qr: "unat clk = q * F + r" "r < F" using assms(1) by (simp_all add: q_def r_def F_def)
  have q: "unat (clk div freq) = q" and r: "(clk mod freq = 0) = (r = 0)"
    by (simp_all add: q_def r_def unat_div unat_mod flip: unat_eq_zero)
  have le: "q + (if r = 0 then 0 else 1) \<le> unat clk"
  proof (cases "r = 0")
    case False
    then have "q * 2 \<le> q * F" "0 < r" using qr(2) by (auto intro!: mult_le_mono2)
    then have "q + 1 \<le> q * F + r" by linarith
    then show ?thesis using qr(1) False by simp
  next
    case True
    have "q * 1 \<le> q * F" using qr(2) by (intro mult_le_mono2) linarith
    then show ?thesis using qr True by simp
  qed
  then have d: "unat d = q + (if r = 0 then 0 else 1)"
    using q r assms(2) unat_add_of_nat [of "clk div freq" 1] by (simp add: d_def)
  have "unat (d + 1) = unat d + 1" using le d assms(2) unat_add_of_nat [of d 1] by simp
  moreover have "(d AND 1 \<noteq> 0) = odd (unat d)" by (simp add: and_one_eq unat_mod odd_iff_mod_2_eq_one flip: unat_eq_zero)
  ultimately have D: "unat (clk_divider clk freq) = (if odd (unat d) then unat d + 1 else unat d)"
    by (simp add: clk_divider_def d_def Let_def)
  have ge: "unat clk \<le> unat d * F" and lt: "1 < unat d \<longrightarrow> (unat d - 1) * F < unat clk"
    using qr d by (auto simp: algebra_simps diff_mult_distrib)
  define D' where "D' = unat (clk_divider clk freq)"
  have "unat d \<le> D'" "D' \<le> unat d + 1" "even D'" unfolding D'_def D by auto
  then have "unat d * F \<le> D' * F" "2 < D' \<longrightarrow> 1 < unat d \<and> (D' - 2) * F \<le> (unat d - 1) * F"
    by (auto intro!: mult_le_mono1)
  then have "unat clk \<le> D' * F" "2 < D' \<longrightarrow> (D' - 2) * F < unat clk"
    using ge lt by linarith+
  then show ?thesis using \<open>even D'\<close> unfolding D'_def F_def by blast
qed

lemma spi_clock_bound_witness: "clk_divider 500000000 30000000 = 18 \<and> unat (500000000 :: u32) \<le> 18 * unat (30000000 :: u32)"
proof -
  have "clk_divider 500000000 30000000 = 18" by (simp add: clk_divider_def)
  then show ?thesis using spi_clock_bound [of 30000000 500000000] by simp
qed

subsection \<open>The flash driver\<close>

text \<open>A read inside the flash returns its contents.\<close>

lemma nor_read_returns_memory:
  assumes "ctl_holds nor_slave c f" and "nor_busy f = 0" and "unat A + unat n \<le> 2 ^ 24" and "keeps_up pace"
  shows "\<exists>c' st d. SpiNorReadData (nor_dev pace) A n c = Some (c', st, d) \<and>
    (if st = EFI_SUCCESS then ctl_holds nor_slave c' f \<and> d = map (\<lambda>i. nor_mem f (unat A + i)) [0..<unat n]
     else EFI_ERROR st \<and> \<not> never_stalls pace)"
proof -
  have "gives (never_stalls pace) (ctl_holds nor_slave) (SpiNorReadData (nor_dev pace) A n c) f
      (map (\<lambda>i. nor_mem f ((unat A + i) mod 2 ^ 24)) [0..<unat n])"
    using nor_flash.read_data_gives [OF nor_kept [OF assms(4)] assms(1,2) nor_ctl.in_range [OF assms(3)]] .
  moreover have "map (\<lambda>i. nor_mem f ((unat A + i) mod 2 ^ 24)) [0..<unat n] = map (\<lambda>i. nor_mem f (unat A + i)) [0..<unat n]"
    using assms(3) by simp
  ultimately show ?thesis unfolding gives_def by (auto split: if_splits)
qed

lemma nor_read_returns_memory_witness:
  "\<exists>c' d. SpiNorReadData (nor_dev (\<lambda>_. 2)) 0xFFFFF0 16 (demo_ctl 0) = Some (c', EFI_SUCCESS, replicate 16 0x5A)"
proof -
  have "map (\<lambda>i. nor_mem (demo_chip 0) (n + i)) [0..<16] = replicate 16 0x5A" for n
    by (simp add: demo_chip_def map_replicate_const)
  then show ?thesis
    using nor_read_returns_memory [OF demo_holds [of 0], of "0xFFFFF0" 16 "\<lambda>_. 2"]
    by (auto simp: keeps_up_def never_stalls_def demo_chip_def split: if_splits)
qed

text \<open>A write to the flash programs the bytes of the range page by page, which clears bits, and leaves the rest of the chip alone; it fails only if the controller does.\<close>

lemma nor_write_programs:
  assumes "ctl_holds nor_slave c f" and "nor_idle f" and "unat A + unat n \<le> 2 ^ 24" and "unat n \<le> length buf"
    and "keeps_up pace"
  shows "\<exists>c' st. SpiNorWriteData (nor_dev pace) A n buf c = Some (c', st) \<and>
    (if st = EFI_SUCCESS then ctl_holds nor_slave c' (f\<lparr>nor_mem := (\<lambda>a.
        if unat A \<le> a \<and> a < unat A + unat n then nor_mem f a AND buf ! (a - unat A) else nor_mem f a)\<rparr>)
     else EFI_ERROR st \<and> \<not> never_stalls pace)"
proof -
  have eq: "programmed (unat A) (take (unat n) buf) (nor_mem f) = (\<lambda>a.
      if unat A \<le> a \<and> a < unat A + unat n then nor_mem f a AND buf ! (a - unat A) else nor_mem f a)"
    using assms(4) by (auto simp: programmed_def fun_eq_iff)
  show ?thesis
    by (rule runs_outcome [OF nor_flash.write_data_runs [OF nor_kept [OF assms(5)] assms(1) nor_idleD [OF assms(2)] assms(3,4)], unfolded eq])
qed

lemma nor_write_programs_witness:
  "\<exists>c' f'. SpiNorWriteData (nor_dev (\<lambda>_. 2)) 0x10FE 3 [0x0F, 0xF0, 0xFF] (demo_ctl 0) = Some (c', EFI_SUCCESS) \<and>
    ctl_holds nor_slave c' f' \<and> nor_mem f' 0x10FE = 0x0A \<and> nor_mem f' 0x10FF = 0x50 \<and> nor_mem f' 0x1100 = 0x5A"
  using nor_write_programs [OF demo_holds [of 0] demo_idle, of "0x10FE" 3 "[0x0F, 0xF0, 0xFF]" "\<lambda>_. 2"]
  by (auto simp: keeps_up_def never_stalls_def demo_chip_def split: if_splits intro!: exI)

text \<open>C24: Erasing sectors, writing within them and reading back, all through the controller, succeeds and returns the data that was written, and nothing outside the sectors changes.\<close>

lemma nor_erase_write_read:
  assumes "ctl_holds nor_slave c f" and "nor_idle f" and "never_stalls pace"
    and "unat A mod 4096 = 0" and "unat A + 4096 * unat k \<le> 2 ^ 24"
    and "unat A \<le> unat B" and "unat B + unat n \<le> unat A + 4096 * unat k" and "length buf = unat n"
    and "keeps_up pace"
  shows "\<exists>c1 c2 c3 f'. SpiNorErase (nor_dev pace) A k c = Some (c1, EFI_SUCCESS) \<and>
    SpiNorWriteData (nor_dev pace) B n buf c1 = Some (c2, EFI_SUCCESS) \<and>
    SpiNorReadData (nor_dev pace) B n c2 = Some (c3, EFI_SUCCESS, buf) \<and>
    ctl_holds nor_slave c3 f' \<and> nor_idle f' \<and>
    (\<forall>a. a < unat A \<or> unat A + 4096 * unat k \<le> a \<longrightarrow> nor_mem f' a = nor_mem f a)"
proof -
  define m1 where "m1 = (\<lambda>a. if unat A \<le> a \<and> a < unat A + 4096 * unat k then 0xFF else nor_mem f a)"
  define m2 where "m2 = programmed (unat B) buf m1"
  have "unat (k * FLASH_SECTOR_SIZE) = 4096 * unat k"
    using assms(5) by (simp add: nor_consts unat_word_ariths mult.commute)
  then have "A + k * FLASH_SECTOR_SIZE \<le> FLASH_SIZE"
    using nor_ctl.in_range [of A "k * FLASH_SECTOR_SIZE"] assms(5) by simp
  then obtain c1 where c1: "SpiNorErase (nor_dev pace) A k c = Some (c1, EFI_SUCCESS)"
      "ctl_holds nor_slave c1 (f\<lparr>nor_mem := m1\<rparr>)"
    using runs_done [OF nor_flash.erase_runs [OF nor_kept [OF assms(9)] assms(1) nor_idleD [OF assms(2)] assms(4)] assms(3), of k]
      wiped_range [OF assms(4,5)] unfolding m1_def by auto
  have i1: "nor_idle (f\<lparr>nor_mem := m\<rparr>)" for m using assms(2) by (simp add: nor_idle_def nor_unlocked_def)
  have r: "unat B + unat n \<le> 2 ^ 24" using assms(5,7) by linarith
  obtain c2 where c2: "SpiNorWriteData (nor_dev pace) B n buf c1 = Some (c2, EFI_SUCCESS)"
      "ctl_holds nor_slave c2 (f\<lparr>nor_mem := m2\<rparr>)"
    using runs_done [OF nor_flash.write_data_runs [OF nor_kept [OF assms(9)] c1(2) nor_idleD [OF i1] r, of buf] assms(3)] assms(8)
    unfolding m2_def by auto
  have "map (\<lambda>i. m2 ((unat B + i) mod 2 ^ 24)) [0..<unat n] = buf"
  proof (rule nth_equalityI)
    fix i assume "i < length (map (\<lambda>i. m2 ((unat B + i) mod 2 ^ 24)) [0..<unat n])"
    then have i: "i < unat n" by simp
    then have "(unat B + i) mod 2 ^ 24 = unat B + i" using r by simp
    moreover have "m1 (unat B + i) = - 1" using i assms(6,7) by (simp add: m1_def)
    ultimately show "map (\<lambda>i. m2 ((unat B + i) mod 2 ^ 24)) [0..<unat n] ! i = buf ! i"
      using i assms(8) by (simp add: m2_def programmed_def)
  qed (simp add: assms(8))
  then obtain c3 where c3: "SpiNorReadData (nor_dev pace) B n c2 = Some (c3, EFI_SUCCESS, buf)"
      "ctl_holds nor_slave c3 (f\<lparr>nor_mem := m2\<rparr>)"
    using gives_done [OF nor_flash.read_data_gives [OF nor_kept [OF assms(9)] c2(2) nor_idleD(1) [OF i1] nor_ctl.in_range [OF r]] assms(3)] by auto
  have "m2 a = nor_mem f a" if "a < unat A \<or> unat A + 4096 * unat k \<le> a" for a
    using that assms(6-8) by (auto simp: m2_def m1_def programmed_def)
  then show ?thesis using c1(1) c2(1) c3 i1 [of m2]
    by (intro exI [of _ c1] exI [of _ c2] exI [of _ c3] exI [of _ "f\<lparr>nor_mem := m2\<rparr>"]) simp
qed

lemma nor_erase_write_read_witness:
  "\<exists>c1 c2 c3. SpiNorErase (nor_dev (\<lambda>_. 1)) 0x3000 2 (demo_ctl 0) = Some (c1, EFI_SUCCESS) \<and>
    SpiNorWriteData (nor_dev (\<lambda>_. 1)) 0x30FF 3 [7, 8, 9] c1 = Some (c2, EFI_SUCCESS) \<and>
    SpiNorReadData (nor_dev (\<lambda>_. 1)) 0x30FF 3 c2 = Some (c3, EFI_SUCCESS, [7, 8, 9])"
  using nor_erase_write_read [OF demo_holds [of 0] demo_idle, of "\<lambda>_. 1" "0x3000" 2 "0x30FF" 3 "[7, 8, 9]"]
  by (simp add: keeps_up_def never_stalls_def) blast

text \<open>The range check of the erase wraps around: a request for the sector at 0xFFFFF000 is accepted and erases the last sector of the chip.\<close>

lemma nor_erase_wraps:
  assumes "ctl_holds nor_slave c f" and "nor_idle f" and "never_stalls pace" and "keeps_up pace"
  shows "\<exists>c'. SpiNorErase (nor_dev pace) 0xFFFFF000 1 c = Some (c', EFI_SUCCESS) \<and>
    ctl_holds nor_slave c' (f\<lparr>nor_mem := (\<lambda>a. if 0xFFF000 \<le> a \<and> a \<le> 0xFFFFFF then 0xFF else nor_mem f a)\<rparr>)"
proof -
  have "wiped 0xFFFFF000 [0..<1] m = (\<lambda>a. if 0xFFF000 \<le> a \<and> a \<le> 0xFFFFFF then 0xFF else m a)" for m
  proof -
    have "a div 4096 = 4095 \<longleftrightarrow> 0xFFF000 \<le> a \<and> a \<le> 0xFFFFFF" for a :: nat by (rule iffI) linarith+
    then show ?thesis unfolding wiped_def by simp
  qed
  moreover have "(0xFFFFF000 :: u32) + 1 * FLASH_SECTOR_SIZE \<le> FLASH_SIZE" by (simp add: nor_consts)
  ultimately show ?thesis
    using runs_done [OF nor_flash.erase_runs [OF nor_kept [OF assms(4)] assms(1) nor_idleD [OF assms(2)], of "0xFFFFF000" 1] assms(3)]
    by simp
qed

lemma nor_erase_wraps_witness:
  "\<exists>c'. SpiNorErase (nor_dev (\<lambda>_. 1)) 0xFFFFF000 1 (demo_ctl 0) = Some (c', EFI_SUCCESS)"
  using nor_erase_wraps [OF demo_holds [of 0] demo_idle, of "\<lambda>_. 1"] by (auto simp: keeps_up_def never_stalls_def)

text \<open>The start of the flash driver publishes the chip identification, keeps the contents and leaves a Winbond chip without write protection.\<close>

lemma nor_driver_starts:
  assumes "ctl_holds nor_slave c f" and "nor_busy f = 0" and "\<not> nor_wel f" and "nor_lat f < 10000"
    and "length (nor_id f) = 3" and "never_stalls pace" and "keeps_up pace"
  shows "\<exists>c' f'. SpiNorFlashDxeEntry (ctl_bus nor_slave pace) True EFI_SUCCESS c =
      Some (c', EFI_SUCCESS, Some (nor_id f)) \<and> ctl_holds nor_slave c' f' \<and> nor_mem f' = nor_mem f \<and>
    (hd (nor_id f) = 0xEF \<longrightarrow> nor_idle f' \<and> nor_sr2 f' AND 0x40 = 0 \<and> nor_sr3 f' AND 0x04 = 0)"
proof -
  obtain spi_if c1 ret where c1: "al_spi_claim_bus (ctl_bus nor_slave pace) 30000000 0 0 0
      (al_spi_init (ctl_bus nor_slave pace) 500000000 c) = Some ((spi_if, c1), ret)" "ctl_holds nor_slave c1 f"
    using setup_holds [OF assms(1)] by blast
  obtain c2 where c2: "SpiNorGetFlashId (nor_dev pace) c1 = Some (c2, EFI_SUCCESS, nor_id f)" "ctl_holds nor_slave c2 f"
    using gives_done [OF nor_flash.id_gives [OF nor_kept [OF assms(7)] c1(2) assms(2,5)] assms(6)] by blast
  obtain v vs where v: "nor_id f = v # vs" using assms(5) by (cases "nor_id f") auto
  obtain c3 f' where c3: "clear_protection (nor_dev pace) c2 = Some c3" "ctl_holds nor_slave c3 f'"
      "nor_mem f' = nor_mem f" "nor_idle f'" "nor_sr2 f' AND 0x40 = 0" "nor_sr3 f' AND 0x04 = 0"
    using nor_flash.clear_protection_run [OF nor_kept [OF assms(7)] assms(6) c2(2) assms(2-4)] assms(4) by (auto simp: nor_idle_def)
  show ?thesis
  proof (cases "v = 0xEF")
    case True
    then show ?thesis using c1(1) c2(1) c3 v
      by (intro exI [of _ c3] exI [of _ f']) (simp add: SpiNorFlashDxeEntry_def)
  next
    case False
    then show ?thesis using c1(1) c2 v
      by (intro exI [of _ c2] exI [of _ f]) (simp add: SpiNorFlashDxeEntry_def)
  qed
qed

lemma nor_driver_starts_witness:
  "\<exists>c' f'. SpiNorFlashDxeEntry (ctl_bus nor_slave (\<lambda>_. 1)) True EFI_SUCCESS (demo_ctl 0x1C) =
      Some (c', EFI_SUCCESS, Some [0xEF, 0x60, 0x18]) \<and> ctl_holds nor_slave c' f' \<and> nor_idle f'"
  using nor_driver_starts [OF demo_holds [of "0x1C"], of "\<lambda>_. 1"] by (auto simp: keeps_up_def never_stalls_def demo_chip_def)

end
