(* ===== verification/BoardInfo.thy ===== *)
theory BoardInfo
  imports SpiNor
begin

text \<open>
  \<open>Drivers/BoardInfoDxe/BoardInfoDxe.c\<close>: the board's name, serial number and MAC address from a block of
  tagged fields in the SPI flash. A pointer into the block is its offset; the arrays of the
  instance are byte lists of their size, and a store past the end of one is \<^const>\<open>None\<close>.
\<close>

record board_info =
  BoardName :: bytes
  Serial :: bytes
  MacAddress :: bytes

definition BOARD_INFO_FLASH_OFFSET :: u32 where "BOARD_INFO_FLASH_OFFSET = 0xB0000"
definition BOARD_INFO_READ_SIZE :: u32 where "BOARD_INFO_READ_SIZE = 4096"
definition BOARD_INFO_MAGIC :: u32 where "BOARD_INFO_MAGIC = 0x64726148"
definition BOARD_NAME_MAX :: nat where "BOARD_NAME_MAX = 64"
definition SERIAL_MAX :: nat where "SERIAL_MAX = 32"
definition RB_TAG_END :: u16 where "RB_TAG_END = 0x00"
definition RB_TAG_BOARD_SERIAL :: u16 where "RB_TAG_BOARD_SERIAL = 0x0B"
definition RB_TAG_MAC :: u16 where "RB_TAG_MAC = 0x04"
definition RB_TAG_BOARD_NAME :: u16 where "RB_TAG_BOARD_NAME = 0x05"

lemmas board_consts = BOARD_INFO_FLASH_OFFSET_def BOARD_INFO_READ_SIZE_def BOARD_INFO_MAGIC_def
  BOARD_NAME_MAX_def SERIAL_MAX_def RB_TAG_END_def RB_TAG_BOARD_SERIAL_def RB_TAG_MAC_def RB_TAG_BOARD_NAME_def

subsection \<open>The block\<close>

definition array_store :: "bytes \<Rightarrow> nat \<Rightarrow> bytes \<Rightarrow> bytes option" where
  "array_store a off d = (if off + length d \<le> length a then Some (take off a @ d @ drop (off + length d) a) else None)"

text \<open>A string field: cut to the array, with a terminator.\<close>

definition copy_string :: "nat \<Rightarrow> bytes \<Rightarrow> nat \<Rightarrow> nat \<Rightarrow> bytes \<Rightarrow> bytes option" where
  "copy_string mx FlashBuf DataPtr Length a =
     (let CopyLen = (if Length \<ge> mx then mx - 1 else Length) in do {
        d \<leftarrow> rdbytes FlashBuf DataPtr CopyLen;
        a1 \<leftarrow> array_store a 0 d;
        array_store a1 CopyLen [0]
      })"

definition tlv_field :: "bytes \<Rightarrow> u16 \<Rightarrow> nat \<Rightarrow> nat \<Rightarrow> board_info \<Rightarrow> board_info option" where
  "tlv_field FlashBuf Tag DataPtr Length Info =
     (if Tag = RB_TAG_BOARD_NAME then do {
        a \<leftarrow> copy_string BOARD_NAME_MAX FlashBuf DataPtr Length (BoardName Info);
        Some (Info\<lparr>BoardName := a\<rparr>)
      }
      else if Tag = RB_TAG_BOARD_SERIAL then do {
        a \<leftarrow> copy_string SERIAL_MAX FlashBuf DataPtr Length (Serial Info);
        Some (Info\<lparr>Serial := a\<rparr>)
      }
      else if Tag = RB_TAG_MAC \<and> Length \<ge> 6 then do {
        d \<leftarrow> rdbytes FlashBuf DataPtr 6;
        a \<leftarrow> array_store (MacAddress Info) 0 d;
        Some (Info\<lparr>MacAddress := a\<rparr>)
      }
      else Some Info)"

function tlv_loop :: "bytes \<Rightarrow> nat \<Rightarrow> nat \<Rightarrow> board_info \<Rightarrow> board_info option" where
  "tlv_loop FlashBuf End Pos Info =
     (if Pos + 4 \<le> End then do {
        Tag \<leftarrow> rd16 FlashBuf Pos;
        if Tag = RB_TAG_END then Some Info
        else do {
          Length \<leftarrow> rd16 FlashBuf (Pos + 2);
          let DataPtr = Pos + 4;
          if DataPtr + unat Length > End then Some Info
          else do {
            Info1 \<leftarrow> tlv_field FlashBuf Tag DataPtr (unat Length) Info;
            tlv_loop FlashBuf End (DataPtr + unat Length) Info1
          }
        }
      }
      else Some Info)"
  by pat_completeness auto
termination by (relation "measure (\<lambda>(FlashBuf, End, Pos, Info). End - Pos)") auto

declare tlv_loop.simps [simp del]

definition ParseTlvBlock :: "bytes \<Rightarrow> nat \<Rightarrow> board_info \<Rightarrow> board_info option" where
  "ParseTlvBlock FlashBuf BufSize Info =
     (if BufSize < 4 then Some Info
      else do {
        magic \<leftarrow> rd32 FlashBuf 0;
        if magic \<noteq> BOARD_INFO_MAGIC then Some Info else tlv_loop FlashBuf BufSize 4 Info
      })"

subsection \<open>The driver\<close>

text \<open>\<open>RouterBoard\<close>, \<open>Unknown\<close> and the address \<open>02:00:00:00:00:01\<close>.\<close>

definition default_info :: board_info where
  "default_info = \<lparr>
     BoardName = [82, 111, 117, 116, 101, 114, 66, 111, 97, 114, 100] @ replicate 53 0,
     Serial = [85, 110, 107, 110, 111, 119, 110] @ replicate 25 0,
     MacAddress = [2, 0, 0, 0, 0, 1] @ replicate 26 0\<rparr>"

text \<open>
  The located protocol is a parameter, as its function \<open>ReadData\<close>, and so are the results of
  locating it, of the allocation and of the installation of the protocol.
\<close>

definition BoardInfoDxeEntry ::
    "efi_status \<Rightarrow> bool \<Rightarrow> (u32 \<Rightarrow> u32 \<Rightarrow> 's \<Rightarrow> ('s \<times> efi_status \<times> bytes) option) \<Rightarrow> efi_status \<Rightarrow> 's \<Rightarrow>
     ('s \<times> efi_status \<times> board_info) option" where
  "BoardInfoDxeEntry locate alloc_ok ReadData install s = do {
     (s1, Info) \<leftarrow>
       (if EFI_ERROR locate \<or> \<not> alloc_ok then Some (s, default_info)
        else do {
          (s1, Status, FlashBuf) \<leftarrow> ReadData BOARD_INFO_FLASH_OFFSET BOARD_INFO_READ_SIZE s;
          if EFI_ERROR Status then Some (s1, default_info)
          else do {
            Info \<leftarrow> ParseTlvBlock FlashBuf (unat BOARD_INFO_READ_SIZE) default_info;
            Some (s1, Info)
          }
        });
     Some (s1, if EFI_ERROR install then install else EFI_SUCCESS, Info)
   }"

text \<open>The flag says whether the pointer for the result is not null.\<close>

definition BoardInfoGetBoardName :: "board_info \<Rightarrow> bool \<Rightarrow> efi_status \<times> bytes option" where
  "BoardInfoGetBoardName Instance p = (if \<not> p then (EFI_INVALID_PARAMETER, None) else (EFI_SUCCESS, Some (BoardName Instance)))"

definition BoardInfoGetSerial :: "board_info \<Rightarrow> bool \<Rightarrow> efi_status \<times> bytes option" where
  "BoardInfoGetSerial Instance p = (if \<not> p then (EFI_INVALID_PARAMETER, None) else (EFI_SUCCESS, Some (Serial Instance)))"

definition BoardInfoGetMacAddress :: "board_info \<Rightarrow> bool \<Rightarrow> efi_status \<times> bytes option" where
  "BoardInfoGetMacAddress Instance p = (if \<not> p then (EFI_INVALID_PARAMETER, None) else (EFI_SUCCESS, Some (MacAddress Instance)))"

subsection \<open>Well-formed instances\<close>

definition info_ok :: "board_info \<Rightarrow> bool" where
  "info_ok Info = (length (BoardName Info) = BOARD_NAME_MAX \<and> 0 \<in> set (BoardName Info) \<and>
     length (Serial Info) = SERIAL_MAX \<and> 0 \<in> set (Serial Info) \<and> length (MacAddress Info) = 32)"

lemma info_ok_default: "info_ok default_info"
  by (simp add: info_ok_def default_info_def board_consts)

lemma array_store_Some: "off + length d \<le> length a \<Longrightarrow> \<exists>a'. array_store a off d = Some a' \<and> length a' = length a"
  by (simp add: array_store_def)

text \<open>The copied string: the array starts with the bytes of the field and a terminator.\<close>

lemma copy_string_Some:
  assumes "length a = mx" and "0 < mx" and "DataPtr + Length \<le> length FlashBuf"
  shows "copy_string mx FlashBuf DataPtr Length a =
    Some (take (min (mx - 1) Length) (drop DataPtr FlashBuf) @ 0 # drop (Suc (min (mx - 1) Length)) a)"
proof -
  define n where "n = min (mx - 1) Length"
  have n: "(if Length \<ge> mx then mx - 1 else Length) = n" "n < mx" "n \<le> Length"
    using assms(2) by (auto simp: n_def)
  have "rdbytes FlashBuf DataPtr n = Some (take n (drop DataPtr FlashBuf))" using n(3) assms(3) by simp
  moreover have l: "length (take n (drop DataPtr FlashBuf)) = n" using n(3) assms(3) by simp
  moreover have "array_store a 0 (take n (drop DataPtr FlashBuf)) = Some (take n (drop DataPtr FlashBuf) @ drop n a)"
    using l n(2) assms(1) by (simp add: array_store_def)
  moreover have "array_store (take n (drop DataPtr FlashBuf) @ drop n a) n [0] =
      Some (take n (drop DataPtr FlashBuf) @ 0 # drop (Suc n) a)"
    using l n(2) assms(1) by (simp add: array_store_def)
  ultimately show ?thesis unfolding copy_string_def n(1) n_def [symmetric] by simp
qed

lemma tlv_field_Some:
  assumes "info_ok Info" and "DataPtr + Length \<le> length FlashBuf"
  shows "\<exists>Info'. tlv_field FlashBuf Tag DataPtr Length Info = Some Info' \<and> info_ok Info'"
proof -
  have l: "length (take (min (mx - 1) Length) (drop DataPtr FlashBuf)) = min (mx - 1) Length" for mx
    using assms(2) by simp
  have "copy_string BOARD_NAME_MAX FlashBuf DataPtr Length (BoardName Info) = Some
        (take (min (BOARD_NAME_MAX - 1) Length) (drop DataPtr FlashBuf) @
         0 # drop (Suc (min (BOARD_NAME_MAX - 1) Length)) (BoardName Info))"
    "copy_string SERIAL_MAX FlashBuf DataPtr Length (Serial Info) = Some
        (take (min (SERIAL_MAX - 1) Length) (drop DataPtr FlashBuf) @
         0 # drop (Suc (min (SERIAL_MAX - 1) Length)) (Serial Info))"
    by (rule copy_string_Some; use assms in \<open>simp add: info_ok_def board_consts\<close>)+
  moreover have "array_store (MacAddress Info) 0 (take 6 (drop DataPtr FlashBuf)) =
      Some (take 6 (drop DataPtr FlashBuf) @ drop 6 (MacAddress Info))" if "6 \<le> Length"
    using that assms by (simp add: array_store_def info_ok_def)
  ultimately show ?thesis using assms unfolding tlv_field_def
    by (auto simp: info_ok_def board_consts)
qed

lemma tlv_loop_Some:
  "info_ok Info \<Longrightarrow> End \<le> length FlashBuf \<Longrightarrow> \<exists>Info'. tlv_loop FlashBuf End Pos Info = Some Info' \<and> info_ok Info'"
proof (induction "End - Pos" arbitrary: Pos Info rule: less_induct)
  case less
  show ?case
  proof (cases "Pos + 4 \<le> End")
    case False
    then show ?thesis using less.prems by (simp add: tlv_loop.simps)
  next
    case True
    then have r: "rd16 FlashBuf Pos = Some (le16 FlashBuf Pos)" "rd16 FlashBuf (Pos + 2) = Some (le16 FlashBuf (Pos + 2))"
      using less.prems(2) by simp_all
    let ?n = "unat (le16 FlashBuf (Pos + 2))"
    show ?thesis
    proof (cases "le16 FlashBuf Pos = RB_TAG_END \<or> Pos + 4 + ?n > End")
      case True
      then show ?thesis using less.prems r by (subst tlv_loop.simps) auto
    next
      case False
      then obtain Info1 where i: "tlv_field FlashBuf (le16 FlashBuf Pos) (Pos + 4) ?n Info = Some Info1" "info_ok Info1"
        using tlv_field_Some [OF less.prems(1), of "Pos + 4" ?n FlashBuf] less.prems(2) by auto
      moreover have "End - (Pos + 4 + ?n) < End - Pos" using True by simp
      ultimately show ?thesis using less.hyps [OF _ i(2) less.prems(2)] r False True
        by (subst tlv_loop.simps) simp
    qed
  qed
qed

lemma ParseTlvBlock_Some:
  assumes "info_ok Info" and "BufSize \<le> length FlashBuf"
  shows "\<exists>Info'. ParseTlvBlock FlashBuf BufSize Info = Some Info' \<and> info_ok Info'"
  using assms tlv_loop_Some [OF assms(1,2), of 4] by (auto simp: ParseTlvBlock_def)

subsection \<open>The contents of a block\<close>

text \<open>
  What a list of fields, a tag and its data, means: the later of two fields with one tag counts,
  names are cut to the array, other tags are skipped.
\<close>

type_synonym info_view = "bytes \<times> bytes \<times> bytes"  \<comment> \<open>name, serial number, MAC address\<close>

definition info_view :: "board_info \<Rightarrow> info_view" where
  "info_view Info = (c_str (BoardName Info), c_str (Serial Info), take 6 (MacAddress Info))"

fun field_view :: "info_view \<Rightarrow> u16 \<times> bytes \<Rightarrow> info_view" where
  "field_view (name, serial, mac) (Tag, d) =
     (if Tag = 5 then (c_str (take 63 d), serial, mac)
      else if Tag = 11 then (name, c_str (take 31 d), mac)
      else if Tag = 4 \<and> 6 \<le> length d then (name, serial, take 6 d)
      else (name, serial, mac))"

definition field_bytes :: "u16 \<times> bytes \<Rightarrow> bytes" where
  "field_bytes f = bytes16 (fst f) @ bytes16 (of_nat (length (snd f))) @ snd f"

definition block_bytes :: "(u16 \<times> bytes) list \<Rightarrow> bytes" where
  "block_bytes fs = bytes32 0x64726148 @ concat (map field_bytes fs)"

definition field_ok :: "u16 \<times> bytes \<Rightarrow> bool" where
  "field_ok f = (fst f \<noteq> 0 \<and> length (snd f) < 2 ^ 16)"

text \<open>After the fields: the end of the block, less than a header, or the end tag.\<close>

definition block_ends :: "bytes \<Rightarrow> bool" where
  "block_ends rest = (length rest < 4 \<or> le16 rest 0 = 0)"

lemma c_str_terminated: "c_str (xs @ 0 # ys) = c_str xs"
  by (induction xs) (simp_all add: c_str_def)

lemma tlv_field_view:
  assumes "info_ok Info" and "DataPtr + Length \<le> length FlashBuf" and "tlv_field FlashBuf Tag DataPtr Length Info = Some Info'"
  shows "info_view Info' = field_view (info_view Info) (Tag, take Length (drop DataPtr FlashBuf))"
proof -
  have n: "copy_string 64 FlashBuf DataPtr Length (BoardName Info) = Some
      (take (min 63 Length) (drop DataPtr FlashBuf) @ 0 # drop (Suc (min 63 Length)) (BoardName Info))"
    using copy_string_Some [of "BoardName Info" 64 DataPtr Length FlashBuf] assms by (simp add: info_ok_def board_consts)
  have m: "copy_string 32 FlashBuf DataPtr Length (Serial Info) = Some
      (take (min 31 Length) (drop DataPtr FlashBuf) @ 0 # drop (Suc (min 31 Length)) (Serial Info))"
    using copy_string_Some [of "Serial Info" 32 DataPtr Length FlashBuf] assms by (simp add: info_ok_def board_consts)
  have mac: "array_store (MacAddress Info) 0 (take 6 (drop DataPtr FlashBuf)) =
      Some (take 6 (drop DataPtr FlashBuf) @ drop 6 (MacAddress Info))" if "6 \<le> Length"
    using that assms by (simp add: array_store_def info_ok_def)
  consider "Tag = 5" | "Tag = 11" | "Tag = 4" | "Tag \<noteq> 5 \<and> Tag \<noteq> 11 \<and> Tag \<noteq> 4" by blast
  then show ?thesis
  proof cases
    case 1
    then show ?thesis using assms(3) n
      by (auto simp: tlv_field_def board_consts info_view_def c_str_terminated)
  next
    case 2
    then show ?thesis using assms(3) m
      by (auto simp: tlv_field_def board_consts info_view_def c_str_terminated)
  next
    case 3
    then show ?thesis using assms(2,3) mac
      by (auto simp: tlv_field_def board_consts info_view_def min_def split: if_splits)
  next
    case 4
    then show ?thesis using assms(3) by (auto simp: tlv_field_def board_consts info_view_def)
  qed
qed

lemma tlv_loop_view:
  assumes "info_ok Info" and "\<forall>f \<in> set fs. field_ok f" and "block_ends rest"
  shows "\<exists>Info'. tlv_loop (pre @ concat (map field_bytes fs) @ rest) (length (pre @ concat (map field_bytes fs) @ rest))
      (length pre) Info = Some Info' \<and> info_view Info' = foldl field_view (info_view Info) fs"
  using assms
proof (induction fs arbitrary: pre Info)
  case Nil
  have "rd16 (pre @ rest) (length pre) = Some (le16 rest 0)" if "4 \<le> length rest"
    using that by (simp add: rd16_def le16_def nth_append)
  then show ?case using Nil.prems by (subst tlv_loop.simps) (auto simp: block_ends_def board_consts)
next
  case (Cons f fs)
  obtain Tag d where f: "f = (Tag, d)" by fastforce
  let ?tail = "concat (map field_bytes fs) @ rest"
  let ?b = "pre @ concat (map field_bytes (f # fs)) @ rest"
  have b: "?b = pre @ bytes16 Tag @ bytes16 (of_nat (length d)) @ d @ ?tail" by (simp add: f field_bytes_def)
  have ok: "Tag \<noteq> 0" "length d < 2 ^ 16" using Cons.prems(2) by (simp_all add: f field_ok_def)
  have t: "rd16 ?b (length pre) = Some Tag" "rd16 ?b (length pre + 2) = Some (of_nat (length d))"
  proof -
    have le: "le16 (xs @ bytes16 w @ ys) (length xs) = w" for xs ys w
      using le16_drop [of "length xs" 0 "xs @ bytes16 w @ ys"] le16_append [of 0 "bytes16 w" ys] by simp
    show "rd16 ?b (length pre) = Some Tag" unfolding b using le [of pre Tag] by simp
    show "rd16 ?b (length pre + 2) = Some (of_nat (length d))"
      unfolding b using le [of "pre @ bytes16 Tag" "of_nat (length d)"] by simp
  qed
  have len: "unat (of_nat (length d) :: u16) = length d" using ok(2) by (simp add: unat_of_nat_small)
  have data: "take (length d) (drop (length pre + 4) ?b) = d" and fit: "length pre + 4 + length d \<le> length ?b"
    unfolding b by simp_all
  obtain Info1 where i: "tlv_field ?b Tag (length pre + 4) (length d) Info = Some Info1" "info_ok Info1"
    using tlv_field_Some [OF Cons.prems(1) fit] by blast
  have v: "info_view Info1 = field_view (info_view Info) f"
    using tlv_field_view [OF Cons.prems(1) fit i(1)] data by (simp add: f)
  have split: "?b = (pre @ field_bytes f) @ ?tail" "length (pre @ field_bytes f) = length pre + 4 + length d"
    by (simp_all add: f field_bytes_def)
  obtain Info' where r: "tlv_loop ?b (length ?b) (length pre + 4 + length d) Info1 = Some Info'"
      "info_view Info' = foldl field_view (info_view Info1) fs"
    using Cons.IH [OF i(2) _ Cons.prems(3), of "pre @ field_bytes f"] Cons.prems(2) unfolding split by auto
  have "tlv_loop ?b (length ?b) (length pre) Info = tlv_loop ?b (length ?b) (length pre + 4 + length d) Info1"
    using t len fit i(1) ok(1) by (subst tlv_loop.simps) (simp add: Let_def board_consts del: append_assoc concat.simps list.map)
  then show ?case using r v by simp
qed

lemma ParseTlvBlock_view:
  assumes "info_ok Info" and "\<forall>f \<in> set fs. field_ok f" and "block_ends rest"
  shows "\<exists>Info'. ParseTlvBlock (block_bytes fs @ rest) (length (block_bytes fs @ rest)) Info = Some Info' \<and>
    info_view Info' = foldl field_view (info_view Info) fs"
proof -
  have "rd32 (block_bytes fs @ rest) 0 = Some 0x64726148"
    using le32_append [of 0 "bytes32 0x64726148" "concat (map field_bytes fs) @ rest"]
    by (simp add: block_bytes_def)
  then show ?thesis using tlv_loop_view [OF assms, of "bytes32 0x64726148"]
    by (simp add: ParseTlvBlock_def block_bytes_def board_consts)
qed

subsection \<open>Properties\<close>

text \<open>C30: Whatever the flash contains and whichever service fails, the board information driver returns with terminated strings within their arrays, and with the defaults when it could not read.\<close>

lemma board_info_well_formed:
  assumes "\<exists>s' st d. ReadData 0xB0000 4096 s = Some (s', st, d) \<and> (EFI_ERROR st \<or> length d = 4096)"
  shows "\<exists>s' st Info. BoardInfoDxeEntry locate alloc_ok ReadData install s = Some (s', st, Info) \<and>
    length (BoardName Info) = 64 \<and> 0 \<in> set (BoardName Info) \<and>
    length (Serial Info) = 32 \<and> 0 \<in> set (Serial Info) \<and> length (MacAddress Info) = 32 \<and>
    (EFI_ERROR locate \<or> \<not> alloc_ok \<longrightarrow> s' = s \<and> Info = default_info)"
proof -
  obtain s1 st d where rd: "ReadData 0xB0000 4096 s = Some (s1, st, d)" "EFI_ERROR st \<or> length d = 4096"
    using assms by blast
  have "\<exists>Info. ParseTlvBlock d 4096 default_info = Some Info \<and> info_ok Info" if "\<not> EFI_ERROR st"
    using ParseTlvBlock_Some [OF info_ok_default, of 4096 d] rd(2) that by simp
  then show ?thesis using rd(1) info_ok_default unfolding BoardInfoDxeEntry_def info_ok_def
    by (cases "EFI_ERROR st") (auto simp: board_consts)
qed

lemma board_info_well_formed_witness:
  "\<exists>s' st Info. BoardInfoDxeEntry EFI_SUCCESS True (\<lambda>_ n s. Some (s, EFI_SUCCESS, replicate (unat n) 0x64)) EFI_SUCCESS ()
     = Some (s', st, Info) \<and> length (BoardName Info) = 64"
  using board_info_well_formed [of "\<lambda>_ n s. Some (s, EFI_SUCCESS, replicate (unat n) 0x64)" "()" EFI_SUCCESS True EFI_SUCCESS]
  by (simp add: exI) blast

text \<open>C31: With a block of fields in the flash the driver publishes what the fields say, the later of two fields with one tag and the defaults for missing ones.\<close>

lemma board_info_from_flash:
  assumes "ctl_holds nor_slave c f" and "nor_busy f = 0" and "never_stalls pace" and "keeps_up pace"
    and "map (\<lambda>i. nor_mem f (0xB0000 + i)) [0..<4096] = block_bytes fs @ rest"
    and "\<forall>x \<in> set fs. field_ok x" and "block_ends rest"
  shows "\<exists>c' Info. BoardInfoDxeEntry EFI_SUCCESS True (SpiNorReadData (nor_dev pace)) EFI_SUCCESS c =
      Some (c', EFI_SUCCESS, Info) \<and> ctl_holds nor_slave c' f \<and>
    info_view Info = foldl field_view (info_view default_info) fs"
proof -
  have r: "unat (0xB0000 :: u32) + unat (4096 :: u32) \<le> 2 ^ 24" by simp
  have "map (\<lambda>i. nor_mem f ((unat (0xB0000 :: u32) + i) mod 2 ^ 24)) [0..<unat (4096 :: u32)] = block_bytes fs @ rest"
    unfolding assms(5) [symmetric] by (rule map_cong) simp_all
  then obtain c' where c': "SpiNorReadData (nor_dev pace) 0xB0000 4096 c = Some (c', EFI_SUCCESS, block_bytes fs @ rest)"
      "ctl_holds nor_slave c' f"
    using gives_done [OF nor_flash.read_data_gives [OF nor_kept [OF assms(4)] assms(1,2) nor_ctl.in_range [OF r]] assms(3)] by auto
  have "length (block_bytes fs @ rest) = 4096" unfolding assms(5) [symmetric] by simp
  then obtain Info where "ParseTlvBlock (block_bytes fs @ rest) 4096 default_info = Some Info"
      "info_view Info = foldl field_view (info_view default_info) fs"
    using ParseTlvBlock_view [OF info_ok_default assms(6,7)] by auto
  then show ?thesis using c' by (simp add: BoardInfoDxeEntry_def board_consts)
qed

text \<open>The witness: a chip with the block at its place, the fields in the flash's order.\<close>

definition demo_fields :: "(u16 \<times> bytes) list" where
  "demo_fields = [(5, map of_char ''CCR2004-1G-2XS-PCIe''), (3, [1, 2]), (4, [0x74, 0x4D, 0x28, 0, 0, 1, 9]), (11, map of_char ''HE108'')]"

definition board_chip :: nor_chip where
  "board_chip = (demo_chip 0)\<lparr>nor_mem := (\<lambda>a. if 0xB0000 \<le> a \<and> a - 0xB0000 < length (block_bytes demo_fields)
     then block_bytes demo_fields ! (a - 0xB0000) else 0)\<rparr>"

lemma board_info_from_flash_witness:
  "\<exists>c' Info. BoardInfoDxeEntry EFI_SUCCESS True (SpiNorReadData (nor_dev (\<lambda>_. 1))) EFI_SUCCESS
      ((demo_ctl 0)\<lparr>sc_dev := board_chip\<rparr>) = Some (c', EFI_SUCCESS, Info) \<and>
    info_view Info = (map of_char ''CCR2004-1G-2XS-PCIe'', map of_char ''HE108'', [0x74, 0x4D, 0x28, 0, 0, 1])"
proof -
  let ?b = "block_bytes demo_fields"
  have len: "length ?b = 53" by (simp add: block_bytes_def demo_fields_def field_bytes_def)
  have "map (\<lambda>i. nor_mem board_chip (0xB0000 + i)) [0..<4096] = ?b @ replicate (4096 - 53) 0"
    by (rule nth_equalityI) (simp_all add: len board_chip_def nth_append)
  moreover have "ctl_holds nor_slave ((demo_ctl 0)\<lparr>sc_dev := board_chip\<rparr>) board_chip"
    by (simp add: ctl_holds_def deselect_def demo_ctl_def)
  moreover have "\<forall>x \<in> set demo_fields. field_ok x" by (simp add: demo_fields_def field_ok_def)
  moreover have "block_ends (replicate (4096 - 53) 0)" by (simp add: block_ends_def le16_def)
  moreover have "foldl field_view (info_view default_info) demo_fields =
      (map of_char ''CCR2004-1G-2XS-PCIe'', map of_char ''HE108'', [0x74, 0x4D, 0x28, 0, 0, 1])"
    by (simp add: demo_fields_def info_view_def default_info_def c_str_def)
  ultimately show ?thesis
    using board_info_from_flash [of "(demo_ctl 0)\<lparr>sc_dev := board_chip\<rparr>" board_chip "\<lambda>_. 1" demo_fields "replicate (4096 - 53) 0"]
    by (simp add: never_stalls_def keeps_up_def board_chip_def demo_chip_def) blast
qed

end
