(* ===== verification/LoaderSupport.thy ===== *)
theory LoaderSupport
  imports Prelude
begin

text \<open>
  The support routines of the SPI boot loader, \<open>SpiLoader/Support.c\<close>: the memory functions on a
  byte-addressed memory, and the console on a UART whose registers are a parameter, the record
  \<open>mmio_bus\<close> of 32-bit accesses on a state \<open>'u\<close>. Waiting for the transmitter has no bound in
  the code: \<^const>\<open>None\<close> is a wait that never ends. The locale \<open>uart\<close> is the contract of the
  console; a model of the 16550 keeps it.
\<close>

subsection \<open>Memory\<close>

type_synonym memory = "u64 \<Rightarrow> u8"

text \<open>The loops, with the number of bytes left and the index.\<close>

fun copy_loop :: "u64 \<Rightarrow> u64 \<Rightarrow> nat \<Rightarrow> u64 \<Rightarrow> memory \<Rightarrow> memory" where
  "copy_loop Dst Src 0 Index m = m"
| "copy_loop Dst Src (Suc n) Index m = copy_loop Dst Src n (Index + 1) (m(Dst + Index := m (Src + Index)))"

definition SpiloaderMemCopy :: "u64 \<Rightarrow> u64 \<Rightarrow> u64 \<Rightarrow> memory \<Rightarrow> memory" where
  "SpiloaderMemCopy Destination Source Length m = copy_loop Destination Source (unat Length) 0 m"

fun set_loop :: "u64 \<Rightarrow> u8 \<Rightarrow> nat \<Rightarrow> u64 \<Rightarrow> memory \<Rightarrow> memory" where
  "set_loop Dst Value 0 Index m = m"
| "set_loop Dst Value (Suc n) Index m = set_loop Dst Value n (Index + 1) (m(Dst + Index := Value))"

definition SpiloaderMemSet :: "u64 \<Rightarrow> u32 \<Rightarrow> u64 \<Rightarrow> memory \<Rightarrow> memory" where
  "SpiloaderMemSet Destination Value Length m = set_loop Destination (ucast Value) (unat Length) 0 m"

fun compare_loop :: "u64 \<Rightarrow> u64 \<Rightarrow> nat \<Rightarrow> u64 \<Rightarrow> memory \<Rightarrow> int" where
  "compare_loop A B 0 Index m = 0"
| "compare_loop A B (Suc n) Index m =
     (if m (A + Index) \<noteq> m (B + Index) then uint (m (A + Index)) - uint (m (B + Index))
      else compare_loop A B n (Index + 1) m)"

definition SpiloaderMemCompare :: "u64 \<Rightarrow> u64 \<Rightarrow> u64 \<Rightarrow> memory \<Rightarrow> int" where
  "SpiloaderMemCompare A B Length m = compare_loop A B (unat Length) 0 m"

text \<open>Bytes stored one after the other, as a read from flash does.\<close>

fun put_bytes :: "u64 \<Rightarrow> bytes \<Rightarrow> memory \<Rightarrow> memory" where
  "put_bytes A [] m = m"
| "put_bytes A (d # ds) m = put_bytes (A + 1) ds (m(A := d))"

lemma offset_Suc:
  fixes a A :: u64
  assumes "a \<noteq> A"
  shows "unat (a - A) = Suc (unat (a - (A + 1)))"
proof -
  have "a - A \<noteq> 0" using assms by simp
  then have "unat (a - A - 1) = unat (a - A) - 1" "0 < unat (a - A)"
    by (simp_all add: unat_minus_one unat_gt_0)
  moreover have "a - (A + 1) = a - A - 1" by (simp only: diff_diff_add)
  ultimately show ?thesis by (metis Suc_pred')
qed

lemma put_bytes_apply:
  "length ds < 2 ^ 64 \<Longrightarrow> put_bytes A ds m a = (if unat (a - A) < length ds then ds ! unat (a - A) else m a)"
proof (induction ds arbitrary: A m)
  case (Cons d ds)
  show ?case
  proof (cases "a = A")
    case True
    have "unat (A - (A + 1)) = 2 ^ 64 - 1" by (simp add: unsigned_minus_1_eq_mask mask_eq_exp_minus_1)
    then show ?thesis using Cons True by simp
  next
    case False
    then show ?thesis using Cons offset_Suc [OF False] by simp
  qed
qed simp

lemma set_loop_put: "set_loop Dst v n Index m = put_bytes (Dst + Index) (replicate n v) m"
  by (induction n arbitrary: Index m) (simp_all add: add.assoc)

lemma MemSet_apply:
  "SpiloaderMemSet Dst v n m a = (if unat (a - Dst) < unat n then ucast v else m a)"
proof -
  have "unat n < 2 ^ 64" using unsigned_less [of n] by simp
  then show ?thesis using put_bytes_apply [of "replicate (unat n) (ucast v)" Dst m a]
    by (simp add: SpiloaderMemSet_def set_loop_put)
qed

subsection \<open>The console\<close>

definition UartReg :: "u32 \<Rightarrow> u64" where
  "UartReg Index = 0xFD883000 + push_bit 2 (ucast Index)"

definition UartInitialize :: "'u mmio_bus \<Rightarrow> 'u \<Rightarrow> 'u" where
  "UartInitialize bus u = (let
     d = 500000000 div (16 * 115200);
     Divisor = (if d = 0 then 1 else d) :: u32;
     u = mmio_write32 bus (UartReg 1) 0 u;
     u = mmio_write32 bus (UartReg 3) 0x80 u;
     u = mmio_write32 bus (UartReg 0) (Divisor AND 0xFF) u;
     u = mmio_write32 bus (UartReg 1) (drop_bit 8 Divisor AND 0xFF) u;
     u = mmio_write32 bus (UartReg 3) 0x03 u;
     u = mmio_write32 bus (UartReg 2) (0x01 OR 0x02 OR 0x04) u
     in mmio_write32 bus (UartReg 4) (0x01 OR 0x02) u)"

partial_function (option) uart_wait :: "'u mmio_bus \<Rightarrow> 'u \<Rightarrow> 'u option" where
  "uart_wait bus u = (case mmio_read32 bus (UartReg 5) u of (u1, v) \<Rightarrow>
     if v AND 0x20 = 0 then uart_wait bus u1 else Some u1)"

definition UartPutChar :: "'u mmio_bus \<Rightarrow> u8 \<Rightarrow> 'u \<Rightarrow> 'u option" where
  "UartPutChar bus Character u = do {
     u1 \<leftarrow> uart_wait bus u;
     Some (mmio_write32 bus (UartReg 0) (ucast Character) u1)
   }"

fun put_chars :: "'u mmio_bus \<Rightarrow> bytes \<Rightarrow> 'u \<Rightarrow> 'u option" where
  "put_chars bus [] u = Some u"
| "put_chars bus (c # cs) u = do { u1 \<leftarrow> UartPutChar bus c u; put_chars bus cs u1 }"

text \<open>String literals have no NUL; the loop ends at the terminator.\<close>

definition UartWrite :: "'u mmio_bus \<Rightarrow> string \<Rightarrow> 'u \<Rightarrow> 'u option" where
  "UartWrite bus s u = put_chars bus (c_str (map of_char s @ [0])) u"

definition HexNibble :: "u8 \<Rightarrow> u8" where
  "HexNibble Value = (let v = Value AND 0x0F in if v < 10 then 48 + v else 97 + (v - 10))"

text \<open>The loop of both functions; \<open>Shift\<close> is \<open>4 * k\<close>.\<close>

fun hex_loop :: "'u mmio_bus \<Rightarrow> nat \<Rightarrow> 'a::len word \<Rightarrow> 'u \<Rightarrow> 'u option" where
  "hex_loop bus 0 Value u = Some u"
| "hex_loop bus (Suc k) Value u = do {
     u1 \<leftarrow> UartPutChar bus (HexNibble (ucast (drop_bit (4 * k) Value))) u;
     hex_loop bus k Value u1
   }"

definition UartWriteHex32 :: "'u mmio_bus \<Rightarrow> u32 \<Rightarrow> 'u \<Rightarrow> 'u option" where
  "UartWriteHex32 bus Value u = hex_loop bus 8 Value u"

definition UartWriteHex64 :: "'u mmio_bus \<Rightarrow> u64 \<Rightarrow> 'u \<Rightarrow> 'u option" where
  "UartWriteHex64 bus Value u = hex_loop bus 16 Value u"

subsection \<open>The contract\<close>

text \<open>\<open>sent u cs\<close>: the characters \<open>cs\<close> went out so far.\<close>

locale uart =
  fixes bus :: "'u mmio_bus" and sent :: "'u \<Rightarrow> bytes \<Rightarrow> bool"
  assumes put: "sent u cs \<Longrightarrow> \<exists>u'. UartPutChar bus c u = Some u' \<and> sent u' (cs @ [c])"
    and start: "sent u cs \<Longrightarrow> sent (UartInitialize bus u) cs"

text \<open>The digits of a number, the most significant first.\<close>

definition hex_digits :: "nat \<Rightarrow> 'a::len word \<Rightarrow> bytes" where
  "hex_digits n v = map (\<lambda>k. HexNibble (ucast (drop_bit (4 * k) v))) (rev [0..<n])"

context uart begin

lemma put_chars_sent: "sent u cs \<Longrightarrow> \<exists>u'. put_chars bus xs u = Some u' \<and> sent u' (cs @ xs)"
proof (induction xs arbitrary: u cs)
  case (Cons x xs)
  obtain u1 where "UartPutChar bus x u = Some u1" "sent u1 (cs @ [x])" using put [OF Cons.prems] by blast
  then show ?case using Cons.IH [of u1 "cs @ [x]"] by simp
qed simp

lemma UartWrite_sent: "sent u cs \<Longrightarrow> \<exists>u' xs. UartWrite bus s u = Some u' \<and> sent u' (cs @ xs)"
  using put_chars_sent unfolding UartWrite_def by blast

lemma hex_loop_sent:
  fixes v :: "'b::len word"
  shows "sent u cs \<Longrightarrow> \<exists>u'. hex_loop bus n v u = Some u' \<and> sent u' (cs @ hex_digits n v)"
proof (induction n arbitrary: u cs)
  case (Suc n)
  let ?c = "HexNibble (ucast (drop_bit (4 * n) v))"
  obtain u1 where "UartPutChar bus ?c u = Some u1" "sent u1 (cs @ [?c])" using put [OF Suc.prems] by blast
  then show ?case using Suc.IH [of u1 "cs @ [?c]"] by (simp add: hex_digits_def)
qed (simp add: hex_digits_def)

end

subsection \<open>A 16550\<close>

record uart16550 =
  ua_dlab :: bool
  ua_divisor :: "u32 \<times> u32"
  ua_busy :: nat   \<comment> \<open>reads of the status until the transmitter is empty\<close>
  ua_sent :: bytes
  ua_lat :: nat

definition ua_read :: "u64 \<Rightarrow> uart16550 \<Rightarrow> uart16550 \<times> u32" where
  "ua_read A u = (if A = 0xFD883014
     then (u\<lparr>ua_busy := ua_busy u - 1\<rparr>, if ua_busy u = 0 then 0x60 else 0) else (u, 0))"

definition ua_write :: "u64 \<Rightarrow> u32 \<Rightarrow> uart16550 \<Rightarrow> uart16550" where
  "ua_write A v u =
     (if A = 0xFD883000
      then (if ua_dlab u then u\<lparr>ua_divisor := (v, snd (ua_divisor u))\<rparr>
            else if ua_busy u = 0 then u\<lparr>ua_sent := ua_sent u @ [ucast v], ua_busy := ua_lat u\<rparr> else u)
      else if A = 0xFD883004
      then (if ua_dlab u then u\<lparr>ua_divisor := (fst (ua_divisor u), v)\<rparr> else u)
      else if A = 0xFD88300C then u\<lparr>ua_dlab := (v AND 0x80 \<noteq> 0)\<rparr>
      else u)"

definition ua_bus :: "uart16550 mmio_bus" where
  "ua_bus = \<lparr>mmio_read32 = ua_read, mmio_write32 = ua_write\<rparr>"

lemma uart_regs: "UartReg 0 = 0xFD883000" "UartReg 1 = 0xFD883004" "UartReg 2 = 0xFD883008"
  "UartReg 3 = 0xFD88300C" "UartReg 4 = 0xFD883010" "UartReg 5 = 0xFD883014"
  by (simp_all add: UartReg_def)

lemma ua_wait: "uart_wait ua_bus u = Some (u\<lparr>ua_busy := 0\<rparr>)"
proof (induction "ua_busy u" arbitrary: u)
  case 0
  then show ?case by (subst uart_wait.simps) (simp add: ua_bus_def ua_read_def uart_regs)
next
  case (Suc n)
  have "uart_wait ua_bus u = uart_wait ua_bus (u\<lparr>ua_busy := n\<rparr>)"
    using Suc.hyps(2) by (subst uart_wait.simps) (simp add: ua_bus_def ua_read_def uart_regs flip: Suc.hyps(2))
  then show ?case using Suc.hyps(1) [of "u\<lparr>ua_busy := n\<rparr>"] by simp
qed

lemma ua_init: "UartInitialize ua_bus u = u\<lparr>ua_dlab := False, ua_divisor := (15, 1)\<rparr>"
  by (simp add: UartInitialize_def Let_def ua_bus_def ua_write_def uart_regs)

definition ua_out :: "uart16550 \<Rightarrow> bytes \<Rightarrow> bool" where
  "ua_out u cs = (ua_sent u = cs \<and> \<not> ua_dlab u)"

interpretation console: uart ua_bus ua_out
proof unfold_locales
  fix u cs c
  assume "ua_out u cs"
  then show "\<exists>u'. UartPutChar ua_bus c u = Some u' \<and> ua_out u' (cs @ [c])"
    unfolding UartPutChar_def ua_wait
    by (simp add: ua_out_def ua_bus_def ua_write_def uart_regs ucast_down_ucast_id is_down)
next
  fix u cs
  assume "ua_out u cs"
  then show "ua_out (UartInitialize ua_bus u) cs" by (simp add: ua_init ua_out_def)
qed

subsection \<open>Reading the digits back\<close>

definition hex_value :: "u8 \<Rightarrow> nat" where
  "hex_value c = (if c < 58 then unat c - 48 else unat c - 87)"

definition parse_hex :: "bytes \<Rightarrow> nat" where
  "parse_hex cs = foldl (\<lambda>n c. 16 * n + hex_value c) 0 cs"

lemma unat_low_nibble: "unat ((b :: u8) AND 15) = unat b mod 16"
proof -
  have "unat (b AND mask 4) = unat b mod 2 ^ 4"
    by (simp only: take_bit_eq_mask [symmetric] unsigned_take_bit_eq take_bit_eq_mod [of 4 "unat b"])
  then show ?thesis by (simp add: mask_eq_exp_minus_1)
qed

lemma hex_value_nibble: "hex_value (HexNibble b) = unat b mod 16"
proof -
  have m: "unat (b AND 15) = unat b mod 16"
    using unat_low_nibble .
  have "unat b mod 16 < 16" by simp
  then have l: "unat (b AND 15) < 16" using m by simp
  have "hex_value (HexNibble b) = unat (b AND 15)"
    using l by (auto simp: HexNibble_def hex_value_def Let_def word_less_nat_alt unat_word_ariths unat_sub_if')
  then show ?thesis using m by simp
qed

lemma parse_hex_Cons: "parse_hex (c # cs) = hex_value c * 16 ^ length cs + parse_hex cs"
proof -
  have "foldl (\<lambda>n c. 16 * n + hex_value c) k cs = k * 16 ^ length cs + foldl (\<lambda>n c. 16 * n + hex_value c) 0 cs" for k
  proof (induction cs arbitrary: k)
    case (Cons c cs)
    let ?F = "\<lambda>k. foldl (\<lambda>n c. 16 * n + hex_value c) k cs" and ?P = "16 ^ length cs"
    have "?F (16 * k + hex_value c) = (16 * k + hex_value c) * ?P + ?F 0" "?F (hex_value c) = hex_value c * ?P + ?F 0"
      by (rule Cons)+
    then have "?F (16 * k + hex_value c) = k * (16 * ?P) + ?F (hex_value c)"
      by (simp only: add_mult_distrib mult.assoc mult.left_commute [of 16 k] add.assoc)
    then show ?case by (simp only: foldl_Cons length_Cons power_Suc mult_0_right add_0)
  qed simp
  from this [of "hex_value c"] show ?thesis by (simp add: parse_hex_def)
qed

lemma parse_hex_digits: "parse_hex (hex_digits n v) = unat v mod 16 ^ n"
proof (induction n)
  case (Suc n)
  have "unat (ucast (drop_bit (4 * n) v) :: u8) mod 16 = unat v div 16 ^ n mod 16"
  proof -
    have "unat (drop_bit (4 * n) v) = unat v div 16 ^ n"
      using drop_bit_eq_div [of "4 * n" "unat v"] by (simp add: unsigned_drop_bit_eq power_mult take_bit_nat_eq_self)
    then show ?thesis by (simp add: unsigned_ucast_eq take_bit_eq_mod mod_mod_cancel)
  qed
  moreover have "unat v mod 16 ^ Suc n = 16 ^ n * (unat v div 16 ^ n mod 16) + unat v mod 16 ^ n"
    using mod_mult2_eq [of "unat v" "16 ^ n" 16] by (simp add: mult.commute)
  moreover have "hex_digits (Suc n) v = HexNibble (ucast (drop_bit (4 * n) v)) # hex_digits n v"
    "length (hex_digits n v) = n" by (simp_all add: hex_digits_def)
  ultimately show ?case using Suc by (simp add: parse_hex_Cons hex_value_nibble)
qed (simp add: hex_digits_def parse_hex_def)

text \<open>The console prints a 64-bit number as the sixteen hexadecimal digits that read back as the number.\<close>

lemma uart_hex64_roundtrip:
  assumes "\<not> ua_dlab u"
  shows "\<exists>u' ds. UartWriteHex64 ua_bus v u = Some u' \<and> ua_sent u' = ua_sent u @ ds \<and> length ds = 16 \<and> parse_hex ds = unat v"
proof -
  have "ua_out u (ua_sent u)" using assms by (simp add: ua_out_def)
  from console.hex_loop_sent [OF this, of 16 v] obtain u' where
    "UartWriteHex64 ua_bus v u = Some u'" "ua_sent u' = ua_sent u @ hex_digits 16 v"
    by (auto simp: UartWriteHex64_def ua_out_def)
  moreover have "parse_hex (hex_digits 16 v) = unat v"
  proof -
    have "unat v < 2 ^ 64" using unsigned_less [of v] by simp
    then show ?thesis using parse_hex_digits [of 16 v] by simp
  qed
  ultimately show ?thesis by (auto simp: hex_digits_def)
qed

lemma uart_hex64_roundtrip_witness:
  "\<exists>u' ds. UartWriteHex64 ua_bus 0xFD883000 \<lparr>ua_dlab = False, ua_divisor = (15, 1), ua_busy = 7, ua_sent = [10], ua_lat = 20\<rparr> = Some u' \<and>
    ua_sent u' = 10 # ds \<and> parse_hex ds = 0xFD883000"
  using uart_hex64_roundtrip [of "\<lparr>ua_dlab = False, ua_divisor = (15, 1), ua_busy = 7, ua_sent = [10], ua_lat = 20\<rparr>" "0xFD883000"]
  by auto

end
