(* ===== verification/SpiLoader.thy ===== *)
theory SpiLoader
  imports NorChip LoaderSupport
begin

text \<open>
  The boot loader in the SPI flash: \<open>SpiLoader/SpiFlash.c\<close>, \<open>ElfLoader.c\<close> and \<open>Main.c\<close>. It reads an ELF
  image from the flash at 8 MB, checks it, loads its segments at their physical addresses and jumps
  to it.

  The state is a record of the SPI controller, the console, the memory outside the loader's own
  image, the addresses whose cache lines were cleaned, and the processor's registers the jump uses.
  The loader's own variables (the ELF header and the program headers it read) are values. A panic
  and a jump do not return: they are results of their own.
\<close>

subsection \<open>The machine\<close>

record ('h, 'u) machine =
  mc_spi :: 'h
  mc_uart :: 'u
  mc_mem :: memory
  mc_dc :: "u64 list"
  mc_CurrentEL :: u64
  mc_sctlr_el1 :: u64
  mc_sctlr_el2 :: u64

text \<open>What does not change: the controllers, \<open>CTR_EL0\<close> and the end of the loader's stack.\<close>

record ('h, 'u) board =
  bd_hal :: "'h spi_hal"
  bd_uart :: "'u mmio_bus"
  bd_ctr :: u64
  bd_stack_top :: u64

definition SPILOADER_LOAD_ADDR :: u64 where "SPILOADER_LOAD_ADDR = 0x04000000"
definition SPILOADER_MAX_IMAGE_SIZE :: u64 where "SPILOADER_MAX_IMAGE_SIZE = 8388608"
definition SPILOADER_PHDR_LIMIT :: u16 where "SPILOADER_PHDR_LIMIT = 32"
definition CCR2004_SPI_FLASH_OFFSET :: u32 where "CCR2004_SPI_FLASH_OFFSET = 0x00800000"

lemmas spl_consts = SPILOADER_LOAD_ADDR_def SPILOADER_MAX_IMAGE_SIZE_def SPILOADER_PHDR_LIMIT_def
  CCR2004_SPI_FLASH_OFFSET_def

definition uart_say :: "('h, 'u) board \<Rightarrow> string \<Rightarrow> ('h, 'u) machine \<Rightarrow> ('h, 'u) machine option" where
  "uart_say bd s mc = map_option (\<lambda>u. mc\<lparr>mc_uart := u\<rparr>) (UartWrite (bd_uart bd) s (mc_uart mc))"

definition uart_hex32 :: "('h, 'u) board \<Rightarrow> u32 \<Rightarrow> ('h, 'u) machine \<Rightarrow> ('h, 'u) machine option" where
  "uart_hex32 bd v mc = map_option (\<lambda>u. mc\<lparr>mc_uart := u\<rparr>) (UartWriteHex32 (bd_uart bd) v (mc_uart mc))"

definition uart_hex64 :: "('h, 'u) board \<Rightarrow> u64 \<Rightarrow> ('h, 'u) machine \<Rightarrow> ('h, 'u) machine option" where
  "uart_hex64 bd v mc = map_option (\<lambda>u. mc\<lparr>mc_uart := u\<rparr>) (UartWriteHex64 (bd_uart bd) v (mc_uart mc))"

subsection \<open>Reading the flash\<close>

definition SpiInitialize :: "'h spi_bus \<Rightarrow> 'h \<Rightarrow> (al_spi_interface \<times> 'h) option" where
  "SpiInitialize bus h = map_option fst (al_spi_claim_bus bus 30000000 0 0 0 (al_spi_init bus 500000000 h))"

definition SpiFlashReadJedecId :: "'h spi_hal \<Rightarrow> 'h \<Rightarrow> ('h \<times> int \<times> bytes) option" where
  "SpiFlashReadJedecId hal h = hal_read hal h [0x9F] 3"

lemma min_chunk:
  fixes Length :: u64
  assumes "Length \<noteq> 0"
  shows "unat (min 4096 Length) = min 4096 (unat Length)" and "0 < unat (min 4096 Length)"
    and "unat (Length - min 4096 Length) = unat Length - min 4096 (unat Length)"
    and "unat Length - min 4096 (unat Length) < unat Length"
proof -
  show e: "unat (min 4096 Length) = min 4096 (unat Length)" by (simp add: min_def word_le_nat_alt)
  show "0 < unat (min 4096 Length)" using assms by (simp add: e unat_gt_0)
  show "unat (Length - min 4096 Length) = unat Length - min 4096 (unat Length)"
    by (subst unat_sub_if') (simp add: e)
  show "unat Length - min 4096 (unat Length) < unat Length" using assms by (simp add: unat_gt_0)
qed

text \<open>The bytes are what was stored at the buffer, also when the read fails.\<close>

function flash_read_loop :: "'h spi_hal \<Rightarrow> u32 \<Rightarrow> u64 \<Rightarrow> 'h \<Rightarrow> ('h \<times> int \<times> bytes) option" where
  "flash_read_loop hal FlashOffset Length h =
     (if Length = 0 then Some (h, 0, [])
      else (let Chunk = min 4096 Length in do {
        (h1, err, d) \<leftarrow> hal_read hal h (addr_cmd 0x03 FlashOffset) (ucast Chunk);
        if err \<noteq> 0 then Some (h1, -1, d)
        else do {
          (h2, ret, ds) \<leftarrow> flash_read_loop hal (FlashOffset + ucast Chunk) (Length - Chunk) h1;
          Some (h2, ret, d @ ds)
        }
      }))"
  by pat_completeness auto
termination
  by (relation "measure (\<lambda>(hal, FlashOffset, Length, h). unat Length)") (simp_all add: min_chunk)

declare flash_read_loop.simps [simp del]

definition SpiFlashRead :: "'h spi_hal \<Rightarrow> u32 \<Rightarrow> u64 \<Rightarrow> 'h \<Rightarrow> ('h \<times> int \<times> bytes) option" where
  "SpiFlashRead hal FlashOffset Length h =
     (if ucast FlashOffset + Length > 0x01000000 then Some (h, -1, [])
      else flash_read_loop hal FlashOffset Length h)"

subsection \<open>The ELF headers\<close>

record ELF64_EHDR =
  e_ident :: bytes
  e_type :: u16
  e_machine :: u16
  e_version :: u32
  e_entry :: u64
  e_phoff :: u64
  e_shoff :: u64
  e_flags :: u32
  e_ehsize :: u16
  e_phentsize :: u16
  e_phnum :: u16
  e_shentsize :: u16
  e_shnum :: u16
  e_shstrndx :: u16

record ELF64_PHDR =
  p_type :: u32
  p_flags :: u32
  p_offset :: u64
  p_vaddr :: u64
  p_paddr :: u64
  p_filesz :: u64
  p_memsz :: u64
  p_align :: u64

text \<open>The structs at a place of a buffer.\<close>

definition ehdr_at :: "bytes \<Rightarrow> ELF64_EHDR" where
  "ehdr_at b = \<lparr>e_ident = take 16 b, e_type = le16 b 16, e_machine = le16 b 18, e_version = le32 b 20,
     e_entry = le64 b 24, e_phoff = le64 b 32, e_shoff = le64 b 40, e_flags = le32 b 48, e_ehsize = le16 b 52,
     e_phentsize = le16 b 54, e_phnum = le16 b 56, e_shentsize = le16 b 58, e_shnum = le16 b 60, e_shstrndx = le16 b 62\<rparr>"

definition phdr_at :: "bytes \<Rightarrow> nat \<Rightarrow> ELF64_PHDR" where
  "phdr_at b i = \<lparr>p_type = le32 b (56 * i), p_flags = le32 b (56 * i + 4), p_offset = le64 b (56 * i + 8),
     p_vaddr = le64 b (56 * i + 16), p_paddr = le64 b (56 * i + 24), p_filesz = le64 b (56 * i + 32),
     p_memsz = le64 b (56 * i + 40), p_align = le64 b (56 * i + 48)\<rparr>"

definition RangeOverlaps :: "u64 \<Rightarrow> u64 \<Rightarrow> u64 \<Rightarrow> u64 \<Rightarrow> bool" where
  "RangeOverlaps StartA SizeA StartB SizeB =
     (if SizeA = 0 \<or> SizeB = 0 then False
      else let EndA = StartA + SizeA; EndB = StartB + SizeB in
        if EndA < StartA \<or> EndB < StartB then True
        else \<not> (EndA \<le> StartB \<or> EndB \<le> StartA))"

definition ValidateElfHeader :: "ELF64_EHDR \<Rightarrow> bool" where
  "ValidateElfHeader Header =
     (if e_ident Header ! 0 \<noteq> 0x7f \<or> e_ident Header ! 1 \<noteq> 69 \<or> e_ident Header ! 2 \<noteq> 76 \<or> e_ident Header ! 3 \<noteq> 70 then False
      else if e_ident Header ! 4 \<noteq> 2 \<or> e_ident Header ! 5 \<noteq> 1 \<or> e_ident Header ! 6 \<noteq> 1 then False
      else if e_machine Header \<noteq> 183 \<or> e_version Header \<noteq> 1 \<or> e_ehsize Header < 64 \<or> e_phentsize Header \<noteq> 56 \<or>
        e_phnum Header = 0 \<or> e_phnum Header > SPILOADER_PHDR_LIMIT then False
      else if e_phoff Header > SPILOADER_MAX_IMAGE_SIZE \<or>
        e_phoff Header + ucast (e_phnum Header) * 56 > SPILOADER_MAX_IMAGE_SIZE then False
      else True)"

text \<open>Where a segment goes: the physical address, if it is not zero.\<close>

definition seg_target :: "ELF64_PHDR \<Rightarrow> u64" where
  "seg_target ph = (if p_paddr ph = 0 then p_vaddr ph else p_paddr ph)"

text \<open>The loop over the headers; \<^const>\<open>None\<close> is the return of -1.\<close>

fun validate_phdrs :: "u64 \<Rightarrow> u64 \<Rightarrow> ELF64_PHDR list \<Rightarrow> u64 \<Rightarrow> u64 option" where
  "validate_phdrs ReservedBase ReservedSize [] Highest = Some Highest"
| "validate_phdrs ReservedBase ReservedSize (ph # phs) Highest =
     (if p_type ph \<noteq> 1 then validate_phdrs ReservedBase ReservedSize phs Highest
      else if p_memsz ph < p_filesz ph then None
      else let Target = seg_target ph; SegmentEnd = Target + p_memsz ph; FileEnd = p_offset ph + p_filesz ph in
        if SegmentEnd < Target \<or> FileEnd < p_offset ph then None
        else if FileEnd > SPILOADER_MAX_IMAGE_SIZE then None
        else if RangeOverlaps Target (p_memsz ph) ReservedBase ReservedSize then None
        else validate_phdrs ReservedBase ReservedSize phs (if FileEnd > Highest then FileEnd else Highest))"

definition ValidateProgramHeaders :: "ELF64_EHDR \<Rightarrow> ELF64_PHDR list \<Rightarrow> u64 \<Rightarrow> u64 \<Rightarrow> u64 option" where
  "ValidateProgramHeaders Header phs ReservedBase ReservedSize =
     validate_phdrs ReservedBase ReservedSize phs (e_phoff Header + ucast (e_phnum Header) * 56)"

subsection \<open>Loading\<close>

text \<open>The addresses given to \<open>dc civac\<close>; \<^const>\<open>None\<close> is a loop that never ends.\<close>

partial_function (option) dc_loop :: "u64 \<Rightarrow> u64 \<Rightarrow> u64 \<Rightarrow> u64 list option" where
  "dc_loop CacheLineBytes Cursor End =
     (if Cursor < End then do {
        ls \<leftarrow> dc_loop CacheLineBytes (Cursor + CacheLineBytes) End;
        Some (Cursor # ls)
      }
      else Some [])"

definition CleanInvalidateDataCacheRange :: "u64 \<Rightarrow> u64 \<Rightarrow> u64 \<Rightarrow> u64 list option" where
  "CleanInvalidateDataCacheRange Ctr Address Length =
     (if Length = 0 then Some []
      else let CacheLineBytes = push_bit (unat (drop_bit 16 Ctr AND 0x0F)) 4;
             Start = Address AND NOT (CacheLineBytes - 1);
             End = (Address + Length + CacheLineBytes - 1) AND NOT (CacheLineBytes - 1)
        in dc_loop CacheLineBytes Start End)"

definition clean_range :: "('h, 'u) board \<Rightarrow> u64 \<Rightarrow> u64 \<Rightarrow> ('h, 'u) machine \<Rightarrow> ('h, 'u) machine option" where
  "clean_range bd Address Length mc =
     map_option (\<lambda>ls. mc\<lparr>mc_dc := mc_dc mc @ ls\<rparr>) (CleanInvalidateDataCacheRange (bd_ctr bd) Address Length)"

text \<open>\<open>False\<close>: the read failed and the loader panicked, with its message on the console.\<close>

definition spl_panic :: "('h, 'u) board \<Rightarrow> string \<Rightarrow> ('h, 'u) machine \<Rightarrow> ('h, 'u) machine option" where
  "spl_panic bd Message mc = do {
     mc \<leftarrow> uart_say bd ''SpiLoader: panic: '' mc;
     mc \<leftarrow> uart_say bd Message mc;
     uart_say bd [CHR 0x0D, CHR 0x0A] mc
   }"

definition LoadSegment :: "('h, 'u) board \<Rightarrow> ELF64_PHDR \<Rightarrow> ('h, 'u) machine \<Rightarrow> (('h, 'u) machine \<times> bool) option" where
  "LoadSegment bd ph mc = do {
     let Target = seg_target ph;
     (mc1, ok) \<leftarrow> (if p_filesz ph > 0 then do {
         (h1, ret, d) \<leftarrow> SpiFlashRead (bd_hal bd) (CCR2004_SPI_FLASH_OFFSET + ucast (p_offset ph)) (p_filesz ph) (mc_spi mc);
         Some (mc\<lparr>mc_spi := h1, mc_mem := put_bytes Target d (mc_mem mc)\<rparr>, ret = 0)
       } else Some (mc, True));
     if \<not> ok then do { mc2 \<leftarrow> spl_panic bd ''segment read'' mc1; Some (mc2, False) }
     else do {
       let mc2 = (if p_memsz ph > p_filesz ph
         then mc1\<lparr>mc_mem := SpiloaderMemSet (Target + p_filesz ph) 0 (p_memsz ph - p_filesz ph) (mc_mem mc1)\<rparr>
         else mc1);
       mc3 \<leftarrow> clean_range bd Target (p_memsz ph) mc2;
       Some (mc3, True)
     }
   }"

fun load_segments :: "('h, 'u) board \<Rightarrow> ELF64_PHDR list \<Rightarrow> ('h, 'u) machine \<Rightarrow> (('h, 'u) machine \<times> bool) option" where
  "load_segments bd [] mc = Some (mc, True)"
| "load_segments bd (ph # phs) mc =
     (if p_type ph \<noteq> 1 then load_segments bd phs mc
      else do {
        mc \<leftarrow> uart_say bd ''SpiLoader: load seg @ 0x'' mc;
        mc \<leftarrow> uart_hex64 bd (seg_target ph) mc;
        mc \<leftarrow> uart_say bd '' size 0x'' mc;
        mc \<leftarrow> uart_hex64 bd (p_memsz ph) mc;
        mc \<leftarrow> uart_say bd [CHR 0x0D, CHR 0x0A] mc;
        (mc, ok) \<leftarrow> LoadSegment bd ph mc;
        if \<not> ok then Some (mc, False) else load_segments bd phs mc
      })"

datatype load_result = LOADED u64 u64 | LOAD_FAILED | PANICKED

definition LoadImageFromFlash :: "('h, 'u) board \<Rightarrow> ('h, 'u) machine \<Rightarrow> (('h, 'u) machine \<times> load_result) option" where
  "LoadImageFromFlash bd mc = do {
     let ReservedBase = SPILOADER_LOAD_ADDR;
     let ReservedTop = bd_stack_top bd;
     let ReservedSize = ReservedTop - ReservedBase;
     (h1, ret, d) \<leftarrow> SpiFlashRead (bd_hal bd) CCR2004_SPI_FLASH_OFFSET 64 (mc_spi mc);
     let mc1 = mc\<lparr>mc_spi := h1\<rparr>;
     if ret \<noteq> 0 then Some (mc1, LOAD_FAILED)
     else do {
       let Header = ehdr_at d;
       if \<not> ValidateElfHeader Header then do {
         mc2 \<leftarrow> uart_say bd (''SpiLoader: bad ELF header'' @ [CHR 0x0D, CHR 0x0A]) mc1;
         Some (mc2, LOAD_FAILED)
       }
       else do {
         (h2, ret, d2) \<leftarrow> SpiFlashRead (bd_hal bd) (CCR2004_SPI_FLASH_OFFSET + ucast (e_phoff Header))
           (ucast (e_phnum Header) * 56) (mc_spi mc1);
         let mc2 = mc1\<lparr>mc_spi := h2\<rparr>;
         if ret \<noteq> 0 then do {
           mc3 \<leftarrow> uart_say bd (''SpiLoader: PHDR read failed'' @ [CHR 0x0D, CHR 0x0A]) mc2;
           Some (mc3, LOAD_FAILED)
         }
         else do {
           let phs = map (phdr_at d2) [0..<unat (e_phnum Header)];
           case ValidateProgramHeaders Header phs ReservedBase ReservedSize of
             None \<Rightarrow> do {
               mc3 \<leftarrow> uart_say bd (''SpiLoader: bad PHDRs'' @ [CHR 0x0D, CHR 0x0A]) mc2;
               Some (mc3, LOAD_FAILED)
             }
           | Some MaxFileExtent \<Rightarrow> do {
               mc3 \<leftarrow> uart_say bd ''SpiLoader: ELF bytes <= 0x'' mc2;
               mc3 \<leftarrow> uart_hex64 bd MaxFileExtent mc3;
               mc3 \<leftarrow> uart_say bd [CHR 0x0D, CHR 0x0A] mc3;
               (mc4, ok) \<leftarrow> load_segments bd phs mc3;
               Some (mc4, if ok then LOADED (e_entry Header) ReservedTop else PANICKED)
             }
         }
       }
     }
   }"

subsection \<open>The jump and the main function\<close>

text \<open>The caches and the MMU are turned off at the current exception level.\<close>

definition SpiloaderJumpToImage :: "('h, 'u) board \<Rightarrow> u64 \<Rightarrow> ('h, 'u) machine \<Rightarrow> ('h, 'u) machine option" where
  "SpiloaderJumpToImage bd ReservedTop mc = do {
     mc1 \<leftarrow> clean_range bd SPILOADER_LOAD_ADDR (ReservedTop - SPILOADER_LOAD_ADDR) mc;
     let off = (\<lambda>v. ((v AND NOT 1) AND NOT 4) AND NOT 0x1000);
     Some (if drop_bit 2 (mc_CurrentEL mc1) = 2 then mc1\<lparr>mc_sctlr_el2 := off (mc_sctlr_el2 mc1)\<rparr>
           else mc1\<lparr>mc_sctlr_el1 := off (mc_sctlr_el1 mc1)\<rparr>)
   }"

definition LogJedecId :: "('h, 'u) board \<Rightarrow> ('h, 'u) machine \<Rightarrow> ('h, 'u) machine option" where
  "LogJedecId bd mc = do {
     (h1, ret, JedecId) \<leftarrow> SpiFlashReadJedecId (bd_hal bd) (mc_spi mc);
     let mc = mc\<lparr>mc_spi := h1\<rparr>;
     if ret \<noteq> 0 then uart_say bd (''SpiLoader: JEDEC read failed'' @ [CHR 0x0D, CHR 0x0A]) mc
     else do {
       i0 \<leftarrow> rd8 JedecId 0;
       i1 \<leftarrow> rd8 JedecId 1;
       i2 \<leftarrow> rd8 JedecId 2;
       mc \<leftarrow> uart_say bd ''SpiLoader: JEDEC '' mc;
       mc \<leftarrow> uart_hex32 bd (ucast i0) mc;
       mc \<leftarrow> uart_say bd '' '' mc;
       mc \<leftarrow> uart_hex32 bd (ucast i1) mc;
       mc \<leftarrow> uart_say bd '' '' mc;
       mc \<leftarrow> uart_hex32 bd (ucast i2) mc;
       uart_say bd [CHR 0x0D, CHR 0x0A] mc
     }
   }"

datatype boot_result = JUMPED u64 | HALTED

definition SpiloaderMain ::
    "'h spi_bus \<Rightarrow> 'u mmio_bus \<Rightarrow> u64 \<Rightarrow> u64 \<Rightarrow> ('h, 'u) machine \<Rightarrow> (('h, 'u) machine \<times> boot_result) option" where
  "SpiloaderMain spi con ctr stack_top mc = do {
     let bd = \<lparr>bd_hal = nor_hal spi, bd_uart = con, bd_ctr = ctr, bd_stack_top = stack_top\<rparr>;
     let mc = mc\<lparr>mc_uart := UartInitialize con (mc_uart mc)\<rparr>;
     mc \<leftarrow> uart_say bd (''SpiLoader: start'' @ [CHR 0x0D, CHR 0x0A]) mc;
     (spi_if, h) \<leftarrow> SpiInitialize spi (mc_spi mc);
     mc \<leftarrow> LogJedecId bd (mc\<lparr>mc_spi := h\<rparr>);
     (mc, res) \<leftarrow> LoadImageFromFlash bd mc;
     case res of
       LOADED EntryPoint ReservedTop \<Rightarrow> do {
         mc \<leftarrow> uart_say bd ''SpiLoader: jump 0x'' mc;
         mc \<leftarrow> uart_hex64 bd EntryPoint mc;
         mc \<leftarrow> uart_say bd [CHR 0x0D, CHR 0x0A] mc;
         mc \<leftarrow> SpiloaderJumpToImage bd ReservedTop mc;
         Some (mc, JUMPED EntryPoint)
       }
     | LOAD_FAILED \<Rightarrow> do {
         mc \<leftarrow> spl_panic bd ''ELF load failed'' mc;
         Some (mc, HALTED)
       }
     | PANICKED \<Rightarrow> Some (mc, HALTED)
   }"

end
