(* ===== verification/SpiBoot.thy ===== *)
theory SpiBoot
  imports SpiNor SpiLoader
begin

text \<open>
  What the SPI boot loader does, from the contracts of the flash and of the console (the locale
  \<open>spi_loader\<close>), and on the models of both: the loader never writes into its own image, and a valid
  ELF image in the flash is loaded and started.
\<close>

subsection \<open>The HAL stores no more than was asked for\<close>

lemma spi_read_loop_length:
  "spi_read_loop bus cmd_len bytelen dummy_tx watchdog h = Some (h', ret, ds) \<Longrightarrow> length ds \<le> bytelen"
proof (induction bus cmd_len bytelen dummy_tx watchdog h arbitrary: h' ret ds rule: spi_read_loop.induct)
  case (1 bus cmd_len bytelen dummy_tx watchdog h)
  show ?case
  proof (cases "bytelen = 0")
    case True
    then show ?thesis using "1.prems" by (simp add: spi_read_loop.simps)
  next
    case False
    obtain h1 tx where tx: "al_reg_read16 bus TXFLR h = (h1, tx)" by fastforce
    obtain h2 rx where rx: "al_reg_read16 bus RXFLR h1 = (h2, rx)" by fastforce
    define w where "w = (if rx \<noteq> 0 then 0 else Suc watchdog)"
    define h3 where "h3 = (if rx = 0 \<and> w mod RX_TX_FLR_TIMEOUT_DELAY_FACTOR = 0 then al_udelay bus h2 else h2)"
    obtain h4 n where fl: "fill_dummy bus dummy_tx (unat tx) (unat rx) h3 = (h4, n)" by fastforce
    have eq: "spi_read_loop bus cmd_len bytelen dummy_tx watchdog h =
        (if w \<ge> RX_TX_FLR_TIMEOUT_US * RX_TX_FLR_TIMEOUT_DELAY_FACTOR then Some (h3, - ETIME, [])
         else do {
           (h5, c, d) \<leftarrow> drain_rx bus (unat rx) cmd_len bytelen h4;
           (h6, ret, d') \<leftarrow> spi_read_loop bus c (bytelen - length d) n w h5;
           Some (h6, ret, d @ d')
         })"
      using False fl by (subst spi_read_loop.simps) (simp add: tx rx Let_def w_def h3_def cong: if_cong)
    show ?thesis
    proof (cases "w \<ge> RX_TX_FLR_TIMEOUT_US * RX_TX_FLR_TIMEOUT_DELAY_FACTOR")
      case True
      then show ?thesis using "1.prems" eq by simp
    next
      case w: False
      obtain h5 c d d' where d: "drain_rx bus (unat rx) cmd_len bytelen h4 = Some (h5, c, d)"
          "spi_read_loop bus c (bytelen - length d) n w h5 = Some (h', ret, d')" "ds = d @ d'"
        using "1.prems" eq w by (auto simp: bind_eq_Some_conv)
      have "length d' \<le> bytelen - length d"
        using "1.IH" [OF False tx [symmetric] rx [symmetric] w_def h3_def w fl [symmetric] d(1) refl refl d(2)] .
      then show ?thesis using drain_rx_count [OF d(1)] d(3) by auto
    qed
  qed
qed

lemma al_spi_read_length:
  assumes "al_spi_read bus cmd n cs timeout h = Some (h', ret, d)"
  shows "length d \<le> unat n"
proof (cases "unat n \<ge> 2 ^ 31 \<or> length cmd \<ge> 256")
  case True
  then show ?thesis using assms by (simp add: al_spi_read_def)
next
  case False
  obtain h1 r1 where c: "command_phase bus TRANS_RECV cmd timeout h = (h1, r1)" by fastforce
  obtain h2 k where p: "prefill bus (unat n) h1 = (h2, k)" by fastforce
  show ?thesis
  proof (cases "r1 = 0")
    case True
    let ?l = "spi_read_loop bus (length cmd) (unat n) k 0 (al_reg_write16 bus SER (ucast (SPI_CS_INDEX_TO_VAL cs)) h2)"
    have "al_spi_read bus cmd n cs timeout h = do {
        (h3, ret, ds) \<leftarrow> ?l;
        let (h4, ret4) = (if ret = 0 then al_spi_wait_for_sr_idle bus timeout h3 else (h3, ret));
        Some (al_spi_disable bus (al_reg_write16 bus SER AL_SPI_CS_NONE h4), ret4, ds) }"
      using c p True False by (simp add: al_spi_read_def)
    then obtain h3 r3 where "?l = Some (h3, r3, d)"
      using assms by (cases ?l) (auto simp: Let_def split: prod.splits)
    then show ?thesis by (rule spi_read_loop_length)
  next
    case r: False
    then show ?thesis using assms c False by (simp add: al_spi_read_def)
  qed
qed

subsection \<open>Cache lines\<close>

lemma unat_align: "unat ((a :: u64) AND NOT (mask j)) = unat a div 2 ^ j * 2 ^ j"
proof -
  have "a AND NOT (mask j) = push_bit j (drop_bit j a)" by (simp add: bit_eq_iff bit_simps) auto
  moreover have "unat (push_bit j (drop_bit j a)) = unat a div 2 ^ j * 2 ^ j"
  proof -
    have "unat a < 2 ^ 64" using unsigned_less [of a] by simp
    then have "take_bit 64 (unat a) = unat a" by (simp only: take_bit_nat_eq_self)
    then have "unat (drop_bit j a) = unat a div 2 ^ j" using drop_bit_eq_div [of j "unat a"] by (simp add: unsigned_drop_bit_eq)
    moreover have "unat a div 2 ^ j * 2 ^ j < 2 ^ 64"
      using \<open>unat a < 2 ^ 64\<close> div_times_less_eq_dividend [of "unat a" "2 ^ j"] by linarith
    moreover have "unat (push_bit j (drop_bit j a)) = take_bit 64 (unat (drop_bit j a) * 2 ^ j)"
      by (simp only: unsigned_push_bit_eq push_bit_eq_mult [of j "unat (drop_bit j a)"]) simp
    ultimately show ?thesis by (simp only: take_bit_nat_eq_self)
  qed
  ultimately show ?thesis by simp
qed

lemma dc_loop_lines:
  fixes CLB :: u64
  assumes "unat CLB = 2 ^ j" and "2 ^ j dvd unat Cursor" and "2 ^ j dvd unat End"
  shows "\<exists>ls. dc_loop CLB Cursor End = Some ls \<and>
    (\<forall>x. 2 ^ j dvd unat x \<longrightarrow> unat Cursor \<le> unat x \<longrightarrow> unat x < unat End \<longrightarrow> x \<in> set ls)"
  using assms(2)
proof (induction "unat End - unat Cursor" arbitrary: Cursor rule: less_induct)
  case less
  show ?case
  proof (cases "Cursor < End")
    case False
    then show ?thesis by (subst dc_loop.simps) (auto simp: word_less_nat_alt)
  next
    case True
    have lt: "unat Cursor < unat End" using True by (simp add: word_less_nat_alt)
    obtain p q where pq: "unat Cursor = 2 ^ j * p" "unat End = 2 ^ j * q" using less.prems assms(3) by (auto elim!: dvdE)
    then have "p < q" using lt by simp
    then have le: "unat Cursor + 2 ^ j \<le> unat End"
      using mult_le_mono2 [of "Suc p" q "2 ^ j"] pq by simp
    have "unat End < 2 ^ 64" using unsigned_less [of End] by simp
    then have c: "unat (Cursor + CLB) = unat Cursor + 2 ^ j"
      using le assms(1) by (subst unat_word_ariths) simp
    have "0 < (2 :: nat) ^ j" by simp
    then have "unat End - unat (Cursor + CLB) < unat End - unat Cursor" using c lt by linarith
    moreover have "2 ^ j dvd unat (Cursor + CLB)" using c less.prems by simp
    ultimately obtain ls where ls: "dc_loop CLB (Cursor + CLB) End = Some ls"
        "\<forall>x. 2 ^ j dvd unat x \<longrightarrow> unat (Cursor + CLB) \<le> unat x \<longrightarrow> unat x < unat End \<longrightarrow> x \<in> set ls"
      using less.hyps by blast
    have "x = Cursor \<or> unat Cursor + 2 ^ j \<le> unat x" if x: "2 ^ j dvd unat x" "unat Cursor \<le> unat x" for x
    proof -
      obtain r where r: "unat x = 2 ^ j * r" using x(1) by (rule dvdE)
      then have "p \<le> r" using x(2) pq by simp
      then show ?thesis
      proof (cases "p = r")
        case True
        then show ?thesis using r pq by (simp add: word_unat_eq_iff)
      next
        case False
        then have "Suc p \<le> r" using \<open>p \<le> r\<close> by simp
        then show ?thesis using mult_le_mono2 [of "Suc p" r "2 ^ j"] r pq by simp
      qed
    qed
    then show ?thesis using True ls c by (subst dc_loop.simps) auto
  qed
qed

text \<open>The size of a line, and the line of an address.\<close>

definition line_shift :: "u64 \<Rightarrow> nat" where
  "line_shift Ctr = unat (drop_bit 16 Ctr AND 0x0F) + 2"

definition cache_line :: "u64 \<Rightarrow> u64 \<Rightarrow> u64" where
  "cache_line Ctr a = a AND NOT (mask (line_shift Ctr))"

lemma line_shift_small: "line_shift Ctr \<le> 17"
proof -
  have "unat (drop_bit 16 Ctr AND mask 4) = unat (drop_bit 16 Ctr) mod 2 ^ 4"
    by (simp only: take_bit_eq_mask [symmetric] unsigned_take_bit_eq take_bit_eq_mod [of 4 "unat (drop_bit 16 Ctr)"])
  moreover have "\<dots> < 16" by simp
  ultimately show ?thesis by (simp add: line_shift_def mask_eq_exp_minus_1)
qed

lemma clean_range_lines:
  shows "\<exists>ls. CleanInvalidateDataCacheRange Ctr A n = Some ls \<and>
    (unat A + unat n + 2 ^ line_shift Ctr \<le> 2 ^ 64 \<longrightarrow> (\<forall>a. unat (a - A) < unat n \<longrightarrow> cache_line Ctr a \<in> set ls))"
proof (cases "n = 0")
  case True
  then show ?thesis by (simp add: CleanInvalidateDataCacheRange_def)
next
  case False
  let ?j = "line_shift Ctr"
  define CLB :: u64 where "CLB = push_bit (unat (drop_bit 16 Ctr AND 0x0F)) 4"
  have e: "CLB = 2 ^ ?j"
    by (simp add: CLB_def line_shift_def push_bit_eq_mult power_add mult.commute)
  have m: "CLB - 1 = mask ?j" by (simp add: e mask_eq_exp_minus_1)
  have "(2 :: nat) ^ ?j < 2 ^ 64" using line_shift_small [of Ctr] by (intro power_strict_increasing) simp_all
  then have u: "unat CLB = 2 ^ ?j" unfolding e using unat_of_nat_small [of "2 ^ ?j", where 'a = 64] by simp
  define S where "S = A AND NOT (mask ?j)"
  define E where "E = (A + n + CLB - 1) AND NOT (mask ?j)"
  have eq: "CleanInvalidateDataCacheRange Ctr A n = dc_loop CLB S E"
    using False by (simp add: CleanInvalidateDataCacheRange_def CLB_def [symmetric] m S_def E_def Let_def)
  have "2 ^ ?j dvd unat S" "2 ^ ?j dvd unat E" by (simp_all add: S_def E_def unat_align)
  from dc_loop_lines [OF u this] obtain ls where ls: "dc_loop CLB S E = Some ls"
      "\<forall>x. 2 ^ ?j dvd unat x \<longrightarrow> unat S \<le> unat x \<longrightarrow> unat x < unat E \<longrightarrow> x \<in> set ls" by blast
  have "cache_line Ctr a \<in> set ls" if r: "unat A + unat n + 2 ^ ?j \<le> 2 ^ 64" "unat (a - A) < unat n" for a
  proof -
    have "unat (A + (a - A)) = unat A + unat (a - A)"
      using r by (subst unat_word_ariths) simp
    then have a: "unat A \<le> unat a" "unat a < unat A + unat n" using r(2) by simp_all
    have p: "0 < (2 :: nat) ^ ?j" by simp
    have "unat A + unat n < 2 ^ 64" using r(1) p by linarith
    then have "unat (A + n) = unat A + unat n" by (subst unat_word_ariths) simp
    moreover have "unat (CLB - 1) = 2 ^ ?j - 1"
      using u p by (subst unat_minus_one) (simp_all flip: unat_eq_zero)
    moreover have "unat A + unat n + (2 ^ ?j - 1) < 2 ^ 64" using r(1) p by linarith
    ultimately have "unat (A + n + (CLB - 1)) = unat A + unat n + (2 ^ ?j - 1)"
      using unat_add_of_nat [of "A + n" "2 ^ ?j - 1"] by (subst unat_word_ariths) simp
    then have "unat E = (unat A + unat n + (2 ^ ?j - 1)) div 2 ^ ?j * 2 ^ ?j"
      unfolding E_def unat_align by (simp add: add_diff_eq)
    moreover have "unat a div 2 ^ ?j < (unat A + unat n + (2 ^ ?j - 1)) div 2 ^ ?j"
    proof -
      have "(unat a + 2 ^ ?j) div 2 ^ ?j \<le> (unat A + unat n + (2 ^ ?j - 1)) div 2 ^ ?j"
        using a p by (intro div_le_mono) linarith
      moreover have "(unat a + 2 ^ ?j) div 2 ^ ?j = unat a div 2 ^ ?j + 1" by (rule div_add_self2) simp
      ultimately show ?thesis by linarith
    qed
    ultimately have "unat (cache_line Ctr a) < unat E" using p by (simp add: cache_line_def unat_align)
    moreover have "unat S \<le> unat (cache_line Ctr a)"
      using a(1) by (simp add: S_def cache_line_def unat_align div_le_mono)
    moreover have "2 ^ ?j dvd unat (cache_line Ctr a)" by (simp add: cache_line_def unat_align)
    ultimately show ?thesis using ls(2) by blast
  qed
  then show ?thesis using eq ls(1) by auto
qed

subsection \<open>The loader, from the contracts\<close>

text \<open>The extent of a segment, and its bytes in the flash.\<close>

definition in_seg :: "ELF64_PHDR \<Rightarrow> u64 \<Rightarrow> bool" where
  "in_seg ph a = (unat (a - seg_target ph) < unat (p_memsz ph))"

definition seg_byte :: "(nat \<Rightarrow> u8) \<Rightarrow> ELF64_PHDR \<Rightarrow> u64 \<Rightarrow> u8" where
  "seg_byte m ph a = (let k = unat (a - seg_target ph) in
     if k < unat (p_filesz ph) then m (0x800000 + unat (p_offset ph) + k) else 0)"

definition seg_ok :: "ELF64_PHDR \<Rightarrow> bool" where
  "seg_ok ph = (unat (p_filesz ph) \<le> unat (p_memsz ph) \<and> unat (seg_target ph) + unat (p_memsz ph) < 2 ^ 64 \<and>
     unat (p_offset ph) + unat (p_filesz ph) \<le> 2 ^ 23)"

definition load_seg_mem :: "(nat \<Rightarrow> u8) \<Rightarrow> ELF64_PHDR \<Rightarrow> memory \<Rightarrow> memory" where
  "load_seg_mem m ph mem = (\<lambda>a. if in_seg ph a then seg_byte m ph a else mem a)"

definition seg_lines :: "u64 \<Rightarrow> ELF64_PHDR \<Rightarrow> u64 list \<Rightarrow> bool" where
  "seg_lines Ctr ph ls = (unat (seg_target ph) + unat (p_memsz ph) + 2 ^ line_shift Ctr \<le> 2 ^ 64 \<longrightarrow>
     (\<forall>a. in_seg ph a \<longrightarrow> cache_line Ctr a \<in> set ls))"

text \<open>A segment of memory after the two stores of \<open>LoadSegment\<close>.\<close>

lemma two_stores:
  assumes "seg_ok ph" and "d = map (\<lambda>i. m (0x800000 + unat (p_offset ph) + i)) [0..<unat (p_filesz ph)]"
  shows "(if p_memsz ph > p_filesz ph
      then SpiloaderMemSet (seg_target ph + p_filesz ph) 0 (p_memsz ph - p_filesz ph) (put_bytes (seg_target ph) d mem)
      else put_bytes (seg_target ph) d mem) = load_seg_mem m ph mem"
proof
  fix a
  define x where "x = a - seg_target ph"
  let ?k = "unat x" and ?n = "unat (p_filesz ph)" and ?N = "unat (p_memsz ph)"
  have le: "?n \<le> ?N" "?n < 2 ^ 64" "?N < 2 ^ 64" using assms(1) unsigned_less [of "p_filesz ph"] unsigned_less [of "p_memsz ph"]
    by (simp_all add: seg_ok_def)
  have put: "put_bytes (seg_target ph) d mem a = (if ?k < ?n then m (0x800000 + unat (p_offset ph) + ?k) else mem a)"
    using put_bytes_apply [of d "seg_target ph" mem a] le(2) by (simp add: assms(2) x_def)
  have off: "unat (a - (seg_target ph + p_filesz ph)) = (if ?n \<le> ?k then ?k - ?n else ?k + 2 ^ 64 - ?n)"
  proof -
    have eq: "a - (seg_target ph + p_filesz ph) = x - p_filesz ph" by (simp only: diff_diff_add x_def)
    show ?thesis unfolding eq using unat_sub_if' [of x "p_filesz ph"] by simp
  qed
  have dif: "unat (p_memsz ph - p_filesz ph) = ?N - ?n" using le(1) by (simp add: unat_sub_if')
  have "?k < 2 ^ 64" using unsigned_less [of x] by simp
  then have "(unat (a - (seg_target ph + p_filesz ph)) < ?N - ?n) = (?n \<le> ?k \<and> ?k < ?N)"
    using off le by auto
  then show "(if p_memsz ph > p_filesz ph
      then SpiloaderMemSet (seg_target ph + p_filesz ph) 0 (p_memsz ph - p_filesz ph) (put_bytes (seg_target ph) d mem)
      else put_bytes (seg_target ph) d mem) a = load_seg_mem m ph mem a"
    using le(1) unfolding load_seg_mem_def in_seg_def seg_byte_def Let_def x_def [symmetric] word_less_nat_alt
    by (auto simp: MemSet_apply dif put)
qed

text \<open>The console of a board: what the loader prints changes nothing else.\<close>

locale spl_console = con: uart "bd_uart bd" sent
  for bd :: "('h, 'u) board" and sent :: "'u \<Rightarrow> bytes \<Rightarrow> bool"

context spl_console begin

definition talks :: "('h, 'u) machine \<Rightarrow> bool" where
  "talks mc = (\<exists>cs. sent (mc_uart mc) cs)"

lemma uart_steps:
  assumes "talks mc"
  shows "\<exists>u. uart_say bd s mc = Some (mc\<lparr>mc_uart := u\<rparr>) \<and> talks (mc\<lparr>mc_uart := u\<rparr>)"
    and "\<exists>u. uart_hex32 bd v mc = Some (mc\<lparr>mc_uart := u\<rparr>) \<and> talks (mc\<lparr>mc_uart := u\<rparr>)"
    and "\<exists>u. uart_hex64 bd w mc = Some (mc\<lparr>mc_uart := u\<rparr>) \<and> talks (mc\<lparr>mc_uart := u\<rparr>)"
proof -
  obtain cs where cs: "sent (mc_uart mc) cs" using assms by (auto simp: talks_def)
  show "\<exists>u. uart_say bd s mc = Some (mc\<lparr>mc_uart := u\<rparr>) \<and> talks (mc\<lparr>mc_uart := u\<rparr>)"
    using con.UartWrite_sent [OF cs, of s] by (auto simp: uart_say_def talks_def)
  show "\<exists>u. uart_hex32 bd v mc = Some (mc\<lparr>mc_uart := u\<rparr>) \<and> talks (mc\<lparr>mc_uart := u\<rparr>)"
    using con.hex_loop_sent [OF cs, of 8 v] by (auto simp: uart_hex32_def UartWriteHex32_def talks_def)
  show "\<exists>u. uart_hex64 bd w mc = Some (mc\<lparr>mc_uart := u\<rparr>) \<and> talks (mc\<lparr>mc_uart := u\<rparr>)"
    using con.hex_loop_sent [OF cs, of 16 w] by (auto simp: uart_hex64_def UartWriteHex64_def talks_def)
qed

lemma panic_step:
  assumes "talks mc"
  shows "\<exists>u. spl_panic bd s mc = Some (mc\<lparr>mc_uart := u\<rparr>) \<and> talks (mc\<lparr>mc_uart := u\<rparr>)"
proof -
  obtain u1 where u1: "uart_say bd ''SpiLoader: panic: '' mc = Some (mc\<lparr>mc_uart := u1\<rparr>)" "talks (mc\<lparr>mc_uart := u1\<rparr>)"
    using uart_steps(1) [OF assms] by blast
  obtain u2 where u2: "uart_say bd s (mc\<lparr>mc_uart := u1\<rparr>) = Some (mc\<lparr>mc_uart := u2\<rparr>)" "talks (mc\<lparr>mc_uart := u2\<rparr>)"
    using uart_steps(1) [OF u1(2), of s] by auto
  obtain u3 where "uart_say bd [CHR 0x0D, CHR 0x0A] (mc\<lparr>mc_uart := u2\<rparr>) = Some (mc\<lparr>mc_uart := u3\<rparr>)" "talks (mc\<lparr>mc_uart := u3\<rparr>)"
    using uart_steps(1) [OF u2(2), of "[CHR 0x0D, CHR 0x0A]"] by auto
  then show ?thesis using u1(1) u2(1) by (intro exI [of _ u3]) (simp add: spl_panic_def)
qed

end

locale spi_loader = nor_flash "bd_hal bd" holds reliable + spl_console bd sent
  for bd :: "('h, 'u) board" and holds :: "'h \<Rightarrow> nor_chip \<Rightarrow> bool" and reliable :: bool
    and sent :: "'u \<Rightarrow> bytes \<Rightarrow> bool" +
  assumes short_read: "hal_read (bd_hal bd) h cmd n = Some (h', err, d) \<Longrightarrow> length d \<le> unat n"

context spi_loader begin

lemma hal_gives:
  assumes "gives reliable holds (HalRead (bd_hal bd) cmd n h) f r"
  shows "\<exists>h' err d. hal_read (bd_hal bd) h cmd n = Some (h', err, d) \<and> length d \<le> unat n \<and> (\<exists>g. holds h' g) \<and>
    (if err = 0 then holds h' f \<and> d = r else \<not> reliable)"
proof -
  obtain h' st d g where r: "HalRead (bd_hal bd) cmd n h = Some (h', st, d)" "holds h' g"
      "if st = EFI_SUCCESS then holds h' f \<and> d = r else EFI_ERROR st \<and> \<not> reliable"
    using assms by (auto simp: gives_def)
  then obtain err where e: "hal_read (bd_hal bd) h cmd n = Some (h', err, d)" "st = (if err = 0 then EFI_SUCCESS else EFI_DEVICE_ERROR)"
    by (auto simp: HalRead_def)
  show ?thesis using e r(2,3) short_read [OF e(1)] by (cases "err = 0") auto
qed

lemma flash_read_loop_gives:
  assumes "holds h f" and "nor_busy f = 0"
  shows "\<exists>h' ret d. flash_read_loop (bd_hal bd) FlashOffset Length h = Some (h', ret, d) \<and>
    length d \<le> unat Length \<and> (\<exists>g. holds h' g) \<and>
    (if ret = 0 then holds h' f \<and> d = map (\<lambda>i. nor_mem f ((unat FlashOffset + i) mod 2 ^ 24)) [0..<unat Length]
     else \<not> reliable)"
  using assms(1)
proof (induction "unat Length" arbitrary: FlashOffset Length h rule: less_induct)
  case less
  show ?case
  proof (cases "Length = 0")
    case True
    then show ?thesis using less.prems by (subst flash_read_loop.simps) auto
  next
    case False
    define C where "C = min 4096 Length"
    note c = min_chunk [OF False, folded C_def]
    have uc: "unat (ucast C :: u32) = unat C" using c(1) by (simp add: unsigned_ucast_eq take_bit_nat_eq_self)
    let ?r = "map (\<lambda>i. nor_mem f ((unat FlashOffset mod 2 ^ 24 + i) mod 2 ^ 24)) [0..<unat C]"
    have "gives reliable holds (HalRead (bd_hal bd) (addr_cmd 0x03 FlashOffset) (ucast C) h) f ?r"
      using read_chunk_gives [OF less.prems assms(2), of "ucast C" FlashOffset] c(1,2) uc
      by (simp add: CMD_READ_DATA_def)
    from hal_gives [OF this] obtain h1 err d where
      r: "hal_read (bd_hal bd) h (addr_cmd 0x03 FlashOffset) (ucast C) = Some (h1, err, d)"
        "length d \<le> unat C" "\<exists>g. holds h1 g" "if err = 0 then holds h1 f \<and> d = ?r else \<not> reliable"
      using uc by auto
    have eq: "flash_read_loop (bd_hal bd) FlashOffset Length h = (if err \<noteq> 0 then Some (h1, -1, d) else do {
        (h2, ret, ds) \<leftarrow> flash_read_loop (bd_hal bd) (FlashOffset + ucast C) (Length - C) h1;
        Some (h2, ret, d @ ds) })"
      using False r(1) by (subst flash_read_loop.simps) (simp add: C_def [symmetric] Let_def)
    show ?thesis
    proof (cases "err = 0")
      case err: False
      have "unat C \<le> unat Length" using c(1) by simp
      then show ?thesis using eq r err by auto
    next
      case True
      then have h1: "holds h1 f" "d = ?r" using r(4) by simp_all
      have lt: "unat (Length - C) < unat Length" using c(3,4) by simp
      obtain h2 ret ds where i: "flash_read_loop (bd_hal bd) (FlashOffset + ucast C) (Length - C) h1 = Some (h2, ret, ds)"
          "length ds \<le> unat (Length - C)" "\<exists>g. holds h2 g"
          "if ret = 0 then holds h2 f \<and> ds = map (\<lambda>i. nor_mem f ((unat (FlashOffset + ucast C) + i) mod 2 ^ 24)) [0..<unat (Length - C)]
           else \<not> reliable"
        using less.hyps [OF lt h1(1), of "FlashOffset + ucast C"] by blast
      have l: "unat Length = unat C + unat (Length - C)" using c(1,3) by simp
      have all: "d @ ds = map (\<lambda>i. nor_mem f ((unat FlashOffset + i) mod 2 ^ 24)) [0..<unat Length]" if "ret = 0"
      proof -
        have a: "(unat (FlashOffset + ucast C) + i) mod 2 ^ 24 = (unat FlashOffset + unat C + i) mod 2 ^ 24" for i
          using addr_mod_add [of FlashOffset "ucast C" i] uc by (simp add: mod_add_left_eq)
        have b: "(unat FlashOffset mod 2 ^ 24 + i) mod 2 ^ 24 = (unat FlashOffset + i) mod 2 ^ 24" for i
          by (rule mod_add_left_eq)
        have "ds = map (\<lambda>i. nor_mem f ((unat FlashOffset + i) mod 2 ^ 24)) [unat C..<unat C + unat (Length - C)]"
          using i(4) that unfolding a by (intro nth_equalityI) (simp_all add: add.assoc)
        moreover have "[0..<unat C + unat (Length - C)] = [0..<unat C] @ [unat C..<unat C + unat (Length - C)]"
          using upt_add_eq_append [of 0 "unat C"] by simp
        ultimately show ?thesis unfolding h1(2) b l by (simp only: map_append)
      qed
      have "if ret = 0 then holds h2 f \<and> d @ ds = map (\<lambda>i. nor_mem f ((unat FlashOffset + i) mod 2 ^ 24)) [0..<unat Length]
          else \<not> reliable"
        using i(4) all by presburger
      moreover have "length (d @ ds) \<le> unat Length" unfolding l length_append using r(2) i(2) by (rule add_mono)
      moreover have "flash_read_loop (bd_hal bd) FlashOffset Length h = Some (h2, ret, d @ ds)"
        using eq True i(1) by simp
      ultimately show ?thesis using i(3) by blast
    qed
  qed
qed

lemma SpiFlashRead_gives:
  assumes "holds h f" and "nor_busy f = 0" and "unat FlashOffset + unat Length \<le> 2 ^ 24"
  shows "\<exists>h' ret d. SpiFlashRead (bd_hal bd) FlashOffset Length h = Some (h', ret, d) \<and>
    length d \<le> unat Length \<and> (\<exists>g. holds h' g) \<and>
    (if ret = 0 then holds h' f \<and> d = map (\<lambda>i. nor_mem f (unat FlashOffset + i)) [0..<unat Length] else \<not> reliable)"
proof -
  have u: "unat (ucast FlashOffset :: u64) = unat FlashOffset"
  proof -
    have "unat FlashOffset < 2 ^ 32" using unsigned_less [of FlashOffset] by simp
    then have "unat FlashOffset < 2 ^ 64" by simp
    then have "take_bit 64 (unat FlashOffset) = unat FlashOffset" by (simp only: take_bit_nat_eq_self)
    then show ?thesis by (simp add: unsigned_ucast_eq)
  qed
  have "unat (ucast FlashOffset + Length) = unat FlashOffset + unat Length"
    using assms(3) u by (subst unat_word_ariths) simp
  then have e: "SpiFlashRead (bd_hal bd) FlashOffset Length h = flash_read_loop (bd_hal bd) FlashOffset Length h"
    using assms(3) by (simp add: SpiFlashRead_def word_less_nat_alt)
  have m: "map (\<lambda>i. nor_mem f ((unat FlashOffset + i) mod 2 ^ 24)) [0..<unat Length] =
      map (\<lambda>i. nor_mem f (unat FlashOffset + i)) [0..<unat Length]"
    using assms(3) by simp
  show ?thesis unfolding e
    using flash_read_loop_gives [OF assms(1,2), of FlashOffset Length] unfolding m .
qed

end

text \<open>What the later steps rely on: registers are kept and cleaned lines stay cleaned.\<close>

definition mc_frame :: "('h, 'u) machine \<Rightarrow> ('h, 'u) machine \<Rightarrow> bool" where
  "mc_frame mc mc' = (set (mc_dc mc) \<subseteq> set (mc_dc mc') \<and> mc_CurrentEL mc' = mc_CurrentEL mc \<and>
     mc_sctlr_el1 mc' = mc_sctlr_el1 mc \<and> mc_sctlr_el2 mc' = mc_sctlr_el2 mc)"

lemma mc_frame_trans: "mc_frame a b \<Longrightarrow> mc_frame b c \<Longrightarrow> mc_frame a c"
  by (auto simp: mc_frame_def)

lemma mc_frame_uart [simp]: "mc_frame (mc\<lparr>mc_uart := u\<rparr>) mc' = mc_frame mc mc'"
  by (simp add: mc_frame_def)

lemma seg_lines_mono: "seg_lines Ctr ph ls \<Longrightarrow> set ls \<subseteq> set ls' \<Longrightarrow> seg_lines Ctr ph ls'"
  unfolding seg_lines_def by blast

definition load_all_mem :: "(nat \<Rightarrow> u8) \<Rightarrow> ELF64_PHDR list \<Rightarrow> memory \<Rightarrow> memory" where
  "load_all_mem m phs mem = foldl (\<lambda>mem ph. if p_type ph = 1 then load_seg_mem m ph mem else mem) mem phs"

lemma load_all_mem_simps [simp]:
  "load_all_mem m [] mem = mem"
  "load_all_mem m (ph # phs) mem = load_all_mem m phs (if p_type ph = 1 then load_seg_mem m ph mem else mem)"
  by (simp_all add: load_all_mem_def)

context spi_loader begin

lemma LoadSegment_runs:
  assumes "talks mc" and "holds (mc_spi mc) f" and "nor_busy f = 0" and "seg_ok ph"
  shows "\<exists>mc' ok. LoadSegment bd ph mc = Some (mc', ok) \<and> talks mc' \<and> mc_frame mc mc' \<and>
    (\<forall>a. \<not> in_seg ph a \<longrightarrow> mc_mem mc' a = mc_mem mc a) \<and>
    (if ok then holds (mc_spi mc') f \<and> mc_mem mc' = load_seg_mem (nor_mem f) ph (mc_mem mc) \<and>
       seg_lines (bd_ctr bd) ph (mc_dc mc') else \<not> reliable)"
proof -
  let ?T = "seg_target ph"
  have "unat (p_offset ph) < 2 ^ 32" using assms(4) by (simp add: seg_ok_def)
  then have "unat (ucast (p_offset ph) :: u32) = unat (p_offset ph)"
    by (simp add: unsigned_ucast_eq take_bit_nat_eq_self)
  then have o: "unat (CCR2004_SPI_FLASH_OFFSET + ucast (p_offset ph)) = 0x800000 + unat (p_offset ph)"
    using assms(4) by (subst unat_word_ariths) (simp add: seg_ok_def spl_consts)
  define st where "st = (if p_filesz ph > 0 then do {
      (h1, ret, d) \<leftarrow> SpiFlashRead (bd_hal bd) (CCR2004_SPI_FLASH_OFFSET + ucast (p_offset ph)) (p_filesz ph) (mc_spi mc);
      Some (mc\<lparr>mc_spi := h1, mc_mem := put_bytes ?T d (mc_mem mc)\<rparr>, ret = 0)
    } else Some (mc, True))"
  have "\<exists>h1 ok d. st = Some (mc\<lparr>mc_spi := h1, mc_mem := put_bytes ?T d (mc_mem mc)\<rparr>, ok) \<and>
      length d \<le> unat (p_filesz ph) \<and>
      (if ok then holds h1 f \<and> d = map (\<lambda>i. nor_mem f (0x800000 + unat (p_offset ph) + i)) [0..<unat (p_filesz ph)]
       else \<not> reliable)"
  proof (cases "p_filesz ph > 0")
    case False
    then have "p_filesz ph = 0" by (simp add: word_gt_0)
    then show ?thesis using assms(2) by (intro exI [of _ "mc_spi mc"] exI [of _ True] exI [of _ "[]"]) (simp add: st_def)
  next
    case True
    have "unat (CCR2004_SPI_FLASH_OFFSET + ucast (p_offset ph)) + unat (p_filesz ph) \<le> 2 ^ 24"
      using o assms(4) by (simp add: seg_ok_def)
    from SpiFlashRead_gives [OF assms(2,3) this] obtain h' ret d where
      "SpiFlashRead (bd_hal bd) (CCR2004_SPI_FLASH_OFFSET + ucast (p_offset ph)) (p_filesz ph) (mc_spi mc) = Some (h', ret, d)"
      "length d \<le> unat (p_filesz ph)"
      "if ret = 0 then holds h' f \<and> d = map (\<lambda>i. nor_mem f (0x800000 + unat (p_offset ph) + i)) [0..<unat (p_filesz ph)]
       else \<not> reliable"
      unfolding o by blast
    then show ?thesis using True
      by (intro exI [of _ h'] exI [of _ "ret = 0"] exI [of _ d]) (simp add: st_def)
  qed
  then obtain h1 ok d where st: "st = Some (mc\<lparr>mc_spi := h1, mc_mem := put_bytes ?T d (mc_mem mc)\<rparr>, ok)"
      "length d \<le> unat (p_filesz ph)"
      "if ok then holds h1 f \<and> d = map (\<lambda>i. nor_mem f (0x800000 + unat (p_offset ph) + i)) [0..<unat (p_filesz ph)]
       else \<not> reliable" by blast
  let ?mc1 = "mc\<lparr>mc_spi := h1, mc_mem := put_bytes ?T d (mc_mem mc)\<rparr>"
  have t1: "talks ?mc1" using assms(1) by (simp add: talks_def)
  have out: "put_bytes ?T d (mc_mem mc) a = mc_mem mc a" if "\<not> in_seg ph a" for a
  proof -
    have "unat (p_filesz ph) < 2 ^ 64" using unsigned_less [of "p_filesz ph"] by simp
    then show ?thesis using put_bytes_apply [of d ?T "mc_mem mc" a] st(2) that assms(4)
      by (auto simp: in_seg_def seg_ok_def)
  qed
  show ?thesis
  proof (cases ok)
    case False
    obtain u where "spl_panic bd ''segment read'' ?mc1 = Some (?mc1\<lparr>mc_uart := u\<rparr>)" "talks (?mc1\<lparr>mc_uart := u\<rparr>)"
      using panic_step [OF t1] by blast
    moreover from this have "LoadSegment bd ph mc = Some (?mc1\<lparr>mc_uart := u\<rparr>, False)"
      using st(1) False by (simp add: LoadSegment_def st_def [symmetric] del: machine.update_convs)
    ultimately show ?thesis using st(3) False out by (intro exI conjI) (auto simp: mc_frame_def)
  next
    case True
    then have d: "d = map (\<lambda>i. nor_mem f (0x800000 + unat (p_offset ph) + i)) [0..<unat (p_filesz ph)]" "holds h1 f"
      using st(3) by simp_all
    define m2 where "m2 = (if p_memsz ph > p_filesz ph
      then SpiloaderMemSet (?T + p_filesz ph) 0 (p_memsz ph - p_filesz ph) (put_bytes ?T d (mc_mem mc))
      else put_bytes ?T d (mc_mem mc))"
    have m2: "m2 = load_seg_mem (nor_mem f) ph (mc_mem mc)"
      unfolding m2_def by (rule two_stores [OF assms(4) d(1)])
    obtain ls where ls: "CleanInvalidateDataCacheRange (bd_ctr bd) ?T (p_memsz ph) = Some ls"
        "unat ?T + unat (p_memsz ph) + 2 ^ line_shift (bd_ctr bd) \<le> 2 ^ 64 \<longrightarrow>
          (\<forall>a. unat (a - ?T) < unat (p_memsz ph) \<longrightarrow> cache_line (bd_ctr bd) a \<in> set ls)"
      using clean_range_lines by blast
    let ?mc3 = "mc\<lparr>mc_spi := h1, mc_mem := m2, mc_dc := mc_dc mc @ ls\<rparr>"
    have "LoadSegment bd ph mc = Some (?mc3, True)"
      using st(1) True ls(1) by (simp add: LoadSegment_def st_def [symmetric] clean_range_def m2_def Let_def)
    moreover have "seg_lines (bd_ctr bd) ph (mc_dc ?mc3)" using ls(2) by (auto simp: seg_lines_def in_seg_def)
    moreover have "m2 a = mc_mem mc a" if "\<not> in_seg ph a" for a using that by (simp add: m2 load_seg_mem_def)
    ultimately show ?thesis using assms(1) d(2) m2
      by (intro exI [of _ ?mc3] exI [of _ True]) (simp add: talks_def mc_frame_def)
  qed
qed

text \<open>All segments.\<close>

lemma load_segments_runs:
  assumes "talks mc" and "holds (mc_spi mc) f" and "nor_busy f = 0" and "\<forall>ph \<in> set phs. p_type ph = 1 \<longrightarrow> seg_ok ph"
  shows "\<exists>mc' ok. load_segments bd phs mc = Some (mc', ok) \<and> talks mc' \<and> mc_frame mc mc' \<and>
    (\<forall>a. (\<forall>ph \<in> set phs. p_type ph = 1 \<longrightarrow> \<not> in_seg ph a) \<longrightarrow> mc_mem mc' a = mc_mem mc a) \<and>
    (if ok then holds (mc_spi mc') f \<and> mc_mem mc' = load_all_mem (nor_mem f) phs (mc_mem mc) \<and>
       (\<forall>ph \<in> set phs. p_type ph = 1 \<longrightarrow> seg_lines (bd_ctr bd) ph (mc_dc mc')) else \<not> reliable)"
  using assms
proof (induction phs arbitrary: mc)
  case Nil
  then show ?case by (intro exI [of _ mc] exI [of _ True]) (simp add: mc_frame_def)
next
  case (Cons ph phs)
  show ?case
  proof (cases "p_type ph = 1")
    case False
    have "\<forall>ph \<in> set phs. p_type ph = 1 \<longrightarrow> seg_ok ph" using Cons.prems(4) by simp
    from Cons.IH [OF Cons.prems(1-3) this] False show ?thesis by (simp split del: if_split cong: if_cong)
  next
    case True
    obtain u1 where u1: "uart_say bd ''SpiLoader: load seg @ 0x'' mc = Some (mc\<lparr>mc_uart := u1\<rparr>)" "talks (mc\<lparr>mc_uart := u1\<rparr>)"
      using uart_steps(1) [OF Cons.prems(1)] by blast
    obtain u2 where u2: "uart_hex64 bd (seg_target ph) (mc\<lparr>mc_uart := u1\<rparr>) = Some (mc\<lparr>mc_uart := u2\<rparr>)" "talks (mc\<lparr>mc_uart := u2\<rparr>)"
      using uart_steps(3) [OF u1(2), of "seg_target ph"] by auto
    obtain u3 where u3: "uart_say bd '' size 0x'' (mc\<lparr>mc_uart := u2\<rparr>) = Some (mc\<lparr>mc_uart := u3\<rparr>)" "talks (mc\<lparr>mc_uart := u3\<rparr>)"
      using uart_steps(1) [OF u2(2), of "'' size 0x''"] by auto
    obtain u4 where u4: "uart_hex64 bd (p_memsz ph) (mc\<lparr>mc_uart := u3\<rparr>) = Some (mc\<lparr>mc_uart := u4\<rparr>)" "talks (mc\<lparr>mc_uart := u4\<rparr>)"
      using uart_steps(3) [OF u3(2), of "p_memsz ph"] by auto
    obtain u5 where u5: "uart_say bd [CHR 0x0D, CHR 0x0A] (mc\<lparr>mc_uart := u4\<rparr>) = Some (mc\<lparr>mc_uart := u5\<rparr>)" "talks (mc\<lparr>mc_uart := u5\<rparr>)"
      using uart_steps(1) [OF u4(2), of "[CHR 0x0D, CHR 0x0A]"] by auto
    let ?mc = "mc\<lparr>mc_uart := u5\<rparr>"
    have h5: "holds (mc_spi ?mc) f" using Cons.prems(2) by simp
    have okp: "seg_ok ph" using Cons.prems(4) True by simp
    obtain mc1 ok1 where l: "LoadSegment bd ph ?mc = Some (mc1, ok1)" "talks mc1" "mc_frame ?mc mc1"
        "\<forall>a. \<not> in_seg ph a \<longrightarrow> mc_mem mc1 a = mc_mem ?mc a"
        "if ok1 then holds (mc_spi mc1) f \<and> mc_mem mc1 = load_seg_mem (nor_mem f) ph (mc_mem ?mc) \<and>
           seg_lines (bd_ctr bd) ph (mc_dc mc1) else \<not> reliable"
      using LoadSegment_runs [OF u5(2) h5 Cons.prems(3) okp] by blast
    have step: "load_segments bd (ph # phs) mc = (if \<not> ok1 then Some (mc1, False) else load_segments bd phs mc1)"
      using True u1(1) u2(1) u3(1) u4(1) u5(1) l(1) by simp
    show ?thesis
    proof (cases ok1)
      case False
      then have "\<not> reliable" using l(5) by simp
      moreover have "mc_frame mc mc1" using l(3) by simp
      moreover have "\<forall>a. (\<forall>ph \<in> set (ph # phs). p_type ph = 1 \<longrightarrow> \<not> in_seg ph a) \<longrightarrow> mc_mem mc1 a = mc_mem mc a"
        using l(4) True by simp
      ultimately show ?thesis using step False l(2) by (intro exI [of _ mc1] exI [of _ False]) simp
    next
      case ok1: True
      then have h1: "holds (mc_spi mc1) f" "mc_mem mc1 = load_seg_mem (nor_mem f) ph (mc_mem mc)"
          "seg_lines (bd_ctr bd) ph (mc_dc mc1)" using l(5) by simp_all
      have "\<forall>ph \<in> set phs. p_type ph = 1 \<longrightarrow> seg_ok ph" using Cons.prems(4) by simp
      from Cons.IH [OF l(2) h1(1) Cons.prems(3) this] obtain mc' ok where
        r: "load_segments bd phs mc1 = Some (mc', ok)" "talks mc'" "mc_frame mc1 mc'"
          "\<forall>a. (\<forall>ph \<in> set phs. p_type ph = 1 \<longrightarrow> \<not> in_seg ph a) \<longrightarrow> mc_mem mc' a = mc_mem mc1 a"
          "if ok then holds (mc_spi mc') f \<and> mc_mem mc' = load_all_mem (nor_mem f) phs (mc_mem mc1) \<and>
             (\<forall>ph \<in> set phs. p_type ph = 1 \<longrightarrow> seg_lines (bd_ctr bd) ph (mc_dc mc')) else \<not> reliable" by blast
      have fr: "mc_frame mc mc'" using mc_frame_trans [OF l(3) r(3)] by simp
      have out: "\<forall>a. (\<forall>ph \<in> set (ph # phs). p_type ph = 1 \<longrightarrow> \<not> in_seg ph a) \<longrightarrow> mc_mem mc' a = mc_mem mc a"
        using r(4) l(4) True by simp
      have "seg_lines (bd_ctr bd) ph (mc_dc mc')"
        using seg_lines_mono [OF h1(3)] r(3) by (simp add: mc_frame_def)
      then have "if ok then holds (mc_spi mc') f \<and> mc_mem mc' = load_all_mem (nor_mem f) (ph # phs) (mc_mem mc) \<and>
          (\<forall>ph \<in> set (ph # phs). p_type ph = 1 \<longrightarrow> seg_lines (bd_ctr bd) ph (mc_dc mc')) else \<not> reliable"
        using r(5) h1(2) True by (cases ok) simp_all
      then show ?thesis using step ok1 r(1,2) fr out by (intro exI [of _ mc'] exI [of _ ok]) simp
    qed
  qed
qed

end

subsection \<open>What the checks guarantee\<close>

lemma in_seg_range:
  assumes "in_seg ph a" and "unat (seg_target ph) + unat (p_memsz ph) < 2 ^ 64"
  shows "unat (seg_target ph) \<le> unat a" and "unat a < unat (seg_target ph) + unat (p_memsz ph)"
proof -
  have "unat (seg_target ph + (a - seg_target ph)) = unat (seg_target ph) + unat (a - seg_target ph)"
    using assms by (subst unat_word_ariths) (simp add: in_seg_def)
  then show "unat (seg_target ph) \<le> unat a" "unat a < unat (seg_target ph) + unat (p_memsz ph)"
    using assms(1) by (simp_all add: in_seg_def)
qed

lemma unat_sum_no_wrap:
  fixes a b :: u64
  assumes "\<not> a + b < a"
  shows "unat (a + b) = unat a + unat b" and "unat a + unat b < 2 ^ 64"
proof -
  have l: "unat a < 2 ^ 64" "unat b < 2 ^ 64" using unsigned_less [of a] unsigned_less [of b] by simp_all
  show r: "unat a + unat b < 2 ^ 64"
  proof (rule ccontr)
    assume n: "\<not> unat a + unat b < 2 ^ 64"
    have "unat (a + b) = (unat a + unat b) mod 2 ^ 64" by (simp add: unat_word_ariths)
    also have "\<dots> = unat a + unat b - 2 ^ 64" using n l by (simp add: mod_if)
    finally show False using assms l n by (simp add: word_less_nat_alt)
  qed
  then show "unat (a + b) = unat a + unat b" by (subst unat_word_ariths) simp
qed

lemma no_overlap:
  assumes "\<not> RangeOverlaps T n B (stk - B)" and "unat T + unat n < 2 ^ 64" and "unat T \<le> unat a" "unat a < unat T + unat n"
    and "B \<le> a" "a < stk"
  shows False
proof -
  have "n \<noteq> 0" using assms(3,4) by auto
  moreover have "B < stk" using assms(5,6) by simp
  moreover from this have "stk - B \<noteq> 0" by auto
  moreover have "unat (T + n) = unat T + unat n" using assms(2) by (subst unat_word_ariths) simp
  moreover have "B + (stk - B) = stk" by simp
  ultimately show False using assms by (auto simp: RangeOverlaps_def Let_def word_less_nat_alt word_le_nat_alt split: if_splits)
qed

lemma validate_phdrs_sound:
  "validate_phdrs B (stk - B) phs hi = Some e \<Longrightarrow> ph \<in> set phs \<Longrightarrow> p_type ph = 1 \<Longrightarrow>
   seg_ok ph \<and> (\<forall>a. in_seg ph a \<longrightarrow> \<not> (B \<le> a \<and> a < stk))"
proof (induction phs arbitrary: hi)
  case (Cons q phs)
  show ?case
  proof (cases "ph = q")
    case False
    then have "ph \<in> set phs" using Cons.prems(2) by simp
    then show ?thesis using Cons.IH Cons.prems(1,3) by (auto simp: Let_def split: if_splits)
  next
    case True
    let ?T = "seg_target ph"
    have c: "\<not> p_memsz ph < p_filesz ph" "\<not> ?T + p_memsz ph < ?T" "\<not> p_offset ph + p_filesz ph < p_offset ph"
        "\<not> p_offset ph + p_filesz ph > SPILOADER_MAX_IMAGE_SIZE" "\<not> RangeOverlaps ?T (p_memsz ph) B (stk - B)"
      using Cons.prems(1,3) True by (simp_all add: Let_def split: if_splits)
    have "unat (p_offset ph) + unat (p_filesz ph) \<le> 2 ^ 23"
      using c(4) unat_sum_no_wrap(1) [OF c(3)] by (simp add: spl_consts word_less_nat_alt)
    then have ok: "seg_ok ph" using c(1) unat_sum_no_wrap(2) [OF c(2)] by (simp add: seg_ok_def word_less_nat_alt)
    have "\<not> (B \<le> a \<and> a < stk)" if "in_seg ph a" for a
      using no_overlap [OF c(5) unat_sum_no_wrap(2) [OF c(2)] in_seg_range [OF that unat_sum_no_wrap(2) [OF c(2)]]] by blast
    then show ?thesis using ok by blast
  qed
qed simp

text \<open>The headers in the flash.\<close>

definition flash_ehdr :: "(nat \<Rightarrow> u8) \<Rightarrow> ELF64_EHDR" where
  "flash_ehdr m = ehdr_at (map (\<lambda>i. m (0x800000 + i)) [0..<64])"

definition flash_phdrs :: "(nat \<Rightarrow> u8) \<Rightarrow> ELF64_PHDR list" where
  "flash_phdrs m = (let H = flash_ehdr m in
     map (phdr_at (map (\<lambda>i. m (0x800000 + unat (e_phoff H) + i)) [0..<56 * unat (e_phnum H)])) [0..<unat (e_phnum H)])"

definition image_accepted :: "(nat \<Rightarrow> u8) \<Rightarrow> u64 \<Rightarrow> bool" where
  "image_accepted m stk = (ValidateElfHeader (flash_ehdr m) \<and>
     ValidateProgramHeaders (flash_ehdr m) (flash_phdrs m) SPILOADER_LOAD_ADDR (stk - SPILOADER_LOAD_ADDR) \<noteq> None)"

lemma image_accepted_segs:
  assumes "image_accepted m stk" and "ph \<in> set (flash_phdrs m)" and "p_type ph = 1"
  shows "seg_ok ph" and "in_seg ph a \<Longrightarrow> \<not> (SPILOADER_LOAD_ADDR \<le> a \<and> a < stk)"
  using assms validate_phdrs_sound [of SPILOADER_LOAD_ADDR stk "flash_phdrs m" _ _ ph]
  by (auto simp: image_accepted_def ValidateProgramHeaders_def)

lemma valid_header_range:
  assumes "ValidateElfHeader H"
  shows "unat (e_phnum H) \<le> 32" and "unat (e_phoff H) + 56 * unat (e_phnum H) \<le> 2 ^ 23"
proof -
  have v: "\<not> e_phnum H > SPILOADER_PHDR_LIMIT" "\<not> e_phoff H > SPILOADER_MAX_IMAGE_SIZE"
      "\<not> e_phoff H + ucast (e_phnum H) * 56 > SPILOADER_MAX_IMAGE_SIZE"
    using assms by (simp_all add: ValidateElfHeader_def split: if_splits)
  show n: "unat (e_phnum H) \<le> 32" using v(1) by (simp add: spl_consts word_less_nat_alt)
  have "unat (ucast (e_phnum H) :: u64) = unat (e_phnum H)"
    using n by (simp add: unsigned_ucast_eq take_bit_nat_eq_self)
  then have m: "unat (ucast (e_phnum H) * 56 :: u64) = 56 * unat (e_phnum H)"
    using n by (subst unat_word_ariths) simp
  have "unat (e_phoff H) \<le> 2 ^ 23" using v(2) by (simp add: spl_consts word_less_nat_alt)
  then have "unat (e_phoff H + ucast (e_phnum H) * 56) = unat (e_phoff H) + 56 * unat (e_phnum H)"
    using m n by (subst unat_word_ariths) simp
  then show "unat (e_phoff H) + 56 * unat (e_phnum H) \<le> 2 ^ 23"
    using v(3) by (simp add: spl_consts word_less_nat_alt)
qed

text \<open>The outcome of loading, for a flash that holds \<open>m\<close>.\<close>

definition load_outcome :: "bool \<Rightarrow> u64 \<Rightarrow> (nat \<Rightarrow> u8) \<Rightarrow> u64 \<Rightarrow> ('h, 'u) machine \<Rightarrow> ('h, 'u) machine \<Rightarrow> load_result \<Rightarrow> bool" where
  "load_outcome live Ctr m stk mc mc' res = (case res of
     LOADED entry rtop \<Rightarrow> image_accepted m stk \<and> entry = e_entry (flash_ehdr m) \<and> rtop = stk \<and>
       mc_mem mc' = load_all_mem m (flash_phdrs m) (mc_mem mc) \<and>
       (\<forall>ph \<in> set (flash_phdrs m). p_type ph = 1 \<longrightarrow> seg_lines Ctr ph (mc_dc mc'))
   | LOAD_FAILED \<Rightarrow> mc_mem mc' = mc_mem mc \<and> \<not> (live \<and> image_accepted m stk)
   | PANICKED \<Rightarrow> \<not> live)"

context spi_loader begin

lemma LoadImage_runs:
  assumes "talks mc" and "holds (mc_spi mc) f" and "nor_busy f = 0"
  shows "\<exists>mc' res. LoadImageFromFlash bd mc = Some (mc', res) \<and> talks mc' \<and> mc_frame mc mc' \<and>
    (\<forall>a. SPILOADER_LOAD_ADDR \<le> a \<and> a < bd_stack_top bd \<longrightarrow> mc_mem mc' a = mc_mem mc a) \<and>
    load_outcome reliable (bd_ctr bd) (nor_mem f) (bd_stack_top bd) mc mc' res"
proof -
  let ?m = "nor_mem f"
  let ?H = "flash_ehdr ?m"
  obtain h1 ret d where r1: "SpiFlashRead (bd_hal bd) CCR2004_SPI_FLASH_OFFSET 64 (mc_spi mc) = Some (h1, ret, d)"
      "if ret = 0 then holds h1 f \<and> d = map (\<lambda>i. ?m (0x800000 + i)) [0..<64] else \<not> reliable"
    using SpiFlashRead_gives [OF assms(2,3), of CCR2004_SPI_FLASH_OFFSET 64] by (auto simp: spl_consts)
  let ?mc1 = "mc\<lparr>mc_spi := h1\<rparr>"
  have t1: "talks ?mc1" using assms(1) by (simp add: talks_def)
  show ?thesis
  proof (cases "ret = 0")
    case False
    then have "LoadImageFromFlash bd mc = Some (?mc1, LOAD_FAILED)" using r1(1) by (simp add: LoadImageFromFlash_def Let_def)
    then show ?thesis using t1 r1(2) False
      by (intro exI [of _ ?mc1] exI [of _ LOAD_FAILED]) (simp add: mc_frame_def load_outcome_def)
  next
    case ret: True
    then have h1: "holds h1 f" and d: "ehdr_at d = ?H" using r1(2) by (simp_all add: flash_ehdr_def)
    show ?thesis
    proof (cases "ValidateElfHeader ?H")
      case False
      obtain u where u: "uart_say bd (''SpiLoader: bad ELF header'' @ [CHR 0x0D, CHR 0x0A]) ?mc1 = Some (?mc1\<lparr>mc_uart := u\<rparr>)"
          "talks (?mc1\<lparr>mc_uart := u\<rparr>)"
        using uart_steps(1) [OF t1] by blast
      then have "LoadImageFromFlash bd mc = Some (?mc1\<lparr>mc_uart := u\<rparr>, LOAD_FAILED)"
        using r1(1) ret d False by (simp add: LoadImageFromFlash_def Let_def)
      then show ?thesis using u(2) False
        by (intro exI [of _ "?mc1\<lparr>mc_uart := u\<rparr>"] exI [of _ LOAD_FAILED])
          (simp add: mc_frame_def load_outcome_def image_accepted_def)
    next
      case valid: True
      note range = valid_header_range [OF valid]
      have "unat (ucast (e_phoff ?H) :: u32) = unat (e_phoff ?H)"
        using range(2) by (simp add: unsigned_ucast_eq take_bit_nat_eq_self)
      then have o: "unat (CCR2004_SPI_FLASH_OFFSET + ucast (e_phoff ?H)) = 0x800000 + unat (e_phoff ?H)"
        using range(2) by (subst unat_word_ariths) (simp add: spl_consts)
      have "unat (ucast (e_phnum ?H) :: u64) = unat (e_phnum ?H)"
        using range(1) by (simp add: unsigned_ucast_eq take_bit_nat_eq_self)
      then have n: "unat (ucast (e_phnum ?H) * 56 :: u64) = 56 * unat (e_phnum ?H)"
        using range(1) by (subst unat_word_ariths) simp
      have fit: "unat (CCR2004_SPI_FLASH_OFFSET + ucast (e_phoff ?H)) + unat (ucast (e_phnum ?H) * 56 :: u64) \<le> 2 ^ 24"
        unfolding o n using range(2) by simp
      have hm: "holds (mc_spi ?mc1) f" using h1 by simp
      obtain h2 ret2 d2 where r2: "SpiFlashRead (bd_hal bd) (CCR2004_SPI_FLASH_OFFSET + ucast (e_phoff ?H))
            (ucast (e_phnum ?H) * 56) h1 = Some (h2, ret2, d2)"
          "if ret2 = 0 then holds h2 f \<and> d2 = map (\<lambda>i. ?m (0x800000 + unat (e_phoff ?H) + i)) [0..<56 * unat (e_phnum ?H)]
           else \<not> reliable"
        using SpiFlashRead_gives [OF h1 assms(3) fit] unfolding o n by blast
      let ?mc2 = "mc\<lparr>mc_spi := h2\<rparr>"
      have t2: "talks ?mc2" using assms(1) by (simp add: talks_def)
      show ?thesis
      proof (cases "ret2 = 0")
        case False
        obtain u where u: "uart_say bd (''SpiLoader: PHDR read failed'' @ [CHR 0x0D, CHR 0x0A]) ?mc2 = Some (?mc2\<lparr>mc_uart := u\<rparr>)"
            "talks (?mc2\<lparr>mc_uart := u\<rparr>)"
          using uart_steps(1) [OF t2] by blast
        then have "LoadImageFromFlash bd mc = Some (?mc2\<lparr>mc_uart := u\<rparr>, LOAD_FAILED)"
          using r1(1) ret d valid r2(1) False by (simp add: LoadImageFromFlash_def Let_def)
        then show ?thesis using u(2) False r2(2)
          by (intro exI [of _ "?mc2\<lparr>mc_uart := u\<rparr>"] exI [of _ LOAD_FAILED]) (simp add: mc_frame_def load_outcome_def)
      next
        case ret2: True
        then have h2: "holds (mc_spi ?mc2) f" and phs: "map (phdr_at d2) [0..<unat (e_phnum ?H)] = flash_phdrs ?m"
          using r2(2) by (simp_all add: flash_phdrs_def Let_def)
        let ?v = "ValidateProgramHeaders ?H (flash_phdrs ?m) SPILOADER_LOAD_ADDR (bd_stack_top bd - SPILOADER_LOAD_ADDR)"
        have step: "LoadImageFromFlash bd mc = (case ?v of
              None \<Rightarrow> do {
                mc3 \<leftarrow> uart_say bd (''SpiLoader: bad PHDRs'' @ [CHR 0x0D, CHR 0x0A]) ?mc2;
                Some (mc3, LOAD_FAILED) }
            | Some e \<Rightarrow> do {
                mc3 \<leftarrow> uart_say bd ''SpiLoader: ELF bytes <= 0x'' ?mc2;
                mc3 \<leftarrow> uart_hex64 bd e mc3;
                mc3 \<leftarrow> uart_say bd [CHR 0x0D, CHR 0x0A] mc3;
                (mc4, ok) \<leftarrow> load_segments bd (flash_phdrs ?m) mc3;
                Some (mc4, if ok then LOADED (e_entry ?H) (bd_stack_top bd) else PANICKED) })"
          using r1(1) ret d valid r2(1) ret2 phs by (cases ?v) (simp_all add: LoadImageFromFlash_def Let_def cong: if_cong)
        show ?thesis
        proof (cases ?v)
          case None
          obtain u where u: "uart_say bd (''SpiLoader: bad PHDRs'' @ [CHR 0x0D, CHR 0x0A]) ?mc2 = Some (?mc2\<lparr>mc_uart := u\<rparr>)"
              "talks (?mc2\<lparr>mc_uart := u\<rparr>)"
            using uart_steps(1) [OF t2] by blast
          then have "LoadImageFromFlash bd mc = Some (?mc2\<lparr>mc_uart := u\<rparr>, LOAD_FAILED)" using step None by simp
          then show ?thesis using u(2) None
            by (intro exI [of _ "?mc2\<lparr>mc_uart := u\<rparr>"] exI [of _ LOAD_FAILED])
              (simp add: mc_frame_def load_outcome_def image_accepted_def)
        next
          case (Some e)
          then have acc: "image_accepted ?m (bd_stack_top bd)" using valid by (simp add: image_accepted_def)
          obtain u1 where u1: "uart_say bd ''SpiLoader: ELF bytes <= 0x'' ?mc2 = Some (?mc2\<lparr>mc_uart := u1\<rparr>)" "talks (?mc2\<lparr>mc_uart := u1\<rparr>)"
            using uart_steps(1) [OF t2] by blast
          obtain u2 where u2: "uart_hex64 bd e (?mc2\<lparr>mc_uart := u1\<rparr>) = Some (?mc2\<lparr>mc_uart := u2\<rparr>)" "talks (?mc2\<lparr>mc_uart := u2\<rparr>)"
            using uart_steps(3) [OF u1(2), of e] by auto
          obtain u3 where u3: "uart_say bd [CHR 0x0D, CHR 0x0A] (?mc2\<lparr>mc_uart := u2\<rparr>) = Some (?mc2\<lparr>mc_uart := u3\<rparr>)" "talks (?mc2\<lparr>mc_uart := u3\<rparr>)"
            using uart_steps(1) [OF u2(2), of "[CHR 0x0D, CHR 0x0A]"] by auto
          let ?mc3 = "?mc2\<lparr>mc_uart := u3\<rparr>"
          have h3: "holds (mc_spi ?mc3) f" using h2 by simp
          have oks: "\<forall>ph \<in> set (flash_phdrs ?m). p_type ph = 1 \<longrightarrow> seg_ok ph"
            using image_accepted_segs(1) [OF acc] by blast
          from load_segments_runs [OF u3(2) h3 assms(3) oks] obtain mc' ok where
            l: "load_segments bd (flash_phdrs ?m) ?mc3 = Some (mc', ok)" "talks mc'" "mc_frame ?mc3 mc'"
              "\<forall>a. (\<forall>ph \<in> set (flash_phdrs ?m). p_type ph = 1 \<longrightarrow> \<not> in_seg ph a) \<longrightarrow> mc_mem mc' a = mc_mem ?mc3 a"
              "if ok then holds (mc_spi mc') f \<and> mc_mem mc' = load_all_mem ?m (flash_phdrs ?m) (mc_mem ?mc3) \<and>
                 (\<forall>ph \<in> set (flash_phdrs ?m). p_type ph = 1 \<longrightarrow> seg_lines (bd_ctr bd) ph (mc_dc mc')) else \<not> reliable"
            by blast
          have "LoadImageFromFlash bd mc = Some (mc', if ok then LOADED (e_entry ?H) (bd_stack_top bd) else PANICKED)"
            using step Some u1(1) u2(1) u3(1) l(1) by simp
          moreover have "mc_mem mc' a = mc_mem mc a" if "SPILOADER_LOAD_ADDR \<le> a \<and> a < bd_stack_top bd" for a
            using l(4) image_accepted_segs(2) [OF acc] that by auto
          moreover have "mc_frame mc mc'" using l(3) by (simp add: mc_frame_def)
          moreover have "load_outcome reliable (bd_ctr bd) ?m (bd_stack_top bd) mc mc'
              (if ok then LOADED (e_entry ?H) (bd_stack_top bd) else PANICKED)"
            using l(5) acc by (cases ok) (simp_all add: load_outcome_def)
          ultimately show ?thesis using l(2) by blast
        qed
      qed
    qed
  qed
qed

end

subsection \<open>Loading whatever is read\<close>

text \<open>
  A weaker contract, which the controller keeps with every schedule: a read returns, and when it
  reports success it stored as many bytes as were asked for. What the bytes are is left open, and
  two reads of one place may differ. The loader still stays out of its own image.
\<close>

locale spl_reader = spl_console bd sent
  for bd :: "('h, 'u) board" and sent :: "'u \<Rightarrow> bytes \<Rightarrow> bool" +
  assumes read_returns: "unat n \<le> 4096 \<Longrightarrow>
    \<exists>h' err d. hal_read (bd_hal bd) h (addr_cmd c A) n = Some (h', err, d) \<and> length d \<le> unat n \<and>
      (err = 0 \<longrightarrow> length d = unat n)"

context spl_reader begin

lemma flash_read_loop_returns:
  "\<exists>h' ret d. flash_read_loop (bd_hal bd) FlashOffset Length h = Some (h', ret, d) \<and>
    length d \<le> unat Length \<and> (ret = 0 \<longrightarrow> length d = unat Length)"
proof (induction "unat Length" arbitrary: FlashOffset Length h rule: less_induct)
  case less
  show ?case
  proof (cases "Length = 0")
    case True
    then show ?thesis by (subst flash_read_loop.simps) auto
  next
    case False
    define C where "C = min 4096 Length"
    note c = min_chunk [OF False, folded C_def]
    have uc: "unat (ucast C :: u32) = unat C" using c(1) by (simp add: unsigned_ucast_eq take_bit_nat_eq_self)
    have "unat (ucast C :: u32) \<le> 4096" using uc c(1) by simp
    from read_returns [OF this] obtain h1 err d where
      r: "hal_read (bd_hal bd) h (addr_cmd 0x03 FlashOffset) (ucast C) = Some (h1, err, d)"
        "length d \<le> unat C" "err = 0 \<longrightarrow> length d = unat C"
      unfolding uc by blast
    have lt: "unat (Length - C) < unat Length" and l: "unat Length = unat C + unat (Length - C)" using c by simp_all
    obtain h2 ret ds where i: "flash_read_loop (bd_hal bd) (FlashOffset + ucast C) (Length - C) h1 = Some (h2, ret, ds)"
        "length ds \<le> unat (Length - C)" "ret = 0 \<longrightarrow> length ds = unat (Length - C)"
      using less [OF lt] by blast
    have eq: "flash_read_loop (bd_hal bd) FlashOffset Length h = (if err \<noteq> 0 then Some (h1, -1, d) else do {
        (h2, ret, ds) \<leftarrow> flash_read_loop (bd_hal bd) (FlashOffset + ucast C) (Length - C) h1;
        Some (h2, ret, d @ ds) })"
      using False r(1) by (subst flash_read_loop.simps) (simp add: C_def [symmetric] Let_def)
    show ?thesis using eq r(2,3) i l by (cases "err = 0") auto
  qed
qed

lemma SpiFlashRead_returns:
  "\<exists>h' ret d. SpiFlashRead (bd_hal bd) FlashOffset Length h = Some (h', ret, d) \<and>
    length d \<le> unat Length \<and> (ret = 0 \<longrightarrow> length d = unat Length)"
  using flash_read_loop_returns by (simp add: SpiFlashRead_def)

lemma LoadSegment_stays:
  assumes "talks mc" and "seg_ok ph"
  shows "\<exists>mc' ok. LoadSegment bd ph mc = Some (mc', ok) \<and> talks mc' \<and>
    (\<forall>a. \<not> in_seg ph a \<longrightarrow> mc_mem mc' a = mc_mem mc a)"
proof -
  let ?T = "seg_target ph" and ?n = "unat (p_filesz ph)"
  define st where "st = (if p_filesz ph > 0 then do {
      (h1, ret, d) \<leftarrow> SpiFlashRead (bd_hal bd) (CCR2004_SPI_FLASH_OFFSET + ucast (p_offset ph)) (p_filesz ph) (mc_spi mc);
      Some (mc\<lparr>mc_spi := h1, mc_mem := put_bytes ?T d (mc_mem mc)\<rparr>, ret = 0)
    } else Some (mc, True))"
  have "\<exists>h1 ok d. st = Some (mc\<lparr>mc_spi := h1, mc_mem := put_bytes ?T d (mc_mem mc)\<rparr>, ok) \<and>
      length d \<le> ?n \<and> (ok \<longrightarrow> length d = ?n)"
  proof (cases "p_filesz ph > 0")
    case False
    then have "p_filesz ph = 0" by (simp add: word_gt_0)
    then show ?thesis by (intro exI [of _ "mc_spi mc"] exI [of _ True] exI [of _ "[]"]) (simp add: st_def)
  next
    case True
    obtain h' ret d where "SpiFlashRead (bd_hal bd) (CCR2004_SPI_FLASH_OFFSET + ucast (p_offset ph)) (p_filesz ph) (mc_spi mc) =
        Some (h', ret, d)" "length d \<le> ?n" "ret = 0 \<longrightarrow> length d = ?n"
      using SpiFlashRead_returns by blast
    then show ?thesis using True by (intro exI [of _ h'] exI [of _ "ret = 0"] exI [of _ d]) (simp add: st_def)
  qed
  then obtain h1 ok d where st: "st = Some (mc\<lparr>mc_spi := h1, mc_mem := put_bytes ?T d (mc_mem mc)\<rparr>, ok)"
      "length d \<le> ?n" "ok \<longrightarrow> length d = ?n" by blast
  let ?mc1 = "mc\<lparr>mc_spi := h1, mc_mem := put_bytes ?T d (mc_mem mc)\<rparr>"
  have t1: "talks ?mc1" using assms(1) by (simp add: talks_def)
  have out: "put_bytes ?T d (mc_mem mc) a = mc_mem mc a" if "\<not> in_seg ph a" for a
  proof -
    have "?n < 2 ^ 64" using unsigned_less [of "p_filesz ph"] by simp
    then show ?thesis using put_bytes_apply [of d ?T "mc_mem mc" a] st(2) that assms(2)
      by (auto simp: in_seg_def seg_ok_def)
  qed
  show ?thesis
  proof (cases ok)
    case False
    obtain u where "spl_panic bd ''segment read'' ?mc1 = Some (?mc1\<lparr>mc_uart := u\<rparr>)" "talks (?mc1\<lparr>mc_uart := u\<rparr>)"
      using panic_step [OF t1] by blast
    moreover from this have "LoadSegment bd ph mc = Some (?mc1\<lparr>mc_uart := u\<rparr>, False)"
      using st(1) False by (simp add: LoadSegment_def st_def [symmetric] del: machine.update_convs)
    ultimately show ?thesis using out by (intro exI conjI) auto
  next
    case True
    let ?off = "0x800000 + unat (p_offset ph)"
    have d: "d = map (\<lambda>i. (\<lambda>x. d ! (x - ?off)) (?off + i)) [0..<?n]"
      using st(3) True by (intro nth_equalityI) simp_all
    define m2 where "m2 = (if p_memsz ph > p_filesz ph
      then SpiloaderMemSet (?T + p_filesz ph) 0 (p_memsz ph - p_filesz ph) (put_bytes ?T d (mc_mem mc))
      else put_bytes ?T d (mc_mem mc))"
    have m2: "m2 = load_seg_mem (\<lambda>x. d ! (x - ?off)) ph (mc_mem mc)"
      unfolding m2_def by (rule two_stores [OF assms(2) d])
    obtain ls where ls: "CleanInvalidateDataCacheRange (bd_ctr bd) ?T (p_memsz ph) = Some ls"
      using clean_range_lines by blast
    let ?mc3 = "mc\<lparr>mc_spi := h1, mc_mem := m2, mc_dc := mc_dc mc @ ls\<rparr>"
    have "LoadSegment bd ph mc = Some (?mc3, True)"
      using st(1) True ls(1) by (simp add: LoadSegment_def st_def [symmetric] clean_range_def m2_def Let_def)
    moreover have "m2 a = mc_mem mc a" if "\<not> in_seg ph a" for a using that by (simp add: m2 load_seg_mem_def)
    ultimately show ?thesis using assms(1)
      by (intro exI [of _ ?mc3] exI [of _ True]) (simp add: talks_def)
  qed
qed

lemma load_segments_stay:
  assumes "talks mc" and "\<forall>ph \<in> set phs. p_type ph = 1 \<longrightarrow> seg_ok ph"
  shows "\<exists>mc' ok. load_segments bd phs mc = Some (mc', ok) \<and>
    (\<forall>a. (\<forall>ph \<in> set phs. p_type ph = 1 \<longrightarrow> \<not> in_seg ph a) \<longrightarrow> mc_mem mc' a = mc_mem mc a)"
  using assms
proof (induction phs arbitrary: mc)
  case (Cons ph phs)
  show ?case
  proof (cases "p_type ph = 1")
    case False
    have "\<forall>ph \<in> set phs. p_type ph = 1 \<longrightarrow> seg_ok ph" using Cons.prems(2) by simp
    from Cons.IH [OF Cons.prems(1) this] False show ?thesis by (simp split del: if_split cong: if_cong)
  next
    case True
    obtain u1 where u1: "uart_say bd ''SpiLoader: load seg @ 0x'' mc = Some (mc\<lparr>mc_uart := u1\<rparr>)" "talks (mc\<lparr>mc_uart := u1\<rparr>)"
      using uart_steps(1) [OF Cons.prems(1)] by blast
    obtain u2 where u2: "uart_hex64 bd (seg_target ph) (mc\<lparr>mc_uart := u1\<rparr>) = Some (mc\<lparr>mc_uart := u2\<rparr>)" "talks (mc\<lparr>mc_uart := u2\<rparr>)"
      using uart_steps(3) [OF u1(2), of "seg_target ph"] by auto
    obtain u3 where u3: "uart_say bd '' size 0x'' (mc\<lparr>mc_uart := u2\<rparr>) = Some (mc\<lparr>mc_uart := u3\<rparr>)" "talks (mc\<lparr>mc_uart := u3\<rparr>)"
      using uart_steps(1) [OF u2(2), of "'' size 0x''"] by auto
    obtain u4 where u4: "uart_hex64 bd (p_memsz ph) (mc\<lparr>mc_uart := u3\<rparr>) = Some (mc\<lparr>mc_uart := u4\<rparr>)" "talks (mc\<lparr>mc_uart := u4\<rparr>)"
      using uart_steps(3) [OF u3(2), of "p_memsz ph"] by auto
    obtain u5 where u5: "uart_say bd [CHR 0x0D, CHR 0x0A] (mc\<lparr>mc_uart := u4\<rparr>) = Some (mc\<lparr>mc_uart := u5\<rparr>)" "talks (mc\<lparr>mc_uart := u5\<rparr>)"
      using uart_steps(1) [OF u4(2), of "[CHR 0x0D, CHR 0x0A]"] by auto
    have okp: "seg_ok ph" and oks: "\<forall>ph \<in> set phs. p_type ph = 1 \<longrightarrow> seg_ok ph" using Cons.prems(2) True by simp_all
    obtain mc1 ok1 where l: "LoadSegment bd ph (mc\<lparr>mc_uart := u5\<rparr>) = Some (mc1, ok1)" "talks mc1"
        "\<forall>a. \<not> in_seg ph a \<longrightarrow> mc_mem mc1 a = mc_mem mc a"
      using LoadSegment_stays [OF u5(2) okp] by auto
    obtain mc' ok where r: "load_segments bd phs mc1 = Some (mc', ok)"
        "\<forall>a. (\<forall>ph \<in> set phs. p_type ph = 1 \<longrightarrow> \<not> in_seg ph a) \<longrightarrow> mc_mem mc' a = mc_mem mc1 a"
      using Cons.IH [OF l(2) oks] by blast
    have "load_segments bd (ph # phs) mc = (if \<not> ok1 then Some (mc1, False) else load_segments bd phs mc1)"
      using True u1(1) u2(1) u3(1) u4(1) u5(1) l(1) by simp
    then show ?thesis using r l(3) True by (cases ok1) auto
  qed
next
  case (Nil mc)
  then show ?case by (intro exI [of _ mc] exI [of _ True]) simp
qed

lemma LoadImage_stays:
  assumes "talks mc"
  shows "\<exists>mc' res. LoadImageFromFlash bd mc = Some (mc', res) \<and>
    (\<forall>a. SPILOADER_LOAD_ADDR \<le> a \<and> a < bd_stack_top bd \<longrightarrow> mc_mem mc' a = mc_mem mc a) \<and>
    (res = LOAD_FAILED \<longrightarrow> mc_mem mc' = mc_mem mc)"
proof -
  obtain h1 ret d where r1: "SpiFlashRead (bd_hal bd) CCR2004_SPI_FLASH_OFFSET 64 (mc_spi mc) = Some (h1, ret, d)"
    using SpiFlashRead_returns by blast
  let ?H = "ehdr_at d" and ?mc1 = "mc\<lparr>mc_spi := h1\<rparr>"
  have t1: "talks ?mc1" using assms by (simp add: talks_def)
  obtain h2 ret2 d2 where r2: "SpiFlashRead (bd_hal bd) (CCR2004_SPI_FLASH_OFFSET + ucast (e_phoff ?H))
      (ucast (e_phnum ?H) * 56) h1 = Some (h2, ret2, d2)"
    using SpiFlashRead_returns by blast
  let ?mc2 = "mc\<lparr>mc_spi := h2\<rparr>" and ?phs = "map (phdr_at d2) [0..<unat (e_phnum ?H)]"
  have t2: "talks ?mc2" using assms by (simp add: talks_def)
  obtain u1 where u1: "uart_say bd (''SpiLoader: bad ELF header'' @ [CHR 0x0D, CHR 0x0A]) ?mc1 = Some (?mc1\<lparr>mc_uart := u1\<rparr>)"
    using uart_steps(1) [OF t1] by blast
  obtain u2 where u2: "uart_say bd (''SpiLoader: PHDR read failed'' @ [CHR 0x0D, CHR 0x0A]) ?mc2 = Some (?mc2\<lparr>mc_uart := u2\<rparr>)"
    using uart_steps(1) [OF t2] by blast
  obtain u3 where u3: "uart_say bd (''SpiLoader: bad PHDRs'' @ [CHR 0x0D, CHR 0x0A]) ?mc2 = Some (?mc2\<lparr>mc_uart := u3\<rparr>)"
    using uart_steps(1) [OF t2] by blast
  let ?v = "ValidateProgramHeaders ?H ?phs SPILOADER_LOAD_ADDR (bd_stack_top bd - SPILOADER_LOAD_ADDR)"
  have fails: "LoadImageFromFlash bd mc = (if ret \<noteq> 0 then Some (?mc1, LOAD_FAILED)
      else if \<not> ValidateElfHeader ?H then Some (?mc1\<lparr>mc_uart := u1\<rparr>, LOAD_FAILED)
      else if ret2 \<noteq> 0 then Some (?mc2\<lparr>mc_uart := u2\<rparr>, LOAD_FAILED)
      else case ?v of None \<Rightarrow> Some (?mc2\<lparr>mc_uart := u3\<rparr>, LOAD_FAILED)
        | Some e \<Rightarrow> do {
            mc3 \<leftarrow> uart_say bd ''SpiLoader: ELF bytes <= 0x'' ?mc2;
            mc3 \<leftarrow> uart_hex64 bd e mc3;
            mc3 \<leftarrow> uart_say bd [CHR 0x0D, CHR 0x0A] mc3;
            (mc4, ok) \<leftarrow> load_segments bd ?phs mc3;
            Some (mc4, if ok then LOADED (e_entry ?H) (bd_stack_top bd) else PANICKED) })"
    using r1 r2 u1 u2 u3 by (cases ?v) (simp_all add: LoadImageFromFlash_def Let_def cong: if_cong)
  show ?thesis
  proof (cases "ret = 0 \<and> ValidateElfHeader ?H \<and> ret2 = 0 \<and> ?v \<noteq> None")
    case False
    then show ?thesis using fails by (cases "ret = 0"; cases "ValidateElfHeader ?H"; cases "ret2 = 0") simp_all
  next
    case True
    then obtain e where e: "?v = Some e" by blast
    then have v: "validate_phdrs SPILOADER_LOAD_ADDR (bd_stack_top bd - SPILOADER_LOAD_ADDR) ?phs
        (e_phoff ?H + ucast (e_phnum ?H) * 56) = Some e" by (simp add: ValidateProgramHeaders_def)
    note sound = validate_phdrs_sound [OF v]
    obtain w1 where w1: "uart_say bd ''SpiLoader: ELF bytes <= 0x'' ?mc2 = Some (?mc2\<lparr>mc_uart := w1\<rparr>)" "talks (?mc2\<lparr>mc_uart := w1\<rparr>)"
      using uart_steps(1) [OF t2] by blast
    obtain w2 where w2: "uart_hex64 bd e (?mc2\<lparr>mc_uart := w1\<rparr>) = Some (?mc2\<lparr>mc_uart := w2\<rparr>)" "talks (?mc2\<lparr>mc_uart := w2\<rparr>)"
      using uart_steps(3) [OF w1(2), of e] by auto
    obtain w3 where w3: "uart_say bd [CHR 0x0D, CHR 0x0A] (?mc2\<lparr>mc_uart := w2\<rparr>) = Some (?mc2\<lparr>mc_uart := w3\<rparr>)" "talks (?mc2\<lparr>mc_uart := w3\<rparr>)"
      using uart_steps(1) [OF w2(2), of "[CHR 0x0D, CHR 0x0A]"] by auto
    have oks: "\<forall>ph \<in> set ?phs. p_type ph = 1 \<longrightarrow> seg_ok ph" using sound by blast
    from load_segments_stay [OF w3(2) oks] obtain mc' ok where
      l: "load_segments bd ?phs (?mc2\<lparr>mc_uart := w3\<rparr>) = Some (mc', ok)"
        "\<forall>a. (\<forall>ph \<in> set ?phs. p_type ph = 1 \<longrightarrow> \<not> in_seg ph a) \<longrightarrow> mc_mem mc' a = mc_mem mc a"
      by auto
    have "LoadImageFromFlash bd mc = Some (mc', if ok then LOADED (e_entry ?H) (bd_stack_top bd) else PANICKED)"
      using fails True e w1(1) w2(1) w3(1) l(1) by simp
    moreover have "mc_mem mc' a = mc_mem mc a" if "SPILOADER_LOAD_ADDR \<le> a \<and> a < bd_stack_top bd" for a
      using l(2) sound that by blast
    ultimately show ?thesis by (intro exI conjI) (assumption, blast, simp)
  qed
qed

end

subsection \<open>On the flash chip and the UART\<close>

abbreviation spl_board :: "(nat \<Rightarrow> nat) \<Rightarrow> u64 \<Rightarrow> u64 \<Rightarrow> (nor_chip spi_ctl, uart16550) board" where
  "spl_board pace ctr stk \<equiv> \<lparr>bd_hal = nor_dev pace, bd_uart = ua_bus, bd_ctr = ctr, bd_stack_top = stk\<rparr>"

interpretation spl_talk: spl_console "spl_board pace ctr stk" ua_out
  using console.uart_axioms by (intro spl_console.intro) simp

text \<open>Any schedule, and any state of the controller and the flash.\<close>

interpretation spl_any: spl_reader "spl_board pace ctr stk" ua_out
proof (intro spl_reader.intro spl_reader_axioms.intro)
  show "spl_console (spl_board pace ctr stk) ua_out" by (rule spl_talk.spl_console_axioms)
  fix n :: u32 and h :: "nor_chip spi_ctl" and c :: u8 and A :: u32
  assume n: "unat n \<le> 4096"
  have "length (addr_cmd c A) < 256" by (simp add: addr_cmd_def)
  moreover have "unat n < 2 ^ 31" using n by simp
  ultimately obtain h' err d where r: "al_spi_read (ctl_bus nor_slave pace) (addr_cmd c A) n 0 1000000 h = Some (h', err, d)"
      "err = 0 \<longrightarrow> length d = unat n"
    using ctl_read_returns by blast
  then show "\<exists>h' err d. hal_read (bd_hal (spl_board pace ctr stk)) h (addr_cmd c A) n = Some (h', err, d) \<and>
      length d \<le> unat n \<and> (err = 0 \<longrightarrow> length d = unat n)"
    using al_spi_read_length [OF r(1)] by (auto simp: nor_hal_def)
qed

text \<open>A schedule that leaves the HAL time to refill the FIFO.\<close>

interpretation spi_boot: spi_loader "spl_board (capped pace) ctr stk" "ctl_holds nor_slave" "never_stalls pace" ua_out
proof -
  have "nor_flash (bd_hal (spl_board (capped pace) ctr stk)) (ctl_holds nor_slave) (never_stalls pace)"
    using nor_ctl.nor_flash_axioms by simp
  moreover have "spl_console (spl_board (capped pace) ctr stk) ua_out" by (rule spl_talk.spl_console_axioms)
  moreover have "spi_loader_axioms (spl_board (capped pace) ctr stk)"
    by unfold_locales (auto simp: nor_hal_def dest: al_spi_read_length)
  ultimately show "spi_loader (spl_board (capped pace) ctr stk) (ctl_holds nor_slave) (never_stalls pace) ua_out"
    by (intro spi_loader.intro)
qed

lemma boot_kept: "keeps_up pace \<Longrightarrow>
    spi_loader (spl_board pace ctr stk) (ctl_holds nor_slave) (never_stalls pace) ua_out"
  using spi_boot.spi_loader_axioms [of pace ctr stk] by (simp add: capped_id)

lemma load_all_mem_outside:
  "(\<forall>ph \<in> set phs. p_type ph = 1 \<longrightarrow> \<not> in_seg ph a) \<Longrightarrow> load_all_mem m phs mem a = mem a"
  by (induction phs arbitrary: mem) (auto simp: load_seg_mem_def)

text \<open>No two segments have a byte in common.\<close>

definition segs_disjoint :: "ELF64_PHDR list \<Rightarrow> bool" where
  "segs_disjoint phs = sorted_wrt (\<lambda>p q. p_type p = 1 \<and> p_type q = 1 \<longrightarrow> (\<forall>a. \<not> (in_seg p a \<and> in_seg q a))) phs"

lemma load_all_mem_inside:
  "segs_disjoint phs \<Longrightarrow> ph \<in> set phs \<Longrightarrow> p_type ph = 1 \<Longrightarrow> in_seg ph a \<Longrightarrow> load_all_mem m phs mem a = seg_byte m ph a"
proof (induction phs arbitrary: mem)
  case (Cons q phs)
  show ?case
  proof (cases "ph = q")
    case False
    then show ?thesis using Cons by (auto simp: segs_disjoint_def)
  next
    case True
    then have "\<forall>p \<in> set phs. p_type p = 1 \<longrightarrow> \<not> in_seg p a" using Cons.prems by (auto simp: segs_disjoint_def)
    then show ?thesis using load_all_mem_outside True Cons.prems by (simp add: load_seg_mem_def)
  qed
qed simp

lemma in_seg_offset:
  assumes "k < unat (p_memsz ph)"
  shows "in_seg ph (seg_target ph + of_nat k)" and "unat (seg_target ph + of_nat k - seg_target ph) = k"
proof -
  have "unat (p_memsz ph) < 2 ^ 64" using unsigned_less [of "p_memsz ph"] by simp
  then have "unat (of_nat k :: u64) = k" using assms by (simp add: unat_of_nat_small)
  then show "in_seg ph (seg_target ph + of_nat k)" "unat (seg_target ph + of_nat k - seg_target ph) = k"
    using assms by (simp_all add: in_seg_def)
qed

lemma jump_runs:
  "\<exists>mc'. SpiloaderJumpToImage bd stk mc = Some mc' \<and> mc_mem mc' = mc_mem mc \<and> set (mc_dc mc) \<subseteq> set (mc_dc mc') \<and>
    (if drop_bit 2 (mc_CurrentEL mc) = 2 then mc_sctlr_el2 mc' AND 0x1005 = 0 else mc_sctlr_el1 mc' AND 0x1005 = 0)"
proof -
  obtain ls where "CleanInvalidateDataCacheRange (bd_ctr bd) SPILOADER_LOAD_ADDR (stk - SPILOADER_LOAD_ADDR) = Some ls"
    using clean_range_lines by blast
  moreover have "(((v AND NOT 1) AND NOT 4) AND NOT 0x1000) AND 0x1005 = 0" for v :: u64
    by (simp add: and.assoc)
  ultimately show ?thesis by (simp add: SpiloaderJumpToImage_def clean_range_def Let_def)
qed

text \<open>The witness: a controller in front of a chip with one image, a UART and memory of zeros.\<close>

definition demo_image :: bytes where
  "demo_image = [
     127, 69, 76, 70, 2, 1, 1, 0, 0, 0, 0, 0, 0, 0, 0, 0, 2, 0, 183, 0, 1, 0, 0, 0,
     0, 1, 0, 16, 0, 0, 0, 0, 64, 0, 0, 0, 0, 0, 0, 0, 0, 0, 0, 0, 0, 0, 0, 0,
     0, 0, 0, 0, 64, 0, 56, 0, 1, 0, 0, 0, 0, 0, 0, 0, 1, 0, 0, 0, 5, 0, 0, 0,
     120, 0, 0, 0, 0, 0, 0, 0, 0, 0, 0, 0, 0, 0, 0, 0, 0, 0, 0, 16, 0, 0, 0, 0,
     3, 0, 0, 0, 0, 0, 0, 0, 5, 0, 0, 0, 0, 0, 0, 0, 0, 0, 0, 0, 0, 0, 0, 0,
     170, 187, 204]"

definition demo_flash :: "nat \<Rightarrow> u8" where
  "demo_flash = (\<lambda>a. if 0x800000 \<le> a \<and> a - 0x800000 < 123 then demo_image ! (a - 0x800000) else 0xFF)"

definition demo_machine :: "(nor_chip spi_ctl, uart16550) machine" where
  "demo_machine = \<lparr>mc_spi = (demo_ctl 0)\<lparr>sc_dev := (demo_chip 0)\<lparr>nor_mem := demo_flash\<rparr>\<rparr>,
     mc_uart = \<lparr>ua_dlab = False, ua_divisor = (0, 0), ua_busy = 3, ua_sent = [], ua_lat = 100\<rparr>,
     mc_mem = (\<lambda>_. 0), mc_dc = [], mc_CurrentEL = 8, mc_sctlr_el1 = 0, mc_sctlr_el2 = 0x30C51835\<rparr>"

lemma demo_machine_holds:
  "ctl_holds nor_slave (mc_spi demo_machine) ((demo_chip 0)\<lparr>nor_mem := demo_flash\<rparr>)"
  by (simp add: ctl_holds_def deselect_def demo_ctl_def demo_machine_def)

definition demo_phdr :: ELF64_PHDR where
  "demo_phdr = \<lparr>p_type = 1, p_flags = 5, p_offset = 120, p_vaddr = 0, p_paddr = 0x10000000, p_filesz = 3, p_memsz = 5, p_align = 0\<rparr>"

lemma demo_image_length: "length demo_image = 123"
  by (simp add: demo_image_def)

lemma demo_take: "n + k \<le> 123 \<Longrightarrow> map (\<lambda>i. demo_flash (0x800000 + k + i)) [0..<n] = take n (drop k demo_image)"
  by (rule nth_equalityI) (simp_all add: demo_flash_def demo_image_length)

lemma demo_ehdr: "flash_ehdr demo_flash = \<lparr>e_ident = [127, 69, 76, 70, 2, 1, 1, 0, 0, 0, 0, 0, 0, 0, 0, 0], e_type = 2, e_machine = 183,
   e_version = 1, e_entry = 0x10000100, e_phoff = 64, e_shoff = 0, e_flags = 0, e_ehsize = 64, e_phentsize = 56,
   e_phnum = 1, e_shentsize = 0, e_shnum = 0, e_shstrndx = 0\<rparr>"
proof -
  have "map (\<lambda>i. demo_flash (0x800000 + i)) [0..<64] = take 64 demo_image"
    using demo_take [of 64 0] by simp
  then show ?thesis unfolding flash_ehdr_def
    by (simp add: ehdr_at_def demo_image_def le16_def le32_def le64_def bytes16_def bytes32_def)
qed

lemma demo_phdrs: "flash_phdrs demo_flash = [demo_phdr]"
proof -
  have "map (\<lambda>i. demo_flash (0x800000 + 64 + i)) [0..<56] = take 56 (drop 64 demo_image)"
    using demo_take [of 56 64] by simp
  then show ?thesis unfolding flash_phdrs_def demo_ehdr
    by (simp add: phdr_at_def demo_phdr_def demo_image_def le16_def le32_def le64_def bytes16_def bytes32_def Let_def)
qed

lemma demo_accepted: "image_accepted demo_flash 0x04010000"
  by (simp add: image_accepted_def demo_ehdr demo_phdrs ValidateElfHeader_def ValidateProgramHeaders_def spl_consts
      demo_phdr_def seg_target_def RangeOverlaps_def Let_def)

text \<open>C14: From any state of the controller and the flash chip, with any schedule and whether or not reads fail or return what the flash holds, loading returns and no byte of the loader, its data and its stack is overwritten.\<close>

lemma spiloader_spares_itself:
  assumes "\<not> ua_dlab (mc_uart mc)"
  shows "\<exists>mc' res. LoadImageFromFlash (spl_board pace ctr stk) mc = Some (mc', res) \<and>
    (\<forall>a. 0x04000000 \<le> a \<and> a < stk \<longrightarrow> mc_mem mc' a = mc_mem mc a) \<and>
    (res = LOAD_FAILED \<longrightarrow> mc_mem mc' = mc_mem mc)"
proof -
  have "spl_talk.talks mc" using assms by (simp add: spl_talk.talks_def ua_out_def)
  then show ?thesis using spl_any.LoadImage_stays [of mc pace ctr stk] by (simp add: spl_consts)
qed

lemma spiloader_spares_itself_witness:
  "\<exists>mc' res. LoadImageFromFlash (spl_board (\<lambda>t. t mod 2) 0x40000 0x04010000) demo_machine = Some (mc', res) \<and>
    mc_mem mc' 0x04000010 = 0"
proof -
  have "\<not> ua_dlab (mc_uart demo_machine)" by (simp add: demo_machine_def)
  from spiloader_spares_itself [OF this, of "\<lambda>t. t mod 2" "0x40000" "0x04010000"]
  obtain mc' res where r: "LoadImageFromFlash (spl_board (\<lambda>t. t mod 2) 0x40000 0x04010000) demo_machine = Some (mc', res)"
      "\<forall>a. 0x04000000 \<le> a \<and> a < 0x04010000 \<longrightarrow> mc_mem mc' a = mc_mem demo_machine a" by blast
  have "mc_mem mc' 0x04000010 = 0" using r(2) [rule_format, of "0x04000010"] by (simp add: demo_machine_def)
  then show ?thesis using r(1) by blast
qed

text \<open>The log of the chip's identification.\<close>

context spi_loader begin

lemma LogJedecId_runs:
  assumes "talks mc" and "holds (mc_spi mc) f" and "nor_busy f = 0" and "length (nor_id f) = 3" and reliable
  shows "\<exists>h u. LogJedecId bd mc = Some (mc\<lparr>mc_spi := h, mc_uart := u\<rparr>) \<and> talks (mc\<lparr>mc_spi := h, mc_uart := u\<rparr>) \<and> holds h f"
proof -
  have "gives reliable holds (HalRead (bd_hal bd) [0x9F] 3 (mc_spi mc)) f (nor_id f)"
    using id_gives [OF assms(2-4)] by (simp add: SpiNorGetFlashId_def CMD_READ_ID_def)
  from hal_gives [OF this] obtain h where h: "hal_read (bd_hal bd) (mc_spi mc) [0x9F] 3 = Some (h, 0, nor_id f)" "holds h f"
    using assms(5) by (auto split: if_splits)
  obtain i0 i1 i2 where id: "nor_id f = [i0, i1, i2]" using assms(4) by (auto simp: numeral_3_eq_3 length_Suc_conv)
  let ?mc = "mc\<lparr>mc_spi := h\<rparr>"
  have t: "talks ?mc" using assms(1) by (simp add: talks_def)
  obtain u1 where u1: "uart_say bd ''SpiLoader: JEDEC '' ?mc = Some (?mc\<lparr>mc_uart := u1\<rparr>)" "talks (?mc\<lparr>mc_uart := u1\<rparr>)"
    using uart_steps(1) [OF t] by blast
  obtain u2 where u2: "uart_hex32 bd (ucast i0) (?mc\<lparr>mc_uart := u1\<rparr>) = Some (?mc\<lparr>mc_uart := u2\<rparr>)" "talks (?mc\<lparr>mc_uart := u2\<rparr>)"
    using uart_steps(2) [OF u1(2), of "ucast i0"] by auto
  obtain u3 where u3: "uart_say bd '' '' (?mc\<lparr>mc_uart := u2\<rparr>) = Some (?mc\<lparr>mc_uart := u3\<rparr>)" "talks (?mc\<lparr>mc_uart := u3\<rparr>)"
    using uart_steps(1) [OF u2(2), of "'' ''"] by auto
  obtain u4 where u4: "uart_hex32 bd (ucast i1) (?mc\<lparr>mc_uart := u3\<rparr>) = Some (?mc\<lparr>mc_uart := u4\<rparr>)" "talks (?mc\<lparr>mc_uart := u4\<rparr>)"
    using uart_steps(2) [OF u3(2), of "ucast i1"] by auto
  obtain u5 where u5: "uart_say bd '' '' (?mc\<lparr>mc_uart := u4\<rparr>) = Some (?mc\<lparr>mc_uart := u5\<rparr>)" "talks (?mc\<lparr>mc_uart := u5\<rparr>)"
    using uart_steps(1) [OF u4(2), of "'' ''"] by auto
  obtain u6 where u6: "uart_hex32 bd (ucast i2) (?mc\<lparr>mc_uart := u5\<rparr>) = Some (?mc\<lparr>mc_uart := u6\<rparr>)" "talks (?mc\<lparr>mc_uart := u6\<rparr>)"
    using uart_steps(2) [OF u5(2), of "ucast i2"] by auto
  obtain u7 where u7: "uart_say bd [CHR 0x0D, CHR 0x0A] (?mc\<lparr>mc_uart := u6\<rparr>) = Some (?mc\<lparr>mc_uart := u7\<rparr>)" "talks (?mc\<lparr>mc_uart := u7\<rparr>)"
    using uart_steps(1) [OF u6(2), of "[CHR 0x0D, CHR 0x0A]"] by auto
  have "LogJedecId bd mc = Some (?mc\<lparr>mc_uart := u7\<rparr>)"
    using h(1) id u1(1) u2(1) u3(1) u4(1) u5(1) u6(1) u7(1) by (simp add: LogJedecId_def SpiFlashReadJedecId_def Let_def)
  then show ?thesis using u7(2) h(2) by (intro exI [of _ h] exI [of _ u7]) simp
qed

end

text \<open>The run of the loader on a valid image.\<close>

lemma SpiloaderMain_run:
  assumes "ctl_holds nor_slave (mc_spi mc) f" and "nor_busy f = 0" and "length (nor_id f) = 3" and "\<not> ua_dlab (mc_uart mc)"
    and "never_stalls pace" and "image_accepted (nor_mem f) stk" and "keeps_up pace"
  shows "\<exists>mc'. SpiloaderMain (ctl_bus nor_slave pace) ua_bus ctr stk mc = Some (mc', JUMPED (e_entry (flash_ehdr (nor_mem f)))) \<and>
    mc_mem mc' = load_all_mem (nor_mem f) (flash_phdrs (nor_mem f)) (mc_mem mc) \<and>
    (\<forall>ph \<in> set (flash_phdrs (nor_mem f)). p_type ph = 1 \<longrightarrow> seg_lines ctr ph (mc_dc mc')) \<and>
    (if drop_bit 2 (mc_CurrentEL mc) = 2 then mc_sctlr_el2 mc' AND 0x1005 = 0 else mc_sctlr_el1 mc' AND 0x1005 = 0)"
proof -
  let ?bd = "spl_board pace ctr stk" and ?m = "nor_mem f"
  define mc0 where "mc0 = mc\<lparr>mc_uart := UartInitialize ua_bus (mc_uart mc)\<rparr>"
  have t0: "spl_talk.talks mc0" using assms(4) by (auto simp: spl_talk.talks_def ua_out_def ua_init mc0_def)
  obtain u1 where u1: "uart_say ?bd (''SpiLoader: start'' @ [CHR 0x0D, CHR 0x0A]) mc0 = Some (mc0\<lparr>mc_uart := u1\<rparr>)"
      "spl_talk.talks (mc0\<lparr>mc_uart := u1\<rparr>)"
    using spl_talk.uart_steps(1) [OF t0] by blast
  obtain spi_if h1 where h1: "SpiInitialize (ctl_bus nor_slave pace) (mc_spi mc) = Some (spi_if, h1)" "ctl_holds nor_slave h1 f"
    using setup_holds [OF assms(1), of pace] by (auto simp: SpiInitialize_def)
  define mc1 where "mc1 = mc0\<lparr>mc_uart := u1, mc_spi := h1\<rparr>"
  have t1: "spl_talk.talks mc1" "ctl_holds nor_slave (mc_spi mc1) f"
    using u1(2) h1(2) by (simp_all add: mc1_def spl_talk.talks_def)
  obtain h2 u2 where l: "LogJedecId ?bd mc1 = Some (mc1\<lparr>mc_spi := h2, mc_uart := u2\<rparr>)"
      "spl_talk.talks (mc1\<lparr>mc_spi := h2, mc_uart := u2\<rparr>)" "ctl_holds nor_slave h2 f"
    using spi_loader.LogJedecId_runs [OF boot_kept [OF assms(7)] t1 assms(2,3,5)] by blast
  let ?mc2 = "mc1\<lparr>mc_spi := h2, mc_uart := u2\<rparr>"
  have h2: "ctl_holds nor_slave (mc_spi ?mc2) f" using l(3) by simp
  from spi_loader.LoadImage_runs [OF boot_kept [OF assms(7)] l(2) h2 assms(2), of ctr stk] obtain mc3 res where
    r: "LoadImageFromFlash ?bd ?mc2 = Some (mc3, res)" "spl_talk.talks mc3" "mc_frame ?mc2 mc3"
      "load_outcome (never_stalls pace) ctr ?m stk ?mc2 mc3 res"
    by auto
  have res: "res = LOADED (e_entry (flash_ehdr ?m)) stk" "mc_mem mc3 = load_all_mem ?m (flash_phdrs ?m) (mc_mem mc)"
      "\<forall>ph \<in> set (flash_phdrs ?m). p_type ph = 1 \<longrightarrow> seg_lines ctr ph (mc_dc mc3)"
    using r(4) assms(5,6) by (auto simp: load_outcome_def mc1_def mc0_def split: load_result.splits)
  obtain u3 where u3: "uart_say ?bd ''SpiLoader: jump 0x'' mc3 = Some (mc3\<lparr>mc_uart := u3\<rparr>)" "spl_talk.talks (mc3\<lparr>mc_uart := u3\<rparr>)"
    using spl_talk.uart_steps(1) [OF r(2)] by blast
  obtain u4 where u4: "uart_hex64 ?bd (e_entry (flash_ehdr ?m)) (mc3\<lparr>mc_uart := u3\<rparr>) = Some (mc3\<lparr>mc_uart := u4\<rparr>)"
      "spl_talk.talks (mc3\<lparr>mc_uart := u4\<rparr>)"
    using spl_talk.uart_steps(3) [OF u3(2), of pace ctr stk "e_entry (flash_ehdr ?m)"] by auto
  obtain u5 where u5: "uart_say ?bd [CHR 0x0D, CHR 0x0A] (mc3\<lparr>mc_uart := u4\<rparr>) = Some (mc3\<lparr>mc_uart := u5\<rparr>)"
    using spl_talk.uart_steps(1) [OF u4(2), of pace ctr stk "[CHR 0x0D, CHR 0x0A]"] by auto
  obtain mc' where j: "SpiloaderJumpToImage ?bd stk (mc3\<lparr>mc_uart := u5\<rparr>) = Some mc'" "mc_mem mc' = mc_mem mc3"
      "set (mc_dc mc3) \<subseteq> set (mc_dc mc')"
      "if drop_bit 2 (mc_CurrentEL mc3) = 2 then mc_sctlr_el2 mc' AND 0x1005 = 0 else mc_sctlr_el1 mc' AND 0x1005 = 0"
    using jump_runs [of ?bd stk "mc3\<lparr>mc_uart := u5\<rparr>"] by auto
  have "SpiloaderMain (ctl_bus nor_slave pace) ua_bus ctr stk mc = Some (mc', JUMPED (e_entry (flash_ehdr ?m)))"
    using u1(1) h1(1) l(1) r(1) res(1) u3(1) u4(1) u5(1) j(1)
    by (simp add: SpiloaderMain_def Let_def mc0_def [symmetric] mc1_def [symmetric]) (simp add: mc0_def mc1_def)
  moreover have "mc_mem mc' = load_all_mem ?m (flash_phdrs ?m) (mc_mem mc)" using j(2) res(2) by simp
  moreover have "\<forall>ph \<in> set (flash_phdrs ?m). p_type ph = 1 \<longrightarrow> seg_lines ctr ph (mc_dc mc')"
    using res(3) seg_lines_mono [OF _ j(3)] by blast
  moreover have "mc_CurrentEL mc3 = mc_CurrentEL mc" using r(3) by (simp add: mc_frame_def mc1_def mc0_def)
  ultimately show ?thesis using j(4) by (intro exI [of _ mc']) simp
qed

text \<open>C13: With a schedule that leaves time to refill the FIFO, a valid image with disjoint segments is loaded, each segment from its place in the flash and zero beyond its file size, with its cache lines cleaned, and started at its entry with caches and MMU off.\<close>

lemma spiloader_boots:
  assumes "ctl_holds nor_slave (mc_spi mc) f" and "nor_busy f = 0" and "length (nor_id f) = 3" and "\<not> ua_dlab (mc_uart mc)"
    and "never_stalls pace" and "image_accepted (nor_mem f) stk" and "segs_disjoint (flash_phdrs (nor_mem f))"
    and "keeps_up pace"
  shows "\<exists>mc'. SpiloaderMain (ctl_bus nor_slave pace) ua_bus ctr stk mc = Some (mc', JUMPED (e_entry (flash_ehdr (nor_mem f)))) \<and>
    (\<forall>ph \<in> set (flash_phdrs (nor_mem f)). p_type ph = 1 \<longrightarrow>
      (\<forall>k < unat (p_memsz ph). mc_mem mc' (seg_target ph + of_nat k) =
         (if k < unat (p_filesz ph) then nor_mem f (0x800000 + unat (p_offset ph) + k) else 0)) \<and>
      seg_lines ctr ph (mc_dc mc')) \<and>
    (\<forall>a. (\<forall>ph \<in> set (flash_phdrs (nor_mem f)). p_type ph = 1 \<longrightarrow> \<not> in_seg ph a) \<longrightarrow> mc_mem mc' a = mc_mem mc a) \<and>
    (if drop_bit 2 (mc_CurrentEL mc) = 2 then mc_sctlr_el2 mc' AND 0x1005 = 0 else mc_sctlr_el1 mc' AND 0x1005 = 0)"
proof -
  let ?m = "nor_mem f"
  obtain mc' where r: "SpiloaderMain (ctl_bus nor_slave pace) ua_bus ctr stk mc = Some (mc', JUMPED (e_entry (flash_ehdr ?m)))"
      "mc_mem mc' = load_all_mem ?m (flash_phdrs ?m) (mc_mem mc)"
      "\<forall>ph \<in> set (flash_phdrs ?m). p_type ph = 1 \<longrightarrow> seg_lines ctr ph (mc_dc mc')"
      "if drop_bit 2 (mc_CurrentEL mc) = 2 then mc_sctlr_el2 mc' AND 0x1005 = 0 else mc_sctlr_el1 mc' AND 0x1005 = 0"
    using SpiloaderMain_run [OF assms(1-6,8)] by blast
  have "mc_mem mc' (seg_target ph + of_nat k) =
      (if k < unat (p_filesz ph) then ?m (0x800000 + unat (p_offset ph) + k) else 0)"
    if "ph \<in> set (flash_phdrs ?m)" "p_type ph = 1" "k < unat (p_memsz ph)" for ph k
    using load_all_mem_inside [OF assms(7) that(1,2) in_seg_offset(1) [OF that(3)]] in_seg_offset(2) [OF that(3)]
    by (simp add: r(2) seg_byte_def Let_def)
  moreover have "mc_mem mc' a = mc_mem mc a" if "\<forall>ph \<in> set (flash_phdrs ?m). p_type ph = 1 \<longrightarrow> \<not> in_seg ph a" for a
    using load_all_mem_outside [OF that] by (simp add: r(2))
  ultimately show ?thesis using r(1,3,4) by (intro exI [of _ mc']) simp
qed

lemma spiloader_boots_witness:
  "\<exists>mc'. SpiloaderMain (ctl_bus nor_slave (\<lambda>_. 4)) ua_bus 0x40000 0x04010000 demo_machine = Some (mc', JUMPED 0x10000100) \<and>
    mc_mem mc' 0x10000001 = 0xBB \<and> mc_mem mc' 0x10000004 = 0 \<and> mc_sctlr_el2 mc' AND 0x1005 = 0"
proof -
  let ?f = "(demo_chip 0)\<lparr>nor_mem := demo_flash\<rparr>"
  have f: "nor_busy ?f = 0" "length (nor_id ?f) = 3" "\<not> ua_dlab (mc_uart demo_machine)" "never_stalls (\<lambda>_. 4)"
      "image_accepted (nor_mem ?f) 0x04010000" "segs_disjoint (flash_phdrs (nor_mem ?f))" "keeps_up (\<lambda>_. 4)"
    using demo_accepted
    by (simp_all add: demo_chip_def demo_machine_def never_stalls_def keeps_up_def demo_phdrs segs_disjoint_def)
  from spiloader_boots [OF demo_machine_holds f, of "0x40000"] obtain mc' where
    r: "SpiloaderMain (ctl_bus nor_slave (\<lambda>_. 4)) ua_bus 0x40000 0x04010000 demo_machine = Some (mc', JUMPED (e_entry (flash_ehdr demo_flash)))"
      "\<forall>ph \<in> set (flash_phdrs demo_flash). p_type ph = 1 \<longrightarrow>
         (\<forall>k < unat (p_memsz ph). mc_mem mc' (seg_target ph + of_nat k) =
           (if k < unat (p_filesz ph) then demo_flash (0x800000 + unat (p_offset ph) + k) else 0)) \<and>
         seg_lines 0x40000 ph (mc_dc mc')"
      "if drop_bit 2 (mc_CurrentEL demo_machine) = 2 then mc_sctlr_el2 mc' AND 0x1005 = 0 else mc_sctlr_el1 mc' AND 0x1005 = 0"
    by auto
  have k: "mc_mem mc' (0x10000000 + of_nat k) = (if k < 3 then demo_flash (0x800000 + 120 + k) else 0)" if "k < 5" for k
  proof -
    have "demo_phdr \<in> set (flash_phdrs demo_flash)" "p_type demo_phdr = 1"
      by (simp_all add: demo_phdrs demo_phdr_def)
    then have "\<forall>k < unat (p_memsz demo_phdr). mc_mem mc' (seg_target demo_phdr + of_nat k) =
        (if k < unat (p_filesz demo_phdr) then demo_flash (0x800000 + unat (p_offset demo_phdr) + k) else 0)"
      using r(2) by blast
    then show ?thesis using that by (simp add: demo_phdr_def seg_target_def)
  qed
  have "mc_mem mc' 0x10000001 = 0xBB" "mc_mem mc' 0x10000004 = 0"
    using k [of 1] k [of 4] by (simp_all add: demo_flash_def demo_image_def)
  moreover have "mc_sctlr_el2 mc' AND 0x1005 = 0" using r(3) by (simp add: demo_machine_def)
  ultimately show ?thesis using r(1) by (simp add: demo_ehdr)
qed

end
