(* ===== verification/FlashApp.thy ===== *)
theory FlashApp
  imports SpiNor
begin

text \<open>
  The application \<open>Application/FlashApp/FlashApp.c\<close>, which writes a file to the SPI flash. It uses three
  functions of the flash protocol, which the driver of theory \<open>SpiNorFlash\<close> publishes; the contract of
  the flash is the locale \<open>nor_store\<close>, and the driver on the controller and the chip discharges it. The
  shell's files and arguments and the pool are parameters; strings are lists of characters with their NUL.
\<close>

unbundle bit_operations_syntax

subsection \<open>The flash protocol\<close>

record 's nor_protocol =
  np_ReadData :: "u32 \<Rightarrow> u32 \<Rightarrow> 's \<Rightarrow> ('s \<times> efi_status \<times> bytes) option"
  np_WriteData :: "u32 \<Rightarrow> u32 \<Rightarrow> bytes \<Rightarrow> 's \<Rightarrow> ('s \<times> efi_status) option"
  np_Erase :: "u32 \<Rightarrow> u32 \<Rightarrow> 's \<Rightarrow> ('s \<times> efi_status) option"

text \<open>The instance the driver installs.\<close>

definition spi_nor_flash :: "'s spi_hal \<Rightarrow> 's nor_protocol" where
  "spi_nor_flash hal = \<lparr>np_ReadData = SpiNorReadData hal, np_WriteData = SpiNorWriteData hal,
     np_Erase = SpiNorErase hal\<rparr>"

subsection \<open>Files and arguments\<close>

text \<open>
  What the shell library returns for a file: the status of opening it, its information with the size, and
  for a read the status, the size read and the bytes.
\<close>

record shell_file =
  sf_Open :: efi_status
  sf_Info :: "u64 option"
  sf_Read :: "u64 \<Rightarrow> efi_status \<times> u64 \<times> bytes"

definition ReadFile :: "shell_file \<Rightarrow> (u64 \<Rightarrow> bool) \<Rightarrow> (efi_status \<times> bytes) option" where
  "ReadFile f al =
     (if EFI_ERROR (sf_Open f) then Some (sf_Open f, [])
      else case sf_Info f of
        None \<Rightarrow> Some (EFI_DEVICE_ERROR, [])
      | Some Size \<Rightarrow>
          if \<not> al Size then Some (EFI_OUT_OF_RESOURCES, [])
          else (case sf_Read f Size of (Status, ReadSize, d) \<Rightarrow>
            if EFI_ERROR Status \<or> ReadSize \<noteq> Size
            then Some (if EFI_ERROR Status then Status else EFI_DEVICE_ERROR, [])
            else if length d = unat Size then Some (EFI_SUCCESS, d) else None))"

text \<open>The value is shifted before the digit is examined.\<close>

fun hex_value_loop :: "u64 \<Rightarrow> u16 list \<Rightarrow> u64 option" where
  "hex_value_loop Val [] = None"
| "hex_value_loop Val (C # Str) =
     (if C = 0 then Some Val
      else let Val = push_bit 4 Val in
        if 0x30 \<le> C \<and> C \<le> 0x39 then hex_value_loop (Val OR ucast (C - 0x30)) Str
        else if 0x61 \<le> C \<and> C \<le> 0x66 then hex_value_loop (Val OR ucast (C - 0x61 + 10)) Str
        else if 0x41 \<le> C \<and> C \<le> 0x46 then hex_value_loop (Val OR ucast (C - 0x41 + 10)) Str
        else Some Val)"

definition HexStrToUintn :: "u16 list \<Rightarrow> u64 option" where
  "HexStrToUintn Str = (case Str of
     c0 # c1 # Str' \<Rightarrow> hex_value_loop 0 (if c0 = 0x30 \<and> (c1 = 0x78 \<or> c1 = 0x58) then Str' else Str)
   | _ \<Rightarrow> hex_value_loop 0 Str)"

subsection \<open>Erase, program and verify\<close>

text \<open>The loop over the sectors.\<close>

function flash_erase :: "'s nor_protocol \<Rightarrow> u32 \<Rightarrow> u32 \<Rightarrow> u32 \<Rightarrow> 's \<Rightarrow> ('s \<times> efi_status) option" where
  "flash_erase np FlashOffset SectorsToErase Idx s =
     (if Idx < SectorsToErase
      then do {
        (s1, Status) \<leftarrow> np_Erase np (FlashOffset + Idx * FLASH_SECTOR_SIZE) 1 s;
        if EFI_ERROR Status then Some (s1, Status)
        else flash_erase np FlashOffset SectorsToErase (Idx + 1) s1
      }
      else Some (s, EFI_SUCCESS))"
  by pat_completeness auto
termination
  by (relation "measure (\<lambda>(np, FlashOffset, SectorsToErase, Idx, s). unat SectorsToErase - unat Idx)")
    (simp_all add: idx_less(2))

declare flash_erase.simps [simp del]

text \<open>The loop over the chunks, each written, read back and compared.\<close>

function flash_program :: "'s nor_protocol \<Rightarrow> u32 \<Rightarrow> bytes \<Rightarrow> u32 \<Rightarrow> u32 \<Rightarrow> 's \<Rightarrow> ('s \<times> efi_status) option" where
  "flash_program np FlashOffset Data DataSize Offset s =
     (if Offset < DataSize
      then (let Chunk = min FLASH_SECTOR_SIZE (DataSize - Offset) in do {
        (s1, Status) \<leftarrow> np_WriteData np (FlashOffset + Offset) Chunk (drop (unat Offset) Data) s;
        if EFI_ERROR Status then Some (s1, Status)
        else do {
          (s2, Status, VerifyBuf) \<leftarrow> np_ReadData np (FlashOffset + Offset) Chunk s1;
          if EFI_ERROR Status then Some (s2, EFI_DEVICE_ERROR)
          else do {
            written \<leftarrow> rdbytes Data (unat Offset) (unat Chunk);
            found \<leftarrow> rdbytes VerifyBuf 0 (unat Chunk);
            if written \<noteq> found then Some (s2, EFI_DEVICE_ERROR)
            else flash_program np FlashOffset Data DataSize (Offset + Chunk) s2
          }
        }
      })
      else Some (s, EFI_SUCCESS))"
  by pat_completeness auto
termination
  by (relation "measure (\<lambda>(np, FlashOffset, Data, DataSize, Offset, s). unat DataSize - unat Offset)")
    (simp_all add: chunk_less(2) nor_consts)

declare flash_program.simps [simp del]

definition FlashWriteVerify ::
    "'s nor_protocol \<Rightarrow> (u64 \<Rightarrow> bool) \<Rightarrow> u32 \<Rightarrow> bytes \<Rightarrow> u32 \<Rightarrow> 's \<Rightarrow> ('s \<times> efi_status) option" where
  "FlashWriteVerify np al FlashOffset Data DataSize s =
     (let EraseSize = (DataSize + FLASH_SECTOR_SIZE - 1) AND NOT (FLASH_SECTOR_SIZE - 1);
          SectorsToErase = EraseSize div FLASH_SECTOR_SIZE in do {
        (s1, Status) \<leftarrow> flash_erase np FlashOffset SectorsToErase 0 s;
        if EFI_ERROR Status then Some (s1, Status)
        else if \<not> al (ucast FLASH_SECTOR_SIZE) then Some (s1, EFI_OUT_OF_RESOURCES)
        else flash_program np FlashOffset Data DataSize 0 s1
      })"

subsection \<open>The entry point\<close>

definition FLASH_SLOT0_OFFSET :: u32 where "FLASH_SLOT0_OFFSET = 0x00800000"
definition FLASH_SLOT1_OFFSET :: u32 where "FLASH_SLOT1_OFFSET = 0x00C00000"
definition FLASH_SLOT_SIZE :: u32 where "FLASH_SLOT_SIZE = 0x00400000"
definition FLASH_MAX_IMAGE_SIZE :: u32 where "FLASH_MAX_IMAGE_SIZE = FLASH_SLOT_SIZE - 0x10000"

lemmas slot_consts = FLASH_SLOT0_OFFSET_def FLASH_SLOT1_OFFSET_def FLASH_SLOT_SIZE_def FLASH_MAX_IMAGE_SIZE_def

text \<open>The checks of the header, on a file that is long enough to have one.\<close>

definition valid_elf :: "bytes \<Rightarrow> bool option" where
  "valid_elf FileData = do {
     magic \<leftarrow> rd32 FileData 0;
     if magic \<noteq> 0x464C457F then Some False
     else do {
       class \<leftarrow> rd8 FileData 4;
       data \<leftarrow> rd8 FileData 5;
       if class \<noteq> 2 \<or> data \<noteq> 1 then Some False
       else do {
         machine \<leftarrow> rd16 FileData 18;
         Some (machine = 183)
       }
     }
   }"

definition flash_raw ::
    "'s nor_protocol \<Rightarrow> (u16 list \<Rightarrow> shell_file) \<Rightarrow> (u64 \<Rightarrow> bool) \<Rightarrow> u16 list list \<Rightarrow> 's \<Rightarrow> ('s \<times> efi_status) option" where
  "flash_raw np files al Argv s =
     (if length Argv < 4 then Some (s, EFI_INVALID_PARAMETER)
      else do {
        off \<leftarrow> HexStrToUintn (Argv ! 2);
        let FlashOffset = (ucast off :: u32);
        (Status, FileData) \<leftarrow> ReadFile (files (Argv ! 3)) al;
        if EFI_ERROR Status then Some (s, Status)
        else if FlashOffset + of_nat (length FileData) > FLASH_SIZE then Some (s, EFI_INVALID_PARAMETER)
        else if FlashOffset AND (FLASH_SECTOR_SIZE - 1) \<noteq> 0 then Some (s, EFI_INVALID_PARAMETER)
        else FlashWriteVerify np al FlashOffset FileData (of_nat (length FileData)) s
      })"

text \<open>The slot and the index of the file's argument; \<^const>\<open>None\<close> is the slot being invalid.\<close>

definition flash_slot :: "u16 list list \<Rightarrow> (nat \<times> nat) option" where
  "flash_slot Argv =
     (if 4 \<le> length Argv \<and> wide_eq (Argv ! 1) (wide ''-slot'')
      then if wide_eq (Argv ! 2) (wide ''1'') then Some (1, 3)
        else if \<not> wide_eq (Argv ! 2) (wide ''0'') then None else Some (0, 3)
      else Some (0, 1))"

definition flash_elf ::
    "'s nor_protocol \<Rightarrow> (u16 list \<Rightarrow> shell_file) \<Rightarrow> (u64 \<Rightarrow> bool) \<Rightarrow> u16 list list \<Rightarrow> 's \<Rightarrow> ('s \<times> efi_status) option" where
  "flash_elf np files al Argv s = (case flash_slot Argv of
     None \<Rightarrow> Some (s, EFI_INVALID_PARAMETER)
   | Some (Slot, ArgIdx) \<Rightarrow>
       let FlashOffset = (if Slot = 0 then FLASH_SLOT0_OFFSET else FLASH_SLOT1_OFFSET) in do {
         (Status, FileData) \<leftarrow> ReadFile (files (Argv ! ArgIdx)) al;
         if EFI_ERROR Status then Some (s, Status)
         else if length FileData < 32 then Some (s, EFI_INVALID_PARAMETER)
         else do {
           valid \<leftarrow> valid_elf FileData;
           if \<not> valid then Some (s, EFI_INVALID_PARAMETER)
           else if unat FLASH_MAX_IMAGE_SIZE \<le> length FileData then Some (s, EFI_INVALID_PARAMETER)
           else FlashWriteVerify np al FlashOffset FileData (of_nat (length FileData)) s
         }
       })"

text \<open>
  \<open>params\<close> is the status and the arguments of the shell parameters protocol, \<open>located\<close> the flash protocol.
\<close>

definition FlashAppEntry ::
    "efi_status \<Rightarrow> u16 list list \<Rightarrow> efi_status \<Rightarrow> 's nor_protocol \<Rightarrow> (u16 list \<Rightarrow> shell_file) \<Rightarrow> (u64 \<Rightarrow> bool) \<Rightarrow>
     's \<Rightarrow> ('s \<times> efi_status) option" where
  "FlashAppEntry params Argv located np files al s =
     (if EFI_ERROR params \<or> length Argv < 2 then Some (s, EFI_INVALID_PARAMETER)
      else if EFI_ERROR located then Some (s, located)
      else if wide_eq (Argv ! 1) (wide ''-raw'') then flash_raw np files al Argv s
      else flash_elf np files al Argv s)"

subsection \<open>The contract of the flash\<close>

text \<open>What a call does to the contents: it succeeds and they are \<open>m\<close>, or reports an error on a flash that may fail.\<close>

definition ends :: "bool \<Rightarrow> ('s \<Rightarrow> 'm \<Rightarrow> bool) \<Rightarrow> ('s \<times> efi_status) option \<Rightarrow> 'm \<Rightarrow> bool" where
  "ends live holds res m = (\<exists>s' st. res = Some (s', st) \<and>
     (if st = EFI_SUCCESS then holds s' m else EFI_ERROR st \<and> \<not> live))"

definition yields ::
    "bool \<Rightarrow> ('s \<Rightarrow> 'm \<Rightarrow> bool) \<Rightarrow> ('s \<times> efi_status \<times> bytes) option \<Rightarrow> 'm \<Rightarrow> bytes \<Rightarrow> bool" where
  "yields live holds res m r = (\<exists>s' st d. res = Some (s', st, d) \<and>
     (if st = EFI_SUCCESS then holds s' m \<and> d = r else EFI_ERROR st \<and> \<not> live))"

lemma ends_bind:
  assumes "ends live holds res m" and "\<And>s1. holds s1 m \<Longrightarrow> ends live holds (k s1) m'"
  shows "ends live holds (do { (s1, st) \<leftarrow> res; if EFI_ERROR st then Some (s1, st) else k s1 }) m'"
  using assms(1) unfolding ends_def [of live holds res m]
  by (auto split: if_splits intro: assms(2)) (auto simp: ends_def)

lemma yields_bind:
  assumes "yields live holds res m r" and "\<And>s1. holds s1 m \<Longrightarrow> ends live holds (k s1 r) m'"
  shows "ends live holds (do { (s1, st, d) \<leftarrow> res; if EFI_ERROR st then Some (s1, EFI_DEVICE_ERROR) else k s1 d }) m'"
  using assms(1) unfolding yields_def
  by (auto split: if_splits intro: assms(2)) (auto simp: ends_def)

locale nor_store =
  fixes np :: "'s nor_protocol" and holds :: "'s \<Rightarrow> (nat \<Rightarrow> u8) \<Rightarrow> bool" and live :: bool
  assumes erases: "holds s m \<Longrightarrow> unat A mod 4096 = 0 \<Longrightarrow> unat A + 4096 \<le> 2 ^ 24 \<Longrightarrow>
      ends live holds (np_Erase np A 1 s) (filled (unat A) (unat A + 4096) (\<lambda>_. 0xFF) m)"
    and writes: "holds s m \<Longrightarrow> unat A + unat n \<le> 2 ^ 24 \<Longrightarrow> unat n \<le> length buf \<Longrightarrow>
      ends live holds (np_WriteData np A n buf s)
        (filled (unat A) (unat A + unat n) (\<lambda>i. m i AND buf ! (i - unat A)) m)"
    and reads: "holds s m \<Longrightarrow> unat A + unat n \<le> 2 ^ 24 \<Longrightarrow>
      yields live holds (np_ReadData np A n s) m (map (\<lambda>i. m (unat A + i)) [0..<unat n])"

context nor_store begin

lemma sector_address:
  assumes "unat A + 4096 * unat n \<le> 2 ^ 24" and "Idx < n"
  shows "unat (A + Idx * FLASH_SECTOR_SIZE) = unat A + 4096 * unat Idx"
  using assms by (simp add: nor_consts unat_word_ariths word_less_nat_alt mult.commute)

lemma flash_erase_ends:
  assumes "holds s m" and "unat A mod 4096 = 0" and "unat A + 4096 * unat n \<le> 2 ^ 24"
  shows "ends live holds (flash_erase np A n Idx s)
    (filled (unat A + 4096 * unat Idx) (unat A + 4096 * unat n) (\<lambda>_. 0xFF) m)"
  using assms(1)
proof (induction "unat n - unat Idx" arbitrary: Idx s m rule: less_induct)
  case less
  show ?case
  proof (cases "Idx < n")
    case False
    then show ?thesis using less.prems
      by (subst flash_erase.simps) (simp add: ends_def word_less_nat_alt)
  next
    case True
    let ?a = "A + Idx * FLASH_SECTOR_SIZE"
    let ?m = "filled (unat ?a) (unat ?a + 4096) (\<lambda>_. 0xFF) m"
    have a: "unat ?a = unat A + 4096 * unat Idx" using assms(3) True by (rule sector_address)
    have lt: "unat Idx < unat n" using True by (simp add: word_less_nat_alt)
    have suc: "unat (Idx + 1) = Suc (unat Idx)" "unat n - unat (Idx + 1) < unat n - unat Idx"
      using idx_less [OF True] by simp_all
    have "unat ?a mod 4096 = 0" "unat ?a + 4096 \<le> 2 ^ 24" using a lt assms(2,3) by (simp_all add: mod_add_eq)
    then have e: "ends live holds (np_Erase np ?a 1 s) ?m" by (rule erases [OF less.prems])
    have "filled (unat A + 4096 * unat (Idx + 1)) (unat A + 4096 * unat n) (\<lambda>_. 0xFF) ?m =
        filled (unat A + 4096 * unat Idx) (unat A + 4096 * unat n) (\<lambda>_. 0xFF) m"
      using a suc(1) lt filled_join [of "unat ?a" "unat ?a + 4096" "unat A + 4096 * unat n" "\<lambda>_. 0xFF" m]
      by (simp add: algebra_simps)
    then have "ends live holds (flash_erase np A n (Idx + 1) s1)
        (filled (unat A + 4096 * unat Idx) (unat A + 4096 * unat n) (\<lambda>_. 0xFF) m)" if "holds s1 ?m" for s1
      using less.hyps [OF suc(2) that] by simp
    then show ?thesis using True ends_bind [OF e] by (subst flash_erase.simps) (simp cong: if_cong)
  qed
qed

text \<open>The data from an offset on, in erased flash.\<close>

lemma flash_program_ends:
  assumes "holds s m" and "unat A + unat n \<le> 2 ^ 24" and "unat n \<le> length d"
    and "\<And>a. unat A \<le> a \<Longrightarrow> a < unat A + unat n \<Longrightarrow> a \<ge> unat A + unat Off \<Longrightarrow> m a = 0xFF"
  shows "ends live holds (flash_program np A d n Off s)
    (filled (unat A + unat Off) (unat A + unat n) (\<lambda>a. d ! (a - unat A)) m)"
  using assms(1,4)
proof (induction "unat n - unat Off" arbitrary: Off s m rule: less_induct)
  case less
  show ?case
  proof (cases "Off < n")
    case False
    then show ?thesis using less.prems
      by (subst flash_program.simps) (simp add: ends_def word_less_nat_alt)
  next
    case True
    define Chunk where "Chunk = min FLASH_SECTOR_SIZE (n - Off)"
    have lt: "unat Off < unat n" using True by (simp add: word_less_nat_alt)
    have c: "unat Chunk = min 4096 (unat n - unat Off)"
      using True by (simp add: Chunk_def nor_consts min_def word_le_nat_alt unat_sub_if' word_less_nat_alt)
    have nx: "unat (Off + Chunk) = unat Off + unat Chunk" "unat n - unat (Off + Chunk) < unat n - unat Off"
      using chunk_less [OF True, of FLASH_SECTOR_SIZE] c by (simp_all add: Chunk_def nor_consts)
    let ?a = "A + Off" and ?x = "\<lambda>a. d ! (a - unat A)"
    have a: "unat ?a = unat A + unat Off" using assms(2) lt by (subst unat_word_ariths) simp
    let ?m = "filled (unat A + unat Off) (unat A + unat (Off + Chunk)) ?x m"
    have r: "unat ?a + unat Chunk \<le> 2 ^ 24" "unat Chunk \<le> length (drop (unat Off) d)"
      using a c lt assms(2,3) by simp_all
    have "filled (unat ?a) (unat ?a + unat Chunk) (\<lambda>i. m i AND drop (unat Off) d ! (i - unat ?a)) m = ?m"
    proof
      fix i
      have "m i = - 1" if "unat ?a \<le> i" "i < unat ?a + unat Chunk"
        using less.prems(2) [of i] that a c lt by simp
      then show "filled (unat ?a) (unat ?a + unat Chunk) (\<lambda>i. m i AND drop (unat Off) d ! (i - unat ?a)) m i = ?m i"
        using a c lt nx(1) assms(3) by (auto simp: filled_def)
    qed
    then have w: "ends live holds (np_WriteData np ?a Chunk (drop (unat Off) d) s) ?m"
      using writes [OF less.prems(1) r] by simp
    let ?part = "take (unat Chunk) (drop (unat Off) d)"
    have part: "map (\<lambda>i. ?m (unat ?a + i)) [0..<unat Chunk] = ?part"
      using a c lt nx(1) assms(3) by (intro nth_equalityI) (auto simp: filled_def)
    have rd: "rdbytes d (unat Off) (unat Chunk) = Some ?part" "rdbytes ?part 0 (unat Chunk) = Some ?part"
      using r(2) lt c assms(3) by simp_all
    have rest: "ends live holds (flash_program np A d n (Off + Chunk) s2)
        (filled (unat A + unat Off) (unat A + unat n) ?x m)" if "holds s2 ?m" for s2
    proof -
      have "?m a = 0xFF" if "unat A \<le> a" "a < unat A + unat n" "a \<ge> unat A + unat (Off + Chunk)" for a
        using less.prems(2) [of a] that nx(1) by (simp add: filled_def)
      from less.hyps [OF nx(2) \<open>holds s2 ?m\<close> this] show ?thesis
        using filled_join [of "unat A + unat Off" "unat A + unat (Off + Chunk)" "unat A + unat n" ?x m] c lt nx(1) by simp
    qed
    have step: "flash_program np A d n Off s = do {
        (s1, st) \<leftarrow> np_WriteData np ?a Chunk (drop (unat Off) d) s;
        if EFI_ERROR st then Some (s1, st)
        else do {
          (s2, st, v) \<leftarrow> np_ReadData np ?a Chunk s1;
          if EFI_ERROR st then Some (s2, EFI_DEVICE_ERROR)
          else do {
            found \<leftarrow> rdbytes v 0 (unat Chunk);
            if ?part \<noteq> found then Some (s2, EFI_DEVICE_ERROR) else flash_program np A d n (Off + Chunk) s2
          }
        }
      }"
      using True rd(1) by (subst flash_program.simps) (simp add: Chunk_def [symmetric] Let_def cong: if_cong)
    have "yields live holds (np_ReadData np ?a Chunk s1) ?m ?part" if "holds s1 ?m" for s1
      using reads [OF that r(1)] part by simp
    then show ?thesis unfolding step
      by (intro ends_bind [OF w] yields_bind) (auto simp: rd(2) intro: rest)
  qed
qed

end

text \<open>The contents after a file was stored: the file, and erased bytes to the end of its last sector.\<close>

definition stored :: "nat \<Rightarrow> bytes \<Rightarrow> (nat \<Rightarrow> u8) \<Rightarrow> nat \<Rightarrow> u8" where
  "stored A d m = (\<lambda>a. if A \<le> a \<and> a < A + length d then d ! (a - A)
     else if A \<le> a \<and> a < A + (length d + 4095) div 4096 * 4096 then 0xFF else m a)"

lemma sectors_to_erase:
  assumes "unat (n :: u32) \<le> 2 ^ 24"
  shows "unat (((n + FLASH_SECTOR_SIZE - 1) AND NOT (FLASH_SECTOR_SIZE - 1)) div FLASH_SECTOR_SIZE) = (unat n + 4095) div 4096"
proof -
  have u: "unat (n + 4095) = unat n + 4095" using assms by (subst unat_word_ariths) simp
  have "x AND NOT (mask 12) = push_bit 12 (drop_bit 12 x)" for x :: u32
    by (simp add: bit_eq_iff bit_simps) auto
  then have "((n + 4095) AND NOT 4095) = push_bit 12 (drop_bit 12 (n + 4095))" by (simp add: mask_eq_exp_minus_1)
  moreover have "unat (push_bit 12 (drop_bit 12 (n + 4095))) = (unat n + 4095) div 4096 * 4096"
  proof -
    have "unat (drop_bit 12 (n + 4095)) = (unat n + 4095) div 4096"
      using u by (simp add: drop_bit_eq_div unat_div)
    moreover have "(unat n + 4095) div 4096 * 4096 < 2 ^ 32" using assms by (simp add: less_mult_imp_div_less)
    ultimately show ?thesis using assms by (simp add: push_bit_eq_mult unat_word_ariths)
  qed
  ultimately show ?thesis by (simp add: nor_consts unat_div add.commute [of n])
qed

context nor_store begin

lemma FlashWriteVerify_ends:
  assumes "holds s m" and "unat A mod 4096 = 0" and "unat A + (length d + 4095) div 4096 * 4096 \<le> 2 ^ 24"
    and "al 4096"
  shows "ends live holds (FlashWriteVerify np al A d (of_nat (length d)) s) (stored (unat A) d m)"
proof -
  define n :: u32 where "n = of_nat (length d)"
  define k where "k = (length d + 4095) div 4096"
  have le: "length d \<le> 4096 * k" using div_mult_mod_eq [of "length d + 4095" 4096] mod_less_divisor [of 4096 "length d + 4095"]
    unfolding k_def by linarith
  then have len: "length d \<le> 2 ^ 24" using assms(3) by (simp add: k_def)
  then have n: "unat n = length d" by (simp add: n_def unat_of_nat)
  define Sectors where "Sectors = ((n + FLASH_SECTOR_SIZE - 1) AND NOT (FLASH_SECTOR_SIZE - 1)) div FLASH_SECTOR_SIZE"
  have S: "unat Sectors = k" using sectors_to_erase [of n] n len by (simp add: Sectors_def k_def)
  let ?m = "filled (unat A) (unat A + 4096 * k) (\<lambda>_. 0xFF) m"
  have e: "ends live holds (flash_erase np A Sectors 0 s) ?m"
    using flash_erase_ends [OF assms(1,2), of Sectors 0] assms(3) S by (simp add: k_def mult.commute)
  have r: "unat A + unat n \<le> 2 ^ 24" using assms(3) le n by (simp add: k_def)
  have "filled (unat A) (unat A + length d) (\<lambda>a. d ! (a - unat A)) ?m = stored (unat A) d m"
    by (auto simp: filled_def stored_def k_def fun_eq_iff)
  then have p: "ends live holds (flash_program np A d n 0 s1) (stored (unat A) d m)" if "holds s1 ?m" for s1
    using flash_program_ends [OF that r, of d 0] le n by (simp add: filled_def)
  have "FlashWriteVerify np al A d n s = do {
      (s1, st) \<leftarrow> flash_erase np A Sectors 0 s;
      if EFI_ERROR st then Some (s1, st) else flash_program np A d n 0 s1 }"
    using assms(4) by (simp add: FlashWriteVerify_def Sectors_def Let_def nor_consts cong: if_cong)
  then show ?thesis using ends_bind [OF e p] by (simp add: n_def)
qed

end

subsection \<open>The application on the contract\<close>

text \<open>A file the shell can read, with its contents, and an image the application takes.\<close>

definition file_reads :: "shell_file \<Rightarrow> bytes \<Rightarrow> bool" where
  "file_reads f d = (\<not> EFI_ERROR (sf_Open f) \<and> length d < 2 ^ 64 \<and> sf_Info f = Some (of_nat (length d)) \<and>
     sf_Read f (of_nat (length d)) = (EFI_SUCCESS, of_nat (length d), d))"

definition elf_for_slot :: "bytes \<Rightarrow> bool" where
  "elf_for_slot d = (32 \<le> length d \<and> length d < 0x3F0000 \<and> le32 d 0 = 0x464C457F \<and> d ! 4 = 2 \<and> d ! 5 = 1 \<and> le16 d 18 = 183)"

definition slot_address :: "nat \<Rightarrow> nat" where
  "slot_address Slot = (if Slot = 0 then 0x800000 else 0xC00000)"

lemma ReadFile_reads: "file_reads f d \<Longrightarrow> (\<And>n. al n) \<Longrightarrow> ReadFile f al = Some (EFI_SUCCESS, d)"
  by (simp add: file_reads_def ReadFile_def unat_of_nat)

lemma valid_elf_for_slot: "32 \<le> length d \<Longrightarrow>
  valid_elf d = Some (le32 d 0 = 0x464C457F \<and> d ! 4 = 2 \<and> d ! 5 = 1 \<and> le16 d 18 = 183)"
  by (auto simp: valid_elf_def)

context nor_store begin

lemma flash_elf_ends:
  assumes "holds s m" and "flash_slot Argv = Some (Slot, i)" and "file_reads (files (Argv ! i)) d" and "elf_for_slot d"
    and "\<And>n. al n"
  shows "ends live holds (flash_elf np files al Argv s) (stored (slot_address Slot) d m)"
proof -
  let ?A = "if Slot = 0 then FLASH_SLOT0_OFFSET else FLASH_SLOT1_OFFSET"
  have A: "unat ?A = slot_address Slot" by (simp add: slot_consts slot_address_def)
  have d: "32 \<le> length d" "length d < 0x3F0000" using assms(4) by (simp_all add: elf_for_slot_def)
  have "unat FLASH_MAX_IMAGE_SIZE = 0x3F0000" by (simp add: slot_consts)
  then have "flash_elf np files al Argv s = FlashWriteVerify np al ?A d (of_nat (length d)) s"
    using assms(2,4) ReadFile_reads [OF assms(3,5)] valid_elf_for_slot [OF d(1)] d
    by (simp add: flash_elf_def elf_for_slot_def)
  moreover have "slot_address Slot mod 4096 = 0" "slot_address Slot + (length d + 4095) div 4096 * 4096 \<le> 2 ^ 24"
    using d(2) by (auto simp: slot_address_def) 
  ultimately show ?thesis
    using FlashWriteVerify_ends [OF assms(1), of ?A d al] assms(5) unfolding A by simp
qed

end

subsection \<open>Offsets\<close>

text \<open>A digit, in the upper or the lower case, the value of digits, and a number in a string.\<close>

definition hex_char :: "bool \<times> nat \<Rightarrow> u16" where
  "hex_char = (\<lambda>(upper, k). of_nat (if k < 10 then 48 + k else if upper then 55 + k else 87 + k))"

definition digits_value :: "(bool \<times> nat) list \<Rightarrow> nat" where
  "digits_value ks = foldl (\<lambda>v k. 16 * v + snd k) 0 ks"

definition hex_number :: "u16 list \<Rightarrow> (bool \<times> nat) list \<Rightarrow> bool" where
  "hex_number Str ks \<longleftrightarrow> (\<forall>k \<in> set ks. snd k < 16) \<and>
     (\<exists>pre \<in> {[], [0x30, 0x78], [0x30, 0x58]}. Str = pre @ map hex_char ks @ [0])"

lemma hex_value_loop_digit:
  assumes "k < 16"
  shows "hex_value_loop Val (hex_char (u, k) # Str) = hex_value_loop (push_bit 4 Val OR of_nat k) Str"
proof -
  have "k \<in> set [0..<16]" using assms by simp
  also have "[0..<16 :: nat] = [0, 1, 2, 3, 4, 5, 6, 7, 8, 9, 10, 11, 12, 13, 14, 15]" by (simp add: upt_rec)
  finally show ?thesis
    by (simp only: set_simps insert_iff empty_iff) (elim disjE FalseE; cases u; simp add: hex_char_def)
qed

lemma push_or_digit:
  assumes "k < 16"
  shows "push_bit 4 (of_nat v :: u64) OR of_nat k = of_nat (16 * v + k)"
proof -
  define x y where "x = (of_nat k :: u64)" and "y = (of_nat v :: u64)"
  have "x = take_bit 4 x" using assms by (simp add: x_def take_bit_of_nat take_bit_nat_eq_self)
  then have small: "\<not> bit x n" if "4 \<le> n" for n
    using that by (metis bit_take_bit_iff not_le)
  have "push_bit 4 y AND x = 0"
    by (rule bit_word_eqI) (auto simp: bit_simps small)
  then have "push_bit 4 y OR x = push_bit 4 y + x" by (simp add: disjunctive_add_eq_or)
  then show ?thesis by (simp add: push_bit_eq_mult mult.commute x_def y_def)
qed

lemma hex_value_loop_digits:
  assumes "\<forall>k \<in> set ks. snd k < 16"
  shows "hex_value_loop (of_nat v) (map hex_char ks @ [0]) = Some (of_nat (foldl (\<lambda>v k. 16 * v + snd k) v ks))"
  using assms
proof (induction ks arbitrary: v)
  case (Cons uk ks)
  obtain u k where uk: "uk = (u, k)" and k: "k < 16" using Cons.prems by (cases uk) auto
  have "hex_value_loop (of_nat v) (map hex_char (uk # ks) @ [0]) = hex_value_loop (of_nat (16 * v + k)) (map hex_char ks @ [0])"
    using hex_value_loop_digit [OF k, of _ u] push_or_digit [OF k, of v] by (simp only: list.map append_Cons uk)
  also have "\<dots> = Some (of_nat (foldl (\<lambda>v k. 16 * v + snd k) (16 * v + snd uk) ks))"
    using Cons.prems uk by (intro trans [OF Cons.IH]) simp_all
  finally show ?case by (simp only: foldl_Cons)
qed simp

text \<open>No digit is an x, so that the prefix is told from the digits.\<close>

lemma hex_char_no_x:
  assumes "snd k < 16"
  shows "hex_char k \<noteq> 0x78" and "hex_char k \<noteq> 0x58"
proof -
  obtain u n where k: "k = (u, n)" "n < 16" using assms by (cases k) auto
  have "n \<in> set [0..<16]" using k(2) by simp
  also have "[0..<16 :: nat] = [0, 1, 2, 3, 4, 5, 6, 7, 8, 9, 10, 11, 12, 13, 14, 15]" by (simp add: upt_rec)
  finally have "hex_char k \<noteq> 0x78 \<and> hex_char k \<noteq> 0x58" unfolding k(1)
    by (simp only: set_simps insert_iff empty_iff) (elim disjE FalseE; cases u; simp add: hex_char_def)
  then show "hex_char k \<noteq> 0x78" "hex_char k \<noteq> 0x58" by simp_all
qed

lemma HexStrToUintn_digits:
  assumes "hex_number Str ks"
  shows "HexStrToUintn Str = Some (of_nat (digits_value ks))"
proof -
  have ks: "\<forall>k \<in> set ks. snd k < 16" using assms by (simp add: hex_number_def)
  have plain: "HexStrToUintn (map hex_char ks @ [0]) = hex_value_loop 0 (map hex_char ks @ [0])"
  proof (cases ks)
    case (Cons k1 ks1)
    then show ?thesis using ks hex_char_no_x by (cases ks1) (auto simp: HexStrToUintn_def simp del: hex_value_loop.simps)
  qed (simp add: HexStrToUintn_def)
  have "HexStrToUintn Str = hex_value_loop 0 (map hex_char ks @ [0])"
    using assms plain unfolding hex_number_def by (auto simp: HexStrToUintn_def simp del: hex_value_loop.simps)
  then show ?thesis using hex_value_loop_digits [OF ks, of 0] by (simp add: digits_value_def)
qed

context nor_store begin

lemma flash_raw_ends:
  assumes "holds s m" and "4 \<le> length Argv" and "hex_number (Argv ! 2) ks" and "digits_value ks mod 4096 = 0" and "digits_value ks + length d \<le> 2 ^ 24"
    and "file_reads (files (Argv ! 3)) d" and "\<And>n. al n"
  shows "ends live holds (flash_raw np files al Argv s) (stored (digits_value ks) d m)"
proof -
  let ?v = "digits_value ks"
  define A :: u32 where "A = of_nat ?v"
  have A: "unat A = ?v" using assms(5) by (simp add: A_def unat_of_nat)
  have "ucast (of_nat ?v :: u64) = A"
    using assms(5) by (simp add: A_def word_unat_eq_iff unsigned_ucast_eq unat_of_nat take_bit_nat_eq_self)
  then have off: "HexStrToUintn (Argv ! 2) = Some (of_nat ?v)" "ucast (of_nat ?v :: u64) = A"
    using HexStrToUintn_digits [OF assms(3)] by simp_all
  have "A + of_nat (length d) \<le> FLASH_SIZE"
    using A assms(5) by (simp add: nor_consts word_le_nat_alt unat_word_ariths unat_of_nat)
  moreover have "A AND (FLASH_SECTOR_SIZE - 1) = 0"
    using A assms(4) unat_and_4095 [of A] by (simp add: nor_consts flip: unat_eq_zero)
  ultimately have "flash_raw np files al Argv s = FlashWriteVerify np al A d (of_nat (length d)) s"
    using assms(2) off ReadFile_reads [OF assms(6,7)] by (simp add: flash_raw_def leD)
  moreover have "?v + (length d + 4095) div 4096 * 4096 \<le> 2 ^ 24"
  proof -
    have q: "?v = 4096 * (?v div 4096)" "?v + length d \<le> 16777216" using assms(4,5) by auto
    then have "length d + 4095 \<le> 4096 * (4096 - ?v div 4096) + 4095" by linarith
    then have "(length d + 4095) div 4096 \<le> (4096 * (4096 - ?v div 4096) + 4095) div 4096" by (rule div_le_mono)
    then show ?thesis using q assms(5) by simp
  qed
  ultimately show ?thesis using FlashWriteVerify_ends [OF assms(1), of A d al] A assms(4,7) by simp
qed

end

subsection \<open>The application on the driver\<close>

lemma runs_ends:
  assumes "runs live (ctl_holds nor_slave) res (f\<lparr>nor_mem := m\<rparr>)" and "nor_idle f"
  shows "ends live (\<lambda>s m. ctl_holds nor_slave s (f\<lparr>nor_mem := m\<rparr>) \<and> nor_idle f) res m"
  using runs_outcome [OF assms(1)] assms(2) by (auto simp: ends_def)

text \<open>The driver's flash is a store while the chip is idle.\<close>

interpretation flash_part: nor_store "spi_nor_flash (nor_dev (capped pace))"
  "\<lambda>s m. ctl_holds nor_slave s (f\<lparr>nor_mem := m\<rparr>) \<and> nor_idle f" "never_stalls pace"
proof
  have idle: "nor_idle (f\<lparr>nor_mem := m\<rparr>)" if "nor_idle f" for m
    using that by (simp add: nor_idle_def nor_unlocked_def)
  fix s m and A n :: u32 and buf :: bytes
  assume h: "ctl_holds nor_slave s (f\<lparr>nor_mem := m\<rparr>) \<and> nor_idle f"
  note i = nor_idleD [OF idle [OF conjunct2 [OF h], of m]]
  {
    assume a: "unat A mod 4096 = 0" "unat A + 4096 \<le> 2 ^ 24"
    then have "A + 1 * FLASH_SECTOR_SIZE \<le> FLASH_SIZE"
      using nor_ctl.in_range [of A FLASH_SECTOR_SIZE] by (simp add: nor_consts)
    moreover have "wiped (unat A) [0..<unat (1 :: u32)] m = filled (unat A) (unat A + 4096) (\<lambda>_. 0xFF) m"
      using wiped_range [OF a(1), of 1 m] a(2) by (simp add: filled_def)
    ultimately have "runs (never_stalls pace) (ctl_holds nor_slave) (SpiNorErase (nor_dev (capped pace)) A 1 s)
        (f\<lparr>nor_mem := filled (unat A) (unat A + 4096) (\<lambda>_. 0xFF) m\<rparr>)"
      using nor_ctl.erase_runs [OF conjunct1 [OF h] i a(1), of 1 pace] by simp
    then show "ends (never_stalls pace) (\<lambda>s m. ctl_holds nor_slave s (f\<lparr>nor_mem := m\<rparr>) \<and> nor_idle f)
        (np_Erase (spi_nor_flash (nor_dev (capped pace))) A 1 s) (filled (unat A) (unat A + 4096) (\<lambda>_. 0xFF) m)"
      using runs_ends h by (simp add: spi_nor_flash_def)
  next
    assume a: "unat A + unat n \<le> 2 ^ 24" "unat n \<le> length buf"
    have "programmed (unat A) (take (unat n) buf) m =
        filled (unat A) (unat A + unat n) (\<lambda>i. m i AND buf ! (i - unat A)) m"
      using a(2) by (auto simp: programmed_def filled_def fun_eq_iff)
    then show "ends (never_stalls pace) (\<lambda>s m. ctl_holds nor_slave s (f\<lparr>nor_mem := m\<rparr>) \<and> nor_idle f)
        (np_WriteData (spi_nor_flash (nor_dev (capped pace))) A n buf s)
        (filled (unat A) (unat A + unat n) (\<lambda>i. m i AND buf ! (i - unat A)) m)"
      using nor_ctl.write_data_runs [OF conjunct1 [OF h] i a, of pace] runs_ends h
      by (simp add: spi_nor_flash_def)
  next
    assume a: "unat A + unat n \<le> 2 ^ 24"
    then have "map (\<lambda>j. m ((unat A + j) mod 2 ^ 24)) [0..<unat n] = map (\<lambda>j. m (unat A + j)) [0..<unat n]" by simp
    then show "yields (never_stalls pace) (\<lambda>s m. ctl_holds nor_slave s (f\<lparr>nor_mem := m\<rparr>) \<and> nor_idle f)
        (np_ReadData (spi_nor_flash (nor_dev (capped pace))) A n s) m (map (\<lambda>i. m (unat A + i)) [0..<unat n])"
      using nor_ctl.read_data_gives [OF conjunct1 [OF h] i(1) nor_ctl.in_range [OF a], of pace] h
      by (auto simp: gives_def yields_def spi_nor_flash_def split: if_splits)
  }
qed

lemma flash_kept: "keeps_up pace \<Longrightarrow> nor_store (spi_nor_flash (nor_dev pace))
    (\<lambda>s m. ctl_holds nor_slave s (f\<lparr>nor_mem := m\<rparr>) \<and> nor_idle f) (never_stalls pace)"
  using flash_part.nor_store_axioms [of pace f] by (simp add: capped_id)

end
