(* ===== verification/FlashBoot.thy ===== *)
theory FlashBoot
  imports FlashApp SpiBoot
begin

text \<open>
  The flash application and the boot loader together: what the application writes to the flash, and
  that the loader starts an image the application wrote to the first slot.
\<close>

unbundle bit_operations_syntax

subsection \<open>Images in a file\<close>

definition file_ehdr :: "bytes \<Rightarrow> ELF64_EHDR" where
  "file_ehdr d = ehdr_at (take 64 d)"

definition file_phdrs :: "bytes \<Rightarrow> ELF64_PHDR list" where
  "file_phdrs d = (let H = file_ehdr d in
     map (phdr_at (take (56 * unat (e_phnum H)) (drop (unat (e_phoff H)) d))) [0..<unat (e_phnum H)])"

text \<open>The loader takes the image, and the headers and the segments are in the file.\<close>

definition bootable :: "bytes \<Rightarrow> u64 \<Rightarrow> bool" where
  "bootable d stk = (64 \<le> length d \<and> ValidateElfHeader (file_ehdr d) \<and>
     unat (e_phoff (file_ehdr d)) + 56 * unat (e_phnum (file_ehdr d)) \<le> length d \<and>
     ValidateProgramHeaders (file_ehdr d) (file_phdrs d) SPILOADER_LOAD_ADDR (stk - SPILOADER_LOAD_ADDR) \<noteq> None \<and>
     (\<forall>ph \<in> set (file_phdrs d). p_type ph = 1 \<longrightarrow> unat (p_offset ph) + unat (p_filesz ph) \<le> length d) \<and>
     segs_disjoint (file_phdrs d))"

lemma stored_part:
  assumes "k + n \<le> length d"
  shows "map (\<lambda>i. stored A d m (A + k + i)) [0..<n] = take n (drop k d)"
  using assms by (intro nth_equalityI) (simp_all add: stored_def)

lemma stored_headers:
  assumes "64 \<le> length d" and "unat (e_phoff (file_ehdr d)) + 56 * unat (e_phnum (file_ehdr d)) \<le> length d"
  shows "flash_ehdr (stored 0x800000 d m) = file_ehdr d" and "flash_phdrs (stored 0x800000 d m) = file_phdrs d"
proof -
  show e: "flash_ehdr (stored 0x800000 d m) = file_ehdr d"
    using stored_part [of 0 64 d "0x800000" m] assms(1) by (simp add: flash_ehdr_def file_ehdr_def)
  show "flash_phdrs (stored 0x800000 d m) = file_phdrs d"
    unfolding flash_phdrs_def file_phdrs_def e Let_def using stored_part [OF assms(2), of "0x800000" m] by simp
qed

lemma stored_accepted:
  assumes "bootable d stk"
  shows "image_accepted (stored 0x800000 d m) stk" and "segs_disjoint (flash_phdrs (stored 0x800000 d m))"
  using assms stored_headers [of d m] by (simp_all add: bootable_def image_accepted_def)

lemma bootable_elf:
  assumes "bootable d stk" and "length d < 0x3F0000"
  shows "elf_for_slot d"
proof -
  have l: "64 \<le> length d" and v: "ValidateElfHeader (file_ehdr d)" using assms(1) by (simp_all add: bootable_def)
  have "d ! 0 = 0x7f" "d ! 1 = 69" "d ! 2 = 76" "d ! 3 = 70" "d ! 4 = 2" "d ! 5 = 1" "le16 (take 64 d) 18 = 183"
    using v l by (simp_all add: ValidateElfHeader_def file_ehdr_def ehdr_at_def split: if_splits)
  moreover have "le16 (take 64 d) 18 = le16 d 18" by (simp add: le16_def)
  moreover have "le32 d 0 = 0x464C457F"
    using calculation(1-4) by (simp add: le32_def numeral_2_eq_2 [symmetric])
  ultimately show ?thesis using l assms(2) by (simp add: elf_for_slot_def)
qed

subsection \<open>The application\<close>


text \<open>A shell with one file.\<close>

definition one_file :: "bytes \<Rightarrow> shell_file" where
  "one_file d = \<lparr>sf_Open = EFI_SUCCESS, sf_Info = Some (of_nat (length d)), sf_Read = (\<lambda>n. (EFI_SUCCESS, n, d))\<rparr>"

lemma one_file_reads: "length d < 2 ^ 64 \<Longrightarrow> file_reads (one_file d) d"
  by (simp add: one_file_def file_reads_def)

definition slot1_args :: "u16 list list" where
  "slot1_args = [wide ''FlashApp'', wide ''-slot'', wide ''1'', wide ''uefi.elf'']"

lemma slot1_args_parse:
  "2 \<le> length slot1_args" "\<not> wide_eq (slot1_args ! 1) (wide ''-raw'')" "flash_slot slot1_args = Some (1, 3)"
  by (simp_all add: slot1_args_def flash_slot_def wide_eq_def wide_def of_char_def)

lemma demo_image_elf: "elf_for_slot demo_image"
  by (simp add: elf_for_slot_def demo_image_length) (simp add: demo_image_def le16_def le32_def)


text \<open>C21: An image that the boot loader takes, written by the flash application to the first slot, is what the loader of any later boot loads and starts: the memory at each segment has the bytes of the file, and zeros beyond them.\<close>

lemma flash_then_boot:
  assumes "ctl_holds nor_slave c f" and "nor_idle f" and "length (nor_id f) = 3" and "never_stalls pace"
    and "2 \<le> length Argv" "\<not> wide_eq (Argv ! 1) (wide ''-raw'')" "flash_slot Argv = Some (0, i)"
    and "file_reads (files (Argv ! i)) d" "length d < 0x3F0000" "bootable d stk" and "\<And>n. al n"
    and "keeps_up pace"
  shows "\<exists>c' g. FlashAppEntry EFI_SUCCESS Argv EFI_SUCCESS (spi_nor_flash (nor_dev pace)) files al c = Some (c', EFI_SUCCESS) \<and>
    ctl_holds nor_slave c' g \<and>
    (\<forall>mc pace' ctr. ctl_holds nor_slave (mc_spi mc) g \<and> \<not> ua_dlab (mc_uart mc) \<and> never_stalls pace' \<and> keeps_up pace' \<longrightarrow>
      (\<exists>mc'. SpiloaderMain (ctl_bus nor_slave pace') ua_bus ctr stk mc = Some (mc', JUMPED (e_entry (file_ehdr d))) \<and>
        (\<forall>ph \<in> set (file_phdrs d). p_type ph = 1 \<longrightarrow> (\<forall>k < unat (p_memsz ph).
          mc_mem mc' (seg_target ph + of_nat k) = (if k < unat (p_filesz ph) then d ! (unat (p_offset ph) + k) else 0))) \<and>
        (\<forall>a. (\<forall>ph \<in> set (file_phdrs d). p_type ph = 1 \<longrightarrow> \<not> in_seg ph a) \<longrightarrow> mc_mem mc' a = mc_mem mc a)))"
proof -
  let ?m = "stored 0x800000 d (nor_mem f)"
  let ?g = "f\<lparr>nor_mem := ?m\<rparr>"
  have "ctl_holds nor_slave c (f\<lparr>nor_mem := nor_mem f\<rparr>) \<and> nor_idle f" using assms(1,2) by simp
  from nor_store.flash_elf_ends [where s = c and m = "nor_mem f" and files = files and Argv = Argv and al = al, OF flash_kept [of pace f, OF assms(12)] this assms(7,8) bootable_elf [OF assms(10,9)] assms(11)]
  obtain c' where c': "flash_elf (spi_nor_flash (nor_dev pace)) files al Argv c = Some (c', EFI_SUCCESS)" "ctl_holds nor_slave c' ?g"
    using assms(4) by (auto simp: ends_def slot_address_def split: if_splits)
  have app: "FlashAppEntry EFI_SUCCESS Argv EFI_SUCCESS (spi_nor_flash (nor_dev pace)) files al c = Some (c', EFI_SUCCESS)"
    using c'(1) assms(5,6) by (simp add: FlashAppEntry_def)
  have b: "64 \<le> length d" "unat (e_phoff (file_ehdr d)) + 56 * unat (e_phnum (file_ehdr d)) \<le> length d"
      "\<And>ph. ph \<in> set (file_phdrs d) \<Longrightarrow> p_type ph = 1 \<Longrightarrow> unat (p_offset ph) + unat (p_filesz ph) \<le> length d"
    using assms(10) by (simp_all add: bootable_def)
  note h = stored_headers [OF b(1,2), of "nor_mem f"]
  have boot: "\<exists>mc'. SpiloaderMain (ctl_bus nor_slave pace') ua_bus ctr stk mc = Some (mc', JUMPED (e_entry (file_ehdr d))) \<and>
      (\<forall>ph \<in> set (file_phdrs d). p_type ph = 1 \<longrightarrow> (\<forall>k < unat (p_memsz ph).
        mc_mem mc' (seg_target ph + of_nat k) = (if k < unat (p_filesz ph) then d ! (unat (p_offset ph) + k) else 0))) \<and>
      (\<forall>a. (\<forall>ph \<in> set (file_phdrs d). p_type ph = 1 \<longrightarrow> \<not> in_seg ph a) \<longrightarrow> mc_mem mc' a = mc_mem mc a)"
    if mc: "ctl_holds nor_slave (mc_spi mc) ?g" "\<not> ua_dlab (mc_uart mc)" "never_stalls pace'" "keeps_up pace'" for mc pace' ctr
  proof -
    have g: "nor_busy ?g = 0" "length (nor_id ?g) = 3" "image_accepted (nor_mem ?g) stk" "segs_disjoint (flash_phdrs (nor_mem ?g))"
      using nor_idleD(1) [OF assms(2)] assms(3) stored_accepted [OF assms(10), of "nor_mem f"] by simp_all
    obtain mc' where r: "SpiloaderMain (ctl_bus nor_slave pace') ua_bus ctr stk mc = Some (mc', JUMPED (e_entry (flash_ehdr ?m)))"
        "mc_mem mc' = load_all_mem ?m (flash_phdrs ?m) (mc_mem mc)"
      using SpiloaderMain_run [OF mc(1) g(1,2) mc(2,3) g(3) mc(4), of ctr] by auto
    have "mc_mem mc' (seg_target ph + of_nat k) = (if k < unat (p_filesz ph) then d ! (unat (p_offset ph) + k) else 0)"
      if "ph \<in> set (file_phdrs d)" "p_type ph = 1" "k < unat (p_memsz ph)" for ph k
    proof -
      have "ph \<in> set (flash_phdrs ?m)" using that(1) h(2) by simp
      from load_all_mem_inside [OF _ this that(2) in_seg_offset(1) [OF that(3)]] g(4)
      have "mc_mem mc' (seg_target ph + of_nat k) = seg_byte ?m ph (seg_target ph + of_nat k)" by (simp add: r(2))
      then show ?thesis using in_seg_offset(2) [OF that(3)] b(3) [OF that(1,2)]
        by (simp add: seg_byte_def stored_def Let_def)
    qed
    moreover have "mc_mem mc' a = mc_mem mc a" if "\<forall>ph \<in> set (file_phdrs d). p_type ph = 1 \<longrightarrow> \<not> in_seg ph a" for a
      using load_all_mem_outside [of "flash_phdrs ?m" a] that h(2) by (simp add: r(2))
    ultimately show ?thesis using r(1) h(1) by (intro exI [of _ mc']) simp
  qed
  show ?thesis
    by (intro exI [of _ c'] exI [of _ ?g] conjI allI impI app c'(2)) (elim conjE, rule boot)
qed

lemma demo_file: "file_ehdr demo_image = flash_ehdr demo_flash" "file_phdrs demo_image = [demo_phdr]"
proof -
  show e: "file_ehdr demo_image = flash_ehdr demo_flash"
    using demo_take [of 64 0] by (simp add: file_ehdr_def flash_ehdr_def)
  have "map (\<lambda>i. demo_flash (0x800000 + 64 + i)) [0..<56] = take 56 (drop 64 demo_image)"
    using demo_take [of 56 64] by simp
  then have "file_phdrs demo_image = flash_phdrs demo_flash"
    unfolding file_phdrs_def flash_phdrs_def e Let_def by (simp add: demo_ehdr)
  then show "file_phdrs demo_image = [demo_phdr]" by (simp add: demo_phdrs)
qed

lemma demo_bootable: "bootable demo_image 0x04010000"
  using demo_accepted
  by (simp add: bootable_def demo_file demo_image_length image_accepted_def demo_phdrs segs_disjoint_def)
    (simp add: demo_ehdr demo_phdr_def)

lemma flash_then_boot_witness:
  "\<exists>c' mc'. FlashAppEntry EFI_SUCCESS [wide ''FlashApp'', wide ''uefi.elf''] EFI_SUCCESS (spi_nor_flash (nor_dev (\<lambda>_. 2)))
      (\<lambda>_. one_file demo_image) (\<lambda>_. True) (demo_ctl 0) = Some (c', EFI_SUCCESS) \<and>
    SpiloaderMain (ctl_bus nor_slave (\<lambda>_. 4)) ua_bus 0x40000 0x04010000 (demo_machine\<lparr>mc_spi := c'\<rparr>) = Some (mc', JUMPED 0x10000100) \<and>
    mc_mem mc' 0x10000001 = 0xBB"
proof -
  let ?args = "[wide ''FlashApp'', wide ''uefi.elf'']"
  have a: "2 \<le> length ?args" "\<not> wide_eq (?args ! 1) (wide ''-raw'')" "flash_slot ?args = Some (0, 1)"
    by (simp_all add: flash_slot_def wide_eq_def wide_def of_char_def)
  have i: "length (nor_id (demo_chip 0)) = 3" "never_stalls (\<lambda>_. 2)" by (simp_all add: demo_chip_def never_stalls_def)
  have k: "keeps_up (\<lambda>_. 2)" by (simp add: keeps_up_def)
  have d: "file_reads (one_file demo_image) demo_image" "length demo_image < 0x3F0000"
    by (simp_all add: one_file_reads demo_image_length)
  from flash_then_boot [where files = "\<lambda>_. one_file demo_image" and al = "\<lambda>_. True",
      OF demo_holds [of 0] demo_idle i a d demo_bootable TrueI k]
  obtain c' g where r: "FlashAppEntry EFI_SUCCESS ?args EFI_SUCCESS (spi_nor_flash (nor_dev (\<lambda>_. 2)))
      (\<lambda>_. one_file demo_image) (\<lambda>_. True) (demo_ctl 0) = Some (c', EFI_SUCCESS)" "ctl_holds nor_slave c' g"
    and b: "\<forall>mc pace' ctr. ctl_holds nor_slave (mc_spi mc) g \<and> \<not> ua_dlab (mc_uart mc) \<and> never_stalls pace' \<and> keeps_up pace' \<longrightarrow>
      (\<exists>mc'. SpiloaderMain (ctl_bus nor_slave pace') ua_bus ctr 0x04010000 mc =
          Some (mc', JUMPED (e_entry (file_ehdr demo_image))) \<and>
        (\<forall>ph \<in> set (file_phdrs demo_image). p_type ph = 1 \<longrightarrow> (\<forall>k < unat (p_memsz ph).
          mc_mem mc' (seg_target ph + of_nat k) = (if k < unat (p_filesz ph) then demo_image ! (unat (p_offset ph) + k) else 0))) \<and>
        (\<forall>a. (\<forall>ph \<in> set (file_phdrs demo_image). p_type ph = 1 \<longrightarrow> \<not> in_seg ph a) \<longrightarrow> mc_mem mc' a = mc_mem mc a))"
    by (elim exE conjE) (rule that)
  let ?mc = "demo_machine\<lparr>mc_spi := c'\<rparr>"
  have "ctl_holds nor_slave (mc_spi ?mc) g \<and> \<not> ua_dlab (mc_uart ?mc) \<and> never_stalls (\<lambda>_. 4) \<and> keeps_up (\<lambda>_. 4)"
    using r(2) by (simp_all add: demo_machine_def never_stalls_def keeps_up_def)
  from b [THEN spec, THEN spec, THEN spec, THEN mp, OF this, of "0x40000"] obtain mc' where
    m: "SpiloaderMain (ctl_bus nor_slave (\<lambda>_. 4)) ua_bus 0x40000 0x04010000 ?mc = Some (mc', JUMPED 0x10000100)"
      "\<forall>k < unat (p_memsz demo_phdr). mc_mem mc' (seg_target demo_phdr + of_nat k) =
        (if k < unat (p_filesz demo_phdr) then demo_image ! (unat (p_offset demo_phdr) + k) else 0)"
    by (auto simp: demo_file demo_ehdr demo_phdr_def)
  have "mc_mem mc' (0x10000000 + of_nat 1) = demo_image ! 121"
    using m(2) [rule_format, of 1] by (simp add: demo_phdr_def seg_target_def)
  then have "mc_mem mc' 0x10000001 = 0xBB" by (simp add: demo_image_def)
  then show ?thesis using r(1) m(1) by blast
qed



text \<open>Whatever the arguments, the file and the flash do, the application reaches the flash only through one erase-program-verify run, and only for a valid AArch64 image at one of the two slots or for an aligned offset in raw mode.\<close>

lemma flash_app_guarded:
  assumes "FlashAppEntry params Argv located np files al s = Some (s', st)" and "s' \<noteq> s"
  shows "\<exists>A d. FlashWriteVerify np al A d (of_nat (length d)) s = Some (s', st) \<and> \<not> EFI_ERROR located \<and>
    (if wide_eq (Argv ! 1) (wide ''-raw'') then unat A mod 4096 = 0 \<and> A + of_nat (length d) \<le> FLASH_SIZE
     else (A = 0x800000 \<or> A = 0xC00000) \<and> elf_for_slot d)"
proof (cases "wide_eq (Argv ! 1) (wide ''-raw'')")
  case True
  then have "flash_raw np files al Argv s = Some (s', st)" and l: "\<not> EFI_ERROR located"
    using assms by (auto simp: FlashAppEntry_def split: if_splits)
  then obtain A d where "FlashWriteVerify np al A d (of_nat (length d)) s = Some (s', st)"
      "A + of_nat (length d) \<le> FLASH_SIZE" "A AND (FLASH_SECTOR_SIZE - 1) = 0"
    using assms(2) by (auto simp: flash_raw_def bind_eq_Some_conv Let_def not_less split: if_splits)
  moreover from this have "unat A mod 4096 = 0"
    using unat_and_4095 [of A] by (simp add: nor_consts)
  ultimately show ?thesis using True l by (intro exI [of _ A] exI [of _ d]) simp
next
  case False
  then have "flash_elf np files al Argv s = Some (s', st)" and l: "\<not> EFI_ERROR located"
    using assms by (auto simp: FlashAppEntry_def split: if_splits)
  then obtain A d where d: "FlashWriteVerify np al A d (of_nat (length d)) s = Some (s', st)" "32 \<le> length d"
      "valid_elf d = Some True" "length d < unat FLASH_MAX_IMAGE_SIZE" "A = FLASH_SLOT0_OFFSET \<or> A = FLASH_SLOT1_OFFSET"
    using assms(2) by (auto simp: flash_elf_def bind_eq_Some_conv Let_def not_less not_le split: if_splits option.splits)
  have "elf_for_slot d" using d(2-4) valid_elf_for_slot [OF d(2)] by (simp add: elf_for_slot_def slot_consts)
  then show ?thesis using d(1,5) False l
    by (intro exI [of _ A] exI [of _ d]) (simp add: slot_consts)
qed

text \<open>A flash whose erase fails, and counts its calls.\<close>

definition broken_flash :: "nat nor_protocol" where
  "broken_flash = \<lparr>np_ReadData = (\<lambda>A n s. Some (s, EFI_SUCCESS, [])), np_WriteData = (\<lambda>A n b s. Some (Suc s, EFI_SUCCESS)),
     np_Erase = (\<lambda>A n s. Some (Suc s, EFI_DEVICE_ERROR))\<rparr>"

lemma flash_app_guarded_witness:
  "\<exists>A d. FlashWriteVerify broken_flash (\<lambda>_. True) A d (of_nat (length d)) 0 = Some (1, EFI_DEVICE_ERROR) \<and>
    (A = 0x800000 \<or> A = 0xC00000) \<and> elf_for_slot d"
proof -
  have f: "ReadFile (one_file demo_image) (\<lambda>_. True) = Some (EFI_SUCCESS, demo_image)"
    by (rule ReadFile_reads [OF one_file_reads]) (simp_all add: demo_image_length)
  have v: "valid_elf demo_image = Some True"
    using demo_image_elf valid_elf_for_slot [of demo_image] by (simp add: elf_for_slot_def)
  have e: "flash_erase broken_flash A 1 0 0 = Some (1, EFI_DEVICE_ERROR)" for A
    by (subst flash_erase.simps) (simp add: broken_flash_def)
  have "FlashAppEntry EFI_SUCCESS slot1_args EFI_SUCCESS broken_flash (\<lambda>_. one_file demo_image) (\<lambda>_. True) 0 = Some (1, EFI_DEVICE_ERROR)"
    using slot1_args_parse f v e
    by (simp add: FlashAppEntry_def flash_elf_def demo_image_length slot_consts FlashWriteVerify_def nor_consts Let_def)
  from flash_app_guarded [OF this] slot1_args_parse(2) show ?thesis by auto
qed

end
