(* ===== verification/I2cMaster.thy ===== *)
theory I2cMaster
  imports Prelude
begin

text \<open>
  An I2C bus as its users see it: the devices on it, \<open>EFI_I2C_MASTER_PROTOCOL\<close>, what a request means
  to the devices, and the contract of a bus master, the locale \<open>i2c_bus\<close>. A request is a list of
  reads and writes; each one that is not empty begins with a start condition and the address, and the
  last one ends with a stop condition.
\<close>

unbundle bit_operations_syntax

subsection \<open>Devices\<close>

text \<open>
  What the devices do at a start condition with an address and a direction (\<^const>\<open>True\<close> is a
  read), for a byte written, a byte read, and a stop condition. The boolean result is the acknowledge.
\<close>

record 'f i2c_devs =
  ib_start :: "u8 \<Rightarrow> bool \<Rightarrow> 'f \<Rightarrow> 'f \<times> bool"
  ib_write :: "u8 \<Rightarrow> 'f \<Rightarrow> 'f \<times> bool"
  ib_read :: "'f \<Rightarrow> 'f \<times> u8"
  ib_stop :: "'f \<Rightarrow> 'f"

text \<open>Whatever a master does that addresses only \<open>a\<close>.\<close>

inductive bus_steps :: "'f i2c_devs \<Rightarrow> u8 \<Rightarrow> 'f \<Rightarrow> 'f \<Rightarrow> bool" for devs a f where
  steps_refl: "bus_steps devs a f f"
| steps_start: "bus_steps devs a f g \<Longrightarrow> bus_steps devs a f (fst (ib_start devs a rd g))"
| steps_write: "bus_steps devs a f g \<Longrightarrow> bus_steps devs a f (fst (ib_write devs b g))"
| steps_read: "bus_steps devs a f g \<Longrightarrow> bus_steps devs a f (fst (ib_read devs g))"
| steps_stop: "bus_steps devs a f g \<Longrightarrow> bus_steps devs a f (ib_stop devs g)"

text \<open>Either nothing, or something that ends with a stop condition.\<close>

definition bus_visit :: "'f i2c_devs \<Rightarrow> u8 \<Rightarrow> 'f \<Rightarrow> 'f \<Rightarrow> bool" where
  "bus_visit devs a f g = (g = f \<or> (\<exists>h. bus_steps devs a f h \<and> g = ib_stop devs h))"

lemma bus_visit_refl [simp]: "bus_visit devs a f f"
  by (simp add: bus_visit_def)

lemma bus_steps_invariant:
  assumes "bus_steps devs a f g" and "P f"
    and "\<And>rd g. P g \<Longrightarrow> P (fst (ib_start devs a rd g))" and "\<And>b g. P g \<Longrightarrow> P (fst (ib_write devs b g))"
    and "\<And>g. P g \<Longrightarrow> P (fst (ib_read devs g))" and "\<And>g. P g \<Longrightarrow> P (ib_stop devs g)"
  shows "P g"
  using assms(1) by (induction rule: bus_steps.induct) (use assms(2-) in auto)

subsection \<open>Requests\<close>

definition I2C_FLAG_READ :: u32 where "I2C_FLAG_READ = 1"

record i2c_op =
  Flags :: u32
  LengthInBytes :: u32
  Buffer :: bytes

definition op_reads :: "i2c_op \<Rightarrow> bool" where
  "op_reads op = (Flags op AND I2C_FLAG_READ \<noteq> 0)"

definition op_len :: "i2c_op \<Rightarrow> nat" where
  "op_len op = unat (LengthInBytes op)"

text \<open>The meaning of a request: \<^const>\<open>None\<close> if something is not acknowledged.\<close>

fun dev_writes :: "'f i2c_devs \<Rightarrow> bytes \<Rightarrow> 'f \<Rightarrow> 'f option" where
  "dev_writes devs [] f = Some f"
| "dev_writes devs (b # bs) f = (case ib_write devs b f of (g, ack) \<Rightarrow> if ack then dev_writes devs bs g else None)"

fun dev_reads :: "'f i2c_devs \<Rightarrow> nat \<Rightarrow> 'f \<Rightarrow> 'f \<times> bytes" where
  "dev_reads devs 0 f = (f, [])"
| "dev_reads devs (Suc n) f = (case ib_read devs f of (g, b) \<Rightarrow> case dev_reads devs n g of (h, bs) \<Rightarrow> (h, b # bs))"

lemma length_dev_reads [simp]: "length (snd (dev_reads devs n f)) = n"
  by (induction n arbitrary: f) (simp_all add: case_prod_beta)

definition op_run :: "'f i2c_devs \<Rightarrow> u8 \<Rightarrow> i2c_op \<Rightarrow> 'f \<Rightarrow> ('f \<times> i2c_op) option" where
  "op_run devs a op f =
     (if op_len op = 0 then Some (f, op)
      else case ib_start devs a (op_reads op) f of (f1, ack) \<Rightarrow>
        if \<not> ack then None
        else if op_reads op then (case dev_reads devs (op_len op) f1 of (f2, bs) \<Rightarrow>
          Some (f2, op\<lparr>Buffer := bs @ drop (op_len op) (Buffer op)\<rparr>))
        else map_option (\<lambda>f2. (f2, op)) (dev_writes devs (take (op_len op) (Buffer op)) f1))"

fun ops_run :: "'f i2c_devs \<Rightarrow> u8 \<Rightarrow> i2c_op list \<Rightarrow> 'f \<Rightarrow> ('f \<times> i2c_op list) option" where
  "ops_run devs a [] f = Some (f, [])"
| "ops_run devs a (op # ops) f = do {
     (f1, op1) \<leftarrow> op_run devs a op f;
     (f2, ops1) \<leftarrow> ops_run devs a ops f1;
     Some (f2, op1 # ops1)
   }"

definition transaction :: "'f i2c_devs \<Rightarrow> u8 \<Rightarrow> i2c_op list \<Rightarrow> 'f \<Rightarrow> ('f \<times> i2c_op list) option" where
  "transaction devs a ops f = map_option (\<lambda>(g, ops1). (ib_stop devs g, ops1)) (ops_run devs a ops f)"

text \<open>
  A request a master can serve: buffers of the stated lengths, and a last operation that is not
  empty, whose last byte can carry the stop condition.
\<close>

definition request_ok :: "i2c_op list \<Rightarrow> bool" where
  "request_ok ops = (ops \<noteq> [] \<and> op_len (last ops) \<noteq> 0 \<and> (\<forall>op \<in> set ops. op_len op \<le> length (Buffer op)))"

subsection \<open>Bus masters\<close>

record 's i2c_master =
  SetBusFrequency :: "u64 \<Rightarrow> 's \<Rightarrow> ('s \<times> efi_status \<times> u64) option"
  Reset :: "'s \<Rightarrow> ('s \<times> efi_status) option"
  StartRequest :: "u64 \<Rightarrow> i2c_op list \<Rightarrow> 's \<Rightarrow> ('s \<times> efi_status \<times> i2c_op list) option"

text \<open>The address on the bus: 7 bits.\<close>

definition bus_addr :: "u64 \<Rightarrow> u8" where
  "bus_addr a = ucast (a AND 0x7F)"

text \<open>
  The contract, of a master \<open>m\<close> of the devices \<open>devs\<close> in the state \<open>f\<close>, for the addresses
  \<open>allowed\<close>: a request returns; success means that the devices took part in the transaction and the
  buffers hold their answers; after a failure they have seen a part of it, or something else at the
  same address, and in both cases a stop condition at the end. A \<open>reliable\<close> master fails only when an
  acknowledge is missing. Another clock and a reset leave the devices alone.
\<close>

definition request_done ::
    "'f i2c_devs \<Rightarrow> bool \<Rightarrow> ('s \<Rightarrow> 'f \<Rightarrow> bool) \<Rightarrow> u8 \<Rightarrow> i2c_op list \<Rightarrow> 'f \<Rightarrow> ('s \<times> efi_status \<times> i2c_op list) option \<Rightarrow> 'f \<Rightarrow> bool" where
  "request_done devs reliable holds a ops f res g = (\<exists>s' st ops'. res = Some (s', st, ops') \<and> holds s' g \<and> bus_visit devs a f g \<and>
     (if st = EFI_SUCCESS then transaction devs a ops f = Some (g, ops')
      else EFI_ERROR st \<and> (reliable \<longrightarrow> transaction devs a ops f = None)))"

locale i2c_bus =
  fixes m :: "'s i2c_master" and devs :: "'f i2c_devs" and allowed :: "u8 \<Rightarrow> bool"
    and holds :: "'s \<Rightarrow> 'f \<Rightarrow> bool" and reliable :: bool
  assumes request: "holds s f \<Longrightarrow> allowed (bus_addr a) \<Longrightarrow> request_ok ops \<Longrightarrow>
    \<exists>g. request_done devs reliable holds (bus_addr a) ops f (StartRequest m a ops s) g"
    and frequency: "holds s f \<Longrightarrow> \<exists>s' hz'. SetBusFrequency m hz s = Some (s', EFI_SUCCESS, hz') \<and> holds s' f"
    and reset: "holds s f \<Longrightarrow> \<exists>s'. Reset m s = Some (s', EFI_SUCCESS) \<and> holds s' f"

context i2c_bus begin

lemma request_total:
  assumes "holds s f" and "allowed (bus_addr a)" and "request_ok ops"
  obtains s' st ops' g where "StartRequest m a ops s = Some (s', st, ops')" and "holds s' g" and "bus_visit devs (bus_addr a) f g"
    and "st = EFI_SUCCESS \<longrightarrow> transaction devs (bus_addr a) ops f = Some (g, ops')"
    and "st \<noteq> EFI_SUCCESS \<longrightarrow> EFI_ERROR st \<and> (reliable \<longrightarrow> transaction devs (bus_addr a) ops f = None)"
proof -
  obtain g s' st ops' where r: "StartRequest m a ops s = Some (s', st, ops')" "holds s' g" "bus_visit devs (bus_addr a) f g"
      "if st = EFI_SUCCESS then transaction devs (bus_addr a) ops f = Some (g, ops')
       else EFI_ERROR st \<and> (reliable \<longrightarrow> transaction devs (bus_addr a) ops f = None)"
    using request [OF assms] by (auto simp: request_done_def)
  then show thesis using that [OF r(1-3)] by simp
qed

lemma request_reliable:
  assumes "holds s f" and "allowed (bus_addr a)" and "request_ok ops" and reliable
    and "transaction devs (bus_addr a) ops f = Some (g, ops')"
  shows "\<exists>s'. StartRequest m a ops s = Some (s', EFI_SUCCESS, ops') \<and> holds s' g"
proof -
  obtain s1 st ops1 g1 where r: "StartRequest m a ops s = Some (s1, st, ops1)" "holds s1 g1"
      "st = EFI_SUCCESS \<longrightarrow> transaction devs (bus_addr a) ops f = Some (g1, ops1)"
      "st \<noteq> EFI_SUCCESS \<longrightarrow> EFI_ERROR st \<and> (reliable \<longrightarrow> transaction devs (bus_addr a) ops f = None)"
    by (rule request_total [OF assms(1-3)])
  have "st = EFI_SUCCESS" using r(4) assms(4,5) by (cases "st = EFI_SUCCESS") auto
  then show ?thesis using r assms(5) by auto
qed

end

subsection \<open>A part of the devices\<close>

text \<open>
  The devices \<open>dv\<close> are a part of the devices \<open>dv'\<close>, embedded by \<open>e\<close>: at the address \<open>a\<close> the others
  neither answer nor change.
\<close>

definition embeds :: "('p \<Rightarrow> 'f) \<Rightarrow> 'f i2c_devs \<Rightarrow> 'p i2c_devs \<Rightarrow> u8 \<Rightarrow> bool" where
  "embeds e dv' dv a =
     ((\<forall>rd p. ib_start dv' a rd (e p) = (e (fst (ib_start dv a rd p)), snd (ib_start dv a rd p))) \<and>
      (\<forall>b p. ib_write dv' b (e p) = (e (fst (ib_write dv b p)), snd (ib_write dv b p))) \<and>
      (\<forall>p. ib_read dv' (e p) = (e (fst (ib_read dv p)), snd (ib_read dv p))) \<and>
      (\<forall>p. ib_stop dv' (e p) = e (ib_stop dv p)))"

lemma embedsD:
  assumes "embeds e dv' dv a"
  shows "ib_start dv' a rd (e p) = (e (fst (ib_start dv a rd p)), snd (ib_start dv a rd p))"
    and "ib_write dv' b (e p) = (e (fst (ib_write dv b p)), snd (ib_write dv b p))"
    and "ib_read dv' (e p) = (e (fst (ib_read dv p)), snd (ib_read dv p))"
    and "ib_stop dv' (e p) = e (ib_stop dv p)"
  using assms by (simp_all add: embeds_def)

lemma embeds_writes:
  "embeds e dv' dv a \<Longrightarrow> dev_writes dv' bs (e p) = map_option e (dev_writes dv bs p)"
  by (induction bs arbitrary: p) (simp_all add: embedsD case_prod_beta)

lemma embeds_reads:
  "embeds e dv' dv a \<Longrightarrow> dev_reads dv' n (e p) = (e (fst (dev_reads dv n p)), snd (dev_reads dv n p))"
  by (induction n arbitrary: p) (simp_all add: embedsD case_prod_beta)

lemma embeds_op:
  "embeds e dv' dv a \<Longrightarrow> op_run dv' a op (e p) = map_option (\<lambda>(q, op1). (e q, op1)) (op_run dv a op p)"
  by (simp add: op_run_def embedsD embeds_writes embeds_reads case_prod_beta option.map_comp comp_def)

lemma embeds_ops:
  "embeds e dv' dv a \<Longrightarrow> ops_run dv' a ops (e p) = map_option (\<lambda>(q, ops1). (e q, ops1)) (ops_run dv a ops p)"
proof (induction ops arbitrary: p)
  case (Cons op ops)
  then show ?case by (cases "op_run dv a op p") (auto simp: embeds_op split: prod.split option.split Option.bind_split)
qed simp

lemma embeds_transaction:
  "embeds e dv' dv a \<Longrightarrow> transaction dv' a ops (e p) = map_option (\<lambda>(q, ops1). (e q, ops1)) (transaction dv a ops p)"
  by (simp add: transaction_def embeds_ops embedsD option.map_comp comp_def case_prod_beta)

lemma embeds_steps:
  assumes "bus_steps dv' a (e p) g" and "embeds e dv' dv a"
  shows "\<exists>q. g = e q \<and> bus_steps dv a p q"
  using assms(1)
proof (induction rule: bus_steps.induct)
  case steps_refl
  show ?case using bus_steps.steps_refl [of dv a p] by (intro exI [of _ p]) simp
next
  case (steps_start g rd)
  then obtain q where "g = e q" "bus_steps dv a p q" by blast
  then show ?case using embedsD(1) [OF assms(2), of rd q] bus_steps.steps_start [of dv a p q rd] by auto
next
  case (steps_write g b)
  then obtain q where "g = e q" "bus_steps dv a p q" by blast
  then show ?case using embedsD(2) [OF assms(2), of b q] bus_steps.steps_write [of dv a p q b] by auto
next
  case (steps_read g)
  then obtain q where "g = e q" "bus_steps dv a p q" by blast
  then show ?case using embedsD(3) [OF assms(2), of q] bus_steps.steps_read [of dv a p q] by auto
next
  case (steps_stop g)
  then obtain q where "g = e q" "bus_steps dv a p q" by blast
  then show ?case using embedsD(4) [OF assms(2), of q] bus_steps.steps_stop [of dv a p q] by auto
qed

lemma embeds_visit:
  assumes "bus_visit dv' a (e p) g" and "embeds e dv' dv a"
  shows "\<exists>q. g = e q \<and> bus_visit dv a p q"
proof -
  consider "g = e p" | h where "bus_steps dv' a (e p) h" "g = ib_stop dv' h" using assms(1) by (auto simp: bus_visit_def)
  then show ?thesis
  proof cases
    case 2
    then obtain q where "h = e q" "bus_steps dv a p q" using embeds_steps [OF _ assms(2)] by blast
    then show ?thesis using 2 embedsD(4) [OF assms(2)] by (auto simp: bus_visit_def)
  qed auto
qed

text \<open>A master of all devices is a master of the part.\<close>

locale i2c_segment = i2c_bus +
  fixes e :: "'p \<Rightarrow> 'b" and dv :: "'p i2c_devs" and part :: "u8 \<Rightarrow> bool"
  assumes embedded: "part a \<Longrightarrow> embeds e devs dv a" and injective: "e p = e q \<Longrightarrow> p = q"

context i2c_segment begin

lemma segment_request:
  assumes "holds s (e p)" and "allowed (bus_addr a)" and "part (bus_addr a)" and "request_ok ops"
  shows "\<exists>q. request_done dv reliable (\<lambda>s p. holds s (e p)) (bus_addr a) ops p (StartRequest m a ops s) q"
proof -
  obtain s' st ops' g where r: "StartRequest m a ops s = Some (s', st, ops')" "holds s' g" "bus_visit devs (bus_addr a) (e p) g"
      "st = EFI_SUCCESS \<longrightarrow> transaction devs (bus_addr a) ops (e p) = Some (g, ops')"
      "st \<noteq> EFI_SUCCESS \<longrightarrow> EFI_ERROR st \<and> (reliable \<longrightarrow> transaction devs (bus_addr a) ops (e p) = None)"
    by (rule request_total [OF assms(1,2,4)])
  obtain q where q: "g = e q" "bus_visit dv (bus_addr a) p q" using embeds_visit [OF r(3) embedded [OF assms(3)]] by blast
  note t = embeds_transaction [OF embedded [OF assms(3)], of ops p]
  have "transaction dv (bus_addr a) ops p = Some (q, ops')" if "st = EFI_SUCCESS"
    using r(4) that t injective q(1) by auto
  moreover have "transaction dv (bus_addr a) ops p = None" if "st \<noteq> EFI_SUCCESS" reliable
    using r(5) that t by simp
  ultimately show ?thesis using r(1,2,5) q by (auto simp: request_done_def)
qed

end

sublocale i2c_segment \<subseteq> segment: i2c_bus m dv "\<lambda>a. allowed a \<and> part a" "\<lambda>s p. holds s (e p)" reliable
  by unfold_locales (use segment_request in blast, rule frequency, assumption, rule reset, assumption)

end
