(* ===== verification/DwI2c.thy ===== *)
theory DwI2c
  imports I2cMaster
begin

text \<open>
  The driver of the DesignWare I2C controllers, \<open>Drivers/DwI2cDxe/DwI2cDxe.c\<close>, over the registers of
  one controller as a parameter. A register access takes time and may change the controller; the
  delays between the polls are left out. A lock that is taken twice, which fails an assertion, and an
  access outside a buffer are \<^const>\<open>None\<close>. The null checks of the protocol pointer \<open>This\<close>, and the
  copy of the status through \<open>I2cStatus\<close> and the event, which every caller leaves out, are not modelled.
\<close>

unbundle bit_operations_syntax

subsection \<open>Registers\<close>

definition DW_IC_CON :: u64 where "DW_IC_CON = 0x00"
definition DW_IC_TAR :: u64 where "DW_IC_TAR = 0x04"
definition DW_IC_DATA_CMD :: u64 where "DW_IC_DATA_CMD = 0x10"
definition DW_IC_SS_SCL_HCNT :: u64 where "DW_IC_SS_SCL_HCNT = 0x14"
definition DW_IC_SS_SCL_LCNT :: u64 where "DW_IC_SS_SCL_LCNT = 0x18"
definition DW_IC_FS_SCL_HCNT :: u64 where "DW_IC_FS_SCL_HCNT = 0x1C"
definition DW_IC_FS_SCL_LCNT :: u64 where "DW_IC_FS_SCL_LCNT = 0x20"
definition DW_IC_INTR_MASK :: u64 where "DW_IC_INTR_MASK = 0x30"
definition DW_IC_RAW_INTR_STAT :: u64 where "DW_IC_RAW_INTR_STAT = 0x34"
definition DW_IC_CLR_INTR :: u64 where "DW_IC_CLR_INTR = 0x40"
definition DW_IC_CLR_RX_UNDER :: u64 where "DW_IC_CLR_RX_UNDER = 0x44"
definition DW_IC_CLR_RX_OVER :: u64 where "DW_IC_CLR_RX_OVER = 0x48"
definition DW_IC_CLR_TX_ABRT :: u64 where "DW_IC_CLR_TX_ABRT = 0x54"
definition DW_IC_CLR_STOP_DET :: u64 where "DW_IC_CLR_STOP_DET = 0x60"
definition DW_IC_ENABLE :: u64 where "DW_IC_ENABLE = 0x6C"
definition DW_IC_STATUS :: u64 where "DW_IC_STATUS = 0x70"
definition DW_IC_TXFLR :: u64 where "DW_IC_TXFLR = 0x74"
definition DW_IC_SDA_HOLD :: u64 where "DW_IC_SDA_HOLD = 0x7C"
definition DW_IC_ENABLE_STATUS :: u64 where "DW_IC_ENABLE_STATUS = 0x9C"
definition DW_IC_COMP_PARAM_1 :: u64 where "DW_IC_COMP_PARAM_1 = 0xF4"
definition DW_IC_COMP_VERSION :: u64 where "DW_IC_COMP_VERSION = 0xF8"

lemmas dw_regs =
  DW_IC_CON_def DW_IC_TAR_def DW_IC_DATA_CMD_def DW_IC_SS_SCL_HCNT_def DW_IC_SS_SCL_LCNT_def
  DW_IC_FS_SCL_HCNT_def DW_IC_FS_SCL_LCNT_def DW_IC_INTR_MASK_def DW_IC_RAW_INTR_STAT_def
  DW_IC_CLR_INTR_def DW_IC_CLR_RX_UNDER_def DW_IC_CLR_RX_OVER_def DW_IC_CLR_TX_ABRT_def
  DW_IC_CLR_STOP_DET_def DW_IC_ENABLE_def DW_IC_STATUS_def DW_IC_TXFLR_def DW_IC_SDA_HOLD_def
  DW_IC_ENABLE_STATUS_def DW_IC_COMP_PARAM_1_def DW_IC_COMP_VERSION_def

definition DW_IC_CON_MASTER :: u32 where "DW_IC_CON_MASTER = 0x01"
definition DW_IC_CON_SPEED_STD :: u32 where "DW_IC_CON_SPEED_STD = 0x02"
definition DW_IC_CON_SPEED_FAST :: u32 where "DW_IC_CON_SPEED_FAST = 0x04"
definition DW_IC_CON_SPEED_MASK :: u32 where "DW_IC_CON_SPEED_MASK = 0x06"
definition DW_IC_CON_RESTART_EN :: u32 where "DW_IC_CON_RESTART_EN = 0x20"
definition DW_IC_CON_SLAVE_DISABLE :: u32 where "DW_IC_CON_SLAVE_DISABLE = 0x40"
definition DW_IC_DATA_CMD_CMD :: u32 where "DW_IC_DATA_CMD_CMD = 0x100"
definition DW_IC_DATA_CMD_STOP :: u32 where "DW_IC_DATA_CMD_STOP = 0x200"
definition DW_IC_DATA_CMD_RESTART :: u32 where "DW_IC_DATA_CMD_RESTART = 0x400"
definition DW_IC_INTR_RX_UNDER :: u32 where "DW_IC_INTR_RX_UNDER = 0x01"
definition DW_IC_INTR_RX_OVER :: u32 where "DW_IC_INTR_RX_OVER = 0x02"
definition DW_IC_INTR_TX_ABRT :: u32 where "DW_IC_INTR_TX_ABRT = 0x40"
definition DW_IC_INTR_STOP_DET :: u32 where "DW_IC_INTR_STOP_DET = 0x200"
definition DW_IC_ERR_CONDITION :: u32 where "DW_IC_ERR_CONDITION = 0x43"
definition DW_IC_STATUS_TFE :: u32 where "DW_IC_STATUS_TFE = 0x04"
definition DW_IC_STATUS_RFNE :: u32 where "DW_IC_STATUS_RFNE = 0x08"
definition DW_IC_STATUS_MST_ACTIVITY :: u32 where "DW_IC_STATUS_MST_ACTIVITY = 0x20"

lemmas dw_bits =
  DW_IC_CON_MASTER_def DW_IC_CON_SPEED_STD_def DW_IC_CON_SPEED_FAST_def DW_IC_CON_SPEED_MASK_def
  DW_IC_CON_RESTART_EN_def DW_IC_CON_SLAVE_DISABLE_def DW_IC_DATA_CMD_CMD_def
  DW_IC_DATA_CMD_STOP_def DW_IC_DATA_CMD_RESTART_def DW_IC_INTR_RX_UNDER_def
  DW_IC_INTR_RX_OVER_def DW_IC_INTR_TX_ABRT_def DW_IC_INTR_STOP_DET_def DW_IC_ERR_CONDITION_def
  DW_IC_STATUS_TFE_def DW_IC_STATUS_RFNE_def DW_IC_STATUS_MST_ACTIVITY_def

definition DW_MAX_TRANSFER_POLL_COUNT :: nat where "DW_MAX_TRANSFER_POLL_COUNT = 100000"
definition DW_MAX_STATUS_POLL_COUNT :: nat where "DW_MAX_STATUS_POLL_COUNT = 100"
definition DW_MAX_MST_ACTIVITY_POLL_COUNT :: nat where "DW_MAX_MST_ACTIVITY_POLL_COUNT = 20"

lemmas dw_polls = DW_MAX_TRANSFER_POLL_COUNT_def DW_MAX_STATUS_POLL_COUNT_def DW_MAX_MST_ACTIVITY_POLL_COUNT_def

definition DW_IC_SDA_HOLD_MIN_VERS :: u32 where "DW_IC_SDA_HOLD_MIN_VERS = 0x3131312A"

definition DW_IC_COMP_PARAM_1_TX_BUFFER_DEPTH :: "u32 \<Rightarrow> u32" where
  "DW_IC_COMP_PARAM_1_TX_BUFFER_DEPTH x = (drop_bit 16 x AND 0xFF) + 1"

definition DW_IC_COMP_PARAM_1_RX_BUFFER_DEPTH :: "u32 \<Rightarrow> u32" where
  "DW_IC_COMP_PARAM_1_RX_BUFFER_DEPTH x = (drop_bit 8 x AND 0xFF) + 1"

definition DW_POLL_INTERVAL_US :: "u32 \<Rightarrow> u32" where
  "DW_POLL_INTERVAL_US Speed = 10 * (1000000 div Speed)"

text \<open>The context: \<open>Lock\<close> tells whether the lock is held.\<close>

record dw_context =
  BaseAddress :: u64
  BusIndex :: u32
  BusSpeedHz :: u32
  TxFifo :: u32
  RxFifo :: u32
  PollingTimeUs :: u32
  Lock :: bool

definition DwI2cRead :: "'h mmio_bus \<Rightarrow> dw_context \<Rightarrow> u64 \<Rightarrow> 'h \<Rightarrow> 'h \<times> u32" where
  "DwI2cRead bus Ctx Offset h = mmio_read32 bus (BaseAddress Ctx + Offset) h"

definition DwI2cWrite :: "'h mmio_bus \<Rightarrow> dw_context \<Rightarrow> u64 \<Rightarrow> u32 \<Rightarrow> 'h \<Rightarrow> 'h" where
  "DwI2cWrite bus Ctx Offset Value h = mmio_write32 bus (BaseAddress Ctx + Offset) Value h"

subsection \<open>Waiting\<close>

text \<open>
  The polling loops have one shape: up to \<open>n\<close> rounds, each of which may end the loop with a status;
  otherwise the result is \<^const>\<open>EFI_TIMEOUT\<close>.
\<close>

fun poll :: "nat \<Rightarrow> ('h \<Rightarrow> 'h \<times> efi_status option) \<Rightarrow> 'h \<Rightarrow> 'h \<times> efi_status" where
  "poll 0 round h = (h, EFI_TIMEOUT)"
| "poll (Suc n) round h = (case round h of
     (h1, Some Status) \<Rightarrow> (h1, Status)
   | (h1, None) \<Rightarrow> poll n round h1)"

definition DwI2cEnable :: "'h mmio_bus \<Rightarrow> dw_context \<Rightarrow> u32 \<Rightarrow> 'h \<Rightarrow> 'h \<times> efi_status" where
  "DwI2cEnable bus Ctx Enable h =
     poll DW_MAX_STATUS_POLL_COUNT (\<lambda>h. case DwI2cRead bus Ctx DW_IC_ENABLE_STATUS h of
       (h1, v) \<Rightarrow> (h1, if v AND 0x01 = Enable then Some EFI_SUCCESS else None))
     (DwI2cWrite bus Ctx DW_IC_ENABLE Enable h)"

definition DwI2cCheckErrors :: "'h mmio_bus \<Rightarrow> dw_context \<Rightarrow> 'h \<Rightarrow> 'h \<times> u32" where
  "DwI2cCheckErrors bus Ctx h =
     (let (h, v) = DwI2cRead bus Ctx DW_IC_RAW_INTR_STAT h;
          Errors = v AND DW_IC_ERR_CONDITION;
          h = (if Errors AND DW_IC_INTR_RX_UNDER \<noteq> 0 then fst (DwI2cRead bus Ctx DW_IC_CLR_RX_UNDER h) else h);
          h = (if Errors AND DW_IC_INTR_RX_OVER \<noteq> 0 then fst (DwI2cRead bus Ctx DW_IC_CLR_RX_OVER h) else h);
          h = (if Errors AND DW_IC_INTR_TX_ABRT \<noteq> 0 then fst (DwI2cRead bus Ctx DW_IC_CLR_TX_ABRT h) else h)
      in (h, Errors))"

definition DwI2cWaitBusNotBusy :: "'h mmio_bus \<Rightarrow> dw_context \<Rightarrow> 'h \<Rightarrow> 'h \<times> efi_status" where
  "DwI2cWaitBusNotBusy bus Ctx h =
     poll DW_MAX_MST_ACTIVITY_POLL_COUNT (\<lambda>h. case DwI2cRead bus Ctx DW_IC_STATUS h of
       (h1, v) \<Rightarrow> (h1, if v AND DW_IC_STATUS_MST_ACTIVITY = 0 then Some EFI_SUCCESS else None)) h"

text \<open>What the two waits do when the FIFO is not ready: look for an abort.\<close>

definition abort_seen :: "'h mmio_bus \<Rightarrow> dw_context \<Rightarrow> 'h \<Rightarrow> 'h \<times> efi_status option" where
  "abort_seen bus Ctx h = (case DwI2cCheckErrors bus Ctx h of
     (h1, e) \<Rightarrow> (h1, if e AND DW_IC_INTR_TX_ABRT \<noteq> 0 then Some EFI_ABORTED else None))"

definition DwI2cWaitTxData :: "'h mmio_bus \<Rightarrow> dw_context \<Rightarrow> 'h \<Rightarrow> 'h \<times> efi_status" where
  "DwI2cWaitTxData bus Ctx h =
     poll DW_MAX_TRANSFER_POLL_COUNT (\<lambda>h. case DwI2cRead bus Ctx DW_IC_TXFLR h of
       (h1, v) \<Rightarrow> if v < TxFifo Ctx then (h1, Some EFI_SUCCESS) else abort_seen bus Ctx h1) h"

definition DwI2cWaitRxData :: "'h mmio_bus \<Rightarrow> dw_context \<Rightarrow> 'h \<Rightarrow> 'h \<times> efi_status" where
  "DwI2cWaitRxData bus Ctx h =
     poll DW_MAX_TRANSFER_POLL_COUNT (\<lambda>h. case DwI2cRead bus Ctx DW_IC_STATUS h of
       (h1, v) \<Rightarrow> if v AND DW_IC_STATUS_RFNE \<noteq> 0 then (h1, Some EFI_SUCCESS) else abort_seen bus Ctx h1) h"

text \<open>The two loops of \<open>DwI2cFinish\<close>.\<close>

definition wait_tx_empty :: "'h mmio_bus \<Rightarrow> dw_context \<Rightarrow> 'h \<Rightarrow> 'h \<times> efi_status" where
  "wait_tx_empty bus Ctx h =
     poll DW_MAX_TRANSFER_POLL_COUNT (\<lambda>h. case DwI2cRead bus Ctx DW_IC_STATUS h of
       (h1, v) \<Rightarrow> (h1, if v AND DW_IC_STATUS_TFE \<noteq> 0 then Some EFI_SUCCESS else None)) h"

definition wait_stop :: "'h mmio_bus \<Rightarrow> dw_context \<Rightarrow> 'h \<Rightarrow> 'h \<times> efi_status" where
  "wait_stop bus Ctx h =
     poll DW_MAX_TRANSFER_POLL_COUNT (\<lambda>h. case DwI2cRead bus Ctx DW_IC_RAW_INTR_STAT h of
       (h1, v) \<Rightarrow> if v AND DW_IC_INTR_STOP_DET \<noteq> 0
         then (fst (DwI2cRead bus Ctx DW_IC_CLR_STOP_DET h1), Some EFI_SUCCESS) else (h1, None)) h"

definition DwI2cFinish :: "'h mmio_bus \<Rightarrow> dw_context \<Rightarrow> 'h \<Rightarrow> 'h \<times> efi_status" where
  "DwI2cFinish bus Ctx h = (case wait_tx_empty bus Ctx h of
     (h1, Status) \<Rightarrow> if EFI_ERROR Status then (h1, EFI_TIMEOUT) else wait_stop bus Ctx h1)"

subsection \<open>Initialization\<close>

definition DwI2cHwInit :: "'h mmio_bus \<Rightarrow> dw_context \<Rightarrow> 'h \<Rightarrow> 'h" where
  "DwI2cHwInit bus Ctx h =
     (let h = fst (DwI2cEnable bus Ctx 0 h);
          h = DwI2cWrite bus Ctx DW_IC_INTR_MASK 0 h;
          h = DwI2cWrite bus Ctx DW_IC_SS_SCL_HCNT 0x855 h;
          h = DwI2cWrite bus Ctx DW_IC_SS_SCL_LCNT 0xB0B h;
          h = DwI2cWrite bus Ctx DW_IC_FS_SCL_HCNT 0x19D h;
          h = DwI2cWrite bus Ctx DW_IC_FS_SCL_LCNT 0x320 h;
          (h, Version) = DwI2cRead bus Ctx DW_IC_COMP_VERSION h;
          h = (if Version \<ge> DW_IC_SDA_HOLD_MIN_VERS then DwI2cWrite bus Ctx DW_IC_SDA_HOLD 150 h else h);
          IcCon = DW_IC_CON_MASTER OR DW_IC_CON_SLAVE_DISABLE OR DW_IC_CON_RESTART_EN OR DW_IC_CON_SPEED_STD;
          h = DwI2cWrite bus Ctx DW_IC_CON IcCon h
      in fst (DwI2cRead bus Ctx DW_IC_CLR_INTR h))"

definition mDwI2cBase :: "u64 list" where "mDwI2cBase = [0xFD880000, 0xFD894000]"

definition mDwI2cSpeed :: "u32 list" where "mDwI2cSpeed = [100000, 100000]"

text \<open>The part of the entry point that sets up the controller \<open>i\<close>.\<close>

definition dw_init_bus :: "'h mmio_bus \<Rightarrow> nat \<Rightarrow> 'h \<Rightarrow> dw_context \<times> 'h" where
  "dw_init_bus bus i h =
     (let Ctx = \<lparr>BaseAddress = mDwI2cBase ! i, BusIndex = of_nat i, BusSpeedHz = mDwI2cSpeed ! i, TxFifo = 0, RxFifo = 0,
            PollingTimeUs = DW_POLL_INTERVAL_US (mDwI2cSpeed ! i), Lock = False\<rparr>;
          (h, Param) = mmio_read32 bus (BaseAddress Ctx + DW_IC_COMP_PARAM_1) h;
          Ctx = Ctx\<lparr>TxFifo := DW_IC_COMP_PARAM_1_TX_BUFFER_DEPTH Param,
            RxFifo := DW_IC_COMP_PARAM_1_RX_BUFFER_DEPTH Param\<rparr>
      in (Ctx, DwI2cHwInit bus Ctx h))"

text \<open>
  The loop of the entry point. The results of the allocations of the contexts and of the device paths and
  of the installations are parameters; the contexts whose protocols are installed are collected. The event
  that connects the host driver later on is left out.
\<close>

fun dw_init_buses ::
    "(nat \<Rightarrow> bool) \<Rightarrow> (nat \<Rightarrow> bool) \<Rightarrow> (nat \<Rightarrow> efi_status) \<Rightarrow> 'h mmio_bus \<Rightarrow> nat list \<Rightarrow> 'h \<Rightarrow> 'h \<times> efi_status \<times> dw_context list" where
  "dw_init_buses al_ctx al_path install bus [] h = (h, EFI_SUCCESS, [])"
| "dw_init_buses al_ctx al_path install bus (i # is) h =
     (if \<not> al_ctx i then (h, EFI_OUT_OF_RESOURCES, [])
      else let (Ctx, h) = dw_init_bus bus i h in
        if \<not> al_path i then (h, EFI_OUT_OF_RESOURCES, [])
        else if EFI_ERROR (install i) then (h, install i, [])
        else let (h, Status, cs) = dw_init_buses al_ctx al_path install bus is h in (h, Status, Ctx # cs))"

definition DW_I2C_BUS_COUNT :: nat where "DW_I2C_BUS_COUNT = 2"

definition DwI2cDxeInitialize ::
    "(nat \<Rightarrow> bool) \<Rightarrow> (nat \<Rightarrow> bool) \<Rightarrow> (nat \<Rightarrow> efi_status) \<Rightarrow> 'h mmio_bus \<Rightarrow> 'h \<Rightarrow> 'h \<times> efi_status \<times> dw_context list" where
  "DwI2cDxeInitialize al_ctx al_path install bus h =
     dw_init_buses al_ctx al_path install bus [0..<DW_I2C_BUS_COUNT] h"

subsection \<open>The bus master protocol\<close>

definition acquire_lock :: "dw_context \<Rightarrow> dw_context option" where
  "acquire_lock Ctx = (if Lock Ctx then None else Some (Ctx\<lparr>Lock := True\<rparr>))"

definition release_lock :: "dw_context \<Rightarrow> dw_context" where
  "release_lock Ctx = Ctx\<lparr>Lock := False\<rparr>"

definition DwI2cSetBusFrequency ::
    "'h mmio_bus \<Rightarrow> u64 \<Rightarrow> dw_context \<times> 'h \<Rightarrow> ((dw_context \<times> 'h) \<times> efi_status \<times> u64) option" where
  "DwI2cSetBusFrequency bus BusClockHertz s = do {
     let (Ctx, h) = s;
     Ctx \<leftarrow> acquire_lock Ctx;
     let h = fst (DwI2cEnable bus Ctx 0 h);
     let (h, IcCon) = DwI2cRead bus Ctx DW_IC_CON h;
     let IcCon = IcCon AND NOT DW_IC_CON_SPEED_MASK;
     let (IcCon, BusClockHertz) = (if BusClockHertz \<le> 100000 then (IcCon OR DW_IC_CON_SPEED_STD, 100000)
       else (IcCon OR DW_IC_CON_SPEED_FAST, 400000));
     let h = DwI2cWrite bus Ctx DW_IC_CON IcCon h;
     let Ctx = Ctx\<lparr>BusSpeedHz := ucast BusClockHertz\<rparr>;
     let Ctx = Ctx\<lparr>PollingTimeUs := DW_POLL_INTERVAL_US (BusSpeedHz Ctx)\<rparr>;
     let h = fst (DwI2cEnable bus Ctx 1 h);
     Some ((release_lock Ctx, h), EFI_SUCCESS, BusClockHertz)
   }"

definition DwI2cReset :: "'h mmio_bus \<Rightarrow> dw_context \<times> 'h \<Rightarrow> ((dw_context \<times> 'h) \<times> efi_status) option" where
  "DwI2cReset bus s = do {
     let (Ctx, h) = s;
     Ctx \<leftarrow> acquire_lock Ctx;
     let h = DwI2cHwInit bus Ctx h;
     Some ((release_lock Ctx, h), EFI_SUCCESS)
   }"

definition cmd_flags :: "bool \<Rightarrow> bool \<Rightarrow> nat \<Rightarrow> nat \<Rightarrow> u32 \<Rightarrow> u32" where
  "cmd_flags IsLastOp NeedRestart Length ByteIdx CmdData =
     (let IsLastByte = (IsLastOp \<and> ByteIdx = Length - 1);
          CmdData = (if IsLastByte then CmdData OR DW_IC_DATA_CMD_STOP else CmdData)
      in if NeedRestart \<and> ByteIdx = 0 then CmdData OR DW_IC_DATA_CMD_RESTART else CmdData)"

text \<open>The loops over the bytes of an operation; the number counts the bytes left.\<close>

fun read_bytes :: "'h mmio_bus \<Rightarrow> dw_context \<Rightarrow> bool \<Rightarrow> bool \<Rightarrow> nat \<Rightarrow> nat \<Rightarrow> bytes \<Rightarrow> 'h \<Rightarrow> ('h \<times> efi_status \<times> bytes) option" where
  "read_bytes bus Ctx IsLastOp NeedRestart Length 0 buf h = Some (h, EFI_SUCCESS, buf)"
| "read_bytes bus Ctx IsLastOp NeedRestart Length (Suc n) buf h =
     (let ByteIdx = Length - Suc n; (h1, Status) = DwI2cWaitTxData bus Ctx h in
      if EFI_ERROR Status then Some (h1, Status, buf)
      else let h2 = DwI2cWrite bus Ctx DW_IC_DATA_CMD
                 (cmd_flags IsLastOp NeedRestart Length ByteIdx DW_IC_DATA_CMD_CMD) h1;
               (h3, Status) = DwI2cWaitRxData bus Ctx h2
        in if EFI_ERROR Status then Some (h3, Status, buf)
           else let (h4, v) = DwI2cRead bus Ctx DW_IC_DATA_CMD h3
             in if ByteIdx < length buf
                then read_bytes bus Ctx IsLastOp NeedRestart Length n (buf[ByteIdx := ucast v]) h4
                else None)"

fun write_bytes :: "'h mmio_bus \<Rightarrow> dw_context \<Rightarrow> bool \<Rightarrow> bool \<Rightarrow> nat \<Rightarrow> nat \<Rightarrow> bytes \<Rightarrow> 'h \<Rightarrow> ('h \<times> efi_status) option" where
  "write_bytes bus Ctx IsLastOp NeedRestart Length 0 buf h = Some (h, EFI_SUCCESS)"
| "write_bytes bus Ctx IsLastOp NeedRestart Length (Suc n) buf h =
     (let ByteIdx = Length - Suc n; (h1, Status) = DwI2cWaitTxData bus Ctx h in
      if EFI_ERROR Status then Some (h1, Status)
      else do {
        d \<leftarrow> rd8 buf ByteIdx;
        write_bytes bus Ctx IsLastOp NeedRestart Length n buf
          (DwI2cWrite bus Ctx DW_IC_DATA_CMD (cmd_flags IsLastOp NeedRestart Length ByteIdx (ucast d)) h1)
      })"

definition process_op :: "'h mmio_bus \<Rightarrow> dw_context \<Rightarrow> bool \<Rightarrow> bool \<Rightarrow> i2c_op \<Rightarrow> 'h \<Rightarrow> ('h \<times> efi_status \<times> i2c_op) option" where
  "process_op bus Ctx IsLastOp NeedRestart Op h =
     (if op_reads Op then do {
        (h1, Status, buf) \<leftarrow> read_bytes bus Ctx IsLastOp NeedRestart (op_len Op) (op_len Op) (Buffer Op) h;
        Some (h1, Status, Op\<lparr>Buffer := buf\<rparr>)
      } else do {
        (h1, Status) \<leftarrow> write_bytes bus Ctx IsLastOp NeedRestart (op_len Op) (op_len Op) (Buffer Op) h;
        Some (h1, Status, Op)
      })"

text \<open>\<open>NeedRestart\<close> is false for the first operation only.\<close>

fun process_ops :: "'h mmio_bus \<Rightarrow> dw_context \<Rightarrow> bool \<Rightarrow> i2c_op list \<Rightarrow> 'h \<Rightarrow> ('h \<times> efi_status \<times> i2c_op list) option" where
  "process_ops bus Ctx NeedRestart [] h = Some (h, EFI_SUCCESS, [])"
| "process_ops bus Ctx NeedRestart (Op # ops) h = do {
     (h1, Status, Op1) \<leftarrow> process_op bus Ctx (ops = []) NeedRestart Op h;
     if EFI_ERROR Status then Some (h1, Status, Op1 # ops)
     else do {
       (h2, Status, ops1) \<leftarrow> process_ops bus Ctx True ops h1;
       Some (h2, Status, Op1 # ops1)
     }
   }"

text \<open>The path of the label \<open>Abort\<close>.\<close>

definition dw_abort :: "'h mmio_bus \<Rightarrow> dw_context \<Rightarrow> 'h \<Rightarrow> 'h" where
  "dw_abort bus Ctx h =
     (let h = DwI2cWrite bus Ctx DW_IC_DATA_CMD DW_IC_DATA_CMD_STOP h;
          h = fst (DwI2cFinish bus Ctx h);
          h = fst (DwI2cCheckErrors bus Ctx h);
          h = fst (DwI2cWaitBusNotBusy bus Ctx h)
      in fst (DwI2cEnable bus Ctx 0 h))"

text \<open>What follows the last byte.\<close>

definition dw_complete :: "'h mmio_bus \<Rightarrow> dw_context \<Rightarrow> 'h \<Rightarrow> 'h \<times> efi_status" where
  "dw_complete bus Ctx h = (case DwI2cFinish bus Ctx h of
     (h1, Status) \<Rightarrow> if EFI_ERROR Status then (dw_abort bus Ctx h1, Status)
     else let (h2, Errors) = DwI2cCheckErrors bus Ctx h1;
              Status = (if Errors AND DW_IC_INTR_TX_ABRT \<noteq> 0 then EFI_NO_RESPONSE
                else if Errors AND (DW_IC_INTR_RX_UNDER OR DW_IC_INTR_RX_OVER) \<noteq> 0 then EFI_DEVICE_ERROR
                else EFI_SUCCESS);
              h3 = fst (DwI2cWaitBusNotBusy bus Ctx h2)
       in (fst (DwI2cEnable bus Ctx 0 h3), Status))"

definition dw_start :: "'h mmio_bus \<Rightarrow> dw_context \<Rightarrow> u64 \<Rightarrow> 'h \<Rightarrow> 'h" where
  "dw_start bus Ctx SlaveAddress h =
     (let h = fst (DwI2cEnable bus Ctx 0 h);
          h = DwI2cWrite bus Ctx DW_IC_TAR (ucast (SlaveAddress AND 0x3FF)) h;
          h = fst (DwI2cEnable bus Ctx 1 h)
      in fst (DwI2cRead bus Ctx DW_IC_CLR_INTR h))"

definition DwI2cStartRequest ::
    "'h mmio_bus \<Rightarrow> u64 \<Rightarrow> i2c_op list option \<Rightarrow> dw_context \<times> 'h \<Rightarrow> ((dw_context \<times> 'h) \<times> efi_status \<times> i2c_op list) option" where
  "DwI2cStartRequest bus SlaveAddress RequestPacket s = (case RequestPacket of
     None \<Rightarrow> Some (s, EFI_INVALID_PARAMETER, [])
   | Some [] \<Rightarrow> Some (s, EFI_INVALID_PARAMETER, [])
   | Some ops \<Rightarrow> do {
       let (Ctx, h) = s;
       Ctx \<leftarrow> acquire_lock Ctx;
       let (h, Status) = DwI2cWaitBusNotBusy bus Ctx h;
       if EFI_ERROR Status then Some ((release_lock Ctx, h), Status, ops)
       else do {
         (h, Status, ops1) \<leftarrow> process_ops bus Ctx False ops (dw_start bus Ctx SlaveAddress h);
         if EFI_ERROR Status
         then Some ((release_lock Ctx, dw_abort bus Ctx h),
           if Status = EFI_ABORTED then EFI_NO_RESPONSE else Status, ops1)
         else let (h, Status) = dw_complete bus Ctx h in Some ((release_lock Ctx, h), Status, ops1)
       }
     })"

definition dw_master :: "'h mmio_bus \<Rightarrow> (dw_context \<times> 'h) i2c_master" where
  "dw_master bus = \<lparr>SetBusFrequency = DwI2cSetBusFrequency bus, Reset = DwI2cReset bus,
     StartRequest = (\<lambda>a ops. DwI2cStartRequest bus a (Some ops))\<rparr>"

subsection \<open>The other protocols\<close>

text \<open>The pointers are present or not; the result of \<open>DwI2cEnumerate\<close> is no device.\<close>

definition DwI2cEnumerate :: "bool \<Rightarrow> efi_status" where
  "DwI2cEnumerate Device_given = (if Device_given then EFI_NO_MAPPING else EFI_INVALID_PARAMETER)"

definition DwI2cGetBusFrequency :: "bool \<Rightarrow> u64 \<Rightarrow> bool \<Rightarrow> dw_context \<Rightarrow> efi_status \<times> u64 option" where
  "DwI2cGetBusFrequency This_given I2cBusConfiguration Out_given Ctx =
     (if \<not> This_given \<or> \<not> Out_given then (EFI_INVALID_PARAMETER, None)
      else if I2cBusConfiguration \<noteq> 0 then (EFI_NO_MAPPING, None)
      else (EFI_SUCCESS, Some (ucast (BusSpeedHz Ctx))))"

definition DwI2cEnableBusConfiguration :: "u64 \<Rightarrow> efi_status" where
  "DwI2cEnableBusConfiguration I2cBusConfiguration = (if I2cBusConfiguration \<noteq> 0 then EFI_NO_MAPPING else EFI_SUCCESS)"

end
