(* ===== verification/DwController.thy ===== *)
theory DwController
  imports DwI2c
begin

text \<open>
  A model of the DesignWare I2C controller behind the registers, and the driver on it. Commands are
  put into the transmit FIFO through \<open>IC_DATA_CMD\<close>; between two register accesses the controller
  executes as many of them as the schedule \<open>pace\<close> says. A command whose address or byte is not
  acknowledged aborts the transfer: the FIFO is emptied, a stop condition is sent, and the FIFO takes
  nothing until the interrupt \<open>TX_ABRT\<close> is cleared. Disabling the controller ends a transfer. Addresses
  have 7 bits, the mode that the driver selects.
\<close>

unbundle bit_operations_syntax

subsection \<open>The controller\<close>

record 'f dw_ctl =
  dc_en :: bool
  dc_con :: u32
  dc_tar :: u32
  dc_tx :: "u32 list"
  dc_rx :: bytes
  dc_abrt :: bool
  dc_stop :: bool
  dc_under :: bool
  dc_over :: bool
  dc_dir :: "bool option"   \<comment> \<open>the transfer in progress: a read?\<close>
  dc_depth :: nat           \<comment> \<open>of both FIFOs\<close>
  dc_dev :: 'f
  dc_time :: nat

definition dc_addr :: "'f dw_ctl \<Rightarrow> u8" where
  "dc_addr c = ucast (dc_tar c AND 0x7F)"

text \<open>
  What a command does on the bus while a transfer in the direction \<open>dir\<close> is in progress: bit 8 is its
  direction, bit 9 asks for a stop condition after it, bit 10 for a start condition before it. The
  result is the acknowledge and the byte read.
\<close>

definition bus_command :: "'f i2c_devs \<Rightarrow> u8 \<Rightarrow> bool option \<Rightarrow> u32 \<Rightarrow> 'f \<Rightarrow> 'f \<times> bool \<times> bytes" where
  "bus_command devs a dir cmd f =
     (let rd = bit cmd 8; (f1, ack) = (if dir \<noteq> Some rd \<or> bit cmd 10 then ib_start devs a rd f else (f, True)) in
      if \<not> ack then (ib_stop devs f1, False, [])
      else if rd then (case ib_read devs f1 of (f2, b) \<Rightarrow> (if bit cmd 9 then ib_stop devs f2 else f2, True, [b]))
      else (case ib_write devs (ucast cmd) f1 of (f2, ack) \<Rightarrow>
        (if \<not> ack \<or> bit cmd 9 then ib_stop devs f2 else f2, ack, [])))"

definition dw_command :: "'f i2c_devs \<Rightarrow> u32 \<Rightarrow> 'f dw_ctl \<Rightarrow> 'f dw_ctl" where
  "dw_command devs cmd c = (case bus_command devs (dc_addr c) (dc_dir c) cmd (dc_dev c) of (f, ack, bs) \<Rightarrow>
     if ack
     then c\<lparr>dc_dev := f, dc_dir := if bit cmd 9 then None else Some (bit cmd 8), dc_stop := dc_stop c \<or> bit cmd 9,
       dc_rx := if length (dc_rx c) < dc_depth c then dc_rx c @ bs else dc_rx c,
       dc_over := dc_over c \<or> bs \<noteq> [] \<and> \<not> length (dc_rx c) < dc_depth c\<rparr>
     else c\<lparr>dc_dev := f, dc_dir := None, dc_tx := [], dc_abrt := True, dc_stop := True\<rparr>)"

definition dw_step :: "'f i2c_devs \<Rightarrow> 'f dw_ctl \<Rightarrow> 'f dw_ctl" where
  "dw_step devs c = (case dc_tx c of [] \<Rightarrow> c | cmd # cmds \<Rightarrow> dw_command devs cmd (c\<lparr>dc_tx := cmds\<rparr>))"

fun dw_steps :: "'f i2c_devs \<Rightarrow> nat \<Rightarrow> 'f dw_ctl \<Rightarrow> 'f dw_ctl" where
  "dw_steps devs 0 c = c"
| "dw_steps devs (Suc n) c = dw_steps devs n (dw_step devs c)"

definition dw_tick :: "'f i2c_devs \<Rightarrow> (nat \<Rightarrow> nat) \<Rightarrow> 'f dw_ctl \<Rightarrow> 'f dw_ctl" where
  "dw_tick devs pace c = (dw_steps devs (pace (dc_time c)) c)\<lparr>dc_time := Suc (dc_time c)\<rparr>"

definition raw_intr :: "'f dw_ctl \<Rightarrow> u32" where
  "raw_intr c = (if dc_under c then 0x01 else 0) OR (if dc_over c then 0x02 else 0)
     OR (if dc_abrt c then 0x40 else 0) OR (if dc_stop c then 0x200 else 0)"

definition ic_status :: "'f dw_ctl \<Rightarrow> u32" where
  "ic_status c = (if length (dc_tx c) < dc_depth c then 0x02 else 0) OR (if dc_tx c = [] then 0x04 else 0)
     OR (if dc_rx c \<noteq> [] then 0x08 else 0) OR (if dc_dir c \<noteq> None \<or> dc_tx c \<noteq> [] then 0x20 else 0)"

definition reg_read :: "u64 \<Rightarrow> 'f dw_ctl \<Rightarrow> 'f dw_ctl \<times> u32" where
  "reg_read off c =
     (if off = DW_IC_CON then (c, dc_con c)
      else if off = DW_IC_DATA_CMD then (case dc_rx c of [] \<Rightarrow> (c\<lparr>dc_under := True\<rparr>, 0)
        | b # bs \<Rightarrow> (c\<lparr>dc_rx := bs\<rparr>, ucast b))
      else if off = DW_IC_RAW_INTR_STAT then (c, raw_intr c)
      else if off = DW_IC_CLR_INTR
        then (c\<lparr>dc_abrt := False, dc_stop := False, dc_under := False, dc_over := False\<rparr>, 0)
      else if off = DW_IC_CLR_RX_UNDER then (c\<lparr>dc_under := False\<rparr>, 0)
      else if off = DW_IC_CLR_RX_OVER then (c\<lparr>dc_over := False\<rparr>, 0)
      else if off = DW_IC_CLR_TX_ABRT then (c\<lparr>dc_abrt := False\<rparr>, 0)
      else if off = DW_IC_CLR_STOP_DET then (c\<lparr>dc_stop := False\<rparr>, 0)
      else if off = DW_IC_STATUS then (c, ic_status c)
      else if off = DW_IC_TXFLR then (c, of_nat (length (dc_tx c)))
      else if off = DW_IC_ENABLE_STATUS then (c, if dc_en c then 1 else 0)
      else if off = DW_IC_COMP_PARAM_1
        then (c, push_bit 16 (of_nat (dc_depth c - 1)) OR push_bit 8 (of_nat (dc_depth c - 1)))
      else if off = DW_IC_COMP_VERSION then (c, 0x3132322A)
      else (c, 0))"

definition reg_write :: "'f i2c_devs \<Rightarrow> u64 \<Rightarrow> u32 \<Rightarrow> 'f dw_ctl \<Rightarrow> 'f dw_ctl" where
  "reg_write devs off v c =
     (if off = DW_IC_ENABLE
      then (if v AND 1 = 1 then c\<lparr>dc_en := True\<rparr>
            else c\<lparr>dc_en := False, dc_tx := [], dc_rx := [], dc_dir := None,
              dc_dev := if dc_dir c = None then dc_dev c else ib_stop devs (dc_dev c)\<rparr>)
      else if off = DW_IC_TAR then (if dc_en c then c else c\<lparr>dc_tar := v\<rparr>)
      else if off = DW_IC_CON then (if dc_en c then c else c\<lparr>dc_con := v\<rparr>)
      else if off = DW_IC_DATA_CMD
      then (if dc_en c \<and> \<not> dc_abrt c \<and> length (dc_tx c) < dc_depth c then c\<lparr>dc_tx := dc_tx c @ [v]\<rparr> else c)
      else c)"

definition dw_bus :: "'f i2c_devs \<Rightarrow> (nat \<Rightarrow> nat) \<Rightarrow> u64 \<Rightarrow> 'f dw_ctl mmio_bus" where
  "dw_bus devs pace base = \<lparr>mmio_read32 = (\<lambda>A c. reg_read (A - base) (dw_tick devs pace c)),
     mmio_write32 = (\<lambda>A v c. reg_write devs (A - base) v (dw_tick devs pace c))\<rparr>"

lemma dw_bus_read: "BaseAddress Ctx = base \<Longrightarrow> DwI2cRead (dw_bus devs pace base) Ctx off c = reg_read off (dw_tick devs pace c)"
  by (simp add: DwI2cRead_def dw_bus_def)

lemma dw_bus_write:
  "BaseAddress Ctx = base \<Longrightarrow> DwI2cWrite (dw_bus devs pace base) Ctx off v c = reg_write devs off v (dw_tick devs pace c)"
  by (simp add: DwI2cWrite_def dw_bus_def)

subsection \<open>Executing everything that is queued\<close>

definition settle :: "'f i2c_devs \<Rightarrow> 'f dw_ctl \<Rightarrow> 'f dw_ctl" where
  "settle devs c = (dw_steps devs (length (dc_tx c)) c)\<lparr>dc_time := 0\<rparr>"

lemma step_idle [simp]: "dc_tx c = [] \<Longrightarrow> dw_step devs c = c"
  by (simp add: dw_step_def)

lemma steps_idle [simp]: "dc_tx c = [] \<Longrightarrow> dw_steps devs n c = c"
  by (induction n) simp_all

lemma command_tx: "dc_tx (dw_command devs cmd c) \<in> {[], dc_tx c}"
  by (auto simp: dw_command_def split: prod.split)

lemma step_shrinks: "length (dc_tx (dw_step devs c)) \<le> length (dc_tx c) - 1"
proof (cases "dc_tx c")
  case (Cons cmd cmds)
  then show ?thesis using command_tx [of devs cmd "c\<lparr>dc_tx := cmds\<rparr>"] by (auto simp: dw_step_def)
qed simp

lemma steps_shrink: "length (dc_tx (dw_steps devs n c)) \<le> length (dc_tx c) - n"
proof (induction n arbitrary: c)
  case (Suc n)
  show ?case using Suc.IH [of "dw_step devs c"] step_shrinks [of devs c] by simp
qed simp

lemma steps_add: "dw_steps devs (n + k) c = dw_steps devs k (dw_steps devs n c)"
  by (induction n arbitrary: c) simp_all

lemma steps_enough: "length (dc_tx c) \<le> n \<Longrightarrow> dw_steps devs n c = dw_steps devs (length (dc_tx c)) c"
  using steps_add [of devs "length (dc_tx c)" "n - length (dc_tx c)" c] steps_shrink [of devs "length (dc_tx c)" c]
  by simp

lemma settle_steps: "settle devs (dw_steps devs n c) = settle devs c"
proof (cases "n \<le> length (dc_tx c)")
  case True
  then have "dw_steps devs (length (dc_tx (dw_steps devs n c))) (dw_steps devs n c) = dw_steps devs (length (dc_tx c)) c"
    using steps_add [of devs n "length (dc_tx c) - n" c] steps_enough [OF steps_shrink [of devs n c]] by simp
  then show ?thesis by (simp add: settle_def)
next
  case False
  then have "dw_steps devs n c = dw_steps devs (length (dc_tx c)) c" by (intro steps_enough) simp
  then show ?thesis using steps_shrink [of devs "length (dc_tx c)" c] by (simp add: settle_def)
qed

lemma command_time: "dw_command devs cmd (c\<lparr>dc_time := t\<rparr>) = (dw_command devs cmd c)\<lparr>dc_time := t\<rparr>"
  by (simp add: dw_command_def dc_addr_def split: prod.split)

lemma step_time: "dw_step devs (c\<lparr>dc_time := t\<rparr>) = (dw_step devs c)\<lparr>dc_time := t\<rparr>"
  by (simp add: dw_step_def dw_command_def dc_addr_def split: list.split prod.split)

lemma steps_time: "dw_steps devs n (c\<lparr>dc_time := t\<rparr>) = (dw_steps devs n c)\<lparr>dc_time := t\<rparr>"
  by (induction n arbitrary: c) (simp_all add: step_time)

lemma settle_time [simp]: "settle devs (c\<lparr>dc_time := t\<rparr>) = settle devs c"
  by (simp add: settle_def steps_time)

lemma settle_tick [simp]: "settle devs (dw_tick devs pace c) = settle devs c"
  by (simp add: dw_tick_def settle_steps)

lemma settle_step: "settle devs (dw_step devs c) = settle devs c"
  using settle_steps [of devs 1 c] by simp

lemma settle_empty: "dc_tx c = [] \<Longrightarrow> settle devs c = c\<lparr>dc_time := 0\<rparr>"
  by (simp add: settle_def)

lemma settle_tx [simp]: "dc_tx (settle devs c) = []"
  using steps_shrink [of devs "length (dc_tx c)" c] by (simp add: settle_def)

text \<open>The settled controller executes a command at once.\<close>

definition imm :: "'f i2c_devs \<Rightarrow> 'f dw_ctl \<Rightarrow> u32 \<Rightarrow> 'f dw_ctl" where
  "imm devs s cmd = (if dc_abrt s then s else dw_command devs cmd s)"

lemma command_abrt: "dc_abrt (dw_command devs cmd c) \<Longrightarrow> dc_abrt c \<or> dc_tx (dw_command devs cmd c) = []"
  by (auto simp: dw_command_def split: prod.splits if_splits)

lemma step_put:
  assumes "dc_tx c \<noteq> []" and "\<not> dc_abrt c"
  shows "dw_step devs (c\<lparr>dc_tx := dc_tx c @ [cmd]\<rparr>) =
    (if dc_abrt (dw_step devs c) then dw_step devs c
     else (dw_step devs c)\<lparr>dc_tx := dc_tx (dw_step devs c) @ [cmd]\<rparr>)"
  using assms
  by (cases "dc_tx c") (auto simp: dw_step_def dw_command_def dc_addr_def split: prod.split)

lemma settle_put:
  assumes "\<not> dc_abrt c"
  shows "settle devs (c\<lparr>dc_tx := dc_tx c @ [cmd]\<rparr>) = imm devs (settle devs c) cmd"
  using assms
proof (induction "length (dc_tx c)" arbitrary: c rule: less_induct)
  case less
  show ?case
  proof (cases "dc_tx c")
    case Nil
    have eq: "c\<lparr>dc_tx := []\<rparr> = c" using Nil by (cases c) simp
    have "settle devs (c\<lparr>dc_tx := dc_tx c @ [cmd]\<rparr>) = (dw_command devs cmd c)\<lparr>dc_time := 0\<rparr>"
      using Nil by (simp add: settle_def dw_step_def eq)
    then show ?thesis using Nil less.prems by (simp add: settle_empty imm_def command_time)
  next
    case (Cons x xs)
    let ?d = "dw_step devs c"
    have "settle devs (c\<lparr>dc_tx := dc_tx c @ [cmd]\<rparr>) = settle devs (dw_step devs (c\<lparr>dc_tx := dc_tx c @ [cmd]\<rparr>))"
      by (simp only: settle_step)
    also have "\<dots> = (if dc_abrt ?d then settle devs ?d else settle devs (?d\<lparr>dc_tx := dc_tx ?d @ [cmd]\<rparr>))"
      using step_put [of c devs cmd] Cons less.prems by simp
    also have "\<dots> = imm devs (settle devs ?d) cmd"
    proof (cases "dc_abrt ?d")
      case True
      then have "dc_tx ?d = []"
        using command_abrt [of devs x "c\<lparr>dc_tx := xs\<rparr>"] less.prems Cons by (simp add: dw_step_def)
      then show ?thesis using True by (simp add: imm_def settle_empty)
    next
      case False
      have "length (dc_tx ?d) < length (dc_tx c)" using step_shrinks [of devs c] Cons by simp
      then show ?thesis using less.hyps [of ?d] False by simp
    qed
    finally show ?thesis by (simp only: settle_step)
  qed
qed

text \<open>What a step keeps, and how the receive FIFO grows.\<close>

lemma step_fields [simp]:
  "dc_en (dw_step devs c) = dc_en c" "dc_under (dw_step devs c) = dc_under c" "dc_depth (dw_step devs c) = dc_depth c"
  "dc_tar (dw_step devs c) = dc_tar c"
  by (simp_all add: dw_step_def dw_command_def split: list.split prod.split)

lemma steps_fields [simp]:
  "dc_en (dw_steps devs n c) = dc_en c" "dc_under (dw_steps devs n c) = dc_under c" "dc_depth (dw_steps devs n c) = dc_depth c"
  "dc_tar (dw_steps devs n c) = dc_tar c"
  by (induction n arbitrary: c) simp_all

lemma tick_fields [simp]:
  "dc_en (dw_tick devs pace c) = dc_en c" "dc_under (dw_tick devs pace c) = dc_under c"
  "dc_depth (dw_tick devs pace c) = dc_depth c" "dc_tar (dw_tick devs pace c) = dc_tar c"
  by (simp_all add: dw_tick_def)

lemma settle_fields [simp]:
  "dc_en (settle devs c) = dc_en c" "dc_under (settle devs c) = dc_under c" "dc_depth (settle devs c) = dc_depth c"
  "dc_tar (settle devs c) = dc_tar c"
  by (simp_all add: settle_def)

lemma step_over: "dc_over c \<Longrightarrow> dc_over (dw_step devs c)"
  by (simp add: dw_step_def dw_command_def split: list.split prod.split)

lemma steps_over: "dc_over c \<Longrightarrow> dc_over (dw_steps devs n c)"
  by (induction n arbitrary: c) (simp_all add: step_over)

lemma settle_over: "dc_over c \<Longrightarrow> dc_over (settle devs c)"
  by (simp add: settle_def steps_over)

lemma step_rx: "\<exists>xs. dc_rx (dw_step devs c) = dc_rx c @ xs"
  by (simp add: dw_step_def dw_command_def split: list.split prod.split)

lemma steps_rx: "\<exists>xs. dc_rx (dw_steps devs n c) = dc_rx c @ xs"
proof (induction n arbitrary: c)
  case (Suc n)
  obtain xs ys where "dc_rx (dw_step devs c) = dc_rx c @ xs" "dc_rx (dw_steps devs n (dw_step devs c)) = dc_rx (dw_step devs c) @ ys"
    using step_rx [of devs c] Suc by metis
  then show ?case by simp
qed simp

lemma tick_rx: "\<exists>xs. dc_rx (dw_tick devs pace c) = dc_rx c @ xs"
  using steps_rx [of devs "pace (dc_time c)" c] by (simp add: dw_tick_def)

lemma settle_rx: "\<exists>xs. dc_rx (settle devs c) = dc_rx c @ xs"
  using steps_rx [of devs "length (dc_tx c)" c] by (simp add: settle_def)

lemma step_pop:
  assumes "dc_rx c \<noteq> []" and "\<not> dc_over (dw_step devs c)"
  shows "dw_step devs (c\<lparr>dc_rx := tl (dc_rx c)\<rparr>) = (dw_step devs c)\<lparr>dc_rx := tl (dc_rx (dw_step devs c))\<rparr>"
proof -
  obtain b bs where b: "dc_rx c = b # bs" using assms(1) by (cases "dc_rx c") simp_all
  show ?thesis
  proof (cases "dc_tx c")
    case Nil
    then show ?thesis by (simp add: dw_step_def)
  next
    case (Cons cmd cmds)
    obtain f ack as where r: "bus_command devs (dc_addr c) (dc_dir c) cmd (dc_dev c) = (f, ack, as)" by (metis prod_cases3)
    have "dw_step devs c = dw_command devs cmd (c\<lparr>dc_tx := cmds\<rparr>)" "dc_addr (c\<lparr>dc_tx := cmds\<rparr>) = dc_addr c"
      "dw_step devs (c\<lparr>dc_rx := bs\<rparr>) = dw_command devs cmd (c\<lparr>dc_rx := bs, dc_tx := cmds\<rparr>)"
      "dc_addr (c\<lparr>dc_rx := bs, dc_tx := cmds\<rparr>) = dc_addr c"
      using Cons by (simp_all add: dw_step_def dc_addr_def)
    note d = this
    have o: "ack \<longrightarrow> as = [] \<or> length (dc_rx c) < dc_depth c"
      using assms(2) unfolding d dw_command_def by (cases ack) (simp_all add: r)
    show ?thesis unfolding b list.sel d dw_command_def
      by (cases ack; cases "length (dc_rx c) < dc_depth c") (use o b in \<open>simp_all add: r\<close>)
  qed
qed

lemma steps_pop:
  assumes "dc_rx c \<noteq> []" and "\<not> dc_over (dw_steps devs n c)"
  shows "dw_steps devs n (c\<lparr>dc_rx := tl (dc_rx c)\<rparr>) = (dw_steps devs n c)\<lparr>dc_rx := tl (dc_rx (dw_steps devs n c))\<rparr>"
  using assms
proof (induction n arbitrary: c)
  case (Suc n)
  have "\<not> dc_over (dw_step devs c)" using Suc.prems(2) steps_over [of "dw_step devs c" devs n] by auto
  then have "dw_step devs (c\<lparr>dc_rx := tl (dc_rx c)\<rparr>) = (dw_step devs c)\<lparr>dc_rx := tl (dc_rx (dw_step devs c))\<rparr>"
    using step_pop Suc.prems(1) by blast
  moreover have "dc_rx (dw_step devs c) \<noteq> []" using step_rx [of devs c] Suc.prems(1) by auto
  ultimately show ?case using Suc.IH [of "dw_step devs c"] Suc.prems(2) by simp
qed simp

lemma settle_pop:
  assumes "dc_rx c = b # bs" and "\<not> dc_over (settle devs c)"
  shows "settle devs (c\<lparr>dc_rx := bs\<rparr>) = (settle devs c)\<lparr>dc_rx := tl (dc_rx (settle devs c))\<rparr>"
  using steps_pop [of c devs "length (dc_tx c)"] assms by (simp add: settle_def)

subsection \<open>What every access keeps\<close>

text \<open>
  The devices have seen only the address \<open>a\<close> since they were in the state \<open>f\<close>, and a stop condition
  if no transfer is in progress; after an abort the queue is empty; the FIFO has \<open>n\<close> places.
\<close>

definition dw_inv :: "'f i2c_devs \<Rightarrow> u8 \<Rightarrow> 'f \<Rightarrow> nat \<Rightarrow> 'f dw_ctl \<Rightarrow> bool" where
  "dw_inv devs a f n c = (bus_steps devs a f (dc_dev c) \<and>
     (dc_dir c = None \<longrightarrow> bus_visit devs a f (dc_dev c)) \<and> dc_addr c = a \<and> dc_depth c = n \<and>
     (dc_abrt c \<longrightarrow> dc_tx c = []) \<and> length (dc_tx c) \<le> n)"

lemma bus_command_steps:
  assumes "bus_steps devs a f g"
  shows "bus_steps devs a f (fst (bus_command devs a dir cmd g))"
    and "\<not> fst (snd (bus_command devs a dir cmd g)) \<or> bit cmd 9 \<Longrightarrow> bus_visit devs a f (fst (bus_command devs a dir cmd g))"
proof -
  obtain f1 ack where f1: "(if dir \<noteq> Some (bit cmd 8) \<or> bit cmd 10 then ib_start devs a (bit cmd 8) g else (g, True)) = (f1, ack)"
    by (metis prod.exhaust)
  then have 1: "bus_steps devs a f f1"
    using assms steps_start [OF assms, of "bit cmd 8"] by (auto split: if_splits)
  obtain f2 b where r: "ib_read devs f1 = (f2, b)" by (metis prod.exhaust)
  obtain f3 ack3 where w: "ib_write devs (ucast cmd) f1 = (f3, ack3)" by (metis prod.exhaust)
  have 2: "bus_steps devs a f f2" "bus_steps devs a f f3"
    using steps_read [OF 1] steps_write [OF 1, of "ucast cmd"] r w by simp_all
  show "bus_steps devs a f (fst (bus_command devs a dir cmd g))"
    using 1 2 unfolding bus_command_def Let_def f1 prod.case r w by (simp add: steps_stop)
  show "bus_visit devs a f (fst (bus_command devs a dir cmd g))"
    if "\<not> fst (snd (bus_command devs a dir cmd g)) \<or> bit cmd 9"
    using that 1 2 unfolding bus_command_def Let_def f1 prod.case r w bus_visit_def by (auto split: if_splits)
qed

lemma step_inv:
  assumes "dw_inv devs a f n c"
  shows "dw_inv devs a f n (dw_step devs c)"
proof (cases "dc_tx c")
  case (Cons cmd cmds)
  have i: "bus_steps devs a f (dc_dev c)" "dc_addr c = a" "dc_depth c = n" "\<not> dc_abrt c" "Suc (length cmds) \<le> n"
    using assms Cons by (auto simp: dw_inv_def)
  obtain g ack as where r: "bus_command devs a (dc_dir c) cmd (dc_dev c) = (g, ack, as)" by (metis prod_cases3)
  then have g: "bus_steps devs a f g" "\<not> ack \<or> bit cmd 9 \<Longrightarrow> bus_visit devs a f g"
    using bus_command_steps [OF i(1), of "dc_dir c" cmd] by simp_all
  have step: "dw_step devs c = dw_command devs cmd (c\<lparr>dc_tx := cmds\<rparr>)" "dc_addr (c\<lparr>dc_tx := cmds\<rparr>) = a"
    using Cons i(2) by (simp_all add: dw_step_def dc_addr_def)
  show ?thesis
    using i g unfolding step(1) dw_command_def step(2)
    by (cases ack) (simp_all add: r dw_inv_def dc_addr_def)
qed (use assms in simp)

lemma tick_inv:
  assumes "dw_inv devs a f n c"
  shows "dw_inv devs a f n (dw_tick devs pace c)"
proof -
  have "dw_inv devs a f n (dw_steps devs k c)" for k
    using assms by (induction k arbitrary: c) (simp_all add: step_inv)
  then show ?thesis by (simp add: dw_tick_def dw_inv_def dc_addr_def)
qed

lemma reg_read_fields [simp]:
  "dc_dev (fst (reg_read off c)) = dc_dev c" "dc_tx (fst (reg_read off c)) = dc_tx c"
  "dc_tar (fst (reg_read off c)) = dc_tar c" "dc_depth (fst (reg_read off c)) = dc_depth c"
  "dc_en (fst (reg_read off c)) = dc_en c" "dc_dir (fst (reg_read off c)) = dc_dir c"
  by (simp_all add: reg_read_def split: list.split)

lemma reg_read_abrt: "dc_abrt (fst (reg_read off c)) \<Longrightarrow> dc_abrt c"
  by (simp add: reg_read_def split: list.splits if_splits)

lemma reg_read_inv: "dw_inv devs a f n c \<Longrightarrow> dw_inv devs a f n (fst (reg_read off c))"
  using reg_read_abrt [of off c] by (auto simp: dw_inv_def dc_addr_def)

lemma reg_write_inv:
  assumes "dw_inv devs a f n c" and "off \<noteq> DW_IC_TAR"
  shows "dw_inv devs a f n (reg_write devs off v c)"
proof -
  have i: "bus_steps devs a f (dc_dev c)" "bus_steps devs a f (ib_stop devs (dc_dev c))"
      "dc_dir c = None \<longrightarrow> bus_visit devs a f (dc_dev c)" "bus_visit devs a f (ib_stop devs (dc_dev c))" "ucast (dc_tar c AND 0x7F) = a"
      "dc_depth c = n" "dc_abrt c \<longrightarrow> dc_tx c = []" "length (dc_tx c) \<le> n"
    using assms(1) steps_stop by (auto simp: dw_inv_def dc_addr_def bus_visit_def)
  consider "off = DW_IC_ENABLE" | "off = DW_IC_CON" "off \<noteq> DW_IC_ENABLE"
    | "off = DW_IC_DATA_CMD" "off \<noteq> DW_IC_ENABLE" "off \<noteq> DW_IC_CON"
    | "off \<noteq> DW_IC_DATA_CMD" "off \<noteq> DW_IC_ENABLE" "off \<noteq> DW_IC_CON" by blast
  then show ?thesis
    using i assms(2) by cases (simp_all add: reg_write_def dw_inv_def dc_addr_def)
qed

lemma dw_read_inv:
  "BaseAddress Ctx = base \<Longrightarrow> dw_inv devs a f n c \<Longrightarrow> dw_inv devs a f n (fst (DwI2cRead (dw_bus devs pace base) Ctx off c))"
  by (simp add: dw_bus_read reg_read_inv tick_inv)

lemma dw_write_inv:
  "BaseAddress Ctx = base \<Longrightarrow> dw_inv devs a f n c \<Longrightarrow> off \<noteq> DW_IC_TAR \<Longrightarrow>
    dw_inv devs a f n (DwI2cWrite (dw_bus devs pace base) Ctx off v c)"
  by (simp add: dw_bus_write reg_write_inv tick_inv)

end
