(* ===== verification/DwTransfer.thy ===== *)
theory DwTransfer
  imports DwController
begin

text \<open>
  The I2C driver on the model of the controller. First what holds whatever happens: a request returns,
  and the devices have seen only its address (\<open>dw_inv\<close>). Then what success means: the
  controller, once its queue is worked off, has executed exactly the commands (\<open>run\<close>); and on a
  controller that never stalls the waits end in time.
\<close>

unbundle bit_operations_syntax

subsection \<open>Polling\<close>

lemma poll_invariant:
  assumes "\<And>h. P h \<Longrightarrow> P (fst (round h))" and "P h"
  shows "P (fst (poll n round h))"
  using assms(2)
proof (induction n arbitrary: h)
  case (Suc n)
  obtain h1 st where "round h = (h1, st)" by (metis prod.exhaust)
  then show ?case using Suc assms(1) [OF Suc.prems] by (cases st) simp_all
qed simp

lemma poll_first: "0 < n \<Longrightarrow> round h = (h1, Some st) \<Longrightarrow> poll n round h = (h1, st)"
  by (cases n) simp_all

lemma poll_success:
  assumes "poll n round h = (h', EFI_SUCCESS)" and "P h"
    and "\<And>h h1. P h \<Longrightarrow> round h = (h1, None) \<Longrightarrow> P h1"
    and "\<And>h h1. P h \<Longrightarrow> round h = (h1, Some EFI_SUCCESS) \<Longrightarrow> Q h1"
  shows "Q h'"
  using assms(1,2)
proof (induction n arbitrary: h)
  case (Suc n)
  obtain h1 st where r: "round h = (h1, st)" by (metis prod.exhaust)
  show ?case
  proof (cases st)
    case None
    then show ?thesis using Suc assms(3) r by simp
  next
    case (Some st')
    then show ?thesis using Suc.prems assms(4) r by simp
  qed
qed simp

lemma poll_live:
  assumes "\<And>h. P h \<Longrightarrow> (\<exists>h1. round h = (h1, Some EFI_SUCCESS)) \<or> (\<exists>h1. round h = (h1, None) \<and> P h1 \<and> \<mu> h1 < \<mu> h)"
    and "P h" and "\<mu> h < n"
  shows "\<exists>h'. poll n round h = (h', EFI_SUCCESS)"
  using assms(2,3)
proof (induction n arbitrary: h)
  case (Suc n)
  then show ?case using assms(1) [OF Suc.prems(1)] by fastforce
qed simp

subsection \<open>What holds whatever happens\<close>

text \<open>The registers of the controller of a context.\<close>

abbreviation dw_regs_of :: "'f i2c_devs \<Rightarrow> (nat \<Rightarrow> nat) \<Rightarrow> dw_context \<Rightarrow> 'f dw_ctl mmio_bus" where
  "dw_regs_of devs pace Ctx \<equiv> dw_bus devs pace (BaseAddress Ctx)"

named_theorems dw_keeps \<open>the functions of the driver keep \<open>dw_inv\<close>\<close>

lemma read_keeps [dw_keeps]:
  "dw_inv devs a f n c \<Longrightarrow> dw_inv devs a f n (fst (DwI2cRead (dw_regs_of devs pace Ctx) Ctx off c))"
  by (simp add: dw_read_inv)

lemma write_keeps [dw_keeps]:
  "dw_inv devs a f n c \<Longrightarrow> off \<noteq> DW_IC_TAR \<Longrightarrow> dw_inv devs a f n (DwI2cWrite (dw_regs_of devs pace Ctx) Ctx off v c)"
  by (simp add: dw_write_inv)

lemma Enable_keeps [dw_keeps]:
  assumes "dw_inv devs a f n c"
  shows "dw_inv devs a f n (fst (DwI2cEnable (dw_regs_of devs pace Ctx) Ctx v c))"
  unfolding DwI2cEnable_def
  by (rule poll_invariant) (simp_all add: case_prod_beta dw_keeps assms, simp add: dw_regs dw_keeps assms)

lemma CheckErrors_keeps [dw_keeps]:
  "dw_inv devs a f n c \<Longrightarrow> dw_inv devs a f n (fst (DwI2cCheckErrors (dw_regs_of devs pace Ctx) Ctx c))"
  by (simp add: DwI2cCheckErrors_def Let_def case_prod_beta dw_keeps)

lemma abort_seen_keeps [dw_keeps]:
  "dw_inv devs a f n c \<Longrightarrow> dw_inv devs a f n (fst (abort_seen (dw_regs_of devs pace Ctx) Ctx c))"
  by (simp add: abort_seen_def case_prod_beta dw_keeps)

lemma waits_keep [dw_keeps]:
  assumes "dw_inv devs a f n c"
  shows "dw_inv devs a f n (fst (DwI2cWaitBusNotBusy (dw_regs_of devs pace Ctx) Ctx c))"
    "dw_inv devs a f n (fst (DwI2cWaitTxData (dw_regs_of devs pace Ctx) Ctx c))"
    "dw_inv devs a f n (fst (DwI2cWaitRxData (dw_regs_of devs pace Ctx) Ctx c))"
    "dw_inv devs a f n (fst (wait_tx_empty (dw_regs_of devs pace Ctx) Ctx c))"
    "dw_inv devs a f n (fst (wait_stop (dw_regs_of devs pace Ctx) Ctx c))"
  unfolding DwI2cWaitBusNotBusy_def DwI2cWaitTxData_def DwI2cWaitRxData_def wait_tx_empty_def wait_stop_def
  by (rule poll_invariant; simp add: case_prod_beta dw_keeps assms)+

lemma Finish_keeps [dw_keeps]:
  "dw_inv devs a f n c \<Longrightarrow> dw_inv devs a f n (fst (DwI2cFinish (dw_regs_of devs pace Ctx) Ctx c))"
  by (simp add: DwI2cFinish_def case_prod_beta dw_keeps)

lemma abort_keeps [dw_keeps]:
  "dw_inv devs a f n c \<Longrightarrow> dw_inv devs a f n (dw_abort (dw_regs_of devs pace Ctx) Ctx c)"
  by (simp add: dw_abort_def Let_def dw_keeps) (simp add: dw_regs dw_keeps)

lemma complete_keeps [dw_keeps]:
  "dw_inv devs a f n c \<Longrightarrow> dw_inv devs a f n (fst (dw_complete (dw_regs_of devs pace Ctx) Ctx c))"
  by (simp add: dw_complete_def Let_def case_prod_beta dw_keeps)

lemma data_cmd_keeps [dw_keeps]:
  "dw_inv devs a f n c \<Longrightarrow> dw_inv devs a f n (DwI2cWrite (dw_regs_of devs pace Ctx) Ctx DW_IC_DATA_CMD v c)"
  by (rule write_keeps) (simp_all add: dw_regs)

lemma read_bytes_total:
  assumes "dw_inv devs a f n c" and "L \<le> length buf" and "k \<le> L"
  shows "\<exists>c' st buf'. read_bytes (dw_regs_of devs pace Ctx) Ctx lst nr L k buf c = Some (c', st, buf') \<and>
    dw_inv devs a f n c' \<and> length buf' = length buf"
  using assms
proof (induction k arbitrary: c buf)
  case (Suc k)
  let ?B = "dw_regs_of devs pace Ctx"
  obtain c1 st1 where w: "DwI2cWaitTxData ?B Ctx c = (c1, st1)" by (metis prod.exhaust)
  then have i1: "dw_inv devs a f n c1" using waits_keep(2) [OF Suc.prems(1), of pace Ctx] by simp
  let ?cmd = "cmd_flags lst nr L (L - Suc k) DW_IC_DATA_CMD_CMD"
  obtain c3 st3 where r: "DwI2cWaitRxData ?B Ctx (DwI2cWrite ?B Ctx DW_IC_DATA_CMD ?cmd c1) = (c3, st3)" by (metis prod.exhaust)
  then have i3: "dw_inv devs a f n c3" using waits_keep(3) [OF data_cmd_keeps [OF i1, of pace Ctx ?cmd], of pace Ctx] by simp
  obtain c4 v where d: "DwI2cRead ?B Ctx DW_IC_DATA_CMD c3 = (c4, v)" by (metis prod.exhaust)
  then have i4: "dw_inv devs a f n c4" using read_keeps [OF i3, of pace Ctx DW_IC_DATA_CMD] by simp
  obtain c' st buf' where "read_bytes ?B Ctx lst nr L k (buf[L - Suc k := ucast v]) c4 = Some (c', st, buf')"
      "dw_inv devs a f n c'" "length buf' = length buf"
    using Suc.IH [OF i4, of "buf[L - Suc k := ucast v]"] Suc.prems(2,3) by auto
  then show ?case using w r d i1 i3 Suc.prems(2,3) by (auto simp: Let_def)
qed simp

lemma write_bytes_total:
  assumes "dw_inv devs a f n c" and "L \<le> length buf" and "k \<le> L"
  shows "\<exists>c' st. write_bytes (dw_regs_of devs pace Ctx) Ctx lst nr L k buf c = Some (c', st) \<and> dw_inv devs a f n c'"
  using assms
proof (induction k arbitrary: c)
  case (Suc k)
  let ?B = "dw_regs_of devs pace Ctx"
  obtain c1 st1 where w: "DwI2cWaitTxData ?B Ctx c = (c1, st1)" by (metis prod.exhaust)
  then have i1: "dw_inv devs a f n c1" using waits_keep(2) [OF Suc.prems(1), of pace Ctx] by simp
  note i2 = data_cmd_keeps [OF i1, of pace Ctx "cmd_flags lst nr L (L - Suc k) (ucast (buf ! (L - Suc k)))"]
  show ?case using w i1 Suc.IH [OF i2] Suc.prems(2,3) by (auto simp: Let_def)
qed simp

lemma process_op_total:
  assumes "dw_inv devs a f n c" and "op_len Op \<le> length (Buffer Op)"
  shows "\<exists>c' st Op'. process_op (dw_regs_of devs pace Ctx) Ctx lst nr Op c = Some (c', st, Op') \<and> dw_inv devs a f n c'"
proof (cases "op_reads Op")
  case True
  then show ?thesis using read_bytes_total [OF assms order.refl, of pace Ctx lst nr] by (auto simp: process_op_def)
next
  case False
  then show ?thesis using write_bytes_total [OF assms order.refl, of pace Ctx lst nr] by (auto simp: process_op_def)
qed

lemma process_ops_total:
  assumes "dw_inv devs a f n c" and "\<forall>Op \<in> set ops. op_len Op \<le> length (Buffer Op)"
  shows "\<exists>c' st ops'. process_ops (dw_regs_of devs pace Ctx) Ctx nr ops c = Some (c', st, ops') \<and> dw_inv devs a f n c'"
  using assms
proof (induction ops arbitrary: c nr)
  case (Cons Op ops)
  obtain c1 st1 Op1 where p: "process_op (dw_regs_of devs pace Ctx) Ctx (ops = []) nr Op c = Some (c1, st1, Op1)" "dw_inv devs a f n c1"
    using process_op_total [OF Cons.prems(1), of Op pace Ctx "ops = []" nr] Cons.prems(2) by auto
  then show ?case using Cons.IH [OF p(2), of True] Cons.prems(2) by (cases "EFI_ERROR st1") auto
qed simp

subsection \<open>Start and end of a request\<close>

text \<open>Enabling and disabling succeeds at the first look.\<close>

lemma Enable_runs:
  "DwI2cEnable (dw_regs_of devs pace Ctx) Ctx 0 c =
    (dw_tick devs pace (reg_write devs DW_IC_ENABLE 0 (dw_tick devs pace c)), EFI_SUCCESS)"
  "DwI2cEnable (dw_regs_of devs pace Ctx) Ctx 1 c =
    (dw_tick devs pace (reg_write devs DW_IC_ENABLE 1 (dw_tick devs pace c)), EFI_SUCCESS)"
proof -
  have "DwI2cEnable (dw_regs_of devs pace Ctx) Ctx v c =
      (dw_tick devs pace (reg_write devs DW_IC_ENABLE v (dw_tick devs pace c)), EFI_SUCCESS)"
    if "v = 0 \<or> v = 1" for v
    unfolding DwI2cEnable_def dw_bus_read [OF refl] dw_bus_write [OF refl]
    by (rule poll_first) (use that in \<open>auto simp: dw_polls reg_read_def reg_write_def dw_regs\<close>)
  then show "DwI2cEnable (dw_regs_of devs pace Ctx) Ctx 0 c =
      (dw_tick devs pace (reg_write devs DW_IC_ENABLE 0 (dw_tick devs pace c)), EFI_SUCCESS)"
    "DwI2cEnable (dw_regs_of devs pace Ctx) Ctx 1 c =
      (dw_tick devs pace (reg_write devs DW_IC_ENABLE 1 (dw_tick devs pace c)), EFI_SUCCESS)" by simp_all
qed

text \<open>No transfer is in progress.\<close>

definition dc_idle :: "'f dw_ctl \<Rightarrow> bool" where
  "dc_idle c = (dc_tx c = [] \<and> dc_dir c = None)"

lemma tick_idle: "dc_tx c = [] \<Longrightarrow> dw_tick devs pace c = c\<lparr>dc_time := Suc (dc_time c)\<rparr>"
  by (simp add: dw_tick_def)

lemma addr_bits: "ucast (ucast (A AND 0x3FF :: u64) AND 0x7F :: u32) = (ucast (A AND 0x7F) :: u8)"
proof (rule bit_word_eqI)
  have m: "(0x3FF :: u64) = mask 10" "(0x7F :: u32) = mask 7" "(0x7F :: u64) = mask 7" by (simp_all add: mask_eq_exp_minus_1)
  fix k assume "k < LENGTH(8)"
  then show "bit (ucast (ucast (A AND 0x3FF :: u64) AND 0x7F :: u32) :: u8) k = bit (ucast (A AND 0x7F) :: u8) k"
    unfolding m by (auto simp: bit_simps)
qed

lemma start_runs:
  assumes "dc_idle c" and "c' = dw_start (dw_regs_of devs pace Ctx) Ctx A c"
  shows "dc_idle c'" "dc_en c'" "dc_rx c' = []" "\<not> dc_abrt c'" "\<not> dc_stop c'" "\<not> dc_under c'" "\<not> dc_over c'"
    "dc_dev c' = dc_dev c" "dc_depth c' = dc_depth c" "dc_addr c' = bus_addr A"
  using assms(1) unfolding assms(2) dc_idle_def
  by (simp_all add: dw_start_def Let_def Enable_runs dw_bus_read dw_bus_write reg_write_def reg_read_def dw_regs tick_idle
      dc_addr_def bus_addr_def addr_bits)

lemma disable_idle: "dc_idle (fst (DwI2cEnable (dw_regs_of devs pace Ctx) Ctx 0 c))"
  by (simp add: Enable_runs reg_write_def dw_regs tick_idle dc_idle_def)

lemma abort_idle: "dc_idle (dw_abort (dw_regs_of devs pace Ctx) Ctx c)"
  by (simp add: dw_abort_def Let_def disable_idle)

lemma complete_idle: "dc_idle (fst (dw_complete (dw_regs_of devs pace Ctx) Ctx c))"
  by (simp add: dw_complete_def Let_def case_prod_beta disable_idle abort_idle)

lemma not_busy_idle:
  assumes "dc_idle c"
  shows "DwI2cWaitBusNotBusy (dw_regs_of devs pace Ctx) Ctx c = (dw_tick devs pace c, EFI_SUCCESS)"
  unfolding DwI2cWaitBusNotBusy_def dw_bus_read [OF refl]
  by (rule poll_first)
    (use assms in \<open>simp_all add: dw_polls reg_read_def dw_regs dw_bits ic_status_def tick_idle dc_idle_def\<close>)

subsection \<open>A transfer and its commands\<close>

text \<open>
  The controller is enabled, and is in the state \<open>s\<close> once its queue is worked off. No access of the
  driver finds a FIFO that has overflowed or is empty.
\<close>

definition run :: "'f i2c_devs \<Rightarrow> 'f dw_ctl \<Rightarrow> 'f dw_ctl \<Rightarrow> bool" where
  "run devs s c = (dc_en c \<and> settle devs c = s \<and> (dc_abrt c \<longrightarrow> dc_tx c = []) \<and> \<not> dc_under s \<and> \<not> dc_over s \<and>
     length (dc_tx c) \<le> dc_depth c)"

lemma steps_wf: "(dc_abrt c \<longrightarrow> dc_tx c = []) \<Longrightarrow> dc_abrt (dw_steps devs k c) \<longrightarrow> dc_tx (dw_steps devs k c) = []"
proof (induction k arbitrary: c)
  case (Suc k)
  have "dc_abrt (dw_step devs c) \<longrightarrow> dc_tx (dw_step devs c) = []"
  proof (cases "dc_tx c")
    case (Cons x xs)
    then show ?thesis using Suc.prems command_abrt [of devs x "c\<lparr>dc_tx := xs\<rparr>"] by (auto simp: dw_step_def)
  qed simp
  then show ?case using Suc.IH by simp
qed simp

lemma tick_shrinks: "length (dc_tx (dw_tick devs pace c)) \<le> length (dc_tx c) - pace (dc_time c)"
  using steps_shrink [of devs "pace (dc_time c)" c] by (simp add: dw_tick_def)

lemma run_tick: "run devs s c \<Longrightarrow> run devs s (dw_tick devs pace c)"
  using steps_wf [of c devs "pace (dc_time c)"] tick_shrinks [of devs pace c]
  by (auto simp: run_def) (simp_all add: dw_tick_def)

lemma run_quiet: "run devs s c \<Longrightarrow> dc_tx c = [] \<Longrightarrow> s = c\<lparr>dc_time := 0\<rparr>"
  by (simp add: run_def settle_empty)

lemma run_abrt:
  assumes "run devs s c" and "dc_abrt c"
  shows "dc_abrt s" and "dc_tx c = []"
  using assms run_quiet [OF assms(1)] by (auto simp: run_def)

lemma run_flags:
  assumes "run devs s c"
  shows "\<not> dc_under c" and "\<not> dc_over c"
  using assms settle_over [of c devs] by (auto simp: run_def)

lemma run_errors:
  assumes "run devs s c"
  shows "raw_intr c AND DW_IC_ERR_CONDITION = (if dc_abrt c then 0x40 else 0)"
  using run_flags [OF assms] by (simp add: raw_intr_def dw_bits)

lemma CheckErrors_run:
  assumes "run devs s c"
  shows "DwI2cCheckErrors (dw_regs_of devs pace Ctx) Ctx c = (let c1 = dw_tick devs pace c in
    if dc_abrt c1 then ((dw_tick devs pace c1)\<lparr>dc_abrt := False\<rparr>, 0x40) else (c1, 0))"
  using run_errors [OF run_tick [OF assms, of pace]]
  by (simp add: DwI2cCheckErrors_def dw_bus_read reg_read_def dw_regs Let_def) (simp add: dw_bits)

lemma abort_seen_run:
  assumes "run devs s c"
  shows "abort_seen (dw_regs_of devs pace Ctx) Ctx c = (c1, None) \<Longrightarrow> run devs s c1 \<and> length (dc_tx c1) \<le> length (dc_tx c)"
    and "abort_seen (dw_regs_of devs pace Ctx) Ctx c \<noteq> (c1, Some EFI_SUCCESS)"
    and "\<not> dc_abrt s \<Longrightarrow> abort_seen (dw_regs_of devs pace Ctx) Ctx c = (dw_tick devs pace c, None)"
  using run_tick [OF assms, of pace] run_abrt(1) [OF run_tick [OF assms, of pace]] tick_shrinks [of devs pace c]
  by (auto simp: abort_seen_def CheckErrors_run [OF assms] Let_def dw_bits split: if_splits)

text \<open>The context knows the depth of the FIFO.\<close>

definition fits :: "dw_context \<Rightarrow> nat \<Rightarrow> bool" where
  "fits Ctx n = (TxFifo Ctx = of_nat n \<and> 0 < n \<and> n \<le> 256)"

lemma fits_less:
  assumes "fits Ctx n" and "k \<le> n"
  shows "(of_nat k :: u32) < TxFifo Ctx \<longleftrightarrow> k < n"
proof -
  have "k < 2 ^ 32" "n < 2 ^ 32" using assms by (simp_all add: fits_def)
  then show ?thesis using assms(1) by (simp add: fits_def word_less_nat_alt unat_of_nat_small)
qed

lemma WaitTx_run:
  assumes "DwI2cWaitTxData (dw_regs_of devs pace Ctx) Ctx c = (c', EFI_SUCCESS)" and "run devs s c" and "fits Ctx (dc_depth s)"
  shows "run devs s c' \<and> length (dc_tx c') < dc_depth s"
  using assms(1,2) unfolding DwI2cWaitTxData_def dw_bus_read [OF refl]
proof (rule poll_success)
  let ?r = "\<lambda>h. case reg_read DW_IC_TXFLR (dw_tick devs pace h) of (h1, v) \<Rightarrow>
    if v < TxFifo Ctx then (h1, Some EFI_SUCCESS) else abort_seen (dw_regs_of devs pace Ctx) Ctx h1"
  fix h h1 assume h: "run devs s h"
  let ?h = "dw_tick devs pace h"
  have r: "?r h = (if length (dc_tx ?h) < dc_depth s then (?h, Some EFI_SUCCESS) else abort_seen (dw_regs_of devs pace Ctx) Ctx ?h)"
    using fits_less [OF assms(3)] run_tick [OF h, of pace] by (auto simp: reg_read_def dw_regs run_def)
  show "run devs s h1" if "?r h = (h1, None)"
    using that abort_seen_run(1) [OF run_tick [OF h]] unfolding r by (auto split: if_splits)
  show "run devs s h1 \<and> length (dc_tx h1) < dc_depth s" if "?r h = (h1, Some EFI_SUCCESS)"
    using that abort_seen_run(2) [OF run_tick [OF h]] run_tick [OF h] unfolding r by (auto split: if_splits)
qed

lemma WaitRx_run:
  assumes "DwI2cWaitRxData (dw_regs_of devs pace Ctx) Ctx c = (c', EFI_SUCCESS)" and "run devs s c"
  shows "run devs s c' \<and> dc_rx c' \<noteq> []"
  using assms(1,2) unfolding DwI2cWaitRxData_def dw_bus_read [OF refl]
proof (rule poll_success)
  let ?r = "\<lambda>h. case reg_read DW_IC_STATUS (dw_tick devs pace h) of (h1, v) \<Rightarrow>
    if v AND DW_IC_STATUS_RFNE \<noteq> 0 then (h1, Some EFI_SUCCESS) else abort_seen (dw_regs_of devs pace Ctx) Ctx h1"
  fix h h1 assume h: "run devs s h"
  let ?h = "dw_tick devs pace h"
  have r: "?r h = (if dc_rx ?h \<noteq> [] then (?h, Some EFI_SUCCESS) else abort_seen (dw_regs_of devs pace Ctx) Ctx ?h)"
    by (simp add: reg_read_def dw_regs ic_status_def dw_bits)
  show "run devs s h1" if "?r h = (h1, None)"
    using that abort_seen_run(1) [OF run_tick [OF h]] unfolding r by (auto split: if_splits)
  show "run devs s h1 \<and> dc_rx h1 \<noteq> []" if "?r h = (h1, Some EFI_SUCCESS)"
    using that abort_seen_run(2) [OF run_tick [OF h]] run_tick [OF h] unfolding r by (auto split: if_splits)
qed

lemma command_under [simp]: "dc_under (dw_command devs cmd c) = dc_under c" "dc_depth (dw_command devs cmd c) = dc_depth c"
  by (simp_all add: dw_command_def split: prod.split)

lemma put_run:
  assumes "run devs s c" and "length (dc_tx c) < dc_depth s" and "\<not> dc_over (imm devs s cmd)"
  shows "run devs (imm devs s cmd) (DwI2cWrite (dw_regs_of devs pace Ctx) Ctx DW_IC_DATA_CMD cmd c)"
proof -
  let ?c = "dw_tick devs pace c"
  have t: "run devs s ?c" "length (dc_tx ?c) < dc_depth ?c"
    using run_tick [OF assms(1), of pace] tick_shrinks [of devs pace c] assms(1,2) by (auto simp: run_def)
  show ?thesis
  proof (cases "dc_abrt ?c")
    case True
    then have "dc_abrt s" using run_abrt(1) [OF t(1)] by simp
    then show ?thesis using True t(1) by (simp add: dw_bus_write reg_write_def dw_regs imm_def)
  next
    case False
    have w: "DwI2cWrite (dw_regs_of devs pace Ctx) Ctx DW_IC_DATA_CMD cmd c = ?c\<lparr>dc_tx := dc_tx ?c @ [cmd]\<rparr>"
      using False t by (simp add: dw_bus_write reg_write_def dw_regs run_def)
    show ?thesis unfolding w
      using t False assms(3) settle_put [OF False, of devs cmd] by (auto simp: run_def imm_def)
  qed
qed

lemma byte_in_word: "ucast (ucast (b :: u8) :: u32) = b"
  by (rule bit_word_eqI) (simp add: bit_simps)

lemma pop_run:
  assumes "run devs s c" and "dc_rx c \<noteq> []" and "dc_rx s = [b]"
  shows "\<exists>c' v. DwI2cRead (dw_regs_of devs pace Ctx) Ctx DW_IC_DATA_CMD c = (c', v) \<and> ucast v = b \<and>
    run devs (s\<lparr>dc_rx := []\<rparr>) c'"
proof -
  let ?c = "dw_tick devs pace c"
  have t: "run devs s ?c" using run_tick [OF assms(1)] .
  then have s: "settle devs ?c = s" by (simp add: run_def)
  obtain xs ys where "dc_rx ?c = dc_rx c @ xs" "dc_rx s = dc_rx ?c @ ys"
    using tick_rx [of devs pace c] settle_rx [of devs ?c] s by metis
  then have rx: "dc_rx ?c = [b]" using assms(2,3) by (cases "dc_rx c") auto
  have "settle devs (?c\<lparr>dc_rx := []\<rparr>) = s\<lparr>dc_rx := []\<rparr>"
    using settle_pop [OF rx, of devs] t assms(3) by (simp add: run_def)
  then have "run devs (s\<lparr>dc_rx := []\<rparr>) (?c\<lparr>dc_rx := []\<rparr>)" using t by (simp add: run_def)
  then show ?thesis using rx by (simp add: dw_bus_read reg_read_def dw_regs byte_in_word)
qed

subsection \<open>A controller that never stalls\<close>

definition bus_never_stalls :: "(nat \<Rightarrow> nat) \<Rightarrow> bool" where
  "bus_never_stalls pace = (\<forall>t. 0 < pace t)"

lemma tick_progress:
  assumes "bus_never_stalls pace" and "dc_tx c \<noteq> []"
  shows "length (dc_tx (dw_tick devs pace c)) < length (dc_tx c)"
proof -
  have "0 < pace (dc_time c)" using assms(1) by (simp add: bus_never_stalls_def)
  then show ?thesis using tick_shrinks [of devs pace c] assms(2) by (cases "dc_tx c") simp_all
qed

lemma WaitTx_live:
  assumes "run devs s c" and "fits Ctx (dc_depth s)" and "bus_never_stalls pace"
  shows "\<exists>c'. DwI2cWaitTxData (dw_regs_of devs pace Ctx) Ctx c = (c', EFI_SUCCESS)"
proof -
  let ?c = "dw_tick devs pace c"
  have "length (dc_tx ?c) < dc_depth s"
  proof (cases "dc_tx c = []")
    case True
    then show ?thesis using tick_shrinks [of devs pace c] assms(2) by (simp add: fits_def)
  next
    case False
    then show ?thesis using tick_progress [OF assms(3), of c devs] assms(1) by (auto simp: run_def)
  qed
  then have "of_nat (length (dc_tx ?c)) < TxFifo Ctx" using fits_less [OF assms(2)] by simp
  then have "DwI2cWaitTxData (dw_regs_of devs pace Ctx) Ctx c = (?c, EFI_SUCCESS)"
    unfolding DwI2cWaitTxData_def dw_bus_read [OF refl] by (intro poll_first) (simp_all add: dw_polls reg_read_def dw_regs)
  then show ?thesis by blast
qed

lemma run_queue_small: "run devs s c \<Longrightarrow> fits Ctx (dc_depth s) \<Longrightarrow> length (dc_tx c) < DW_MAX_TRANSFER_POLL_COUNT"
  by (auto simp: run_def fits_def dw_polls)

lemma WaitRx_live:
  assumes "run devs s c" and "fits Ctx (dc_depth s)" and "bus_never_stalls pace" and "\<not> dc_abrt s" and "dc_rx s \<noteq> []"
  shows "\<exists>c'. DwI2cWaitRxData (dw_regs_of devs pace Ctx) Ctx c = (c', EFI_SUCCESS)"
  unfolding DwI2cWaitRxData_def dw_bus_read [OF refl]
proof (rule poll_live [where P = "run devs s" and \<mu> = "\<lambda>h. length (dc_tx h)"])
  fix h assume h: "run devs s h"
  let ?h = "dw_tick devs pace h"
  let ?r = "case reg_read DW_IC_STATUS ?h of (h1, v) \<Rightarrow>
    if v AND DW_IC_STATUS_RFNE \<noteq> 0 then (h1, Some EFI_SUCCESS) else abort_seen (dw_regs_of devs pace Ctx) Ctx h1"
  show "(\<exists>h1. ?r = (h1, Some EFI_SUCCESS)) \<or> (\<exists>h1. ?r = (h1, None) \<and> run devs s h1 \<and> length (dc_tx h1) < length (dc_tx h))"
  proof (cases "dc_rx ?h = []")
    case False
    then show ?thesis by (simp add: reg_read_def dw_regs ic_status_def dw_bits)
  next
    case True
    then have "?r = (dw_tick devs pace ?h, None)"
      using abort_seen_run(3) [OF run_tick [OF h] assms(4), of pace Ctx pace] by (simp add: reg_read_def dw_regs ic_status_def dw_bits)
    moreover have "dc_tx h \<noteq> []"
    proof
      assume "dc_tx h = []"
      then have "dc_rx s = dc_rx ?h" using run_quiet [OF h] by (simp add: tick_idle)
      then show False using True assms(5) by simp
    qed
    ultimately show ?thesis
      using tick_progress [OF assms(3), of h devs] tick_shrinks [of devs pace ?h] run_tick [OF run_tick [OF h]] by fastforce
  qed
qed (use assms run_queue_small in auto)

subsection \<open>The end of a request\<close>

lemma wait_tx_empty_run:
  assumes "wait_tx_empty (dw_regs_of devs pace Ctx) Ctx c = (c', EFI_SUCCESS)" and "run devs s c"
  shows "\<exists>t. c' = s\<lparr>dc_time := t\<rparr>"
  using assms unfolding wait_tx_empty_def dw_bus_read [OF refl]
proof (rule poll_success)
  let ?r = "\<lambda>h. case reg_read DW_IC_STATUS (dw_tick devs pace h) of (h1, v) \<Rightarrow>
    (h1, if v AND DW_IC_STATUS_TFE \<noteq> 0 then Some EFI_SUCCESS else None)"
  fix h h1 assume h: "run devs s h"
  let ?h = "dw_tick devs pace h"
  have r: "?r h = (?h, if dc_tx ?h = [] then Some EFI_SUCCESS else None)"
    by (simp add: reg_read_def dw_regs ic_status_def dw_bits)
  show "run devs s h1" if "?r h = (h1, None)" using that run_tick [OF h] unfolding r by auto
  show "\<exists>t. h1 = s\<lparr>dc_time := t\<rparr>" if "?r h = (h1, Some EFI_SUCCESS)"
  proof -
    have "h1 = ?h" "dc_tx ?h = []" using that unfolding r by (simp_all split: if_splits)
    then have "h1 = s\<lparr>dc_time := dc_time h1\<rparr>" using run_quiet [OF run_tick [OF h]] by simp
    then show ?thesis by blast
  qed
qed

lemma wait_empty_live:
  assumes "run devs s c" and "fits Ctx (dc_depth s)" and "bus_never_stalls pace"
  shows "\<exists>c'. wait_tx_empty (dw_regs_of devs pace Ctx) Ctx c = (c', EFI_SUCCESS)"
  unfolding wait_tx_empty_def dw_bus_read [OF refl]
proof (rule poll_live [where P = "run devs s" and \<mu> = "\<lambda>h. length (dc_tx h)"])
  fix h assume h: "run devs s h"
  let ?h = "dw_tick devs pace h"
  let ?r = "case reg_read DW_IC_STATUS ?h of (h1, v) \<Rightarrow> (h1, if v AND DW_IC_STATUS_TFE \<noteq> 0 then Some EFI_SUCCESS else None)"
  have r: "?r = (?h, if dc_tx ?h = [] then Some EFI_SUCCESS else None)"
    by (simp add: reg_read_def dw_regs ic_status_def dw_bits)
  have "dc_tx h \<noteq> []" if "dc_tx ?h \<noteq> []" using that tick_shrinks [of devs pace h] by auto
  then show "(\<exists>h1. ?r = (h1, Some EFI_SUCCESS)) \<or> (\<exists>h1. ?r = (h1, None) \<and> run devs s h1 \<and> length (dc_tx h1) < length (dc_tx h))"
    unfolding r using tick_progress [OF assms(3), of h devs] run_tick [OF h] by auto
qed (use assms run_queue_small in auto)

lemma wait_stop_run:
  assumes "dc_tx s = []"
  shows "wait_stop (dw_regs_of devs pace Ctx) Ctx (s\<lparr>dc_time := t\<rparr>) = (c', EFI_SUCCESS) \<Longrightarrow>
      \<exists>t. c' = s\<lparr>dc_time := t, dc_stop := False\<rparr>"
    and "dc_stop s \<Longrightarrow> \<exists>t'. wait_stop (dw_regs_of devs pace Ctx) Ctx (s\<lparr>dc_time := t\<rparr>) =
      (s\<lparr>dc_time := t', dc_stop := False\<rparr>, EFI_SUCCESS)"
proof -
  let ?r = "\<lambda>h. case reg_read DW_IC_RAW_INTR_STAT (dw_tick devs pace h) of (h1, v) \<Rightarrow>
    if v AND DW_IC_INTR_STOP_DET \<noteq> 0
    then (fst (reg_read DW_IC_CLR_STOP_DET (dw_tick devs pace h1)), Some EFI_SUCCESS) else (h1, None)"
  have r: "?r (s\<lparr>dc_time := t\<rparr>) = (if dc_stop s then (s\<lparr>dc_time := Suc (Suc t), dc_stop := False\<rparr>, Some EFI_SUCCESS)
      else (s\<lparr>dc_time := Suc t\<rparr>, None))" for t
    using assms by (simp add: tick_idle reg_read_def dw_regs raw_intr_def dw_bits)
  show "\<exists>t. c' = s\<lparr>dc_time := t, dc_stop := False\<rparr>"
    if "wait_stop (dw_regs_of devs pace Ctx) Ctx (s\<lparr>dc_time := t\<rparr>) = (c', EFI_SUCCESS)"
    using that unfolding wait_stop_def dw_bus_read [OF refl]
  proof (rule poll_success [where P = "\<lambda>h. \<exists>t. h = s\<lparr>dc_time := t\<rparr>"])
    fix h h1 assume "\<exists>t. h = s\<lparr>dc_time := t\<rparr>"
    then obtain t where t: "h = s\<lparr>dc_time := t\<rparr>" by blast
    show "\<exists>t. h1 = s\<lparr>dc_time := t\<rparr>" if "?r h = (h1, None)"
      using that unfolding t r by (auto split: if_splits)
    show "\<exists>t. h1 = s\<lparr>dc_time := t, dc_stop := False\<rparr>" if "?r h = (h1, Some EFI_SUCCESS)"
      using that unfolding t r by (auto split: if_splits)
  qed auto
  show "\<exists>t'. wait_stop (dw_regs_of devs pace Ctx) Ctx (s\<lparr>dc_time := t\<rparr>) =
      (s\<lparr>dc_time := t', dc_stop := False\<rparr>, EFI_SUCCESS)" if "dc_stop s"
  proof -
    have "?r (s\<lparr>dc_time := t\<rparr>) = (s\<lparr>dc_time := Suc (Suc t), dc_stop := False\<rparr>, Some EFI_SUCCESS)"
      unfolding r using that by simp
    then show ?thesis unfolding wait_stop_def dw_bus_read [OF refl]
      by (intro exI [of _ "Suc (Suc t)"] poll_first) (simp add: dw_polls, assumption)
  qed
qed

text \<open>The waits end with success or an error.\<close>

lemma poll_status:
  assumes "\<And>h. snd (round h) \<in> {None, Some EFI_SUCCESS, Some EFI_ABORTED}"
  shows "snd (poll n round h) \<in> {EFI_SUCCESS, EFI_ABORTED, EFI_TIMEOUT}"
proof (induction n arbitrary: h)
  case (Suc n)
  obtain h1 st where "round h = (h1, st)" by (metis prod.exhaust)
  then show ?case using Suc [of h1] assms [of h] by (cases st) auto
qed simp

lemma wait_status:
  "snd (DwI2cWaitTxData bus Ctx c) \<in> {EFI_SUCCESS, EFI_ABORTED, EFI_TIMEOUT}"
  "snd (DwI2cWaitRxData bus Ctx c) \<in> {EFI_SUCCESS, EFI_ABORTED, EFI_TIMEOUT}"
  "snd (wait_tx_empty bus Ctx c) \<in> {EFI_SUCCESS, EFI_ABORTED, EFI_TIMEOUT}"
  "snd (wait_stop bus Ctx c) \<in> {EFI_SUCCESS, EFI_ABORTED, EFI_TIMEOUT}"
  "snd (DwI2cWaitBusNotBusy bus Ctx c) \<in> {EFI_SUCCESS, EFI_ABORTED, EFI_TIMEOUT}"
  unfolding DwI2cWaitTxData_def DwI2cWaitRxData_def wait_tx_empty_def wait_stop_def DwI2cWaitBusNotBusy_def
  by (rule poll_status; simp add: case_prod_beta abort_seen_def)+

lemma wait_error: "st \<in> {EFI_SUCCESS, EFI_ABORTED, EFI_TIMEOUT} \<Longrightarrow> EFI_ERROR st \<longleftrightarrow> st \<noteq> EFI_SUCCESS"
  by auto

lemma Finish_run:
  assumes "run devs s c"
  shows "DwI2cFinish (dw_regs_of devs pace Ctx) Ctx c = (c', EFI_SUCCESS) \<Longrightarrow> \<exists>t. c' = s\<lparr>dc_time := t, dc_stop := False\<rparr>"
    and "fits Ctx (dc_depth s) \<Longrightarrow> bus_never_stalls pace \<Longrightarrow> dc_stop s \<Longrightarrow>
      \<exists>t. DwI2cFinish (dw_regs_of devs pace Ctx) Ctx c = (s\<lparr>dc_time := t, dc_stop := False\<rparr>, EFI_SUCCESS)"
proof -
  have s: "dc_tx s = []" using assms by (auto simp: run_def)
  obtain c1 st1 where w: "wait_tx_empty (dw_regs_of devs pace Ctx) Ctx c = (c1, st1)" by (metis prod.exhaust)
  then have st1: "EFI_ERROR st1 \<longleftrightarrow> st1 \<noteq> EFI_SUCCESS"
    using wait_error [OF wait_status(3) [of "dw_regs_of devs pace Ctx" Ctx c]] by simp
  show "\<exists>t. c' = s\<lparr>dc_time := t, dc_stop := False\<rparr>" if "DwI2cFinish (dw_regs_of devs pace Ctx) Ctx c = (c', EFI_SUCCESS)"
  proof -
    have "st1 = EFI_SUCCESS" "wait_stop (dw_regs_of devs pace Ctx) Ctx c1 = (c', EFI_SUCCESS)"
      using that w st1 by (simp_all add: DwI2cFinish_def split: if_splits)
    then show ?thesis using wait_tx_empty_run [OF _ assms] wait_stop_run(1) [OF s] w by blast
  qed
  show "\<exists>t. DwI2cFinish (dw_regs_of devs pace Ctx) Ctx c = (s\<lparr>dc_time := t, dc_stop := False\<rparr>, EFI_SUCCESS)"
    if "fits Ctx (dc_depth s)" "bus_never_stalls pace" "dc_stop s"
  proof -
    have st: "st1 = EFI_SUCCESS" using wait_empty_live [OF assms that(1,2)] w by simp
    then obtain t where "c1 = s\<lparr>dc_time := t\<rparr>" using wait_tx_empty_run [OF _ assms] w by blast
    then show ?thesis using wait_stop_run(2) [OF s that(3)] w st by (simp add: DwI2cFinish_def)
  qed
qed

lemma complete_status: "snd (dw_complete bus Ctx c) = EFI_SUCCESS \<or> EFI_ERROR (snd (dw_complete bus Ctx c))"
  by (auto simp: dw_complete_def Let_def case_prod_beta)

lemma complete_run:
  assumes "run devs s c"
  shows "dw_complete (dw_regs_of devs pace Ctx) Ctx c = (c', EFI_SUCCESS) \<Longrightarrow>
      \<not> dc_abrt s \<and> (dc_dir s = None \<longrightarrow> dc_dev c' = dc_dev s)"
    and "fits Ctx (dc_depth s) \<Longrightarrow> bus_never_stalls pace \<Longrightarrow> dc_stop s \<Longrightarrow> \<not> dc_abrt s \<Longrightarrow>
      \<exists>c'. dw_complete (dw_regs_of devs pace Ctx) Ctx c = (c', EFI_SUCCESS)"
proof -
  have s: "dc_tx s = []" using assms by (auto simp: run_def)
  let ?B = "dw_regs_of devs pace Ctx"
  have end_of: "DwI2cFinish ?B Ctx c = (s\<lparr>dc_time := t, dc_stop := False\<rparr>, EFI_SUCCESS) \<Longrightarrow>
      (\<exists>c3. dw_complete ?B Ctx c = (c3, if dc_abrt s then EFI_NO_RESPONSE else EFI_SUCCESS) \<and>
        (\<not> dc_abrt s \<longrightarrow> dc_dir s = None \<longrightarrow> dc_dev c3 = dc_dev s))" for t
  proof -
    assume fin: "DwI2cFinish ?B Ctx c = (s\<lparr>dc_time := t, dc_stop := False\<rparr>, EFI_SUCCESS)"
    let ?c = "s\<lparr>dc_time := t, dc_stop := False\<rparr>"
    have r: "run devs (s\<lparr>dc_time := 0, dc_stop := False\<rparr>) ?c"
      using assms s by (auto simp: run_def settle_empty)
    have k: "dw_tick devs pace ?c = s\<lparr>dc_time := Suc t, dc_stop := False\<rparr>" using s by (simp add: tick_idle)
    show ?thesis
    proof (cases "dc_abrt s")
      case True
      then show ?thesis using CheckErrors_run [OF r, of pace Ctx] k
        by (simp add: dw_complete_def fin Let_def dw_bits case_prod_beta)
    next
      case False
      have e: "DwI2cCheckErrors ?B Ctx ?c = (s\<lparr>dc_time := Suc t, dc_stop := False\<rparr>, 0)"
        using CheckErrors_run [OF r, of pace Ctx] k False by simp
      have "dc_dev (fst (DwI2cEnable ?B Ctx 0 (fst (DwI2cWaitBusNotBusy ?B Ctx (s\<lparr>dc_time := Suc t, dc_stop := False\<rparr>))))) = dc_dev s"
        if "dc_dir s = None"
        using s that not_busy_idle [of "s\<lparr>dc_time := Suc t, dc_stop := False\<rparr>" devs pace Ctx]
        by (simp add: dc_idle_def Enable_runs reg_write_def dw_regs tick_idle)
      then show ?thesis using False by (simp add: dw_complete_def fin e Let_def)
    qed
  qed
  show "\<not> dc_abrt s \<and> (dc_dir s = None \<longrightarrow> dc_dev c' = dc_dev s)" if "dw_complete ?B Ctx c = (c', EFI_SUCCESS)"
  proof -
    obtain c1 st1 where f: "DwI2cFinish ?B Ctx c = (c1, st1)" by (metis prod.exhaust)
    have "st1 = EFI_SUCCESS"
    proof (rule ccontr)
      assume "st1 \<noteq> EFI_SUCCESS"
      moreover have "st1 \<in> {EFI_SUCCESS, EFI_ABORTED, EFI_TIMEOUT}"
        using f wait_status(4) [of ?B Ctx] by (auto simp: DwI2cFinish_def case_prod_beta split: if_splits) (metis snd_conv)
      ultimately show False using that f by (auto simp: dw_complete_def)
    qed
    then obtain t where "c1 = s\<lparr>dc_time := t, dc_stop := False\<rparr>" using Finish_run(1) [OF assms] f by blast
    then show ?thesis using end_of [of t] f \<open>st1 = EFI_SUCCESS\<close> that by (auto split: if_splits)
  qed
  show "\<exists>c'. dw_complete ?B Ctx c = (c', EFI_SUCCESS)"
    if "fits Ctx (dc_depth s)" "bus_never_stalls pace" "dc_stop s" "\<not> dc_abrt s"
    using Finish_run(2) [OF assms that(1-3)] end_of that(4) by fastforce
qed

end
