(* ===== verification/DwRequest.thy ===== *)
theory DwRequest
  imports DwTransfer
begin

text \<open>
  The commands of a request are the transaction: what the settled controller does with the commands
  that the driver writes for each operation, and with that the contract of theory \<open>I2cMaster\<close>, the
  interpretation \<open>dw_bus_master\<close>.
\<close>

unbundle bit_operations_syntax

subsection \<open>The command of a byte\<close>

lemma cmd_flags_bits:
  "bit (cmd_flags lst nr L i x) 8 = bit x 8" "bit (cmd_flags lst nr L i x) 9 = (bit x 9 \<or> lst \<and> i = L - 1)"
  "bit (cmd_flags lst nr L i x) 10 = (bit x 10 \<or> nr \<and> i = 0)"
  by (auto simp: cmd_flags_def Let_def dw_bits bit_or_iff)

lemma low_bits: "k < 8 \<Longrightarrow> \<not> bit (0x200 :: u32) k \<and> \<not> bit (0x400 :: u32) k"
proof -
  assume "k < 8"
  then have "k = 0 \<or> k = 1 \<or> k = 2 \<or> k = 3 \<or> k = 4 \<or> k = 5 \<or> k = 6 \<or> k = 7" by arith
  then show ?thesis by auto
qed

lemma cmd_flags_byte: "(ucast (cmd_flags lst nr L i x) :: u8) = ucast x"
proof (rule bit_word_eqI)
  fix k assume "k < LENGTH(8)"
  then show "bit (ucast (cmd_flags lst nr L i x) :: u8) k = bit (ucast x :: u8) k"
    using low_bits [of k] unfolding cmd_flags_def Let_def dw_bits by (auto simp: bit_simps)
qed

lemma byte_bits: "\<not> bit (ucast (d :: u8) :: u32) 8" "\<not> bit (ucast (d :: u8) :: u32) 9" "\<not> bit (ucast (d :: u8) :: u32) 10"
  by (auto simp: bit_simps dest: bit_imp_le_length)

lemma read_bits: "bit DW_IC_DATA_CMD_CMD 8" "\<not> bit DW_IC_DATA_CMD_CMD 9" "\<not> bit DW_IC_DATA_CMD_CMD 10"
  by (simp_all add: dw_bits)

lemmas cmd_simps = cmd_flags_bits cmd_flags_byte byte_bits read_bits byte_in_word

text \<open>The end of an operation: a stop condition, if it is the last one.\<close>

definition fin :: "'f i2c_devs \<Rightarrow> bool \<Rightarrow> 'f dw_ctl \<Rightarrow> 'f dw_ctl" where
  "fin devs lst s = (if lst then s\<lparr>dc_dev := ib_stop devs (dc_dev s), dc_dir := None, dc_stop := True\<rparr> else s)"

text \<open>A settled controller between two bytes.\<close>

definition clean :: "'f dw_ctl \<Rightarrow> bool" where
  "clean s = (\<not> dc_abrt s \<and> dc_rx s = [] \<and> \<not> dc_over s \<and> 0 < dc_depth s)"

lemma clean_upd [simp]:
  "clean (s\<lparr>dc_dev := g\<rparr>) = clean s" "clean (s\<lparr>dc_dir := d\<rparr>) = clean s" "clean (s\<lparr>dc_stop := b\<rparr>) = clean s"
  by (simp_all add: clean_def)

lemma clean_fin [simp]: "clean (fin devs lst s) = clean s"
  by (simp add: fin_def)

lemma addr_upd [simp]:
  "dc_addr (s\<lparr>dc_dev := g\<rparr>) = dc_addr s" "dc_addr (s\<lparr>dc_dir := d\<rparr>) = dc_addr s"
  "dc_addr (s\<lparr>dc_stop := b\<rparr>) = dc_addr s" "dc_addr (s\<lparr>dc_rx := r\<rparr>) = dc_addr s"
  by (simp_all add: dc_addr_def)

lemma fin_fields [simp]:
  "dc_addr (fin devs lst s) = dc_addr s" "dc_depth (fin devs lst s) = dc_depth s" "dc_abrt (fin devs lst s) = dc_abrt s"
  "dc_rx (fin devs lst s) = dc_rx s"
  by (simp_all add: fin_def)

lemma imm_write:
  assumes "clean s" and "\<not> bit cmd 8" and "dc_dir s = Some False" and "\<not> bit cmd 10"
  shows "imm devs s cmd = (case ib_write devs (ucast cmd) (dc_dev s) of (g, ack) \<Rightarrow>
    if ack then fin devs (bit cmd 9) (s\<lparr>dc_dev := g, dc_dir := Some False\<rparr>)
    else s\<lparr>dc_dev := ib_stop devs g, dc_dir := None, dc_tx := [], dc_abrt := True, dc_stop := True\<rparr>)"
  using assms by (cases s) (auto simp: imm_def dw_command_def bus_command_def clean_def fin_def dc_addr_def split: prod.split)

lemma imm_write_start:
  assumes "clean s" and "\<not> bit cmd 8" and "dc_dir s = None \<or> bit cmd 10"
  shows "imm devs s cmd = (case ib_start devs (dc_addr s) False (dc_dev s) of (f1, ack) \<Rightarrow>
    if \<not> ack then s\<lparr>dc_dev := ib_stop devs f1, dc_dir := None, dc_tx := [], dc_abrt := True, dc_stop := True\<rparr>
    else (case ib_write devs (ucast cmd) f1 of (g, ack) \<Rightarrow>
      if ack then fin devs (bit cmd 9) (s\<lparr>dc_dev := g, dc_dir := Some False\<rparr>)
      else s\<lparr>dc_dev := ib_stop devs g, dc_dir := None, dc_tx := [], dc_abrt := True, dc_stop := True\<rparr>))"
  using assms by (cases s) (auto simp: imm_def dw_command_def bus_command_def clean_def fin_def dc_addr_def split: prod.split)

lemma imm_read:
  assumes "clean s" and "bit cmd 8" and "dc_dir s = Some True" and "\<not> bit cmd 10"
  shows "imm devs s cmd = (case ib_read devs (dc_dev s) of (g, b) \<Rightarrow>
    fin devs (bit cmd 9) (s\<lparr>dc_dev := g, dc_dir := Some True, dc_rx := [b]\<rparr>))"
  using assms by (cases s) (auto simp: imm_def dw_command_def bus_command_def clean_def fin_def dc_addr_def split: prod.split)

lemma imm_read_start:
  assumes "clean s" and "bit cmd 8" and "dc_dir s = None \<or> bit cmd 10"
  shows "imm devs s cmd = (case ib_start devs (dc_addr s) True (dc_dev s) of (f1, ack) \<Rightarrow>
    if \<not> ack then s\<lparr>dc_dev := ib_stop devs f1, dc_dir := None, dc_tx := [], dc_abrt := True, dc_stop := True\<rparr>
    else (case ib_read devs f1 of (g, b) \<Rightarrow>
      fin devs (bit cmd 9) (s\<lparr>dc_dev := g, dc_dir := Some True, dc_rx := [b]\<rparr>)))"
  using assms by (cases s) (auto simp: imm_def dw_command_def bus_command_def clean_def fin_def dc_addr_def split: prod.split)

lemma imm_abrt [simp]: "dc_abrt s \<Longrightarrow> imm devs s cmd = s"
  by (simp add: imm_def)

lemma imm_depth [simp]: "dc_depth (imm devs s cmd) = dc_depth s"
  by (simp add: imm_def)

lemma imm_over_write: "\<not> bit cmd 8 \<Longrightarrow> dc_over (imm devs s cmd) = dc_over s"
  by (auto simp: imm_def dw_command_def bus_command_def Let_def split: prod.split if_splits)

subsection \<open>Writes\<close>

abbreviation write_cmds :: "bool \<Rightarrow> bool \<Rightarrow> nat \<Rightarrow> bytes \<Rightarrow> nat \<Rightarrow> u32 list" where
  "write_cmds lst nr L buf i \<equiv> map (\<lambda>j. cmd_flags lst nr L j (ucast (buf ! j))) [i..<L]"

lemma foldl_abrt: "dc_abrt s \<Longrightarrow> foldl (imm devs) s cs = s"
  by (induction cs) simp_all

lemma fin_False [simp]: "fin devs False s = s"
  by (simp add: fin_def)

text \<open>The bytes from \<open>i\<close> on, once the transfer has begun.\<close>

lemma writes_imm:
  assumes "clean s" and "dc_dir s = Some False" and "0 < i" and "i < L" and "L \<le> length buf"
  shows "case dev_writes devs (take (L - i) (drop i buf)) (dc_dev s) of
      None \<Rightarrow> dc_abrt (foldl (imm devs) s (write_cmds lst nr L buf i))
    | Some g \<Rightarrow> foldl (imm devs) s (write_cmds lst nr L buf i) = fin devs lst (s\<lparr>dc_dev := g, dc_dir := Some False\<rparr>)"
  using assms
proof (induction "L - i" arbitrary: i s)
  case (Suc k)
  have up: "[i..<L] = i # [Suc i..<L]" using Suc.prems(4) by (rule upt_conv_Cons)
  have tk: "take (L - i) (drop i buf) = buf ! i # take (L - Suc i) (drop (Suc i) buf)"
    using Suc.prems(4,5) by (simp add: Cons_nth_drop_Suc [symmetric] Suc_diff_Suc [symmetric])
  let ?cmd = "cmd_flags lst nr L i (ucast (buf ! i))"
  obtain g ack where w: "ib_write devs (buf ! i) (dc_dev s) = (g, ack)" by (metis prod.exhaust)
  have im: "imm devs s ?cmd = (if ack then fin devs (lst \<and> i = L - 1) (s\<lparr>dc_dev := g, dc_dir := Some False\<rparr>)
      else s\<lparr>dc_dev := ib_stop devs g, dc_dir := None, dc_tx := [], dc_abrt := True, dc_stop := True\<rparr>)"
    using imm_write [OF Suc.prems(1) _ Suc.prems(2), of ?cmd devs] Suc.prems(3) w by (simp add: cmd_simps)
  show ?case
  proof (cases ack)
    case False
    then show ?thesis using w im by (simp add: up tk foldl_abrt)
  next
    case True
    show ?thesis
    proof (cases "Suc i < L")
      case False
      then have "[Suc i..<L] = []" "i = L - 1" using Suc.prems(4) by simp_all
      then show ?thesis unfolding up tk using w im True by simp
    next
      case less: True
      let ?s = "s\<lparr>dc_dev := g, dc_dir := Some False\<rparr>"
      have "i \<noteq> L - 1" using less by simp
      then have "imm devs s ?cmd = ?s" using im True by simp
      moreover have "k = L - Suc i" using Suc.hyps(2) by simp
      ultimately show ?thesis
        using Suc.hyps(1) [of "Suc i" ?s] Suc.prems(1,5) less w True
        unfolding up tk by (simp split: option.splits)
    qed
  qed
qed simp

lemma writes_start:
  assumes "clean s" and "dc_dir s = None \<or> nr" and "0 < L" and "L \<le> length buf"
  shows "case ib_start devs (dc_addr s) False (dc_dev s) of (f1, ack) \<Rightarrow>
    (case if ack then dev_writes devs (take L buf) f1 else None of
      None \<Rightarrow> dc_abrt (foldl (imm devs) s (write_cmds lst nr L buf 0))
    | Some g \<Rightarrow> foldl (imm devs) s (write_cmds lst nr L buf 0) = fin devs lst (s\<lparr>dc_dev := g, dc_dir := Some False\<rparr>))"
proof -
  have up: "[0..<L] = 0 # [1..<L]" using assms(3) upt_conv_Cons [of 0 L] by simp
  have tk: "take L buf = buf ! 0 # take (L - 1) (drop 1 buf)"
    using assms(3,4) by (cases buf; cases L) simp_all
  let ?cmd = "cmd_flags lst nr L 0 (ucast (buf ! 0))"
  obtain f1 ack where st: "ib_start devs (dc_addr s) False (dc_dev s) = (f1, ack)" by (metis prod.exhaust)
  obtain g ack2 where w: "ib_write devs (buf ! 0) f1 = (g, ack2)" by (metis prod.exhaust)
  let ?ab = "\<lambda>h. s\<lparr>dc_dev := h, dc_dir := None, dc_tx := [], dc_abrt := True, dc_stop := True\<rparr>"
  have im: "imm devs s ?cmd = (if \<not> ack then ?ab (ib_stop devs f1)
      else if ack2 then fin devs (lst \<and> 0 = L - 1) (s\<lparr>dc_dev := g, dc_dir := Some False\<rparr>) else ?ab (ib_stop devs g))"
    using imm_write_start [OF assms(1), of ?cmd devs] assms(2) st w by (auto simp: cmd_simps)
  show ?thesis
  proof (cases "ack \<and> ack2")
    case False
    then show ?thesis using st w im by (auto simp: up tk foldl_abrt)
  next
    case True
    show ?thesis
    proof (cases "1 < L")
      case False
      then have "L = 1" using assms(3) by simp
      then show ?thesis using st w im True tk by simp
    next
      case less: True
      let ?s = "s\<lparr>dc_dev := g, dc_dir := Some False\<rparr>"
      have "imm devs s ?cmd = ?s" using im True less by simp
      then show ?thesis
        using writes_imm [of ?s 1 L buf devs lst nr] assms(1,4) less st w True
        unfolding up tk by (simp split: option.splits)
    qed
  qed
qed

text \<open>The driver writes these commands.\<close>

lemma write_bytes_run:
  assumes "write_bytes (dw_regs_of devs pace Ctx) Ctx lst nr L k buf c = Some (c', EFI_SUCCESS)" and "run devs s c"
    and "fits Ctx (dc_depth s)" and "k \<le> L" and "L \<le> length buf"
  shows "run devs (foldl (imm devs) s (write_cmds lst nr L buf (L - k))) c'"
  using assms
proof (induction k arbitrary: c s)
  case (Suc k)
  let ?B = "dw_regs_of devs pace Ctx"
  let ?cmd = "cmd_flags lst nr L (L - Suc k) (ucast (buf ! (L - Suc k)))"
  obtain c1 st1 where w: "DwI2cWaitTxData ?B Ctx c = (c1, st1)" by (metis prod.exhaust)
  then have st1: "EFI_ERROR st1 \<longleftrightarrow> st1 \<noteq> EFI_SUCCESS"
    using wait_error [OF wait_status(1) [of ?B Ctx c]] by simp
  have eq: "st1 = EFI_SUCCESS" "write_bytes ?B Ctx lst nr L k buf (DwI2cWrite ?B Ctx DW_IC_DATA_CMD ?cmd c1) = Some (c', EFI_SUCCESS)"
    using Suc.prems(1,4,5) w st1 by (auto simp: Let_def split: if_splits)
  have c1: "run devs s c1 \<and> length (dc_tx c1) < dc_depth s" using WaitTx_run [OF _ Suc.prems(2,3)] w eq(1) by simp
  have "\<not> bit ?cmd 8" by (simp add: cmd_simps)
  note o = imm_over_write [OF this, of devs s]
  have "\<not> dc_over (imm devs s ?cmd)" using o c1 by (auto simp: run_def)
  then have "run devs (imm devs s ?cmd) (DwI2cWrite ?B Ctx DW_IC_DATA_CMD ?cmd c1)" using put_run c1 by blast
  moreover have "[L - Suc k..<L] = (L - Suc k) # [L - k..<L]"
    using Suc.prems(4) upt_conv_Cons [of "L - Suc k" L] by (simp add: Suc_diff_Suc)
  ultimately show ?case using Suc.IH [OF eq(2), of "imm devs s ?cmd"] Suc.prems(3-5) by simp
qed simp

lemma write_bytes_live:
  assumes "run devs s c" and "fits Ctx (dc_depth s)" and "bus_never_stalls pace" and "k \<le> L" and "L \<le> length buf"
  shows "\<exists>c'. write_bytes (dw_regs_of devs pace Ctx) Ctx lst nr L k buf c = Some (c', EFI_SUCCESS)"
  using assms
proof (induction k arbitrary: c s)
  case (Suc k)
  let ?B = "dw_regs_of devs pace Ctx"
  let ?cmd = "cmd_flags lst nr L (L - Suc k) (ucast (buf ! (L - Suc k)))"
  obtain c1 where w: "DwI2cWaitTxData ?B Ctx c = (c1, EFI_SUCCESS)" using WaitTx_live [OF Suc.prems(1-3)] by blast
  then have c1: "run devs s c1 \<and> length (dc_tx c1) < dc_depth s" using WaitTx_run [OF _ Suc.prems(1,2)] by blast
  have "\<not> bit ?cmd 8" by (simp add: cmd_simps)
  note o = imm_over_write [OF this, of devs s]
  have "\<not> dc_over (imm devs s ?cmd)" using o c1 by (auto simp: run_def)
  then have r: "run devs (imm devs s ?cmd) (DwI2cWrite ?B Ctx DW_IC_DATA_CMD ?cmd c1)" using put_run c1 by blast
  show ?case using Suc.IH [OF r] Suc.prems(2-5) w by (simp add: Let_def)
qed simp

subsection \<open>Reads\<close>

lemma imm_rx:
  assumes "clean s"
  shows "dc_rx (imm devs s cmd) = [] \<or> (\<exists>b. dc_rx (imm devs s cmd) = [b])" and "\<not> dc_over (imm devs s cmd)"
  using assms by (auto simp: imm_def dw_command_def bus_command_def clean_def Let_def split: prod.split if_splits)

text \<open>One byte: the command, the wait and the byte.\<close>

abbreviation read_cmd :: "bool \<Rightarrow> bool \<Rightarrow> nat \<Rightarrow> nat \<Rightarrow> u32" where
  "read_cmd lst nr L i \<equiv> cmd_flags lst nr L i DW_IC_DATA_CMD_CMD"

lemma read_step:
  assumes "read_bytes (dw_regs_of devs pace Ctx) Ctx lst nr L (Suc k) buf c = Some (c', EFI_SUCCESS, buf')"
    and "run devs s c" and "fits Ctx (dc_depth s)" and "clean s"
  shows "\<exists>c1 b. dc_rx (imm devs s (read_cmd lst nr L (L - Suc k))) = [b] \<and>
    run devs ((imm devs s (read_cmd lst nr L (L - Suc k)))\<lparr>dc_rx := []\<rparr>) c1 \<and>
    read_bytes (dw_regs_of devs pace Ctx) Ctx lst nr L k (buf[L - Suc k := b]) c1 = Some (c', EFI_SUCCESS, buf')"
proof -
  let ?B = "dw_regs_of devs pace Ctx" and ?cmd = "read_cmd lst nr L (L - Suc k)" and ?X = "imm devs s (read_cmd lst nr L (L - Suc k))"
  obtain c1 st1 where w: "DwI2cWaitTxData ?B Ctx c = (c1, st1)" by (metis prod.exhaust)
  obtain c3 st3 where r: "DwI2cWaitRxData ?B Ctx (DwI2cWrite ?B Ctx DW_IC_DATA_CMD ?cmd c1) = (c3, st3)" by (metis prod.exhaust)
  have st: "EFI_ERROR st1 \<longleftrightarrow> st1 \<noteq> EFI_SUCCESS" "EFI_ERROR st3 \<longleftrightarrow> st3 \<noteq> EFI_SUCCESS"
    using wait_error [OF wait_status(1) [of ?B Ctx c]] w
      wait_error [OF wait_status(2) [of ?B Ctx "DwI2cWrite ?B Ctx DW_IC_DATA_CMD ?cmd c1"]] r by simp_all
  obtain c4 v where d: "DwI2cRead ?B Ctx DW_IC_DATA_CMD c3 = (c4, v)" by (metis prod.exhaust)
  have ok: "st1 = EFI_SUCCESS" "st3 = EFI_SUCCESS"
      "read_bytes ?B Ctx lst nr L k (buf[L - Suc k := ucast v]) c4 = Some (c', EFI_SUCCESS, buf')"
    using assms(1) w r d st by (auto simp: Let_def split: if_splits)
  have c1: "run devs s c1 \<and> length (dc_tx c1) < dc_depth s" using WaitTx_run [OF _ assms(2,3)] w ok(1) by simp
  then have "run devs ?X (DwI2cWrite ?B Ctx DW_IC_DATA_CMD ?cmd c1)" using put_run imm_rx(2) [OF assms(4)] by blast
  then have c3: "run devs ?X c3 \<and> dc_rx c3 \<noteq> []" using WaitRx_run r ok(2) by blast
  then have "dc_rx ?X \<noteq> []" using settle_rx [of devs c3] by (auto simp: run_def)
  then obtain b where b: "dc_rx ?X = [b]" using imm_rx(1) [OF assms(4)] by blast
  obtain c5 v' where "DwI2cRead ?B Ctx DW_IC_DATA_CMD c3 = (c5, v')" "ucast v' = b" "run devs (?X\<lparr>dc_rx := []\<rparr>) c5"
    using pop_run [of devs ?X c3 b pace Ctx] c3 b by blast
  then show ?thesis using b ok(3) d by auto
qed

lemma read_step_live:
  assumes "run devs s c" and "fits Ctx (dc_depth s)" and "clean s" and "bus_never_stalls pace" and "L \<le> length buf" and "Suc k \<le> L"
    and "\<not> dc_abrt (imm devs s (read_cmd lst nr L (L - Suc k)))" and "dc_rx (imm devs s (read_cmd lst nr L (L - Suc k))) = [b]"
  shows "\<exists>c1. run devs ((imm devs s (read_cmd lst nr L (L - Suc k)))\<lparr>dc_rx := []\<rparr>) c1 \<and>
    read_bytes (dw_regs_of devs pace Ctx) Ctx lst nr L (Suc k) buf c =
    read_bytes (dw_regs_of devs pace Ctx) Ctx lst nr L k (buf[L - Suc k := b]) c1"
proof -
  let ?B = "dw_regs_of devs pace Ctx" and ?cmd = "read_cmd lst nr L (L - Suc k)" and ?X = "imm devs s (read_cmd lst nr L (L - Suc k))"
  obtain c1 where w: "DwI2cWaitTxData ?B Ctx c = (c1, EFI_SUCCESS)" using WaitTx_live [OF assms(1,2,4)] by blast
  then have c1: "run devs s c1 \<and> length (dc_tx c1) < dc_depth s" using WaitTx_run [OF _ assms(1,2)] by blast
  then have x: "run devs ?X (DwI2cWrite ?B Ctx DW_IC_DATA_CMD ?cmd c1)" using put_run imm_rx(2) [OF assms(3)] by blast
  have "fits Ctx (dc_depth ?X)" "dc_rx ?X \<noteq> []" using assms(2,8) by simp_all
  then obtain c3 where r: "DwI2cWaitRxData ?B Ctx (DwI2cWrite ?B Ctx DW_IC_DATA_CMD ?cmd c1) = (c3, EFI_SUCCESS)"
    using WaitRx_live [OF x _ assms(4,7)] by blast
  then have c3: "run devs ?X c3" "dc_rx c3 \<noteq> []" using WaitRx_run [OF _ x] by blast+
  obtain c4 v where d: "DwI2cRead ?B Ctx DW_IC_DATA_CMD c3 = (c4, v)" "ucast v = b" "run devs (?X\<lparr>dc_rx := []\<rparr>) c4"
    using pop_run [OF c3 assms(8)] by blast
  moreover have "L - Suc k < length buf" using assms(5,6) by simp
  ultimately show ?thesis using w r by (intro exI [of _ c4]) (simp add: Let_def)
qed

text \<open>What the command does, when the transfer has begun and at its beginning.\<close>

lemma read_imm:
  assumes "clean s" and "dc_dir s = Some True" and "0 < i"
  shows "imm devs s (read_cmd lst nr L i) = (case ib_read devs (dc_dev s) of (g, b) \<Rightarrow>
    fin devs (lst \<and> i = L - 1) (s\<lparr>dc_dev := g, dc_dir := Some True, dc_rx := [b]\<rparr>))"
proof -
  have b: "bit (read_cmd lst nr L i) 9 = (lst \<and> i = L - 1)" by (simp add: cmd_simps)
  show ?thesis
    using imm_read [OF assms(1) _ assms(2), of "read_cmd lst nr L i" devs] assms(3) unfolding b by (simp add: cmd_simps)
qed

lemma read_imm_start:
  assumes "clean s" and "dc_dir s = None \<or> nr"
  shows "imm devs s (read_cmd lst nr L 0) = (case ib_start devs (dc_addr s) True (dc_dev s) of (f1, ack) \<Rightarrow>
    if \<not> ack then s\<lparr>dc_dev := ib_stop devs f1, dc_dir := None, dc_tx := [], dc_abrt := True, dc_stop := True\<rparr>
    else (case ib_read devs f1 of (g, b) \<Rightarrow>
      fin devs (lst \<and> 0 = L - 1) (s\<lparr>dc_dev := g, dc_dir := Some True, dc_rx := [b]\<rparr>)))"
proof -
  have b: "bit (read_cmd lst nr L 0) 9 = (lst \<and> 0 = L - 1)" by (simp add: cmd_simps)
  show ?thesis
    using imm_read_start [OF assms(1), of "read_cmd lst nr L 0" devs] assms(2) unfolding b by (auto simp: cmd_simps)
qed

lemma fin_rx [simp]: "(fin devs lst s)\<lparr>dc_rx := r\<rparr> = fin devs lst (s\<lparr>dc_rx := r\<rparr>)"
  by (simp add: fin_def)

lemma clean_rx: "clean s \<Longrightarrow> clean (s\<lparr>dc_rx := []\<rparr>)"
  by (simp add: clean_def)

lemma read_bytes_run:
  assumes "read_bytes (dw_regs_of devs pace Ctx) Ctx lst nr L k buf c = Some (c', EFI_SUCCESS, buf')" and "run devs s c"
    and "fits Ctx (dc_depth s)" and "clean s" and "dc_dir s = Some True" and "0 < k" and "k < L" and "L \<le> length buf"
  shows "case dev_reads devs k (dc_dev s) of (g, bs) \<Rightarrow> buf' = take (L - k) buf @ bs @ drop L buf \<and>
    run devs (fin devs lst (s\<lparr>dc_dev := g, dc_dir := Some True, dc_rx := []\<rparr>)) c'"
  using assms
proof (induction k arbitrary: c s buf)
  case (Suc k)
  obtain g b where r: "ib_read devs (dc_dev s) = (g, b)" by (metis prod.exhaust)
  have i: "0 < L - Suc k" "(L - Suc k = L - 1) = (k = 0)" using Suc.prems(7) by auto
  note im = read_imm [OF Suc.prems(4,5) i(1), of devs lst nr L, unfolded r prod.case i(2)]
  obtain c1 where c1: "run devs (fin devs (lst \<and> k = 0) (s\<lparr>dc_dev := g, dc_dir := Some True, dc_rx := []\<rparr>)) c1"
      "read_bytes (dw_regs_of devs pace Ctx) Ctx lst nr L k (buf[L - Suc k := b]) c1 = Some (c', EFI_SUCCESS, buf')"
    using read_step [OF Suc.prems(1-4)] unfolding im by auto
  have split_at: "buf[L - Suc k := b] = take (L - Suc k) buf @ b # drop (L - k) buf"
    using Suc.prems(7,8) upd_conv_take_nth_drop [of "L - Suc k" buf b] by (simp add: Suc_diff_Suc)
  show ?case
  proof (cases "k = 0")
    case True
    then show ?thesis using c1 split_at r by simp
  next
    case False
    let ?s = "s\<lparr>dc_dev := g, dc_dir := Some True, dc_rx := []\<rparr>"
    have "run devs ?s c1" using c1(1) False by simp
    from Suc.IH [OF c1(2) this] have ih: "case dev_reads devs k g of (g, bs) \<Rightarrow>
        buf' = take (L - k) (buf[L - Suc k := b]) @ bs @ drop L (buf[L - Suc k := b]) \<and>
        run devs (fin devs lst (s\<lparr>dc_dev := g, dc_dir := Some True, dc_rx := []\<rparr>)) c'"
      using Suc.prems(3,4,7,8) False by (simp add: clean_rx)
    have "take (L - k) (buf[L - Suc k := b]) = take (L - Suc k) buf @ [b]"
      using Suc.prems(7,8) take_Suc_conv_app_nth [of "L - Suc k" "buf[L - Suc k := b]"] by (simp add: Suc_diff_Suc)
    moreover have "drop L (buf[L - Suc k := b]) = drop L buf" using Suc.prems(7) by simp
    ultimately show ?thesis using ih r by (simp split: prod.splits)
  qed
qed simp

lemma read_bytes_live:
  assumes "run devs s c" and "fits Ctx (dc_depth s)" and "clean s" and "bus_never_stalls pace" and "dc_dir s = Some True"
    and "k < L" and "L \<le> length buf"
  shows "\<exists>c' buf'. read_bytes (dw_regs_of devs pace Ctx) Ctx lst nr L k buf c = Some (c', EFI_SUCCESS, buf')"
  using assms
proof (induction k arbitrary: c s buf)
  case (Suc k)
  obtain g b where r: "ib_read devs (dc_dev s) = (g, b)" by (metis prod.exhaust)
  have i: "0 < L - Suc k" "(L - Suc k = L - 1) = (k = 0)" using Suc.prems(6) by auto
  note im = read_imm [OF Suc.prems(3,5) i(1), of devs lst nr L, unfolded r prod.case i(2)]
  have "\<not> dc_abrt s" using Suc.prems(3) by (simp add: clean_def)
  then have x: "\<not> dc_abrt (imm devs s (read_cmd lst nr L (L - Suc k)))" "dc_rx (imm devs s (read_cmd lst nr L (L - Suc k))) = [b]"
    unfolding im by simp_all
  obtain c1 where c1: "run devs (fin devs (lst \<and> k = 0) (s\<lparr>dc_dev := g, dc_dir := Some True, dc_rx := []\<rparr>)) c1"
      "read_bytes (dw_regs_of devs pace Ctx) Ctx lst nr L (Suc k) buf c =
       read_bytes (dw_regs_of devs pace Ctx) Ctx lst nr L k (buf[L - Suc k := b]) c1"
    using read_step_live [OF Suc.prems(1-4,7) Suc_leI [OF less_trans [OF lessI Suc.prems(6)]] x] unfolding im by auto
  show ?case
  proof (cases "k = 0")
    case True
    then show ?thesis using c1(2) by simp
  next
    case False
    then show ?thesis
      using Suc.IH [of "s\<lparr>dc_dev := g, dc_dir := Some True, dc_rx := []\<rparr>" c1] c1 Suc.prems by (simp add: clean_rx)
  qed
qed simp

lemma reads_start:
  assumes "read_bytes (dw_regs_of devs pace Ctx) Ctx lst nr L L buf c = Some (c', EFI_SUCCESS, buf')" and "run devs s c"
    and "fits Ctx (dc_depth s)" and "clean s" and "dc_dir s = None \<or> nr" and "0 < L" and "L \<le> length buf"
  shows "case ib_start devs (dc_addr s) True (dc_dev s) of (f1, ack) \<Rightarrow> ack \<and>
    (case dev_reads devs L f1 of (g, bs) \<Rightarrow> buf' = bs @ drop L buf \<and>
      run devs (fin devs lst (s\<lparr>dc_dev := g, dc_dir := Some True, dc_rx := []\<rparr>)) c')"
proof -
  obtain k where L: "L = Suc k" using assms(6) by (cases L) simp_all
  obtain f1 ack where st: "ib_start devs (dc_addr s) True (dc_dev s) = (f1, ack)" by (metis prod.exhaust)
  obtain g b where r: "ib_read devs f1 = (g, b)" by (metis prod.exhaust)
  note im = read_imm_start [OF assms(4,5), of devs lst L, unfolded st prod.case r]
  obtain c1 b' where c1: "dc_rx (imm devs s (read_cmd lst nr L 0)) = [b']" "run devs ((imm devs s (read_cmd lst nr L 0))\<lparr>dc_rx := []\<rparr>) c1"
      "read_bytes (dw_regs_of devs pace Ctx) Ctx lst nr L k (buf[0 := b']) c1 = Some (c', EFI_SUCCESS, buf')"
    using read_step [OF assms(1) [unfolded L] assms(2-4)] unfolding L diff_self_eq_0 by blast
  have ack: ack using c1(1) assms(4) unfolding im by (auto simp: clean_def split: if_splits)
  then have b': "b' = b" using c1(1) unfolding im by simp
  have upd: "buf[0 := b] = b # drop 1 buf" using assms(6,7) by (cases buf) simp_all
  show ?thesis
  proof (cases "k = 0")
    case True
    then show ?thesis using c1 st r ack b' upd unfolding im by (simp add: L)
  next
    case False
    let ?s = "s\<lparr>dc_dev := g, dc_dir := Some True, dc_rx := []\<rparr>"
    have "run devs ?s c1" using c1(2) ack False unfolding im by (simp add: L)
    from read_bytes_run [OF c1(3) this] have "case dev_reads devs k g of (g, bs) \<Rightarrow>
        buf' = take (L - k) (buf[0 := b]) @ bs @ drop L (buf[0 := b]) \<and>
        run devs (fin devs lst (s\<lparr>dc_dev := g, dc_dir := Some True, dc_rx := []\<rparr>)) c'"
      using assms(3,4,7) False by (simp add: clean_rx L b')
    then show ?thesis using st r ack upd by (simp add: L split: prod.splits)
  qed
qed

lemma reads_start_live:
  assumes "run devs s c" and "fits Ctx (dc_depth s)" and "clean s" and "bus_never_stalls pace" and "dc_dir s = None \<or> nr"
    and "0 < L" and "L \<le> length buf" and "snd (ib_start devs (dc_addr s) True (dc_dev s))"
  shows "\<exists>c' buf'. read_bytes (dw_regs_of devs pace Ctx) Ctx lst nr L L buf c = Some (c', EFI_SUCCESS, buf')"
proof -
  obtain k where L: "L = Suc k" using assms(6) by (cases L) simp_all
  obtain f1 where st: "ib_start devs (dc_addr s) True (dc_dev s) = (f1, True)" using assms(8) by (metis prod.collapse)
  obtain g b where r: "ib_read devs f1 = (g, b)" by (metis prod.exhaust)
  have im: "imm devs s (read_cmd lst nr L (L - Suc k)) =
      fin devs (lst \<and> k = 0) (s\<lparr>dc_dev := g, dc_dir := Some True, dc_rx := [b]\<rparr>)"
    using read_imm_start [OF assms(3,5), of devs lst L] st r by (auto simp: L)
  have "\<not> dc_abrt s" using assms(3) by (simp add: clean_def)
  then have x: "\<not> dc_abrt (imm devs s (read_cmd lst nr L (L - Suc k)))" "dc_rx (imm devs s (read_cmd lst nr L (L - Suc k))) = [b]"
    unfolding im by simp_all
  obtain c1 where c1: "run devs (fin devs (lst \<and> k = 0) (s\<lparr>dc_dev := g, dc_dir := Some True, dc_rx := []\<rparr>)) c1"
      "read_bytes (dw_regs_of devs pace Ctx) Ctx lst nr L (Suc k) buf c =
       read_bytes (dw_regs_of devs pace Ctx) Ctx lst nr L k (buf[L - Suc k := b]) c1"
    using read_step_live [OF assms(1-4,7) _ x] L unfolding im by (auto simp del: read_bytes.simps)
  show ?thesis
  proof (cases "k = 0")
    case True
    then show ?thesis using c1(2) by (simp add: L)
  next
    case False
    then show ?thesis
      using read_bytes_live [of devs "s\<lparr>dc_dev := g, dc_dir := Some True, dc_rx := []\<rparr>" c1 Ctx pace k L "buf[L - Suc k := b]" lst nr]
        c1 assms by (simp add: clean_rx L)
  qed
qed

text \<open>After an abort no byte is read.\<close>

lemma read_bytes_aborted:
  assumes "run devs s c" and "fits Ctx (dc_depth s)" and "dc_abrt s" and "dc_rx s = []" and "0 < k"
  shows "read_bytes (dw_regs_of devs pace Ctx) Ctx lst nr L k buf c \<noteq> Some (c', EFI_SUCCESS, buf')"
proof
  assume a: "read_bytes (dw_regs_of devs pace Ctx) Ctx lst nr L k buf c = Some (c', EFI_SUCCESS, buf')"
  obtain j where k: "k = Suc j" using assms(5) by (cases k) simp_all
  let ?B = "dw_regs_of devs pace Ctx" and ?cmd = "read_cmd lst nr L (L - Suc j)"
  obtain c1 st1 where w: "DwI2cWaitTxData ?B Ctx c = (c1, st1)" by (metis prod.exhaust)
  obtain c3 st3 where r: "DwI2cWaitRxData ?B Ctx (DwI2cWrite ?B Ctx DW_IC_DATA_CMD ?cmd c1) = (c3, st3)" by (metis prod.exhaust)
  have st: "EFI_ERROR st1 \<longleftrightarrow> st1 \<noteq> EFI_SUCCESS" "EFI_ERROR st3 \<longleftrightarrow> st3 \<noteq> EFI_SUCCESS"
    using wait_error [OF wait_status(1) [of ?B Ctx c]] w
      wait_error [OF wait_status(2) [of ?B Ctx "DwI2cWrite ?B Ctx DW_IC_DATA_CMD ?cmd c1"]] r by simp_all
  have ok: "st1 = EFI_SUCCESS" "st3 = EFI_SUCCESS" using a w r st by (auto simp: k Let_def split: if_splits)
  have c1: "run devs s c1 \<and> length (dc_tx c1) < dc_depth s" using WaitTx_run [OF _ assms(1,2)] w ok(1) by simp
  moreover have "\<not> dc_over (imm devs s ?cmd)" using c1 assms(3) by (simp add: run_def)
  ultimately have "run devs s (DwI2cWrite ?B Ctx DW_IC_DATA_CMD ?cmd c1)" using put_run [of devs s c1 ?cmd] assms(3) by simp
  then have "run devs s c3 \<and> dc_rx c3 \<noteq> []" using WaitRx_run r ok(2) by blast
  then show False using settle_rx [of devs c3] assms(4) by (auto simp: run_def)
qed

subsection \<open>Operations\<close>

lemma imm_write_fields:
  assumes "\<not> bit cmd 8"
  shows "dc_rx (imm devs s cmd) = dc_rx s" "dc_addr (imm devs s cmd) = dc_addr s"
  using assms by (auto simp: imm_def dw_command_def bus_command_def Let_def dc_addr_def split: prod.split if_splits)

lemma writes_fields:
  "dc_rx (foldl (imm devs) s (write_cmds lst nr L buf i)) = dc_rx s"
  "dc_addr (foldl (imm devs) s (write_cmds lst nr L buf i)) = dc_addr s"
  "dc_depth (foldl (imm devs) s (write_cmds lst nr L buf i)) = dc_depth s"
proof -
  have "dc_rx (foldl (imm devs) s cs) = dc_rx s \<and> dc_addr (foldl (imm devs) s cs) = dc_addr s \<and>
      dc_depth (foldl (imm devs) s cs) = dc_depth s" if "\<forall>c \<in> set cs. \<not> bit c 8" for cs
    using that by (induction cs arbitrary: s) (simp_all add: imm_write_fields)
  then show "dc_rx (foldl (imm devs) s (write_cmds lst nr L buf i)) = dc_rx s"
    "dc_addr (foldl (imm devs) s (write_cmds lst nr L buf i)) = dc_addr s"
    "dc_depth (foldl (imm devs) s (write_cmds lst nr L buf i)) = dc_depth s" by (simp_all add: cmd_simps)
qed

text \<open>The settled controller after an operation that was acknowledged.\<close>

definition op_state :: "'f i2c_devs \<Rightarrow> bool \<Rightarrow> 'f dw_ctl \<Rightarrow> i2c_op \<Rightarrow> 'f \<Rightarrow> 'f dw_ctl" where
  "op_state devs lst s Op g =
     (if op_len Op = 0 then s else fin devs lst (s\<lparr>dc_dev := g, dc_dir := Some (op_reads Op), dc_rx := []\<rparr>))"

lemma op_state_fields [simp]:
  "dc_addr (op_state devs lst s Op g) = dc_addr s" "dc_depth (op_state devs lst s Op g) = dc_depth s"
  "dc_abrt (op_state devs lst s Op g) = dc_abrt s"
  by (simp_all add: op_state_def)

lemma op_state_clean: "clean s \<Longrightarrow> clean (op_state devs lst s Op g)"
  by (simp add: op_state_def clean_rx)

lemma no_rx: "clean s \<Longrightarrow> s\<lparr>dc_rx := []\<rparr> = s"
  by (cases s) (simp add: clean_def)

lemma process_op_run:
  assumes "process_op (dw_regs_of devs pace Ctx) Ctx lst nr Op c = Some (c', EFI_SUCCESS, Op')" and "run devs s c"
    and "fits Ctx (dc_depth s)" and "clean s" and "dc_dir s = None \<or> nr" and "op_len Op \<le> length (Buffer Op)"
  shows "\<exists>s'. run devs s' c' \<and> dc_depth s' = dc_depth s \<and> (case op_run devs (dc_addr s) Op (dc_dev s) of
      None \<Rightarrow> dc_abrt s' \<and> dc_rx s' = []
    | Some (g, Op1) \<Rightarrow> Op' = Op1 \<and> s' = op_state devs lst s Op g)"
proof (cases "op_len Op = 0")
  case True
  then have "c' = c" "Op' = Op" using assms(1) by (auto simp: process_op_def split: if_splits)
  then show ?thesis using assms(2) True by (intro exI [of _ s]) (simp add: op_run_def op_state_def)
next
  case len: False
  let ?L = "op_len Op" and ?buf = "Buffer Op" and ?B = "dw_regs_of devs pace Ctx"
  show ?thesis
  proof (cases "op_reads Op")
    case True
    then obtain buf' where rb: "read_bytes ?B Ctx lst nr ?L ?L ?buf c = Some (c', EFI_SUCCESS, buf')" "Op' = Op\<lparr>Buffer := buf'\<rparr>"
      using assms(1) by (auto simp: process_op_def bind_eq_Some_conv)
    from reads_start [OF rb(1) assms(2-5) _ assms(6)] len show ?thesis
      by (auto simp: op_run_def op_state_def True rb(2) split: prod.splits)
  next
    case False
    then have wb: "write_bytes ?B Ctx lst nr ?L ?L ?buf c = Some (c', EFI_SUCCESS)" "Op' = Op"
      using assms(1) by (auto simp: process_op_def bind_eq_Some_conv)
    let ?s = "foldl (imm devs) s (write_cmds lst nr ?L ?buf 0)"
    have r: "run devs ?s c'" using write_bytes_run [OF wb(1) assms(2,3) order.refl assms(6)] by simp
    have eq: "s\<lparr>dc_dev := g, dc_dir := Some False, dc_rx := []\<rparr> = s\<lparr>dc_dev := g, dc_dir := Some False\<rparr>" for g
      using no_rx [of "s\<lparr>dc_dev := g, dc_dir := Some False\<rparr>"] assms(4) by simp
    show ?thesis
      using r writes_start [OF assms(4,5) _ assms(6), of devs lst] len False wb(2) assms(4)
      by (intro exI [of _ ?s])
        (auto simp: op_run_def op_state_def writes_fields clean_def eq split: prod.splits if_splits option.splits)
  qed
qed

lemma process_op_live:
  assumes "op_run devs (dc_addr s) Op (dc_dev s) = Some (g, Op1)" and "run devs s c" and "fits Ctx (dc_depth s)" and "clean s"
    and "bus_never_stalls pace" and "dc_dir s = None \<or> nr" and "op_len Op \<le> length (Buffer Op)"
  shows "\<exists>c' Op'. process_op (dw_regs_of devs pace Ctx) Ctx lst nr Op c = Some (c', EFI_SUCCESS, Op')"
proof (cases "op_reads Op")
  case False
  obtain c' where "write_bytes (dw_regs_of devs pace Ctx) Ctx lst nr (op_len Op) (op_len Op) (Buffer Op) c = Some (c', EFI_SUCCESS)"
    using write_bytes_live [OF assms(2,3,5) order.refl assms(7)] by blast
  then show ?thesis using False by (simp add: process_op_def)
next
  case True
  show ?thesis
  proof (cases "op_len Op = 0")
    case False
    then have "snd (ib_start devs (dc_addr s) True (dc_dev s))"
      using assms(1) True by (auto simp: op_run_def split: prod.splits if_splits)
    then obtain c' buf' where "read_bytes (dw_regs_of devs pace Ctx) Ctx lst nr (op_len Op) (op_len Op) (Buffer Op) c =
        Some (c', EFI_SUCCESS, buf')"
      using reads_start_live [OF assms(2-6) _ assms(7)] False by blast
    then show ?thesis using True by (simp add: process_op_def)
  qed (use True in \<open>simp add: process_op_def\<close>)
qed

lemma process_op_aborted:
  assumes "process_op (dw_regs_of devs pace Ctx) Ctx lst nr Op c = Some (c', EFI_SUCCESS, Op')" and "run devs s c"
    and "fits Ctx (dc_depth s)" and "dc_abrt s" and "dc_rx s = []" and "op_len Op \<le> length (Buffer Op)"
  shows "run devs s c'"
proof (cases "op_reads Op")
  case True
  show ?thesis
  proof (cases "op_len Op = 0")
    case False
    then show ?thesis using read_bytes_aborted [OF assms(2-5)] assms(1) True by (auto simp: process_op_def bind_eq_Some_conv)
  qed (use True assms(1,2) in \<open>simp add: process_op_def\<close>)
next
  case False
  then have "write_bytes (dw_regs_of devs pace Ctx) Ctx lst nr (op_len Op) (op_len Op) (Buffer Op) c = Some (c', EFI_SUCCESS)"
    using assms(1) by (auto simp: process_op_def bind_eq_Some_conv)
  from write_bytes_run [OF this assms(2,3) order.refl assms(6)] show ?thesis by (simp add: foldl_abrt assms(4))
qed

lemma process_op_status:
  assumes "process_op bus Ctx lst nr Op c = Some (c', st, Op')"
  shows "EFI_ERROR st \<longleftrightarrow> st \<noteq> EFI_SUCCESS" 
proof -
  have "st \<in> {EFI_SUCCESS, EFI_ABORTED, EFI_TIMEOUT}" if "read_bytes bus Ctx lst nr L k buf c = Some (c', st, buf')" for L k buf buf' c
    using that
  proof (induction k arbitrary: c buf)
    case (Suc k)
    obtain c1 st1 where w: "DwI2cWaitTxData bus Ctx c = (c1, st1)" by (metis prod.exhaust)
    let ?h = "DwI2cWrite bus Ctx DW_IC_DATA_CMD (read_cmd lst nr L (L - Suc k)) c1"
    obtain c3 st3 where r: "DwI2cWaitRxData bus Ctx ?h = (c3, st3)" by (metis prod.exhaust)
    show ?case using Suc w r wait_status(1) [of bus Ctx c] wait_status(2) [of bus Ctx ?h]
      by (auto simp: Let_def split: if_splits prod.splits)
  qed simp
  moreover have "st \<in> {EFI_SUCCESS, EFI_ABORTED, EFI_TIMEOUT}" if "write_bytes bus Ctx lst nr L k buf c = Some (c', st)" for L k buf c
    using that
  proof (induction k arbitrary: c)
    case (Suc k)
    obtain c1 st1 where w: "DwI2cWaitTxData bus Ctx c = (c1, st1)" by (metis prod.exhaust)
    show ?case using Suc w wait_status(1) [of bus Ctx c] by (auto simp: Let_def bind_eq_Some_conv split: if_splits)
  qed simp
  ultimately have "st \<in> {EFI_SUCCESS, EFI_ABORTED, EFI_TIMEOUT}"
    using assms by (auto simp: process_op_def bind_eq_Some_conv split: if_splits)
  then show ?thesis by (rule wait_error)
qed

subsection \<open>Requests\<close>

lemma process_ops_aborted:
  assumes "process_ops (dw_regs_of devs pace Ctx) Ctx nr ops c = Some (c', EFI_SUCCESS, ops')" and "run devs s c"
    and "fits Ctx (dc_depth s)" and "dc_abrt s" and "dc_rx s = []" and "\<forall>Op \<in> set ops. op_len Op \<le> length (Buffer Op)"
  shows "run devs s c'"
  using assms
proof (induction ops arbitrary: c nr ops')
  case (Cons Op ops)
  obtain c1 st1 Op1 where p: "process_op (dw_regs_of devs pace Ctx) Ctx (ops = []) nr Op c = Some (c1, st1, Op1)"
    using Cons.prems(1) by (auto simp: bind_eq_Some_conv)
  have "\<not> EFI_ERROR st1" using Cons.prems(1) p by (auto split: if_splits)
  then have st1: "st1 = EFI_SUCCESS" using process_op_status [OF p] by simp
  obtain ops1 where "process_ops (dw_regs_of devs pace Ctx) Ctx True ops c1 = Some (c', EFI_SUCCESS, ops1)"
    using Cons.prems(1) p st1 by (auto simp: bind_eq_Some_conv)
  moreover have "run devs s c1" using process_op_aborted [of devs pace Ctx "ops = []" nr Op c c1 Op1 s] p st1 Cons.prems by simp
  ultimately show ?case using Cons.IH [of True c1 ops1] Cons.prems(3-6) by simp
qed simp

lemma process_ops_status:
  "process_ops bus Ctx nr ops c = Some (c', st, ops') \<Longrightarrow> EFI_ERROR st \<longleftrightarrow> st \<noteq> EFI_SUCCESS"
proof (induction ops arbitrary: c nr ops')
  case (Cons Op ops)
  obtain c1 st1 Op1 where p: "process_op bus Ctx (ops = []) nr Op c = Some (c1, st1, Op1)"
    using Cons.prems by (auto simp: bind_eq_Some_conv)
  show ?case
  proof (cases "EFI_ERROR st1")
    case True
    then show ?thesis using Cons.prems p process_op_status [OF p] by auto
  next
    case False
    then show ?thesis using Cons p by (auto simp: bind_eq_Some_conv)
  qed
qed simp

lemma process_ops_run:
  assumes "process_ops (dw_regs_of devs pace Ctx) Ctx nr ops c = Some (c', EFI_SUCCESS, ops')" and "run devs s c"
    and "fits Ctx (dc_depth s)" and "clean s" and "dc_dir s = None \<or> nr" and "\<forall>Op \<in> set ops. op_len Op \<le> length (Buffer Op)"
    and "ops \<noteq> []" and "op_len (last ops) \<noteq> 0"
  shows "\<exists>s'. run devs s' c' \<and> dc_depth s' = dc_depth s \<and> (case ops_run devs (dc_addr s) ops (dc_dev s) of
      None \<Rightarrow> dc_abrt s'
    | Some (g, ops1) \<Rightarrow> ops' = ops1 \<and> \<not> dc_abrt s' \<and> dc_stop s' \<and> dc_dir s' = None \<and> dc_dev s' = ib_stop devs g)"
  using assms
proof (induction ops arbitrary: c nr ops' s)
  case (Cons Op ops)
  let ?B = "dw_regs_of devs pace Ctx"
  obtain c1 st1 Op1 where p: "process_op ?B Ctx (ops = []) nr Op c = Some (c1, st1, Op1)"
    using Cons.prems(1) by (auto simp: bind_eq_Some_conv)
  have "\<not> EFI_ERROR st1" using Cons.prems(1) p by (auto split: if_splits)
  then have st1: "st1 = EFI_SUCCESS" using process_op_status [OF p] by simp
  obtain ops1 where q: "process_ops ?B Ctx True ops c1 = Some (c', EFI_SUCCESS, ops1)" "ops' = Op1 # ops1"
    using Cons.prems(1) p st1 by (auto simp: bind_eq_Some_conv)
  have len: "op_len Op \<le> length (Buffer Op)" using Cons.prems(6) by simp
  obtain s1 where s1: "run devs s1 c1" "dc_depth s1 = dc_depth s"
      "case op_run devs (dc_addr s) Op (dc_dev s) of None \<Rightarrow> dc_abrt s1 \<and> dc_rx s1 = []
       | Some (g, Op2) \<Rightarrow> Op1 = Op2 \<and> s1 = op_state devs (ops = []) s Op g"
    using process_op_run [OF p [unfolded st1] Cons.prems(2-5) len] by blast
  show ?case
  proof (cases "op_run devs (dc_addr s) Op (dc_dev s)")
    case None
    then have "run devs s1 c'" using process_ops_aborted [OF q(1) s1(1)] s1(2,3) Cons.prems(3,6) by simp
    then show ?thesis using None s1(2,3) by auto
  next
    case (Some r)
    then obtain g where g: "op_run devs (dc_addr s) Op (dc_dev s) = Some (g, Op1)" "s1 = op_state devs (ops = []) s Op g"
      using s1(3) by (cases r) auto
    have abrt: "\<not> dc_abrt s" using Cons.prems(4) by (simp add: clean_def)
    show ?thesis
    proof (cases "ops = []")
      case True
      then show ?thesis using g q s1(1,2) Cons.prems(8) abrt by (intro exI [of _ s1]) (simp add: op_state_def fin_def)
    next
      case False
      have dev: "dc_dev s1 = g"
        using g False by (auto simp: op_state_def op_run_def split: if_splits)
      have "clean s1" using g(2) op_state_clean [OF Cons.prems(4)] by simp
      then obtain s' where "run devs s' c'" "dc_depth s' = dc_depth s1"
          "case ops_run devs (dc_addr s1) ops (dc_dev s1) of None \<Rightarrow> dc_abrt s'
           | Some (g, ops2) \<Rightarrow> ops1 = ops2 \<and> \<not> dc_abrt s' \<and> dc_stop s' \<and> dc_dir s' = None \<and> dc_dev s' = ib_stop devs g"
        using Cons.IH [OF q(1) s1(1)] s1(2) Cons.prems(3,6,8) False by auto
      then show ?thesis using g(1,2) dev s1(2) q(2) by (intro exI [of _ s']) (auto split: option.splits)
    qed
  qed
qed simp

lemma process_ops_live:
  assumes "ops_run devs (dc_addr s) ops (dc_dev s) = Some (g, ops1)" and "run devs s c" and "fits Ctx (dc_depth s)" and "clean s"
    and "bus_never_stalls pace" and "dc_dir s = None \<or> nr" and "\<forall>Op \<in> set ops. op_len Op \<le> length (Buffer Op)"
  shows "\<exists>c' ops'. process_ops (dw_regs_of devs pace Ctx) Ctx nr ops c = Some (c', EFI_SUCCESS, ops')"
  using assms
proof (induction ops arbitrary: c nr s ops1)
  case (Cons Op ops)
  let ?B = "dw_regs_of devs pace Ctx"
  obtain h Op1 ops2 where h: "op_run devs (dc_addr s) Op (dc_dev s) = Some (h, Op1)" "ops_run devs (dc_addr s) ops h = Some (g, ops2)"
    using Cons.prems(1) by (auto simp: bind_eq_Some_conv)
  have len: "op_len Op \<le> length (Buffer Op)" using Cons.prems(7) by simp
  obtain c1 Op2 where p: "process_op ?B Ctx (ops = []) nr Op c = Some (c1, EFI_SUCCESS, Op2)"
    using process_op_live [OF h(1) Cons.prems(2-6) len] by blast
  obtain s1 where s1: "run devs s1 c1" "s1 = op_state devs (ops = []) s Op h"
    using process_op_run [OF p Cons.prems(2-4,6) len] h(1) by auto
  show ?case
  proof (cases "ops = []")
    case True
    then show ?thesis using p by simp
  next
    case False
    have "dc_dev s1 = h" using h(1) s1(2) False by (auto simp: op_state_def op_run_def split: if_splits)
    then obtain c' ops' where "process_ops ?B Ctx True ops c1 = Some (c', EFI_SUCCESS, ops')"
      using Cons.IH [of s1 ops2 c1 True] h(2) s1 Cons.prems(3,5,7) op_state_clean [OF Cons.prems(4)] by auto
    then show ?thesis using p by simp
  qed
qed simp

subsection \<open>The contract\<close>

text \<open>Between two requests: the lock is free, the controller idle.\<close>

definition dw_holds :: "u64 \<Rightarrow> dw_context \<times> 'f dw_ctl \<Rightarrow> 'f \<Rightarrow> bool" where
  "dw_holds base s f = (case s of (Ctx, c) \<Rightarrow>
     BaseAddress Ctx = base \<and> \<not> Lock Ctx \<and> fits Ctx (dc_depth c) \<and> dc_idle c \<and> dc_dev c = f)"

lemma start_run:
  assumes "dc_idle c" and "0 < dc_depth c" and "c1 = dw_start (dw_regs_of devs pace Ctx) Ctx A c"
  shows "run devs (c1\<lparr>dc_time := 0\<rparr>) c1" and "clean (c1\<lparr>dc_time := 0\<rparr>)"
    and "dw_inv devs (bus_addr A) (dc_dev c) (dc_depth c) c1" and "dc_dir c1 = None"
  using start_runs [OF assms(1,3)] assms(2)
  by (simp_all add: run_def clean_def dw_inv_def dc_idle_def settle_empty steps_refl bus_visit_refl)

lemma request_end:
  assumes "process_ops (dw_regs_of devs pace Ctx) Ctx False ops c = Some (c', EFI_SUCCESS, ops')" and "run devs s c" and "clean s"
    and "fits Ctx (dc_depth s)" and "dc_dir s = None" and "request_ok ops"
  shows "dw_complete (dw_regs_of devs pace Ctx) Ctx c' = (c3, EFI_SUCCESS) \<Longrightarrow>
      transaction devs (dc_addr s) ops (dc_dev s) = Some (dc_dev c3, ops')"
    and "bus_never_stalls pace \<Longrightarrow> transaction devs (dc_addr s) ops (dc_dev s) \<noteq> None \<Longrightarrow>
      \<exists>c3. dw_complete (dw_regs_of devs pace Ctx) Ctx c' = (c3, EFI_SUCCESS)"
proof -
  obtain s' where s': "run devs s' c'" "dc_depth s' = dc_depth s"
      "case ops_run devs (dc_addr s) ops (dc_dev s) of None \<Rightarrow> dc_abrt s'
       | Some (g, ops1) \<Rightarrow> ops' = ops1 \<and> \<not> dc_abrt s' \<and> dc_stop s' \<and> dc_dir s' = None \<and> dc_dev s' = ib_stop devs g"
    using process_ops_run [OF assms(1,2,4,3)] assms(5,6) by (auto simp: request_ok_def)
  show "transaction devs (dc_addr s) ops (dc_dev s) = Some (dc_dev c3, ops')"
    if "dw_complete (dw_regs_of devs pace Ctx) Ctx c' = (c3, EFI_SUCCESS)"
    using complete_run(1) [OF s'(1) that] s'(3) by (auto simp: transaction_def split: option.splits)
  show "\<exists>c3. dw_complete (dw_regs_of devs pace Ctx) Ctx c' = (c3, EFI_SUCCESS)"
    if "bus_never_stalls pace" "transaction devs (dc_addr s) ops (dc_dev s) \<noteq> None"
    using complete_run(2) [OF s'(1), of Ctx pace] that s'(2,3) assms(4) by (auto simp: transaction_def)
qed

lemma StartRequest_contract:
  assumes "dw_holds base s f" and "request_ok ops"
  shows "\<exists>g. request_done devs (bus_never_stalls pace) (dw_holds base) (bus_addr A) ops f
    (DwI2cStartRequest (dw_bus devs pace base) A (Some ops) s) g"
proof -
  obtain Ctx c where s: "s = (Ctx, c)" by (metis prod.exhaust)
  then have h: "BaseAddress Ctx = base" "\<not> Lock Ctx" "fits Ctx (dc_depth c)" "dc_idle c" "dc_dev c = f"
    using assms(1) by (simp_all add: dw_holds_def)
  define C where "C = Ctx\<lparr>Lock := True\<rparr>"
  have C: "BaseAddress C = base" "fits C n = fits Ctx n" "release_lock C = Ctx\<lparr>Lock := False\<rparr>" for n
    by (simp_all add: C_def h(1) fits_def release_lock_def)
  let ?B = "dw_bus devs pace base"
  note B = C(1) [symmetric]
  have n: "0 < dc_depth c" "fits C (dc_depth c)" using h(3) by (simp_all add: fits_def C_def)
  have t: "dc_idle (dw_tick devs pace c)" "dc_dev (dw_tick devs pace c) = f" using h(4,5) by (simp_all add: dc_idle_def tick_idle)
  define c1 where "c1 = dw_start ?B C A (dw_tick devs pace c)"
  have c1: "c1 = dw_start (dw_regs_of devs pace C) C A (dw_tick devs pace c)" by (simp add: c1_def C(1))
  have b: "DwI2cWaitBusNotBusy ?B C c = (dw_tick devs pace c, EFI_SUCCESS)" using not_busy_idle [OF h(4), of devs pace C] C(1) by simp
  note st = start_run [OF t(1) _ c1, unfolded t(2)]
  have r: "run devs (c1\<lparr>dc_time := 0\<rparr>) c1" "clean (c1\<lparr>dc_time := 0\<rparr>)" "dw_inv devs (bus_addr A) f (dc_depth c) c1" "dc_dir c1 = None"
    using st n(1) by simp_all
  have a: "dc_addr (c1\<lparr>dc_time := 0\<rparr>) = bus_addr A" "dc_dev (c1\<lparr>dc_time := 0\<rparr>) = f" "dc_depth (c1\<lparr>dc_time := 0\<rparr>) = dc_depth c"
    using start_runs(8-10) [OF t(1) c1] t(2) by (simp_all add: dc_addr_def)
  have lens: "\<forall>Op \<in> set ops. op_len Op \<le> length (Buffer Op)" and "ops \<noteq> []" using assms(2) by (auto simp: request_ok_def)
  obtain c2 st2 ops2 where p: "process_ops ?B C False ops c1 = Some (c2, st2, ops2)" "dw_inv devs (bus_addr A) f (dc_depth c) c2"
    using process_ops_total [OF r(3) lens, of pace C False] C(1) by auto
  have req: "DwI2cStartRequest ?B A (Some ops) s = (if EFI_ERROR st2
      then Some ((release_lock C, dw_abort ?B C c2), if st2 = EFI_ABORTED then EFI_NO_RESPONSE else st2, ops2)
      else let (h, Status) = dw_complete ?B C c2 in Some ((release_lock C, h), Status, ops2))"
    using \<open>ops \<noteq> []\<close> h(2) b p(1)
    by (cases ops) (simp_all add: DwI2cStartRequest_def s acquire_lock_def C_def [symmetric] c1_def [symmetric] del: process_ops.simps)
  have reached: "dw_holds base (release_lock C, c') (dc_dev c') \<and> bus_visit devs (bus_addr A) f (dc_dev c')"
    if "dc_idle c'" "dw_inv devs (bus_addr A) f (dc_depth c) c'" for c'
    using that h(1,3) C(3) by (simp add: dw_holds_def dw_inv_def fits_def dc_idle_def)
  show ?thesis
  proof (cases "st2 = EFI_SUCCESS")
    case False
    have "EFI_ERROR st2"
    proof (rule ccontr)
      assume "\<not> EFI_ERROR st2"
      then show False using False process_ops_status [OF p(1)] by simp
    qed
    moreover have "transaction devs (bus_addr A) ops f = None" if "bus_never_stalls pace"
    proof (rule ccontr)
      assume "transaction devs (bus_addr A) ops f \<noteq> None"
      then obtain g ops1 where "ops_run devs (dc_addr (c1\<lparr>dc_time := 0\<rparr>)) ops (dc_dev (c1\<lparr>dc_time := 0\<rparr>)) = Some (g, ops1)"
        unfolding a by (auto simp: transaction_def)
      from process_ops_live [OF this r(1) _ r(2) that _ lens, of C False] show False
        using False p(1) n(2) a(3) r(4) C(1) by auto
    qed
    moreover have i: "dc_idle (dw_abort ?B C c2)" "dw_inv devs (bus_addr A) f (dc_depth c) (dw_abort ?B C c2)"
      using abort_idle [of devs pace C c2] abort_keeps [OF p(2), of pace C] C(1) by simp_all
    moreover note reached [OF i]
    ultimately show ?thesis unfolding req request_done_def by auto
  next
    case True
    obtain c3 st3 where e: "dw_complete ?B C c2 = (c3, st3)" by (metis prod.exhaust)
    have "dc_idle c3" "dw_inv devs (bus_addr A) f (dc_depth c) c3"
      using complete_idle [of devs pace C c2] complete_keeps [OF p(2), of pace C] C(1) e by simp_all
    note d = reached [OF this]
    have p': "process_ops (dw_regs_of devs pace C) C False ops c1 = Some (c2, EFI_SUCCESS, ops2)" using p(1) True C(1) by simp
    have "fits C (dc_depth (c1\<lparr>dc_time := 0\<rparr>))" "dc_dir (c1\<lparr>dc_time := 0\<rparr>) = None" using n(2) a(3) r(4) by simp_all
    note fin = request_end [OF p' r(1,2) this assms(2), unfolded a C(1)]
    have "st3 = EFI_SUCCESS \<or> EFI_ERROR st3" using complete_status [of ?B C c2] e by simp
    moreover have "transaction devs (bus_addr A) ops f = None" if "bus_never_stalls pace" "st3 \<noteq> EFI_SUCCESS"
    proof (rule ccontr)
      assume "transaction devs (bus_addr A) ops f \<noteq> None"
      then show False using fin(2) [OF that(1)] that(2) e by auto
    qed
    moreover have "transaction devs (bus_addr A) ops f = Some (dc_dev c3, ops2)" if "st3 = EFI_SUCCESS"
      using fin(1) that e by simp
    ultimately show ?thesis unfolding req request_done_def using True e d by auto
  qed
qed

subsection \<open>Initialization, reset and clock\<close>

text \<open>No transfer is in progress and the devices are in the state \<open>f\<close>.\<close>

definition still :: "'f \<Rightarrow> nat \<Rightarrow> 'f dw_ctl \<Rightarrow> bool" where
  "still f n c = (dc_idle c \<and> dc_dev c = f \<and> dc_depth c = n)"

lemma still_read: "still f n c \<Longrightarrow> still f n (fst (DwI2cRead (dw_regs_of devs pace Ctx) Ctx off c))"
  by (simp add: still_def dc_idle_def dw_bus_read tick_idle)

lemma still_write:
  "still f n c \<Longrightarrow> off \<noteq> DW_IC_DATA_CMD \<Longrightarrow> still f n (DwI2cWrite (dw_regs_of devs pace Ctx) Ctx off v c)"
  by (simp add: still_def dc_idle_def dw_bus_write tick_idle reg_write_def)

lemma still_enable: "still f n c \<Longrightarrow> still f n (fst (DwI2cEnable (dw_regs_of devs pace Ctx) Ctx v c))"
  unfolding DwI2cEnable_def
  by (rule poll_invariant) (simp_all add: case_prod_beta still_read still_write dw_regs)

lemma still_init:
  "still f n (fst (DwI2cEnable (dw_regs_of devs pace Ctx) Ctx 0 c)) \<Longrightarrow> still f n (DwI2cHwInit (dw_regs_of devs pace Ctx) Ctx c)"
  by (simp add: DwI2cHwInit_def Let_def case_prod_beta still_read still_write)
    (simp add: dw_regs still_read still_write)

lemma holds_still:
  "dw_holds base (Ctx, c) f \<longleftrightarrow> BaseAddress Ctx = base \<and> \<not> Lock Ctx \<and> (\<exists>n. fits Ctx n \<and> still f n c)"
  by (auto simp: dw_holds_def still_def)

lemma fits_lock [simp]:
  "fits (Ctx\<lparr>Lock := b\<rparr>) n = fits Ctx n" "fits (Ctx\<lparr>BusSpeedHz := v\<rparr>) n = fits Ctx n" "fits (Ctx\<lparr>PollingTimeUs := v\<rparr>) n = fits Ctx n"
  by (simp_all add: fits_def)

lemma Reset_contract:
  assumes "dw_holds base s f"
  shows "\<exists>s'. DwI2cReset (dw_bus devs pace base) s = Some (s', EFI_SUCCESS) \<and> dw_holds base s' f"
proof -
  obtain Ctx c n where s: "s = (Ctx, c)" "BaseAddress Ctx = base" "\<not> Lock Ctx" "fits Ctx n" "still f n c"
    using assms by (cases s) (auto simp: holds_still)
  have "still f n (DwI2cHwInit (dw_bus devs pace base) (Ctx\<lparr>Lock := True\<rparr>) c)"
    using still_init [OF still_enable [OF s(5)], of devs pace "Ctx\<lparr>Lock := True\<rparr>"] s(2) by simp
  then show ?thesis using s(2-4) by (auto simp: s(1) DwI2cReset_def acquire_lock_def release_lock_def holds_still)
qed

lemma SetBusFrequency_contract:
  assumes "dw_holds base s f"
  shows "\<exists>s' hz'. DwI2cSetBusFrequency (dw_bus devs pace base) hz s = Some (s', EFI_SUCCESS, hz') \<and> dw_holds base s' f"
proof -
  obtain Ctx c n where s: "s = (Ctx, c)" "BaseAddress Ctx = base" "\<not> Lock Ctx" "fits Ctx n" "still f n c"
    using assms by (cases s) (auto simp: holds_still)
  let ?B = "dw_bus devs pace base" and ?C = "Ctx\<lparr>Lock := True\<rparr>"
  define c1 where "c1 = fst (DwI2cRead ?B ?C DW_IC_CON (fst (DwI2cEnable ?B ?C 0 c)))"
  have 1: "still f n c1"
    using still_read [OF still_enable [OF s(5), of devs pace ?C 0], of devs pace ?C] s(2) by (simp add: c1_def)
  have "still f n (DwI2cWrite ?B ?C DW_IC_CON v c1)" for v
    using still_write [OF 1, of DW_IC_CON devs pace ?C] s(2) by (simp add: dw_regs)
  then have 2: "still f n (fst (DwI2cEnable ?B C' 1 (DwI2cWrite ?B ?C DW_IC_CON v c1)))" if "BaseAddress C' = base" for v C'
    using still_enable [of f n _ devs pace C'] that by simp
  show ?thesis using s(2-4) 2
    by (auto simp: s(1) DwI2cSetBusFrequency_def acquire_lock_def release_lock_def holds_still Let_def case_prod_beta c1_def [symmetric])
qed

interpretation dw: i2c_bus "dw_master (dw_bus devs pace base)" devs "\<lambda>_. True" "dw_holds base" "bus_never_stalls pace"
  by unfold_locales
    (simp only: dw_master_def i2c_master.select_convs, rule StartRequest_contract SetBusFrequency_contract Reset_contract; assumption)+

text \<open>
  The entry point makes a controller with FIFOs of \<open>n\<close> places ready, also when a transfer was in
  progress, which then ends with a stop condition.
\<close>

lemma tx_depth:
  assumes "1 \<le> n" and "n \<le> 256"
  shows "DW_IC_COMP_PARAM_1_TX_BUFFER_DEPTH (push_bit 16 (of_nat (n - 1)) OR push_bit 8 (of_nat (n - 1))) = of_nat n"
proof -
  have "n - 1 < 2 ^ 8" using assms by simp
  then have w: "(of_nat (n - 1) :: u32) = take_bit 8 (of_nat (n - 1))"
    by (simp add: take_bit_of_nat take_bit_nat_eq_self)
  have "drop_bit 16 (push_bit 16 w OR push_bit 8 w) AND 0xFF = w" if "w = take_bit 8 w" for w :: u32
  proof (rule bit_word_eqI)
    have m: "(0xFF :: u32) = mask 8" by (simp add: mask_eq_exp_minus_1)
    fix k assume k: "k < LENGTH(32)"
    have l: "bit w j \<Longrightarrow> j < 8" for j using that by (metis bit_take_bit_iff)
    show "bit (drop_bit 16 (push_bit 16 w OR push_bit 8 w) AND 0xFF) k = bit w k"
      using k unfolding m by (auto simp: bit_simps dest: l l [of "8 + k"])
  qed
  from this [OF w] show ?thesis using assms by (simp add: DW_IC_COMP_PARAM_1_TX_BUFFER_DEPTH_def of_nat_diff)
qed

lemma init_bus_holds:
  assumes "1 \<le> dc_depth c" and "dc_depth c \<le> 256" and "dw_init_bus (dw_bus devs pace (mDwI2cBase ! i)) i c = (Ctx, c')"
  shows "dw_holds (mDwI2cBase ! i) (Ctx, c') (dc_dev c')" and "dc_idle c \<Longrightarrow> dc_dev c' = dc_dev c"
proof -
  let ?B = "dw_bus devs pace (mDwI2cBase ! i)"
  obtain c1 v where r: "mmio_read32 ?B (mDwI2cBase ! i + DW_IC_COMP_PARAM_1) c = (c1, v)" by (metis prod.exhaust)
  then have c1: "c1 = dw_tick devs pace c" "v = push_bit 16 (of_nat (dc_depth c - 1)) OR push_bit 8 (of_nat (dc_depth c - 1))"
    by (auto simp: dw_bus_def reg_read_def dw_regs)
  have Ctx: "BaseAddress Ctx = mDwI2cBase ! i" "\<not> Lock Ctx" "TxFifo Ctx = DW_IC_COMP_PARAM_1_TX_BUFFER_DEPTH v"
      "c' = DwI2cHwInit ?B Ctx c1"
    using assms(3) r by (auto simp: dw_init_bus_def Let_def)
  let ?n = "dc_depth c" and ?d = "fst (DwI2cEnable ?B Ctx 0 c1)"
  have d: "still (dc_dev ?d) ?n ?d"
    using disable_idle [of devs pace Ctx c1] Ctx(1)
    by (simp add: still_def Enable_runs [of devs pace Ctx, unfolded Ctx(1)] reg_write_def dw_regs c1(1))
  then have c': "still (dc_dev ?d) ?n c'" using still_init [of "dc_dev ?d" ?n devs pace Ctx c1] Ctx(1,4) by simp
  have "fits Ctx ?n" using tx_depth [OF assms(1,2)] assms(1,2) by (simp add: fits_def Ctx(3) c1(2))
  then show "dw_holds (mDwI2cBase ! i) (Ctx, c') (dc_dev c')"
    using c' Ctx(1,2) by (auto simp: holds_still still_def)
  show "dc_dev c' = dc_dev c" if "dc_idle c"
  proof -
    have "still (dc_dev c) ?n c1" using that by (simp add: c1(1) still_def dc_idle_def tick_idle)
    then have "dc_dev ?d = dc_dev c" using still_enable [of "dc_dev c" ?n c1 devs pace Ctx 0] Ctx(1) by (simp add: still_def)
    then show ?thesis using c' by (simp add: still_def)
  qed
qed

end
