(* ===== verification/I2cHandles.thy ===== *)
theory I2cHandles
  imports I2cMaster
begin

text \<open>
  How the drivers and the application find a bus master: the handles with the protocol, as
  \<open>LocateHandleBuffer\<close> returns them, and the search for the device path of \<open>DwI2cDxe\<close> with the number
  of a bus.
\<close>

type_synonym guid = "u32 \<times> u16 \<times> u16 \<times> bytes"

definition DW_I2C_DEVICE_PATH_GUID :: guid where
  "DW_I2C_DEVICE_PATH_GUID = (0x3A8E7B2C, 0xD4F1, 0x4905, [0xB6, 0xC8, 0x1E, 0x9A, 0x0F, 0x3D, 0x5C, 0x72])"

definition HARDWARE_DEVICE_PATH :: u8 where "HARDWARE_DEVICE_PATH = 0x01"
definition HW_VENDOR_DP :: u8 where "HW_VENDOR_DP = 0x04"

record dw_device_path =
  dp_type :: u8
  dp_subtype :: u8
  dp_guid :: guid
  dp_instance :: u32

text \<open>The results of \<open>HandleProtocol\<close> for the device path and for the master.\<close>

record 'm i2c_handle =
  h_path :: "dw_device_path option"
  h_master :: "efi_status \<times> 'm"

fun find_handle :: "u32 \<Rightarrow> 'm i2c_handle list \<Rightarrow> efi_status \<times> 'm option" where
  "find_handle Instance [] = (EFI_NOT_FOUND, None)"
| "find_handle Instance (h # hs) = (case h_path h of
     None \<Rightarrow> find_handle Instance hs
   | Some p \<Rightarrow>
       if dp_type p \<noteq> HARDWARE_DEVICE_PATH \<or> dp_subtype p \<noteq> HW_VENDOR_DP then find_handle Instance hs
       else if dp_guid p \<noteq> DW_I2C_DEVICE_PATH_GUID then find_handle Instance hs
       else if dp_instance p \<noteq> Instance then find_handle Instance hs
       else case h_master h of (Status, m) \<Rightarrow> (Status, if EFI_ERROR Status then None else Some m))"

definition FindI2cMaster :: "u32 \<Rightarrow> efi_status \<times> 'm i2c_handle list \<Rightarrow> efi_status \<times> 'm option" where
  "FindI2cMaster BusInstance located = (case located of (Status, Handles) \<Rightarrow>
     if EFI_ERROR Status then (EFI_NOT_FOUND, None) else find_handle BusInstance Handles)"

text \<open>The handle of the bus: its path, and the master on it.\<close>

definition dw_path :: "u32 \<Rightarrow> dw_device_path" where
  "dw_path i = \<lparr>dp_type = HARDWARE_DEVICE_PATH, dp_subtype = HW_VENDOR_DP, dp_guid = DW_I2C_DEVICE_PATH_GUID, dp_instance = i\<rparr>"

lemma find_handle_skip:
  "(\<And>h. h \<in> set hs \<Longrightarrow> h_path h \<noteq> Some (dw_path i)) \<Longrightarrow> find_handle i (hs @ rest) = find_handle i rest"
  by (induction hs) (force simp: dw_path_def split: option.split)+

lemma find_handle_here:
  "h_path h = Some (dw_path i) \<Longrightarrow> \<not> EFI_ERROR (fst (h_master h)) \<Longrightarrow> find_handle i (h # hs) = (fst (h_master h), Some (snd (h_master h)))"
  by (auto simp: dw_path_def split: prod.split)

lemma find_handle_Some:
  "find_handle i hs = (st, Some m) \<Longrightarrow> \<exists>h \<in> set hs. h_path h = Some (dw_path i) \<and> h_master h = (st, m) \<and> \<not> EFI_ERROR st"
  by (induction hs) (auto simp: dw_path_def split: option.splits if_splits prod.splits)

lemma find_handle_none: "find_handle i hs = (st, None) \<Longrightarrow> EFI_ERROR st"
  by (induction hs) (auto split: option.splits if_splits prod.splits)

end
