(* ===== verification/Pca954x.thy ===== *)
theory Pca954x
  imports I2cHandles
begin

text \<open>
  The driver of the I2C switch, \<open>Drivers/Pca954xDxe/Pca954xDxe.c\<close>: four bus masters over one. The
  parent master is a parameter, its state a part of the state. A lock that is taken twice is
  \<^const>\<open>None\<close>. The null checks of \<open>This\<close> and the copy of the status through \<open>I2cStatus\<close> and the event,
  which every caller leaves out, are not modelled.
\<close>

unbundle bit_operations_syntax

definition PCA9546_SLAVE_ADDRESS :: u64 where "PCA9546_SLAVE_ADDRESS = 0x70"
definition PCA9546_CHANNEL_COUNT :: nat where "PCA9546_CHANNEL_COUNT = 4"
definition PCA954X_NO_CHANNEL :: u32 where "PCA954X_NO_CHANNEL = 0xFF"
definition PCA954X_PARENT_BUS_INSTANCE :: u32 where "PCA954X_PARENT_BUS_INSTANCE = 1"

record pca_mux =
  ActiveChannel :: u32
  MuxLock :: bool

definition FindParentI2cMaster :: "efi_status \<times> 'm i2c_handle list \<Rightarrow> efi_status \<times> 'm option" where
  "FindParentI2cMaster located = (case located of (Status, Handles) \<Rightarrow>
     if EFI_ERROR Status then (EFI_NOT_FOUND, None) else find_handle PCA954X_PARENT_BUS_INSTANCE Handles)"

text \<open>A packet of one write of one byte.\<close>

definition byte_packet :: "u8 \<Rightarrow> i2c_op list" where
  "byte_packet b = [\<lparr>Flags = 0, LengthInBytes = 1, Buffer = [b]\<rparr>]"

definition Pca954xSelectChannel :: "'s i2c_master \<Rightarrow> u32 \<Rightarrow> pca_mux \<times> 's \<Rightarrow> ((pca_mux \<times> 's) \<times> efi_status) option" where
  "Pca954xSelectChannel Parent Channel state = (let (Mux, s) = state in
     if ActiveChannel Mux = Channel then Some ((Mux, s), EFI_SUCCESS)
     else do {
       let RegVal = ucast (push_bit (unat Channel) (1 :: u32));
       (s, Status, _) \<leftarrow> StartRequest Parent PCA9546_SLAVE_ADDRESS (byte_packet RegVal) s;
       if EFI_ERROR Status then Some ((Mux\<lparr>ActiveChannel := PCA954X_NO_CHANNEL\<rparr>, s), Status)
       else Some ((Mux\<lparr>ActiveChannel := Channel\<rparr>, s), Status)
     })"

definition Pca954xSetBusFrequency :: "'s i2c_master \<Rightarrow> u64 \<Rightarrow> pca_mux \<times> 's \<Rightarrow> ((pca_mux \<times> 's) \<times> efi_status \<times> u64) option" where
  "Pca954xSetBusFrequency Parent BusClockHertz state = do {
     let (Mux, s) = state;
     (s, Status, hz) \<leftarrow> SetBusFrequency Parent BusClockHertz s;
     Some ((Mux, s), Status, hz)
   }"

definition Pca954xReset :: "'s i2c_master \<Rightarrow> pca_mux \<times> 's \<Rightarrow> ((pca_mux \<times> 's) \<times> efi_status) option" where
  "Pca954xReset Parent state = do {
     let (Mux, s) = state;
     (s, Status) \<leftarrow> Reset Parent s;
     Some ((Mux\<lparr>ActiveChannel := PCA954X_NO_CHANNEL\<rparr>, s), Status)
   }"

definition mux_acquire :: "pca_mux \<Rightarrow> pca_mux option" where
  "mux_acquire Mux = (if MuxLock Mux then None else Some (Mux\<lparr>MuxLock := True\<rparr>))"

definition mux_release :: "pca_mux \<Rightarrow> pca_mux" where
  "mux_release Mux = Mux\<lparr>MuxLock := False\<rparr>"

definition Pca954xStartRequest ::
    "'s i2c_master \<Rightarrow> u32 \<Rightarrow> u64 \<Rightarrow> i2c_op list option \<Rightarrow> pca_mux \<times> 's \<Rightarrow> ((pca_mux \<times> 's) \<times> efi_status \<times> i2c_op list) option" where
  "Pca954xStartRequest Parent Channel SlaveAddress RequestPacket state = (case RequestPacket of
     None \<Rightarrow> Some (state, EFI_INVALID_PARAMETER, [])
   | Some ops \<Rightarrow> do {
       let (Mux, s) = state;
       Mux \<leftarrow> mux_acquire Mux;
       ((Mux, s), Status) \<leftarrow> Pca954xSelectChannel Parent Channel (Mux, s);
       if EFI_ERROR Status then Some ((mux_release Mux, s), Status, ops)
       else do {
         (s, Status, ops) \<leftarrow> StartRequest Parent SlaveAddress ops s;
         Some ((mux_release Mux, s), Status, ops)
       }
     })"

text \<open>The master of a channel.\<close>

definition pca_child :: "'s i2c_master \<Rightarrow> u32 \<Rightarrow> (pca_mux \<times> 's) i2c_master" where
  "pca_child Parent Channel = \<lparr>SetBusFrequency = Pca954xSetBusFrequency Parent, Reset = Pca954xReset Parent,
     StartRequest = (\<lambda>a ops. Pca954xStartRequest Parent Channel a (Some ops))\<rparr>"

subsection \<open>The other protocols\<close>

definition Pca954xEnumerate :: "bool \<Rightarrow> efi_status" where
  "Pca954xEnumerate Device_given = (if Device_given then EFI_NO_MAPPING else EFI_INVALID_PARAMETER)"

definition Pca954xGetBusFrequency :: "bool \<Rightarrow> u64 \<Rightarrow> bool \<Rightarrow> efi_status \<times> u64 option" where
  "Pca954xGetBusFrequency This_given I2cBusConfiguration Out_given =
     (if \<not> This_given \<or> \<not> Out_given then (EFI_INVALID_PARAMETER, None)
      else if I2cBusConfiguration \<noteq> 0 then (EFI_NO_MAPPING, None)
      else (EFI_SUCCESS, Some 100000))"

definition Pca954xEnableBusConfiguration :: "u64 \<Rightarrow> efi_status" where
  "Pca954xEnableBusConfiguration I2cBusConfiguration = (if I2cBusConfiguration \<noteq> 0 then EFI_NO_MAPPING else EFI_SUCCESS)"

subsection \<open>The entry point\<close>

text \<open>
  The loop over the channels: the allocations and installations are parameters; the result is the
  channels whose protocols are installed, \<open>mChildHandles\<close>.
\<close>

fun pca_children :: "(nat \<Rightarrow> bool) \<Rightarrow> (nat \<Rightarrow> bool) \<Rightarrow> (nat \<Rightarrow> efi_status) \<Rightarrow> nat list \<Rightarrow> efi_status \<times> u32 list" where
  "pca_children al_chan al_path install [] = (EFI_SUCCESS, [])"
| "pca_children al_chan al_path install (i # is) =
     (if \<not> al_chan i \<or> \<not> al_path i then (EFI_OUT_OF_RESOURCES, [])
      else if EFI_ERROR (install i) then (install i, [])
      else case pca_children al_chan al_path install is of (Status, cs) \<Rightarrow> (Status, of_nat i # cs))"

text \<open>The master found, the context and the children.\<close>

definition Pca954xDxeInitialize ::
    "efi_status \<times> 's i2c_master i2c_handle list \<Rightarrow> bool \<Rightarrow> (nat \<Rightarrow> bool) \<Rightarrow> (nat \<Rightarrow> bool) \<Rightarrow> (nat \<Rightarrow> efi_status) \<Rightarrow> 's \<Rightarrow>
      ('s \<times> efi_status \<times> ('s i2c_master \<times> pca_mux \<times> u32 list) option) option" where
  "Pca954xDxeInitialize located al_mux al_chan al_path install s = (case FindParentI2cMaster located of
     (_, None) \<Rightarrow> Some (s, EFI_NOT_FOUND, None)
   | (_, Some Parent) \<Rightarrow>
       if \<not> al_mux then Some (s, EFI_OUT_OF_RESOURCES, None)
       else do {
         let Mux = \<lparr>ActiveChannel = PCA954X_NO_CHANNEL, MuxLock = False\<rparr>;
         (s, Status, _) \<leftarrow> StartRequest Parent PCA9546_SLAVE_ADDRESS (byte_packet 0x00) s;
         if EFI_ERROR Status then Some (s, EFI_NOT_FOUND, None)
         else let (Status, cs) = pca_children al_chan al_path install [0..<PCA9546_CHANNEL_COUNT]
           in Some (s, Status, Some (Parent, Mux, cs))
       })"

end
