(* ===== verification/Pca9546.thy ===== *)
theory Pca9546
  imports Pca954x
begin

text \<open>
  A model of the PCA9546 switch and of the bus behind it, and what the driver makes of it: each child is
  a master of the devices on the bus and on its channel, the locale \<open>pca_switch\<close>. The control register
  connects the channels whose bits are set; it is written by a write to the address 0x70 and takes
  effect at the stop condition. A line that several devices drive reads as their conjunction.
\<close>

unbundle bit_operations_syntax

subsection \<open>The switch\<close>

record ('f, 'g) mux_world =
  mw_ctrl :: u8
  mw_new :: "u8 option"     \<comment> \<open>written, not yet in effect\<close>
  mw_sel :: "bool option"   \<comment> \<open>addressed: a read?\<close>
  mw_main :: 'f
  mw_chan :: "nat \<Rightarrow> 'g"

definition connected :: "u8 \<Rightarrow> nat \<Rightarrow> bool" where
  "connected ctrl k = (k < 4 \<and> bit ctrl k)"

definition mux_devs :: "'f i2c_devs \<Rightarrow> (nat \<Rightarrow> 'g i2c_devs) \<Rightarrow> ('f, 'g) mux_world i2c_devs" where
  "mux_devs main chan = \<lparr>
     ib_start = (\<lambda>a rd w. (w\<lparr>mw_sel := if a = 0x70 then Some rd else None, mw_main := fst (ib_start main a rd (mw_main w)),
         mw_chan := \<lambda>k. if connected (mw_ctrl w) k then fst (ib_start (chan k) a rd (mw_chan w k)) else mw_chan w k\<rparr>,
       a = 0x70 \<or> snd (ib_start main a rd (mw_main w)) \<or>
         (\<exists>k<4. connected (mw_ctrl w) k \<and> snd (ib_start (chan k) a rd (mw_chan w k))))),
     ib_write = (\<lambda>b w. (w\<lparr>mw_new := if mw_sel w = Some False then Some b else mw_new w, mw_main := fst (ib_write main b (mw_main w)),
         mw_chan := \<lambda>k. if connected (mw_ctrl w) k then fst (ib_write (chan k) b (mw_chan w k)) else mw_chan w k\<rparr>,
       mw_sel w = Some False \<or> snd (ib_write main b (mw_main w)) \<or>
         (\<exists>k<4. connected (mw_ctrl w) k \<and> snd (ib_write (chan k) b (mw_chan w k))))),
     ib_read = (\<lambda>w. (w\<lparr>mw_main := fst (ib_read main (mw_main w)),
         mw_chan := \<lambda>k. if connected (mw_ctrl w) k then fst (ib_read (chan k) (mw_chan w k)) else mw_chan w k\<rparr>,
       fold (\<lambda>k b. if connected (mw_ctrl w) k then b AND snd (ib_read (chan k) (mw_chan w k)) else b) [0..<4]
         ((if mw_sel w = Some True then mw_ctrl w else 0xFF) AND snd (ib_read main (mw_main w))))),
     ib_stop = (\<lambda>w. w\<lparr>mw_ctrl := (case mw_new w of None \<Rightarrow> mw_ctrl w | Some b \<Rightarrow> b), mw_new := None, mw_sel := None,
         mw_main := ib_stop main (mw_main w),
         mw_chan := \<lambda>k. if connected (mw_ctrl w) k then ib_stop (chan k) (mw_chan w k) else mw_chan w k\<rparr>)\<rparr>"

lemma mux_devs_sel [simp]:
  "ib_start (mux_devs main chan) a rd w = (w\<lparr>mw_sel := if a = 0x70 then Some rd else None, mw_main := fst (ib_start main a rd (mw_main w)),
         mw_chan := \<lambda>k. if connected (mw_ctrl w) k then fst (ib_start (chan k) a rd (mw_chan w k)) else mw_chan w k\<rparr>,
       a = 0x70 \<or> snd (ib_start main a rd (mw_main w)) \<or>
         (\<exists>k<4. connected (mw_ctrl w) k \<and> snd (ib_start (chan k) a rd (mw_chan w k))))"
  "ib_write (mux_devs main chan) b w = (w\<lparr>mw_new := if mw_sel w = Some False then Some b else mw_new w, mw_main := fst (ib_write main b (mw_main w)),
         mw_chan := \<lambda>k. if connected (mw_ctrl w) k then fst (ib_write (chan k) b (mw_chan w k)) else mw_chan w k\<rparr>,
       mw_sel w = Some False \<or> snd (ib_write main b (mw_main w)) \<or>
         (\<exists>k<4. connected (mw_ctrl w) k \<and> snd (ib_write (chan k) b (mw_chan w k))))"
  "fst (ib_read (mux_devs main chan) w) = w\<lparr>mw_main := fst (ib_read main (mw_main w)),
         mw_chan := \<lambda>k. if connected (mw_ctrl w) k then fst (ib_read (chan k) (mw_chan w k)) else mw_chan w k\<rparr>"
  "snd (ib_read (mux_devs main chan) w) = fold (\<lambda>k b. if connected (mw_ctrl w) k then b AND snd (ib_read (chan k) (mw_chan w k)) else b) [0..<4]
         ((if mw_sel w = Some True then mw_ctrl w else 0xFF) AND snd (ib_read main (mw_main w)))"
  "ib_stop (mux_devs main chan) w = w\<lparr>mw_ctrl := (case mw_new w of None \<Rightarrow> mw_ctrl w | Some b \<Rightarrow> b), mw_new := None, mw_sel := None,
         mw_main := ib_stop main (mw_main w),
         mw_chan := \<lambda>k. if connected (mw_ctrl w) k then ib_stop (chan k) (mw_chan w k) else mw_chan w k\<rparr>"
  by (simp_all add: mux_devs_def)

subsection \<open>A channel\<close>

text \<open>The bus and the channel \<open>k\<close>, as if they were one bus; the other channels are carried along.\<close>

definition channel_devs :: "'f i2c_devs \<Rightarrow> (nat \<Rightarrow> 'g i2c_devs) \<Rightarrow> nat \<Rightarrow> ('f \<times> (nat \<Rightarrow> 'g)) i2c_devs" where
  "channel_devs main chan k = \<lparr>
     ib_start = (\<lambda>a rd (f, G). ((fst (ib_start main a rd f), G(k := fst (ib_start (chan k) a rd (G k)))),
       snd (ib_start main a rd f) \<or> snd (ib_start (chan k) a rd (G k)))),
     ib_write = (\<lambda>b (f, G). ((fst (ib_write main b f), G(k := fst (ib_write (chan k) b (G k)))),
       snd (ib_write main b f) \<or> snd (ib_write (chan k) b (G k)))),
     ib_read = (\<lambda>(f, G). ((fst (ib_read main f), G(k := fst (ib_read (chan k) (G k)))),
       snd (ib_read main f) AND snd (ib_read (chan k) (G k)))),
     ib_stop = (\<lambda>(f, G). (ib_stop main f, G(k := ib_stop (chan k) (G k))))\<rparr>"

text \<open>The switch at rest with only the channel \<open>k\<close> connected.\<close>

definition on_channel :: "nat \<Rightarrow> 'f \<times> (nat \<Rightarrow> 'g) \<Rightarrow> ('f, 'g) mux_world" where
  "on_channel k p = \<lparr>mw_ctrl = 2 ^ k, mw_new = None, mw_sel = None, mw_main = fst p, mw_chan = snd p\<rparr>"

lemma connected_one: "k < 4 \<Longrightarrow> connected (2 ^ k) j \<longleftrightarrow> j = k"
  by (auto simp: connected_def bit_simps)

lemma fold_other: "k \<notin> set ks \<Longrightarrow> fold (\<lambda>j b. if j = k then g b else b) ks b = b"
  by (induction ks arbitrary: b) auto

lemma fold_one: "k < 4 \<Longrightarrow> fold (\<lambda>j b. if j = k then b AND h j else b) [0..<4] b = b AND (h k :: u8)"
proof -
  assume "k < 4"
  then have "k = 0 \<or> k = 1 \<or> k = 2 \<or> k = 3" by arith
  then show ?thesis by (auto simp: upt_rec)
qed

lemma all_ones [simp]: "0xFF AND b = (b :: u8)"
proof -
  have m: "(0xFF :: u8) = - 1" by simp
  show ?thesis unfolding m by simp
qed

lemma channel_embeds:
  assumes "k < 4" and "a \<noteq> 0x70"
  shows "embeds (on_channel k) (mux_devs main chan) (channel_devs main chan k) a"
  using assms
  by (auto simp: embeds_def on_channel_def channel_devs_def connected_one fun_eq_iff fold_one intro!: prod_eqI)

lemma on_channel_inj: "on_channel k p = on_channel k q \<Longrightarrow> p = q"
  by (auto simp: on_channel_def intro: prod_eqI)


subsection \<open>Selecting a channel\<close>

text \<open>
  Devices that a visit at the address of the switch leaves alone: one that has seen a stop condition is
  at rest, and a device at rest is at rest after a visit at another address than its own.
\<close>

definition at_rest :: "'f i2c_devs \<Rightarrow> 'f \<Rightarrow> bool" where
  "at_rest devs f = (ib_stop devs f = f)"

definition stops_settle :: "'f i2c_devs \<Rightarrow> bool" where
  "stops_settle devs = (\<forall>f. at_rest devs (ib_stop devs f))"

definition deaf :: "'f i2c_devs \<Rightarrow> u8 \<Rightarrow> bool" where
  "deaf devs a = (\<forall>f g. at_rest devs f \<longrightarrow> bus_visit devs a f g \<longrightarrow> g = f)"

lemma deafD: "deaf devs a \<Longrightarrow> at_rest devs f \<Longrightarrow> bus_visit devs a f g \<Longrightarrow> g = f"
  by (simp add: deaf_def)

lemma visit_rest: "bus_visit devs a f g \<Longrightarrow> at_rest devs f \<Longrightarrow> stops_settle devs \<Longrightarrow> at_rest devs g"
  by (auto simp: bus_visit_def stops_settle_def)

text \<open>While the switch is addressed, each part of the bus sees only that address, and a stop condition before it is cut off.\<close>

definition passed_by :: "'f i2c_devs \<Rightarrow> (nat \<Rightarrow> 'g i2c_devs) \<Rightarrow> u8 \<Rightarrow> ('f, 'g) mux_world \<Rightarrow> ('f, 'g) mux_world \<Rightarrow> bool" where
  "passed_by main chan a w v = (bus_steps main a (mw_main w) (mw_main v) \<and>
     (\<forall>k. bus_steps (chan k) a (mw_chan w k) (mw_chan v k) \<and>
       (\<not> connected (mw_ctrl v) k \<longrightarrow> bus_visit (chan k) a (mw_chan w k) (mw_chan v k))))"

lemma mux_steps_parts:
  assumes "bus_steps (mux_devs main chan) a w v"
  shows "passed_by main chan a w v"
  using assms
proof (induction rule: bus_steps.induct)
  case steps_refl
  then show ?case by (simp add: passed_by_def bus_steps.steps_refl)
next
  case (steps_start v rd)
  then show ?case by (simp add: passed_by_def bus_steps.steps_start)
next
  case (steps_write v b)
  then show ?case by (simp add: passed_by_def bus_steps.steps_write)
next
  case (steps_read v)
  then show ?case by (simp add: passed_by_def bus_steps.steps_read)
next
  case (steps_stop v)
  then show ?case by (auto simp: passed_by_def bus_steps.steps_stop bus_visit_def)
qed

definition mux_at_rest :: "'f i2c_devs \<Rightarrow> (nat \<Rightarrow> 'g i2c_devs) \<Rightarrow> ('f, 'g) mux_world \<Rightarrow> bool" where
  "mux_at_rest main chan w = (mw_new w = None \<and> mw_sel w = None \<and> at_rest main (mw_main w) \<and> (\<forall>k. at_rest (chan k) (mw_chan w k)))"

lemma select_visit:
  assumes "bus_visit (mux_devs main chan) 0x70 w v" and "mux_at_rest main chan w"
    and "deaf main 0x70" and "\<And>k. deaf (chan k) 0x70"
  shows "mux_at_rest main chan v" and "mw_main v = mw_main w" and "mw_chan v = mw_chan w"
proof -
  have "mux_at_rest main chan v \<and> mw_main v = mw_main w \<and> mw_chan v = mw_chan w"
  proof (cases "v = w")
    case False
    then obtain h where h: "passed_by main chan 0x70 w h" "v = ib_stop (mux_devs main chan) h"
      using assms(1) by (auto simp: bus_visit_def simp del: mux_devs_sel dest: mux_steps_parts)
    have m: "mw_main v = mw_main w"
      using h deafD [OF assms(3), of "mw_main w" "mw_main v"] assms(2) by (auto simp: passed_by_def bus_visit_def mux_at_rest_def)
    have c: "mw_chan v k = mw_chan w k" for k
    proof (rule deafD [OF assms(4)])
      show "at_rest (chan k) (mw_chan w k)" using assms(2) by (simp add: mux_at_rest_def)
      have "bus_steps (chan k) 0x70 (mw_chan w k) (mw_chan h k)"
          "\<not> connected (mw_ctrl h) k \<longrightarrow> bus_visit (chan k) 0x70 (mw_chan w k) (mw_chan h k)"
        using h(1) by (simp_all add: passed_by_def)
      then show "bus_visit (chan k) 0x70 (mw_chan w k) (mw_chan v k)" by (auto simp: h(2) bus_visit_def)
    qed
    show ?thesis using m c assms(2) h(2) by (auto simp: mux_at_rest_def)
  qed (use assms(2) in simp)
  then show "mux_at_rest main chan v" and "mw_main v = mw_main w" and "mw_chan v = mw_chan w" by simp_all
qed

text \<open>The switch acknowledges, and the byte becomes its control register.\<close>

lemma select_transaction:
  "\<exists>v. transaction (mux_devs main chan) 0x70 (byte_packet b) w = Some (v, byte_packet b) \<and> mw_ctrl v = b"
  by (simp add: transaction_def byte_packet_def op_run_def op_reads_def op_len_def I2C_FLAG_READ_def)

text \<open>Requests to a channel do not reach the others.\<close>

lemma channel_isolated:
  assumes "bus_visit (channel_devs main chan k) a p q" and "j \<noteq> k"
  shows "snd q j = snd p j"
proof -
  have "snd h j = snd p j" if "bus_steps (channel_devs main chan k) a p h" for h
    using that
    by (rule bus_steps_invariant [where P = "\<lambda>h. snd h j = snd p j"]) (use assms(2) in \<open>auto simp: channel_devs_def split: prod.splits\<close>)
  then show ?thesis using assms by (auto simp: bus_visit_def channel_devs_def split: prod.splits)
qed

lemma channel_rest:
  assumes "bus_visit (channel_devs main chan k) a p q" and "at_rest main (fst p)" and "\<And>j. at_rest (chan j) (snd p j)"
    and "stops_settle main" and "\<And>j. stops_settle (chan j)"
  shows "at_rest main (fst q) \<and> (\<forall>j. at_rest (chan j) (snd q j))"
proof -
  have "at_rest (chan j) (snd q j)" if "j \<noteq> k" for j using channel_isolated [OF assms(1) that] assms(3) by simp
  moreover have "at_rest main (fst q) \<and> at_rest (chan k) (snd q k)"
    using assms by (auto simp: bus_visit_def channel_devs_def stops_settle_def split: prod.splits)
  ultimately show ?thesis by metis
qed

subsection \<open>The children\<close>

lemma channel_word:
  assumes "k < 4"
  shows "unat (of_nat k :: u32) = k" and "(of_nat k :: u32) \<noteq> PCA954X_NO_CHANNEL" and "ucast (push_bit k (1 :: u32)) = (2 ^ k :: u8)"
proof -
  have "k = 0 \<or> k = 1 \<or> k = 2 \<or> k = 3" using assms by arith
  then show "unat (of_nat k :: u32) = k" and "(of_nat k :: u32) \<noteq> PCA954X_NO_CHANNEL"
      and "ucast (push_bit k (1 :: u32)) = (2 ^ k :: u8)"
    by (auto simp: PCA954X_NO_CHANNEL_def)
qed

text \<open>
  Between two requests: the lock is free, everything is at rest, and the channel that the driver believes
  to be active is the one that is connected.
\<close>

definition child_holds ::
    "('s \<Rightarrow> ('f, 'g) mux_world \<Rightarrow> bool) \<Rightarrow> 'f i2c_devs \<Rightarrow> (nat \<Rightarrow> 'g i2c_devs) \<Rightarrow> pca_mux \<times> 's \<Rightarrow> 'f \<times> (nat \<Rightarrow> 'g) \<Rightarrow> bool" where
  "child_holds holds main chan state p = (case state of (Mux, s) \<Rightarrow> \<not> MuxLock Mux \<and>
     (\<exists>w. holds s w \<and> mux_at_rest main chan w \<and> mw_main w = fst p \<and> mw_chan w = snd p \<and>
       (ActiveChannel Mux \<noteq> PCA954X_NO_CHANNEL \<longrightarrow> mw_ctrl w = 2 ^ unat (ActiveChannel Mux))))"

locale pca_switch = i2c_bus m "mux_devs main chan" allowed holds reliable
  for m :: "'s i2c_master" and main :: "'f i2c_devs" and chan :: "nat \<Rightarrow> 'g i2c_devs" and allowed holds reliable +
  assumes mux_allowed: "allowed 0x70" and main_deaf: "deaf main 0x70" and chan_deaf: "deaf (chan k) 0x70"
    and main_settles: "stops_settle main" and chan_settles: "stops_settle (chan k)"

context pca_switch begin

lemma select:
  assumes "holds s w" and "mux_at_rest main chan w" and "k < 4"
    and "ActiveChannel Mux \<noteq> PCA954X_NO_CHANNEL \<longrightarrow> mw_ctrl w = 2 ^ unat (ActiveChannel Mux)"
  obtains Mux' s' st v where "Pca954xSelectChannel m (of_nat k) (Mux, s) = Some ((Mux', s'), st)" and "MuxLock Mux' = MuxLock Mux"
    and "holds s' v" and "mux_at_rest main chan v" and "mw_main v = mw_main w" and "mw_chan v = mw_chan w"
    and "st = EFI_SUCCESS \<longrightarrow> ActiveChannel Mux' = of_nat k \<and> mw_ctrl v = 2 ^ k"
    and "st \<noteq> EFI_SUCCESS \<longrightarrow> EFI_ERROR st \<and> \<not> reliable \<and> ActiveChannel Mux' = PCA954X_NO_CHANNEL"
proof -
  have k: "unat (of_nat k :: u32) = k" "(of_nat k :: u32) \<noteq> PCA954X_NO_CHANNEL" and r: "ucast (push_bit k (1 :: u32)) = (2 ^ k :: u8)"
    using channel_word [OF assms(3)] by simp_all
  show thesis
  proof (cases "ActiveChannel Mux = of_nat k")
    case True
    then show ?thesis using assms k by (intro that [of Mux s EFI_SUCCESS w]) (auto simp: Pca954xSelectChannel_def)
  next
    case False
    let ?r = "ucast (push_bit k (1 :: u32)) :: u8"
    have a: "bus_addr PCA9546_SLAVE_ADDRESS = 0x70" by (simp add: bus_addr_def PCA9546_SLAVE_ADDRESS_def)
    have ok: "request_ok (byte_packet ?r)" by (simp add: request_ok_def byte_packet_def op_len_def)
    obtain s' st ops' g where q: "StartRequest m PCA9546_SLAVE_ADDRESS (byte_packet ?r) s = Some (s', st, ops')" "holds s' g"
        "bus_visit (mux_devs main chan) 0x70 w g"
        "st = EFI_SUCCESS \<longrightarrow> transaction (mux_devs main chan) 0x70 (byte_packet ?r) w = Some (g, ops')"
        "st \<noteq> EFI_SUCCESS \<longrightarrow> EFI_ERROR st \<and> (reliable \<longrightarrow> transaction (mux_devs main chan) 0x70 (byte_packet ?r) w = None)"
      using request_total [OF assms(1) _ ok, of PCA9546_SLAVE_ADDRESS] mux_allowed a by metis
    note v = select_visit [OF q(3) assms(2) main_deaf chan_deaf]
    obtain v where t: "transaction (mux_devs main chan) 0x70 (byte_packet ?r) w = Some (v, byte_packet ?r)" "mw_ctrl v = ?r"
      using select_transaction by blast
    show ?thesis
    proof (cases "st = EFI_SUCCESS")
      case True
      then have "g = v" using q(4) t(1) by simp
      then show ?thesis using True False q(1,2) v t(2) r
        by (intro that [of "Mux\<lparr>ActiveChannel := of_nat k\<rparr>" s' st g]) (auto simp: Pca954xSelectChannel_def k)
    next
      case st: False
      then show ?thesis using False q(1,2,5) v t(1)
        by (intro that [of "Mux\<lparr>ActiveChannel := PCA954X_NO_CHANNEL\<rparr>" s' st g]) (auto simp: Pca954xSelectChannel_def k)
    qed
  qed
qed

lemma child_request:
  assumes "child_holds holds main chan state p" and "k < 4" and "allowed (bus_addr a)" and "bus_addr a \<noteq> 0x70" and "request_ok ops"
  shows "\<exists>q. request_done (channel_devs main chan k) reliable (child_holds holds main chan) (bus_addr a) ops p
    (StartRequest (pca_child m (of_nat k)) a ops state) q"
proof -
  let ?ch = "channel_devs main chan k"
  obtain Mux s w where w: "state = (Mux, s)" "\<not> MuxLock Mux" "holds s w" "mux_at_rest main chan w" "mw_main w = fst p" "mw_chan w = snd p"
      "ActiveChannel Mux \<noteq> PCA954X_NO_CHANNEL \<longrightarrow> mw_ctrl w = 2 ^ unat (ActiveChannel Mux)"
    using assms(1) by (cases state) (auto simp: child_holds_def)
  have rest: "at_rest main (fst p)" "\<And>j. at_rest (chan j) (snd p j)" using w(4-6) by (auto simp: mux_at_rest_def)
  obtain Mux1 s1 st1 v where v: "Pca954xSelectChannel m (of_nat k) (Mux\<lparr>MuxLock := True\<rparr>, s) = Some ((Mux1, s1), st1)"
      "holds s1 v" "mux_at_rest main chan v" "mw_main v = mw_main w" "mw_chan v = mw_chan w"
      "st1 = EFI_SUCCESS \<longrightarrow> ActiveChannel Mux1 = of_nat k \<and> mw_ctrl v = 2 ^ k"
      "st1 \<noteq> EFI_SUCCESS \<longrightarrow> EFI_ERROR st1 \<and> \<not> reliable \<and> ActiveChannel Mux1 = PCA954X_NO_CHANNEL"
    by (rule select [OF w(3,4) assms(2), where Mux = "Mux\<lparr>MuxLock := True\<rparr>"]) (use w(7) in simp_all)
  show ?thesis
  proof (cases "st1 = EFI_SUCCESS")
    case False
    then have "child_holds holds main chan (mux_release Mux1, s1) p"
      using v w(5,6) by (auto simp: child_holds_def mux_release_def)
    then show ?thesis using False v(1,7) w(1,2)
      by (intro exI [of _ p]) (auto simp: request_done_def pca_child_def Pca954xStartRequest_def mux_acquire_def)
  next
    case True
    have on: "v = on_channel k p" using True v(3-6) w(5,6) by (simp add: on_channel_def mux_at_rest_def)
    note e = channel_embeds [OF assms(2,4), of main chan]
    obtain s2 st2 ops2 g where r: "StartRequest m a ops s1 = Some (s2, st2, ops2)" "holds s2 g" "bus_visit (mux_devs main chan) (bus_addr a) v g"
        "st2 = EFI_SUCCESS \<longrightarrow> transaction (mux_devs main chan) (bus_addr a) ops v = Some (g, ops2)"
        "st2 \<noteq> EFI_SUCCESS \<longrightarrow> EFI_ERROR st2 \<and> (reliable \<longrightarrow> transaction (mux_devs main chan) (bus_addr a) ops v = None)"
      by (rule request_total [OF v(2) assms(3,5)])
    obtain q where q: "g = on_channel k q" "bus_visit ?ch (bus_addr a) p q" using embeds_visit [OF r(3) [unfolded on] e] by blast
    note t = embeds_transaction [OF e, of ops p]
    have "at_rest main (fst q) \<and> (\<forall>j. at_rest (chan j) (snd q j))"
      by (rule channel_rest [OF q(2) rest main_settles chan_settles])
    then have h: "child_holds holds main chan (mux_release Mux1, s2) q"
      using r(2) v(6) True channel_word(1) [OF assms(2)] unfolding q(1)
      by (auto simp: child_holds_def mux_release_def mux_at_rest_def on_channel_def)
    have "transaction ?ch (bus_addr a) ops p = Some (q, ops2)" if "st2 = EFI_SUCCESS"
      using r(4) that t unfolding on q(1) by (auto dest: on_channel_inj simp del: split_paired_All split_paired_Ex)
    moreover have "transaction ?ch (bus_addr a) ops p = None" if "st2 \<noteq> EFI_SUCCESS" reliable
      using r(5) that t unfolding on by simp
    moreover have "StartRequest (pca_child m (of_nat k)) a ops state = Some ((mux_release Mux1, s2), st2, ops2)"
      using True v(1) w(1,2) r(1) by (simp add: pca_child_def Pca954xStartRequest_def mux_acquire_def)
    ultimately show ?thesis using h q(2) r(5) by (intro exI [of _ q]) (auto simp: request_done_def)
  qed
qed

lemma child_reset:
  assumes "child_holds holds main chan state p"
  shows "\<exists>state'. Reset (pca_child m c) state = Some (state', EFI_SUCCESS) \<and> child_holds holds main chan state' p"
proof -
  obtain Mux s w where w: "state = (Mux, s)" "\<not> MuxLock Mux" "holds s w" "mux_at_rest main chan w" "mw_main w = fst p" "mw_chan w = snd p"
    using assms by (cases state) (auto simp: child_holds_def)
  obtain s' where s': "Reset m s = Some (s', EFI_SUCCESS)" "holds s' w" using reset [OF w(3)] by blast
  then show ?thesis using w by (auto simp: pca_child_def Pca954xReset_def child_holds_def)
qed

lemma child_frequency:
  assumes "child_holds holds main chan state p"
  shows "\<exists>state' hz'. SetBusFrequency (pca_child m c) hz state = Some (state', EFI_SUCCESS, hz') \<and> child_holds holds main chan state' p"
proof -
  obtain Mux s w where w: "state = (Mux, s)" "\<not> MuxLock Mux" "holds s w" "mux_at_rest main chan w" "mw_main w = fst p" "mw_chan w = snd p"
      "ActiveChannel Mux \<noteq> PCA954X_NO_CHANNEL \<longrightarrow> mw_ctrl w = 2 ^ unat (ActiveChannel Mux)"
    using assms by (cases state) (auto simp: child_holds_def)
  obtain s' hz' where s': "SetBusFrequency m hz s = Some (s', EFI_SUCCESS, hz')" "holds s' w" using frequency [OF w(3)] by blast
  then show ?thesis using w by (auto simp: pca_child_def Pca954xSetBusFrequency_def child_holds_def)
qed

text \<open>The entry point deselects all channels.\<close>

lemma initialize:
  assumes "holds s w" and "mux_at_rest main chan w" and "FindParentI2cMaster located = (EFI_SUCCESS, Some m)"
    and reliable and "\<And>i. al_chan i \<and> al_path i \<and> install i = EFI_SUCCESS"
  shows "\<exists>s' Mux. Pca954xDxeInitialize located True al_chan al_path install s = Some (s', EFI_SUCCESS, Some (m, Mux, [0, 1, 2, 3])) \<and>
    child_holds holds main chan (Mux, s') (mw_main w, mw_chan w) \<and> holds s' (w\<lparr>mw_ctrl := 0\<rparr>)"
proof -
  have a: "bus_addr PCA9546_SLAVE_ADDRESS = 0x70" by (simp add: bus_addr_def PCA9546_SLAVE_ADDRESS_def)
  have ok: "request_ok (byte_packet 0)" by (simp add: request_ok_def byte_packet_def op_len_def)
  obtain v where t: "transaction (mux_devs main chan) 0x70 (byte_packet 0) w = Some (v, byte_packet 0)" "mw_ctrl v = 0"
    using select_transaction by blast
  obtain s' st ops' g where q: "StartRequest m PCA9546_SLAVE_ADDRESS (byte_packet 0) s = Some (s', st, ops')" "holds s' g"
      "bus_visit (mux_devs main chan) (bus_addr PCA9546_SLAVE_ADDRESS) w g"
      "st = EFI_SUCCESS \<longrightarrow> transaction (mux_devs main chan) (bus_addr PCA9546_SLAVE_ADDRESS) (byte_packet 0) w = Some (g, ops')"
      "st \<noteq> EFI_SUCCESS \<longrightarrow> EFI_ERROR st \<and>
        (reliable \<longrightarrow> transaction (mux_devs main chan) (bus_addr PCA9546_SLAVE_ADDRESS) (byte_packet 0) w = None)"
    by (rule request_total [OF assms(1) _ ok, of PCA9546_SLAVE_ADDRESS]) (simp_all add: mux_allowed a)
  have st: "st = EFI_SUCCESS" "g = v" using q(4,5) t(1) assms(4) unfolding a by auto
  note v = select_visit [OF q(3) [unfolded a] assms(2) main_deaf chan_deaf, unfolded st(2)]
  have g: "v = w\<lparr>mw_ctrl := 0\<rparr>" using v assms(2) t(2) by (simp add: mux_at_rest_def)
  have "pca_children al_chan al_path install [0..<PCA9546_CHANNEL_COUNT] = (EFI_SUCCESS, [0, 1, 2, 3])"
    using assms(5) by (simp add: PCA9546_CHANNEL_COUNT_def upt_rec)
  then have "Pca954xDxeInitialize located True al_chan al_path install s =
      Some (s', EFI_SUCCESS, Some (m, \<lparr>ActiveChannel = PCA954X_NO_CHANNEL, MuxLock = False\<rparr>, [0, 1, 2, 3]))"
    using assms(3) q(1) st(1) by (simp add: Pca954xDxeInitialize_def)
  then show ?thesis using q(2) v unfolding st(2) by (auto simp: child_holds_def g)
qed

end

text \<open>The channel \<open>k\<close> is a bus of its own.\<close>

locale pca_channel = pca_switch +
  fixes k :: nat
  assumes channel: "k < 4"

sublocale pca_channel \<subseteq> child: i2c_bus "pca_child m (of_nat k)" "channel_devs main chan k" "\<lambda>a. allowed a \<and> a \<noteq> 0x70"
  "child_holds holds main chan" reliable
  by unfold_locales (use child_request channel in blast, rule child_frequency, assumption, rule child_reset, assumption)

end
