(* ===== verification/FanDxe.thy ===== *)
theory FanDxe
  imports I2cHandles
begin

text \<open>
  The fan driver, \<open>Drivers/FanDxe/FanDxe.c\<close>: it checks the version of the fan controller and from then on
  sends the PWM command again every four seconds. Its contract is proved over any bus master, the locale
  \<open>fan_client\<close>.
\<close>

unbundle bit_operations_syntax

definition FAN_MCU_SLAVE_ADDRESS :: u64 where "FAN_MCU_SLAVE_ADDRESS = 0x0D"
definition FAN_MCU_REG_VERSION :: u8 where "FAN_MCU_REG_VERSION = 0x90"
definition FAN_MCU_REG_COMMAND :: u8 where "FAN_MCU_REG_COMMAND = 0x98"
definition FAN_MCU_CMD_PWM :: u8 where "FAN_MCU_CMD_PWM = 0x23"
definition FAN_PWM_VALUE :: u8 where "FAN_PWM_VALUE = 51"
definition FAN_KEEPALIVE_INTERVAL :: u64 where "FAN_KEEPALIVE_INTERVAL = 40000000"
definition FAN_PARENT_BUS_INSTANCE :: u32 where "FAN_PARENT_BUS_INSTANCE = 1"

definition FindI2cMasterBus1 :: "efi_status \<times> 'm i2c_handle list \<Rightarrow> efi_status \<times> 'm option" where
  "FindI2cMasterBus1 located = (case located of (Status, Handles) \<Rightarrow>
     if EFI_ERROR Status then (EFI_NOT_FOUND, None) else find_handle FAN_PARENT_BUS_INSTANCE Handles)"

subsection \<open>The registers of the fan controller\<close>

text \<open>\<open>al_buf\<close> and \<open>al_pkt\<close>: whether the buffer and the packet can be allocated.\<close>

definition FanMcuWriteReg :: "'s i2c_master \<Rightarrow> bool \<Rightarrow> bool \<Rightarrow> u8 \<Rightarrow> bytes \<Rightarrow> 's \<Rightarrow> ('s \<times> efi_status) option" where
  "FanMcuWriteReg m al_buf al_pkt Reg Data s =
     (if \<not> al_buf \<or> \<not> al_pkt then Some (s, EFI_OUT_OF_RESOURCES)
      else do {
        (s, Status, _) \<leftarrow> StartRequest m FAN_MCU_SLAVE_ADDRESS
          [\<lparr>Flags = 0, LengthInBytes = of_nat (1 + length Data), Buffer = Reg # Data\<rparr>] s;
        Some (s, Status)
      })"

text \<open>The buffer \<open>Data\<close> of the caller, as it is after the request.\<close>

definition FanMcuReadReg :: "'s i2c_master \<Rightarrow> u8 \<Rightarrow> bytes \<Rightarrow> 's \<Rightarrow> ('s \<times> efi_status \<times> bytes) option" where
  "FanMcuReadReg m Reg Data s = do {
     (s, Status, ops) \<leftarrow> StartRequest m FAN_MCU_SLAVE_ADDRESS
       [\<lparr>Flags = 0, LengthInBytes = 1, Buffer = [Reg]\<rparr>,
        \<lparr>Flags = I2C_FLAG_READ, LengthInBytes = of_nat (length Data), Buffer = Data\<rparr>] s;
     Some (s, Status, Buffer (last ops))
   }"

text \<open>\<open>Buf\<close> is what the array on the stack holds at first.\<close>

definition FanMcuReadVersion :: "'s i2c_master \<Rightarrow> bytes \<Rightarrow> 's \<Rightarrow> ('s \<times> efi_status \<times> u16 option) option" where
  "FanMcuReadVersion m Buf s = do {
     (s, Status, Buf) \<leftarrow> FanMcuReadReg m FAN_MCU_REG_VERSION Buf s;
     if EFI_ERROR Status then Some (s, Status, None)
     else do {
       b0 \<leftarrow> rd8 Buf 0; b1 \<leftarrow> rd8 Buf 1; b2 \<leftarrow> rd8 Buf 2; b3 \<leftarrow> rd8 Buf 3;
       if b2 \<noteq> 1 then Some (s, EFI_DEVICE_ERROR, None)
       else if b0 XOR b1 XOR b2 \<noteq> b3 then Some (s, EFI_DEVICE_ERROR, None)
       else Some (s, EFI_SUCCESS, Some (push_bit 8 (ucast b1) OR ucast b0))
     }
   }"

definition FanMcuSendPwm :: "'s i2c_master \<Rightarrow> bool \<Rightarrow> bool \<Rightarrow> u8 \<Rightarrow> 's \<Rightarrow> ('s \<times> efi_status) option" where
  "FanMcuSendPwm m al_buf al_pkt PwmValue s =
     FanMcuWriteReg m al_buf al_pkt FAN_MCU_REG_COMMAND [FAN_MCU_CMD_PWM, PwmValue, PwmValue XOR FAN_MCU_CMD_PWM] s"

text \<open>The callback drops the status.\<close>

definition FanKeepaliveTimerCallback :: "'s i2c_master \<Rightarrow> bool \<Rightarrow> bool \<Rightarrow> 's \<Rightarrow> 's option" where
  "FanKeepaliveTimerCallback m al_buf al_pkt s = map_option fst (FanMcuSendPwm m al_buf al_pkt FAN_PWM_VALUE s)"

text \<open>The result: the status, and the master and the interval of the timer if it is armed.\<close>

definition FanDxeInitialize ::
    "efi_status \<times> 's i2c_master i2c_handle list \<Rightarrow> bytes \<Rightarrow> bool \<Rightarrow> bool \<Rightarrow> efi_status \<Rightarrow> efi_status \<Rightarrow> 's \<Rightarrow>
      ('s \<times> efi_status \<times> ('s i2c_master \<times> u64) option) option" where
  "FanDxeInitialize located Buf al_buf al_pkt create_event set_timer s = (case FindI2cMasterBus1 located of
     (_, None) \<Rightarrow> Some (s, EFI_NOT_FOUND, None)
   | (_, Some m) \<Rightarrow> do {
       (s, Status, _) \<leftarrow> FanMcuReadVersion m Buf s;
       if EFI_ERROR Status then Some (s, EFI_NOT_FOUND, None)
       else do {
         (s, Status) \<leftarrow> FanMcuSendPwm m al_buf al_pkt FAN_PWM_VALUE s;
         if EFI_ERROR Status then Some (s, Status, None)
         else if EFI_ERROR create_event then Some (s, create_event, None)
         else if EFI_ERROR set_timer then Some (s, set_timer, None)
         else Some (s, EFI_SUCCESS, Some (m, FAN_KEEPALIVE_INTERVAL))
       }
     })"

subsection \<open>What the fan controller receives\<close>

definition pwm_ops :: "i2c_op list" where
  "pwm_ops = [\<lparr>Flags = 0, LengthInBytes = 4, Buffer = [0x98, 0x23, 51, 51 XOR 0x23]\<rparr>]"

definition version_ops :: "bytes \<Rightarrow> i2c_op list" where
  "version_ops buf = [\<lparr>Flags = 0, LengthInBytes = 1, Buffer = [0x90]\<rparr>, \<lparr>Flags = I2C_FLAG_READ, LengthInBytes = 4, Buffer = buf\<rparr>]"

definition version_ok :: "bytes \<Rightarrow> bool" where
  "version_ok buf = (buf ! 2 = 1 \<and> buf ! 0 XOR buf ! 1 XOR buf ! 2 = buf ! 3)"

text \<open>The whole exchange: the version, which must be valid, and the command.\<close>

definition fan_started :: "'f i2c_devs \<Rightarrow> bytes \<Rightarrow> 'f \<Rightarrow> 'f option" where
  "fan_started devs buf f = do {
     (g, ops) \<leftarrow> transaction devs 0x0D (version_ops buf) f;
     if version_ok (Buffer (last ops)) then map_option fst (transaction devs 0x0D pwm_ops g) else None
   }"

text \<open>The command, \<open>n\<close> times.\<close>

fun fan_kept :: "'f i2c_devs \<Rightarrow> nat \<Rightarrow> 'f \<Rightarrow> 'f option" where
  "fan_kept devs 0 f = Some f"
| "fan_kept devs (Suc n) f = Option.bind (transaction devs 0x0D pwm_ops f) (\<lambda>(g, _). fan_kept devs n g)"

fun keepalives :: "'s i2c_master \<Rightarrow> nat \<Rightarrow> 's \<Rightarrow> 's option" where
  "keepalives m 0 s = Some s"
| "keepalives m (Suc n) s = Option.bind (FanKeepaliveTimerCallback m True True s) (keepalives m n)"

lemma fan_addr: "bus_addr FAN_MCU_SLAVE_ADDRESS = 0x0D"
  by (simp add: bus_addr_def FAN_MCU_SLAVE_ADDRESS_def)

lemma fan_ops_ok: "request_ok pwm_ops" "length buf = 4 \<Longrightarrow> request_ok (version_ops buf)"
  by (auto simp: request_ok_def pwm_ops_def version_ops_def op_len_def)

lemma SendPwm_request:
  "FanMcuSendPwm m True True FAN_PWM_VALUE s =
    map_option (\<lambda>(s, Status, _). (s, Status)) (StartRequest m FAN_MCU_SLAVE_ADDRESS pwm_ops s)"
  unfolding FanMcuSendPwm_def FanMcuWriteReg_def FAN_MCU_REG_COMMAND_def FAN_MCU_CMD_PWM_def FAN_PWM_VALUE_def
  by (cases "StartRequest m FAN_MCU_SLAVE_ADDRESS pwm_ops s") (auto simp: pwm_ops_def)

lemma ReadReg_request:
  "length Buf = 4 \<Longrightarrow> FanMcuReadReg m FAN_MCU_REG_VERSION Buf s =
    map_option (\<lambda>(s, Status, ops). (s, Status, Buffer (last ops))) (StartRequest m FAN_MCU_SLAVE_ADDRESS (version_ops Buf) s)"
  unfolding FanMcuReadReg_def FAN_MCU_REG_VERSION_def
  by (cases "StartRequest m FAN_MCU_SLAVE_ADDRESS (version_ops Buf) s") (auto simp: version_ops_def)

lemma version_length:
  assumes "length buf = 4" and "transaction devs a (version_ops buf) f = Some (g, ops)"
  shows "length (Buffer (last ops)) = 4"
proof -
  have "length bs = n" if "dev_reads devs n f = (h, bs)" for n f h bs using length_dev_reads [of devs n f] that by simp
  then show ?thesis using assms
    by (auto simp: transaction_def version_ops_def op_run_def op_len_def bind_eq_Some_conv op_reads_def split: if_splits prod.splits)
qed

lemma ReadVersion_checks:
  assumes "FanMcuReadReg m FAN_MCU_REG_VERSION Buf s = Some (s', EFI_SUCCESS, Buf')" and "length Buf' = 4"
  shows "FanMcuReadVersion m Buf s = Some (s', if version_ok Buf' then EFI_SUCCESS else EFI_DEVICE_ERROR,
    if version_ok Buf' then Some (push_bit 8 (ucast (Buf' ! 1)) OR ucast (Buf' ! 0)) else None)"
  using assms by (auto simp: FanMcuReadVersion_def rd8_def version_ok_def)

subsection \<open>The driver on a bus master\<close>

locale fan_client = i2c_bus +
  assumes fan_allowed: "allowed 0x0D"

context fan_client begin

lemma send_pwm:
  assumes "holds s f"
  obtains s' st g where "FanMcuSendPwm m True True FAN_PWM_VALUE s = Some (s', st)" and "holds s' g" and "bus_visit devs 0x0D f g"
    and "st = EFI_SUCCESS \<longrightarrow> map_option fst (transaction devs 0x0D pwm_ops f) = Some g"
    and "st \<noteq> EFI_SUCCESS \<longrightarrow> EFI_ERROR st \<and> (reliable \<longrightarrow> transaction devs 0x0D pwm_ops f = None)"
proof -
  obtain s' st ops' g where r: "StartRequest m FAN_MCU_SLAVE_ADDRESS pwm_ops s = Some (s', st, ops')" "holds s' g"
      "bus_visit devs (bus_addr FAN_MCU_SLAVE_ADDRESS) f g"
      "st = EFI_SUCCESS \<longrightarrow> transaction devs (bus_addr FAN_MCU_SLAVE_ADDRESS) pwm_ops f = Some (g, ops')"
      "st \<noteq> EFI_SUCCESS \<longrightarrow> EFI_ERROR st \<and> (reliable \<longrightarrow> transaction devs (bus_addr FAN_MCU_SLAVE_ADDRESS) pwm_ops f = None)"
    by (rule request_total [OF assms _ fan_ops_ok(1), of FAN_MCU_SLAVE_ADDRESS]) (simp_all add: fan_addr fan_allowed)
  show thesis by (rule that [of s' st g]) (use r in \<open>auto simp: SendPwm_request fan_addr\<close>)
qed

lemma read_version:
  assumes "holds s f" and "length Buf = 4"
  obtains s' st v g where "FanMcuReadVersion m Buf s = Some (s', st, v)" and "holds s' g" and "bus_visit devs 0x0D f g"
    and "st = EFI_SUCCESS \<longrightarrow> (\<exists>ops. transaction devs 0x0D (version_ops Buf) f = Some (g, ops) \<and> version_ok (Buffer (last ops)))"
    and "st \<noteq> EFI_SUCCESS \<longrightarrow> EFI_ERROR st \<and>
      (reliable \<longrightarrow> (\<forall>h ops. transaction devs 0x0D (version_ops Buf) f = Some (h, ops) \<longrightarrow> \<not> version_ok (Buffer (last ops))))"
proof -
  obtain s' st ops' g where r: "StartRequest m FAN_MCU_SLAVE_ADDRESS (version_ops Buf) s = Some (s', st, ops')" "holds s' g"
      "bus_visit devs (bus_addr FAN_MCU_SLAVE_ADDRESS) f g"
      "st = EFI_SUCCESS \<longrightarrow> transaction devs (bus_addr FAN_MCU_SLAVE_ADDRESS) (version_ops Buf) f = Some (g, ops')"
      "st \<noteq> EFI_SUCCESS \<longrightarrow> EFI_ERROR st \<and> (reliable \<longrightarrow> transaction devs (bus_addr FAN_MCU_SLAVE_ADDRESS) (version_ops Buf) f = None)"
    by (rule request_total [OF assms(1) _ fan_ops_ok(2) [OF assms(2)], of FAN_MCU_SLAVE_ADDRESS]) (simp_all add: fan_addr fan_allowed)
  have q: "FanMcuReadReg m FAN_MCU_REG_VERSION Buf s = Some (s', st, Buffer (last ops'))"
    using r(1) by (simp add: ReadReg_request [OF assms(2)])
  show thesis
  proof (cases "st = EFI_SUCCESS")
    case True
    then have t: "transaction devs 0x0D (version_ops Buf) f = Some (g, ops')" using r(4) by (simp add: fan_addr)
    note v = ReadVersion_checks [OF q [unfolded True] version_length [OF assms(2) t]]
    show thesis by (rule that [OF v]) (use r(2,3) t in \<open>auto simp: fan_addr\<close>)
  next
    case False
    then have "FanMcuReadVersion m Buf s = Some (s', st, None)" using q r(5) by (simp add: FanMcuReadVersion_def)
    then show thesis by (rule that) (use r(2,3,5) False in \<open>auto simp: fan_addr\<close>)
  qed
qed

text \<open>A start that succeeds has done the whole exchange and arms the timer; on a reliable master nothing else fails.\<close>

lemma start:
  assumes "holds s f" and "length Buf = 4" and "FindI2cMasterBus1 located = (EFI_SUCCESS, Some m)"
  shows "\<exists>s' st t g. FanDxeInitialize located Buf True True EFI_SUCCESS EFI_SUCCESS s = Some (s', st, t) \<and> holds s' g \<and>
    (if st = EFI_SUCCESS then fan_started devs Buf f = Some g \<and> t = Some (m, 40000000)
     else EFI_ERROR st \<and> t = None \<and> (reliable \<longrightarrow> fan_started devs Buf f = None))"
proof -
  obtain s1 st1 v g1 where 1: "FanMcuReadVersion m Buf s = Some (s1, st1, v)" "holds s1 g1"
      "st1 = EFI_SUCCESS \<longrightarrow> (\<exists>ops. transaction devs 0x0D (version_ops Buf) f = Some (g1, ops) \<and> version_ok (Buffer (last ops)))"
      "st1 \<noteq> EFI_SUCCESS \<longrightarrow> EFI_ERROR st1 \<and>
        (reliable \<longrightarrow> (\<forall>h ops. transaction devs 0x0D (version_ops Buf) f = Some (h, ops) \<longrightarrow> \<not> version_ok (Buffer (last ops))))"
    by (rule read_version [OF assms(1,2)])
  show ?thesis
  proof (cases "st1 = EFI_SUCCESS")
    case False
    then have "reliable \<longrightarrow> fan_started devs Buf f = None"
      using 1(4) by (auto simp: fan_started_def split: Option.bind_split)
    then show ?thesis using False 1 assms(3) by (auto simp: FanDxeInitialize_def)
  next
    case True
    then obtain ops where t: "transaction devs 0x0D (version_ops Buf) f = Some (g1, ops)" "version_ok (Buffer (last ops))" using 1(3) by blast
    obtain s2 st2 g2 where 2: "FanMcuSendPwm m True True FAN_PWM_VALUE s1 = Some (s2, st2)" "holds s2 g2"
        "st2 = EFI_SUCCESS \<longrightarrow> map_option fst (transaction devs 0x0D pwm_ops g1) = Some g2"
        "st2 \<noteq> EFI_SUCCESS \<longrightarrow> EFI_ERROR st2 \<and> (reliable \<longrightarrow> transaction devs 0x0D pwm_ops g1 = None)"
      by (rule send_pwm [OF 1(2)])
    have "FanDxeInitialize located Buf True True EFI_SUCCESS EFI_SUCCESS s =
        Some (s2, st2, if st2 = EFI_SUCCESS then Some (m, 40000000) else None)"
      using 1(1) True 2(1,4) assms(3) by (simp add: FanDxeInitialize_def FAN_KEEPALIVE_INTERVAL_def)
    moreover have "fan_started devs Buf f = map_option fst (transaction devs 0x0D pwm_ops g1)" using t by (simp add: fan_started_def)
    ultimately show ?thesis using 2(2-4) by auto
  qed
qed

text \<open>As long as the fan controller acknowledges, each call of the timer delivers the command.\<close>

lemma kept:
  assumes "holds s f" and reliable and "fan_kept devs n f = Some g"
  shows "\<exists>s'. keepalives m n s = Some s' \<and> holds s' g"
  using assms(1,3)
proof (induction n arbitrary: s f)
  case (Suc n)
  obtain s1 st f1 where 1: "FanMcuSendPwm m True True FAN_PWM_VALUE s = Some (s1, st)" "holds s1 f1"
      "st = EFI_SUCCESS \<longrightarrow> map_option fst (transaction devs 0x0D pwm_ops f) = Some f1"
      "st \<noteq> EFI_SUCCESS \<longrightarrow> EFI_ERROR st \<and> (reliable \<longrightarrow> transaction devs 0x0D pwm_ops f = None)"
    by (rule send_pwm [OF Suc.prems(1)])
  obtain h ops where t: "transaction devs 0x0D pwm_ops f = Some (h, ops)" "fan_kept devs n h = Some g"
    using Suc.prems(2) by (auto simp: bind_eq_Some_conv)
  have "st = EFI_SUCCESS" using 1(4) t(1) assms(2) by auto
  then have "f1 = h" using 1(3) t(1) by simp
  then show ?case using Suc.IH [OF 1(2)] t(2) 1(1) by (simp add: FanKeepaliveTimerCallback_def)
qed simp

text \<open>A call of the timer returns even if the command is not acknowledged.\<close>

lemma callback_total: "holds s f \<Longrightarrow> \<exists>s' g. FanKeepaliveTimerCallback m True True s = Some s' \<and> holds s' g \<and> bus_visit devs 0x0D f g"
  by (rule send_pwm [of s f]) (auto simp: FanKeepaliveTimerCallback_def)

end

end
