(* ===== verification/I2cEeprom.thy ===== *)
theory I2cEeprom
  imports I2cHandles
begin

text \<open>
  The application \<open>Application/BoardI2cEepromProbeApp/BoardI2cEepromProbeApp.c\<close>, which looks for serial
  EEPROMs on both buses and prints what they hold, and a model of the EEPROM it expects, an M24C64. The
  result of the application is what it prints.
\<close>

unbundle bit_operations_syntax

subsection \<open>Requests\<close>

definition EEPROM_BASE_ADDRESS :: u64 where "EEPROM_BASE_ADDRESS = 0x50"
definition EEPROM_ADDRESS_COUNT :: nat where "EEPROM_ADDRESS_COUNT = 8"
definition EEPROM_SIZE :: nat where "EEPROM_SIZE = 8192"
definition EEPROM_READ_CHUNK :: nat where "EEPROM_READ_CHUNK = 32"
definition I2C_BUS_COUNT :: nat where "I2C_BUS_COUNT = 2"

definition EepromProbe :: "'s i2c_master \<Rightarrow> u64 \<Rightarrow> u8 \<Rightarrow> 's \<Rightarrow> ('s \<times> efi_status) option" where
  "EepromProbe m SlaveAddr DataBuf s = do {
     (s, Status, _) \<leftarrow> StartRequest m SlaveAddr
       [\<lparr>Flags = 0, LengthInBytes = 2, Buffer = [0x00, 0x00]\<rparr>,
        \<lparr>Flags = I2C_FLAG_READ, LengthInBytes = 1, Buffer = [DataBuf]\<rparr>] s;
     Some (s, Status)
   }"

definition eeprom_ops :: "u16 \<Rightarrow> bytes \<Rightarrow> i2c_op list" where
  "eeprom_ops Offset Data =
     [\<lparr>Flags = 0, LengthInBytes = 2, Buffer = [ucast (drop_bit 8 Offset), ucast (Offset AND 0xFF)]\<rparr>,
      \<lparr>Flags = I2C_FLAG_READ, LengthInBytes = of_nat (length Data), Buffer = Data\<rparr>]"

text \<open>\<open>Data\<close> is the part of the buffer of the caller that is read into.\<close>

definition EepromRead :: "'s i2c_master \<Rightarrow> u64 \<Rightarrow> u16 \<Rightarrow> bytes \<Rightarrow> 's \<Rightarrow> ('s \<times> efi_status \<times> bytes) option" where
  "EepromRead m SlaveAddr Offset Data s = do {
     (s, Status, ops) \<leftarrow> StartRequest m SlaveAddr (eeprom_ops Offset Data) s;
     Some (s, Status, Buffer (last ops))
   }"

subsection \<open>The application\<close>

datatype app_line =
  Bus_not_available u32
| Found_EEPROM u32 u64
| Failed_to_allocate
| Read_failed nat efi_status
| Dump u32 u64 "string list"
| No_EEPROM_found

definition hex_digit :: "nat \<Rightarrow> char" where
  "hex_digit d = char_of (if d < 10 then 48 + d else 55 + d)"

text \<open>\<open>%x\<close> with at least \<open>w\<close> digits.\<close>

fun hex_field :: "nat \<Rightarrow> nat \<Rightarrow> string" where
  "hex_field 0 n = ''''"
| "hex_field (Suc w) n = hex_field w (n div 16) @ [hex_digit (n mod 16)]"

definition hex_column :: "nat \<Rightarrow> bytes \<Rightarrow> string" where
  "hex_column i Data = concat (map (\<lambda>j. if i + j < length Data then hex_field 2 (unat (Data ! (i + j))) @ '' '' else ''   '') [0..<16])"

definition ascii_column :: "nat \<Rightarrow> bytes \<Rightarrow> string" where
  "ascii_column i Data = map (\<lambda>j. let c = Data ! (i + j) in if 0x20 \<le> c \<and> c \<le> 0x7E then char_of (unat c) else CHR ''.'')
     [0..<min 16 (length Data - i)]"

text \<open>
  The lines, for offsets below 65536, which have four digits; the application calls it with the offset 0
  and 8192 bytes.
\<close>

definition HexDump :: "nat \<Rightarrow> bytes \<Rightarrow> string list" where
  "HexDump BaseOffset Data = map (\<lambda>n. let i = 16 * n in
     hex_field 4 (BaseOffset + i) @ '': '' @ hex_column i Data @ '' '' @ ascii_column i Data)
     [0..<(length Data + 15) div 16]"

text \<open>The loop over the chunks, with the status of the last one.\<close>

fun eeprom_chunks :: "'s i2c_master \<Rightarrow> u64 \<Rightarrow> nat list \<Rightarrow> bytes \<Rightarrow> 's \<Rightarrow> ('s \<times> efi_status \<times> bytes \<times> app_line list) option" where
  "eeprom_chunks m Addr [] Buf s = Some (s, EFI_SUCCESS, Buf, [])"
| "eeprom_chunks m Addr (Offset # Offsets) Buf s = do {
     let ChunkLen = min (EEPROM_SIZE - Offset) EEPROM_READ_CHUNK;
     (s, Status, Data) \<leftarrow> EepromRead m Addr (of_nat Offset) (take ChunkLen (drop Offset Buf)) s;
     let Buf = take Offset Buf @ Data @ drop (Offset + ChunkLen) Buf;
     if EFI_ERROR Status then Some (s, Status, Buf, [Read_failed Offset Status])
     else eeprom_chunks m Addr Offsets Buf s
   }"

definition chunk_offsets :: "nat list" where
  "chunk_offsets = map (\<lambda>i. i * EEPROM_READ_CHUNK) [0..<EEPROM_SIZE div EEPROM_READ_CHUNK]"

text \<open>One address; the result says whether a device was found. \<open>DataBuf\<close> is the byte on the stack.\<close>

definition scan_address ::
    "u8 \<Rightarrow> bool \<Rightarrow> 's i2c_master \<Rightarrow> u32 \<Rightarrow> u64 \<Rightarrow> 's \<Rightarrow> ('s \<times> bool \<times> app_line list) option" where
  "scan_address DataBuf al m Bus Addr s = do {
     (s, Status) \<leftarrow> EepromProbe m Addr DataBuf s;
     if EFI_ERROR Status then Some (s, False, [])
     else if \<not> al then Some (s, True, [Found_EEPROM Bus Addr, Failed_to_allocate])
     else do {
       (s, Status, Buf, lines) \<leftarrow> eeprom_chunks m Addr chunk_offsets (replicate EEPROM_SIZE 0xFF) s;
       Some (s, True, Found_EEPROM Bus Addr # lines @ (if EFI_ERROR Status then [] else [Dump Bus Addr (HexDump 0 Buf)]))
     }
   }"

fun scan_addresses :: "u8 \<Rightarrow> bool \<Rightarrow> 's i2c_master \<Rightarrow> u32 \<Rightarrow> u64 list \<Rightarrow> 's \<Rightarrow> ('s \<times> bool \<times> app_line list) option" where
  "scan_addresses DataBuf al m Bus [] s = Some (s, False, [])"
| "scan_addresses DataBuf al m Bus (Addr # Addrs) s = do {
     (s, Found1, ls1) \<leftarrow> scan_address DataBuf al m Bus Addr s;
     (s, Found2, ls2) \<leftarrow> scan_addresses DataBuf al m Bus Addrs s;
     Some (s, Found1 \<or> Found2, ls1 @ ls2)
   }"

definition eeprom_addresses :: "u64 list" where
  "eeprom_addresses = map (\<lambda>i. EEPROM_BASE_ADDRESS + of_nat i) [0..<EEPROM_ADDRESS_COUNT]"

fun scan_buses ::
    "u8 \<Rightarrow> bool \<Rightarrow> efi_status \<times> 's i2c_master i2c_handle list \<Rightarrow> u32 list \<Rightarrow> 's \<Rightarrow> ('s \<times> bool \<times> app_line list) option" where
  "scan_buses DataBuf al located [] s = Some (s, False, [])"
| "scan_buses DataBuf al located (Bus # Buses) s = do {
     (s, Found1, ls1) \<leftarrow> (case FindI2cMaster Bus located of
         (_, None) \<Rightarrow> Some (s, False, [Bus_not_available Bus])
       | (_, Some m) \<Rightarrow> scan_addresses DataBuf al m Bus eeprom_addresses s);
     (s, Found2, ls2) \<leftarrow> scan_buses DataBuf al located Buses s;
     Some (s, Found1 \<or> Found2, ls1 @ ls2)
   }"

definition BoardI2cEepromProbeAppEntry ::
    "u8 \<Rightarrow> bool \<Rightarrow> efi_status \<times> 's i2c_master i2c_handle list \<Rightarrow> 's \<Rightarrow> ('s \<times> efi_status \<times> app_line list) option" where
  "BoardI2cEepromProbeAppEntry DataBuf al located s = do {
     (s, Found, ls) \<leftarrow> scan_buses DataBuf al located (map of_nat [0..<I2C_BUS_COUNT]) s;
     Some (s, EFI_SUCCESS, ls @ (if Found then [] else [No_EEPROM_found]))
   }"

subsection \<open>The EEPROM\<close>

text \<open>
  8192 cells and an address counter. A write transfer sets the counter with its first two bytes, the
  upper one first, and stores the others, within a page of 32 bytes; a read transfer reads on from the
  counter. The address on the bus is 0x50 and the three pins \<open>n\<close>.
\<close>

record eeprom =
  ee_cells :: bytes
  ee_ptr :: nat
  ee_sel :: "bool option"
  ee_count :: nat

definition ee_write :: "u8 \<Rightarrow> eeprom \<Rightarrow> eeprom" where
  "ee_write b e =
     (if ee_count e = 0 then e\<lparr>ee_ptr := (256 * unat b + ee_ptr e mod 256) mod 8192, ee_count := 1\<rparr>
      else if ee_count e = 1 then e\<lparr>ee_ptr := ee_ptr e div 256 * 256 + unat b, ee_count := 2\<rparr>
      else e\<lparr>ee_cells := (ee_cells e)[ee_ptr e := b], ee_ptr := ee_ptr e div 32 * 32 + (ee_ptr e + 1) mod 32\<rparr>)"

definition ee_address :: "3 word \<Rightarrow> u8" where
  "ee_address n = 0x50 + ucast n"

definition eeprom_devs :: "3 word \<Rightarrow> eeprom i2c_devs" where
  "eeprom_devs n = \<lparr>
     ib_start = (\<lambda>a rd e. if a = ee_address n then (e\<lparr>ee_sel := Some rd, ee_count := 0\<rparr>, True) else (e\<lparr>ee_sel := None\<rparr>, False)),
     ib_write = (\<lambda>b e. if ee_sel e = Some False then (ee_write b e, True) else (e, False)),
     ib_read = (\<lambda>e. if ee_sel e = Some True then (e\<lparr>ee_ptr := (ee_ptr e + 1) mod 8192\<rparr>, ee_cells e ! ee_ptr e) else (e, 0xFF)),
     ib_stop = (\<lambda>e. e\<lparr>ee_sel := None\<rparr>)\<rparr>"

lemma eeprom_devs_sel [simp]:
  "ib_start (eeprom_devs n) a rd e = (if a = ee_address n then (e\<lparr>ee_sel := Some rd, ee_count := 0\<rparr>, True) else (e\<lparr>ee_sel := None\<rparr>, False))"
  "ib_write (eeprom_devs n) b e = (if ee_sel e = Some False then (ee_write b e, True) else (e, False))"
  "ib_read (eeprom_devs n) e = (if ee_sel e = Some True then (e\<lparr>ee_ptr := (ee_ptr e + 1) mod 8192\<rparr>, ee_cells e ! ee_ptr e) else (e, 0xFF))"
  "ib_stop (eeprom_devs n) e = e\<lparr>ee_sel := None\<rparr>"
  by (simp_all add: eeprom_devs_def)

text \<open>At rest, with all its cells.\<close>

definition ee_ok :: "eeprom \<Rightarrow> bool" where
  "ee_ok e = (ee_sel e = None \<and> length (ee_cells e) = 8192 \<and> ee_ptr e < 8192)"

lemma eeprom_reads:
  "ee_sel e = Some True \<Longrightarrow> ee_ptr e < 8192 \<Longrightarrow> dev_reads (eeprom_devs n) k e =
    (e\<lparr>ee_ptr := (ee_ptr e + k) mod 8192\<rparr>, map (\<lambda>i. ee_cells e ! ((ee_ptr e + i) mod 8192)) [0..<k])"
proof (induction k arbitrary: e)
  case (Suc k)
  have "[0..<Suc k] = 0 # map Suc [0..<k]" by (simp add: upt_conv_Cons map_Suc_upt)
  then show ?case using Suc by (simp add: case_prod_beta comp_def mod_simps)
qed simp

lemma eeprom_elsewhere:
  assumes "a \<noteq> ee_address n" and "op_len op \<noteq> 0"
  shows "transaction (eeprom_devs n) a (op # ops) p = None"
  using assms by (simp add: transaction_def op_run_def)

lemma eeprom_visit_elsewhere:
  assumes "bus_visit (eeprom_devs n) a p q" and "a \<noteq> ee_address n" and "ee_sel p = None"
  shows "q = p"
proof -
  have stop: "p\<lparr>ee_sel := None\<rparr> = p" using assms(3) by (cases p) simp
  have "h = p" if "bus_steps (eeprom_devs n) a p h" for h
    using that
    by (rule bus_steps_invariant [where P = "\<lambda>h. h = p"]) (use assms(2,3) stop in auto)
  then show ?thesis using assms(1) stop by (auto simp: bus_visit_def)
qed

lemma address_bytes:
  assumes "off < 8192"
  shows "unat (ucast (drop_bit 8 (of_nat off :: u16)) :: u8) = off div 256" and "unat (ucast ((of_nat off :: u16) AND 0xFF) :: u8) = off mod 256"
proof -
  have o: "unat (of_nat off :: u16) = off" using assms by (simp add: unat_of_nat)
  have m: "(0xFF :: u16) = mask 8" by (simp add: mask_eq_exp_minus_1)
  have "off div 256 < 256" using assms by simp
  then show "unat (ucast (drop_bit 8 (of_nat off :: u16)) :: u8) = off div 256"
    by (simp only: unsigned_ucast_eq unsigned_drop_bit_eq o) (simp add: drop_bit_eq_div take_bit_eq_mod)
  show "unat (ucast ((of_nat off :: u16) AND 0xFF) :: u8) = off mod 256"
    unfolding m take_bit_eq_mask [symmetric] by (simp only: unsigned_ucast_eq unsigned_take_bit_eq o) (simp add: take_bit_eq_mod)
qed

lemma pointer_set:
  fixes p off :: nat
  assumes "off < 8192"
  shows "(256 * (off div 256) + p mod 256) mod 8192 div 256 * 256 + off mod 256 = off"
proof -
  have "off div 256 < 32" "p mod 256 < 256" using assms by simp_all
  then have l: "256 * (off div 256) + p mod 256 < 8192" by linarith
  have "(256 * (off div 256) + p mod 256) div 256 = off div 256" by simp
  then show ?thesis using l by (simp only: mod_less div_mult_mod_eq)
qed

lemma eeprom_transaction:
  assumes "ee_ok p" and "off < 8192" and "0 < length Data" and "length Data < 2 ^ 32"
  shows "\<exists>q. transaction (eeprom_devs n) (ee_address n) (eeprom_ops (of_nat off) Data) p =
      Some (q, [eeprom_ops (of_nat off) Data ! 0,
        (eeprom_ops (of_nat off) Data ! 1)\<lparr>Buffer := map (\<lambda>i. ee_cells p ! ((off + i) mod 8192)) [0..<length Data]\<rparr>]) \<and>
    ee_ok q \<and> ee_cells q = ee_cells p"
proof -
  have l: "unat (of_nat (length Data) :: u32) = length Data" using assms(4) by (simp add: unat_of_nat)
  show ?thesis
    using assms pointer_set [OF assms(2), of "ee_ptr p"]
    by (simp add: transaction_def eeprom_ops_def op_run_def op_len_def op_reads_def I2C_FLAG_READ_def l ee_write_def address_bytes
      eeprom_reads ee_ok_def)
qed

subsection \<open>The application on a bus with an EEPROM\<close>

definition probe_ops :: "u8 \<Rightarrow> i2c_op list" where
  "probe_ops b = eeprom_ops 0 [b]"

lemma EepromProbe_request:
  "EepromProbe m A b s = map_option (\<lambda>(s, Status, _). (s, Status)) (StartRequest m A (probe_ops b) s)"
  by (cases "StartRequest m A (probe_ops b) s") (auto simp: EepromProbe_def probe_ops_def eeprom_ops_def)

lemma eeprom_request_ok: "0 < length Data \<Longrightarrow> length Data < 2 ^ 32 \<Longrightarrow> request_ok (eeprom_ops off Data)"
  by (auto simp: request_ok_def eeprom_ops_def op_len_def unat_of_nat)

locale eeprom_client = i2c_segment m devs allowed holds reliable e "eeprom_devs n" part
  for m :: "'s i2c_master" and devs :: "'f i2c_devs" and allowed holds reliable and e :: "eeprom \<Rightarrow> 'f" and n part +
  assumes ee_allowed: "k < 8 \<Longrightarrow> allowed (0x50 + of_nat k) \<and> part (0x50 + of_nat k)" and ee_reliable: reliable

context eeprom_client begin

lemma read_chunk:
  assumes "holds s (e p)" and "ee_ok p" and "bus_addr A = ee_address n" and "allowed (bus_addr A)" and "part (bus_addr A)"
    and "off < 8192" and "0 < length Data" and "length Data < 2 ^ 32"
  shows "\<exists>s' q. EepromRead m A (of_nat off) Data s = Some (s', EFI_SUCCESS, map (\<lambda>i. ee_cells p ! ((off + i) mod 8192)) [0..<length Data]) \<and>
    holds s' (e q) \<and> ee_ok q \<and> ee_cells q = ee_cells p"
proof -
  obtain q where q: "transaction (eeprom_devs n) (bus_addr A) (eeprom_ops (of_nat off) Data) p =
      Some (q, [eeprom_ops (of_nat off) Data ! 0,
        (eeprom_ops (of_nat off) Data ! 1)\<lparr>Buffer := map (\<lambda>i. ee_cells p ! ((off + i) mod 8192)) [0..<length Data]\<rparr>])"
      "ee_ok q" "ee_cells q = ee_cells p"
    using eeprom_transaction [OF assms(2,6-8)] assms(3) by auto
  have "allowed (bus_addr A) \<and> part (bus_addr A)" using assms(4,5) by simp
  from segment.request_reliable [OF assms(1) this eeprom_request_ok [OF assms(7,8)] ee_reliable q(1)]
  show ?thesis using q(2,3) by (auto simp: EepromRead_def)
qed

lemma probe_here:
  assumes "holds s (e p)" and "ee_ok p" and "bus_addr A = ee_address n" and "allowed (bus_addr A)" and "part (bus_addr A)"
  shows "\<exists>s' q. EepromProbe m A b s = Some (s', EFI_SUCCESS) \<and> holds s' (e q) \<and> ee_ok q \<and> ee_cells q = ee_cells p"
proof -
  have ok: "request_ok (probe_ops b)" by (simp add: probe_ops_def eeprom_request_ok)
  obtain q ops where q: "transaction (eeprom_devs n) (bus_addr A) (probe_ops b) p = Some (q, ops)" "ee_ok q" "ee_cells q = ee_cells p"
    using eeprom_transaction [OF assms(2), of 0 "[b]" n] assms(3) by (auto simp: probe_ops_def)
  have "allowed (bus_addr A) \<and> part (bus_addr A)" using assms(4,5) by simp
  from segment.request_reliable [OF assms(1) this ok ee_reliable q(1)]
  show ?thesis using q(2,3) by (auto simp: EepromProbe_request)
qed

lemma probe_elsewhere:
  assumes "holds s (e p)" and "ee_ok p" and "bus_addr A \<noteq> ee_address n" and "allowed (bus_addr A)" and "part (bus_addr A)"
  shows "\<exists>s' st. EepromProbe m A b s = Some (s', st) \<and> EFI_ERROR st \<and> holds s' (e p)"
proof -
  have ok: "request_ok (probe_ops b)" by (simp add: probe_ops_def eeprom_request_ok)
  have ap: "allowed (bus_addr A) \<and> part (bus_addr A)" using assms(4,5) by simp
  obtain s' st ops' g where r: "StartRequest m A (probe_ops b) s = Some (s', st, ops')" "holds s' (e g)"
      "bus_visit (eeprom_devs n) (bus_addr A) p g"
      "st = EFI_SUCCESS \<longrightarrow> transaction (eeprom_devs n) (bus_addr A) (probe_ops b) p = Some (g, ops')"
      "st \<noteq> EFI_SUCCESS \<longrightarrow> EFI_ERROR st \<and> (reliable \<longrightarrow> transaction (eeprom_devs n) (bus_addr A) (probe_ops b) p = None)"
    by (rule segment.request_total [OF assms(1) ap ok])
  have t: "transaction (eeprom_devs n) (bus_addr A) (probe_ops b) p = None"
    using eeprom_elsewhere [OF assms(3)] by (simp add: probe_ops_def eeprom_ops_def op_len_def)
  show ?thesis using r t eeprom_visit_elsewhere [OF r(3) assms(3)] assms(2) by (auto simp: EepromProbe_request ee_ok_def)
qed

lemma chunks:
  assumes "holds s (e p)" and "ee_ok p" and "bus_addr A = ee_address n" and "allowed (bus_addr A)" and "part (bus_addr A)"
    and "length Buf = 8192" and "k \<le> 256" and "take (k * 32) Buf = take (k * 32) (ee_cells p)"
  shows "\<exists>s' q. eeprom_chunks m A (map (\<lambda>i. i * 32) [k..<256]) Buf s = Some (s', EFI_SUCCESS, ee_cells p, []) \<and>
    holds s' (e q) \<and> ee_ok q \<and> ee_cells q = ee_cells p"
  using assms(1,2,6-8)
proof (induction "256 - k" arbitrary: k s p Buf)
  case 0
  then have "k * 32 = 8192" "k = 256" by simp_all
  then show ?case using 0 by (auto simp: ee_ok_def)
next
  case (Suc j)
  then have k: "k < 256" by simp
  let ?D = "take 32 (drop (k * 32) Buf)" and ?D' = "take 32 (drop (k * 32) (ee_cells p))"
  have len: "length ?D = 32" using k Suc.prems(3) by simp
  have D: "map (\<lambda>i. ee_cells p ! ((k * 32 + i) mod 8192)) [0..<length ?D] = ?D'"
    unfolding len using k Suc.prems(2) by (intro nth_equalityI) (simp_all add: ee_ok_def)
  obtain s1 q where q: "EepromRead m A (of_nat (k * 32)) ?D s = Some (s1, EFI_SUCCESS, ?D')" "holds s1 (e q)" "ee_ok q" "ee_cells q = ee_cells p"
  proof -
    have "k * 32 < 8192" "0 < length ?D" "length ?D < 2 ^ 32" unfolding len using k by simp_all
    from read_chunk [OF Suc.prems(1,2) assms(3-5) this, unfolded D] show thesis using that by blast
  qed
  let ?B = "take (k * 32) Buf @ ?D' @ drop (k * 32 + 32) Buf"
  have B: "length ?B = 8192" "take (Suc k * 32) ?B = take (Suc k * 32) (ee_cells p)"
  proof -
    have n: "length (ee_cells p) = 8192" using Suc.prems(2) by (simp add: ee_ok_def)
    then show "length ?B = 8192" using k Suc.prems(3) by simp
    have "take (Suc k * 32) ?B = take (k * 32) (ee_cells p) @ ?D'" using k n Suc.prems(3,5) by simp
    then show "take (Suc k * 32) ?B = take (Suc k * 32) (ee_cells p)" using take_add [of "k * 32" 32 "ee_cells p"] by (simp add: add.commute)
  qed
  have m: "min (EEPROM_SIZE - k * 32) EEPROM_READ_CHUNK = 32" using k by (simp add: EEPROM_SIZE_def EEPROM_READ_CHUNK_def)
  have up: "[k..<256] = k # [Suc k..<256]" using k by (rule upt_conv_Cons)
  have "eeprom_chunks m A (map (\<lambda>i. i * 32) [k..<256]) Buf s = eeprom_chunks m A (map (\<lambda>i. i * 32) [Suc k..<256]) ?B s1"
    unfolding up list.map eeprom_chunks.simps m Let_def using q(1) by simp
  then show ?case
    using Suc.hyps(1) [of "Suc k" s1 q ?B] Suc.hyps(2) q(2-4) B k by simp
qed

lemma scan_here:
  assumes "holds s (e p)" and "ee_ok p" and "bus_addr A = ee_address n" and "allowed (bus_addr A)" and "part (bus_addr A)"
  shows "\<exists>s' q. scan_address b True m Bus A s = Some (s', True, [Found_EEPROM Bus A, Dump Bus A (HexDump 0 (ee_cells p))]) \<and>
    holds s' (e q) \<and> ee_ok q \<and> ee_cells q = ee_cells p"
proof -
  obtain s1 q where 1: "EepromProbe m A b s = Some (s1, EFI_SUCCESS)" "holds s1 (e q)" "ee_ok q" "ee_cells q = ee_cells p"
    using probe_here [OF assms] by blast
  have "chunk_offsets = map (\<lambda>i. i * 32) [0..<256]" by (simp add: chunk_offsets_def EEPROM_SIZE_def EEPROM_READ_CHUNK_def)
  then show ?thesis
    using chunks [OF 1(2,3) assms(3-5), of "replicate EEPROM_SIZE 0xFF" 0] 1 by (auto simp: scan_address_def EEPROM_SIZE_def)
qed

lemma scan_elsewhere:
  assumes "holds s (e p)" and "ee_ok p" and "bus_addr A \<noteq> ee_address n" and "allowed (bus_addr A)" and "part (bus_addr A)"
  shows "\<exists>s'. scan_address b True m Bus A s = Some (s', False, []) \<and> holds s' (e p)"
  using probe_elsewhere [OF assms, of b] by (auto simp: scan_address_def)

lemma scan_none:
  assumes "holds s (e p)" and "ee_ok p"
    and "\<And>A. A \<in> set As \<Longrightarrow> bus_addr A \<noteq> ee_address n \<and> allowed (bus_addr A) \<and> part (bus_addr A)"
  shows "\<exists>s'. scan_addresses b True m Bus As s = Some (s', False, []) \<and> holds s' (e p)"
  using assms
proof (induction As arbitrary: s)
  case (Cons A As)
  obtain s1 where 1: "scan_address b True m Bus A s = Some (s1, False, [])" "holds s1 (e p)"
    using scan_elsewhere [OF Cons.prems(1,2), of A b Bus] Cons.prems(3) by auto
  show ?case using Cons.IH [OF 1(2) Cons.prems(2)] Cons.prems(3) 1(1) by auto
qed simp

lemma scan_append:
  assumes "holds s (e p)" and "ee_ok p" and "\<And>A. A \<in> set As \<Longrightarrow> bus_addr A \<noteq> ee_address n \<and> allowed (bus_addr A) \<and> part (bus_addr A)"
  shows "\<exists>s'. scan_addresses b True m Bus (As @ Bs) s = scan_addresses b True m Bus Bs s' \<and> holds s' (e p)"
  using assms
proof (induction As arbitrary: s)
  case (Cons A As)
  obtain s1 where 1: "scan_address b True m Bus A s = Some (s1, False, [])" "holds s1 (e p)"
    using scan_elsewhere [OF Cons.prems(1,2), of A b Bus] Cons.prems(3) by auto
  obtain s' where "scan_addresses b True m Bus (As @ Bs) s1 = scan_addresses b True m Bus Bs s'" "holds s' (e p)"
    using Cons.IH [OF 1(2) Cons.prems(2)] Cons.prems(3) by auto
  then show ?case using 1(1) by (intro exI [of _ s']) (cases "scan_addresses b True m Bus Bs s'", auto)
qed auto

text \<open>All addresses of the bus: the EEPROM is found at its own, and nothing elsewhere.\<close>

lemma scan_bus:
  assumes "holds s (e p)" and "ee_ok p"
  shows "\<exists>s' q. scan_addresses b True m Bus eeprom_addresses s =
      Some (s', True, [Found_EEPROM Bus (0x50 + ucast n), Dump Bus (0x50 + ucast n) (HexDump 0 (ee_cells p))]) \<and>
    holds s' (e q) \<and> ee_ok q \<and> ee_cells q = ee_cells p"
proof -
  let ?A = "\<lambda>i. 0x50 + of_nat i :: u64"
  have n: "unat n < 8" using unsigned_less [of n] by simp
  have addr: "bus_addr (?A i) = 0x50 + of_nat i" "ee_address n = 0x50 + of_nat (unat n)" if "i < 8" for i
  proof -
    have "i \<in> {0, 1, 2, 3, 4, 5, 6, 7}" using that by auto
    then show "bus_addr (?A i) = 0x50 + of_nat i" by (auto simp: bus_addr_def)
  qed (simp add: ee_address_def)
  have other: "bus_addr (?A i) \<noteq> ee_address n" if "i < 8" "i \<noteq> unat n" for i
  proof -
    have "(of_nat i :: u8) \<noteq> of_nat (unat n)"
    proof
      have u: "unat (of_nat j :: u8) = j" if "j < 8" for j using that by (simp add: unat_of_nat)
      assume "(of_nat i :: u8) = of_nat (unat n)"
      then have "unat (of_nat i :: u8) = unat (of_nat (unat n) :: u8)" by (rule arg_cong)
      then show False using u [OF that(1)] u [OF n] that(2) by (simp only:)
    qed
    then show ?thesis using addr that(1) by simp
  qed
  have al: "allowed (bus_addr (?A i)) \<and> part (bus_addr (?A i))" if "i < 8" for i using ee_allowed [OF that] addr(1) [OF that] by simp
  have "[0..<8] = [0..<unat n] @ unat n # [Suc (unat n)..<8]"
    using n upt_add_eq_append [of 0 "unat n" "8 - unat n"] upt_conv_Cons [of "unat n" 8] by simp
  then have as: "eeprom_addresses = map ?A [0..<unat n] @ ?A (unat n) # map ?A [Suc (unat n)..<8]"
    by (simp add: eeprom_addresses_def EEPROM_BASE_ADDRESS_def EEPROM_ADDRESS_COUNT_def)
  have nA: "?A (unat n) = 0x50 + ucast n" by simp
  have before: "bus_addr A \<noteq> ee_address n \<and> allowed (bus_addr A) \<and> part (bus_addr A)" if "A \<in> set (map ?A [0..<unat n])" for A
    using that other al n by auto
  obtain s1 where 1: "scan_addresses b True m Bus eeprom_addresses s = scan_addresses b True m Bus (?A (unat n) # map ?A [Suc (unat n)..<8]) s1"
      "holds s1 (e p)"
    using scan_append [OF assms before, where b = b and Bus = Bus and Bs = "?A (unat n) # map ?A [Suc (unat n)..<8]"] unfolding as by blast
  have own: "bus_addr (?A (unat n)) = ee_address n" by (simp only: addr [OF n])
  obtain s2 q where 2: "scan_address b True m Bus (?A (unat n)) s1 =
        Some (s2, True, [Found_EEPROM Bus (?A (unat n)), Dump Bus (?A (unat n)) (HexDump 0 (ee_cells p))])"
      "holds s2 (e q)" "ee_ok q" "ee_cells q = ee_cells p"
    using scan_here [OF 1(2) assms(2) own] al n by blast
  have after: "bus_addr A \<noteq> ee_address n \<and> allowed (bus_addr A) \<and> part (bus_addr A)"
    if "A \<in> set (map ?A [Suc (unat n)..<8])" for A
    using that other al by auto
  obtain s3 where 3: "scan_addresses b True m Bus (map ?A [Suc (unat n)..<8]) s2 = Some (s3, False, [])" "holds s3 (e q)"
    using scan_none [OF 2(2,3) after] by blast
  show ?thesis using 1(1) 2 3 unfolding nA by auto
qed

text \<open>The application, when only the second bus is there.\<close>

lemma application:
  assumes "holds s (e p)" and "ee_ok p" and "FindI2cMaster 0 located = (st, None)" and "FindI2cMaster 1 located = (EFI_SUCCESS, Some m)"
  shows "\<exists>s' q. BoardI2cEepromProbeAppEntry b True located s = Some (s', EFI_SUCCESS,
      [Bus_not_available 0, Found_EEPROM 1 (0x50 + ucast n), Dump 1 (0x50 + ucast n) (HexDump 0 (ee_cells p))]) \<and>
    holds s' (e q) \<and> ee_ok q \<and> ee_cells q = ee_cells p"
proof -
  have "map of_nat [0..<I2C_BUS_COUNT] = [0, 1 :: u32]" by (simp add: I2C_BUS_COUNT_def upt_rec)
  then show ?thesis
    using scan_bus [OF assms(1,2), of b 1] assms(3,4) by (auto simp: BoardI2cEepromProbeAppEntry_def)
qed

end

subsection \<open>The lines\<close>

text \<open>Reading a line back: two digits in every third column from the sixth on, as far as there are any.\<close>

definition digit_value :: "char \<Rightarrow> nat" where
  "digit_value c = (if of_char c < (58 :: nat) then of_char c - 48 else of_char c - 55)"

definition line_bytes :: "string \<Rightarrow> bytes" where
  "line_bytes l = map (\<lambda>j. of_nat (16 * digit_value (l ! (6 + 3 * j)) + digit_value (l ! (7 + 3 * j))))
     (filter (\<lambda>j. l ! (6 + 3 * j) \<noteq> CHR '' '') [0..<16])"

lemma length_hex_field [simp]: "length (hex_field w n) = w"
  by (induction w arbitrary: n) simp_all

lemma hex_digit_value: "d < 16 \<Longrightarrow> digit_value (hex_digit d) = d" "d < 16 \<Longrightarrow> hex_digit d \<noteq> CHR '' ''"
proof -
  have "digit_value (hex_digit d) = d \<and> of_char (hex_digit d) \<noteq> (of_char (CHR '' '') :: nat)"
    if "d \<in> {0, 1, 2, 3, 4, 5, 6, 7, 8, 9, 10, 11, 12, 13, 14, 15}" for d
    using that by (auto simp: digit_value_def hex_digit_def)
  moreover have "d \<in> {0, 1, 2, 3, 4, 5, 6, 7, 8, 9, 10, 11, 12, 13, 14, 15}" if "d < 16" using that by (simp, arith)
  ultimately show "d < 16 \<Longrightarrow> digit_value (hex_digit d) = d" "d < 16 \<Longrightarrow> hex_digit d \<noteq> CHR '' ''" by metis+
qed

lemma nth_concat_3:
  "\<forall>x \<in> set xs. length x = 3 \<Longrightarrow> j < length xs \<Longrightarrow> k < 3 \<Longrightarrow> concat xs ! (3 * j + k) = xs ! j ! k"
proof (induction xs arbitrary: j)
  case (Cons x xs)
  then show ?case by (cases j) (auto simp: nth_append)
qed simp

lemma length_concat_3: "\<forall>x \<in> set xs. length x = 3 \<Longrightarrow> length (concat xs) = 3 * length xs"
  by (induction xs) auto

abbreviation hex_cell :: "nat \<Rightarrow> bytes \<Rightarrow> nat \<Rightarrow> string" where
  "hex_cell i Data j \<equiv> (if i + j < length Data then hex_field 2 (unat (Data ! (i + j))) @ '' '' else ''   '')"

lemma hex_column_nth:
  assumes "j < 16" and "k < 3"
  shows "hex_column i Data ! (3 * j + k) = hex_cell i Data j ! k"
proof -
  have "concat (map (hex_cell i Data) [0..<16]) ! (3 * j + k) = map (hex_cell i Data) [0..<16] ! j ! k"
    by (rule nth_concat_3) (use assms in auto)
  then show ?thesis using assms(1) by (simp add: hex_column_def del: hex_field.simps)
qed

lemma length_hex_column [simp]: "length (hex_column i Data) = 48"
  unfolding hex_column_def by (subst length_concat_3) auto

lemma filter_upt: "filter (\<lambda>j. i + j < n) [0..<m] = [0..<min m (n - i)]"
  by (induction m) (auto simp: min_def, rule arg_cong [where f = "upt 0"], arith)

lemma line_read:
  assumes "length off = 4"
  shows "line_bytes (off @ '': '' @ hex_column i Data @ rest) = take 16 (drop i Data)"
proof -
  let ?l = "off @ '': '' @ hex_column i Data @ rest"
  have l: "?l ! (6 + 3 * j) = hex_cell i Data j ! 0" "?l ! (7 + 3 * j) = hex_cell i Data j ! 1" if "j < 16" for j
    using hex_column_nth [OF that, of 0 i Data] hex_column_nth [OF that, of 1 i Data] assms that
    by (simp_all add: nth_append)
  have cell: "hex_cell i Data j ! 0 = hex_digit (unat (Data ! (i + j)) div 16)" "hex_cell i Data j ! 1 = hex_digit (unat (Data ! (i + j)) mod 16)"
    if "i + j < length Data" for j
    using that unsigned_less [of "Data ! (i + j)", where 'a = nat] by (simp_all add: numeral_2_eq_2)
  have join: "(of_nat (16 * (unat b div 16) + unat b mod 16) :: u8) = b" for b :: u8 by simp
  have byte: "unat b div 16 < 16" "16 * of_nat (unat b div 16) + of_nat (unat b mod 16) = b" for b :: u8
    using unsigned_less [of b, where 'a = nat] join [of b, unfolded of_nat_add of_nat_mult] by (simp_all add: less_mult_imp_div_less)
  have "filter (\<lambda>j. ?l ! (6 + 3 * j) \<noteq> CHR '' '') [0..<16] = filter (\<lambda>j. i + j < length Data) [0..<16]"
    by (rule filter_cong) (use l(1) cell(1) hex_digit_value(2) byte(1) in auto)
  also have "\<dots> = [0..<min 16 (length Data - i)]" by (rule filter_upt)
  finally have "line_bytes ?l = map (\<lambda>j. of_nat (16 * digit_value (?l ! (6 + 3 * j)) + digit_value (?l ! (7 + 3 * j)))) [0..<min 16 (length Data - i)]"
    by (simp add: line_bytes_def)
  also have "\<dots> = map (\<lambda>j. Data ! (i + j)) [0..<min 16 (length Data - i)]"
    by (rule map_cong [OF refl]) (use l cell hex_digit_value(1) byte in auto)
  also have "\<dots> = take 16 (drop i Data)" by (rule nth_equalityI) (simp, auto intro!: nth_drop [symmetric])
  finally show ?thesis .
qed

lemma concat_chunks: "concat (map (\<lambda>n. take 16 (drop (16 * n) Data)) [0..<n]) = take (16 * n) Data"
proof (induction n)
  case (Suc n)
  then show ?case using take_add [of "16 * n" 16 Data] by (simp add: add.commute)
qed simp

text \<open>The bytes can be read back from the printed lines, and each line with its terminating zero fits the
  buffer of 80 bytes on the stack.\<close>

theorem hexdump_roundtrip:
  "concat (map line_bytes (HexDump BaseOffset Data)) = Data \<and> list_all (\<lambda>l. length l < 80) (HexDump BaseOffset Data)"
proof
  have "map line_bytes (HexDump BaseOffset Data) = map (\<lambda>n. take 16 (drop (16 * n) Data)) [0..<(length Data + 15) div 16]"
    unfolding HexDump_def Let_def map_map comp_def by (rule map_cong [OF refl], rule line_read) simp
  moreover have "length Data \<le> 16 * ((length Data + 15) div 16)" by simp
  ultimately show "concat (map line_bytes (HexDump BaseOffset Data)) = Data" by (simp add: concat_chunks)
  show "list_all (\<lambda>l. length l < 80) (HexDump BaseOffset Data)" by (auto simp: list_all_iff HexDump_def ascii_column_def Let_def)
qed

end
