(* ===== verification/I2cBoard.thy ===== *)
theory I2cBoard
  imports DwRequest Pca9546 FanDxe I2cEeprom
begin

text \<open>
  The I2C drivers put together: the bus master of the DesignWare controller, the switch on its bus, and
  the clients.
\<close>

unbundle bit_operations_syntax

interpretation fan: fan_client "dw_master (dw_bus devs pace base)" devs "\<lambda>_. True" "dw_holds base" "bus_never_stalls pace"
  by unfold_locales simp

text \<open>The EEPROMs do not hear the address of the switch.\<close>

lemma ee_address_range: "ee_address n \<noteq> 0x70"
proof
  have "unat n < 8" using unsigned_less [of n] by simp
  then have "unat (ucast n :: u8) < 8"
    using take_bit_nat_less_eq_self [of 8 "unat n"] by (simp add: unsigned_ucast_eq del: take_bit_nat_less_eq_self)
  moreover assume "ee_address n = 0x70"
  then have "ucast n = (0x70 - 0x50 :: u8)" by (simp add: ee_address_def eq_diff_eq add.commute)
  ultimately show False by simp
qed

lemma eeprom_deaf: "deaf (eeprom_devs n) 0x70"
proof -
  have "ee_sel f = None" if "at_rest (eeprom_devs n) f" for f
    using that by (cases f) (simp add: at_rest_def)
  then show ?thesis using eeprom_visit_elsewhere ee_address_range [symmetric] by (auto simp: deaf_def)
qed

lemma eeprom_settles: "stops_settle (eeprom_devs n)"
  by (simp add: stops_settle_def at_rest_def)

text \<open>The switch on the bus of a DesignWare controller, with EEPROMs on the bus and on the channels.\<close>

abbreviation "board_devs n ns \<equiv> mux_devs (eeprom_devs n) (\<lambda>j. eeprom_devs (ns j))"

interpretation mux: pca_switch "dw_master (dw_bus (board_devs n ns) pace base)" "eeprom_devs n" "\<lambda>j. eeprom_devs (ns j)"
  "\<lambda>_. True" "dw_holds base" "bus_never_stalls pace"
  by unfold_locales (simp_all add: eeprom_deaf eeprom_settles)

interpretation channel: pca_channel "dw_master (dw_bus (board_devs n ns) pace base)" "eeprom_devs n" "\<lambda>j. eeprom_devs (ns j)"
  "\<lambda>_. True" "dw_holds base" "bus_never_stalls pace" "unat (k :: 2 word)"
  by unfold_locales (use unsigned_less [of k] in simp)

text \<open>The EEPROM on the bus while no channel is connected.\<close>

definition off_channels :: "(nat \<Rightarrow> 'g) \<Rightarrow> 'f \<Rightarrow> ('f, 'g) mux_world" where
  "off_channels G f = \<lparr>mw_ctrl = 0, mw_new = None, mw_sel = None, mw_main = f, mw_chan = G\<rparr>"

lemma off_embeds: "a \<noteq> 0x70 \<Longrightarrow> embeds (off_channels G) (mux_devs main chan) main a"
  by (auto simp: embeds_def off_channels_def connected_def upt_rec intro!: prod_eqI)

interpretation ee: eeprom_client "dw_master (dw_bus (board_devs n ns) (\<lambda>t. Suc (p t)) base)" "board_devs n ns"
  "\<lambda>_. True" "dw_holds base" "bus_never_stalls (\<lambda>t. Suc (p t))" "off_channels G" n "\<lambda>a. a \<noteq> 0x70"
proof unfold_locales
  fix k :: nat assume "k < 8"
  then have "k \<in> {0, 1, 2, 3, 4, 5, 6, 7}" by auto
  then show "True \<and> (0x50 + of_nat k :: u8) \<noteq> 0x70" by auto
qed (simp_all add: off_embeds bus_never_stalls_def, simp add: off_channels_def)

subsection \<open>An example\<close>

definition ex_ctx :: "bool \<Rightarrow> dw_context" where
  "ex_ctx l = \<lparr>BaseAddress = 0xFD894000, BusIndex = 1, BusSpeedHz = 100000, TxFifo = 4, RxFifo = 4, PollingTimeUs = 100, Lock = l\<rparr>"

definition ex_ctl :: "'f \<Rightarrow> 'f dw_ctl" where
  "ex_ctl f = \<lparr>dc_en = False, dc_con = 0x63, dc_tar = 0, dc_tx = [], dc_rx = [], dc_abrt = False, dc_stop = False, dc_under = False,
     dc_over = False, dc_dir = None, dc_depth = 4, dc_dev = f, dc_time = 0\<rparr>"

definition ex_pace :: "nat \<Rightarrow> nat" where
  "ex_pace t = 1"

lemma ex_ready: "dw_holds 0xFD894000 (ex_ctx False, ex_ctl f) f" "bus_never_stalls ex_pace"
  by (simp_all add: dw_holds_def ex_ctx_def ex_ctl_def fits_def dc_idle_def bus_never_stalls_def ex_pace_def)

definition ex_eeprom :: "u8 \<Rightarrow> eeprom" where
  "ex_eeprom b = \<lparr>ee_cells = replicate 8192 b, ee_ptr = 0, ee_sel = None, ee_count = 0\<rparr>"

lemma ex_eeprom_ok: "ee_ok (ex_eeprom b)" "at_rest (eeprom_devs n) (ex_eeprom b)"
  by (simp_all add: ee_ok_def at_rest_def ex_eeprom_def)

text \<open>A fan controller that answers with its version and notes what is written to it.\<close>

definition mcu_devs :: "(nat \<times> bytes) i2c_devs" where
  "mcu_devs = \<lparr>ib_start = (\<lambda>a rd (k, l). ((0, l), a = 0x0D)), ib_write = (\<lambda>b (k, l). ((k, l @ [b]), True)),
     ib_read = (\<lambda>(k, l). ((Suc k, l), [2, 1, 1, 2] ! (k mod 4))), ib_stop = (\<lambda>p. p)\<rparr>"

lemma mcu_sel [simp]: "ib_start mcu_devs a rd (k, l) = ((0, l), a = 0x0D)" "ib_write mcu_devs b (k, l) = ((k, l @ [b]), True)"
  "ib_read mcu_devs (k, l) = ((Suc k, l), [2, 1, 1, 2] ! (k mod 4))" "ib_stop mcu_devs p = p"
  by (simp_all add: mcu_devs_def)

lemma mcu_version: "dev_reads mcu_devs 4 (0, l) = ((4, l), [2, 1, 1, 2])"
proof -
  have 4: "(4 :: nat) = Suc (Suc (Suc (Suc 0)))" by simp
  show ?thesis by (subst 4) simp
qed

definition ex_handles :: "'m \<Rightarrow> efi_status \<times> 'm i2c_handle list" where
  "ex_handles m = (EFI_SUCCESS, [\<lparr>h_path = None, h_master = (EFI_SUCCESS, m)\<rparr>, \<lparr>h_path = Some (dw_path 1), h_master = (EFI_SUCCESS, m)\<rparr>])"

lemma ex_found: "FindI2cMasterBus1 (ex_handles m) = (EFI_SUCCESS, Some m)" "FindI2cMaster 1 (ex_handles m) = (EFI_SUCCESS, Some m)"
  "FindI2cMaster 0 (ex_handles m) = (EFI_NOT_FOUND, None)"
  by (simp_all add: FindI2cMasterBus1_def FindI2cMaster_def ex_handles_def dw_path_def FAN_PARENT_BUS_INSTANCE_def)

subsection \<open>Properties\<close>

text \<open>C26: On the DesignWare controller, whatever the devices are and at whatever speed the controller works
  without stalling, a request returns with the lock free; it succeeds exactly if every address and byte
  is acknowledged, and then the devices have taken part in the transaction and the buffers hold their
  answers; otherwise the devices have seen only the address of the request, and a stop condition.\<close>

theorem i2c_request_exact:
  assumes "dw_holds base s f" and "request_ok ops" and "bus_never_stalls pace"
  shows "\<exists>s' st ops' g. DwI2cStartRequest (dw_bus devs pace base) A (Some ops) s = Some (s', st, ops') \<and> dw_holds base s' g \<and>
    bus_visit devs (bus_addr A) f g \<and>
    (case transaction devs (bus_addr A) ops f of None \<Rightarrow> EFI_ERROR st | Some r \<Rightarrow> st = EFI_SUCCESS \<and> r = (g, ops'))"
proof (rule dw.request_total [OF assms(1) _ assms(2), of devs pace A])
  fix s' st ops' g
  assume r: "StartRequest (dw_master (dw_bus devs pace base)) A ops s = Some (s', st, ops')" "dw_holds base s' g"
    "bus_visit devs (bus_addr A) f g" "st = EFI_SUCCESS \<longrightarrow> transaction devs (bus_addr A) ops f = Some (g, ops')"
    "st \<noteq> EFI_SUCCESS \<longrightarrow> EFI_ERROR st \<and> (bus_never_stalls pace \<longrightarrow> transaction devs (bus_addr A) ops f = None)"
  then show ?thesis using assms(3) by (cases "st = EFI_SUCCESS") (auto simp: dw_master_def)
qed simp

theorem i2c_request_exact_witness:
  "\<exists>s' ops'. DwI2cStartRequest (dw_bus (eeprom_devs 0) ex_pace 0xFD894000) 0x50 (Some (eeprom_ops 0 [0])) (ex_ctx False, ex_ctl (ex_eeprom 7)) =
    Some (s', EFI_SUCCESS, ops') \<and> Buffer (last ops') = [7]"
proof -
  have a: "bus_addr 0x50 = ee_address 0" by (simp add: bus_addr_def ee_address_def)
  obtain q where "transaction (eeprom_devs 0) (bus_addr 0x50) (eeprom_ops 0 [0]) (ex_eeprom 7) =
      Some (q, [eeprom_ops 0 [0] ! 0, (eeprom_ops 0 [0] ! 1)\<lparr>Buffer := [7]\<rparr>])"
    using eeprom_transaction [OF ex_eeprom_ok(1) [of 7], of 0 "[0]" 0] unfolding a by (auto simp: ex_eeprom_def)
  then show ?thesis
    using i2c_request_exact [OF ex_ready(1) [of "ex_eeprom 7"] _ ex_ready(2), of "eeprom_ops 0 [0]" "eeprom_devs 0" "0x50"]
    by (auto simp: eeprom_request_ok)
qed

text \<open>C29: Even if the controller stalls, a request returns with the lock free and the controller idle, and it
  reports success only if the transaction took place.\<close>

theorem i2c_request_safe:
  assumes "dw_holds base s f" and "request_ok ops"
  shows "\<exists>s' st ops' g. DwI2cStartRequest (dw_bus devs pace base) A (Some ops) s = Some (s', st, ops') \<and> dw_holds base s' g \<and>
    (st = EFI_SUCCESS \<longrightarrow> transaction devs (bus_addr A) ops f = Some (g, ops'))"
proof (rule dw.request_total [OF assms(1) _ assms(2), of devs pace A])
  fix s' st ops' g
  assume "StartRequest (dw_master (dw_bus devs pace base)) A ops s = Some (s', st, ops')" "dw_holds base s' g"
    "st = EFI_SUCCESS \<longrightarrow> transaction devs (bus_addr A) ops f = Some (g, ops')"
  then show ?thesis by (auto simp: dw_master_def)
qed simp

theorem i2c_request_safe_witness:
  "\<exists>s' st ops' g. DwI2cStartRequest (dw_bus (eeprom_devs 0) (\<lambda>t. 0) 0xFD894000) 0x50 (Some (byte_packet 0)) (ex_ctx False, ex_ctl (ex_eeprom 7)) =
    Some (s', st, ops') \<and> dw_holds 0xFD894000 s' g"
  using i2c_request_safe [OF ex_ready(1) [of "ex_eeprom 7"], of "byte_packet 0" "eeprom_devs 0" "\<lambda>t. 0" "0x50"]
  by (auto simp: byte_packet_def request_ok_def op_len_def)

text \<open>C36: The entry point leaves a controller ready for requests, whatever transfer was in progress, and
  so do a reset and a change of the clock, which do not touch the devices.\<close>

theorem i2c_controller_ready:
  assumes "1 \<le> dc_depth c" and "dc_depth c \<le> 256" and "dw_init_bus (dw_bus devs pace (mDwI2cBase ! i)) i c = (Ctx, c')"
  shows "dw_holds (mDwI2cBase ! i) (Ctx, c') (dc_dev c') \<and> (dc_idle c \<longrightarrow> dc_dev c' = dc_dev c) \<and>
    (\<exists>s'. DwI2cReset (dw_bus devs pace (mDwI2cBase ! i)) (Ctx, c') = Some (s', EFI_SUCCESS) \<and> dw_holds (mDwI2cBase ! i) s' (dc_dev c')) \<and>
    (\<exists>s' hz'. DwI2cSetBusFrequency (dw_bus devs pace (mDwI2cBase ! i)) hz (Ctx, c') = Some (s', EFI_SUCCESS, hz') \<and>
      dw_holds (mDwI2cBase ! i) s' (dc_dev c'))"
  using init_bus_holds [OF assms] Reset_contract [OF init_bus_holds(1) [OF assms], of devs pace]
    SetBusFrequency_contract [OF init_bus_holds(1) [OF assms], of devs pace hz] by blast

theorem i2c_controller_ready_witness:
  "dw_holds (mDwI2cBase ! 1) (dw_init_bus (dw_bus (eeprom_devs 0) ex_pace (mDwI2cBase ! 1)) 1 (ex_ctl (ex_eeprom 7))) (ex_eeprom 7)"
proof -
  obtain Ctx c where i: "dw_init_bus (dw_bus (eeprom_devs 0) ex_pace (mDwI2cBase ! 1)) 1 (ex_ctl (ex_eeprom 7)) = (Ctx, c)" by (metis prod.exhaust)
  have e: "dc_depth (ex_ctl (ex_eeprom 7)) = 4" "dc_idle (ex_ctl (ex_eeprom 7))" "dc_dev (ex_ctl (ex_eeprom 7)) = ex_eeprom 7"
    by (simp_all add: ex_ctl_def dc_idle_def)
  show ?thesis using i2c_controller_ready [OF _ _ i, of 0] e by (auto simp: i simp del: One_nat_def)
qed

text \<open>C27: A request to the channel \<open>k\<close> of the switch is a transaction of the devices on the bus and on that
  channel, at any address but that of the switch; the other channels do not change, and the channel the
  driver believes to be active stays the one that is connected.\<close>

theorem mux_isolates_channels:
  assumes "child_holds (dw_holds base) (eeprom_devs n) (\<lambda>j. eeprom_devs (ns j)) state (f, G)" and "bus_addr A \<noteq> 0x70"
    and "request_ok ops" and "bus_never_stalls pace"
  shows "\<exists>state' st ops' f' G'. Pca954xStartRequest (dw_master (dw_bus (board_devs n ns) pace base)) (of_nat (unat (k :: 2 word))) A (Some ops) state =
      Some (state', st, ops') \<and>
    child_holds (dw_holds base) (eeprom_devs n) (\<lambda>j. eeprom_devs (ns j)) state' (f', G') \<and>
    (\<forall>j. j \<noteq> unat k \<longrightarrow> G' j = G j) \<and>
    (case transaction (channel_devs (eeprom_devs n) (\<lambda>j. eeprom_devs (ns j)) (unat k)) (bus_addr A) ops (f, G) of
       None \<Rightarrow> EFI_ERROR st | Some r \<Rightarrow> st = EFI_SUCCESS \<and> r = ((f', G'), ops'))"
proof (rule channel.child.request_total [OF assms(1) _ assms(3), of A pace k])
  fix state' st ops' g
  assume r: "StartRequest (pca_child (dw_master (dw_bus (board_devs n ns) pace base)) (of_nat (unat k))) A ops state = Some (state', st, ops')"
    "child_holds (dw_holds base) (eeprom_devs n) (\<lambda>j. eeprom_devs (ns j)) state' g"
    "bus_visit (channel_devs (eeprom_devs n) (\<lambda>j. eeprom_devs (ns j)) (unat k)) (bus_addr A) (f, G) g"
    "st = EFI_SUCCESS \<longrightarrow> transaction (channel_devs (eeprom_devs n) (\<lambda>j. eeprom_devs (ns j)) (unat k)) (bus_addr A) ops (f, G) = Some (g, ops')"
    "st \<noteq> EFI_SUCCESS \<longrightarrow> EFI_ERROR st \<and>
      (bus_never_stalls pace \<longrightarrow> transaction (channel_devs (eeprom_devs n) (\<lambda>j. eeprom_devs (ns j)) (unat k)) (bus_addr A) ops (f, G) = None)"
  show ?thesis
    using r(1,2,4,5) channel_isolated [OF r(3)] assms(4)
    by (intro exI [of _ state'] exI [of _ st] exI [of _ ops'] exI [of _ "fst g"] exI [of _ "snd g"])
      (cases "st = EFI_SUCCESS"; auto simp: pca_child_def)
qed (simp add: assms(2))

theorem mux_isolates_channels_witness:
  "\<exists>state' ops'. Pca954xStartRequest (dw_master (dw_bus (board_devs 0 (\<lambda>j. 1)) ex_pace 0xFD894000)) 2 0x51 (Some (eeprom_ops 0 [0]))
      (\<lparr>ActiveChannel = PCA954X_NO_CHANNEL, MuxLock = False\<rparr>, (ex_ctx False, ex_ctl (off_channels (\<lambda>j. ex_eeprom (of_nat j)) (ex_eeprom 7)))) =
    Some (state', EFI_SUCCESS, ops') \<and> Buffer (last ops') = [2]"
proof -
  let ?w = "off_channels (\<lambda>j. ex_eeprom (of_nat j)) (ex_eeprom 7)"
  have h: "child_holds (dw_holds 0xFD894000) (eeprom_devs 0) (\<lambda>j. eeprom_devs 1)
      (\<lparr>ActiveChannel = PCA954X_NO_CHANNEL, MuxLock = False\<rparr>, (ex_ctx False, ex_ctl ?w)) (ex_eeprom 7, \<lambda>j. ex_eeprom (of_nat j))"
    using ex_ready(1) [of ?w] ex_eeprom_ok(2) by (auto simp: child_holds_def mux_at_rest_def off_channels_def)
  have "\<exists>r ops'. transaction (channel_devs (eeprom_devs 0) (\<lambda>j. eeprom_devs 1) 2) 0x51 (eeprom_ops 0 [0]) (ex_eeprom 7, \<lambda>j. ex_eeprom (of_nat j)) =
      Some (r, ops') \<and> Buffer (last ops') = [2]"
    by (simp add: transaction_def eeprom_ops_def op_run_def op_len_def op_reads_def I2C_FLAG_READ_def channel_devs_def ee_address_def
      ee_write_def ex_eeprom_def)
  then show ?thesis
    using mux_isolates_channels [OF h, of "0x51" "eeprom_ops 0 [0]" ex_pace 2] ex_ready(2)
    by (auto simp: eeprom_request_ok bus_addr_def)
qed

text \<open>The fan driver starts, and arms its timer for four seconds, exactly if the fan controller answers
  with a valid version and acknowledges the command.\<close>

theorem fan_starts:
  assumes "dw_holds base s f" and "length Buf = 4" and "bus_never_stalls pace"
    and "FindI2cMasterBus1 located = (EFI_SUCCESS, Some (dw_master (dw_bus devs pace base)))"
  shows "\<exists>s' st t. FanDxeInitialize located Buf True True EFI_SUCCESS EFI_SUCCESS s = Some (s', st, t) \<and>
    (case fan_started devs Buf f of
       None \<Rightarrow> EFI_ERROR st \<and> t = None
     | Some g \<Rightarrow> st = EFI_SUCCESS \<and> t = Some (dw_master (dw_bus devs pace base), 40000000) \<and> dw_holds base s' g)"
proof -
  obtain s' st t g where r: "FanDxeInitialize located Buf True True EFI_SUCCESS EFI_SUCCESS s = Some (s', st, t)" "dw_holds base s' g"
      "if st = EFI_SUCCESS then fan_started devs Buf f = Some g \<and> t = Some (dw_master (dw_bus devs pace base), 40000000)
       else EFI_ERROR st \<and> t = None \<and> (bus_never_stalls pace \<longrightarrow> fan_started devs Buf f = None)"
    using fan.start [OF assms(1,2,4)] by blast
  then show ?thesis using assms(3) by (cases "st = EFI_SUCCESS") simp_all
qed

theorem fan_starts_witness:
  "\<exists>s' m. FanDxeInitialize (ex_handles (dw_master (dw_bus mcu_devs ex_pace 0xFD894000))) [0, 0, 0, 0] True True EFI_SUCCESS EFI_SUCCESS
      (ex_ctx False, ex_ctl (0, [])) = Some (s', EFI_SUCCESS, Some (m, 40000000)) \<and>
    dw_holds 0xFD894000 s' (0, [0x90, 0x98, 0x23, 51, 16])"
proof -
  have "fan_started mcu_devs [0, 0, 0, 0] (0, []) = Some (0, [0x90, 0x98, 0x23, 51, 16])"
    by (simp add: fan_started_def transaction_def version_ops_def pwm_ops_def op_run_def op_len_def op_reads_def I2C_FLAG_READ_def
      version_ok_def mcu_version)
  then show ?thesis
    using fan_starts [OF ex_ready(1) [of "(0, [])"] _ ex_ready(2) ex_found(1), of "[0, 0, 0, 0]" mcu_devs] by auto
qed

text \<open>Then each expiry of the timer delivers the PWM command as long as the fan controller acknowledges it.\<close>

theorem fan_kept_alive:
  assumes "dw_holds base s f" and "bus_never_stalls pace" and "fan_kept devs k f = Some g"
  shows "\<exists>s'. keepalives (dw_master (dw_bus devs pace base)) k s = Some s' \<and> dw_holds base s' g"
  by (rule fan.kept [OF assms])

theorem fan_kept_alive_witness:
  "\<exists>s'. keepalives (dw_master (dw_bus mcu_devs ex_pace 0xFD894000)) 2 (ex_ctx False, ex_ctl (0, [])) = Some s' \<and>
    dw_holds 0xFD894000 s' (0, [0x98, 0x23, 51, 16, 0x98, 0x23, 51, 16])"
proof (rule fan_kept_alive [OF ex_ready])
  show "fan_kept mcu_devs 2 (0, []) = Some (0, [0x98, 0x23, 51, 16, 0x98, 0x23, 51, 16])"
    by (subst numeral_2_eq_2) (simp add: transaction_def pwm_ops_def op_run_def op_len_def op_reads_def I2C_FLAG_READ_def)
qed

text \<open>C28: Once the driver of the switch has started, the application finds the EEPROM on the bus, only that,
  and prints what it holds; the driver has made all four children, and the EEPROMs on the channels are
  not touched.\<close>

theorem eeprom_dumped:
  assumes "dw_holds base s w" and "mux_at_rest (eeprom_devs n) (\<lambda>j. eeprom_devs (ns j)) w" and "ee_ok (mw_main w)"
    and "bus_never_stalls pace" and "\<And>i. al_chan i \<and> al_path i \<and> install i = EFI_SUCCESS"
    and "FindI2cMaster 0 located = (st, None)" and "FindI2cMaster 1 located = (EFI_SUCCESS, Some (dw_master (dw_bus (board_devs n ns) pace base)))"
  shows "\<exists>s1 Mux s2 w2. Pca954xDxeInitialize located True al_chan al_path install s =
      Some (s1, EFI_SUCCESS, Some (dw_master (dw_bus (board_devs n ns) pace base), Mux, [0, 1, 2, 3])) \<and>
    BoardI2cEepromProbeAppEntry b True located s1 = Some (s2, EFI_SUCCESS,
      [Bus_not_available 0, Found_EEPROM 1 (0x50 + ucast n), Dump 1 (0x50 + ucast n) (HexDump 0 (ee_cells (mw_main w)))]) \<and>
    dw_holds base s2 w2 \<and> ee_cells (mw_main w2) = ee_cells (mw_main w) \<and> mw_chan w2 = mw_chan w"
proof -
  obtain p where p: "pace = (\<lambda>t. Suc (p t))"
    using assms(4) by (intro that [of "\<lambda>t. pace t - 1"]) (auto simp: bus_never_stalls_def)
  have find: "FindParentI2cMaster located = (EFI_SUCCESS, Some (dw_master (dw_bus (board_devs n ns) pace base)))"
    using assms(7) by (cases located) (auto simp: FindParentI2cMaster_def FindI2cMaster_def PCA954X_PARENT_BUS_INSTANCE_def split: if_splits)
  obtain s1 Mux where 1: "Pca954xDxeInitialize located True al_chan al_path install s =
        Some (s1, EFI_SUCCESS, Some (dw_master (dw_bus (board_devs n ns) pace base), Mux, [0, 1, 2, 3]))"
      "dw_holds base s1 (w\<lparr>mw_ctrl := 0\<rparr>)"
    using mux.initialize [OF assms(1,2) find assms(4), of al_chan al_path install] assms(5) by blast
  have off: "w\<lparr>mw_ctrl := 0\<rparr> = off_channels (mw_chan w) (mw_main w)"
    using assms(2) by (simp add: off_channels_def mux_at_rest_def)
  obtain s2 q where "BoardI2cEepromProbeAppEntry b True located s1 = Some (s2, EFI_SUCCESS,
        [Bus_not_available 0, Found_EEPROM 1 (0x50 + ucast n), Dump 1 (0x50 + ucast n) (HexDump 0 (ee_cells (mw_main w)))])"
      "dw_holds base s2 (off_channels (mw_chan w) q)" "ee_cells q = ee_cells (mw_main w)"
    using ee.application [OF 1(2) [unfolded off] assms(3,6), of n ns p b] assms(7) unfolding p by blast
  then show ?thesis using 1(1) by (intro exI [of _ s1] exI [of _ Mux] exI [of _ s2] exI [of _ "off_channels (mw_chan w) q"])
    (simp add: off_channels_def)
qed

theorem eeprom_dumped_witness:
  "\<exists>s1 Mux s2. Pca954xDxeInitialize (ex_handles (dw_master (dw_bus (board_devs 3 (\<lambda>j. 0)) ex_pace 0xFD894000))) True (\<lambda>i. True) (\<lambda>i. True)
      (\<lambda>i. EFI_SUCCESS) (ex_ctx False, ex_ctl (off_channels (\<lambda>j. ex_eeprom 1) (ex_eeprom 7))) =
    Some (s1, EFI_SUCCESS, Some (dw_master (dw_bus (board_devs 3 (\<lambda>j. 0)) ex_pace 0xFD894000), Mux, [0, 1, 2, 3])) \<and>
    BoardI2cEepromProbeAppEntry 0 True (ex_handles (dw_master (dw_bus (board_devs 3 (\<lambda>j. 0)) ex_pace 0xFD894000))) s1 = Some (s2, EFI_SUCCESS,
      [Bus_not_available 0, Found_EEPROM 1 0x53, Dump 1 0x53 (HexDump 0 (replicate 8192 7))])"
proof -
  have "mux_at_rest (eeprom_devs 3) (\<lambda>j. eeprom_devs 0) (off_channels (\<lambda>j. ex_eeprom 1) (ex_eeprom 7))"
    by (simp add: mux_at_rest_def off_channels_def ex_eeprom_ok(2))
  moreover have "ee_ok (mw_main (off_channels (\<lambda>j. ex_eeprom 1) (ex_eeprom 7)))" "mw_main (off_channels (\<lambda>j. ex_eeprom 1) (ex_eeprom 7)) = ex_eeprom 7"
    by (simp_all add: off_channels_def ex_eeprom_ok(1))
  moreover have "ee_cells (ex_eeprom 7) = replicate 8192 7" "0x50 + ucast (3 :: 3 word) = (0x53 :: u64)" by (simp_all add: ex_eeprom_def)
  ultimately show ?thesis
    using eeprom_dumped [OF ex_ready(1) [of "off_channels (\<lambda>j. ex_eeprom 1) (ex_eeprom 7)"] _ _ ex_ready(2) _ ex_found(3,2),
        of 3 "\<lambda>j. 0" "\<lambda>i. True" "\<lambda>i. True" "\<lambda>i. EFI_SUCCESS" 0]
    by (simp del: replicate_Suc) blast
qed

subsection \<open>The zero byte\<close>

text \<open>A device that acknowledges writes, and notes the bytes, but not reads.\<close>

definition mute_devs :: "bytes i2c_devs" where
  "mute_devs = \<lparr>ib_start = (\<lambda>a rd f. (f, \<not> rd)), ib_write = (\<lambda>b f. (f @ [b], True)), ib_read = (\<lambda>f. (f, 0xFF)), ib_stop = (\<lambda>f. f)\<rparr>"

lemma mute_sel [simp]: "ib_start mute_devs a rd f = (f, \<not> rd)" "ib_write mute_devs b f = (f @ [b], True)"
  "ib_read mute_devs f = (f, 0xFF)" "ib_stop mute_devs f = f"
  by (simp_all add: mute_devs_def)

lemma poll_next: "0 < n \<Longrightarrow> round h = (h1, None) \<Longrightarrow> poll n round h = poll (n - 1) round h1"
  by (cases n) simp_all

abbreviation "ex_bus \<equiv> dw_bus mute_devs ex_pace 0xFD894000"

definition ex_state :: "bool \<Rightarrow> bool \<Rightarrow> bytes \<Rightarrow> nat \<Rightarrow> bytes dw_ctl" where
  "ex_state en stop f t = \<lparr>dc_en = en, dc_con = 0x63, dc_tar = 0x50, dc_tx = [], dc_rx = [], dc_abrt = False, dc_stop = stop, dc_under = False,
     dc_over = False, dc_dir = None, dc_depth = 4, dc_dev = f, dc_time = t\<rparr>"

lemma ex_base: "BaseAddress (ex_ctx l) = 0xFD894000" by (simp add: ex_ctx_def)

lemma ex_lock: "acquire_lock (ex_ctx False) = Some (ex_ctx True)" "release_lock (ex_ctx True) = ex_ctx False"
  by (simp_all add: acquire_lock_def release_lock_def ex_ctx_def)

lemma ex_idle: "dc_idle (ex_ctl f)"
  by (simp add: dc_idle_def ex_ctl_def)

lemma ex_start: "dw_start ex_bus (ex_ctx l) 0x50 (dw_tick mute_devs ex_pace (ex_ctl [])) = ex_state True False [] 7"
  by (simp add: dw_start_def Let_def Enable_runs [of _ _ "ex_ctx l", unfolded ex_base] dw_bus_read [OF ex_base] dw_bus_write [OF ex_base],
   simp add: reg_read_def reg_write_def dw_regs dw_tick_def ex_pace_def ex_ctl_def ex_state_def)

lemma ex_read: "read_bytes ex_bus (ex_ctx l) True False 1 1 [0] (ex_state True False [] t) = Some (ex_state True True [] (5 + t), EFI_ABORTED, [0])"
  unfolding One_nat_def read_bytes.simps Let_def DwI2cWaitTxData_def DwI2cWaitRxData_def abort_seen_def DwI2cCheckErrors_def dw_bus_read [OF ex_base] dw_bus_write [OF ex_base]
  by (simp add: poll_first poll_next dw_polls reg_read_def reg_write_def dw_regs dw_bits dw_tick_def ex_pace_def ex_state_def ex_ctx_def
   dw_step_def dw_command_def bus_command_def raw_intr_def ic_status_def cmd_flags_def dc_addr_def del: poll.simps)

lemma ex_abort: "dw_abort ex_bus (ex_ctx l) (ex_state True True [] t) = ex_state False False [0x00] (t + 8)"
  unfolding dw_abort_def Let_def DwI2cFinish_def wait_tx_empty_def wait_stop_def DwI2cCheckErrors_def DwI2cWaitBusNotBusy_def
    dw_bus_read [OF ex_base] dw_bus_write [OF ex_base]
  by (simp add: Enable_runs [of _ _ "ex_ctx l", unfolded ex_base] poll_first poll_next dw_polls reg_read_def reg_write_def dw_regs dw_bits dw_tick_def ex_pace_def ex_state_def
   dw_step_def dw_command_def bus_command_def raw_intr_def ic_status_def dc_addr_def del: poll.simps)

text \<open>A run of the abort path: when a wait notices that an address was not acknowledged, the path \<open>Abort\<close> puts a command with only
  the stop flag into the FIFO, which the controller executes as a write: a request that only reads hands a
  zero byte to the device.\<close>

lemma abort_writes_zero:
  "\<exists>Ctx c ops'. DwI2cStartRequest ex_bus 0x50 (Some [\<lparr>Flags = I2C_FLAG_READ, LengthInBytes = 1, Buffer = [0]\<rparr>]) (ex_ctx False, ex_ctl []) =
      Some ((Ctx, c), EFI_NO_RESPONSE, ops') \<and> dc_dev c = [0x00]"
proof -
  have "DwI2cStartRequest ex_bus 0x50 (Some [\<lparr>Flags = I2C_FLAG_READ, LengthInBytes = 1, Buffer = [0]\<rparr>]) (ex_ctx False, ex_ctl []) =
      Some ((ex_ctx False, ex_state False False [0x00] 20), EFI_NO_RESPONSE, [\<lparr>Flags = I2C_FLAG_READ, LengthInBytes = 1, Buffer = [0]\<rparr>])"
    using not_busy_idle [OF ex_idle, of mute_devs ex_pace "ex_ctx True", unfolded ex_base] ex_read [of True 7, unfolded One_nat_def] ex_abort [of True 12]
    by (simp add: DwI2cStartRequest_def ex_lock ex_start process_op_def op_reads_def op_len_def I2C_FLAG_READ_def del: read_bytes.simps)
  then show ?thesis by (simp add: ex_state_def)
qed

end
