(* ===== verification/Udma.thy ===== *)
theory Udma
  imports Prelude
begin

text \<open>
  The queues of the DMA engine, \<open>Library/AlpineHalLib/drivers/udma/al_hal_udma_main.c\<close> and the functions
  of \<open>include/udma/al_hal_udma.h\<close>: a ring of submission descriptors and a ring of completion descriptors
  in memory, and the registers of the queue. The engine advances on its own, so every access takes and
  returns its state. A pointer to a completion descriptor is its index; a failed assertion is \<^const>\<open>None\<close>.
\<close>

unbundle bit_operations_syntax

subsection \<open>The engine as the code sees it\<close>

datatype udma_reg = RING_CFG | RING_STATUS | DRBP_LOW | DRBP_HIGH | DRL | DRTP_INC | DCP
  | CRBP_LOW | CRBP_HIGH | CRHP | COMP_CFG | RLIMIT_MASK | Q_SW_CTRL | S2M_COMP_CFG_1C

datatype desc_field = LEN_CTRL | META_CTRL | BUF_PTR

text \<open>Registers, the words of a completion descriptor, and the fields of a submission descriptor.\<close>

record 'u udma_ops =
  uo_read :: "udma_reg \<Rightarrow> 'u \<Rightarrow> 'u \<times> u32"
  uo_write :: "udma_reg \<Rightarrow> u32 \<Rightarrow> 'u \<Rightarrow> 'u"
  uo_cdesc :: "nat \<Rightarrow> nat \<Rightarrow> 'u \<Rightarrow> 'u \<times> u32"
  uo_set_cdesc :: "nat \<Rightarrow> u32 \<Rightarrow> 'u \<Rightarrow> 'u"
  uo_set_desc :: "nat \<Rightarrow> desc_field \<Rightarrow> u64 \<Rightarrow> 'u \<Rightarrow> 'u"
  uo_udelay :: "u32 \<Rightarrow> 'u \<Rightarrow> 'u"

subsection \<open>Queues\<close>

definition AL_UDMA_MAX_NUM_CDESC_PER_CACHE_LINE :: u16 where "AL_UDMA_MAX_NUM_CDESC_PER_CACHE_LINE = 16"
definition AL_UDMA_MIN_Q_SIZE :: u32 where "AL_UDMA_MIN_Q_SIZE = 32"
definition AL_UDMA_MAX_Q_SIZE :: u32 where "AL_UDMA_MAX_Q_SIZE = 0x10000"
definition DMA_RING_ID_MASK :: u32 where "DMA_RING_ID_MASK = 3"
definition AL_UDMA_INITIAL_RING_ID :: u32 where "AL_UDMA_INITIAL_RING_ID = 1"
definition AL_UDMA_Q_FLAGS_NO_COMP_UPDATE :: u32 where "AL_UDMA_Q_FLAGS_NO_COMP_UPDATE = 2"
definition AL_UDMA_Q_QUIESCE_TOUT :: nat where "AL_UDMA_Q_QUIESCE_TOUT = 10000"
definition AL_UDMA_CDESC_LAST :: u32 where "AL_UDMA_CDESC_LAST = 0x08000000"
definition AL_UDMA_CDESC_FIRST :: u32 where "AL_UDMA_CDESC_FIRST = 0x04000000"
definition AL_S2M_DESC_ERR :: u32 where "AL_S2M_DESC_ERR = 0x00010000"

lemmas udma_consts = AL_UDMA_MAX_NUM_CDESC_PER_CACHE_LINE_def AL_UDMA_MIN_Q_SIZE_def AL_UDMA_MAX_Q_SIZE_def
  DMA_RING_ID_MASK_def AL_UDMA_INITIAL_RING_ID_def AL_UDMA_Q_FLAGS_NO_COMP_UPDATE_def AL_UDMA_Q_QUIESCE_TOUT_def
  AL_UDMA_CDESC_LAST_def AL_UDMA_CDESC_FIRST_def AL_S2M_DESC_ERR_def

datatype al_udma_queue_status = AL_QUEUE_DISABLED | AL_QUEUE_ENABLED

record al_udma_q_params =
  qp_size :: u32
  qp_desc_base :: u64
  qp_desc_phy_base :: u64
  qp_cdesc_base :: u64
  qp_cdesc_phy_base :: u64
  qp_cdesc_size :: u32
  qp_adapter_rev_id :: u8

text \<open>\<open>q_tx\<close> is the type of the engine the queue belongs to; the end of the ring is the index \<open>q_size - 1\<close>.\<close>

record al_udma_q =
  q_tx :: bool
  size_mask :: u16
  desc_base_ptr :: u64
  next_desc_idx :: u16
  desc_ring_id :: u32
  cdesc_base_ptr :: u64
  cdesc_size :: u32
  next_cdesc_idx :: u16
  comp_head_idx :: u16
  comp_head_ptr :: nat
  pkt_crnt_descs :: u32
  comp_ring_id :: u32
  desc_phy_base :: u64
  cdesc_phy_base :: u64
  q_flags :: u32
  q_size :: u32
  q_status :: al_udma_queue_status
  adapter_rev_id :: u8

definition end_cdesc :: "al_udma_q \<Rightarrow> nat" where
  "end_cdesc q = unat (q_size q - 1)"

subsection \<open>Submission\<close>

definition al_udma_available_get :: "al_udma_q \<Rightarrow> u32" where
  "al_udma_available_get q =
     ucast ((next_cdesc_idx q - (next_desc_idx q + AL_UDMA_MAX_NUM_CDESC_PER_CACHE_LINE)) AND size_mask q)"

definition al_udma_is_empty :: "al_udma_q \<Rightarrow> bool" where
  "al_udma_is_empty q = ((next_cdesc_idx q - next_desc_idx q) AND size_mask q = 0)"

text \<open>The index of the descriptor.\<close>

definition al_udma_desc_get :: "al_udma_q \<Rightarrow> nat \<times> al_udma_q" where
  "al_udma_desc_get q = (unat (next_desc_idx q), q\<lparr>next_desc_idx := (next_desc_idx q + 1) AND size_mask q\<rparr>)"

definition al_udma_ring_id_get :: "al_udma_q \<Rightarrow> u32 \<times> al_udma_q" where
  "al_udma_ring_id_get q = (desc_ring_id q,
     if next_desc_idx q = 0 then q\<lparr>desc_ring_id := (desc_ring_id q + 1) AND DMA_RING_ID_MASK\<rparr> else q)"

definition al_udma_desc_action_add :: "'u udma_ops \<Rightarrow> al_udma_q \<Rightarrow> u32 \<Rightarrow> 'u \<Rightarrow> 'u option" where
  "al_udma_desc_action_add ops q num u = (if 0 < num \<and> num \<le> q_size q then Some (uo_write ops DRTP_INC num u) else None)"

subsection \<open>Completion\<close>

definition cdesc_is_first :: "u32 \<Rightarrow> bool" where "cdesc_is_first flags = (flags AND AL_UDMA_CDESC_FIRST \<noteq> 0)"
definition cdesc_is_last :: "u32 \<Rightarrow> bool" where "cdesc_is_last flags = (flags AND AL_UDMA_CDESC_LAST \<noteq> 0)"

definition al_cdesc_next :: "al_udma_q \<Rightarrow> nat \<Rightarrow> nat \<Rightarrow> nat" where
  "al_cdesc_next q cdesc offset =
     (if cdesc + offset > end_cdesc q then cdesc + offset - end_cdesc q - 1 else cdesc + offset)"

definition al_udma_new_cdesc :: "al_udma_q \<Rightarrow> u32 \<Rightarrow> bool" where
  "al_udma_new_cdesc q flags = (drop_bit 24 (flags AND 0x03000000) = comp_ring_id q)"

definition al_cdesc_next_update :: "al_udma_q \<Rightarrow> nat \<Rightarrow> al_udma_q \<times> nat" where
  "al_cdesc_next_update q cdesc =
     (if cdesc = end_cdesc q then (q\<lparr>comp_ring_id := (comp_ring_id q + 1) AND DMA_RING_ID_MASK\<rparr>, 0)
      else (q, cdesc + 1))"

text \<open>Marks the descriptor as the last of its packet, with an error; the read-modify-write of its first word.\<close>

definition mark_trimmed :: "'u udma_ops \<Rightarrow> nat \<Rightarrow> 'u \<Rightarrow> 'u" where
  "mark_trimmed ops i u = (case uo_cdesc ops i 0 u of
     (u1, x) \<Rightarrow> uo_set_cdesc ops i (x OR (AL_S2M_DESC_ERR OR AL_UDMA_CDESC_LAST)) u1)"

definition last_of_packet :: "al_udma_q \<Rightarrow> u32 \<Rightarrow> nat" where
  "last_of_packet q count = unat ((ucast (ucast (next_cdesc_idx q) + count - 1) :: u16) AND size_mask q)"

text \<open>
  The loop over the descriptors of a packet, with the number found so far. The result is the last one
  and their number, or nothing if the packet is not complete. The assertion bounds the loop.
\<close>

partial_function (option) packet_loop :: "'u udma_ops \<Rightarrow> nat \<Rightarrow> u32 \<Rightarrow> u32 \<Rightarrow> al_udma_q \<Rightarrow> 'u \<Rightarrow> ('u \<times> al_udma_q \<times> (nat \<times> u32) option) option" where
  "packet_loop ops cur comp_flags count q u =
     (if cdesc_is_last comp_flags then Some (u, q, Some (cur, count))
      else (case al_cdesc_next_update q cur of (q1, cur1) \<Rightarrow>
        case uo_cdesc ops cur1 0 u of (u1, comp_flags1) \<Rightarrow>
          if \<not> al_udma_new_cdesc q1 comp_flags1
          then Some (u1, q1\<lparr>pkt_crnt_descs := count, comp_head_ptr := cur1\<rparr>, None)
          else if cdesc_is_first comp_flags1
          then Some (mark_trimmed ops (last_of_packet q1 count) u1, q1, Some (last_of_packet q1 count, count))
          else if count + 1 \<le> q_size q1 then packet_loop ops cur1 comp_flags1 (count + 1) q1 u1
          else None))"

text \<open>The first descriptor of the packet and the number of descriptors, which is 0 if there is none.\<close>

definition al_udma_cdesc_packet_get :: "'u udma_ops \<Rightarrow> al_udma_q \<Rightarrow> 'u \<Rightarrow> ('u \<times> al_udma_q \<times> u32 \<times> nat) option" where
  "al_udma_cdesc_packet_get ops q u =
     (if q_flags q AND AL_UDMA_Q_FLAGS_NO_COMP_UPDATE \<noteq> 0 then None
      else (case uo_cdesc ops (comp_head_ptr q) 0 u of (u1, comp_flags) \<Rightarrow>
        if \<not> al_udma_new_cdesc q comp_flags then Some (u1, q, 0, 0)
        else do {
          (u2, q2, r) \<leftarrow> (if pkt_crnt_descs q \<noteq> 0 \<and> cdesc_is_first comp_flags
            then Some (mark_trimmed ops (last_of_packet q (pkt_crnt_descs q)) u1, q,
                   Some (last_of_packet q (pkt_crnt_descs q), pkt_crnt_descs q))
            else packet_loop ops (comp_head_ptr q) comp_flags (pkt_crnt_descs q + 1) q u1);
          case r of
            None \<Rightarrow> Some (u2, q2, 0, 0)
          | Some (cur, count) \<Rightarrow> (case al_cdesc_next_update (q2\<lparr>pkt_crnt_descs := 0\<rparr>) cur of
              (q3, nxt) \<Rightarrow> Some (u2, q3\<lparr>comp_head_ptr := nxt\<rparr>, count, unat (next_cdesc_idx q2)))
        }))"

definition al_udma_cdesc_get_all :: "'u udma_ops \<Rightarrow> al_udma_q \<Rightarrow> 'u \<Rightarrow> 'u \<times> al_udma_q \<times> u32" where
  "al_udma_cdesc_get_all ops q u = (case uo_read ops CRHP u of
     (u1, x) \<Rightarrow> let q1 = q\<lparr>comp_head_idx := ucast (x AND 0xFFFF)\<rparr> in
       (u1, q1, ucast ((comp_head_idx q1 - next_cdesc_idx q1) AND size_mask q1)))"

definition al_udma_cdesc_ack :: "al_udma_q \<Rightarrow> u32 \<Rightarrow> al_udma_q" where
  "al_udma_cdesc_ack q num = q\<lparr>next_cdesc_idx := ucast (ucast (next_cdesc_idx q) + num) AND size_mask q\<rparr>"

subsection \<open>Configuration\<close>

definition al_udma_q_config :: "'u udma_ops \<Rightarrow> al_udma_q \<Rightarrow> 'u \<Rightarrow> 'u" where
  "al_udma_q_config ops q u =
     (if q_tx q then (case uo_read ops RLIMIT_MASK u of (u1, val) \<Rightarrow> uo_write ops RLIMIT_MASK (val AND NOT 4) u1) else u)"

definition al_udma_q_config_compl :: "'u udma_ops \<Rightarrow> al_udma_q \<Rightarrow> 'u \<Rightarrow> 'u" where
  "al_udma_q_config_compl ops q u = (case uo_read ops COMP_CFG u of (u1, val) \<Rightarrow>
     let val1 = (if q_flags q AND AL_UDMA_Q_FLAGS_NO_COMP_UPDATE \<noteq> 0 then val AND NOT 1 else val OR 1);
         u2 = uo_write ops COMP_CFG (val1 OR 2) u1
     in if q_tx q then u2
        else (case uo_read ops S2M_COMP_CFG_1C u2 of (u3, val) \<Rightarrow>
          uo_write ops S2M_COMP_CFG_1C ((val AND NOT 0xF) OR (drop_bit 2 (cdesc_size q) AND 0xF)) u3))"

definition AL_ADDR_LOW :: "u64 \<Rightarrow> u32" where "AL_ADDR_LOW x = ucast x"
definition AL_ADDR_HIGH :: "u64 \<Rightarrow> u32" where "AL_ADDR_HIGH x = ucast (drop_bit 16 (drop_bit 16 x))"

definition al_udma_q_set_pointers :: "'u udma_ops \<Rightarrow> al_udma_q \<Rightarrow> 'u \<Rightarrow> ('u \<times> al_udma_q) option" where
  "al_udma_q_set_pointers ops q u =
     (if AL_ADDR_LOW (desc_phy_base q) AND NOT 0xFFFFFFC0 \<noteq> 0 then None
      else let u1 = uo_write ops DRL (q_size q) (uo_write ops DRBP_HIGH (AL_ADDR_HIGH (desc_phy_base q))
                 (uo_write ops DRBP_LOW (AL_ADDR_LOW (desc_phy_base q)) u)) in
        if cdesc_base_ptr q = 0
        then (let q1 = q\<lparr>q_flags := q_flags q OR AL_UDMA_Q_FLAGS_NO_COMP_UPDATE\<rparr>
              in Some (al_udma_q_config_compl ops q1 u1, q1))
        else if AL_ADDR_LOW (cdesc_phy_base q) AND NOT 0xFFFFFFC0 \<noteq> 0 then None
        else Some (al_udma_q_config_compl ops q (uo_write ops CRBP_HIGH (AL_ADDR_HIGH (cdesc_phy_base q))
               (uo_write ops CRBP_LOW (AL_ADDR_LOW (cdesc_phy_base q)) u1)), q))"

text \<open>The bits \<open>UDMA_M2S_Q_CFG_EN_PREF\<close> and \<open>UDMA_M2S_Q_CFG_EN_SCHEDULING\<close>.\<close>

definition al_udma_q_enable :: "'u udma_ops \<Rightarrow> bool \<Rightarrow> al_udma_q \<Rightarrow> 'u \<Rightarrow> 'u \<times> al_udma_q" where
  "al_udma_q_enable ops enable q u = (case uo_read ops RING_CFG u of (u1, reg) \<Rightarrow>
     if enable then (uo_write ops RING_CFG (reg OR 0x00030000) u1, q\<lparr>q_status := AL_QUEUE_ENABLED\<rparr>)
     else (uo_write ops RING_CFG (reg AND NOT 0x00030000) u1, q\<lparr>q_status := AL_QUEUE_DISABLED\<rparr>))"

definition al_udma_q_is_enabled :: "'u udma_ops \<Rightarrow> 'u \<Rightarrow> 'u \<times> bool" where
  "al_udma_q_is_enabled ops u = (case uo_read ops RING_CFG u of (u1, reg) \<Rightarrow> (u1, reg AND 0x00030000 \<noteq> 0))"

text \<open>\<open>q\<close> is the entry of the queue in the engine, \<open>num_of_queues\<close> the number of its queues.\<close>

definition al_udma_q_init ::
    "'u udma_ops \<Rightarrow> u8 \<Rightarrow> u32 \<Rightarrow> al_udma_q_params \<Rightarrow> al_udma_q \<Rightarrow> 'u \<Rightarrow> ('u \<times> al_udma_q \<times> int) option" where
  "al_udma_q_init ops num_of_queues qid p q u =
     (if qid \<ge> ucast num_of_queues then Some (u, q, - EINVAL)
      else if q_status q = AL_QUEUE_ENABLED then Some (u, q, - EIO)
      else if qp_size p < AL_UDMA_MIN_Q_SIZE then Some (u, q, - EINVAL)
      else if qp_size p > AL_UDMA_MAX_Q_SIZE then Some (u, q, - EINVAL)
      else if qp_size p AND (qp_size p - 1) \<noteq> 0 then Some (u, q, - EINVAL)
      else let q1 = q\<lparr>adapter_rev_id := qp_adapter_rev_id p, q_size := qp_size p, size_mask := ucast (qp_size p - 1),
             desc_base_ptr := qp_desc_base p, desc_phy_base := qp_desc_phy_base p, cdesc_base_ptr := qp_cdesc_base p,
             cdesc_phy_base := qp_cdesc_phy_base p, cdesc_size := qp_cdesc_size p, next_desc_idx := 0, next_cdesc_idx := 0,
             comp_head_idx := 0, comp_head_ptr := 0, desc_ring_id := AL_UDMA_INITIAL_RING_ID,
             comp_ring_id := AL_UDMA_INITIAL_RING_ID, pkt_crnt_descs := 0, q_flags := 0, q_status := AL_QUEUE_DISABLED\<rparr>
           in do {
             (u2, q2) \<leftarrow> al_udma_q_set_pointers ops q1 (al_udma_q_config ops q1 u);
             let (u3, q3) = al_udma_q_enable ops True q2 u2;
             Some (u3, q3, 0)
           })"

text \<open>The two waits share their time; the result is what is left of it.\<close>

fun wait_quiet :: "'u udma_ops \<Rightarrow> nat \<Rightarrow> 'u \<Rightarrow> 'u \<times> nat" where
  "wait_quiet ops 0 u = (u, 0)"
| "wait_quiet ops (Suc n) u = (case uo_read ops RING_STATUS u of (u1, status) \<Rightarrow>
     if status AND 0x30000000 = 0 then (u1, Suc n) else wait_quiet ops n (uo_udelay ops 1 u1))"

fun wait_drained :: "'u udma_ops \<Rightarrow> nat \<Rightarrow> 'u \<Rightarrow> 'u \<times> nat" where
  "wait_drained ops 0 u = (u, 0)"
| "wait_drained ops (Suc n) u = (case uo_read ops DCP u of (u1, dcp) \<Rightarrow> case uo_read ops CRHP u1 of (u2, crhp) \<Rightarrow>
     if dcp = crhp then (u2, Suc n) else wait_drained ops n (uo_udelay ops 1 u2))"

definition al_udma_q_pause :: "'u udma_ops \<Rightarrow> al_udma_q \<Rightarrow> 'u \<Rightarrow> 'u \<times> al_udma_q \<times> int" where
  "al_udma_q_pause ops q u = (case al_udma_q_enable ops False q u of (u1, q1) \<Rightarrow>
     case wait_quiet ops AL_UDMA_Q_QUIESCE_TOUT u1 of (u2, remaining) \<Rightarrow>
       if remaining = 0 then (u2, q1, - ETIME)
       else (case wait_drained ops remaining u2 of (u3, remaining) \<Rightarrow>
         (u3, q1, if remaining = 0 then - ETIME else 0)))"

definition al_udma_q_resume :: "'u udma_ops \<Rightarrow> al_udma_q \<Rightarrow> 'u \<Rightarrow> 'u \<times> al_udma_q" where
  "al_udma_q_resume ops q u = al_udma_q_enable ops True q u"

definition al_udma_q_reset :: "'u udma_ops \<Rightarrow> al_udma_q \<Rightarrow> 'u \<Rightarrow> 'u \<times> al_udma_q \<times> int" where
  "al_udma_q_reset ops q u = (case al_udma_q_pause ops q u of (u1, q1, rc) \<Rightarrow>
     if rc \<noteq> 0 then (u1, q1, rc) else (uo_write ops Q_SW_CTRL 0x100 u1, q1, 0))"

end
