(* ===== verification/AlEthQueue.thy ===== *)
theory AlEthQueue
  imports Udma
begin

text \<open>
  The data path of the Ethernet HAL, \<open>Library/AlpineHalLib/drivers/eth/al_hal_eth_main.c\<close>: packets as
  submission descriptors, and received packets from completion descriptors. Packets have no metadata
  descriptor, which the driver never uses.
\<close>

unbundle bit_operations_syntax

subsection \<open>Transmission\<close>

text \<open>A packet with its buffers, the address and the length of each.\<close>

record al_eth_pkt =
  pkt_flags :: u32
  l3_proto_idx :: u32
  l4_proto_idx :: u32
  source_vlan_count :: u32
  vlan_mod_add_count :: u32
  vlan_mod_del_count :: u32
  vlan_mod_v1_ether_sel :: u32
  vlan_mod_v1_vid_sel :: u32
  vlan_mod_v1_pbits_sel :: u32
  tunnel_mode :: u32
  outer_l3_proto_idx :: u32
  protocol_number :: u32
  gen_crc_checksum_en_mask :: u32
  tgtid :: u16
  pkt_bufs :: "(u64 \<times> u32) list"

text \<open>A packet of zeros with one buffer.\<close>

definition plain_pkt :: "u64 \<Rightarrow> u32 \<Rightarrow> al_eth_pkt" where
  "plain_pkt addr n = \<lparr>pkt_flags = 0, l3_proto_idx = 0, l4_proto_idx = 0, source_vlan_count = 0,
     vlan_mod_add_count = 0, vlan_mod_del_count = 0, vlan_mod_v1_ether_sel = 0, vlan_mod_v1_vid_sel = 0,
     vlan_mod_v1_pbits_sel = 0, tunnel_mode = 0, outer_l3_proto_idx = 0, protocol_number = 0,
     gen_crc_checksum_en_mask = 0, tgtid = 0, pkt_bufs = [(addr, n)]\<rparr>"

definition AL_M2S_DESC_CONCAT :: u32 where "AL_M2S_DESC_CONCAT = 0x80000000"
definition AL_M2S_DESC_NO_SNOOP_H :: u32 where "AL_M2S_DESC_NO_SNOOP_H = 0x20000000"
definition AL_M2S_DESC_INT_EN :: u32 where "AL_M2S_DESC_INT_EN = 0x10000000"
definition AL_M2S_DESC_LAST :: u32 where "AL_M2S_DESC_LAST = 0x08000000"
definition AL_M2S_DESC_FIRST :: u32 where "AL_M2S_DESC_FIRST = 0x04000000"
definition AL_ETH_TX_PKT_META_FLAGS :: u32 where "AL_ETH_TX_PKT_META_FLAGS = 0x0023E080"
definition AL_ETH_TX_PKT_UDMA_FLAGS :: u32 where "AL_ETH_TX_PKT_UDMA_FLAGS = AL_M2S_DESC_NO_SNOOP_H OR AL_M2S_DESC_INT_EN"
definition AL_ETH_REV_ID_4 :: u8 where "AL_ETH_REV_ID_4 = 4"

lemmas desc_consts = AL_M2S_DESC_CONCAT_def AL_M2S_DESC_NO_SNOOP_H_def AL_M2S_DESC_INT_EN_def AL_M2S_DESC_LAST_def
  AL_M2S_DESC_FIRST_def AL_ETH_TX_PKT_META_FLAGS_def AL_ETH_TX_PKT_UDMA_FLAGS_def AL_ETH_REV_ID_4_def

definition tx_meta_ctrl :: "u8 \<Rightarrow> al_eth_pkt \<Rightarrow> u32" where
  "tx_meta_ctrl rv pkt =
     (pkt_flags pkt AND AL_ETH_TX_PKT_META_FLAGS) OR l3_proto_idx pkt OR push_bit 8 (l4_proto_idx pkt) OR
     push_bit 5 (source_vlan_count pkt) OR
     (if rv < AL_ETH_REV_ID_4
      then push_bit 22 (vlan_mod_add_count pkt) OR push_bit 24 (vlan_mod_del_count pkt) OR
        push_bit 26 (vlan_mod_v1_ether_sel pkt) OR push_bit 28 (vlan_mod_v1_vid_sel pkt) OR
        push_bit 30 (vlan_mod_v1_pbits_sel pkt)
      else push_bit 28 (gen_crc_checksum_en_mask pkt) OR push_bit 22 (protocol_number pkt)) OR
     push_bit 18 (tunnel_mode pkt) OR (if outer_l3_proto_idx pkt = 8 then push_bit 20 1 else 0)"

text \<open>The loop over the buffers; \<open>first\<close> is the first round, \<open>flags\<close> the flags of the next descriptor.\<close>

fun tx_bufs ::
    "'u udma_ops \<Rightarrow> al_eth_pkt \<Rightarrow> bool \<Rightarrow> u32 \<Rightarrow> (u64 \<times> u32) list \<Rightarrow> al_udma_q \<Rightarrow> 'u \<Rightarrow> 'u \<times> al_udma_q" where
  "tx_bufs ops pkt first flags [] q u = (u, q)"
| "tx_bufs ops pkt first flags ((addr, len) # bufs) q u =
     (case al_udma_desc_get q of (i, q1) \<Rightarrow> case al_udma_ring_id_get q1 of (ring_id, q2) \<Rightarrow>
       let flags_len = flags OR push_bit 24 ring_id OR (if bufs = [] then AL_M2S_DESC_LAST else 0) OR (len AND 0xFFFF);
           u1 = uo_set_desc ops i LEN_CTRL (ucast flags_len) u;
           u2 = (if first then uo_set_desc ops i META_CTRL (ucast (tx_meta_ctrl (adapter_rev_id q) pkt)) u1 else u1);
           u3 = uo_set_desc ops i BUF_PTR (addr OR push_bit 48 (ucast (tgtid pkt))) u2
       in tx_bufs ops pkt False ((flags AND AL_M2S_DESC_NO_SNOOP_H) OR AL_M2S_DESC_CONCAT) bufs q2 u3)"

text \<open>The number of descriptors is returned, or 0.\<close>

definition al_eth_tx_pkt_prepare ::
    "'u udma_ops \<Rightarrow> al_udma_q \<Rightarrow> al_eth_pkt \<Rightarrow> 'u \<Rightarrow> ('u \<times> al_udma_q \<times> nat) option" where
  "al_eth_tx_pkt_prepare ops q pkt u =
     (let tx_descs = length (pkt_bufs pkt);
          flags = AL_M2S_DESC_FIRST OR AL_M2S_DESC_CONCAT OR (pkt_flags pkt AND AL_M2S_DESC_INT_EN) in
      if unat (al_udma_available_get q) < tx_descs then Some (u, q, 0)
      else if pkt_flags pkt AND 0x00024000 = 0x00020000 \<or> pkt_flags pkt AND 0x00200080 = 0x00200080 then None
      else (case tx_bufs ops pkt True (flags OR (pkt_flags pkt AND AL_ETH_TX_PKT_UDMA_FLAGS)) (pkt_bufs pkt) q u of
        (u1, q1) \<Rightarrow> Some (u1, q1, tx_descs)))"

definition al_eth_tx_dma_action :: "'u udma_ops \<Rightarrow> al_udma_q \<Rightarrow> u32 \<Rightarrow> 'u \<Rightarrow> 'u option" where
  "al_eth_tx_dma_action ops q tx_descs u = al_udma_desc_action_add ops q tx_descs u"

definition al_eth_comp_tx_get :: "'u udma_ops \<Rightarrow> al_udma_q \<Rightarrow> 'u \<Rightarrow> 'u \<times> al_udma_q \<times> u32" where
  "al_eth_comp_tx_get ops q u = (case al_udma_cdesc_get_all ops q u of
     (u1, q1, rc) \<Rightarrow> if rc \<noteq> 0 then (u1, al_udma_cdesc_ack q1 rc, rc) else (u1, q1, rc))"

subsection \<open>Reception\<close>

text \<open>A buffer, and a second one for the header if the flags say so.\<close>

definition al_eth_rx_buffer_add ::
    "'u udma_ops \<Rightarrow> bool \<Rightarrow> al_udma_q \<Rightarrow> u64 \<times> u32 \<Rightarrow> u32 \<Rightarrow> (u64 \<times> u32) option \<Rightarrow> 'u \<Rightarrow> ('u \<times> al_udma_q \<times> int) option" where
  "al_eth_rx_buffer_add ops rev2 q buf flags header_buf u =
     (let tgtid = push_bit 48 (ucast (flags AND 0xFFFF)) :: u64; flags_len = flags AND NOT 0xFFFF in
      if al_udma_available_get q < 1 then Some (u, q, - ENOSPC)
      else (case al_udma_desc_get q of (i, q1) \<Rightarrow> case al_udma_ring_id_get q1 of (ring_id, q2) \<Rightarrow>
        let flags_len = flags_len OR push_bit 24 ring_id OR (snd buf AND 0xFFFF) in do {
          (u1, flags_len) \<leftarrow> (if flags AND 0x80000000 \<noteq> 0
             then (case header_buf of
               None \<Rightarrow> None
             | Some hb \<Rightarrow>
                 if \<not> (rev2 \<or> AL_ADDR_HIGH (fst buf) = AL_ADDR_HIGH (fst hb)) then None
                 else Some (uo_set_desc ops i META_CTRL (ucast (AL_ADDR_LOW (fst hb))) u,
                        flags_len OR (push_bit 16 (drop_bit 6 (snd hb)) AND 0x3FFF0000)))
             else Some (u, flags_len));
          Some (uo_set_desc ops i BUF_PTR (fst buf OR tgtid) (uo_set_desc ops i LEN_CTRL (ucast flags_len) u1), q2, 0)
        }))"

definition al_eth_rx_buffer_action :: "'u udma_ops \<Rightarrow> al_udma_q \<Rightarrow> u32 \<Rightarrow> 'u \<Rightarrow> 'u option" where
  "al_eth_rx_buffer_action ops q descs_num u = al_udma_desc_action_add ops q descs_num u"

record al_eth_rx_pkt =
  rx_lens :: "u32 list"
  rx_flags :: u32
  rx_flags_ex :: u32
  rx_header_len :: u32
  rx_l3_proto_idx :: u32
  rx_l4_proto_idx :: u32
  rx_protocol_number :: u32
  rx_hash :: u32
  rx_l3_offset :: u16

definition AL_ETH_PKT_MAX_BUFS :: nat where "AL_ETH_PKT_MAX_BUFS = 19"
definition AL_UDMA_CDESC_BUF1_USED :: u32 where "AL_UDMA_CDESC_BUF1_USED = 0x40000000"
definition AL_UDMA_CDESC_BUF2_USED :: u32 where "AL_UDMA_CDESC_BUF2_USED = 0x80000000"

lemmas cdesc_consts = AL_ETH_PKT_MAX_BUFS_def AL_UDMA_CDESC_BUF1_USED_def AL_UDMA_CDESC_BUF2_USED_def

text \<open>The lengths of the buffers; \<open>j\<close> counts the descriptors left.\<close>

fun rx_lengths :: "'u udma_ops \<Rightarrow> al_udma_q \<Rightarrow> nat \<Rightarrow> nat \<Rightarrow> nat \<Rightarrow> 'u \<Rightarrow> 'u \<times> u32 list \<times> u32" where
  "rx_lengths ops q cdesc i 0 u = (u, [], 0)"
| "rx_lengths ops q cdesc i (Suc j) u =
     (let k = al_cdesc_next q cdesc i in
      case uo_cdesc ops k 1 u of (u1, buf1_len) \<Rightarrow>
      case (if i = 0
        then (case uo_cdesc ops k 2 u1 of (u2, w2) \<Rightarrow>
          if w2 AND AL_UDMA_CDESC_BUF2_USED \<noteq> 0
          then (case uo_cdesc ops k 2 u2 of (u3, buf2_len) \<Rightarrow> (u3, drop_bit 16 (buf2_len AND 0x3FFF0000)))
          else (u2, 0))
        else (u1, 0)) of (u4, header_len) \<Rightarrow>
      case uo_cdesc ops k 0 u4 of (u5, ctrl) \<Rightarrow>
      case rx_lengths ops q cdesc (Suc i) j u5 of (u6, lens, _) \<Rightarrow>
        (u6, (if ctrl AND AL_UDMA_CDESC_BUF1_USED \<noteq> 0 then buf1_len AND 0xFFFF else 0) # lens, header_len))"

definition al_eth_pkt_rx ::
    "'u udma_ops \<Rightarrow> al_udma_q \<Rightarrow> 'u \<Rightarrow> ('u \<times> al_udma_q \<times> u32 \<times> al_eth_rx_pkt option) option" where
  "al_eth_pkt_rx ops q u = do {
     (u1, q1, rc, cdesc) \<leftarrow> al_udma_cdesc_packet_get ops q u;
     if rc = 0 then Some (u1, q1, 0, None)
     else if AL_ETH_PKT_MAX_BUFS < unat rc then None
     else (case rx_lengths ops q1 cdesc 0 (unat rc) u1 of (u2, lens, header_len) \<Rightarrow>
       let k = al_cdesc_next q1 cdesc (unat rc - 1) in
       case uo_cdesc ops k 0 u2 of (u3, flags0) \<Rightarrow>
       case uo_cdesc ops k 3 u3 of (u4, flags_ex) \<Rightarrow>
       let flags = (if adapter_rev_id q1 = AL_ETH_REV_ID_4 \<and> flags0 AND 0x1000 \<noteq> 0 then flags0 AND NOT 0x10000 else flags0) in
       case (if adapter_rev_id q1 \<ge> AL_ETH_REV_ID_4
         then (case uo_cdesc ops k 6 u4 of (u5, w6) \<Rightarrow> (u5, drop_bit 16 (w6 AND 0xFFFF0000), flags AND 0x3F, 0, 0))
         else (case uo_cdesc ops k 1 u4 of (u5, w1) \<Rightarrow>
           (u5, drop_bit 16 (w1 AND 0xFFFF0000), 0, flags AND 0x1F, drop_bit 8 flags AND 0x1F))) of
         (u6, hash, proto, l3, l4) \<Rightarrow>
       case uo_cdesc ops k 2 u6 of (u7, w2) \<Rightarrow>
         Some (u7, al_udma_cdesc_ack q1 rc, rc, Some \<lparr>rx_lens = lens, rx_flags = flags, rx_flags_ex = flags_ex,
           rx_header_len = header_len, rx_l3_proto_idx = l3, rx_l4_proto_idx = l4, rx_protocol_number = proto,
           rx_hash = hash, rx_l3_offset = ucast (drop_bit 9 (w2 AND 0xFE00))\<rparr>))
   }"

end
