(* ===== verification/AlEthNext.thy ===== *)
theory AlEthNext
  imports AlEthQueue
begin

text \<open>
  The network driver \<open>Drivers/AlEthNextDxe/AlEthNextDxe.c\<close>: bringing the hardware up and down, and the
  functions of the simple network protocol. The two DMA queues are those of theory \<open>Udma\<close>; the register
  sequences of the HAL for the adapter, the MAC and the MDIO bus are parameters, as is the page allocator; what
  the driver logs and the maintenance of the caches are left out.
  \<^const>\<open>None\<close> is a failed assertion or a use of an uninitialised variable.
\<close>

unbundle bit_operations_syntax

subsection \<open>The hardware as the driver sees it\<close>

text \<open>
  The queues, memory, the registers of the MAC, the EC's address register, pages, and the calls of the HAL
  with their results; initializing the adapter also gives the number of queues it has.
\<close>

record 'u eth_hw =
  eh_tx :: "'u udma_ops"
  eh_rx :: "'u udma_ops"
  eh_load :: "u64 \<Rightarrow> nat \<Rightarrow> 'u \<Rightarrow> bytes"
  eh_store :: "u64 \<Rightarrow> bytes \<Rightarrow> 'u \<Rightarrow> 'u"
  eh_mac_read :: "u32 \<Rightarrow> 'u \<Rightarrow> 'u \<times> u32"
  eh_mac_write :: "u32 \<Rightarrow> u32 \<Rightarrow> 'u \<Rightarrow> 'u"
  eh_mac_addr_store :: "bytes \<Rightarrow> 'u \<Rightarrow> 'u"
  eh_alloc :: "nat \<Rightarrow> 'u \<Rightarrow> 'u \<times> efi_status \<times> u64"
  eh_free :: "u64 \<Rightarrow> nat \<Rightarrow> 'u \<Rightarrow> 'u"
  eh_adapter_init :: "'u \<Rightarrow> 'u \<times> int \<times> u8"
  eh_coal_config :: "'u \<Rightarrow> 'u \<times> int"
  eh_mac_config :: "'u \<Rightarrow> 'u \<times> int"
  eh_rx_pkt_limit :: "u32 \<Rightarrow> u32 \<Rightarrow> 'u \<Rightarrow> 'u"
  eh_mdio_config :: "'u \<Rightarrow> 'u \<times> int"
  eh_mdio_read :: "u32 \<Rightarrow> u32 \<Rightarrow> 'u \<Rightarrow> 'u \<times> u16 option"
  eh_mdio_write :: "u32 \<Rightarrow> u32 \<Rightarrow> u16 \<Rightarrow> 'u \<Rightarrow> 'u"
  eh_mac_start :: "'u \<Rightarrow> 'u"
  eh_mac_stop :: "'u \<Rightarrow> 'u"
  eh_adapter_stop :: "'u \<Rightarrow> 'u"
  eh_delay :: "nat \<Rightarrow> 'u \<Rightarrow> 'u"

definition AL_ETH_NUM_RX_DESC :: u32 where "AL_ETH_NUM_RX_DESC = 32"
definition AL_ETH_RX_BUF_SIZE :: u32 where "AL_ETH_RX_BUF_SIZE = 2048"
definition AL_ETH_MAX_PKT_SIZE :: u32 where "AL_ETH_MAX_PKT_SIZE = 1518"
definition AL_ETH_DESCS_PER_Q :: u32 where "AL_ETH_DESCS_PER_Q = 64"
definition AL_ETH_Q_DESCS_SIZE :: u64 where "AL_ETH_Q_DESCS_SIZE = 1024"
definition MAC_GEN_RGMII_STAT :: u32 where "MAC_GEN_RGMII_STAT = 0x91C"
definition RGMII_STAT_LINK :: u32 where "RGMII_STAT_LINK = 0x10"
definition MAC_1G_CMD_CFG :: u32 where "MAC_1G_CMD_CFG = 8"
definition MAC_1G_CMD_PROMIS_EN :: u32 where "MAC_1G_CMD_PROMIS_EN = 0x10"

lemmas eth_consts = AL_ETH_NUM_RX_DESC_def AL_ETH_RX_BUF_SIZE_def AL_ETH_MAX_PKT_SIZE_def AL_ETH_DESCS_PER_Q_def
  AL_ETH_Q_DESCS_SIZE_def MAC_GEN_RGMII_STAT_def RGMII_STAT_LINK_def MAC_1G_CMD_CFG_def MAC_1G_CMD_PROMIS_EN_def

datatype snp_state = EfiSimpleNetworkStopped | EfiSimpleNetworkStarted | EfiSimpleNetworkInitialized

text \<open>
  The context. A pointer is an address, 0 being NULL; \<open>TxDmaQ\<close> and \<open>RxDmaQ\<close> say whether the pointers to the
  queues of the adapter are set. The memory of the rings and the buffers has the same physical addresses.
\<close>

record eth_ctx =
  tx_q :: al_udma_q
  rx_q :: al_udma_q
  TxDmaQ :: bool
  RxDmaQ :: bool
  DescRing :: u64
  RxBuffers :: "u64 list"
  RxBuffersPhys :: "u64 list"
  RxBufTailIdx :: u32
  TxBufInFlight :: u64
  PhyAddr :: u32
  State :: snp_state
  CurrentAddress :: bytes
  PermanentAddress :: bytes
  ReceiveFilterSetting :: u32
  MediaPresent :: bool
  TxGoodFrames :: u64
  RxGoodFrames :: u64

definition MediaHeaderSize :: u64 where "MediaHeaderSize = 14"

subsection \<open>The PHY\<close>

text \<open>The scan for the first address that answers.\<close>

fun phy_scan :: "'u eth_hw \<Rightarrow> u32 list \<Rightarrow> 'u \<Rightarrow> 'u \<times> u32" where
  "phy_scan hw [] u = (u, 0xFF)"
| "phy_scan hw (Addr # Addrs) u = (case eh_mdio_read hw Addr 2 u of
     (u1, None) \<Rightarrow> phy_scan hw Addrs u1
   | (u1, Some PhyId1) \<Rightarrow> (case eh_mdio_read hw Addr 3 u1 of
       (u2, None) \<Rightarrow> phy_scan hw Addrs u2
     | (u2, Some PhyId2) \<Rightarrow>
         if PhyId1 \<noteq> 0xFFFF \<and> PhyId2 \<noteq> 0xFFFF \<and> PhyId1 \<noteq> 0 then (u2, Addr) else phy_scan hw Addrs u2))"

text \<open>The registers that are read for the log.\<close>

definition phy_dump :: "'u eth_hw \<Rightarrow> u32 \<Rightarrow> 'u \<Rightarrow> 'u" where
  "phy_dump hw Addr u =
     (let u1 = fold (\<lambda>r u. fst (eh_mdio_read hw Addr r u)) (map of_nat [0..<32]) u
      in fold (\<lambda>d u. fst (eh_mdio_read hw Addr 0x1E (eh_mdio_write hw Addr 0x1D d u))) [0x00, 0x05, 0x0B, 0x1F] u1)"

text \<open>
  The wait for the end of the reset, with the register as it was read last; a read that fails leaves it,
  at first without a value.
\<close>

fun phy_reset_wait :: "'u eth_hw \<Rightarrow> u32 \<Rightarrow> nat \<Rightarrow> u16 option \<Rightarrow> 'u \<Rightarrow> ('u \<times> bool) option" where
  "phy_reset_wait hw Addr 0 Bmcr u = Some (u, False)"
| "phy_reset_wait hw Addr (Suc n) Bmcr u = (case eh_mdio_read hw Addr 0 (eh_delay hw 1000 u) of
     (u1, r) \<Rightarrow> case (if r = None then Bmcr else r) of
       None \<Rightarrow> None
     | Some v \<Rightarrow> if v AND 0x8000 = 0 then Some (u1, True) else phy_reset_wait hw Addr n (Some v) u1)"

definition AlEthPhyInit :: "'u eth_hw \<Rightarrow> eth_ctx \<Rightarrow> 'u \<Rightarrow> ('u \<times> eth_ctx \<times> efi_status) option" where
  "AlEthPhyInit hw Ctx u = (case phy_scan hw (map of_nat [0..<32]) u of (u1, A) \<Rightarrow>
     let Ctx1 = Ctx\<lparr>PhyAddr := A\<rparr> in
     if A = 0xFF then Some (u1, Ctx1, EFI_NOT_FOUND)
     else (case eh_mdio_read hw A 0x1E (eh_mdio_write hw A 0x1D 5 (phy_dump hw A u1)) of
         (u2, None) \<Rightarrow> None
       | (u2, Some DbgVal) \<Rightarrow> do {
           (u3, ok) \<leftarrow> phy_reset_wait hw A 1000 None
             (eh_mdio_write hw A 0 0x8000 (eh_mdio_write hw A 0x1E (DbgVal OR 0x100) u2));
           if \<not> ok then Some (u3, Ctx1, EFI_TIMEOUT)
           else Some (eh_mdio_write hw A 0 0x1200 (eh_mdio_write hw A 9 0x0200 (eh_mdio_write hw A 4 0x01E1 u3)),
             Ctx1, EFI_SUCCESS)
         }))"

subsection \<open>Start-up\<close>

text \<open>A queue of an adapter that was just cleared.\<close>

definition zero_q :: "bool \<Rightarrow> al_udma_q" where
  "zero_q tx = \<lparr>q_tx = tx, size_mask = 0, desc_base_ptr = 0, next_desc_idx = 0, desc_ring_id = 0, cdesc_base_ptr = 0,
     cdesc_size = 0, next_cdesc_idx = 0, comp_head_idx = 0, comp_head_ptr = 0, pkt_crnt_descs = 0, comp_ring_id = 0,
     desc_phy_base = 0, cdesc_phy_base = 0, q_flags = 0, q_size = 0, q_status = AL_QUEUE_DISABLED, adapter_rev_id = 0\<rparr>"

text \<open>The queue 0 of one of the engines.\<close>

definition al_eth_queue_config ::
    "'u eth_hw \<Rightarrow> u8 \<Rightarrow> al_udma_q_params \<Rightarrow> al_udma_q \<Rightarrow> 'u \<Rightarrow> ('u \<times> al_udma_q \<times> int) option" where
  "al_eth_queue_config hw num p q u = do {
     (u1, q1, rc) \<leftarrow> al_udma_q_init (if q_tx q then eh_tx hw else eh_rx hw) num 0 (p\<lparr>qp_adapter_rev_id := 2\<rparr>) q u;
     if rc \<noteq> 0 then Some (u1, q1, rc)
     else if q_tx q then Some (u1, q1, rc)
     else (case eh_coal_config hw u1 of (u2, rc) \<Rightarrow>
       if qp_cdesc_size p \<le> 16 then Some (u2, q1, rc) else None)
   }"

definition queue_params :: "u64 \<Rightarrow> u64 \<Rightarrow> u64 \<Rightarrow> al_udma_q_params" where
  "queue_params ring sdesc cdesc = \<lparr>qp_size = AL_ETH_DESCS_PER_Q, qp_desc_base = ring + sdesc, qp_desc_phy_base = ring + sdesc,
     qp_cdesc_base = ring + cdesc, qp_cdesc_phy_base = ring + cdesc, qp_cdesc_size = 16, qp_adapter_rev_id = 0\<rparr>"

text \<open>The buffers in order, with the status; those of before a failure stay allocated.\<close>

fun alloc_rx_buffers :: "'u eth_hw \<Rightarrow> nat list \<Rightarrow> eth_ctx \<Rightarrow> 'u \<Rightarrow> 'u \<times> eth_ctx \<times> efi_status" where
  "alloc_rx_buffers hw [] Ctx u = (u, Ctx, EFI_SUCCESS)"
| "alloc_rx_buffers hw (Idx # Idxs) Ctx u = (case eh_alloc hw 1 u of (u1, Status, BufPages) \<Rightarrow>
     if EFI_ERROR Status then (u1, Ctx, Status)
     else alloc_rx_buffers hw Idxs (Ctx\<lparr>RxBuffers := (RxBuffers Ctx)[Idx := BufPages],
         RxBuffersPhys := (RxBuffersPhys Ctx)[Idx := BufPages]\<rparr>)
       (eh_store hw BufPages (replicate (unat AL_ETH_RX_BUF_SIZE) 0) u1))"

text \<open>What is left over from the boot loader: a temporary adapter, stopped and its queues reset.\<close>

definition stale_cleanup :: "'u eth_hw \<Rightarrow> 'u \<Rightarrow> 'u option" where
  "stale_cleanup hw u = (case eh_adapter_init hw u of (u1, _, num) \<Rightarrow>
     if num = 0 then None
     else (case al_udma_q_reset (eh_tx hw) (zero_q True) (eh_delay hw 10 (eh_mac_stop hw u1)) of (u2, _, _) \<Rightarrow>
       case al_udma_q_reset (eh_rx hw) (zero_q False) u2 of (u3, _, _) \<Rightarrow> Some (eh_adapter_stop hw u3)))"

fun fill_rx_ring :: "'u eth_hw \<Rightarrow> nat list \<Rightarrow> eth_ctx \<Rightarrow> 'u \<Rightarrow> ('u \<times> eth_ctx \<times> int) option" where
  "fill_rx_ring hw [] Ctx u = Some (u, Ctx, 0)"
| "fill_rx_ring hw (Idx # Idxs) Ctx u = do {
     (u1, q, Err) \<leftarrow> al_eth_rx_buffer_add (eh_rx hw) True (rx_q Ctx) (RxBuffersPhys Ctx ! Idx, AL_ETH_RX_BUF_SIZE)
       AL_M2S_DESC_INT_EN None u;
     if Err \<noteq> 0 then Some (u1, Ctx\<lparr>rx_q := q\<rparr>, Err) else fill_rx_ring hw Idxs (Ctx\<lparr>rx_q := q\<rparr>) u1
   }"

definition rx_indices :: "nat list" where "rx_indices = [0..<unat AL_ETH_NUM_RX_DESC]"

text \<open>The steps from the PHY on.\<close>

definition hw_start :: "'u eth_hw \<Rightarrow> eth_ctx \<Rightarrow> 'u \<Rightarrow> ('u \<times> eth_ctx \<times> efi_status) option" where
  "hw_start hw Ctx u = do {
     (u1, Ctx1, _) \<leftarrow> AlEthPhyInit hw Ctx u;
     (u2, Ctx2, Err) \<leftarrow> fill_rx_ring hw rx_indices Ctx1 (eh_mac_addr_store hw (CurrentAddress Ctx1) u1);
     if Err \<noteq> 0 then Some (u2, Ctx2, EFI_DEVICE_ERROR)
     else do {
       u3 \<leftarrow> al_eth_rx_buffer_action (eh_rx hw) (rx_q Ctx2) AL_ETH_NUM_RX_DESC u2;
       let (u4, RgmiiStat) = eh_mac_read hw MAC_GEN_RGMII_STAT (eh_mac_start hw u3);
       Some (u4, Ctx2\<lparr>RxBufTailIdx := 0, MediaPresent := (RgmiiStat AND RGMII_STAT_LINK \<noteq> 0), TxBufInFlight := 0\<rparr>,
         EFI_SUCCESS)
     }
   }"

definition AlEthHwInitialize :: "'u eth_hw \<Rightarrow> eth_ctx \<Rightarrow> 'u \<Rightarrow> ('u \<times> eth_ctx \<times> efi_status) option" where
  "AlEthHwInitialize hw Ctx u = (case eh_alloc hw 1 u of (u1, Status, DescPages) \<Rightarrow>
     if EFI_ERROR Status then Some (u1, Ctx, Status)
     else (case alloc_rx_buffers hw rx_indices (Ctx\<lparr>DescRing := DescPages\<rparr>)
         (eh_store hw DescPages (replicate (4 * unat AL_ETH_Q_DESCS_SIZE) 0) u1) of (u2, Ctx1, Status) \<Rightarrow>
       if EFI_ERROR Status then Some (u2, Ctx1, Status)
       else do {
         u3 \<leftarrow> stale_cleanup hw u2;
         let (u4, Err, num) = eh_adapter_init hw u3;
         let Ctx2 = Ctx1\<lparr>tx_q := zero_q True, rx_q := zero_q False\<rparr>;
         if Err \<noteq> 0 then Some (u4, Ctx2, EFI_DEVICE_ERROR)
         else do {
           (u5, txq, Err) \<leftarrow> al_eth_queue_config hw num (queue_params DescPages 0 AL_ETH_Q_DESCS_SIZE) (tx_q Ctx2) u4;
           let Ctx3 = Ctx2\<lparr>tx_q := txq\<rparr>;
           if Err \<noteq> 0 then Some (u5, Ctx3, EFI_DEVICE_ERROR)
           else do {
             (u6, rxq, Err) \<leftarrow> al_eth_queue_config hw num
               (queue_params DescPages (2 * AL_ETH_Q_DESCS_SIZE) (3 * AL_ETH_Q_DESCS_SIZE)) (rx_q Ctx3) u5;
             let Ctx4 = Ctx3\<lparr>rx_q := rxq\<rparr>;
             if Err \<noteq> 0 then Some (u6, Ctx4, EFI_DEVICE_ERROR)
             else (case eh_mac_config hw u6 of (u7, Err) \<Rightarrow>
               let Ctx5 = Ctx4\<lparr>TxDmaQ := True, RxDmaQ := True\<rparr> in
               if Err \<noteq> 0 then Some (u7, Ctx5, EFI_DEVICE_ERROR)
               else (case eh_mdio_config hw (eh_rx_pkt_limit hw 30 AL_ETH_MAX_PKT_SIZE u7) of (u8, Err) \<Rightarrow>
                 if Err \<noteq> 0 then Some (u8, Ctx5, EFI_DEVICE_ERROR) else hw_start hw Ctx5 u8))
           }
         }
       }))"

text \<open>The buffers that are allocated are freed.\<close>

fun free_rx_buffers :: "'u eth_hw \<Rightarrow> nat list \<Rightarrow> eth_ctx \<Rightarrow> 'u \<Rightarrow> 'u \<times> eth_ctx" where
  "free_rx_buffers hw [] Ctx u = (u, Ctx)"
| "free_rx_buffers hw (Idx # Idxs) Ctx u =
     (if RxBuffers Ctx ! Idx \<noteq> 0
      then free_rx_buffers hw Idxs (Ctx\<lparr>RxBuffers := (RxBuffers Ctx)[Idx := 0]\<rparr>) (eh_free hw (RxBuffersPhys Ctx ! Idx) 1 u)
      else free_rx_buffers hw Idxs Ctx u)"

definition AlEthHwShutdown :: "'u eth_hw \<Rightarrow> eth_ctx \<Rightarrow> 'u \<Rightarrow> 'u \<times> eth_ctx" where
  "AlEthHwShutdown hw Ctx u =
     (case (if TxDmaQ Ctx then al_udma_q_reset (eh_tx hw) (tx_q Ctx) (eh_delay hw 10 (eh_mac_stop hw u))
        else (eh_delay hw 10 (eh_mac_stop hw u), tx_q Ctx, 0)) of (u1, txq, _) \<Rightarrow>
      case (if RxDmaQ Ctx then al_udma_q_reset (eh_rx hw) (rx_q Ctx) u1 else (u1, rx_q Ctx, 0)) of (u2, rxq, _) \<Rightarrow>
      case free_rx_buffers hw rx_indices (Ctx\<lparr>tx_q := txq, rx_q := rxq\<rparr>) (eh_delay hw 100 (eh_adapter_stop hw u2)) of
        (u3, Ctx1) \<Rightarrow>
          if DescRing Ctx1 \<noteq> 0 then (eh_free hw (DescRing Ctx1) 1 u3, Ctx1\<lparr>DescRing := 0\<rparr>) else (u3, Ctx1))"

definition AlEthNextExitBootServices :: "'u eth_hw \<Rightarrow> 'u \<Rightarrow> 'u" where
  "AlEthNextExitBootServices hw u = eh_adapter_stop hw (eh_mac_stop hw u)"

subsection \<open>The simple network protocol\<close>

definition AlEthNextSnpStart :: "eth_ctx \<Rightarrow> eth_ctx \<times> efi_status" where
  "AlEthNextSnpStart Ctx =
     (if State Ctx = EfiSimpleNetworkStarted \<or> State Ctx = EfiSimpleNetworkInitialized then (Ctx, EFI_ALREADY_STARTED)
      else if State Ctx \<noteq> EfiSimpleNetworkStopped then (Ctx, EFI_DEVICE_ERROR)
      else (Ctx\<lparr>State := EfiSimpleNetworkStarted\<rparr>, EFI_SUCCESS))"

definition AlEthNextSnpStop :: "eth_ctx \<Rightarrow> eth_ctx \<times> efi_status" where
  "AlEthNextSnpStop Ctx =
     (if State Ctx = EfiSimpleNetworkStopped then (Ctx, EFI_NOT_STARTED)
      else (Ctx\<lparr>State := EfiSimpleNetworkStopped\<rparr>, EFI_SUCCESS))"

definition AlEthNextSnpInitialize :: "'u eth_hw \<Rightarrow> eth_ctx \<Rightarrow> 'u \<Rightarrow> ('u \<times> eth_ctx \<times> efi_status) option" where
  "AlEthNextSnpInitialize hw Ctx u =
     (if State Ctx = EfiSimpleNetworkStopped then Some (u, Ctx, EFI_NOT_STARTED)
      else if State Ctx = EfiSimpleNetworkInitialized then Some (u, Ctx, EFI_SUCCESS)
      else do {
        (u1, Ctx1, Status) \<leftarrow> AlEthHwInitialize hw Ctx u;
        if EFI_ERROR Status then Some (u1, Ctx1, Status)
        else Some (u1, Ctx1\<lparr>State := EfiSimpleNetworkInitialized\<rparr>, EFI_SUCCESS)
      })"

definition AlEthNextSnpReset :: "'u eth_hw \<Rightarrow> eth_ctx \<Rightarrow> 'u \<Rightarrow> ('u \<times> eth_ctx \<times> efi_status) option" where
  "AlEthNextSnpReset hw Ctx u =
     (if State Ctx = EfiSimpleNetworkStopped then Some (u, Ctx, EFI_NOT_STARTED)
      else if State Ctx \<noteq> EfiSimpleNetworkInitialized then Some (u, Ctx, EFI_DEVICE_ERROR)
      else (case AlEthHwShutdown hw Ctx u of (u1, Ctx1) \<Rightarrow> do {
        (u2, Ctx2, Status) \<leftarrow> AlEthHwInitialize hw Ctx1 u1;
        if EFI_ERROR Status then Some (u2, Ctx2\<lparr>State := EfiSimpleNetworkStarted\<rparr>, Status)
        else Some (u2, Ctx2, EFI_SUCCESS)
      }))"

definition AlEthNextSnpShutdown :: "'u eth_hw \<Rightarrow> eth_ctx \<Rightarrow> 'u \<Rightarrow> 'u \<times> eth_ctx \<times> efi_status" where
  "AlEthNextSnpShutdown hw Ctx u =
     (if State Ctx = EfiSimpleNetworkStopped then (u, Ctx, EFI_NOT_STARTED)
      else (case (if State Ctx = EfiSimpleNetworkInitialized then AlEthHwShutdown hw Ctx u else (u, Ctx)) of
        (u1, Ctx1) \<Rightarrow> (u1, Ctx1\<lparr>State := EfiSimpleNetworkStarted\<rparr>, EFI_SUCCESS)))"

text \<open>The status of the functions that need an initialized interface.\<close>

definition not_initialized :: "eth_ctx \<Rightarrow> efi_status" where
  "not_initialized Ctx = (if State Ctx = EfiSimpleNetworkStopped then EFI_NOT_STARTED else EFI_DEVICE_ERROR)"

definition EFI_SIMPLE_NETWORK_RECEIVE_PROMISCUOUS :: u32 where "EFI_SIMPLE_NETWORK_RECEIVE_PROMISCUOUS = 8"

definition AlEthNextSnpReceiveFilters :: "'u eth_hw \<Rightarrow> u32 \<Rightarrow> u32 \<Rightarrow> eth_ctx \<Rightarrow> 'u \<Rightarrow> 'u \<times> eth_ctx \<times> efi_status" where
  "AlEthNextSnpReceiveFilters hw Enable Disable Ctx u =
     (if State Ctx \<noteq> EfiSimpleNetworkInitialized then (u, Ctx, not_initialized Ctx)
      else let Filter = (ReceiveFilterSetting Ctx OR Enable) AND NOT Disable in
        (case eh_mac_read hw MAC_1G_CMD_CFG u of (u1, CmdCfg) \<Rightarrow>
          (eh_mac_write hw MAC_1G_CMD_CFG
             (if Filter AND EFI_SIMPLE_NETWORK_RECEIVE_PROMISCUOUS \<noteq> 0 then CmdCfg OR MAC_1G_CMD_PROMIS_EN
              else CmdCfg AND NOT MAC_1G_CMD_PROMIS_EN) u1,
           Ctx\<lparr>ReceiveFilterSetting := Filter\<rparr>, EFI_SUCCESS)))"

definition AlEthNextSnpStationAddress :: "'u eth_hw \<Rightarrow> bool \<Rightarrow> bytes option \<Rightarrow> eth_ctx \<Rightarrow> 'u \<Rightarrow> 'u \<times> eth_ctx \<times> efi_status" where
  "AlEthNextSnpStationAddress hw Reset New Ctx u =
     (if State Ctx \<noteq> EfiSimpleNetworkInitialized then (u, Ctx, not_initialized Ctx)
      else let Ctx1 = (if Reset then Ctx\<lparr>CurrentAddress := PermanentAddress Ctx\<rparr>
          else case New of None \<Rightarrow> Ctx | Some a \<Rightarrow> Ctx\<lparr>CurrentAddress := a\<rparr>)
        in (eh_mac_addr_store hw (CurrentAddress Ctx1) u, Ctx1, EFI_SUCCESS))"

text \<open>
  The counters of frames are the only fields of the table that are not zero; \<open>sz\<close> is the size of the
  table. The result has what is stored in the size and in the table.
\<close>

definition AlEthNextSnpStatistics ::
    "u64 \<Rightarrow> bool \<Rightarrow> u64 option \<Rightarrow> bool \<Rightarrow> eth_ctx \<Rightarrow> eth_ctx \<times> efi_status \<times> u64 option \<times> (u64 \<times> u64) option" where
  "AlEthNextSnpStatistics sz Reset StatisticsSize StatisticsTable Ctx =
     (if State Ctx \<noteq> EfiSimpleNetworkInitialized then (Ctx, not_initialized Ctx, StatisticsSize, None)
      else let Ctx1 = (if Reset then Ctx\<lparr>RxGoodFrames := 0, TxGoodFrames := 0\<rparr> else Ctx) in
        case StatisticsSize of
          None \<Rightarrow> (Ctx1, EFI_SUCCESS, None, None)
        | Some n \<Rightarrow>
            if \<not> StatisticsTable then (Ctx1, EFI_SUCCESS, Some n, None)
            else if n < sz then (Ctx1, EFI_BUFFER_TOO_SMALL, Some sz, None)
            else (Ctx1, EFI_SUCCESS, Some sz, Some (RxGoodFrames Ctx1, TxGoodFrames Ctx1)))"

text \<open>The first six bytes of the address.\<close>

definition AlEthNextSnpMCastIpToMac :: "bool \<Rightarrow> bytes \<Rightarrow> bytes" where
  "AlEthNextSnpMCastIpToMac IPv6 IP =
     (if IPv6 then [0x33, 0x33, IP ! 12, IP ! 13, IP ! 14, IP ! 15]
      else [0x01, 0x00, 0x5E, IP ! 1 AND 0x7F, IP ! 2, IP ! 3])"

definition AlEthNextSnpNvData :: "eth_ctx \<Rightarrow> eth_ctx \<times> efi_status" where
  "AlEthNextSnpNvData Ctx = (Ctx, EFI_UNSUPPORTED)"

text \<open>The last component is \<open>*TxBuf\<close>, if \<open>TxBuf\<close> is not NULL.\<close>

definition AlEthNextSnpGetStatus :: "'u eth_hw \<Rightarrow> bool \<Rightarrow> eth_ctx \<Rightarrow> 'u \<Rightarrow> 'u \<times> eth_ctx \<times> efi_status \<times> u64 option" where
  "AlEthNextSnpGetStatus hw TxBuf Ctx u =
     (if State Ctx \<noteq> EfiSimpleNetworkInitialized then (u, Ctx, not_initialized Ctx, None)
      else (case (if TxBuf \<and> TxBufInFlight Ctx \<noteq> 0
          then (case al_eth_comp_tx_get (eh_tx hw) (tx_q Ctx) u of (u1, q, CompDescs) \<Rightarrow>
            if 0 < CompDescs then (u1, Ctx\<lparr>tx_q := q, TxBufInFlight := 0\<rparr>, TxBufInFlight Ctx) else (u1, Ctx\<lparr>tx_q := q\<rparr>, 0))
          else (u, Ctx, 0)) of (u2, Ctx2, buf) \<Rightarrow>
        case eh_mac_read hw MAC_GEN_RGMII_STAT u2 of (u3, RgmiiStat) \<Rightarrow>
          (u3, Ctx2\<lparr>MediaPresent := (RgmiiStat AND RGMII_STAT_LINK \<noteq> 0)\<rparr>, EFI_SUCCESS, if TxBuf then Some buf else None)))"

text \<open>The header that is stored at the start of the buffer.\<close>

definition eth_header :: "bytes \<Rightarrow> bytes \<Rightarrow> u16 \<Rightarrow> bytes" where
  "eth_header Dest Src Protocol = take 6 Dest @ take 6 Src @ [ucast (drop_bit 8 Protocol), ucast (Protocol AND 0xFF)]"

definition AlEthNextSnpTransmit ::
    "'u eth_hw \<Rightarrow> u64 \<Rightarrow> u64 \<Rightarrow> u64 \<Rightarrow> bytes option \<Rightarrow> bytes option \<Rightarrow> u16 option \<Rightarrow> eth_ctx \<Rightarrow> 'u \<Rightarrow>
     ('u \<times> eth_ctx \<times> efi_status) option" where
  "AlEthNextSnpTransmit hw HeaderSize BufferSize Buffer SrcAddr DestAddr Protocol Ctx u =
     (if State Ctx \<noteq> EfiSimpleNetworkInitialized then Some (u, Ctx, not_initialized Ctx)
      else if Buffer = 0 then Some (u, Ctx, EFI_INVALID_PARAMETER)
      else if BufferSize < MediaHeaderSize then Some (u, Ctx, EFI_BUFFER_TOO_SMALL)
      else (case (if TxBufInFlight Ctx \<noteq> 0
          then (case al_eth_comp_tx_get (eh_tx hw) (tx_q Ctx) u of (u1, q, Comp) \<Rightarrow>
            if 0 < Comp then (u1, Ctx\<lparr>tx_q := q, TxBufInFlight := 0\<rparr>, True) else (u1, Ctx\<lparr>tx_q := q\<rparr>, False))
          else (u, Ctx, True)) of (u1, Ctx1, ready) \<Rightarrow>
        if \<not> ready then Some (u1, Ctx1, EFI_NOT_READY)
        else if HeaderSize \<noteq> 0 \<and> (HeaderSize \<noteq> MediaHeaderSize \<or> DestAddr = None \<or> Protocol = None)
        then Some (u1, Ctx1, EFI_INVALID_PARAMETER)
        else let u2 = (if HeaderSize \<noteq> 0
              then eh_store hw Buffer (eth_header (the DestAddr)
                (case SrcAddr of Some a \<Rightarrow> a | None \<Rightarrow> CurrentAddress Ctx1) (the Protocol)) u1
              else u1) in do {
            (u3, q, NumDescs) \<leftarrow> al_eth_tx_pkt_prepare (eh_tx hw) (tx_q Ctx1) (plain_pkt Buffer (ucast BufferSize)) u2;
            let Ctx2 = Ctx1\<lparr>tx_q := q\<rparr>;
            if NumDescs = 0 then Some (u3, Ctx2, EFI_DEVICE_ERROR)
            else do {
              u4 \<leftarrow> al_eth_tx_dma_action (eh_tx hw) q (of_nat NumDescs) u3;
              Some (u4, Ctx2\<lparr>TxBufInFlight := Buffer, TxGoodFrames := TxGoodFrames Ctx2 + 1\<rparr>, EFI_SUCCESS)
            }
          }))"

text \<open>What \<open>Receive\<close> stores: the frame in the buffer, and its header's fields.\<close>

record rx_out =
  ro_Buffer :: bytes
  ro_HeaderSize :: u64
  ro_DestAddr :: bytes
  ro_SrcAddr :: bytes
  ro_Protocol :: u16

definition rx_fields :: "bytes \<Rightarrow> rx_out" where
  "rx_fields PktData = \<lparr>ro_Buffer = PktData, ro_HeaderSize = MediaHeaderSize, ro_DestAddr = take 6 PktData,
     ro_SrcAddr = take 6 (drop 6 PktData),
     ro_Protocol = push_bit 8 (ucast (PktData ! 12)) OR ucast (PktData ! 13)\<rparr>"

text \<open>The code at both labels: the buffer goes back to the ring.\<close>

definition rx_resubmit :: "'u eth_hw \<Rightarrow> eth_ctx \<Rightarrow> 'u \<Rightarrow> ('u \<times> eth_ctx) option" where
  "rx_resubmit hw Ctx u = do {
     (u1, q, Err) \<leftarrow> al_eth_rx_buffer_add (eh_rx hw) True (rx_q Ctx)
       (RxBuffersPhys Ctx ! unat (RxBufTailIdx Ctx), AL_ETH_RX_BUF_SIZE) AL_M2S_DESC_INT_EN None u;
     u2 \<leftarrow> (if Err = 0 then al_eth_rx_buffer_action (eh_rx hw) q 1 u1 else Some u1);
     Some (u2, Ctx\<lparr>rx_q := q, RxBufTailIdx := (RxBufTailIdx Ctx + 1) mod AL_ETH_NUM_RX_DESC\<rparr>)
   }"

text \<open>
  \<open>Buffer\<close> tells whether the pointer is not NULL; the result has the new \<open>*BufferSize\<close> and what is stored
  through the other pointers, if anything, each unless it is NULL.
\<close>

definition AlEthNextSnpReceive ::
    "'u eth_hw \<Rightarrow> bool \<Rightarrow> u64 option \<Rightarrow> eth_ctx \<Rightarrow> 'u \<Rightarrow> ('u \<times> eth_ctx \<times> efi_status \<times> u64 option \<times> rx_out option) option" where
  "AlEthNextSnpReceive hw Buffer BufferSize Ctx u =
     (if State Ctx \<noteq> EfiSimpleNetworkInitialized then Some (u, Ctx, not_initialized Ctx, BufferSize, None)
      else case (Buffer, BufferSize) of
        (True, Some Size) \<Rightarrow> do {
          (u1, q, NumDescs, r) \<leftarrow> al_eth_pkt_rx (eh_rx hw) (rx_q Ctx) u;
          let Ctx1 = Ctx\<lparr>rx_q := q\<rparr>;
          case r of
            None \<Rightarrow> Some (u1, Ctx1, EFI_NOT_READY, BufferSize, None)
          | Some RxPkt \<Rightarrow>
              let PktLen = hd (rx_lens RxPkt) in
              if rx_flags RxPkt AND 0x80010000 \<noteq> 0 then do {
                (u2, Ctx2) \<leftarrow> rx_resubmit hw Ctx1 u1;
                Some (u2, Ctx2, EFI_NOT_READY, BufferSize, None)
              }
              else if PktLen < 14 \<or> PktLen > AL_ETH_RX_BUF_SIZE then do {
                (u2, Ctx2) \<leftarrow> rx_resubmit hw Ctx1 u1;
                Some (u2, Ctx2, EFI_SUCCESS, BufferSize, None)
              }
              else if Size < ucast PktLen then do {
                (u2, Ctx2) \<leftarrow> rx_resubmit hw Ctx1 u1;
                Some (u2, Ctx2, EFI_BUFFER_TOO_SMALL, Some (ucast PktLen), None)
              }
              else do {
                let PktData = eh_load hw (RxBuffers Ctx1 ! unat (RxBufTailIdx Ctx1)) (unat PktLen) u1;
                (u2, Ctx2) \<leftarrow> rx_resubmit hw (Ctx1\<lparr>RxGoodFrames := RxGoodFrames Ctx1 + 1\<rparr>) u1;
                Some (u2, Ctx2, EFI_SUCCESS, Some (ucast PktLen), Some (rx_fields PktData))
              }
        }
      | _ \<Rightarrow> Some (u, Ctx, EFI_INVALID_PARAMETER, BufferSize, None))"

text \<open>Whether the event is signalled.\<close>

definition AlEthNextWaitForPacket :: "'u eth_hw \<Rightarrow> eth_ctx \<Rightarrow> 'u \<Rightarrow> 'u \<times> bool" where
  "AlEthNextWaitForPacket hw Ctx u =
     (if State Ctx \<noteq> EfiSimpleNetworkInitialized then (u, False)
      else if RxDmaQ Ctx
      then (case uo_cdesc (eh_rx hw) (unat (next_cdesc_idx (rx_q Ctx))) 0 u of
        (u1, Flags) \<Rightarrow> (u1, al_udma_new_cdesc (rx_q Ctx) Flags))
      else (u, False))"

subsection \<open>The station address\<close>

text \<open>
  The address of the board information, if it is there, of the EC, or one made from the performance counter:
  the first that is not zero in its six bytes.
\<close>

definition mac_is_zero :: "bytes \<Rightarrow> bool" where
  "mac_is_zero a = (\<forall>i < 6. a ! i = 0)"

definition choose_mac :: "bytes option \<Rightarrow> bytes \<Rightarrow> u64 \<Rightarrow> bytes" where
  "choose_mac BoardInfo Ec Tsc =
     (let MacAddr = (case BoardInfo of Some a \<Rightarrow> a | None \<Rightarrow> replicate 32 0) in
      if \<not> mac_is_zero MacAddr then MacAddr
      else let MacAddr = take 6 Ec @ drop 6 MacAddr in
        if \<not> mac_is_zero MacAddr then MacAddr
        else [0x02, ucast (drop_bit 8 Tsc), ucast (drop_bit 16 Tsc), ucast (drop_bit 24 Tsc), ucast (drop_bit 32 Tsc),
          ucast (drop_bit 40 Tsc)] @ drop 6 MacAddr)"

text \<open>The context that is published.\<close>

definition initial_ctx :: "bytes \<Rightarrow> eth_ctx" where
  "initial_ctx MacAddr = \<lparr>tx_q = zero_q True, rx_q = zero_q False, TxDmaQ = False, RxDmaQ = False, DescRing = 0,
     RxBuffers = replicate 32 0, RxBuffersPhys = replicate 32 0, RxBufTailIdx = 0, TxBufInFlight = 0, PhyAddr = 0,
     State = EfiSimpleNetworkStopped, CurrentAddress = MacAddr, PermanentAddress = MacAddr, ReceiveFilterSetting = 5,
     MediaPresent = False, TxGoodFrames = 0, RxGoodFrames = 0\<rparr>"

end
