(* ===== verification/UdmaRing.thy ===== *)
theory UdmaRing
  imports Udma
begin

text \<open>
  What the indices and ring ids of a queue stand for: the numbers of descriptors submitted and acknowledged
  since its start, which only grow. The lemmas say what each function of theory \<open>Udma\<close> does to them.
\<close>

unbundle bit_operations_syntax

subsection \<open>Counters\<close>

text \<open>A ring of \<open>2 ^ k\<close> descriptors of which \<open>t\<close> were submitted and \<open>c\<close> acknowledged.\<close>

definition q_ring :: "nat \<Rightarrow> nat \<Rightarrow> nat \<Rightarrow> al_udma_q \<Rightarrow> bool" where
  "q_ring k c t q = (5 \<le> k \<and> k \<le> 16 \<and> unat (q_size q) = 2 ^ k \<and> size_mask q = mask k \<and>
     unat (next_desc_idx q) = t mod 2 ^ k \<and> unat (desc_ring_id q) = (1 + t div 2 ^ k) mod 4 \<and>
     unat (next_cdesc_idx q) = c mod 2 ^ k)"

text \<open>The completion ring was read up to the descriptor \<open>c\<close>.\<close>

definition q_comp :: "nat \<Rightarrow> nat \<Rightarrow> al_udma_q \<Rightarrow> bool" where
  "q_comp k c q = (comp_head_ptr q = c mod 2 ^ k \<and> unat (comp_ring_id q) = (1 + c div 2 ^ k) mod 4 \<and>
     pkt_crnt_descs q = 0 \<and> q_flags q AND AL_UDMA_Q_FLAGS_NO_COMP_UPDATE = 0)"

lemma unat_and_mask: "unat ((a :: 'a :: len word) AND mask n) = unat a mod 2 ^ n"
  by (simp only: take_bit_eq_mask [symmetric] unsigned_take_bit_eq take_bit_eq_mod [of n "unat a"])

lemma unat_and_3: "unat ((a :: u32) AND 3) = unat a mod 4"
  using unat_and_mask [of a 2] by (simp add: mask_eq_exp_minus_1)

lemma mod_pow_le:
  assumes "k \<le> 16"
  shows "(n :: nat) mod 2 ^ 16 mod 2 ^ k = n mod 2 ^ k"
  by (rule mod_mod_cancel) (rule le_imp_power_dvd [OF assms])

lemma ring_index_suc:
  fixes n :: nat
  shows "(n mod 2 ^ k + 1) mod 2 ^ k = Suc n mod 2 ^ k"
  by (simp add: mod_Suc_eq)

lemma ring_lap:
  fixes n :: nat
  assumes "0 < N"
  shows "Suc n div N = n div N + (if Suc n mod N = 0 then 1 else 0)"
  using assms by (simp add: div_Suc)

lemma available_get:
  assumes "q_ring k c t q" and "c \<le> t" and "t - c + 16 \<le> 2 ^ k"
  shows "unat (al_udma_available_get q) = 2 ^ k - 16 - (t - c)"
proof -
  let ?N = "(2 :: nat) ^ k"
  have k: "k \<le> 16" "unat (next_desc_idx q) = t mod ?N" "unat (next_cdesc_idx q) = c mod ?N" "size_mask q = mask k"
    using assms(1) by (simp_all add: q_ring_def)
  let ?w = "next_cdesc_idx q - (next_desc_idx q + 16)"
  have "?N dvd 2 ^ 16" using k(1) by (rule le_imp_power_dvd)
  then have dv: "int ?N dvd 2 ^ 16" by (metis of_nat_dvd_iff of_nat_power of_nat_numeral)
  have "uint ?w mod int ?N = (uint (next_cdesc_idx q) - (uint (next_desc_idx q) + 16)) mod int ?N"
    using dv by (simp add: uint_word_ariths mod_mod_cancel mod_diff_right_eq)
  also have "\<dots> = (int (c mod ?N) - (int (t mod ?N) + 16)) mod int ?N"
    by (simp only: k(2,3) [symmetric] uint_nat)
  also have "\<dots> = (int c - (int t + 16)) mod int ?N"
    by (simp add: zmod_int mod_diff_left_eq) (metis mod_add_left_eq mod_diff_right_eq)
  also have "\<dots> = (int c - (int t + 16) + int ?N) mod int ?N" by simp
  also have "int c - (int t + 16) + int ?N = int (?N - 16 - (t - c))" using assms(2,3) by simp
  finally have "int (unat ?w mod ?N) = int ((?N - 16 - (t - c)) mod ?N)"
    by (simp only: of_nat_mod uint_nat)
  then have "unat ?w mod ?N = ?N - 16 - (t - c)" by simp
  moreover have "unat (?w AND mask k) < 2 ^ 16" using unsigned_less [of "?w AND mask k"] by simp
  then have "unat (ucast (?w AND mask k) :: u32) = unat (?w AND mask k)"
    by (simp add: unsigned_ucast_eq take_bit_nat_eq_self)
  ultimately show ?thesis
    by (simp add: al_udma_available_get_def udma_consts k(4) unat_and_mask)
qed

text \<open>The next descriptor, with its ring id.\<close>

lemma desc_get_ring_id:
  assumes "q_ring k c t q" and "al_udma_desc_get q = (i, q1)" and "al_udma_ring_id_get q1 = (r, q2)"
  shows "i = t mod 2 ^ k" and "unat r = (1 + t div 2 ^ k) mod 4" and "q_ring k c (Suc t) q2"
    and "q2 = q\<lparr>next_desc_idx := next_desc_idx q2, desc_ring_id := desc_ring_id q2\<rparr>"
proof -
  let ?N = "(2 :: nat) ^ k"
  have k: "k \<le> 16" "5 \<le> k" "unat (next_desc_idx q) = t mod ?N" "size_mask q = mask k"
      "unat (desc_ring_id q) = (1 + t div ?N) mod 4"
    using assms(1) by (simp_all add: q_ring_def)
  show "i = t mod ?N" using assms(2) k(3) by (simp add: al_udma_desc_get_def)
  have q1: "q1 = q\<lparr>next_desc_idx := (next_desc_idx q + 1) AND mask k\<rparr>" using assms(2) k(4) by (simp add: al_udma_desc_get_def)
  have n: "unat (next_desc_idx q1) = Suc t mod ?N"
  proof -
    have "unat (next_desc_idx q + 1) = (t mod ?N + 1) mod 2 ^ 16" by (simp add: unat_word_ariths k(3))
    then show ?thesis using ring_index_suc [of t k] mod_pow_le [OF k(1), of "t mod ?N + 1"] by (simp add: q1 unat_and_mask)
  qed
  show "unat r = (1 + t div ?N) mod 4" using assms(3) k(5) by (simp add: al_udma_ring_id_get_def q1)
  have "unat ((desc_ring_id q + 1) AND 3) = (1 + (t div ?N + 1)) mod 4"
    by (simp add: unat_and_3 unat_word_ariths k(5) mod_simps mod_mod_cancel)
  moreover have "(next_desc_idx q1 = 0) = (Suc t mod ?N = 0)" using n by (metis unat_eq_zero)
  ultimately have "unat (desc_ring_id q2) = (1 + Suc t div ?N) mod 4"
    using assms(3) k(5) ring_lap [of ?N t] by (auto simp: al_udma_ring_id_get_def q1 udma_consts split: if_splits)
  then show "q_ring k c (Suc t) q2"
    using assms n by (auto simp: q_ring_def al_udma_ring_id_get_def q1 split: if_splits)
  show "q2 = q\<lparr>next_desc_idx := next_desc_idx q2, desc_ring_id := desc_ring_id q2\<rparr>"
    using assms(3) by (auto simp: al_udma_ring_id_get_def q1 split: if_splits)
qed

lemma cdesc_ack_ring:
  assumes "q_ring k c t q"
  shows "q_ring k (c + unat n) t (al_udma_cdesc_ack q n)"
proof -
  have k: "k \<le> 16" "size_mask q = mask k" "unat (next_cdesc_idx q) = c mod 2 ^ k" using assms by (simp_all add: q_ring_def)
  have "unat (ucast (ucast (next_cdesc_idx q) + n :: u32) :: u16) = (c mod 2 ^ k + unat n) mod 2 ^ 16"
  proof -
    have "unat (next_cdesc_idx q) < 2 ^ 16" using unsigned_less [of "next_cdesc_idx q"] by simp
    then have "unat (ucast (next_cdesc_idx q) :: u32) = c mod 2 ^ k"
      using k(3) by (simp add: unsigned_ucast_eq take_bit_nat_eq_self)
    then show ?thesis by (simp add: unsigned_ucast_eq unat_word_ariths take_bit_eq_mod mod_mod_cancel)
  qed
  then have "unat (ucast (ucast (next_cdesc_idx q) + n :: u32) AND size_mask q :: u16) = (c + unat n) mod 2 ^ k"
    using mod_pow_le [OF k(1)] by (simp add: k(2) unat_and_mask mod_simps)
  then show ?thesis using assms by (simp add: q_ring_def al_udma_cdesc_ack_def)
qed

subsection \<open>Completion\<close>

lemma end_cdesc_ring: "q_ring k c t q \<Longrightarrow> end_cdesc q = 2 ^ k - 1"
proof -
  assume "q_ring k c t q"
  then have "unat (q_size q) = 2 ^ k" by (simp add: q_ring_def)
  moreover from this have "q_size q \<noteq> 0" by (auto simp: unat_eq_zero)
  ultimately show ?thesis by (simp add: end_cdesc_def unat_minus_one)
qed

lemma next_update_ring:
  assumes "q_ring k c t q" and "unat (comp_ring_id q) = (1 + n div 2 ^ k) mod 4"
    and "al_cdesc_next_update q (n mod 2 ^ k) = (q1, j)"
  shows "j = Suc n mod 2 ^ k" and "unat (comp_ring_id q1) = (1 + Suc n div 2 ^ k) mod 4" and "q1 = q\<lparr>comp_ring_id := comp_ring_id q1\<rparr>"
proof -
  let ?N = "(2 :: nat) ^ k"
  have e: "end_cdesc q = ?N - 1" using assms(1) by (rule end_cdesc_ring)
  have "n mod ?N < ?N" by simp
  then have w: "(n mod ?N = ?N - 1) = (Suc n mod ?N = 0)" "Suc n mod ?N \<noteq> 0 \<longrightarrow> n mod ?N + 1 = Suc n mod ?N"
    by (auto simp: mod_Suc)
  show "j = Suc n mod ?N" using assms(3) e w by (auto simp: al_cdesc_next_update_def split: if_splits)
  have "unat ((comp_ring_id q + 1) AND 3) = (1 + (n div ?N + 1)) mod 4"
    by (simp add: unat_and_3 unat_word_ariths assms(2) mod_simps mod_mod_cancel)
  then show "unat (comp_ring_id q1) = (1 + Suc n div ?N) mod 4"
    using assms(2,3) e w(1) ring_lap [of ?N n] by (auto simp: al_cdesc_next_update_def udma_consts split: if_splits)
  show "q1 = q\<lparr>comp_ring_id := comp_ring_id q1\<rparr>"
    using assms(3) by (auto simp: al_cdesc_next_update_def split: if_splits)
qed

text \<open>The flags of a completion descriptor of a packet in a single buffer, in lap \<open>lap\<close> of the ring.\<close>

definition ring_bits :: "nat \<Rightarrow> u32" where
  "ring_bits lap = push_bit 24 (of_nat ((1 + lap) mod 4))"

lemma new_cdesc_lap:
  assumes "flags AND 0x03000000 = ring_bits lap" and "unat (comp_ring_id q) = (1 + lap') mod 4"
  shows "al_udma_new_cdesc q flags \<longleftrightarrow> lap mod 4 = lap' mod 4"
proof -
  have "(1 + lap) mod 4 < 4" by simp
  then have "(1 + lap) mod 4 \<in> {0, 1, 2, 3}" by auto
  then have "drop_bit 24 (ring_bits lap) = of_nat ((1 + lap) mod 4)" unfolding ring_bits_def by (elim insertE emptyE) simp_all
  moreover have "unat (of_nat ((1 + lap) mod 4) :: u32) = (1 + lap) mod 4" by (simp add: unat_of_nat)
  ultimately have "al_udma_new_cdesc q flags \<longleftrightarrow> (1 + lap) mod 4 = (1 + lap') mod 4"
    unfolding al_udma_new_cdesc_def assms(1) using assms(2) by (simp add: word_unat_eq_iff)
  also have "\<dots> \<longleftrightarrow> lap mod 4 = lap' mod 4" by (auto simp: mod_Suc split: if_splits)
  finally show ?thesis .
qed

lemma ring_bits_cases: "ring_bits lap \<in> {0, 0x01000000, 0x02000000, 0x03000000}"
proof -
  have "(1 + lap) mod 4 < 4" by simp
  then have "(1 + lap) mod 4 \<in> {0, 1, 2, 3}" by auto
  then show ?thesis unfolding ring_bits_def by (elim insertE emptyE) simp_all
qed

lemma low_bits_clear:
  assumes "m AND 0xFFFF = (0 :: u32)"
  shows "ucast (x :: u16) AND m = 0"
proof (rule bit_word_eqI)
  fix n assume "n < LENGTH(32)"
  have "\<not> (bit m n \<and> n < 16)" 
  proof
    assume n: "bit m n \<and> n < 16"
    then have "bit (m AND mask 16) n" by (simp add: bit_simps)
    moreover have "m AND mask 16 = 0" using assms by (simp add: mask_eq_exp_minus_1)
    ultimately show False by simp
  qed
  then show "bit (ucast x AND m) n = bit (0 :: u32) n" by (auto simp: bit_simps dest: bit_imp_le_length)
qed

lemma ucast_up_down: "ucast (ucast (x :: u32) :: u64) = x"
  by (rule bit_word_eqI) (simp add: bit_simps)

text \<open>The ring id of the next descriptor.\<close>

lemma ring_bits_id:
  assumes "unat r = (1 + lap) mod 4"
  shows "push_bit 24 r = ring_bits lap"
proof -
  have "of_nat (unat r) = (of_nat ((1 + lap) mod 4) :: u32)" using assms by (simp only:)
  then show ?thesis by (simp add: ring_bits_def)
qed

text \<open>The distance of two indices.\<close>

lemma ring_diff:
  fixes a b :: u16
  assumes "unat a = x mod 2 ^ k" and "unat b = y mod 2 ^ k" and "y \<le> x" and "x - y < 2 ^ k" and "k \<le> 16"
  shows "unat ((a - b) AND mask k) = x - y"
proof -
  let ?N = "(2 :: nat) ^ k"
  have "?N dvd 2 ^ 16" using assms(5) by (rule le_imp_power_dvd)
  then have dv: "int ?N dvd 2 ^ 16" by (metis of_nat_dvd_iff of_nat_power of_nat_numeral)
  have "uint (a - b) mod int ?N = (uint a - uint b) mod int ?N"
    using dv by (simp add: uint_word_ariths mod_mod_cancel)
  also have "\<dots> = (int (x mod ?N) - int (y mod ?N)) mod int ?N" by (simp only: assms(1,2) [symmetric] uint_nat)
  also have "\<dots> = (int x - int y) mod int ?N" by (simp add: zmod_int mod_diff_eq)
  also have "\<dots> = int ((x - y) mod ?N)" using assms(3) by (simp only: of_nat_diff of_nat_mod)
  also have "(x - y) mod ?N = x - y" using assms(4) by simp
  finally have "unat (a - b) mod ?N = x - y" by (metis of_nat_eq_iff of_nat_mod uint_nat)
  then show ?thesis by (simp add: unat_and_mask)
qed

end
