(* ===== verification/EthRx.thy ===== *)
theory EthRx
  imports AlEthNext UdmaRing
begin

text \<open>
  Reception. The contract of the receive engine, the locale \<open>rx_engine\<close>: it takes frames from the wire in
  order, each into the next buffer that was submitted, and completes them in the ring; it may advance at
  every access, and does so at every look if it is \<open>live\<close>. From the contract: \<open>Receive\<close> takes the frames out of the ring in order, each once.
\<close>

unbundle bit_operations_syntax

subsection \<open>The engine's view\<close>

record rx_frame =
  fr_data :: bytes
  fr_error :: bool
  fr_meta :: u16

text \<open>
  The numbers of descriptors completed and submitted, the buffer of each submitted one, the frame in each
  completed one, what is still to arrive, and the fields of the descriptors in memory.
\<close>

record rx_view =
  v_head :: nat
  v_tail :: nat
  v_addr :: "nat \<Rightarrow> u64"
  v_done :: "nat \<Rightarrow> rx_frame"
  v_wire :: "rx_frame list"
  v_desc :: "nat \<Rightarrow> desc_field \<Rightarrow> u64"

text \<open>The engine has received some frames of the wire since.\<close>

definition later :: "rx_view \<Rightarrow> rx_view \<Rightarrow> bool" where
  "later v v' = (v_head v \<le> v_head v' \<and> v_head v' \<le> v_tail v \<and> v_tail v' = v_tail v \<and> v_addr v' = v_addr v \<and>
     v_desc v' = v_desc v \<and> (\<forall>k < v_head v. v_done v' k = v_done v k) \<and>
     v_wire v = map (v_done v') [v_head v..<v_head v'] @ v_wire v')"

lemma later_refl: "v_head v \<le> v_tail v \<Longrightarrow> later v v"
  by (simp add: later_def)

lemma later_trans:
  assumes "later v v1" and "later v1 v2"
  shows "later v v2"
proof -
  have h: "v_head v \<le> v_head v1" "v_head v1 \<le> v_head v2" using assms by (simp_all add: later_def)
  have "map (v_done v1) [v_head v..<v_head v1] = map (v_done v2) [v_head v..<v_head v1]"
    using assms(2) by (simp add: later_def)
  moreover have "map (v_done v2) [v_head v..<v_head v2] =
      map (v_done v2) [v_head v..<v_head v1] @ map (v_done v2) [v_head v1..<v_head v2]"
    using h by (metis le_Suc_ex map_append upt_add_eq_append)
  ultimately show ?thesis using assms by (auto simp: later_def)
qed

text \<open>The frames that \<open>Receive\<close> has still to deliver, once \<open>c\<close> were.\<close>

definition pending :: "rx_view \<Rightarrow> nat \<Rightarrow> rx_frame list" where
  "pending v c = map (v_done v) [c..<v_head v] @ v_wire v"

lemma later_pending:
  assumes "later v v'" and "c \<le> v_head v"
  shows "pending v' c = pending v c"
proof -
  have h: "v_head v \<le> v_head v'" "v_wire v = map (v_done v') [v_head v..<v_head v'] @ v_wire v'"
      "\<forall>k < v_head v. v_done v' k = v_done v k"
    using assms(1) by (simp_all add: later_def)
  have "[c..<v_head v'] = [c..<v_head v] @ [v_head v..<v_head v']"
    using assms(2) h(1) by (metis le_Suc_ex upt_add_eq_append)
  then show ?thesis using h(2,3) by (simp add: pending_def)
qed

lemma pending_Suc:
  assumes "c < v_head v"
  shows "pending v c = v_done v c # pending v (Suc c)"
  using assms by (simp add: pending_def upt_conv_Cons)

text \<open>The first two words of the completion of the descriptor \<open>k\<close>: ring id, a packet in one buffer, error; length.\<close>

definition rx_word :: "nat \<Rightarrow> rx_frame \<Rightarrow> nat \<Rightarrow> u32" where
  "rx_word k fr w =
     (if w = 0 then ring_bits (k div 64) OR 0x4C000000 OR (if fr_error fr then 0x10000 else 0) OR ucast (fr_meta fr)
      else of_nat (length (fr_data fr)))"

text \<open>What is in the ring at an index: the last completion there, or zero.\<close>

definition ring_word :: "rx_view \<Rightarrow> nat \<Rightarrow> nat \<Rightarrow> u32" where
  "ring_word v i w = (if v_head v \<le> i then 0
     else let k = i + 64 * ((v_head v - 1 - i) div 64) in rx_word k (v_done v k) w)"

text \<open>A descriptor that the engine takes as number \<open>k\<close>: its ring id, and a buffer of 2048 bytes.\<close>

definition rx_desc_ok :: "nat \<Rightarrow> (desc_field \<Rightarrow> u64) \<Rightarrow> bool" where
  "rx_desc_ok k d = (ucast (d LEN_CTRL) AND 0x03000000 = ring_bits (k div 64) \<and> ucast (d LEN_CTRL) AND 0xFFFF = (2048 :: u32))"

text \<open>Submission of \<open>n\<close> descriptors.\<close>

definition kicked :: "nat \<Rightarrow> rx_view \<Rightarrow> rx_view" where
  "kicked n v = v\<lparr>v_tail := v_tail v + n,
     v_addr := (\<lambda>k. if v_tail v \<le> k \<and> k < v_tail v + n then v_desc v (k mod 64) BUF_PTR else v_addr v k)\<rparr>"

text \<open>Two buffers do not overlap.\<close>

definition apart :: "u64 \<Rightarrow> u64 \<Rightarrow> bool" where
  "apart a b = (\<forall>x < 2048. \<forall>y < 2048. a + of_nat x \<noteq> b + of_nat y)"

locale rx_engine =
  fixes hw :: "'u eth_hw" and rxs :: "'u \<Rightarrow> rx_view \<Rightarrow> bool" and live :: bool
  assumes look: "rxs u v \<Longrightarrow> i < 64 \<Longrightarrow> uo_cdesc (eh_rx hw) i w u = (u', x) \<Longrightarrow>
      \<exists>v'. later v v' \<and> rxs u' v' \<and> (w \<le> 1 \<longrightarrow> x = ring_word v' i w) \<and>
        (live \<and> v_wire v \<noteq> [] \<and> v_head v < v_tail v \<longrightarrow> v_head v < v_head v')"
    and fill: "rxs u v \<Longrightarrow> i < 64 \<Longrightarrow> (\<And>k. v_head v \<le> k \<Longrightarrow> k < v_tail v \<Longrightarrow> k mod 64 \<noteq> i) \<Longrightarrow>
      \<exists>v'. later (v\<lparr>v_desc := (v_desc v)(i := (v_desc v i)(fld := y))\<rparr>) v' \<and> rxs (uo_set_desc (eh_rx hw) i fld y u) v'"
    and kick: "rxs u v \<Longrightarrow> v_tail v + unat n \<le> v_head v + 64 \<Longrightarrow>
      (\<And>k. v_tail v \<le> k \<Longrightarrow> k < v_tail v + unat n \<Longrightarrow> rx_desc_ok k (v_desc v (k mod 64))) \<Longrightarrow>
      \<exists>v'. later (kicked (unat n) v) v' \<and> rxs (uo_write (eh_rx hw) DRTP_INC n u) v'"
    and loaded: "rxs u v \<Longrightarrow> k < v_head v \<Longrightarrow> (\<And>j. k < j \<Longrightarrow> j < v_head v \<Longrightarrow> apart (v_addr v j) (v_addr v k)) \<Longrightarrow>
      l \<le> length (fr_data (v_done v k)) \<Longrightarrow> eh_load hw (v_addr v k) l u = take l (fr_data (v_done v k))"
    and fits: "rxs u v \<Longrightarrow> k < v_head v \<Longrightarrow> length (fr_data (v_done v k)) \<le> 2048"
    and in_order: "rxs u v \<Longrightarrow> v_head v \<le> v_tail v"

subsection \<open>The completion ring\<close>

lemma ring_word_at:
  assumes "c < v_head v" and "v_head v \<le> c + 64"
  shows "ring_word v (c mod 64) w = rx_word c (v_done v c) w"
proof -
  let ?i = "c mod 64"
  have c: "c = ?i + 64 * (c div 64)" by simp
  have "v_head v - 1 - ?i = (v_head v - 1 - c) + 64 * (c div 64)" using assms(1) c by linarith
  moreover have "v_head v - 1 - c < 64" using assms by linarith
  ultimately have "(v_head v - 1 - ?i) div 64 = c div 64" by simp
  moreover have "\<not> v_head v \<le> ?i" using assms(1) c by linarith
  ultimately show ?thesis using c by (simp add: ring_word_def Let_def)
qed

lemma rx_word_flags:
  shows "rx_word k fr 0 AND 0x03000000 = ring_bits (k div 64)" and "cdesc_is_last (rx_word k fr 0)"
    and "rx_word k fr 0 AND 0x80010000 \<noteq> 0 \<longleftrightarrow> fr_error fr" and "rx_word k fr 0 AND AL_UDMA_CDESC_BUF1_USED \<noteq> 0"
proof -
  have z: "ucast (fr_meta fr) AND (0x03000000 :: u32) = 0" "ucast (fr_meta fr) AND (0x08000000 :: u32) = 0"
      "ucast (fr_meta fr) AND (0x80010000 :: u32) = 0" "ucast (fr_meta fr) AND (0x40000000 :: u32) = 0"
    by (rule low_bits_clear, simp)+
  show "rx_word k fr 0 AND 0x03000000 = ring_bits (k div 64)"
    using ring_bits_cases [of "k div 64"] by (elim insertE emptyE) (simp_all add: rx_word_def bit.conj_disj_distrib2 z)
  show "cdesc_is_last (rx_word k fr 0)"
    using ring_bits_cases [of "k div 64"]
    by (elim insertE emptyE) (simp_all add: rx_word_def bit.conj_disj_distrib2 z cdesc_is_last_def udma_consts)
  show "rx_word k fr 0 AND 0x80010000 \<noteq> 0 \<longleftrightarrow> fr_error fr"
    using ring_bits_cases [of "k div 64"] by (elim insertE emptyE) (simp_all add: rx_word_def bit.conj_disj_distrib2 z)
  show "rx_word k fr 0 AND AL_UDMA_CDESC_BUF1_USED \<noteq> 0"
    using ring_bits_cases [of "k div 64"]
    by (elim insertE emptyE) (simp_all add: rx_word_def bit.conj_disj_distrib2 z cdesc_consts)
qed

text \<open>Nothing new: the ring has the completion of a lap before, or nothing.\<close>

lemma ring_word_old:
  assumes "v_head v = c" and "unat (comp_ring_id q) = (1 + c div 64) mod 4"
  shows "\<not> al_udma_new_cdesc q (ring_word v (c mod 64) 0)"
proof (cases "c < 64")
  case True
  have "c div 64 = 0" using True by simp
  then have "comp_ring_id q \<noteq> 0" using assms(2) by auto
  then show ?thesis using assms(1) True by (simp add: ring_word_def al_udma_new_cdesc_def)
next
  case False
  let ?i = "c mod 64"
  have c: "c = ?i + 64 * (c div 64)" "?i < 64" by simp_all
  have "1 \<le> c div 64" using False by (simp add: div_le_mono [of 64 c 64, simplified])
  then obtain d where d: "c div 64 = Suc d" by (cases "c div 64") auto
  have "c - 1 - ?i = 64 * d + 63" using c d by linarith
  then have "(c - 1 - ?i) div 64 = d" by simp
  then have "ring_word v ?i 0 = rx_word (?i + 64 * d) (v_done v (?i + 64 * d)) 0"
    using c d assms(1) by (simp add: ring_word_def Let_def)
  moreover have "(?i + 64 * d) div 64 = d" using c(2) by simp
  ultimately have "al_udma_new_cdesc q (ring_word v ?i 0) \<longleftrightarrow> d mod 4 = (c div 64) mod 4"
    using new_cdesc_lap [OF _ assms(2), of "ring_word v ?i 0" d] rx_word_flags(1) by simp
  then show ?thesis using d by (auto simp: mod_Suc split: if_splits)
qed

subsection \<open>Reading a completion\<close>

text \<open>A state of the machine since the view \<open>v\<close>.\<close>

definition since :: "('u \<Rightarrow> rx_view \<Rightarrow> bool) \<Rightarrow> rx_view \<Rightarrow> 'u \<Rightarrow> bool" where
  "since rxs v u = (\<exists>v'. later v v' \<and> rxs u v')"

lemma since_later: "later v v' \<Longrightarrow> since rxs v' u \<Longrightarrow> since rxs v u"
  by (auto simp: since_def intro: later_trans)

context rx_engine
begin

lemma since_self: "rxs u v \<Longrightarrow> since rxs v u"
  unfolding since_def using in_order later_refl by blast

lemma look_since:
  assumes "since rxs v u" and "i < 64" and "uo_cdesc (eh_rx hw) i w u = (u', x)"
  shows "since rxs v u'"
  using assms look unfolding since_def by (meson later_trans)

lemma look_done:
  assumes "since rxs v u" and "c < v_head v" and "v_tail v \<le> c + 64" and "uo_cdesc (eh_rx hw) (c mod 64) w u = (u', x)" and "w \<le> 1"
  shows "x = rx_word c (v_done v c) w"
proof -
  obtain v1 where v1: "later v v1" "rxs u v1" using assms(1) by (auto simp: since_def)
  obtain v2 where v2: "later v1 v2" "x = ring_word v2 (c mod 64) w"
    using look [OF v1(2) _ assms(4)] assms(5) by auto
  have "later v v2" using v1(1) v2(1) by (rule later_trans)
  then have "c < v_head v2" "v_head v2 \<le> c + 64" "v_done v2 c = v_done v c"
    using assms(2,3) by (auto simp: later_def)
  then show ?thesis using v2(2) ring_word_at [of c v2 w] by simp
qed

text \<open>The first word of the next completion: there is no packet yet, or a complete one.\<close>

lemma packet_get:
  assumes "rxs u v" and "q_ring 6 c (v_tail v) q" and "q_comp 6 c q" and "c \<le> v_head v" and "v_tail v \<le> c + 64" and "c < v_tail v"
  shows "\<exists>u' v'. later v v' \<and> rxs u' v' \<and>
    (if v_head v' = c then al_udma_cdesc_packet_get (eh_rx hw) q u = Some (u', q, 0, 0) \<and> (live \<longrightarrow> pending v c = [])
     else \<exists>q'. al_udma_cdesc_packet_get (eh_rx hw) q u = Some (u', q', 1, c mod 64) \<and>
       q_ring 6 c (v_tail v) q' \<and> q_comp 6 (Suc c) q' \<and> adapter_rev_id q' = adapter_rev_id q)"
proof -
  have qc: "comp_head_ptr q = c mod 64" "unat (comp_ring_id q) = (1 + c div 64) mod 4" "pkt_crnt_descs q = 0"
      "q_flags q AND AL_UDMA_Q_FLAGS_NO_COMP_UPDATE = 0" "unat (next_cdesc_idx q) = c mod 64"
    using assms(2,3) by (simp_all add: q_comp_def q_ring_def)
  obtain u' x where l: "uo_cdesc (eh_rx hw) (c mod 64) 0 u = (u', x)" by fastforce
  obtain v' where v': "later v v'" "rxs u' v'" "x = ring_word v' (c mod 64) 0"
      "live \<and> v_wire v \<noteq> [] \<and> v_head v < v_tail v \<longrightarrow> v_head v < v_head v'"
    using look [OF assms(1) _ l] by auto
  have h: "c \<le> v_head v'" "v_head v' \<le> c + 64" using v'(1) assms(4,5) by (auto simp: later_def)
  show ?thesis
  proof (cases "v_head v' = c")
    case True
    then have "\<not> al_udma_new_cdesc q x" using ring_word_old [OF True qc(2)] v'(3) by simp
    then have "al_udma_cdesc_packet_get (eh_rx hw) q u = Some (u', q, 0, 0)"
      using l qc by (simp add: al_udma_cdesc_packet_get_def)
    moreover have "v_head v = c" using v'(1) assms(4) True by (simp add: later_def)
    then have "live \<longrightarrow> pending v c = []" using v'(4) assms(6) True by (auto simp: pending_def)
    ultimately show ?thesis using v'(1,2) True by auto
  next
    case False
    then have x: "x = rx_word c (v_done v' c) 0" using ring_word_at [of c v' 0] h v'(3) by simp
    have new: "al_udma_new_cdesc q x" using new_cdesc_lap [OF _ qc(2)] rx_word_flags(1) x by blast
    have last: "cdesc_is_last x" using rx_word_flags(2) x by simp
    obtain q1 j where n: "al_cdesc_next_update (q\<lparr>pkt_crnt_descs := 0\<rparr>) (c mod 64) = (q1, j)" by fastforce
    have qr: "q_ring 6 c (v_tail v) (q\<lparr>pkt_crnt_descs := 0\<rparr>)" using assms(2) by (simp add: q_ring_def)
    have q1: "j = Suc c mod 64" "unat (comp_ring_id q1) = (1 + Suc c div 64) mod 4"
        "q1 = q\<lparr>pkt_crnt_descs := 0, comp_ring_id := comp_ring_id q1\<rparr>"
      using next_update_ring [of 6 c "v_tail v" "q\<lparr>pkt_crnt_descs := 0\<rparr>" c q1 j] qr n qc(2) by simp_all
    have "al_udma_cdesc_packet_get (eh_rx hw) q u = Some (u', q1\<lparr>comp_head_ptr := j\<rparr>, 1, c mod 64)"
      using l new last n qc by (simp add: al_udma_cdesc_packet_get_def packet_loop.simps)
    moreover have "q_ring 6 c (v_tail v) (q1\<lparr>comp_head_ptr := j\<rparr>)"
      using assms(2) by (subst q1(3)) (simp add: q_ring_def)
    moreover have "q_comp 6 (Suc c) (q1\<lparr>comp_head_ptr := j\<rparr>)"
    proof -
      have "pkt_crnt_descs q1 = 0" "q_flags q1 = q_flags q" by (subst q1(3), simp)+
      then show ?thesis using qc(4) q1(1,2) by (simp add: q_comp_def)
    qed
    moreover have "adapter_rev_id (q1\<lparr>comp_head_ptr := j\<rparr>) = adapter_rev_id q" by (subst q1(3)) simp
    ultimately show ?thesis using v'(1,2) False by (intro exI [of _ u'] exI [of _ v']) auto
  qed
qed

text \<open>The rest of the HAL's receive function only looks.\<close>

lemma pkt_rx:
  assumes "rxs u v" and "q_ring 6 c (v_tail v) q" and "q_comp 6 c q" and "c \<le> v_head v" and "v_tail v \<le> c + 64" and "c < v_tail v"
    and "adapter_rev_id q = 2"
  shows "\<exists>u' v'. later v v' \<and> rxs u' v' \<and>
    (if v_head v' = c then al_eth_pkt_rx (eh_rx hw) q u = Some (u', q, 0, None) \<and> (live \<longrightarrow> pending v c = [])
     else \<exists>q' pkt. al_eth_pkt_rx (eh_rx hw) q u = Some (u', q', 1, Some pkt) \<and>
       q_ring 6 (Suc c) (v_tail v) q' \<and> q_comp 6 (Suc c) q' \<and> adapter_rev_id q' = 2 \<and>
       rx_flags pkt = rx_word c (v_done v' c) 0 \<and> rx_lens pkt = [of_nat (length (fr_data (v_done v' c))) AND 0xFFFF])"
proof -
  obtain u1 v1 where v1: "later v v1" "rxs u1 v1" and g: "if v_head v1 = c then al_udma_cdesc_packet_get (eh_rx hw) q u = Some (u1, q, 0, 0) \<and> (live \<longrightarrow> pending v c = [])
     else \<exists>q'. al_udma_cdesc_packet_get (eh_rx hw) q u = Some (u1, q', 1, c mod 64) \<and>
       q_ring 6 c (v_tail v) q' \<and> q_comp 6 (Suc c) q' \<and> adapter_rev_id q' = adapter_rev_id q"
    using packet_get [OF assms(1-6)] by blast
  show ?thesis
  proof (cases "v_head v1 = c")
    case True
    then have "al_eth_pkt_rx (eh_rx hw) q u = Some (u1, q, 0, None)" using g by (simp add: al_eth_pkt_rx_def)
    then show ?thesis using v1 True g by (intro exI [of _ u1] exI [of _ v1]) simp
  next
    case False
    then obtain q1 where q1: "al_udma_cdesc_packet_get (eh_rx hw) q u = Some (u1, q1, 1, c mod 64)"
        "q_ring 6 c (v_tail v) q1" "q_comp 6 (Suc c) q1" "adapter_rev_id q1 = 2"
      using g assms(7) by auto
    have h: "c < v_head v1" "v_tail v1 \<le> c + 64" using v1(1) assms(4,5) False by (auto simp: later_def)
    note see = look_since [of v1 _ "c mod 64"] look_done [OF _ h]
    let ?fr = "v_done v1 c" and ?cd = "uo_cdesc (eh_rx hw) (c mod 64)"
    have nx: "al_cdesc_next q1 (c mod 64) 0 = c mod 64"
      using end_cdesc_ring [OF q1(2)] by (simp add: al_cdesc_next_def)
    obtain u2 w1 where r1: "?cd 1 u1 = (u2, w1)" by fastforce
    obtain u3 w2 where r2: "?cd 2 u2 = (u3, w2)" by fastforce
    obtain u4 w3 where r3: "?cd 2 u3 = (u4, w3)" by fastforce
    have s1: "since rxs v1 u1" using v1(2) by (rule since_self)
    have s2: "since rxs v1 u2" using see(1) [OF s1 _ r1] by simp
    have s3: "since rxs v1 u3" using see(1) [OF s2 _ r2] by simp
    have s4: "since rxs v1 u4" using see(1) [OF s3 _ r3] by simp
    define u5 where "u5 = (if w2 AND AL_UDMA_CDESC_BUF2_USED \<noteq> 0 then u4 else u3)"
    have s5: "since rxs v1 u5" using s3 s4 by (simp add: u5_def)
    obtain u6 c0 where r4: "?cd 0 u5 = (u6, c0)" by fastforce
    have s6: "since rxs v1 u6" using see(1) [OF s5 _ r4] by simp
    have w1: "w1 = rx_word c ?fr 1" using see(2) [OF s1 r1] by simp
    have c0: "c0 = rx_word c ?fr 0" using see(2) [OF s5 r4] by simp
    obtain hl where L: "rx_lengths (eh_rx hw) q1 (c mod 64) 0 1 u1 = (u6, [of_nat (length (fr_data ?fr)) AND 0xFFFF], hl)"
    proof -
      have "\<exists>hl. rx_lengths (eh_rx hw) q1 (c mod 64) 0 (Suc 0) u1 = (u6, [w1 AND 0xFFFF], hl)"
        using r1 r2 r3 r4 rx_word_flags(4) [of c ?fr] by (auto simp: nx c0 u5_def split: if_splits)
      then show ?thesis using that by (auto simp: w1 rx_word_def)
    qed
    obtain u7 f0 where r5: "?cd 0 u6 = (u7, f0)" by fastforce
    obtain u8 fx where r6: "?cd 3 u7 = (u8, fx)" by fastforce
    obtain u9 y1 where r7: "?cd 1 u8 = (u9, y1)" by fastforce
    obtain u10 y2 where r8: "?cd 2 u9 = (u10, y2)" by fastforce
    have s7: "since rxs v1 u7" using see(1) [OF s6 _ r5] by simp
    have s8: "since rxs v1 u8" using see(1) [OF s7 _ r6] by simp
    have s9: "since rxs v1 u9" using see(1) [OF s8 _ r7] by simp
    have s10: "since rxs v1 u10" using see(1) [OF s9 _ r8] by simp
    have f0: "f0 = rx_word c ?fr 0" using see(2) [OF s6 r5] by simp
    have one: "unat (1 :: u32) = 1" by simp
    have "\<exists>pkt. al_eth_pkt_rx (eh_rx hw) q u = Some (u10, al_udma_cdesc_ack q1 1, 1, Some pkt) \<and> rx_flags pkt = f0 \<and>
        rx_lens pkt = [of_nat (length (fr_data ?fr)) AND 0xFFFF]"
      using q1(1,4) r5 r6 r7 r8 L
      by (simp add: al_eth_pkt_rx_def nx cdesc_consts(1) AL_ETH_REV_ID_4_def)
    then obtain pkt where P: "al_eth_pkt_rx (eh_rx hw) q u = Some (u10, al_udma_cdesc_ack q1 1, 1, Some pkt)"
        "rx_flags pkt = f0" "rx_lens pkt = [of_nat (length (fr_data ?fr)) AND 0xFFFF]" by blast
    have qa: "q_ring 6 (Suc c) (v_tail v) (al_udma_cdesc_ack q1 1)" using cdesc_ack_ring [OF q1(2), of 1] by simp
    have qb: "q_comp 6 (Suc c) (al_udma_cdesc_ack q1 1)" "adapter_rev_id (al_udma_cdesc_ack q1 1) = 2"
      using q1(3,4) by (simp_all add: q_comp_def al_udma_cdesc_ack_def)
    obtain v' where v': "later v1 v'" "rxs u10 v'" using s10 by (auto simp: since_def)
    have "v_head v' \<noteq> c" "v_done v' c = ?fr" using v'(1) h(1) by (auto simp: later_def)
    then show ?thesis using P qa qb f0 v'(2) later_trans [OF v1(1) v'(1)]
      by (intro exI [of _ u10] exI [of _ v']) auto
  qed
qed

end

subsection \<open>Submitting a buffer\<close>

lemma mod_apart:
  fixes j k n :: nat
  assumes "j < k" and "k < j + n"
  shows "j mod n \<noteq> k mod n"
proof
  assume "j mod n = k mod n"
  then have "n dvd k - j" using assms(1) by (metis mod_eq_dvd_iff_nat less_or_eq_imp_le)
  then show False using assms by (auto dest: dvd_imp_le)
qed

context rx_engine
begin

lemma buffer_add:
  assumes "rxs u v" and "q_ring 6 c t q" and "v_tail v \<le> t" and "c \<le> v_head v" and "t < c + 48" and "c \<le> t"
  shows "\<exists>u' v' q'. al_eth_rx_buffer_add (eh_rx hw) True q (a, AL_ETH_RX_BUF_SIZE) AL_M2S_DESC_INT_EN None u = Some (u', q', 0) \<and>
    rxs u' v' \<and> later (v\<lparr>v_desc := v_desc v'\<rparr>) v' \<and> v_desc v' (t mod 64) BUF_PTR = a \<and>
    rx_desc_ok t (v_desc v' (t mod 64)) \<and> (\<forall>j. j \<noteq> t mod 64 \<longrightarrow> v_desc v' j = v_desc v j) \<and>
    q_ring 6 c (Suc t) q' \<and> q' = q\<lparr>next_desc_idx := next_desc_idx q', desc_ring_id := desc_ring_id q'\<rparr>"
proof -
  obtain i q1 where g1: "al_udma_desc_get q = (i, q1)" by fastforce
  obtain r q2 where g2: "al_udma_ring_id_get q1 = (r, q2)" by fastforce
  note g = desc_get_ring_id [OF assms(2) g1 g2]
  have i: "i = t mod 64" "i < 64" using g(1) by simp_all
  have "unat (al_udma_available_get q) = 48 - (t - c)" using available_get [OF assms(2,6)] assms(5) by simp
  then have av: "\<not> al_udma_available_get q < 1" using assms(5,6) by (simp add: word_less_nat_alt)
  have free: "k mod 64 \<noteq> i" if "v_head w \<le> k" "k < v_tail w" "v_tail w \<le> t" "c \<le> v_head w" for k w
    using that i(1) assms(5) mod_apart [of k t 64] by linarith
  define fl where "fl = ((AL_M2S_DESC_INT_EN AND NOT 0xFFFF) OR push_bit 24 r OR (AL_ETH_RX_BUF_SIZE AND 0xFFFF) :: u32)"
  let ?u1 = "uo_set_desc (eh_rx hw) i LEN_CTRL (ucast fl) u"
  let ?u2 = "uo_set_desc (eh_rx hw) i BUF_PTR a ?u1"
  obtain v1 where v1: "later (v\<lparr>v_desc := (v_desc v)(i := (v_desc v i)(LEN_CTRL := ucast fl))\<rparr>) v1" "rxs ?u1 v1"
    using fill [OF assms(1) i(2) free [OF _ _ assms(3,4)], of LEN_CTRL "ucast fl"] by auto
  have w1: "v_tail v1 \<le> t" "c \<le> v_head v1" using v1(1) assms(3,4) by (auto simp: later_def)
  obtain v2 where v2: "later (v1\<lparr>v_desc := (v_desc v1)(i := (v_desc v1 i)(BUF_PTR := a))\<rparr>) v2" "rxs ?u2 v2"
    using fill [OF v1(2) i(2) free [OF _ _ w1], of BUF_PTR a] by auto
  have dsc: "v_desc v2 = (v_desc v)(i := (v_desc v i)(LEN_CTRL := ucast fl, BUF_PTR := a))"
    using v1(1) v2(1) by (simp add: later_def)
  have "later (v\<lparr>v_desc := v_desc v2\<rparr>) (v1\<lparr>v_desc := v_desc v2\<rparr>)" using v1(1) by (auto simp: later_def)
  moreover have "later (v1\<lparr>v_desc := v_desc v2\<rparr>) v2" using v2(1) by (auto simp: later_def)
  ultimately have L: "later (v\<lparr>v_desc := v_desc v2\<rparr>) v2" by (rule later_trans)
  have "al_eth_rx_buffer_add (eh_rx hw) True q (a, AL_ETH_RX_BUF_SIZE) AL_M2S_DESC_INT_EN None u = Some (?u2, q2, 0)"
    using av g1 g2 by (simp add: al_eth_rx_buffer_add_def Let_def fl_def) (simp add: desc_consts)
  moreover have "rx_desc_ok t (v_desc v2 (t mod 64))"
  proof -
    have "push_bit 24 r = ring_bits (t div 64)" using g(2) by (intro ring_bits_id) simp
    then have "fl AND 0x03000000 = ring_bits (t div 64) \<and> fl AND 0xFFFF = 2048"
      using ring_bits_cases [of "t div 64"]
      by (elim insertE emptyE) (simp_all add: fl_def desc_consts eth_consts)
    then show ?thesis by (simp add: rx_desc_ok_def dsc i(1) ucast_up_down)
  qed
  ultimately show ?thesis using v2(2) L dsc g(3,4) i by (intro exI [of _ ?u2] exI [of _ v2] exI [of _ q2]) auto
qed

end

subsection \<open>Receive\<close>

text \<open>What \<open>Receive\<close> returns for the next frame: the status, the size and what it stores.\<close>

definition rx_spec :: "u64 \<Rightarrow> rx_frame \<Rightarrow> efi_status \<times> u64 \<times> rx_out option" where
  "rx_spec Size fr =
     (if fr_error fr then (EFI_NOT_READY, Size, None)
      else if length (fr_data fr) < 14 then (EFI_SUCCESS, Size, None)
      else if Size < of_nat (length (fr_data fr)) then (EFI_BUFFER_TOO_SMALL, of_nat (length (fr_data fr)), None)
      else (EFI_SUCCESS, of_nat (length (fr_data fr)), Some (rx_fields (fr_data fr))))"

text \<open>The driver took \<open>c\<close> frames; the ring has the 32 buffers, in turn.\<close>

definition rx_bufs :: "eth_ctx \<Rightarrow> bool" where
  "rx_bufs Ctx = (RxBuffers Ctx = RxBuffersPhys Ctx \<and> length (RxBuffersPhys Ctx) = 32 \<and>
     (\<forall>i < 32. \<forall>j < 32. i \<noteq> j \<longrightarrow> apart (RxBuffersPhys Ctx ! i) (RxBuffersPhys Ctx ! j)))"

definition rx_ready :: "eth_ctx \<Rightarrow> rx_view \<Rightarrow> nat \<Rightarrow> bool" where
  "rx_ready Ctx v c = (State Ctx = EfiSimpleNetworkInitialized \<and> rx_bufs Ctx \<and>
     q_ring 6 c (c + 32) (rx_q Ctx) \<and> q_comp 6 c (rx_q Ctx) \<and> adapter_rev_id (rx_q Ctx) = 2 \<and>
     unat (RxBufTailIdx Ctx) = c mod 32 \<and> v_tail v = c + 32 \<and> c \<le> v_head v \<and>
     (\<forall>k. c \<le> k \<and> k < c + 32 \<longrightarrow> v_addr v k = RxBuffersPhys Ctx ! (k mod 32)))"

lemma unat_frame_length:
  assumes "n \<le> 2048"
  shows "unat ((of_nat n :: u32) AND 0xFFFF) = n"
proof -
  have "unat (of_nat n :: u32) = n" using assms by (simp add: unat_of_nat)
  then show ?thesis using assms unat_and_mask [of "of_nat n :: u32" 16] by (simp add: mask_eq_exp_minus_1)
qed

context rx_engine
begin

text \<open>The buffer at the tail index goes back.\<close>

lemma resubmit:
  assumes "rxs u v" and "q_ring 6 (Suc c) (c + 32) (rx_q Ctx)" and "q_comp 6 (Suc c) (rx_q Ctx)"
    and "v_tail v = c + 32" and "Suc c \<le> v_head v" and "unat (RxBufTailIdx Ctx) = c mod 32"
  shows "\<exists>u' v' q'. rx_resubmit hw Ctx u = Some (u', Ctx\<lparr>rx_q := q', RxBufTailIdx := (RxBufTailIdx Ctx + 1) mod 32\<rparr>) \<and>
    rxs u' v' \<and> q_ring 6 (Suc c) (c + 33) q' \<and> q_comp 6 (Suc c) q' \<and> adapter_rev_id q' = adapter_rev_id (rx_q Ctx) \<and>
    v_tail v' = c + 33 \<and> Suc c \<le> v_head v' \<and> pending v' (Suc c) = pending v (Suc c) \<and> v_head v \<le> v_head v' \<and>
    v_addr v' = (v_addr v)(c + 32 := RxBuffersPhys Ctx ! (c mod 32))"
proof -
  obtain u1 v1 q1 where r: "al_eth_rx_buffer_add (eh_rx hw) True (rx_q Ctx)
        (RxBuffersPhys Ctx ! (c mod 32), AL_ETH_RX_BUF_SIZE) AL_M2S_DESC_INT_EN None u = Some (u1, q1, 0)"
    and v1: "rxs u1 v1" "later (v\<lparr>v_desc := v_desc v1\<rparr>) v1" "v_desc v1 ((c + 32) mod 64) BUF_PTR = RxBuffersPhys Ctx ! (c mod 32)"
      "rx_desc_ok (c + 32) (v_desc v1 ((c + 32) mod 64))"
    and q1: "q_ring 6 (Suc c) (Suc (c + 32)) q1" "q1 = (rx_q Ctx)\<lparr>next_desc_idx := next_desc_idx q1, desc_ring_id := desc_ring_id q1\<rparr>"
    using buffer_add [OF assms(1,2), of "RxBuffersPhys Ctx ! (c mod 32)"] assms(4,5) by auto
  have q2: "q_comp 6 (Suc c) q1" "adapter_rev_id q1 = adapter_rev_id (rx_q Ctx)"
    using assms(3) by (subst q1(2); simp add: q_comp_def)+
  have t: "v_tail v1 = c + 32" "v_head v \<le> v_head v1" "v_addr v1 = v_addr v" using v1(2) assms(4) by (simp_all add: later_def)
  let ?u2 = "uo_write (eh_rx hw) DRTP_INC 1 u1"
  have "rx_desc_ok k (v_desc v1 (k mod 64))" if "v_tail v1 \<le> k" "k < v_tail v1 + unat (1 :: u32)" for k
  proof -
    have "k = c + 32" using that t(1) by simp
    then show ?thesis using v1(4) by simp
  qed
  then obtain v2 where v2: "later (kicked 1 v1) v2" "rxs ?u2 v2" using kick [OF v1(1), of 1] t assms(5) by auto
  have "pending v2 (Suc c) = pending (kicked 1 v1) (Suc c)"
    using later_pending [OF v2(1)] t(2) assms(5) by (simp add: kicked_def)
  also have "\<dots> = pending (v\<lparr>v_desc := v_desc v1\<rparr>) (Suc c)"
    using later_pending [OF v1(2)] assms(5) by (simp add: kicked_def pending_def)
  finally have p: "pending v2 (Suc c) = pending v (Suc c)" by (simp add: pending_def)
  have "v_addr v2 = (v_addr v)(c + 32 := RxBuffersPhys Ctx ! (c mod 32))"
    using v2(1) v1(3) t by (auto simp: later_def kicked_def fun_eq_iff less_Suc_eq)
  moreover have "v_tail v2 = c + 33" "Suc c \<le> v_head v2" "v_head v \<le> v_head v2" using v2(1) t assms(5) by (auto simp: later_def kicked_def)
  moreover have "0 < (1 :: u32) \<and> 1 \<le> q_size q1" using q1(1) by (auto simp: q_ring_def word_le_nat_alt)
  then have "rx_resubmit hw Ctx u = Some (?u2, Ctx\<lparr>rx_q := q1, RxBufTailIdx := (RxBufTailIdx Ctx + 1) mod 32\<rparr>)"
    using r assms(6) by (simp add: rx_resubmit_def al_eth_rx_buffer_action_def al_udma_desc_action_add_def eth_consts(1))
  moreover have "Suc (c + 32) = c + 33" by simp
  then have "q_ring 6 (Suc c) (c + 33) q1" using q1(1) by (simp only:)
  ultimately show ?thesis using v2(2) p q2 by blast
qed

lemma resubmit_ready:
  assumes "rx_ready Ctx v c" and "later v v1" and "rxs u v1" and "c < v_head v1"
    and "q_ring 6 (Suc c) (c + 32) q" and "q_comp 6 (Suc c) q" and "adapter_rev_id q = 2"
  shows "\<exists>u' Ctx' v'. rx_resubmit hw (Ctx\<lparr>rx_q := q, RxGoodFrames := n\<rparr>) u = Some (u', Ctx') \<and>
    rxs u' v' \<and> rx_ready Ctx' v' (Suc c) \<and> pending v c = v_done v1 c # pending v' (Suc c) \<and> v_head v \<le> v_head v' \<and>
    RxGoodFrames Ctx' = n"
proof -
  let ?Ctx = "Ctx\<lparr>rx_q := q, RxGoodFrames := n\<rparr>"
  have v: "c \<le> v_head v" "v_tail v1 = c + 32" "v_addr v1 = v_addr v" "unat (RxBufTailIdx Ctx) = c mod 32"
      "\<forall>k. c \<le> k \<and> k < c + 32 \<longrightarrow> v_addr v k = RxBuffersPhys Ctx ! (k mod 32)"
    using assms(1,2) by (simp_all add: rx_ready_def later_def)
  obtain u' v' q' where r: "rx_resubmit hw ?Ctx u = Some (u', ?Ctx\<lparr>rx_q := q', RxBufTailIdx := (RxBufTailIdx Ctx + 1) mod 32\<rparr>)"
    and w: "rxs u' v'" "q_ring 6 (Suc c) (c + 33) q'" "q_comp 6 (Suc c) q'" "adapter_rev_id q' = 2"
      "v_tail v' = c + 33" "Suc c \<le> v_head v'" "pending v' (Suc c) = pending v1 (Suc c)" "v_head v1 \<le> v_head v'"
      "v_addr v' = (v_addr v)(c + 32 := RxBuffersPhys Ctx ! (c mod 32))"
    using resubmit [OF assms(3), of c ?Ctx] assms(4-7) v by auto
  have i: "unat ((RxBufTailIdx Ctx + 1) mod 32) = Suc c mod 32"
  proof -
    have "unat (RxBufTailIdx Ctx + 1) = Suc (c mod 32)" using v(4) by (simp add: unat_word_ariths)
    then show ?thesis by (simp add: unat_mod mod_Suc_eq)
  qed
  have a: "v_addr v' k = RxBuffersPhys Ctx ! (k mod 32)" if "Suc c \<le> k" "k < Suc c + 32" for k
  proof (cases "k = c + 32")
    case True
    then show ?thesis using w(9) by simp
  next
    case False
    then have "c \<le> k \<and> k < c + 32" using that by simp
    then show ?thesis using v(5) w(9) False by simp
  qed
  have s: "Suc c + 32 = c + 33" by simp
  have "rx_ready (?Ctx\<lparr>rx_q := q', RxBufTailIdx := (RxBufTailIdx Ctx + 1) mod 32\<rparr>) v' (Suc c)"
    using assms(1) w i a unfolding rx_ready_def rx_bufs_def s by simp
  moreover have "pending v c = v_done v1 c # pending v' (Suc c)"
    using later_pending [OF assms(2) v(1)] pending_Suc [OF assms(4)] w(7) by simp
  moreover have "v_head v \<le> v_head v'" using assms(2) w(8) by (simp add: later_def)
  ultimately show ?thesis using r w(1) by (intro exI [of _ u']) auto
qed

text \<open>The bytes in the buffer are those of the frame.\<close>

lemma frame_loaded:
  assumes "rx_ready Ctx v c" and "later v v1" and "rxs u v1" and "c < v_head v1"
  shows "eh_load hw (RxBuffers Ctx ! unat (RxBufTailIdx Ctx)) (length (fr_data (v_done v1 c))) u = fr_data (v_done v1 c)"
proof -
  have r: "v_tail v1 = c + 32" "v_addr v1 = v_addr v" "unat (RxBufTailIdx Ctx) = c mod 32" "RxBuffers Ctx = RxBuffersPhys Ctx"
      "\<forall>k. c \<le> k \<and> k < c + 32 \<longrightarrow> v_addr v k = RxBuffersPhys Ctx ! (k mod 32)"
    using assms(1,2) by (simp_all add: rx_ready_def rx_bufs_def later_def)
  have "apart (v_addr v1 j) (v_addr v1 c)" if "c < j" "j < v_head v1" for j
  proof -
    have j: "j < c + 32" using that in_order [OF assms(3)] r(1) by simp
    then have "j mod 32 \<noteq> c mod 32" using mod_apart [of c j 32] that(1) by auto
    then show ?thesis using assms(1) r(2,5) that(1) j by (simp add: rx_ready_def rx_bufs_def)
  qed
  then show ?thesis using loaded [OF assms(3,4), of "length (fr_data (v_done v1 c))"] r by simp
qed

lemma receive_step:
  assumes "rxs u v" and "rx_ready Ctx v c"
  shows "\<exists>u' Ctx' v'. rxs u' v' \<and> v_head v \<le> v_head v' \<and>
    ((v_head v = c \<and> AlEthNextSnpReceive hw True (Some Size) Ctx u = Some (u', Ctx', EFI_NOT_READY, Some Size, None) \<and>
      rx_ready Ctx' v' c \<and> pending v' c = pending v c \<and> (live \<longrightarrow> pending v c = [])) \<or>
     (\<exists>fr. AlEthNextSnpReceive hw True (Some Size) Ctx u =
        (case rx_spec Size fr of (Status, Size', out) \<Rightarrow> Some (u', Ctx', Status, Some Size', out)) \<and>
      rx_ready Ctx' v' (Suc c) \<and> pending v c = fr # pending v' (Suc c)))"
proof -
  have c: "State Ctx = EfiSimpleNetworkInitialized" "q_ring 6 c (v_tail v) (rx_q Ctx)" "q_comp 6 c (rx_q Ctx)"
      "adapter_rev_id (rx_q Ctx) = 2" "c \<le> v_head v" "v_tail v \<le> c + 64" "v_tail v = c + 32" "c < v_tail v"
    using assms(2) by (simp_all add: rx_ready_def)
  obtain u1 v1 where v1: "later v v1" "rxs u1 v1"
    and P: "if v_head v1 = c then al_eth_pkt_rx (eh_rx hw) (rx_q Ctx) u = Some (u1, rx_q Ctx, 0, None) \<and> (live \<longrightarrow> pending v c = [])
     else \<exists>q' pkt. al_eth_pkt_rx (eh_rx hw) (rx_q Ctx) u = Some (u1, q', 1, Some pkt) \<and>
       q_ring 6 (Suc c) (v_tail v) q' \<and> q_comp 6 (Suc c) q' \<and> adapter_rev_id q' = 2 \<and>
       rx_flags pkt = rx_word c (v_done v1 c) 0 \<and> rx_lens pkt = [of_nat (length (fr_data (v_done v1 c))) AND 0xFFFF]"
    using pkt_rx [OF assms(1) c(2,3,5,6,8,4)] by blast
  show ?thesis
  proof (cases "v_head v1 = c")
    case True
    then have "AlEthNextSnpReceive hw True (Some Size) Ctx u = Some (u1, Ctx\<lparr>rx_q := rx_q Ctx\<rparr>, EFI_NOT_READY, Some Size, None)"
      using P c(1) by (simp add: AlEthNextSnpReceive_def Let_def)
    moreover have "v_head v = c" using v1(1) c(5) True by (simp add: later_def)
    moreover have "rx_ready (Ctx\<lparr>rx_q := rx_q Ctx\<rparr>) v1 c"
      using assms(2) v1(1) by (simp add: rx_ready_def rx_bufs_def later_def)
    moreover have "v_head v \<le> v_head v1" "live \<longrightarrow> pending v c = []" using P True v1(1) by (simp_all add: later_def)
    ultimately show ?thesis using v1(2) later_pending [OF v1(1) c(5)] by blast
  next
    case False
    then obtain q pkt where R: "al_eth_pkt_rx (eh_rx hw) (rx_q Ctx) u = Some (u1, q, 1, Some pkt)"
      and q: "q_ring 6 (Suc c) (c + 32) q" "q_comp 6 (Suc c) q" "adapter_rev_id q = 2"
      and pkt: "rx_flags pkt = rx_word c (v_done v1 c) 0" "rx_lens pkt = [of_nat (length (fr_data (v_done v1 c))) AND 0xFFFF]"
      using P c(7) by auto
    let ?fr = "v_done v1 c"
    have h: "c < v_head v1" using False v1(1) c(5) by (auto simp: later_def)
    define L where "L = (of_nat (length (fr_data ?fr)) AND 0xFFFF :: u32)"
    have len: "length (fr_data ?fr) \<le> 2048" using fits [OF v1(2) h] .
    have L: "unat L = length (fr_data ?fr)" unfolding L_def using len by (rule unat_frame_length)
    have L64: "(ucast L :: u64) = of_nat (length (fr_data ?fr))"
      by (simp only: L [symmetric] of_nat_unat)
    have Lc: "L < 14 \<longleftrightarrow> length (fr_data ?fr) < 14" "\<not> AL_ETH_RX_BUF_SIZE < L"
      using L len by (simp_all add: word_less_nat_alt eth_consts)
    define good where "good = (\<not> fr_error ?fr \<and> \<not> length (fr_data ?fr) < 14 \<and> \<not> Size < of_nat (length (fr_data ?fr)))"
    obtain u2 Ctx2 v2 where r: "rx_resubmit hw (Ctx\<lparr>rx_q := q, RxGoodFrames := (if good then RxGoodFrames Ctx + 1 else RxGoodFrames Ctx)\<rparr>) u1 = Some (u2, Ctx2)"
      and w: "rxs u2 v2" "rx_ready Ctx2 v2 (Suc c)" "pending v c = ?fr # pending v2 (Suc c)" "v_head v \<le> v_head v2"
      using resubmit_ready [OF assms(2) v1 h q] by blast
    have same: "Ctx\<lparr>rx_q := q, RxGoodFrames := RxGoodFrames Ctx\<rparr> = Ctx\<lparr>rx_q := q\<rparr>" by (rule eth_ctx.equality) simp_all
    have "AlEthNextSnpReceive hw True (Some Size) Ctx u =
        (case rx_spec Size ?fr of (Status, Size', out) \<Rightarrow> Some (u2, Ctx2, Status, Some Size', out))"
      using R r c(1) rx_word_flags(3) [of c ?fr] L64 Lc frame_loaded [OF assms(2) v1 h] L
      by (simp add: AlEthNextSnpReceive_def Let_def pkt L_def [symmetric] rx_spec_def good_def same split: if_splits) auto
    then show ?thesis using w by blast
  qed
qed

end

end
