(* ===== verification/EthRxRun.thy ===== *)
theory EthRxRun
  imports EthRx
begin

text \<open>
  Reception as a whole: the queue as it is configured, the ring as it is filled at the start, and a sequence
  of calls of \<open>Receive\<close>.
\<close>

unbundle bit_operations_syntax

subsection \<open>The configured queue\<close>

text \<open>A queue that was configured is empty and enabled, whatever the registers contain.\<close>

lemma q_set_pointers_keeps:
  assumes "al_udma_q_set_pointers ops q u = Some (u', q')" and "cdesc_base_ptr q \<noteq> 0"
  shows "q' = q"
  using assms by (simp add: al_udma_q_set_pointers_def Let_def split: if_splits)

lemma q_enable_keeps: "al_udma_q_enable ops True q u = (u', q') \<Longrightarrow> q' = q\<lparr>q_status := AL_QUEUE_ENABLED\<rparr>"
  by (simp add: al_udma_q_enable_def split: prod.splits)

lemma q_init_empty:
  assumes "al_udma_q_init ops num qid p q u = Some (u', q', 0)" and "unat (qp_size p) = 2 ^ k" and "qp_cdesc_base p \<noteq> 0"
  shows "q_ring k 0 0 q'" and "q_comp k 0 q'" and "adapter_rev_id q' = qp_adapter_rev_id p" and "q_status q' = AL_QUEUE_ENABLED"
proof -
  have n: "- EINVAL \<noteq> (0 :: int)" "- EIO \<noteq> (0 :: int)" by (simp_all add: EINVAL_def EIO_def)
  have lo: "\<not> qp_size p < AL_UDMA_MIN_Q_SIZE" and hi: "\<not> qp_size p > AL_UDMA_MAX_Q_SIZE"
    using assms(1) n by (auto simp: al_udma_q_init_def split: if_splits)
  have "(2 :: nat) ^ 5 \<le> 2 ^ k" using lo assms(2) by (simp add: word_less_nat_alt udma_consts)
  then have k5: "5 \<le> k" by (rule power_le_imp_le_exp [rotated]) simp
  have "(2 :: nat) ^ k \<le> 2 ^ 16" using hi assms(2) by (simp add: word_less_nat_alt udma_consts)
  then have k16: "k \<le> 16" by (rule power_le_imp_le_exp [rotated]) simp
  have m: "(ucast (qp_size p - 1) :: u16) = mask k"
  proof -
    have "qp_size p \<noteq> 0" using assms(2) by (auto simp: unat_eq_zero)
    then have "unat (qp_size p - 1) = mask k" using assms(2) by (simp add: unat_minus_one mask_eq_exp_minus_1)
    then have "of_nat (unat (qp_size p - 1)) = (mask k :: u16)" by (simp only: of_nat_mask_eq)
    then show ?thesis by (simp only: of_nat_unat)
  qed
  define q1 where "q1 = q\<lparr>adapter_rev_id := qp_adapter_rev_id p, q_size := qp_size p, size_mask := mask k,
             desc_base_ptr := qp_desc_base p, desc_phy_base := qp_desc_phy_base p, cdesc_base_ptr := qp_cdesc_base p,
             cdesc_phy_base := qp_cdesc_phy_base p, cdesc_size := qp_cdesc_size p, next_desc_idx := 0, next_cdesc_idx := 0,
             comp_head_idx := 0, comp_head_ptr := 0, desc_ring_id := AL_UDMA_INITIAL_RING_ID,
             comp_ring_id := AL_UDMA_INITIAL_RING_ID, pkt_crnt_descs := 0, q_flags := 0, q_status := AL_QUEUE_DISABLED\<rparr>"
  obtain u2 q2 u3 where s: "al_udma_q_set_pointers ops q1 (al_udma_q_config ops q1 u) = Some (u2, q2)"
      "al_udma_q_enable ops True q2 u2 = (u3, q')"
    using assms(1) n by (auto simp: al_udma_q_init_def Let_def q1_def m split: if_splits bind_splits prod.splits)
  have "q2 = q1" using q_set_pointers_keeps [OF s(1)] assms(3) by (simp add: q1_def)
  then have q': "q' = q1\<lparr>q_status := AL_QUEUE_ENABLED\<rparr>" using q_enable_keeps [OF s(2)] by simp
  show "q_ring k 0 0 q'" using k5 k16 assms(2) by (simp add: q' q1_def q_ring_def udma_consts)
  show "q_comp k 0 q'" by (simp add: q' q1_def q_comp_def udma_consts)
  show "adapter_rev_id q' = qp_adapter_rev_id p" "q_status q' = AL_QUEUE_ENABLED" by (simp_all add: q' q1_def)
qed

subsection \<open>Filling the ring\<close>

context rx_engine
begin

lemma fill_ring:
  assumes "rxs u v" and "v_tail v = 0" and "n \<le> 32" and "q_ring 6 0 n (rx_q Ctx)" and "length (RxBuffersPhys Ctx) = 32"
    and "\<forall>j < n. v_desc v j BUF_PTR = RxBuffersPhys Ctx ! j \<and> rx_desc_ok j (v_desc v j)"
  shows "\<exists>u' v' q'. fill_rx_ring hw [n..<32] Ctx u = Some (u', Ctx\<lparr>rx_q := q'\<rparr>, 0) \<and> rxs u' v' \<and>
    v_tail v' = 0 \<and> v_wire v' = v_wire v \<and> q_ring 6 0 32 q' \<and>
    q' = (rx_q Ctx)\<lparr>next_desc_idx := next_desc_idx q', desc_ring_id := desc_ring_id q'\<rparr> \<and>
    (\<forall>j < 32. v_desc v' j BUF_PTR = RxBuffersPhys Ctx ! j \<and> rx_desc_ok j (v_desc v' j))"
  using assms
proof (induction "32 - n" arbitrary: n u v Ctx)
  case 0
  then have n: "n = 32" by simp
  have "Ctx = Ctx\<lparr>rx_q := rx_q Ctx\<rparr>" by simp
  then show ?case using 0 n by (intro exI [of _ u] exI [of _ v] exI [of _ "rx_q Ctx"]) simp
next
  case (Suc m)
  have n: "n < 32" using Suc.hyps(2) by simp
  have h: "v_head v = 0" using in_order [OF Suc.prems(1)] Suc.prems(2) by simp
  obtain u1 v1 q1 where a: "al_eth_rx_buffer_add (eh_rx hw) True (rx_q Ctx) (RxBuffersPhys Ctx ! n, AL_ETH_RX_BUF_SIZE) AL_M2S_DESC_INT_EN None u = Some (u1, q1, 0)"
    and v1: "rxs u1 v1" "later (v\<lparr>v_desc := v_desc v1\<rparr>) v1" "v_desc v1 (n mod 64) BUF_PTR = RxBuffersPhys Ctx ! n"
      "\<forall>j. j \<noteq> n mod 64 \<longrightarrow> v_desc v1 j = v_desc v j" "rx_desc_ok n (v_desc v1 (n mod 64))"
    and q1: "q_ring 6 0 (Suc n) q1" "q1 = (rx_q Ctx)\<lparr>next_desc_idx := next_desc_idx q1, desc_ring_id := desc_ring_id q1\<rparr>"
    using buffer_add [OF Suc.prems(1,4), of "RxBuffersPhys Ctx ! n"] Suc.prems(2) n h by auto
  have t: "v_tail v1 = 0" "v_head v1 = 0" "v_wire v1 = v_wire v" using v1(2) Suc.prems(2) h by (auto simp: later_def)
  have d: "\<forall>j < Suc n. v_desc v1 j BUF_PTR = RxBuffersPhys (Ctx\<lparr>rx_q := q1\<rparr>) ! j \<and> rx_desc_ok j (v_desc v1 j)"
    using v1(3-5) Suc.prems(6) n by (simp add: less_Suc_eq)
  have m: "m = 32 - Suc n" "Suc n \<le> 32" using Suc.hyps(2) n by simp_all
  have p: "q_ring 6 0 (Suc n) (rx_q (Ctx\<lparr>rx_q := q1\<rparr>))" "length (RxBuffersPhys (Ctx\<lparr>rx_q := q1\<rparr>)) = 32"
    using q1(1) Suc.prems(5) by simp_all
  obtain u2 v2 q2 where f: "fill_rx_ring hw [Suc n..<32] (Ctx\<lparr>rx_q := q1\<rparr>) u1 = Some (u2, Ctx\<lparr>rx_q := q2\<rparr>, 0)"
    and v2: "rxs u2 v2" "v_tail v2 = 0" "v_wire v2 = v_wire v1" "q_ring 6 0 32 q2"
      "q2 = q1\<lparr>next_desc_idx := next_desc_idx q2, desc_ring_id := desc_ring_id q2\<rparr>"
      "\<forall>j < 32. v_desc v2 j BUF_PTR = RxBuffersPhys Ctx ! j \<and> rx_desc_ok j (v_desc v2 j)"
    using Suc.hyps(1) [OF m(1) v1(1) t(1) m(2) p d] by (simp, blast)
  have "q2 = (rx_q Ctx)\<lparr>next_desc_idx := next_desc_idx q2, desc_ring_id := desc_ring_id q2\<rparr>"
    by (subst v2(5), subst q1(2)) simp
  moreover have "fill_rx_ring hw [n..<32] Ctx u = Some (u2, Ctx\<lparr>rx_q := q2\<rparr>, 0)"
    using a f n by (simp add: upt_conv_Cons)
  ultimately show ?case using v2(1,2,4,6) v2(3) [unfolded t(3)] by blast
qed

text \<open>The 32 buffers are in the ring, and nothing was received yet by the driver.\<close>

lemma start_ring:
  assumes "rxs u v" and "v_tail v = 0" and "q_ring 6 0 0 (rx_q Ctx)" and "q_comp 6 0 (rx_q Ctx)"
    and "adapter_rev_id (rx_q Ctx) = 2" and "rx_bufs Ctx"
  shows "\<exists>u1 q u2 v2. fill_rx_ring hw rx_indices Ctx u = Some (u1, Ctx\<lparr>rx_q := q\<rparr>, 0) \<and>
    al_eth_rx_buffer_action (eh_rx hw) q AL_ETH_NUM_RX_DESC u1 = Some u2 \<and> rxs u2 v2 \<and> pending v2 0 = v_wire v \<and>
    rx_ready (Ctx\<lparr>rx_q := q, RxBufTailIdx := 0, State := EfiSimpleNetworkInitialized\<rparr>) v2 0"
proof -
  obtain u1 v1 q where f: "fill_rx_ring hw [0..<32] Ctx u = Some (u1, Ctx\<lparr>rx_q := q\<rparr>, 0)" and v1: "rxs u1 v1"
      "v_tail v1 = 0" "v_wire v1 = v_wire v" "\<forall>j < 32. v_desc v1 j BUF_PTR = RxBuffersPhys Ctx ! j \<and> rx_desc_ok j (v_desc v1 j)"
    and q: "q_ring 6 0 32 q" "q = (rx_q Ctx)\<lparr>next_desc_idx := next_desc_idx q, desc_ring_id := desc_ring_id q\<rparr>"
    using fill_ring [OF assms(1,2) _ assms(3)] assms(6) by (auto simp: rx_bufs_def)
  have h: "v_head v1 = 0" using in_order [OF v1(1)] v1(2) by simp
  obtain v2 where v2: "later (kicked 32 v1) v2" "rxs (uo_write (eh_rx hw) DRTP_INC 32 u1) v2"
    using kick [OF v1(1), of 32] v1(2,4) by auto
  have "(32 :: u32) \<le> q_size q" using q(1) by (simp add: q_ring_def word_le_nat_alt)
  then have a: "al_eth_rx_buffer_action (eh_rx hw) q AL_ETH_NUM_RX_DESC u1 = Some (uo_write (eh_rx hw) DRTP_INC 32 u1)"
    by (simp add: al_eth_rx_buffer_action_def al_udma_desc_action_add_def eth_consts(1))
  have p: "pending v2 0 = v_wire v"
    using later_pending [OF v2(1), of 0] v1(3) h by (simp add: pending_def kicked_def)
  have "q_comp 6 0 q" "adapter_rev_id q = 2" using assms(4,5) by (subst q(2); simp add: q_comp_def)+
  moreover have "v_tail v2 = 32" "\<forall>k < 32. v_addr v2 k = RxBuffersPhys Ctx ! k"
    using v2(1) v1(2,4) h by (auto simp: later_def kicked_def)
  ultimately have "rx_ready (Ctx\<lparr>rx_q := q, RxBufTailIdx := 0, State := EfiSimpleNetworkInitialized\<rparr>) v2 0"
    using assms(6) q(1) by (simp add: rx_ready_def rx_bufs_def)
  moreover have "rx_indices = [0..<32]" by (simp add: rx_indices_def eth_consts(1))
  ultimately show ?thesis using f a v2(2) p by auto
qed

end

subsection \<open>A sequence of calls\<close>

text \<open>\<open>n\<close> calls with a buffer that is large enough, and what they deliver.\<close>

fun receive_n :: "'u eth_hw \<Rightarrow> nat \<Rightarrow> eth_ctx \<Rightarrow> 'u \<Rightarrow> ('u \<times> eth_ctx \<times> rx_out list) option" where
  "receive_n hw 0 Ctx u = Some (u, Ctx, [])"
| "receive_n hw (Suc n) Ctx u = do {
     (u1, Ctx1, _, _, out) \<leftarrow> AlEthNextSnpReceive hw True (Some 2048) Ctx u;
     (u2, Ctx2, outs) \<leftarrow> receive_n hw n Ctx1 u1;
     Some (u2, Ctx2, (case out of None \<Rightarrow> outs | Some x \<Rightarrow> x # outs))
   }"

text \<open>A frame that is delivered.\<close>

definition rx_good :: "rx_frame \<Rightarrow> bool" where
  "rx_good fr = (\<not> fr_error fr \<and> 14 \<le> length (fr_data fr))"

lemma rx_spec_good:
  assumes "length (fr_data fr) \<le> 2048"
  shows "snd (snd (rx_spec 2048 fr)) = (if rx_good fr then Some (rx_fields (fr_data fr)) else None)"
proof -
  have "unat (of_nat (length (fr_data fr)) :: u64) = length (fr_data fr)" using assms by (simp add: unat_of_nat)
  then have "\<not> (2048 :: u64) < of_nat (length (fr_data fr))" using assms by (simp add: word_less_nat_alt)
  then show ?thesis by (auto simp: rx_spec_def rx_good_def)
qed

context rx_engine
begin

lemma receive_all:
  assumes "rxs u v" and "rx_ready Ctx v c" and "\<forall>fr \<in> set (pending v c). length (fr_data fr) \<le> 2048"
  shows "\<exists>u' Ctx' v' frs. receive_n hw n Ctx u = Some (u', Ctx', map (\<lambda>fr. rx_fields (fr_data fr)) (filter rx_good frs)) \<and>
    rxs u' v' \<and> rx_ready Ctx' v' (c + length frs) \<and> pending v c = frs @ pending v' (c + length frs) \<and>
    length frs \<le> n \<and> min n (v_head v - c) \<le> length frs \<and> (live \<longrightarrow> frs = take n (pending v c))"
  using assms
proof (induction n arbitrary: u v Ctx c)
  case 0
  then show ?case by (intro exI [of _ u] exI [of _ Ctx] exI [of _ v] exI [of _ "[]"]) simp
next
  case (Suc n)
  obtain u1 Ctx1 v1 where v1: "rxs u1 v1" "v_head v \<le> v_head v1" and
    "(v_head v = c \<and> AlEthNextSnpReceive hw True (Some 2048) Ctx u = Some (u1, Ctx1, EFI_NOT_READY, Some 2048, None) \<and>
      rx_ready Ctx1 v1 c \<and> pending v1 c = pending v c \<and> (live \<longrightarrow> pending v c = [])) \<or>
     (\<exists>fr. AlEthNextSnpReceive hw True (Some 2048) Ctx u =
        (case rx_spec 2048 fr of (Status, Size', out) \<Rightarrow> Some (u1, Ctx1, Status, Some Size', out)) \<and>
      rx_ready Ctx1 v1 (Suc c) \<and> pending v c = fr # pending v1 (Suc c))"
    using receive_step [OF Suc.prems(1,2), of 2048] by blast
  then show ?case
  proof (elim disjE exE conjE)
    assume a: "v_head v = c" "AlEthNextSnpReceive hw True (Some 2048) Ctx u = Some (u1, Ctx1, EFI_NOT_READY, Some 2048, None)"
      "rx_ready Ctx1 v1 c" "pending v1 c = pending v c" "live \<longrightarrow> pending v c = []"
    have "\<forall>fr \<in> set (pending v1 c). length (fr_data fr) \<le> 2048" using Suc.prems(3) a(4) by simp
    then obtain u2 Ctx2 v2 frs where IH: "receive_n hw n Ctx1 u1 = Some (u2, Ctx2, map (\<lambda>fr. rx_fields (fr_data fr)) (filter rx_good frs))"
        "rxs u2 v2" "rx_ready Ctx2 v2 (c + length frs)" "pending v1 c = frs @ pending v2 (c + length frs)"
        "length frs \<le> n" "live \<longrightarrow> frs = take n (pending v1 c)"
      using Suc.IH [OF v1(1) a(3)] by blast
    have "receive_n hw (Suc n) Ctx u = Some (u2, Ctx2, map (\<lambda>fr. rx_fields (fr_data fr)) (filter rx_good frs))"
      using a(2) IH(1) by simp
    moreover have "live \<longrightarrow> frs = take (Suc n) (pending v c)" using IH(4) a(4,5) by auto
    ultimately show ?thesis using IH(2-5) a(1,4)
      by (intro exI [of _ u2] exI [of _ Ctx2] exI [of _ v2] exI [of _ frs]) simp
  next
    fix fr
    assume a: "AlEthNextSnpReceive hw True (Some 2048) Ctx u =
        (case rx_spec 2048 fr of (Status, Size', out) \<Rightarrow> Some (u1, Ctx1, Status, Some Size', out))"
      "rx_ready Ctx1 v1 (Suc c)" "pending v c = fr # pending v1 (Suc c)"
    have "\<forall>fr \<in> set (pending v1 (Suc c)). length (fr_data fr) \<le> 2048" using Suc.prems(3) a(3) by simp
    then obtain u2 Ctx2 v2 frs where IH: "receive_n hw n Ctx1 u1 = Some (u2, Ctx2, map (\<lambda>fr. rx_fields (fr_data fr)) (filter rx_good frs))"
        "rxs u2 v2" "rx_ready Ctx2 v2 (Suc c + length frs)" "pending v1 (Suc c) = frs @ pending v2 (Suc c + length frs)"
        "length frs \<le> n" "min n (v_head v1 - Suc c) \<le> length frs" "live \<longrightarrow> frs = take n (pending v1 (Suc c))"
      using Suc.IH [OF v1(1) a(2)] by blast
    obtain st sz out where r: "rx_spec 2048 fr = (st, sz, out)" by (cases "rx_spec 2048 fr")
    have "out = (if rx_good fr then Some (rx_fields (fr_data fr)) else None)"
      using rx_spec_good [of fr] Suc.prems(3) a(3) r by simp
    then have "receive_n hw (Suc n) Ctx u = Some (u2, Ctx2, map (\<lambda>fr. rx_fields (fr_data fr)) (filter rx_good (fr # frs)))"
      using a(1) r IH(1) by simp
    moreover have "min (Suc n) (v_head v - c) \<le> length (fr # frs)" using IH(6) v1(2) by simp
    ultimately show ?thesis using IH(2-5,7) a(3)
      by (intro exI [of _ u2] exI [of _ Ctx2] exI [of _ v2] exI [of _ "fr # frs"]) simp
  qed
qed

end

end
