(* ===== verification/EthTx.thy ===== *)
theory EthTx
  imports AlEthNext UdmaRing
begin

text \<open>
  Transmission. The contract of the transmit engine, the locale \<open>tx_engine\<close>: it sends the packets of the
  descriptors in order, reading their buffers when it sends them, and may advance at every access, and does so
  at every look at its progress if it is \<open>live\<close>. From the contract: \<open>Transmit\<close> puts one frame on the wire whenever it succeeds, and \<open>GetStatus\<close> gives back a buffer
  once it was sent.
\<close>

unbundle bit_operations_syntax

subsection \<open>The engine's view\<close>

text \<open>The numbers of descriptors sent and submitted, the descriptors, memory, and the frames sent.\<close>

record tx_view =
  t_head :: nat
  t_tail :: nat
  t_desc :: "nat \<Rightarrow> desc_field \<Rightarrow> u64"
  t_mem :: "u64 \<Rightarrow> u8"
  t_sent :: "bytes list"

definition bytes_at :: "(u64 \<Rightarrow> u8) \<Rightarrow> u64 \<Rightarrow> nat \<Rightarrow> bytes" where
  "bytes_at m a n = map (\<lambda>i. m (a + of_nat i)) [0..<n]"

definition stored_at :: "u64 \<Rightarrow> bytes \<Rightarrow> (u64 \<Rightarrow> u8) \<Rightarrow> u64 \<Rightarrow> u8" where
  "stored_at a bs m p = (let i = unat (p - a) in if i < length bs then bs ! i else m p)"

text \<open>The packet of the descriptor \<open>k\<close>, which has to be in one buffer and to have the ring id of its lap.\<close>

definition tx_frame :: "tx_view \<Rightarrow> nat \<Rightarrow> bytes" where
  "tx_frame v k = bytes_at (t_mem v) (t_desc v (k mod 64) BUF_PTR) (unat (t_desc v (k mod 64) LEN_CTRL AND 0xFFFF))"

definition tx_desc_ok :: "nat \<Rightarrow> (desc_field \<Rightarrow> u64) \<Rightarrow> bool" where
  "tx_desc_ok k d = ((ucast (d LEN_CTRL) :: u32) AND 0x4F000000 = 0x0C000000 OR ring_bits (k div 64))"

text \<open>The engine has sent some of the packets since.\<close>

definition tx_later :: "tx_view \<Rightarrow> tx_view \<Rightarrow> bool" where
  "tx_later v v' = (t_head v \<le> t_head v' \<and> t_head v' \<le> t_tail v \<and> t_tail v' = t_tail v \<and> t_desc v' = t_desc v \<and>
     t_mem v' = t_mem v \<and> t_sent v' = t_sent v @ map (tx_frame v) [t_head v..<t_head v'])"

lemma tx_later_refl: "t_head v \<le> t_tail v \<Longrightarrow> tx_later v v"
  by (simp add: tx_later_def)

lemma tx_later_frame: "tx_later v v' \<Longrightarrow> tx_frame v' = tx_frame v"
  by (rule ext) (simp add: tx_later_def tx_frame_def)

lemma tx_later_trans:
  assumes "tx_later v v1" and "tx_later v1 v2"
  shows "tx_later v v2"
proof -
  have "t_head v \<le> t_head v1" "t_head v1 \<le> t_head v2" using assms by (simp_all add: tx_later_def)
  then have "[t_head v..<t_head v2] = [t_head v..<t_head v1] @ [t_head v1..<t_head v2]"
    by (metis le_Suc_ex upt_add_eq_append)
  then show ?thesis using assms tx_later_frame [OF assms(1)] by (simp add: tx_later_def)
qed

text \<open>What was sent, with what is queued.\<close>

definition traffic :: "tx_view \<Rightarrow> bytes list" where
  "traffic v = t_sent v @ map (tx_frame v) [t_head v..<t_tail v]"

lemma tx_later_traffic:
  assumes "tx_later v v'"
  shows "traffic v' = traffic v"
proof -
  have "t_head v \<le> t_head v'" "t_head v' \<le> t_tail v" using assms by (simp_all add: tx_later_def)
  then have "[t_head v..<t_tail v] = [t_head v..<t_head v'] @ [t_head v'..<t_tail v]"
    by (metis le_Suc_ex upt_add_eq_append)
  then show ?thesis using assms tx_later_frame [OF assms] by (simp add: tx_later_def traffic_def)
qed

locale tx_engine =
  fixes hw :: "'u eth_hw" and txs :: "'u \<Rightarrow> tx_view \<Rightarrow> bool" and live :: bool
  assumes progress: "txs u v \<Longrightarrow> uo_read (eh_tx hw) CRHP u = (u', x) \<Longrightarrow>
      \<exists>v'. tx_later v v' \<and> txs u' v' \<and> unat (x AND 0xFFFF) = t_head v' mod 64 \<and>
        (live \<and> t_head v < t_tail v \<longrightarrow> t_head v < t_head v')"
    and fill: "txs u v \<Longrightarrow> i < 64 \<Longrightarrow> (\<And>k. t_head v \<le> k \<Longrightarrow> k < t_tail v \<Longrightarrow> k mod 64 \<noteq> i) \<Longrightarrow>
      \<exists>v'. tx_later (v\<lparr>t_desc := (t_desc v)(i := (t_desc v i)(fld := y))\<rparr>) v' \<and> txs (uo_set_desc (eh_tx hw) i fld y u) v'"
    and kick: "txs u v \<Longrightarrow> t_tail v + unat n \<le> t_head v + 64 \<Longrightarrow>
      (\<And>k. t_tail v \<le> k \<Longrightarrow> k < t_tail v + unat n \<Longrightarrow> tx_desc_ok k (t_desc v (k mod 64))) \<Longrightarrow>
      \<exists>v'. tx_later (v\<lparr>t_tail := t_tail v + unat n\<rparr>) v' \<and> txs (uo_write (eh_tx hw) DRTP_INC n u) v'"
    and store: "txs u v \<Longrightarrow> t_head v = t_tail v \<Longrightarrow>
      \<exists>v'. tx_later (v\<lparr>t_mem := stored_at a bs (t_mem v)\<rparr>) v' \<and> txs (eh_store hw a bs u) v'"
    and mac: "txs u v \<Longrightarrow> eh_mac_read hw r u = (u', z) \<Longrightarrow> \<exists>v'. tx_later v v' \<and> txs u' v'"
    and in_order: "txs u v \<Longrightarrow> t_head v \<le> t_tail v"

subsection \<open>The state of the driver\<close>

text \<open>\<open>c\<close> descriptors were acknowledged; at most one more was submitted.\<close>

definition tx_ready :: "eth_ctx \<Rightarrow> tx_view \<Rightarrow> nat \<Rightarrow> bool" where
  "tx_ready Ctx v c = (State Ctx = EfiSimpleNetworkInitialized \<and> q_ring 6 c (t_tail v) (tx_q Ctx) \<and>
     adapter_rev_id (tx_q Ctx) = 2 \<and> c \<le> t_head v \<and> t_head v \<le> t_tail v \<and>
     t_tail v = (if TxBufInFlight Ctx = 0 then c else Suc c))"

text \<open>The completions are counted and acknowledged.\<close>

lemma comp_count:
  assumes "q_ring 6 c t q" and "unat (x AND 0xFFFF) = h mod 64" and "c \<le> h" and "h - c < 64"
  shows "unat (ucast (((ucast (x AND 0xFFFF) :: u16) - next_cdesc_idx q) AND size_mask q) :: u32) = h - c"
proof -
  have q: "unat (next_cdesc_idx q) = c mod 2 ^ 6" "size_mask q = mask 6" using assms(1) by (simp_all add: q_ring_def)
  have "unat (ucast (x AND 0xFFFF) :: u16) = h mod 2 ^ 6"
    using assms(2) by (simp add: unsigned_ucast_eq take_bit_nat_eq_self)
  then have "unat (((ucast (x AND 0xFFFF) :: u16) - next_cdesc_idx q) AND mask 6) = h - c"
    using ring_diff [OF _ q(1) assms(3)] assms(4) by simp
  then show ?thesis using assms(4) by (simp add: q(2) unsigned_ucast_eq take_bit_nat_eq_self)
qed

context tx_engine
begin

lemma comp_tx_get:
  assumes "txs u v" and "q_ring 6 c (t_tail v) q" and "c \<le> t_head v" and "t_tail v \<le> Suc c"
  shows "\<exists>u' v' q' rc. al_eth_comp_tx_get (eh_tx hw) q u = (u', q', rc) \<and> tx_later v v' \<and> txs u' v' \<and>
    unat rc = t_head v' - c \<and> q_ring 6 (t_head v') (t_tail v) q' \<and> adapter_rev_id q' = adapter_rev_id q \<and>
    (live \<and> c < t_tail v \<longrightarrow> 0 < rc)"
proof -
  obtain u' x where r: "uo_read (eh_tx hw) CRHP u = (u', x)" by fastforce
  obtain v' where v': "tx_later v v'" "txs u' v'" "unat (x AND 0xFFFF) = t_head v' mod 64"
      "live \<and> t_head v < t_tail v \<longrightarrow> t_head v < t_head v'"
    using progress [OF assms(1) r] by blast
  have h: "c \<le> t_head v'" "t_head v' - c < 64" using v'(1) assms(3,4) by (auto simp: tx_later_def)
  define q1 where "q1 = q\<lparr>comp_head_idx := ucast (x AND 0xFFFF)\<rparr>"
  define rc where "rc = (ucast (((ucast (x AND 0xFFFF) :: u16) - next_cdesc_idx q) AND size_mask q) :: u32)"
  have rc: "unat rc = t_head v' - c" unfolding rc_def by (rule comp_count [OF assms(2) v'(3) h])
  have "c < t_head v'" if "live" "c < t_tail v"
    using v'(1,4) that assms(3) by (cases "t_head v < t_tail v") (auto simp: tx_later_def)
  then have lv: "live \<and> c < t_tail v \<longrightarrow> 0 < rc" using rc by (auto simp: word_less_nat_alt)
  have q1: "q_ring 6 c (t_tail v) q1" using assms(2) by (simp add: q1_def q_ring_def)
  have "al_eth_comp_tx_get (eh_tx hw) q u = (u', if rc \<noteq> 0 then al_udma_cdesc_ack q1 rc else q1, rc)"
    using r by (simp add: al_eth_comp_tx_get_def al_udma_cdesc_get_all_def q1_def rc_def Let_def)
  moreover have "q_ring 6 (t_head v') (t_tail v) (if rc \<noteq> 0 then al_udma_cdesc_ack q1 rc else q1)"
  proof (cases "rc = 0")
    case True
    then have "t_head v' = c" using rc h(1) by simp
    then show ?thesis using True q1 by simp
  next
    case False
    have "c + unat rc = t_head v'" using rc h(1) by simp
    then show ?thesis using False cdesc_ack_ring [OF q1, of rc] by simp
  qed
  ultimately show ?thesis using v'(1,2) rc lv
    by (intro exI [of _ u'] exI [of _ v'] exI [of _ "if rc \<noteq> 0 then al_udma_cdesc_ack q1 rc else q1"] exI [of _ rc])
      (simp add: q1_def al_udma_cdesc_ack_def)
qed

text \<open>The buffer that is in flight, and whether it still is.\<close>

lemma reclaim:
  assumes "txs u v" and "tx_ready Ctx v c" and "TxBufInFlight Ctx \<noteq> 0"
  shows "\<exists>u' v' q' rc. al_eth_comp_tx_get (eh_tx hw) (tx_q Ctx) u = (u', q', rc) \<and> tx_later v v' \<and> txs u' v' \<and>
    (if 0 < rc then t_head v' = t_tail v' \<and> tx_ready (Ctx\<lparr>tx_q := q', TxBufInFlight := 0\<rparr>) v' (Suc c)
     else t_head v' = c \<and> tx_ready (Ctx\<lparr>tx_q := q'\<rparr>) v' c) \<and> (live \<longrightarrow> 0 < rc)"
proof -
  have c: "q_ring 6 c (t_tail v) (tx_q Ctx)" "c \<le> t_head v" "t_tail v = Suc c" "adapter_rev_id (tx_q Ctx) = 2"
      "State Ctx = EfiSimpleNetworkInitialized"
    using assms(2,3) by (auto simp: tx_ready_def)
  obtain u' v' q' rc where r: "al_eth_comp_tx_get (eh_tx hw) (tx_q Ctx) u = (u', q', rc)" "tx_later v v'" "txs u' v'"
      "unat rc = t_head v' - c" "q_ring 6 (t_head v') (t_tail v) q'" "adapter_rev_id q' = adapter_rev_id (tx_q Ctx)"
      "live \<and> c < t_tail v \<longrightarrow> 0 < rc"
    using comp_tx_get [OF assms(1) c(1,2)] c(3) by auto
  have h: "c \<le> t_head v'" "t_head v' \<le> Suc c" "t_tail v' = Suc c" using r(2) c(2,3) by (auto simp: tx_later_def)
  have "t_head v' = (if 0 < rc then Suc c else c)" using r(4) h by (auto simp: word_less_nat_alt)
  then show ?thesis using r c h assms(3)
    by (intro exI [of _ u'] exI [of _ v'] exI [of _ q'] exI [of _ rc], cases "0 < rc") (simp_all add: tx_ready_def)
qed

text \<open>One packet in one buffer.\<close>

lemma fill_three:
  assumes "txs u v" and "t_head v = t" and "t_tail v = t"
  defines "i \<equiv> t mod 64"
  shows "\<exists>v'. txs (uo_set_desc (eh_tx hw) i BUF_PTR c (uo_set_desc (eh_tx hw) i META_CTRL b (uo_set_desc (eh_tx hw) i LEN_CTRL a u))) v' \<and>
    tx_later (v\<lparr>t_desc := (t_desc v)(i := (t_desc v i)(LEN_CTRL := a, META_CTRL := b, BUF_PTR := c))\<rparr>) v'"
proof -
  have i: "i < 64" by (simp add: i_def)
  have idle: "t_head w = t \<and> t_tail w = t" if "tx_later w' w" "t_head w' = t" "t_tail w' = t" for w w'
    using that by (auto simp: tx_later_def)
  obtain v1 where v1: "tx_later (v\<lparr>t_desc := (t_desc v)(i := (t_desc v i)(LEN_CTRL := a))\<rparr>) v1" "txs (uo_set_desc (eh_tx hw) i LEN_CTRL a u) v1"
    using fill [OF assms(1) i] assms(2,3) by fastforce
  have w1: "t_head v1 = t \<and> t_tail v1 = t" using idle [OF v1(1)] assms(2,3) by simp
  obtain v2 where v2: "tx_later (v1\<lparr>t_desc := (t_desc v1)(i := (t_desc v1 i)(META_CTRL := b))\<rparr>) v2"
      "txs (uo_set_desc (eh_tx hw) i META_CTRL b (uo_set_desc (eh_tx hw) i LEN_CTRL a u)) v2"
    using fill [OF v1(2) i] w1 by fastforce
  have w2: "t_head v2 = t \<and> t_tail v2 = t" using idle [OF v2(1)] w1 by simp
  obtain v3 where v3: "tx_later (v2\<lparr>t_desc := (t_desc v2)(i := (t_desc v2 i)(BUF_PTR := c))\<rparr>) v3"
      "txs (uo_set_desc (eh_tx hw) i BUF_PTR c (uo_set_desc (eh_tx hw) i META_CTRL b (uo_set_desc (eh_tx hw) i LEN_CTRL a u))) v3"
    using fill [OF v2(2) i] w2 by fastforce
  have w3: "t_head v3 = t \<and> t_tail v3 = t" using idle [OF v3(1)] w2 by simp
  have "tx_later (v\<lparr>t_desc := (t_desc v)(i := (t_desc v i)(LEN_CTRL := a, META_CTRL := b, BUF_PTR := c))\<rparr>) v3"
    using v1(1) v2(1) v3(1) w1 w2 w3 assms(2,3) by (simp add: tx_later_def)
  then show ?thesis using v3(2) by blast
qed

lemma send:
  assumes "txs u v" and "q_ring 6 t t q" and "t_head v = t" and "t_tail v = t" and "adapter_rev_id q = 2"
  shows "\<exists>u1 q1 u2 v2. al_eth_tx_pkt_prepare (eh_tx hw) q (plain_pkt a n) u = Some (u1, q1, 1) \<and>
    al_eth_tx_dma_action (eh_tx hw) q1 1 u1 = Some u2 \<and> txs u2 v2 \<and> q_ring 6 t (Suc t) q1 \<and> adapter_rev_id q1 = 2 \<and>
    t \<le> t_head v2 \<and> t_head v2 \<le> t_tail v2 \<and> t_tail v2 = Suc t \<and> t_mem v2 = t_mem v \<and>
    traffic v2 = traffic v @ [bytes_at (t_mem v) a (unat (n AND 0xFFFF))]"
proof -
  obtain i q1 where g1: "al_udma_desc_get q = (i, q1)" by fastforce
  obtain r q2 where g2: "al_udma_ring_id_get q1 = (r, q2)" by fastforce
  note g = desc_get_ring_id [OF assms(2) g1 g2]
  have i: "i = t mod 64" using g(1) by simp
  have av: "\<not> unat (al_udma_available_get q) < 1" using available_get [OF assms(2)] by simp
  define fl where "fl = (AL_M2S_DESC_FIRST OR AL_M2S_DESC_CONCAT OR push_bit 24 r OR AL_M2S_DESC_LAST OR (n AND 0xFFFF) :: u32)"
  define mc where "mc = tx_meta_ctrl 2 (plain_pkt a n)"
  let ?u1 = "uo_set_desc (eh_tx hw) i BUF_PTR a (uo_set_desc (eh_tx hw) i META_CTRL (ucast mc) (uo_set_desc (eh_tx hw) i LEN_CTRL (ucast fl) u))"
  obtain v1 where v1: "txs ?u1 v1"
      "tx_later (v\<lparr>t_desc := (t_desc v)(i := (t_desc v i)(LEN_CTRL := ucast fl, META_CTRL := ucast mc, BUF_PTR := a))\<rparr>) v1"
    using fill_three [OF assms(1,3,4), of a "ucast mc" "ucast fl"] i by auto
  have w1: "t_head v1 = t" "t_tail v1 = t" "t_mem v1 = t_mem v" "t_sent v1 = t_sent v"
    using v1(2) assms(3,4) by (auto simp: tx_later_def)
  have d1: "t_desc v1 i LEN_CTRL = ucast fl" "t_desc v1 i BUF_PTR = a" using v1(2) by (simp_all add: tx_later_def)
  have p: "al_eth_tx_pkt_prepare (eh_tx hw) q (plain_pkt a n) u = Some (?u1, q2, 1)"
    using av g1 g2 assms(5) by (simp add: al_eth_tx_pkt_prepare_def Let_def plain_pkt_def mc_def fl_def or.assoc)
  have r: "push_bit 24 r = ring_bits (t div 64)" using g(2) by (intro ring_bits_id) simp
  have n: "(n AND 0xFFFF) AND 0x4F000000 = 0" by (simp add: and.assoc)
  have ok: "tx_desc_ok t (t_desc v1 (t mod 64))"
    using ring_bits_cases [of "t div 64"]
    by (elim insertE emptyE) (simp_all add: tx_desc_ok_def i [symmetric] d1 ucast_up_down fl_def r desc_consts bit.conj_disj_distrib2 n)
  have "fl AND 0xFFFF = n AND 0xFFFF"
    using ring_bits_cases [of "t div 64"]
    by (elim insertE emptyE) (simp_all add: fl_def r desc_consts bit.conj_disj_distrib2 and.assoc)
  moreover have "ucast fl AND (0xFFFF :: u64) = ucast (fl AND 0xFFFF)"
    by (rule bit_word_eqI) (auto simp: bit_simps dest: bit_imp_le_length)
  moreover have "unat (n AND 0xFFFF) < 2 ^ LENGTH(32)" by (rule unsigned_less)
  then have "unat (n AND 0xFFFF) < 2 ^ 64" by simp
  then have "unat (ucast (n AND 0xFFFF) :: u64) = unat (n AND 0xFFFF)" by (simp add: unsigned_ucast_eq take_bit_nat_eq_self)
  ultimately have len: "unat (ucast fl AND (0xFFFF :: u64)) = unat (n AND 0xFFFF)" by simp
  obtain v2 where v2: "tx_later (v1\<lparr>t_tail := Suc t\<rparr>) v2" "txs (uo_write (eh_tx hw) DRTP_INC 1 ?u1) v2"
  proof -
    have "tx_desc_ok k (t_desc v1 (k mod 64))" if "t_tail v1 \<le> k" "k < t_tail v1 + unat (1 :: u32)" for k
    proof -
      have "k = t" using that w1(2) by simp
      then show ?thesis using ok by simp
    qed
    then show ?thesis using that kick [OF v1(1), of 1] w1 by auto
  qed
  have "traffic v2 = traffic (v1\<lparr>t_tail := Suc t\<rparr>)" using v2(1) by (rule tx_later_traffic)
  also have "\<dots> = t_sent v @ [bytes_at (t_mem v) a (unat (n AND 0xFFFF))]"
    using w1 d1 len i by (simp add: traffic_def tx_frame_def)
  finally have T: "traffic v2 = traffic v @ [bytes_at (t_mem v) a (unat (n AND 0xFFFF))]" using assms(3,4) by (simp add: traffic_def)
  have "0 < (1 :: u32) \<and> 1 \<le> q_size q2" using g(3) by (auto simp: q_ring_def word_le_nat_alt)
  then have "al_eth_tx_dma_action (eh_tx hw) q2 1 ?u1 = Some (uo_write (eh_tx hw) DRTP_INC 1 ?u1)"
    by (simp add: al_eth_tx_dma_action_def al_udma_desc_action_add_def)
  moreover have "adapter_rev_id q2 = 2" using assms(5) by (subst g(4)) simp
  moreover have "t \<le> t_head v2 \<and> t_head v2 \<le> t_tail v2 \<and> t_tail v2 = Suc t \<and> t_mem v2 = t_mem v"
    using v2(1) w1 by (auto simp: tx_later_def)
  ultimately show ?thesis using p v2(2) g(3) T by blast
qed

end

subsection \<open>Transmit and GetStatus\<close>

text \<open>The header is either in the buffer or made from the arguments; memory with the header.\<close>

definition tx_header_ok :: "u64 \<Rightarrow> bytes option \<Rightarrow> u16 option \<Rightarrow> bool" where
  "tx_header_ok HeaderSize DestAddr Protocol =
     (HeaderSize = 0 \<or> (HeaderSize = MediaHeaderSize \<and> DestAddr \<noteq> None \<and> Protocol \<noteq> None))"

definition tx_memory ::
    "u64 \<Rightarrow> u64 \<Rightarrow> bytes option \<Rightarrow> bytes option \<Rightarrow> u16 option \<Rightarrow> bytes \<Rightarrow> (u64 \<Rightarrow> u8) \<Rightarrow> u64 \<Rightarrow> u8" where
  "tx_memory HeaderSize Buffer SrcAddr DestAddr Protocol Own m =
     (if HeaderSize = 0 then m
      else stored_at Buffer (eth_header (the DestAddr) (case SrcAddr of Some a \<Rightarrow> a | None \<Rightarrow> Own) (the Protocol)) m)"

text \<open>A call adds its frame to the traffic if it succeeds (\<open>ok\<close>), and nothing otherwise.\<close>

definition tx_effect :: "bool \<Rightarrow> u64 \<Rightarrow> u64 \<Rightarrow> u64 \<Rightarrow> bytes option \<Rightarrow> bytes option \<Rightarrow> u16 option \<Rightarrow> eth_ctx \<Rightarrow> tx_view \<Rightarrow> eth_ctx \<Rightarrow> tx_view \<Rightarrow> bool" where
  "tx_effect ok HeaderSize BufferSize Buffer SrcAddr DestAddr Protocol Ctx v Ctx' v' =
     (if ok
      then TxBufInFlight Ctx' = Buffer \<and>
        traffic v' = traffic v @ [bytes_at (tx_memory HeaderSize Buffer SrcAddr DestAddr Protocol (CurrentAddress Ctx) (t_mem v))
          Buffer (unat BufferSize mod 65536)] \<and>
        t_mem v' = tx_memory HeaderSize Buffer SrcAddr DestAddr Protocol (CurrentAddress Ctx) (t_mem v)
      else TxBufInFlight Ctx' \<in> {TxBufInFlight Ctx, 0} \<and> traffic v' = traffic v \<and> t_mem v' = t_mem v)"

context tx_engine
begin

text \<open>Nothing is in flight: the frame is queued.\<close>

lemma transmit_idle:
  assumes "txs u v" and "tx_ready Ctx v c" and "TxBufInFlight Ctx = 0" and "Buffer \<noteq> 0" and "MediaHeaderSize \<le> BufferSize"
    and "tx_header_ok HeaderSize DestAddr Protocol"
  shows "\<exists>u' Ctx' v'. AlEthNextSnpTransmit hw HeaderSize BufferSize Buffer SrcAddr DestAddr Protocol Ctx u = Some (u', Ctx', EFI_SUCCESS) \<and>
    txs u' v' \<and> tx_ready Ctx' v' c \<and> TxBufInFlight Ctx' = Buffer \<and>
    traffic v' = traffic v @ [bytes_at (tx_memory HeaderSize Buffer SrcAddr DestAddr Protocol (CurrentAddress Ctx) (t_mem v))
      Buffer (unat BufferSize mod 65536)] \<and>
    t_mem v' = tx_memory HeaderSize Buffer SrcAddr DestAddr Protocol (CurrentAddress Ctx) (t_mem v)"
proof -
  let ?m = "tx_memory HeaderSize Buffer SrcAddr DestAddr Protocol (CurrentAddress Ctx) (t_mem v)"
  let ?u1 = "if HeaderSize \<noteq> 0 then eh_store hw Buffer (eth_header (the DestAddr)
                (case SrcAddr of Some a \<Rightarrow> a | None \<Rightarrow> CurrentAddress Ctx) (the Protocol)) u else u"
  have c: "q_ring 6 c c (tx_q Ctx)" "t_head v = c" "t_tail v = c" "adapter_rev_id (tx_q Ctx) = 2"
      "State Ctx = EfiSimpleNetworkInitialized"
    using assms(2,3) by (auto simp: tx_ready_def)
  obtain v1 where v1: "txs ?u1 v1" "tx_later (v\<lparr>t_mem := ?m\<rparr>) v1"
  proof (cases "HeaderSize = 0")
    case True
    then have "tx_later (v\<lparr>t_mem := ?m\<rparr>) v" using c by (simp add: tx_memory_def tx_later_def)
    then show ?thesis using that assms(1) True by simp
  next
    case False
    then show ?thesis using that store [OF assms(1)] c(2,3) by (fastforce simp: tx_memory_def)
  qed
  have w1: "t_head v1 = c" "t_tail v1 = c" "t_mem v1 = ?m" "t_sent v1 = t_sent v"
    using v1(2) c by (auto simp: tx_later_def)
  obtain u2 q2 u3 v3 where s: "al_eth_tx_pkt_prepare (eh_tx hw) (tx_q Ctx) (plain_pkt Buffer (ucast BufferSize)) ?u1 = Some (u2, q2, 1)"
      "al_eth_tx_dma_action (eh_tx hw) q2 1 u2 = Some u3" "txs u3 v3" "q_ring 6 c (Suc c) q2" "adapter_rev_id q2 = 2"
      "c \<le> t_head v3" "t_head v3 \<le> t_tail v3" "t_tail v3 = Suc c"
      "traffic v3 = traffic v1 @ [bytes_at ?m Buffer (unat ((ucast BufferSize :: u32) AND 0xFFFF))]" "t_mem v3 = ?m"
    using send [OF v1(1) c(1) w1(1,2) c(4)] w1(3) by metis
  have len: "unat ((ucast BufferSize :: u32) AND 0xFFFF) = unat BufferSize mod 65536"
  proof -
    have "unat ((ucast BufferSize :: u32) AND mask 16) = unat BufferSize mod 2 ^ 16"
      by (simp only: unat_and_mask) (simp add: unsigned_ucast_eq take_bit_eq_mod mod_mod_cancel)
    then show ?thesis by (simp add: mask_eq_exp_minus_1)
  qed
  let ?Ctx = "Ctx\<lparr>tx_q := q2, TxBufInFlight := Buffer, TxGoodFrames := TxGoodFrames Ctx + 1\<rparr>"
  have bs: "\<not> BufferSize < MediaHeaderSize" using assms(5) by simp
  have "AlEthNextSnpTransmit hw HeaderSize BufferSize Buffer SrcAddr DestAddr Protocol Ctx u = Some (u3, ?Ctx, EFI_SUCCESS)"
  proof (cases "HeaderSize = 0")
    case True
    then show ?thesis using s(1,2) assms(3,4) c(5) bs by (simp add: AlEthNextSnpTransmit_def)
  next
    case False
    then have h: "HeaderSize = MediaHeaderSize" "DestAddr \<noteq> None" "Protocol \<noteq> None" "MediaHeaderSize \<noteq> 0"
      using assms(6) by (auto simp: tx_header_ok_def)
    show ?thesis using s(1,2) assms(3,4) c(5) bs h(2-4) unfolding h(1) by (simp add: AlEthNextSnpTransmit_def)
  qed
  moreover have "tx_ready ?Ctx v3 c" using s(4-8) assms(4) c(5) by (simp add: tx_ready_def)
  moreover have "traffic v1 = traffic v" using w1 c by (simp add: traffic_def)
  ultimately show ?thesis using s(3,9,10) len by (intro exI [of _ u3] exI [of _ ?Ctx] exI [of _ v3]) simp
qed

text \<open>Nothing is in flight: all outcomes.\<close>

lemma transmit_free:
  assumes "txs u v" and "tx_ready Ctx v c" and "TxBufInFlight Ctx = 0" and "Buffer \<noteq> 0" and "MediaHeaderSize \<le> BufferSize"
  shows "\<exists>u' Ctx' v'. AlEthNextSnpTransmit hw HeaderSize BufferSize Buffer SrcAddr DestAddr Protocol Ctx u =
      Some (u', Ctx', if tx_header_ok HeaderSize DestAddr Protocol then EFI_SUCCESS else EFI_INVALID_PARAMETER) \<and>
    txs u' v' \<and> tx_ready Ctx' v' c \<and>
    tx_effect (tx_header_ok HeaderSize DestAddr Protocol) HeaderSize BufferSize Buffer SrcAddr DestAddr Protocol Ctx v Ctx' v'"
proof (cases "tx_header_ok HeaderSize DestAddr Protocol")
  case True
  then show ?thesis using transmit_idle [OF assms, of HeaderSize DestAddr Protocol SrcAddr] by (fastforce simp: tx_effect_def)
next
  case False
  have "\<not> BufferSize < MediaHeaderSize" using assms(5) by simp
  then have "AlEthNextSnpTransmit hw HeaderSize BufferSize Buffer SrcAddr DestAddr Protocol Ctx u = Some (u, Ctx, EFI_INVALID_PARAMETER)"
    using assms(2-4) False by (auto simp: AlEthNextSnpTransmit_def tx_header_ok_def tx_ready_def)
  then show ?thesis using assms(1,2) False by (intro exI [of _ u] exI [of _ Ctx] exI [of _ v]) (simp add: tx_effect_def)
qed

text \<open>All outcomes of \<open>Transmit\<close>, with the status.\<close>

lemma transmit_step:
  assumes "txs u v" and "tx_ready Ctx v c"
  shows "\<exists>u' Ctx' Status v' c'. AlEthNextSnpTransmit hw HeaderSize BufferSize Buffer SrcAddr DestAddr Protocol Ctx u = Some (u', Ctx', Status) \<and>
    txs u' v' \<and> tx_ready Ctx' v' c' \<and>
    (if Buffer = 0 then Status = EFI_INVALID_PARAMETER
     else if BufferSize < MediaHeaderSize then Status = EFI_BUFFER_TOO_SMALL
     else if Status = EFI_NOT_READY then TxBufInFlight Ctx \<noteq> 0 \<and> t_head v < t_tail v \<and> \<not> live
     else Status = (if tx_header_ok HeaderSize DestAddr Protocol then EFI_SUCCESS else EFI_INVALID_PARAMETER)) \<and>
    tx_effect (Status = EFI_SUCCESS) HeaderSize BufferSize Buffer SrcAddr DestAddr Protocol Ctx v Ctx' v'"
proof -
  have init: "State Ctx = EfiSimpleNetworkInitialized" using assms(2) by (simp add: tx_ready_def)
  let ?T = "AlEthNextSnpTransmit hw HeaderSize BufferSize Buffer SrcAddr DestAddr Protocol"
  let ?E = "\<lambda>b. tx_effect b HeaderSize BufferSize Buffer SrcAddr DestAddr Protocol"
  have none: "?E False Ctx v Ctx v" by (simp add: tx_effect_def)
  consider "Buffer = 0" | "Buffer \<noteq> 0" "BufferSize < MediaHeaderSize"
    | "Buffer \<noteq> 0" "\<not> BufferSize < MediaHeaderSize" "TxBufInFlight Ctx = 0"
    | "Buffer \<noteq> 0" "\<not> BufferSize < MediaHeaderSize" "TxBufInFlight Ctx \<noteq> 0"
    by fastforce
  then show ?thesis
  proof cases
    case 1
    then have "?T Ctx u = Some (u, Ctx, EFI_INVALID_PARAMETER)" using init by (simp add: AlEthNextSnpTransmit_def)
    then show ?thesis using assms 1 none by fastforce
  next
    case 2
    then have "?T Ctx u = Some (u, Ctx, EFI_BUFFER_TOO_SMALL)" using init by (simp add: AlEthNextSnpTransmit_def)
    then show ?thesis using assms 2 none by fastforce
  next
    case 3
    then show ?thesis using transmit_free [OF assms 3(3,1), of BufferSize HeaderSize SrcAddr DestAddr Protocol]
      by (cases "tx_header_ok HeaderSize DestAddr Protocol") fastforce+
  next
    case 4
    obtain u1 v1 q1 rc where r: "al_eth_comp_tx_get (eh_tx hw) (tx_q Ctx) u = (u1, q1, rc)" "tx_later v v1" "txs u1 v1"
        "if 0 < rc then t_head v1 = t_tail v1 \<and> tx_ready (Ctx\<lparr>tx_q := q1, TxBufInFlight := 0\<rparr>) v1 (Suc c)
         else t_head v1 = c \<and> tx_ready (Ctx\<lparr>tx_q := q1\<rparr>) v1 c" "live \<longrightarrow> 0 < rc"
      using reclaim [OF assms 4(3)] by blast
    have tr: "traffic v1 = traffic v" "t_mem v1 = t_mem v" using r(2) tx_later_traffic by (auto simp: tx_later_def)
    show ?thesis
    proof (cases "0 < rc")
      case False
      have "?T Ctx u = Some (u1, Ctx\<lparr>tx_q := q1\<rparr>, EFI_NOT_READY)"
        using r(1) False init 4 by (simp add: AlEthNextSnpTransmit_def)
      moreover have "t_head v < t_tail v" using r(2,4) False 4(3) assms(2) by (auto simp: tx_later_def tx_ready_def)
      moreover have "?E False Ctx v (Ctx\<lparr>tx_q := q1\<rparr>) v1" using tr by (simp add: tx_effect_def)
      ultimately show ?thesis using r(3,4,5) False 4 by fastforce
    next
      case True
      let ?C = "Ctx\<lparr>tx_q := q1, TxBufInFlight := 0\<rparr>"
      have T: "?T Ctx u = ?T ?C u1" using r(1) True init 4 by (simp add: AlEthNextSnpTransmit_def)
      have E: "?E b ?C v1 C' v' \<Longrightarrow> ?E b Ctx v C' v'" for b C' v' using tr by (auto simp: tx_effect_def)
      have rd: "tx_ready ?C v1 (Suc c)" using r(4) True by simp
      show ?thesis using transmit_free [OF r(3) rd _ 4(1), of BufferSize HeaderSize SrcAddr DestAddr Protocol] 4(1,2) E unfolding T
        by (cases "tx_header_ok HeaderSize DestAddr Protocol") fastforce+
    qed
  qed
qed

text \<open>A buffer that is given back was sent.\<close>

lemma get_status_step:
  assumes "txs u v" and "tx_ready Ctx v c"
  shows "\<exists>u' Ctx' buf v' c'. AlEthNextSnpGetStatus hw True Ctx u = (u', Ctx', EFI_SUCCESS, Some buf) \<and> txs u' v' \<and>
    tx_ready Ctx' v' c' \<and> traffic v' = traffic v \<and>
    (if buf = 0 then TxBufInFlight Ctx' = TxBufInFlight Ctx \<and> (TxBufInFlight Ctx = 0 \<or> t_head v < t_tail v \<and> \<not> live)
     else buf = TxBufInFlight Ctx \<and> TxBufInFlight Ctx' = 0 \<and> t_head v' = t_tail v')"
proof -
  have init: "State Ctx = EfiSimpleNetworkInitialized" using assms(2) by (simp add: tx_ready_def)
  have mac': "\<exists>u2 RgmiiStat v2. eh_mac_read hw MAC_GEN_RGMII_STAT w = (u2, RgmiiStat) \<and> tx_later z v2 \<and> txs u2 v2" if "txs w z" for w z
    using mac [OF that] by (cases "eh_mac_read hw MAC_GEN_RGMII_STAT w") fastforce
  have keep: "tx_ready (C\<lparr>MediaPresent := b\<rparr>) z' k" if "tx_ready C z k" "tx_later z z'" for C b z z' k
    using that by (auto simp: tx_ready_def tx_later_def)
  show ?thesis
  proof (cases "TxBufInFlight Ctx = 0")
    case True
    obtain u2 st v2 where m: "eh_mac_read hw MAC_GEN_RGMII_STAT u = (u2, st)" "tx_later v v2" "txs u2 v2"
      using mac' [OF assms(1)] by blast
    have "AlEthNextSnpGetStatus hw True Ctx u = (u2, Ctx\<lparr>MediaPresent := (st AND RGMII_STAT_LINK \<noteq> 0)\<rparr>, EFI_SUCCESS, Some 0)"
      using True init m(1) by (simp add: AlEthNextSnpGetStatus_def)
    then show ?thesis using keep [OF assms(2) m(2)] m(2,3) tx_later_traffic True by fastforce
  next
    case False
    obtain u1 v1 q1 rc where r: "al_eth_comp_tx_get (eh_tx hw) (tx_q Ctx) u = (u1, q1, rc)" "tx_later v v1" "txs u1 v1"
        "if 0 < rc then t_head v1 = t_tail v1 \<and> tx_ready (Ctx\<lparr>tx_q := q1, TxBufInFlight := 0\<rparr>) v1 (Suc c)
         else t_head v1 = c \<and> tx_ready (Ctx\<lparr>tx_q := q1\<rparr>) v1 c" "live \<longrightarrow> 0 < rc"
      using reclaim [OF assms False] by blast
    obtain u2 st v2 where m: "eh_mac_read hw MAC_GEN_RGMII_STAT u1 = (u2, st)" "tx_later v1 v2" "txs u2 v2"
      using mac' [OF r(3)] by blast
    let ?C = "if 0 < rc then Ctx\<lparr>tx_q := q1, TxBufInFlight := 0\<rparr> else Ctx\<lparr>tx_q := q1\<rparr>"
    have S: "AlEthNextSnpGetStatus hw True Ctx u = (u2, ?C\<lparr>MediaPresent := (st AND RGMII_STAT_LINK \<noteq> 0)\<rparr>, EFI_SUCCESS,
        Some (if 0 < rc then TxBufInFlight Ctx else 0))"
      using False init m(1) r(1) by (simp add: AlEthNextSnpGetStatus_def)
    have rd: "tx_ready ?C v1 (if 0 < rc then Suc c else c)" using r(4) by (simp split: if_splits)
    have tr: "traffic v2 = traffic v" using r(2) m(2) tx_later_traffic by metis
    have lt: "t_head v < t_tail v \<and> \<not> live" if "\<not> 0 < rc" using r(2,4,5) that False assms(2) by (auto simp: tx_later_def tx_ready_def)
    have dn: "t_head v2 = t_tail v2" if "0 < rc" using r(4) m(2) that by (auto simp: tx_later_def)
    show ?thesis
      using S m(3) keep [OF rd m(2)] tr lt dn False
      by (intro exI [of _ u2] exI [of _ "?C\<lparr>MediaPresent := (st AND RGMII_STAT_LINK \<noteq> 0)\<rparr>"]
          exI [of _ "if 0 < rc then TxBufInFlight Ctx else 0"] exI [of _ v2] exI [of _ "if 0 < rc then Suc c else c"]) auto
  qed
qed

end

subsection \<open>A sequence of calls\<close>

text \<open>Frames that are ready in their buffers, each with its size; the statuses.\<close>

fun transmit_all :: "'u eth_hw \<Rightarrow> (u64 \<times> u64) list \<Rightarrow> eth_ctx \<Rightarrow> 'u \<Rightarrow> ('u \<times> eth_ctx \<times> efi_status list) option" where
  "transmit_all hw [] Ctx u = Some (u, Ctx, [])"
| "transmit_all hw ((Buffer, BufferSize) # bs) Ctx u = do {
     (u1, Ctx1, Status) \<leftarrow> AlEthNextSnpTransmit hw 0 BufferSize Buffer None None None Ctx u;
     (u2, Ctx2, sts) \<leftarrow> transmit_all hw bs Ctx1 u1;
     Some (u2, Ctx2, Status # sts)
   }"

definition tx_valid :: "u64 \<times> u64 \<Rightarrow> bool" where
  "tx_valid b = (fst b \<noteq> 0 \<and> MediaHeaderSize \<le> snd b)"

context tx_engine
begin

lemma transmit_sequence:
  assumes "txs u v" and "tx_ready Ctx v c" and "list_all tx_valid bs" and live
  shows "\<exists>u' Ctx' v' c'. transmit_all hw bs Ctx u = Some (u', Ctx', replicate (length bs) EFI_SUCCESS) \<and> txs u' v' \<and> tx_ready Ctx' v' c' \<and>
    traffic v' = traffic v @ map (\<lambda>(a, n). bytes_at (t_mem v) a (unat n mod 65536)) bs \<and>
    TxBufInFlight Ctx' = (if bs = [] then TxBufInFlight Ctx else fst (last bs))"
  using assms(1-3)
proof (induction bs arbitrary: u v Ctx c)
  case Nil
  then show ?case by (intro exI [of _ u] exI [of _ Ctx] exI [of _ v] exI [of _ c]) simp
next
  case (Cons b bs)
  obtain a n where b: "b = (a, n)" by fastforce
  have "tx_valid b" and ok': "list_all tx_valid bs" using Cons.prems(3) by simp_all
  then have ok: "a \<noteq> 0" "\<not> n < MediaHeaderSize" by (simp_all add: tx_valid_def b not_less)
  obtain u1 Ctx1 st v1 c1 where t: "AlEthNextSnpTransmit hw 0 n a None None None Ctx u = Some (u1, Ctx1, st)"
      "txs u1 v1" "tx_ready Ctx1 v1 c1" and
      st: "if a = 0 then st = EFI_INVALID_PARAMETER else if n < MediaHeaderSize then st = EFI_BUFFER_TOO_SMALL
        else if st = EFI_NOT_READY then TxBufInFlight Ctx \<noteq> 0 \<and> t_head v < t_tail v \<and> \<not> live
        else st = (if tx_header_ok 0 None None then EFI_SUCCESS else EFI_INVALID_PARAMETER)"
      "tx_effect (st = EFI_SUCCESS) 0 n a None None None Ctx v Ctx1 v1"
    using transmit_step [OF Cons.prems(1,2), of 0 n a None None None] by blast
  have s: "st = EFI_SUCCESS" using st(1) ok assms(4) by (simp add: tx_header_ok_def split: if_splits)
  have e: "traffic v1 = traffic v @ [bytes_at (t_mem v) a (unat n mod 65536)]" "t_mem v1 = t_mem v" "TxBufInFlight Ctx1 = a"
    using st(2) s by (simp_all add: tx_effect_def tx_memory_def)
  obtain u2 Ctx2 v2 c2 where IH: "transmit_all hw bs Ctx1 u1 = Some (u2, Ctx2, replicate (length bs) EFI_SUCCESS)" "txs u2 v2" "tx_ready Ctx2 v2 c2"
      "traffic v2 = traffic v1 @ map (\<lambda>(a, n). bytes_at (t_mem v1) a (unat n mod 65536)) bs"
      "TxBufInFlight Ctx2 = (if bs = [] then TxBufInFlight Ctx1 else fst (last bs))"
    using Cons.IH [OF t(2,3) ok'] by blast
  show ?case using t(1) IH e s by (intro exI [of _ u2] exI [of _ Ctx2] exI [of _ v2] exI [of _ c2]) (simp add: b)
qed

end

end
