(* ===== verification/EthMachine.thy ===== *)
theory EthMachine
  imports EthRxRun EthTx
begin

text \<open>
  A model of the Ethernet adapter: its two DMA engines, memory, a page allocator and a PHY. The receive
  engine takes frames when its descriptors or completions are accessed, the transmit engine sends when its
  registers are; how many at a time is a schedule, \<open>em_pace\<close>. The completion ring is memory of words, apart
  from the buffers. Both contracts are interpreted on the model.
\<close>

unbundle bit_operations_syntax

subsection \<open>State\<close>

record eth_mach =
  em_rx :: rx_view
  em_crbp :: u64
  em_cells :: "u64 \<Rightarrow> u32"
  em_mem :: "u64 \<Rightarrow> u8"
  em_txh :: nat
  em_txt :: nat
  em_txd :: "nat \<Rightarrow> desc_field \<Rightarrow> u64"
  em_sent :: "bytes list"
  em_pace :: "nat \<Rightarrow> nat"
  em_time :: nat
  em_next :: u64
  em_phy :: "u32 \<Rightarrow> u32 \<Rightarrow> u16 option"
  em_mac :: "u32 \<Rightarrow> u32"

definition em_tx :: "eth_mach \<Rightarrow> tx_view" where
  "em_tx m = \<lparr>t_head = em_txh m, t_tail = em_txt m, t_desc = em_txd m, t_mem = em_mem m, t_sent = em_sent m\<rparr>"

text \<open>The address of a word of a completion.\<close>

definition ring_at :: "u64 \<Rightarrow> nat \<Rightarrow> nat \<Rightarrow> u64" where
  "ring_at base i w = base + of_nat (16 * i + 4 * w)"

lemma unat_of_small: "n < 2 ^ 64 \<Longrightarrow> unat (of_nat n :: u64) = n"
  by (simp add: unat_of_nat)

lemma ring_at_eq:
  assumes "i < 64" and "j < 64" and "w < 4" and "x < 4"
  shows "ring_at base i w = ring_at base j x \<longleftrightarrow> i = j \<and> w = x"
proof -
  have "unat (of_nat (16 * i + 4 * w) :: u64) = 16 * i + 4 * w" "unat (of_nat (16 * j + 4 * x) :: u64) = 16 * j + 4 * x"
    using assms by (intro unat_of_small; simp)+
  then have "ring_at base i w = ring_at base j x \<longleftrightarrow> 16 * i + 4 * w = 16 * j + 4 * x"
    unfolding ring_at_def by (metis add_left_cancel)
  also have "\<dots> \<longleftrightarrow> i = j \<and> w = x"
  proof
    assume e: "16 * i + 4 * w = 16 * j + 4 * x"
    have "i = j" using e assms(3,4) by linarith
    then show "i = j \<and> w = x" using e by simp
  qed simp
  finally show ?thesis .
qed

subsection \<open>The receive engine\<close>

text \<open>One frame, if there is one and a buffer for it.\<close>

definition rx_take :: "eth_mach \<Rightarrow> eth_mach" where
  "rx_take m = (let v = em_rx m; h = v_head v in case v_wire v of
     [] \<Rightarrow> m
   | fr # frs \<Rightarrow> if h < v_tail v
       then m\<lparr>em_rx := v\<lparr>v_head := Suc h, v_done := (v_done v)(h := fr), v_wire := frs\<rparr>,
         em_mem := stored_at (v_addr v h) (fr_data fr) (em_mem m),
         em_cells := (em_cells m)(ring_at (em_crbp m) (h mod 64) 0 := rx_word h fr 0, ring_at (em_crbp m) (h mod 64) 1 := rx_word h fr 1)\<rparr>
       else m)"

definition rx_run :: "eth_mach \<Rightarrow> eth_mach" where
  "rx_run m = ((rx_take ^^ em_pace m (em_time m)) m)\<lparr>em_time := Suc (em_time m)\<rparr>"

text \<open>The descriptors are taken if they are all well formed.\<close>

definition rx_kick :: "nat \<Rightarrow> eth_mach \<Rightarrow> eth_mach" where
  "rx_kick n m = (let v = em_rx m in
     if list_all (\<lambda>k. rx_desc_ok k (v_desc v (k mod 64))) [v_tail v..<v_tail v + n]
     then m\<lparr>em_rx := kicked n v\<rparr> else m)"

subsection \<open>The transmit engine\<close>

definition tx_step :: "eth_mach \<Rightarrow> eth_mach" where
  "tx_step m = (if em_txh m < em_txt m \<and> tx_desc_ok (em_txh m) (em_txd m (em_txh m mod 64))
     then m\<lparr>em_txh := Suc (em_txh m), em_sent := em_sent m @ [tx_frame (em_tx m) (em_txh m)]\<rparr> else m)"

definition tx_run :: "eth_mach \<Rightarrow> eth_mach" where
  "tx_run m = ((tx_step ^^ em_pace m (em_time m)) m)\<lparr>em_time := Suc (em_time m)\<rparr>"

subsection \<open>The operations\<close>

definition em_rx_ops :: "eth_mach udma_ops" where
  "em_rx_ops = \<lparr>uo_read = (\<lambda>r m. (m, if r = CRHP \<or> r = DCP then of_nat (v_head (em_rx m) mod 64) else 0)),
     uo_write = (\<lambda>r x m. case r of
         DRTP_INC \<Rightarrow> rx_run (rx_kick (unat x) m)
       | CRBP_LOW \<Rightarrow> m\<lparr>em_crbp := (em_crbp m AND NOT (mask 32)) OR ucast x\<rparr>
       | CRBP_HIGH \<Rightarrow> m\<lparr>em_crbp := (em_crbp m AND mask 32) OR push_bit 32 (ucast x)\<rparr>
       | _ \<Rightarrow> m),
     uo_cdesc = (\<lambda>i w m. let m' = rx_run m in (m', em_cells m' (ring_at (em_crbp m') i w))),
     uo_set_cdesc = (\<lambda>i x m. m\<lparr>em_cells := (em_cells m)(ring_at (em_crbp m) i 0 := x)\<rparr>),
     uo_set_desc = (\<lambda>i fld y m. rx_run (m\<lparr>em_rx := (em_rx m)\<lparr>v_desc :=
       (v_desc (em_rx m))(i := (v_desc (em_rx m) i)(fld := y))\<rparr>\<rparr>)),
     uo_udelay = (\<lambda>_ m. m)\<rparr>"

definition em_tx_ops :: "eth_mach udma_ops" where
  "em_tx_ops = \<lparr>uo_read = (\<lambda>r m.
         if r = CRHP then (let m' = tx_run m in (m', of_nat (em_txh m' mod 64)))
         else (m, if r = DCP then of_nat (em_txh m mod 64) else 0)),
     uo_write = (\<lambda>r x m. if r = DRTP_INC then tx_run (m\<lparr>em_txt := em_txt m + unat x\<rparr>) else m),
     uo_cdesc = (\<lambda>_ _ m. (m, 0)),
     uo_set_cdesc = (\<lambda>_ _ m. m),
     uo_set_desc = (\<lambda>i fld y m. tx_run (m\<lparr>em_txd := (em_txd m)(i := (em_txd m i)(fld := y))\<rparr>)),
     uo_udelay = (\<lambda>_ m. m)\<rparr>"

text \<open>A store of bytes as the words see it.\<close>

definition cells_stored :: "u64 \<Rightarrow> bytes \<Rightarrow> (u64 \<Rightarrow> u32) \<Rightarrow> u64 \<Rightarrow> u32" where
  "cells_stored a bs c p = (let i = unat (p - a) in
     if i + 4 \<le> length bs
     then le32 bs i else c p)"

definition em_hw :: "eth_mach eth_hw" where
  "em_hw = \<lparr>eh_tx = em_tx_ops, eh_rx = em_rx_ops,
     eh_load = (\<lambda>a n m. bytes_at (em_mem m) a n),
     eh_store = (\<lambda>a bs m. m\<lparr>em_mem := stored_at a bs (em_mem m), em_cells := cells_stored a bs (em_cells m)\<rparr>),
     eh_mac_read = (\<lambda>r m. (tx_run m, em_mac m r)),
     eh_mac_write = (\<lambda>r x m. m\<lparr>em_mac := (em_mac m)(r := x)\<rparr>),
     eh_mac_addr_store = (\<lambda>_ m. m),
     eh_alloc = (\<lambda>n m. (m\<lparr>em_next := em_next m + 4096 * of_nat n\<rparr>, EFI_SUCCESS, em_next m)),
     eh_free = (\<lambda>_ _ m. m), eh_adapter_init = (\<lambda>m. (m, 0, 4)), eh_coal_config = (\<lambda>m. (m, 0)),
     eh_mac_config = (\<lambda>m. (m, 0)), eh_rx_pkt_limit = (\<lambda>_ _ m. m), eh_mdio_config = (\<lambda>m. (m, 0)),
     eh_mdio_read = (\<lambda>a r m. (m, em_phy m a r)), eh_mdio_write = (\<lambda>_ _ _ m. m),
     eh_mac_start = (\<lambda>m. m), eh_mac_stop = (\<lambda>m. m), eh_adapter_stop = (\<lambda>m. m), eh_delay = (\<lambda>_ m. m)\<rparr>"

lemmas em_ops = em_hw_def em_rx_ops_def em_tx_ops_def

subsection \<open>The receive contract\<close>

definition rx_ok :: "u64 \<Rightarrow> (u64 \<Rightarrow> u32) \<Rightarrow> (u64 \<Rightarrow> u8) \<Rightarrow> rx_view \<Rightarrow> bool" where
  "rx_ok base cells mem v = (v_head v \<le> v_tail v \<and>
     (\<forall>i < 64. \<forall>w \<le> 1. cells (ring_at base i w) = ring_word v i w) \<and>
     (\<forall>fr \<in> set (v_wire v). length (fr_data fr) \<le> 2048) \<and> (\<forall>k < v_head v. length (fr_data (v_done v k)) \<le> 2048) \<and>
     (\<forall>k < v_head v. (\<forall>j. k < j \<and> j < v_head v \<longrightarrow> apart (v_addr v j) (v_addr v k)) \<longrightarrow>
       bytes_at mem (v_addr v k) (length (fr_data (v_done v k))) = fr_data (v_done v k)))"

definition rx_inv :: "eth_mach \<Rightarrow> bool" where
  "rx_inv m = rx_ok (em_crbp m) (em_cells m) (em_mem m) (em_rx m)"

lemmas rx_inv_defs = rx_inv_def rx_ok_def

text \<open>The completion of the next frame replaces one word of the ring.\<close>

lemma ring_word_take:
  assumes "i < 64" and "v_head v' = Suc (v_head v)" and "v_done v' = (v_done v)(v_head v := fr)"
  shows "ring_word v' i w = (if i = v_head v mod 64 then rx_word (v_head v) fr w else ring_word v i w)"
proof (cases "i = v_head v mod 64")
  case True
  then show ?thesis using ring_word_at [of "v_head v" v' w] assms(2,3) by simp
next
  case False
  show ?thesis
  proof (cases "v_head v \<le> i")
    case le: True
    then have "v_head v \<noteq> i" using False assms(1) by auto
    then show ?thesis using le False assms(2) by (simp add: ring_word_def)
  next
    case gt: False
    have "(v_head v - i) mod 64 \<noteq> 0"
    proof
      assume "(v_head v - i) mod 64 = 0"
      then have "v_head v mod 64 = i mod 64" using gt by (metis mod_eq_dvd_iff_nat dvd_eq_mod_eq_0 nat_le_linear)
      then show False using False assms(1) by simp
    qed
    moreover have "v_head v - i = Suc (v_head v - 1 - i)" using gt by simp
    ultimately have d: "(v_head v - i) div 64 = (v_head v - 1 - i) div 64" by (simp add: div_Suc)
    have "i + 64 * ((v_head v - 1 - i) div 64) \<noteq> v_head v"
    proof
      assume "i + 64 * ((v_head v - 1 - i) div 64) = v_head v"
      then have "v_head v mod 64 = i mod 64" by (metis mod_mult_self2)
      then show False using False assms(1) by simp
    qed
    then show ?thesis using gt False assms(2,3) d by (simp add: ring_word_def Let_def)
  qed
qed

text \<open>Memory after a store.\<close>

lemma bytes_at_stored:
  assumes "length bs < 2 ^ 64"
  shows "bytes_at (stored_at a bs m) a (length bs) = bs"
proof (rule nth_equalityI)
  fix i assume "i < length (bytes_at (stored_at a bs m) a (length bs))"
  then have i: "i < length bs" by (simp add: bytes_at_def)
  then show "bytes_at (stored_at a bs m) a (length bs) ! i = bs ! i"
    using unat_of_small [of i] assms by (simp add: bytes_at_def stored_at_def)
qed (simp add: bytes_at_def)

lemma bytes_at_apart:
  assumes "apart a b" and "length bs \<le> 2048" and "n \<le> 2048"
  shows "bytes_at (stored_at a bs m) b n = bytes_at m b n"
proof -
  have "\<not> unat (b + of_nat y - a) < length bs" if "y < n" for y
  proof
    assume "unat (b + of_nat y - a) < length bs"
    then have "a + of_nat (unat (b + of_nat y - a)) \<noteq> b + of_nat y"
      using assms that unfolding apart_def by (meson less_le_trans)
    then show False by simp
  qed
  then show ?thesis by (simp add: bytes_at_def stored_at_def)
qed

lemma rx_take_step:
  assumes "rx_inv m"
  shows "rx_inv (rx_take m) \<and> later (em_rx m) (em_rx (rx_take m))"
proof (cases "v_wire (em_rx m)")
  case Nil
  then have "rx_take m = m" by (simp add: rx_take_def)
  then show ?thesis using assms later_refl by (simp add: rx_inv_defs)
next
  case (Cons fr frs)
  show ?thesis
  proof (cases "v_head (em_rx m) < v_tail (em_rx m)")
    case False
    then have "rx_take m = m" using Cons by (simp add: rx_take_def)
    then show ?thesis using assms later_refl by (simp add: rx_inv_defs)
  next
    case True
    define v h where "v = em_rx m" and "h = v_head v"
    define v' where "v' = v\<lparr>v_head := Suc h, v_done := (v_done v)(h := fr), v_wire := frs\<rparr>"
    define cs where "cs = (em_cells m)(ring_at (em_crbp m) (h mod 64) 0 := rx_word h fr 0, ring_at (em_crbp m) (h mod 64) 1 := rx_word h fr 1)"
    have m': "rx_take m = m\<lparr>em_rx := v', em_mem := stored_at (v_addr v h) (fr_data fr) (em_mem m), em_cells := cs\<rparr>"
      using Cons True by (simp add: rx_take_def Let_def v'_def v_def h_def cs_def)
    have inv: "h \<le> v_tail v" "\<forall>i < 64. \<forall>w \<le> 1. em_cells m (ring_at (em_crbp m) i w) = ring_word v i w"
        "length (fr_data fr) \<le> 2048" "\<forall>f \<in> set frs. length (fr_data f) \<le> 2048" "\<forall>k < h. length (fr_data (v_done v k)) \<le> 2048"
        "\<forall>k < h. (\<forall>j. k < j \<and> j < h \<longrightarrow> apart (v_addr v j) (v_addr v k)) \<longrightarrow>
          bytes_at (em_mem m) (v_addr v k) (length (fr_data (v_done v k))) = fr_data (v_done v k)"
      using assms Cons by (simp_all add: rx_inv_defs v_def h_def)
    have cells: "cs (ring_at (em_crbp m) i w) = ring_word v' i w" if "i < 64" "w \<le> 1" for i w
    proof -
      have "ring_word v' i w = (if i = h mod 64 then rx_word h fr w else ring_word v i w)"
        using ring_word_take [OF that(1), of v' v fr w] by (simp add: v'_def h_def)
      moreover have "w = 0 \<or> w = 1" using that(2) by auto
      ultimately show ?thesis using that(1) inv(2) ring_at_eq [OF that(1), of "h mod 64" w] by (auto simp: cs_def)
    qed
    have mem: "bytes_at (stored_at (v_addr v h) (fr_data fr) (em_mem m)) (v_addr v k) (length (fr_data (v_done v' k))) = fr_data (v_done v' k)"
      if "k < Suc h" "\<forall>j. k < j \<and> j < Suc h \<longrightarrow> apart (v_addr v j) (v_addr v k)" for k
    proof (cases "k = h")
      case True
      then show ?thesis using bytes_at_stored inv(3) by (simp add: v'_def)
    next
      case False
      then have k: "k < h" using that(1) by simp
      then have "apart (v_addr v h) (v_addr v k)" using that(2) by simp
      then show ?thesis using bytes_at_apart inv(3,5,6) k that(2) False by (simp add: v'_def)
    qed
    have "rx_inv (rx_take m)"
      using True inv cells mem by (auto simp: rx_inv_defs m' v'_def v_def h_def less_Suc_eq)
    moreover have "later v v'" using True Cons by (auto simp: later_def v'_def v_def h_def)
    ultimately show ?thesis by (simp add: m' v_def)
  qed
qed

lemma rx_take_live:
  assumes "v_wire (em_rx m) \<noteq> []" and "v_head (em_rx m) < v_tail (em_rx m)"
  shows "v_head (em_rx (rx_take m)) = Suc (v_head (em_rx m))"
  using assms by (simp add: rx_take_def Let_def split: list.split)

lemma rx_take_keeps: "em_pace (rx_take m) = em_pace m \<and> em_time (rx_take m) = em_time m \<and> em_crbp (rx_take m) = em_crbp m \<and>
    em_txh (rx_take m) = em_txh m \<and> em_txt (rx_take m) = em_txt m"
  by (simp add: rx_take_def Let_def split: list.split)

lemma rx_takes:
  assumes "rx_inv m"
  shows "rx_inv ((rx_take ^^ n) m) \<and> later (em_rx m) (em_rx ((rx_take ^^ n) m)) \<and>
    (0 < n \<and> v_wire (em_rx m) \<noteq> [] \<and> v_head (em_rx m) < v_tail (em_rx m) \<longrightarrow> v_head (em_rx m) < v_head (em_rx ((rx_take ^^ n) m)))"
proof (induction n)
  case 0
  then show ?case using assms later_refl by (simp add: rx_inv_defs)
next
  case (Suc n)
  let ?m = "(rx_take ^^ n) m"
  have s: "rx_inv (rx_take ?m)" "later (em_rx ?m) (em_rx (rx_take ?m))" using rx_take_step Suc.IH by blast+
  have l: "later (em_rx m) (em_rx (rx_take ?m))" using later_trans Suc.IH s(2) by blast
  have "v_head (em_rx m) < v_head (em_rx (rx_take ?m))"
    if "v_wire (em_rx m) \<noteq> []" "v_head (em_rx m) < v_tail (em_rx m)"
  proof (cases "n = 0")
    case True
    then show ?thesis using rx_take_live [OF that] by simp
  next
    case False
    then have "v_head (em_rx m) < v_head (em_rx ?m)" using Suc.IH that by simp
    then show ?thesis using s(2) by (simp add: later_def)
  qed
  then show ?case using s(1) l by simp
qed

text \<open>The view of a machine, which is live if the schedule is never 0; reception leaves the transmit engine as it is.\<close>

definition rx_state :: "bool \<Rightarrow> nat \<times> nat \<Rightarrow> eth_mach \<Rightarrow> rx_view \<Rightarrow> bool" where
  "rx_state b s m v = (em_rx m = v \<and> rx_inv m \<and> (b \<longrightarrow> (\<forall>t. 0 < em_pace m t)) \<and> (em_txh m, em_txt m) = s)"

lemma rx_takes_keep: "em_pace ((rx_take ^^ n) m) = em_pace m \<and> em_time ((rx_take ^^ n) m) = em_time m \<and>
    em_crbp ((rx_take ^^ n) m) = em_crbp m \<and>
    em_txh ((rx_take ^^ n) m) = em_txh m \<and> em_txt ((rx_take ^^ n) m) = em_txt m"
  by (induction n) (simp_all add: rx_take_keeps)

lemma rx_run_step:
  assumes "rx_inv m" and "b \<longrightarrow> (\<forall>t. 0 < em_pace m t)"
  shows "rx_state b (em_txh m, em_txt m) (rx_run m) (em_rx (rx_run m)) \<and> later (em_rx m) (em_rx (rx_run m)) \<and>
    (b \<and> v_wire (em_rx m) \<noteq> [] \<and> v_head (em_rx m) < v_tail (em_rx m) \<longrightarrow> v_head (em_rx m) < v_head (em_rx (rx_run m)))"
  using rx_takes [OF assms(1), of "em_pace m (em_time m)"] assms(2)
  by (auto simp: rx_run_def rx_state_def rx_inv_defs rx_takes_keep)

lemma rx_inv_desc:
  assumes "rx_inv m"
  shows "rx_inv (m\<lparr>em_rx := (em_rx m)\<lparr>v_desc := d\<rparr>\<rparr>)"
  using assms by (simp add: rx_inv_defs ring_word_def)

lemma rx_inv_kicked:
  assumes "rx_inv m"
  shows "rx_inv (m\<lparr>em_rx := kicked n (em_rx m)\<rparr>)"
proof -
  let ?v = "em_rx m"
  have h: "v_head ?v \<le> v_tail ?v" using assms by (simp add: rx_inv_defs)
  have "v_addr (kicked n ?v) k = v_addr ?v k" if "k < v_head ?v" for k using that h by (simp add: kicked_def)
  then show ?thesis using assms h by (simp add: rx_inv_defs ring_word_def kicked_def)
qed

lemma load_prefix:
  assumes "bytes_at m a (length d) = d" and "l \<le> length d"
  shows "bytes_at m a l = take l d"
proof -
  have "take l d = take l (bytes_at m a (length d))" using assms(1) by simp
  then show ?thesis using assms(2) by (simp add: bytes_at_def take_map)
qed

interpretation em_receive: rx_engine em_hw "rx_state b s" b for b s
proof
  fix u u' :: eth_mach and v i w x
  assume "rx_state b s u v" "i < 64" "uo_cdesc (eh_rx em_hw) i w u = (u', x)"
  then show "\<exists>v'. later v v' \<and> rx_state b s u' v' \<and> (w \<le> 1 \<longrightarrow> x = ring_word v' i w) \<and>
      (b \<and> v_wire v \<noteq> [] \<and> v_head v < v_tail v \<longrightarrow> v_head v < v_head v')"
    using rx_run_step [of u b] by (auto simp: em_ops rx_state_def rx_inv_defs Let_def)
next
  fix u :: eth_mach and v i fld y
  assume "rx_state b s u v"
  then show "\<exists>v'. later (v\<lparr>v_desc := (v_desc v)(i := (v_desc v i)(fld := y))\<rparr>) v' \<and> rx_state b s (uo_set_desc (eh_rx em_hw) i fld y u) v'"
    using rx_run_step [OF rx_inv_desc [of u "(v_desc v)(i := (v_desc v i)(fld := y))"], of b] by (auto simp: em_ops rx_state_def)
next
  fix u :: eth_mach and v and n :: u32
  assume a: "rx_state b s u v" "\<And>k. v_tail v \<le> k \<Longrightarrow> k < v_tail v + unat n \<Longrightarrow> rx_desc_ok k (v_desc v (k mod 64))"
  then have "rx_kick (unat n) u = u\<lparr>em_rx := kicked (unat n) v\<rparr>"
    by (auto simp: rx_kick_def rx_state_def Let_def list_all_iff)
  then show "\<exists>v'. later (kicked (unat n) v) v' \<and> rx_state b s (uo_write (eh_rx em_hw) DRTP_INC n u) v'"
    using a(1) rx_run_step [OF rx_inv_kicked [of u "unat n"], of b] by (auto simp: em_ops rx_state_def)
next
  fix u :: eth_mach and v k l
  assume "rx_state b s u v" "k < v_head v" "\<And>j. k < j \<Longrightarrow> j < v_head v \<Longrightarrow> apart (v_addr v j) (v_addr v k)" "l \<le> length (fr_data (v_done v k))"
  then show "eh_load em_hw (v_addr v k) l u = take l (fr_data (v_done v k))"
    by (auto simp: em_ops rx_state_def rx_inv_defs intro: load_prefix)
next
  fix u :: eth_mach and v k
  assume "rx_state b s u v" "k < v_head v"
  then show "length (fr_data (v_done v k)) \<le> 2048" by (auto simp: rx_state_def rx_inv_defs)
next
  fix u :: eth_mach and v
  assume "rx_state b s u v"
  then show "v_head v \<le> v_tail v" by (auto simp: rx_state_def rx_inv_defs)
qed

subsection \<open>The transmit contract\<close>

definition tx_state :: "bool \<Rightarrow> eth_mach \<Rightarrow> tx_view \<Rightarrow> bool" where
  "tx_state b m v = (em_tx m = v \<and> em_txh m \<le> em_txt m \<and> (b \<longrightarrow> (\<forall>t. 0 < em_pace m t)) \<and>
     (\<forall>k. em_txh m \<le> k \<and> k < em_txt m \<longrightarrow> tx_desc_ok k (em_txd m (k mod 64))))"

lemma tx_step_state:
  assumes "tx_state b m v"
  shows "tx_state b (tx_step m) (em_tx (tx_step m)) \<and> tx_later (em_tx m) (em_tx (tx_step m)) \<and>
    (em_txh m < em_txt m \<longrightarrow> em_txh m < em_txh (tx_step m))"
  using assms by (auto simp: tx_state_def tx_step_def em_tx_def tx_later_def)

lemma tx_run_state:
  assumes "tx_state b m v"
  shows "tx_state b (tx_run m) (em_tx (tx_run m)) \<and> tx_later v (em_tx (tx_run m)) \<and>
    (b \<and> t_head v < t_tail v \<longrightarrow> t_head v < t_head (em_tx (tx_run m)))"
proof -
  have v: "em_tx m = v" "t_head v = em_txh m" "t_tail v = em_txt m" using assms by (auto simp: tx_state_def em_tx_def)
  have n: "tx_state b ((tx_step ^^ n) m) (em_tx ((tx_step ^^ n) m)) \<and> tx_later v (em_tx ((tx_step ^^ n) m)) \<and>
      (0 < n \<and> em_txh m < em_txt m \<longrightarrow> em_txh m < em_txh ((tx_step ^^ n) m))" for n
  proof (induction n)
    case 0
    then show ?case using assms v by (simp add: tx_state_def em_tx_def tx_later_def)
  next
    case (Suc n)
    let ?m = "(tx_step ^^ n) m"
    have s: "tx_state b (tx_step ?m) (em_tx (tx_step ?m))" "tx_later (em_tx ?m) (em_tx (tx_step ?m))"
      using tx_step_state Suc.IH by blast+
    have "em_txh m < em_txh (tx_step ?m)" if "em_txh m < em_txt m"
    proof (cases "n = 0")
      case True
      then show ?thesis using tx_step_state [OF assms] that by simp
    next
      case False
      then have "em_txh m < em_txh ?m" using Suc.IH that by simp
      then show ?thesis using s(2) by (simp add: tx_later_def em_tx_def)
    qed
    then show ?case using s tx_later_trans Suc.IH by simp blast
  qed
  have "em_tx (z\<lparr>em_time := t\<rparr>) = em_tx z" for z t by (simp add: em_tx_def)
  moreover have "b \<longrightarrow> 0 < em_pace m (em_time m)" using assms by (simp add: tx_state_def)
  ultimately show ?thesis using n [of "em_pace m (em_time m)"] v by (auto simp: tx_run_def tx_state_def em_tx_def)
qed

interpretation em_transmit: tx_engine em_hw "tx_state b" b for b
proof
  fix u u' :: eth_mach and v x
  assume a: "tx_state b u v" "uo_read (eh_tx em_hw) CRHP u = (u', x)"
  have "unat ((of_nat (k mod 64) :: u32) AND 0xFFFF) = k mod 64" for k
    using unat_frame_length [of "k mod 64"] by simp
  then show "\<exists>v'. tx_later v v' \<and> tx_state b u' v' \<and> unat (x AND 0xFFFF) = t_head v' mod 64 \<and>
      (b \<and> t_head v < t_tail v \<longrightarrow> t_head v < t_head v')"
    using tx_run_state [OF a(1)] a(2) by (intro exI [of _ "em_tx (tx_run u)"]) (auto simp: em_ops em_tx_def Let_def)
next
  fix u :: eth_mach and v i fld y
  assume a: "tx_state b u v" "\<And>k. t_head v \<le> k \<Longrightarrow> k < t_tail v \<Longrightarrow> k mod 64 \<noteq> i"
  let ?u = "u\<lparr>em_txd := (em_txd u)(i := (em_txd u i)(fld := y))\<rparr>"
  have "k mod 64 \<noteq> i" if "em_txh u \<le> k" "k < em_txt u" for k
  proof -
    have "t_head v = em_txh u" "t_tail v = em_txt u" using a(1) by (auto simp: tx_state_def em_tx_def)
    then show ?thesis using a(2) [of k] that by simp
  qed
  then have "tx_state b ?u (v\<lparr>t_desc := (t_desc v)(i := (t_desc v i)(fld := y))\<rparr>)"
    using a(1) by (auto simp: tx_state_def em_tx_def)
  from tx_run_state [OF this] show "\<exists>v'. tx_later (v\<lparr>t_desc := (t_desc v)(i := (t_desc v i)(fld := y))\<rparr>) v' \<and> tx_state b (uo_set_desc (eh_tx em_hw) i fld y u) v'"
    by (auto simp: em_ops)
next
  fix u :: eth_mach and v and n :: u32
  assume a: "tx_state b u v" "\<And>k. t_tail v \<le> k \<Longrightarrow> k < t_tail v + unat n \<Longrightarrow> tx_desc_ok k (t_desc v (k mod 64))"
  have "tx_desc_ok k (em_txd u (k mod 64))" if "em_txh u \<le> k" "k < em_txt u + unat n" for k
    using a that by (cases "k < em_txt u") (auto simp: tx_state_def em_tx_def)
  then have "tx_state b (u\<lparr>em_txt := em_txt u + unat n\<rparr>) (v\<lparr>t_tail := t_tail v + unat n\<rparr>)"
    using a(1) by (auto simp: tx_state_def em_tx_def)
  from tx_run_state [OF this] show "\<exists>v'. tx_later (v\<lparr>t_tail := t_tail v + unat n\<rparr>) v' \<and> tx_state b (uo_write (eh_tx em_hw) DRTP_INC n u) v'"
    by (auto simp: em_ops)
next
  fix u :: eth_mach and v a bs
  assume "tx_state b u v" "t_head v = t_tail v"
  then show "\<exists>v'. tx_later (v\<lparr>t_mem := stored_at a bs (t_mem v)\<rparr>) v' \<and> tx_state b (eh_store em_hw a bs u) v'"
    by (auto simp: em_ops tx_state_def em_tx_def tx_later_def)
next
  fix u u' :: eth_mach and v r z
  assume "tx_state b u v" "eh_mac_read em_hw r u = (u', z)"
  then show "\<exists>v'. tx_later v v' \<and> tx_state b u' v'"
    using tx_run_state by (auto simp: em_ops)
next
  fix u :: eth_mach and v
  assume "tx_state b u v"
  then show "t_head v \<le> t_tail v" by (auto simp: tx_state_def em_tx_def)
qed

end
