(* ===== verification/EthStart.thy ===== *)
theory EthStart
  imports EthMachine
begin

text \<open>
  The initialization on the model of the adapter: from power-on both engines are configured, the receive ring
  is filled, and the driver is ready to transmit and to receive.
\<close>

unbundle bit_operations_syntax

subsection \<open>Queue operations that leave the engines alone\<close>

text \<open>All register accesses but the doorbell keep to a relation; so do the operations of a queue.\<close>

locale quiet_ops =
  fixes ops :: "'u udma_ops" and R :: "'u \<Rightarrow> 'u \<Rightarrow> bool"
  assumes rel_refl: "R u u" and rel_trans: "R u v \<Longrightarrow> R v w \<Longrightarrow> R u w"
    and rd: "R u (fst (uo_read ops r u))" and wr: "r \<noteq> DRTP_INC \<Longrightarrow> R u (uo_write ops r x u)"
    and delay: "R u (uo_udelay ops t u)"
begin

lemma rd': "uo_read ops r u = (u', x) \<Longrightarrow> R u u'"
  using rd [of u r] by simp

lemma q_enable: "R u (fst (al_udma_q_enable ops b q u))"
  using rel_trans [OF rd wr] by (auto simp: al_udma_q_enable_def split: prod.splits dest: rd' intro: rel_trans wr)

lemma wait_quiet: "R u (fst (wait_quiet ops n u))"
proof (induction n arbitrary: u)
  case (Suc n)
  obtain u1 st where r: "uo_read ops RING_STATUS u = (u1, st)" by fastforce
  have "R u (fst (wait_quiet ops n (uo_udelay ops 1 u1)))" using rel_trans [OF rd' [OF r] rel_trans [OF delay Suc.IH]] .
  then show ?case using r rd' [OF r] by simp
qed (simp add: rel_refl)

lemma wait_drained: "R u (fst (wait_drained ops n u))"
proof (induction n arbitrary: u)
  case (Suc n)
  obtain u1 x where r: "uo_read ops DCP u = (u1, x)" by fastforce
  obtain u2 y where r2: "uo_read ops CRHP u1 = (u2, y)" by fastforce
  have "R u u2" using rel_trans [OF rd' [OF r] rd' [OF r2]] .
  moreover from this have "R u (fst (wait_drained ops n (uo_udelay ops 1 u2)))" using rel_trans [OF _ rel_trans [OF delay Suc.IH]] by blast
  ultimately show ?case using r r2 by simp
qed (simp add: rel_refl)

lemma q_pause: "R u (fst (al_udma_q_pause ops q u))"
proof -
  obtain u1 q1 where e: "al_udma_q_enable ops False q u = (u1, q1)" by fastforce
  obtain u2 n where w: "wait_quiet ops AL_UDMA_Q_QUIESCE_TOUT u1 = (u2, n)" by fastforce
  obtain u3 k where d: "wait_drained ops n u2 = (u3, k)" by fastforce
  have "R u u1" "R u1 u2" "R u2 u3" using q_enable [of u False q] wait_quiet [of u1 AL_UDMA_Q_QUIESCE_TOUT] wait_drained [of u2 n] e w d by simp_all
  then show ?thesis using e w d by (auto simp: al_udma_q_pause_def intro: rel_trans)
qed

lemma q_reset: "R u (fst (al_udma_q_reset ops q u))"
proof -
  obtain u1 q1 rc where p: "al_udma_q_pause ops q u = (u1, q1, rc)" by (metis prod_cases3)
  have "R u u1" using q_pause [of u q] p by simp
  then show ?thesis using p rel_trans [OF _ wr] by (simp add: al_udma_q_reset_def)
qed

lemma q_config: "R u (al_udma_q_config ops q u)"
  by (auto simp: al_udma_q_config_def rel_refl split: prod.splits dest: rd' intro: rel_trans wr)

lemma q_config_compl: "R u (al_udma_q_config_compl ops q u)"
proof -
  obtain u1 x where r: "uo_read ops COMP_CFG u = (u1, x)" by fastforce
  define y where "y = (if q_flags q AND AL_UDMA_Q_FLAGS_NO_COMP_UPDATE \<noteq> 0 then x AND NOT 1 else x OR 1) OR 2"
  obtain u3 z where r2: "uo_read ops S2M_COMP_CFG_1C (uo_write ops COMP_CFG y u1) = (u3, z)" by fastforce
  have "R u (uo_write ops COMP_CFG y u1)" using rel_trans [OF rd' [OF r] wr] by simp
  moreover from this have "R u u3" using rel_trans rd' [OF r2] by blast
  ultimately show ?thesis using r r2 rel_trans [OF _ wr]
    by (simp add: al_udma_q_config_compl_def Let_def y_def)
qed

lemma wr_after: "R u v \<Longrightarrow> r \<noteq> DRTP_INC \<Longrightarrow> R u (uo_write ops r x v)"
  using rel_trans wr by blast

lemma compl_after: "R u v \<Longrightarrow> R u (al_udma_q_config_compl ops q v)"
  using rel_trans q_config_compl by blast

lemma q_set_pointers: "al_udma_q_set_pointers ops q u = Some (u', q') \<Longrightarrow> R u u'"
  by (auto simp: al_udma_q_set_pointers_def Let_def rel_refl intro!: compl_after wr_after split: if_splits)

lemma q_init:
  assumes "al_udma_q_init ops num qid p q u = Some (u', q', rc)"
  shows "R u u'"
proof -
  have e: "R u1 u2" if "al_udma_q_set_pointers ops q1 (al_udma_q_config ops q1 u1) = Some (w, q2)" "al_udma_q_enable ops True q2 w = (u2, q3)"
    for u1 u2 q1 w q2 q3
    using rel_trans [OF rel_trans [OF q_config q_set_pointers [OF that(1)]]] q_enable [of w True q2] that(2) by simp
  show ?thesis using assms e
    by (auto simp: al_udma_q_init_def Let_def rel_refl split: if_splits bind_splits prod.splits)
qed

end

text \<open>A queue can be initialized if its rings are aligned.\<close>

lemma q_init_succeeds:
  assumes "qid < ucast num" and "q_status q = AL_QUEUE_DISABLED" and "qp_size p = 64" and "qp_cdesc_base p \<noteq> 0"
    and "AL_ADDR_LOW (qp_desc_phy_base p) AND NOT 0xFFFFFFC0 = 0" and "AL_ADDR_LOW (qp_cdesc_phy_base p) AND NOT 0xFFFFFFC0 = 0"
  shows "\<exists>u' q'. al_udma_q_init ops num qid p q u = Some (u', q', 0)"
  using assms
  by (auto simp: al_udma_q_init_def Let_def udma_consts al_udma_q_set_pointers_def split: prod.splits)

subsection \<open>Register accesses on the model\<close>

definition keeps :: "eth_mach \<Rightarrow> eth_mach \<Rightarrow> bool" where
  "keeps m m' = (m' = m\<lparr>em_crbp := em_crbp m', em_time := em_time m'\<rparr>)"

text \<open>While the transmit engine is idle.\<close>

definition idle_keeps :: "eth_mach \<Rightarrow> eth_mach \<Rightarrow> bool" where
  "idle_keeps m m' = (em_txh m = em_txt m \<longrightarrow> keeps m m')"

lemma keeps_trans: "keeps m v \<Longrightarrow> keeps v w \<Longrightarrow> keeps m w"
  unfolding keeps_def by (metis eth_mach.surjective eth_mach.update_convs(2,10))

lemma keeps_same:
  assumes "keeps m m'"
  shows "em_rx m' = em_rx m \<and> em_txh m' = em_txh m \<and> em_txt m' = em_txt m \<and> em_pace m' = em_pace m \<and>
    em_phy m' = em_phy m \<and> em_cells m' = em_cells m \<and> em_next m' = em_next m"
  using assms unfolding keeps_def by (metis eth_mach.select_convs eth_mach.surjective eth_mach.update_convs(2,10))

lemma tx_run_idle:
  assumes "em_txh m = em_txt m"
  shows "tx_run m = m\<lparr>em_time := Suc (em_time m)\<rparr>"
proof -
  have "tx_step m = m" using assms by (simp add: tx_step_def)
  then have "(tx_step ^^ n) m = m" for n by (induction n) simp_all
  then show ?thesis by (simp add: tx_run_def)
qed

lemma idle_keeps_refl: "idle_keeps m m"
  by (simp add: idle_keeps_def keeps_def)

lemma idle_keeps_trans:
  assumes "idle_keeps m v" and "idle_keeps v w"
  shows "idle_keeps m w"
  unfolding idle_keeps_def
proof
  assume i: "em_txh m = em_txt m"
  then have k: "keeps m v" using assms(1) by (simp add: idle_keeps_def)
  then have "em_txh v = em_txt v" using keeps_same [OF k] i by simp
  then show "keeps m w" using assms(2) keeps_trans [OF k] by (simp add: idle_keeps_def)
qed

interpretation tx_regs: quiet_ops em_tx_ops idle_keeps
proof
  fix m r show "idle_keeps m (fst (uo_read em_tx_ops r m))"
    by (simp add: em_tx_ops_def Let_def idle_keeps_def keeps_def tx_run_idle)
next
  fix r and m :: eth_mach and x assume "r \<noteq> DRTP_INC"
  then show "idle_keeps m (uo_write em_tx_ops r x m)" by (simp add: em_tx_ops_def idle_keeps_refl)
qed (auto simp: em_tx_ops_def idle_keeps_refl intro: idle_keeps_trans)

interpretation rx_regs: quiet_ops em_rx_ops idle_keeps
proof
  fix r and m :: eth_mach and x assume "r \<noteq> DRTP_INC"
  then show "idle_keeps m (uo_write em_rx_ops r x m)"
    by (cases r) (simp_all add: em_rx_ops_def idle_keeps_def keeps_def)
qed (auto simp: em_rx_ops_def idle_keeps_refl intro: idle_keeps_trans)

subsection \<open>Allocation\<close>

text \<open>The cells of the ring are cleared with its page, and stores of zeros leave them so.\<close>

lemma cells_stored_zeros:
  assumes "c p = 0 \<or> unat (p - a) + 4 \<le> n"
  shows "cells_stored a (replicate n 0) c p = 0"
  using assms by (auto simp: cells_stored_def Let_def le32_def)

lemma ring_page_cells:
  assumes "i < 64" and "w < 4"
  shows "cells_stored base (replicate 4096 0) c (ring_at (base + 3072) i w) = 0"
proof (rule cells_stored_zeros, rule disjI2)
  have "ring_at (base + 3072) i w - base = of_nat (3072 + 16 * i + 4 * w)" by (simp add: ring_at_def)
  moreover have "unat (of_nat (3072 + 16 * i + 4 * w) :: u64) = 3072 + 16 * i + 4 * w" by (rule unat_of_small) (use assms in simp)
  ultimately show "unat (ring_at (base + 3072) i w - base) + 4 \<le> 4096" using assms by simp
qed

lemma alloc_buffers:
  assumes "n \<le> 32" and "RxBuffers Ctx = RxBuffersPhys Ctx" and "length (RxBuffersPhys Ctx) = 32"
  shows "\<exists>m' bs. alloc_rx_buffers em_hw [n..<32] Ctx m = (m', Ctx\<lparr>RxBuffers := bs, RxBuffersPhys := bs\<rparr>, EFI_SUCCESS) \<and>
    length bs = 32 \<and> (\<forall>i < 32. bs ! i = (if n \<le> i then em_next m + 4096 * of_nat (i - n) else RxBuffersPhys Ctx ! i)) \<and>
    m' = m\<lparr>em_next := em_next m', em_mem := em_mem m', em_cells := em_cells m'\<rparr> \<and>
    (\<forall>p. em_cells m p = 0 \<longrightarrow> em_cells m' p = 0)"
  using assms
proof (induction "32 - n" arbitrary: n m Ctx)
  case 0
  then have "n = 32" by simp
  moreover have "Ctx = Ctx\<lparr>RxBuffers := RxBuffersPhys Ctx, RxBuffersPhys := RxBuffersPhys Ctx\<rparr>"
    using 0(3) by (intro eth_ctx.equality) simp_all
  ultimately show ?case using 0 by (intro exI [of _ m] exI [of _ "RxBuffersPhys Ctx"]) simp
next
  case (Suc k)
  have n: "n < 32" using Suc.hyps(2) by simp
  let ?z = "replicate 2048 (0 :: u8)" and ?p = "em_next m"
  let ?m1 = "m\<lparr>em_next := ?p + 4096, em_mem := stored_at ?p ?z (em_mem m), em_cells := cells_stored ?p ?z (em_cells m)\<rparr>"
  let ?bs = "(RxBuffersPhys Ctx)[n := ?p]"
  let ?C1 = "Ctx\<lparr>RxBuffers := ?bs, RxBuffersPhys := ?bs\<rparr>"
  have k: "k = 32 - Suc n" "Suc n \<le> 32" "RxBuffers ?C1 = RxBuffersPhys ?C1" "length (RxBuffersPhys ?C1) = 32"
    using Suc.hyps(2) Suc.prems n by simp_all
  obtain m' bs where IH: "alloc_rx_buffers em_hw [Suc n..<32] ?C1 ?m1 = (m', ?C1\<lparr>RxBuffers := bs, RxBuffersPhys := bs\<rparr>, EFI_SUCCESS)"
      "length bs = 32" "\<forall>i < 32. bs ! i = (if Suc n \<le> i then ?p + 4096 + 4096 * of_nat (i - Suc n) else ?bs ! i)"
      "m' = ?m1\<lparr>em_next := em_next m', em_mem := em_mem m', em_cells := em_cells m'\<rparr>"
      "\<forall>p. em_cells ?m1 p = 0 \<longrightarrow> em_cells m' p = 0"
    using Suc.hyps(1) [OF k, of ?m1] by auto
  have "alloc_rx_buffers em_hw [n..<32] Ctx m = (m', Ctx\<lparr>RxBuffers := bs, RxBuffersPhys := bs\<rparr>, EFI_SUCCESS)"
    using IH(1) n Suc.prems(2) by (simp add: upt_conv_Cons em_hw_def eth_consts)
  moreover have "bs ! i = (if n \<le> i then ?p + 4096 * of_nat (i - n) else RxBuffersPhys Ctx ! i)" if "i < 32" for i
  proof (cases "Suc n \<le> i")
    case True
    then have "i - n = Suc (i - Suc n)" by simp
    then show ?thesis using IH(3) that True by (simp add: algebra_simps)
  next
    case False
    then show ?thesis using IH(3) that Suc.prems(3) by (cases "i = n") simp_all
  qed
  moreover have "m' = m\<lparr>em_next := em_next m', em_mem := em_mem m', em_cells := em_cells m'\<rparr>" by (subst IH(4)) simp
  moreover have "\<forall>p. em_cells m p = 0 \<longrightarrow> em_cells m' p = 0" using IH(5) cells_stored_zeros by simp
  ultimately show ?case using IH(2) by blast
qed

text \<open>Pages do not overlap.\<close>

lemma pages_apart:
  assumes "unat base + 4096 * 33 \<le> 2 ^ 64" and "i < 33" and "j < 33" and "i \<noteq> j"
  shows "apart (base + 4096 * of_nat i) (base + 4096 * of_nat j)"
  unfolding apart_def
proof (intro allI impI)
  fix x y :: nat assume x: "x < 2048" "y < 2048"
  have u: "unat (base + 4096 * of_nat k + of_nat z) = unat base + (4096 * k + z)" if "k < 33" "z < 2048" for k z
  proof -
    have "unat (of_nat (4096 * k + z) :: u64) = 4096 * k + z" by (rule unat_of_small) (use that in simp)
    then have "unat (base + of_nat (4096 * k + z)) = unat base + (4096 * k + z)"
      using that assms(1) by (subst unat_add_lem [THEN iffD1]) simp_all
    then show ?thesis by (simp add: add.assoc)
  qed
  have "4096 * i + x \<noteq> 4096 * j + y" using assms(4) x by linarith
  then show "base + 4096 * of_nat i + of_nat x \<noteq> base + 4096 * of_nat j + of_nat y"
    using u [OF assms(2) x(1)] u [OF assms(3) x(2)] by (metis add_left_cancel)
qed

end
