(* ===== verification/EthUp.thy ===== *)
theory EthUp
  imports EthStart
begin

text \<open>
  \<open>Initialize\<close> from power-on, and the properties of the network driver on the model of the adapter.
\<close>

unbundle bit_operations_syntax

subsection \<open>The PHY\<close>

lemma phy_scan_state: "fst (phy_scan em_hw As m) = m"
  by (induction As) (simp_all add: em_hw_def split: option.split)

lemma phy_dump_state: "phy_dump em_hw A m = m"
proof -
  have "fold (\<lambda>r u. fst (eh_mdio_read em_hw A r u)) rs m = m" for rs by (induction rs) (simp_all add: em_hw_def)
  then show ?thesis by (simp add: phy_dump_def em_hw_def)
qed

lemma phy_reset_wait_state:
  assumes "em_phy m A 0 \<noteq> None"
  shows "\<exists>ok. phy_reset_wait em_hw A n r m = Some (m, ok)"
  by (induction n arbitrary: r) (use assms in \<open>auto simp: em_hw_def\<close>)

lemma phy_init_state:
  assumes "\<forall>A r. em_phy m A r \<noteq> None"
  shows "\<exists>A st. AlEthPhyInit em_hw Ctx m = Some (m, Ctx\<lparr>PhyAddr := A\<rparr>, st)"
proof -
  obtain A where s: "phy_scan em_hw (map of_nat [0..<32]) m = (m, A)" using phy_scan_state [of "map of_nat [0..<32]" m] by (metis fst_conv surj_pair)
  obtain d where d: "em_phy m A 0x1E = Some d" using assms by blast
  obtain ok where w: "phy_reset_wait em_hw A 1000 None m = Some (m, ok)" using phy_reset_wait_state assms by blast
  show ?thesis
  proof (cases "A = 0xFF")
    case True
    then show ?thesis using s by (auto simp: AlEthPhyInit_def)
  next
    case False
    moreover have "eh_mdio_read em_hw A 0x1E m = (m, Some d)" "eh_mdio_write em_hw A r x m = m" for r x
      using d by (simp_all add: em_hw_def)
    ultimately show ?thesis using s w by (cases ok) (auto simp: AlEthPhyInit_def phy_dump_state)
  qed
qed

subsection \<open>The queues\<close>

lemma aligned_low:
  assumes "unat x mod 64 = 0"
  shows "AL_ADDR_LOW x AND NOT 0xFFFFFFC0 = 0"
proof -
  have "unat (AL_ADDR_LOW x AND mask 6) = 0"
    using assms by (simp add: unat_and_mask AL_ADDR_LOW_def unsigned_ucast_eq take_bit_eq_mod mod_mod_cancel)
  then have "AL_ADDR_LOW x AND 0x3F = 0" by (simp add: unat_eq_zero mask_eq_exp_minus_1)
  moreover have "NOT (0xFFFFFFC0 :: u32) = 0x3F" by code_simp
  ultimately show ?thesis by (simp only:)
qed

lemma page_offset_aligned:
  fixes base :: u64
  assumes "unat base mod 4096 = 0" and "k mod 64 = 0" and "k < 2 ^ 64"
  shows "unat (base + of_nat k) mod 64 = 0"
proof -
  have "unat (base + of_nat k) = (unat base + k) mod 2 ^ 64" using assms(3) by (simp add: unat_word_ariths unat_of_nat)
  moreover have "(unat base + k) mod 2 ^ 64 mod 64 = (unat base + k) mod 64" by (rule mod_mod_cancel) simp
  moreover have "(64 :: nat) dvd 4096" by simp
  then have "64 dvd unat base" using assms(1) by (meson dvd_trans mod_0_imp_dvd)
  then have "64 dvd unat base + k" using assms(2) by (simp add: dvd_add mod_0_imp_dvd)
  ultimately show ?thesis by simp
qed

text \<open>The base of the completion ring is programmed.\<close>

lemma addr_halves: "((c AND NOT (mask 32)) OR ucast (AL_ADDR_LOW x)) AND mask 32 OR push_bit 32 (ucast (AL_ADDR_HIGH x)) = x"
  by (rule bit_word_eqI) (auto simp: bit_simps AL_ADDR_LOW_def AL_ADDR_HIGH_def)

lemma rx_set_pointers:
  assumes "al_udma_q_set_pointers em_rx_ops q m = Some (m', q')" and "cdesc_base_ptr q \<noteq> 0"
  shows "em_crbp m' = cdesc_phy_base q"
proof -
  have c: "al_udma_q_config_compl em_rx_ops q w = w" for w
    by (simp add: al_udma_q_config_compl_def em_rx_ops_def Let_def)
  show ?thesis using assms
    by (auto simp: al_udma_q_set_pointers_def Let_def c split: if_splits) (simp add: em_rx_ops_def addr_halves)
qed

lemma rx_q_init:
  assumes "al_udma_q_init em_rx_ops num qid p q m = Some (m', q', 0)" and "qp_cdesc_base p \<noteq> 0"
  shows "em_crbp m' = qp_cdesc_phy_base p"
proof -
  have n: "- EINVAL \<noteq> (0 :: int)" "- EIO \<noteq> (0 :: int)" by (simp_all add: EINVAL_def EIO_def)
  obtain q1 w q2 where s: "al_udma_q_set_pointers em_rx_ops q1 (al_udma_q_config em_rx_ops q1 m) = Some (w, q2)"
      "al_udma_q_enable em_rx_ops True q2 w = (m', q')" "cdesc_base_ptr q1 = qp_cdesc_base p" "cdesc_phy_base q1 = qp_cdesc_phy_base p"
    using assms(1) n by (fastforce simp: al_udma_q_init_def Let_def split: if_splits bind_splits prod.splits)
  have "m' = w" using s(2) by (simp add: al_udma_q_enable_def em_rx_ops_def)
  then show ?thesis using rx_set_pointers [OF s(1)] s(3,4) assms(2) by simp
qed

subsection \<open>From power-on\<close>

text \<open>Nothing was received or sent, the PHY answers, and there is enough memory.\<close>

definition powered :: "eth_mach \<Rightarrow> bool" where
  "powered m = (v_head (em_rx m) = 0 \<and> v_tail (em_rx m) = 0 \<and> em_txh m = 0 \<and> em_txt m = 0 \<and>
     (\<forall>fr \<in> set (v_wire (em_rx m)). length (fr_data fr) \<le> 2048) \<and> (\<forall>A r. em_phy m A r \<noteq> None) \<and>
     em_next m \<noteq> 0 \<and> unat (em_next m) mod 4096 = 0 \<and> unat (em_next m) + 4096 * 33 \<le> 2 ^ 64)"

lemma stale_cleanup_keeps:
  assumes "em_txh m = em_txt m"
  shows "\<exists>m'. stale_cleanup em_hw m = Some m' \<and> keeps m m'"
proof -
  obtain m1 q1 r1 where t: "al_udma_q_reset em_tx_ops (zero_q True) m = (m1, q1, r1)" by (metis prod_cases3)
  obtain m2 q2 r2 where r: "al_udma_q_reset em_rx_ops (zero_q False) m1 = (m2, q2, r2)" by (metis prod_cases3)
  have "idle_keeps m m2"
    using idle_keeps_trans [OF tx_regs.q_reset [of m "zero_q True"] rx_regs.q_reset [of _ "zero_q False"]] t r by simp
  then have "keeps m m2" using assms by (simp add: idle_keeps_def)
  moreover have "stale_cleanup em_hw m = Some m2" using t r by (simp add: stale_cleanup_def em_hw_def)
  ultimately show ?thesis by blast
qed

lemma page_offset_nonzero:
  fixes base :: u64
  assumes "unat base + 4096 \<le> 2 ^ 64" and "0 < k" and "k < 4096"
  shows "base + of_nat k \<noteq> 0"
proof -
  have "unat (base + of_nat k) = (unat base + k) mod 2 ^ 64" using assms(3) by (simp add: unat_word_ariths unat_of_nat)
  also have "\<dots> = unat base + k" using assms by simp
  finally show ?thesis using assms(2) by (metis add_is_0 not_gr_zero unsigned_0)
qed

text \<open>A queue of the adapter, with its rings in the page.\<close>

lemma queue_up:
  fixes base :: u64 and s c :: nat
  assumes "em_txh m = em_txt m" and "unat base mod 4096 = 0" and "unat base + 4096 \<le> 2 ^ 64"
    and "s mod 64 = 0" and "c mod 64 = 0" and "0 < c" and "c < 4096" and "s < 4096"
  defines "p \<equiv> queue_params base (of_nat s) (of_nat c)"
  shows "\<exists>m' q. al_eth_queue_config em_hw 4 p (zero_q b) m = Some (m', q, 0) \<and> keeps m m' \<and>
    q_ring 6 0 0 q \<and> q_comp 6 0 q \<and> adapter_rev_id q = 2 \<and> (\<not> b \<longrightarrow> em_crbp m' = base + of_nat c)"
proof -
  let ?p = "p\<lparr>qp_adapter_rev_id := 2\<rparr>" and ?ops = "if b then em_tx_ops else em_rx_ops"
  have al: "AL_ADDR_LOW (qp_desc_phy_base ?p) AND NOT 0xFFFFFFC0 = 0" "AL_ADDR_LOW (qp_cdesc_phy_base ?p) AND NOT 0xFFFFFFC0 = 0"
    unfolding p_def queue_params_def al_udma_q_params.simps
    by (rule aligned_low, rule page_offset_aligned; use assms in simp)+
  have nz: "qp_cdesc_base ?p \<noteq> 0" using page_offset_nonzero [OF assms(3,6,7)] by (simp add: p_def queue_params_def)
  have sz: "qp_size ?p = 64" by (simp add: p_def queue_params_def eth_consts)
  have "\<exists>u' q'. al_udma_q_init ?ops 4 0 ?p (zero_q b) m = Some (u', q', 0)"
    by (rule q_init_succeeds) (use al nz sz in \<open>simp_all add: zero_q_def\<close>)
  then obtain m1 q where i: "al_udma_q_init ?ops 4 0 ?p (zero_q b) m = Some (m1, q, 0)" by blast
  have "idle_keeps m m1" using i tx_regs.q_init [of 4 0 ?p "zero_q b" m m1] rx_regs.q_init [of 4 0 ?p "zero_q b" m m1] by (cases b) simp_all
  then have k: "keeps m m1" using assms(1) by (simp add: idle_keeps_def)
  have "unat (qp_size ?p) = 2 ^ 6" by (simp add: sz)
  note e = q_init_empty [OF i this nz]
  have cr: "\<not> b \<longrightarrow> em_crbp m1 = base + of_nat c"
    using rx_q_init [of 4 0 ?p "zero_q b" m m1 q] i nz by (cases b) (simp_all add: p_def queue_params_def)
  have "al_eth_queue_config em_hw 4 p (zero_q b) m = Some (m1, q, 0)"
    using i by (cases b) (simp_all add: al_eth_queue_config_def em_hw_def zero_q_def p_def queue_params_def)
  then show ?thesis using k e cr by simp
qed

text \<open>The last steps.\<close>

lemma hw_start_ready:
  assumes "v_head (em_rx m) = 0" and "v_tail (em_rx m) = 0" and "em_txh m = 0" and "em_txt m = 0"
    and "\<forall>fr \<in> set (v_wire (em_rx m)). length (fr_data fr) \<le> 2048" and "\<forall>A r. em_phy m A r \<noteq> None"
    and "\<forall>i < 64. \<forall>w \<le> 1. em_cells m (ring_at (em_crbp m) i w) = 0"
    and "q_ring 6 0 0 (rx_q Ctx)" and "q_comp 6 0 (rx_q Ctx)" and "adapter_rev_id (rx_q Ctx) = 2"
    and "q_ring 6 0 0 (tx_q Ctx)" and "adapter_rev_id (tx_q Ctx) = 2" and "rx_bufs Ctx" and "b \<longrightarrow> (\<forall>t. 0 < em_pace m t)"
  shows "\<exists>m' Ctx'. hw_start em_hw Ctx m = Some (m', Ctx', EFI_SUCCESS) \<and> rx_state b (0, 0) m' (em_rx m') \<and>
    pending (em_rx m') 0 = v_wire (em_rx m) \<and> rx_ready (Ctx'\<lparr>State := EfiSimpleNetworkInitialized\<rparr>) (em_rx m') 0 \<and>
    tx_state b m' (em_tx m') \<and> tx_ready (Ctx'\<lparr>State := EfiSimpleNetworkInitialized\<rparr>) (em_tx m') 0"
proof -
  obtain A st where p: "AlEthPhyInit em_hw Ctx m = Some (m, Ctx\<lparr>PhyAddr := A\<rparr>, st)" using phy_init_state assms(6) by blast
  let ?C = "Ctx\<lparr>PhyAddr := A\<rparr>"
  have r: "rx_state b (0, 0) m (em_rx m)" using assms by (simp add: rx_state_def rx_inv_defs ring_word_def)
  have c: "q_ring 6 0 0 (rx_q ?C)" "q_comp 6 0 (rx_q ?C)" "adapter_rev_id (rx_q ?C) = 2" "rx_bufs ?C"
    using assms by (simp_all add: rx_bufs_def)
  obtain m1 q m2 v2 where f: "fill_rx_ring em_hw rx_indices ?C m = Some (m1, ?C\<lparr>rx_q := q\<rparr>, 0)"
      "al_eth_rx_buffer_action (eh_rx em_hw) q AL_ETH_NUM_RX_DESC m1 = Some m2" "rx_state b (0, 0) m2 v2"
      "pending v2 0 = v_wire (em_rx m)"
      "rx_ready (?C\<lparr>rx_q := q, RxBufTailIdx := 0, State := EfiSimpleNetworkInitialized\<rparr>) v2 0"
    using em_receive.start_ring [OF r assms(2) c] by blast
  have i: "em_txh m2 = 0" "em_txt m2 = 0" "em_rx m2 = v2" using f(3) by (simp_all add: rx_state_def)
  let ?m3 = "m2\<lparr>em_time := Suc (em_time m2)\<rparr>"
  let ?C3 = "?C\<lparr>rx_q := q, RxBufTailIdx := 0, MediaPresent := (em_mac m2 MAC_GEN_RGMII_STAT AND RGMII_STAT_LINK \<noteq> 0), TxBufInFlight := 0\<rparr>"
  have "hw_start em_hw Ctx m = Some (?m3, ?C3, EFI_SUCCESS)"
    using p f(1,2) tx_run_idle [of m2] i by (simp add: hw_start_def em_hw_def)
  moreover have "rx_state b (0, 0) ?m3 v2" using f(3) by (auto simp: rx_state_def rx_inv_def)
  moreover have "rx_ready (?C3\<lparr>State := EfiSimpleNetworkInitialized\<rparr>) v2 0"
    using f(5) by (simp add: rx_ready_def rx_bufs_def)
  moreover have "tx_ready (?C3\<lparr>State := EfiSimpleNetworkInitialized\<rparr>) (em_tx ?m3) 0"
    using assms(11,12) i by (simp add: tx_ready_def em_tx_def)
  moreover have "tx_state b ?m3 (em_tx ?m3)" using i f(3) by (simp add: tx_state_def rx_state_def)
  ultimately show ?thesis using f(4) i(3) by (intro exI [of _ ?m3] exI [of _ ?C3]) simp
qed

lemma keeps_idle: "keeps m m' \<Longrightarrow> em_txh m = em_txt m \<Longrightarrow> em_txh m' = em_txt m'"
  using keeps_same by simp

text \<open>The steps in their order.\<close>

lemma hw_initialize_steps:
  assumes "m1 = eh_store em_hw base (replicate 4096 0) (m\<lparr>em_next := base + 4096\<rparr>)" and "base = em_next m"
    and "alloc_rx_buffers em_hw [0..<32] (Ctx\<lparr>DescRing := base\<rparr>) m1 = (m2, Ctx2, EFI_SUCCESS)" and "stale_cleanup em_hw m2 = Some m3"
    and "al_eth_queue_config em_hw 4 (queue_params base (of_nat 0) (of_nat 1024)) (zero_q True) m3 = Some (m4, q, 0)"
    and "al_eth_queue_config em_hw 4 (queue_params base (of_nat 2048) (of_nat 3072)) (zero_q False) m4 = Some (m5, r, 0)"
  shows "AlEthHwInitialize em_hw Ctx m = hw_start em_hw (Ctx2\<lparr>tx_q := q, rx_q := r, TxDmaQ := True, RxDmaQ := True\<rparr>) m5"
proof -
  have a: "eh_alloc em_hw (Suc 0) m = (m\<lparr>em_next := base + 4096\<rparr>, EFI_SUCCESS, base)"
      "eh_store em_hw base (replicate (4 * unat AL_ETH_Q_DESCS_SIZE) 0) (m\<lparr>em_next := base + 4096\<rparr>) = m1"
      "rx_indices = [0..<32]" "eh_adapter_init em_hw w = (w, 0, 4)" "eh_mac_config em_hw w = (w, 0)"
      "eh_mdio_config em_hw w = (w, 0)" "eh_rx_pkt_limit em_hw lo hi w = w" for w lo hi
    by (simp_all add: em_hw_def assms(1,2) eth_consts rx_indices_def)
  have t: "al_eth_queue_config em_hw 4 (queue_params base 0 AL_ETH_Q_DESCS_SIZE) (zero_q True) m3 = Some (m4, q, 0)"
    and r: "al_eth_queue_config em_hw 4 (queue_params base (2 * AL_ETH_Q_DESCS_SIZE) (3 * AL_ETH_Q_DESCS_SIZE)) (zero_q False) m4 = Some (m5, r, 0)"
    using assms(5,6) by (simp_all add: eth_consts)
  show ?thesis using assms(3,4) t r by (simp add: AlEthHwInitialize_def a Let_def)
qed

lemma hw_initialize_ready:
  assumes "powered m" and "RxBuffers Ctx = RxBuffersPhys Ctx" and "length (RxBuffersPhys Ctx) = 32" and "b \<longrightarrow> (\<forall>t. 0 < em_pace m t)"
  shows "\<exists>m' Ctx'. AlEthHwInitialize em_hw Ctx m = Some (m', Ctx', EFI_SUCCESS) \<and> rx_state b (0, 0) m' (em_rx m') \<and>
    pending (em_rx m') 0 = v_wire (em_rx m) \<and> rx_ready (Ctx'\<lparr>State := EfiSimpleNetworkInitialized\<rparr>) (em_rx m') 0 \<and>
    tx_state b m' (em_tx m') \<and> tx_ready (Ctx'\<lparr>State := EfiSimpleNetworkInitialized\<rparr>) (em_tx m') 0"
proof -
  define base where "base = em_next m"
  have pw: "em_txh m = 0" "em_txt m = 0" "unat base mod 4096 = 0" "unat base + 4096 * 33 \<le> 2 ^ 64"
    using assms(1) by (simp_all add: powered_def base_def)
  define m1 where "m1 = m\<lparr>em_next := base + 4096, em_mem := stored_at base (replicate 4096 0) (em_mem m),
    em_cells := cells_stored base (replicate 4096 0) (em_cells m)\<rparr>"
  let ?C1 = "Ctx\<lparr>DescRing := base\<rparr>"
  obtain m2 bs where al: "alloc_rx_buffers em_hw [0..<32] ?C1 m1 = (m2, ?C1\<lparr>RxBuffers := bs, RxBuffersPhys := bs\<rparr>, EFI_SUCCESS)"
      "length bs = 32" "\<forall>i < 32. bs ! i = em_next m1 + 4096 * of_nat i"
      "m2 = m1\<lparr>em_next := em_next m2, em_mem := em_mem m2, em_cells := em_cells m2\<rparr>"
      "\<forall>p. em_cells m1 p = 0 \<longrightarrow> em_cells m2 p = 0"
    using alloc_buffers [of 0 ?C1 m1] assms(2,3) by auto
  let ?C2 = "?C1\<lparr>RxBuffers := bs, RxBuffersPhys := bs\<rparr>"
  have e2: "em_rx m2 = em_rx m" "em_txh m2 = 0" "em_txt m2 = 0" "em_pace m2 = em_pace m" "em_phy m2 = em_phy m"
    by (subst al(4); simp add: m1_def pw)+
  obtain m3 where st: "stale_cleanup em_hw m2 = Some m3" "keeps m2 m3" using stale_cleanup_keeps [of m2] e2 by auto
  have i3: "em_txh m3 = em_txt m3" using keeps_idle [OF st(2)] e2 by simp
  obtain m4 q where tq: "al_eth_queue_config em_hw 4 (queue_params base (of_nat 0) (of_nat 1024)) (zero_q True) m3 = Some (m4, q, 0)"
      "keeps m3 m4" "q_ring 6 0 0 q" "adapter_rev_id q = 2"
    using queue_up [OF i3 pw(3), of 0 1024 True] pw(4) by auto
  have i4: "em_txh m4 = em_txt m4" using keeps_idle [OF tq(2) i3] .
  obtain m5 r where rq: "al_eth_queue_config em_hw 4 (queue_params base (of_nat 2048) (of_nat 3072)) (zero_q False) m4 = Some (m5, r, 0)"
      "keeps m4 m5" "q_ring 6 0 0 r" "q_comp 6 0 r" "adapter_rev_id r = 2" "em_crbp m5 = base + 3072"
    using queue_up [OF i4 pw(3), of 2048 3072 False] pw(4) by auto
  have "keeps m2 m5" using keeps_trans [OF st(2) keeps_trans [OF tq(2) rq(2)]] .
  note k5 = keeps_same [OF this]
  let ?C5 = "?C2\<lparr>tx_q := q, rx_q := r, TxDmaQ := True, RxDmaQ := True\<rparr>"
  have cells: "em_cells m5 (ring_at (em_crbp m5) i w) = 0" if "i < 64" "w \<le> 1" for i w
    using ring_page_cells [of i w base "em_cells m"] that al(5) k5 rq(6) by (simp add: m1_def)
  have bufs: "rx_bufs ?C5"
  proof -
    have "apart (bs ! i) (bs ! j)" if "i < 32" "j < 32" "i \<noteq> j" for i j
      using pages_apart [OF pw(4), of "Suc i" "Suc j"] that al(3) by (simp add: m1_def algebra_simps)
    then show ?thesis using al(2) by (simp add: rx_bufs_def)
  qed
  have w5: "em_rx m5 = em_rx m" "em_txh m5 = 0" "em_txt m5 = 0" "em_pace m5 = em_pace m" "em_phy m5 = em_phy m"
    using k5 e2 by simp_all
  obtain m' Ctx' where hs: "hw_start em_hw ?C5 m5 = Some (m', Ctx', EFI_SUCCESS)" "rx_state b (0, 0) m' (em_rx m')"
      "pending (em_rx m') 0 = v_wire (em_rx m)" "rx_ready (Ctx'\<lparr>State := EfiSimpleNetworkInitialized\<rparr>) (em_rx m') 0"
      "tx_state b m' (em_tx m')" "tx_ready (Ctx'\<lparr>State := EfiSimpleNetworkInitialized\<rparr>) (em_tx m') 0"
    using hw_start_ready [of m5 ?C5 b] w5 assms(1,4) cells rq(3-5) tq(3,4) bufs by (auto simp: powered_def)
  have "AlEthHwInitialize em_hw Ctx m = Some (m', Ctx', EFI_SUCCESS)"
    using hw_initialize_steps [OF _ base_def al(1) st(1) tq(1) rq(1)] hs(1) by (simp add: m1_def em_hw_def)
  then show ?thesis using hs(2-6) by blast
qed

text \<open>The interface from power-on, and the frames it sends and receives.\<close>

lemma start_initialize:
  assumes "powered m" and "b \<longrightarrow> (\<forall>t. 0 < em_pace m t)"
  shows "\<exists>m' Ctx'. AlEthNextSnpInitialize em_hw (fst (AlEthNextSnpStart (initial_ctx MacAddr))) m = Some (m', Ctx', EFI_SUCCESS) \<and>
    rx_state b (0, 0) m' (em_rx m') \<and> pending (em_rx m') 0 = v_wire (em_rx m) \<and> rx_ready Ctx' (em_rx m') 0 \<and>
    tx_state b m' (em_tx m') \<and> tx_ready Ctx' (em_tx m') 0"
proof -
  let ?C = "(initial_ctx MacAddr)\<lparr>State := EfiSimpleNetworkStarted\<rparr>"
  have c: "fst (AlEthNextSnpStart (initial_ctx MacAddr)) = ?C" "State ?C = EfiSimpleNetworkStarted"
      "RxBuffers ?C = RxBuffersPhys ?C" "length (RxBuffersPhys ?C) = 32"
    by (simp_all add: AlEthNextSnpStart_def initial_ctx_def)
  obtain m' Ctx' where h: "AlEthHwInitialize em_hw ?C m = Some (m', Ctx', EFI_SUCCESS)" and
      r: "rx_state b (0, 0) m' (em_rx m') \<and> pending (em_rx m') 0 = v_wire (em_rx m) \<and>
        rx_ready (Ctx'\<lparr>State := EfiSimpleNetworkInitialized\<rparr>) (em_rx m') 0 \<and>
        tx_state b m' (em_tx m') \<and> tx_ready (Ctx'\<lparr>State := EfiSimpleNetworkInitialized\<rparr>) (em_tx m') 0"
    using hw_initialize_ready [OF assms(1) c(3,4) assms(2)] by blast
  have "AlEthNextSnpInitialize em_hw ?C m = Some (m', Ctx'\<lparr>State := EfiSimpleNetworkInitialized\<rparr>, EFI_SUCCESS)"
    using h c(2) by (simp add: AlEthNextSnpInitialize_def)
  then show ?thesis using r unfolding c(1) by blast
qed

end
