(* ===== verification/Network.thy ===== *)
theory Network
  imports EthUp
begin

text \<open>The properties of the network driver, on the model of the adapter.\<close>

unbundle bit_operations_syntax

subsection \<open>Reception\<close>

text \<open>C15: From power-on, with an adapter that does not stall, \<open>n\<close> calls of \<open>Receive\<close> after \<open>Start\<close> and
  \<open>Initialize\<close> deliver exactly the frames among the first \<open>n\<close> of the wire that have no error and a header,
  in their order, each with its bytes and its header's fields.\<close>

theorem eth_receives_in_order:
  assumes "powered m" and "\<forall>t. 0 < em_pace m t"
  shows "\<exists>m1 Ctx1. AlEthNextSnpInitialize em_hw (fst (AlEthNextSnpStart (initial_ctx MacAddr))) m = Some (m1, Ctx1, EFI_SUCCESS) \<and>
    (\<forall>n. \<exists>m2 Ctx2. receive_n em_hw n Ctx1 m1 =
      Some (m2, Ctx2, map (\<lambda>fr. rx_fields (fr_data fr)) (filter rx_good (take n (v_wire (em_rx m))))))"
proof -
  obtain m1 Ctx1 where i: "AlEthNextSnpInitialize em_hw (fst (AlEthNextSnpStart (initial_ctx MacAddr))) m = Some (m1, Ctx1, EFI_SUCCESS)"
      "rx_state True (0, 0) m1 (em_rx m1)" "pending (em_rx m1) 0 = v_wire (em_rx m)" "rx_ready Ctx1 (em_rx m1) 0"
    using start_initialize [of m True MacAddr] assms by blast
  have "\<forall>fr \<in> set (pending (em_rx m1) 0). length (fr_data fr) \<le> 2048" using assms(1) i(3) by (simp add: powered_def)
  note r = em_receive.receive_all [OF i(2,4) this]
  have "\<exists>m2 Ctx2. receive_n em_hw n Ctx1 m1 =
      Some (m2, Ctx2, map (\<lambda>fr. rx_fields (fr_data fr)) (filter rx_good (take n (v_wire (em_rx m)))))" for n
    using r [of n] i(3) by auto
  then show ?thesis using i(1) by blast
qed

text \<open>A machine at power-on with frames on the wire and a buffer of sevens.\<close>

definition demo_eth :: "rx_frame list \<Rightarrow> eth_mach" where
  "demo_eth frs = \<lparr>em_rx = \<lparr>v_head = 0, v_tail = 0, v_addr = (\<lambda>_. 0), v_done = (\<lambda>_. \<lparr>fr_data = [], fr_error = False, fr_meta = 0\<rparr>),
     v_wire = frs, v_desc = (\<lambda>_ _. 0)\<rparr>, em_crbp = 0, em_cells = (\<lambda>_. 0x01000000), em_mem = (\<lambda>_. 7), em_txh = 0, em_txt = 0,
     em_txd = (\<lambda>_ _. 0), em_sent = [], em_pace = (\<lambda>_. 1), em_time = 0, em_next = 0x100000, em_phy = (\<lambda>_ _. Some 0),
     em_mac = (\<lambda>_. 0)\<rparr>"

lemma demo_powered: "\<forall>fr \<in> set frs. length (fr_data fr) \<le> 2048 \<Longrightarrow> powered (demo_eth frs)"
  by (simp add: powered_def demo_eth_def)

lemma demo_up:
  assumes "\<forall>fr \<in> set frs. length (fr_data fr) \<le> 2048"
  shows "\<exists>m Ctx. rx_state b (0, 0) m (em_rx m) \<and> pending (em_rx m) 0 = frs \<and> rx_ready Ctx (em_rx m) 0 \<and>
    tx_state b m (em_tx m) \<and> tx_ready Ctx (em_tx m) 0"
proof -
  have w: "v_wire (em_rx (demo_eth frs)) = frs" and l: "b \<longrightarrow> (\<forall>t. 0 < em_pace (demo_eth frs) t)" by (simp_all add: demo_eth_def)
  show ?thesis using start_initialize [OF demo_powered [OF assms] l, of "[]"] unfolding w by blast
qed

definition demo_frames :: "rx_frame list" where
  "demo_frames = [\<lparr>fr_data = replicate 60 1, fr_error = False, fr_meta = 5\<rparr>, \<lparr>fr_data = replicate 64 2, fr_error = True, fr_meta = 0\<rparr>,
     \<lparr>fr_data = replicate 1500 3, fr_error = False, fr_meta = 0\<rparr>]"

theorem eth_receives_in_order_witness:
  "\<exists>m1 Ctx1 m2 Ctx2. AlEthNextSnpInitialize em_hw (fst (AlEthNextSnpStart (initial_ctx (replicate 32 9)))) (demo_eth demo_frames) =
      Some (m1, Ctx1, EFI_SUCCESS) \<and>
    receive_n em_hw 3 Ctx1 m1 = Some (m2, Ctx2, [rx_fields (replicate 60 1), rx_fields (replicate 1500 3)])"
proof -
  have p: "powered (demo_eth demo_frames)" by (rule demo_powered) (simp add: demo_frames_def)
  have "filter rx_good (take 3 demo_frames) = [demo_frames ! 0, demo_frames ! 2]"
    by (simp add: demo_frames_def rx_good_def numeral_3_eq_3)
  then have f: "map (\<lambda>fr. rx_fields (fr_data fr)) (filter rx_good (take 3 (v_wire (em_rx (demo_eth demo_frames))))) =
      [rx_fields (replicate 60 1), rx_fields (replicate 1500 3)]"
    by (simp add: demo_eth_def) (simp add: demo_frames_def)
  have "\<forall>t. 0 < em_pace (demo_eth demo_frames) t" by (simp add: demo_eth_def)
  from eth_receives_in_order [OF p this] show ?thesis using f by metis
qed

text \<open>C17: Whatever the schedule, a call of \<open>Receive\<close> with a buffer either finds nothing and changes nothing, which on
  an adapter that does not stall means that nothing is pending, or takes the next frame out of the ring: one with an error is dropped with \<open>EFI_NOT_READY\<close>, one without a header
  with success and no data, one that is larger than the buffer with \<open>EFI_BUFFER_TOO_SMALL\<close>, its size and no
  second chance, and any other is delivered. The ring has all its buffers again.\<close>

theorem eth_receive_outcomes:
  assumes "rx_state b s m v" and "rx_ready Ctx v c"
  shows "\<exists>m' Ctx' v'. rx_state b s m' v' \<and>
    (AlEthNextSnpReceive em_hw True (Some Size) Ctx m = Some (m', Ctx', EFI_NOT_READY, Some Size, None) \<and>
       rx_ready Ctx' v' c \<and> pending v' c = pending v c \<and> (b \<longrightarrow> pending v c = []) \<or>
     (\<exists>fr. pending v c = fr # pending v' (Suc c) \<and> rx_ready Ctx' v' (Suc c) \<and>
       AlEthNextSnpReceive em_hw True (Some Size) Ctx m =
         (if fr_error fr then Some (m', Ctx', EFI_NOT_READY, Some Size, None)
          else if length (fr_data fr) < 14 then Some (m', Ctx', EFI_SUCCESS, Some Size, None)
          else if Size < of_nat (length (fr_data fr)) then Some (m', Ctx', EFI_BUFFER_TOO_SMALL, Some (of_nat (length (fr_data fr))), None)
          else Some (m', Ctx', EFI_SUCCESS, Some (of_nat (length (fr_data fr))), Some (rx_fields (fr_data fr))))))"
proof -
  have s: "(case rx_spec Size fr of (Status, Size', out) \<Rightarrow> Some (m', Ctx', Status, Some Size', out)) =
         (if fr_error fr then Some (m', Ctx', EFI_NOT_READY, Some Size, None)
          else if length (fr_data fr) < 14 then Some (m', Ctx', EFI_SUCCESS, Some Size, None)
          else if Size < of_nat (length (fr_data fr)) then Some (m', Ctx', EFI_BUFFER_TOO_SMALL, Some (of_nat (length (fr_data fr))), None)
          else Some (m', Ctx', EFI_SUCCESS, Some (of_nat (length (fr_data fr))), Some (rx_fields (fr_data fr))))"
    for fr and m' :: eth_mach and Ctx' :: eth_ctx
    by (simp add: rx_spec_def)
  show ?thesis using em_receive.receive_step [OF assms, of Size] unfolding s by blast
qed

theorem eth_receive_outcomes_witness:
  "\<exists>m Ctx m' Ctx' v'. rx_state True (0, 0) m' v' \<and> rx_ready Ctx' v' 1 \<and> pending v' 1 = tl demo_frames \<and>
    AlEthNextSnpReceive em_hw True (Some 20) Ctx m = Some (m', Ctx', EFI_BUFFER_TOO_SMALL, Some 60, None)"
proof -
  have "\<forall>fr \<in> set demo_frames. length (fr_data fr) \<le> 2048" by (simp add: demo_frames_def)
  then obtain m Ctx where i: "rx_state True (0, 0) m (em_rx m)" "pending (em_rx m) 0 = demo_frames" "rx_ready Ctx (em_rx m) 0"
    using demo_up [of demo_frames True] by blast
  have d: "demo_frames = hd demo_frames # tl demo_frames" "\<not> fr_error (hd demo_frames)" "length (fr_data (hd demo_frames)) = 60"
    by (simp_all add: demo_frames_def)
  then have "pending (em_rx m) 0 \<noteq> []" using i(2) by (metis list.discI)
  then obtain m' Ctx' v' fr where r: "rx_state True (0, 0) m' v'" "pending (em_rx m) 0 = fr # pending v' (Suc 0)" "rx_ready Ctx' v' (Suc 0)"
      "AlEthNextSnpReceive em_hw True (Some 20) Ctx m =
         (if fr_error fr then Some (m', Ctx', EFI_NOT_READY, Some 20, None)
          else if length (fr_data fr) < 14 then Some (m', Ctx', EFI_SUCCESS, Some 20, None)
          else if 20 < (of_nat (length (fr_data fr)) :: u64) then Some (m', Ctx', EFI_BUFFER_TOO_SMALL, Some (of_nat (length (fr_data fr))), None)
          else Some (m', Ctx', EFI_SUCCESS, Some (of_nat (length (fr_data fr))), Some (rx_fields (fr_data fr))))"
    using eth_receive_outcomes [OF i(1,3), of 20] by blast
  have "demo_frames = fr # pending v' 1" using r(2) i(2) by simp
  then have "fr = hd demo_frames" "pending v' 1 = tl demo_frames" by (metis list.sel(1), metis list.sel(3))
  then show ?thesis using r(1,3,4) d(2,3)
    by (intro exI [of _ m] exI [of _ Ctx] exI [of _ m'] exI [of _ Ctx'] exI [of _ v']) simp
qed

subsection \<open>Transmission\<close>

text \<open>C18: A call of \<open>Transmit\<close> never fails but for its arguments or a frame that is still being sent; on success
  exactly one frame joins the traffic, with the header that was asked for and the bytes of the buffer, its size
  cut to 16 bits; otherwise none does, and memory is as it was.\<close>

theorem eth_transmit_outcomes:
  assumes "tx_state b m v" and "tx_ready Ctx v c"
  shows "\<exists>m' Ctx' Status v' c'. AlEthNextSnpTransmit em_hw HeaderSize BufferSize Buffer SrcAddr DestAddr Protocol Ctx m = Some (m', Ctx', Status) \<and>
    tx_state b m' v' \<and> tx_ready Ctx' v' c' \<and>
    (if Buffer = 0 then Status = EFI_INVALID_PARAMETER
     else if BufferSize < MediaHeaderSize then Status = EFI_BUFFER_TOO_SMALL
     else if Status = EFI_NOT_READY then t_head v < t_tail v \<and> \<not> b
     else Status = (if tx_header_ok HeaderSize DestAddr Protocol then EFI_SUCCESS else EFI_INVALID_PARAMETER)) \<and>
    (if Status = EFI_SUCCESS
     then TxBufInFlight Ctx' = Buffer \<and> traffic v' = traffic v @
       [bytes_at (tx_memory HeaderSize Buffer SrcAddr DestAddr Protocol (CurrentAddress Ctx) (t_mem v)) Buffer (unat BufferSize mod 65536)]
     else traffic v' = traffic v \<and> t_mem v' = t_mem v)"
proof -
  obtain m' Ctx' Status v' c' where t: "AlEthNextSnpTransmit em_hw HeaderSize BufferSize Buffer SrcAddr DestAddr Protocol Ctx m = Some (m', Ctx', Status)"
      "tx_state b m' v'" "tx_ready Ctx' v' c'"
      "if Buffer = 0 then Status = EFI_INVALID_PARAMETER
       else if BufferSize < MediaHeaderSize then Status = EFI_BUFFER_TOO_SMALL
       else if Status = EFI_NOT_READY then TxBufInFlight Ctx \<noteq> 0 \<and> t_head v < t_tail v \<and> \<not> b
       else Status = (if tx_header_ok HeaderSize DestAddr Protocol then EFI_SUCCESS else EFI_INVALID_PARAMETER)"
      "tx_effect (Status = EFI_SUCCESS) HeaderSize BufferSize Buffer SrcAddr DestAddr Protocol Ctx v Ctx' v'"
    using em_transmit.transmit_step [OF assms] by blast
  have "if Status = EFI_SUCCESS
     then TxBufInFlight Ctx' = Buffer \<and> traffic v' = traffic v @
       [bytes_at (tx_memory HeaderSize Buffer SrcAddr DestAddr Protocol (CurrentAddress Ctx) (t_mem v)) Buffer (unat BufferSize mod 65536)]
     else traffic v' = traffic v \<and> t_mem v' = t_mem v"
    using t(5) by (simp add: tx_effect_def split: if_splits)
  then show ?thesis using t(1-4)
    by (intro exI [of _ m'] exI [of _ Ctx'] exI [of _ Status] exI [of _ v'] exI [of _ c']) (simp split: if_splits)
qed

theorem eth_transmit_outcomes_witness:
  "\<exists>m Ctx m' Ctx' v'. tx_state True m (em_tx m) \<and>
    AlEthNextSnpTransmit em_hw 14 60 0x9000 None (Some (replicate 6 1)) (Some 0x0800) Ctx m = Some (m', Ctx', EFI_SUCCESS) \<and>
    tx_state True m' v' \<and> length (traffic v') = Suc (length (traffic (em_tx m)))"
proof -
  obtain m Ctx where i: "tx_state True m (em_tx m)" "tx_ready Ctx (em_tx m) 0" using demo_up [of "[]" True] by auto
  have h: "tx_header_ok 14 (Some (replicate 6 1)) (Some 0x0800)" "\<not> (60 :: u64) < MediaHeaderSize" "(0x9000 :: u64) \<noteq> 0"
    by (simp_all add: tx_header_ok_def MediaHeaderSize_def)
  obtain m' Ctx' Status v' c' where t: "AlEthNextSnpTransmit em_hw 14 60 0x9000 None (Some (replicate 6 1)) (Some 0x0800) Ctx m = Some (m', Ctx', Status)"
      "tx_state True m' v'" and st: "Status = EFI_SUCCESS" and
      "TxBufInFlight Ctx' = 0x9000 \<and> traffic v' = traffic (em_tx m) @ [bytes_at (tx_memory 14 0x9000 None (Some (replicate 6 1)) (Some 0x0800)
        (CurrentAddress Ctx) (t_mem (em_tx m))) 0x9000 (unat (60 :: u64) mod 65536)]"
    using eth_transmit_outcomes [OF i, of 14 60 "0x9000" None "Some (replicate 6 1)" "Some 0x0800"] h by (auto split: if_splits)
  then have "length (traffic v') = Suc (length (traffic (em_tx m)))" by simp
  then show ?thesis using i(1) t st by blast
qed

text \<open>C16: On an adapter that does not stall, frames that are ready in their buffers, given to \<open>Transmit\<close> one after
  the other from power-on, are all accepted; \<open>GetStatus\<close> then gives back the last buffer, and exactly these
  frames have been sent, in their order.\<close>

theorem eth_transmits_in_order:
  assumes "powered m" and "\<forall>t. 0 < em_pace m t" and "list_all tx_valid bs" and "bs \<noteq> []"
  shows "\<exists>m1 Ctx1 m2 Ctx2 m3 Ctx3.
    AlEthNextSnpInitialize em_hw (fst (AlEthNextSnpStart (initial_ctx MacAddr))) m = Some (m1, Ctx1, EFI_SUCCESS) \<and>
    transmit_all em_hw bs Ctx1 m1 = Some (m2, Ctx2, replicate (length bs) EFI_SUCCESS) \<and>
    AlEthNextSnpGetStatus em_hw True Ctx2 m2 = (m3, Ctx3, EFI_SUCCESS, Some (fst (last bs))) \<and>
    em_sent m3 = em_sent m1 @ map (\<lambda>(a, n). bytes_at (em_mem m1) a (unat n mod 65536)) bs"
proof -
  obtain m1 Ctx1 where i: "AlEthNextSnpInitialize em_hw (fst (AlEthNextSnpStart (initial_ctx MacAddr))) m = Some (m1, Ctx1, EFI_SUCCESS)"
      "tx_state True m1 (em_tx m1)" "tx_ready Ctx1 (em_tx m1) 0" "em_txh m1 = em_txt m1"
    using start_initialize [of m True MacAddr] assms(1,2) unfolding rx_state_def by (metis prod.inject)
  obtain m2 Ctx2 v2 c2 where t: "transmit_all em_hw bs Ctx1 m1 = Some (m2, Ctx2, replicate (length bs) EFI_SUCCESS)" "tx_state True m2 v2"
      "tx_ready Ctx2 v2 c2" "traffic v2 = traffic (em_tx m1) @ map (\<lambda>(a, n). bytes_at (t_mem (em_tx m1)) a (unat n mod 65536)) bs"
      "TxBufInFlight Ctx2 = fst (last bs)"
    using em_transmit.transmit_sequence [OF i(2,3) assms(3)] assms(4) by fastforce
  have "fst (last bs) \<noteq> 0" using assms(3,4) by (simp add: list_all_iff tx_valid_def)
  then obtain m3 Ctx3 v3 where g: "AlEthNextSnpGetStatus em_hw True Ctx2 m2 = (m3, Ctx3, EFI_SUCCESS, Some (fst (last bs)))"
      "tx_state True m3 v3" "traffic v3 = traffic v2" "t_head v3 = t_tail v3"
    using em_transmit.get_status_step [OF t(2,3)] t(5) by (metis (full_types))
  have "traffic v3 = em_sent m3" using g(2,4) by (auto simp: tx_state_def em_tx_def traffic_def)
  moreover have "traffic (em_tx m1) = em_sent m1" using i(4) by (simp add: traffic_def em_tx_def)
  ultimately have "em_sent m3 = em_sent m1 @ map (\<lambda>(a, n). bytes_at (em_mem m1) a (unat n mod 65536)) bs"
    using g(3) t(4) by (simp add: em_tx_def)
  then show ?thesis using i(1) t(1) g(1) by blast
qed

theorem eth_transmits_in_order_witness:
  "\<exists>m1 Ctx1 m2 Ctx2 m3 Ctx3.
    AlEthNextSnpInitialize em_hw (fst (AlEthNextSnpStart (initial_ctx (replicate 32 9)))) (demo_eth []) = Some (m1, Ctx1, EFI_SUCCESS) \<and>
    transmit_all em_hw [(0x9000, 60), (0x9800, 1500)] Ctx1 m1 = Some (m2, Ctx2, [EFI_SUCCESS, EFI_SUCCESS]) \<and>
    AlEthNextSnpGetStatus em_hw True Ctx2 m2 = (m3, Ctx3, EFI_SUCCESS, Some 0x9800)"
proof -
  have p: "powered (demo_eth [])" by (rule demo_powered) simp
  have "\<forall>t. 0 < em_pace (demo_eth []) t" by (simp add: demo_eth_def)
  moreover have "list_all tx_valid [(0x9000, 60), (0x9800, 1500)]" by (simp add: tx_valid_def MediaHeaderSize_def)
  ultimately show ?thesis using eth_transmits_in_order [OF p, of "[(0x9000, 60), (0x9800, 1500)]" "replicate 32 9"]
    by (simp add: numeral_2_eq_2) blast
qed

end
