(* ===== verification/FormatBlock.thy ===== *)
theory FormatBlock
  imports Prelude
begin

text \<open>
  The application \<open>Application/FormatBlockApp/FormatBlockApp.c\<close>: it gives a block device a GUID partition
  table with one EFI system partition, and an empty FAT file system in it. The device is the Block I/O
  protocol; the pool, the CRC and the services the application calls are parameters. \<^const>\<open>None\<close> is a store
  past the end of a buffer or a division by zero. What the application prints is left out.
\<close>

unbundle bit_operations_syntax

subsection \<open>The protocols\<close>

record efi_block_io_media =
  bm_MediaId :: u32
  bm_ReadOnly :: bool
  bm_BlockSize :: u32
  bm_LastBlock :: u64

text \<open>\<open>WriteBlocks\<close> has the medium, the first block and the data, whose length is the size it is given.\<close>

record 'd efi_block_io =
  bio_Media :: efi_block_io_media
  bio_WriteBlocks :: "u32 \<Rightarrow> u64 \<Rightarrow> bytes \<Rightarrow> 'd \<Rightarrow> 'd \<times> efi_status"
  bio_FlushBlocks :: "'d \<Rightarrow> 'd \<times> efi_status"

text \<open>
  The pool gives a buffer of zeros, here a name for it, or none. The CRC is a function of the bytes.
\<close>

record 'd pool_services =
  ps_AllocateZeroPool :: "u64 \<Rightarrow> 'd \<Rightarrow> 'd \<times> nat option"
  ps_FreePool :: "nat \<Rightarrow> 'd \<Rightarrow> 'd"
  ps_CalculateCrc32 :: "bytes \<Rightarrow> u32"

subsection \<open>The structures on the disk\<close>

definition zeros :: "nat \<Rightarrow> bytes" where
  "zeros n = replicate n 0"

definition bytes64 :: "u64 \<Rightarrow> bytes" where
  "bytes64 w = bytes32 (ucast w) @ bytes32 (ucast (drop_bit 32 w))"

text \<open>The byte image of a GUID: three integers and eight bytes.\<close>

definition guid_bytes :: "u32 \<Rightarrow> u16 \<Rightarrow> u16 \<Rightarrow> bytes \<Rightarrow> bytes" where
  "guid_bytes a b c d = bytes32 a @ bytes16 b @ bytes16 c @ d"

definition mEspTypeGuid :: bytes where
  "mEspTypeGuid = guid_bytes 0xC12A7328 0xF81F 0x11D2 [0xBA, 0x4B, 0x00, 0xA0, 0xC9, 0x3E, 0xC9, 0x3B]"

definition mDiskGuid :: bytes where
  "mDiskGuid = guid_bytes 0xA0A1A2A3 0xB0B1 0xC0C1 [0xD0, 0xD1, 0xD2, 0xD3, 0xD4, 0xD5, 0xD6, 0xD7]"

definition mPartGuid :: bytes where
  "mPartGuid = guid_bytes 0xE0E1E2E3 0xF0F1 0x0001 [0x10, 0x11, 0x12, 0x13, 0x14, 0x15, 0x16, 0x17]"

record MBR_PARTITION_RECORD =
  mp_BootIndicator :: u8
  mp_StartHead :: u8
  mp_StartSector :: u8
  mp_StartTrack :: u8
  mp_OSIndicator :: u8
  mp_EndHead :: u8
  mp_EndSector :: u8
  mp_EndTrack :: u8
  mp_StartingLBA :: u32
  mp_SizeInLBA :: u32

definition mbr_partition_image :: "MBR_PARTITION_RECORD \<Rightarrow> bytes" where
  "mbr_partition_image p = [mp_BootIndicator p, mp_StartHead p, mp_StartSector p, mp_StartTrack p,
     mp_OSIndicator p, mp_EndHead p, mp_EndSector p, mp_EndTrack p]
     @ bytes32 (mp_StartingLBA p) @ bytes32 (mp_SizeInLBA p)"

record MASTER_BOOT_RECORD =
  mbr_Bootstrap :: bytes
  mbr_UniqueMbrSignature :: u32
  mbr_Unknown :: u16
  mbr_Partition :: "bytes list"
  mbr_Signature :: u16

definition mbr_image :: "MASTER_BOOT_RECORD \<Rightarrow> bytes" where
  "mbr_image m = mbr_Bootstrap m @ bytes32 (mbr_UniqueMbrSignature m) @ bytes16 (mbr_Unknown m)
     @ concat (mbr_Partition m) @ bytes16 (mbr_Signature m)"

text \<open>The partition table header and entry of the UEFI specification (\<open>EFI_PARTITION_TABLE_HEADER\<close> and \<open>_ENTRY\<close>).\<close>

record gpt_header =
  gh_CRC32 :: u32
  gh_MyLBA :: u64
  gh_AlternateLBA :: u64
  gh_FirstUsableLBA :: u64
  gh_LastUsableLBA :: u64
  gh_DiskGUID :: bytes
  gh_PartitionEntryLBA :: u64
  gh_NumberOfPartitionEntries :: u32
  gh_SizeOfPartitionEntry :: u32
  gh_PartitionEntryArrayCRC32 :: u32

definition EFI_PTAB_HEADER_ID :: u64 where "EFI_PTAB_HEADER_ID = 0x5452415020494645"

definition gpt_header_image :: "gpt_header \<Rightarrow> bytes" where
  "gpt_header_image h = bytes64 EFI_PTAB_HEADER_ID @ bytes32 0x00010000 @ bytes32 92
     @ bytes32 (gh_CRC32 h) @ zeros 4
     @ bytes64 (gh_MyLBA h) @ bytes64 (gh_AlternateLBA h)
     @ bytes64 (gh_FirstUsableLBA h) @ bytes64 (gh_LastUsableLBA h) @ gh_DiskGUID h
     @ bytes64 (gh_PartitionEntryLBA h) @ bytes32 (gh_NumberOfPartitionEntries h)
     @ bytes32 (gh_SizeOfPartitionEntry h) @ bytes32 (gh_PartitionEntryArrayCRC32 h)"

record gpt_entry =
  ge_PartitionTypeGUID :: bytes
  ge_UniquePartitionGUID :: bytes
  ge_StartingLBA :: u64
  ge_EndingLBA :: u64
  ge_Attributes :: u64
  ge_PartitionName :: bytes

definition gpt_entry_image :: "gpt_entry \<Rightarrow> bytes" where
  "gpt_entry_image e = ge_PartitionTypeGUID e @ ge_UniquePartitionGUID e @ bytes64 (ge_StartingLBA e)
     @ bytes64 (ge_EndingLBA e) @ bytes64 (ge_Attributes e) @ ge_PartitionName e"

text \<open>The boot sectors: the first 36 bytes are declared alike in both structures.\<close>

record fat_bpb =
  JmpBoot :: bytes
  OEMName :: bytes
  BytsPerSec :: u16
  SecPerClus :: u8
  RsvdSecCnt :: u16
  NumFATs :: u8
  RootEntCnt :: u16
  TotSec16 :: u16
  Media :: u8
  FATSz16 :: u16
  SecPerTrk :: u16
  NumHeads :: u16
  HiddSec :: u32
  TotSec32 :: u32

record FAT16_BOOT_SECTOR = fat_bpb +
  DrvNum16 :: u8
  Reserved16 :: u8
  BootSig16 :: u8
  VolID16 :: u32
  VolLab16 :: bytes
  FilSysType16 :: bytes
  BootCode16 :: bytes
  Signature16 :: u16

record FAT32_BOOT_SECTOR = fat_bpb +
  FATSz32 :: u32
  ExtFlags :: u16
  FSVer :: u16
  RootClus :: u32
  FSInfo :: u16
  BkBootSec :: u16
  Reserved32 :: bytes
  DrvNum32 :: u8
  Reserved1 :: u8
  BootSig32 :: u8
  VolID32 :: u32
  VolLab32 :: bytes
  FilSysType32 :: bytes
  BootCode32 :: bytes
  Signature32 :: u16

definition bpb_image :: "'a fat_bpb_scheme \<Rightarrow> bytes" where
  "bpb_image b = JmpBoot b @ OEMName b @ bytes16 (BytsPerSec b) @ [SecPerClus b] @ bytes16 (RsvdSecCnt b)
     @ [NumFATs b] @ bytes16 (RootEntCnt b) @ bytes16 (TotSec16 b) @ [Media b] @ bytes16 (FATSz16 b)
     @ bytes16 (SecPerTrk b) @ bytes16 (NumHeads b) @ bytes32 (HiddSec b) @ bytes32 (TotSec32 b)"

definition fat16_image :: "FAT16_BOOT_SECTOR \<Rightarrow> bytes" where
  "fat16_image b = bpb_image b @ [DrvNum16 b, Reserved16 b, BootSig16 b] @ bytes32 (VolID16 b)
     @ VolLab16 b @ FilSysType16 b @ BootCode16 b @ bytes16 (Signature16 b)"

definition fat32_image :: "FAT32_BOOT_SECTOR \<Rightarrow> bytes" where
  "fat32_image b = bpb_image b @ bytes32 (FATSz32 b) @ bytes16 (ExtFlags b) @ bytes16 (FSVer b)
     @ bytes32 (RootClus b) @ bytes16 (FSInfo b) @ bytes16 (BkBootSec b) @ Reserved32 b
     @ [DrvNum32 b, Reserved1 b, BootSig32 b] @ bytes32 (VolID32 b)
     @ VolLab32 b @ FilSysType32 b @ BootCode32 b @ bytes16 (Signature32 b)"

record FAT32_FSINFO =
  fi_LeadSig :: u32
  fi_Reserved1 :: bytes
  fi_StrucSig :: u32
  fi_Free_Count :: u32
  fi_Nxt_Free :: u32
  fi_Reserved2 :: bytes
  fi_TrailSig :: u32

definition fsinfo_image :: "FAT32_FSINFO \<Rightarrow> bytes" where
  "fsinfo_image f = bytes32 (fi_LeadSig f) @ fi_Reserved1 f @ bytes32 (fi_StrucSig f)
     @ bytes32 (fi_Free_Count f) @ bytes32 (fi_Nxt_Free f) @ fi_Reserved2 f @ bytes32 (fi_TrailSig f)"

text \<open>A structure at the start of a zeroed buffer of \<open>BlockSize\<close> bytes.\<close>

definition in_block :: "u32 \<Rightarrow> bytes \<Rightarrow> bytes option" where
  "in_block BlockSize b =
     (if length b \<le> unat BlockSize then Some (b @ zeros (unat BlockSize - length b)) else None)"

text \<open>A buffer of the pool: allocated, used by \<open>k\<close> and freed, the pattern of every function below.\<close>

definition with_buffer ::
    "'d pool_services \<Rightarrow> u64 \<Rightarrow> ('d \<Rightarrow> ('d \<times> efi_status) option) \<Rightarrow> 'd \<Rightarrow> ('d \<times> efi_status) option" where
  "with_buffer ps n k d = (case ps_AllocateZeroPool ps n d of
      (d1, None) \<Rightarrow> Some (d1, EFI_OUT_OF_RESOURCES)
    | (d1, Some b) \<Rightarrow> do { (d2, st) \<leftarrow> k d1; Some (ps_FreePool ps b d2, st) })"

subsection \<open>The protective MBR\<close>

definition write_block :: "'d efi_block_io \<Rightarrow> u64 \<Rightarrow> bytes \<Rightarrow> 'd \<Rightarrow> 'd \<times> efi_status" where
  "write_block bio Lba b d = bio_WriteBlocks bio (bm_MediaId (bio_Media bio)) Lba b d"

definition protective_mbr :: "u64 \<Rightarrow> MASTER_BOOT_RECORD" where
  "protective_mbr TotalBlocks =
     (let EndLba = (if 0xFFFFFFFF < TotalBlocks - 1 then 0xFFFFFFFF else ucast (TotalBlocks - 1)) in
      \<lparr>mbr_Bootstrap = zeros 440, mbr_UniqueMbrSignature = 0, mbr_Unknown = 0,
       mbr_Partition = mbr_partition_image
          \<lparr>mp_BootIndicator = 0, mp_StartHead = 0, mp_StartSector = 2, mp_StartTrack = 0,
           mp_OSIndicator = 0xEE, mp_EndHead = 0xFF, mp_EndSector = 0xFF, mp_EndTrack = 0xFF,
           mp_StartingLBA = 1, mp_SizeInLBA = EndLba\<rparr> # replicate 3 (zeros 16),
       mbr_Signature = 0xAA55\<rparr>)"

definition WriteProtectiveMbr ::
    "'d pool_services \<Rightarrow> 'd efi_block_io \<Rightarrow> u32 \<Rightarrow> u64 \<Rightarrow> 'd \<Rightarrow> ('d \<times> efi_status) option" where
  "WriteProtectiveMbr ps bio BlockSize TotalBlocks d =
     with_buffer ps (ucast BlockSize) (\<lambda>d. do {
       Mbr \<leftarrow> in_block BlockSize (mbr_image (protective_mbr TotalBlocks));
       Some (write_block bio 0 Mbr d)
     }) d"

subsection \<open>The partition tables\<close>

definition GPT_ENTRY_COUNT :: u32 where "GPT_ENTRY_COUNT = 128"
definition GPT_ENTRY_SIZE :: u32 where "GPT_ENTRY_SIZE = 128"

definition GPT_ENTRIES_LBAS :: "u32 \<Rightarrow> u32" where
  "GPT_ENTRIES_LBAS BlkSz = (GPT_ENTRY_COUNT * GPT_ENTRY_SIZE + BlkSz - 1) div BlkSz"

text \<open>The bounds of the partition, computed alike by \<open>WriteGpt\<close> and \<open>FormatFat\<close>.\<close>

definition first_usable :: "u32 \<Rightarrow> u64" where
  "first_usable BlockSize = ucast (2 + GPT_ENTRIES_LBAS BlockSize)"

definition last_usable :: "u32 \<Rightarrow> u64 \<Rightarrow> u64" where
  "last_usable BlockSize TotalBlocks = TotalBlocks - 2 - ucast (GPT_ENTRIES_LBAS BlockSize)"

text \<open>
  The loop over the blocks of the entries: the bytes still to be written, padded to a block. With an empty
  block the loop would not advance.
\<close>

function write_entries ::
    "'d efi_block_io \<Rightarrow> u32 \<Rightarrow> u64 \<Rightarrow> bytes \<Rightarrow> 'd \<Rightarrow> ('d \<times> efi_status) option" where
  "write_entries bio BlockSize Lba Ptr d =
     (if Ptr = [] then Some (d, EFI_SUCCESS)
      else if BlockSize = 0 then None
      else (let ChunkSize = (if unat BlockSize < length Ptr then unat BlockSize else length Ptr);
                LbaBlock = take ChunkSize Ptr @ zeros (unat BlockSize - ChunkSize);
                (d1, Status) = write_block bio Lba LbaBlock d in
        if EFI_ERROR Status then Some (d1, Status)
        else write_entries bio BlockSize (Lba + 1) (drop ChunkSize Ptr) d1))"
  by pat_completeness auto
termination
  by (relation "measure (\<lambda>(bio, BlockSize, Lba, Ptr, d). length Ptr)")
    (auto simp: unat_gt_0 split: if_splits)

declare write_entries.simps [simp del]

text \<open>The loop with its block buffer.\<close>

definition entries_with_buffer ::
    "'d pool_services \<Rightarrow> 'd efi_block_io \<Rightarrow> u32 \<Rightarrow> u64 \<Rightarrow> bytes \<Rightarrow> 'd \<Rightarrow> ('d \<times> efi_status) option" where
  "entries_with_buffer ps bio BlockSize Lba Entries d =
     with_buffer ps (ucast BlockSize) (write_entries bio BlockSize Lba Entries) d"

text \<open>The array of entries, the first being the system partition, and the header with its CRC.\<close>

definition gpt_entries :: "u64 \<Rightarrow> u64 \<Rightarrow> bytes" where
  "gpt_entries FirstUsable LastUsable =
     gpt_entry_image \<lparr>ge_PartitionTypeGUID = mEspTypeGuid, ge_UniquePartitionGUID = mPartGuid,
       ge_StartingLBA = FirstUsable, ge_EndingLBA = LastUsable, ge_Attributes = 0,
       ge_PartitionName = concat (map bytes16 (wide ''EFI System'')) @ zeros 50\<rparr>
     @ zeros (127 * 128)"

definition gpt_header_for ::
    "(bytes \<Rightarrow> u32) \<Rightarrow> u64 \<Rightarrow> u64 \<Rightarrow> u64 \<Rightarrow> u64 \<Rightarrow> u64 \<Rightarrow> u32 \<Rightarrow> gpt_header" where
  "gpt_header_for crc MyLBA AlternateLBA FirstUsable LastUsable EntryLBA EntriesCrc =
     (let Hdr = \<lparr>gh_CRC32 = 0, gh_MyLBA = MyLBA, gh_AlternateLBA = AlternateLBA,
            gh_FirstUsableLBA = FirstUsable, gh_LastUsableLBA = LastUsable, gh_DiskGUID = mDiskGuid,
            gh_PartitionEntryLBA = EntryLBA, gh_NumberOfPartitionEntries = GPT_ENTRY_COUNT,
            gh_SizeOfPartitionEntry = GPT_ENTRY_SIZE, gh_PartitionEntryArrayCRC32 = EntriesCrc\<rparr> in
      Hdr\<lparr>gh_CRC32 := crc (gpt_header_image Hdr)\<rparr>)"

text \<open>The part between the allocation of the header and the label \<open>Done\<close>.\<close>

definition write_tables ::
    "'d pool_services \<Rightarrow> 'd efi_block_io \<Rightarrow> u32 \<Rightarrow> u64 \<Rightarrow> 'd \<Rightarrow> ('d \<times> efi_status) option" where
  "write_tables ps bio BlockSize TotalBlocks d =
     (let FirstUsable = first_usable BlockSize;
          LastUsable = last_usable BlockSize TotalBlocks;
          BackupHdrLba = TotalBlocks - 1;
          BackupEntriesLba = LastUsable + 1;
          Entries = gpt_entries FirstUsable LastUsable;
          EntriesCrc = ps_CalculateCrc32 ps Entries in do {
        Hdr \<leftarrow> in_block BlockSize (gpt_header_image (gpt_header_for (ps_CalculateCrc32 ps)
          1 BackupHdrLba FirstUsable LastUsable 2 EntriesCrc));
        let (d1, Status) = write_block bio 1 Hdr d;
        if EFI_ERROR Status then Some (d1, Status)
        else do {
          (d2, Status) \<leftarrow> entries_with_buffer ps bio BlockSize 2 Entries d1;
          if EFI_ERROR Status then Some (d2, Status)
          else do {
            (d3, Status) \<leftarrow> entries_with_buffer ps bio BlockSize BackupEntriesLba Entries d2;
            if EFI_ERROR Status then Some (d3, Status)
            else do {
              Hdr \<leftarrow> in_block BlockSize (gpt_header_image (gpt_header_for (ps_CalculateCrc32 ps)
                BackupHdrLba 1 FirstUsable LastUsable BackupEntriesLba EntriesCrc));
              Some (write_block bio BackupHdrLba Hdr d3)
            }
          }
        }
      })"

definition WriteGpt ::
    "'d pool_services \<Rightarrow> 'd efi_block_io \<Rightarrow> u32 \<Rightarrow> u64 \<Rightarrow> 'd \<Rightarrow> ('d \<times> efi_status) option" where
  "WriteGpt ps bio BlockSize TotalBlocks d =
     (if BlockSize = 0 then None
      else if last_usable BlockSize TotalBlocks \<le> first_usable BlockSize then Some (d, EFI_VOLUME_FULL)
      else with_buffer ps (ucast (GPT_ENTRY_COUNT * GPT_ENTRY_SIZE))
        (with_buffer ps (ucast BlockSize) (write_tables ps bio BlockSize TotalBlocks)) d)"

end
