(* ===== verification/FormatFat.thy ===== *)
theory FormatFat
  imports FormatBlock
begin

text \<open>
  \<open>FormatFat\<close> of \<open>Application/FormatBlockApp/FormatBlockApp.c\<close>: the choice of the FAT type and of the sizes,
  in the 32-bit and 64-bit integers of the code, the boot sectors and the writes; and what a
  reader makes of the sizes by the FAT specification.
\<close>

unbundle bit_operations_syntax

subsection \<open>The sizes\<close>

record fat_layout =
  fl_UseFat32 :: bool
  fl_SecPerClus :: u32
  fl_FatSz :: u32
  fl_RsvdSecCnt :: u32
  fl_RootDirSectors :: u32
  fl_TotalClusters :: u32

definition FAT16_ROOT_ENTRY_COUNT :: u32 where "FAT16_ROOT_ENTRY_COUNT = 512"

definition FAT16_ROOT_DIR_SECTORS :: "u32 \<Rightarrow> u32" where
  "FAT16_ROOT_DIR_SECTORS BlkSz = (FAT16_ROOT_ENTRY_COUNT * 32 + BlkSz - 1) div BlkSz"

text \<open>One round of the loop over the cluster sizes: the sectors of a FAT and the clusters.\<close>

definition fat16_try :: "u32 \<Rightarrow> u64 \<Rightarrow> u32 \<Rightarrow> u32 \<times> u32" where
  "fat16_try BlockSize PartSectors TryClus =
     (let RsvdSecCnt = 1 :: u32;
          RootDirSectors = FAT16_ROOT_DIR_SECTORS BlockSize;
          TryClusters = (ucast ((PartSectors - ucast RsvdSecCnt - ucast RootDirSectors) div ucast TryClus) :: u32);
          TryFatSz = ((TryClusters + 2) * 2 + BlockSize - 1) div BlockSize;
          DataSectors = ucast PartSectors - RsvdSecCnt - 2 * TryFatSz - RootDirSectors in
      (TryFatSz, DataSectors div TryClus))"

text \<open>The loop, over the exponents 0 to 6.\<close>

fun fat16_loop :: "u32 \<Rightarrow> u64 \<Rightarrow> nat list \<Rightarrow> fat_layout option" where
  "fat16_loop BlockSize PartSectors [] = None"
| "fat16_loop BlockSize PartSectors (i # is) =
     (let TryClus = push_bit i 1;
          (TryFatSz, TryClusters) = fat16_try BlockSize PartSectors TryClus in
      if 4085 \<le> TryClusters \<and> TryClusters \<le> 65524
      then Some \<lparr>fl_UseFat32 = False, fl_SecPerClus = TryClus, fl_FatSz = TryFatSz, fl_RsvdSecCnt = 1,
        fl_RootDirSectors = FAT16_ROOT_DIR_SECTORS BlockSize, fl_TotalClusters = TryClusters\<rparr>
      else fat16_loop BlockSize PartSectors is)"

definition fat32_layout :: "u32 \<Rightarrow> u64 \<Rightarrow> fat_layout" where
  "fat32_layout BlockSize PartSectors =
     (let RsvdSecCnt = 32 :: u32;
          SecPerClus = (if 32768 \<le> BlockSize then 1 else 32768 div BlockSize);
          SecPerClus = (if 128 < SecPerClus then 128 else SecPerClus);
          TotalClusters = (ucast ((PartSectors - ucast RsvdSecCnt) div ucast SecPerClus) :: u32);
          FatSz = ((TotalClusters + 2) * 4 + BlockSize - 1) div BlockSize;
          TotalClusters = (ucast ((PartSectors - ucast RsvdSecCnt - ucast (2 * FatSz)) div ucast SecPerClus) :: u32);
          FatSz = ((TotalClusters + 2) * 4 + BlockSize - 1) div BlockSize in
      \<lparr>fl_UseFat32 = True, fl_SecPerClus = SecPerClus, fl_FatSz = FatSz, fl_RsvdSecCnt = RsvdSecCnt,
       fl_RootDirSectors = 0, fl_TotalClusters = TotalClusters\<rparr>)"

definition fat_layout_for :: "u32 \<Rightarrow> u64 \<Rightarrow> fat_layout" where
  "fat_layout_for BlockSize PartSectors =
     (case fat16_loop BlockSize PartSectors [0..<7] of
        Some l \<Rightarrow> l
      | None \<Rightarrow> fat32_layout BlockSize PartSectors)"

subsection \<open>The boot sectors\<close>

definition ascii :: "string \<Rightarrow> bytes" where
  "ascii s = map of_char s"

definition fat16_boot_sector :: "u32 \<Rightarrow> u64 \<Rightarrow> u64 \<Rightarrow> fat_layout \<Rightarrow> FAT16_BOOT_SECTOR" where
  "fat16_boot_sector BlockSize FirstUsable PartSectors l =
     \<lparr>JmpBoot = [0xEB, 0x3C, 0x90], OEMName = ascii ''MTIKUEFI'',
      BytsPerSec = ucast BlockSize, SecPerClus = ucast (fl_SecPerClus l), RsvdSecCnt = ucast (fl_RsvdSecCnt l),
      NumFATs = 2, RootEntCnt = ucast FAT16_ROOT_ENTRY_COUNT,
      TotSec16 = (if PartSectors \<le> 0xFFFF then ucast PartSectors else 0),
      Media = 0xF8, FATSz16 = ucast (fl_FatSz l), SecPerTrk = 63, NumHeads = 255,
      HiddSec = ucast FirstUsable,
      TotSec32 = (if PartSectors \<le> 0xFFFF then 0 else ucast PartSectors),
      DrvNum16 = 0x80, Reserved16 = 0, BootSig16 = 0x29, VolID16 = 0xDEADBEEF,
      VolLab16 = ascii ''EFI SYSTEM '', FilSysType16 = ascii ''FAT16   '', BootCode16 = zeros 448,
      Signature16 = 0xAA55\<rparr>"

definition fat32_boot_sector :: "u32 \<Rightarrow> u64 \<Rightarrow> u64 \<Rightarrow> fat_layout \<Rightarrow> FAT32_BOOT_SECTOR" where
  "fat32_boot_sector BlockSize FirstUsable PartSectors l =
     \<lparr>JmpBoot = [0xEB, 0x58, 0x90], OEMName = ascii ''MTIKUEFI'',
      BytsPerSec = ucast BlockSize, SecPerClus = ucast (fl_SecPerClus l), RsvdSecCnt = ucast (fl_RsvdSecCnt l),
      NumFATs = 2, RootEntCnt = 0, TotSec16 = 0, Media = 0xF8, FATSz16 = 0, SecPerTrk = 63, NumHeads = 255,
      HiddSec = ucast FirstUsable, TotSec32 = ucast PartSectors,
      FATSz32 = fl_FatSz l, ExtFlags = 0, FSVer = 0, RootClus = 2, FSInfo = 1, BkBootSec = 6,
      Reserved32 = zeros 12, DrvNum32 = 0x80, Reserved1 = 0, BootSig32 = 0x29, VolID32 = 0xDEADBEEF,
      VolLab32 = ascii ''EFI SYSTEM '', FilSysType32 = ascii ''FAT32   '', BootCode32 = zeros 420,
      Signature32 = 0xAA55\<rparr>"

definition boot_image :: "u32 \<Rightarrow> u64 \<Rightarrow> u64 \<Rightarrow> fat_layout \<Rightarrow> bytes" where
  "boot_image BlockSize FirstUsable PartSectors l =
     (if fl_UseFat32 l then fat32_image (fat32_boot_sector BlockSize FirstUsable PartSectors l)
      else fat16_image (fat16_boot_sector BlockSize FirstUsable PartSectors l))"

definition fsinfo_for :: "fat_layout \<Rightarrow> FAT32_FSINFO" where
  "fsinfo_for l = \<lparr>fi_LeadSig = 0x41615252, fi_Reserved1 = zeros 480, fi_StrucSig = 0x61417272,
     fi_Free_Count = fl_TotalClusters l - 1, fi_Nxt_Free = 3, fi_Reserved2 = zeros 12, fi_TrailSig = 0xAA550000\<rparr>"

text \<open>The first entries of a FAT.\<close>

definition fat_head :: "fat_layout \<Rightarrow> bytes" where
  "fat_head l = (if fl_UseFat32 l then bytes32 0x0FFFFFF8 @ bytes32 0x0FFFFFFF @ bytes32 0x0FFFFFFF
     else bytes16 0xFFF8 @ bytes16 0xFFFF)"

subsection \<open>The writes\<close>

text \<open>Writes whose status is ignored.\<close>

definition write_ignored :: "'d efi_block_io \<Rightarrow> u64 \<Rightarrow> bytes \<Rightarrow> 'd \<Rightarrow> 'd" where
  "write_ignored bio Lba b d = fst (write_block bio Lba b d)"

definition write_boot_sectors ::
    "'d pool_services \<Rightarrow> 'd efi_block_io \<Rightarrow> u32 \<Rightarrow> u64 \<Rightarrow> u64 \<Rightarrow> fat_layout \<Rightarrow> 'd \<Rightarrow> ('d \<times> efi_status) option" where
  "write_boot_sectors ps bio BlockSize FirstUsable PartSectors l d =
     with_buffer ps (ucast BlockSize) (\<lambda>d. do {
       Sector \<leftarrow> in_block BlockSize (boot_image BlockSize FirstUsable PartSectors l);
       let (d1, Status) = write_block bio FirstUsable Sector d;
       if EFI_ERROR Status then Some (d1, Status)
       else if fl_UseFat32 l
       then (let (d2, Status) = write_block bio (FirstUsable + 6) Sector d1 in
         if EFI_ERROR Status then Some (d2, Status) else Some (d2, EFI_SUCCESS))
       else Some (d1, EFI_SUCCESS)
     }) d"

definition write_fsinfo ::
    "'d pool_services \<Rightarrow> 'd efi_block_io \<Rightarrow> u32 \<Rightarrow> u64 \<Rightarrow> fat_layout \<Rightarrow> 'd \<Rightarrow> ('d \<times> efi_status) option" where
  "write_fsinfo ps bio BlockSize FirstUsable l d =
     (if \<not> fl_UseFat32 l then Some (d, EFI_SUCCESS)
      else with_buffer ps (ucast BlockSize) (\<lambda>d. do {
        FsInfo \<leftarrow> in_block BlockSize (fsinfo_image (fsinfo_for l));
        let d1 = write_ignored bio (FirstUsable + 1) FsInfo d;
        Some (write_ignored bio (FirstUsable + 7) FsInfo d1, EFI_SUCCESS)
      }) d)"

text \<open>The loops that clear the rest of both FATs and the root directory.\<close>

definition clear_fats :: "'d efi_block_io \<Rightarrow> u64 \<Rightarrow> u64 \<Rightarrow> u32 \<Rightarrow> bytes \<Rightarrow> 'd \<Rightarrow> 'd" where
  "clear_fats bio FatStartLba Fat2StartLba FatSz Sector d =
     fold (\<lambda>i d. write_ignored bio (Fat2StartLba + of_nat i) Sector
       (write_ignored bio (FatStartLba + of_nat i) Sector d)) [1..<unat FatSz] d"

definition clear_run :: "'d efi_block_io \<Rightarrow> u64 \<Rightarrow> u32 \<Rightarrow> bytes \<Rightarrow> 'd \<Rightarrow> 'd" where
  "clear_run bio Lba n Sector d = fold (\<lambda>i d. write_ignored bio (Lba + of_nat i) Sector d) [0..<unat n] d"

definition write_fats ::
    "'d pool_services \<Rightarrow> 'd efi_block_io \<Rightarrow> u32 \<Rightarrow> u64 \<Rightarrow> fat_layout \<Rightarrow> 'd \<Rightarrow> ('d \<times> efi_status) option" where
  "write_fats ps bio BlockSize FirstUsable l d =
     (let FatStartLba = FirstUsable + ucast (fl_RsvdSecCnt l);
          Fat2StartLba = FatStartLba + ucast (fl_FatSz l);
          RootDirLba = Fat2StartLba + ucast (fl_FatSz l);
          DataStartLba = RootDirLba + ucast (fl_RootDirSectors l) in
      with_buffer ps (ucast BlockSize) (\<lambda>d. do {
        Sector \<leftarrow> in_block BlockSize (fat_head l);
        let d1 = write_ignored bio Fat2StartLba Sector (write_ignored bio FatStartLba Sector d);
        let Sector = zeros (unat BlockSize);
        let d2 = clear_fats bio FatStartLba Fat2StartLba (fl_FatSz l) Sector d1;
        Some (if fl_UseFat32 l then clear_run bio DataStartLba (fl_SecPerClus l) Sector d2
          else clear_run bio RootDirLba (fl_RootDirSectors l) Sector d2, EFI_SUCCESS)
      }) d)"

definition FormatFat ::
    "'d pool_services \<Rightarrow> 'd efi_block_io \<Rightarrow> u32 \<Rightarrow> u64 \<Rightarrow> 'd \<Rightarrow> ('d \<times> efi_status) option" where
  "FormatFat ps bio BlockSize TotalBlocks d =
     (if BlockSize = 0 then None
      else let FirstUsable = first_usable BlockSize;
               LastUsable = last_usable BlockSize TotalBlocks;
               PartSectors = LastUsable - FirstUsable + 1;
               l = fat_layout_for BlockSize PartSectors in do {
        (d1, Status) \<leftarrow> write_boot_sectors ps bio BlockSize FirstUsable PartSectors l d;
        if EFI_ERROR Status then Some (d1, Status)
        else do {
          (d2, Status) \<leftarrow> write_fsinfo ps bio BlockSize FirstUsable l d1;
          if EFI_ERROR Status then Some (d2, Status)
          else write_fats ps bio BlockSize FirstUsable l d2
        }
      })"

end
