(* ===== verification/FormatDisk.thy ===== *)
theory FormatDisk
  imports FormatFat
begin

text \<open>
  The contract of a block device with a pool, the locale \<open>block_store\<close>, and what the writes of the
  application do to the blocks of any such device: which blocks they may change, what they hold after a
  success, and when the success is certain.
\<close>

unbundle bit_operations_syntax

subsection \<open>The contract of the device\<close>

text \<open>
  How the state of the device and of the pool is seen: the blocks, the buffers in use, the states the
  contract holds for, and whether no operation within the device fails.
\<close>

record 'd store_view =
  sv_disk :: "'d \<Rightarrow> nat \<Rightarrow> bytes"
  sv_pool :: "'d \<Rightarrow> nat set"
  sv_ready :: "'d \<Rightarrow> bool"
  sv_live :: bool

definition last_block :: "'d efi_block_io \<Rightarrow> nat" where
  "last_block bio = unat (bm_LastBlock (bio_Media bio))"

definition block_size :: "'d efi_block_io \<Rightarrow> nat" where
  "block_size bio = unat (bm_BlockSize (bio_Media bio))"

text \<open>
  The outcome of an operation that may change the blocks \<open>L\<close>, needs the blocks \<open>fit\<close> to exist, and turns the
  contents into \<open>M\<close>. If it is strict, its success says so; if not, it ignores failures of the device.
\<close>

definition leaves ::
    "'d store_view \<Rightarrow> bool \<Rightarrow> bool \<Rightarrow> nat set \<Rightarrow> ((nat \<Rightarrow> bytes) \<Rightarrow> nat \<Rightarrow> bytes) \<Rightarrow> ('d \<times> efi_status) option \<Rightarrow> 'd \<Rightarrow> bool" where
  "leaves V strict fit L M res d \<longleftrightarrow> (\<exists>d' st. res = Some (d', st) \<and>
     sv_ready V d' \<and> sv_pool V d' = sv_pool V d \<and> (\<forall>l. l \<notin> L \<longrightarrow> sv_disk V d' l = sv_disk V d l) \<and>
     (\<not> EFI_ERROR st \<and> strict \<longrightarrow> fit) \<and>
     (\<not> EFI_ERROR st \<and> (strict \<or> sv_live V \<and> fit) \<longrightarrow> sv_disk V d' = M (sv_disk V d)) \<and>
     (sv_live V \<and> fit \<longrightarrow> \<not> EFI_ERROR st))"

lemma leaves_weaken:
  assumes "leaves V strict fit L M res d" and "L \<subseteq> L'" and "fit \<longleftrightarrow> fit'" and "fit \<Longrightarrow> M (sv_disk V d) = M' (sv_disk V d)"
  shows "leaves V strict fit' L' M' res d"
proof -
  obtain d' st where r: "res = Some (d', st)" "sv_ready V d'" "sv_pool V d' = sv_pool V d"
      "\<forall>l. l \<notin> L \<longrightarrow> sv_disk V d' l = sv_disk V d l" "\<not> EFI_ERROR st \<and> strict \<longrightarrow> fit"
      "\<not> EFI_ERROR st \<and> (strict \<or> sv_live V \<and> fit) \<longrightarrow> sv_disk V d' = M (sv_disk V d)"
      "sv_live V \<and> fit \<longrightarrow> \<not> EFI_ERROR st"
    using assms(1) by (auto simp: leaves_def)
  have "\<not> EFI_ERROR st \<and> (strict \<or> sv_live V \<and> fit) \<longrightarrow> sv_disk V d' = M' (sv_disk V d)"
    using r(5,6) assms(4) by auto
  then show ?thesis using r assms(2,3) unfolding leaves_def by (intro exI [of _ d'] exI [of _ st]) auto
qed

lemma leaves_bind:
  assumes "leaves V strict fit L M res d"
    and "\<And>d1. sv_ready V d1 \<Longrightarrow> leaves V strict fit' L' M' (k d1) d1"
  shows "leaves V strict (fit \<and> fit') (L \<union> L') (\<lambda>m. M' (M m))
    (do { (d1, st) \<leftarrow> res; if EFI_ERROR st then Some (d1, st) else k d1 }) d"
proof -
  obtain d1 st where r: "res = Some (d1, st)" "sv_ready V d1" "sv_pool V d1 = sv_pool V d"
      "\<forall>l. l \<notin> L \<longrightarrow> sv_disk V d1 l = sv_disk V d l" "\<not> EFI_ERROR st \<and> strict \<longrightarrow> fit"
      "\<not> EFI_ERROR st \<and> (strict \<or> sv_live V \<and> fit) \<longrightarrow> sv_disk V d1 = M (sv_disk V d)"
      "sv_live V \<and> fit \<longrightarrow> \<not> EFI_ERROR st"
    using assms(1) by (auto simp: leaves_def)
  show ?thesis
  proof (cases "EFI_ERROR st")
    case True
    then show ?thesis using r unfolding leaves_def by (intro exI [of _ d1] exI [of _ st]) auto
  next
    case False
    then show ?thesis using r assms(2) [OF r(2)] unfolding leaves_def by auto
  qed
qed

lemma leaves_success: "sv_ready V d \<Longrightarrow> leaves V strict True {} (\<lambda>m. m) (Some (d, EFI_SUCCESS)) d"
  by (simp add: leaves_def)

lemma leaves_error: "sv_ready V d \<Longrightarrow> EFI_ERROR st \<Longrightarrow> leaves V strict False {} M (Some (d, st)) d"
  by (simp add: leaves_def)

text \<open>A write whose failure is ignored has no effect on a block that does not exist.\<close>

definition put_block :: "nat \<Rightarrow> nat \<Rightarrow> bytes \<Rightarrow> (nat \<Rightarrow> bytes) \<Rightarrow> nat \<Rightarrow> bytes" where
  "put_block k l b m = (if l \<le> k then m(l := b) else m)"

locale block_store =
  fixes ps :: "'d pool_services" and bio :: "'d efi_block_io" and V :: "'d store_view"
  assumes writes: "sv_ready V d \<Longrightarrow> length b = block_size bio \<Longrightarrow>
      leaves V True (unat Lba \<le> last_block bio) {unat Lba} (\<lambda>m. m(unat Lba := b)) (Some (write_block bio Lba b d)) d"
    and writes_beyond: "sv_ready V d \<Longrightarrow> length b = block_size bio \<Longrightarrow> last_block bio < unat Lba \<Longrightarrow>
      sv_disk V (fst (write_block bio Lba b d)) = sv_disk V d"
    and allocates: "sv_ready V d \<Longrightarrow> ps_AllocateZeroPool ps n d = (d', r) \<Longrightarrow>
      sv_ready V d' \<and> sv_disk V d' = sv_disk V d \<and>
      (case r of None \<Rightarrow> \<not> sv_live V \<and> sv_pool V d' = sv_pool V d
       | Some a \<Rightarrow> a \<notin> sv_pool V d \<and> sv_pool V d' = insert a (sv_pool V d))"
    and frees: "sv_ready V d \<Longrightarrow> sv_ready V (ps_FreePool ps a d) \<and>
      sv_disk V (ps_FreePool ps a d) = sv_disk V d \<and> sv_pool V (ps_FreePool ps a d) = sv_pool V d - {a}"

context block_store begin

lemma buffered:
  assumes "sv_ready V d" and "\<And>d1. sv_ready V d1 \<Longrightarrow> leaves V strict fit L M (k d1) d1"
  shows "leaves V strict fit L M (with_buffer ps n k d) d"
proof -
  obtain d1 r where a: "ps_AllocateZeroPool ps n d = (d1, r)" by fastforce
  note al = allocates [OF assms(1) a]
  show ?thesis
  proof (cases r)
    case None
    then show ?thesis using a al by (auto simp: with_buffer_def leaves_def)
  next
    case (Some b)
    obtain d2 st where k: "k d1 = Some (d2, st)" "sv_ready V d2" "sv_pool V d2 = sv_pool V d1"
        "\<forall>l. l \<notin> L \<longrightarrow> sv_disk V d2 l = sv_disk V d1 l" "\<not> EFI_ERROR st \<and> strict \<longrightarrow> fit"
        "\<not> EFI_ERROR st \<and> (strict \<or> sv_live V \<and> fit) \<longrightarrow> sv_disk V d2 = M (sv_disk V d1)"
        "sv_live V \<and> fit \<longrightarrow> \<not> EFI_ERROR st"
      using assms(2) [of d1] al by (auto simp: leaves_def)
    then show ?thesis using a al Some frees [OF k(2), of b] by (simp add: with_buffer_def leaves_def)
  qed
qed

lemma writes_strict:
  assumes "sv_ready V d" and "length b = block_size bio"
  shows "leaves V strict (unat Lba \<le> last_block bio) {unat Lba} (\<lambda>m. m(unat Lba := b)) (Some (write_block bio Lba b d)) d"
  using writes [OF assms, of Lba] by (auto simp: leaves_def)

lemma ignores:
  assumes "sv_ready V d" and "length b = block_size bio"
  shows "leaves V False True {unat Lba} (put_block (last_block bio) (unat Lba) b)
    (Some (write_ignored bio Lba b d, EFI_SUCCESS)) d"
  using writes [OF assms, of Lba] writes_beyond [OF assms, of Lba]
  by (cases "unat Lba \<le> last_block bio") (auto simp: leaves_def write_ignored_def put_block_def)

text \<open>Operations that ignore failures, one after the other.\<close>

lemma ignores_then:
  assumes "leaves V False fit L M (Some (d1, EFI_SUCCESS)) d" and "leaves V False fit' L' M' (Some (d2, EFI_SUCCESS)) d1"
  shows "leaves V False (fit \<and> fit') (L \<union> L') (\<lambda>m. M' (M m)) (Some (d2, EFI_SUCCESS)) d"
  using assms by (auto simp: leaves_def)

lemma ignores_fold:
  assumes "sv_ready V d"
    and "\<And>i d. i \<in> set xs \<Longrightarrow> sv_ready V d \<Longrightarrow> leaves V False (fit i) (L i) (M i) (Some (f i d, EFI_SUCCESS)) d"
  shows "leaves V False (\<forall>i \<in> set xs. fit i) (\<Union>i \<in> set xs. L i) (fold M xs) (Some (fold f xs d, EFI_SUCCESS)) d"
  using assms
proof (induction xs arbitrary: d)
  case Nil
  then show ?case using leaves_success [of V d False] by (simp add: id_def)
next
  case (Cons x xs)
  have x: "leaves V False (fit x) (L x) (M x) (Some (f x d, EFI_SUCCESS)) d" using Cons.prems by simp
  then have "sv_ready V (f x d)" by (simp add: leaves_def)
  then have "leaves V False (\<forall>i \<in> set xs. fit i) (\<Union>i \<in> set xs. L i) (fold M xs)
      (Some (fold f xs (f x d), EFI_SUCCESS)) (f x d)"
    by (rule Cons.IH) (simp add: Cons.prems(2))
  from ignores_then [OF x this] show ?case by (simp add: comp_def)
qed

end

subsection \<open>The blocks of an array\<close>

definition block_count :: "nat \<Rightarrow> nat \<Rightarrow> nat" where
  "block_count bs n = (n + bs - 1) div bs"

definition padded :: "nat \<Rightarrow> bytes \<Rightarrow> bytes" where
  "padded bs b = b @ zeros (bs - length b)"

text \<open>Block \<open>i\<close> of an array of bytes.\<close>

definition array_block :: "nat \<Rightarrow> bytes \<Rightarrow> nat \<Rightarrow> bytes" where
  "array_block bs b i = padded bs (take bs (drop (i * bs) b))"

lemma length_zeros [simp]: "length (zeros n) = n"
  by (simp add: zeros_def)

lemma zeros_0 [simp]: "zeros 0 = []"
  by (simp add: zeros_def)

lemma length_padded [simp]: "length b \<le> bs \<Longrightarrow> length (padded bs b) = bs"
  by (simp add: padded_def)

lemma in_block_padded: "length b \<le> unat BlockSize \<Longrightarrow> in_block BlockSize b = Some (padded (unat BlockSize) b)"
  by (simp add: in_block_def padded_def)

lemma block_count_step:
  assumes "0 < n" and "0 < bs"
  shows "block_count bs n = Suc (block_count bs (n - bs))"
proof (cases "n \<le> bs")
  case True
  have "n + bs - 1 = bs + (n - 1)" using assms by simp
  moreover have "(bs + (n - 1)) div bs = 1" using True assms by (simp only: div_add_self1) simp
  ultimately have "block_count bs n = 1" by (simp add: block_count_def)
  moreover have "block_count bs (n - bs) = 0" using True assms by (simp add: block_count_def)
  ultimately show ?thesis by simp
next
  case False
  then have "n + bs - 1 = bs + (n - bs + bs - 1)" using assms by simp
  then show ?thesis unfolding block_count_def using assms by (simp only: div_add_self1)
qed

lemma array_block_Suc: "array_block bs b (Suc i) = array_block bs (drop bs b) i"
  by (simp add: array_block_def add.commute)

text \<open>The blocks, one after the other, start with the array.\<close>

lemma concat_array_blocks:
  assumes "0 < bs"
  shows "take (length b) (concat (map (array_block bs b) [0..<block_count bs (length b)])) = b"
proof (induction "length b" arbitrary: b rule: less_induct)
  case less
  show ?case
  proof (cases "b = []")
    case False
    then have "0 < length b" by simp
    note n = block_count_step [OF this assms]
    have "concat (map (array_block bs b) [0..<block_count bs (length b)]) =
        array_block bs b 0 @ concat (map (array_block bs (drop bs b)) [0..<block_count bs (length (drop bs b))])"
      by (simp add: n upt_conv_Cons map_Suc_upt [symmetric] array_block_Suc comp_def del: upt_Suc)
    moreover have "take (length b - bs) (concat (map (array_block bs (drop bs b)) [0..<block_count bs (length (drop bs b))]))
        = drop bs b"
      using less.hyps [of "drop bs b"] False assms by simp
    ultimately show ?thesis
      by (cases "length b \<le> bs") (simp_all add: array_block_def padded_def)
  qed simp
qed

context block_store begin

lemma entries_written:
  assumes "sv_ready V d" and "unat BlockSize = block_size bio" and "0 < block_size bio"
    and "last_block bio + 1 < 2 ^ 64"
  shows "leaves V True (\<forall>i < block_count (block_size bio) (length Ptr). unat Lba + i \<le> last_block bio)
    ((\<lambda>i. unat (Lba + of_nat i)) ` {..<block_count (block_size bio) (length Ptr)})
    (filled (unat Lba) (unat Lba + block_count (block_size bio) (length Ptr))
      (\<lambda>l. array_block (block_size bio) Ptr (l - unat Lba)))
    (write_entries bio BlockSize Lba Ptr d) d"
  using assms(1)
proof (induction "length Ptr" arbitrary: Ptr Lba d rule: less_induct)
  case less
  let ?bs = "block_size bio" and ?last = "last_block bio"
  show ?case
  proof (cases "Ptr = []")
    case True
    then show ?thesis using less.prems assms(3)
      by (subst write_entries.simps) (auto simp: leaves_def block_count_def)
  next
    case False
    have b0: "BlockSize \<noteq> 0" using assms(2,3) by auto
    define c where "c = (if unat BlockSize < length Ptr then unat BlockSize else length Ptr)"
    have c: "take c Ptr @ zeros (unat BlockSize - c) = array_block ?bs Ptr 0" "drop c Ptr = drop ?bs Ptr"
      by (auto simp: c_def assms(2) array_block_def padded_def)
    let ?n = "block_count ?bs (length (drop ?bs Ptr))"
    have n: "block_count ?bs (length Ptr) = Suc ?n"
      using block_count_step [of "length Ptr" ?bs] False assms(3) by simp
    have len: "length (array_block ?bs Ptr 0) = ?bs" by (simp add: array_block_def)
    have lt: "length (drop ?bs Ptr) < length Ptr" using False assms(3) by (cases Ptr) simp_all
    have step: "write_entries bio BlockSize Lba Ptr d =
        do { (d1, st) \<leftarrow> Some (write_block bio Lba (array_block ?bs Ptr 0) d);
          if EFI_ERROR st then Some (d1, st) else write_entries bio BlockSize (Lba + 1) (drop ?bs Ptr) d1 }"
      using False b0 by (subst write_entries.simps) (simp add: Let_def c_def [symmetric] c split: prod.split)
    have suc: "unat (Lba + 1) = unat Lba + 1" if "unat Lba \<le> ?last"
      using that assms(4) unat_add_of_nat [of Lba 1] by simp
    have im: "(\<lambda>i. unat (Lba + of_nat i)) ` {..<Suc ?n} =
        {unat Lba} \<union> (\<lambda>i. unat (Lba + 1 + of_nat i)) ` {..<?n}"
      by (simp add: lessThan_Suc_eq_insert_0 image_image add.assoc)
    have fit: "(unat Lba \<le> ?last \<and> (\<forall>i < ?n. unat (Lba + 1) + i \<le> ?last)) \<longleftrightarrow>
        (\<forall>i < Suc ?n. unat Lba + i \<le> ?last)"
      using suc by (auto simp: less_Suc_eq_0_disj)
    have M: "filled (unat (Lba + 1)) (unat (Lba + 1) + ?n) (\<lambda>l. array_block ?bs (drop ?bs Ptr) (l - unat (Lba + 1)))
          (m(unat Lba := array_block ?bs Ptr 0)) =
        filled (unat Lba) (unat Lba + Suc ?n) (\<lambda>l. array_block ?bs Ptr (l - unat Lba)) m"
      if "unat Lba \<le> ?last" for m
    proof
      fix l
      show "filled (unat (Lba + 1)) (unat (Lba + 1) + ?n) (\<lambda>l. array_block ?bs (drop ?bs Ptr) (l - unat (Lba + 1)))
          (m(unat Lba := array_block ?bs Ptr 0)) l =
        filled (unat Lba) (unat Lba + Suc ?n) (\<lambda>l. array_block ?bs Ptr (l - unat Lba)) m l"
        using suc [OF that] array_block_Suc [of ?bs Ptr "l - Suc (unat Lba)"]
        by (auto simp: filled_def Suc_diff_Suc)
    qed
    show ?thesis unfolding step n
    proof (rule leaves_weaken [OF leaves_bind [OF writes [OF less.prems len] less.hyps [OF lt]]])
      show "{unat Lba} \<union> (\<lambda>i. unat (Lba + 1 + of_nat i)) ` {..<?n} \<subseteq>
          (\<lambda>i. unat (Lba + of_nat i)) ` {..<Suc ?n}" by (simp only: im)
    qed (assumption, rule fit, rule M, erule conjunct1)
  qed
qed

lemma entries_buffered:
  assumes "sv_ready V d" and "unat BlockSize = block_size bio" and "0 < block_size bio"
    and "last_block bio + 1 < 2 ^ 64"
  shows "leaves V True (\<forall>i < block_count (block_size bio) (length Ptr). unat Lba + i \<le> last_block bio)
    ((\<lambda>i. unat (Lba + of_nat i)) ` {..<block_count (block_size bio) (length Ptr)})
    (filled (unat Lba) (unat Lba + block_count (block_size bio) (length Ptr))
      (\<lambda>l. array_block (block_size bio) Ptr (l - unat Lba)))
    (entries_with_buffer ps bio BlockSize Lba Ptr d) d"
  unfolding entries_with_buffer_def by (rule buffered [OF assms(1) entries_written [OF _ assms(2-4)]])

end

end
