(* ===== verification/FormatGpt.thy ===== *)
theory FormatGpt
  imports FormatDisk
begin

text \<open>
  \<open>WriteProtectiveMbr\<close> and \<open>WriteGpt\<close> on a block device: the blocks they leave behind, and what a reader of
  the UEFI specification finds there.
\<close>

unbundle bit_operations_syntax

subsection \<open>Reading fields\<close>

named_theorems fields \<open>reading a field of a concatenation of fields\<close>

lemma length_bytes64 [simp]: "length (bytes64 w) = 8"
  by (simp add: bytes64_def)

lemma le16_skip [fields]: "length xs \<le> n \<Longrightarrow> le16 (xs @ ys) n = le16 ys (n - length xs)"
  by (auto simp: le16_def nth_append le_iff_add)

lemma le32_skip [fields]: "length xs \<le> n \<Longrightarrow> le32 (xs @ ys) n = le32 ys (n - length xs)"
  by (auto simp: le32_def nth_append le_iff_add)

lemma le64_skip [fields]: "length xs \<le> n \<Longrightarrow> le64 (xs @ ys) n = le64 ys (n - length xs)"
  by (auto simp: le64_def le32_skip le_iff_add)

lemma le16_here [fields]: "le16 (bytes16 w @ ys) 0 = w"
  by (simp add: le16_append)

lemma le32_here [fields]: "le32 (bytes32 w @ ys) 0 = w"
  by (simp add: le32_append)

lemma le64_here [fields]: "le64 (bytes64 w @ ys) 0 = w"
proof -
  have "le64 (bytes64 w @ ys) 0 = ucast (ucast w :: u32) OR push_bit 32 (ucast (ucast (drop_bit 32 w) :: u32))"
    by (simp add: le64_def bytes64_def le32_here le32_skip)
  also have "\<dots> = w" by (rule bit_word_eqI) (auto simp: bit_simps)
  finally show ?thesis .
qed

lemma nth_skip [fields]: "length xs \<le> n \<Longrightarrow> (xs @ ys) ! n = ys ! (n - length xs)"
  by (simp add: nth_append)

lemma take_zeros [simp]: "take n (zeros k) = zeros (min n k)"
  by (simp add: zeros_def take_replicate)

lemma drop_zeros [simp]: "drop n (zeros k) = zeros (k - n)"
  by (simp add: zeros_def)

lemma bytes32_0: "bytes32 0 = zeros 4"
  by (simp add: bytes32_def zeros_def numeral_eq_Suc)

lemma zeros_append: "zeros a @ zeros b = zeros (a + b)"
  by (simp add: zeros_def replicate_add)

subsection \<open>The reader\<close>

text \<open>The checks of a header at a block, its array of entries, and the partitions in use (UEFI 2.10, section 5.3).\<close>

definition gpt_header_ok :: "(bytes \<Rightarrow> u32) \<Rightarrow> (nat \<Rightarrow> bytes) \<Rightarrow> nat \<Rightarrow> bool" where
  "gpt_header_ok crc m lba =
     (let h = m lba; size = unat (le32 h 12) in
      le64 h 0 = EFI_PTAB_HEADER_ID \<and> 92 \<le> size \<and> size \<le> length h \<and>
      le32 h 16 = crc (take 16 h @ zeros 4 @ take (size - 20) (drop 20 h)) \<and> unat (le64 h 24) = lba)"

definition gpt_array :: "nat \<Rightarrow> (nat \<Rightarrow> bytes) \<Rightarrow> nat \<Rightarrow> bytes" where
  "gpt_array bs m lba =
     (let h = m lba; n = unat (le32 h 80) * unat (le32 h 84) in
      take n (concat (map (\<lambda>i. m (unat (le64 h 72) + i)) [0..<block_count bs n])))"

definition gpt_table_ok :: "(bytes \<Rightarrow> u32) \<Rightarrow> nat \<Rightarrow> (nat \<Rightarrow> bytes) \<Rightarrow> nat \<Rightarrow> bool" where
  "gpt_table_ok crc bs m lba \<longleftrightarrow> gpt_header_ok crc m lba \<and> le32 (m lba) 88 = crc (gpt_array bs m lba)"

definition gpt_partitions :: "nat \<Rightarrow> (nat \<Rightarrow> bytes) \<Rightarrow> nat \<Rightarrow> (bytes \<times> nat \<times> nat) list" where
  "gpt_partitions bs m lba =
     (let sz = unat (le32 (m lba) 84);
          es = map (\<lambda>i. take sz (drop (i * sz) (gpt_array bs m lba))) [0..<unat (le32 (m lba) 80)] in
      map (\<lambda>e. (take 16 e, unat (le64 e 32), unat (le64 e 40))) (filter (\<lambda>e. take 16 e \<noteq> zeros 16) es))"

text \<open>The usable blocks and the other header, as the header says.\<close>

definition gpt_usable :: "(nat \<Rightarrow> bytes) \<Rightarrow> nat \<Rightarrow> nat \<times> nat" where
  "gpt_usable m lba = (unat (le64 (m lba) 40), unat (le64 (m lba) 48))"

definition gpt_alternate :: "(nat \<Rightarrow> bytes) \<Rightarrow> nat \<Rightarrow> nat" where
  "gpt_alternate m lba = unat (le64 (m lba) 32)"

subsection \<open>The images\<close>

lemma length_guids [simp]: "length mEspTypeGuid = 16" "length mDiskGuid = 16" "length mPartGuid = 16"
  by (simp_all add: mEspTypeGuid_def mDiskGuid_def mPartGuid_def guid_bytes_def)

lemma length_gpt_header: "length (gh_DiskGUID h) = 16 \<Longrightarrow> length (gpt_header_image h) = 92"
  by (simp add: gpt_header_image_def)

lemma gpt_header_for_DiskGUID [simp]: "gh_DiskGUID (gpt_header_for crc a b c d e f) = mDiskGuid"
  by (simp add: gpt_header_for_def Let_def)

lemma length_gpt_entries: "length (gpt_entries a b) = 16384"
  by (simp add: gpt_entries_def gpt_entry_image_def wide_def)

lemma length_mbr_image: "length (mbr_image (protective_mbr n)) = 512"
  by (simp add: mbr_image_def protective_mbr_def Let_def mbr_partition_image_def numeral_3_eq_3)

text \<open>What a reader sees of a header that the application made.\<close>

lemma header_fields:
  fixes a b c d e :: u64 and f :: u32 and crc :: "bytes \<Rightarrow> u32"
  assumes "92 \<le> bs"
  defines "h \<equiv> padded bs (gpt_header_image (gpt_header_for crc a b c d e f))"
  shows "le64 h 0 = EFI_PTAB_HEADER_ID" "le32 h 12 = 92" "le64 h 24 = a" "le64 h 32 = b" "le64 h 40 = c"
    "le64 h 48 = d" "le64 h 72 = e" "le32 h 80 = 128" "le32 h 84 = 128" "le32 h 88 = f" "length h = bs"
    "le32 h 16 = crc (take 16 h @ zeros 4 @ take 72 (drop 20 h))"
  using assms
  by (simp_all add: padded_def gpt_header_image_def gpt_header_for_def Let_def fields
      GPT_ENTRY_COUNT_def GPT_ENTRY_SIZE_def bytes32_0)

text \<open>The array as it is read from its blocks, and its entries.\<close>

definition gpt_lbas :: "nat \<Rightarrow> nat" where
  "gpt_lbas bs = block_count bs 16384"

lemma entries_read:
  assumes "0 < bs" and "\<And>i. i < gpt_lbas bs \<Longrightarrow> m (at + i) = array_block bs (gpt_entries a b) i"
  shows "take 16384 (concat (map (\<lambda>i. m (at + i)) [0..<block_count bs 16384])) = gpt_entries a b"
proof -
  have "map (\<lambda>i. m (at + i)) [0..<block_count bs 16384] = map (array_block bs (gpt_entries a b)) [0..<block_count bs 16384]"
    using assms(2) by (simp add: gpt_lbas_def)
  then show ?thesis using concat_array_blocks [OF assms(1), of "gpt_entries a b"]
    by (simp only: length_gpt_entries)
qed

lemma type_guid_used: "mEspTypeGuid \<noteq> zeros 16"
proof
  assume "mEspTypeGuid = zeros 16"
  then have "mEspTypeGuid ! 0 = zeros 16 ! 0" by simp
  then show False by (simp add: mEspTypeGuid_def guid_bytes_def bytes32_def zeros_def)
qed

lemma first_entry:
  "take 128 (gpt_entries a b) = gpt_entry_image \<lparr>ge_PartitionTypeGUID = mEspTypeGuid,
     ge_UniquePartitionGUID = mPartGuid, ge_StartingLBA = a, ge_EndingLBA = b, ge_Attributes = 0,
     ge_PartitionName = concat (map bytes16 (wide ''EFI System'')) @ zeros 50\<rparr>"
  by (simp add: gpt_entries_def gpt_entry_image_def wide_def)

lemma other_entries:
  assumes "0 < i" and "i < 128"
  shows "take 128 (drop (i * 128) (gpt_entries a b)) = zeros 128"
proof -
  have "gpt_entries a b = take 128 (gpt_entries a b) @ zeros (127 * 128)"
    unfolding first_entry by (simp add: gpt_entries_def)
  then have "drop (i * 128) (gpt_entries a b) = drop (i * 128) (take 128 (gpt_entries a b) @ zeros (127 * 128))"
    by (rule arg_cong)
  also have "\<dots> = zeros (127 * 128 - (i * 128 - 128))"
    using assms by (simp add: length_gpt_entries)
  finally have "take 128 (drop (i * 128) (gpt_entries a b)) = zeros (min 128 (127 * 128 - (i * 128 - 128)))"
    by simp
  moreover have "min 128 (127 * 128 - (i * 128 - 128)) = (128 :: nat)" using assms by simp
  ultimately show ?thesis by simp
qed

lemma used_entries:
  "filter (\<lambda>e. take 16 e \<noteq> zeros 16) (map (\<lambda>i. take 128 (drop (i * 128) (gpt_entries a b))) [0..<128]) =
   [take 128 (gpt_entries a b)]"
proof -
  have "filter (\<lambda>e. take 16 e \<noteq> zeros 16) (map (\<lambda>i. take 128 (drop (i * 128) (gpt_entries a b))) [1..<128]) = []"
    by (simp add: filter_empty_conv other_entries)
  moreover have "[0..<128] = 0 # [1..<128]" by (simp add: upt_rec)
  moreover have "take 16 (take 128 (gpt_entries a b)) \<noteq> zeros 16"
    by (subst first_entry) (simp add: gpt_entry_image_def type_guid_used)
  ultimately show ?thesis by simp
qed

definition system_table :: "(bytes \<Rightarrow> u32) \<Rightarrow> nat \<Rightarrow> (nat \<Rightarrow> bytes) \<Rightarrow> nat \<Rightarrow> nat \<Rightarrow> nat \<Rightarrow> nat \<Rightarrow> bool" where
  "system_table crc bs m lba alt lo hi \<longleftrightarrow> gpt_table_ok crc bs m lba \<and> gpt_alternate m lba = alt \<and>
     gpt_usable m lba = (lo, hi) \<and> gpt_partitions bs m lba = [(mEspTypeGuid, lo, hi)]"

definition header_block :: "(bytes \<Rightarrow> u32) \<Rightarrow> nat \<Rightarrow> nat \<Rightarrow> nat \<Rightarrow> nat \<Rightarrow> nat \<Rightarrow> nat \<Rightarrow> bytes" where
  "header_block crc bs lba alt lo hi at = padded bs (gpt_header_image (gpt_header_for crc
     (of_nat lba) (of_nat alt) (of_nat lo) (of_nat hi) (of_nat at)
     (crc (gpt_entries (of_nat lo) (of_nat hi)))))"

lemma table_read:
  assumes "m lba = header_block crc bs lba alt lo hi at"
    and "\<And>i. i < gpt_lbas bs \<Longrightarrow> m (at + i) = array_block bs (gpt_entries (of_nat lo) (of_nat hi)) i"
    and "92 \<le> bs" and "lba < 2 ^ 64" "alt < 2 ^ 64" "lo < 2 ^ 64" "hi < 2 ^ 64" "at < 2 ^ 64"
  shows "system_table crc bs m lba alt lo hi"
proof -
  note h = header_fields [OF assms(3)]
  note m = assms(1) [unfolded header_block_def]
  have n: "unat (of_nat k :: u64) = k" if "k < 2 ^ 64" for k using that by (simp add: unat_of_nat_small)
  have a: "gpt_array bs m lba = gpt_entries (of_nat lo) (of_nat hi)"
    using entries_read [of bs m at] assms(2,3) by (simp add: gpt_array_def Let_def m h n [OF assms(8)])
  have "gpt_table_ok crc bs m lba"
    using assms(3) by (simp add: gpt_table_ok_def gpt_header_ok_def Let_def a m h(1-11) h(12) [symmetric] n [OF assms(4)])
  moreover have "gpt_partitions bs m lba = [(mEspTypeGuid, lo, hi)]"
  proof -
    let ?e = "take 128 (gpt_entries (of_nat lo) (of_nat hi))"
    have e: "take 16 ?e = mEspTypeGuid" "le64 ?e 32 = of_nat lo" "le64 ?e 40 = of_nat hi"
      by (simp_all add: first_entry gpt_entry_image_def fields del: take_take)
    have "gpt_partitions bs m lba = map (\<lambda>e. (take 16 e, unat (le64 e 32), unat (le64 e 40))) [?e]"
      unfolding gpt_partitions_def Let_def a used_entries [symmetric] m h by simp
    then show ?thesis using e n assms(6,7) by (simp del: take_take)
  qed
  ultimately show ?thesis using n assms(5-7)
    by (simp add: system_table_def gpt_alternate_def gpt_usable_def m h)
qed

subsection \<open>The bounds of the partition\<close>

lemma gpt_lbas_bounds: "92 \<le> bs \<Longrightarrow> 1 \<le> gpt_lbas bs \<and> gpt_lbas bs \<le> 180"
  using div_le_mono2 [of 92 bs "16384 - 1"] block_count_step [of 16384 bs] div_le_mono [of "16384 + bs - 1" "180 * bs" bs]
  by (simp add: gpt_lbas_def block_count_def)

lemma entries_lbas:
  assumes "92 \<le> unat BlockSize" and "unat BlockSize < 2 ^ 31"
  shows "unat (GPT_ENTRIES_LBAS BlockSize) = gpt_lbas (unat BlockSize)"
proof -
  have "unat (0x4000 + BlockSize) = 16384 + unat BlockSize" using assms by (subst unat_word_ariths) simp
  moreover have "unat (0x4000 + BlockSize - 1) = unat (0x4000 + BlockSize) - 1"
    using calculation by (intro unat_minus_one) auto
  ultimately show ?thesis
    by (simp add: GPT_ENTRIES_LBAS_def GPT_ENTRY_COUNT_def GPT_ENTRY_SIZE_def gpt_lbas_def block_count_def unat_div)
qed

lemma usable_bounds:
  assumes "92 \<le> unat BlockSize" and "unat BlockSize < 2 ^ 31"
  defines "e \<equiv> gpt_lbas (unat BlockSize)"
  shows "first_usable BlockSize = of_nat (2 + e)" and "unat (first_usable BlockSize) = 2 + e"
    and "2 + e \<le> unat N \<Longrightarrow> last_usable BlockSize N = of_nat (unat N - 2 - e)"
    and "2 + e \<le> unat N \<Longrightarrow> unat (last_usable BlockSize N) = unat N - 2 - e"
    and "unat N < 2 + e \<Longrightarrow> 1000 < unat (last_usable BlockSize N)"
proof -
  have e: "1 \<le> e" "e \<le> 180" "unat (GPT_ENTRIES_LBAS BlockSize) = e"
    using gpt_lbas_bounds [OF assms(1)] entries_lbas [OF assms(1,2)] by (simp_all add: e_def)
  have f: "unat (2 + GPT_ENTRIES_LBAS BlockSize) = 2 + e" using e by (subst unat_word_ariths) simp
  then show g: "unat (first_usable BlockSize) = 2 + e"
    using e by (simp add: first_usable_def unsigned_ucast_eq take_bit_nat_eq_self)
  have "unat (of_nat (2 + e) :: u64) = 2 + e" by (rule unat_of_nat_small) (use e in simp)
  with g show "first_usable BlockSize = of_nat (2 + e)" by (simp only: word_unat_eq_iff)
  have u: "unat (ucast (GPT_ENTRIES_LBAS BlockSize) :: u64) = e"
    using e by (simp add: unsigned_ucast_eq take_bit_nat_eq_self)
  have w: "last_usable BlockSize N = N - (2 + ucast (GPT_ENTRIES_LBAS BlockSize))"
    by (simp add: last_usable_def diff_diff_eq)
  have v: "unat (2 + ucast (GPT_ENTRIES_LBAS BlockSize) :: u64) = 2 + e"
    using u e by (subst unat_word_ariths) simp
  show x: "unat (last_usable BlockSize N) = unat N - 2 - e" if "2 + e \<le> unat N"
    using that v by (simp add: w unat_sub word_le_nat_alt)
  show "last_usable BlockSize N = of_nat (unat N - 2 - e)" if "2 + e \<le> unat N"
  proof -
    have "unat N < 2 ^ 64" using unsigned_less [of N] by simp
    then have "unat (of_nat (unat N - 2 - e) :: u64) = unat N - 2 - e" by (intro unat_of_nat_small) simp
    with x [OF that] show ?thesis by (simp only: word_unat_eq_iff)
  qed
  show "1000 < unat (last_usable BlockSize N)" if "unat N < 2 + e"
    using that v e by (simp add: w unat_sub_if')
qed

subsection \<open>The tables on the disk\<close>

text \<open>The blocks of both tables of a disk of \<open>n\<close> blocks, and the contents with the tables in them.\<close>

definition table_blocks :: "nat \<Rightarrow> nat \<Rightarrow> nat set" where
  "table_blocks bs n = {1..<2 + gpt_lbas bs} \<union> {n - 1 - gpt_lbas bs..<n}"

definition with_tables :: "(bytes \<Rightarrow> u32) \<Rightarrow> nat \<Rightarrow> nat \<Rightarrow> (nat \<Rightarrow> bytes) \<Rightarrow> nat \<Rightarrow> bytes" where
  "with_tables crc bs n m =
     (let e = gpt_lbas bs; lo = 2 + e; hi = n - 2 - e;
          E = array_block bs (gpt_entries (of_nat lo) (of_nat hi)) in
      (filled (hi + 1) (hi + 1 + e) (\<lambda>l. E (l - (hi + 1)))
        (filled 2 (2 + e) (\<lambda>l. E (l - 2)) (m(1 := header_block crc bs 1 (n - 1) lo hi 2))))
      (n - 1 := header_block crc bs (n - 1) 1 lo hi (hi + 1)))"

text \<open>Both tables are valid and list the system partition, whatever the other blocks hold.\<close>

definition gpt_disk :: "(bytes \<Rightarrow> u32) \<Rightarrow> nat \<Rightarrow> nat \<Rightarrow> (nat \<Rightarrow> bytes) \<Rightarrow> bool" where
  "gpt_disk crc bs n m \<longleftrightarrow>
     system_table crc bs m 1 (n - 1) (2 + gpt_lbas bs) (n - 2 - gpt_lbas bs) \<and>
     system_table crc bs m (n - 1) 1 (2 + gpt_lbas bs) (n - 2 - gpt_lbas bs)"

lemma with_tables_valid:
  assumes "92 \<le> bs" and "2 * gpt_lbas bs + 5 \<le> n" and "n < 2 ^ 64"
    and m: "\<And>l. l \<in> table_blocks bs n \<Longrightarrow> m l = with_tables crc bs n m0 l"
  shows "gpt_disk crc bs n m"
proof -
  define e where "e = gpt_lbas bs"
  let ?lo = "2 + e" and ?hi = "n - 2 - e"
  have e: "1 \<le> e" "e \<le> 180" "2 * e + 5 \<le> n" using gpt_lbas_bounds [OF assms(1)] assms(2) by (simp_all add: e_def)
  then have ne: "n - Suc 0 \<noteq> Suc 0" "Suc 0 \<noteq> n - Suc 0" by simp_all
  note defs = with_tables_def table_blocks_def Let_def filled_def e_def [symmetric]
  have r: "m 1 = header_block crc bs 1 (n - 1) ?lo ?hi 2" "m (n - 1) = header_block crc bs (n - 1) 1 ?lo ?hi (?hi + 1)"
    using e ne by (subst m; auto simp: defs)+
  let ?E = "array_block bs (gpt_entries (of_nat ?lo) (of_nat ?hi))"
  have "m (2 + i) = ?E i" "m (?hi + 1 + i) = ?E i" if "i < e" for i
  proof -
    have t: "2 + i \<in> table_blocks bs n" "?hi + 1 + i \<in> table_blocks bs n"
      using e that by (auto simp: table_blocks_def e_def [symmetric])
    have x: "2 + i \<noteq> n - 1" "\<not> ?hi + 1 \<le> 2 + i" "2 + i < 2 + e" "?hi + 1 + i \<noteq> n - 1"
      using e that by linarith+
    show "m (2 + i) = ?E i" "m (?hi + 1 + i) = ?E i" unfolding t [THEN m]
      using that x by (simp_all only: with_tables_def Let_def filled_def e_def [symmetric] fun_upd_apply
          if_True if_False le_add1 simp_thms diff_add_inverse nat_add_left_cancel_less)
  qed
  then show ?thesis unfolding gpt_disk_def e_def [symmetric]
    using assms(1,3) e r by (intro conjI; intro table_read [where at = 2] table_read [where at = "?hi + 1"])
      (auto simp: e_def)
qed

context block_store begin

lemma write_tables_leaves:
  fixes N :: u64 and BlockSize :: u32
  assumes "sv_ready V d" and "unat BlockSize = block_size bio" and "92 \<le> block_size bio"
    and "last_block bio + 1 < 2 ^ 64"
  defines "crc \<equiv> ps_CalculateCrc32 ps"
    and "lo \<equiv> first_usable BlockSize" and "hi \<equiv> last_usable BlockSize N"
    and "hdr \<equiv> (\<lambda>lba alt at. padded (block_size bio) (gpt_header_image (gpt_header_for (ps_CalculateCrc32 ps) lba alt
        (first_usable BlockSize) (last_usable BlockSize N) at
        (ps_CalculateCrc32 ps (gpt_entries (first_usable BlockSize) (last_usable BlockSize N))))))"
    and "E \<equiv> array_block (block_size bio) (gpt_entries (first_usable BlockSize) (last_usable BlockSize N))"
    and "c \<equiv> gpt_lbas (block_size bio)"
  shows "leaves V True
    (1 \<le> last_block bio \<and> (\<forall>i < c. 2 + i \<le> last_block bio) \<and>
      (\<forall>i < c. unat (hi + 1) + i \<le> last_block bio) \<and> unat (N - 1) \<le> last_block bio)
    ({1} \<union> ((\<lambda>i. unat (2 + of_nat i :: u64)) ` {..<c} \<union>
      ((\<lambda>i. unat (hi + 1 + of_nat i)) ` {..<c} \<union> {unat (N - 1)})))
    (\<lambda>m. (filled (unat (hi + 1)) (unat (hi + 1) + c) (\<lambda>l. E (l - unat (hi + 1)))
        (filled 2 (2 + c) (\<lambda>l. E (l - 2)) (m(1 := hdr 1 (N - 1) 2))))
      (unat (N - 1) := hdr (N - 1) 1 (hi + 1)))
    (write_tables ps bio BlockSize N d) d"
proof -
  have bs: "0 < block_size bio" using assms(3) by simp
  have len: "length (hdr lba alt at) = block_size bio" for lba alt at
    using assms(3) by (simp add: hdr_def length_gpt_header)
  let ?E = "gpt_entries lo hi"
  have c: "block_count (block_size bio) (length ?E) = c" by (simp add: length_gpt_entries c_def gpt_lbas_def)
  note en = entries_buffered [OF _ assms(2) bs assms(4), where Ptr = ?E, unfolded c]
  have code: "write_tables ps bio BlockSize N d =
      do { (d1, st) \<leftarrow> Some (write_block bio 1 (hdr 1 (N - 1) 2) d);
        if EFI_ERROR st then Some (d1, st)
        else do { (d2, st) \<leftarrow> entries_with_buffer ps bio BlockSize 2 ?E d1;
          if EFI_ERROR st then Some (d2, st)
          else do { (d3, st) \<leftarrow> entries_with_buffer ps bio BlockSize (hi + 1) ?E d2;
            if EFI_ERROR st then Some (d3, st)
            else Some (write_block bio (N - 1) (hdr (N - 1) 1 (hi + 1)) d3) } } }"
    using assms(3) by (simp add: write_tables_def Let_def in_block_padded length_gpt_header assms(2) hdr_def lo_def hi_def
        cong: prod.case_cong if_cong)
  have "leaves V True (unat (1 :: u64) \<le> last_block bio \<and> (\<forall>i < c. unat (2 :: u64) + i \<le> last_block bio) \<and>
      (\<forall>i < c. unat (hi + 1) + i \<le> last_block bio) \<and> unat (N - 1) \<le> last_block bio)
    ({unat (1 :: u64)} \<union> ((\<lambda>i. unat (2 + of_nat i :: u64)) ` {..<c} \<union>
      ((\<lambda>i. unat (hi + 1 + of_nat i)) ` {..<c} \<union> {unat (N - 1)})))
    (\<lambda>m. (filled (unat (hi + 1)) (unat (hi + 1) + c) (\<lambda>l. E (l - unat (hi + 1)))
        (filled (unat (2 :: u64)) (unat (2 :: u64) + c) (\<lambda>l. E (l - unat (2 :: u64))) (m(unat (1 :: u64) := hdr 1 (N - 1) 2))))
      (unat (N - 1) := hdr (N - 1) 1 (hi + 1)))
    (write_tables ps bio BlockSize N d) d"
    unfolding code E_def lo_def [symmetric] hi_def [symmetric]
    by (intro leaves_bind [OF writes [OF assms(1) len]] leaves_bind [OF en] writes len)
  then show ?thesis by simp
qed

lemma WriteGpt_leaves:
  assumes "sv_ready V d" and "unat BlockSize = block_size bio" and "92 \<le> block_size bio" and "block_size bio < 2 ^ 31"
    and "unat N = last_block bio + 1"
  defines "n \<equiv> last_block bio + 1" and "c \<equiv> gpt_lbas (block_size bio)"
  shows "leaves V True (2 * c + 5 \<le> n) (if 2 * c + 5 \<le> n then table_blocks (block_size bio) n else UNIV)
    (with_tables (ps_CalculateCrc32 ps) (block_size bio) n) (WriteGpt ps bio BlockSize N d) d"
proof -
  have "unat N < 2 ^ 64" using unsigned_less [of N] by simp
  then have n: "n < 2 ^ 64" "last_block bio + 1 < 2 ^ 64" by (simp_all add: n_def assms(5))
  have c: "1 \<le> c" "c \<le> 180" using gpt_lbas_bounds [OF assms(3)] by (simp_all add: c_def)
  note ub = usable_bounds [where BlockSize = BlockSize, unfolded assms(2), OF assms(3,4), folded c_def]
  have N2: "unat N = n" using assms(5) by (simp add: n_def)
  moreover have "unat (of_nat n :: u64) = n" by (rule unat_of_nat_small) (use n in simp)
  ultimately have N: "N = of_nat n" "unat N = n" by (simp_all only: word_unat_eq_iff)
  have bs: "BlockSize \<noteq> 0" using assms(2,3) by auto
  note wt = buffered [OF _ buffered [OF _ write_tables_leaves [OF _ assms(2,3) n(2), folded c_def]]]
  show ?thesis
  proof (cases "2 * c + 5 \<le> n")
    case True
    have h: "last_usable BlockSize N = of_nat (n - 2 - c)" "unat (last_usable BlockSize N) = n - 2 - c"
      using ub(3,4) [of N] True N(2) by simp_all
    have not_full: "\<not> last_usable BlockSize N \<le> first_usable BlockSize"
      using True h ub(2) by (simp add: word_le_nat_alt)
    have h1: "unat (last_usable BlockSize N + 1) = n - 2 - c + 1"
      using h n True unat_add_of_nat [of "last_usable BlockSize N" 1] by simp
    have h2: "last_usable BlockSize N + 1 = of_nat (n - 2 - c + 1)" using h by simp
    have nz: "N \<noteq> 0" using N2 True by auto
    have N1: "unat (N - 1) = n - 1" using unat_minus_one [OF nz] N2 by simp
    have N1': "N - 1 = of_nat (n - 1)" using N(1) True by (simp add: of_nat_diff)
    have code: "WriteGpt ps bio BlockSize N d = with_buffer ps (ucast (GPT_ENTRY_COUNT * GPT_ENTRY_SIZE))
        (with_buffer ps (ucast BlockSize) (write_tables ps bio BlockSize N)) d"
      using bs not_full by (simp add: WriteGpt_def)
    have i1: "unat (2 + of_nat i :: u64) = 2 + i" if "i < c" for i
      using that c unat_add_of_nat [of "2 :: u64" i] by simp
    have i2: "unat (last_usable BlockSize N + 1 + of_nat i) = n - 2 - c + 1 + i" if "i < c" for i
      using that c n True h1 unat_add_of_nat [of "last_usable BlockSize N + 1" i] by simp
    show ?thesis unfolding code
    proof (rule leaves_weaken [OF wt [OF assms(1)]], goal_cases)
      case 3
      show ?case using True c i1 i2 by (auto simp: table_blocks_def c_def [symmetric] N1)
    next
      case 4
      show ?case using True c by (auto simp: h1 N1 n_def)
    next
      case 5
      have "header_block crc b l al lo hi at = padded b (gpt_header_image (gpt_header_for crc
          (of_nat l) (of_nat al) (of_nat lo) (of_nat hi) (of_nat at) (crc (gpt_entries (of_nat lo) (of_nat hi)))))"
        for crc b l al lo hi at by (simp add: header_block_def)
      then show ?case unfolding h1 N1 N1' h2 ub(1) h(1) with_tables_def Let_def c_def [symmetric]
        by (simp only: of_nat_1 of_nat_numeral N1 [unfolded N1'] h1 [unfolded h2] h2 [unfolded h(1)])
    qed
  next
    case False
    show ?thesis
    proof (cases "n < 2 + c")
      case True
      have "\<not> last_usable BlockSize N \<le> first_usable BlockSize"
        using ub(2) ub(5) [of N] True N(2) c by (simp add: word_le_nat_alt)
      then have code: "WriteGpt ps bio BlockSize N d = with_buffer ps (ucast (GPT_ENTRY_COUNT * GPT_ENTRY_SIZE))
          (with_buffer ps (ucast BlockSize) (write_tables ps bio BlockSize N)) d"
        using bs by (simp add: WriteGpt_def)
      have "c - 1 < c" "\<not> 2 + (c - 1) \<le> last_block bio" using True c by (simp_all add: n_def)
      then have no: "\<not> (\<forall>i < c. 2 + i \<le> last_block bio)" by blast
      show ?thesis unfolding code
      proof (rule leaves_weaken [OF wt [OF assms(1)]], goal_cases)
        case 4
        show ?case using False no by blast
      next
        case 5
        show ?case using 5 no by blast
      qed (use False in auto)
    next
      case big: False
      then have "last_usable BlockSize N \<le> first_usable BlockSize"
        using False ub(2) ub(4) [of N] N(2) by (simp add: word_le_nat_alt)
      then have "WriteGpt ps bio BlockSize N d = Some (d, EFI_VOLUME_FULL)"
        using bs by (simp add: WriteGpt_def)
      then show ?thesis using leaves_error [OF assms(1), of EFI_VOLUME_FULL True] False
        by (simp add: leaves_def)
    qed
  qed
qed

end

end
