(* ===== verification/FormatGeometry.thy ===== *)
theory FormatGeometry
  imports FormatGpt
begin

text \<open>
  The sizes that \<open>FormatFat\<close> chooses: its integer arithmetic as arithmetic of natural numbers, and the
  conditions of the FAT specification on what it chooses.
\<close>

unbundle bit_operations_syntax

subsection \<open>What a reader makes of a boot sector\<close>

record fat_params =
  fp_BytsPerSec :: nat
  fp_SecPerClus :: nat
  fp_RsvdSecCnt :: nat
  fp_NumFATs :: nat
  fp_RootEntCnt :: nat
  fp_TotSec :: nat
  fp_FATSz :: nat

definition read_bpb :: "bytes \<Rightarrow> fat_params" where
  "read_bpb b = \<lparr>fp_BytsPerSec = unat (le16 b 11), fp_SecPerClus = unat (b ! 13), fp_RsvdSecCnt = unat (le16 b 14),
     fp_NumFATs = unat (b ! 16), fp_RootEntCnt = unat (le16 b 17),
     fp_TotSec = (if le16 b 19 \<noteq> 0 then unat (le16 b 19) else unat (le32 b 32)),
     fp_FATSz = (if le16 b 22 \<noteq> 0 then unat (le16 b 22) else unat (le32 b 36))\<rparr>"

definition root_dir_sectors :: "fat_params \<Rightarrow> nat" where
  "root_dir_sectors p = (fp_RootEntCnt p * 32 + fp_BytsPerSec p - 1) div fp_BytsPerSec p"

definition first_data_sector :: "fat_params \<Rightarrow> nat" where
  "first_data_sector p = fp_RsvdSecCnt p + fp_NumFATs p * fp_FATSz p + root_dir_sectors p"

definition cluster_count :: "fat_params \<Rightarrow> nat" where
  "cluster_count p = (fp_TotSec p - first_data_sector p) div fp_SecPerClus p"

datatype fat_type = FAT12 | FAT16 | FAT32

text \<open>The type depends on the number of clusters alone.\<close>

definition fat_type_of :: "fat_params \<Rightarrow> fat_type" where
  "fat_type_of p = (if cluster_count p < 4085 then FAT12 else if cluster_count p < 65525 then FAT16 else FAT32)"

subsection \<open>The rounds of the loop\<close>

definition sector_sizes :: "nat set" where
  "sector_sizes = {512, 1024, 2048, 4096}"

lemma root_lbas: "bs \<in> sector_sizes \<Longrightarrow> gpt_lbas bs = 16384 div bs"
  by (auto simp: sector_sizes_def gpt_lbas_def block_count_def)

lemma root_dir_lbas: "FAT16_ROOT_DIR_SECTORS BlockSize = GPT_ENTRIES_LBAS BlockSize"
  by (simp add: FAT16_ROOT_DIR_SECTORS_def FAT16_ROOT_ENTRY_COUNT_def GPT_ENTRIES_LBAS_def
      GPT_ENTRY_COUNT_def GPT_ENTRY_SIZE_def)

lemma unat_sub3:
  fixes a b c d :: "'a::len word"
  assumes "unat b + unat c + unat d \<le> unat a"
  shows "unat (a - b - c - d) = unat a - unat b - unat c - unat d"
proof -
  have "unat (a - b) = unat a - unat b" using assms by (simp add: unat_sub word_le_nat_alt)
  moreover have "unat (a - b - c) = unat (a - b) - unat c"
    using assms calculation by (simp add: unat_sub word_le_nat_alt)
  ultimately show ?thesis using assms by (simp add: unat_sub word_le_nat_alt)
qed

definition fat16_sectors :: "nat \<Rightarrow> nat \<Rightarrow> nat \<Rightarrow> nat" where
  "fat16_sectors bs P C = (((P - 1 - gpt_lbas bs) div C + 2) * 2 + bs - 1) div bs"

definition fat16_clusters :: "nat \<Rightarrow> nat \<Rightarrow> nat \<Rightarrow> nat" where
  "fat16_clusters bs P C = (P - 1 - gpt_lbas bs - 2 * fat16_sectors bs P C) div C"

text \<open>A FAT takes less than a hundredth of the partition, so the subtractions do not wrap around.\<close>

lemma fat16_sectors_bound:
  assumes "bs \<in> sector_sizes" and "4000 \<le> P" and "0 < C"
  shows "128 * fat16_sectors bs P C \<le> P + 128" and "1 + gpt_lbas bs + 2 * fat16_sectors bs P C \<le> P"
proof -
  define q where "q = (P - 1 - gpt_lbas bs) div C"
  have q: "q \<le> P - 1 - gpt_lbas bs" by (simp add: q_def)
  have r: "4 \<le> gpt_lbas bs" "gpt_lbas bs \<le> 32" using assms(1) by (auto simp: root_lbas sector_sizes_def)
  have "fat16_sectors bs P C * bs \<le> (q + 2) * 2 + bs - 1"
    unfolding fat16_sectors_def q_def by (rule div_times_less_eq_dividend)
  then show "128 * fat16_sectors bs P C \<le> P + 128"
    using assms(1,2) q r by (auto simp: sector_sizes_def)
  then show "1 + gpt_lbas bs + 2 * fat16_sectors bs P C \<le> P" using assms(2) r by linarith
qed

lemma fat16_try_nat:
  assumes bs: "unat BlockSize \<in> sector_sizes" and P: "4000 \<le> unat P" "unat P < 2 ^ 25" and C: "0 < unat C" "unat C \<le> 64"
  shows "unat (fst (fat16_try BlockSize P C)) = fat16_sectors (unat BlockSize) (unat P) (unat C)"
    and "unat (snd (fat16_try BlockSize P C)) = fat16_clusters (unat BlockSize) (unat P) (unat C)"
proof -
  let ?bs = "unat BlockSize" and ?P = "unat P" and ?C = "unat C"
  let ?R = "GPT_ENTRIES_LBAS BlockSize"
  define T where "T = (ucast ((P - 1 - ucast ?R) div ucast C) :: u32)"
  define F where "F = ((T + 2) * 2 + BlockSize - 1) div BlockSize"
  have b: "512 \<le> ?bs" "?bs \<le> 4096" using bs by (auto simp: sector_sizes_def)
  have r: "unat ?R = gpt_lbas ?bs" "gpt_lbas ?bs \<le> 32"
    using entries_lbas [of BlockSize] b bs by (auto simp: root_lbas sector_sizes_def)
  have uc: "unat (ucast x :: u64) = unat x" for x :: u32
    by (simp add: unsigned_ucast_eq take_bit_nat_eq_self order_less_le_trans [OF unsigned_less])
  have "unat (P - 1 - ucast ?R) = ?P - 1 - gpt_lbas ?bs"
    using P r by (simp add: unat_sub_if' uc word_le_nat_alt)
  then have d: "unat ((P - 1 - ucast ?R) div ucast C) = (?P - 1 - gpt_lbas ?bs) div ?C"
    by (simp add: unat_div uc)
  moreover have lt: "(?P - 1 - gpt_lbas ?bs) div ?C < 2 ^ 25"
    using P(2) div_le_dividend [of "?P - 1 - gpt_lbas ?bs" ?C] by linarith
  ultimately have T: "unat T = (?P - 1 - gpt_lbas ?bs) div ?C" "unat T < 2 ^ 25"
    by (simp_all add: T_def unsigned_ucast_eq take_bit_nat_eq_self)
  have "unat ((T + 2) * 2) = (unat T + 2) * 2" using T(2) by (simp add: unat_word_ariths)
  then have "unat ((T + 2) * 2 + BlockSize) = (unat T + 2) * 2 + ?bs"
    using T(2) b by (subst unat_word_ariths) simp
  then have "unat ((T + 2) * 2 + BlockSize - 1) = (unat T + 2) * 2 + ?bs - 1"
    using b by (subst unat_minus_one) auto
  then have F: "unat F = fat16_sectors ?bs ?P ?C" by (simp add: F_def unat_div fat16_sectors_def T(1))
  have fb: "1 + gpt_lbas ?bs + 2 * unat F \<le> ?P" using fat16_sectors_bound(2) [OF bs P(1) C(1)] F by simp
  have "unat (ucast P :: u32) = ?P" using P(2) by (simp add: unsigned_ucast_eq take_bit_nat_eq_self)
  moreover have "unat (2 * F) = 2 * unat F" using fb P(2) by (simp add: unat_word_ariths)
  ultimately have D: "unat (ucast P - 1 - 2 * F - ?R) = ?P - 1 - gpt_lbas ?bs - 2 * unat F"
    using fb r unat_sub3 [of 1 "2 * F" ?R "ucast P"] by simp
  have t: "fat16_try BlockSize P C = (F, (ucast P - 1 - 2 * F - ?R) div C)"
    by (simp add: fat16_try_def Let_def root_dir_lbas T_def F_def)
  show "unat (fst (fat16_try BlockSize P C)) = fat16_sectors ?bs ?P ?C" using F by (simp add: t)
  show "unat (snd (fat16_try BlockSize P C)) = fat16_clusters ?bs ?P ?C"
    using D F by (simp add: t unat_div fat16_clusters_def)
qed

text \<open>Beyond \<open>2 ^ 25\<close> sectors even the largest clusters are too many, whatever the integers do.\<close>

lemma fat16_try_large:
  assumes "512 \<le> unat BlockSize" and "unat BlockSize < 2 ^ 31" and "2 ^ 25 \<le> unat P" "unat P < 2 ^ 32"
    and "0 < unat C" "unat C \<le> 64"
  shows "65524 < unat (snd (fat16_try BlockSize P C))"
proof -
  let ?R = "GPT_ENTRIES_LBAS BlockSize"
  define F where "F = fst (fat16_try BlockSize P C)"
  have r: "unat ?R \<le> 180" using entries_lbas [of BlockSize] gpt_lbas_bounds [of "unat BlockSize"] assms(1,2) by simp
  have "unat F = unat x div unat BlockSize" if "F = x div BlockSize" for x using that by (simp add: unat_div)
  then obtain x :: u32 where "unat F = unat x div unat BlockSize"
    unfolding F_def fat16_try_def Let_def by fastforce
  moreover have "unat x div unat BlockSize \<le> unat x div 512" using assms(1) by (simp add: div_le_mono2)
  moreover have "unat x < 2 ^ 32" using unsigned_less [of x] by simp
  ultimately have F: "unat F < 2 ^ 23" by (auto simp: less_mult_imp_div_less)
  have u: "unat (ucast P :: u32) = unat P" using assms(4) by (simp add: unsigned_ucast_eq take_bit_nat_eq_self)
  have f: "unat (2 * F) = 2 * unat F" using F by (simp add: unat_word_ariths)
  have "unat (ucast P - 1 - 2 * F - ?R) = unat P - 1 - 2 * unat F - unat ?R"
    using u f F r assms(3) unat_sub3 [of 1 "2 * F" ?R "ucast P"] by simp
  then have "2 ^ 25 - 1 - 2 ^ 24 - 180 \<le> unat (ucast P - 1 - 2 * F - ?R)" using F r assms(3) by simp
  moreover have "snd (fat16_try BlockSize P C) = (ucast P - 1 - 2 * F - ?R) div C"
    by (simp add: F_def fat16_try_def Let_def root_dir_lbas)
  moreover have "D div 64 \<le> D div unat C" for D using assms(5,6) by (simp add: div_le_mono2)
  ultimately show ?thesis
    using div_le_mono [of "2 ^ 25 - 1 - 2 ^ 24 - 180" "unat (ucast P - 1 - 2 * F - ?R)" 64]
      order_trans [of "(2 ^ 25 - 1 - 2 ^ 24 - 180) div 64"] by (fastforce simp: unat_div)
qed

subsection \<open>The loop\<close>

definition fat16_found :: "u32 \<Rightarrow> u64 \<Rightarrow> nat \<Rightarrow> bool" where
  "fat16_found BlockSize P i \<longleftrightarrow> 4085 \<le> snd (fat16_try BlockSize P (push_bit i 1)) \<and>
     snd (fat16_try BlockSize P (push_bit i 1)) \<le> 65524"

lemma fat16_loop_Some:
  "fat16_loop BlockSize P is = Some l \<Longrightarrow> \<exists>i \<in> set is. fat16_found BlockSize P i \<and>
     l = \<lparr>fl_UseFat32 = False, fl_SecPerClus = push_bit i 1, fl_FatSz = fst (fat16_try BlockSize P (push_bit i 1)),
       fl_RsvdSecCnt = 1, fl_RootDirSectors = FAT16_ROOT_DIR_SECTORS BlockSize,
       fl_TotalClusters = snd (fat16_try BlockSize P (push_bit i 1))\<rparr>"
  by (induction "is") (auto simp: Let_def fat16_found_def split: prod.splits if_splits)

lemma fat16_loop_None: "fat16_loop BlockSize P is = None \<Longrightarrow> i \<in> set is \<Longrightarrow> \<not> fat16_found BlockSize P i"
  by (induction "is") (auto simp: Let_def fat16_found_def split: prod.splits if_splits)

lemma unat_pow: "i < 7 \<Longrightarrow> unat (push_bit i 1 :: u32) = 2 ^ i"
  using unat_of_nat_small [of "2 ^ i", where 'a = 32] power_strict_increasing [of i 32 "2 :: nat"]
  by (simp add: push_bit_eq_mult)

text \<open>With larger clusters the FAT is not larger, so the count at least halves, and does not skip the range.\<close>

lemma fat16_some_round:
  assumes bs: "bs \<in> sector_sizes" and P: "4152 \<le> P" "fat16_clusters bs P 64 \<le> 65524"
  shows "\<exists>i < 7. 4085 \<le> fat16_clusters bs P (2 ^ i) \<and> fat16_clusters bs P (2 ^ i) \<le> 65524"
proof -
  let ?T = "\<lambda>i. fat16_clusters bs P (2 ^ i)"
  define i where "i = (LEAST i. ?T i \<le> 65524)"
  have six: "?T 6 \<le> 65524" using P(2) by simp
  then have i: "?T i \<le> 65524" "i \<le> 6" unfolding i_def by (rule LeastI, intro Least_le)
  have "4085 \<le> ?T i"
  proof (cases i)
    case 0
    have "fat16_sectors bs P 1 * bs \<le> ((P - 1 - gpt_lbas bs) div 1 + 2) * 2 + bs - 1"
      unfolding fat16_sectors_def by (rule div_times_less_eq_dividend)
    then show ?thesis using bs P(1) 0
      by (auto simp: fat16_clusters_def sector_sizes_def root_lbas)
  next
    case (Suc j)
    then have j: "65525 \<le> ?T j" using not_less_Least [of j "\<lambda>i. ?T i \<le> 65524"] by (simp add: i_def)
    let ?D = "\<lambda>i. P - 1 - gpt_lbas bs - 2 * fat16_sectors bs P (2 ^ i)"
    have "(P - 1 - gpt_lbas bs) div 2 ^ Suc j \<le> (P - 1 - gpt_lbas bs) div 2 ^ j"
      by (rule div_le_mono2) simp_all
    then have "fat16_sectors bs P (2 ^ Suc j) \<le> fat16_sectors bs P (2 ^ j)"
      unfolding fat16_sectors_def by (intro div_le_mono) simp
    then have "?D j \<le> ?D (Suc j)" by simp
    moreover have "?T (Suc j) = ?D (Suc j) div (2 ^ j * 2)" by (simp add: fat16_clusters_def mult.commute)
    moreover have "?D j div (2 ^ j * 2) \<le> ?D (Suc j) div (2 ^ j * 2)" using calculation(1) by (rule div_le_mono)
    moreover have "?D j div (2 ^ j * 2) = ?T j div 2" by (simp add: fat16_clusters_def div_mult2_eq)
    ultimately show ?thesis unfolding Suc using j by linarith
  qed
  then show ?thesis using i by (intro exI [of _ i]) simp
qed

subsection \<open>The layout\<close>

text \<open>
  The conditions of the FAT specification on a partition of \<open>P\<close> sectors: the regions fit, the number of
  clusters belongs to the type, and the FAT has an entry for each cluster; for FAT32, for each cluster that is
  counted in the information sector.
\<close>

definition layout_ok :: "nat \<Rightarrow> nat \<Rightarrow> fat_layout \<Rightarrow> bool" where
  "layout_ok bs P l \<longleftrightarrow>
     (let S = unat (fl_SecPerClus l); F = unat (fl_FatSz l); T = unat (fl_TotalClusters l);
          R = unat (fl_RsvdSecCnt l); D = unat (fl_RootDirSectors l); c = (P - (R + 2 * F + D)) div S in
      S \<in> {1, 2, 4, 8, 16, 32, 64} \<and> R + 2 * F + D + S \<le> P \<and>
      (if fl_UseFat32 l then R = 32 \<and> D = 0 \<and> 65525 \<le> c \<and> 65524 \<le> T \<and> T \<le> c \<and> (T + 2) * 4 \<le> F * bs
       else R = 1 \<and> D = gpt_lbas bs \<and> c = T \<and> 4085 \<le> c \<and> c < 65525 \<and> (c + 2) * 2 \<le> F * bs \<and> F < 2 ^ 16))"

lemma round_up: "0 < b \<Longrightarrow> x \<le> (x + b - 1) div b * (b :: nat)"
proof -
  assume b: "0 < b"
  have "x + b - 1 < ((x + b - 1) div b + 1) * b" using b dividend_less_times_div [of b "x + b - 1"] by (simp add: algebra_simps)
  then show ?thesis using b by (simp add: algebra_simps)
qed

lemma fat16_layout_ok:
  assumes bs: "bs \<in> sector_sizes" and P: "4152 \<le> P"
    and T: "4085 \<le> fat16_clusters bs P C" "fat16_clusters bs P C < 65525" and C: "C \<in> {1, 2, 4, 8, 16, 32, 64}"
  shows "1 + 2 * fat16_sectors bs P C + gpt_lbas bs + C \<le> P"
    and "(P - (1 + 2 * fat16_sectors bs P C + gpt_lbas bs)) div C = fat16_clusters bs P C"
    and "(fat16_clusters bs P C + 2) * 2 \<le> fat16_sectors bs P C * bs" and "fat16_sectors bs P C < 2 ^ 16"
proof -
  let ?F = "fat16_sectors bs P C" and ?T = "fat16_clusters bs P C"
  define A where "A = P - 1 - gpt_lbas bs"
  have C0: "0 < C" using C by auto
  have b: "512 \<le> bs" "bs \<le> 4096" using bs by (auto simp: sector_sizes_def)
  have le: "1 + gpt_lbas bs + 2 * ?F \<le> P" using fat16_sectors_bound(2) [OF bs _ C0, of P] P by simp
  have t: "?T = (A - 2 * ?F) div C" by (simp add: fat16_clusters_def A_def)
  show "(P - (1 + 2 * ?F + gpt_lbas bs)) div C = ?T" unfolding t A_def by (simp add: add.commute)
  have "C \<le> A - 2 * ?F" using T(1) unfolding t by (cases "A - 2 * ?F < C") simp_all
  then show "1 + 2 * ?F + gpt_lbas bs + C \<le> P" using le C0 by (simp add: A_def)
  have "?T \<le> A div C" unfolding t by (rule div_le_mono) simp
  moreover have "(A div C + 2) * 2 \<le> ?F * bs"
    using round_up [of bs "(A div C + 2) * 2"] b by (simp add: fat16_sectors_def A_def)
  ultimately show "(?T + 2) * 2 \<le> ?F * bs" using order_trans [of "(?T + 2) * 2" "(A div C + 2) * 2"] by simp
  have "A - 2 * ?F < 65525 * C"
    using T(2) C0 unfolding t by (metis div_less_iff_less_mult)
  then have "A < (65525 + 2 * ?F) * C" using C0 by (cases C) (simp_all add: algebra_simps)
  then have "A div C < 65525 + 2 * ?F" using C0 by (simp add: div_less_iff_less_mult)
  moreover have "?F * bs \<le> (A div C + 2) * 2 + bs - 1"
    unfolding fat16_sectors_def A_def by (rule div_times_less_eq_dividend)
  moreover have "q < 65525 + 2 * f \<Longrightarrow> x \<le> (q + 2) * 2 + b - 1 \<Longrightarrow> x \<le> 131054 + 4 * f + b" for q f x b :: nat
    by presburger
  ultimately have "?F * bs \<le> 131054 + 4 * ?F + bs" by blast
  moreover have "?F * bs = ?F * 508 + ?F * (bs - 508)"
    using b by (simp add: add_mult_distrib2 [symmetric])
  ultimately have "504 * ?F \<le> 131054 + 4096" using b bs by (auto simp: sector_sizes_def)
  then show "?F < 2 ^ 16" by simp
qed

lemma fat16_layout:
  assumes l: "fat16_loop BlockSize P [0..<7] = Some l"
    and bs: "unat BlockSize \<in> sector_sizes" and P: "4152 \<le> unat P" "unat P < 2 ^ 32"
  shows "layout_ok (unat BlockSize) (unat P) l \<and> \<not> fl_UseFat32 l"
proof -
  obtain i where i: "i < 7" "fat16_found BlockSize P i"
    and eq: "l = \<lparr>fl_UseFat32 = False, fl_SecPerClus = push_bit i 1, fl_FatSz = fst (fat16_try BlockSize P (push_bit i 1)),
       fl_RsvdSecCnt = 1, fl_RootDirSectors = FAT16_ROOT_DIR_SECTORS BlockSize,
       fl_TotalClusters = snd (fat16_try BlockSize P (push_bit i 1))\<rparr>"
    using fat16_loop_Some [OF l] by auto
  have b: "512 \<le> unat BlockSize" "unat BlockSize < 2 ^ 31" using bs by (auto simp: sector_sizes_def)
  have c: "unat (push_bit i 1 :: u32) = 2 ^ i" "0 < unat (push_bit i 1 :: u32)" using unat_pow [OF i(1)] by simp_all
  have C: "(2 :: nat) ^ i \<in> {1, 2, 4, 8, 16, 32, 64}" using i(1) by (auto simp: numeral_eq_Suc less_Suc_eq)
  then have c64: "unat (push_bit i 1 :: u32) \<le> 64" using c by auto
  have found: "4085 \<le> unat (snd (fat16_try BlockSize P (push_bit i 1)))"
      "unat (snd (fat16_try BlockSize P (push_bit i 1))) < 65525"
    using i(2) by (simp_all add: fat16_found_def word_le_nat_alt)
  have small: "unat P < 2 ^ 25"
    using fat16_try_large [OF b _ P(2) c(2) c64] found(2) by (cases "unat P < 2 ^ 25") simp_all
  note n = fat16_try_nat [OF bs _ small c(2) c64, unfolded c(1)]
  have n: "unat (fst (fat16_try BlockSize P (push_bit i 1))) = fat16_sectors (unat BlockSize) (unat P) (2 ^ i)"
      "unat (snd (fat16_try BlockSize P (push_bit i 1))) = fat16_clusters (unat BlockSize) (unat P) (2 ^ i)"
    using n P(1) by simp_all
  have r: "unat (FAT16_ROOT_DIR_SECTORS BlockSize) = gpt_lbas (unat BlockSize)"
    using entries_lbas [of BlockSize] b by (simp add: root_dir_lbas)
  show ?thesis using fat16_layout_ok [OF bs P(1) found [unfolded n] C] found C
    unfolding layout_ok_def eq by (simp add: n r c(1) Let_def del: push_bit_of_1)
qed

text \<open>No round fits: the partition has more sectors than 65524 clusters of 64.\<close>

lemma fat16_none:
  assumes l: "fat16_loop BlockSize P [0..<7] = None"
    and bs: "unat BlockSize \<in> sector_sizes" and P: "4152 \<le> unat P"
  shows "4193537 \<le> unat P" and "unat BlockSize = 512 \<Longrightarrow> 4194145 \<le> unat P"
proof -
  have no: "unat P < 2 ^ 25 \<Longrightarrow> 65524 < fat16_clusters (unat BlockSize) (unat P) 64"
  proof (rule ccontr)
    assume s: "unat P < 2 ^ 25" and "\<not> 65524 < fat16_clusters (unat BlockSize) (unat P) 64"
    then obtain i where i: "i < 7" "4085 \<le> fat16_clusters (unat BlockSize) (unat P) (2 ^ i)"
        "fat16_clusters (unat BlockSize) (unat P) (2 ^ i) \<le> 65524"
      using fat16_some_round [OF bs P] by fastforce
    have "(2 :: nat) ^ i \<le> 2 ^ 6" using i(1) by (intro power_increasing) auto
    then have "unat (snd (fat16_try BlockSize P (push_bit i 1))) = fat16_clusters (unat BlockSize) (unat P) (2 ^ i)"
      using fat16_try_nat(2) [OF bs _ s, of "push_bit i 1"] unat_pow [OF i(1)] P by (simp del: push_bit_of_1)
    then have "fat16_found BlockSize P i" using i by (simp add: fat16_found_def word_le_nat_alt del: push_bit_of_1)
    then show False using fat16_loop_None [OF l] i(1) by simp
  qed
  show a: "4193537 \<le> unat P"
  proof (rule ccontr)
    assume "\<not> 4193537 \<le> unat P"
    moreover from this have "unat P - 1 - gpt_lbas (unat BlockSize) - 2 * fat16_sectors (unat BlockSize) (unat P) 64 < 65525 * 64"
      by simp
    then have "fat16_clusters (unat BlockSize) (unat P) 64 < 65525"
      unfolding fat16_clusters_def by (simp add: div_less_iff_less_mult)
    ultimately show False using no by simp
  qed
  show "4194145 \<le> unat P" if "unat BlockSize = 512"
  proof (rule ccontr)
    assume "\<not> 4194145 \<le> unat P"
    moreover have g: "gpt_lbas 512 = 32" by (simp add: gpt_lbas_def block_count_def)
    moreover have "256 \<le> fat16_sectors 512 (unat P) 64"
      using div_le_mono [OF div_le_mono, of "4193537 - 33" "unat P - 33" 64 1] a
        div_le_mono [of "(65523 + 2) * 2 + 512 - 1" "((unat P - 33) div 64 + 2) * 2 + 512 - 1" 512]
      by (simp add: fat16_sectors_def g)
    ultimately have "unat P - 1 - gpt_lbas 512 - 2 * fat16_sectors 512 (unat P) 64 < 65525 * 64" by simp
    then have "fat16_clusters 512 (unat P) 64 < 65525"
      unfolding fat16_clusters_def by (simp add: div_less_iff_less_mult)
    then show False using no that \<open>\<not> 4194145 \<le> unat P\<close> by simp
  qed
qed

subsection \<open>FAT32\<close>

text \<open>The two passes over the sizes, for a cluster of \<open>S\<close> sectors.\<close>

definition fat32_pass :: "nat \<Rightarrow> nat \<Rightarrow> nat \<Rightarrow> nat \<Rightarrow> nat" where
  "fat32_pass bs S P F = (((P - 32 - 2 * F) div S + 2) * 4 + bs - 1) div bs"

lemma fat32_nat:
  assumes bs: "unat BlockSize \<in> sector_sizes" and P: "4193537 \<le> unat P" "unat P < 2 ^ 32"
  defines "S \<equiv> 32768 div unat BlockSize"
  defines "F1 \<equiv> fat32_pass (unat BlockSize) S (unat P) 0"
  shows "unat (fl_SecPerClus (fat32_layout BlockSize P)) = S"
    and "unat (fl_TotalClusters (fat32_layout BlockSize P)) = (unat P - 32 - 2 * F1) div S"
    and "unat (fl_FatSz (fat32_layout BlockSize P)) = fat32_pass (unat BlockSize) S (unat P) F1"
proof -
  let ?bs = "unat BlockSize" and ?P = "unat P"
  have b: "512 \<le> ?bs" "?bs \<le> 4096" "8 \<le> S" "S \<le> 64" using bs by (auto simp: sector_sizes_def S_def)
  have uc: "unat (ucast x :: u64) = unat x" for x :: u32
    by (simp add: unsigned_ucast_eq take_bit_nat_eq_self order_less_le_trans [OF unsigned_less])
  define s where "s = (if 128 < (if 32768 \<le> BlockSize then 1 else 32768 div BlockSize) then 128
    else if 32768 \<le> BlockSize then 1 else 32768 div BlockSize)"
  have s: "unat s = S" using b by (auto simp: s_def S_def word_le_nat_alt word_less_nat_alt unat_div)
  define t where "t F = (ucast ((P - 32 - ucast (2 * F)) div ucast s) :: u32)" for F :: u32
  define f where "f T = ((T + 2) * 4 + BlockSize - 1) div BlockSize" for T
  have t: "unat (t F) = (?P - 32 - 2 * unat F) div S" "unat (t F) < 2 ^ 29" if "unat F < 2 ^ 20" for F :: u32
  proof -
    have "unat (2 * F) = 2 * unat F" using that by (simp add: unat_word_ariths)
    then have "unat (P - 32 - ucast (2 * F)) = ?P - 32 - 2 * unat F"
      using that P(1) by (simp add: unat_sub_if' uc word_le_nat_alt)
    then have d: "unat ((P - 32 - ucast (2 * F)) div ucast s) = (?P - 32 - 2 * unat F) div S"
      by (simp add: unat_div uc s)
    have "(?P - 32 - 2 * unat F) div S \<le> (?P - 32 - 2 * unat F) div 8" using b by (intro div_le_mono2) simp_all
    then have "(?P - 32 - 2 * unat F) div S < 2 ^ 29" using P(2) by simp
    then show "unat (t F) = (?P - 32 - 2 * unat F) div S" "unat (t F) < 2 ^ 29"
      using d by (simp_all add: t_def unsigned_ucast_eq take_bit_nat_eq_self)
  qed
  have f: "unat (f T) = ((unat T + 2) * 4 + ?bs - 1) div ?bs" if "unat T < 2 ^ 29" for T
  proof -
    have "unat ((T + 2) * 4) = (unat T + 2) * 4" using that by (simp add: unat_word_ariths)
    then have "unat ((T + 2) * 4 + BlockSize) = (unat T + 2) * 4 + ?bs"
      using that b by (subst unat_word_ariths) simp
    then have "unat ((T + 2) * 4 + BlockSize - 1) = (unat T + 2) * 4 + ?bs - 1"
      using b by (subst unat_minus_one) auto
    then show ?thesis by (simp add: f_def unat_div)
  qed
  have code: "fat32_layout BlockSize P = \<lparr>fl_UseFat32 = True, fl_SecPerClus = s, fl_FatSz = f (t (f (t 0))),
      fl_RsvdSecCnt = 32, fl_RootDirSectors = 0, fl_TotalClusters = t (f (t 0))\<rparr>"
    by (simp add: fat32_layout_def Let_def s_def t_def f_def)
  have F1: "unat (f (t 0)) = F1" using t [of 0] f [of "t 0"] by (simp add: F1_def fat32_pass_def)
  have "F1 * ?bs \<le> ((?P - 32) div S + 2) * 4 + ?bs - 1"
    unfolding F1_def fat32_pass_def by (simp add: div_times_less_eq_dividend)
  moreover have "(?P - 32) div S * S \<le> ?P - 32" by (rule div_times_less_eq_dividend)
  ultimately have "F1 < 2 ^ 20" using bs P by (auto simp: sector_sizes_def S_def)
  with F1 have "unat (f (t 0)) < 2 ^ 20" by simp
  note t2 = t [OF this]
  show "unat (fl_SecPerClus (fat32_layout BlockSize P)) = S" by (simp add: code s)
  show "unat (fl_TotalClusters (fat32_layout BlockSize P)) = (?P - 32 - 2 * F1) div S"
    using t2 F1 by (simp add: code)
  show "unat (fl_FatSz (fat32_layout BlockSize P)) = fat32_pass ?bs S ?P F1"
    using t2 F1 f [OF t2(2)] by (simp add: code fat32_pass_def)
qed

lemma fat32_counts:
  assumes bs: "bs \<in> sector_sizes" and P: "4193537 \<le> P" "bs = 512 \<Longrightarrow> 4194656 \<le> P"
  defines "S \<equiv> 32768 div bs"
  defines "F1 \<equiv> fat32_pass bs S P 0"
  defines "F2 \<equiv> fat32_pass bs S P F1" and "T \<equiv> (P - 32 - 2 * F1) div S"
  shows "32 + 2 * F2 + S \<le> P" and "65525 \<le> (P - 32 - 2 * F2) div S" and "65524 \<le> T"
    and "T \<le> (P - 32 - 2 * F2) div S" and "(T + 2) * 4 \<le> F2 * bs"
proof -
  have S0: "0 < S" "0 < bs" using bs by (auto simp: sector_sizes_def S_def)
  have le: "F2 \<le> F1" unfolding F1_def F2_def fat32_pass_def by (intro div_le_mono diff_le_mono add_le_mono mult_le_mono) simp_all
  show "T \<le> (P - 32 - 2 * F2) div S" unfolding T_def using le by (intro div_le_mono) simp
  show "(T + 2) * 4 \<le> F2 * bs" using round_up [OF S0(2), of "(T + 2) * 4"] by (simp add: F2_def fat32_pass_def T_def)
  define q where "q = (P - 32) div S"
  have q: "q * S \<le> P - 32" "P - 32 < q * S + S"
    using S0(1) dividend_less_times_div [of S "P - 32"] by (simp_all add: q_def mult.commute)
  have F1: "F1 * bs \<le> (q + 2) * 4 + bs - 1" "(q + 2) * 4 \<le> F1 * bs"
    using round_up [OF S0(2), of "(q + 2) * 4"] div_times_less_eq_dividend [of "(q + 2) * 4 + bs - 1" bs]
    by (simp_all add: F1_def fat32_pass_def q_def)
  have T: "T * S \<le> P - 32 - 2 * F1" unfolding T_def by (rule div_times_less_eq_dividend)
  have F2: "F2 * bs \<le> (T + 2) * 4 + bs - 1"
    unfolding F2_def fat32_pass_def T_def by (rule div_times_less_eq_dividend)
  have "65524 * S \<le> P - 32 - 2 * F1" "32 + 2 * F1 + S \<le> P" using bs P q F1 by (auto simp: sector_sizes_def S_def)
  then show "65524 \<le> T" "32 + 2 * F2 + S \<le> P" using S0 le by (simp_all add: T_def less_eq_div_iff_mult_less_eq)
  have "65525 * S \<le> P - 32 - 2 * F2"
  proof (cases "bs = 512 \<and> P < 4194660")
    case True
    then have "P \<in> {4194656, 4194657, 4194658, 4194659}" using P(2) by auto
    then show ?thesis using True by (auto simp: F2_def F1_def S_def fat32_pass_def)
  next
    case False
    then show ?thesis using bs P q F1 F2 T le by (auto simp: sector_sizes_def S_def)
  qed
  then show "65525 \<le> (P - 32 - 2 * F2) div S" using S0 by (simp add: less_eq_div_iff_mult_less_eq)
qed

text \<open>
  Every partition the application can lay out well: it has 4152 sectors at least, less than \<open>2 ^ 32\<close>, and for
  sectors of 512 bytes it is not one of the 511 sizes between the last that FAT16 takes and the first that has
  enough clusters of 64 sectors for FAT32.
\<close>

definition size_ok :: "nat \<Rightarrow> nat \<Rightarrow> bool" where
  "size_ok bs P \<longleftrightarrow> bs \<in> sector_sizes \<and> 4152 \<le> P \<and> P < 2 ^ 32 \<and> \<not> (bs = 512 \<and> 4194145 \<le> P \<and> P < 4194656)"

lemma layout_for_ok:
  assumes "size_ok (unat BlockSize) (unat P)"
  shows "layout_ok (unat BlockSize) (unat P) (fat_layout_for BlockSize P)"
proof (cases "fat16_loop BlockSize P [0..<7]")
  case None
  have bs: "unat BlockSize \<in> sector_sizes" and P: "4152 \<le> unat P" "unat P < 2 ^ 32"
    using assms by (auto simp: size_ok_def)
  note lo = fat16_none [OF None bs P(1)]
  have big: "4194656 \<le> unat P" if "unat BlockSize = 512" using lo(2) that assms by (auto simp: size_ok_def)
  have S: "32768 div unat BlockSize \<in> {1, 2, 4, 8, 16, 32, 64}" using bs by (auto simp: sector_sizes_def)
  have l: "fat_layout_for BlockSize P = fat32_layout BlockSize P" by (simp add: fat_layout_for_def None)
  have "unat (fl_RsvdSecCnt (fat32_layout BlockSize P)) = 32" "unat (fl_RootDirSectors (fat32_layout BlockSize P)) = 0"
      "fl_UseFat32 (fat32_layout BlockSize P)" by (simp_all add: fat32_layout_def Let_def)
  then show ?thesis using fat32_counts [OF bs lo(1) big] S
    unfolding layout_ok_def l fat32_nat [OF bs lo(1) P(2)] Let_def by simp
next
  case (Some l)
  then show ?thesis using fat16_layout [OF Some] assms by (simp add: fat_layout_for_def size_ok_def)
qed

end
