(* ===== verification/FormatVolume.thy ===== *)
theory FormatVolume
  imports FormatGeometry
begin

text \<open>
  \<open>FormatFat\<close> on a block device: the blocks it leaves behind, and what a reader of the FAT specification
  finds there.
\<close>

unbundle bit_operations_syntax

subsection \<open>The images\<close>

lemma length_bpb: "length (bpb_image b) = 25 + length (JmpBoot b) + length (OEMName b)"
  by (simp add: bpb_image_def)

lemma length_boot_image: "length (boot_image BlockSize FirstUsable PartSectors l) = 512"
  by (simp add: boot_image_def fat32_image_def fat16_image_def length_bpb fat32_boot_sector_def fat16_boot_sector_def ascii_def)

lemma length_fsinfo: "length (fsinfo_image (fsinfo_for l)) = 512"
  by (simp add: fsinfo_image_def fsinfo_for_def)

lemma length_fat_head: "length (fat_head l) \<le> 12"
  by (simp add: fat_head_def)

subsection \<open>The writes\<close>

text \<open>A run of blocks that exist, all filled with the same bytes.\<close>

definition fill_blocks :: "nat \<Rightarrow> nat \<Rightarrow> nat \<Rightarrow> bytes \<Rightarrow> (nat \<Rightarrow> bytes) \<Rightarrow> nat \<Rightarrow> bytes" where
  "fill_blocks k a b z = filled a (min b (Suc k)) (\<lambda>_. z)"

lemma fold_put: "i \<le> j \<Longrightarrow> fold (\<lambda>i. put_block k (a + i) z) [i..<j] m = fill_blocks k (a + i) (a + j) z m"
proof (induction j)
  case (Suc j)
  then show ?case
    by (cases "i \<le> j") (auto simp: le_Suc_eq fill_blocks_def filled_def put_block_def fun_eq_iff min_def)
qed (simp add: fill_blocks_def)

lemma fold_put2:
  "i \<le> j \<Longrightarrow> fold (\<lambda>i m. put_block k (b + i) z (put_block k (a + i) z m)) [i..<j] m =
     fill_blocks k (b + i) (b + j) z (fill_blocks k (a + i) (a + j) z m)"
proof (induction j)
  case (Suc j)
  then show ?case
    by (cases "i \<le> j") (auto simp: le_Suc_eq fill_blocks_def filled_def put_block_def fun_eq_iff min_def)
qed (simp add: fill_blocks_def)

text \<open>The regions of a layout in a partition that starts at block \<open>lo\<close>.\<close>

definition fat_lba :: "nat \<Rightarrow> fat_layout \<Rightarrow> nat" where "fat_lba lo l = lo + unat (fl_RsvdSecCnt l)"
definition fat2_lba :: "nat \<Rightarrow> fat_layout \<Rightarrow> nat" where "fat2_lba lo l = fat_lba lo l + unat (fl_FatSz l)"
definition root_lba :: "nat \<Rightarrow> fat_layout \<Rightarrow> nat" where "root_lba lo l = fat2_lba lo l + unat (fl_FatSz l)"
definition data_lba :: "nat \<Rightarrow> fat_layout \<Rightarrow> nat" where "data_lba lo l = root_lba lo l + unat (fl_RootDirSectors l)"

lemmas lba_defs = fat_lba_def fat2_lba_def root_lba_def data_lba_def

text \<open>The end of what is written: the root directory, in the first cluster for FAT32.\<close>

definition end_lba :: "nat \<Rightarrow> fat_layout \<Rightarrow> nat" where
  "end_lba lo l = data_lba lo l + (if fl_UseFat32 l then unat (fl_SecPerClus l) else 0)"

definition with_boot :: "nat \<Rightarrow> nat \<Rightarrow> fat_layout \<Rightarrow> bytes \<Rightarrow> (nat \<Rightarrow> bytes) \<Rightarrow> nat \<Rightarrow> bytes" where
  "with_boot bs lo l boot m = (if fl_UseFat32 l then m(lo := padded bs boot, lo + 6 := padded bs boot)
     else m(lo := padded bs boot))"

definition with_fsinfo :: "nat \<Rightarrow> nat \<Rightarrow> nat \<Rightarrow> fat_layout \<Rightarrow> (nat \<Rightarrow> bytes) \<Rightarrow> nat \<Rightarrow> bytes" where
  "with_fsinfo k bs lo l m =
     (let b = padded bs (fsinfo_image (fsinfo_for l)) in
      if fl_UseFat32 l then put_block k (lo + 7) b (put_block k (lo + 1) b m) else m)"

definition with_fats :: "nat \<Rightarrow> nat \<Rightarrow> nat \<Rightarrow> fat_layout \<Rightarrow> (nat \<Rightarrow> bytes) \<Rightarrow> nat \<Rightarrow> bytes" where
  "with_fats k bs lo l m =
     (let h = padded bs (fat_head l); z = zeros bs; a = fat_lba lo l; b = fat2_lba lo l;
          m1 = put_block k b h (put_block k a h m);
          m2 = (if fl_FatSz l = 0 then m1
            else fill_blocks k (b + 1) (b + unat (fl_FatSz l)) z (fill_blocks k (a + 1) b z m1)) in
      fill_blocks k (if fl_UseFat32 l then data_lba lo l else root_lba lo l) (end_lba lo l) z m2)"

definition with_fat :: "nat \<Rightarrow> nat \<Rightarrow> nat \<Rightarrow> fat_layout \<Rightarrow> bytes \<Rightarrow> (nat \<Rightarrow> bytes) \<Rightarrow> nat \<Rightarrow> bytes" where
  "with_fat k bs lo l boot m = with_fats k bs lo l (with_fsinfo k bs lo l (with_boot bs lo l boot m))"

text \<open>The blocks that are written.\<close>

definition fat_blocks :: "nat \<Rightarrow> fat_layout \<Rightarrow> nat set" where
  "fat_blocks lo l = {lo} \<union> (if fl_UseFat32 l then {lo + 1, lo + 6, lo + 7} else {}) \<union>
     {fat_lba lo l, fat2_lba lo l} \<union> {fat_lba lo l..<end_lba lo l}"

lemma unat_lbas:
  assumes "unat lo < 2 ^ 32"
  shows "unat (lo + ucast (fl_RsvdSecCnt l) :: u64) = fat_lba (unat lo) l"
    and "unat (lo + ucast (fl_RsvdSecCnt l) + ucast (fl_FatSz l) :: u64) = fat2_lba (unat lo) l"
    and "unat (lo + ucast (fl_RsvdSecCnt l) + ucast (fl_FatSz l) + ucast (fl_FatSz l) :: u64) = root_lba (unat lo) l"
    and "unat (lo + ucast (fl_RsvdSecCnt l) + ucast (fl_FatSz l) + ucast (fl_FatSz l) + ucast (fl_RootDirSectors l) :: u64) =
      data_lba (unat lo) l"
    and "data_lba (unat lo) l < 2 ^ 35"
proof -
  have b: "unat x < 2 ^ 32" for x :: u32 using unsigned_less [of x] by simp
  have uc: "(ucast x :: u64) = of_nat (unat x)" for x :: u32 by (simp add: unsigned_ucast_eq)
  have step: "unat (x + ucast n) = unat x + unat n" if "unat x + unat n < 2 ^ 64" for x :: u64 and n :: u32
    unfolding uc by (rule unat_add_of_nat) (use that in simp)
  show lt: "data_lba (unat lo) l < 2 ^ 35"
    using assms b [of "fl_RsvdSecCnt l"] b [of "fl_FatSz l"] b [of "fl_RootDirSectors l"] by (simp add: lba_defs)
  then have lts: "fat_lba (unat lo) l < 2 ^ 64" "fat2_lba (unat lo) l < 2 ^ 64" "root_lba (unat lo) l < 2 ^ 64"
      "data_lba (unat lo) l < 2 ^ 64" by (simp_all add: lba_defs)
  show 1: "unat (lo + ucast (fl_RsvdSecCnt l) :: u64) = fat_lba (unat lo) l"
    using lts(1) step by (simp add: fat_lba_def)
  show 2: "unat (lo + ucast (fl_RsvdSecCnt l) + ucast (fl_FatSz l) :: u64) = fat2_lba (unat lo) l"
    using lts(2) step [of "lo + ucast (fl_RsvdSecCnt l)" "fl_FatSz l"] 1 by (simp add: fat2_lba_def)
  show 3: "unat (lo + ucast (fl_RsvdSecCnt l) + ucast (fl_FatSz l) + ucast (fl_FatSz l) :: u64) = root_lba (unat lo) l"
    using lts(3) step [of "lo + ucast (fl_RsvdSecCnt l) + ucast (fl_FatSz l)" "fl_FatSz l"] 2 by (simp add: root_lba_def)
  show "unat (lo + ucast (fl_RsvdSecCnt l) + ucast (fl_FatSz l) + ucast (fl_FatSz l) + ucast (fl_RootDirSectors l) :: u64) =
      data_lba (unat lo) l"
    using lts(4) step [of "lo + ucast (fl_RsvdSecCnt l) + ucast (fl_FatSz l) + ucast (fl_FatSz l)" "fl_RootDirSectors l"] 3
    by (simp add: data_lba_def)
qed

context block_store begin

lemma ignores_seq:
  assumes "leaves V False fit L M (Some (d1, EFI_SUCCESS)) d"
    and "sv_ready V d1 \<Longrightarrow> leaves V False fit' L' M' (Some (d2, EFI_SUCCESS)) d1"
  shows "leaves V False (fit \<and> fit') (L \<union> L') (\<lambda>m. M' (M m)) (Some (d2, EFI_SUCCESS)) d"
proof (rule ignores_then [OF assms(1) assms(2)])
  show "sv_ready V d1" using assms(1) by (simp add: leaves_def)
qed

lemma boot_leaves:
  assumes "sv_ready V d" and bs: "unat BlockSize = block_size bio" "512 \<le> block_size bio" and "unat lo < 2 ^ 32"
  shows "leaves V False (unat lo \<le> last_block bio \<and> (fl_UseFat32 l \<longrightarrow> unat lo + 6 \<le> last_block bio))
    ({unat lo} \<union> (if fl_UseFat32 l then {unat lo + 6} else {}))
    (with_boot (block_size bio) (unat lo) l (boot_image BlockSize lo P l))
    (write_boot_sectors ps bio BlockSize lo P l d) d"
proof -
  let ?b = "padded (block_size bio) (boot_image BlockSize lo P l)"
  have len: "length ?b = block_size bio" using bs(2) by (simp add: length_boot_image)
  have six: "unat (lo + 6) = unat lo + 6" using unat_add_of_nat [of lo 6] assms(4) by simp
  have code: "write_boot_sectors ps bio BlockSize lo P l = with_buffer ps (ucast BlockSize)
      (\<lambda>d. do { (d1, st) \<leftarrow> Some (write_block bio lo ?b d);
        if EFI_ERROR st then Some (d1, st)
        else if fl_UseFat32 l
        then do { (d2, st) \<leftarrow> Some (write_block bio (lo + 6) ?b d1);
          if EFI_ERROR st then Some (d2, st) else Some (d2, EFI_SUCCESS) }
        else Some (d1, EFI_SUCCESS) })"
    using bs by (simp add: fun_eq_iff write_boot_sectors_def in_block_padded length_boot_image Let_def
        cong: prod.case_cong if_cong)
  show ?thesis
  proof (cases "fl_UseFat32 l")
    case True
    have "leaves V False (unat lo \<le> last_block bio \<and> unat (lo + 6) \<le> last_block bio \<and> True)
        ({unat lo} \<union> ({unat (lo + 6)} \<union> {})) (\<lambda>m. m(unat lo := ?b, unat (lo + 6) := ?b))
        (write_boot_sectors ps bio BlockSize lo P l d) d"
      unfolding code using True assms(1)
      by (simp only: if_True) (intro buffered leaves_bind [OF writes_strict [OF _ len]] leaves_success)
    then show ?thesis by (rule leaves_weaken) (simp_all add: True six with_boot_def)
  next
    case False
    have "leaves V False (unat lo \<le> last_block bio \<and> True) ({unat lo} \<union> {}) (\<lambda>m. m(unat lo := ?b))
        (write_boot_sectors ps bio BlockSize lo P l d) d"
      unfolding code using False assms(1)
      by (simp only: if_False) (intro buffered leaves_bind [OF writes_strict [OF _ len]] leaves_success)
    then show ?thesis by (rule leaves_weaken) (simp_all add: False with_boot_def)
  qed
qed

lemma fsinfo_leaves:
  assumes "sv_ready V d" and bs: "unat BlockSize = block_size bio" "512 \<le> block_size bio" and "unat lo < 2 ^ 32"
  shows "leaves V False True (if fl_UseFat32 l then {unat lo + 1, unat lo + 7} else {})
    (with_fsinfo (last_block bio) (block_size bio) (unat lo) l)
    (write_fsinfo ps bio BlockSize lo l d) d"
proof (cases "fl_UseFat32 l")
  case True
  let ?b = "padded (block_size bio) (fsinfo_image (fsinfo_for l))"
  have len: "length ?b = block_size bio" using bs(2) by (simp add: length_fsinfo)
  have un: "unat (lo + 1) = unat lo + 1" "unat (lo + 7) = unat lo + 7"
    using unat_add_of_nat [of lo 1] unat_add_of_nat [of lo 7] assms(4) by simp_all
  have code: "write_fsinfo ps bio BlockSize lo l d = with_buffer ps (ucast BlockSize)
      (\<lambda>d. Some (write_ignored bio (lo + 7) ?b (write_ignored bio (lo + 1) ?b d), EFI_SUCCESS)) d"
    using bs True by (simp add: write_fsinfo_def in_block_padded length_fsinfo Let_def)
  have "leaves V False (True \<and> True) ({unat (lo + 1)} \<union> {unat (lo + 7)})
      (\<lambda>m. put_block (last_block bio) (unat (lo + 7)) ?b (put_block (last_block bio) (unat (lo + 1)) ?b m))
      (write_fsinfo ps bio BlockSize lo l d) d"
    unfolding code by (rule buffered [OF assms(1)]) (rule ignores_seq [OF ignores [OF _ len] ignores [OF _ len]])
  then show ?thesis by (rule leaves_weaken) (auto simp: True un with_fsinfo_def Let_def)
next
  case False
  then show ?thesis using leaves_success [OF assms(1), of False]
    by (simp add: write_fsinfo_def with_fsinfo_def Let_def leaves_def)
qed

lemma fats_leaves:
  assumes "sv_ready V d" and bs: "unat BlockSize = block_size bio" "512 \<le> block_size bio" and "unat lo < 2 ^ 32"
  shows "leaves V False True ({fat_lba (unat lo) l, fat2_lba (unat lo) l} \<union> {fat_lba (unat lo) l..<end_lba (unat lo) l})
    (with_fats (last_block bio) (block_size bio) (unat lo) l) (write_fats ps bio BlockSize lo l d) d"
proof -
  let ?k = "last_block bio" and ?h = "padded (block_size bio) (fat_head l)" and ?z = "zeros (block_size bio)"
  have len: "length ?h = block_size bio" "length ?z = block_size bio" using bs(2) length_fat_head [of l] by simp_all
  define A where "A = lo + ucast (fl_RsvdSecCnt l)"
  define B where "B = A + ucast (fl_FatSz l)"
  define C where "C = (if fl_UseFat32 l then B + ucast (fl_FatSz l) + ucast (fl_RootDirSectors l) else B + ucast (fl_FatSz l))"
  define n where "n = (if fl_UseFat32 l then unat (fl_SecPerClus l) else unat (fl_RootDirSectors l))"
  let ?a = "fat_lba (unat lo) l" and ?b = "fat2_lba (unat lo) l" and ?r = "root_lba (unat lo) l" and ?F = "unat (fl_FatSz l)"
  note u = unat_lbas [OF assms(4), of l]
  have small: "unat x < 2 ^ 32" for x :: u32 using unsigned_less [of x] by simp
  have AB: "unat A = ?a" "unat B = ?b" "?a < 2 ^ 35" "?b < 2 ^ 35" using u by (simp_all add: A_def B_def lba_defs)
  have Cn: "{unat C..<unat C + n} \<subseteq> {?a..<end_lba (unat lo) l}" "unat C < 2 ^ 35" "n < 2 ^ 32" "unat C + n = end_lba (unat lo) l"
    using u small by (auto simp: C_def A_def B_def n_def end_lba_def lba_defs)
  have plus: "unat (X + of_nat i) = unat X + i" if "unat X < 2 ^ 35" "i < 2 ^ 32" for X :: u64 and i
    by (rule unat_add_of_nat) (use that in simp)
  have F: "i < 2 ^ 32" if "i \<in> set [1..<?F]" for i using that small [of "fl_FatSz l"] by simp
  let ?f = "\<lambda>i d. write_ignored bio (B + of_nat i) ?z (write_ignored bio (A + of_nat i) ?z d)"
  have rnd: "leaves V False (True \<and> True) ({?a + i} \<union> {?b + i}) (\<lambda>m. put_block ?k (?b + i) ?z (put_block ?k (?a + i) ?z m))
      (Some (?f i d1, EFI_SUCCESS)) d1" if "i \<in> set [1..<?F]" "sv_ready V d1" for i d1
    using ignores_seq [OF ignores [OF that(2) len(2), of "A + of_nat i"] ignores [OF _ len(2), of _ "B + of_nat i"]]
      plus [OF _ F [OF that(1)]] AB by simp
  have clear: "leaves V False (\<forall>i \<in> set [1..<?F]. True \<and> True) (\<Union>i \<in> set [1..<?F]. {?a + i} \<union> {?b + i})
      (fold (\<lambda>i m. put_block ?k (?b + i) ?z (put_block ?k (?a + i) ?z m)) [1..<?F])
      (Some (clear_fats bio A B (fl_FatSz l) ?z d1, EFI_SUCCESS)) d1" if "sv_ready V d1" for d1
    unfolding clear_fats_def by (rule ignores_fold [OF that rnd])
  have run: "leaves V False (\<forall>i \<in> set [0..<n]. True) (\<Union>i \<in> set [0..<n]. {unat C + i})
      (fold (\<lambda>i. put_block ?k (unat C + i) ?z) [0..<n])
      (Some (fold (\<lambda>i d. write_ignored bio (C + of_nat i) ?z d) [0..<n] d1, EFI_SUCCESS)) d1" if "sv_ready V d1" for d1
  proof (rule ignores_fold [OF that])
    fix i d assume "i \<in> set [0..<n]" "sv_ready V d"
    then show "leaves V False True {unat C + i} (put_block ?k (unat C + i) ?z)
        (Some (write_ignored bio (C + of_nat i) ?z d, EFI_SUCCESS)) d"
      using ignores [OF _ len(2), of d "C + of_nat i"] plus [of C i] Cn by simp
  qed
  have code: "write_fats ps bio BlockSize lo l d = with_buffer ps (ucast BlockSize)
      (\<lambda>d. Some (fold (\<lambda>i d. write_ignored bio (C + of_nat i) ?z d) [0..<n]
        (clear_fats bio A B (fl_FatSz l) ?z (write_ignored bio B ?h (write_ignored bio A ?h d))), EFI_SUCCESS)) d"
    using length_fat_head [of l] bs
    by (simp add: write_fats_def in_block_padded Let_def A_def B_def C_def n_def clear_run_def)
  have body: "leaves V False (True \<and> True \<and> (\<forall>i \<in> set [1..<?F]. True \<and> True) \<and> (\<forall>i \<in> set [0..<n]. True))
      ({?a} \<union> ({?b} \<union> ((\<Union>i \<in> set [1..<?F]. {?a + i} \<union> {?b + i}) \<union> (\<Union>i \<in> set [0..<n]. {unat C + i}))))
      (\<lambda>m. fold (\<lambda>i. put_block ?k (unat C + i) ?z) [0..<n]
        (fold (\<lambda>i m. put_block ?k (?b + i) ?z (put_block ?k (?a + i) ?z m)) [1..<?F]
          (put_block ?k ?b ?h (put_block ?k ?a ?h m))))
      (Some (fold (\<lambda>i d. write_ignored bio (C + of_nat i) ?z d) [0..<n]
        (clear_fats bio A B (fl_FatSz l) ?z (write_ignored bio B ?h (write_ignored bio A ?h d1))), EFI_SUCCESS)) d1"
    if "sv_ready V d1" for d1
    by (rule ignores_seq [OF ignores [OF that len(1), of A, unfolded AB]
        ignores_seq [OF ignores [OF _ len(1), of _ B, unfolded AB] ignores_seq [OF clear run]]])
  show ?thesis
    unfolding code
  proof (rule leaves_weaken [OF buffered [OF assms(1) body]], goal_cases)
    case 2
    have "?a + ?F = ?b" "?b + ?F = ?r" "?r \<le> end_lba (unat lo) l" by (simp_all add: lba_defs end_lba_def)
    then show ?case using Cn by auto
  next
    case 4
    have e: "?a + ?F = ?b" by (simp add: lba_defs)
    have r: "unat C = (if fl_UseFat32 l then data_lba (unat lo) l else ?r)"
      using u by (simp add: C_def A_def B_def)
    have f1: "fold (\<lambda>i. put_block ?k (unat C + i) ?z) [0..<n] m = fill_blocks ?k (unat C) (end_lba (unat lo) l) ?z m" for m
      using fold_put [of 0 n ?k "unat C" ?z m] Cn(4) by simp
    have f2: "fold (\<lambda>i m. put_block ?k (?b + i) ?z (put_block ?k (?a + i) ?z m)) [1..<?F] m =
        (if fl_FatSz l = 0 then m else fill_blocks ?k (?b + 1) (?b + ?F) ?z (fill_blocks ?k (?a + 1) ?b ?z m))" for m
      using fold_put2 [of 1 ?F ?k ?b ?z ?a m] e unat_gt_0 [of "fl_FatSz l"] by (cases "fl_FatSz l = 0") simp_all
    show ?case unfolding f1 f2 by (simp add: with_fats_def Let_def r)
  qed simp_all
qed

lemma FormatFat_leaves:
  fixes BlockSize :: u32 and N :: u64
  assumes "sv_ready V d" and bs: "unat BlockSize = block_size bio" "512 \<le> block_size bio" "block_size bio < 2 ^ 31"
  defines "lo \<equiv> unat (first_usable BlockSize)" and "P \<equiv> last_usable BlockSize N - first_usable BlockSize + 1"
  defines "l \<equiv> fat_layout_for BlockSize P"
  shows "leaves V False (lo \<le> last_block bio \<and> (fl_UseFat32 l \<longrightarrow> lo + 6 \<le> last_block bio))
    (fat_blocks lo l)
    (with_fat (last_block bio) (block_size bio) lo l (boot_image BlockSize (first_usable BlockSize) P l))
    (FormatFat ps bio BlockSize N d) d"
proof -
  have lo: "unat (first_usable BlockSize) < 2 ^ 32"
    using usable_bounds(2) [of BlockSize] gpt_lbas_bounds [of "block_size bio"] bs by simp
  have code: "FormatFat ps bio BlockSize N d =
      do { (d1, st) \<leftarrow> write_boot_sectors ps bio BlockSize (first_usable BlockSize) P l d;
        if EFI_ERROR st then Some (d1, st)
        else do { (d2, st) \<leftarrow> write_fsinfo ps bio BlockSize (first_usable BlockSize) l d1;
          if EFI_ERROR st then Some (d2, st)
          else write_fats ps bio BlockSize (first_usable BlockSize) l d2 } }"
    using bs unfolding FormatFat_def Let_def P_def [symmetric] l_def [symmetric] by auto
  show ?thesis unfolding code
    by (rule leaves_weaken [OF leaves_bind [OF boot_leaves [OF assms(1) bs(1,2) lo]
        leaves_bind [OF fsinfo_leaves [OF _ bs(1,2) lo] fats_leaves [OF _ bs(1,2) lo]]]])
      (auto simp: lo_def with_fat_def fat_blocks_def)
qed

end

subsection \<open>The reader\<close>

text \<open>The bytes of a run of blocks.\<close>

definition read_run :: "(nat \<Rightarrow> bytes) \<Rightarrow> nat \<Rightarrow> nat \<Rightarrow> bytes" where
  "read_run m a n = concat (map m [a..<a + n])"

text \<open>
  An empty file system, by the FAT specification, in the \<open>P\<close> sectors from block \<open>lo\<close> on: the sizes of the boot
  sector are consistent, the number of clusters belongs to the type, the FATs have room for the clusters (for
  FAT32, for those of the information sector) and mark none as used but the root directory, and that is empty.
\<close>

definition empty_fat :: "nat \<Rightarrow> (nat \<Rightarrow> bytes) \<Rightarrow> nat \<Rightarrow> nat \<Rightarrow> bool" where
  "empty_fat bs m lo P \<longleftrightarrow>
     (let b = m lo; p = read_bpb b; F = fp_FATSz p; a = lo + fp_RsvdSecCnt p in
      le16 b 510 = 0xAA55 \<and> fp_BytsPerSec p = bs \<and> fp_TotSec p = P \<and> fp_NumFATs p = 2 \<and> 0 < fp_RsvdSecCnt p \<and>
      fp_SecPerClus p \<in> {1, 2, 4, 8, 16, 32, 64} \<and> first_data_sector p + fp_SecPerClus p \<le> P \<and>
      (case fat_type_of p of
         FAT12 \<Rightarrow> False
       | FAT16 \<Rightarrow> fp_RootEntCnt p = 512 \<and> (cluster_count p + 2) * 2 \<le> F * bs \<and>
           (\<forall>k < 2. read_run m (a + k * F) F = bytes16 0xFFF8 @ bytes16 0xFFFF @ zeros (F * bs - 4)) \<and>
           read_run m (a + 2 * F) (root_dir_sectors p) = zeros (root_dir_sectors p * bs)
       | FAT32 \<Rightarrow> fp_RootEntCnt p = 0 \<and> m (lo + 6) = b \<and>
           (let s = m (lo + 1); free = unat (le32 s 488) in
            le32 s 0 = 0x41615252 \<and> le32 s 484 = 0x61417272 \<and> le32 s 508 = 0xAA550000 \<and>
            free + 1 \<le> cluster_count p \<and> (free + 1 + 2) * 4 \<le> F * bs) \<and>
           (\<forall>k < 2. read_run m (a + k * F) F =
              bytes32 0x0FFFFFF8 @ bytes32 0x0FFFFFFF @ bytes32 0x0FFFFFFF @ zeros (F * bs - 12)) \<and>
           le32 b 44 = 2 \<and> read_run m (lo + first_data_sector p) (fp_SecPerClus p) = zeros (fp_SecPerClus p * bs)))"

lemma bpb_fields:
  assumes "length (JmpBoot b) = 3" and "length (OEMName b) = 8"
  shows "le16 (bpb_image b @ ys) 11 = BytsPerSec b" "(bpb_image b @ ys) ! 13 = SecPerClus b"
    "le16 (bpb_image b @ ys) 14 = RsvdSecCnt b" "(bpb_image b @ ys) ! 16 = NumFATs b"
    "le16 (bpb_image b @ ys) 17 = RootEntCnt b" "le16 (bpb_image b @ ys) 19 = TotSec16 b"
    "le16 (bpb_image b @ ys) 22 = FATSz16 b" "le32 (bpb_image b @ ys) 32 = TotSec32 b"
  using assms by (simp_all add: bpb_image_def fields del: append_Cons append_Nil) (simp_all)

lemma unat_ucast_small: "unat (w :: 'a::len word) < 2 ^ LENGTH('b) \<Longrightarrow> unat (ucast w :: 'b::len word) = unat w"
  by (simp add: unsigned_ucast_eq take_bit_nat_eq_self)

lemma length_ascii [simp]: "length (ascii s) = length s"
  by (simp add: ascii_def)

text \<open>The boot sectors, as they are read.\<close>

lemma fat16_boot_read:
  assumes l: "layout_ok bs (unat P) l" "\<not> fl_UseFat32 l" and P: "4152 \<le> unat P" "unat P < 2 ^ 32"
    and bs: "unat BlockSize = bs" "bs \<in> sector_sizes"
  shows "read_bpb (padded bs (boot_image BlockSize lo P l)) = \<lparr>fp_BytsPerSec = bs,
      fp_SecPerClus = unat (fl_SecPerClus l), fp_RsvdSecCnt = 1, fp_NumFATs = 2, fp_RootEntCnt = 512,
      fp_TotSec = unat P, fp_FATSz = unat (fl_FatSz l)\<rparr>"
    and "le16 (padded bs (boot_image BlockSize lo P l)) 510 = 0xAA55"
proof -
  define b where "b = fat16_boot_sector BlockSize lo P l"
  have j: "length (JmpBoot b) = 3" "length (OEMName b) = 8" by (simp_all add: b_def fat16_boot_sector_def)
  obtain ys where img: "padded bs (boot_image BlockSize lo P l) = bpb_image b @ ys"
    using l(2) by (simp add: boot_image_def fat16_image_def b_def padded_def)
  have F: "0 < unat (fl_FatSz l)" "unat (fl_FatSz l) < 2 ^ 16" "unat (fl_SecPerClus l) < 2 ^ 8" "fl_RsvdSecCnt l = 1"
    using l by (auto simp: layout_ok_def Let_def word_unat_eq_iff intro!: Nat.gr0I)
  have B: "unat BlockSize < 2 ^ 16" using bs by (auto simp: sector_sizes_def)
  have e: "unat (BytsPerSec b) = bs" "unat (SecPerClus b) = unat (fl_SecPerClus l)" "RsvdSecCnt b = 1" "NumFATs b = 2"
      "unat (RootEntCnt b) = 512" "unat (FATSz16 b) = unat (fl_FatSz l)"
    using F B bs by (simp_all add: b_def fat16_boot_sector_def unat_ucast_small FAT16_ROOT_ENTRY_COUNT_def)
  have t: "TotSec16 b = (if unat P \<le> 0xFFFF then ucast P else 0)" "TotSec32 b = (if unat P \<le> 0xFFFF then 0 else ucast P)"
    by (simp_all add: b_def fat16_boot_sector_def word_le_nat_alt)
  have t16: "unat (ucast P :: u16) = unat P" if "unat P \<le> 0xFFFF" using that by (simp add: unat_ucast_small)
  have t32: "unat (ucast P :: u32) = unat P" using P by (simp add: unat_ucast_small)
  have tot: "(if TotSec16 b \<noteq> 0 then unat (TotSec16 b) else unat (TotSec32 b)) = unat P"
    using t t16 t32 P(1) by (auto simp: word_unat_eq_iff)
  have sz: "FATSz16 b \<noteq> 0" using e(6) F(1) by auto
  show "read_bpb (padded bs (boot_image BlockSize lo P l)) = \<lparr>fp_BytsPerSec = bs,
      fp_SecPerClus = unat (fl_SecPerClus l), fp_RsvdSecCnt = 1, fp_NumFATs = 2, fp_RootEntCnt = 512,
      fp_TotSec = unat P, fp_FATSz = unat (fl_FatSz l)\<rparr>"
    unfolding img read_bpb_def bpb_fields [OF j] using e tot sz by simp
  show "le16 (padded bs (boot_image BlockSize lo P l)) 510 = 0xAA55"
    using l(2) by (simp add: boot_image_def fat16_image_def length_bpb padded_def fat16_boot_sector_def fields
        del: append_Cons append_Nil)
qed

lemma fat32_boot_read:
  assumes l: "unat (fl_SecPerClus l) < 2 ^ 8" "fl_UseFat32 l" "fl_RsvdSecCnt l = 32" and P: "unat P < 2 ^ 32"
    and bs: "unat BlockSize = bs" "bs \<in> sector_sizes"
  shows "read_bpb (padded bs (boot_image BlockSize lo P l)) = \<lparr>fp_BytsPerSec = bs,
      fp_SecPerClus = unat (fl_SecPerClus l), fp_RsvdSecCnt = 32, fp_NumFATs = 2, fp_RootEntCnt = 0,
      fp_TotSec = unat P, fp_FATSz = unat (fl_FatSz l)\<rparr>"
    and "le16 (padded bs (boot_image BlockSize lo P l)) 510 = 0xAA55"
    and "le32 (padded bs (boot_image BlockSize lo P l)) 44 = 2"
proof -
  define b where "b = fat32_boot_sector BlockSize lo P l"
  have j: "length (JmpBoot b) = 3" "length (OEMName b) = 8" by (simp_all add: b_def fat32_boot_sector_def)
  obtain ys where img: "padded bs (boot_image BlockSize lo P l) = bpb_image b @ bytes32 (FATSz32 b) @ ys"
    using l(2) by (simp add: boot_image_def fat32_image_def b_def padded_def)
  note F = l(1,3)
  have B: "unat BlockSize < 2 ^ 16" using bs by (auto simp: sector_sizes_def)
  have e: "unat (BytsPerSec b) = bs" "unat (SecPerClus b) = unat (fl_SecPerClus l)" "unat (RsvdSecCnt b) = 32" "NumFATs b = 2"
      "unat (RootEntCnt b) = 0" "FATSz16 b = 0" "FATSz32 b = fl_FatSz l" "TotSec16 b = 0" "unat (TotSec32 b) = unat P"
    using F B bs P by (simp_all add: b_def fat32_boot_sector_def unat_ucast_small)
  have sz: "le32 (bpb_image b @ bytes32 (FATSz32 b) @ ys) 36 = FATSz32 b"
    by (simp add: length_bpb j fields)
  show "read_bpb (padded bs (boot_image BlockSize lo P l)) = \<lparr>fp_BytsPerSec = bs,
      fp_SecPerClus = unat (fl_SecPerClus l), fp_RsvdSecCnt = 32, fp_NumFATs = 2, fp_RootEntCnt = 0,
      fp_TotSec = unat P, fp_FATSz = unat (fl_FatSz l)\<rparr>"
    unfolding img read_bpb_def bpb_fields [OF j] sz using e by simp
  show "le16 (padded bs (boot_image BlockSize lo P l)) 510 = 0xAA55" "le32 (padded bs (boot_image BlockSize lo P l)) 44 = 2"
    using l(2) by (simp_all add: boot_image_def fat32_image_def length_bpb padded_def fat32_boot_sector_def fields
        del: append_Cons append_Nil)
qed

lemma fsinfo_read:
  fixes l :: fat_layout and bs :: nat
  defines "s \<equiv> padded bs (fsinfo_image (fsinfo_for l))"
  shows "le32 s 0 = 0x41615252" "le32 s 484 = 0x61417272" "le32 s 488 = fl_TotalClusters l - 1" "le32 s 508 = 0xAA550000"
  by (simp_all add: s_def padded_def fsinfo_image_def fsinfo_for_def fields)

text \<open>The blocks of a good layout, one by one.\<close>

lemma layout_bounds:
  assumes "layout_ok bs P l" and "0 < bs"
  shows "1 \<le> unat (fl_RsvdSecCnt l)" and "fl_UseFat32 l \<Longrightarrow> unat (fl_RsvdSecCnt l) = 32" and "0 < unat (fl_FatSz l)"
    and "end_lba lo l \<le> lo + P" and "\<not> fl_UseFat32 l \<Longrightarrow> unat (fl_RsvdSecCnt l) = 1"
    and "\<not> fl_UseFat32 l \<Longrightarrow> unat (fl_RootDirSectors l) = gpt_lbas bs" and "fl_UseFat32 l \<Longrightarrow> unat (fl_RootDirSectors l) = 0"
  using assms by (auto simp: layout_ok_def Let_def end_lba_def lba_defs intro!: Nat.gr0I split: if_splits)

lemma with_fat_at:
  fixes m :: "nat \<Rightarrow> bytes" and boot :: bytes
  assumes "layout_ok bs P l" and "0 < bs" and "lo + P \<le> Suc k"
  defines "w \<equiv> with_fat k bs lo l boot m"
  shows "w lo = padded bs boot"
    and "fl_UseFat32 l \<Longrightarrow> w (lo + 6) = padded bs boot"
    and "fl_UseFat32 l \<Longrightarrow> w (lo + 1) = padded bs (fsinfo_image (fsinfo_for l))"
    and "w (fat_lba lo l) = padded bs (fat_head l)" and "w (fat2_lba lo l) = padded bs (fat_head l)"
    and "fat_lba lo l < x \<Longrightarrow> x < end_lba lo l \<Longrightarrow> x \<noteq> fat2_lba lo l \<Longrightarrow> w x = zeros bs"
proof -
  note b = layout_bounds [OF assms(1,2)]
  have "end_lba lo l \<le> Suc k" using b(4) [of lo] assms(3) by simp
  moreover have "root_lba lo l \<le> end_lba lo l" by (simp add: end_lba_def lba_defs)
  moreover have "fl_FatSz l \<noteq> 0" using b(3) by auto
  ultimately have k: "fat_lba lo l < fat2_lba lo l" "fat2_lba lo l < root_lba lo l" "root_lba lo l \<le> end_lba lo l"
      "end_lba lo l \<le> Suc k" "lo < fat_lba lo l" "fl_UseFat32 l \<Longrightarrow> lo + 7 < fat_lba lo l" "fl_FatSz l \<noteq> 0"
      "fat2_lba lo l + unat (fl_FatSz l) = root_lba lo l" "fl_UseFat32 l \<Longrightarrow> data_lba lo l = root_lba lo l"
    using b by (simp_all add: lba_defs)
  note d = w_def with_fat_def with_fats_def with_fsinfo_def with_boot_def Let_def put_block_def fill_blocks_def filled_def
  show "w lo = padded bs boot" using k by (simp add: d)
  show "fl_UseFat32 l \<Longrightarrow> w (lo + 6) = padded bs boot" using k by (simp add: d)
  show "fl_UseFat32 l \<Longrightarrow> w (lo + 1) = padded bs (fsinfo_image (fsinfo_for l))" using k by (simp add: d)
  show "w (fat_lba lo l) = padded bs (fat_head l)" using k by (simp add: d)
  show "w (fat2_lba lo l) = padded bs (fat_head l)" using k by (simp add: d)
  show "fat_lba lo l < x \<Longrightarrow> x < end_lba lo l \<Longrightarrow> x \<noteq> fat2_lba lo l \<Longrightarrow> w x = zeros bs"
    using k by (cases "fl_UseFat32 l") (simp_all add: d)
qed

lemma read_zeros: "(\<And>i. a \<le> i \<Longrightarrow> i < a + n \<Longrightarrow> m i = zeros bs) \<Longrightarrow> read_run m a n = zeros (n * bs)"
proof (induction n)
  case (Suc n)
  then show ?case by (simp add: read_run_def zeros_append add.commute)
qed (simp add: read_run_def)

lemma read_head:
  assumes "m a = padded bs h" and "\<And>i. a < i \<Longrightarrow> i < a + n \<Longrightarrow> m i = zeros bs" and "0 < n" and "length h \<le> bs"
  shows "read_run m a n = h @ zeros (n * bs - length h)"
proof -
  have "read_run m a n = m a @ read_run m (a + 1) (n - 1)"
    using assms(3) by (simp add: read_run_def upt_conv_Cons)
  also have "read_run m (a + 1) (n - 1) = zeros ((n - 1) * bs)" using assms(2,3) by (intro read_zeros) simp_all
  finally show ?thesis using assms(1,3,4)
    by (cases n) (simp_all add: padded_def zeros_append)
qed

lemma with_fat_read:
  assumes size: "size_ok bs (unat P)" and bs: "unat BlockSize = bs" and fit: "lo + unat P \<le> Suc k"
    and l: "l = fat_layout_for BlockSize P"
    and m: "\<And>x. x \<in> fat_blocks lo l \<Longrightarrow> m' x = with_fat k bs lo l (boot_image BlockSize first P l) m x"
  shows "empty_fat bs m' lo (unat P)"
proof -
  have ok: "layout_ok bs (unat P) l" using layout_for_ok [of BlockSize P] size bs l by simp
  have s: "bs \<in> sector_sizes" "4152 \<le> unat P" "unat P < 2 ^ 32" using size by (simp_all add: size_ok_def)
  then have b0: "0 < bs" "12 \<le> bs" by (auto simp: sector_sizes_def)
  let ?boot = "boot_image BlockSize first P l" and ?S = "unat (fl_SecPerClus l)" and ?F = "unat (fl_FatSz l)"
  let ?a = "fat_lba lo l" and ?b = "fat2_lba lo l"
  note bd = layout_bounds [OF ok b0(1)]
  note w = with_fat_at [OF ok b0(1) fit, where boot = ?boot and m = m]
  have in_blocks: "lo \<in> fat_blocks lo l" "?a \<in> fat_blocks lo l" "?b \<in> fat_blocks lo l"
      "x \<in> fat_blocks lo l" if "?a \<le> x" "x < end_lba lo l" for x using that by (simp_all add: fat_blocks_def)
  have at: "m' lo = padded bs ?boot" "m' ?a = padded bs (fat_head l)" "m' ?b = padded bs (fat_head l)"
    using w(1,4,5) by (simp_all add: m fat_blocks_def)
  have z: "m' x = zeros bs" if "?a < x" "x < end_lba lo l" "x \<noteq> ?b" for x
    using w(6) [OF that] m [of x] that by (simp add: fat_blocks_def)
  have ab: "?b = ?a + ?F" "root_lba lo l = ?b + ?F" "root_lba lo l \<le> data_lba lo l" "data_lba lo l \<le> end_lba lo l"
      "data_lba lo l = root_lba lo l + unat (fl_RootDirSectors l)"
    by (simp_all add: lba_defs end_lba_def)
  have fats: "\<forall>k < 2. read_run m' (?a + k * ?F) ?F = fat_head l @ zeros (?F * bs - length (fat_head l))"
  proof (intro allI impI)
    fix k :: nat assume "k < 2"
    then consider "k = 0" | "k = 1" by linarith
    then show "read_run m' (?a + k * ?F) ?F = fat_head l @ zeros (?F * bs - length (fat_head l))"
    proof cases
      case 1
      then show ?thesis using at(2) z ab bd(3) b0 length_fat_head [of l] by (intro read_head) simp_all
    next
      case 2
      then show ?thesis using at(3) z ab bd(3) b0 length_fat_head [of l] by (intro read_head) simp_all
    qed
  qed
  have roots: "read_run m' (root_lba lo l) n = zeros (n * bs)" if "root_lba lo l + n \<le> end_lba lo l" for n
    using z ab bd(3) that by (intro read_zeros) simp_all
  show ?thesis
  proof (cases "fl_UseFat32 l")
    case True
    have "unat (fl_SecPerClus l) < 2 ^ 8" "fl_RsvdSecCnt l = 32"
      using ok True by (auto simp: layout_ok_def Let_def word_unat_eq_iff)
    note r = fat32_boot_read [OF this(1) True this(2) s(3) bs s(1), of first]
    have c: "root_dir_sectors (read_bpb (padded bs ?boot)) = 0"
        "first_data_sector (read_bpb (padded bs ?boot)) = 32 + 2 * ?F"
        "cluster_count (read_bpb (padded bs ?boot)) = (unat P - (32 + 2 * ?F)) div ?S"
      using b0 by (simp_all add: r(1) root_dir_sectors_def first_data_sector_def cluster_count_def)
    have lay: "65525 \<le> (unat P - (32 + 2 * ?F)) div ?S" "65524 \<le> unat (fl_TotalClusters l)"
        "unat (fl_TotalClusters l) \<le> (unat P - (32 + 2 * ?F)) div ?S" "(unat (fl_TotalClusters l) + 2) * 4 \<le> ?F * bs"
        "?S \<in> {1, 2, 4, 8, 16, 32, 64}" "32 + 2 * ?F + ?S \<le> unat P"
      using ok bd(2,7) True by (simp_all add: layout_ok_def Let_def)
    have ty: "fat_type_of (read_bpb (padded bs ?boot)) = FAT32" using lay by (simp add: fat_type_of_def c)
    have info: "m' (lo + 1) = padded bs (fsinfo_image (fsinfo_for l))" "m' (lo + 6) = padded bs ?boot"
      using w(2,3) True by (simp_all add: m fat_blocks_def)
    have free: "unat (fl_TotalClusters l - 1) + 1 = unat (fl_TotalClusters l)"
      using lay(2) by (subst unat_minus_one) auto
    have head: "fat_head l = bytes32 0x0FFFFFF8 @ bytes32 0x0FFFFFFF @ bytes32 0x0FFFFFFF" "length (fat_head l) = 12"
      using True by (simp_all add: fat_head_def)
    have root: "read_run m' (lo + (32 + 2 * ?F)) ?S = zeros (?S * bs)"
    proof -
      have "lo + (32 + 2 * ?F) = root_lba lo l" using bd(2) True by (simp add: lba_defs)
      moreover have "root_lba lo l + ?S = end_lba lo l" using bd(7) True by (simp add: lba_defs end_lba_def)
      ultimately show ?thesis using roots [of ?S] by (simp only: order_refl)
    qed
    show ?thesis unfolding empty_fat_def Let_def at ty info
      using c lay free fats head root bd(2) True r by (simp add: fsinfo_read fat_lba_def del: append_assoc)
  next
    case False
    note r = fat16_boot_read [OF ok False s(2,3) bs s(1), of first]
    have g: "root_dir_sectors (read_bpb (padded bs ?boot)) = gpt_lbas bs"
      using s(1) by (auto simp: r(1) root_dir_sectors_def gpt_lbas_def block_count_def)
    then have c: "first_data_sector (read_bpb (padded bs ?boot)) = 1 + 2 * ?F + gpt_lbas bs"
        "cluster_count (read_bpb (padded bs ?boot)) = (unat P - (1 + 2 * ?F + gpt_lbas bs)) div ?S"
      by (simp_all add: r(1) first_data_sector_def cluster_count_def)
    let ?c = "(unat P - (1 + 2 * ?F + gpt_lbas bs)) div ?S"
    have lay: "4085 \<le> ?c" "?c < 65525" "(?c + 2) * 2 \<le> ?F * bs" "?S \<in> {1, 2, 4, 8, 16, 32, 64}"
        "1 + 2 * ?F + gpt_lbas bs + ?S \<le> unat P"
      using ok bd(5,6) False by (simp_all add: layout_ok_def Let_def)
    have ty: "fat_type_of (read_bpb (padded bs ?boot)) = FAT16" using lay by (simp add: fat_type_of_def c)
    have head: "fat_head l = bytes16 0xFFF8 @ bytes16 0xFFFF" "length (fat_head l) = 4"
      using False by (simp_all add: fat_head_def)
    have root: "read_run m' (?a + 2 * ?F) (gpt_lbas bs) = zeros (gpt_lbas bs * bs)"
      using roots [of "gpt_lbas bs"] bd(6) False by (simp add: end_lba_def lba_defs add.assoc mult_2)
    show ?thesis unfolding empty_fat_def Let_def at ty
      using c lay fats head root bd(5) False r g by (simp add: fat_lba_def)
  qed
qed

end
