(* ===== verification/FormatApp.thy ===== *)
theory FormatApp
  imports FormatFat
begin

text \<open>
  The rest of \<open>Application/FormatBlockApp/FormatBlockApp.c\<close>: \<open>FormatBlockDevice\<close>, the RAM disk and the entry
  point. The boot services, the RAM disk protocol and the two string conversions of the base library are
  parameters.
\<close>

unbundle bit_operations_syntax

record ('d, 'p) app_services =
  as_Pool :: "'d pool_services"
  as_OpenBlockIo :: "u64 \<Rightarrow> 'd \<Rightarrow> efi_status \<times> 'd efi_block_io"
  as_DisconnectController :: "u64 \<Rightarrow> 'd \<Rightarrow> 'd \<times> efi_status"
  as_ConnectController :: "u64 \<Rightarrow> 'd \<Rightarrow> 'd \<times> efi_status"
  as_LocateRamDisk :: "'d \<Rightarrow> efi_status"
  as_AllocatePages :: "u64 \<Rightarrow> 'd \<Rightarrow> 'd \<times> efi_status \<times> u64"
  as_FreePages :: "u64 \<Rightarrow> u64 \<Rightarrow> 'd \<Rightarrow> 'd \<times> efi_status"
  as_ZeroMem :: "u64 \<Rightarrow> u64 \<Rightarrow> 'd \<Rightarrow> 'd"
  as_Register :: "u64 \<Rightarrow> u64 \<Rightarrow> 'd \<Rightarrow> 'd \<times> efi_status \<times> 'p"
  as_LocateDevicePath :: "'p \<Rightarrow> 'd \<Rightarrow> efi_status \<times> u64"
  as_StrDecimalToUintnS :: "u16 list \<Rightarrow> efi_status \<times> u64"
  as_StrHexToUintnS :: "u16 list \<Rightarrow> efi_status \<times> u64"

definition FormatBlockDevice :: "('d, 'p) app_services \<Rightarrow> u64 \<Rightarrow> 'd \<Rightarrow> ('d \<times> efi_status) option" where
  "FormatBlockDevice bs TargetHandle d =
     (let (Status, BlockIo) = as_OpenBlockIo bs TargetHandle d;
          BlockSize = bm_BlockSize (bio_Media BlockIo);
          TotalBlocks = bm_LastBlock (bio_Media BlockIo) + 1 in
      if EFI_ERROR Status then Some (d, Status)
      else if bm_ReadOnly (bio_Media BlockIo) then Some (d, EFI_WRITE_PROTECTED)
      else if BlockSize < 512 then Some (d, EFI_UNSUPPORTED)
      else do {
        (d1, Status) \<leftarrow> WriteProtectiveMbr (as_Pool bs) BlockIo BlockSize TotalBlocks d;
        if EFI_ERROR Status then Some (d1, Status)
        else do {
          (d2, Status) \<leftarrow> WriteGpt (as_Pool bs) BlockIo BlockSize TotalBlocks d1;
          if EFI_ERROR Status then Some (d2, Status)
          else do {
            (d3, Status) \<leftarrow> FormatFat (as_Pool bs) BlockIo BlockSize TotalBlocks d2;
            if EFI_ERROR Status then Some (d3, Status)
            else do {
              let d4 = fst (bio_FlushBlocks BlockIo d3);
              let d5 = fst (as_DisconnectController bs TargetHandle d4);
              Some (fst (as_ConnectController bs TargetHandle d5), EFI_SUCCESS)
            }
          }
        }
      })"

definition CreateAndFormatRamDisk :: "('d, 'p) app_services \<Rightarrow> u64 \<Rightarrow> 'd \<Rightarrow> ('d \<times> efi_status) option" where
  "CreateAndFormatRamDisk bs SizeMB d =
     (if SizeMB < 34 then Some (d, EFI_INVALID_PARAMETER)
      else if EFI_ERROR (as_LocateRamDisk bs d) then Some (d, as_LocateRamDisk bs d)
      else let RamSize = SizeMB * 1024 * 1024;
               NumPages = EFI_SIZE_TO_PAGES RamSize;
               (d1, Status, RamBase) = as_AllocatePages bs NumPages d in
        if EFI_ERROR Status then Some (d1, Status)
        else let d2 = as_ZeroMem bs RamBase RamSize d1;
                 (d3, Status, DevicePath) = as_Register bs RamBase RamSize d2 in
          if EFI_ERROR Status then Some (fst (as_FreePages bs RamBase NumPages d3), Status)
          else let (Status, BlockHandle) = as_LocateDevicePath bs DevicePath d3 in
            if EFI_ERROR Status then Some (d3, Status)
            else do {
              (d4, Status) \<leftarrow> FormatBlockDevice bs BlockHandle d3;
              if EFI_ERROR Status then Some (d4, Status) else Some (d4, EFI_SUCCESS)
            })"

text \<open>The status and the arguments are those of the shell parameters protocol.\<close>

definition FormatBlockAppEntry ::
    "('d, 'p) app_services \<Rightarrow> efi_status \<Rightarrow> u16 list list \<Rightarrow> 'd \<Rightarrow> ('d \<times> efi_status) option" where
  "FormatBlockAppEntry bs params Argv d =
     (if EFI_ERROR params then Some (d, params)
      else if length Argv < 2 then Some (d, EFI_INVALID_PARAMETER)
      else if wide_eq (Argv ! 1) (wide ''ramdisk'') then
        if length Argv \<noteq> 3 then Some (d, EFI_INVALID_PARAMETER)
        else let (Status, SizeMB) = as_StrDecimalToUintnS bs (Argv ! 2) in
          if EFI_ERROR Status \<or> SizeMB = 0 then Some (d, EFI_INVALID_PARAMETER)
          else CreateAndFormatRamDisk bs SizeMB d
      else let (Status, HandleValue) = as_StrHexToUintnS bs (Argv ! 1) in
        if EFI_ERROR Status \<or> HandleValue = 0 then Some (d, EFI_INVALID_PARAMETER)
        else do {
          (d1, Status) \<leftarrow> FormatBlockDevice bs HandleValue d;
          if EFI_ERROR Status then Some (d1, Status) else Some (d1, EFI_SUCCESS)
        })"

end
