(* ===== verification/FormatDevice.thy ===== *)
theory FormatDevice
  imports FormatVolume FormatApp
begin

text \<open>
  A model of a block device with a pool, any of whose writes and allocations may fail, as an instance of the
  contract \<open>block_store\<close>; and the properties of \<open>Application/FormatBlockApp\<close> on it.
\<close>

unbundle bit_operations_syntax

subsection \<open>The protective MBR\<close>

definition mbr_ok :: "nat \<Rightarrow> bytes \<Rightarrow> bool" where
  "mbr_ok n b \<longleftrightarrow> le16 b 510 = 0xAA55 \<and> b ! 450 = 0xEE \<and> le32 b 454 = 1 \<and>
     unat (le32 b 458) = min (n - 1) 0xFFFFFFFF \<and> take 48 (drop 462 b) = zeros 48"

lemma mbr_read:
  assumes "0 < unat N" and "512 \<le> bs"
  shows "mbr_ok (unat N) (padded bs (mbr_image (protective_mbr N)))"
proof -
  have "N \<noteq> 0" using assms(1) by auto
  then have n: "unat (N - 1) = unat N - 1" by (rule unat_minus_one)
  then have "unat (if 0xFFFFFFFF < N - 1 then 0xFFFFFFFF else ucast (N - 1) :: u32) = min (unat N - 1) 0xFFFFFFFF"
    by (auto simp: word_less_nat_alt unat_ucast_small)
  moreover have "concat (replicate 3 (zeros 16)) = zeros 48"
    by (simp add: numeral_3_eq_3 zeros_append)
  ultimately show ?thesis
    unfolding mbr_ok_def by (simp add: mbr_image_def protective_mbr_def Let_def mbr_partition_image_def padded_def fields
        del: append_Cons append_Nil) simp
qed

context block_store begin

lemma mbr_leaves:
  assumes "sv_ready V d" and bs: "unat BlockSize = block_size bio" "512 \<le> block_size bio"
  shows "leaves V True True {0} (\<lambda>m. m(0 := padded (block_size bio) (mbr_image (protective_mbr N))))
    (WriteProtectiveMbr ps bio BlockSize N d) d"
proof -
  let ?b = "padded (block_size bio) (mbr_image (protective_mbr N))"
  have len: "length ?b = block_size bio" using bs(2) by (simp add: length_mbr_image)
  have code: "WriteProtectiveMbr ps bio BlockSize N d = with_buffer ps (ucast BlockSize) (\<lambda>d. Some (write_block bio 0 ?b d)) d"
    using bs by (simp add: WriteProtectiveMbr_def in_block_padded length_mbr_image)
  show ?thesis unfolding code by (rule leaves_weaken [OF buffered [OF assms(1) writes [OF _ len]]]) simp_all
qed

end

subsection \<open>The device\<close>

text \<open>The blocks, the buffers in use and the next name for one, and the number of operations so far.\<close>

record disk_state =
  ds_blocks :: "nat \<Rightarrow> bytes"
  ds_pool :: "nat set"
  ds_next :: nat
  ds_time :: nat

text \<open>
  The medium; whether the operation at a time fails, and what a failing write leaves in its block; whether the
  pool is exhausted at a time.
\<close>

record disk_model =
  dm_Media :: efi_block_io_media
  dm_fails :: "nat \<Rightarrow> u64 \<Rightarrow> bool"
  dm_torn :: "nat \<Rightarrow> bytes"
  dm_denied :: "nat \<Rightarrow> bool"

definition disk_write :: "disk_model \<Rightarrow> u32 \<Rightarrow> u64 \<Rightarrow> bytes \<Rightarrow> disk_state \<Rightarrow> disk_state \<times> efi_status" where
  "disk_write dm Medium Lba b d =
     (let t = ds_time d; d1 = d\<lparr>ds_time := t + 1\<rparr> in
      if bm_ReadOnly (dm_Media dm) then (d1, EFI_WRITE_PROTECTED)
      else if Medium \<noteq> bm_MediaId (dm_Media dm) then (d1, EFI_MEDIA_CHANGED)
      else if length b \<noteq> unat (bm_BlockSize (dm_Media dm)) then (d1, EFI_BAD_BUFFER_SIZE)
      else if bm_LastBlock (dm_Media dm) < Lba then (d1, EFI_INVALID_PARAMETER)
      else if dm_fails dm t Lba then (d1\<lparr>ds_blocks := (ds_blocks d)(unat Lba := dm_torn dm t)\<rparr>, EFI_DEVICE_ERROR)
      else (d1\<lparr>ds_blocks := (ds_blocks d)(unat Lba := b)\<rparr>, EFI_SUCCESS))"

definition disk_bio :: "disk_model \<Rightarrow> disk_state efi_block_io" where
  "disk_bio dm = \<lparr>bio_Media = dm_Media dm, bio_WriteBlocks = disk_write dm,
     bio_FlushBlocks = (\<lambda>d. (d\<lparr>ds_time := ds_time d + 1\<rparr>, EFI_SUCCESS))\<rparr>"

definition disk_alloc :: "disk_model \<Rightarrow> u64 \<Rightarrow> disk_state \<Rightarrow> disk_state \<times> nat option" where
  "disk_alloc dm n d =
     (let d1 = d\<lparr>ds_time := ds_time d + 1\<rparr> in
      if dm_denied dm (ds_time d) then (d1, None)
      else (d1\<lparr>ds_pool := insert (ds_next d) (ds_pool d), ds_next := ds_next d + 1\<rparr>, Some (ds_next d)))"

definition disk_pool :: "disk_model \<Rightarrow> (bytes \<Rightarrow> u32) \<Rightarrow> disk_state pool_services" where
  "disk_pool dm crc = \<lparr>ps_AllocateZeroPool = disk_alloc dm,
     ps_FreePool = (\<lambda>a d. d\<lparr>ds_pool := ds_pool d - {a}\<rparr>), ps_CalculateCrc32 = crc\<rparr>"

definition disk_ready :: "disk_state \<Rightarrow> bool" where
  "disk_ready d \<longleftrightarrow> (\<forall>a \<in> ds_pool d. a < ds_next d)"

text \<open>Nothing fails.\<close>

definition disk_live :: "disk_model \<Rightarrow> bool" where
  "disk_live dm \<longleftrightarrow> \<not> bm_ReadOnly (dm_Media dm) \<and> (\<forall>t Lba. \<not> dm_fails dm t Lba) \<and> (\<forall>t. \<not> dm_denied dm t)"

definition disk_view :: "disk_model \<Rightarrow> disk_state store_view" where
  "disk_view dm = \<lparr>sv_disk = ds_blocks, sv_pool = ds_pool, sv_ready = disk_ready, sv_live = disk_live dm\<rparr>"

lemma disk_bio_simps [simp]:
  "bio_Media (disk_bio dm) = dm_Media dm" "bio_FlushBlocks (disk_bio dm) d = (d\<lparr>ds_time := ds_time d + 1\<rparr>, EFI_SUCCESS)"
  "ps_CalculateCrc32 (disk_pool dm crc) = crc"
  by (simp_all add: disk_bio_def disk_pool_def)

lemma disk_view_simps [simp]:
  "sv_disk (disk_view dm) = ds_blocks" "sv_pool (disk_view dm) = ds_pool" "sv_ready (disk_view dm) = disk_ready"
  "sv_live (disk_view dm) = disk_live dm"
  by (simp_all add: disk_view_def)

interpretation device: block_store "disk_pool dm crc" "disk_bio dm" "disk_view dm" for dm crc
proof
  fix d :: disk_state and b :: bytes and Lba :: u64
  assume "sv_ready (disk_view dm) d" "length b = block_size (disk_bio dm)"
  then show "leaves (disk_view dm) True (unat Lba \<le> last_block (disk_bio dm)) {unat Lba} (\<lambda>m. m(unat Lba := b))
      (Some (write_block (disk_bio dm) Lba b d)) d"
    by (auto simp: leaves_def write_block_def disk_bio_def disk_write_def Let_def block_size_def last_block_def
        word_less_nat_alt disk_ready_def disk_live_def)
next
  fix d :: disk_state and b :: bytes and Lba :: u64
  assume "sv_ready (disk_view dm) d" "length b = block_size (disk_bio dm)" "last_block (disk_bio dm) < unat Lba"
  then show "sv_disk (disk_view dm) (fst (write_block (disk_bio dm) Lba b d)) = sv_disk (disk_view dm) d"
    by (auto simp: write_block_def disk_bio_def disk_write_def Let_def last_block_def word_less_nat_alt)
next
  fix d d' :: disk_state and n r
  assume "sv_ready (disk_view dm) d" "ps_AllocateZeroPool (disk_pool dm crc) n d = (d', r)"
  then show "sv_ready (disk_view dm) d' \<and> sv_disk (disk_view dm) d' = sv_disk (disk_view dm) d \<and>
      (case r of None \<Rightarrow> \<not> sv_live (disk_view dm) \<and> sv_pool (disk_view dm) d' = sv_pool (disk_view dm) d
       | Some a \<Rightarrow> a \<notin> sv_pool (disk_view dm) d \<and> sv_pool (disk_view dm) d' = insert a (sv_pool (disk_view dm) d))"
    by (auto simp: disk_pool_def disk_alloc_def Let_def disk_ready_def disk_live_def less_Suc_eq split: if_splits)
qed (auto simp: disk_pool_def disk_ready_def)

subsection \<open>Formatting a device\<close>

text \<open>
  The services give this device for a handle and this pool; disconnecting and connecting the controllers, which
  read the new layout, changes no block and keeps no buffer.
\<close>

definition keeps_disk :: "(disk_state \<Rightarrow> disk_state \<times> efi_status) \<Rightarrow> bool" where
  "keeps_disk f \<longleftrightarrow> (\<forall>d. ds_blocks (fst (f d)) = ds_blocks d \<and> ds_pool (fst (f d)) = ds_pool d)"

definition serves :: "(disk_state, 'p) app_services \<Rightarrow> u64 \<Rightarrow> disk_model \<Rightarrow> (bytes \<Rightarrow> u32) \<Rightarrow> bool" where
  "serves bs h dm crc \<longleftrightarrow> as_Pool bs = disk_pool dm crc \<and> (\<forall>d. as_OpenBlockIo bs h d = (EFI_SUCCESS, disk_bio dm)) \<and>
     keeps_disk (as_DisconnectController bs h) \<and> keeps_disk (as_ConnectController bs h)"

text \<open>The sizes of a device: the bytes of a block, the blocks, and the sectors of the partition.\<close>

definition dev_bs :: "disk_model \<Rightarrow> nat" where "dev_bs dm = unat (bm_BlockSize (dm_Media dm))"
definition dev_blocks :: "disk_model \<Rightarrow> nat" where "dev_blocks dm = unat (bm_LastBlock (dm_Media dm)) + 1"
definition dev_start :: "disk_model \<Rightarrow> nat" where "dev_start dm = 2 + gpt_lbas (dev_bs dm)"
definition dev_sectors :: "disk_model \<Rightarrow> nat" where "dev_sectors dm = dev_blocks dm - 3 - 2 * gpt_lbas (dev_bs dm)"

lemmas dev_defs = dev_bs_def dev_blocks_def dev_start_def dev_sectors_def

lemma device_sizes:
  assumes "dev_blocks dm < 2 ^ 64"
  shows "block_size (disk_bio dm) = dev_bs dm" "last_block (disk_bio dm) + 1 = dev_blocks dm"
    "unat (bm_LastBlock (dm_Media dm) + 1) = dev_blocks dm"
  using assms unat_add_of_nat [of "bm_LastBlock (dm_Media dm)" 1]
  by (simp_all add: block_size_def last_block_def dev_defs)

lemma device_partition:
  assumes "92 \<le> dev_bs dm" "dev_bs dm < 2 ^ 31" and "dev_blocks dm < 2 ^ 64" and "2 * gpt_lbas (dev_bs dm) + 5 \<le> dev_blocks dm"
  defines "lo \<equiv> first_usable (bm_BlockSize (dm_Media dm))"
    and "hi \<equiv> last_usable (bm_BlockSize (dm_Media dm)) (bm_LastBlock (dm_Media dm) + 1)"
  shows "unat lo = dev_start dm" and "unat (hi - lo + 1) = dev_sectors dm"
    and "dev_start dm + dev_sectors dm + gpt_lbas (dev_bs dm) + 1 = dev_blocks dm"
proof -
  note u = usable_bounds [of "bm_BlockSize (dm_Media dm)", folded dev_bs_def, OF assms(1,2)]
  have h: "unat hi = dev_blocks dm - 2 - gpt_lbas (dev_bs dm)"
    using u(4) [of "bm_LastBlock (dm_Media dm) + 1"] assms(4) by (simp add: hi_def device_sizes(3) [OF assms(3)])
  show lo: "unat lo = dev_start dm" using u(2) by (simp add: lo_def dev_start_def)
  have "unat (hi - lo) = unat hi - unat lo"
    using h lo assms(4) by (simp add: unat_sub word_le_nat_alt dev_start_def)
  then show "unat (hi - lo + 1) = dev_sectors dm"
    using unat_add_of_nat [of "hi - lo" 1] h lo assms(3,4) by (simp add: dev_start_def dev_sectors_def)
  show "dev_start dm + dev_sectors dm + gpt_lbas (dev_bs dm) + 1 = dev_blocks dm"
    using assms(4) by (simp add: dev_start_def dev_sectors_def)
qed

lemma fat_blocks_within:
  assumes "layout_ok bs P l" and "0 < bs"
  shows "fat_blocks lo l \<subseteq> {lo..<lo + P}"
proof -
  note b = layout_bounds [OF assms]
  have "fat_lba lo l \<le> fat2_lba lo l" "fat2_lba lo l < end_lba lo l" "fat_lba lo l < end_lba lo l" "lo < fat_lba lo l" "fl_UseFat32 l \<Longrightarrow> lo + 7 < fat_lba lo l"
    using b(1,3) b(2) by (auto simp: lba_defs end_lba_def)
  then show ?thesis using b(4) [of lo] by (auto simp: fat_blocks_def split: if_splits)
qed

text \<open>The three steps that write, on any device.\<close>

lemma device_steps:
  assumes "disk_ready d" and "92 \<le> dev_bs dm" "512 \<le> dev_bs dm" "dev_bs dm < 2 ^ 31" "dev_blocks dm < 2 ^ 64"
  defines "BlockSize \<equiv> bm_BlockSize (dm_Media dm)" and "N \<equiv> bm_LastBlock (dm_Media dm) + 1"
  defines "lo \<equiv> first_usable BlockSize" and "P \<equiv> last_usable BlockSize N - first_usable BlockSize + 1"
  defines "l \<equiv> fat_layout_for BlockSize P"
  shows "leaves (disk_view dm) True True {0} (\<lambda>m. m(0 := padded (dev_bs dm) (mbr_image (protective_mbr N))))
      (WriteProtectiveMbr (disk_pool dm crc) (disk_bio dm) BlockSize N d) d"
    and "leaves (disk_view dm) True (2 * gpt_lbas (dev_bs dm) + 5 \<le> dev_blocks dm)
      (if 2 * gpt_lbas (dev_bs dm) + 5 \<le> dev_blocks dm then table_blocks (dev_bs dm) (dev_blocks dm) else UNIV)
      (with_tables crc (dev_bs dm) (dev_blocks dm)) (WriteGpt (disk_pool dm crc) (disk_bio dm) BlockSize N d) d"
    and "leaves (disk_view dm) False
      (dev_start dm < dev_blocks dm \<and> (fl_UseFat32 l \<longrightarrow> dev_start dm + 6 < dev_blocks dm)) (fat_blocks (dev_start dm) l)
      (with_fat (dev_blocks dm - 1) (dev_bs dm) (dev_start dm) l (boot_image BlockSize lo P l))
      (FormatFat (disk_pool dm crc) (disk_bio dm) BlockSize N d) d"
proof -
  note sz = device_sizes [OF assms(5)]
  have r: "sv_ready (disk_view dm) d" using assms(1) by simp
  have bs: "unat BlockSize = block_size (disk_bio dm)" "512 \<le> block_size (disk_bio dm)" "92 \<le> block_size (disk_bio dm)"
      "block_size (disk_bio dm) < 2 ^ 31"
    using assms(2-4) sz(1) by (simp_all add: BlockSize_def dev_bs_def)
  have N: "unat N = last_block (disk_bio dm) + 1" using sz(2,3) by (simp add: N_def)
  show "leaves (disk_view dm) True True {0} (\<lambda>m. m(0 := padded (dev_bs dm) (mbr_image (protective_mbr N))))
      (WriteProtectiveMbr (disk_pool dm crc) (disk_bio dm) BlockSize N d) d"
    using device.mbr_leaves [OF r bs(1,2), where crc = crc and N = N] by (simp add: sz(1))
  show "leaves (disk_view dm) True (2 * gpt_lbas (dev_bs dm) + 5 \<le> dev_blocks dm)
      (if 2 * gpt_lbas (dev_bs dm) + 5 \<le> dev_blocks dm then table_blocks (dev_bs dm) (dev_blocks dm) else UNIV)
      (with_tables crc (dev_bs dm) (dev_blocks dm)) (WriteGpt (disk_pool dm crc) (disk_bio dm) BlockSize N d) d"
    using device.WriteGpt_leaves [OF r bs(1,3,4) N, where crc = crc] unfolding sz disk_bio_simps .
  have s: "unat (first_usable BlockSize) = dev_start dm"
    using usable_bounds(2) [of BlockSize] assms(2-4) by (simp add: BlockSize_def dev_defs)
  have k: "last_block (disk_bio dm) = dev_blocks dm - 1" using sz(2) by simp
  have "x \<le> last_block (disk_bio dm) \<longleftrightarrow> x < dev_blocks dm" for x using sz(2) by auto
  then show "leaves (disk_view dm) False
      (dev_start dm < dev_blocks dm \<and> (fl_UseFat32 l \<longrightarrow> dev_start dm + 6 < dev_blocks dm)) (fat_blocks (dev_start dm) l)
      (with_fat (dev_blocks dm - 1) (dev_bs dm) (dev_start dm) l (boot_image BlockSize lo P l))
      (FormatFat (disk_pool dm crc) (disk_bio dm) BlockSize N d) d"
    using device.FormatFat_leaves [OF r bs(1,2,4), where crc = crc and N = N] unfolding s sz(1) k [symmetric] lo_def P_def l_def by simp
qed

text \<open>A device the application accepts, step by step: where it stops, what it has written.\<close>

lemma format_run:
  assumes "serves bs h dm crc" and "\<not> bm_ReadOnly (dm_Media dm)" and "512 \<le> dev_bs dm"
  defines "BlockSize \<equiv> bm_BlockSize (dm_Media dm)" and "N \<equiv> bm_LastBlock (dm_Media dm) + 1"
  shows "FormatBlockDevice bs h d = do {
    (d1, st) \<leftarrow> WriteProtectiveMbr (disk_pool dm crc) (disk_bio dm) BlockSize N d;
    if EFI_ERROR st then Some (d1, st)
    else do { (d2, st) \<leftarrow> WriteGpt (disk_pool dm crc) (disk_bio dm) BlockSize N d1;
      if EFI_ERROR st then Some (d2, st)
      else do { (d3, st) \<leftarrow> FormatFat (disk_pool dm crc) (disk_bio dm) BlockSize N d2;
        if EFI_ERROR st then Some (d3, st)
        else Some (fst (as_ConnectController bs h (fst (as_DisconnectController bs h
          (d3\<lparr>ds_time := ds_time d3 + 1\<rparr>)))), EFI_SUCCESS) } } }"
proof -
  have "\<not> BlockSize < 512" using assms(3) by (simp add: BlockSize_def dev_bs_def word_less_nat_alt)
  then show ?thesis using assms(1,2) by (simp add: FormatBlockDevice_def serves_def BlockSize_def N_def Let_def cong: if_cong)
qed


end
