(* ===== verification/FormatDisks.thy ===== *)
theory FormatDisks
  imports FormatDevice
begin

text \<open>
  More properties of \<open>Application/FormatBlockApp\<close>: the partition tables on a device that fails, the application
  as a whole, devices too small for the layout and the limits of the FAT sizes; and the instances that show
  that the hypotheses can hold.
\<close>

unbundle bit_operations_syntax

subsection \<open>A disk of 64 MB\<close>

definition ex_medium :: "u64 \<Rightarrow> efi_block_io_media" where
  "ex_medium k = \<lparr>bm_MediaId = 7, bm_ReadOnly = False, bm_BlockSize = 512, bm_LastBlock = k\<rparr>"

definition ex_disk :: "u64 \<Rightarrow> disk_model" where
  "ex_disk k = \<lparr>dm_Media = ex_medium k, dm_fails = (\<lambda>t Lba. False), dm_torn = (\<lambda>t. []), dm_denied = (\<lambda>t. False)\<rparr>"

definition ex_blocks :: disk_state where
  "ex_blocks = \<lparr>ds_blocks = (\<lambda>_. zeros 512), ds_pool = {}, ds_next = 0, ds_time = 0\<rparr>"

definition ex_services :: "u64 \<Rightarrow> (bytes \<Rightarrow> u32) \<Rightarrow> (disk_state, unit) app_services" where
  "ex_services k crc = \<lparr>as_Pool = disk_pool (ex_disk k) crc, as_OpenBlockIo = (\<lambda>h d. (EFI_SUCCESS, disk_bio (ex_disk k))),
     as_DisconnectController = (\<lambda>h d. (d, EFI_SUCCESS)), as_ConnectController = (\<lambda>h d. (d, EFI_NOT_FOUND)),
     as_LocateRamDisk = (\<lambda>d. EFI_NOT_FOUND), as_AllocatePages = (\<lambda>n d. (d, EFI_OUT_OF_RESOURCES, 0)),
     as_FreePages = (\<lambda>a n d. (d, EFI_SUCCESS)), as_ZeroMem = (\<lambda>a n d. d),
     as_Register = (\<lambda>a n d. (d, EFI_UNSUPPORTED, ())), as_LocateDevicePath = (\<lambda>p d. (EFI_NOT_FOUND, 0)),
     as_StrDecimalToUintnS = (\<lambda>s. (EFI_UNSUPPORTED, 0)), as_StrHexToUintnS = (\<lambda>s. (EFI_SUCCESS, 90))\<rparr>"

lemma ex_serves: "serves (ex_services k crc) h (ex_disk k) crc"
  by (simp add: serves_def ex_services_def keeps_disk_def)

lemma ex_holds: "disk_ready ex_blocks" "disk_live (ex_disk k)" "\<not> bm_ReadOnly (dm_Media (ex_disk k))"
  by (simp_all add: disk_ready_def ex_blocks_def disk_live_def ex_disk_def ex_medium_def)

lemma lbas_512: "gpt_lbas 512 = 32"
  by (simp add: gpt_lbas_def block_count_def)

lemma ex_media: "bm_BlockSize (dm_Media (ex_disk k)) = 512" "bm_LastBlock (dm_Media (ex_disk k)) = k"
  by (simp_all add: ex_disk_def ex_medium_def)

lemma ex_sizes: "dev_bs (ex_disk k) = 512" "dev_blocks (ex_disk k) = unat k + 1"
  "dev_sectors (ex_disk k) = unat k - 66" "dev_start (ex_disk k) = 34"
  by (simp_all add: dev_defs ex_disk_def ex_medium_def lbas_512)


subsection \<open>The partition tables\<close>

text \<open>C20: Whatever writes and allocations of the device fail, \<open>WriteGpt\<close> reports success only if both partition
  tables are on the disk, valid and with the system partition between them. It succeeds if nothing fails and
  the device has room, and fails on every device without: by its own check, or because a block does not
  exist where the check is passed by a subtraction that wraps around. It changes no block outside the tables,
  and frees its buffers.\<close>

theorem gpt_written_or_refused:
  assumes "disk_ready d" and "512 \<le> dev_bs dm" and "dev_bs dm < 2 ^ 31" and "dev_blocks dm < 2 ^ 64"
  defines "room \<equiv> 2 * gpt_lbas (dev_bs dm) + 5 \<le> dev_blocks dm"
  shows "\<exists>d' st. WriteGpt (disk_pool dm crc) (disk_bio dm) (bm_BlockSize (dm_Media dm)) (bm_LastBlock (dm_Media dm) + 1) d =
      Some (d', st) \<and> ds_pool d' = ds_pool d \<and>
    (\<not> EFI_ERROR st \<longrightarrow> room \<and> gpt_disk crc (dev_bs dm) (dev_blocks dm) (ds_blocks d')) \<and>
    (disk_live dm \<and> room \<longrightarrow> \<not> EFI_ERROR st) \<and>
    (room \<longrightarrow> (\<forall>x. x \<notin> table_blocks (dev_bs dm) (dev_blocks dm) \<longrightarrow> ds_blocks d' x = ds_blocks d x))"
proof -
  have b: "92 \<le> dev_bs dm" using assms(2) by simp
  obtain d' st where r: "WriteGpt (disk_pool dm crc) (disk_bio dm) (bm_BlockSize (dm_Media dm)) (bm_LastBlock (dm_Media dm) + 1) d =
      Some (d', st)" "ds_pool d' = ds_pool d"
      "\<forall>x. x \<notin> (if room then table_blocks (dev_bs dm) (dev_blocks dm) else UNIV) \<longrightarrow> ds_blocks d' x = ds_blocks d x"
      "\<not> EFI_ERROR st \<longrightarrow> room \<and> ds_blocks d' = with_tables crc (dev_bs dm) (dev_blocks dm) (ds_blocks d)"
      "disk_live dm \<and> room \<longrightarrow> \<not> EFI_ERROR st"
    using device_steps(2) [OF assms(1) b assms(2-4), where crc = crc] by (auto simp: leaves_def room_def)
  moreover have "\<not> EFI_ERROR st \<longrightarrow> gpt_disk crc (dev_bs dm) (dev_blocks dm) (ds_blocks d')"
    using r(4) with_tables_valid [OF b _ assms(4), where m = "ds_blocks d'" and m0 = "ds_blocks d"] by (auto simp: room_def)
  ultimately show ?thesis by (intro exI [of _ d'] exI [of _ st]) simp
qed

theorem gpt_written_or_refused_witness:
  "(\<exists>d' st. WriteGpt (disk_pool (ex_disk 999) (\<lambda>_. 0)) (disk_bio (ex_disk 999)) 512 1000 ex_blocks = Some (d', st) \<and>
      \<not> EFI_ERROR st \<and> gpt_disk (\<lambda>_. 0) 512 1000 (ds_blocks d')) \<and>
   (\<exists>d' st. WriteGpt (disk_pool (ex_disk 9) (\<lambda>_. 0)) (disk_bio (ex_disk 9)) 512 10 ex_blocks = Some (d', st) \<and> EFI_ERROR st)"
  using gpt_written_or_refused [OF ex_holds(1), of "ex_disk 999" "\<lambda>_. 0"]
    gpt_written_or_refused [OF ex_holds(1), of "ex_disk 9" "\<lambda>_. 0"] ex_holds(2)
  by (fastforce simp: ex_sizes lbas_512 ex_media)

subsection \<open>The application returns\<close>

lemma bind_total: "m \<noteq> None \<Longrightarrow> (\<And>x. k x \<noteq> None) \<Longrightarrow> Option.bind m k \<noteq> None"
  by (cases m) simp_all

lemma with_buffer_total:
  assumes "\<And>d. k d \<noteq> None"
  shows "with_buffer ps n k d \<noteq> None"
proof -
  obtain d1 r where "ps_AllocateZeroPool ps n d = (d1, r)" by fastforce
  then show ?thesis using assms [of d1] by (cases r) (auto simp: with_buffer_def)
qed

lemma write_entries_total: "BlockSize \<noteq> 0 \<Longrightarrow> write_entries bio BlockSize Lba Ptr d \<noteq> None"
proof (induction "length Ptr" arbitrary: Lba Ptr d rule: less_induct)
  case less
  define c where "c = (if unat BlockSize < length Ptr then unat BlockSize else length Ptr)"
  have "write_entries bio BlockSize (Lba + 1) (drop c Ptr) d1 \<noteq> None" if "Ptr \<noteq> []" for d1
    using less.hyps [OF _ less.prems, of "drop c Ptr"] less.prems that by (simp add: c_def unat_gt_0 del: not_None_eq)
  then show ?case using less.prems
    by (subst write_entries.simps) (simp add: Let_def c_def [symmetric] del: not_None_eq split: prod.split)
qed

lemma entries_total: "BlockSize \<noteq> 0 \<Longrightarrow> entries_with_buffer ps bio BlockSize Lba Ptr d \<noteq> None"
  unfolding entries_with_buffer_def by (intro with_buffer_total write_entries_total)

lemma WriteProtectiveMbr_total: "512 \<le> unat BlockSize \<Longrightarrow> WriteProtectiveMbr ps bio BlockSize N d \<noteq> None"
  unfolding WriteProtectiveMbr_def by (rule with_buffer_total) (simp add: in_block_padded length_mbr_image)

lemma write_tables_total:
  assumes "512 \<le> unat BlockSize"
  shows "write_tables ps bio BlockSize N d \<noteq> None"
proof -
  have "BlockSize \<noteq> 0" using assms by auto
  note en = entries_total [OF this, of ps bio]
  have h: "in_block BlockSize (gpt_header_image (gpt_header_for c a b e f g i)) \<noteq> None" for c a b e f g i
    using assms by (simp add: in_block_padded length_gpt_header)
  show ?thesis unfolding write_tables_def Let_def
    by (simp add: bind_eq_None_conv h en split: prod.split del: not_None_eq)
qed

lemma WriteGpt_total: "512 \<le> unat BlockSize \<Longrightarrow> WriteGpt ps bio BlockSize N d \<noteq> None"
  unfolding WriteGpt_def by (auto intro!: with_buffer_total write_tables_total simp del: not_None_eq)

lemma FormatFat_total:
  assumes "512 \<le> unat BlockSize"
  shows "FormatFat ps bio BlockSize N d \<noteq> None"
proof -
  have "BlockSize \<noteq> 0" using assms by auto
  moreover have "write_boot_sectors ps bio BlockSize lo P l d \<noteq> None" for lo P l d
    unfolding write_boot_sectors_def using assms
    by (intro with_buffer_total) (auto simp: in_block_padded length_boot_image split: prod.split)
  moreover have "write_fsinfo ps bio BlockSize lo l d \<noteq> None" for lo l d
    unfolding write_fsinfo_def using assms
    by (auto intro!: with_buffer_total simp del: not_None_eq simp: in_block_padded length_fsinfo)
  moreover have "write_fats ps bio BlockSize lo l d \<noteq> None" for lo l d
    unfolding write_fats_def Let_def using assms length_fat_head [of l]
    by (intro with_buffer_total) (simp add: in_block_padded)
  ultimately show ?thesis unfolding FormatFat_def Let_def
    by (simp add: bind_eq_None_conv split: prod.split del: not_None_eq)
qed

lemma FormatBlockDevice_total: "FormatBlockDevice bs h d \<noteq> None"
proof -
  obtain Status BlockIo where o: "as_OpenBlockIo bs h d = (Status, BlockIo)" by fastforce
  let ?BS = "bm_BlockSize (bio_Media BlockIo)"
  show ?thesis
  proof (cases "?BS < 512")
    case True
    then show ?thesis by (simp add: FormatBlockDevice_def o Let_def)
  next
    case False
    then have "512 \<le> unat ?BS" by (simp add: word_less_nat_alt)
    note t = WriteProtectiveMbr_total [OF this] WriteGpt_total [OF this] FormatFat_total [OF this]
    show ?thesis unfolding FormatBlockDevice_def o prod.case Let_def
      by (simp add: bind_eq_None_conv t split: prod.split del: not_None_eq)
  qed
qed

text \<open>C37: For all arguments and whatever the services and the device answer, the application returns: no loop
  runs forever, no structure is stored beyond its buffer, and nothing is divided by zero.\<close>

theorem format_app_total: "FormatBlockAppEntry bs params Argv d \<noteq> None"
proof -
  have "CreateAndFormatRamDisk bs SizeMB d \<noteq> None" for SizeMB
    unfolding CreateAndFormatRamDisk_def Let_def
    by (simp add: bind_eq_None_conv FormatBlockDevice_total split: prod.split del: not_None_eq)
  then show ?thesis unfolding FormatBlockAppEntry_def Let_def
    by (simp add: bind_eq_None_conv FormatBlockDevice_total split: prod.split del: not_None_eq)
qed

subsection \<open>The limits of the layout\<close>

text \<open>A partition of 61 sectors is given 32 reserved sectors, two FATs of one and a cluster of 64.\<close>

lemma small_layout: "fat_layout_for 512 61 = \<lparr>fl_UseFat32 = True, fl_SecPerClus = 64, fl_FatSz = 1,
  fl_RsvdSecCnt = 32, fl_RootDirSectors = 0, fl_TotalClusters = 0\<rparr>"
  by code_simp

text \<open>C38: A device of 128 blocks of 512 bytes, on which nothing fails, is formatted beyond the end of its
  partition: the application reports success, but the cluster of the root directory covers the backup
  partition table, and all its blocks are zero.\<close>

theorem small_format_loses_backup:
  assumes "serves bs h dm crc" and "disk_ready d" and "disk_live dm" and "dev_bs dm = 512" and "dev_blocks dm = 128"
  shows "\<exists>d'. FormatBlockDevice bs h d = Some (d', EFI_SUCCESS) \<and>
    (\<forall>x. 95 \<le> x \<and> x < 128 \<longrightarrow> ds_blocks d' x = zeros 512) \<and> \<not> gpt_table_ok crc 512 (ds_blocks d') 127"
proof -
  have ro: "\<not> bm_ReadOnly (dm_Media dm)" using assms(3) by (simp add: disk_live_def)
  have b: "92 \<le> dev_bs dm" "512 \<le> dev_bs dm" "dev_bs dm < 2 ^ 31" "dev_blocks dm < 2 ^ 64"
      "2 * gpt_lbas (dev_bs dm) + 5 \<le> dev_blocks dm" by (simp_all add: assms(4,5) lbas_512)
  have bs: "bm_BlockSize (dm_Media dm) = 512" using assms(4) by (simp add: dev_bs_def word_unat_eq_iff)
  let ?BS = "bm_BlockSize (dm_Media dm)" and ?N = "bm_LastBlock (dm_Media dm) + 1"
  have "unat (last_usable ?BS ?N - first_usable ?BS + 1) = 61"
    using device_partition(2) [OF b(1,3,4,5)] by (simp add: dev_sectors_def assms(4,5) lbas_512)
  then have P: "last_usable ?BS ?N - first_usable ?BS + 1 = 61" by (simp add: word_unat_eq_iff)
  note steps = device_steps [OF _ b(1-4), where crc = crc, unfolded P, unfolded bs small_layout]
  obtain d1 st1 where 1: "WriteProtectiveMbr (disk_pool dm crc) (disk_bio dm) ?BS ?N d = Some (d1, st1)"
      "disk_ready d1" "\<not> EFI_ERROR st1"
    using steps(1) [OF assms(2)] assms(3) by (auto simp: leaves_def bs)
  obtain d2 st2 where 2: "WriteGpt (disk_pool dm crc) (disk_bio dm) ?BS ?N d1 = Some (d2, st2)"
      "disk_ready d2" "\<not> EFI_ERROR st2"
    using steps(2) [OF 1(2)] assms(3) b(5) by (auto simp: leaves_def bs)
  define l where "l = \<lparr>fl_UseFat32 = True, fl_SecPerClus = 64 :: u32, fl_FatSz = 1 :: u32,
    fl_RsvdSecCnt = 32 :: u32, fl_RootDirSectors = 0 :: u32, fl_TotalClusters = 0 :: u32\<rparr>"
  obtain d3 st3 boot where 3: "FormatFat (disk_pool dm crc) (disk_bio dm) ?BS ?N d2 = Some (d3, st3)"
      "\<not> EFI_ERROR st3" "ds_blocks d3 = with_fat 127 512 34 l boot (ds_blocks d2)"
    using steps(3) [OF 2(2)] assms(3) by (auto simp: leaves_def bs l_def dev_start_def assms(4,5) lbas_512)
  have z: "ds_blocks d3 x = zeros 512" if "95 \<le> x" "x < 128" for x
    using that by (simp add: 3(3) with_fat_def with_fats_def Let_def l_def lba_defs end_lba_def fill_blocks_def filled_def)
  define d4 where "d4 = fst (as_ConnectController bs h (fst (as_DisconnectController bs h (d3\<lparr>ds_time := ds_time d3 + 1\<rparr>))))"
  have d4: "ds_blocks d4 = ds_blocks d3" using assms(1) by (simp add: d4_def serves_def keeps_disk_def)
  have "FormatBlockDevice bs h d = Some (d4, EFI_SUCCESS)"
    using 1 2 3 unfolding format_run [OF assms(1) ro b(2)] by (simp add: d4_def)
  moreover have "le64 (zeros 512) 0 \<noteq> EFI_PTAB_HEADER_ID"
    by (simp add: le64_def le32_def zeros_def EFI_PTAB_HEADER_ID_def)
  ultimately show ?thesis using z by (intro exI [of _ d4]) (simp add: d4 gpt_table_ok_def gpt_header_ok_def Let_def)
qed

theorem small_format_loses_backup_witness:
  "\<exists>d'. FormatBlockDevice (ex_services 127 (\<lambda>_. 0)) 90 ex_blocks = Some (d', EFI_SUCCESS) \<and>
     \<not> gpt_table_ok (\<lambda>_. 0) 512 (ds_blocks d') 127"
  using small_format_loses_backup [OF ex_serves [of 127 "\<lambda>_. 0" 90] ex_holds(1,2)] by (auto simp: ex_sizes)

subsection \<open>Sizes that do not fit\<close>

lemma fat16_beyond:
  assumes "4194145 \<le> unat P" and "unat P < 2 ^ 32"
  shows "fat16_loop 512 P [0..<7] = None"
proof -
  have bs: "unat (512 :: u32) \<in> sector_sizes" by (simp add: sector_sizes_def)
  have "65524 < unat (snd (fat16_try 512 P (push_bit i 1)))" if i: "i < 7" for i
  proof (cases "unat P < 2 ^ 25")
    case True
    define C F q where "C = (2 :: nat) ^ i" and "F = fat16_sectors 512 (unat P) C" and "q = (unat P - 33) div C"
    have C: "C \<in> {1, 2, 4, 8, 16, 32, 64}"
      using i unfolding C_def by (simp add: numeral_eq_Suc less_Suc_eq) (elim disjE; simp)
    have q: "q * C \<le> unat P - 33" "unat P - 33 < q * C + C"
      using C dividend_less_times_div [of C "unat P - 33"] by (auto simp: q_def mult.commute)
    have g: "gpt_lbas 512 = 32" by (simp add: gpt_lbas_def block_count_def)
    have "F * 512 \<le> (q + 2) * 2 + 511"
      using div_times_less_eq_dividend [of "(q + 2) * 2 + 512 - 1" 512] by (simp add: F_def fat16_sectors_def q_def g)
    moreover from this have "65535 \<le> q \<or> F \<le> 256" by auto
    ultimately have "65525 * C \<le> unat P - 33 - 2 * F" using C q assms(1) by auto
    moreover have "0 < C" using C by auto
    ultimately have "65525 \<le> fat16_clusters 512 (unat P) C"
      by (simp add: fat16_clusters_def g F_def less_eq_div_iff_mult_less_eq)
    moreover have "unat (snd (fat16_try 512 P (push_bit i 1))) = fat16_clusters 512 (unat P) C"
      using fat16_try_nat(2) [OF bs _ True, of "push_bit i 1"] unat_pow [OF i] C assms(1)
      by (auto simp: C_def simp del: push_bit_of_1)
    ultimately show ?thesis by simp
  next
    case False
    have "(2 :: nat) ^ i \<le> 2 ^ 6" using i by (intro power_increasing) auto
    then show ?thesis using False fat16_try_large [of 512 P "push_bit i 1"] unat_pow [OF i] assms(2)
      by (simp del: push_bit_of_1)
  qed
  then have "\<not> fat16_found 512 P i" if "i \<in> set [0..<7]" for i
    using that by (simp add: fat16_found_def word_le_nat_alt not_le del: push_bit_of_1)
  then show ?thesis using fat16_loop_Some [of 512 P "[0..<7]"] by (cases "fat16_loop 512 P [0..<7]") blast+
qed

text \<open>What a reader makes of the FAT32 boot sector of such a partition.\<close>

lemma fat32_read:
  assumes "4194145 \<le> unat P" and "unat P < 2 ^ 32"
  defines "F2 \<equiv> fat32_pass 512 64 (unat P) (fat32_pass 512 64 (unat P) 0)"
  shows "read_bpb (padded 512 (boot_image 512 lo P (fat_layout_for 512 P))) =
      \<lparr>fp_BytsPerSec = 512, fp_SecPerClus = 64, fp_RsvdSecCnt = 32, fp_NumFATs = 2, fp_RootEntCnt = 0,
       fp_TotSec = unat P, fp_FATSz = F2\<rparr>"
    and "cluster_count (read_bpb (padded 512 (boot_image 512 lo P (fat_layout_for 512 P)))) =
      (unat P - (32 + 2 * F2)) div 64"
proof -
  have l: "fat_layout_for 512 P = fat32_layout 512 P" 
    by (simp only: fat_layout_for_def fat16_beyond [OF assms(1,2)] option.case)
  have "unat (512 :: u32) \<in> sector_sizes" "4193537 \<le> unat P" using assms(1) by (simp_all add: sector_sizes_def)
  note n = fat32_nat [OF this assms(2), simplified]
  have "fl_UseFat32 (fat32_layout 512 P)" "fl_RsvdSecCnt (fat32_layout 512 P) = 32" by (simp_all add: fat32_layout_def Let_def)
  then show r: "read_bpb (padded 512 (boot_image 512 lo P (fat_layout_for 512 P))) =
      \<lparr>fp_BytsPerSec = 512, fp_SecPerClus = 64, fp_RsvdSecCnt = 32, fp_NumFATs = 2, fp_RootEntCnt = 0,
       fp_TotSec = unat P, fp_FATSz = F2\<rparr>"
    unfolding l F2_def using n assms(2) by (subst fat32_boot_read) (simp_all add: sector_sizes_def)
  show "cluster_count (read_bpb (padded 512 (boot_image 512 lo P (fat_layout_for 512 P)))) =
      (unat P - (32 + 2 * F2)) div 64"
    unfolding r by (simp add: cluster_count_def first_data_sector_def root_dir_sectors_def)
qed

lemma fat32_pass_bounds:
  obtains t where "t * 64 \<le> P - 32 - 2 * F" and "P - 32 - 2 * F < t * 64 + 64"
    and "fat32_pass 512 64 P F * 512 \<le> 4 * t + 519" and "4 * t + 519 < fat32_pass 512 64 P F * 512 + 512"
proof -
  have "x div k * k \<le> x" "x < x div k * k + k" if "0 < k" for x k :: nat
    using that dividend_less_times_div [of k x] by (simp_all add: mult.commute)
  note d = this [of 64 "P - 32 - 2 * F"] this [of 512 "4 * ((P - 32 - 2 * F) div 64) + 519"]
  have "fat32_pass 512 64 P F = (4 * ((P - 32 - 2 * F) div 64) + 519) div 512" by (simp add: fat32_pass_def add.commute mult.commute)
  then show thesis using d that [of "(P - 32 - 2 * F) div 64"] by simp
qed

lemma div_nat: "n * S \<le> x \<Longrightarrow> x < n * S + S \<Longrightarrow> x div S = (n :: nat)"
  by (rule div_nat_eqI) (simp_all add: mult.commute)

text \<open>C39: On sectors of 512 bytes every partition of 4194145 to 4194655 sectors, just above the largest that FAT16
  takes, gets a FAT32 boot sector (no root directory entries) whose number of clusters is below 65525, so
  that a reader by the FAT specification takes the volume for FAT16.\<close>

theorem fat32_too_small:
  assumes "4194145 \<le> unat P" and "unat P < 4194656"
  shows "fl_UseFat32 (fat_layout_for 512 P) \<and>
    (let p = read_bpb (padded 512 (boot_image 512 lo P (fat_layout_for 512 P))) in
     fp_RootEntCnt p = 0 \<and> cluster_count p < 65525 \<and> fat_type_of p = FAT16)"
proof -
  have lt: "unat P < 2 ^ 32" using assms(2) by simp
  define F1 where "F1 = fat32_pass 512 64 (unat P) 0"
  define F2 where "F2 = fat32_pass 512 64 (unat P) F1"
  note r = fat32_read [OF assms(1) lt, of lo, folded F1_def, folded F2_def]
  have "F1 \<le> 513" unfolding F1_def by (rule fat32_pass_bounds [of "unat P" 0]) (use assms in linarith)
  moreover obtain t where "t * 64 \<le> unat P - 32 - 2 * F1" "unat P - 32 - 2 * F1 < t * 64 + 64"
      "F2 * 512 \<le> 4 * t + 519" "4 * t + 519 < F2 * 512 + 512"
    unfolding F2_def by (rule fat32_pass_bounds)
  ultimately have "512 \<le> F2" "F2 \<le> 513" using assms by linarith+
  then have "(unat P - (32 + 2 * F2)) div 64 < 65525" "4085 \<le> (unat P - (32 + 2 * F2)) div 64"
    using assms by linarith+
  moreover have "fl_UseFat32 (fat_layout_for 512 P)"
    unfolding fat_layout_for_def fat16_beyond [OF assms(1) lt] option.case by (simp add: fat32_layout_def Let_def)
  ultimately show ?thesis unfolding Let_def fat_type_of_def r(2) unfolding r(1) by simp
qed

theorem fat32_too_small_witness:
  "fl_UseFat32 (fat_layout_for 512 4194300) \<and>
    (let p = read_bpb (padded 512 (boot_image 512 34 4194300 (fat_layout_for 512 4194300))) in
     fp_RootEntCnt p = 0 \<and> cluster_count p < 65525 \<and> fat_type_of p = FAT16)"
  by (rule fat32_too_small) simp_all



end
