(* ===== verification/Spec2Isabelle.thy ===== *)
theory Spec2Isabelle
  imports FileSystem FileAccess LoaderBoot SpiNor BoardInfo SpiBoot FlashBoot I2cBoard Network FormatDisks
begin

text \<open>
  A verification development for the UEFI firmware of the MikroTik CCR2004-1G-2XS-PCIe
  (\<open>src/\<close>): the way from the SPI flash to the firmware, and from the NAND flash to the started kernel, the
  I2C buses of the board, its network interface, and the tool that formats a disk.

  \<^bold>\<open>The program.\<close> \<open>Drivers/AlNandDxe\<close> drives the NAND controller through the vendor's HAL and publishes
  a flash protocol (\<open>Include/Protocol/MikroTikNandFlash.h\<close>). \<open>Drivers/MtYaffs2Dxe\<close> scans the flash
  through that protocol, builds the object tree of the YAFFS2 file system in memory and serves it as a
  read-only UEFI file system. \<open>Application/RouterOSLoader\<close> reads the RouterOS package from a file
  system, parses it, extracts the kernel and the initial RAM disk, and starts the kernel.
  Below the firmware, \<open>SpiLoader\<close> is the first stage: it loads an ELF image from the SPI flash and starts
  it. \<open>Drivers/SpiNorFlashDxe\<close> drives the same flash in the firmware, and \<open>Drivers/BoardInfoDxe\<close> reads the
  board's name, serial number and MAC address from it; \<open>Application/FlashApp\<close> writes a new image to it.
  \<open>Drivers/DwI2cDxe\<close> drives the two I2C controllers and publishes a bus master for each;
  \<open>Drivers/Pca954xDxe\<close> makes four more masters, one for each channel of the switch on the second bus;
  \<open>Drivers/FanDxe\<close> keeps the fan controller on that bus awake, and
  \<open>Application/BoardI2cEepromProbeApp\<close> prints the EEPROMs it finds. \<open>Drivers/AlEthNextDxe\<close> serves the
  simple network protocol with the two DMA queues of the vendor's HAL. \<open>Application/FormatBlockApp\<close> gives a
  block device a GUID partition table with one EFI system partition and a FAT file system in it.

  \<^bold>\<open>Theories, from the bottom.\<close>
  \<^item> \<open>Prelude\<close>: words, byte buffers, checked reads, UEFI status codes, C strings.
  \<^item> \<open>NandFlash\<close>: the flash protocol as a record and its contract, the locale \<open>nand_flash\<close>.
  \<^item> \<open>AlNandHal\<close>: the read path of \<open>Library/AlpineHalLib/drivers/pbs/al_hal_nand.c\<close> over a register bus.
  \<^item> \<open>AlNand\<close>: \<open>AlNandDxe.c\<close>: page, tag and block reads, bad blocks, the protocol; it interprets
    \<open>nand_flash\<close>. \<open>NandChip\<close>: the driver against a model of a flash chip behind the registers, a
    second interpretation, with the chip's contents.
  \<^item> \<open>Yaffs2Scan\<close>: \<open>Scan.c\<close> as it is written. \<open>Yaffs2Volume\<close>: the invariant of the volume and its
    preservation. \<open>Yaffs2Events\<close>: what a sequence of pages does to the volume. \<open>Yaffs2ScanRun\<close>,
    \<open>Yaffs2Content\<close>: the scan yields the events of the flash contents. \<open>Yaffs2Tree\<close>: \<open>BuildTree\<close>.
  \<^item> \<open>Yaffs2Open\<close> (\<open>Open.c\<close>), \<open>Yaffs2Read\<close> (\<open>ReadDir.c\<close>), \<open>Yaffs2Info\<close> (\<open>Info.c\<close>, \<open>Volume.c\<close>): the file
    protocol, with the specification of a path lookup and of a file's bytes.
  \<^item> \<open>EfiFile\<close>: the file protocol as the loader uses it, with the contract \<open>efi_files\<close>;
    \<open>Yaffs2Files\<close>: the YAFFS2 driver keeps that contract.
  \<^item> \<open>NpkParser\<close> (\<open>npk_parser.c\<close>, with a log of what it allocates and frees), \<open>KernelExtract\<close>
    (\<open>KernelExtract.c\<close>), \<open>RouterOSLoader\<close> (\<open>RouterOSLoader.c\<close>, \<open>KernelBoot.c\<close>): the loader.
    \<open>KernelImage\<close>: the PE and ELF formats in natural numbers, and that the extraction finds what they say.
  \<^item> \<open>SpiHal\<close>: \<open>al_hal_spi.c\<close> over a register bus. \<open>SpiController\<close>: a model of the controller behind the
    registers with a slave; the contract of a transfer, the locales \<open>spi_device\<close> and
    \<open>live_spi_device\<close>, and the proof that the HAL keeps it on the controller if that shifts at most 8
    bytes between two polls; and that a read returns whatever it does.
  \<^item> \<open>SpiNorFlash\<close>: \<open>SpiNorFlashDxe.c\<close> over the two transfers. \<open>NorChip\<close>: a model of the flash chip; the
    locale \<open>nor_flash\<close> proves the driver's operations for any \<open>spi_device\<close> with that chip, and is
    interpreted on the HAL and the controller. \<open>SpiNor\<close>: the properties of both.
  \<^item> \<open>BoardInfo\<close>: \<open>BoardInfoDxe.c\<close>.
  \<^item> \<open>LoaderSupport\<close> (\<open>Support.c\<close>, with the locale \<open>uart\<close> and a 16550), \<open>SpiLoader\<close> (\<open>SpiFlash.c\<close>,
    \<open>ElfLoader.c\<close>, \<open>Main.c\<close>), \<open>SpiBoot\<close> (the locales \<open>spl_console\<close>, \<open>spl_reader\<close> and \<open>spi_loader\<close>, their interpretations on the models of
    the controller, the chip and the console, and the properties): the first-stage loader.
  \<^item> \<open>FlashApp\<close>: \<open>FlashApp.c\<close> over the flash protocol, with the contract of a flash, the locale \<open>nor_store\<close>,
    interpreted on the driver; \<open>FlashBoot\<close>: its properties, and an image it writes being booted.
  \<^item> \<open>I2cMaster\<close>: devices on an I2C bus, the meaning of a request, the bus-master protocol and its
    contract, the locales \<open>i2c_bus\<close> and \<open>i2c_segment\<close>. \<open>I2cHandles\<close>: the search for a master.
  \<^item> \<open>DwI2c\<close>: \<open>DwI2cDxe.c\<close> over its registers. \<open>DwController\<close>: a model of the controller; \<open>DwTransfer\<close> and
    \<open>DwRequest\<close>: the driver on it, up to the interpretation of \<open>i2c_bus\<close>.
  \<^item> \<open>Pca954x\<close>: \<open>Pca954xDxe.c\<close>. \<open>Pca9546\<close>: a model of the switch, and the contract of a child from that of
    its parent, the locales \<open>pca_switch\<close> and \<open>pca_channel\<close>, a sublocale of \<open>i2c_bus\<close>.
  \<^item> \<open>FanDxe\<close> (\<open>FanDxe.c\<close>, the locale \<open>fan_client\<close>), \<open>I2cEeprom\<close> (\<open>BoardI2cEepromProbeApp.c\<close>, a model of the
    EEPROM, the locale \<open>eeprom_client\<close>), \<open>I2cBoard\<close>: the interpretations on the controller and the properties.
  \<^item> \<open>Udma\<close>: the queues of the DMA engine, \<open>al_hal_udma.h\<close> and \<open>al_hal_udma_main.c\<close>; \<open>UdmaRing\<close>: what their
    indices and ring ids stand for. \<open>AlEthQueue\<close>: the data path of \<open>al_hal_eth_main.c\<close>. \<open>AlEthNext\<close>:
    \<open>AlEthNextDxe.c\<close>. \<open>EthRx\<close>, \<open>EthRxRun\<close>: the contract of a receive engine, the locale \<open>rx_engine\<close>, and
    \<open>Receive\<close> from it; \<open>EthTx\<close>: the same for sending, the locale \<open>tx_engine\<close>. \<open>EthMachine\<close>: a model of the
    adapter and both interpretations; \<open>EthStart\<close> (the locale \<open>quiet_ops\<close>), \<open>EthUp\<close>: its initialization;
    \<open>Network\<close>: the properties.
  \<^item> \<open>FormatBlock\<close>, \<open>FormatFat\<close>, \<open>FormatApp\<close>: \<open>FormatBlockApp.c\<close>: the tables, the file system, the rest.
    \<open>FormatDisk\<close>: the contract of a block device, the locale \<open>block_store\<close>. \<open>FormatGpt\<close>: the tables as a
    reader of the UEFI specification finds them. \<open>FormatGeometry\<close>: the sizes of the file system in natural
    numbers. \<open>FormatVolume\<close>: the file system as a reader of the FAT specification finds it.
    \<open>FormatDevice\<close>: a model of a disk that may fail, the interpretation and the main property;
    \<open>FormatDisks\<close>: the other properties.
  \<^item> \<open>Yaffs2Example\<close>: concrete inputs. \<open>FileSystem\<close>, \<open>FileAccess\<close>, \<open>Loader\<close>, \<open>LoaderBoot\<close>: the properties,
    numbered \<open>C1\<close>, \<open>C2\<close> and so on, each after the lemmas of its component.

  \<^bold>\<open>State and operations.\<close> A struct is a record with the C fields' names; the array of objects is a list
  of options indexed by object id, the doubly linked list of children the list of their ids. An
  operation is a function of the same name that returns the new state and the status. A memory access
  outside an object, a null dereference and a loop without end are \<^const>\<open>None\<close>, so that
  \<^const>\<open>Some\<close> is memory safety and termination; allocation is a parameter that may fail at any
  point. Integers have the width of the C code.

  \<^bold>\<open>What the lemmas show.\<close> The driver serves what the chip holds. The scan is safe on any contents and
  yields exactly the newest chunks and headers, as long as the object ids are below the value at which the
  code's capacity computation wraps around; the tree has every live object below its parent or the
  root. Opening a path is the lookup of its names, reading a file gives its bytes, reading a directory
  each child once. The package parser is safe on any input and inverts the package format. The
  extraction finds the two streams. The last theorem composes all: from a mounted volume to the
  running kernel. Where the code fails, there is a theorem too: the conditions under which it reads
  out of bounds or cuts an address. On the SPI side a transfer on a controller that moves one to eight bytes at every
  look succeeds and yields the slave's answers; writing changes exactly the bytes of its range, and what
  was erased and written is read back; the board information is what its block says; the first-stage
  loader never writes over itself, and it starts a valid image with its segments in place.
  On the I2C side a request succeeds exactly if the devices acknowledge all of it, and always leaves the
  controller idle and the lock free; a child of the switch is a bus of its own; the fan controller gets its
  command, and the EEPROM is found and printed. The network driver, initialized from power-on, delivers the
  good frames of the wire in their order and sends the frames it accepts in theirs. A disk of ordinary size
  is formatted as the specifications want it; the sizes for which it is not are there too.

  \<^bold>\<open>Parameters and hypotheses.\<close> Register access is a bus, the flash chip a model of its documented
  commands; zlib, the XZ decoder, the device tree library, boot services and allocators are records
  of functions, and what a theorem relies on of them is stated in it and instantiated in its
  witness. Loops whose bound is in the code are recursions on that bound; polling loops carry the
  driver's timeout; the wait for the console's transmitter has no bound in the code and is a
  \<open>partial_function\<close>, which returns on the model of the console; the inflate loop is a \<open>partial_function\<close>, and its termination is proved from the
  decoder's progress.

  \<^bold>\<open>The hardware models.\<close> The SPI controller has FIFOs of 32 bytes. As the comments in \<open>al_hal_spi_regs.h\<close>
  and \<open>al_hal_spi.c\<close> say, it selects the slave while its select register is not 0, it is enabled, and
  it has bytes to send: when the transmit FIFO runs empty it releases the select line, which ends
  the transfer, unless the override \<open>SSI_OVR\<close> is set, which the code never does. A byte that arrives when
  the receive FIFO is full is lost. Between two register accesses it shifts the number of bytes a schedule
  \<open>pace\<close> gives; \<^const>\<open>never_stalls\<close> says that it is never 0, \<^const>\<open>keeps_up\<close> that it is at most 8. The HAL
  polls the FIFO and fills it up, so with 8 bytes at most between two polls the FIFO does not run empty
  inside a transfer; without such a bound a transfer is cut in two, and no property claims its data.
  What a transfer must not do, and that it returns, holds for every schedule.
  The flash chip executes a program or an erase when it is deselected, is busy for a number of status
  reads, and refuses both while a protection bit of its first status register is set.

  The I2C controller puts commands into a FIFO of up to 256 places and executes as many of them between two
  accesses as a schedule says; a missing acknowledge empties the FIFO, which takes nothing until the
  interrupt is cleared. The polls of the driver, up to 100000, are enough if the schedule is never 0
  (\<^const>\<open>bus_never_stalls\<close>). Addresses have 7 bits. The switch takes over its control byte at the stop
  condition. That a device leaves a bus visit at another address without a trace is a law of
  \<open>pca_switch\<close>, proved for the EEPROMs; a child serves every address but that of the switch itself.

  The network adapter has two engines that advance when their queue is accessed, by the number of frames a
  schedule gives. The receive engine takes a descriptor if its ring id is that of the lap, puts the next
  frame of the wire into its buffer and its completion into the ring; a frame has at most 2048 bytes and one
  buffer. The transmit engine sends the bytes a descriptor names when it gets to it. The register sequences of
  the MAC, the EC and the MDIO bus do nothing but answer. Cache maintenance is left out: the rings and the
  receive buffers are uncached.

  The disk has a medium with a last block and a block size, and a pool of buffers; any write and any
  allocation may fail, at the times two predicates say, and a failing write leaves anything in its block.
  The structures of the UEFI and FAT specifications, which the code includes from the UEFI headers, are byte
  images, and the readers of theory \<open>FormatGpt\<close> and \<open>FormatGeometry\<close> follow those specifications. The main
  property is for blocks of 512 to 4096 bytes and 4152 to \<open>2 ^ 32\<close> sectors, but for the 511 sizes of
  \<open>size_ok\<close>.

  \<^bold>\<open>Not modelled.\<close> The vendored decoders (zlib, xz) and the vendor HAL beyond the NAND read path, the SPI
  controller, the DMA queues and the data path of Ethernet: register sequences of the MAC, the engines and
  clocks. The UEFI driver bindings, the installation of protocols, and
  the events that connect the I2C host driver. The platform libraries and the other
  diagnostic applications: register sequences and calls of firmware services.
\<close>

end
